(* ===== verification/Flex_Prelude.thy ===== *)
theory Flex_Prelude
  imports Complex_Main "HOL-Library.AList" "HOL-Library.Multiset"
begin

text \<open>
  The prelude of the development: the JavaScript values and containers the sources use, the
  lemma collections the component theories share, and generic facts on association lists, lists
  and integers.

  \<^item> A JavaScript \<open>Map\<close> iterates in insertion order, \<open>set\<close> on a present key keeps its position
    and on a new key appends, \<open>delete\<close> removes. That is \<open>AList.update\<close> and \<open>AList.delete\<close> on an
    association list with distinct keys; \<open>jsmap_ok\<close> is the distinctness.
  \<^item> A value of type \<open>unknown\<close> or \<open>number\<close> that reaches a sanitiser is a \<open>js_value\<close>. Everywhere
    else numbers are integers: times are epoch milliseconds, counts are exact below \<open>2 ^ 53\<close>.
  \<^item> \<open>Date.now()\<close> is an argument \<open>now\<close>. All clock reads of one synchronous stretch of code get the
    same value.
\<close>

section \<open>Collections and type names\<close>

named_theorems store_defs \<open>definitions of store operations, for unfolding one operation\<close>
named_theorems js_simps \<open>rewrite rules for JavaScript values and maps\<close>

type_synonym key = string
type_synonym time = int
type_synonym ('k, 'v) jsmap = "('k \<times> 'v) list"

section \<open>JavaScript values seen by the sanitisers\<close>

text \<open>What \<open>typeof\<close> and \<open>Number.isFinite\<close> distinguish of an \<open>unknown\<close>: a finite number is a
  rational (every finite double is one).\<close>

datatype js_value = Undefined | NaN | PosInf | NegInf | Num rat | NonNumber

definition js_int :: "int \<Rightarrow> js_value" where
  "js_int n = Num (of_int n)"

text \<open>\<open>v ?? d\<close>.\<close>

definition js_or :: "js_value \<Rightarrow> js_value \<Rightarrow> js_value" where
  "js_or v d = (case v of Undefined \<Rightarrow> d | _ \<Rightarrow> v)"

lemma js_or_simps [simp, js_simps]:
  "js_or Undefined d = d"
  "js_or NaN d = NaN" "js_or PosInf d = PosInf" "js_or NegInf d = NegInf"
  "js_or (Num r) d = Num r" "js_or NonNumber d = NonNumber"
  "js_or (js_int n) d = js_int n"
  by (simp_all add: js_or_def js_int_def)

section \<open>JavaScript maps as association lists\<close>

definition jsmap_ok :: "('k, 'v) jsmap \<Rightarrow> bool" where
  "jsmap_ok m \<longleftrightarrow> distinct (map fst m)"

definition jsmap_has :: "('k, 'v) jsmap \<Rightarrow> 'k \<Rightarrow> bool" where
  "jsmap_has m k \<longleftrightarrow> map_of m k \<noteq> None"

lemma jsmap_ok_Nil [simp]: "jsmap_ok []"
  by (simp add: jsmap_ok_def)

lemma jsmap_ok_update [simp]: "jsmap_ok m \<Longrightarrow> jsmap_ok (AList.update k v m)"
  by (simp add: jsmap_ok_def distinct_update)

lemma jsmap_ok_delete [simp]: "jsmap_ok m \<Longrightarrow> jsmap_ok (AList.delete k m)"
  by (simp add: jsmap_ok_def distinct_delete)

lemma jsmap_ok_filter [simp]: "jsmap_ok m \<Longrightarrow> jsmap_ok (filter P m)"
  by (simp add: jsmap_ok_def distinct_map_filter)

lemma map_of_update [simp, js_simps]:
  "map_of (AList.update k v m) k' = (if k' = k then Some v else map_of m k')"
  by (simp add: update_conv')

lemma map_of_delete_if [js_simps]:
  "map_of (AList.delete k m) k' = (if k' = k then None else map_of m k')"
  by (simp add: delete_conv')

lemma map_of_delete_same [simp]: "map_of (AList.delete k m) k = None"
  by (simp add: delete_conv')

lemma set_deleteD: "p \<in> set (AList.delete k m) \<Longrightarrow> p \<in> set m \<and> fst p \<noteq> k"
  by (auto simp: AList.delete_eq)

lemma set_updateD: "p \<in> set (AList.update k v m) \<Longrightarrow> p = (k, v) \<or> p \<in> set m"
  by (induction m) (auto split: if_splits)

lemma length_update:
  "length (AList.update k v m) = (if jsmap_has m k then length m else Suc (length m))"
  by (induction m) (auto simp: jsmap_has_def)

lemma update_absent: "map_of m k = None \<Longrightarrow> AList.update k v m = m @ [(k, v)]"
  by (induction m) (auto split: if_splits)

lemma delete_absent: "map_of m k = None \<Longrightarrow> AList.delete k m = m"
  by (simp add: delete_id map_of_eq_None_iff)

lemma length_delete_present:
  "jsmap_ok m \<Longrightarrow> map_of m k = Some v \<Longrightarrow> Suc (length (AList.delete k m)) = length m"
proof (induction m)
  case (Cons p m)
  show ?case
  proof (cases "fst p = k")
    case True
    with Cons.prems have "k \<notin> fst ` set m" by (auto simp: jsmap_ok_def)
    with True show ?thesis by (cases p) simp
  next
    case False
    with Cons show ?thesis by (cases p) (auto simp: jsmap_ok_def)
  qed
qed simp

lemma length_delete_Cons [simp]: "length (AList.delete k ((k, v) # m)) \<le> length m"
  by (simp add: length_delete_le)

lemma jsmap_ok_in_set: "jsmap_ok m \<Longrightarrow> (k, v) \<in> set m \<longleftrightarrow> map_of m k = Some v"
  by (simp add: jsmap_ok_def)

lemma map_of_filter_key:
  "jsmap_ok m \<Longrightarrow>
   map_of (filter P m) k = (case map_of m k of None \<Rightarrow> None | Some v \<Rightarrow> if P (k, v) then Some v else None)"
  by (induction m) (auto simp: jsmap_ok_def map_of_eq_None_iff split: option.splits dest: map_of_SomeD)

lemma map_of_map_snd: "map_of (map (\<lambda>(k, v). (k, f k v)) m) k = map_option (f k) (map_of m k)"
  by (induction m) auto

lemma jsmap_ok_map_snd: "jsmap_ok (map (\<lambda>(k, v). (k, f k v)) m) = jsmap_ok m"
  by (simp add: jsmap_ok_def comp_def case_prod_unfold)

section \<open>Lists and integers\<close>

lemma take_length_append: "n = length xs \<Longrightarrow> take n (xs @ ys) = xs"
  by simp

lemma filter_replicate_self: "P x \<Longrightarrow> filter P (replicate n x) = replicate n x"
  by (induction n) auto

lemma div_mult_le_self: "0 < (b::int) \<Longrightarrow> (a div b) * b \<le> a"
  by (metis add.commute div_mult_mod_eq le_add_same_cancel2 pos_mod_sign)

lemma less_div_mult_plus: "0 < (b::int) \<Longrightarrow> a < (a div b) * b + b"
  by (metis add_strict_left_mono div_mult_mod_eq pos_mod_bound)

end
