(* ===== verification/Clamp.thy ===== *)
theory Clamp
  imports Flex_Prelude
begin

text \<open>
  The sanitisers of \<open>src/utils/clamp.ts\<close>, which every component applies to user-supplied numbers,
  and the key helpers of \<open>src/utils/key-hygiene.ts\<close>. All four sanitisers are one scheme: a finite
  number is floored, compared with a lower bound and clipped at \<open>Number.MAX_SAFE_INTEGER\<close>;
  everything else gives the fallback.
\<close>

section \<open>Sanitisers (utils/clamp.ts)\<close>

definition MAX_SAFE_INTEGER :: int where
  "MAX_SAFE_INTEGER = 9007199254740991"

definition sanitizeRateLimitCap :: "js_value \<Rightarrow> int \<Rightarrow> int" where
  "sanitizeRateLimitCap v fallback =
     (case v of
        Num r \<Rightarrow> (let n = \<lfloor>r\<rfloor> in if n \<ge> 1 then min n MAX_SAFE_INTEGER else fallback)
      | _ \<Rightarrow> fallback)"

definition sanitizeIncrementCost :: "js_value \<Rightarrow> int \<Rightarrow> int" where
  "sanitizeIncrementCost v fallback =
     (case v of
        Num r \<Rightarrow> (let n = \<lfloor>r\<rfloor> in if n \<ge> 1 then min n MAX_SAFE_INTEGER else fallback)
      | _ \<Rightarrow> fallback)"

definition sanitizeWindowMs :: "js_value \<Rightarrow> int \<Rightarrow> int" where
  "sanitizeWindowMs v fallback =
     (case v of
        Num r \<Rightarrow> (let n = \<lfloor>r\<rfloor> in if n \<ge> 1 then min n MAX_SAFE_INTEGER else fallback)
      | _ \<Rightarrow> fallback)"

definition sanitizePenaltyDurationMs :: "js_value \<Rightarrow> int \<Rightarrow> int" where
  "sanitizePenaltyDurationMs v fallback =
     (case v of
        Num r \<Rightarrow> (let n = \<lfloor>r\<rfloor> in if n \<ge> 0 then min n MAX_SAFE_INTEGER else fallback)
      | _ \<Rightarrow> fallback)"

lemma sanitize_ge1:
  "1 \<le> d \<Longrightarrow> 1 \<le> sanitizeRateLimitCap v d"
  "1 \<le> d \<Longrightarrow> 1 \<le> sanitizeIncrementCost v d"
  "1 \<le> d \<Longrightarrow> 1 \<le> sanitizeWindowMs v d"
  by (auto simp: sanitizeRateLimitCap_def sanitizeIncrementCost_def sanitizeWindowMs_def
      MAX_SAFE_INTEGER_def Let_def split: js_value.splits)

lemma sanitizePenaltyDurationMs_nonneg: "0 \<le> d \<Longrightarrow> 0 \<le> sanitizePenaltyDurationMs v d"
  by (auto simp: sanitizePenaltyDurationMs_def MAX_SAFE_INTEGER_def Let_def split: js_value.splits)

lemma sanitizeIncrementCost_ge1 [simp]: "1 \<le> sanitizeIncrementCost v 1"
  by (simp add: sanitize_ge1)

lemma sanitizeIncrementCost_pos [simp]: "0 < sanitizeIncrementCost v 1"
  using sanitizeIncrementCost_ge1 [of v] by linarith

lemma sanitize_idem_int:
  "1 \<le> n \<Longrightarrow> n \<le> MAX_SAFE_INTEGER \<Longrightarrow> sanitizeRateLimitCap (js_int n) d = n"
  "1 \<le> n \<Longrightarrow> n \<le> MAX_SAFE_INTEGER \<Longrightarrow> sanitizeIncrementCost (js_int n) d = n"
  "1 \<le> n \<Longrightarrow> n \<le> MAX_SAFE_INTEGER \<Longrightarrow> sanitizeWindowMs (js_int n) d = n"
  by (simp_all add: sanitizeRateLimitCap_def sanitizeIncrementCost_def sanitizeWindowMs_def js_int_def)

text \<open>\<open>sanitizeRateLimitCap(x, x)\<close>, which the stores apply to their own cap, changes nothing
  on a cap that is already an integer below the safe bound.\<close>

lemma sanitize_self:
  "n \<le> MAX_SAFE_INTEGER \<Longrightarrow> sanitizeRateLimitCap (js_int n) n = n"
  by (simp add: sanitizeRateLimitCap_def js_int_def Let_def)

lemma sanitize_le_MAX:
  "d \<le> MAX_SAFE_INTEGER \<Longrightarrow> sanitizeRateLimitCap v d \<le> MAX_SAFE_INTEGER"
  "d \<le> MAX_SAFE_INTEGER \<Longrightarrow> sanitizeIncrementCost v d \<le> MAX_SAFE_INTEGER"
  "d \<le> MAX_SAFE_INTEGER \<Longrightarrow> sanitizeWindowMs v d \<le> MAX_SAFE_INTEGER"
  by (auto simp: sanitizeRateLimitCap_def sanitizeIncrementCost_def sanitizeWindowMs_def
      Let_def split: js_value.splits)

lemma sanitizeIncrementCost_le_MAX [simp]: "sanitizeIncrementCost v 1 \<le> MAX_SAFE_INTEGER"
  by (rule sanitize_le_MAX) (simp add: MAX_SAFE_INTEGER_def)

lemma sanitizeIncrementCost_twice [simp]:
  "sanitizeIncrementCost (js_int (sanitizeIncrementCost v 1)) 1 = sanitizeIncrementCost v 1"
  by (rule sanitize_idem_int) simp_all

section \<open>Key helpers (utils/key-hygiene.ts)\<close>

definition truncateStorageKey :: "string \<Rightarrow> nat \<Rightarrow> string" where
  "truncateStorageKey input maxUnits =
     (if length input \<le> maxUnits then input else take maxUnits input)"

text \<open>\<open>s.indexOf(c)\<close>: the first position of \<open>c\<close>, \<open>-1\<close> when there is none.\<close>

fun js_indexOf :: "string \<Rightarrow> char \<Rightarrow> int" where
  "js_indexOf [] c = -1"
| "js_indexOf (x # xs) c =
     (if x = c then 0 else let i = js_indexOf xs c in if i < 0 then -1 else i + 1)"

definition stripIpV6ZoneId :: "string \<Rightarrow> string" where
  "stripIpV6ZoneId candidate =
     (let i = js_indexOf candidate (CHR ''%'') in if i \<ge> 0 then take (nat i) candidate else candidate)"

lemma js_indexOf_neg: "js_indexOf s c < 0 \<longleftrightarrow> c \<notin> set s"
  by (induction s) (auto simp: Let_def)

lemma js_indexOf_take: "c \<in> set s \<Longrightarrow> take (nat (js_indexOf s c)) s = takeWhile (\<lambda>x. x \<noteq> c) s"
proof (induction s)
  case (Cons x s)
  show ?case
  proof (cases "x = c")
    case False
    with Cons.prems have "c \<in> set s" by simp
    moreover from this have "0 \<le> js_indexOf s c" using js_indexOf_neg [of s c] by auto
    ultimately show ?thesis using Cons.IH False by (simp add: Let_def nat_add_distrib)
  qed simp
qed simp

lemma stripIpV6ZoneId_takeWhile: "stripIpV6ZoneId s = takeWhile (\<lambda>c. c \<noteq> CHR ''%'') s"
  using js_indexOf_neg [of s "CHR ''%''"] js_indexOf_take [of "CHR ''%''" s]
  by (auto simp: stripIpV6ZoneId_def Let_def not_less [symmetric]
      intro!: takeWhile_eq_all_conv [THEN iffD2, symmetric])

text \<open>SHA-256 is not code of this repository: the digest is the parameter \<open>sha256hex\<close>.\<close>

definition hashStorageKeyFingerprint :: "(string \<Rightarrow> string) \<Rightarrow> string \<Rightarrow> int \<Rightarrow> string" where
  "hashStorageKeyFingerprint sha256hex input hexLength =
     (let full = sha256hex input; n = min 64 (max 8 hexLength) in take (nat n) full)"

lemma truncateStorageKey_length: "length (truncateStorageKey s n) = min (length s) n"
  by (simp add: truncateStorageKey_def min_def)

lemma stripIpV6ZoneId_idem: "stripIpV6ZoneId (stripIpV6ZoneId s) = stripIpV6ZoneId s"
  by (simp add: stripIpV6ZoneId_takeWhile takeWhile_takeWhile)

lemma hashStorageKeyFingerprint_length:
  "length (sha s) = 64 \<Longrightarrow>
   length (hashStorageKeyFingerprint sha s n) = nat (min 64 (max 8 n))"
  by (simp add: hashStorageKeyFingerprint_def Let_def)

end
