(* ===== verification/Flex_Types.thy ===== *)
theory Flex_Types
  imports Clamp
begin

text \<open>
  The shared types of \<open>src/types/index.ts\<close> and \<open>src/composition/types.ts\<close>: the strategy
  enumeration, the results of an increment (with the optional fields a composed store adds), the
  option objects of \<open>increment\<close> and \<open>decrement\<close>, and the method table of a \<open>RateLimitStore\<close>.

  A store object is a state of some type \<open>'s\<close> and a method call is an entry of \<open>'s store_ops\<close>
  applied to it. A rejected promise is \<open>Inl\<close> of the message. The optional methods (\<open>get?\<close>,
  \<open>set?\<close>, \<open>delete?\<close>, \<open>getActiveKeys?\<close>, \<open>resetAll?\<close>) are \<open>None\<close> on stores without them.
  The locale \<open>rate_limit_store\<close> is the contract the components above a store rely on; it is
  interpreted on the in-memory store and on the shield.
\<close>

section \<open>Enumerations and results (types/index.ts, composition/types.ts)\<close>

datatype strategy = SLIDING_WINDOW | TOKEN_BUCKET | FIXED_WINDOW

datatype comp_mode = ModeAll | ModeOverflow | ModeFirstAvailable | ModeRace

text \<open>JSON values in bodies and metadata. A date is written with \<open>toISOString\<close>, kept as its instant;
  numbers are integers.\<close>

datatype json =
    JString string
  | JBool bool
  | JNumber int
  | JNull
  | JDate time
  | JArray "json list"
  | JObject "(string \<times> json) list"

text \<open>\<open>ComposedLayerRow\<close>; the inner rows of a nested composition are keyed by label.\<close>

datatype layer_row = LayerRow
  (row_totalHits: int) (row_remaining: int) (row_resetTime: int) (row_isBlocked: bool)
  (row_consulted: bool) (row_error: "string option")
  (row_innerLayers: "(string \<times> layer_row) list option")

record rl_result =
  totalHits :: int
  remaining :: int
  resetTime :: time
  isBlocked :: bool
  storeUnavailable :: bool
  res_mode :: "comp_mode option"
  decidingLayer :: "string option"
  decidingPath :: "string option"
  res_layers :: "(string \<times> layer_row) list option"

text \<open>A result object literal \<open>{ totalHits, remaining, resetTime, isBlocked }\<close>: the optional
  fields are absent (\<open>storeUnavailable\<close> is only ever tested for truth).\<close>

definition plain_result :: "int \<Rightarrow> int \<Rightarrow> time \<Rightarrow> bool \<Rightarrow> rl_result" where
  "plain_result th rem rt b =
     \<lparr>totalHits = th, remaining = rem, resetTime = rt, isBlocked = b, storeUnavailable = False,
      res_mode = None, decidingLayer = None, decidingPath = None, res_layers = None\<rparr>"

lemma plain_result_simps [simp]:
  "totalHits (plain_result th rem rt b) = th"
  "remaining (plain_result th rem rt b) = rem"
  "resetTime (plain_result th rem rt b) = rt"
  "isBlocked (plain_result th rem rt b) = b"
  "storeUnavailable (plain_result th rem rt b) = False"
  "res_mode (plain_result th rem rt b) = None"
  "decidingLayer (plain_result th rem rt b) = None"
  "decidingPath (plain_result th rem rt b) = None"
  "res_layers (plain_result th rem rt b) = None"
  by (simp_all add: plain_result_def)

section \<open>Option objects\<close>

text \<open>\<open>RateLimitIncrementOptions\<close> and \<open>RateLimitDecrementOptions\<close>; a missing object is \<open>None\<close>, a
  missing field is \<open>Undefined\<close> (\<open>removeNewest\<close> is only compared with \<open>true\<close>).\<close>

record inc_opts =
  io_maxRequests :: js_value
  io_cost :: js_value

record dec_opts =
  do_cost :: js_value
  do_removeNewest :: bool

definition opt_maxRequests :: "inc_opts option \<Rightarrow> js_value" where
  "opt_maxRequests o' = (case o' of None \<Rightarrow> Undefined | Some x \<Rightarrow> io_maxRequests x)"

definition opt_cost :: "inc_opts option \<Rightarrow> js_value" where
  "opt_cost o' = (case o' of None \<Rightarrow> Undefined | Some x \<Rightarrow> io_cost x)"

definition opt_dec_cost :: "dec_opts option \<Rightarrow> js_value" where
  "opt_dec_cost o' = (case o' of None \<Rightarrow> Undefined | Some x \<Rightarrow> do_cost x)"

definition opt_removeNewest :: "dec_opts option \<Rightarrow> bool" where
  "opt_removeNewest o' = (case o' of None \<Rightarrow> False | Some x \<Rightarrow> do_removeNewest x)"

lemma opt_simps [simp]:
  "opt_maxRequests None = Undefined" "opt_maxRequests (Some io) = io_maxRequests io"
  "opt_cost None = Undefined" "opt_cost (Some io) = io_cost io"
  "opt_dec_cost None = Undefined" "opt_dec_cost (Some d) = do_cost d"
  "opt_removeNewest None = False" "opt_removeNewest (Some d) = do_removeNewest d"
  by (simp_all add: opt_maxRequests_def opt_cost_def opt_dec_cost_def opt_removeNewest_def)

text \<open>\<open>matchingDecrementOptions\<close> of the engine: undo with the cost of the increment.\<close>

definition matchingDecrementOptions :: "js_value \<Rightarrow> dec_opts" where
  "matchingDecrementOptions cost =
     \<lparr>do_cost = js_int (sanitizeIncrementCost cost 1), do_removeNewest = False\<rparr>"

section \<open>The store interface\<close>

record active_entry =
  ae_totalHits :: int
  ae_resetTime :: time

record 's store_ops =
  op_increment :: "time \<Rightarrow> key \<Rightarrow> inc_opts option \<Rightarrow> 's \<Rightarrow> (string + rl_result) \<times> 's"
  op_decrement :: "time \<Rightarrow> key \<Rightarrow> dec_opts option \<Rightarrow> 's \<Rightarrow> (string + unit) \<times> 's"
  op_reset :: "time \<Rightarrow> key \<Rightarrow> 's \<Rightarrow> (string + unit) \<times> 's"
  op_shutdown :: "'s \<Rightarrow> (string + unit) \<times> 's"
  op_get :: "(time \<Rightarrow> key \<Rightarrow> 's \<Rightarrow> (string + rl_result option) \<times> 's) option"
  op_set :: "(time \<Rightarrow> key \<Rightarrow> int \<Rightarrow> time option \<Rightarrow> 's \<Rightarrow> (string + rl_result) \<times> 's) option"
  op_delete :: "(time \<Rightarrow> key \<Rightarrow> 's \<Rightarrow> (string + bool) \<times> 's) option"
  op_getActiveKeys :: "(time \<Rightarrow> 's \<Rightarrow> (key \<times> active_entry) list \<times> 's) option"
  op_resetAll :: "('s \<Rightarrow> 's) option"
  op_unshield :: "(key \<Rightarrow> 's \<Rightarrow> 's) option"

text \<open>The contract of a store, as the composition layer, the engine and the queue use it:
  \<open>usage s now k\<close> is what the store counts against \<open>k\<close> at time \<open>now\<close>, and \<open>inv\<close> is its
  representation invariant. Increments are answered, and an allowed increment followed at once by
  a \<open>removeNewest\<close> decrement of the same cost leaves the usage as it was.\<close>

locale rate_limit_store =
  fixes ops :: "'s store_ops"
    and inv :: "'s \<Rightarrow> bool"
    and usage :: "'s \<Rightarrow> time \<Rightarrow> key \<Rightarrow> int"
  assumes increment_answers:
      "inv s \<Longrightarrow> \<exists>r s'. op_increment ops now k o' s = (Inr r, s')"
    and increment_inv:
      "inv s \<Longrightarrow> op_increment ops now k o' s = (res, s') \<Longrightarrow> inv s'"
    and decrement_inv:
      "inv s \<Longrightarrow> op_decrement ops now k d s = (res', s') \<Longrightarrow> inv s'"
    and undo_restores:
      "inv s \<Longrightarrow> op_increment ops now k o' s = (Inr r, s1) \<Longrightarrow> \<not> isBlocked r \<Longrightarrow>
       op_decrement ops now k
         (Some ((matchingDecrementOptions (opt_cost o'))\<lparr>do_removeNewest := True\<rparr>)) s1 = (res', s2) \<Longrightarrow>
       res' = Inr () \<and> usage s2 now k = usage s now k"

text \<open>A store that also keeps the documented meaning of \<open>remaining\<close>: never negative, and zero on
  a blocked answer.\<close>

locale quota_store = rate_limit_store +
  assumes blocked_no_remaining:
      "inv s \<Longrightarrow> op_increment ops now k o' s = (Inr r, s') \<Longrightarrow> isBlocked r \<Longrightarrow> remaining r = 0"
    and remaining_nonneg:
      "inv s \<Longrightarrow> op_increment ops now k o' s = (Inr r, s') \<Longrightarrow> 0 \<le> remaining r"

end
