(* ===== verification/Memory_Store.thy ===== *)
theory Memory_Store
  imports Flex_Types
begin

text \<open>
  The in-process store, \<open>src/stores/memory-store.ts\<close>: one insertion-ordered map from keys to the
  state of the configured strategy (sliding window, fixed window or token bucket), LRU eviction
  under \<open>maxKeys\<close>, the eviction-velocity alert, the background purge and the optional read and
  administration methods. The theory has the whole class: the record \<open>mem_store\<close> holds its
  fields, one definition models each method, and \<open>mem_ops\<close> is its method table.

  The callbacks a consumer registers (\<open>onEvict\<close>, the velocity alert) are recorded, in order, in
  the field \<open>ms_events\<close>; what a callback does is the consumer's code.
\<close>

section \<open>State\<close>

text \<open>\<open>KeyState = SlidingKeyState | FixedEntry | BucketEntry\<close>.\<close>

datatype key_state =
    is_Sliding: Sliding (stamps: "time list") (wallExpiresAt: "time option")
  | is_Fixed: Fixed (fx_count: int) (fx_resetTime: time)
  | is_Bucket: Bucket (bk_tokens: int) (bk_lastRefill: time)

datatype evict_reason = LruCap | Expired

record velocity_cfg =
  vc_windowMs :: int
  vc_minEvictions :: int
  vc_cooldownMs :: int

datatype mem_event =
    OnEvict key evict_reason
  | VelocityAlert (va_windowMs: int) (va_evictions: nat) (va_oldest: time) (va_newest: time)

record mem_store =
  ms_strategy :: strategy
  ms_windowMs :: int
  ms_maxRequests :: int
  ms_tokensPerInterval :: int
  ms_refillIntervalMs :: int
  ms_bucketSize :: int
  ms_cleanupEveryMs :: int
  ms_maxKeys :: int
  ms_velocity :: "velocity_cfg option"
  ms_state :: "(key, key_state) jsmap"
  ms_timer :: bool
  ms_evictTs :: "time list"
  ms_lastEmit :: time
  ms_totalEvictions :: nat
  ms_events :: "mem_event list"

section \<open>Construction\<close>

datatype mem_options =
    WindowOptions (mo_strategy: strategy) (mo_windowMs: js_value) (mo_maxRequests: js_value)
  | TokenBucketOptions (mo_tokensPerInterval: int) (mo_interval: int) (mo_bucketSize: int)

record velocity_options =
  vo_windowMs :: js_value
  vo_minEvictions :: rat
  vo_cooldownMs :: "rat option"

definition velocity_config :: "velocity_options \<Rightarrow> velocity_cfg" where
  "velocity_config ev =
     \<lparr>vc_windowMs = sanitizeWindowMs (js_or (vo_windowMs ev) (js_int 30000)) 30000,
      vc_minEvictions = max 1 \<lfloor>vo_minEvictions ev\<rfloor>,
      vc_cooldownMs = max 0 \<lfloor>case vo_cooldownMs ev of None \<Rightarrow> 5000 | Some c \<Rightarrow> c\<rfloor>\<rparr>"

text \<open>The constructor. \<open>maxKeys\<close> and \<open>evictionVelocityAlert\<close> are the LRU options; an alert option
  is present only with its callback.\<close>

definition new_MemoryStore :: "mem_options \<Rightarrow> rat option \<Rightarrow> velocity_options option \<Rightarrow> mem_store" where
  "new_MemoryStore opts maxKeys ev =
     (let base =
        (case opts of
           TokenBucketOptions tpi interval bsize \<Rightarrow>
             \<lparr>ms_strategy = TOKEN_BUCKET, ms_windowMs = 0, ms_maxRequests = 0,
              ms_tokensPerInterval = tpi, ms_refillIntervalMs = interval, ms_bucketSize = bsize,
              ms_cleanupEveryMs = max 1 interval, ms_maxKeys = 0, ms_velocity = None,
              ms_state = [], ms_timer = True, ms_evictTs = [], ms_lastEmit = 0,
              ms_totalEvictions = 0, ms_events = []\<rparr>
         | WindowOptions strat w m \<Rightarrow>
             \<lparr>ms_strategy = strat, ms_windowMs = sanitizeWindowMs w 60000,
              ms_maxRequests = sanitizeRateLimitCap m 100,
              ms_tokensPerInterval = 0, ms_refillIntervalMs = 0, ms_bucketSize = 0,
              ms_cleanupEveryMs = max 1 (sanitizeWindowMs w 60000), ms_maxKeys = 0,
              ms_velocity = None,
              ms_state = [], ms_timer = True, ms_evictTs = [], ms_lastEmit = 0,
              ms_totalEvictions = 0, ms_events = []\<rparr>)
      in base\<lparr>ms_maxKeys := (case maxKeys of None \<Rightarrow> 100000 | Some r \<Rightarrow> max 0 \<lfloor>r\<rfloor>),
              ms_velocity := map_option velocity_config ev\<rparr>)"

definition mem_getMetrics :: "mem_store \<Rightarrow> nat \<times> nat \<times> int" where
  "mem_getMetrics s = (length (ms_state s), ms_totalEvictions s, ms_maxKeys s)"

definition getWindowLengthMs :: "mem_store \<Rightarrow> int option" where
  "getWindowLengthMs s = (if ms_strategy s = TOKEN_BUCKET then None else Some (ms_windowMs s))"

section \<open>Map access and eviction\<close>

text \<open>\<open>state.get(key) as FixedEntry\<close> and the like. A store holds entries of its own strategy only
  (\<open>mem_inv\<close> below), so the cast is a projection that gives \<open>None\<close> on entries that cannot occur.\<close>

definition getSlidingState :: "mem_store \<Rightarrow> key \<Rightarrow> (time list \<times> time option) option" where
  "getSlidingState s k =
     (case map_of (ms_state s) k of Some (Sliding ts w) \<Rightarrow> Some (ts, w) | _ \<Rightarrow> None)"

definition getFixedEntry :: "mem_store \<Rightarrow> key \<Rightarrow> (int \<times> time) option" where
  "getFixedEntry s k =
     (case map_of (ms_state s) k of Some (Fixed c r) \<Rightarrow> Some (c, r) | _ \<Rightarrow> None)"

definition getBucketEntry :: "mem_store \<Rightarrow> key \<Rightarrow> (int \<times> time) option" where
  "getBucketEntry s k =
     (case map_of (ms_state s) k of Some (Bucket t l) \<Rightarrow> Some (t, l) | _ \<Rightarrow> None)"

definition ms_put :: "key \<Rightarrow> key_state \<Rightarrow> mem_store \<Rightarrow> mem_store" where
  "ms_put k v s = s\<lparr>ms_state := AList.update k v (ms_state s)\<rparr>"

definition ms_del :: "key \<Rightarrow> mem_store \<Rightarrow> mem_store" where
  "ms_del k s = s\<lparr>ms_state := AList.delete k (ms_state s)\<rparr>"

definition ms_has :: "mem_store \<Rightarrow> key \<Rightarrow> bool" where
  "ms_has s k = jsmap_has (ms_state s) k"

definition setSlidingState :: "key \<Rightarrow> time list \<Rightarrow> time option \<Rightarrow> mem_store \<Rightarrow> mem_store" where
  "setSlidingState k ts w s = ms_put k (Sliding ts w) s"

definition deleteKeyData :: "key \<Rightarrow> evict_reason \<Rightarrow> mem_store \<Rightarrow> mem_store" where
  "deleteKeyData k reason s =
     (if \<not> ms_has s k then s
      else (ms_del k s)\<lparr>ms_events := ms_events s @ [OnEvict k reason]\<rparr>)"

definition noteLruBurstEviction :: "time \<Rightarrow> mem_store \<Rightarrow> mem_store" where
  "noteLruBurstEviction now s =
     (case ms_velocity s of
        None \<Rightarrow> s
      | Some cfg \<Rightarrow>
          (let cutoff = now - vc_windowMs cfg;
               ts = dropWhile (\<lambda>t. t < cutoff) (ms_evictTs s @ [now]);
               s1 = s\<lparr>ms_evictTs := ts\<rparr>
           in if int (length ts) < vc_minEvictions cfg then s1
              else if vc_cooldownMs cfg > 0 \<and> now - ms_lastEmit s < vc_cooldownMs cfg then s1
              else s1\<lparr>ms_lastEmit := now,
                      ms_events := ms_events s @
                        [VelocityAlert (vc_windowMs cfg) (length ts) (hd ts) (last ts)]\<rparr>))"

definition evictOldest :: "time \<Rightarrow> mem_store \<Rightarrow> mem_store" where
  "evictOldest now s =
     (case ms_state s of
        [] \<Rightarrow> s
      | (oldestKey, _) # _ \<Rightarrow>
          noteLruBurstEviction now
            ((ms_del oldestKey s)\<lparr>ms_totalEvictions := Suc (ms_totalEvictions s),
                                  ms_events := ms_events s @ [OnEvict oldestKey LruCap]\<rparr>))"

definition isBucketIdleFullPurgeable :: "mem_store \<Rightarrow> int \<Rightarrow> time \<Rightarrow> time \<Rightarrow> bool" where
  "isBucketIdleFullPurgeable s tokens lastRefill now =
     (let idleMs = 10 * ms_refillIntervalMs s
      in tokens \<ge> ms_bucketSize s \<and> now - lastRefill > idleMs)"

definition isEntryExpiredAtKey :: "mem_store \<Rightarrow> key \<Rightarrow> time \<Rightarrow> bool" where
  "isEntryExpiredAtKey s k now =
     (case ms_strategy s of
        SLIDING_WINDOW \<Rightarrow>
          (case getSlidingState s k of
             None \<Rightarrow> False
           | Some (ts, w) \<Rightarrow>
               if (case w of None \<Rightarrow> False | Some e \<Rightarrow> now \<ge> e) then True
               else list_all (\<lambda>t. t \<le> now - ms_windowMs s) ts)
      | FIXED_WINDOW \<Rightarrow> (case getFixedEntry s k of None \<Rightarrow> False | Some (c, r) \<Rightarrow> now \<ge> r)
      | TOKEN_BUCKET \<Rightarrow>
          (case getBucketEntry s k of
             None \<Rightarrow> False | Some (t, l) \<Rightarrow> isBucketIdleFullPurgeable s t l now))"

lemma ms_state_simps [simp]:
  "ms_state (ms_put k v s) = AList.update k v (ms_state s)"
  "ms_state (ms_del k s) = AList.delete k (ms_state s)"
  "ms_state (noteLruBurstEviction now s) = ms_state s"
  by (auto simp: ms_put_def ms_del_def noteLruBurstEviction_def Let_def split: option.splits)

lemma length_deleteKeyData_head:
  "ms_state s = (h, v) # rest \<Longrightarrow> length (ms_state (deleteKeyData h r s)) \<le> length rest"
  by (auto simp: deleteKeyData_def ms_has_def jsmap_has_def length_delete_le)

lemma length_evictOldest:
  "ms_state s = (h, v) # rest \<Longrightarrow> length (ms_state (evictOldest now s)) \<le> length rest"
  by (simp add: evictOldest_def length_delete_le)

text \<open>The loop of \<open>ensureRoomForNewKey\<close>: every round removes the head of the map.\<close>

function ensureRoomLoop :: "time \<Rightarrow> mem_store \<Rightarrow> mem_store" where
  "ensureRoomLoop now s =
     (if int (length (ms_state s)) \<ge> ms_maxKeys s then
        (case ms_state s of
           [] \<Rightarrow> s
         | (head, _) # _ \<Rightarrow>
             if isEntryExpiredAtKey s head now
             then ensureRoomLoop now (deleteKeyData head Expired s)
             else ensureRoomLoop now (evictOldest now s))
      else s)"
  by pat_completeness auto
termination
  by (relation "measure (\<lambda>(now, s). length (ms_state s))")
     (auto simp: le_imp_less_Suc length_deleteKeyData_head length_evictOldest)

declare ensureRoomLoop.simps [simp del]

definition ensureRoomForNewKey :: "time \<Rightarrow> key \<Rightarrow> mem_store \<Rightarrow> mem_store" where
  "ensureRoomForNewKey now incomingKey s =
     (if ms_maxKeys s = 0 \<or> ms_has s incomingKey then s else ensureRoomLoop now s)"

definition touchKey :: "key \<Rightarrow> mem_store \<Rightarrow> mem_store" where
  "touchKey k s =
     (if ms_maxKeys s = 0 then s
      else case map_of (ms_state s) k of None \<Rightarrow> s | Some v \<Rightarrow> ms_put k v (ms_del k s))"

text \<open>\<open>if (maxKeys > 0 \<and> state.has(key)) state.delete(key); state.set(key, v)\<close>, the tail of every
  writing method: a present key moves to the most recently used end.\<close>

definition ms_store_mru :: "key \<Rightarrow> key_state \<Rightarrow> mem_store \<Rightarrow> mem_store" where
  "ms_store_mru k v s =
     ms_put k v (if ms_maxKeys s > 0 \<and> ms_has s k then ms_del k s else s)"

section \<open>Sliding window\<close>

definition clearSlidingWallExpiryIfExpired :: "key \<Rightarrow> time \<Rightarrow> mem_store \<Rightarrow> mem_store" where
  "clearSlidingWallExpiryIfExpired k now s =
     (case getSlidingState s k of
        Some (ts, Some e) \<Rightarrow> if now \<ge> e then deleteKeyData k Expired s else s
      | _ \<Rightarrow> s)"

text \<open>The result fields both window strategies compute from a count and a cap.\<close>

definition window_result :: "int \<Rightarrow> int \<Rightarrow> time \<Rightarrow> rl_result" where
  "window_result hits cap reset =
     (let blocked = hits > cap
      in plain_result hits (if blocked then 0 else max 0 (cap - hits)) reset blocked)"

definition getSlidingReadOnly :: "time \<Rightarrow> key \<Rightarrow> mem_store \<Rightarrow> rl_result option \<times> mem_store" where
  "getSlidingReadOnly now k s =
     (let s1 = clearSlidingWallExpiryIfExpired k now s;
          cap = sanitizeRateLimitCap (js_int (ms_maxRequests s)) (ms_maxRequests s);
          cutoff = now - ms_windowMs s
      in case getSlidingState s1 k of
           None \<Rightarrow> (None, s1)
         | Some (ts, w) \<Rightarrow>
             (case filter (\<lambda>t. t > cutoff) ts of
                [] \<Rightarrow> (None, s1)
              | oldest # rest \<Rightarrow>
                  (Some (window_result (int (length (oldest # rest))) cap (oldest + ms_windowMs s)),
                   touchKey k s1)))"

definition setSliding :: "time \<Rightarrow> key \<Rightarrow> int \<Rightarrow> time option \<Rightarrow> mem_store \<Rightarrow> rl_result \<times> mem_store" where
  "setSliding now k hits expiresAt s =
     (let cap = sanitizeRateLimitCap (js_int (ms_maxRequests s)) (ms_maxRequests s);
          n = max 0 hits;
          ts = replicate (nat n) now;
          s1 = (if \<not> ms_has s k then ensureRoomForNewKey now k s else s)
      in (window_result n cap (now + ms_windowMs s), ms_store_mru k (Sliding ts expiresAt) s1))"

definition incrementSliding :: "time \<Rightarrow> key \<Rightarrow> js_value \<Rightarrow> int \<Rightarrow> mem_store \<Rightarrow> rl_result \<times> mem_store" where
  "incrementSliding now k maxOverride cost s =
     (let cap = sanitizeRateLimitCap (js_or maxOverride (js_int (ms_maxRequests s))) (ms_maxRequests s);
          s1 = clearSlidingWallExpiryIfExpired k now s;
          (entry, s2) =
            (case getSlidingState s1 k of
               Some (ts, w) \<Rightarrow> (ts, ms_del k s1)
             | None \<Rightarrow> ([], ensureRoomForNewKey now k s1));
          cutoff = now - ms_windowMs s;
          trimmed = filter (\<lambda>t. t > cutoff) entry @ replicate (nat cost) now;
          reset = (case trimmed of [] \<Rightarrow> now + ms_windowMs s | oldest # _ \<Rightarrow> oldest + ms_windowMs s)
      in (window_result (int (length trimmed)) cap reset, setSlidingState k trimmed None s2))"

definition decrementSliding :: "key \<Rightarrow> int \<Rightarrow> mem_store \<Rightarrow> mem_store" where
  "decrementSliding k cost s =
     (case getSlidingState s k of
        None \<Rightarrow> s
      | Some (cur, w) \<Rightarrow>
          if cur = [] then s
          else let n = min cost (int (length cur)); ts = drop (nat n) cur
               in if ts = [] then ms_del k s else setSlidingState k ts w s)"

definition decrementSlidingFromEnd :: "key \<Rightarrow> int \<Rightarrow> mem_store \<Rightarrow> mem_store" where
  "decrementSlidingFromEnd k cost s =
     (case getSlidingState s k of
        None \<Rightarrow> s
      | Some (cur, w) \<Rightarrow>
          if cur = [] then s
          else let n = min cost (int (length cur)); ts = take (length cur - nat n) cur
               in if ts = [] then ms_del k s else setSlidingState k ts w s)"

section \<open>Fixed window\<close>

definition getFixedReadOnly :: "time \<Rightarrow> key \<Rightarrow> mem_store \<Rightarrow> rl_result option \<times> mem_store" where
  "getFixedReadOnly now k s =
     (let cap = sanitizeRateLimitCap (js_int (ms_maxRequests s)) (ms_maxRequests s)
      in case getFixedEntry s k of
           None \<Rightarrow> (None, s)
         | Some (c, r) \<Rightarrow>
             if now \<ge> r then (None, s) else (Some (window_result c cap r), touchKey k s))"

definition setFixed :: "time \<Rightarrow> key \<Rightarrow> int \<Rightarrow> time option \<Rightarrow> mem_store \<Rightarrow> rl_result \<times> mem_store" where
  "setFixed now k hits expiresAt s =
     (let cap = sanitizeRateLimitCap (js_int (ms_maxRequests s)) (ms_maxRequests s);
          n = max 0 hits;
          resetTimeMs = (case expiresAt of None \<Rightarrow> now + ms_windowMs s | Some e \<Rightarrow> e);
          s1 = (if \<not> ms_has s k then ensureRoomForNewKey now k s else s)
      in (window_result n cap resetTimeMs, ms_store_mru k (Fixed n resetTimeMs) s1))"

definition incrementFixed :: "time \<Rightarrow> key \<Rightarrow> js_value \<Rightarrow> int \<Rightarrow> mem_store \<Rightarrow> rl_result \<times> mem_store" where
  "incrementFixed now k maxOverride cost s =
     (let cap = sanitizeRateLimitCap (js_or maxOverride (js_int (ms_maxRequests s))) (ms_maxRequests s);
          ((c, r), s1) =
            (case getFixedEntry s k of
               None \<Rightarrow> ((cost, now + ms_windowMs s), ensureRoomForNewKey now k s)
             | Some (c0, r0) \<Rightarrow>
                 if now \<ge> r0 then ((cost, now + ms_windowMs s), s) else ((c0 + cost, r0), s))
      in (window_result c cap r, ms_store_mru k (Fixed c r) s1))"

definition decrementFixed :: "key \<Rightarrow> int \<Rightarrow> mem_store \<Rightarrow> mem_store" where
  "decrementFixed k cost s =
     (case getFixedEntry s k of
        None \<Rightarrow> s
      | Some (c, r) \<Rightarrow>
          if c \<le> 0 then s
          else let next = c - cost in if next \<le> 0 then ms_del k s else ms_put k (Fixed next r) s)"

section \<open>Token bucket\<close>

definition refillBucketStateForNow :: "mem_store \<Rightarrow> int \<Rightarrow> time \<Rightarrow> time \<Rightarrow> int \<times> time" where
  "refillBucketStateForNow s tokens lastRefill now =
     (let elapsed = now - lastRefill; intervals = elapsed div ms_refillIntervalMs s
      in if intervals > 0
         then (min (ms_bucketSize s) (tokens + intervals * ms_tokensPerInterval s),
               lastRefill + intervals * ms_refillIntervalMs s)
         else (tokens, lastRefill))"

definition getTokenBucketReadOnly :: "time \<Rightarrow> key \<Rightarrow> mem_store \<Rightarrow> rl_result option \<times> mem_store" where
  "getTokenBucketReadOnly now k s =
     (case getBucketEntry s k of
        None \<Rightarrow> (None, s)
      | Some (t, l) \<Rightarrow>
          if isBucketIdleFullPurgeable s t l now then (None, s)
          else let (tokens, lastRefill) = refillBucketStateForNow s t l now;
                   hits = ms_bucketSize s - tokens
               in (Some (plain_result hits tokens (lastRefill + ms_refillIntervalMs s)
                           (tokens = 0 \<and> hits \<ge> ms_bucketSize s)),
                   touchKey k s))"

definition setTokenBucket :: "time \<Rightarrow> key \<Rightarrow> int \<Rightarrow> time option \<Rightarrow> mem_store \<Rightarrow> rl_result \<times> mem_store" where
  "setTokenBucket now k hits expiresAt s =
     (let cap = ms_bucketSize s;
          th = max 0 hits;
          blocked = th \<ge> cap;
          tokens = (if blocked then 0 else max 0 (cap - th));
          hitsOut = (if blocked then cap else th);
          s1 = (if \<not> ms_has s k then ensureRoomForNewKey now k s else s)
      in (plain_result hitsOut tokens (now + ms_refillIntervalMs s) blocked,
          ms_store_mru k (Bucket tokens now) s1))"

definition incrementTokenBucket :: "time \<Rightarrow> key \<Rightarrow> int \<Rightarrow> mem_store \<Rightarrow> rl_result \<times> mem_store" where
  "incrementTokenBucket now k cost s =
     (let ((t0, l0), s1) =
            (case getBucketEntry s k of
               None \<Rightarrow> ((ms_bucketSize s, now), ensureRoomForNewKey now k s)
             | Some (t, l) \<Rightarrow> ((t, l), s));
          elapsed = now - l0;
          intervals = elapsed div ms_refillIntervalMs s;
          tokens = (if intervals > 0
                    then min (ms_bucketSize s) (t0 + intervals * ms_tokensPerInterval s) else t0);
          lastRefill = (if intervals > 0 then l0 + intervals * ms_refillIntervalMs s else l0)
      in if tokens \<ge> cost
         then (plain_result (ms_bucketSize s - (tokens - cost)) (tokens - cost)
                 (lastRefill + ms_refillIntervalMs s) False,
               ms_store_mru k (Bucket (tokens - cost) lastRefill) s1)
         else (plain_result (ms_bucketSize s) 0 (lastRefill + ms_refillIntervalMs s) True,
               ms_store_mru k (Bucket tokens lastRefill) s1))"

definition decrementTokenBucket :: "key \<Rightarrow> int \<Rightarrow> mem_store \<Rightarrow> mem_store" where
  "decrementTokenBucket k cost s =
     (case getBucketEntry s k of
        None \<Rightarrow> s
      | Some (t, l) \<Rightarrow> ms_put k (Bucket (min (ms_bucketSize s) (t + cost)) l) s)"

section \<open>The public methods\<close>

definition mem_increment :: "time \<Rightarrow> key \<Rightarrow> inc_opts option \<Rightarrow> mem_store \<Rightarrow> rl_result \<times> mem_store" where
  "mem_increment now k o' s =
     (let cost = sanitizeIncrementCost (opt_cost o') 1
      in case ms_strategy s of
           SLIDING_WINDOW \<Rightarrow> incrementSliding now k (opt_maxRequests o') cost s
         | FIXED_WINDOW \<Rightarrow> incrementFixed now k (opt_maxRequests o') cost s
         | TOKEN_BUCKET \<Rightarrow> incrementTokenBucket now k cost s)"

definition mem_decrement :: "key \<Rightarrow> dec_opts option \<Rightarrow> mem_store \<Rightarrow> mem_store" where
  "mem_decrement k o' s =
     (let cost = sanitizeIncrementCost (opt_dec_cost o') 1
      in case ms_strategy s of
           SLIDING_WINDOW \<Rightarrow>
             if opt_removeNewest o' then decrementSlidingFromEnd k cost s else decrementSliding k cost s
         | FIXED_WINDOW \<Rightarrow> decrementFixed k cost s
         | TOKEN_BUCKET \<Rightarrow> decrementTokenBucket k cost s)"

definition mem_reset :: "time \<Rightarrow> key \<Rightarrow> mem_store \<Rightarrow> mem_store" where
  "mem_reset now k s =
     (case ms_strategy s of
        SLIDING_WINDOW \<Rightarrow> ms_del k s
      | FIXED_WINDOW \<Rightarrow> ms_put k (Fixed 0 (now + ms_windowMs s)) s
      | TOKEN_BUCKET \<Rightarrow> ms_put k (Bucket (ms_bucketSize s) now) s)"

definition mem_shutdown :: "mem_store \<Rightarrow> mem_store" where
  "mem_shutdown s = s\<lparr>ms_timer := False, ms_state := []\<rparr>"

definition mem_resetAll :: "mem_store \<Rightarrow> mem_store" where
  "mem_resetAll s = s\<lparr>ms_state := []\<rparr>"

definition mem_get :: "time \<Rightarrow> key \<Rightarrow> mem_store \<Rightarrow> rl_result option \<times> mem_store" where
  "mem_get now k s =
     (case ms_strategy s of
        SLIDING_WINDOW \<Rightarrow> getSlidingReadOnly now k s
      | FIXED_WINDOW \<Rightarrow> getFixedReadOnly now k s
      | TOKEN_BUCKET \<Rightarrow> getTokenBucketReadOnly now k s)"

definition mem_set :: "time \<Rightarrow> key \<Rightarrow> int \<Rightarrow> time option \<Rightarrow> mem_store \<Rightarrow> rl_result \<times> mem_store" where
  "mem_set now k hits expiresAt s =
     (case ms_strategy s of
        SLIDING_WINDOW \<Rightarrow> setSliding now k hits expiresAt s
      | FIXED_WINDOW \<Rightarrow> setFixed now k hits expiresAt s
      | TOKEN_BUCKET \<Rightarrow> setTokenBucket now k hits expiresAt s)"

definition mem_delete :: "key \<Rightarrow> mem_store \<Rightarrow> bool \<times> mem_store" where
  "mem_delete k s = (ms_has s k, ms_del k s)"

text \<open>\<open>getActiveKeys\<close>: the sliding-window branch walks a snapshot of the keys and drops entries whose
  wall-clock expiry has passed on the way.\<close>

fun activeSliding :: "time \<Rightarrow> key list \<Rightarrow> mem_store \<Rightarrow> (key \<times> active_entry) list \<times> mem_store" where
  "activeSliding now [] s = ([], s)"
| "activeSliding now (k # ks) s =
     (let s1 = clearSlidingWallExpiryIfExpired k now s;
          (out, s2) = activeSliding now ks s1
      in case getSlidingState s1 k of
           None \<Rightarrow> (out, s2)
         | Some (ts, w) \<Rightarrow>
             (case filter (\<lambda>t. t > now - ms_windowMs s) ts of
                [] \<Rightarrow> (out, s2)
              | oldest # rest \<Rightarrow>
                  ((k, \<lparr>ae_totalHits = int (length (oldest # rest)),
                        ae_resetTime = oldest + ms_windowMs s\<rparr>) # out, s2)))"

definition active_fixed :: "mem_store \<Rightarrow> time \<Rightarrow> key \<times> key_state \<Rightarrow> (key \<times> active_entry) list" where
  "active_fixed s now kv =
     (case kv of
        (k, Fixed c r) \<Rightarrow> if now \<ge> r then [] else [(k, \<lparr>ae_totalHits = c, ae_resetTime = r\<rparr>)]
      | _ \<Rightarrow> [])"

definition active_bucket :: "mem_store \<Rightarrow> time \<Rightarrow> key \<times> key_state \<Rightarrow> (key \<times> active_entry) list" where
  "active_bucket s now kv =
     (case kv of
        (k, Bucket t l) \<Rightarrow>
          if isBucketIdleFullPurgeable s t l now then []
          else let (tokens, lastRefill) = refillBucketStateForNow s t l now
               in [(k, \<lparr>ae_totalHits = ms_bucketSize s - tokens,
                        ae_resetTime = lastRefill + ms_refillIntervalMs s\<rparr>)]
      | _ \<Rightarrow> [])"

definition mem_getActiveKeys :: "time \<Rightarrow> mem_store \<Rightarrow> (key \<times> active_entry) list \<times> mem_store" where
  "mem_getActiveKeys now s =
     (case ms_strategy s of
        SLIDING_WINDOW \<Rightarrow> activeSliding now (map fst (ms_state s)) s
      | FIXED_WINDOW \<Rightarrow> (concat (map (active_fixed s now) (ms_state s)), s)
      | TOKEN_BUCKET \<Rightarrow> (concat (map (active_bucket s now) (ms_state s)), s))"

section \<open>The background purge\<close>

text \<open>Each purge iterates over a snapshot of the map's keys.\<close>

definition purgeSlidingWall :: "time \<Rightarrow> key \<Rightarrow> mem_store \<Rightarrow> mem_store" where
  "purgeSlidingWall now k s = clearSlidingWallExpiryIfExpired k now s"

definition purgeSlidingTrim :: "time \<Rightarrow> key \<Rightarrow> mem_store \<Rightarrow> mem_store" where
  "purgeSlidingTrim now k s =
     (case getSlidingState s k of
        None \<Rightarrow> s
      | Some (ts, w) \<Rightarrow>
          let filtered = filter (\<lambda>t. t > now - ms_windowMs s) ts
          in if filtered = [] then deleteKeyData k Expired s
             else if length filtered \<noteq> length ts then setSlidingState k filtered w s
             else s)"

definition purgeSliding :: "time \<Rightarrow> mem_store \<Rightarrow> mem_store" where
  "purgeSliding now s =
     (let s1 = fold (purgeSlidingWall now) (map fst (ms_state s)) s
      in fold (purgeSlidingTrim now) (map fst (ms_state s1)) s1)"

definition purgeFixedKey :: "time \<Rightarrow> key \<Rightarrow> mem_store \<Rightarrow> mem_store" where
  "purgeFixedKey now k s =
     (case getFixedEntry s k of
        None \<Rightarrow> s | Some (c, r) \<Rightarrow> if now \<ge> r then deleteKeyData k Expired s else s)"

definition purgeFixed :: "time \<Rightarrow> mem_store \<Rightarrow> mem_store" where
  "purgeFixed now s = fold (purgeFixedKey now) (map fst (ms_state s)) s"

definition purgeBucketKey :: "time \<Rightarrow> key \<Rightarrow> mem_store \<Rightarrow> mem_store" where
  "purgeBucketKey now k s =
     (let idleMs = 10 * ms_refillIntervalMs s
      in case getBucketEntry s k of
           None \<Rightarrow> s
         | Some (t, l) \<Rightarrow>
             if t \<ge> ms_bucketSize s \<and> now - l > idleMs then deleteKeyData k Expired s else s)"

definition purgeBuckets :: "time \<Rightarrow> mem_store \<Rightarrow> mem_store" where
  "purgeBuckets now s = fold (purgeBucketKey now) (map fst (ms_state s)) s"

definition purgeExpired :: "time \<Rightarrow> mem_store \<Rightarrow> mem_store" where
  "purgeExpired now s =
     (case ms_strategy s of
        SLIDING_WINDOW \<Rightarrow> purgeSliding now s
      | FIXED_WINDOW \<Rightarrow> purgeFixed now s
      | TOKEN_BUCKET \<Rightarrow> purgeBuckets now s)"

section \<open>The method table\<close>

definition mem_ops :: "mem_store store_ops" where
  "mem_ops =
     \<lparr>op_increment = (\<lambda>now k o' s. let (r, s') = mem_increment now k o' s in (Inr r, s')),
      op_decrement = (\<lambda>now k o' s. (Inr (), mem_decrement k o' s)),
      op_reset = (\<lambda>now k s. (Inr (), mem_reset now k s)),
      op_shutdown = (\<lambda>s. (Inr (), mem_shutdown s)),
      op_get = Some (\<lambda>now k s. let (r, s') = mem_get now k s in (Inr r, s')),
      op_set = Some (\<lambda>now k n e s. let (r, s') = mem_set now k n e s in (Inr r, s')),
      op_delete = Some (\<lambda>now k s. let (b, s') = mem_delete k s in (Inr b, s')),
      op_getActiveKeys = Some mem_getActiveKeys,
      op_resetAll = Some mem_resetAll,
      op_unshield = None\<rparr>"

section \<open>Configuration frame\<close>

text \<open>\<open>mem_cfg\<close> keeps the readonly fields of a store. Every operation leaves them alone; the field
  equations follow for all of them at once.\<close>

definition mem_cfg :: "mem_store \<Rightarrow> mem_store" where
  "mem_cfg s = s\<lparr>ms_state := [], ms_timer := False, ms_evictTs := [], ms_lastEmit := 0,
                 ms_totalEvictions := 0, ms_events := []\<rparr>"

lemma mem_cfg_eqD:
  assumes "mem_cfg s' = mem_cfg s"
  shows "ms_strategy s' = ms_strategy s \<and> ms_windowMs s' = ms_windowMs s \<and>
    ms_maxRequests s' = ms_maxRequests s \<and> ms_tokensPerInterval s' = ms_tokensPerInterval s \<and>
    ms_refillIntervalMs s' = ms_refillIntervalMs s \<and> ms_bucketSize s' = ms_bucketSize s \<and>
    ms_cleanupEveryMs s' = ms_cleanupEveryMs s \<and> ms_maxKeys s' = ms_maxKeys s \<and>
    ms_velocity s' = ms_velocity s"
  using arg_cong [OF assms, of ms_strategy] arg_cong [OF assms, of ms_windowMs]
    arg_cong [OF assms, of ms_maxRequests] arg_cong [OF assms, of ms_tokensPerInterval]
    arg_cong [OF assms, of ms_refillIntervalMs] arg_cong [OF assms, of ms_bucketSize]
    arg_cong [OF assms, of ms_cleanupEveryMs] arg_cong [OF assms, of ms_maxKeys]
    arg_cong [OF assms, of ms_velocity]
  by (simp add: mem_cfg_def)

lemma cfg_put [simp]: "mem_cfg (ms_put k v s) = mem_cfg s"
  by (simp add: ms_put_def mem_cfg_def)

lemma cfg_del [simp]: "mem_cfg (ms_del k s) = mem_cfg s"
  by (simp add: ms_del_def mem_cfg_def)

lemma cfg_deleteKeyData [simp]: "mem_cfg (deleteKeyData k r s) = mem_cfg s"
  by (simp add: deleteKeyData_def ms_del_def mem_cfg_def)

lemma cfg_note [simp]: "mem_cfg (noteLruBurstEviction now s) = mem_cfg s"
  by (auto simp: noteLruBurstEviction_def mem_cfg_def Let_def split: option.splits)

lemma cfg_evictOldest [simp]: "mem_cfg (evictOldest now s) = mem_cfg s"
  by (auto simp: evictOldest_def ms_del_def split: list.splits) (simp add: mem_cfg_def)

lemma cfg_ensureRoomLoop [simp]: "mem_cfg (ensureRoomLoop now s) = mem_cfg s"
proof (induction now s rule: ensureRoomLoop.induct)
  case (1 now s)
  then show ?case
    by (subst ensureRoomLoop.simps) (auto split: list.splits)
qed

lemma cfg_ensureRoom [simp]: "mem_cfg (ensureRoomForNewKey now k s) = mem_cfg s"
  by (simp add: ensureRoomForNewKey_def)

lemma cfg_touchKey [simp]: "mem_cfg (touchKey k s) = mem_cfg s"
  by (auto simp: touchKey_def split: option.splits)

lemma cfg_store_mru [simp]: "mem_cfg (ms_store_mru k v s) = mem_cfg s"
  by (simp add: ms_store_mru_def)

lemma cfg_clear [simp]: "mem_cfg (clearSlidingWallExpiryIfExpired k now s) = mem_cfg s"
  by (auto simp: clearSlidingWallExpiryIfExpired_def split: option.splits prod.splits)

lemmas mem_cfg_fields [simp] =
  cfg_put [THEN mem_cfg_eqD] cfg_del [THEN mem_cfg_eqD] cfg_deleteKeyData [THEN mem_cfg_eqD]
  cfg_note [THEN mem_cfg_eqD] cfg_evictOldest [THEN mem_cfg_eqD]
  cfg_ensureRoomLoop [THEN mem_cfg_eqD] cfg_ensureRoom [THEN mem_cfg_eqD]
  cfg_touchKey [THEN mem_cfg_eqD] cfg_store_mru [THEN mem_cfg_eqD] cfg_clear [THEN mem_cfg_eqD]

section \<open>Well-formedness\<close>

definition entry_ok :: "mem_store \<Rightarrow> key_state \<Rightarrow> bool" where
  "entry_ok s e =
     (case ms_strategy s of
        SLIDING_WINDOW \<Rightarrow> is_Sliding e
      | FIXED_WINDOW \<Rightarrow> is_Fixed e \<and> 0 \<le> fx_count e
      | TOKEN_BUCKET \<Rightarrow> is_Bucket e \<and> 0 \<le> bk_tokens e \<and> bk_tokens e \<le> ms_bucketSize s)"

text \<open>What the constructor guarantees for window stores; a bucket store takes its three numbers
  as they are, so that they are sensible is a condition on the options.\<close>

definition cfg_ok :: "mem_store \<Rightarrow> bool" where
  "cfg_ok s \<longleftrightarrow> 0 \<le> ms_maxKeys s \<and>
     (if ms_strategy s = TOKEN_BUCKET
      then 1 \<le> ms_refillIntervalMs s \<and> 0 \<le> ms_tokensPerInterval s \<and> 0 \<le> ms_bucketSize s
      else 1 \<le> ms_windowMs s \<and> 1 \<le> ms_maxRequests s \<and> ms_maxRequests s \<le> MAX_SAFE_INTEGER)"

definition mem_inv :: "mem_store \<Rightarrow> bool" where
  "mem_inv s \<longleftrightarrow> cfg_ok s \<and> jsmap_ok (ms_state s) \<and> (\<forall>e \<in> snd ` set (ms_state s). entry_ok s e)"

lemma cfg_ok_cong: "mem_cfg s' = mem_cfg s \<Longrightarrow> cfg_ok s' = cfg_ok s"
  by (auto simp: cfg_ok_def dest!: mem_cfg_eqD)

lemma entry_ok_cong: "mem_cfg s' = mem_cfg s \<Longrightarrow> entry_ok s' e = entry_ok s e"
  by (auto simp: entry_ok_def dest!: mem_cfg_eqD split: strategy.splits)

text \<open>A step that keeps the configuration and only removes entries, or writes one good entry,
  keeps the invariant: all operations are built from these.\<close>

lemma mem_inv_shrink:
  "mem_inv s \<Longrightarrow> mem_cfg s' = mem_cfg s \<Longrightarrow> jsmap_ok (ms_state s') \<Longrightarrow>
   set (ms_state s') \<subseteq> set (ms_state s) \<Longrightarrow> mem_inv s'"
  using cfg_ok_cong [of s' s] entry_ok_cong [of s' s] by (auto simp: mem_inv_def)

lemma mem_inv_jsmap: "mem_inv s \<Longrightarrow> jsmap_ok (ms_state s)"
  by (simp add: mem_inv_def)

lemma mem_inv_put [intro]: "mem_inv s \<Longrightarrow> entry_ok s e \<Longrightarrow> mem_inv (ms_put k e s)"
  using cfg_ok_cong [of "ms_put k e s" s] entry_ok_cong [of "ms_put k e s" s]
  by (auto simp: mem_inv_def dest!: set_updateD)

lemma mem_inv_del [intro]: "mem_inv s \<Longrightarrow> mem_inv (ms_del k s)"
  by (rule mem_inv_shrink [of s]) (auto simp: mem_inv_jsmap dest: set_deleteD)

lemma state_deleteKeyData [simp]: "ms_state (deleteKeyData k r s) = AList.delete k (ms_state s)"
  by (auto simp: deleteKeyData_def ms_has_def jsmap_has_def delete_absent)

lemma delete_head: "jsmap_ok ((k, v) # m) \<Longrightarrow> AList.delete k m = m"
  by (simp add: jsmap_ok_def delete_id)

lemma state_evictOldest: "jsmap_ok (ms_state s) \<Longrightarrow> ms_state (evictOldest now s) = tl (ms_state s)"
  by (cases "ms_state s") (auto simp: evictOldest_def delete_head)

text \<open>Making room keeps exactly the \<open>maxKeys - 1\<close> most recently used entries.\<close>

lemma state_ensureRoomLoop:
  "jsmap_ok (ms_state s) \<Longrightarrow> 0 < ms_maxKeys s \<Longrightarrow>
   ms_state (ensureRoomLoop now s) =
     drop (length (ms_state s) - nat (ms_maxKeys s - 1)) (ms_state s)"
proof (induction now s rule: ensureRoomLoop.induct)
  case (1 now s)
  show ?case
  proof (cases "int (length (ms_state s)) \<ge> ms_maxKeys s")
    case False
    then show ?thesis by (subst ensureRoomLoop.simps) simp
  next
    case True
    with "1.prems" obtain h v rest where st: "ms_state s = (h, v) # rest"
      by (cases "ms_state s") auto
    let ?s' = "if isEntryExpiredAtKey s h now then deleteKeyData h Expired s else evictOldest now s"
    have step: "ensureRoomLoop now s = ensureRoomLoop now ?s'"
      using True st by (subst ensureRoomLoop.simps) simp
    have tl: "ms_state ?s' = rest"
      using st "1.prems"(1) by (simp add: state_evictOldest delete_head)
    have ok: "jsmap_ok rest" using st "1.prems"(1) by (simp add: jsmap_ok_def)
    have cfg: "ms_maxKeys ?s' = ms_maxKeys s" by simp
    have "ms_state (ensureRoomLoop now ?s') =
        drop (length rest - nat (ms_maxKeys s - 1)) rest"
      using "1.IH" [OF True st refl] tl ok cfg "1.prems"(2) by (cases "isEntryExpiredAtKey s h now") auto
    moreover have "length (ms_state s) - nat (ms_maxKeys s - 1) =
        Suc (length rest - nat (ms_maxKeys s - 1))"
      using True st "1.prems"(2) by simp
    ultimately show ?thesis using step st by simp
  qed
qed

lemma mem_inv_deleteKeyData [intro]: "mem_inv s \<Longrightarrow> mem_inv (deleteKeyData k r s)"
  by (rule mem_inv_shrink [of s]) (auto simp: mem_inv_jsmap dest: set_deleteD)

lemma jsmap_ok_drop [simp]: "jsmap_ok m \<Longrightarrow> jsmap_ok (drop n m)"
  by (simp add: jsmap_ok_def drop_map [symmetric])

lemma mem_inv_ensureRoomLoop: "mem_inv s \<Longrightarrow> 0 < ms_maxKeys s \<Longrightarrow> mem_inv (ensureRoomLoop now s)"
  by (rule mem_inv_shrink [of s])
     (auto simp: mem_inv_jsmap state_ensureRoomLoop dest: in_set_dropD)

lemma mem_inv_ensureRoom [intro]: "mem_inv s \<Longrightarrow> mem_inv (ensureRoomForNewKey now k s)"
  by (auto simp: ensureRoomForNewKey_def mem_inv_def [of s] cfg_ok_def intro!: mem_inv_ensureRoomLoop)

lemma mem_inv_lookup: "mem_inv s \<Longrightarrow> map_of (ms_state s) k = Some e \<Longrightarrow> entry_ok s e"
  by (force simp: mem_inv_def dest: map_of_SomeD)

lemma mem_inv_touchKey [intro]: "mem_inv s \<Longrightarrow> mem_inv (touchKey k s)"
  using entry_ok_cong [of "ms_del k s" s]
  by (auto simp: touchKey_def mem_inv_lookup split: option.splits)

lemma mem_inv_store_mru [intro]: "mem_inv s \<Longrightarrow> entry_ok s e \<Longrightarrow> mem_inv (ms_store_mru k e s)"
  using entry_ok_cong [of "ms_del k s" s] by (auto simp: ms_store_mru_def)

lemma mem_inv_clear [intro]:
  "mem_inv s \<Longrightarrow> mem_inv (clearSlidingWallExpiryIfExpired k now s)"
  by (auto simp: clearSlidingWallExpiryIfExpired_def split: option.splits prod.splits)

section \<open>The per-key specification\<close>

text \<open>
  What the store does to one key, as a transition on that key's entry: no map, no order, no
  eviction. \<open>entry_increment\<close> gives the answer and the new entry, \<open>entry_usage\<close> what is counted
  against the key. The refinement lemmas below say that the methods act on the looked-up entry
  exactly so.
\<close>

definition live_stamps :: "int \<Rightarrow> time \<Rightarrow> key_state option \<Rightarrow> time list" where
  "live_stamps w now e =
     (case e of
        Some (Sliding ts wall) \<Rightarrow>
          if (case wall of None \<Rightarrow> False | Some x \<Rightarrow> now \<ge> x) then [] else filter (\<lambda>t. t > now - w) ts
      | _ \<Rightarrow> [])"

definition live_fixed :: "int \<Rightarrow> time \<Rightarrow> key_state option \<Rightarrow> int \<times> time" where
  "live_fixed w now e =
     (case e of
        Some (Fixed c r) \<Rightarrow> if now \<ge> r then (0, now + w) else (c, r)
      | _ \<Rightarrow> (0, now + w))"

definition live_bucket :: "mem_store \<Rightarrow> time \<Rightarrow> key_state option \<Rightarrow> int \<times> time" where
  "live_bucket s now e =
     (case e of
        Some (Bucket t l) \<Rightarrow> refillBucketStateForNow s t l now
      | _ \<Rightarrow> (ms_bucketSize s, now))"

definition entry_usage :: "mem_store \<Rightarrow> time \<Rightarrow> key_state option \<Rightarrow> int" where
  "entry_usage s now e =
     (case ms_strategy s of
        SLIDING_WINDOW \<Rightarrow> int (length (live_stamps (ms_windowMs s) now e))
      | FIXED_WINDOW \<Rightarrow> fst (live_fixed (ms_windowMs s) now e)
      | TOKEN_BUCKET \<Rightarrow> ms_bucketSize s - fst (live_bucket s now e))"

definition mem_usage :: "mem_store \<Rightarrow> time \<Rightarrow> key \<Rightarrow> int" where
  "mem_usage s now k = entry_usage s now (map_of (ms_state s) k)"

text \<open>The cap of one increment: the override if it is a usable number, else the configured one.\<close>

definition eff_cap :: "mem_store \<Rightarrow> inc_opts option \<Rightarrow> int" where
  "eff_cap s o' =
     sanitizeRateLimitCap (js_or (opt_maxRequests o') (js_int (ms_maxRequests s))) (ms_maxRequests s)"

definition eff_cost :: "inc_opts option \<Rightarrow> int" where
  "eff_cost o' = sanitizeIncrementCost (opt_cost o') 1"

definition entry_increment ::
  "mem_store \<Rightarrow> time \<Rightarrow> inc_opts option \<Rightarrow> key_state option \<Rightarrow> rl_result \<times> key_state" where
  "entry_increment s now o' e =
     (case ms_strategy s of
        SLIDING_WINDOW \<Rightarrow>
          (let ts = live_stamps (ms_windowMs s) now e @ replicate (nat (eff_cost o')) now
           in (window_result (int (length ts)) (eff_cap s o') (hd ts + ms_windowMs s), Sliding ts None))
      | FIXED_WINDOW \<Rightarrow>
          (let (c, r) = live_fixed (ms_windowMs s) now e
           in (window_result (c + eff_cost o') (eff_cap s o') r, Fixed (c + eff_cost o') r))
      | TOKEN_BUCKET \<Rightarrow>
          (let (t, l) = live_bucket s now e
           in if t \<ge> eff_cost o'
              then (plain_result (ms_bucketSize s - (t - eff_cost o')) (t - eff_cost o')
                      (l + ms_refillIntervalMs s) False, Bucket (t - eff_cost o') l)
              else (plain_result (ms_bucketSize s) 0 (l + ms_refillIntervalMs s) True, Bucket t l)))"

lemma eff_cost_pos [simp]: "0 < eff_cost o'" "1 \<le> eff_cost o'" "0 \<le> eff_cost o'" "\<not> eff_cost o' \<le> 0"
  by (simp_all add: eff_cost_def not_le less_imp_le)

lemma map_of_store_mru [simp]:
  "map_of (ms_state (ms_store_mru k v s)) k' = (if k' = k then Some v else map_of (ms_state s) k')"
  by (simp add: ms_store_mru_def)

lemma map_of_ensureRoom_absent:
  "mem_inv s \<Longrightarrow> map_of (ms_state s) k = None \<Longrightarrow>
   map_of (ms_state (ensureRoomForNewKey now k s)) k = None"
  by (auto simp: ensureRoomForNewKey_def ms_has_def jsmap_has_def state_ensureRoomLoop mem_inv_def
      cfg_ok_def map_of_eq_None_iff dest: in_set_dropD)

lemma map_of_touchKey [simp]: "map_of (ms_state (touchKey k s)) = map_of (ms_state s)"
  by (auto simp: touchKey_def fun_eq_iff split: option.splits)

lemma map_of_clear:
  "map_of (ms_state (clearSlidingWallExpiryIfExpired k now s)) k' =
     (case getSlidingState s k of
        Some (ts, Some e) \<Rightarrow> if now \<ge> e \<and> k' = k then None else map_of (ms_state s) k'
      | _ \<Rightarrow> map_of (ms_state s) k')"
  by (auto simp: clearSlidingWallExpiryIfExpired_def split: option.splits prod.splits)

text \<open>Inversion of the representation invariant at a key, per strategy.\<close>

lemma mem_inv_sliding_cases:
  assumes "mem_inv s" "ms_strategy s = SLIDING_WINDOW"
  obtains (absent) "map_of (ms_state s) k = None"
    | (present) ts w where "map_of (ms_state s) k = Some (Sliding ts w)"
  using mem_inv_lookup [OF assms(1), of k] assms(2)
  by (cases "map_of (ms_state s) k") (auto simp: entry_ok_def is_Sliding_def)

lemma mem_inv_fixed_cases:
  assumes "mem_inv s" "ms_strategy s = FIXED_WINDOW"
  obtains (absent) "map_of (ms_state s) k = None"
    | (present) c r where "map_of (ms_state s) k = Some (Fixed c r)" "0 \<le> c"
  using mem_inv_lookup [OF assms(1), of k] assms(2)
  by (cases "map_of (ms_state s) k") (auto simp: entry_ok_def is_Fixed_def)

lemma mem_inv_bucket_cases:
  assumes "mem_inv s" "ms_strategy s = TOKEN_BUCKET"
  obtains (absent) "map_of (ms_state s) k = None"
    | (present) t l where "map_of (ms_state s) k = Some (Bucket t l)" "0 \<le> t" "t \<le> ms_bucketSize s"
  using mem_inv_lookup [OF assms(1), of k] assms(2)
  by (cases "map_of (ms_state s) k") (auto simp: entry_ok_def is_Bucket_def)

section \<open>Increment refines the per-key transition\<close>

lemma window_result_eq_iff [simp]:
  "totalHits (window_result h c r) = h" "resetTime (window_result h c r) = r"
  "isBlocked (window_result h c r) = (h > c)"
  "remaining (window_result h c r) = (if h > c then 0 else c - h)"
  "storeUnavailable (window_result h c r) = False"
  "res_layers (window_result h c r) = None"
  by (simp_all add: window_result_def Let_def)

lemma case_list_hd: "xs \<noteq> [] \<Longrightarrow> (case xs of [] \<Rightarrow> a | x # _ \<Rightarrow> f x) = f (hd xs)"
  by (cases xs) auto

lemma incrementSliding_entry:
  assumes inv: "mem_inv s" and st: "ms_strategy s = SLIDING_WINDOW"
    and eq: "incrementSliding now k (opt_maxRequests o') (eff_cost o') s = (r, s')"
  shows "r = fst (entry_increment s now o' (map_of (ms_state s) k)) \<and>
    map_of (ms_state s') k = Some (snd (entry_increment s now o' (map_of (ms_state s) k)))"
  using inv st
proof (cases rule: mem_inv_sliding_cases [where k = k])
  case absent
  then show ?thesis using eq st
    by (auto simp: incrementSliding_def entry_increment_def live_stamps_def eff_cap_def
        clearSlidingWallExpiryIfExpired_def getSlidingState_def setSlidingState_def Let_def
        case_list_hd)
next
  case (present ts w)
  then show ?thesis using eq st
    by (auto simp: incrementSliding_def entry_increment_def live_stamps_def eff_cap_def
        clearSlidingWallExpiryIfExpired_def getSlidingState_def setSlidingState_def Let_def
        case_list_hd split: option.splits if_splits)
qed

lemma incrementFixed_entry:
  assumes inv: "mem_inv s" and st: "ms_strategy s = FIXED_WINDOW"
    and eq: "incrementFixed now k (opt_maxRequests o') (eff_cost o') s = (r, s')"
  shows "r = fst (entry_increment s now o' (map_of (ms_state s) k)) \<and>
    map_of (ms_state s') k = Some (snd (entry_increment s now o' (map_of (ms_state s) k)))"
  using inv st
proof (cases rule: mem_inv_fixed_cases [where k = k])
  case absent
  then show ?thesis using eq st
    by (auto simp: incrementFixed_def entry_increment_def live_fixed_def eff_cap_def
        getFixedEntry_def Let_def)
next
  case (present c r)
  then show ?thesis using eq st
    by (auto simp: incrementFixed_def entry_increment_def live_fixed_def eff_cap_def
        getFixedEntry_def Let_def split: if_splits)
qed

lemma incrementTokenBucket_entry:
  assumes inv: "mem_inv s" and st: "ms_strategy s = TOKEN_BUCKET"
    and eq: "incrementTokenBucket now k (eff_cost o') s = (r, s')"
  shows "r = fst (entry_increment s now o' (map_of (ms_state s) k)) \<and>
    map_of (ms_state s') k = Some (snd (entry_increment s now o' (map_of (ms_state s) k)))"
  using inv st
proof (cases rule: mem_inv_bucket_cases [where k = k])
  case absent
  then show ?thesis using eq st
    by (auto simp: incrementTokenBucket_def entry_increment_def live_bucket_def
        getBucketEntry_def Let_def split: if_splits)
next
  case (present t l)
  then show ?thesis using eq st
    by (auto simp: incrementTokenBucket_def entry_increment_def live_bucket_def
        refillBucketStateForNow_def getBucketEntry_def Let_def split: if_splits)
qed

lemma mem_increment_entry:
  assumes "mem_inv s" and "mem_increment now k o' s = (r, s')"
  shows "r = fst (entry_increment s now o' (map_of (ms_state s) k))"
    and "map_of (ms_state s') k = Some (snd (entry_increment s now o' (map_of (ms_state s) k)))"
  using assms incrementSliding_entry [of s now k o' r s'] incrementFixed_entry [of s now k o' r s']
    incrementTokenBucket_entry [of s now k o' r s']
  by (auto simp: mem_increment_def eff_cost_def Let_def split: strategy.splits)

text \<open>The rest of the map: unchanged when nothing is evicted, otherwise some of it is dropped.\<close>

definition has_room :: "mem_store \<Rightarrow> key \<Rightarrow> bool" where
  "has_room s k \<longleftrightarrow> ms_maxKeys s = 0 \<or>
     int (length (ms_state s)) < (if ms_has s k then ms_maxKeys s + 1 else ms_maxKeys s)"

lemma ensureRoom_noevict: "has_room s k \<Longrightarrow> ensureRoomForNewKey now k s = s"
  by (auto simp: has_room_def ensureRoomForNewKey_def ensureRoomLoop.simps)

lemma has_room_clear:
  assumes "jsmap_ok (ms_state s)" "has_room s k"
  shows "has_room (clearSlidingWallExpiryIfExpired k now s) k"
proof (cases "map_of (ms_state s) k")
  case None
  then show ?thesis using assms(2) by (simp add: clearSlidingWallExpiryIfExpired_def getSlidingState_def)
next
  case (Some v)
  then show ?thesis using assms length_delete_present [OF assms(1) Some]
    by (auto simp: has_room_def clearSlidingWallExpiryIfExpired_def ms_has_def jsmap_has_def
        split: option.splits prod.splits)
qed

lemma mem_increment_frame:
  assumes "jsmap_ok (ms_state s)" and "mem_increment now k o' s = (r, s')" and "k' \<noteq> k"
    and room: "has_room s k"
  shows "map_of (ms_state s') k' = map_of (ms_state s) k'"
  using assms(2,3) ensureRoom_noevict [OF room] ensureRoom_noevict [OF has_room_clear [OF assms(1) room]]
  by (auto simp: mem_increment_def incrementSliding_def incrementFixed_def incrementTokenBucket_def
      setSlidingState_def Let_def map_of_clear
      split: strategy.splits option.splits prod.splits if_splits)

section \<open>Every operation keeps the invariant\<close>

lemma refill_range:
  assumes "cfg_ok s" "ms_strategy s = TOKEN_BUCKET" "0 \<le> t" "t \<le> ms_bucketSize s"
  shows "0 \<le> fst (refillBucketStateForNow s t l now)"
    and "fst (refillBucketStateForNow s t l now) \<le> ms_bucketSize s"
  using assms by (auto simp: refillBucketStateForNow_def cfg_ok_def Let_def)

lemma entry_increment_ok:
  assumes "mem_inv s"
  shows "entry_ok s (snd (entry_increment s now o' (map_of (ms_state s) k)))"
proof (cases "ms_strategy s")
  case SLIDING_WINDOW
  then show ?thesis by (simp add: entry_ok_def entry_increment_def Let_def)
next
  case TOKEN_BUCKET
  have cfg: "cfg_ok s" using assms by (simp add: mem_inv_def)
  from assms TOKEN_BUCKET show ?thesis
  proof (cases rule: mem_inv_bucket_cases [where k = k])
    case absent
    then show ?thesis using TOKEN_BUCKET cfg
      by (auto simp: entry_ok_def entry_increment_def live_bucket_def cfg_ok_def Let_def)
  next
    case (present t l)
    then show ?thesis using TOKEN_BUCKET refill_range [OF cfg TOKEN_BUCKET, of t l now]
        eff_cost_pos(1) [of o']
      by (auto simp: entry_ok_def entry_increment_def live_bucket_def Let_def case_prod_beta
          simp del: eff_cost_pos)
  qed
next
  case FIXED_WINDOW
  note fw = this
  from assms FIXED_WINDOW show ?thesis
    by (cases rule: mem_inv_fixed_cases [where k = k])
       (simp_all add: fw entry_ok_def entry_increment_def live_fixed_def Let_def)
qed

lemma mem_increment_inv:
  assumes inv: "mem_inv s" and eq: "mem_increment now k o' s = (r, s')"
  shows "mem_inv s'" and "mem_cfg s' = mem_cfg s"
proof -
  let ?e = "snd (entry_increment s now o' (map_of (ms_state s) k))"
  have e: "map_of (ms_state s') k = Some ?e" by (rule mem_increment_entry [OF inv eq])
  have "\<exists>s1 e. mem_inv s1 \<and> mem_cfg s1 = mem_cfg s \<and>
      (s' = ms_store_mru k e s1 \<or> s' = ms_put k e s1)"
  proof (cases "ms_strategy s")
    case SLIDING_WINDOW
    let ?s1 = "clearSlidingWallExpiryIfExpired k now s"
    let ?s2 = "case getSlidingState ?s1 k of Some _ \<Rightarrow> ms_del k ?s1 | None \<Rightarrow> ensureRoomForNewKey now k ?s1"
    have "mem_inv ?s2" "mem_cfg ?s2 = mem_cfg s" using inv by (auto split: option.splits)
    moreover have "\<exists>e. s' = ms_put k e ?s2"
      using SLIDING_WINDOW eq
      by (auto simp: mem_increment_def incrementSliding_def setSlidingState_def Let_def
          split: option.splits)
    ultimately show ?thesis by blast
  next
    case TOKEN_BUCKET
    let ?s1 = "case getBucketEntry s k of None \<Rightarrow> ensureRoomForNewKey now k s | Some _ \<Rightarrow> s"
    have "mem_inv ?s1" "mem_cfg ?s1 = mem_cfg s" using inv by (auto split: option.splits)
    moreover have "\<exists>e. s' = ms_store_mru k e ?s1"
      using TOKEN_BUCKET eq
      by (auto simp: mem_increment_def incrementTokenBucket_def Let_def
          split: option.splits prod.splits if_splits)
    ultimately show ?thesis by blast
  next
    case FIXED_WINDOW
    let ?s1 = "case getFixedEntry s k of None \<Rightarrow> ensureRoomForNewKey now k s | Some _ \<Rightarrow> s"
    have "mem_inv ?s1" "mem_cfg ?s1 = mem_cfg s" using inv by (auto split: option.splits)
    moreover have "\<exists>e. s' = ms_store_mru k e ?s1"
      using FIXED_WINDOW eq
      by (auto simp: mem_increment_def incrementFixed_def Let_def
          split: option.splits prod.splits if_splits)
    ultimately show ?thesis by blast
  qed
  then obtain s1 e' where s1: "mem_inv s1" "mem_cfg s1 = mem_cfg s"
    and s': "s' = ms_store_mru k e' s1 \<or> s' = ms_put k e' s1" by blast
  moreover from s' e have "e' = ?e" by auto
  then have "entry_ok s1 e'"
    using entry_ok_cong [OF s1(2)] entry_increment_ok [OF inv] by simp
  ultimately show "mem_inv s'" "mem_cfg s' = mem_cfg s" by auto
qed

lemma mem_decrement_inv:
  assumes "mem_inv s" shows "mem_inv (mem_decrement k d s)" and "mem_cfg (mem_decrement k d s) = mem_cfg s"
proof -
  note lk = mem_inv_lookup [OF assms, of k]
  show "mem_inv (mem_decrement k d s)"
  proof (cases "ms_strategy s")
    case SLIDING_WINDOW
    then show ?thesis using assms
      by (auto simp: mem_decrement_def decrementSliding_def decrementSlidingFromEnd_def
          setSlidingState_def Let_def entry_ok_def split: option.splits)
  next
    case TOKEN_BUCKET
    have "0 \<le> sanitizeIncrementCost (opt_dec_cost d) 1" by (simp add: less_imp_le)
    then show ?thesis using TOKEN_BUCKET assms lk
      by (auto simp: mem_decrement_def decrementTokenBucket_def getBucketEntry_def Let_def entry_ok_def
          split: option.splits key_state.splits)
  next
    case FIXED_WINDOW
    then show ?thesis using assms
      by (auto simp: mem_decrement_def decrementFixed_def Let_def entry_ok_def split: option.splits)
  qed
  show "mem_cfg (mem_decrement k d s) = mem_cfg s"
    by (auto simp: mem_decrement_def decrementSliding_def decrementSlidingFromEnd_def
        decrementTokenBucket_def decrementFixed_def setSlidingState_def Let_def
        split: option.splits strategy.splits)
qed

lemma mem_reset_inv: "mem_inv s \<Longrightarrow> mem_inv (mem_reset now k s)"
  by (auto simp: mem_reset_def entry_ok_def mem_inv_def [of s] cfg_ok_def split: strategy.splits
      intro: mem_inv_put mem_inv_del)

end
