(* ===== verification/Memory_Store_Laws.thy ===== *)
theory Memory_Store_Laws
  imports Memory_Store
begin

text \<open>
  The laws of the in-memory store: the invariant over arbitrary call sequences, the LRU bound, the
  store contract (\<open>quota_store\<close> interpreted on \<open>mem_ops\<close>), what \<open>get\<close>, \<open>set\<close>, \<open>delete\<close> and
  \<open>getActiveKeys\<close> return, and that the background purge is not observable.
\<close>

section \<open>The remaining methods keep the invariant\<close>

lemma mem_get_inv: "mem_inv s \<Longrightarrow> mem_inv (snd (mem_get now k s))"
  by (auto simp: mem_get_def getSlidingReadOnly_def getFixedReadOnly_def getTokenBucketReadOnly_def
      Let_def split: strategy.splits option.splits list.splits prod.splits)

lemma mem_set_inv: "mem_inv s \<Longrightarrow> mem_inv (snd (mem_set now k n e s))"
  by (auto simp: mem_set_def setSliding_def setFixed_def setTokenBucket_def Let_def entry_ok_def
      mem_inv_def [of s] cfg_ok_def split: strategy.splits intro!: mem_inv_store_mru)

lemma mem_delete_inv: "mem_inv s \<Longrightarrow> mem_inv (snd (mem_delete k s))"
  by (auto simp: mem_delete_def)

lemma activeSliding_inv: "mem_inv s \<Longrightarrow> mem_inv (snd (activeSliding now ks s))"
proof (induction ks arbitrary: s)
  case (Cons k ks)
  then have "mem_inv (snd (activeSliding now ks (clearSlidingWallExpiryIfExpired k now s)))" by blast
  then show ?case by (auto simp: Let_def split: option.splits list.splits prod.splits)
qed simp

lemma mem_getActiveKeys_inv: "mem_inv s \<Longrightarrow> mem_inv (snd (mem_getActiveKeys now s))"
  by (auto simp: mem_getActiveKeys_def activeSliding_inv split: strategy.splits)

lemma purgeSlidingTrim_inv:
  assumes "mem_inv s" shows "mem_inv (purgeSlidingTrim now k s)"
  using assms mem_inv_lookup [OF assms, of k]
  by (auto simp: purgeSlidingTrim_def getSlidingState_def setSlidingState_def entry_ok_def Let_def
      split: option.splits key_state.splits strategy.splits intro!: mem_inv_put)

lemma purge_key_inv:
  "mem_inv s \<Longrightarrow> mem_inv (purgeSlidingWall now k s)"
  "mem_inv s \<Longrightarrow> mem_inv (purgeFixedKey now k s)"
  "mem_inv s \<Longrightarrow> mem_inv (purgeBucketKey now k s)"
  by (auto simp: purgeSlidingWall_def purgeFixedKey_def purgeBucketKey_def Let_def split: option.splits)

lemma fold_keeps: "(\<And>x s. P s \<Longrightarrow> P (f x s)) \<Longrightarrow> P s \<Longrightarrow> P (fold f xs s)"
  by (induction xs arbitrary: s) auto

lemma purgeExpired_inv: "mem_inv s \<Longrightarrow> mem_inv (purgeExpired now s)"
  by (auto simp: purgeExpired_def purgeSliding_def purgeFixed_def purgeBuckets_def Let_def
      split: strategy.splits intro!: fold_keeps [of mem_inv] purge_key_inv purgeSlidingTrim_inv)

lemma mem_clear_all_inv: "mem_inv s \<Longrightarrow> mem_inv (mem_resetAll s)" "mem_inv s \<Longrightarrow> mem_inv (mem_shutdown s)"
  by (auto simp: mem_inv_def mem_resetAll_def mem_shutdown_def cfg_ok_def)

section \<open>Call sequences\<close>

datatype mem_call =
    CIncrement time key "inc_opts option"
  | CDecrement key "dec_opts option"
  | is_CReset: CReset time key
  | CGet time key
  | CSet time key int "time option"
  | CDelete key
  | CActiveKeys time
  | CPurge time
  | CResetAll
  | CShutdown

primrec mem_exec :: "mem_call \<Rightarrow> mem_store \<Rightarrow> mem_store" where
  "mem_exec (CIncrement now k o') s = snd (mem_increment now k o' s)"
| "mem_exec (CDecrement k d) s = mem_decrement k d s"
| "mem_exec (CReset now k) s = mem_reset now k s"
| "mem_exec (CGet now k) s = snd (mem_get now k s)"
| "mem_exec (CSet now k n e) s = snd (mem_set now k n e s)"
| "mem_exec (CDelete k) s = snd (mem_delete k s)"
| "mem_exec (CActiveKeys now) s = snd (mem_getActiveKeys now s)"
| "mem_exec (CPurge now) s = purgeExpired now s"
| "mem_exec CResetAll s = mem_resetAll s"
| "mem_exec CShutdown s = mem_shutdown s"

definition options_ok :: "mem_options \<Rightarrow> bool" where
  "options_ok opts =
     (case opts of
        WindowOptions strat _ _ \<Rightarrow> strat \<noteq> TOKEN_BUCKET
      | TokenBucketOptions tpi interval bsize \<Rightarrow> 0 \<le> tpi \<and> 1 \<le> interval \<and> 0 \<le> bsize)"

lemma new_MemoryStore_state [simp]: "ms_state (new_MemoryStore opts mk ev) = []"
  by (simp add: new_MemoryStore_def Let_def split: mem_options.splits)

lemma new_MemoryStore_inv: "options_ok opts \<Longrightarrow> mem_inv (new_MemoryStore opts mk ev)"
  by (auto simp: options_ok_def mem_inv_def cfg_ok_def new_MemoryStore_def Let_def sanitize_ge1
      sanitize_le_MAX MAX_SAFE_INTEGER_def split: mem_options.splits option.splits
      intro!: sanitize_le_MAX(1) [unfolded MAX_SAFE_INTEGER_def])

lemma mem_exec_inv: "mem_inv s \<Longrightarrow> mem_inv (mem_exec c s)"
  by (cases c)
     (simp_all add: mem_decrement_inv mem_reset_inv mem_get_inv mem_set_inv mem_delete_inv
       mem_getActiveKeys_inv purgeExpired_inv mem_clear_all_inv mem_increment_inv(1) [OF _ prod.collapse [symmetric]])

section \<open>Capacity and LRU order\<close>

definition within_cap :: "mem_store \<Rightarrow> bool" where
  "within_cap s \<longleftrightarrow> ms_maxKeys s = 0 \<or> int (length (ms_state s)) \<le> ms_maxKeys s"

text \<open>The \<open>maxKeys - 1\<close> most recently used of a list of entries.\<close>

definition recent :: "int \<Rightarrow> ('k, 'v) jsmap \<Rightarrow> ('k, 'v) jsmap" where
  "recent maxKeys m = drop (length m - nat (maxKeys - 1)) m"

lemma recent_id: "int (length m) < maxKeys \<Longrightarrow> recent maxKeys m = m"
  by (simp add: recent_def)

lemma length_recent: "0 < maxKeys \<Longrightarrow> int (length (recent maxKeys m)) < maxKeys"
  by (simp add: recent_def)

lemma state_ensureRoom_absent:
  "jsmap_ok (ms_state s) \<Longrightarrow> 0 < ms_maxKeys s \<Longrightarrow> map_of (ms_state s) k = None \<Longrightarrow>
   ms_state (ensureRoomForNewKey now k s) = recent (ms_maxKeys s) (ms_state s)"
  by (simp add: ensureRoomForNewKey_def ms_has_def jsmap_has_def state_ensureRoomLoop recent_def)

lemma state_store_mru:
  "0 < ms_maxKeys s \<Longrightarrow> ms_state (ms_store_mru k v s) = AList.delete k (ms_state s) @ [(k, v)]"
  by (auto simp: ms_store_mru_def ms_has_def jsmap_has_def update_absent delete_absent)

lemma delete_present_small:
  "jsmap_ok (ms_state s) \<Longrightarrow> within_cap s \<Longrightarrow> 0 < ms_maxKeys s \<Longrightarrow> map_of (ms_state s) k = Some e \<Longrightarrow>
   recent (ms_maxKeys s) (AList.delete k (ms_state s)) = AList.delete k (ms_state s)"
  by (rule recent_id) (auto simp: within_cap_def dest: length_delete_present)

lemma state_make_room:
  assumes ok: "jsmap_ok (ms_state s)" and cap: "within_cap s" "0 < ms_maxKeys s"
  shows "AList.delete k (ms_state (if ms_has s k then s else ensureRoomForNewKey now k s)) =
    recent (ms_maxKeys s) (AList.delete k (ms_state s))"
proof (cases "map_of (ms_state s) k")
  case None
  then have "map_of (recent (ms_maxKeys s) (ms_state s)) k = None"
    by (auto simp: recent_def map_of_eq_None_iff dest: in_set_dropD)
  with None ok cap(2) show ?thesis
    by (simp add: ms_has_def jsmap_has_def state_ensureRoom_absent delete_absent)
next
  case (Some e)
  with ok cap show ?thesis by (simp add: ms_has_def jsmap_has_def delete_present_small)
qed

lemma state_clear_room:
  assumes ok: "jsmap_ok (ms_state s)" and cap: "within_cap s" "0 < ms_maxKeys s"
    and none: "map_of (ms_state (clearSlidingWallExpiryIfExpired k now s)) k = None"
  shows "ms_state (ensureRoomForNewKey now k (clearSlidingWallExpiryIfExpired k now s)) =
    recent (ms_maxKeys s) (AList.delete k (ms_state s))"
proof -
  let ?c = "clearSlidingWallExpiryIfExpired k now s"
  have st: "ms_state ?c = AList.delete k (ms_state s)"
    using none by (auto simp: clearSlidingWallExpiryIfExpired_def delete_absent
        split: option.splits prod.splits if_splits)
  then show ?thesis using ok cap(2) none by (simp add: state_ensureRoom_absent)
qed

text \<open>After an increment under \<open>maxKeys\<close> the map is: of the other keys the \<open>maxKeys - 1\<close> most
  recently used, in their order, then the key itself.\<close>

lemma mem_increment_lru:
  assumes inv: "mem_inv s" and cap: "within_cap s" and pos: "0 < ms_maxKeys s"
    and eq: "mem_increment now k o' s = (r, s')"
  shows "\<exists>e. ms_state s' = recent (ms_maxKeys s) (AList.delete k (ms_state s)) @ [(k, e)]"
proof -
  have ok: "jsmap_ok (ms_state s)" using inv by (rule mem_inv_jsmap)
  note room = state_make_room [OF ok cap pos, of k now]
  show ?thesis
  proof (cases "ms_strategy s")
    case SLIDING_WINDOW
    let ?s1 = "clearSlidingWallExpiryIfExpired k now s"
    have inv1: "mem_inv ?s1" and st1: "ms_strategy ?s1 = SLIDING_WINDOW" and mk: "ms_maxKeys ?s1 = ms_maxKeys s"
      using inv SLIDING_WINDOW by auto
    from inv1 st1 show ?thesis
    proof (cases rule: mem_inv_sliding_cases [where k = k])
      case absent
      then have g: "getSlidingState ?s1 k = None" by (simp add: getSlidingState_def)
      have nn: "map_of (recent (ms_maxKeys s) (AList.delete k (ms_state s))) k = None"
        by (auto simp: recent_def map_of_eq_None_iff dest!: in_set_dropD set_deleteD)
      from SLIDING_WINDOW eq g show ?thesis
        by (auto simp: mem_increment_def incrementSliding_def setSlidingState_def Let_def
            state_clear_room [OF ok cap pos absent] update_absent nn)
    next
      case (present ts w)
      then have g: "getSlidingState ?s1 k = Some (ts, w)" by (simp add: getSlidingState_def)
      have "?s1 = s" using present
        by (auto simp: clearSlidingWallExpiryIfExpired_def split: option.splits prod.splits if_splits)
      with SLIDING_WINDOW eq g present show ?thesis
        by (auto simp: mem_increment_def incrementSliding_def setSlidingState_def Let_def
            update_absent delete_present_small [OF ok cap pos])
    qed
  next
    case TOKEN_BUCKET
    have g: "(getBucketEntry s k = None) = (\<not> ms_has s k)"
      using inv TOKEN_BUCKET
      by (cases rule: mem_inv_bucket_cases [where k = k])
         (simp_all add: getBucketEntry_def ms_has_def jsmap_has_def)
    show ?thesis
      using TOKEN_BUCKET eq room g pos
      by (auto simp: mem_increment_def incrementTokenBucket_def Let_def state_store_mru
          split: option.splits prod.splits if_splits)
  next
    case FIXED_WINDOW
    have g: "(getFixedEntry s k = None) = (\<not> ms_has s k)"
      using inv FIXED_WINDOW
      by (cases rule: mem_inv_fixed_cases [where k = k])
         (simp_all add: getFixedEntry_def ms_has_def jsmap_has_def)
    show ?thesis
      using FIXED_WINDOW eq room g pos
      by (auto simp: mem_increment_def incrementFixed_def Let_def state_store_mru
          split: option.splits prod.splits if_splits)
  qed
qed

lemma recent_cap:
  "0 < maxKeys \<Longrightarrow> int (length (recent maxKeys m @ [p])) \<le> maxKeys"
  using length_recent [of maxKeys m] by simp

lemma within_cap_shrink:
  "within_cap s \<Longrightarrow> ms_maxKeys s' = ms_maxKeys s \<Longrightarrow> length (ms_state s') \<le> length (ms_state s) \<Longrightarrow>
   within_cap s'"
  by (auto simp: within_cap_def)

lemma length_update_present: "map_of m k = Some v \<Longrightarrow> length (AList.update k e m) = length m"
  by (simp add: length_update jsmap_has_def)

lemma length_touchKey: "jsmap_ok (ms_state s) \<Longrightarrow> length (ms_state (touchKey k s)) = length (ms_state s)"
  by (auto simp: touchKey_def length_update jsmap_has_def dest: length_delete_present split: option.splits)

lemma length_clear: "length (ms_state (clearSlidingWallExpiryIfExpired k now s)) \<le> length (ms_state s)"
  by (auto simp: clearSlidingWallExpiryIfExpired_def length_delete_le split: option.splits prod.splits)

lemma jsmap_ok_clear: "jsmap_ok (ms_state s) \<Longrightarrow> jsmap_ok (ms_state (clearSlidingWallExpiryIfExpired k now s))"
  by (auto simp: clearSlidingWallExpiryIfExpired_def split: option.splits prod.splits)

lemma mem_increment_within_cap:
  assumes "mem_inv s" "within_cap s"
  shows "within_cap (snd (mem_increment now k o' s))"
proof (cases "ms_maxKeys s = 0")
  case True
  then show ?thesis using mem_increment_inv(2) [OF assms(1) prod.collapse [symmetric], of now k o']
    by (auto simp: within_cap_def dest: mem_cfg_eqD)
next
  case False
  then have pos: "0 < ms_maxKeys s" using assms(1) by (simp add: mem_inv_def cfg_ok_def)
  obtain e where "ms_state (snd (mem_increment now k o' s)) =
      recent (ms_maxKeys s) (AList.delete k (ms_state s)) @ [(k, e)]"
    using mem_increment_lru [OF assms pos prod.collapse [symmetric]] by blast
  moreover have "ms_maxKeys (snd (mem_increment now k o' s)) = ms_maxKeys s"
    using mem_increment_inv(2) [OF assms(1) prod.collapse [symmetric], of now k o']
    by (auto dest: mem_cfg_eqD)
  ultimately show ?thesis using recent_cap [OF pos] by (auto simp: within_cap_def)
qed

lemma mem_set_within_cap:
  assumes "mem_inv s" "within_cap s"
  shows "within_cap (snd (mem_set now k n e s))"
proof (cases "ms_maxKeys s = 0")
  case True
  then show ?thesis
    by (simp add: within_cap_def mem_set_def setSliding_def setFixed_def setTokenBucket_def Let_def
        split: strategy.splits)
next
  case False
  then have pos: "0 < ms_maxKeys s" using assms(1) by (simp add: mem_inv_def cfg_ok_def)
  have ok: "jsmap_ok (ms_state s)" using assms(1) by (rule mem_inv_jsmap)
  let ?s1 = "if ms_has s k then s else ensureRoomForNewKey now k s"
  have "\<exists>v. snd (mem_set now k n e s) = ms_store_mru k v ?s1"
    by (cases "ms_strategy s"; cases "ms_has s k")
       (auto simp: mem_set_def setSliding_def setFixed_def setTokenBucket_def Let_def)
  then obtain v where "snd (mem_set now k n e s) = ms_store_mru k v ?s1" by blast
  moreover have "ms_state (ms_store_mru k v ?s1) =
      recent (ms_maxKeys s) (AList.delete k (ms_state s)) @ [(k, v)]"
    using state_make_room [OF ok assms(2) pos, of k now] pos by (simp add: state_store_mru)
  ultimately show ?thesis using recent_cap [OF pos, of "AList.delete k (ms_state s)"]
    by (auto simp: within_cap_def)
qed

lemma mem_decrement_length: "length (ms_state (mem_decrement k d s)) \<le> length (ms_state s)"
  by (auto simp: mem_decrement_def decrementSliding_def decrementSlidingFromEnd_def decrementFixed_def
      decrementTokenBucket_def setSlidingState_def getSlidingState_def getFixedEntry_def
      getBucketEntry_def length_delete_le length_update_present Let_def
      split: strategy.splits option.splits key_state.splits)

lemma mem_get_within_cap:
  assumes "mem_inv s" "within_cap s"
  shows "within_cap (snd (mem_get now k s))"
proof -
  have ok: "jsmap_ok (ms_state s)" using assms(1) by (rule mem_inv_jsmap)
  have "length (ms_state (snd (mem_get now k s))) \<le> length (ms_state s)"
    using length_clear [of k now s] ok jsmap_ok_clear [OF ok, of k now]
    by (auto simp: mem_get_def getSlidingReadOnly_def getFixedReadOnly_def getTokenBucketReadOnly_def
        length_touchKey Let_def split: strategy.splits option.splits list.splits prod.splits)
  moreover have "ms_maxKeys (snd (mem_get now k s)) = ms_maxKeys s"
    by (auto simp: mem_get_def getSlidingReadOnly_def getFixedReadOnly_def getTokenBucketReadOnly_def
        Let_def split: strategy.splits option.splits list.splits prod.splits)
  ultimately show ?thesis using assms(2) by (auto intro: within_cap_shrink)
qed

lemma activeSliding_shrinks:
  "length (ms_state (snd (activeSliding now ks s))) \<le> length (ms_state s) \<and>
   ms_maxKeys (snd (activeSliding now ks s)) = ms_maxKeys s"
proof (induction ks arbitrary: s)
  case (Cons k ks)
  let ?s1 = "clearSlidingWallExpiryIfExpired k now s"
  have "snd (activeSliding now (k # ks) s) = snd (activeSliding now ks ?s1)"
    by (auto simp: Let_def split: option.splits list.splits prod.splits)
  with Cons [of ?s1] length_clear [of k now s] show ?case by simp
qed simp

lemma purge_key_shrinks:
  "length (ms_state (purgeSlidingWall now k s)) \<le> length (ms_state s)"
  "length (ms_state (purgeSlidingTrim now k s)) \<le> length (ms_state s)"
  "length (ms_state (purgeFixedKey now k s)) \<le> length (ms_state s)"
  "length (ms_state (purgeBucketKey now k s)) \<le> length (ms_state s)"
  by (auto simp: purgeSlidingWall_def purgeSlidingTrim_def purgeFixedKey_def purgeBucketKey_def
      clearSlidingWallExpiryIfExpired_def getSlidingState_def setSlidingState_def Let_def
      length_delete_le length_update_present split: option.splits prod.splits key_state.splits)

lemma purge_key_maxKeys:
  "ms_maxKeys (purgeSlidingWall now k s) = ms_maxKeys s"
  "ms_maxKeys (purgeSlidingTrim now k s) = ms_maxKeys s"
  "ms_maxKeys (purgeFixedKey now k s) = ms_maxKeys s"
  "ms_maxKeys (purgeBucketKey now k s) = ms_maxKeys s"
  by (auto simp: purgeSlidingWall_def purgeSlidingTrim_def purgeFixedKey_def purgeBucketKey_def
      setSlidingState_def Let_def split: option.splits prod.splits)

lemma purgeExpired_within_cap: "within_cap s \<Longrightarrow> within_cap (purgeExpired now s)"
  by (auto simp: purgeExpired_def purgeSliding_def purgeFixed_def purgeBuckets_def Let_def
      split: strategy.splits intro!: fold_keeps [of within_cap]
      intro: within_cap_shrink [OF _ purge_key_maxKeys(1) purge_key_shrinks(1)]
        within_cap_shrink [OF _ purge_key_maxKeys(2) purge_key_shrinks(2)]
        within_cap_shrink [OF _ purge_key_maxKeys(3) purge_key_shrinks(3)]
        within_cap_shrink [OF _ purge_key_maxKeys(4) purge_key_shrinks(4)])

lemma mem_exec_within_cap:
  assumes "mem_inv s" "within_cap s" "\<not> is_CReset c"
  shows "within_cap (mem_exec c s)"
proof (cases c)
  case (CDecrement k d)
  have "ms_maxKeys (mem_decrement k d s) = ms_maxKeys s"
    using mem_decrement_inv(2) [OF assms(1)] by (auto dest: mem_cfg_eqD)
  with CDecrement show ?thesis
    using within_cap_shrink [OF assms(2) _ mem_decrement_length] by simp
next
  case (CActiveKeys now)
  then show ?thesis using assms(2) activeSliding_shrinks [of now "map fst (ms_state s)" s]
    by (auto simp: mem_getActiveKeys_def within_cap_shrink split: strategy.splits)
next
  case (CDelete k)
  then show ?thesis
    by (simp add: mem_delete_def within_cap_shrink [OF assms(2)] length_delete_le)
next
  case CResetAll
  then show ?thesis by (simp add: mem_resetAll_def within_cap_shrink [OF assms(2)])
next
  case CShutdown
  then show ?thesis by (simp add: mem_shutdown_def within_cap_shrink [OF assms(2)])
qed (use assms in \<open>simp_all add: mem_increment_within_cap mem_set_within_cap mem_get_within_cap
       purgeExpired_within_cap\<close>)

section \<open>The store contract\<close>

lemma live_bucket_range:
  assumes "mem_inv s" "ms_strategy s = TOKEN_BUCKET"
  shows "0 \<le> fst (live_bucket s now (map_of (ms_state s) k))"
    and "fst (live_bucket s now (map_of (ms_state s) k)) \<le> ms_bucketSize s"
proof -
  have cfg: "cfg_ok s" using assms(1) by (simp add: mem_inv_def)
  from assms show "0 \<le> fst (live_bucket s now (map_of (ms_state s) k))"
    by (cases rule: mem_inv_bucket_cases [where k = k])
       (use cfg assms(2) refill_range [OF cfg assms(2)] in \<open>auto simp: live_bucket_def cfg_ok_def\<close>)
  from assms show "fst (live_bucket s now (map_of (ms_state s) k)) \<le> ms_bucketSize s"
    by (cases rule: mem_inv_bucket_cases [where k = k])
       (use refill_range [OF cfg assms(2)] in \<open>auto simp: live_bucket_def\<close>)
qed

lemma refill_refill:
  assumes "1 \<le> ms_refillIntervalMs s"
  shows "refillBucketStateForNow s t (snd (refillBucketStateForNow s t0 l now)) now =
    (t, snd (refillBucketStateForNow s t0 l now))"
proof -
  let ?i = "ms_refillIntervalMs s"
  have "(now - l - (now - l) div ?i * ?i) div ?i = 0"
    using assms by (simp add: minus_div_mult_eq_mod)
  then show ?thesis using assms
    by (auto simp: refillBucketStateForNow_def Let_def algebra_simps split: if_splits)
qed

lemma mem_increment_blocked_remaining:
  assumes "mem_inv s" "mem_increment now k o' s = (r, s')"
  shows "0 \<le> remaining r" and "isBlocked r \<Longrightarrow> remaining r = 0"
proof -
  have r: "r = fst (entry_increment s now o' (map_of (ms_state s) k))"
    by (rule mem_increment_entry [OF assms])
  show "0 \<le> remaining r" "isBlocked r \<Longrightarrow> remaining r = 0"
    by (auto simp: r entry_increment_def Let_def case_prod_beta split: strategy.splits if_splits)
qed

text \<open>An allowed increment undone at once: per entry, then for the store.\<close>

definition entry_undo :: "mem_store \<Rightarrow> int \<Rightarrow> key_state \<Rightarrow> key_state option" where
  "entry_undo s cost e =
     (case e of
        Sliding ts w \<Rightarrow>
          if ts = [] then Some e
          else let ts' = take (length ts - nat (min cost (int (length ts)))) ts
               in if ts' = [] then None else Some (Sliding ts' w)
      | Fixed c r \<Rightarrow> if c \<le> 0 then Some e else if c - cost \<le> 0 then None else Some (Fixed (c - cost) r)
      | Bucket t l \<Rightarrow> Some (Bucket (min (ms_bucketSize s) (t + cost)) l))"

lemma mem_decrement_newest_entry:
  assumes "mem_inv s" "map_of (ms_state s) k = Some e" "opt_removeNewest d"
  shows "map_of (ms_state (mem_decrement k d s)) k =
    entry_undo s (sanitizeIncrementCost (opt_dec_cost d) 1) e"
  using assms mem_inv_lookup [OF assms(1,2)]
  by (cases e)
     (auto simp: mem_decrement_def decrementSlidingFromEnd_def decrementFixed_def decrementTokenBucket_def
       getSlidingState_def getFixedEntry_def getBucketEntry_def setSlidingState_def entry_undo_def
       entry_ok_def Let_def split: strategy.splits)

lemma live_bucket_fresh:
  assumes int: "1 \<le> ms_refillIntervalMs s" and tl: "live_bucket s now e = (t, l)"
  shows "refillBucketStateForNow s t' l now = (t', l)"
  using tl refill_refill [OF int] int
  by (auto simp: live_bucket_def refillBucketStateForNow_def split: option.splits key_state.splits)
     (metis refillBucketStateForNow_def snd_conv)+

lemma live_fixed_props:
  assumes "mem_inv s" "ms_strategy s = FIXED_WINDOW" "live_fixed (ms_windowMs s) now (map_of (ms_state s) k) = (c, r)"
  shows "0 \<le> c" "now < r"
proof -
  have "1 \<le> ms_windowMs s" using assms(1,2) by (simp add: mem_inv_def cfg_ok_def)
  with assms show "0 \<le> c" "now < r"
    by (auto simp: live_fixed_def split: if_splits elim: mem_inv_fixed_cases [where k = k])
qed

lemma entry_undo_usage:
  assumes inv: "mem_inv s" and e: "e = map_of (ms_state s) k"
    and inc: "entry_increment s now o' e = (r, e1)" and ok: "\<not> isBlocked r \<or> ms_strategy s \<noteq> TOKEN_BUCKET"
  shows "entry_usage s now (entry_undo s (eff_cost o') e1) = entry_usage s now e"
proof (cases "ms_strategy s")
  case SLIDING_WINDOW
  let ?l = "live_stamps (ms_windowMs s) now e"
  have e1: "e1 = Sliding (?l @ replicate (nat (eff_cost o')) now) None"
    using inc SLIDING_WINDOW by (auto simp: entry_increment_def Let_def)
  have "filter (\<lambda>t. now - ms_windowMs s < t) ?l = ?l"
    by (auto simp: live_stamps_def filter_id_conv split: option.splits key_state.splits)
  then show ?thesis using SLIDING_WINDOW
    by (auto simp: e1 entry_undo_def entry_usage_def Let_def)
       (auto simp: live_stamps_def)
next
  case TOKEN_BUCKET
  have int: "1 \<le> ms_refillIntervalMs s" using inv TOKEN_BUCKET by (simp add: mem_inv_def cfg_ok_def)
  obtain t l where tl: "live_bucket s now e = (t, l)" by (cases "live_bucket s now e")
  have "refillBucketStateForNow s t' l now = (t', l)" for t' by (rule live_bucket_fresh [OF int tl])
  moreover have "t \<le> ms_bucketSize s" using live_bucket_range(2) [OF inv TOKEN_BUCKET, of now k] tl e by simp
  moreover have "e1 = Bucket (t - eff_cost o') l"
    using inc ok tl TOKEN_BUCKET by (auto simp: entry_increment_def Let_def split: if_splits)
  ultimately show ?thesis using TOKEN_BUCKET tl
    by (simp add: entry_undo_def entry_usage_def) (simp add: live_bucket_def)
next
  case FIXED_WINDOW
  obtain c rt where cr: "live_fixed (ms_windowMs s) now e = (c, rt)" by fastforce
  have "e1 = Fixed (c + eff_cost o') rt"
    using inc cr FIXED_WINDOW by (auto simp: entry_increment_def Let_def)
  moreover note live_fixed_props [OF inv FIXED_WINDOW cr [unfolded e]]
  moreover have "\<not> c + eff_cost o' \<le> 0" using eff_cost_pos(1) [of o'] calculation(2) by linarith
  ultimately show ?thesis using FIXED_WINDOW cr
    by (auto simp: entry_undo_def entry_usage_def Let_def) (auto simp: live_fixed_def)
qed

text \<open>The default decrement takes the oldest stamps instead: at that time the usage is the same.\<close>

definition entry_undo_oldest :: "mem_store \<Rightarrow> int \<Rightarrow> key_state \<Rightarrow> key_state option" where
  "entry_undo_oldest s cost e =
     (case e of
        Sliding ts w \<Rightarrow>
          if ts = [] then Some e
          else let ts' = drop (nat (min cost (int (length ts)))) ts
               in if ts' = [] then None else Some (Sliding ts' w)
      | _ \<Rightarrow> entry_undo s cost e)"

lemma mem_decrement_entry:
  assumes "mem_inv s" "map_of (ms_state s) k = Some e"
  shows "map_of (ms_state (mem_decrement k d s)) k =
    (if opt_removeNewest d then entry_undo s else entry_undo_oldest s) (sanitizeIncrementCost (opt_dec_cost d) 1) e"
proof (cases "opt_removeNewest d")
  case True
  then show ?thesis using mem_decrement_newest_entry [OF assms] by simp
next
  case False
  then show ?thesis
    using assms mem_inv_lookup [OF assms]
    by (cases e)
       (auto simp: mem_decrement_def decrementSliding_def decrementFixed_def decrementTokenBucket_def
         getSlidingState_def getFixedEntry_def getBucketEntry_def setSlidingState_def entry_undo_oldest_def
         entry_undo_def entry_ok_def Let_def split: strategy.splits)
qed

lemma entry_undo_oldest_usage:
  assumes inv: "mem_inv s" and e: "e = map_of (ms_state s) k"
    and inc: "entry_increment s now o' e = (r, e1)" and ok: "\<not> isBlocked r \<or> ms_strategy s \<noteq> TOKEN_BUCKET"
  shows "entry_usage s now (entry_undo_oldest s (eff_cost o') e1) = entry_usage s now e"
proof (cases "ms_strategy s = SLIDING_WINDOW")
  case True
  let ?l = "live_stamps (ms_windowMs s) now e" and ?c = "nat (eff_cost o')"
  have e1: "e1 = Sliding (?l @ replicate ?c now) None"
    using inc True by (auto simp: entry_increment_def Let_def)
  have "1 \<le> ms_windowMs s" using inv True by (simp add: mem_inv_def cfg_ok_def)
  then have live: "\<forall>t \<in> set (?l @ replicate ?c now). now - ms_windowMs s < t"
    by (auto simp: live_stamps_def split: option.splits key_state.splits)
  define ts where "ts = drop ?c (?l @ replicate ?c now)"
  have stays: "filter (\<lambda>t. now - ms_windowMs s < t) ts = ts"
    unfolding ts_def by (rule filter_True) (use live in_set_dropD in fast)
  have len: "length ts = length ?l" by (simp add: ts_def)
  have "nat (min (eff_cost o') (int (length (?l @ replicate ?c now)))) = ?c" by simp
  then have "entry_undo_oldest s (eff_cost o') e1 = (if ts = [] then None else Some (Sliding ts None))"
    using eff_cost_pos(1) [of o'] by (simp add: e1 entry_undo_oldest_def Let_def ts_def)
  moreover have "live_stamps (ms_windowMs s) now (if ts = [] then None else Some (Sliding ts None)) = ts"
    using stays by (simp add: live_stamps_def)
  ultimately show ?thesis using True len by (simp add: entry_usage_def)
next
  case False
  have "entry_undo_oldest s (eff_cost o') e1 = entry_undo s (eff_cost o') e1"
    using inc False by (auto simp: entry_increment_def entry_undo_oldest_def Let_def split: strategy.splits prod.splits if_splits)
  then show ?thesis using entry_undo_usage [OF assms] by simp
qed

lemma entry_usage_cong: "mem_cfg s' = mem_cfg s \<Longrightarrow> entry_usage s' now e = entry_usage s now e"
  by (auto simp: entry_usage_def live_bucket_def refillBucketStateForNow_def Let_def
      dest!: mem_cfg_eqD split: strategy.splits option.splits key_state.splits)

lemma entry_undo_cong: "mem_cfg s' = mem_cfg s \<Longrightarrow> entry_undo s' c e = entry_undo s c e"
  by (auto simp: entry_undo_def dest!: mem_cfg_eqD split: key_state.splits)

lemma entry_undo_oldest_cong: "mem_cfg s' = mem_cfg s \<Longrightarrow> entry_undo_oldest s' c e = entry_undo_oldest s c e"
  by (auto simp: entry_undo_oldest_def entry_undo_cong [of s' s] split: key_state.splits)

text \<open>A matching decrement, of the newest or the oldest stamps, takes back at once what an increment
  counted: every increment of a window strategy, and an allowed one of a token bucket.\<close>

lemma mem_rollback_usage:
  assumes inv: "mem_inv s" and inc: "mem_increment now k o' s = (r, s1)"
    and ok: "\<not> isBlocked r \<or> ms_strategy s \<noteq> TOKEN_BUCKET"
    and d: "sanitizeIncrementCost (opt_dec_cost d) 1 = eff_cost o'"
  shows "mem_usage (mem_decrement k d s1) now k = mem_usage s now k"
proof -
  let ?e = "map_of (ms_state s) k" and ?u = "if opt_removeNewest d then entry_undo s else entry_undo_oldest s"
  note ent = mem_increment_entry [OF inv inc]
  note inv1 = mem_increment_inv [OF inv inc]
  have "map_of (ms_state (mem_decrement k d s1)) k = ?u (eff_cost o') (snd (entry_increment s now o' ?e))"
    using mem_decrement_entry [OF inv1(1) ent(2), of d] d entry_undo_cong [OF inv1(2)]
      entry_undo_oldest_cong [OF inv1(2)] by simp
  moreover have "mem_cfg (mem_decrement k d s1) = mem_cfg s"
    using mem_decrement_inv(2) [OF inv1(1)] inv1(2) by simp
  moreover have "entry_usage s now (?u (eff_cost o') (snd (entry_increment s now o' ?e))) = entry_usage s now ?e"
    using entry_undo_usage [OF inv refl surjective_pairing, of now o' k]
      entry_undo_oldest_usage [OF inv refl surjective_pairing, of now o' k] ok ent(1) by simp
  ultimately show ?thesis using entry_usage_cong [of "mem_decrement k d s1" s]
    by (simp add: mem_usage_def)
qed

lemma mem_undo_usage:
  assumes "mem_inv s" "mem_increment now k o' s = (r, s1)" "\<not> isBlocked r"
    and "opt_removeNewest d" "sanitizeIncrementCost (opt_dec_cost d) 1 = eff_cost o'"
  shows "mem_usage (mem_decrement k d s1) now k = mem_usage s now k"
  using assms by (intro mem_rollback_usage) auto

interpretation mem: quota_store mem_ops mem_inv mem_usage
proof
  fix s now k o'
  assume "mem_inv s"
  show "\<exists>r s'. op_increment mem_ops now k o' s = (Inr r, s')"
    by (simp add: mem_ops_def split: prod.splits)
next
  fix s now k o' s' and res :: "string + rl_result"
  assume "mem_inv s" "op_increment mem_ops now k o' s = (res, s')"
  then show "mem_inv s'" by (auto simp: mem_ops_def mem_increment_inv(1) split: prod.splits)
next
  fix s now k d s' and res :: "string + unit"
  assume "mem_inv s" "op_decrement mem_ops now k d s = (res, s')"
  then show "mem_inv s'" by (auto simp: mem_ops_def mem_decrement_inv(1))
next
  fix s now k o' r s1 s2 and res :: "string + unit"
  assume "mem_inv s" "op_increment mem_ops now k o' s = (Inr r, s1)" "\<not> isBlocked r"
    "op_decrement mem_ops now k
       (Some ((matchingDecrementOptions (opt_cost o'))\<lparr>do_removeNewest := True\<rparr>)) s1 = (res, s2)"
  then show "res = Inr () \<and> mem_usage s2 now k = mem_usage s now k"
    by (auto simp: mem_ops_def matchingDecrementOptions_def eff_cost_def sanitizeIncrementCost_twice
        split: prod.splits intro!: mem_undo_usage)
next
  fix s now k o' r s'
  assume "mem_inv s" "op_increment mem_ops now k o' s = (Inr r, s')"
  then show "0 \<le> remaining r" "isBlocked r \<Longrightarrow> remaining r = 0"
    by (auto simp: mem_ops_def mem_increment_blocked_remaining split: prod.splits)
qed

section \<open>Decisions\<close>

text \<open>The quota an increment is checked against.\<close>

definition mem_limit :: "mem_store \<Rightarrow> inc_opts option \<Rightarrow> int" where
  "mem_limit s o' = (if ms_strategy s = TOKEN_BUCKET then ms_bucketSize s else eff_cap s o')"

lemma entry_increment_decision:
  assumes inv: "mem_inv s" and e: "e = map_of (ms_state s) k"
  shows "isBlocked (fst (entry_increment s now o' e)) \<longleftrightarrow>
    entry_usage s now e + eff_cost o' > mem_limit s o'"
  by (auto simp: entry_increment_def entry_usage_def mem_limit_def Let_def
      split: strategy.splits prod.splits)

lemma entry_increment_usage:
  assumes inv: "mem_inv s" and e: "e = map_of (ms_state s) k"
    and inc: "entry_increment s now o' e = (r, e1)"
  shows "entry_usage s now (Some e1) = entry_usage s now e +
    (if ms_strategy s = TOKEN_BUCKET \<and> isBlocked r then 0 else eff_cost o')"
proof (cases "ms_strategy s")
  case SLIDING_WINDOW
  let ?l = "live_stamps (ms_windowMs s) now e"
  have e1: "e1 = Sliding (?l @ replicate (nat (eff_cost o')) now) None"
    using inc SLIDING_WINDOW by (auto simp: entry_increment_def Let_def)
  have "1 \<le> ms_windowMs s" using inv SLIDING_WINDOW by (simp add: mem_inv_def cfg_ok_def)
  moreover have "filter (\<lambda>t. now - ms_windowMs s < t) ?l = ?l"
    by (auto simp: live_stamps_def filter_id_conv split: option.splits key_state.splits)
  ultimately show ?thesis using SLIDING_WINDOW
    by (simp add: e1 entry_usage_def) (simp add: live_stamps_def filter_replicate_self)
next
  case TOKEN_BUCKET
  have int: "1 \<le> ms_refillIntervalMs s" using inv TOKEN_BUCKET by (simp add: mem_inv_def cfg_ok_def)
  obtain t l where tl: "live_bucket s now e = (t, l)" by (cases "live_bucket s now e")
  have "refillBucketStateForNow s t' l now = (t', l)" for t' by (rule live_bucket_fresh [OF int tl])
  then show ?thesis using TOKEN_BUCKET inc tl
    by (auto simp: entry_increment_def entry_usage_def Let_def live_bucket_def split: if_splits)
next
  case FIXED_WINDOW
  obtain c rt where cr: "live_fixed (ms_windowMs s) now e = (c, rt)" by fastforce
  have "e1 = Fixed (c + eff_cost o') rt"
    using inc cr FIXED_WINDOW by (auto simp: entry_increment_def Let_def)
  with live_fixed_props [OF inv FIXED_WINDOW cr [unfolded e]] FIXED_WINDOW cr show ?thesis
    by (simp add: entry_usage_def) (simp add: live_fixed_def)
qed

lemma mem_increment_decision:
  assumes "mem_inv s" "mem_increment now k o' s = (r, s')"
  shows "isBlocked r \<longleftrightarrow> mem_usage s now k + eff_cost o' > mem_limit s o'"
    and "mem_usage s' now k = mem_usage s now k +
      (if ms_strategy s = TOKEN_BUCKET \<and> isBlocked r then 0 else eff_cost o')"
  using mem_increment_entry [OF assms] entry_increment_decision [OF assms(1) refl, of now o' k]
    entry_increment_usage [OF assms(1) refl surjective_pairing, of now o' k]
    entry_usage_cong [OF mem_increment_inv(2) [OF assms]]
  by (simp_all add: mem_usage_def)

section \<open>Reads\<close>

lemma live_stamps_clear [simp]:
  "live_stamps w now (map_of (ms_state (clearSlidingWallExpiryIfExpired k now s)) k') =
   live_stamps w now (map_of (ms_state s) k')"
  by (auto simp: map_of_clear getSlidingState_def live_stamps_def split: option.splits key_state.splits)

lemma mem_usage_clear [simp]:
  "ms_strategy s = SLIDING_WINDOW \<Longrightarrow>
   mem_usage (clearSlidingWallExpiryIfExpired k now s) now k' = mem_usage s now k'"
  by (simp add: mem_usage_def entry_usage_def)

lemma mem_usage_touchKey [simp]: "mem_usage (touchKey k s) now k' = mem_usage s now k'"
  using entry_usage_cong [OF cfg_touchKey, of k s] by (simp add: mem_usage_def)

lemma getSliding_live:
  assumes "mem_inv s" "ms_strategy s = SLIDING_WINDOW"
  shows "(case getSlidingState (clearSlidingWallExpiryIfExpired k now s) k of None \<Rightarrow> []
     | Some (ts, w) \<Rightarrow> filter (\<lambda>t. now - ms_windowMs s < t) ts) =
    live_stamps (ms_windowMs s) now (map_of (ms_state s) k)"
  using assms
  by (cases rule: mem_inv_sliding_cases [where k = k])
     (auto simp: clearSlidingWallExpiryIfExpired_def getSlidingState_def live_stamps_def
       split: option.splits)

lemma getSlidingReadOnly_live:
  assumes "mem_inv s" "ms_strategy s = SLIDING_WINDOW"
  shows "fst (getSlidingReadOnly now k s) =
    (case live_stamps (ms_windowMs s) now (map_of (ms_state s) k) of
       [] \<Rightarrow> None
     | oldest # rest \<Rightarrow>
         Some (window_result (int (length (oldest # rest))) (eff_cap s None) (oldest + ms_windowMs s)))"
  by (subst getSliding_live [OF assms, symmetric])
     (auto simp: getSlidingReadOnly_def eff_cap_def Let_def split: option.splits list.splits)

lemma refill_full:
  "mem_inv s \<Longrightarrow> ms_strategy s = TOKEN_BUCKET \<Longrightarrow>
   fst (refillBucketStateForNow s (ms_bucketSize s) l now) = ms_bucketSize s"
  by (auto simp: refillBucketStateForNow_def mem_inv_def cfg_ok_def Let_def)

text \<open>A read answers what is counted against the key, and \<open>undefined\<close> only when nothing is.\<close>

lemma mem_get_usage:
  assumes "mem_inv s"
  shows "case fst (mem_get now k s) of None \<Rightarrow> mem_usage s now k = 0 | Some r \<Rightarrow> totalHits r = mem_usage s now k"
proof (cases "ms_strategy s")
  case SLIDING_WINDOW
  then show ?thesis using getSlidingReadOnly_live [OF assms SLIDING_WINDOW, of now k]
    by (auto simp: mem_get_def mem_usage_def entry_usage_def split: list.splits)
next
  case TOKEN_BUCKET
  with assms show ?thesis
    by (cases rule: mem_inv_bucket_cases [where k = k])
       (use assms TOKEN_BUCKET refill_full [OF assms TOKEN_BUCKET] in \<open>auto simp: mem_get_def
         getTokenBucketReadOnly_def getBucketEntry_def mem_usage_def entry_usage_def live_bucket_def
         isBucketIdleFullPurgeable_def Let_def case_prod_beta dest: order_antisym\<close>)
next
  case FIXED_WINDOW
  with assms show ?thesis
    by (cases rule: mem_inv_fixed_cases [where k = k])
       (use FIXED_WINDOW in \<open>auto simp: mem_get_def getFixedReadOnly_def getFixedEntry_def
         mem_usage_def entry_usage_def live_fixed_def Let_def\<close>)
qed

lemma mem_get_pure: "mem_usage (snd (mem_get now k s)) now k' = mem_usage s now k'"
  by (auto simp: mem_get_def getSlidingReadOnly_def getFixedReadOnly_def getTokenBucketReadOnly_def
      Let_def split: strategy.splits option.splits list.splits prod.splits)

text \<open>What was set is what a read at the same time returns.\<close>

lemma mem_set_get:
  assumes inv: "mem_inv s" and eq: "mem_set now k n ex s = (r, s')"
    and live: "\<And>x. ex = Some x \<Longrightarrow> now < x" and pos: "ms_strategy s = SLIDING_WINDOW \<Longrightarrow> 0 < n"
  shows "fst (mem_get now k s') = Some r"
proof -
  have cfg: "cfg_ok s" using inv by (simp add: mem_inv_def)
  have inv': "mem_inv s'" using mem_set_inv [OF inv, of now k n ex] eq by simp
  show ?thesis
  proof (cases "ms_strategy s")
    case SLIDING_WINDOW
    have s': "map_of (ms_state s') k = Some (Sliding (replicate (nat n) now) ex)"
      and st: "ms_strategy s' = SLIDING_WINDOW" "ms_windowMs s' = ms_windowMs s" "ms_maxRequests s' = ms_maxRequests s"
      and r: "r = window_result n (eff_cap s None) (now + ms_windowMs s)"
      using eq SLIDING_WINDOW pos by (auto simp: mem_set_def setSliding_def eff_cap_def Let_def)
    have "0 < ms_windowMs s" using cfg SLIDING_WINDOW by (simp add: cfg_ok_def)
    then have "live_stamps (ms_windowMs s) now (Some (Sliding (replicate (nat n) now) ex)) = replicate (nat n) now"
      using live by (auto simp: live_stamps_def filter_replicate_self split: option.splits)
    moreover obtain m where "nat n = Suc m" using pos [OF SLIDING_WINDOW] gr0_implies_Suc [of "nat n"] by auto
    moreover have "int (nat n) = n" using pos [OF SLIDING_WINDOW] by simp
    ultimately show ?thesis using getSlidingReadOnly_live [OF inv' st(1), of now k] s' st r
      by (simp add: mem_get_def eff_cap_def)
  next
    case TOKEN_BUCKET
    then show ?thesis using cfg eq
      by (auto simp: mem_set_def setTokenBucket_def mem_get_def getTokenBucketReadOnly_def
          getBucketEntry_def isBucketIdleFullPurgeable_def refillBucketStateForNow_def cfg_ok_def Let_def)
  next
    case FIXED_WINDOW
    then show ?thesis using cfg eq live
      by (auto simp: mem_set_def setFixed_def mem_get_def getFixedReadOnly_def getFixedEntry_def
          cfg_ok_def Let_def split: option.splits)
  qed
qed


section \<open>The purge is not observable\<close>

text \<open>A step is invisible from \<open>now\<close> on when it keeps the configuration and invariant and every
  later usage.\<close>

definition invisible_from :: "time \<Rightarrow> mem_store \<Rightarrow> mem_store \<Rightarrow> bool" where
  "invisible_from now s s' \<longleftrightarrow> mem_inv s' \<and> mem_cfg s' = mem_cfg s \<and>
     (\<forall>now' k. now \<le> now' \<longrightarrow> mem_usage s' now' k = mem_usage s now' k)"

lemma invisible_refl: "mem_inv s \<Longrightarrow> invisible_from now s s"
  by (simp add: invisible_from_def)

lemma invisible_trans: "invisible_from now s s1 \<Longrightarrow> invisible_from now s1 s2 \<Longrightarrow> invisible_from now s s2"
  by (simp add: invisible_from_def)

lemma invisible_entryI:
  assumes "mem_inv s'" "mem_cfg s' = mem_cfg s"
    and "\<And>k'. k' \<noteq> k \<Longrightarrow> map_of (ms_state s') k' = map_of (ms_state s) k'"
    and "\<And>now'. now \<le> now' \<Longrightarrow>
      entry_usage s now' (map_of (ms_state s') k) = entry_usage s now' (map_of (ms_state s) k)"
  shows "invisible_from now s s'"
  unfolding invisible_from_def mem_usage_def entry_usage_cong [OF assms(2)]
  using assms by metis

lemma invisible_wall:
  assumes "mem_inv s" "ms_strategy s = SLIDING_WINDOW"
  shows "invisible_from now s (purgeSlidingWall now k s)"
  unfolding purgeSlidingWall_def
proof (rule invisible_entryI [where k = k])
  fix now' assume "now \<le> now'"
  then show "entry_usage s now' (map_of (ms_state (clearSlidingWallExpiryIfExpired k now s)) k) =
      entry_usage s now' (map_of (ms_state s) k)"
    using assms(2)
    by (auto simp: entry_usage_def map_of_clear getSlidingState_def live_stamps_def
        split: option.splits key_state.splits)
qed (use assms in \<open>auto simp: map_of_clear split: option.splits\<close>)

lemma filter_later:
  "now \<le> now' \<Longrightarrow> filter (\<lambda>t. now' - w < t) (filter (\<lambda>t. now - w < t) ts) = filter (\<lambda>t. now' - w < (t::int)) ts"
  by (auto intro!: filter_cong)

lemma filter_later_Nil:
  "now \<le> now' \<Longrightarrow> filter (\<lambda>t. now - w < t) ts = [] \<Longrightarrow> filter (\<lambda>t. now' - w < (t::int)) ts = []"
  by (metis filter.simps(1) filter_later)

lemma invisible_trim:
  assumes "mem_inv s" "ms_strategy s = SLIDING_WINDOW"
  shows "invisible_from now s (purgeSlidingTrim now k s)"
proof (rule invisible_entryI [where k = k])
  fix now' assume now': "now \<le> now'"
  from assms show "entry_usage s now' (map_of (ms_state (purgeSlidingTrim now k s)) k) =
      entry_usage s now' (map_of (ms_state s) k)"
    by (cases rule: mem_inv_sliding_cases [where k = k])
       (use assms(2) filter_later [OF now'] filter_later_Nil [OF now'] in \<open>auto simp: entry_usage_def
         purgeSlidingTrim_def setSlidingState_def getSlidingState_def live_stamps_def Let_def\<close>)
next
  show "mem_inv (purgeSlidingTrim now k s)" by (rule purgeSlidingTrim_inv [OF assms(1)])
qed (auto simp: purgeSlidingTrim_def setSlidingState_def map_of_delete_if Let_def split: option.splits)

lemma invisible_fixed:
  assumes "mem_inv s" "ms_strategy s = FIXED_WINDOW"
  shows "invisible_from now s (purgeFixedKey now k s)"
proof (rule invisible_entryI [where k = k])
  fix now' assume now': "now \<le> now'"
  from assms show "entry_usage s now' (map_of (ms_state (purgeFixedKey now k s)) k) =
      entry_usage s now' (map_of (ms_state s) k)"
    by (cases rule: mem_inv_fixed_cases [where k = k])
       (use assms(2) now' in \<open>auto simp: entry_usage_def purgeFixedKey_def getFixedEntry_def live_fixed_def\<close>)
qed (use assms in \<open>auto simp: purge_key_inv(2) purgeFixedKey_def map_of_delete_if split: option.splits\<close>)

lemma invisible_bucket:
  assumes "mem_inv s" "ms_strategy s = TOKEN_BUCKET"
  shows "invisible_from now s (purgeBucketKey now k s)"
proof (rule invisible_entryI [where k = k])
  fix now' assume now': "now \<le> now'"
  from assms show "entry_usage s now' (map_of (ms_state (purgeBucketKey now k s)) k) =
      entry_usage s now' (map_of (ms_state s) k)"
    by (cases rule: mem_inv_bucket_cases [where k = k])
       (use assms(2) refill_full [OF assms] in \<open>auto simp: entry_usage_def purgeBucketKey_def
         getBucketEntry_def live_bucket_def Let_def dest: order_antisym\<close>)
qed (use assms in \<open>auto simp: purge_key_inv(3) purgeBucketKey_def map_of_delete_if Let_def split: option.splits\<close>)

lemma invisible_fold:
  assumes step: "\<And>k s. mem_inv s \<Longrightarrow> ms_strategy s = st \<Longrightarrow> invisible_from now s (f k s)"
    and "mem_inv s" "ms_strategy s = st"
  shows "invisible_from now s (fold f ks s)"
proof (rule fold_keeps [of "invisible_from now s"])
  fix k s' assume *: "invisible_from now s s'"
  then have "mem_inv s'" "ms_strategy s' = st"
    using assms(3) by (auto simp: invisible_from_def dest: mem_cfg_eqD)
  with step * show "invisible_from now s (f k s')" by (blast intro: invisible_trans)
qed (rule invisible_refl [OF assms(2)])

lemma purgeExpired_invisible:
  assumes "mem_inv s" shows "invisible_from now s (purgeExpired now s)"
proof (cases "ms_strategy s")
  case SLIDING_WINDOW
  let ?s1 = "fold (purgeSlidingWall now) (map fst (ms_state s)) s"
  have 1: "invisible_from now s ?s1"
    by (rule invisible_fold [OF _ assms SLIDING_WINDOW]) (rule invisible_wall)
  then have "mem_inv ?s1" "ms_strategy ?s1 = SLIDING_WINDOW"
    using SLIDING_WINDOW by (auto simp: invisible_from_def dest: mem_cfg_eqD)
  then have "invisible_from now ?s1 (fold (purgeSlidingTrim now) (map fst (ms_state ?s1)) ?s1)"
    by (rule invisible_fold [rotated]) (rule invisible_trim)
  with 1 show ?thesis using SLIDING_WINDOW
    by (simp add: purgeExpired_def purgeSliding_def Let_def) (blast intro: invisible_trans)
next
  case TOKEN_BUCKET
  then show ?thesis using invisible_fold [OF invisible_bucket assms TOKEN_BUCKET]
    by (simp add: purgeExpired_def purgeBuckets_def)
next
  case FIXED_WINDOW
  then show ?thesis using invisible_fold [OF invisible_fixed assms FIXED_WINDOW]
    by (simp add: purgeExpired_def purgeFixed_def)
qed


section \<open>Listing the active keys\<close>

definition sliding_row :: "int \<Rightarrow> key \<Rightarrow> time list \<Rightarrow> (key \<times> active_entry) list" where
  "sliding_row w k ts =
     (case ts of [] \<Rightarrow> []
      | oldest # rest \<Rightarrow>
          [(k, \<lparr>ae_totalHits = int (length (oldest # rest)), ae_resetTime = oldest + w\<rparr>)])"

lemma set_sliding_row [simp]:
  "set (sliding_row w k ts) =
     (if ts = [] then {} else {(k, \<lparr>ae_totalHits = int (length ts), ae_resetTime = hd ts + w\<rparr>)})"
  by (cases ts) (auto simp: sliding_row_def)

text \<open>The stateful walk of the sliding-window branch lists each key's live time stamps.\<close>

lemma activeSliding_rows:
  "mem_inv s \<Longrightarrow> ms_strategy s = SLIDING_WINDOW \<Longrightarrow>
   fst (activeSliding now ks s) =
     concat (map (\<lambda>k. sliding_row (ms_windowMs s) k (live_stamps (ms_windowMs s) now (map_of (ms_state s) k))) ks)"
proof (induction ks arbitrary: s)
  case (Cons k ks)
  let ?s1 = "clearSlidingWallExpiryIfExpired k now s"
  have "mem_inv ?s1" "ms_strategy ?s1 = SLIDING_WINDOW" using Cons.prems by auto
  from Cons.IH [OF this] have ih: "fst (activeSliding now ks ?s1) =
      concat (map (\<lambda>k. sliding_row (ms_windowMs s) k (live_stamps (ms_windowMs s) now (map_of (ms_state s) k))) ks)"
    by simp
  have "fst (activeSliding now (k # ks) s) =
      sliding_row (ms_windowMs s) k (case getSlidingState ?s1 k of None \<Rightarrow> []
        | Some (ts, w) \<Rightarrow> filter (\<lambda>t. now - ms_windowMs s < t) ts) @ fst (activeSliding now ks ?s1)"
    by (auto simp: Let_def sliding_row_def split: option.splits list.splits prod.splits)
  then show ?case unfolding getSliding_live [OF Cons.prems, of now k] ih by simp
qed simp

lemma mem_inv_keyed:
  "mem_inv s \<Longrightarrow> (k, e) \<in> set (ms_state s) \<longleftrightarrow> map_of (ms_state s) k = Some e"
  by (simp add: mem_inv_jsmap jsmap_ok_in_set)

lemma mem_getActiveKeys_usage:
  assumes "mem_inv s" "(k, ae) \<in> set (fst (mem_getActiveKeys now s))"
  shows "ae_totalHits ae = mem_usage s now k"
proof (cases "ms_strategy s")
  case SLIDING_WINDOW
  then show ?thesis using assms
    by (auto simp: mem_getActiveKeys_def activeSliding_rows mem_usage_def entry_usage_def split: if_splits)
next
  case TOKEN_BUCKET
  then show ?thesis using assms
    by (auto simp: mem_getActiveKeys_def active_bucket_def mem_usage_def entry_usage_def live_bucket_def
        mem_inv_keyed Let_def case_prod_beta split: key_state.splits if_splits)
next
  case FIXED_WINDOW
  then show ?thesis using assms
    by (auto simp: mem_getActiveKeys_def active_fixed_def mem_usage_def entry_usage_def live_fixed_def
        mem_inv_keyed split: key_state.splits if_splits)
qed

lemma mem_getActiveKeys_complete:
  assumes inv: "mem_inv s" and pos: "mem_usage s now k \<noteq> 0"
  shows "k \<in> fst ` set (fst (mem_getActiveKeys now s))"
proof (cases "ms_strategy s")
  case SLIDING_WINDOW
  from inv SLIDING_WINDOW show ?thesis
  proof (cases rule: mem_inv_sliding_cases [where k = k])
    case (present ts w)
    then have "k \<in> set (map fst (ms_state s))" by (auto dest: map_of_SomeD intro: rev_image_eqI)
    moreover have "live_stamps (ms_windowMs s) now (map_of (ms_state s) k) \<noteq> []"
      using pos SLIDING_WINDOW by (auto simp: mem_usage_def entry_usage_def)
    ultimately have "\<exists>ae. (k, ae) \<in> set (fst (mem_getActiveKeys now s))"
      using SLIDING_WINDOW inv by (auto simp: mem_getActiveKeys_def activeSliding_rows)
    then show ?thesis by (auto intro: rev_image_eqI)
  qed (use pos SLIDING_WINDOW in \<open>simp add: mem_usage_def entry_usage_def live_stamps_def\<close>)
next
  case TOKEN_BUCKET
  from inv TOKEN_BUCKET show ?thesis
  proof (cases rule: mem_inv_bucket_cases [where k = k])
    case (present t l)
    then have "(k, Bucket t l) \<in> set (ms_state s)" by (auto dest: map_of_SomeD)
    moreover have "\<not> isBucketIdleFullPurgeable s t l now"
      using pos present TOKEN_BUCKET refill_full [OF inv TOKEN_BUCKET, of l now]
      by (auto simp: isBucketIdleFullPurgeable_def mem_usage_def entry_usage_def live_bucket_def Let_def
          dest: order_antisym)
    ultimately show ?thesis using TOKEN_BUCKET
      by (force simp: mem_getActiveKeys_def active_bucket_def Let_def case_prod_beta)
  qed (use pos TOKEN_BUCKET in \<open>simp add: mem_usage_def entry_usage_def live_bucket_def\<close>)
next
  case FIXED_WINDOW
  from inv FIXED_WINDOW show ?thesis
  proof (cases rule: mem_inv_fixed_cases [where k = k])
    case (present c r)
    then have "(k, Fixed c r) \<in> set (ms_state s)" by (auto dest: map_of_SomeD)
    moreover have "now < r"
      using pos present FIXED_WINDOW by (auto simp: mem_usage_def entry_usage_def live_fixed_def split: if_splits)
    ultimately show ?thesis using FIXED_WINDOW
      by (force simp: mem_getActiveKeys_def active_fixed_def)
  qed (use pos FIXED_WINDOW in \<open>simp add: mem_usage_def entry_usage_def live_fixed_def\<close>)
qed


section \<open>Properties\<close>

text \<open>(C1) Whatever sequence of public method calls and background purges a freshly constructed store
  receives, it stays well formed: the configuration is sane, no key occurs twice, every entry has
  the shape of the store's strategy, fixed-window counts are not negative and a bucket holds between
  zero and \<open>bucketSize\<close> tokens.\<close>

theorem mem_store_wellformed:
  assumes "options_ok opts"
  shows "mem_inv (fold mem_exec cs (new_MemoryStore opts mk ev))"
  by (rule fold_keeps [of mem_inv]) (auto intro: mem_exec_inv new_MemoryStore_inv assms)

theorem mem_store_wellformed_witness:
  "options_ok (TokenBucketOptions 5 1000 10) \<and>
   mem_inv (fold mem_exec [CIncrement 0 ''a'' None, CDecrement ''a'' None, CPurge 20000]
     (new_MemoryStore (TokenBucketOptions 5 1000 10) None None))"
proof -
  have ok: "options_ok (TokenBucketOptions 5 1000 10)" by code_simp
  from ok mem_store_wellformed [OF ok] show ?thesis by blast
qed

text \<open>As long as nobody calls \<open>reset\<close>, a store with \<open>maxKeys\<close> set never holds more than \<open>maxKeys\<close>
  keys, after any sequence of the other calls.\<close>

theorem mem_store_capacity:
  assumes "options_ok opts" and "\<forall>c \<in> set cs. \<not> is_CReset c"
    and "s = fold mem_exec cs (new_MemoryStore opts mk ev)" and "ms_maxKeys s \<noteq> 0"
  shows "int (length (ms_state s)) \<le> ms_maxKeys s"
proof -
  have "within_cap (new_MemoryStore opts mk ev)"
    using new_MemoryStore_inv [OF assms(1), of mk ev] by (simp add: within_cap_def mem_inv_def cfg_ok_def)
  then have "mem_inv (fold mem_exec cs (new_MemoryStore opts mk ev)) \<and>
      within_cap (fold mem_exec cs (new_MemoryStore opts mk ev))"
    using assms(2) new_MemoryStore_inv [OF assms(1), of mk ev]
    by (induction cs rule: rev_induct) (auto simp: mem_exec_inv mem_exec_within_cap)
  then show ?thesis using assms(3,4) by (simp add: within_cap_def)
qed

theorem mem_store_capacity_witness:
  "int (length (ms_state (fold mem_exec [CIncrement 0 ''a'' None, CIncrement 1 ''b'' None]
     (new_MemoryStore (TokenBucketOptions 5 1000 10) (Some 1) None)))) \<le> 1"
proof -
  let ?cs = "[CIncrement 0 ''a'' None, CIncrement 1 ''b'' None]"
  let ?s = "fold mem_exec ?cs (new_MemoryStore (TokenBucketOptions 5 1000 10) (Some 1) None)"
  have ok: "options_ok (TokenBucketOptions 5 1000 10)" by code_simp
  have mk: "ms_maxKeys ?s = 1" by code_simp
  have "int (length (ms_state ?s)) \<le> ms_maxKeys ?s"
    by (rule mem_store_capacity [OF ok _ refl]) (simp_all add: mk del: fold.simps)
  with mk show ?thesis by simp
qed

text \<open>\<open>reset\<close> is the exception: in the fixed-window and token-bucket strategies it inserts a fresh
  entry without making room, so a store configured for one key holds two after two resets.\<close>

theorem mem_reset_exceeds_maxKeys:
  "ms_maxKeys (new_MemoryStore (WindowOptions FIXED_WINDOW (js_int 1000) (js_int 2)) (Some 1) None) = 1 \<and>
   length (ms_state (mem_reset 0 ''b'' (mem_reset 0 ''a''
     (new_MemoryStore (WindowOptions FIXED_WINDOW (js_int 1000) (js_int 2)) (Some 1) None)))) = 2 \<and>
   length (ms_state (mem_reset 0 ''b'' (mem_reset 0 ''a''
     (new_MemoryStore (TokenBucketOptions 5 1000 10) (Some 1) None)))) = 2"
  by code_simp

text \<open>LRU eviction: after an increment under a positive \<open>maxKeys\<close> the map holds, in their old
  order, the \<open>maxKeys - 1\<close> most recently used of the other keys, and then the incremented key.\<close>

theorem mem_increment_evicts_lru:
  assumes "mem_inv s" "within_cap s" "0 < ms_maxKeys s" "mem_increment now k o' s = (r, s')"
  shows "\<exists>e. ms_state s' = recent (ms_maxKeys s) (AList.delete k (ms_state s)) @ [(k, e)]"
  using assms by (rule mem_increment_lru)

theorem mem_increment_evicts_lru_witness:
  "\<exists>e. ms_state (snd (mem_increment 2 ''c'' None
       (fold mem_exec [CIncrement 0 ''a'' None, CIncrement 1 ''b'' None]
          (new_MemoryStore (TokenBucketOptions 5 1000 10) (Some 2) None)))) =
     [(''b'', Bucket 9 1), (''c'', e)]"
proof -
  let ?s = "fold mem_exec [CIncrement 0 ''a'' None, CIncrement 1 ''b'' None]
    (new_MemoryStore (TokenBucketOptions 5 1000 10) (Some 2) None)"
  have s: "mem_inv ?s" "within_cap ?s" "0 < ms_maxKeys ?s" by code_simp+
  have "recent (ms_maxKeys ?s) (AList.delete ''c'' (ms_state ?s)) = [(''b'', Bucket 9 1)]" by code_simp
  with mem_increment_evicts_lru [OF s surjective_pairing, of 2 "''c''" None] show ?thesis
    by (simp del: fold.simps)
qed

text \<open>(C5) The decision of an increment: it is blocked exactly when what is already counted against the
  key plus the cost exceeds the quota (the cap, or the bucket size). Windows count the attempt either
  way; a bucket takes tokens only when it allows.\<close>

theorem mem_increment_decides:
  assumes "mem_inv s" "mem_increment now k o' s = (r, s')"
  shows "(isBlocked r \<longleftrightarrow> mem_usage s now k + eff_cost o' > mem_limit s o') \<and>
    mem_usage s' now k = mem_usage s now k +
      (if ms_strategy s = TOKEN_BUCKET \<and> isBlocked r then 0 else eff_cost o')"
  using mem_increment_decision [OF assms] by blast

theorem mem_increment_decides_witness:
  "isBlocked (fst (mem_increment 5 ''a'' None (fold mem_exec [CIncrement 0 ''a'' None]
     (new_MemoryStore (WindowOptions SLIDING_WINDOW (js_int 1000) (js_int 1)) None None))))"
proof -
  let ?s = "fold mem_exec [CIncrement 0 ''a'' None]
    (new_MemoryStore (WindowOptions SLIDING_WINDOW (js_int 1000) (js_int 1)) None None)"
  have "mem_inv ?s" by code_simp
  note mem_increment_decides [OF this surjective_pairing, of 5 "''a''" None]
  moreover have "mem_usage ?s 5 ''a'' + eff_cost None > mem_limit ?s None" by code_simp
  ultimately show ?thesis by blast
qed

text \<open>Undo: an allowed increment followed at once by the matching \<open>removeNewest\<close> decrement leaves
  what is counted against the key as it was, in all three strategies.\<close>

theorem mem_increment_undo:
  assumes "mem_inv s" "mem_increment now k o' s = (r, s1)" "\<not> isBlocked r"
  shows "mem_usage (mem_decrement k
    (Some ((matchingDecrementOptions (opt_cost o'))\<lparr>do_removeNewest := True\<rparr>)) s1) now k =
    mem_usage s now k"
  using mem.undo_restores [of s now k o' r s1] assms by (simp add: mem_ops_def)

theorem mem_increment_undo_witness:
  "mem_usage (mem_decrement ''a''
     (Some ((matchingDecrementOptions (js_int 3))\<lparr>do_removeNewest := True\<rparr>))
     (snd (mem_increment 0 ''a'' (Some \<lparr>io_maxRequests = Undefined, io_cost = js_int 3\<rparr>)
        (new_MemoryStore (TokenBucketOptions 5 1000 10) None None)))) 0 ''a'' = 0"
proof -
  let ?s = "new_MemoryStore (TokenBucketOptions 5 1000 10) None None"
  let ?o = "Some \<lparr>io_maxRequests = Undefined, io_cost = js_int 3\<rparr>"
  have inv: "mem_inv ?s" by code_simp
  have ok: "\<not> isBlocked (fst (mem_increment 0 ''a'' ?o ?s))" by code_simp
  have "mem_usage ?s 0 ''a'' = 0" by code_simp
  with mem_increment_undo [OF inv surjective_pairing ok] show ?thesis by simp
qed

text \<open>Round trip: what \<open>set\<close> answers is what \<open>get\<close> answers at the same time, provided the given
  expiry lies in the future and, for the sliding window, the count is positive.\<close>

theorem mem_set_then_get:
  assumes "mem_inv s" "mem_set now k n ex s = (r, s')"
    and "\<forall>x. ex = Some x \<longrightarrow> now < x" "ms_strategy s = SLIDING_WINDOW \<longrightarrow> 0 < n"
  shows "fst (mem_get now k s') = Some r"
  using assms by (intro mem_set_get) auto

theorem mem_set_then_get_witness:
  "fst (mem_get 7 ''a'' (snd (mem_set 7 ''a'' 4 (Some 9)
     (new_MemoryStore (WindowOptions FIXED_WINDOW (js_int 1000) (js_int 2)) None None)))) =
   Some (window_result 4 2 9)"
proof -
  let ?s = "new_MemoryStore (WindowOptions FIXED_WINDOW (js_int 1000) (js_int 2)) None None"
  have inv: "mem_inv ?s" by code_simp
  have st: "ms_strategy ?s = FIXED_WINDOW" by code_simp
  have "fst (mem_set 7 ''a'' 4 (Some 9) ?s) = window_result 4 2 9" by code_simp
  with mem_set_then_get [OF inv surjective_pairing, where now = 7 and k = "''a''" and n = 4 and ex = "Some 9"] st show ?thesis by simp
qed

text \<open>Reads: \<open>get\<close> reports exactly what is counted against the key and \<open>undefined\<close> only when
  that is nothing, and no read changes what is counted against any key.\<close>

theorem mem_get_reports_usage:
  assumes "mem_inv s"
  shows "(case fst (mem_get now k s) of
      None \<Rightarrow> mem_usage s now k = 0 | Some r \<Rightarrow> totalHits r = mem_usage s now k) \<and>
    (\<forall>k'. mem_usage (snd (mem_get now k s)) now k' = mem_usage s now k')"
  using mem_get_usage [OF assms] mem_get_pure by blast

theorem mem_get_reports_usage_witness:
  "mem_usage (snd (mem_get 5 ''a'' (new_MemoryStore (TokenBucketOptions 5 1000 10) None None))) 5 ''b'' =
   mem_usage (new_MemoryStore (TokenBucketOptions 5 1000 10) None None) 5 ''b''"
proof -
  have "mem_inv (new_MemoryStore (TokenBucketOptions 5 1000 10) None None)" by code_simp
  from mem_get_reports_usage [OF this] show ?thesis by blast
qed

text \<open>\<open>getActiveKeys\<close> lists a key with exactly what is counted against it, and lists every key
  that has anything counted against it.\<close>

theorem mem_getActiveKeys_exact:
  assumes "mem_inv s"
  shows "(\<forall>k ae. (k, ae) \<in> set (fst (mem_getActiveKeys now s)) \<longrightarrow> ae_totalHits ae = mem_usage s now k) \<and>
    (\<forall>k. mem_usage s now k \<noteq> 0 \<longrightarrow> k \<in> fst ` set (fst (mem_getActiveKeys now s)))"
  using mem_getActiveKeys_usage [OF assms] mem_getActiveKeys_complete [OF assms] by blast

theorem mem_getActiveKeys_exact_witness:
  "''a'' \<in> fst ` set (fst (mem_getActiveKeys 5 (fold mem_exec [CIncrement 0 ''a'' None]
     (new_MemoryStore (WindowOptions SLIDING_WINDOW (js_int 1000) (js_int 1)) None None))))"
proof -
  let ?s = "fold mem_exec [CIncrement 0 ''a'' None]
    (new_MemoryStore (WindowOptions SLIDING_WINDOW (js_int 1000) (js_int 1)) None None)"
  have "mem_inv ?s" "mem_usage ?s 5 ''a'' \<noteq> 0" by code_simp+
  with mem_getActiveKeys_exact [of ?s 5] show ?thesis by blast
qed

text \<open>The background purge is not observable: it keeps the configuration and the invariant, and at
  every later time every key counts exactly what it would have counted without the purge.\<close>

theorem purgeExpired_unobservable:
  assumes "mem_inv s" "now \<le> now'"
  shows "mem_usage (purgeExpired now s) now' k = mem_usage s now' k"
  using purgeExpired_invisible [OF assms(1), of now] assms(2) by (simp add: invisible_from_def)

theorem purgeExpired_unobservable_witness:
  "mem_usage (purgeExpired 2000 (fold mem_exec [CIncrement 0 ''a'' None, CIncrement 1500 ''b'' None]
     (new_MemoryStore (WindowOptions SLIDING_WINDOW (js_int 1000) (js_int 1)) None None))) 2100 ''b'' = 1"
proof -
  let ?s = "fold mem_exec [CIncrement 0 ''a'' None, CIncrement 1500 ''b'' None]
    (new_MemoryStore (WindowOptions SLIDING_WINDOW (js_int 1000) (js_int 1)) None None)"
  have "mem_inv ?s" "mem_usage ?s 2100 ''b'' = 1" by code_simp+
  with purgeExpired_unobservable [of ?s 2000 2100 "''b''"] show ?thesis by (simp del: fold.simps)
qed

end
