(* ===== verification/Memory_Store_Quota.thy ===== *)
theory Memory_Store_Quota
  imports Memory_Store_Laws
begin

text \<open>
  What the in-memory store grants over time. A run is a list of increments (time, key, options) in
  the order they reach the store; \<open>mem_granted\<close> collects the time and cost of those that were
  allowed for one key. Runs over keys that fit into \<open>maxKeys\<close> reduce to runs of the per-key
  transition \<open>entry_increment\<close> (\<open>mem_granted_entry\<close>); for these the three strategies have their
  quota theorems: the sliding window grants at most the cap in any window, the fixed window at most
  twice the cap, the token bucket at most its size plus the refills.
\<close>

section \<open>Runs\<close>

type_synonym request = "time \<times> key \<times> inc_opts option"

primrec mem_granted :: "request list \<Rightarrow> mem_store \<Rightarrow> key \<Rightarrow> (time \<times> int) list" where
  "mem_granted [] s k = []"
| "mem_granted (q # qs) s k =
     (case q of (t, k', o') \<Rightarrow>
        case mem_increment t k' o' s of (r, s') \<Rightarrow>
          (if k' = k \<and> \<not> isBlocked r then [(t, eff_cost o')] else []) @ mem_granted qs s' k)"

text \<open>The store after a run.\<close>

primrec mem_after :: "request list \<Rightarrow> mem_store \<Rightarrow> mem_store" where
  "mem_after [] s = s"
| "mem_after (q # qs) s = (case q of (t, k, o') \<Rightarrow> mem_after qs (snd (mem_increment t k o' s)))"

lemma mem_after_append: "mem_after (qs @ qs') s = mem_after qs' (mem_after qs s)"
  by (induction qs arbitrary: s) (auto split: prod.split)

lemma mem_granted_append: "mem_granted (qs @ qs') s k = mem_granted qs s k @ mem_granted qs' (mem_after qs s) k"
  by (induction qs arbitrary: s) (auto split: prod.split)

lemma mem_after_inv: "mem_inv s \<Longrightarrow> mem_inv (mem_after qs s) \<and> mem_cfg (mem_after qs s) = mem_cfg s"
proof (induction qs arbitrary: s)
  case (Cons q qs)
  obtain t k o' where q: "q = (t, k, o')" by (cases q)
  obtain r s' where i: "mem_increment t k o' s = (r, s')" by fastforce
  from Cons.IH [OF mem_increment_inv(1) [OF Cons.prems i]] mem_increment_inv(2) [OF Cons.prems i]
  show ?case by (simp add: q i)
qed simp

primrec entry_granted ::
  "mem_store \<Rightarrow> (time \<times> inc_opts option) list \<Rightarrow> key_state option \<Rightarrow> (time \<times> int) list" where
  "entry_granted s [] e = []"
| "entry_granted s (q # qs) e =
     (case q of (t, o') \<Rightarrow>
        case entry_increment s t o' e of (r, e') \<Rightarrow>
          (if isBlocked r then [] else [(t, eff_cost o')]) @ entry_granted s qs (Some e'))"

text \<open>The requests of a run that are for one key.\<close>

definition for_key :: "key \<Rightarrow> request list \<Rightarrow> (time \<times> inc_opts option) list" where
  "for_key k qs = map (\<lambda>(t, k', o'). (t, o')) (filter (\<lambda>(t, k', o'). k' = k) qs)"

lemma for_key_simps [simp]:
  "for_key k [] = []"
  "for_key k ((t, k', o') # qs) = (if k' = k then (t, o') # for_key k qs else for_key k qs)"
  by (simp_all add: for_key_def)

text \<open>The total cost granted at times that satisfy \<open>P\<close>.\<close>

definition granted_in :: "(time \<Rightarrow> bool) \<Rightarrow> (time \<times> int) list \<Rightarrow> int" where
  "granted_in P g = (\<Sum>(t, c) \<leftarrow> filter (\<lambda>(t, c). P t) g. c)"

lemma granted_in_simps [simp]:
  "granted_in P [] = 0"
  "granted_in P ((t, c) # g) = (if P t then c else 0) + granted_in P g"
  "granted_in P (g @ h) = granted_in P g + granted_in P h"
  by (simp_all add: granted_in_def)

lemma granted_in_none: "\<forall>p \<in> set g. \<not> P (fst p) \<Longrightarrow> granted_in P g = 0"
  by (induction g) auto

lemma granted_in_cong: "\<forall>p \<in> set g. P (fst p) = Q (fst p) \<Longrightarrow> granted_in P g = granted_in Q g"
  by (induction g) auto

definition timely :: "(time \<times> 'a) list \<Rightarrow> bool" where
  "timely qs \<longleftrightarrow> sorted (map fst qs)"

lemma timely_Nil [simp]: "timely []"
  by (simp add: timely_def)

lemma timely_Cons [simp]: "timely (q # qs) \<longleftrightarrow> (\<forall>p \<in> set qs. fst q \<le> fst p) \<and> timely qs"
  by (auto simp: timely_def)

lemma timely_for_key: "timely qs \<Longrightarrow> timely (for_key k qs)"
  by (induction qs) (auto simp: for_key_def)

lemma entry_granted_times: "(t, c) \<in> set (entry_granted s qs e) \<Longrightarrow> \<exists>o'. (t, o') \<in> set qs"
  by (induction qs arbitrary: e) (auto split: prod.splits if_splits)

section \<open>Runs of quota calls\<close>

text \<open>Runs that also undo: the calls a store has to answer in the same way to stand in for this one.\<close>

datatype quota_call = Inc time key "inc_opts option" | Dec time key "dec_opts option"

primrec call_time :: "quota_call \<Rightarrow> time" where
  "call_time (Inc t k o') = t"
| "call_time (Dec t k d) = t"

primrec mem_run :: "quota_call list \<Rightarrow> mem_store \<Rightarrow> rl_result list \<times> mem_store" where
  "mem_run [] m = ([], m)"
| "mem_run (c # cs) m =
     (case c of
        Inc t k o' \<Rightarrow> (case mem_increment t k o' m of (r, m1) \<Rightarrow> (case mem_run cs m1 of (rs, m2) \<Rightarrow> (r # rs, m2)))
      | Dec t k d \<Rightarrow> mem_run cs (mem_decrement k d m))"

text \<open>What a call does to the entries when nothing is evicted.\<close>

lemma mem_increment_at:
  assumes "mem_inv m" "ms_maxKeys m = 0" "mem_increment t k o' m = (r, m')"
  shows "mem_inv m'" "mem_cfg m' = mem_cfg m" "\<And>k'. k' \<noteq> k \<Longrightarrow> map_of (ms_state m') k' = map_of (ms_state m) k'"
    "r = fst (entry_increment m t o' (map_of (ms_state m) k))"
    "map_of (ms_state m') k = Some (snd (entry_increment m t o' (map_of (ms_state m) k)))"
  using mem_increment_inv [OF assms(1,3)] mem_increment_entry [OF assms(1,3)]
    mem_increment_frame [OF mem_inv_jsmap [OF assms(1)] assms(3)] assms(2)
  by (auto simp: has_room_def)

lemma mem_decrement_elsewhere:
  "k' \<noteq> k \<Longrightarrow> map_of (ms_state (mem_decrement k d m)) k' = map_of (ms_state m) k'"
  "map_of (ms_state m) k = None \<Longrightarrow> map_of (ms_state (mem_decrement k d m)) k = None"
  by (auto simp: mem_decrement_def decrementSliding_def decrementSlidingFromEnd_def decrementFixed_def
      decrementTokenBucket_def setSlidingState_def getSlidingState_def getFixedEntry_def getBucketEntry_def Let_def
      split: strategy.splits option.splits key_state.splits)

section \<open>Runs over the store reduce to runs of one entry\<close>

lemma live_bucket_cong: "mem_cfg s' = mem_cfg s \<Longrightarrow> live_bucket s' now e = live_bucket s now e"
  by (auto simp: live_bucket_def refillBucketStateForNow_def Let_def dest!: mem_cfg_eqD
      split: option.splits key_state.splits)

lemma entry_increment_cong:
  assumes "mem_cfg s' = mem_cfg s" shows "entry_increment s' now o' e = entry_increment s now o' e"
  using mem_cfg_eqD [OF assms]
  by (simp add: entry_increment_def eff_cap_def live_bucket_cong [OF assms] Let_def case_prod_beta cong: strategy.case_cong)

lemma entry_granted_cong:
  assumes "mem_cfg s' = mem_cfg s" shows "entry_granted s' qs e = entry_granted s qs e"
  by (induction qs arbitrary: e) (simp_all add: entry_increment_cong [OF assms] split: prod.splits)

definition fits :: "key set \<Rightarrow> mem_store \<Rightarrow> bool" where
  "fits K s \<longleftrightarrow> finite K \<and> fst ` set (ms_state s) \<subseteq> K \<and> (ms_maxKeys s = 0 \<or> int (card K) \<le> ms_maxKeys s)"

lemma fits_has_room:
  assumes "mem_inv s" "fits K s" "k \<in> K"
  shows "has_room s k"
proof (cases "ms_maxKeys s = 0")
  case False
  let ?D = "fst ` set (ms_state s)"
  have len: "length (ms_state s) = card ?D"
    using assms(1) distinct_card [of "map fst (ms_state s)"] by (simp add: mem_inv_def jsmap_ok_def)
  have D: "finite K" "?D \<subseteq> K" "int (card K) \<le> ms_maxKeys s" using assms(2) False by (auto simp: fits_def)
  show ?thesis
  proof (cases "k \<in> ?D")
    case True
    then have "ms_has s k" by (simp add: ms_has_def jsmap_has_def map_of_eq_None_iff)
    with card_mono [OF D(1,2)] D(3) len show ?thesis by (simp add: has_room_def)
  next
    case False
    then have "card ?D < card K" using D assms(3) by (auto intro!: psubset_card_mono)
    with D(3) len show ?thesis by (simp add: has_room_def)
  qed
qed (simp add: has_room_def)

lemma mem_increment_fits:
  assumes inv: "mem_inv s" and fit: "fits K s" and k: "k \<in> K" and eq: "mem_increment now k o' s = (r, s')"
  shows "fits K s'"
proof -
  have "fst ` set (ms_state s') \<subseteq> K"
  proof
    fix k' assume "k' \<in> fst ` set (ms_state s')"
    then have "map_of (ms_state s') k' \<noteq> None" by (simp add: map_of_eq_None_iff)
    then have "k' = k \<or> map_of (ms_state s) k' \<noteq> None"
      using mem_increment_frame [OF mem_inv_jsmap [OF inv] eq _ fits_has_room [OF inv fit k]] by metis
    then show "k' \<in> K" using fit k by (auto simp: fits_def map_of_eq_None_iff)
  qed
  with fit mem_increment_inv(2) [OF inv eq] show ?thesis by (auto simp: fits_def dest!: mem_cfg_eqD)
qed

lemma mem_granted_entry:
  assumes "mem_inv s" "fits K s" "\<And>t k' o'. (t, k', o') \<in> set qs \<Longrightarrow> k' \<in> K"
  shows "mem_granted qs s k = entry_granted s (for_key k qs) (map_of (ms_state s) k)"
  using assms
proof (induction qs arbitrary: s)
  case (Cons q qs)
  obtain t k' o' where q: "q = (t, k', o')" by (cases q)
  obtain r s' where inc: "mem_increment t k' o' s = (r, s')" by fastforce
  have k': "k' \<in> K" using Cons.prems(3) q by auto
  note inv' = mem_increment_inv [OF Cons.prems(1) inc]
  have ih: "mem_granted qs s' k = entry_granted s (for_key k qs) (map_of (ms_state s') k)"
    using Cons.IH [OF inv'(1) mem_increment_fits [OF Cons.prems(1,2) k' inc]] Cons.prems(3)
    by (auto simp: entry_granted_cong [OF inv'(2)])
  show ?case
  proof (cases "k' = k")
    case True
    with ih inc q mem_increment_entry [OF Cons.prems(1) inc] show ?thesis
      by (simp add: case_prod_beta)
  next
    case False
    with ih inc q show ?thesis
      using mem_increment_frame [OF mem_inv_jsmap [OF Cons.prems(1)] inc _
          fits_has_room [OF Cons.prems(1,2) k'], of k]
      by simp
  qed
qed simp


section \<open>Sliding window: at most the cap in every window\<close>

definition stamps_of :: "key_state option \<Rightarrow> time list" where
  "stamps_of e = (case e of Some (Sliding ts _) \<Rightarrow> ts | _ \<Rightarrow> [])"

definition no_wall :: "key_state option \<Rightarrow> bool" where
  "no_wall e \<longleftrightarrow> (case e of Some (Sliding _ w) \<Rightarrow> w = None | _ \<Rightarrow> True)"

lemma live_stamps_no_wall: "no_wall e \<Longrightarrow> live_stamps w now e = filter (\<lambda>t. now - w < t) (stamps_of e)"
  by (auto simp: live_stamps_def no_wall_def stamps_of_def split: option.splits key_state.splits)

definition stamps_after :: "time \<Rightarrow> time list \<Rightarrow> int" where
  "stamps_after c ts = int (length (filter (\<lambda>t. c < t) ts))"

lemma stamps_after_le: "stamps_after c ts \<le> int (length ts)"
  by (simp add: stamps_after_def)

lemma stamps_after_append: "stamps_after c (xs @ ys) = stamps_after c xs + stamps_after c ys"
  by (simp add: stamps_after_def)

lemma stamps_after_replicate: "0 \<le> n \<Longrightarrow> stamps_after c (replicate (nat n) t) = (if c < t then n else 0)"
  by (simp add: stamps_after_def filter_replicate_self)

text \<open>The state of a run so far: \<open>g\<close> is what was granted, \<open>ts\<close> the key's time stamps, \<open>lst\<close> the time
  of the latest request. From \<open>lst - w\<close> on, the stamps account for every grant.\<close>

definition sliding_account :: "int \<Rightarrow> int \<Rightarrow> (time \<times> int) list \<Rightarrow> time list \<Rightarrow> time \<Rightarrow> bool" where
  "sliding_account w m g ts lst \<longleftrightarrow>
     (\<forall>p \<in> set g. fst p \<le> lst) \<and>
     (\<forall>c \<ge> lst - w. granted_in (\<lambda>t. c < t) g \<le> stamps_after c ts) \<and>
     (\<forall>c. granted_in (\<lambda>t. c - w < t \<and> t \<le> c) g \<le> m)"

lemma sliding_account_step:
  assumes acc: "sliding_account w m g ts lst" and t: "lst \<le> t" and cost: "0 < cost"
    and ts': "ts' = filter (\<lambda>x. t - w < x) ts @ replicate (nat cost) t"
    and d: "d = [] \<or> d = [(t, cost)] \<and> int (length ts') \<le> m"
  shows "sliding_account w m (g @ d) ts' t"
proof -
  have old: "granted_in (\<lambda>x. c < x) (g @ d) \<le> stamps_after c ts'" if c: "t - w \<le> c" for c
  proof -
    have "filter (\<lambda>x. c < x) (filter (\<lambda>x. t - w < x) ts) = filter (\<lambda>x. c < x) ts"
      using c by (auto intro!: filter_cong)
    then have "stamps_after c ts' = stamps_after c ts + (if c < t then cost else 0)"
      using cost by (simp add: ts' stamps_after_append stamps_after_replicate) (simp add: stamps_after_def)
    moreover have "granted_in (\<lambda>x. c < x) g \<le> stamps_after c ts"
      using acc t c by (simp add: sliding_account_def)
    ultimately show ?thesis using d cost by auto
  qed
  have win: "granted_in (\<lambda>x. c - w < x \<and> x \<le> c) (g @ d) \<le> m" for c
  proof (cases "d = [] \<or> \<not> (c - w < t \<and> t \<le> c)")
    case True
    then have "granted_in (\<lambda>x. c - w < x \<and> x \<le> c) (g @ d) = granted_in (\<lambda>x. c - w < x \<and> x \<le> c) g"
      using d by auto
    then show ?thesis using acc by (simp add: sliding_account_def)
  next
    case False
    then have "\<forall>p \<in> set (g @ d). (c - w < fst p \<and> fst p \<le> c) = (c - w < fst p)"
      using acc t d by (fastforce simp: sliding_account_def)
    then have "granted_in (\<lambda>x. c - w < x \<and> x \<le> c) (g @ d) = granted_in (\<lambda>x. c - w < x) (g @ d)"
      by (rule granted_in_cong)
    also have "\<dots> \<le> stamps_after (c - w) ts'" using old [of "c - w"] False by simp
    also have "\<dots> \<le> m" using stamps_after_le [of "c - w" ts'] d False by auto
    finally show ?thesis .
  qed
  have "\<forall>p \<in> set (g @ d). fst p \<le> t" using acc t d by (fastforce simp: sliding_account_def)
  with old win show ?thesis by (simp add: sliding_account_def)
qed

lemma entry_granted_sliding:
  assumes "ms_strategy s = SLIDING_WINDOW" "no_wall e" "timely qs"
    and "\<forall>q \<in> set qs. lst \<le> fst q \<and> eff_cap s (snd q) \<le> m"
    and "sliding_account (ms_windowMs s) m g (stamps_of e) lst"
  shows "\<exists>ts l. sliding_account (ms_windowMs s) m (g @ entry_granted s qs e) ts l"
  using assms(2-)
proof (induction qs arbitrary: e g lst)
  case (Cons q qs)
  obtain t o' where q: "q = (t, o')" by (cases q)
  let ?ts' = "filter (\<lambda>x. t - ms_windowMs s < x) (stamps_of e) @ replicate (nat (eff_cost o')) t"
  let ?blocked = "int (length ?ts') > eff_cap s o'"
  let ?d = "if ?blocked then [] else [(t, eff_cost o')]"
  have acc: "sliding_account (ms_windowMs s) m (g @ ?d) ?ts' t"
    by (rule sliding_account_step [OF Cons.prems(4)]) (use Cons.prems(3) q in auto)
  have step: "entry_granted s (q # qs) e = ?d @ entry_granted s qs (Some (Sliding ?ts' None))"
    using assms(1) by (simp add: q entry_increment_def Let_def live_stamps_no_wall [OF Cons.prems(1)])
  have "\<exists>ts l. sliding_account (ms_windowMs s) m
      ((g @ ?d) @ entry_granted s qs (Some (Sliding ?ts' None))) ts l"
    by (rule Cons.IH [where lst = t])
       (use Cons.prems q acc in \<open>auto simp: no_wall_def stamps_of_def\<close>)
  then show ?case unfolding step by simp
qed auto

lemma mem_granted_sliding:
  assumes inv: "mem_inv s" and st: "ms_strategy s = SLIDING_WINDOW" and empty: "ms_state s = []"
    and keys: "ms_maxKeys s = 0 \<or> int (card (set (map (fst \<circ> snd) qs))) \<le> ms_maxKeys s"
    and sorted: "timely qs" and cap: "\<forall>q \<in> set qs. eff_cap s (snd (snd q)) \<le> m" and m: "0 \<le> m"
  shows "granted_in (\<lambda>t. c - ms_windowMs s < t \<and> t \<le> c) (mem_granted qs s k) \<le> m"
proof -
  have eq: "mem_granted qs s k = entry_granted s (for_key k qs) None"
    using mem_granted_entry [OF inv, of "set (map (fst \<circ> snd) qs)" qs k] keys empty
    by (force simp: fits_def)
  obtain t0 where t0: "\<forall>q \<in> set (for_key k qs). t0 \<le> fst q"
    using timely_for_key [OF sorted, of k] by (cases "for_key k qs") auto
  have "sliding_account (ms_windowMs s) m [] [] t0"
    using m by (simp add: sliding_account_def stamps_after_def)
  then have "\<exists>ts l. sliding_account (ms_windowMs s) m ([] @ entry_granted s (for_key k qs) None) ts l"
    by (intro entry_granted_sliding [OF st])
       (use t0 cap timely_for_key [OF sorted] in \<open>auto simp: no_wall_def stamps_of_def for_key_def\<close>)
  then show ?thesis by (auto simp: eq sliding_account_def)
qed


section \<open>Fixed window: at most the cap per slice, twice the cap in every window\<close>

definition fixed_or_none :: "key_state option \<Rightarrow> bool" where
  "fixed_or_none e \<longleftrightarrow> (case e of None \<Rightarrow> True | Some (Fixed c r) \<Rightarrow> 0 \<le> c | _ \<Rightarrow> False)"

lemma entry_granted_fixed_Cons:
  assumes "ms_strategy s = FIXED_WINDOW" "live_fixed (ms_windowMs s) t e = (c, r)"
  shows "entry_granted s ((t, o') # qs) e =
    (if c + eff_cost o' > eff_cap s o' then [] else [(t, eff_cost o')]) @
    entry_granted s qs (Some (Fixed (c + eff_cost o') r))"
  using assms by (simp add: entry_increment_def)

text \<open>Up to the end of the running slice at most what is left of the cap is granted.\<close>

lemma entry_granted_slice:
  assumes st: "ms_strategy s = FIXED_WINDOW"
  shows "\<forall>q \<in> set qs. eff_cap s (snd q) \<le> m \<Longrightarrow> 0 \<le> c \<Longrightarrow> timely qs \<Longrightarrow> b \<le> r \<Longrightarrow>
    granted_in (\<lambda>t. t < b) (entry_granted s qs (Some (Fixed c r))) \<le> max 0 (m - c)"
proof (induction qs arbitrary: c)
  case (Cons q qs)
  obtain t o' where q: "q = (t, o')" by (cases q)
  show ?case
  proof (cases "t < r")
    case True
    then have live: "live_fixed (ms_windowMs s) t (Some (Fixed c r)) = (c, r)" by (simp add: live_fixed_def)
    have "granted_in (\<lambda>t. t < b) (entry_granted s qs (Some (Fixed (c + eff_cost o') r)))
        \<le> max 0 (m - (c + eff_cost o'))"
      by (rule Cons.IH) (use Cons.prems eff_cost_pos(1) [of o'] in auto)
    moreover have "eff_cap s o' \<le> m" using Cons.prems q by simp
    ultimately show ?thesis using eff_cost_pos(1) [of o']
      unfolding q entry_granted_fixed_Cons [OF st live] by (auto simp: max_def simp del: eff_cost_pos split: if_splits)
  next
    case False
    then have "\<forall>p \<in> set (q # qs). b \<le> fst p" using Cons.prems(3,4) q by force
    then have "granted_in (\<lambda>t. t < b) (entry_granted s (q # qs) (Some (Fixed c r))) = 0"
      by (intro granted_in_none) (fastforce dest: entry_granted_times)
    then show ?thesis by simp
  qed
qed simp

lemma entry_granted_fixed_window:
  assumes st: "ms_strategy s = FIXED_WINDOW" and w: "0 < ms_windowMs s" and m: "0 \<le> m"
  shows "\<forall>q \<in> set qs. eff_cap s (snd q) \<le> m \<and> a \<le> fst q \<Longrightarrow> timely qs \<Longrightarrow> 0 \<le> c \<Longrightarrow>
    granted_in (\<lambda>t. t < a + ms_windowMs s) (entry_granted s qs (Some (Fixed c r))) \<le> max 0 (m - c) + m"
proof (induction qs arbitrary: c)
  case (Cons q qs)
  obtain t o' where q: "q = (t, o')" by (cases q)
  have cap: "eff_cap s o' \<le> m" and t: "a \<le> t" using Cons.prems q by auto
  note pos = eff_cost_pos(1) [of o']
  show ?case
  proof (cases "t < r")
    case True
    then have live: "live_fixed (ms_windowMs s) t (Some (Fixed c r)) = (c, r)" by (simp add: live_fixed_def)
    have "granted_in (\<lambda>t. t < a + ms_windowMs s) (entry_granted s qs (Some (Fixed (c + eff_cost o') r)))
        \<le> max 0 (m - (c + eff_cost o')) + m"
      by (rule Cons.IH) (use Cons.prems pos in auto)
    then show ?thesis using pos cap
      unfolding q entry_granted_fixed_Cons [OF st live] by (auto simp: max_def simp del: eff_cost_pos split: if_splits)
  next
    case False
    then have live: "live_fixed (ms_windowMs s) t (Some (Fixed c r)) = (0, t + ms_windowMs s)"
      by (simp add: live_fixed_def)
    have "granted_in (\<lambda>t. t < a + ms_windowMs s)
        (entry_granted s qs (Some (Fixed (eff_cost o') (t + ms_windowMs s)))) \<le> max 0 (m - eff_cost o')"
      by (rule entry_granted_slice [OF st]) (use Cons.prems t in auto)
    then show ?thesis using pos cap m
      unfolding q entry_granted_fixed_Cons [OF st live] by (auto simp: max_def simp del: eff_cost_pos split: if_splits)
  qed
qed (use m in simp)

lemma fixed_live_form:
  assumes "fixed_or_none e" "e \<noteq> None"
  obtains c r where "e = Some (Fixed c r)" "0 \<le> c"
  using assms by (auto simp: fixed_or_none_def split: option.splits key_state.splits)

lemma entry_granted_fixed_any:
  assumes st: "ms_strategy s = FIXED_WINDOW" and w: "0 < ms_windowMs s" and m: "0 \<le> m"
  shows "fixed_or_none e \<Longrightarrow> timely qs \<Longrightarrow> \<forall>q \<in> set qs. eff_cap s (snd q) \<le> m \<Longrightarrow>
    granted_in (\<lambda>t. a \<le> t \<and> t < a + ms_windowMs s) (entry_granted s qs e) \<le> 2 * m"
proof (induction qs arbitrary: e)
  case (Cons q qs)
  obtain t o' where q: "q = (t, o')" by (cases q)
  obtain c r where live: "live_fixed (ms_windowMs s) t e = (c, r)" by fastforce
  have c: "0 \<le> c" using Cons.prems(1) live
    by (auto simp: live_fixed_def fixed_or_none_def split: option.splits key_state.splits if_splits)
  note pos = eff_cost_pos(1) [of o']
  let ?rest = "entry_granted s qs (Some (Fixed (c + eff_cost o') r))"
  have form: "entry_granted s (q # qs) e =
      (if c + eff_cost o' > eff_cap s o' then [] else [(t, eff_cost o')]) @ ?rest"
    unfolding q by (rule entry_granted_fixed_Cons [OF st live])
  show ?case
  proof (cases "a \<le> t")
    case True
    have late: "\<forall>p \<in> set qs. a \<le> fst p" using True Cons.prems(2) q by force
    have "granted_in (\<lambda>t. a \<le> t \<and> t < a + ms_windowMs s) ?rest = granted_in (\<lambda>t. t < a + ms_windowMs s) ?rest"
      by (rule granted_in_cong) (use late in \<open>fastforce dest: entry_granted_times\<close>)
    also have "\<dots> \<le> max 0 (m - (c + eff_cost o')) + m"
      by (rule entry_granted_fixed_window [OF st w m]) (use Cons.prems late c pos in auto)
    finally show ?thesis using pos c m Cons.prems(3) unfolding form by (auto simp: q max_def simp del: eff_cost_pos split: if_splits)
  next
    case False
    have "granted_in (\<lambda>t. a \<le> t \<and> t < a + ms_windowMs s) ?rest \<le> 2 * m"
      by (rule Cons.IH) (use Cons.prems c pos in \<open>auto simp: fixed_or_none_def\<close>)
    with False show ?thesis unfolding form by simp
  qed
qed (use m in simp)

lemma mem_granted_start:
  assumes "mem_inv s" "ms_state s = []"
    and "ms_maxKeys s = 0 \<or> int (card (set (map (fst \<circ> snd) qs))) \<le> ms_maxKeys s"
  shows "mem_granted qs s k = entry_granted s (for_key k qs) None"
  using mem_granted_entry [OF assms(1), of "set (map (fst \<circ> snd) qs)" qs k] assms(2,3)
  by (force simp: fits_def)

lemma mem_granted_fixed:
  assumes inv: "mem_inv s" and st: "ms_strategy s = FIXED_WINDOW" and empty: "ms_state s = []"
    and keys: "ms_maxKeys s = 0 \<or> int (card (set (map (fst \<circ> snd) qs))) \<le> ms_maxKeys s"
    and sorted: "timely qs" and cap: "\<forall>q \<in> set qs. eff_cap s (snd (snd q)) \<le> m" and m: "0 \<le> m"
  shows "granted_in (\<lambda>t. a \<le> t \<and> t < a + ms_windowMs s) (mem_granted qs s k) \<le> 2 * m"
  unfolding mem_granted_start [OF inv empty keys]
  by (rule entry_granted_fixed_any [OF st _ m])
     (use inv st cap timely_for_key [OF sorted] in
       \<open>auto simp: fixed_or_none_def for_key_def mem_inv_def cfg_ok_def\<close>)

section \<open>Token bucket: at most the bucket plus the refills\<close>

lemma refill_bound:
  assumes i: "1 \<le> ms_refillIntervalMs s" and tpi: "0 \<le> ms_tokensPerInterval s" and t: "l \<le> t" "t \<le> b"
    and eq: "refillBucketStateForNow s n l t = (n', l')"
  shows "n' + ms_tokensPerInterval s * ((b - l') div ms_refillIntervalMs s) \<le>
      n + ms_tokensPerInterval s * ((b - l) div ms_refillIntervalMs s)"
    and "l' \<le> t" and "t < l' + ms_refillIntervalMs s"
proof -
  let ?i = "ms_refillIntervalMs s" and ?k = "(t - l) div ms_refillIntervalMs s"
  have k: "0 \<le> ?k" using i t(1) by (simp add: pos_imp_zdiv_nonneg_iff)
  have l': "l' = l + ?k * ?i" and n': "n' \<le> n + ?k * ms_tokensPerInterval s"
    using eq k by (auto simp: refillBucketStateForNow_def Let_def split: if_splits)
  have "(b - l') div ?i = (b - l) div ?i - ?k"
    using i div_mult_self1 [of ?i "b - l" "- ?k"] by (simp add: l' algebra_simps)
  then show "n' + ms_tokensPerInterval s * ((b - l') div ?i) \<le> n + ms_tokensPerInterval s * ((b - l) div ?i)"
    using n' by (simp add: right_diff_distrib mult.commute)
  show "l' \<le> t" using div_mult_le_self [of ?i "t - l"] i by (simp add: l')
  show "t < l' + ?i" using less_div_mult_plus [of ?i "t - l"] i by (simp add: l')
qed

lemma entry_granted_bucket_Cons:
  assumes "ms_strategy s = TOKEN_BUCKET" "live_bucket s t e = (n, l)"
  shows "entry_granted s ((t, o') # qs) e =
    (if n \<ge> eff_cost o' then (t, eff_cost o') # entry_granted s qs (Some (Bucket (n - eff_cost o') l))
     else entry_granted s qs (Some (Bucket n l)))"
  using assms by (simp add: entry_increment_def)

lemma granted_after_none:
  assumes "timely qs" "\<forall>q \<in> set qs. b < fst q"
  shows "granted_in (\<lambda>t. t \<le> b) (entry_granted s qs e) = 0"
  by (rule granted_in_none) (use assms in \<open>fastforce dest: entry_granted_times\<close>)

lemma entry_granted_bucket:
  assumes st: "ms_strategy s = TOKEN_BUCKET"
    and i: "1 \<le> ms_refillIntervalMs s" and tpi: "0 \<le> ms_tokensPerInterval s"
  shows "timely qs \<Longrightarrow> \<forall>q \<in> set qs. l \<le> fst q \<Longrightarrow> 0 \<le> n \<Longrightarrow> l \<le> b \<Longrightarrow> 0 \<le> ms_bucketSize s \<Longrightarrow>
    granted_in (\<lambda>t. t \<le> b) (entry_granted s qs (Some (Bucket n l))) \<le>
    n + ms_tokensPerInterval s * ((b - l) div ms_refillIntervalMs s)"
proof (induction qs arbitrary: n l)
  case Nil
  then show ?case using i tpi by (simp add: pos_imp_zdiv_nonneg_iff)
next
  case (Cons q qs)
  obtain t o' where q: "q = (t, o')" by (cases q)
  have t: "l \<le> t" using Cons.prems(2) q by simp
  show ?case
  proof (cases "t \<le> b")
    case False
    then have "granted_in (\<lambda>t. t \<le> b) (entry_granted s (q # qs) (Some (Bucket n l))) = 0"
      using Cons.prems(1) q by (intro granted_after_none) force+
    then show ?thesis using i tpi Cons.prems by (simp add: pos_imp_zdiv_nonneg_iff)
  next
    case True
    obtain n' l' where nl: "refillBucketStateForNow s n l t = (n', l')" by fastforce
    then have live: "live_bucket s t (Some (Bucket n l)) = (n', l')" by (simp add: live_bucket_def)
    note bound = refill_bound [OF i tpi t True nl]
    have n': "0 \<le> n'" using nl Cons.prems(3,5) tpi by (auto simp: refillBucketStateForNow_def Let_def split: if_splits)
    let ?n = "if n' \<ge> eff_cost o' then n' - eff_cost o' else n'"
    have "granted_in (\<lambda>t. t \<le> b) (entry_granted s qs (Some (Bucket ?n l'))) \<le>
        ?n + ms_tokensPerInterval s * ((b - l') div ms_refillIntervalMs s)"
      by (rule Cons.IH) (use Cons.prems q bound(2) True n' in force)+
    then show ?thesis using bound(1) True
      unfolding q entry_granted_bucket_Cons [OF st live] by (auto split: if_splits)
  qed
qed


lemma live_bucket_ok:
  assumes "mem_inv s" "ms_strategy s = TOKEN_BUCKET" "live_bucket s t e = (n, l)"
    and e: "case e of None \<Rightarrow> True | Some (Bucket n0 l0) \<Rightarrow> 0 \<le> n0 \<and> n0 \<le> ms_bucketSize s \<and> l0 \<le> t | _ \<Rightarrow> False"
  shows "0 \<le> n" "n \<le> ms_bucketSize s" "l \<le> t" "t < l + ms_refillIntervalMs s"
proof -
  have cfg: "cfg_ok s" "1 \<le> ms_refillIntervalMs s" "0 \<le> ms_tokensPerInterval s" "0 \<le> ms_bucketSize s"
    using assms(1,2) by (simp_all add: mem_inv_def cfg_ok_def)
  show "0 \<le> n" "n \<le> ms_bucketSize s" "l \<le> t" "t < l + ms_refillIntervalMs s"
    using assms(3) e cfg refill_range [OF cfg(1) assms(2)] refill_bound(2,3) [OF cfg(2,3) _ order_refl]
    by (auto simp: live_bucket_def split: option.splits key_state.splits) (metis fst_conv)+
qed

lemma entry_granted_bucket_any:
  assumes inv: "mem_inv s" and st: "ms_strategy s = TOKEN_BUCKET" and ab: "a \<le> b"
  shows "timely qs \<Longrightarrow>
    (case e of None \<Rightarrow> True
     | Some (Bucket n0 l0) \<Rightarrow> 0 \<le> n0 \<and> n0 \<le> ms_bucketSize s \<and> (\<forall>q \<in> set qs. l0 \<le> fst q) | _ \<Rightarrow> False) \<Longrightarrow>
    granted_in (\<lambda>t. a \<le> t \<and> t \<le> b) (entry_granted s qs e) \<le>
    ms_bucketSize s + ms_tokensPerInterval s * ((b - a) div ms_refillIntervalMs s + 1)"
proof (induction qs arbitrary: e)
  case Nil
  then show ?case using inv st ab by (simp add: mem_inv_def cfg_ok_def pos_imp_zdiv_nonneg_iff)
next
  case (Cons q qs)
  let ?i = "ms_refillIntervalMs s" and ?tpi = "ms_tokensPerInterval s"
  have cfg: "1 \<le> ?i" "0 \<le> ?tpi" "0 \<le> ms_bucketSize s"
    using inv st by (simp_all add: mem_inv_def cfg_ok_def)
  obtain t o' where q: "q = (t, o')" by (cases q)
  obtain n l where live: "live_bucket s t e = (n, l)" by fastforce
  note ok = live_bucket_ok [OF inv st live]
  have e: "case e of None \<Rightarrow> True | Some (Bucket n0 l0) \<Rightarrow> 0 \<le> n0 \<and> n0 \<le> ms_bucketSize s \<and> l0 \<le> t | _ \<Rightarrow> False"
    using Cons.prems(2) q by (auto split: option.splits key_state.splits)
  note ok = ok [OF e]
  let ?n = "if n \<ge> eff_cost o' then n - eff_cost o' else n"
  let ?rest = "entry_granted s qs (Some (Bucket ?n l))"
  have later: "\<forall>q \<in> set qs. t \<le> fst q" using Cons.prems(1) q by simp
  have form: "granted_in P (entry_granted s (q # qs) e) =
      (if n \<ge> eff_cost o' \<and> P t then eff_cost o' else 0) + granted_in P ?rest" for P
    unfolding q entry_granted_bucket_Cons [OF st live] by simp
  consider "t < a" | "a \<le> t" "t \<le> b" | "b < t" by linarith
  then show ?case
  proof cases
    case 1
    have "granted_in (\<lambda>t. a \<le> t \<and> t \<le> b) ?rest \<le> ms_bucketSize s + ?tpi * ((b - a) div ?i + 1)"
    proof (rule Cons.IH)
      have "\<forall>q \<in> set qs. l \<le> fst q" using later ok(3) by force
      then show "case Some (Bucket ?n l) of None \<Rightarrow> True
        | Some (Bucket n0 l0) \<Rightarrow> 0 \<le> n0 \<and> n0 \<le> ms_bucketSize s \<and> (\<forall>q \<in> set qs. l0 \<le> fst q) | _ \<Rightarrow> False"
        using ok eff_cost_pos(3) [of o'] by (auto simp del: eff_cost_pos)
    qed (use Cons.prems in simp)
    with 1 show ?thesis unfolding form by simp
  next
    case 2
    have "granted_in (\<lambda>t. a \<le> t \<and> t \<le> b) ?rest = granted_in (\<lambda>t. t \<le> b) ?rest"
      by (rule granted_in_cong) (use later 2 in \<open>fastforce dest: entry_granted_times\<close>)
    also have "\<dots> \<le> ?n + ?tpi * ((b - l) div ?i)"
    proof (rule entry_granted_bucket [OF st cfg(1,2)])
      show "\<forall>q \<in> set qs. l \<le> fst q" using later ok(3) by force
    qed (use Cons.prems ok 2 cfg in auto)
    also have "\<dots> \<le> ?n + ?tpi * ((b - a) div ?i + 1)"
    proof -
      have "(b - l) div ?i \<le> (b - a + ?i) div ?i" using ok 2 cfg by (intro zdiv_mono1) auto
      also have "\<dots> = (b - a) div ?i + 1" using cfg by simp
      finally show ?thesis using cfg(2) by (simp add: mult_left_mono)
    qed
    finally show ?thesis using 2 ok cfg unfolding form by (auto split: if_splits)
  next
    case 3
    then have "granted_in (\<lambda>t. a \<le> t \<and> t \<le> b) ?rest = 0"
      by (intro granted_in_none) (use later in \<open>fastforce dest: entry_granted_times\<close>)
    with 3 show ?thesis using cfg ab unfolding form by (simp add: pos_imp_zdiv_nonneg_iff)
  qed
qed

lemma mem_granted_bucket:
  assumes inv: "mem_inv s" and st: "ms_strategy s = TOKEN_BUCKET" and empty: "ms_state s = []"
    and keys: "ms_maxKeys s = 0 \<or> int (card (set (map (fst \<circ> snd) qs))) \<le> ms_maxKeys s"
    and sorted: "timely qs" and ab: "a \<le> b"
  shows "granted_in (\<lambda>t. a \<le> t \<and> t \<le> b) (mem_granted qs s k) \<le>
    ms_bucketSize s + ms_tokensPerInterval s * ((b - a) div ms_refillIntervalMs s + 1)"
  unfolding mem_granted_start [OF inv empty keys]
  by (rule entry_granted_bucket_any [OF inv st ab timely_for_key [OF sorted]]) simp


section \<open>Properties\<close>

text \<open>(C2) The sliding window keeps its promise: in a run of increments on a fresh store, in time order
  and over keys that fit into \<open>maxKeys\<close>, the cost granted to one key within any window
  \<open>(c - windowMs, c]\<close> is at most the cap (the largest one the requests were checked against).\<close>

theorem sliding_window_quota:
  assumes "mem_inv s" "ms_strategy s = SLIDING_WINDOW" "ms_state s = []"
    and "ms_maxKeys s = 0 \<or> int (card (set (map (fst \<circ> snd) qs))) \<le> ms_maxKeys s"
    and "timely qs" "\<forall>q \<in> set qs. eff_cap s (snd (snd q)) \<le> m" "0 \<le> m"
  shows "granted_in (\<lambda>t. c - ms_windowMs s < t \<and> t \<le> c) (mem_granted qs s k) \<le> m"
  using assms by (rule mem_granted_sliding)

theorem sliding_window_quota_witness:
  "granted_in (\<lambda>t. 1500 - 1000 < t \<and> t \<le> 1500)
     (mem_granted [(0, ''a'', None), (700, ''a'', None), (900, ''a'', None), (1400, ''a'', None)]
        (new_MemoryStore (WindowOptions SLIDING_WINDOW (js_int 1000) (js_int 2)) (Some 1) None) ''a'') \<le> 2"
proof -
  let ?s = "new_MemoryStore (WindowOptions SLIDING_WINDOW (js_int 1000) (js_int 2)) (Some 1) None"
  let ?qs = "[(0, ''a'', None), (700, ''a'', None), (900, ''a'', None), (1400, ''a'', None)] :: request list"
  have s: "mem_inv ?s" "ms_strategy ?s = SLIDING_WINDOW" "ms_state ?s = []" by code_simp+
  have w: "ms_windowMs ?s = 1000" "ms_maxKeys ?s = 1" by code_simp+
  have cap: "eff_cap ?s None \<le> 2" by code_simp
  show ?thesis using sliding_window_quota [OF s, of ?qs 2 1500 "''a''"] cap w
    by (simp add: timely_def del: mem_granted.simps)
qed

text \<open>(C4) The fixed window grants one key at most twice the cap within any interval of one window
  length (the interval can overlap two slices).\<close>

theorem fixed_window_quota:
  assumes "mem_inv s" "ms_strategy s = FIXED_WINDOW" "ms_state s = []"
    and "ms_maxKeys s = 0 \<or> int (card (set (map (fst \<circ> snd) qs))) \<le> ms_maxKeys s"
    and "timely qs" "\<forall>q \<in> set qs. eff_cap s (snd (snd q)) \<le> m" "0 \<le> m"
  shows "granted_in (\<lambda>t. a \<le> t \<and> t < a + ms_windowMs s) (mem_granted qs s k) \<le> 2 * m"
  using assms by (rule mem_granted_fixed)

theorem fixed_window_quota_witness:
  "granted_in (\<lambda>t. 900 \<le> t \<and> t < 900 + 1000)
     (mem_granted [(0, ''a'', None), (900, ''a'', None), (1100, ''a'', None), (1200, ''a'', None)]
        (new_MemoryStore (WindowOptions FIXED_WINDOW (js_int 1000) (js_int 2)) None None) ''a'') \<le> 4"
proof -
  let ?s = "new_MemoryStore (WindowOptions FIXED_WINDOW (js_int 1000) (js_int 2)) None None"
  let ?qs = "[(0, ''a'', None), (900, ''a'', None), (1100, ''a'', None), (1200, ''a'', None)] :: request list"
  have s: "mem_inv ?s" "ms_strategy ?s = FIXED_WINDOW" "ms_state ?s = []" by code_simp+
  have w: "ms_windowMs ?s = 1000" "ms_maxKeys ?s = 100000" by code_simp+
  have cap: "eff_cap ?s None \<le> 2" by code_simp
  show ?thesis using fixed_window_quota [OF s, of ?qs 2 900 "''a''"] cap w
    by (simp add: timely_def del: mem_granted.simps)
qed

text \<open>(C3) The token bucket grants one key within \<open>[a, b]\<close> at most its size plus \<open>tokensPerInterval\<close> for
  every refill that can fall into the interval.\<close>

theorem token_bucket_quota:
  assumes "mem_inv s" "ms_strategy s = TOKEN_BUCKET" "ms_state s = []"
    and "ms_maxKeys s = 0 \<or> int (card (set (map (fst \<circ> snd) qs))) \<le> ms_maxKeys s"
    and "timely qs" "a \<le> b"
  shows "granted_in (\<lambda>t. a \<le> t \<and> t \<le> b) (mem_granted qs s k) \<le>
    ms_bucketSize s + ms_tokensPerInterval s * ((b - a) div ms_refillIntervalMs s + 1)"
  using assms by (rule mem_granted_bucket)

theorem token_bucket_quota_witness:
  "granted_in (\<lambda>t. 0 \<le> t \<and> t \<le> 1500)
     (mem_granted [(0, ''a'', None), (1100, ''a'', None), (1200, ''a'', None)]
        (new_MemoryStore (TokenBucketOptions 1 1000 2) None None) ''a'') \<le> 4"
proof -
  let ?s = "new_MemoryStore (TokenBucketOptions 1 1000 2) None None"
  let ?qs = "[(0, ''a'', None), (1100, ''a'', None), (1200, ''a'', None)] :: request list"
  have s: "mem_inv ?s" "ms_strategy ?s = TOKEN_BUCKET" "ms_state ?s = []" by code_simp+
  have w: "ms_bucketSize ?s = 2" "ms_tokensPerInterval ?s = 1" "ms_refillIntervalMs ?s = 1000"
    "ms_maxKeys ?s = 100000" by code_simp+
  show ?thesis using token_bucket_quota [OF s, of ?qs 0 1500 "''a''"] w
    by (simp add: timely_def del: mem_granted.simps)
qed

end
