(* ===== verification/In_Memory_Shield.thy ===== *)
theory In_Memory_Shield
  imports Memory_Store_Laws
begin

text \<open>
  The in-memory shield, \<open>src/shield/InMemoryShield.ts\<close>: a store that wraps another store and
  answers for keys it has seen reach \<open>blockOnConsumed\<close> from a bounded cache. The inner store is a
  state \<open>'s\<close> with a method table \<open>'s store_ops\<close>. \<open>increment\<close> awaits the inner store, so it is
  modelled in two halves, \<open>shield_lookup\<close> before the await and \<open>shield_finish\<close> after it, and
  \<open>shield_increment\<close> runs them in sequence; the cache bound holds for any interleaving of halves.

  \<open>blockOnConsumed\<close>, \<open>maxBlockedKeys\<close> and \<open>blockDurationMs\<close> are only compared with or added to
  integers before a comparison, so their ceilings decide the same way.

  The locale \<open>shield_host\<close> is a store contract under which the shield satisfies the contract again;
  it is interpreted on the in-memory store.
\<close>

section \<open>State and construction\<close>

record shield_entry =
  blockedAt :: time
  expiresAt :: time
  cachedResult :: rl_result

datatype shield_event = ShieldHit key | ShieldBlock key int time | ShieldExpire key | ShieldEvict key

record 's shield =
  sh_inner :: 's
  blockOnConsumed :: int
  blockDurationMs :: "int option"
  maxBlockedKeys :: int
  sh_cache :: "(key, shield_entry) jsmap"
  sweepTimer :: bool
  storeCallsSaved :: nat
  storeCalls :: nat
  totalKeysBlocked :: nat
  totalKeysExpired :: nat
  totalKeysEvicted :: nat
  sh_events :: "shield_event list"

record shield_options =
  opt_blockOnConsumed :: js_value
  opt_blockDurationMs :: js_value
  opt_maxBlockedKeys :: js_value
  opt_sweepIntervalMs :: js_value

definition finite_at_least :: "rat \<Rightarrow> js_value \<Rightarrow> bool" where
  "finite_at_least b v = (case v of Num r \<Rightarrow> r \<ge> b | _ \<Rightarrow> False)"

definition num_ceiling :: "js_value \<Rightarrow> int" where
  "num_ceiling v = (case v of Num r \<Rightarrow> \<lceil>r\<rceil> | _ \<Rightarrow> 0)"

definition js_positive :: "js_value \<Rightarrow> bool" where
  "js_positive v = (case v of Num r \<Rightarrow> r > 0 | PosInf \<Rightarrow> True | _ \<Rightarrow> False)"

definition new_InMemoryShield :: "'s \<Rightarrow> shield_options \<Rightarrow> string + 's shield" where
  "new_InMemoryShield innerStore options =
     (if \<not> finite_at_least 1 (opt_blockOnConsumed options)
      then Inl ''InMemoryShield: blockOnConsumed must be a finite number >= 1''
      else let maxKeys = js_or (opt_maxBlockedKeys options) (js_int 10000)
           in if \<not> finite_at_least 0 maxKeys
              then Inl ''InMemoryShield: maxBlockedKeys must be a finite number >= 0''
              else let sweepIntervalMs = js_or (opt_sweepIntervalMs options) (js_int 30000)
                   in if opt_blockDurationMs options \<noteq> Undefined \<and>
                         \<not> finite_at_least 0 (opt_blockDurationMs options)
                      then Inl ''InMemoryShield: blockDurationMs must be a finite number >= 0''
                      else Inr \<lparr>sh_inner = innerStore,
                        blockOnConsumed = num_ceiling (opt_blockOnConsumed options),
                        blockDurationMs =
                          (if opt_blockDurationMs options = Undefined then None
                           else Some (num_ceiling (opt_blockDurationMs options))),
                        maxBlockedKeys = num_ceiling maxKeys,
                        sh_cache = [], sweepTimer = js_positive sweepIntervalMs,
                        storeCallsSaved = 0, storeCalls = 0, totalKeysBlocked = 0,
                        totalKeysExpired = 0, totalKeysEvicted = 0, sh_events = []\<rparr>)"

text \<open>\<open>shield(store, options)\<close> of \<open>src/shield/shield.ts\<close>.\<close>

definition shield_wrap :: "'s \<Rightarrow> shield_options \<Rightarrow> string + 's shield" where
  "shield_wrap store options = new_InMemoryShield store options"

section \<open>Increment\<close>

definition sh_uncache :: "key \<Rightarrow> 's shield \<Rightarrow> 's shield" where
  "sh_uncache k s = s\<lparr>sh_cache := AList.delete k (sh_cache s)\<rparr>"

text \<open>Up to the await: a cached answer, or the decision to ask the inner store.\<close>

definition shield_lookup :: "time \<Rightarrow> key \<Rightarrow> 's shield \<Rightarrow> rl_result option \<times> 's shield" where
  "shield_lookup now k s =
     (case map_of (sh_cache s) k of
        Some entry \<Rightarrow>
          if now < expiresAt entry
          then (Some (cachedResult entry),
                s\<lparr>storeCallsSaved := Suc (storeCallsSaved s), sh_events := sh_events s @ [ShieldHit k]\<rparr>)
          else (None, (sh_uncache k s)\<lparr>totalKeysExpired := Suc (totalKeysExpired s),
                  sh_events := sh_events s @ [ShieldExpire k], storeCalls := Suc (storeCalls s)\<rparr>)
      | None \<Rightarrow> (None, s\<lparr>storeCalls := Suc (storeCalls s)\<rparr>))"

definition sh_make_room :: "'s shield \<Rightarrow> 's shield" where
  "sh_make_room s =
     (if maxBlockedKeys s > 0 \<and> int (length (sh_cache s)) \<ge> maxBlockedKeys s
      then (case sh_cache s of
              [] \<Rightarrow> s
            | (oldestKey, _) # _ \<Rightarrow>
                (sh_uncache oldestKey s)\<lparr>totalKeysEvicted := Suc (totalKeysEvicted s),
                                        sh_events := sh_events s @ [ShieldEvict oldestKey]\<rparr>)
      else s)"

definition cacheBlock :: "time \<Rightarrow> key \<Rightarrow> rl_result \<Rightarrow> 's shield \<Rightarrow> 's shield" where
  "cacheBlock now k result s =
     (let expires = (case blockDurationMs s of
                       Some d \<Rightarrow> if d > 0 then now + d else resetTime result
                     | None \<Rightarrow> resetTime result);
          s1 = sh_make_room s;
          entry = \<lparr>blockedAt = now, expiresAt = expires,
                   cachedResult = plain_result (totalHits result) (max 0 (remaining result))
                                    (resetTime result) True\<rparr>
      in s1\<lparr>sh_cache := AList.update k entry (sh_cache s1),
             totalKeysBlocked := Suc (totalKeysBlocked s1),
             sh_events := sh_events s1 @ [ShieldBlock k (totalHits result) expires]\<rparr>)"

text \<open>After the await.\<close>

definition shield_finish :: "time \<Rightarrow> key \<Rightarrow> rl_result \<Rightarrow> 's shield \<Rightarrow> 's shield" where
  "shield_finish now k result s =
     (if totalHits result \<ge> blockOnConsumed s then cacheBlock now k result s else s)"

text \<open>The answer carries the \<open>shielded\<close> flag.\<close>

definition shield_increment ::
  "'s store_ops \<Rightarrow> time \<Rightarrow> key \<Rightarrow> inc_opts option \<Rightarrow> 's shield \<Rightarrow> (string + rl_result \<times> bool) \<times> 's shield" where
  "shield_increment ops now k o' s =
     (case shield_lookup now k s of
        (Some r, s1) \<Rightarrow> (Inr (r, True), s1)
      | (None, s1) \<Rightarrow>
          (case op_increment ops now k o' (sh_inner s1) of
             (Inl e, i) \<Rightarrow> (Inl e, s1\<lparr>sh_inner := i\<rparr>)
           | (Inr r, i) \<Rightarrow> (Inr (r, False), shield_finish now k r (s1\<lparr>sh_inner := i\<rparr>))))"

section \<open>The other methods\<close>

definition shield_decrement ::
  "'s store_ops \<Rightarrow> time \<Rightarrow> key \<Rightarrow> dec_opts option \<Rightarrow> 's shield \<Rightarrow> (string + unit) \<times> 's shield" where
  "shield_decrement ops now k d s =
     (let s1 = sh_uncache k s; (r, i) = op_decrement ops now k d (sh_inner s1)
      in (r, s1\<lparr>sh_inner := i\<rparr>))"

definition shield_reset :: "'s store_ops \<Rightarrow> time \<Rightarrow> key \<Rightarrow> 's shield \<Rightarrow> (string + unit) \<times> 's shield" where
  "shield_reset ops now k s =
     (let s1 = sh_uncache k s; (r, i) = op_reset ops now k (sh_inner s1) in (r, s1\<lparr>sh_inner := i\<rparr>))"

definition shield_delete :: "'s store_ops \<Rightarrow> time \<Rightarrow> key \<Rightarrow> 's shield \<Rightarrow> (string + bool) \<times> 's shield" where
  "shield_delete ops now k s =
     (let s1 = sh_uncache k s
      in case op_delete ops of
           Some del \<Rightarrow> (let (r, i) = del now k (sh_inner s1) in (r, s1\<lparr>sh_inner := i\<rparr>))
         | None \<Rightarrow>
             (case op_reset ops now k (sh_inner s1) of
                (Inl e, i) \<Rightarrow> (Inl e, s1\<lparr>sh_inner := i\<rparr>)
              | (Inr _, i) \<Rightarrow> (Inr True, s1\<lparr>sh_inner := i\<rparr>)))"

definition shield_get :: "'s store_ops \<Rightarrow> time \<Rightarrow> key \<Rightarrow> 's shield \<Rightarrow> (string + rl_result option) \<times> 's shield" where
  "shield_get ops now k s =
     (case map_of (sh_cache s) k of
        Some entry \<Rightarrow>
          if now < expiresAt entry then (Inr (Some (cachedResult entry)), s)
          else (case op_get ops of
                  Some g \<Rightarrow> (let (r, i) = g now k (sh_inner s) in (r, s\<lparr>sh_inner := i\<rparr>))
                | None \<Rightarrow> (Inr None, s))
      | None \<Rightarrow>
          (case op_get ops of
             Some g \<Rightarrow> (let (r, i) = g now k (sh_inner s) in (r, s\<lparr>sh_inner := i\<rparr>))
           | None \<Rightarrow> (Inr None, s)))"

definition shield_set ::
  "'s store_ops \<Rightarrow> time \<Rightarrow> key \<Rightarrow> int \<Rightarrow> time option \<Rightarrow> 's shield \<Rightarrow> (string + rl_result) \<times> 's shield" where
  "shield_set ops now k hits ex s =
     (let s1 = sh_uncache k s
      in case op_set ops of
           Some st \<Rightarrow> (let (r, i) = st now k hits ex (sh_inner s1) in (r, s1\<lparr>sh_inner := i\<rparr>))
         | None \<Rightarrow> (Inl ''Inner store does not support set()'', s1))"

text \<open>Deleting from a \<open>Map\<close> while iterating over it visits every entry once.\<close>

definition shield_sweep :: "time \<Rightarrow> 's shield \<Rightarrow> nat \<times> 's shield" where
  "shield_sweep now s =
     (let expired = filter (\<lambda>(k, e). now \<ge> expiresAt e) (sh_cache s)
      in (length expired,
          s\<lparr>sh_cache := filter (\<lambda>(k, e). \<not> now \<ge> expiresAt e) (sh_cache s),
            totalKeysExpired := totalKeysExpired s + length expired,
            sh_events := sh_events s @ map (\<lambda>(k, e). ShieldExpire k) expired\<rparr>))"

record shield_metrics =
  sm_blockedKeyCount :: nat
  sm_storeCallsSaved :: nat
  sm_totalKeysBlocked :: nat
  sm_totalKeysExpired :: nat
  sm_totalKeysEvicted :: nat
  sm_hitRate :: rat
  sm_storeCalls :: nat

definition shield_getMetrics :: "'s shield \<Rightarrow> shield_metrics" where
  "shield_getMetrics s =
     (let total = storeCallsSaved s + storeCalls s
      in \<lparr>sm_blockedKeyCount = length (sh_cache s), sm_storeCallsSaved = storeCallsSaved s,
          sm_totalKeysBlocked = totalKeysBlocked s, sm_totalKeysExpired = totalKeysExpired s,
          sm_totalKeysEvicted = totalKeysEvicted s,
          sm_hitRate = (if total > 0 then of_nat (storeCallsSaved s) / of_nat total else 0),
          sm_storeCalls = storeCalls s\<rparr>)"

definition shield_resetMetrics :: "'s shield \<Rightarrow> 's shield" where
  "shield_resetMetrics s =
     s\<lparr>storeCallsSaved := 0, storeCalls := 0, totalKeysBlocked := 0, totalKeysExpired := 0,
       totalKeysEvicted := 0\<rparr>"

definition isShielded :: "time \<Rightarrow> 's shield \<Rightarrow> key \<Rightarrow> bool" where
  "isShielded now s k = (case map_of (sh_cache s) k of None \<Rightarrow> False | Some e \<Rightarrow> now < expiresAt e)"

definition getShieldedKeys :: "time \<Rightarrow> 's shield \<Rightarrow> (key \<times> time \<times> int) list" where
  "getShieldedKeys now s =
     map (\<lambda>(k, e). (k, expiresAt e, totalHits (cachedResult e)))
       (filter (\<lambda>(k, e). now < expiresAt e) (sh_cache s))"

definition unshield :: "key \<Rightarrow> 's shield \<Rightarrow> bool \<times> 's shield" where
  "unshield k s = (jsmap_has (sh_cache s) k, sh_uncache k s)"

definition clearShield :: "'s shield \<Rightarrow> 's shield" where
  "clearShield s = s\<lparr>sh_cache := []\<rparr>"

definition shield_getActiveKeys ::
  "'s store_ops \<Rightarrow> time \<Rightarrow> 's shield \<Rightarrow> (key \<times> active_entry) list \<times> 's shield" where
  "shield_getActiveKeys ops now s =
     (let (innerKeys, i) = (case op_getActiveKeys ops of
            None \<Rightarrow> ([], sh_inner s) | Some g \<Rightarrow> g now (sh_inner s));
          merged = fold (\<lambda>(k, v) m. AList.update k v m) innerKeys [];
          live = filter (\<lambda>(k, e). \<not> now \<ge> expiresAt e) (sh_cache s)
      in (fold (\<lambda>(k, e) m. AList.update k
              \<lparr>ae_totalHits = totalHits (cachedResult e), ae_resetTime = resetTime (cachedResult e)\<rparr> m)
            live merged,
          s\<lparr>sh_inner := i\<rparr>))"

definition shield_resetAll :: "'s store_ops \<Rightarrow> 's shield \<Rightarrow> 's shield" where
  "shield_resetAll ops s =
     (let s1 = clearShield s
      in case op_resetAll ops of None \<Rightarrow> s1 | Some f \<Rightarrow> s1\<lparr>sh_inner := f (sh_inner s1)\<rparr>)"

definition shield_shutdown :: "'s store_ops \<Rightarrow> 's shield \<Rightarrow> (string + unit) \<times> 's shield" where
  "shield_shutdown ops s =
     (let s1 = s\<lparr>sweepTimer := False, sh_cache := []\<rparr>; (r, i) = op_shutdown ops (sh_inner s1)
      in (r, s1\<lparr>sh_inner := i\<rparr>))"

text \<open>The shield's own method table. Its callers never read the \<open>shielded\<close> flag.\<close>

definition shield_ops :: "'s store_ops \<Rightarrow> 's shield store_ops" where
  "shield_ops ops =
     \<lparr>op_increment = (\<lambda>now k o' s. let (r, s') = shield_increment ops now k o' s in (map_sum id fst r, s')),
      op_decrement = shield_decrement ops,
      op_reset = shield_reset ops,
      op_shutdown = shield_shutdown ops,
      op_get = Some (shield_get ops),
      op_set = Some (shield_set ops),
      op_delete = Some (shield_delete ops),
      op_getActiveKeys = Some (shield_getActiveKeys ops),
      op_resetAll = Some (shield_resetAll ops),
      op_unshield = Some (\<lambda>k s. snd (unshield k s))\<rparr>"


section \<open>The cache\<close>

definition shield_inv :: "'s shield \<Rightarrow> bool" where
  "shield_inv s \<longleftrightarrow> jsmap_ok (sh_cache s) \<and>
     (maxBlockedKeys s > 0 \<longrightarrow> int (length (sh_cache s)) \<le> maxBlockedKeys s) \<and>
     (\<forall>(k, e) \<in> set (sh_cache s). isBlocked (cachedResult e))"

lemma sh_uncache_simps [simp]:
  "sh_cache (sh_uncache k s) = AList.delete k (sh_cache s)" "sh_inner (sh_uncache k s) = sh_inner s"
  "maxBlockedKeys (sh_uncache k s) = maxBlockedKeys s" "blockOnConsumed (sh_uncache k s) = blockOnConsumed s"
  "blockDurationMs (sh_uncache k s) = blockDurationMs s"
  by (simp_all add: sh_uncache_def)

lemma sh_make_room_simps [simp]:
  "sh_inner (sh_make_room s) = sh_inner s" "maxBlockedKeys (sh_make_room s) = maxBlockedKeys s"
  "blockOnConsumed (sh_make_room s) = blockOnConsumed s" "blockDurationMs (sh_make_room s) = blockDurationMs s"
  by (auto simp: sh_make_room_def split: list.splits)

lemma sh_make_room_cache:
  "jsmap_ok (sh_cache s) \<Longrightarrow> sh_cache (sh_make_room s) =
     (if maxBlockedKeys s > 0 \<and> int (length (sh_cache s)) \<ge> maxBlockedKeys s then tl (sh_cache s) else sh_cache s)"
  by (auto simp: sh_make_room_def delete_head split: list.splits)

lemma jsmap_ok_tl [simp]: "jsmap_ok m \<Longrightarrow> jsmap_ok (tl m)"
  by (cases m) (auto simp: jsmap_ok_def)

lemma cacheBlock_inv:
  assumes "shield_inv s" shows "shield_inv (cacheBlock now k r s)"
proof -
  have ok: "jsmap_ok (sh_cache s)" using assms by (simp add: shield_inv_def)
  have "set (sh_cache (sh_make_room s)) \<subseteq> set (sh_cache s)"
    by (auto simp: sh_make_room_cache [OF ok] dest: list.set_sel(2) [rotated])
  moreover have "int (length (sh_cache (sh_make_room s))) < maxBlockedKeys s" if "maxBlockedKeys s > 0"
    using that assms by (auto simp: sh_make_room_cache [OF ok] shield_inv_def)
  ultimately show ?thesis using assms
    by (auto simp: cacheBlock_def shield_inv_def Let_def length_update sh_make_room_cache
        dest!: set_updateD split: if_splits)
qed

lemma shield_lookup_inv: "shield_inv s \<Longrightarrow> shield_inv (snd (shield_lookup now k s))"
  using length_delete_le [of k "sh_cache s"]
  by (auto simp: shield_inv_def shield_lookup_def dest!: set_deleteD split: option.splits)

lemma shield_finish_inv: "shield_inv s \<Longrightarrow> shield_inv (shield_finish now k r s)"
  by (simp add: shield_finish_def cacheBlock_inv)

lemma shield_filter_inv:
  "shield_inv s \<Longrightarrow> set c \<subseteq> set (sh_cache s) \<Longrightarrow> jsmap_ok c \<Longrightarrow> length c \<le> length (sh_cache s) \<Longrightarrow>
   shield_inv (s\<lparr>sh_cache := c\<rparr>)"
  by (auto simp: shield_inv_def)

lemma shield_uncache_inv: "shield_inv s \<Longrightarrow> shield_inv (sh_uncache k s)"
  unfolding sh_uncache_def
  by (rule shield_filter_inv) (auto simp: shield_inv_def length_delete_le dest: set_deleteD)

lemma shield_sweep_inv:
  assumes "shield_inv s" shows "shield_inv (snd (shield_sweep now s))"
proof -
  have "shield_inv (s\<lparr>sh_cache := filter (\<lambda>(k, e). \<not> now \<ge> expiresAt e) (sh_cache s)\<rparr>)"
    by (rule shield_filter_inv [OF assms]) (use assms in \<open>auto simp: shield_inv_def\<close>)
  then show ?thesis by (auto simp: shield_sweep_def shield_inv_def Let_def)
qed

text \<open>What can happen to a shield, with the two halves of an \<open>increment\<close> as separate events and the
  inner store changing in any way in between.\<close>

datatype 's shield_call =
    Lookup time key
  | Finish time key rl_result
  | Uncache key
  | Sweep time
  | Clear
  | ClearMetrics
  | InnerStep 's

primrec shield_exec :: "'s shield_call \<Rightarrow> 's shield \<Rightarrow> 's shield" where
  "shield_exec (Lookup now k) s = snd (shield_lookup now k s)"
| "shield_exec (Finish now k r) s = shield_finish now k r s"
| "shield_exec (Uncache k) s = snd (unshield k s)"
| "shield_exec (Sweep now) s = snd (shield_sweep now s)"
| "shield_exec Clear s = clearShield s"
| "shield_exec ClearMetrics s = shield_resetMetrics s"
| "shield_exec (InnerStep i) s = s\<lparr>sh_inner := i\<rparr>"

lemma shield_exec_inv: "shield_inv s \<Longrightarrow> shield_inv (shield_exec c s)"
  by (cases c)
     (simp_all add: shield_lookup_inv shield_finish_inv shield_uncache_inv shield_sweep_inv unshield_def,
      simp_all add: shield_inv_def clearShield_def shield_resetMetrics_def)

lemma new_shield_inv: "new_InMemoryShield i opts = Inr s \<Longrightarrow> shield_inv s"
  by (auto simp: new_InMemoryShield_def shield_inv_def Let_def split: if_splits)

section \<open>A shielded store keeps the store contract\<close>

lemma shield_finish_inner [simp]: "sh_inner (shield_finish now k r s) = sh_inner s"
  by (simp add: shield_finish_def cacheBlock_def Let_def)

lemma shield_lookup_inner: "shield_lookup now k s = (r, s1) \<Longrightarrow> sh_inner s1 = sh_inner s"
  by (auto simp: shield_lookup_def split: option.splits if_splits)

lemma shield_lookup_inner_snd [simp]: "sh_inner (snd (shield_lookup now k s)) = sh_inner s"
  by (rule shield_lookup_inner [OF surjective_pairing])

lemma shield_hit_blocked: "shield_inv s \<Longrightarrow> shield_lookup now k s = (Some r, s1) \<Longrightarrow> isBlocked r"
  by (auto simp: shield_lookup_def shield_inv_def dest!: map_of_SomeD split: option.splits if_splits)

lemma shield_increment_cases:
  assumes "op_increment (shield_ops ops) now k o' s = (res, s')"
  obtains (hit) r s1 where "shield_lookup now k s = (Some r, s1)" "res = Inr r" "s' = s1"
    | (miss) s1 i where "shield_lookup now k s = (None, s1)" "op_increment ops now k o' (sh_inner s) = (res, i)"
        "s' = (case res of Inl _ \<Rightarrow> s1\<lparr>sh_inner := i\<rparr> | Inr r \<Rightarrow> shield_finish now k r (s1\<lparr>sh_inner := i\<rparr>))"
  using assms
  by (auto simp: shield_ops_def shield_increment_def shield_lookup_inner Let_def
      split: prod.splits option.splits sum.splits)

definition shielded_inv :: "('s \<Rightarrow> bool) \<Rightarrow> 's shield \<Rightarrow> bool" where
  "shielded_inv iv s \<longleftrightarrow> shield_inv s \<and> iv (sh_inner s)"

definition shielded_usage :: "('s \<Rightarrow> time \<Rightarrow> key \<Rightarrow> int) \<Rightarrow> 's shield \<Rightarrow> time \<Rightarrow> key \<Rightarrow> int" where
  "shielded_usage us s now k = us (sh_inner s) now k"

locale shield_host = rate_limit_store
begin

lemma shielded_increment_inv:
  assumes "shielded_inv inv s" "op_increment (shield_ops ops) now k o' s = (res, s')"
  shows "shielded_inv inv s'"
  using assms(2)
proof (cases rule: shield_increment_cases)
  case (hit r s1)
  then show ?thesis using assms(1) shield_lookup_inv [of s now k] shield_lookup_inner [OF hit(1)]
    by (simp add: shielded_inv_def)
next
  case (miss s1 i)
  have "inv i" using assms(1) increment_inv [OF _ miss(2)] by (simp add: shielded_inv_def)
  moreover have "shield_inv (s1\<lparr>sh_inner := i\<rparr>)"
    using assms(1) shield_lookup_inv [of s now k] miss(1) by (simp add: shielded_inv_def shield_inv_def)
  ultimately show ?thesis by (simp add: miss(3) shielded_inv_def shield_finish_inv split: sum.splits)
qed

lemma shielded_undo:
  assumes "shielded_inv inv s" "op_increment (shield_ops ops) now k o' s = (Inr r, s1)" "\<not> isBlocked r"
    and "op_decrement (shield_ops ops) now k
      (Some ((matchingDecrementOptions (opt_cost o'))\<lparr>do_removeNewest := True\<rparr>)) s1 = (res, s2)"
  shows "res = Inr () \<and> shielded_usage usage s2 now k = shielded_usage usage s now k"
  using assms(2)
proof (cases rule: shield_increment_cases)
  case (hit r' s')
  then show ?thesis using assms(1,3) shield_hit_blocked [OF _ hit(1)] by (auto simp: shielded_inv_def)
next
  case (miss s' i)
  have "sh_inner s1 = i" by (simp add: miss(3))
  moreover have "inv (sh_inner s)" using assms(1) by (simp add: shielded_inv_def)
  ultimately show ?thesis
    using assms(4) undo_restores [OF _ miss(2) assms(3)]
    by (auto simp: shield_ops_def shield_decrement_def shielded_usage_def Let_def split: prod.splits)
qed

end

sublocale shield_host \<subseteq> shielded: rate_limit_store "shield_ops ops" "shielded_inv inv" "shielded_usage usage"
proof
  fix s now k o'
  assume "shielded_inv inv s"
  then obtain r i where "op_increment ops now k o' (sh_inner s) = (Inr r, i)"
    unfolding shielded_inv_def using increment_answers by blast
  then show "\<exists>r s'. op_increment (shield_ops ops) now k o' s = (Inr r, s')"
    by (auto simp: shield_ops_def shield_increment_def case_prod_beta split: option.splits)
next
  fix s now k d s' and res :: "string + unit"
  assume "shielded_inv inv s" "op_decrement (shield_ops ops) now k d s = (res, s')"
  then show "shielded_inv inv s'"
    using decrement_inv shield_uncache_inv [of s k]
    by (auto simp: shield_ops_def shield_decrement_def shielded_inv_def Let_def split: prod.splits)
       (simp add: shield_inv_def)
qed (erule (1) shielded_increment_inv, erule (3) shielded_undo)

interpretation mem_sh: shield_host mem_ops mem_inv mem_usage
  by unfold_locales


section \<open>A shielded answer is the answer the in-memory store would give\<close>

text \<open>Under an unbounded in-memory store whose calls come in time order, the time stamps of a key are
  sorted and not in the future.\<close>

definition entry_timely :: "time \<Rightarrow> key_state option \<Rightarrow> bool" where
  "entry_timely lst e =
     (case e of Some (Sliding ts w) \<Rightarrow> sorted ts \<and> (\<forall>t \<in> set ts. t \<le> lst) | _ \<Rightarrow> True)"

definition stamps_timely :: "time \<Rightarrow> mem_store \<Rightarrow> bool" where
  "stamps_timely lst s \<longleftrightarrow> (\<forall>k. entry_timely lst (map_of (ms_state s) k))"

lemma entry_timely_None [simp]: "entry_timely lst None"
  by (simp add: entry_timely_def)

lemma entry_timely_mono: "entry_timely a e \<Longrightarrow> a \<le> b \<Longrightarrow> entry_timely b e"
  by (fastforce simp: entry_timely_def split: option.splits key_state.splits)

lemma stamps_timely_mono: "stamps_timely a s \<Longrightarrow> a \<le> b \<Longrightarrow> stamps_timely b s"
  by (auto simp: stamps_timely_def intro: entry_timely_mono)

lemma sorted_replicate_int: "sorted (replicate n (x :: int))"
  by (induction n) auto

lemma live_stamps_timely:
  "entry_timely lst e \<Longrightarrow> sorted (live_stamps w now e) \<and> (\<forall>t \<in> set (live_stamps w now e). t \<le> lst)"
  by (auto simp: entry_timely_def live_stamps_def sorted_filter [of "\<lambda>x. x", simplified]
      split: option.splits key_state.splits)

lemma entry_increment_timely:
  assumes "entry_timely lst e" "lst \<le> now"
  shows "entry_timely now (Some (snd (entry_increment s now o' e)))"
  using live_stamps_timely [OF assms(1), of "ms_windowMs s" now] assms(2)
  by (auto simp: entry_timely_def entry_increment_def Let_def case_prod_beta sorted_append
      sorted_replicate_int split: strategy.splits)

lemma mem_unbounded_frame:
  assumes "ms_maxKeys s = 0" "k' \<noteq> k"
  shows "map_of (ms_state (mem_decrement k d s)) k' = map_of (ms_state s) k'"
    and "map_of (ms_state (mem_reset now k s)) k' = map_of (ms_state s) k'"
    and "map_of (ms_state (snd (mem_delete k s))) k' = map_of (ms_state s) k'"
    and "map_of (ms_state (snd (mem_set now k n ex s))) k' = map_of (ms_state s) k'"
  using assms
  by (auto simp: mem_decrement_def decrementSliding_def decrementSlidingFromEnd_def decrementFixed_def
      decrementTokenBucket_def mem_reset_def mem_delete_def mem_set_def setSliding_def setFixed_def
      setTokenBucket_def setSlidingState_def ensureRoomForNewKey_def Let_def map_of_delete_if
      split: strategy.splits option.splits)

lemma stamps_timely_update:
  assumes "stamps_timely a s" "\<And>k'. k' \<noteq> k \<Longrightarrow> map_of (ms_state s') k' = map_of (ms_state s) k'"
    and "entry_timely a (map_of (ms_state s') k)"
  shows "stamps_timely a s'"
  unfolding stamps_timely_def
proof
  fix k'
  show "entry_timely a (map_of (ms_state s') k')"
    using assms by (cases "k' = k") (auto simp: stamps_timely_def)
qed

lemma decrement_entry_timely:
  assumes "entry_timely a (map_of (ms_state s) k)"
  shows "entry_timely a (map_of (ms_state (mem_decrement k d s)) k)"
proof (cases "getSlidingState s k")
  case None
  with assms show ?thesis
    by (auto simp: mem_decrement_def decrementSliding_def decrementSlidingFromEnd_def decrementFixed_def
        decrementTokenBucket_def Let_def split: strategy.splits option.splits)
       (simp_all add: entry_timely_def)
next
  case (Some p)
  then obtain ts w where "p = (ts, w)" "map_of (ms_state s) k = Some (Sliding ts w)"
    by (auto simp: getSlidingState_def split: option.splits key_state.splits)
  with Some assms show ?thesis
    by (auto simp: mem_decrement_def decrementSliding_def decrementSlidingFromEnd_def decrementFixed_def
        decrementTokenBucket_def getFixedEntry_def getBucketEntry_def setSlidingState_def Let_def
        split: strategy.splits)
       (auto simp: entry_timely_def sorted_wrt_drop sorted_wrt_take dest: in_set_dropD in_set_takeD)
qed

lemma mem_unbounded_timely:
  assumes "ms_maxKeys s = 0" "stamps_timely lst s" "lst \<le> now"
  shows "stamps_timely now (mem_decrement k d s)"
    and "stamps_timely now (mem_reset now k s)"
    and "stamps_timely now (snd (mem_delete k s))"
    and "stamps_timely now (snd (mem_set now k n ex s))"
proof -
  have old: "stamps_timely now s" using stamps_timely_mono [OF assms(2,3)] .
  note frame = mem_unbounded_frame [OF assms(1)]
  show "stamps_timely now (mem_decrement k d s)"
    using old stamps_timely_update [OF old frame(1)] decrement_entry_timely by (simp add: stamps_timely_def)
  show "stamps_timely now (mem_reset now k s)"
    by (rule stamps_timely_update [OF old frame(2)])
       (auto simp: mem_reset_def entry_timely_def split: strategy.splits)
  show "stamps_timely now (snd (mem_delete k s))"
    by (rule stamps_timely_update [OF old frame(3)]) (auto simp: mem_delete_def)
  show "stamps_timely now (snd (mem_set now k n ex s))"
    by (rule stamps_timely_update [OF old frame(4)])
       (auto simp: mem_set_def setSliding_def setFixed_def setTokenBucket_def Let_def entry_timely_def
         sorted_replicate_int split: strategy.splits)
qed

lemma mem_increment_timely:
  assumes "mem_inv s" "ms_maxKeys s = 0" "stamps_timely lst s" "lst \<le> now"
    and inc: "mem_increment now k o' s = (r, s')"
  shows "stamps_timely now s'"
  unfolding stamps_timely_def
proof
  fix k'
  have room: "has_room s k" using assms(2) by (simp add: has_room_def)
  show "entry_timely now (map_of (ms_state s') k')"
  proof (cases "k' = k")
    case True
    then show ?thesis
      using mem_increment_entry(2) [OF assms(1) inc] entry_increment_timely [OF _ assms(4)] assms(3)
      by (auto simp: stamps_timely_def)
  next
    case False
    then show ?thesis
      using mem_increment_frame [OF mem_inv_jsmap [OF assms(1)] inc False room] assms(3,4)
      by (auto simp: stamps_timely_def intro: entry_timely_mono)
  qed
qed

lemma mem_get_timely: "stamps_timely lst s \<Longrightarrow> lst \<le> now \<Longrightarrow> stamps_timely now (snd (mem_get now k s))"
  using stamps_timely_mono [of lst s now]
  by (auto simp: mem_get_def getSlidingReadOnly_def getFixedReadOnly_def getTokenBucketReadOnly_def
      stamps_timely_def map_of_clear Let_def
      split: strategy.splits option.splits list.splits prod.splits)

lemma purgeSlidingTrim_timely:
  assumes "stamps_timely lst s" shows "stamps_timely lst (purgeSlidingTrim now k s)"
proof (cases "getSlidingState s k")
  case (Some p)
  then obtain ts w where p: "p = (ts, w)" "map_of (ms_state s) k = Some (Sliding ts w)"
    by (auto simp: getSlidingState_def split: option.splits key_state.splits)
  then have "sorted ts" "\<forall>t \<in> set ts. t \<le> lst"
    using assms by (auto simp: stamps_timely_def entry_timely_def split: option.splits key_state.splits)
  then have "entry_timely lst (Some (Sliding (filter (\<lambda>t. t > now - ms_windowMs s) ts) w))"
    by (simp add: entry_timely_def sorted_wrt_filter)
  with assms Some p show ?thesis
    by (auto simp: purgeSlidingTrim_def setSlidingState_def stamps_timely_def map_of_delete_if Let_def)
qed (use assms in \<open>simp add: purgeSlidingTrim_def\<close>)

lemma purge_step_timely:
  "stamps_timely lst s \<Longrightarrow> stamps_timely lst (purgeSlidingWall now k s)"
  "stamps_timely lst s \<Longrightarrow> stamps_timely lst (purgeFixedKey now k s)"
  "stamps_timely lst s \<Longrightarrow> stamps_timely lst (purgeBucketKey now k s)"
  by (auto simp: stamps_timely_def purgeSlidingWall_def map_of_clear purgeFixedKey_def purgeBucketKey_def
      map_of_delete_if Let_def split: option.splits)

lemma purgeExpired_timely: "stamps_timely lst s \<Longrightarrow> stamps_timely lst (purgeExpired now s)"
  by (auto simp: purgeExpired_def purgeSliding_def purgeFixed_def purgeBuckets_def Let_def
      split: strategy.splits intro!: fold_keeps [of "stamps_timely lst"] purge_step_timely
      purgeSlidingTrim_timely)

text \<open>An increment that reports at least the quota leaves the key at its quota until the reported reset
  time. (For buckets: with unit costs; see \<open>shield_overblocks\<close> for what happens otherwise.)\<close>

definition quota_full :: "mem_store \<Rightarrow> key \<Rightarrow> time \<Rightarrow> time \<Rightarrow> int \<Rightarrow> bool" where
  "quota_full s k from until q \<longleftrightarrow> (\<forall>now. from \<le> now \<and> now < until \<longrightarrow> q \<le> mem_usage s now k)"

lemma quota_full_mono: "quota_full s k a u q \<Longrightarrow> a \<le> b \<Longrightarrow> quota_full s k b u q"
  by (auto simp: quota_full_def)

lemma sliding_stays_full:
  assumes "sorted ts" "ts \<noteq> []" "t < hd ts + w"
  shows "live_stamps w t (Some (Sliding ts None)) = ts"
  using assms by (cases ts) (auto simp: live_stamps_def filter_id_conv)

lemma mem_increment_fills:
  assumes inv: "mem_inv s" and timely: "entry_timely lst (map_of (ms_state s) k)" "lst \<le> now"
    and inc: "mem_increment now k o' s = (r, s')"
    and full: "q \<le> totalHits r" "q \<le> mem_limit s None"
    and unit: "ms_strategy s = TOKEN_BUCKET \<Longrightarrow> eff_cost o' = 1"
  shows "quota_full s' k now (resetTime r) q"
  unfolding quota_full_def
proof (intro allI impI)
  fix t assume t: "now \<le> t \<and> t < resetTime r"
  let ?e = "map_of (ms_state s) k"
  note ent = mem_increment_entry [OF inv inc]
  have us: "mem_usage s' t k = entry_usage s t (Some (snd (entry_increment s now o' ?e)))"
    using ent(2) entry_usage_cong [OF mem_increment_inv(2) [OF inv inc]] by (simp add: mem_usage_def)
  show "q \<le> mem_usage s' t k"
  proof (cases "ms_strategy s")
    case SLIDING_WINDOW
    let ?ts = "live_stamps (ms_windowMs s) now ?e @ replicate (nat (eff_cost o')) now"
    have "sorted ?ts" "?ts \<noteq> []"
      using live_stamps_timely [OF timely(1), of "ms_windowMs s" now] timely(2)
      by (auto simp: sorted_append sorted_replicate_int)
    then have "live_stamps (ms_windowMs s) t (Some (Sliding ?ts None)) = ?ts"
      by (rule sliding_stays_full) (use t ent(1) SLIDING_WINDOW in \<open>simp add: entry_increment_def Let_def\<close>)
    with SLIDING_WINDOW full(1) ent(1) show ?thesis
      by (simp add: us entry_usage_def entry_increment_def Let_def)
  next
    case FIXED_WINDOW
    obtain c rt where "live_fixed (ms_windowMs s) now ?e = (c, rt)" by fastforce
    with FIXED_WINDOW full(1) ent(1) t show ?thesis
      by (simp add: us entry_usage_def entry_increment_def live_fixed_def)
  next
    case TOKEN_BUCKET
    obtain n l where nl: "live_bucket s now ?e = (n, l)" by fastforce
    have n: "0 \<le> n" using live_bucket_range(1) [OF inv TOKEN_BUCKET, of now k] nl by simp
    have i: "1 \<le> ms_refillIntervalMs s" using inv TOKEN_BUCKET by (simp add: mem_inv_def cfg_ok_def)
    have "t < l + ms_refillIntervalMs s"
      using t ent(1) TOKEN_BUCKET nl by (auto simp: entry_increment_def split: if_splits)
    then have "(t - l) div ms_refillIntervalMs s \<le> 0"
      using i by (cases "t < l") (auto simp: div_neg_pos_less0 order_less_imp_le)
    then have "refillBucketStateForNow s m l t = (m, l)" for m by (simp add: refillBucketStateForNow_def)
    with TOKEN_BUCKET full ent(1) nl n unit [OF TOKEN_BUCKET] show ?thesis
      by (auto simp: us entry_usage_def entry_increment_def live_bucket_def mem_limit_def split: if_splits)
  qed
qed


text \<open>Calls on a shielded in-memory store; \<open>ShPurge\<close> is the inner store's timer.\<close>

datatype sh_call =
    ShInc (sh_time: time) key "inc_opts option"
  | ShDec (sh_time: time) key "dec_opts option"
  | ShReset (sh_time: time) key
  | ShDel (sh_time: time) key
  | ShSet (sh_time: time) key int "time option"
  | ShGet (sh_time: time) key
  | ShSweep (sh_time: time)
  | ShPurge (sh_time: time)

primrec sh_exec :: "sh_call \<Rightarrow> mem_store shield \<Rightarrow> mem_store shield" where
  "sh_exec (ShInc now k o') s = snd (shield_increment mem_ops now k o' s)"
| "sh_exec (ShDec now k d) s = snd (shield_decrement mem_ops now k d s)"
| "sh_exec (ShReset now k) s = snd (shield_reset mem_ops now k s)"
| "sh_exec (ShDel now k) s = snd (shield_delete mem_ops now k s)"
| "sh_exec (ShSet now k n ex) s = snd (shield_set mem_ops now k n ex s)"
| "sh_exec (ShGet now k) s = snd (shield_get mem_ops now k s)"
| "sh_exec (ShSweep now) s = snd (shield_sweep now s)"
| "sh_exec (ShPurge now) s = s\<lparr>sh_inner := purgeExpired now (sh_inner s)\<rparr>"

definition sh_unit_cost :: "mem_store \<Rightarrow> sh_call \<Rightarrow> bool" where
  "sh_unit_cost i c = (ms_strategy i = TOKEN_BUCKET \<longrightarrow>
     (case c of ShInc _ _ o' \<Rightarrow> eff_cost o' = 1 | _ \<Rightarrow> True))"

definition shield_sound :: "time \<Rightarrow> mem_store shield \<Rightarrow> bool" where
  "shield_sound lst s \<longleftrightarrow> shield_inv s \<and> mem_inv (sh_inner s) \<and> ms_maxKeys (sh_inner s) = 0 \<and>
     stamps_timely lst (sh_inner s) \<and> (\<forall>d. blockDurationMs s = Some d \<longrightarrow> d \<le> 0) \<and>
     mem_limit (sh_inner s) None \<le> blockOnConsumed s \<and>
     (\<forall>(k, e) \<in> set (sh_cache s).
        quota_full (sh_inner s) k lst (expiresAt e) (mem_limit (sh_inner s) None))"

lemma mem_limit_cong: "mem_cfg i' = mem_cfg i \<Longrightarrow> mem_limit i' o' = mem_limit i o'"
  by (auto simp: mem_limit_def eff_cap_def dest!: mem_cfg_eqD)

lemma quota_full_frame:
  assumes "mem_cfg i' = mem_cfg i" "map_of (ms_state i') k = map_of (ms_state i) k"
  shows "quota_full i' k a u q = quota_full i k a u q"
  using entry_usage_cong [OF assms(1)] assms(2) by (simp add: quota_full_def mem_usage_def)

text \<open>One step that changes the inner store at \<open>k\<close> only and drops \<open>k\<close> from the cache, or changes
  nothing that can be seen later, keeps the cache sound.\<close>

lemma shield_sound_uncache:
  assumes s: "shield_sound lst s" and t: "lst \<le> now" and i: "mem_inv i" "mem_cfg i = mem_cfg (sh_inner s)"
    "stamps_timely now i" "\<And>k'. k' \<noteq> k \<Longrightarrow> map_of (ms_state i) k' = map_of (ms_state (sh_inner s)) k'"
  shows "shield_sound now ((sh_uncache k s)\<lparr>sh_inner := i\<rparr>)"
proof -
  have "quota_full i k' now (expiresAt e) (mem_limit i None)"
    if "(k', e) \<in> set (AList.delete k (sh_cache s))" for k' e
  proof -
    have "k' \<noteq> k" "(k', e) \<in> set (sh_cache s)" using set_deleteD [OF that] by auto
    then show ?thesis
      using s t i(4) [of k'] quota_full_frame [OF i(2), of k'] mem_limit_cong [OF i(2)] quota_full_mono
      by (fastforce simp: shield_sound_def)
  qed
  moreover have "shield_inv ((sh_uncache k s)\<lparr>sh_inner := i\<rparr>)"
    using shield_uncache_inv [of s k] s by (simp add: shield_sound_def shield_inv_def)
  ultimately show ?thesis
    using s i mem_cfg_eqD [OF i(2)] mem_limit_cong [OF i(2)]
    by (auto simp: shield_sound_def)
qed

lemma shield_sound_invisible:
  assumes s: "shield_sound lst s" and t: "lst \<le> now" and inv: "invisible_from now (sh_inner s) i"
    and ts: "stamps_timely now i"
  shows "shield_sound now (s\<lparr>sh_inner := i\<rparr>)"
proof -
  have cfg: "mem_cfg i = mem_cfg (sh_inner s)" and mi: "mem_inv i" using inv by (auto simp: invisible_from_def)
  have "quota_full i k now u q" if "quota_full (sh_inner s) k lst u q" for k u q
    using that inv t by (auto simp: quota_full_def invisible_from_def)
  then have "\<forall>(k, e) \<in> set (sh_cache s). quota_full i k now (expiresAt e) (mem_limit i None)"
    using s mem_limit_cong [OF cfg] by (fastforce simp: shield_sound_def)
  then show ?thesis
    using s ts mi mem_cfg_eqD [OF cfg] mem_limit_cong [OF cfg] by (simp add: shield_sound_def shield_inv_def)
qed

lemma mem_get_invisible:
  assumes "mem_inv s" shows "invisible_from now s (snd (mem_get now k s))"
proof -
  have touch: "invisible_from now s s1 \<Longrightarrow> invisible_from now s (touchKey k s1)" for s1
    by (auto simp: invisible_from_def)
  have clear: "ms_strategy s = SLIDING_WINDOW \<Longrightarrow>
      invisible_from now s (clearSlidingWallExpiryIfExpired k now s)"
    using invisible_wall [OF assms] by (simp add: purgeSlidingWall_def)
  show ?thesis
    using clear touch invisible_refl [OF assms]
    by (auto simp: mem_get_def getSlidingReadOnly_def getFixedReadOnly_def getTokenBucketReadOnly_def
        Let_def case_prod_beta split: strategy.splits option.splits list.splits)
qed

lemma mem_write_cfg:
  "mem_cfg (snd (mem_set now k n ex s)) = mem_cfg s" "mem_cfg (mem_reset now k s) = mem_cfg s"
  "mem_cfg (snd (mem_delete k s)) = mem_cfg s"
  by (auto simp: mem_set_def setSliding_def setFixed_def setTokenBucket_def mem_reset_def mem_delete_def
      Let_def split: strategy.splits)

lemma shield_sound_lookup:
  assumes "shield_sound lst s" "lst \<le> now"
  shows "shield_sound now (snd (shield_lookup now k s))"
proof -
  have base: "shield_sound now s"
    using shield_sound_invisible [OF assms invisible_refl] assms stamps_timely_mono
    by (fastforce simp: shield_sound_def)
  then show ?thesis
    using shield_lookup_inv [of s now k]
    by (auto simp: shield_sound_def shield_lookup_def dest: set_deleteD split: option.splits)
qed

lemma shield_sound_cacheBlock:
  assumes s: "shield_sound now s" and full: "quota_full (sh_inner s) k now (resetTime r) (mem_limit (sh_inner s) None)"
  shows "shield_sound now (cacheBlock now k r s)"
proof -
  have ok: "jsmap_ok (sh_cache s)" using s by (simp add: shield_sound_def shield_inv_def)
  have sub: "set (sh_cache (sh_make_room s)) \<subseteq> set (sh_cache s)"
    by (auto simp: sh_make_room_cache [OF ok] dest: list.set_sel(2) [rotated])
  have ex: "(case blockDurationMs s of Some d \<Rightarrow> if d > 0 then now + d else resetTime r | None \<Rightarrow> resetTime r)
      = resetTime r"
    using s by (auto simp: shield_sound_def split: option.splits)
  have "quota_full (sh_inner s) k' now (expiresAt e) (mem_limit (sh_inner s) None)"
    if "(k', e) \<in> set (sh_cache (cacheBlock now k r s))" for k' e
    using that s full sub by (auto simp: cacheBlock_def Let_def ex shield_sound_def dest!: set_updateD)
  moreover have "shield_inv (cacheBlock now k r s)" using s cacheBlock_inv by (auto simp: shield_sound_def)
  ultimately show ?thesis using s by (auto simp: shield_sound_def cacheBlock_def Let_def)
qed

lemma shield_sound_increment:
  assumes s: "shield_sound lst s" and t: "lst \<le> now" and unit: "sh_unit_cost (sh_inner s) (ShInc now k o')"
  shows "shield_sound now (snd (shield_increment mem_ops now k o' s))"
proof (cases "shield_lookup now k s")
  case (Pair hit s1)
  have s1: "shield_sound now s1" using shield_sound_lookup [OF s t, of k] Pair by simp
  have in1: "sh_inner s1 = sh_inner s" by (rule shield_lookup_inner [OF Pair])
  show ?thesis
  proof (cases hit)
    case (Some r)
    then show ?thesis using Pair s1 by (simp add: shield_increment_def)
  next
    case None
    obtain r i where inc: "mem_increment now k o' (sh_inner s) = (r, i)" by fastforce
    have mi: "mem_inv (sh_inner s)" and mk: "ms_maxKeys (sh_inner s) = 0"
      and tm: "stamps_timely lst (sh_inner s)" using s by (auto simp: shield_sound_def)
    note inv' = mem_increment_inv [OF mi inc]
    have frame: "map_of (ms_state i) k' = map_of (ms_state (sh_inner s1)) k'" if "k' \<noteq> k" for k'
      using mem_increment_frame [OF mem_inv_jsmap [OF mi] inc that] mk in1 by (simp add: has_room_def)
    have nocache: "sh_uncache k s1 = s1"
      using Pair None
      by (auto simp: shield_lookup_def sh_uncache_def delete_absent split: option.splits if_splits)
    have s2: "shield_sound now (s1\<lparr>sh_inner := i\<rparr>)"
      using shield_sound_uncache [where k = k, OF s1 order_refl inv'(1) _ mem_increment_timely [OF mi mk tm t inc] frame]
        inv'(2) in1 by (simp add: nocache)
    have "quota_full i k now (resetTime r) (mem_limit (sh_inner s) None)"
      if "blockOnConsumed s1 \<le> totalHits r"
      by (rule mem_increment_fills [OF mi _ t inc])
         (use that s1 in1 tm unit in \<open>auto simp: shield_sound_def stamps_timely_def sh_unit_cost_def\<close>)
    then have "shield_sound now (shield_finish now k r (s1\<lparr>sh_inner := i\<rparr>))"
      using s2 shield_sound_cacheBlock [OF s2] mem_limit_cong [OF inv'(2)]
      by (simp add: shield_finish_def)
    then show ?thesis using Pair None inc in1 by (simp add: shield_increment_def mem_ops_def)
  qed
qed

lemma sh_exec_sound:
  assumes s: "shield_sound lst s" and t: "lst \<le> sh_time c" and unit: "sh_unit_cost (sh_inner s) c"
  shows "shield_sound (sh_time c) (sh_exec c s)"
proof -
  have mi: "mem_inv (sh_inner s)" and mk: "ms_maxKeys (sh_inner s) = 0"
    and tm: "stamps_timely lst (sh_inner s)" using s by (auto simp: shield_sound_def)
  note wr = mem_unbounded_timely [OF mk tm] and fr = mem_unbounded_frame [OF mk]
  have base: "shield_sound now s" if "lst \<le> now" for now
    using shield_sound_invisible [OF s that invisible_refl [OF mi]] stamps_timely_mono [OF tm that] by simp
  show ?thesis
  proof (cases c)
    case (ShInc now k o')
    then show ?thesis using shield_sound_increment [OF s] t unit by simp
  next
    case (ShDec now k d)
    then show ?thesis
      using shield_sound_uncache [OF s _ mem_decrement_inv(1,2) [OF mi] wr(1) fr(1)] t
      by (simp add: shield_decrement_def mem_ops_def)
  next
    case (ShReset now k)
    then show ?thesis
      using shield_sound_uncache [OF s _ mem_reset_inv [OF mi] mem_write_cfg(2) wr(2) fr(2)] t
      by (simp add: shield_reset_def mem_ops_def)
  next
    case (ShDel now k)
    then show ?thesis
      using shield_sound_uncache [OF s _ mem_delete_inv [OF mi] mem_write_cfg(3) wr(3) fr(3)] t
      by (simp add: shield_delete_def mem_ops_def case_prod_beta)
  next
    case (ShSet now k n ex)
    then show ?thesis
      using shield_sound_uncache [OF s _ mem_set_inv [OF mi] mem_write_cfg(1) wr(4) fr(4)] t
      by (simp add: shield_set_def mem_ops_def case_prod_beta)
  next
    case (ShGet now k)
    then show ?thesis
      using shield_sound_invisible [OF s _ mem_get_invisible [OF mi] mem_get_timely [OF tm]] t base
      by (auto simp: shield_get_def mem_ops_def case_prod_beta split: option.splits)
  next
    case (ShSweep now)
    then show ?thesis using base [of now] t shield_sweep_inv [of s now]
      by (auto simp: shield_sound_def shield_sweep_def Let_def)
  next
    case (ShPurge now)
    then show ?thesis
      using shield_sound_invisible [OF s _ purgeExpired_invisible [OF mi] purgeExpired_timely] t
        stamps_timely_mono [OF tm] by simp
  qed
qed

lemma shield_hit_justified:
  assumes s: "shield_sound lst s" and t: "lst \<le> now" and hit: "shield_lookup now k s = (Some r, s1)"
    and cap: "mem_limit (sh_inner s) o' \<le> mem_limit (sh_inner s) None"
  shows "isBlocked (fst (mem_increment now k o' (sh_inner s)))"
proof -
  obtain e where e: "(k, e) \<in> set (sh_cache s)" "now < expiresAt e"
    using hit by (auto simp: shield_lookup_def dest: map_of_SomeD split: option.splits if_splits)
  then have "mem_limit (sh_inner s) None \<le> mem_usage (sh_inner s) now k"
    using s t by (fastforce simp: shield_sound_def quota_full_def)
  moreover have "mem_inv (sh_inner s)" using s by (simp add: shield_sound_def)
  ultimately show ?thesis
    using mem_increment_decision(1) [OF _ surjective_pairing, of "sh_inner s" now k o'] cap
      eff_cost_pos(1) [of o'] by (simp del: eff_cost_pos)
qed


lemma sh_exec_cfg:
  assumes "shield_sound lst s" shows "mem_cfg (sh_inner (sh_exec c s)) = mem_cfg (sh_inner s)"
proof -
  have mi: "mem_inv (sh_inner s)" using assms by (simp add: shield_sound_def)
  show ?thesis
    using mem_increment_inv(2) [OF mi surjective_pairing] mem_decrement_inv(2) [OF mi] mem_write_cfg
      mem_get_invisible [OF mi] purgeExpired_invisible [OF mi]
    by (cases c) (auto simp: shield_increment_def shield_lookup_inner shield_decrement_def shield_reset_def
        shield_delete_def shield_set_def shield_get_def shield_sweep_def mem_ops_def invisible_from_def Let_def
        case_prod_beta split: option.splits)
qed

section \<open>Properties\<close>

text \<open>The block cache is well formed and bounded whatever happens to the shield: any interleaving of
  the first and second halves of concurrent increments, invalidations, sweeps and changes of the
  inner store leaves at most \<open>maxBlockedKeys\<close> entries (when that is positive), no key twice, and only
  results marked as blocked.\<close>

theorem shield_cache_bounded:
  assumes "new_InMemoryShield i opts = Inr s0" and "s = fold shield_exec cs s0"
  shows "jsmap_ok (sh_cache s) \<and>
    (maxBlockedKeys s > 0 \<longrightarrow> int (length (sh_cache s)) \<le> maxBlockedKeys s) \<and>
    (\<forall>(k, e) \<in> set (sh_cache s). isBlocked (cachedResult e))"
proof -
  have "shield_inv (fold shield_exec cs s0)"
    by (rule fold_keeps [of shield_inv]) (auto intro: shield_exec_inv new_shield_inv [OF assms(1)])
  then show ?thesis using assms(2) by (simp add: shield_inv_def)
qed

lemma int_monus: "1 \<le> c \<Longrightarrow> int (a - nat c) = max 0 (int a - c)"
  by auto

lemma takes_newest:
  fixes ts :: "int list"
  assumes "sorted ts"
  shows "length (filter (\<lambda>t. b < t) (take (length ts - n) ts)) = length (filter (\<lambda>t. b < t) ts) - n"
  using assms
proof (induction ts arbitrary: n)
  case (Cons t ts)
  show ?case
  proof (cases "b < t")
    case True
    then have "filter (\<lambda>t. b < t) (t # ts) = t # ts" "filter (\<lambda>u. b < u) (take (length (t # ts) - n) (t # ts)) = take (length (t # ts) - n) (t # ts)"
      using Cons.prems by (auto simp: filter_id_conv dest!: in_set_takeD intro: less_le_trans)
    then show ?thesis by simp
  next
    case False
    have "take (length (t # ts) - n) (t # ts) = (if n \<le> length ts then t # take (length ts - n) ts else [])"
      by (simp add: Suc_diff_le)
    with False Cons show ?thesis by (auto intro: le_trans [OF length_filter_le])
  qed
qed simp

text \<open>A decrement of a window takes that many of the live hits, newest first.\<close>

lemma mem_decrement_takes:
  assumes inv: "mem_inv s" and "ms_strategy s \<noteq> TOKEN_BUCKET" "stamps_timely now s"
    and newest: "ms_strategy s = SLIDING_WINDOW \<Longrightarrow> opt_removeNewest d"
  shows "mem_usage (mem_decrement k d s) now k = max 0 (mem_usage s now k - sanitizeIncrementCost (opt_dec_cost d) 1)"
proof (cases "map_of (ms_state s) k")
  case None
  then have "mem_decrement k d s = s"
    by (auto simp: mem_decrement_def decrementSliding_def decrementSlidingFromEnd_def decrementFixed_def decrementTokenBucket_def
        getSlidingState_def getFixedEntry_def getBucketEntry_def Let_def split: strategy.splits)
  then show ?thesis using None assms(2) sanitizeIncrementCost_ge1 [of "opt_dec_cost d"]
    by (auto simp: mem_usage_def entry_usage_def live_stamps_def live_fixed_def split: strategy.splits)
next
  case (Some e)
  let ?c = "sanitizeIncrementCost (opt_dec_cost d) 1"
  have pos: "1 \<le> ?c" by (rule sanitizeIncrementCost_ge1)
  have ok: "entry_ok s e" using mem_inv_lookup [OF inv Some] .
  have "mem_usage (mem_decrement k d s) now k =
      entry_usage s now ((if opt_removeNewest d then entry_undo s else entry_undo_oldest s) ?c e)"
    using mem_decrement_entry [OF inv Some, of d] entry_usage_cong [OF mem_decrement_inv(2) [OF inv]]
    by (simp add: mem_usage_def)
  also have "\<dots> = max 0 (entry_usage s now (Some e) - ?c)"
  proof (cases "ms_strategy s")
    case SLIDING_WINDOW
    then obtain ts w where e: "e = Sliding ts w" using ok by (cases e) (auto simp: entry_ok_def)
    have "sorted ts" using assms(3) Some by (auto simp: stamps_timely_def entry_timely_def e dest!: spec [of _ k])
    have "nat (min ?c (int (length ts))) = min (nat ?c) (length ts)" using pos by (auto simp: min_def)
    then have "length ts - nat (min ?c (int (length ts))) = length ts - nat ?c" by simp
    then have u: "entry_undo s ?c e = (if ts = [] \<or> take (length ts - nat ?c) ts \<noteq> [] then Some (Sliding (take (length ts - nat ?c) ts) w) else None)"
      by (simp add: entry_undo_def e Let_def)
    have n: "int (length (filter (\<lambda>t. now - ms_windowMs s < t) (take (length ts - nat ?c) ts))) =
        max 0 (int (length (filter (\<lambda>t. now - ms_windowMs s < t) ts)) - ?c)"
      using takes_newest [OF \<open>sorted ts\<close>, of "now - ms_windowMs s" "nat ?c"] int_monus [of ?c] pos by (simp del: sanitizeIncrementCost_ge1)
    have "take (length ts - nat ?c) ts = [] \<Longrightarrow> max 0 (int (length (filter (\<lambda>t. now - ms_windowMs s < t) ts)) - ?c) = 0"
      using n by (metis filter.simps(1) list.size(3) of_nat_0)
    then have z: "entry_undo s ?c e = None \<Longrightarrow> max 0 (int (length (filter (\<lambda>t. now - ms_windowMs s < t) ts)) - ?c) = 0"
      by (auto simp: u simp del: take_eq_Nil take_eq_Nil2 split: if_splits)
    have l: "entry_usage s now (Some (Sliding ts' w)) =
        (if (case w of None \<Rightarrow> False | Some x \<Rightarrow> now \<ge> x) then 0 else int (length (filter (\<lambda>t. now - ms_windowMs s < t) ts')))" for ts'
      by (simp add: entry_usage_def SLIDING_WINDOW live_stamps_def split: option.splits)
    have "entry_usage s now (entry_undo s ?c e) = max 0 (entry_usage s now (Some e) - ?c)"
    proof (cases "entry_undo s ?c e")
      case None
      then show ?thesis using z pos by (auto simp: e l entry_usage_def [of s now None] SLIDING_WINDOW live_stamps_def)
    next
      case (Some e')
      then have "e' = Sliding (take (length ts - nat ?c) ts) w" by (simp add: u del: take_eq_Nil take_eq_Nil2 split: if_splits)
      then show ?thesis unfolding Some using n pos by (auto simp: e l simp del: take_eq_Nil take_eq_Nil2)
    qed
    then show ?thesis using newest [OF SLIDING_WINDOW] by simp
  next
    case FIXED_WINDOW
    then obtain c r where e: "e = Fixed c r" "0 \<le> c" using ok by (cases e) (auto simp: entry_ok_def)
    then show ?thesis using pos
      by (auto simp: entry_usage_def FIXED_WINDOW entry_undo_def entry_undo_oldest_def live_fixed_def)
  qed (use assms(2) in simp)
  finally show ?thesis using Some by (simp add: mem_usage_def)
qed

definition demo_shield_options :: "int \<Rightarrow> shield_options" where
  "demo_shield_options n = \<lparr>opt_blockOnConsumed = js_int n, opt_blockDurationMs = Undefined,
     opt_maxBlockedKeys = js_int 1, opt_sweepIntervalMs = Undefined\<rparr>"

definition demo_shield :: "mem_store \<Rightarrow> int \<Rightarrow> mem_store shield" where
  "demo_shield i n = projr (new_InMemoryShield i (demo_shield_options n))"

lemma demo_shield_new: "1 \<le> n \<Longrightarrow> new_InMemoryShield i (demo_shield_options n) = Inr (demo_shield i n)"
  by (simp add: demo_shield_def new_InMemoryShield_def demo_shield_options_def finite_at_least_def
      js_int_def)

theorem shield_cache_bounded_witness:
  "int (length (sh_cache (fold shield_exec
     [Finish 0 ''a'' (plain_result 9 0 100 True), Finish 0 ''b'' (plain_result 9 0 100 True)]
     (demo_shield (new_MemoryStore (TokenBucketOptions 1 1000 3) (Some 0) None) 3)))) \<le> 1"
proof -
  let ?i = "new_MemoryStore (TokenBucketOptions 1 1000 3) (Some 0) None"
  let ?cs = "[Finish 0 ''a'' (plain_result 9 0 100 True), Finish 0 ''b'' (plain_result 9 0 100 True)]"
  let ?s = "fold shield_exec ?cs (demo_shield ?i 3)"
  have "maxBlockedKeys ?s = 1" by code_simp
  with shield_cache_bounded [OF demo_shield_new [of 3 ?i] refl, of ?cs] show ?thesis
    by (simp del: fold.simps)
qed

text \<open>(C29) The shield never rejects what the in-memory store behind it would have allowed. In any timely
  sequence of calls on a fresh shield around a fresh in-memory store without a key limit, with
  \<open>blockOnConsumed\<close> at least the quota and no explicit block duration (and unit costs for a token
  bucket), an increment answered from the cache would have been blocked by the store too, unless the
  request raises the cap above the configured one.\<close>

theorem shield_agrees_with_store:
  assumes "options_ok opts" and new: "new_InMemoryShield (new_MemoryStore opts (Some 0) ev) sopts = Inr s0"
    and "blockDurationMs s0 = None" "mem_limit (sh_inner s0) None \<le> blockOnConsumed s0"
    and "sorted (map sh_time cs)" "\<forall>c \<in> set cs. sh_unit_cost (sh_inner s0) c \<and> sh_time c \<le> now"
    and "s = fold sh_exec cs s0" "shield_lookup now k s = (Some r, s1)"
    and "mem_limit (sh_inner s0) o' \<le> mem_limit (sh_inner s0) None"
  shows "isBlocked (fst (mem_increment now k o' (sh_inner s)))"
proof -
  have i0: "sh_inner s0 = new_MemoryStore opts (Some 0) ev" and c0: "sh_cache s0 = []"
    using new by (auto simp: new_InMemoryShield_def Let_def split: if_splits)
  have mk0: "ms_maxKeys (sh_inner s0) = 0"
    by (simp add: i0 new_MemoryStore_def Let_def split: mem_options.splits)
  have start: "shield_sound t s0" for t
    using new_shield_inv [OF new] new_MemoryStore_inv [OF assms(1)] assms(3,4) c0 mk0
    by (simp add: shield_sound_def i0 stamps_timely_def)
  have run: "shield_sound (if cs = [] then now else sh_time (last cs)) (fold sh_exec cs s0) \<and>
      mem_cfg (sh_inner (fold sh_exec cs s0)) = mem_cfg (sh_inner s0)"
    using assms(5,6)
  proof (induction cs rule: rev_induct)
    case (snoc c cs)
    have t: "(if cs = [] then sh_time c else sh_time (last cs)) \<le> sh_time c"
      using snoc.prems(1) by (auto simp: sorted_append)
    have ih: "shield_sound (if cs = [] then sh_time c else sh_time (last cs)) (fold sh_exec cs s0)"
      "mem_cfg (sh_inner (fold sh_exec cs s0)) = mem_cfg (sh_inner s0)"
      using snoc start by (auto simp: sorted_append)
    have "sh_unit_cost (sh_inner (fold sh_exec cs s0)) c"
      using snoc.prems(2) mem_cfg_eqD [OF ih(2)] by (simp add: sh_unit_cost_def)
    with sh_exec_sound [OF ih(1) t] sh_exec_cfg [OF ih(1), of c] ih(2) show ?case by simp
  qed (simp add: start)
  then show ?thesis
    using shield_hit_justified [of "if cs = [] then now else sh_time (last cs)" s now k r s1 o'] assms(6-9)
      mem_limit_cong [of "sh_inner s" "sh_inner s0"]
    by (auto split: if_splits)
qed

theorem shield_agrees_with_store_witness:
  "isBlocked (fst (mem_increment 5 ''a'' None (sh_inner (fold sh_exec [ShInc 0 ''a'' None]
     (demo_shield (new_MemoryStore (WindowOptions SLIDING_WINDOW (js_int 1000) (js_int 1)) (Some 0) None) 1)))))"
proof -
  let ?opts = "WindowOptions SLIDING_WINDOW (js_int 1000) (js_int 1)"
  let ?i = "new_MemoryStore ?opts (Some 0) None"
  let ?s0 = "demo_shield ?i 1" and ?cs = "[ShInc 0 ''a'' None]"
  have ok: "options_ok ?opts" by code_simp
  have new: "new_InMemoryShield ?i (demo_shield_options 1) = Inr ?s0" by (rule demo_shield_new) simp
  have s0: "blockDurationMs ?s0 = None" "mem_limit (sh_inner ?s0) None \<le> blockOnConsumed ?s0"
    "sh_unit_cost (sh_inner ?s0) (ShInc 0 ''a'' None)" by code_simp+
  have "fst (shield_lookup 5 ''a'' (fold sh_exec ?cs ?s0)) = Some (plain_result 1 0 1000 True)" by code_simp
  then have "shield_lookup 5 ''a'' (fold sh_exec ?cs ?s0) =
      (Some (plain_result 1 0 1000 True), snd (shield_lookup 5 ''a'' (fold sh_exec ?cs ?s0)))"
    by (metis prod.collapse)
  from shield_agrees_with_store [OF ok new s0(1,2) _ _ refl this, of None] s0(3) show ?thesis by simp
qed

text \<open>With weighted requests on a token bucket the agreement fails: the store answers
  \<open>totalHits = bucketSize\<close> when it rejects an expensive request although tokens are left, the shield
  caches that as a full block, and then rejects a cheap request the store would have allowed.\<close>

theorem shield_overblocks:
  "let cost = (\<lambda>n. Some \<lparr>io_maxRequests = Undefined, io_cost = js_int n\<rparr>);
       s0 = demo_shield (new_MemoryStore (TokenBucketOptions 1 1000 10) (Some 0) None) 10;
       s = fold sh_exec [ShInc 0 ''a'' (cost 7), ShInc 1 ''a'' (cost 5)] s0
   in isShielded 2 s ''a'' \<and> \<not> isBlocked (fst (mem_increment 2 ''a'' (cost 1) (sh_inner s)))"
  by code_simp

text \<open>A shielded in-memory store keeps the store contract: an allowed increment undone at once by the
  matching \<open>removeNewest\<close> decrement leaves the usage of the store behind the shield as it was.\<close>

theorem shield_undo:
  assumes "shield_inv s" "mem_inv (sh_inner s)"
    and "shield_increment mem_ops now k o' s = (Inr (r, sh), s1)" "\<not> isBlocked r"
    and "shield_decrement mem_ops now k
      (Some ((matchingDecrementOptions (opt_cost o'))\<lparr>do_removeNewest := True\<rparr>)) s1 = (res, s2)"
  shows "res = Inr () \<and> mem_usage (sh_inner s2) now k = mem_usage (sh_inner s) now k"
  using mem_sh.shielded.undo_restores [of s now k o' r s1 res s2] assms
  by (simp add: shielded_inv_def shielded_usage_def shield_ops_def)

theorem shield_undo_witness:
  "mem_usage (sh_inner (snd (shield_decrement mem_ops 0 ''a''
     (Some ((matchingDecrementOptions Undefined)\<lparr>do_removeNewest := True\<rparr>))
     (snd (shield_increment mem_ops 0 ''a'' None
        (demo_shield (new_MemoryStore (TokenBucketOptions 1 1000 10) (Some 0) None) 10)))))) 0 ''a'' = 0"
proof -
  let ?s = "demo_shield (new_MemoryStore (TokenBucketOptions 1 1000 10) (Some 0) None) 10"
  let ?d = "Some ((matchingDecrementOptions Undefined)\<lparr>do_removeNewest := True\<rparr>)"
  have s: "shield_inv ?s" "mem_inv (sh_inner ?s)" by code_simp+
  have u: "mem_usage (sh_inner ?s) 0 ''a'' = 0" by code_simp
  let ?r = "plain_result 1 9 1000 False"
  have "fst (shield_increment mem_ops 0 ''a'' None ?s) = Inr (?r, False)" by code_simp
  then have inc: "shield_increment mem_ops 0 ''a'' None ?s =
      (Inr (?r, False), snd (shield_increment mem_ops 0 ''a'' None ?s))" by (metis prod.collapse)
  from shield_undo [OF s inc _ surjective_pairing] u show ?thesis by simp
qed

end
