(* ===== verification/Circuit_Breaker.thy ===== *)
theory Circuit_Breaker
  imports Flex_Prelude
begin

text \<open>
  The circuit breaker of \<open>src/resilience/CircuitBreaker.ts\<close>: the class as the record
  \<open>circuit_breaker\<close>, one definition per method, and the breaker as a transition system
  (\<open>cb_step\<close>, \<open>cb_reach\<close>). Callbacks are recorded in order in \<open>cb_events\<close>. The lemmas give the
  invariant of the reachable states, when the circuit opens, that it refuses attempts until the
  recovery time has passed, and that a half-open circuit admits a bounded number of probes.
\<close>

section \<open>The class\<close>

datatype circuit_state = CLOSED | OPEN | HALF_OPEN

datatype cb_event = OnOpen | OnClose | OnHalfOpen

record circuit_breaker =
  cb_state :: circuit_state
  consecutiveFailures :: int
  openedAtMs :: "time option"
  halfOpenInFlight :: int
  failureThreshold :: int
  recoveryTimeMs :: int
  halfOpenMaxProbes :: int
  cb_events :: "cb_event list"

definition new_CircuitBreaker :: "int option \<Rightarrow> int option \<Rightarrow> int option \<Rightarrow> circuit_breaker" where
  "new_CircuitBreaker threshold recovery probes =
     \<lparr>cb_state = CLOSED, consecutiveFailures = 0, openedAtMs = None, halfOpenInFlight = 0,
      failureThreshold = (case threshold of None \<Rightarrow> 3 | Some n \<Rightarrow> n),
      recoveryTimeMs = (case recovery of None \<Rightarrow> 5000 | Some n \<Rightarrow> n),
      halfOpenMaxProbes = (case probes of None \<Rightarrow> 1 | Some n \<Rightarrow> n),
      cb_events = []\<rparr>"

definition cb_emit :: "cb_event \<Rightarrow> circuit_breaker \<Rightarrow> circuit_breaker" where
  "cb_emit ev b = b\<lparr>cb_events := cb_events b @ [ev]\<rparr>"

definition grantHalfOpenProbe :: "circuit_breaker \<Rightarrow> bool \<times> circuit_breaker" where
  "grantHalfOpenProbe b =
     (if halfOpenInFlight b \<ge> halfOpenMaxProbes b then (False, b)
      else (True, b\<lparr>halfOpenInFlight := halfOpenInFlight b + 1\<rparr>))"

definition canAttempt :: "time \<Rightarrow> circuit_breaker \<Rightarrow> bool \<times> circuit_breaker" where
  "canAttempt now b =
     (case cb_state b of
        CLOSED \<Rightarrow> (True, b)
      | OPEN \<Rightarrow>
          (case openedAtMs b of
             None \<Rightarrow> (False, b)
           | Some t \<Rightarrow>
               if now < t + recoveryTimeMs b then (False, b)
               else grantHalfOpenProbe
                 (cb_emit OnHalfOpen (b\<lparr>cb_state := HALF_OPEN, halfOpenInFlight := 0\<rparr>)))
      | HALF_OPEN \<Rightarrow> grantHalfOpenProbe b)"

definition recordSuccess :: "circuit_breaker \<Rightarrow> circuit_breaker" where
  "recordSuccess b =
     (case cb_state b of
        CLOSED \<Rightarrow> b\<lparr>consecutiveFailures := 0\<rparr>
      | HALF_OPEN \<Rightarrow>
          cb_emit OnClose
            (b\<lparr>halfOpenInFlight := 0, consecutiveFailures := 0, openedAtMs := None, cb_state := CLOSED\<rparr>)
      | OPEN \<Rightarrow> b)"

definition recordFailure :: "time \<Rightarrow> circuit_breaker \<Rightarrow> circuit_breaker" where
  "recordFailure now b =
     (case cb_state b of
        CLOSED \<Rightarrow>
          (let b1 = b\<lparr>consecutiveFailures := consecutiveFailures b + 1\<rparr>
           in if consecutiveFailures b1 \<ge> failureThreshold b1
              then cb_emit OnOpen (b1\<lparr>cb_state := OPEN, openedAtMs := Some now\<rparr>)
              else b1)
      | HALF_OPEN \<Rightarrow>
          cb_emit OnOpen
            (b\<lparr>halfOpenInFlight := 0, cb_state := OPEN, openedAtMs := Some now,
               consecutiveFailures := failureThreshold b\<rparr>)
      | OPEN \<Rightarrow> b)"

definition cb_reset :: "circuit_breaker \<Rightarrow> circuit_breaker" where
  "cb_reset b =
     b\<lparr>cb_state := CLOSED, consecutiveFailures := 0, openedAtMs := None, halfOpenInFlight := 0\<rparr>"

definition cb_destroy :: "circuit_breaker \<Rightarrow> circuit_breaker" where
  "cb_destroy b = cb_reset b"

section \<open>The breaker as a transition system\<close>

datatype cb_call = Attempt time bool | Success | Failure time | Reset | Destroy

inductive cb_step :: "circuit_breaker \<Rightarrow> cb_call \<Rightarrow> circuit_breaker \<Rightarrow> bool" where
  attempt: "canAttempt now b = (granted, b') \<Longrightarrow> cb_step b (Attempt now granted) b'"
| success: "cb_step b Success (recordSuccess b)"
| failure: "cb_step b (Failure now) (recordFailure now b)"
| reset: "cb_step b Reset (cb_reset b)"
| destroy: "cb_step b Destroy (cb_destroy b)"

inductive_cases cb_attemptE: "cb_step b (Attempt now granted) b'"
inductive_simps cb_step_simps [simp]:
  "cb_step b (Attempt now granted) b'" "cb_step b Success b'" "cb_step b (Failure now) b'"
  "cb_step b Reset b'" "cb_step b Destroy b'"

inductive cb_trace :: "circuit_breaker \<Rightarrow> cb_call list \<Rightarrow> circuit_breaker \<Rightarrow> bool" where
  cb_nil: "cb_trace b [] b"
| cb_cons: "cb_step b c b1 \<Longrightarrow> cb_trace b1 cs b2 \<Longrightarrow> cb_trace b (c # cs) b2"

inductive_cases cb_trace_NilE: "cb_trace b [] b'"
inductive_cases cb_trace_ConsE: "cb_trace b (c # cs) b'"

lemma grant_cfg:
  "grantHalfOpenProbe b = (g, b') \<Longrightarrow>
   failureThreshold b' = failureThreshold b \<and> recoveryTimeMs b' = recoveryTimeMs b \<and>
   halfOpenMaxProbes b' = halfOpenMaxProbes b"
  by (auto simp: grantHalfOpenProbe_def split: if_splits)

lemmas cb_defs = canAttempt_def recordSuccess_def recordFailure_def cb_reset_def cb_destroy_def
  cb_emit_def grantHalfOpenProbe_def

definition cb_same_cfg :: "circuit_breaker \<Rightarrow> circuit_breaker \<Rightarrow> bool" where
  "cb_same_cfg b b' \<longleftrightarrow> failureThreshold b' = failureThreshold b \<and> recoveryTimeMs b' = recoveryTimeMs b \<and>
     halfOpenMaxProbes b' = halfOpenMaxProbes b"

lemma cb_step_cfg: "cb_step b c b' \<Longrightarrow> cb_same_cfg b b'"
  by (induction rule: cb_step.induct)
     (auto simp: cb_defs cb_same_cfg_def Let_def split: circuit_state.splits option.splits if_splits)

lemma cb_trace_cfg: "cb_trace b cs b' \<Longrightarrow> cb_same_cfg b b'"
  by (induction rule: cb_trace.induct) (auto simp: cb_same_cfg_def dest!: cb_step_cfg)

section \<open>Invariant\<close>

definition cb_inv :: "circuit_breaker \<Rightarrow> bool" where
  "cb_inv b \<longleftrightarrow> 1 \<le> failureThreshold b \<and> 0 \<le> halfOpenMaxProbes b \<and> 0 \<le> halfOpenInFlight b \<and>
     halfOpenInFlight b \<le> halfOpenMaxProbes b \<and> 0 \<le> consecutiveFailures b \<and>
     (case cb_state b of
        CLOSED \<Rightarrow> consecutiveFailures b < failureThreshold b \<and> openedAtMs b = None \<and> halfOpenInFlight b = 0
      | OPEN \<Rightarrow> consecutiveFailures b = failureThreshold b \<and> openedAtMs b \<noteq> None \<and> halfOpenInFlight b = 0
      | HALF_OPEN \<Rightarrow> openedAtMs b \<noteq> None)"

lemma cb_step_inv: "cb_step b c b' \<Longrightarrow> cb_inv b \<Longrightarrow> cb_inv b'"
  by (induction rule: cb_step.induct)
     (auto simp: cb_defs cb_inv_def Let_def split: circuit_state.splits option.splits if_splits)

lemma cb_trace_inv: "cb_trace b cs b' \<Longrightarrow> cb_inv b \<Longrightarrow> cb_inv b'"
  by (induction rule: cb_trace.induct) (auto dest: cb_step_inv)

section \<open>When the circuit opens\<close>

text \<open>Reports as the protected calls make them: \<open>None\<close> is a success, \<open>Some t\<close> a failure at \<open>t\<close>.\<close>

definition cb_report :: "time option \<Rightarrow> circuit_breaker \<Rightarrow> circuit_breaker" where
  "cb_report r b = (case r of None \<Rightarrow> recordSuccess b | Some t \<Rightarrow> recordFailure t b)"

lemma cb_report_simps [simp]:
  "cb_report None b = recordSuccess b" "cb_report (Some t) b = recordFailure t b"
  by (simp_all add: cb_report_def)

text \<open>The length of the current run of failures after each report, when \<open>n\<close> failures precede.\<close>

fun failure_run :: "nat \<Rightarrow> time option list \<Rightarrow> nat list" where
  "failure_run n [] = []"
| "failure_run n (None # rs) = 0 # failure_run 0 rs"
| "failure_run n (Some t # rs) = Suc n # failure_run (Suc n) rs"

lemma cb_report_open: "cb_state b = OPEN \<Longrightarrow> fold cb_report rs b = b"
  by (induction rs) (auto simp: cb_report_def cb_defs split: option.splits)

lemma cb_report_closed:
  assumes "cb_state b = CLOSED" "consecutiveFailures b = int n" "1 \<le> failureThreshold b"
  shows "cb_state (fold cb_report rs b) =
    (if \<exists>m \<in> set (failure_run n rs). failureThreshold b \<le> int m then OPEN else CLOSED)"
  using assms
proof (induction n rs arbitrary: b rule: failure_run.induct)
  case (2 n rs)
  have "cb_state (fold cb_report rs (recordSuccess b)) =
      (if \<exists>m \<in> set (failure_run 0 rs). failureThreshold b \<le> int m then OPEN else CLOSED)"
    using "2.IH" [of "recordSuccess b"] "2.prems" by (simp add: recordSuccess_def)
  then show ?case using "2.prems" by auto
next
  case (3 n t rs)
  show ?case
  proof (cases "failureThreshold b \<le> int (Suc n)")
    case True
    then have "cb_state (recordFailure t b) = OPEN" using "3.prems" by (simp add: cb_defs Let_def)
    then have "cb_state (fold cb_report rs (recordFailure t b)) = OPEN" by (simp add: cb_report_open)
    with True show ?thesis by simp
  next
    case False
    then have b: "recordFailure t b = b\<lparr>consecutiveFailures := int n + 1\<rparr>"
      using "3.prems" by (simp add: cb_defs)
    have "cb_state (fold cb_report rs (recordFailure t b)) =
        (if \<exists>m \<in> set (failure_run (Suc n) rs). failureThreshold b \<le> int m then OPEN else CLOSED)"
      using "3.IH" [of "recordFailure t b"] "3.prems" by (simp add: b)
    with False show ?thesis by auto
  qed
qed simp

section \<open>While the circuit is open\<close>

text \<open>A call that neither resets the breaker nor comes after the recovery time.\<close>

fun cb_waiting :: "time \<Rightarrow> cb_call \<Rightarrow> bool" where
  "cb_waiting until (Attempt now g) = (now < until)"
| "cb_waiting until Reset = False"
| "cb_waiting until Destroy = False"
| "cb_waiting until _ = True"

lemma cb_open_step:
  "cb_step b c b' \<Longrightarrow> cb_state b = OPEN \<Longrightarrow> openedAtMs b = Some t \<Longrightarrow> cb_waiting (t + recoveryTimeMs b) c \<Longrightarrow>
   b' = b \<and> (\<forall>now g. c = Attempt now g \<longrightarrow> \<not> g)"
  by (induction rule: cb_step.induct) (auto simp: cb_defs split: if_splits)

lemma cb_open_trace:
  "cb_trace b cs b' \<Longrightarrow> cb_state b = OPEN \<Longrightarrow> openedAtMs b = Some t \<Longrightarrow>
   \<forall>c \<in> set cs. cb_waiting (t + recoveryTimeMs b) c \<Longrightarrow>
   b' = b \<and> (\<forall>now g. Attempt now g \<in> set cs \<longrightarrow> \<not> g)"
proof (induction rule: cb_trace.induct)
  case (cb_cons b c b1 cs b2)
  have "b1 = b \<and> (\<forall>now g. c = Attempt now g \<longrightarrow> \<not> g)"
    using cb_open_step [OF cb_cons.hyps(1) cb_cons.prems(1,2)] cb_cons.prems(3) by auto
  with cb_cons show ?case by auto
qed simp

section \<open>While the circuit is half open\<close>

definition grants :: "cb_call list \<Rightarrow> nat" where
  "grants cs = length (filter (\<lambda>c. case c of Attempt _ g \<Rightarrow> g | _ \<Rightarrow> False) cs)"

lemma grants_simps [simp]:
  "grants [] = 0"
  "grants (Attempt now g # cs) = (if g then Suc (grants cs) else grants cs)"
  by (simp_all add: grants_def)

definition is_attempt :: "cb_call \<Rightarrow> bool" where
  "is_attempt c = (case c of Attempt _ _ \<Rightarrow> True | _ \<Rightarrow> False)"

lemma cb_half_open_trace:
  "cb_trace b cs b' \<Longrightarrow> cb_inv b \<Longrightarrow> cb_state b = HALF_OPEN \<Longrightarrow> \<forall>c \<in> set cs. is_attempt c \<Longrightarrow>
   cb_state b' = HALF_OPEN \<and> halfOpenInFlight b' = halfOpenInFlight b + int (grants cs)"
proof (induction rule: cb_trace.induct)
  case (cb_cons b c b1 cs b2)
  from cb_cons.prems obtain now g where c: "c = Attempt now g" by (auto simp: is_attempt_def split: cb_call.splits)
  then have g: "canAttempt now b = (g, b1)" using cb_cons.hyps(1) by simp
  have "cb_state b1 = HALF_OPEN" "halfOpenInFlight b1 = halfOpenInFlight b + (if g then 1 else 0)"
    using g cb_cons.prems(2) by (auto simp: cb_defs split: if_splits)
  with cb_cons cb_step_inv [OF cb_cons.hyps(1)] show ?case by (simp add: c)
qed simp

lemma cb_probe_bound:
  assumes tr: "cb_trace b cs b'" and inv: "cb_inv b" and st: "cb_state b \<noteq> CLOSED"
    and att: "\<forall>c \<in> set cs. is_attempt c"
  shows "int (grants cs) \<le> halfOpenMaxProbes b"
  using assms
proof (induction rule: cb_trace.induct)
  case (cb_cons b c b1 cs b2)
  from cb_cons.prems obtain now g where c: "c = Attempt now g" by (auto simp: is_attempt_def split: cb_call.splits)
  note inv1 = cb_step_inv [OF cb_cons.hyps(1) cb_cons.prems(1)]
  show ?case
  proof (cases "cb_state b1")
    case HALF_OPEN
    have bound: "halfOpenInFlight b1 + int (grants cs) \<le> halfOpenMaxProbes b"
      using cb_half_open_trace [OF cb_cons.hyps(2) inv1 HALF_OPEN] cb_cons.prems(3)
        cb_trace_inv [OF cb_cons.hyps(2) inv1] cb_trace_cfg [OF cb_cons.hyps(2)] cb_step_cfg [OF cb_cons.hyps(1)]
      by (simp add: cb_inv_def cb_same_cfg_def)
    moreover have "(if g then 1 else 0) \<le> halfOpenInFlight b1"
      using cb_cons.hyps(1) cb_cons.prems(1,2) by (auto simp: c cb_defs cb_inv_def split: circuit_state.splits option.splits if_splits)
    ultimately show ?thesis by (simp add: c split: if_splits)
  next
    case OPEN
    then have "\<not> g" using cb_cons.hyps(1) by (auto simp: c cb_defs split: circuit_state.splits option.splits if_splits)
    with cb_cons OPEN inv1 cb_step_cfg [OF cb_cons.hyps(1)] show ?thesis by (simp add: c cb_same_cfg_def)
  next
    case CLOSED
    with cb_cons.hyps(1) cb_cons.prems(2) show ?thesis
      by (auto simp: c cb_defs split: circuit_state.splits option.splits if_splits)
  qed
qed (simp add: cb_inv_def)


section \<open>Properties\<close>

text \<open>Every state a breaker can reach by any interleaving of attempts, reports, resets and
  \<open>destroy\<close> is consistent: closed means fewer consecutive failures than the threshold and nothing in
  flight, open means the threshold was reached and the opening time is known, and the probes in
  flight never exceed \<open>halfOpenMaxProbes\<close>.\<close>

theorem cb_reachable_consistent:
  assumes "cb_trace (new_CircuitBreaker th rec pr) cs b"
    and "th = None \<or> (\<exists>n \<ge> 1. th = Some n)" "pr = None \<or> (\<exists>n \<ge> 0. pr = Some n)"
  shows "cb_inv b"
  using assms(2,3) cb_trace_inv [OF assms(1)]
  by (auto simp: new_CircuitBreaker_def cb_inv_def)

theorem cb_reachable_consistent_witness:
  "cb_inv (recordFailure 3 (new_CircuitBreaker (Some 1) None None))"
proof -
  have "cb_trace (new_CircuitBreaker (Some 1) None None) [Failure 3]
      (recordFailure 3 (new_CircuitBreaker (Some 1) None None))"
    by (rule cb_cons [OF failure cb_nil])
  from cb_reachable_consistent [OF this] show ?thesis by simp
qed

text \<open>A fresh breaker opens exactly when \<open>failureThreshold\<close> failures have been reported in a row;
  any success in between starts the count again.\<close>

theorem cb_opens_at_threshold:
  assumes "1 \<le> n"
  shows "cb_state (fold cb_report rs (new_CircuitBreaker (Some n) rec pr)) =
    (if \<exists>m \<in> set (failure_run 0 rs). n \<le> int m then OPEN else CLOSED)"
  using cb_report_closed [of "new_CircuitBreaker (Some n) rec pr" 0 rs] assms
  by (simp add: new_CircuitBreaker_def)

theorem cb_opens_at_threshold_witness:
  "cb_state (fold cb_report [Some 1, None, Some 2, Some 3] (new_CircuitBreaker (Some 2) None None)) = OPEN"
  using cb_opens_at_threshold [of 2 "[Some 1, None, Some 2, Some 3]" None None] by simp

text \<open>An open circuit refuses every attempt made before the recovery time has passed, whatever
  late reports arrive in between, and its state does not change.\<close>

theorem cb_open_refuses:
  assumes "cb_trace b cs b'" "cb_state b = OPEN" "openedAtMs b = Some t"
    and "\<forall>c \<in> set cs. cb_waiting (t + recoveryTimeMs b) c"
  shows "b' = b \<and> (\<forall>now g. Attempt now g \<in> set cs \<longrightarrow> \<not> g)"
  using assms by (rule cb_open_trace)

theorem cb_open_refuses_witness:
  "fst (canAttempt 5002 (recordFailure 3 (new_CircuitBreaker (Some 1) None None))) = False"
proof -
  let ?b = "recordFailure 3 (new_CircuitBreaker (Some 1) None None)"
  let ?g = "fst (canAttempt 5002 ?b)"
  have tr: "cb_trace ?b [Attempt 5002 ?g] (snd (canAttempt 5002 ?b))"
    by (rule cb_cons [OF attempt cb_nil]) simp
  have b: "cb_state ?b = OPEN" "openedAtMs ?b = Some 3" "recoveryTimeMs ?b = 5000" by code_simp+
  from cb_open_refuses [OF tr b(1,2)] b(3) show ?thesis by simp
qed

text \<open>From a circuit that is not closed, any number of concurrent attempts without a report in
  between are granted at most \<open>halfOpenMaxProbes\<close> probes in total.\<close>

theorem cb_probes_bounded:
  assumes "cb_trace b cs b'" "cb_inv b" "cb_state b \<noteq> CLOSED" "\<forall>c \<in> set cs. is_attempt c"
  shows "int (grants cs) \<le> halfOpenMaxProbes b"
  using assms by (rule cb_probe_bound)

theorem cb_probes_bounded_witness:
  "int (grants [Attempt 9000 True, Attempt 9001 False]) \<le>
     halfOpenMaxProbes (recordFailure 3 (new_CircuitBreaker (Some 1) None None))"
proof -
  let ?b = "recordFailure 3 (new_CircuitBreaker (Some 1) None None)"
  have b: "cb_inv ?b" "cb_state ?b \<noteq> CLOSED" by code_simp+
  have g: "fst (canAttempt 9000 ?b) = True" "fst (canAttempt 9001 (snd (canAttempt 9000 ?b))) = False"
    by code_simp+
  have "cb_trace ?b [Attempt 9000 True, Attempt 9001 False]
      (snd (canAttempt 9001 (snd (canAttempt 9000 ?b))))"
    by (rule cb_cons [OF attempt cb_cons [OF attempt cb_nil]]) (use g in \<open>simp_all add: prod_eq_iff\<close>)
  from cb_probes_bounded [OF this b] show ?thesis by (simp add: is_attempt_def)
qed

end
