(* ===== verification/Escalation.thy ===== *)
theory Escalation
  imports Flex_Prelude
begin

text \<open>
  The penalty escalation strategies of \<open>src/key-manager/strategies.ts\<close>: functions from the number
  of violations (counted from one) to a block duration. The Fibonacci strategy is the loop of the
  source, proved equal to the recursive sequence; all strategies escalate.
\<close>

section \<open>Strategies\<close>

type_synonym escalation = "int \<Rightarrow> int"

definition fixedEscalation :: "int \<Rightarrow> escalation" where
  "fixedEscalation durationMs = (\<lambda>n. durationMs)"

definition linearEscalation :: "int \<Rightarrow> int \<Rightarrow> escalation" where
  "linearEscalation baseDurationMs stepMs = (\<lambda>n. baseDurationMs + (n - 1) * stepMs)"

text \<open>\<open>Math.pow(factor, n - 1)\<close> for the counts \<open>n \<ge> 1\<close> that occur.\<close>

definition exponentialEscalation :: "int \<Rightarrow> int \<Rightarrow> escalation" where
  "exponentialEscalation baseDurationMs factor = (\<lambda>n. baseDurationMs * factor ^ nat (n - 1))"

function fib_loop :: "int \<Rightarrow> int \<Rightarrow> int \<Rightarrow> int \<Rightarrow> int \<times> int" where
  "fib_loop n i a b = (if i < n then fib_loop n (i + 1) b (a + b) else (a, b))"
  by pat_completeness auto
termination by (relation "measure (\<lambda>(n, i, a, b). nat (n - i))") auto

declare fib_loop.simps [simp del]

definition fibonacciEscalation :: "int \<Rightarrow> escalation" where
  "fibonacciEscalation baseDurationMs =
     (\<lambda>n. let (a, b) = fib_loop n 2 1 1 in baseDurationMs * (if n \<le> 1 then 1 else b))"

definition capped :: "escalation \<Rightarrow> int \<Rightarrow> escalation" where
  "capped strategy maxDurationMs = (\<lambda>n. min (strategy n) maxDurationMs)"

section \<open>The Fibonacci loop\<close>

fun fib :: "nat \<Rightarrow> int" where
  "fib 0 = 0"
| "fib (Suc 0) = 1"
| "fib (Suc (Suc n)) = fib (Suc n) + fib n"

lemma fib_nonneg: "0 \<le> fib n"
  by (induction n rule: fib.induct) auto

lemma fib_step_mono: "1 \<le> n \<Longrightarrow> fib n \<le> fib (Suc n)"
  using fib_nonneg by (cases n) auto

lemma fib_loop_spec:
  "2 \<le> i \<Longrightarrow> i \<le> n \<Longrightarrow>
   fib_loop n i (fib (nat (i - 1))) (fib (nat i)) = (fib (nat (n - 1)), fib (nat n))"
proof (induction "nat (n - i)" arbitrary: i)
  case 0
  then show ?case by (simp add: fib_loop.simps)
next
  case (Suc d)
  then have less: "i < n" by linarith
  have next': "fib (nat (i - 1)) + fib (nat i) = fib (nat (i + 1))"
  proof -
    obtain j where j: "nat (i - 1) = j" "nat i = Suc j" "nat (i + 1) = Suc (Suc j)"
      using Suc.prems by (metis Suc_nat_eq_nat_zadd1 add.commute diff_add_cancel diff_ge_0_iff_ge
          dual_order.trans one_le_numeral zero_le_one order_trans)
    then show ?thesis by simp
  qed
  have "fib_loop n (i + 1) (fib (nat (i + 1 - 1))) (fib (nat (i + 1))) = (fib (nat (n - 1)), fib (nat n))"
    using Suc.hyps(1) [of "i + 1"] Suc.hyps(2) Suc.prems less by auto
  then show ?case using less next' by (subst fib_loop.simps) simp
qed

lemma fibonacciEscalation_eq: "1 \<le> n \<Longrightarrow> fibonacciEscalation base n = base * fib (nat n)"
proof (cases "n = 1")
  case False
  assume "1 \<le> n"
  with False have "fib_loop n 2 (fib (nat (2 - 1))) (fib (nat 2)) = (fib (nat (n - 1)), fib (nat n))"
    by (intro fib_loop_spec) auto
  then have "fib_loop n 2 1 1 = (fib (nat (n - 1)), fib (nat n))"
    by (simp add: numeral_2_eq_2)
  with False \<open>1 \<le> n\<close> show ?thesis by (simp add: fibonacciEscalation_def)
qed (simp add: fibonacciEscalation_def fib_loop.simps)

section \<open>Escalation never shortens a block\<close>

definition escalates :: "escalation \<Rightarrow> bool" where
  "escalates f \<longleftrightarrow> (\<forall>n \<ge> 1. f n \<le> f (n + 1))"

lemma escalates_fixed: "escalates (fixedEscalation d)"
  by (simp add: escalates_def fixedEscalation_def)

lemma escalates_linear: "0 \<le> step \<Longrightarrow> escalates (linearEscalation base step)"
  by (simp add: escalates_def linearEscalation_def algebra_simps)

lemma escalates_exponential:
  assumes "0 \<le> base" "1 \<le> factor" shows "escalates (exponentialEscalation base factor)"
  unfolding escalates_def exponentialEscalation_def
  using assms by (auto intro!: mult_left_mono power_increasing)

lemma escalates_fibonacci: "0 \<le> base \<Longrightarrow> escalates (fibonacciEscalation base)"
  using fib_step_mono
  by (auto simp: escalates_def fibonacciEscalation_eq nat_add_distrib intro!: mult_left_mono)

lemma escalates_capped: "escalates f \<Longrightarrow> escalates (capped f m)"
  by (fastforce simp: escalates_def capped_def min_def)

section \<open>Properties\<close>

text \<open>The Fibonacci strategy's loop computes the Fibonacci sequence, scaled by the base duration.\<close>

theorem fibonacci_strategy_correct:
  assumes "1 \<le> n" shows "fibonacciEscalation base n = base * fib (nat n)"
  using assms by (rule fibonacciEscalation_eq)

theorem fibonacci_strategy_correct_witness: "fibonacciEscalation 100 6 = 800"
proof -
  have "fib (nat 6) = 8" by code_simp
  with fibonacci_strategy_correct [of 6 100] show ?thesis by simp
qed

text \<open>Every built-in strategy escalates (a later violation is never blocked for a shorter time)
  for non-negative parameters, also under a cap, and a cap is never exceeded.\<close>

theorem strategies_escalate:
  assumes "0 \<le> base" "0 \<le> step" "1 \<le> factor"
    and "f \<in> {fixedEscalation base, linearEscalation base step, exponentialEscalation base factor,
      fibonacciEscalation base}"
  shows "escalates f \<and> escalates (capped f m) \<and> capped f m n \<le> m"
  using assms escalates_fixed escalates_linear escalates_exponential escalates_fibonacci escalates_capped
  by (auto simp: capped_def)

theorem strategies_escalate_witness: "escalates (capped (exponentialEscalation 100 2) 1000)"
  using strategies_escalate [of 100 0 2 "exponentialEscalation 100 2" 1000 1] by simp

end
