(* ===== verification/Composed_Store.thy ===== *)
theory Composed_Store
  imports Memory_Store_Laws
begin

text \<open>
  Store composition, \<open>src/composition/ComposedStore.ts\<close>: a store built from labelled layers, each with
  its own backing store, in one of four modes. The backing stores live in a heap (from store
  references to store states), so that two layers can share a store; \<open>ops\<close> is the method table of
  the backing stores. A method of the composed store takes its own state and the heap and returns
  both.

  The concurrency of the source is resolved as follows: the increments that \<open>Promise.allSettled\<close>
  collects start in layer order, and the store whose promise settles first in \<open>race\<close> mode (or the
  timeout) is an argument of the definition. Labels are not array indices, so that object keys keep
  their insertion order.
\<close>

section \<open>Types\<close>

record layer =
  ly_label :: string
  ly_store :: nat
  ly_keyTransform :: "(key \<Rightarrow> key) option"
  ly_maxRequests :: js_value

datatype overflow_route = RoutePrimary | RouteBurst

record composed =
  cs_mode :: comp_mode
  cs_layers :: "layer list"
  cs_rollbackOnBlock :: bool
  cs_raceTimeoutMs :: int
  decrementStacks :: "(key, nat list list) jsmap"
  firstAvailableWinner :: "(key, nat) jsmap"
  overflowRoute :: "(key, overflow_route) jsmap"
  overflowRouteExpiryMs :: "(key, time) jsmap"
  lastIncrementByKey :: "(key, rl_result) jsmap"

type_synonym 's heap = "nat \<Rightarrow> 's"

section \<open>Helpers\<close>

definition defaultKeyTransform :: "key \<Rightarrow> key" where
  "defaultKeyTransform k = k"

definition mergeIncOpts :: "layer \<Rightarrow> inc_opts option \<Rightarrow> inc_opts option" where
  "mergeIncOpts l base =
     (let maxRequests = js_or (ly_maxRequests l) (opt_maxRequests base); cost = opt_cost base
      in if maxRequests = Undefined \<and> cost = Undefined \<and> base = None then None
         else Some \<lparr>io_maxRequests = maxRequests, io_cost = cost\<rparr>)"

definition emptyRow :: "time \<Rightarrow> bool \<Rightarrow> string option \<Rightarrow> layer_row" where
  "emptyRow now consulted err = LayerRow 0 0 now True consulted err None"

definition notConsultedRow :: "time \<Rightarrow> layer_row" where
  "notConsultedRow rt = LayerRow 0 0 rt False False None None"

definition isComposedIncrementResult :: "rl_result \<Rightarrow> bool" where
  "isComposedIncrementResult r \<longleftrightarrow> res_layers r \<noteq> None \<and> res_mode r \<noteq> None \<and> decidingLayer r \<noteq> None"

definition composeDecidingPath :: "string \<Rightarrow> rl_result \<Rightarrow> string" where
  "composeDecidingPath outerLabel r =
     (if \<not> isComposedIncrementResult r then outerLabel
      else outerLabel @ ''.'' @
        (case decidingPath r of Some p \<Rightarrow> p | None \<Rightarrow> (case decidingLayer r of Some l \<Rightarrow> l | None \<Rightarrow> '''')))"

definition rowFromRateLimitResult :: "rl_result \<Rightarrow> layer_row" where
  "rowFromRateLimitResult r =
     LayerRow (totalHits r) (remaining r) (resetTime r) (isBlocked r) True None
       (if isComposedIncrementResult r then res_layers r else None)"

section \<open>Staleness of cached results\<close>

fun maxLayerResetTimeMsDeep :: "(string \<times> layer_row) list \<Rightarrow> time" where
  "maxLayerResetTimeMsDeep [] = 0"
| "maxLayerResetTimeMsDeep ((lb, LayerRow th re rt b c e None) # rows) =
     max rt (maxLayerResetTimeMsDeep rows)"
| "maxLayerResetTimeMsDeep ((lb, LayerRow th re rt b c e (Some inner)) # rows) =
     max rt (max (maxLayerResetTimeMsDeep inner) (maxLayerResetTimeMsDeep rows))"

definition isIncrementResultStale :: "rl_result \<Rightarrow> time \<Rightarrow> bool" where
  "isIncrementResultStale r now =
     (case res_layers r of
        None \<Rightarrow> True
      | Some rows \<Rightarrow> if rows = [] then True else now \<ge> maxLayerResetTimeMsDeep rows)"

section \<open>Construction\<close>

text \<open>\<open>windowLengthOf\<close> stands for \<open>store instanceof MemoryStore\<close> and its \<open>getWindowLengthMs()\<close>. The
  result carries the warnings printed.\<close>

definition overflow_warning :: "(nat \<Rightarrow> int option) \<Rightarrow> comp_mode \<Rightarrow> layer list \<Rightarrow> bool" where
  "overflow_warning windowLengthOf m ls =
     (m = ModeOverflow \<and> length ls = 2 \<and>
      (case (windowLengthOf (ly_store (ls ! 0)), windowLengthOf (ly_store (ls ! 1))) of
         (Some pw, Some bw) \<Rightarrow> bw < pw | _ \<Rightarrow> False))"

fun first_duplicate :: "string list \<Rightarrow> string list \<Rightarrow> string option" where
  "first_duplicate seen [] = None"
| "first_duplicate seen (l # ls) = (if l \<in> set seen then Some l else first_duplicate (l # seen) ls)"

definition new_ComposedStore ::
  "(nat \<Rightarrow> int option) \<Rightarrow> comp_mode \<Rightarrow> layer list \<Rightarrow> bool option \<Rightarrow> int option \<Rightarrow> string + composed \<times> bool" where
  "new_ComposedStore windowLengthOf m ls rollback timeout =
     (if ls = [] then Inl ''ComposedStore requires at least one layer''
      else case first_duplicate [] (map ly_label ls) of
        Some d \<Rightarrow> Inl (''ComposedStore: duplicate layer label '' @ [CHR 0x22] @ d @ [CHR 0x22])
      | None \<Rightarrow>
          if m = ModeOverflow \<and> length ls \<noteq> 2
          then Inl ''ComposedStore mode 'overflow' requires exactly two layers (primary, burst)''
          else Inr (\<lparr>cs_mode = m, cs_layers = ls, cs_rollbackOnBlock = (rollback \<noteq> Some False),
                     cs_raceTimeoutMs = (case timeout of None \<Rightarrow> 5000 | Some t \<Rightarrow> t),
                     decrementStacks = [], firstAvailableWinner = [], overflowRoute = [],
                     overflowRouteExpiryMs = [], lastIncrementByKey = []\<rparr>,
                    overflow_warning windowLengthOf m ls))"

section \<open>Keys and frames\<close>

definition layerKey :: "layer \<Rightarrow> key \<Rightarrow> key" where
  "layerKey l k = (case ly_keyTransform l of None \<Rightarrow> defaultKeyTransform k | Some t \<Rightarrow> t k)"

definition overflowBurstKey :: "layer \<Rightarrow> key \<Rightarrow> key" where
  "overflowBurstKey burst k = (case ly_keyTransform burst of Some t \<Rightarrow> t k | None \<Rightarrow> ''burst:'' @ k)"

definition overflowStorageKey :: "composed \<Rightarrow> nat \<Rightarrow> key \<Rightarrow> key" where
  "overflowStorageKey c layerIndex k =
     (if layerIndex = 1 then overflowBurstKey (cs_layers c ! 1) k else layerKey (cs_layers c ! layerIndex) k)"

definition clearOverflowRouteState :: "key \<Rightarrow> composed \<Rightarrow> composed" where
  "clearOverflowRouteState k c =
     c\<lparr>overflowRoute := AList.delete k (overflowRoute c),
       overflowRouteExpiryMs := AList.delete k (overflowRouteExpiryMs c)\<rparr>"

definition sweepOverflowRouteIfExpired :: "time \<Rightarrow> key \<Rightarrow> composed \<Rightarrow> composed" where
  "sweepOverflowRouteIfExpired now k c =
     (case map_of (overflowRouteExpiryMs c) k of
        Some e \<Rightarrow> if now \<ge> e then clearOverflowRouteState k c else c
      | None \<Rightarrow> c)"

definition setOverflowRoute :: "key \<Rightarrow> overflow_route \<Rightarrow> time \<Rightarrow> composed \<Rightarrow> composed" where
  "setOverflowRoute k r e c =
     c\<lparr>overflowRoute := AList.update k r (overflowRoute c),
       overflowRouteExpiryMs := AList.update k e (overflowRouteExpiryMs c)\<rparr>"

definition pushFrame :: "key \<Rightarrow> nat list \<Rightarrow> composed \<Rightarrow> composed" where
  "pushFrame k indices c =
     (let s = (case map_of (decrementStacks c) k of None \<Rightarrow> [] | Some s \<Rightarrow> s)
      in c\<lparr>decrementStacks := AList.update k (s @ [indices]) (decrementStacks c)\<rparr>)"

definition popFrame :: "key \<Rightarrow> composed \<Rightarrow> nat list option \<times> composed" where
  "popFrame k c =
     (case map_of (decrementStacks c) k of
        None \<Rightarrow> (None, c)
      | Some s \<Rightarrow>
          if s = [] then (None, c)
          else (Some (last s),
                c\<lparr>decrementStacks :=
                    (if butlast s = [] then AList.delete k (decrementStacks c)
                     else AList.update k (butlast s) (decrementStacks c))\<rparr>))"

section \<open>Calls into the layers\<close>

definition layer_increment ::
  "'s store_ops \<Rightarrow> time \<Rightarrow> key \<Rightarrow> inc_opts option \<Rightarrow> layer \<Rightarrow> 's heap \<Rightarrow> (string + rl_result) \<times> 's heap" where
  "layer_increment ops now k o' l h =
     (let (r, s') = op_increment ops now k o' (h (ly_store l)) in (r, h(ly_store l := s')))"

text \<open>\<open>store.decrement(\<dots>).catch(() => {})\<close>.\<close>

definition layer_decrement ::
  "'s store_ops \<Rightarrow> time \<Rightarrow> key \<Rightarrow> dec_opts option \<Rightarrow> layer \<Rightarrow> 's heap \<Rightarrow> 's heap" where
  "layer_decrement ops now k d l h =
     (let (r, s') = op_decrement ops now k d (h (ly_store l)) in h(ly_store l := s'))"

definition rollbackSuccess ::
  "'s store_ops \<Rightarrow> time \<Rightarrow> key \<Rightarrow> inc_opts option \<Rightarrow> rl_result \<Rightarrow> layer \<Rightarrow> 's heap \<Rightarrow> 's heap" where
  "rollbackSuccess ops now storageKey incOpts result l h =
     (if isBlocked result then h
      else layer_decrement ops now storageKey
             (Some ((matchingDecrementOptions (opt_cost incOpts))\<lparr>do_removeNewest := True\<rparr>)) l h)"

fun settle_layers ::
  "'s store_ops \<Rightarrow> time \<Rightarrow> key \<Rightarrow> inc_opts option \<Rightarrow> layer list \<Rightarrow> 's heap \<Rightarrow> (string + rl_result) list \<times> 's heap" where
  "settle_layers ops now k o' [] h = ([], h)"
| "settle_layers ops now k o' (l # ls) h =
     (let (r, h1) = layer_increment ops now (layerKey l k) (mergeIncOpts l o') l h;
          (rs, h2) = settle_layers ops now k o' ls h1
      in (r # rs, h2))"

definition row_of :: "time \<Rightarrow> string + rl_result \<Rightarrow> layer_row" where
  "row_of now st = (case st of Inl e \<Rightarrow> emptyRow now True (Some e) | Inr r \<Rightarrow> rowFromRateLimitResult r)"

definition rows_of :: "time \<Rightarrow> layer list \<Rightarrow> (string + rl_result) list \<Rightarrow> (string \<times> layer_row) list" where
  "rows_of now ls settled = map (\<lambda>(l, st). (ly_label l, row_of now st)) (zip ls settled)"

definition fulfilled_of :: "(string + rl_result) list \<Rightarrow> rl_result list" where
  "fulfilled_of settled = concat (map (\<lambda>st. case st of Inl _ \<Rightarrow> [] | Inr r \<Rightarrow> [r]) settled)"

fun rollback_layers ::
  "'s store_ops \<Rightarrow> time \<Rightarrow> key \<Rightarrow> inc_opts option \<Rightarrow> (layer \<times> (string + rl_result)) list \<Rightarrow> 's heap \<Rightarrow> 's heap" where
  "rollback_layers ops now k o' [] h = h"
| "rollback_layers ops now k o' ((l, st) # rest) h =
     rollback_layers ops now k o' rest
       (case st of
          Inl _ \<Rightarrow> h
        | Inr r \<Rightarrow> rollbackSuccess ops now (layerKey l k) (mergeIncOpts l o') r l h)"

section \<open>Increment, mode all\<close>

function tightLoop :: "rl_result list \<Rightarrow> nat \<Rightarrow> nat \<Rightarrow> nat" where
  "tightLoop rs i tightIdx =
     (if i < length rs
      then tightLoop rs (Suc i) (if remaining (rs ! i) < remaining (rs ! tightIdx) then i else tightIdx)
      else tightIdx)"
  by pat_completeness auto
termination by (relation "measure (\<lambda>(rs, i, t). length rs - i)") auto

declare tightLoop.simps [simp del]

definition all_deciding :: "layer list \<Rightarrow> (string + rl_result) list \<Rightarrow> string" where
  "all_deciding ls settled =
     (case find (\<lambda>(l, st). case st of Inl _ \<Rightarrow> True | Inr _ \<Rightarrow> False) (zip ls settled) of
        Some (l, _) \<Rightarrow> ly_label l
      | None \<Rightarrow>
          (case find (\<lambda>(l, st). case st of Inl _ \<Rightarrow> False | Inr r \<Rightarrow> isBlocked r) (zip ls settled) of
             Some (l, _) \<Rightarrow> ly_label l
           | None \<Rightarrow> ly_label (hd ls)))"

definition all_deciding_path :: "layer list \<Rightarrow> (string + rl_result) list \<Rightarrow> string option" where
  "all_deciding_path ls settled =
     (let deciding = all_deciding ls settled
      in if list_ex (\<lambda>st. case st of Inl _ \<Rightarrow> True | Inr _ \<Rightarrow> False) settled then Some deciding
         else (case find (\<lambda>(l, st). ly_label l = deciding) (zip ls settled) of
                 Some (l, Inr r) \<Rightarrow> Some (composeDecidingPath (ly_label l) r)
               | _ \<Rightarrow> None))"

definition all_blocked_result :: "time \<Rightarrow> layer list \<Rightarrow> (string + rl_result) list \<Rightarrow> rl_result" where
  "all_blocked_result now ls settled =
     (let fulfilled = fulfilled_of settled;
          blockedResults = filter isBlocked fulfilled
      in \<lparr>totalHits = (if fulfilled \<noteq> [] then Max (set (map totalHits fulfilled)) else 0),
          remaining = (if fulfilled \<noteq> [] then Min (set (map remaining fulfilled)) else 0),
          resetTime =
            (if blockedResults \<noteq> [] then Min (set (map resetTime blockedResults))
             else if fulfilled \<noteq> [] then Min (set (map resetTime fulfilled)) else now),
          isBlocked = True,
          storeUnavailable = list_ex storeUnavailable fulfilled,
          res_mode = Some ModeAll,
          decidingLayer = Some (all_deciding ls settled),
          decidingPath = all_deciding_path ls settled,
          res_layers = Some (rows_of now ls settled)\<rparr>)"

definition all_allowed_result :: "time \<Rightarrow> layer list \<Rightarrow> (string + rl_result) list \<Rightarrow> rl_result" where
  "all_allowed_result now ls settled =
     (let fulfilled = fulfilled_of settled; tightIdx = tightLoop fulfilled 1 0
      in \<lparr>totalHits = Max (set (map totalHits fulfilled)),
          remaining = Min (set (map remaining fulfilled)),
          resetTime = Min (set (map resetTime fulfilled)),
          isBlocked = False,
          storeUnavailable = list_ex storeUnavailable fulfilled,
          res_mode = Some ModeAll,
          decidingLayer = Some (ly_label (ls ! tightIdx)),
          decidingPath = Some (composeDecidingPath (ly_label (ls ! tightIdx)) (fulfilled ! tightIdx)),
          res_layers = Some (rows_of now ls settled)\<rparr>)"

definition settled_ok :: "string + rl_result \<Rightarrow> bool" where
  "settled_ok st = (case st of Inl _ \<Rightarrow> False | Inr r \<Rightarrow> \<not> isBlocked r)"

definition incrementAll ::
  "'s store_ops \<Rightarrow> time \<Rightarrow> key \<Rightarrow> inc_opts option \<Rightarrow> composed \<Rightarrow> 's heap \<Rightarrow> rl_result \<times> composed \<times> 's heap" where
  "incrementAll ops now k o' c h =
     (let (settled, h1) = settle_layers ops now k o' (cs_layers c) h;
          anyBlocked = list_ex (\<lambda>st. \<not> settled_ok st) settled
      in if anyBlocked
         then (all_blocked_result now (cs_layers c) settled, c,
               if cs_rollbackOnBlock c then rollback_layers ops now k o' (zip (cs_layers c) settled) h1 else h1)
         else (all_allowed_result now (cs_layers c) settled,
               pushFrame k [0..<length (cs_layers c)] c, h1))"

section \<open>Increment, mode overflow\<close>

definition with_mode ::
  "comp_mode \<Rightarrow> string \<Rightarrow> string option \<Rightarrow> (string \<times> layer_row) list \<Rightarrow> rl_result \<Rightarrow> rl_result" where
  "with_mode m dl dp rows r =
     r\<lparr>res_mode := Some m, decidingLayer := Some dl, decidingPath := dp, res_layers := Some rows\<rparr>"

definition incrementOverflow ::
  "'s store_ops \<Rightarrow> time \<Rightarrow> key \<Rightarrow> inc_opts option \<Rightarrow> composed \<Rightarrow> 's heap \<Rightarrow>
   (string + rl_result) \<times> composed \<times> 's heap" where
  "incrementOverflow ops now k o' c0 h =
     (let c = sweepOverflowRouteIfExpired now k c0;
          primary = cs_layers c ! 0; burst = cs_layers c ! 1;
          pk = layerKey primary k; bk = overflowBurstKey burst k
      in case layer_increment ops now pk (mergeIncOpts primary o') primary h of
           (Inl e, h1) \<Rightarrow> (Inl e, c, h1)
         | (Inr pr, h1) \<Rightarrow>
             if \<not> isBlocked pr
             then (Inr (with_mode ModeOverflow (ly_label primary) (Some (composeDecidingPath (ly_label primary) pr))
                          [(ly_label primary, rowFromRateLimitResult pr),
                           (ly_label burst, LayerRow 0 0 (resetTime pr) True False None None)] pr),
                   setOverflowRoute k RoutePrimary (resetTime pr) (pushFrame k [0] c), h1)
             else
               (case layer_increment ops now bk (mergeIncOpts burst o') burst h1 of
                  (Inl e, h2) \<Rightarrow> (Inl e, c, h2)
                | (Inr br, h2) \<Rightarrow>
                    let soonest = min (resetTime pr) (resetTime br);
                        rows = [(ly_label primary, rowFromRateLimitResult pr),
                                (ly_label burst, rowFromRateLimitResult br)];
                        out = (\<lambda>th re b. Inr \<lparr>totalHits = th, remaining = re, resetTime = soonest, isBlocked = b,
                                 storeUnavailable = (storeUnavailable pr \<or> storeUnavailable br),
                                 res_mode = Some ModeOverflow, decidingLayer = Some (ly_label burst),
                                 decidingPath = Some (composeDecidingPath (ly_label burst) br),
                                 res_layers = Some rows\<rparr>)
                    in if \<not> isBlocked br
                       then (out (totalHits pr) (remaining br) False,
                             setOverflowRoute k RouteBurst soonest (pushFrame k [1] c), h2)
                       else (out (max (totalHits pr) (totalHits br)) 0 True,
                             setOverflowRoute k RouteBurst soonest c, h2)))"

section \<open>Increment, mode first-available\<close>

text \<open>The loop: the layers tried so far (rows), the last blocked result and the last label.\<close>

fun firstAvailableLoop ::
  "'s store_ops \<Rightarrow> time \<Rightarrow> key \<Rightarrow> inc_opts option \<Rightarrow> layer list \<Rightarrow> nat \<Rightarrow> (string \<times> layer_row) list \<Rightarrow>
   rl_result option \<Rightarrow> string \<Rightarrow> 's heap \<Rightarrow>
   (nat \<times> layer \<times> rl_result) option \<times> (string \<times> layer_row) list \<times> rl_result option \<times> string \<times> 's heap" where
  "firstAvailableLoop ops now k o' [] i rows lastBlocked lastLabel h = (None, rows, lastBlocked, lastLabel, h)"
| "firstAvailableLoop ops now k o' (l # ls) i rows lastBlocked lastLabel h =
     (case layer_increment ops now (layerKey l k) (mergeIncOpts l o') l h of
        (Inl e, h1) \<Rightarrow>
          firstAvailableLoop ops now k o' ls (Suc i)
            (AList.update (ly_label l) (emptyRow now True (Some e)) rows) lastBlocked (ly_label l) h1
      | (Inr r, h1) \<Rightarrow>
          let rows1 = AList.update (ly_label l) (rowFromRateLimitResult r) rows
          in if \<not> isBlocked r
             then (Some (i, l, r),
                   fold (\<lambda>lj m. AList.update (ly_label lj) (notConsultedRow (resetTime r)) m) ls rows1,
                   Some r, ly_label l, h1)
             else firstAvailableLoop ops now k o' ls (Suc i) rows1 (Some r) (ly_label l) h1)"

definition incrementFirstAvailable ::
  "'s store_ops \<Rightarrow> time \<Rightarrow> key \<Rightarrow> inc_opts option \<Rightarrow> composed \<Rightarrow> 's heap \<Rightarrow> rl_result \<times> composed \<times> 's heap" where
  "incrementFirstAvailable ops now k o' c h =
     (case firstAvailableLoop ops now k o' (cs_layers c) 0 [] None (ly_label (hd (cs_layers c))) h of
        (Some (i, l, r), rows, _, _, h1) \<Rightarrow>
          (with_mode ModeFirstAvailable (ly_label l) (Some (composeDecidingPath (ly_label l) r)) rows r,
           pushFrame k [i] (c\<lparr>firstAvailableWinner := AList.update k i (firstAvailableWinner c)\<rparr>), h1)
      | (None, rows, lastBlocked, lastLabel, h1) \<Rightarrow>
          (let results = filter (\<lambda>row. row_consulted row \<and> row_error row = None)
                           (concat (map (\<lambda>l. case map_of rows (ly_label l) of None \<Rightarrow> [] | Some row \<Rightarrow> [row])
                              (cs_layers c)));
               resetTimes = map row_resetTime results
           in (\<lparr>totalHits = (case lastBlocked of None \<Rightarrow> 0 | Some b \<Rightarrow> totalHits b), remaining = 0,
                resetTime =
                  (if resetTimes \<noteq> [] then Min (set resetTimes)
                   else case lastBlocked of None \<Rightarrow> now | Some b \<Rightarrow> resetTime b),
                isBlocked = True,
                storeUnavailable = (case lastBlocked of None \<Rightarrow> False | Some b \<Rightarrow> storeUnavailable b),
                res_mode = Some ModeFirstAvailable, decidingLayer = Some lastLabel,
                decidingPath = Some (case lastBlocked of None \<Rightarrow> lastLabel | Some b \<Rightarrow> composeDecidingPath lastLabel b),
                res_layers = Some rows\<rparr>, c, h1)))"

section \<open>Increment, mode race\<close>

text \<open>\<open>first\<close> is the layer whose promise settles first; \<open>None\<close> when the timeout comes before all.\<close>

definition race_winner :: "(string + rl_result) list \<Rightarrow> nat \<Rightarrow> nat option" where
  "race_winner settled i =
     (case settled ! i of
        Inr _ \<Rightarrow> Some i
      | Inl _ \<Rightarrow> find (\<lambda>j. case settled ! j of Inr _ \<Rightarrow> True | Inl _ \<Rightarrow> False) [0..<length settled])"

definition incrementRace ::
  "'s store_ops \<Rightarrow> time \<Rightarrow> nat option \<Rightarrow> key \<Rightarrow> inc_opts option \<Rightarrow> composed \<Rightarrow> 's heap \<Rightarrow>
   (string + rl_result) \<times> composed \<times> 's heap" where
  "incrementRace ops now first k o' c h =
     (let ls = cs_layers c; (settled, h1) = settle_layers ops now k o' ls h
      in case first of
           None \<Rightarrow>
             (Inr (with_mode ModeRace ''timeout'' None
                (map (\<lambda>l. (ly_label l, LayerRow 0 0 now True True (Some ''pending'') None)) ls)
                (plain_result 0 0 now True)), c, h1)
         | Some i \<Rightarrow>
             (case race_winner settled i of
                None \<Rightarrow>
                  (Inr ((with_mode ModeRace (ly_label (hd ls)) (Some (ly_label (hd ls))) (rows_of now ls settled)
                     (plain_result 0 0 now True))\<lparr>storeUnavailable := True\<rparr>), c, h1)
              | Some w \<Rightarrow>
                  (case settled ! w of
                     Inl _ \<Rightarrow> (Inl ''ComposedStore race: winning layer increment is not fulfilled'', c, h1)
                   | Inr winnerR \<Rightarrow>
                       (Inr (with_mode ModeRace (ly_label (ls ! w)) (Some (composeDecidingPath (ly_label (ls ! w)) winnerR))
                          (rows_of now ls settled) winnerR),
                        pushFrame k [w] c,
                        rollback_layers ops now k o'
                          (map (\<lambda>j. (ls ! j, settled ! j)) (filter (\<lambda>j. j \<noteq> w) [0..<length ls])) h1))))"

section \<open>The public methods\<close>

definition evictStaleLastIncrementEntries :: "time \<Rightarrow> composed \<Rightarrow> composed" where
  "evictStaleLastIncrementEntries now c =
     c\<lparr>lastIncrementByKey := filter (\<lambda>(k, r). \<not> isIncrementResultStale r now) (lastIncrementByKey c)\<rparr>"

definition recordLastIncrementResult :: "time \<Rightarrow> key \<Rightarrow> rl_result \<Rightarrow> composed \<Rightarrow> composed" where
  "recordLastIncrementResult now k r c =
     (let c1 = (if length (lastIncrementByKey c) > 10000 then evictStaleLastIncrementEntries now c else c)
      in c1\<lparr>lastIncrementByKey := AList.update k r (lastIncrementByKey c1)\<rparr>)"

definition cs_increment ::
  "'s store_ops \<Rightarrow> time \<Rightarrow> nat option \<Rightarrow> key \<Rightarrow> inc_opts option \<Rightarrow> composed \<Rightarrow> 's heap \<Rightarrow>
   (string + rl_result) \<times> composed \<times> 's heap" where
  "cs_increment ops now first k o' c h =
     (let (res, c1, h1) =
        (case cs_mode c of
           ModeAll \<Rightarrow> (let (r, c1, h1) = incrementAll ops now k o' c h in (Inr r, c1, h1))
         | ModeOverflow \<Rightarrow> incrementOverflow ops now k o' c h
         | ModeFirstAvailable \<Rightarrow>
             (let (r, c1, h1) = incrementFirstAvailable ops now k o' c h in (Inr r, c1, h1))
         | ModeRace \<Rightarrow> incrementRace ops now first k o' c h)
      in case res of
           Inl e \<Rightarrow> (Inl e, c1, h1)
         | Inr r \<Rightarrow> (Inr r, recordLastIncrementResult now k r c1, h1))"

definition getLayerResults :: "time \<Rightarrow> key \<Rightarrow> composed \<Rightarrow> (string \<times> layer_row) list option \<times> composed" where
  "getLayerResults now k c =
     (let c1 = evictStaleLastIncrementEntries now c
      in case map_of (lastIncrementByKey c1) k of
           None \<Rightarrow> (None, c1)
         | Some r \<Rightarrow>
             if isIncrementResultStale r now
             then (None, c1\<lparr>lastIncrementByKey := AList.delete k (lastIncrementByKey c1)\<rparr>)
             else (res_layers r, c1))"

definition rollbackDraftForBlockedIncrement ::
  "'s store_ops \<Rightarrow> time \<Rightarrow> key \<Rightarrow> (string \<times> layer_row) list \<Rightarrow> dec_opts option \<Rightarrow> composed \<Rightarrow> 's heap \<Rightarrow> 's heap" where
  "rollbackDraftForBlockedIncrement ops now k rows options c h =
     (if cs_mode c \<noteq> ModeAll then h
      else fold (\<lambda>l h. case map_of rows (ly_label l) of
                   Some row \<Rightarrow>
                     if row_consulted row \<and> row_isBlocked row \<and> (case row_error row of None \<Rightarrow> True | Some e \<Rightarrow> e = '''')
                     then layer_decrement ops now (layerKey l k)
                            (Some (matchingDecrementOptions (opt_dec_cost options))) l h
                     else h
                 | None \<Rightarrow> h)
             (cs_layers c) h)"

definition decrement_index ::
  "'s store_ops \<Rightarrow> time \<Rightarrow> key \<Rightarrow> dec_opts option \<Rightarrow> layer list \<Rightarrow> nat \<Rightarrow> 's heap \<Rightarrow> 's heap" where
  "decrement_index ops now k d ls idx h =
     (if idx < length ls then layer_decrement ops now (layerKey (ls ! idx) k) d (ls ! idx) h else h)"

definition cs_decrement ::
  "'s store_ops \<Rightarrow> time \<Rightarrow> key \<Rightarrow> dec_opts option \<Rightarrow> composed \<Rightarrow> 's heap \<Rightarrow> composed \<times> 's heap" where
  "cs_decrement ops now k d c h =
     (case cs_mode c of
        ModeFirstAvailable \<Rightarrow>
          (let c1 = c\<lparr>firstAvailableWinner := AList.delete k (firstAvailableWinner c)\<rparr>
           in case map_of (firstAvailableWinner c) k of
                Some idx \<Rightarrow> (c1, decrement_index ops now k d (cs_layers c) idx h)
              | None \<Rightarrow> (c1, decrement_index ops now k d (cs_layers c) 0 h))
      | ModeOverflow \<Rightarrow>
          (let (frame, c1) = popFrame k c;
               h1 = (case frame of
                       Some (idx # _) \<Rightarrow>
                         if idx < length (cs_layers c)
                         then layer_decrement ops now (overflowStorageKey c idx k) d (cs_layers c ! idx) h
                         else h
                     | _ \<Rightarrow> h)
           in (if jsmap_has (decrementStacks c1) k then c1 else clearOverflowRouteState k c1, h1))
      | _ \<Rightarrow>
          (case popFrame k c of
             (None, c1) \<Rightarrow> (c1, h)
           | (Some frame, c1) \<Rightarrow> (c1, fold (decrement_index ops now k d (cs_layers c)) frame h)))"

fun reset_layers ::
  "'s store_ops \<Rightarrow> time \<Rightarrow> key \<Rightarrow> layer list \<Rightarrow> 's heap \<Rightarrow> (string + unit) \<times> 's heap" where
  "reset_layers ops now k [] h = (Inr (), h)"
| "reset_layers ops now k (l # ls) h =
     (let (r, s') = op_reset ops now (layerKey l k) (h (ly_store l));
          (rs, h2) = reset_layers ops now k ls (h(ly_store l := s'))
      in (case r of Inl e \<Rightarrow> Inl e | Inr _ \<Rightarrow> rs, h2))"

definition forget_key :: "key \<Rightarrow> composed \<Rightarrow> composed" where
  "forget_key k c =
     (clearOverflowRouteState k
        (c\<lparr>decrementStacks := AList.delete k (decrementStacks c),
           firstAvailableWinner := AList.delete k (firstAvailableWinner c)\<rparr>))
      \<lparr>lastIncrementByKey := AList.delete k (lastIncrementByKey c)\<rparr>"

definition cs_reset ::
  "'s store_ops \<Rightarrow> time \<Rightarrow> key \<Rightarrow> composed \<Rightarrow> 's heap \<Rightarrow> (string + unit) \<times> composed \<times> 's heap" where
  "cs_reset ops now k c h =
     (let c1 = forget_key k c
      in if cs_mode c = ModeOverflow
         then (let primary = cs_layers c ! 0; burst = cs_layers c ! 1
               in case op_reset ops now (layerKey primary k) (h (ly_store primary)) of
                    (Inl e, s') \<Rightarrow> (Inl e, c1, h(ly_store primary := s'))
                  | (Inr _, s') \<Rightarrow>
                      (let h1 = h(ly_store primary := s');
                           (r, s2) = op_reset ops now (overflowBurstKey burst k) (h1 (ly_store burst))
                       in (r, c1, h1(ly_store burst := s2))))
         else (let (r, h1) = reset_layers ops now k (cs_layers c) h in (r, c1, h1)))"

fun shutdown_layers :: "'s store_ops \<Rightarrow> layer list \<Rightarrow> 's heap \<Rightarrow> (string + unit) \<times> 's heap" where
  "shutdown_layers ops [] h = (Inr (), h)"
| "shutdown_layers ops (l # ls) h =
     (let (r, s') = op_shutdown ops (h (ly_store l));
          (rs, h2) = shutdown_layers ops ls (h(ly_store l := s'))
      in (case r of Inl e \<Rightarrow> Inl e | Inr _ \<Rightarrow> rs, h2))"

definition cs_shutdown :: "'s store_ops \<Rightarrow> composed \<Rightarrow> 's heap \<Rightarrow> (string + unit) \<times> composed \<times> 's heap" where
  "cs_shutdown ops c h =
     (let c1 = c\<lparr>decrementStacks := [], firstAvailableWinner := [], overflowRoute := [],
                 overflowRouteExpiryMs := [], lastIncrementByKey := []\<rparr>;
          (r, h1) = shutdown_layers ops (cs_layers c) h
      in (r, c1, h1))"

fun active_layers ::
  "'s store_ops \<Rightarrow> time \<Rightarrow> layer list \<Rightarrow> (key \<times> active_entry) list \<Rightarrow> 's heap \<Rightarrow> (key \<times> active_entry) list \<times> 's heap" where
  "active_layers ops now [] out h = (out, h)"
| "active_layers ops now (l # ls) out h =
     (case op_getActiveKeys ops of
        None \<Rightarrow> active_layers ops now ls out h
      | Some g \<Rightarrow>
          (let (m, s') = g now (h (ly_store l))
           in active_layers ops now ls
                (fold (\<lambda>(k, v) acc. AList.update (ly_label l @ '':'' @ k) v acc) m out) (h(ly_store l := s'))))"

definition cs_getActiveKeys :: "'s store_ops \<Rightarrow> time \<Rightarrow> composed \<Rightarrow> 's heap \<Rightarrow> (key \<times> active_entry) list \<times> 's heap" where
  "cs_getActiveKeys ops now c h = active_layers ops now (cs_layers c) [] h"

definition cs_resetAll :: "'s store_ops \<Rightarrow> composed \<Rightarrow> 's heap \<Rightarrow> 's heap" where
  "cs_resetAll ops c h =
     (case op_resetAll ops of
        None \<Rightarrow> h
      | Some f \<Rightarrow> fold (\<lambda>l h. h(ly_store l := f (h (ly_store l)))) (cs_layers c) h)"


section \<open>Layers with their own stores decide independently\<close>

text \<open>The answer and the new state of one layer, asked on its own.\<close>

definition layer_alone ::
  "'s store_ops \<Rightarrow> time \<Rightarrow> key \<Rightarrow> inc_opts option \<Rightarrow> 's heap \<Rightarrow> layer \<Rightarrow> (string + rl_result) \<times> 's" where
  "layer_alone ops now k o' h l =
     op_increment ops now (layerKey l k) (mergeIncOpts l o') (h (ly_store l))"

lemma layer_increment_alone:
  "layer_increment ops now (layerKey l k) (mergeIncOpts l o') l h =
     (fst (layer_alone ops now k o' h l), h(ly_store l := snd (layer_alone ops now k o' h l)))"
  by (simp add: layer_increment_def layer_alone_def case_prod_beta)

lemma layer_alone_cong: "h (ly_store l) = h' (ly_store l) \<Longrightarrow> layer_alone ops now k o' h l = layer_alone ops now k o' h' l"
  by (simp add: layer_alone_def)

lemma layer_alone_other [simp]:
  "sid \<noteq> ly_store l \<Longrightarrow> layer_alone ops now k o' (h(sid := x)) l = layer_alone ops now k o' h l"
  by (simp add: layer_alone_def)

lemma settle_layers_alone:
  "distinct (map ly_store ls) \<Longrightarrow> settle_layers ops now k o' ls h = (rs, h') \<Longrightarrow>
   rs = map (\<lambda>l. fst (layer_alone ops now k o' h l)) ls \<and>
   (\<forall>l \<in> set ls. h' (ly_store l) = snd (layer_alone ops now k o' h l)) \<and>
   (\<forall>sid. sid \<notin> ly_store ` set ls \<longrightarrow> h' sid = h sid)"
proof (induction ls arbitrary: h rs h')
  case (Cons l ls)
  define h1 where "h1 = h(ly_store l := snd (layer_alone ops now k o' h l))"
  obtain rs2 where tl: "settle_layers ops now k o' ls h1 = (rs2, h')"
    and rs: "rs = fst (layer_alone ops now k o' h l) # rs2"
    using Cons.prems(2) by (auto simp: layer_increment_alone h1_def split: prod.splits)
  have alone: "layer_alone ops now k o' h1 m = layer_alone ops now k o' h m" if "m \<in> set ls" for m
    unfolding h1_def by (rule layer_alone_other) (use that Cons.prems(1) in force)
  have "distinct (map ly_store ls)" using Cons.prems(1) by simp
  note ih = Cons.IH [OF this tl]
  have "map (\<lambda>m. fst (layer_alone ops now k o' h1 m)) ls = map (\<lambda>m. fst (layer_alone ops now k o' h m)) ls"
    using alone by (intro map_cong) auto
  moreover have "h' (ly_store l) = snd (layer_alone ops now k o' h l)"
    using ih Cons.prems(1) by (auto simp: h1_def)
  moreover have "\<forall>sid. sid \<notin> ly_store ` set (l # ls) \<longrightarrow> h' sid = h sid"
    using ih by (auto simp: h1_def)
  ultimately show ?case using ih rs alone by auto
qed simp

lemma incrementAll_decision:
  assumes "distinct (map ly_store (cs_layers c))" "incrementAll ops now k o' c h = (r, c', h')"
  shows "isBlocked r \<longleftrightarrow> (\<exists>l \<in> set (cs_layers c). \<not> settled_ok (fst (layer_alone ops now k o' h l)))"
proof -
  obtain rs h1 where st: "settle_layers ops now k o' (cs_layers c) h = (rs, h1)" by fastforce
  have "rs = map (\<lambda>l. fst (layer_alone ops now k o' h l)) (cs_layers c)"
    using settle_layers_alone [OF assms(1) st] by simp
  with assms(2) st show ?thesis
    by (auto simp: incrementAll_def all_blocked_result_def all_allowed_result_def Let_def list_ex_iff
        split: if_splits)
qed

section \<open>Rollback\<close>

lemma layer_decrement_state:
  "layer_decrement ops now k d l h = h(ly_store l := snd (op_decrement ops now k d (h (ly_store l))))"
  by (simp add: layer_decrement_def case_prod_beta)

definition undo_opts :: "inc_opts option \<Rightarrow> dec_opts option" where
  "undo_opts o' = Some ((matchingDecrementOptions (opt_cost o'))\<lparr>do_removeNewest := True\<rparr>)"

definition rolled_back ::
  "'s store_ops \<Rightarrow> time \<Rightarrow> key \<Rightarrow> inc_opts option \<Rightarrow> layer \<Rightarrow> string + rl_result \<Rightarrow> 's \<Rightarrow> 's" where
  "rolled_back ops now k o' l st s =
     (if settled_ok st then snd (op_decrement ops now (layerKey l k) (undo_opts (mergeIncOpts l o')) s) else s)"

lemma rollback_step:
  "(case st of Inl _ \<Rightarrow> h | Inr r \<Rightarrow> rollbackSuccess ops now (layerKey l k) (mergeIncOpts l o') r l h) =
   h(ly_store l := rolled_back ops now k o' l st (h (ly_store l)))"
  by (auto simp: rollbackSuccess_def layer_decrement_state rolled_back_def settled_ok_def undo_opts_def
      split: sum.splits)

lemma rollback_layers_alone:
  "distinct (map (\<lambda>p. ly_store (fst p)) ps) \<Longrightarrow>
   (\<forall>p \<in> set ps. rollback_layers ops now k o' ps h (ly_store (fst p)) =
      rolled_back ops now k o' (fst p) (snd p) (h (ly_store (fst p)))) \<and>
   (\<forall>sid. (\<forall>p \<in> set ps. ly_store (fst p) \<noteq> sid) \<longrightarrow> rollback_layers ops now k o' ps h sid = h sid)"
proof (induction ps arbitrary: h)
  case (Cons p ps)
  obtain l st where p: "p = (l, st)" by (cases p)
  define h1 where "h1 = h(ly_store l := rolled_back ops now k o' l st (h (ly_store l)))"
  have step: "rollback_layers ops now k o' (p # ps) h = rollback_layers ops now k o' ps h1"
    by (simp only: p rollback_layers.simps rollback_step h1_def)
  have d: "distinct (map (\<lambda>p. ly_store (fst p)) ps)" using Cons.prems by simp
  have ne: "ly_store (fst q) \<noteq> ly_store l" if "q \<in> set ps" for q using that Cons.prems p by force
  have h1: "h1 (ly_store l) = rolled_back ops now k o' l st (h (ly_store l))"
    "\<And>sid. sid \<noteq> ly_store l \<Longrightarrow> h1 sid = h sid" by (simp_all add: h1_def)
  note ih = Cons.IH [OF d, of h1]
  have "rollback_layers ops now k o' ps h1 (ly_store l) = h1 (ly_store l)" using ih ne by blast
  then show ?case using ih ne h1 unfolding step by (auto simp: p)
qed simp

context rate_limit_store
begin

lemma layer_undo:
  assumes "inv (h (ly_store l))" "settled_ok (fst (layer_alone ops now k o' h l))"
  shows "usage (rolled_back ops now k o' l (fst (layer_alone ops now k o' h l))
      (snd (layer_alone ops now k o' h l))) now (layerKey l k) = usage (h (ly_store l)) now (layerKey l k)"
proof -
  obtain r where "fst (layer_alone ops now k o' h l) = Inr r" "\<not> isBlocked r"
    using assms(2) by (auto simp: settled_ok_def split: sum.splits)
  then have inc: "op_increment ops now (layerKey l k) (mergeIncOpts l o') (h (ly_store l)) =
      (Inr r, snd (layer_alone ops now k o' h l))"
    by (metis layer_alone_def prod.collapse)
  show ?thesis
    using undo_restores [OF assms(1) inc _ surjective_pairing] \<open>\<not> isBlocked r\<close> assms(2)
    by (simp add: rolled_back_def undo_opts_def)
qed

text \<open>Mode \<open>all\<close> is transactional: a blocked increment gives back what the layers that allowed it
  had counted.\<close>

lemma incrementAll_blocked_usage:
  assumes inv: "\<And>l. l \<in> set (cs_layers c) \<Longrightarrow> inv (h (ly_store l))"
    and d: "distinct (map ly_store (cs_layers c))" and rb: "cs_rollbackOnBlock c"
    and inc: "incrementAll ops now k o' c h = (r, c', h')" and b: "isBlocked r"
    and l: "l \<in> set (cs_layers c)" "settled_ok (fst (layer_alone ops now k o' h l))"
  shows "c' = c" "usage (h' (ly_store l)) now (layerKey l k) = usage (h (ly_store l)) now (layerKey l k)"
proof -
  obtain rs h1 where st: "settle_layers ops now k o' (cs_layers c) h = (rs, h1)" by fastforce
  note alone = settle_layers_alone [OF d st]
  let ?ps = "zip (cs_layers c) rs"
  have len: "length rs = length (cs_layers c)" using alone by simp
  have h': "h' = rollback_layers ops now k o' ?ps h1" and "c' = c"
    using inc st rb b by (auto simp: incrementAll_def all_allowed_result_def Let_def split: if_splits)
  then show "c' = c" by simp
  have "map (\<lambda>p. ly_store (fst p)) ?ps = map ly_store (map fst ?ps)" by (simp only: map_map comp_def)
  then have ps: "distinct (map (\<lambda>p. ly_store (fst p)) ?ps)" using len d by simp
  have "(l, fst (layer_alone ops now k o' h l)) \<in> set ?ps"
    using l(1) alone by (auto simp: zip_map2 zip_same_conv_map image_iff)
  then have "h' (ly_store l) = rolled_back ops now k o' l (fst (layer_alone ops now k o' h l)) (h1 (ly_store l))"
    using rollback_layers_alone [OF ps, of ops now k o' h1] h' by fastforce
  with layer_undo [OF inv [OF l(1)] l(2)] alone l(1)
  show "usage (h' (ly_store l)) now (layerKey l k) = usage (h (ly_store l)) now (layerKey l k)" by simp
qed

end

section \<open>First available\<close>

lemma firstAvailableLoop_Cons:
  "firstAvailableLoop ops now k o' (l # ls) i rows lb ll h = (win, rows', lb', ll', h') \<Longrightarrow>
   (\<exists>r. fst (layer_alone ops now k o' h l) = Inr r \<and> \<not> isBlocked r \<and> win = Some (i, l, r) \<and>
      h' = h(ly_store l := snd (layer_alone ops now k o' h l))) \<or>
   \<not> settled_ok (fst (layer_alone ops now k o' h l)) \<and>
   (\<exists>rows1 lb1. firstAvailableLoop ops now k o' ls (Suc i) rows1 lb1 (ly_label l)
      (h(ly_store l := snd (layer_alone ops now k o' h l))) = (win, rows', lb', ll', h'))"
  by (auto simp: layer_increment_alone settled_ok_def Let_def split: sum.splits if_splits)

lemma firstAvailableLoop_frame:
  "firstAvailableLoop ops now k o' ls i rows lb ll h = (win, rows', lb', ll', h') \<Longrightarrow>
   sid \<notin> ly_store ` set ls \<Longrightarrow> h' sid = h sid"
proof (induction ls arbitrary: i rows lb ll h)
  case (Cons l ls)
  from firstAvailableLoop_Cons [OF Cons.prems(1)] Cons.prems(2) Cons.IH show ?case by fastforce
qed simp

text \<open>The layer that answers is the first one that would allow the request; every layer before it was
  asked and refused, and no layer after it was touched.\<close>

lemma firstAvailableLoop_spec:
  assumes "distinct (map ly_store ls)"
    and "firstAvailableLoop ops now k o' ls i rows lb ll h = (win, rows', lb', ll', h')"
  shows "case win of
      None \<Rightarrow> \<forall>l \<in> set ls. \<not> settled_ok (fst (layer_alone ops now k o' h l))
    | Some (j, l, r) \<Rightarrow> \<exists>before after. ls = before @ l # after \<and> j = i + length before \<and>
        fst (layer_alone ops now k o' h l) = Inr r \<and> \<not> isBlocked r \<and>
        (\<forall>m \<in> set before. \<not> settled_ok (fst (layer_alone ops now k o' h m))) \<and>
        (\<forall>m \<in> set after. h' (ly_store m) = h (ly_store m))"
  using assms
proof (induction ls arbitrary: i rows lb ll h)
  case (Cons l ls)
  define h1 where "h1 = h(ly_store l := snd (layer_alone ops now k o' h l))"
  have d: "distinct (map ly_store ls)" using Cons.prems(1) by simp
  have ne: "ly_store l \<noteq> ly_store m" if "m \<in> set ls" for m using that Cons.prems(1) by force
  have alone: "layer_alone ops now k o' h1 m = layer_alone ops now k o' h m" "h1 (ly_store m) = h (ly_store m)"
    if "m \<in> set ls" for m
    using ne [OF that] by (simp_all add: h1_def)
  from firstAvailableLoop_Cons [OF Cons.prems(2)] show ?case
  proof (elim disjE conjE exE)
    fix r assume *: "fst (layer_alone ops now k o' h l) = Inr r" "\<not> isBlocked r" "win = Some (i, l, r)"
      "h' = h(ly_store l := snd (layer_alone ops now k o' h l))"
    have "\<forall>m \<in> set ls. h' (ly_store m) = h (ly_store m)" using alone(2) *(4) by (simp add: h1_def)
    then show ?thesis using * by (auto intro!: exI [of _ "[]"])
  next
    fix rows1 lb1
    assume no: "\<not> settled_ok (fst (layer_alone ops now k o' h l))"
      and "firstAvailableLoop ops now k o' ls (Suc i) rows1 lb1 (ly_label l)
        (h(ly_store l := snd (layer_alone ops now k o' h l))) = (win, rows', lb', ll', h')"
    from Cons.IH [OF d this(2)]
    have ih: "case win of
        None \<Rightarrow> \<forall>l \<in> set ls. \<not> settled_ok (fst (layer_alone ops now k o' h1 l))
      | Some (j, l, r) \<Rightarrow> \<exists>before after. ls = before @ l # after \<and> j = Suc i + length before \<and>
          fst (layer_alone ops now k o' h1 l) = Inr r \<and> \<not> isBlocked r \<and>
          (\<forall>m \<in> set before. \<not> settled_ok (fst (layer_alone ops now k o' h1 m))) \<and>
          (\<forall>m \<in> set after. h' (ly_store m) = h1 (ly_store m))"
      unfolding h1_def .
    show ?thesis
    proof (cases win)
      case None
      then show ?thesis using ih no alone by simp
    next
      case (Some p)
      obtain j m r where p: "p = (j, m, r)" by (cases p)
      with ih Some obtain before after where ls: "ls = before @ m # after" "j = Suc i + length before"
        "fst (layer_alone ops now k o' h1 m) = Inr r" "\<not> isBlocked r"
        "\<forall>m \<in> set before. \<not> settled_ok (fst (layer_alone ops now k o' h1 m))"
        "\<forall>m \<in> set after. h' (ly_store m) = h1 (ly_store m)" by auto
      then show ?thesis using no alone Some p
        by simp (rule exI [of _ "l # before"], rule exI [of _ after], simp)
    qed
  qed
qed auto


section \<open>Overflow\<close>

lemma incrementOverflow_decision:
  assumes ls: "cs_layers c = [p, b]" and inc: "incrementOverflow ops now k o' c h = (res, c', h')"
    and p: "op_increment ops now (layerKey p k) (mergeIncOpts p o') (h (ly_store p)) = (Inr pr, s1)"
    and b: "op_increment ops now (overflowBurstKey b k) (mergeIncOpts b o')
      ((h(ly_store p := s1)) (ly_store b)) = (Inr br, s2)"
  shows "\<exists>r. res = Inr r \<and> isBlocked r = (isBlocked pr \<and> isBlocked br) \<and>
    h' = (if isBlocked pr then h(ly_store p := s1, ly_store b := s2) else h(ly_store p := s1))"
proof -
  have "cs_layers (sweepOverflowRouteIfExpired now k c) = [p, b]"
    using ls by (simp add: sweepOverflowRouteIfExpired_def clearOverflowRouteState_def split: option.splits)
  then have "(case res of Inl _ \<Rightarrow> False | Inr r \<Rightarrow> isBlocked r = (isBlocked pr \<and> isBlocked br)) \<and>
      h' = (if isBlocked pr then h(ly_store p := s1, ly_store b := s2) else h(ly_store p := s1))"
    using inc p b
    by (cases "isBlocked pr"; cases "isBlocked br")
       (auto simp: incrementOverflow_def layer_increment_def with_mode_def Let_def simp del: fun_upd_apply)
  then show ?thesis by (cases res) auto
qed

section \<open>Properties\<close>

text \<open>Mode \<open>all\<close>: over layers with stores of their own, the composed answer is blocked exactly when
  at least one layer, asked on its own, refuses or fails.\<close>

theorem composed_all_decides:
  assumes "distinct (map ly_store (cs_layers c))" "incrementAll ops now k o' c h = (r, c', h')"
  shows "isBlocked r \<longleftrightarrow> (\<exists>l \<in> set (cs_layers c).
    \<not> settled_ok (fst (op_increment ops now (layerKey l k) (mergeIncOpts l o') (h (ly_store l)))))"
  using incrementAll_decision [OF assms] by (simp add: layer_alone_def)

definition demo_layer :: "string \<Rightarrow> nat \<Rightarrow> layer" where
  "demo_layer lb i = \<lparr>ly_label = lb, ly_store = i, ly_keyTransform = None, ly_maxRequests = Undefined\<rparr>"

definition demo_composed :: "comp_mode \<Rightarrow> composed" where
  "demo_composed m =
     \<lparr>cs_mode = m, cs_layers = [demo_layer ''a'' 0, demo_layer ''b'' 1], cs_rollbackOnBlock = True,
      cs_raceTimeoutMs = 5000, decrementStacks = [], firstAvailableWinner = [], overflowRoute = [],
      overflowRouteExpiryMs = [], lastIncrementByKey = []\<rparr>"

text \<open>Store 0 has room for one request, store 1 for five.\<close>

definition demo_heap :: "mem_store heap" where
  "demo_heap i = new_MemoryStore (WindowOptions FIXED_WINDOW (js_int 1000) (js_int (if i = 0 then 1 else 5))) None None"

lemma demo_heap_inv: "mem_inv (demo_heap i)"
  unfolding demo_heap_def by (rule new_MemoryStore_inv) (simp add: options_ok_def)

theorem composed_all_decides_witness:
  "isBlocked (fst (incrementAll mem_ops 0 ''k'' (Some \<lparr>io_maxRequests = Undefined, io_cost = js_int 2\<rparr>)
     (demo_composed ModeAll) demo_heap))"
proof -
  let ?o = "Some \<lparr>io_maxRequests = Undefined, io_cost = js_int 2\<rparr>" and ?c = "demo_composed ModeAll"
  have d: "distinct (map ly_store (cs_layers ?c))" by code_simp
  have "\<not> settled_ok (fst (op_increment mem_ops 0 (layerKey (demo_layer ''a'' 0) ''k'')
      (mergeIncOpts (demo_layer ''a'' 0) ?o) (demo_heap (ly_store (demo_layer ''a'' 0)))))" by code_simp
  moreover have "demo_layer ''a'' 0 \<in> set (cs_layers ?c)" by (simp add: demo_composed_def)
  moreover obtain r c' h' where inc: "incrementAll mem_ops 0 ''k'' ?o ?c demo_heap = (r, c', h')"
    by (metis prod_cases3)
  ultimately show ?thesis using composed_all_decides [OF d inc] inc by auto
qed

text \<open>Mode \<open>all\<close> is transactional over in-memory stores: when the composed increment is blocked and
  rollback is on, every layer that had allowed it counts afterwards what it counted before, and no
  decrement frame is left behind.\<close>

theorem composed_all_rolls_back:
  assumes "\<And>l. l \<in> set (cs_layers c) \<Longrightarrow> mem_inv (h (ly_store l))"
    and "distinct (map ly_store (cs_layers c))" "cs_rollbackOnBlock c"
    and "incrementAll mem_ops now k o' c h = (r, c', h')" "isBlocked r" "l \<in> set (cs_layers c)"
    and "\<not> isBlocked (fst (mem_increment now (layerKey l k) (mergeIncOpts l o') (h (ly_store l))))"
  shows "c' = c \<and> mem_usage (h' (ly_store l)) now (layerKey l k) = mem_usage (h (ly_store l)) now (layerKey l k)"
proof -
  have "settled_ok (fst (layer_alone mem_ops now k o' h l))"
    using assms(7) by (simp add: layer_alone_def mem_ops_def settled_ok_def case_prod_beta)
  from mem.incrementAll_blocked_usage [OF assms(1-6) this] show ?thesis by simp
qed

theorem composed_all_rolls_back_witness:
  "mem_usage ((snd (snd (incrementAll mem_ops 0 ''k'' (Some \<lparr>io_maxRequests = Undefined, io_cost = js_int 2\<rparr>)
     (demo_composed ModeAll) demo_heap))) 1) 0 ''k'' = 0"
proof -
  let ?o = "Some \<lparr>io_maxRequests = Undefined, io_cost = js_int 2\<rparr>" and ?c = "demo_composed ModeAll"
  let ?l = "demo_layer ''b'' 1"
  obtain r c' h' where inc: "incrementAll mem_ops 0 ''k'' ?o ?c demo_heap = (r, c', h')"
    by (metis prod_cases3)
  have "isBlocked (fst (incrementAll mem_ops 0 ''k'' ?o ?c demo_heap))" by code_simp
  then have b: "isBlocked r" using inc by simp
  have d: "distinct (map ly_store (cs_layers ?c))" "cs_rollbackOnBlock ?c" by code_simp+
  have l: "?l \<in> set (cs_layers ?c)" by (simp add: demo_composed_def)
  have ok: "\<not> isBlocked (fst (mem_increment 0 (layerKey ?l ''k'') (mergeIncOpts ?l ?o) (demo_heap (ly_store ?l))))"
    by code_simp
  have k: "layerKey ?l ''k'' = ''k''" "ly_store ?l = 1" by code_simp+
  have "mem_usage (demo_heap 1) 0 ''k'' = 0" by code_simp
  with composed_all_rolls_back [OF demo_heap_inv d inc b l ok] inc k show ?thesis by simp
qed

text \<open>Mode \<open>first-available\<close>: over layers with stores of their own, the answer is blocked exactly when
  every layer refuses or fails; otherwise it comes from the first layer that allows the request, the
  layers before it refused, the stores of the layers after it are untouched, and the winner is
  remembered for the matching decrement.\<close>

theorem composed_first_available:
  assumes "distinct (map ly_store (cs_layers c))" "incrementFirstAvailable ops now k o' c h = (r, c', h')"
  shows "if isBlocked r
    then (\<forall>l \<in> set (cs_layers c). \<not> settled_ok (fst (layer_alone ops now k o' h l))) \<and> c' = c
    else (\<exists>before l after. cs_layers c = before @ l # after \<and> settled_ok (fst (layer_alone ops now k o' h l)) \<and>
      (\<forall>m \<in> set before. \<not> settled_ok (fst (layer_alone ops now k o' h m))) \<and>
      (\<forall>m \<in> set after. h' (ly_store m) = h (ly_store m)) \<and>
      map_of (firstAvailableWinner c') k = Some (length before) \<and> decidingLayer r = Some (ly_label l))"
proof -
  obtain win rows lb ll h1 where loop: "firstAvailableLoop ops now k o' (cs_layers c) 0 [] None
      (ly_label (hd (cs_layers c))) h = (win, rows, lb, ll, h1)" by (metis prod_cases5)
  note spec = firstAvailableLoop_spec [OF assms(1) loop]
  show ?thesis
  proof (cases win)
    case None
    then show ?thesis using spec assms(2) loop by (auto simp: incrementFirstAvailable_def Let_def)
  next
    case (Some p)
    obtain i l rr where p: "p = (i, l, rr)" by (cases p)
    with spec Some obtain before after where w: "cs_layers c = before @ l # after" "i = length before"
      "fst (layer_alone ops now k o' h l) = Inr rr" "\<not> isBlocked rr"
      "\<forall>m \<in> set before. \<not> settled_ok (fst (layer_alone ops now k o' h m))"
      "\<forall>m \<in> set after. h1 (ly_store m) = h (ly_store m)" by auto
    moreover have "h' = h1" "isBlocked r = isBlocked rr" "decidingLayer r = Some (ly_label l)"
      "map_of (firstAvailableWinner c') k = Some i"
      using assms(2) loop Some p by (auto simp: incrementFirstAvailable_def with_mode_def pushFrame_def Let_def)
    moreover have "settled_ok (fst (layer_alone ops now k o' h l))" using w(3,4) by (simp add: settled_ok_def)
    ultimately have "cs_layers c = before @ l # after \<and> settled_ok (fst (layer_alone ops now k o' h l)) \<and>
        (\<forall>m \<in> set before. \<not> settled_ok (fst (layer_alone ops now k o' h m))) \<and>
        (\<forall>m \<in> set after. h' (ly_store m) = h (ly_store m)) \<and>
        map_of (firstAvailableWinner c') k = Some (length before) \<and> decidingLayer r = Some (ly_label l)"
      and "\<not> isBlocked r" by simp_all
    then show ?thesis by (metis (no_types, lifting))
  qed
qed

theorem composed_first_available_witness:
  "\<exists>before l after. cs_layers (demo_composed ModeFirstAvailable) = before @ l # after \<and>
     settled_ok (fst (layer_alone mem_ops 0 ''k'' None demo_heap l))"
proof -
  let ?c = "demo_composed ModeFirstAvailable"
  have d: "distinct (map ly_store (cs_layers ?c))" by code_simp
  obtain r c' h' where inc: "incrementFirstAvailable mem_ops 0 ''k'' None ?c demo_heap = (r, c', h')"
    by (metis prod_cases3)
  have "\<not> isBlocked (fst (incrementFirstAvailable mem_ops 0 ''k'' None ?c demo_heap))" by code_simp
  with composed_first_available [OF d inc] inc show ?thesis by auto
qed

text \<open>Mode \<open>overflow\<close> over in-memory stores: an allowed primary answer is final and leaves the burst
  store alone; only a blocked primary consults the burst layer, under its own key, and then the burst
  layer decides.\<close>

theorem composed_overflow_decides:
  assumes "cs_layers c = [p, b]" "incrementOverflow mem_ops now k o' c h = (res, c', h')"
    and "mem_increment now (layerKey p k) (mergeIncOpts p o') (h (ly_store p)) = (pr, s1)"
    and "mem_increment now (overflowBurstKey b k) (mergeIncOpts b o') ((h(ly_store p := s1)) (ly_store b)) = (br, s2)"
  shows "\<exists>r. res = Inr r \<and> isBlocked r = (isBlocked pr \<and> isBlocked br) \<and>
    h' = (if isBlocked pr then h(ly_store p := s1, ly_store b := s2) else h(ly_store p := s1))"
  by (rule incrementOverflow_decision [OF assms(1,2)]) (use assms(3,4) in \<open>simp_all add: mem_ops_def\<close>)

theorem composed_overflow_decides_witness:
  "\<exists>r. fst (incrementOverflow mem_ops 0 ''k'' None (demo_composed ModeOverflow) demo_heap) = Inr r \<and> \<not> isBlocked r"
proof -
  let ?c = "demo_composed ModeOverflow"
  obtain res c' h' where inc: "incrementOverflow mem_ops 0 ''k'' None ?c demo_heap = (res, c', h')"
    by (metis prod_cases3)
  have ls: "cs_layers ?c = [demo_layer ''a'' 0, demo_layer ''b'' 1]" by (simp add: demo_composed_def)
  have "\<not> isBlocked (fst (mem_increment 0 (layerKey (demo_layer ''a'' 0) ''k'')
      (mergeIncOpts (demo_layer ''a'' 0) None) (demo_heap (ly_store (demo_layer ''a'' 0)))))" by code_simp
  with composed_overflow_decides [OF ls inc surjective_pairing surjective_pairing] inc show ?thesis by auto
qed

text \<open>Mode \<open>first-available\<close> does not undo what it did: the store remembers one winner per key, so
  after two increments won by the second layer, two decrements reach the second layer only once; the
  other one takes a hit off the first layer, and the frames pushed for both increments stay on the
  decrement stack for good.\<close>

theorem first_available_decrement_mismatch:
  "let inc = (\<lambda>(c, h). snd (cs_increment mem_ops 0 None ''k'' None c h));
       dec = (\<lambda>(c, h). cs_decrement mem_ops 0 ''k'' None c h);
       s3 = inc (inc (inc (demo_composed ModeFirstAvailable, demo_heap)));
       s5 = dec (dec s3)
   in (mem_usage (snd s3 0) 0 ''k'', mem_usage (snd s3 1) 0 ''k'') = (3, 2) \<and>
      (mem_usage (snd s5 0) 0 ''k'', mem_usage (snd s5 1) 0 ''k'') = (2, 1) \<and>
      map_of (decrementStacks (fst s5)) ''k'' = Some [[0], [1], [1]]"
  by code_simp

text \<open>Mode \<open>race\<close> pushes a decrement frame for the winning layer also when that layer blocked the
  request, although the middlewares only undo allowed requests.\<close>

theorem race_pushes_frame_when_blocked:
  "let o' = Some \<lparr>io_maxRequests = Undefined, io_cost = js_int 2\<rparr>;
       (res, c, h) = cs_increment mem_ops 0 (Some 0) ''k'' o' (demo_composed ModeRace) demo_heap
   in (case res of Inr r \<Rightarrow> isBlocked r | Inl _ \<Rightarrow> False) \<and> map_of (decrementStacks c) ''k'' = Some [[0]]"
  by code_simp

end
