(* ===== verification/Key_Manager.thy ===== *)
theory Key_Manager
  imports Memory_Store_Laws Escalation
begin

text \<open>
  Manual blocks, penalties and rewards: \<open>src/key-manager/KeyManager.ts\<close> and the in-memory block store
  of \<open>src/key-manager/block-store.ts\<close>. The manager's record \<open>key_manager\<close> holds its own maps, the state
  of the rate-limit store (with its method table \<open>ops\<close>) and the state of the block store (with its
  method table, absent when no block store is configured). Methods that await a store return
  \<open>Inl\<close> when that store rejects and stop there, with what was done so far. Emitted events and calls
  of \<open>unshield\<close> on an explicitly given shield are recorded in order.
\<close>

section \<open>Blocks and the in-memory block store\<close>

datatype block_reason =
    Manual "string option"
  | PenaltyEscalation (pe_count: int) (pe_threshold: int) (pe_violation: "int option")
  | AbusePattern string
  | Custom string "json option"

record block =
  bl_reason :: block_reason
  bl_expiresAt :: "time option"
  bl_blockedAt :: time

text \<open>A remote row may lack \<open>blockedAt\<close>.\<close>

record remote_block =
  rb_key :: key
  rb_reason :: block_reason
  rb_expiresAt :: "time option"
  rb_blockedAt :: "time option"

record 'b block_ops =
  bo_setBlock :: "time \<Rightarrow> key \<Rightarrow> block \<Rightarrow> 'b \<Rightarrow> (string + unit) \<times> 'b"
  bo_getBlock :: "time \<Rightarrow> key \<Rightarrow> 'b \<Rightarrow> (string + block option) \<times> 'b"
  bo_removeBlock :: "time \<Rightarrow> key \<Rightarrow> 'b \<Rightarrow> (string + bool) \<times> 'b"
  bo_getAllBlocks :: "time \<Rightarrow> 'b \<Rightarrow> (string + remote_block list) \<times> 'b"

definition block_due :: "time \<Rightarrow> time option \<Rightarrow> bool" where
  "block_due now e = (case e of None \<Rightarrow> False | Some t \<Rightarrow> t \<le> now)"

type_synonym memory_block_store = "(key, block) jsmap"

definition mbs_setBlock :: "key \<Rightarrow> block \<Rightarrow> memory_block_store \<Rightarrow> memory_block_store" where
  "mbs_setBlock k b m = AList.update k b m"

definition mbs_getBlock :: "time \<Rightarrow> key \<Rightarrow> memory_block_store \<Rightarrow> block option \<times> memory_block_store" where
  "mbs_getBlock now k m =
     (case map_of m k of
        None \<Rightarrow> (None, m)
      | Some v \<Rightarrow> if block_due now (bl_expiresAt v) then (None, AList.delete k m) else (Some v, m))"

definition mbs_removeBlock :: "key \<Rightarrow> memory_block_store \<Rightarrow> bool \<times> memory_block_store" where
  "mbs_removeBlock k m = (jsmap_has m k, AList.delete k m)"

definition mbs_getAllBlocks :: "time \<Rightarrow> memory_block_store \<Rightarrow> remote_block list \<times> memory_block_store" where
  "mbs_getAllBlocks now m =
     (let live = filter (\<lambda>(k, v). \<not> block_due now (bl_expiresAt v)) m
      in (map (\<lambda>(k, v). \<lparr>rb_key = k, rb_reason = bl_reason v, rb_expiresAt = bl_expiresAt v,
                        rb_blockedAt = Some (bl_blockedAt v)\<rparr>) live, live))"

definition mbs_ops :: "memory_block_store block_ops" where
  "mbs_ops =
     \<lparr>bo_setBlock = (\<lambda>now k b m. (Inr (), mbs_setBlock k b m)),
      bo_getBlock = (\<lambda>now k m. let (r, m') = mbs_getBlock now k m in (Inr r, m')),
      bo_removeBlock = (\<lambda>now k m. let (r, m') = mbs_removeBlock k m in (Inr r, m')),
      bo_getAllBlocks = (\<lambda>now m. let (r, m') = mbs_getAllBlocks now m in (Inr r, m'))\<rparr>"

section \<open>State of the key manager\<close>

text \<open>\<open>maxAuditLogSize\<close> is a natural number here, as its documentation has it.\<close>

record adjustment =
  penaltyPoints :: int
  rewardPoints :: int
  windowStart :: time
  penaltyViolationCount :: int

text \<open>\<open>KeyState\<close> of key-manager/types.ts: a snapshot of one key.\<close>

record key_snapshot =
  ks_key :: key
  ks_totalHits :: int
  ks_remaining :: int
  ks_resetTime :: time
  ks_isBlocked :: bool
  ks_isManuallyBlocked :: bool
  ks_blockReason :: "block_reason option"
  ks_blockExpiresAt :: "time option option"
  ks_penaltyPoints :: int
  ks_rewardPoints :: int

datatype unblocked_by = ByExpiry | ByManual

datatype km_event =
    EvBlocked key block_reason "time option" key_snapshot time
  | EvUnblocked key block_reason unblocked_by time
  | EvPenalized key int int key_snapshot time
  | EvRewarded key int int key_snapshot time
  | EvDeleted key "key_snapshot option" time
  | EvSet key int int key_snapshot time

datatype audit_action = ActBlock | ActUnblock | ActPenalty | ActReward | ActSet | ActDelete | ActGet

datatype audit_details =
    DetGet "(int \<times> bool \<times> bool) option"
  | DetSet int int "time option"
  | DetBlock block_reason "time option" "bool option"
  | DetAutoBlock block_reason
  | DetUnblock block_reason
  | DetUnblockExpiry block_reason
  | DetUnblockBulk block_reason
  | DetPoints int int
  | DetDelete bool bool bool

record audit_entry =
  au_timestamp :: time
  au_key :: key
  au_action :: audit_action
  au_details :: audit_details
  au_actor :: "string option"

record ('s, 'b) key_manager =
  km_maxRequests :: int
  km_windowMs :: int
  km_maxAuditLogSize :: nat
  km_penaltyBlockThreshold :: "int option"
  km_penaltyEscalation :: escalation
  km_blocks :: "(key, block) jsmap"
  km_adjustments :: "(key, adjustment) jsmap"
  km_auditLog :: "audit_entry list"
  km_events :: "km_event list"
  km_expiryTimer :: bool
  km_syncTimer :: bool
  km_explicitShield :: bool
  km_unshieldCalls :: "key list"
  km_store :: 's
  km_blockStore :: 'b

record km_options =
  kmo_maxRequests :: js_value
  kmo_windowMs :: rat
  kmo_maxAuditLogSize :: "nat option"
  kmo_penaltyBlockThreshold :: "rat option"
  kmo_penaltyBlockDurationMs :: "rat option"
  kmo_penaltyEscalation :: "escalation option"
  kmo_syncIntervalMs :: "int option"
  kmo_shield :: bool

definition new_KeyManager :: "km_options \<Rightarrow> 'b block_ops option \<Rightarrow> 's \<Rightarrow> 'b \<Rightarrow> ('s, 'b) key_manager" where
  "new_KeyManager o' bops store bstore =
     (let windowMs = max 1 \<lfloor>kmo_windowMs o'\<rfloor>
      in \<lparr>km_maxRequests = sanitizeRateLimitCap (kmo_maxRequests o') 100,
          km_windowMs = windowMs,
          km_maxAuditLogSize = (case kmo_maxAuditLogSize o' of None \<Rightarrow> 1000 | Some n \<Rightarrow> n),
          km_penaltyBlockThreshold =
            (case kmo_penaltyBlockThreshold o' of None \<Rightarrow> None | Some t \<Rightarrow> if t > 0 then Some \<lfloor>t\<rfloor> else None),
          km_penaltyEscalation =
            (case kmo_penaltyEscalation o' of
               Some f \<Rightarrow> f
             | None \<Rightarrow> fixedEscalation
                 (case kmo_penaltyBlockDurationMs o' of None \<Rightarrow> windowMs | Some d \<Rightarrow> max 0 \<lfloor>d\<rfloor>)),
          km_blocks = [], km_adjustments = [], km_auditLog = [], km_events = [],
          km_expiryTimer = True,
          km_syncTimer = (bops \<noteq> None \<and> (case kmo_syncIntervalMs o' of None \<Rightarrow> True | Some n \<Rightarrow> n > 0)),
          km_explicitShield = kmo_shield o', km_unshieldCalls = [],
          km_store = store, km_blockStore = bstore\<rparr>)"

section \<open>Internals\<close>

definition pushAudit ::
  "time \<Rightarrow> audit_action \<Rightarrow> key \<Rightarrow> audit_details \<Rightarrow> string option \<Rightarrow> ('s, 'b) key_manager \<Rightarrow> ('s, 'b) key_manager" where
  "pushAudit now act k det actor m =
     (if km_maxAuditLogSize m = 0 then m
      else let log = km_auditLog m @ [\<lparr>au_timestamp = now, au_key = k, au_action = act, au_details = det,
                                       au_actor = actor\<rparr>]
           in m\<lparr>km_auditLog := drop (length log - km_maxAuditLogSize m) log\<rparr>)"

definition emitTyped :: "km_event \<Rightarrow> ('s, 'b) key_manager \<Rightarrow> ('s, 'b) key_manager" where
  "emitTyped ev m = m\<lparr>km_events := km_events m @ [ev]\<rparr>"

definition invalidateRateLimitShield :: "'s store_ops \<Rightarrow> key \<Rightarrow> ('s, 'b) key_manager \<Rightarrow> ('s, 'b) key_manager" where
  "invalidateRateLimitShield ops k m =
     (let m1 = (case op_unshield ops of None \<Rightarrow> m | Some f \<Rightarrow> m\<lparr>km_store := f k (km_store m)\<rparr>)
      in if km_explicitShield m1 then m1\<lparr>km_unshieldCalls := km_unshieldCalls m1 @ [k]\<rparr> else m1)"

definition expire_one :: "'s store_ops \<Rightarrow> time \<Rightarrow> key \<times> block \<Rightarrow> ('s, 'b) key_manager \<Rightarrow> ('s, 'b) key_manager" where
  "expire_one ops now kv m =
     (case kv of (k, v) \<Rightarrow>
        if block_due now (bl_expiresAt v)
        then pushAudit now ActUnblock k (DetUnblockExpiry (bl_reason v)) None
               (emitTyped (EvUnblocked k (bl_reason v) ByExpiry now)
                 (invalidateRateLimitShield ops k (m\<lparr>km_blocks := AList.delete k (km_blocks m)\<rparr>)))
        else m)"

definition expireDueBlocks :: "'s store_ops \<Rightarrow> time \<Rightarrow> ('s, 'b) key_manager \<Rightarrow> ('s, 'b) key_manager" where
  "expireDueBlocks ops now m = fold (expire_one ops now) (km_blocks m) m"

definition isManualBlockActive :: "time \<Rightarrow> ('s, 'b) key_manager \<Rightarrow> key \<Rightarrow> bool" where
  "isManualBlockActive now m k =
     (case map_of (km_blocks m) k of
        None \<Rightarrow> False
      | Some b \<Rightarrow> (case bl_expiresAt b of None \<Rightarrow> True | Some t \<Rightarrow> t > now))"

definition getAdjustment :: "('s, 'b) key_manager \<Rightarrow> key \<Rightarrow> int \<times> int" where
  "getAdjustment m k =
     (case map_of (km_adjustments m) k of None \<Rightarrow> (0, 0) | Some a \<Rightarrow> (penaltyPoints a, rewardPoints a))"

definition emptySnapshot :: "time \<Rightarrow> ('s, 'b) key_manager \<Rightarrow> rl_result" where
  "emptySnapshot now m = plain_result 0 (km_maxRequests m) (now + km_windowMs m) False"

definition composeBlocked ::
  "time \<Rightarrow> ('s, 'b) key_manager \<Rightarrow> key \<Rightarrow> rl_result option \<Rightarrow> block_reason \<Rightarrow> time option \<Rightarrow> key_snapshot" where
  "composeBlocked now m k snap reason ex =
     (let base = (case snap of None \<Rightarrow> emptySnapshot now m | Some s \<Rightarrow> s); (pp, rp) = getAdjustment m k
      in \<lparr>ks_key = k, ks_totalHits = totalHits base, ks_remaining = 0, ks_resetTime = resetTime base,
          ks_isBlocked = True,
          ks_isManuallyBlocked = (case reason of PenaltyEscalation _ _ _ \<Rightarrow> False | _ \<Rightarrow> True),
          ks_blockReason = Some reason, ks_blockExpiresAt = Some ex,
          ks_penaltyPoints = pp, ks_rewardPoints = rp\<rparr>)"

definition composeOpen :: "('s, 'b) key_manager \<Rightarrow> key \<Rightarrow> rl_result \<Rightarrow> key_snapshot" where
  "composeOpen m k snap =
     (let (pp, rp) = getAdjustment m k
      in \<lparr>ks_key = k, ks_totalHits = totalHits snap, ks_remaining = remaining snap,
          ks_resetTime = resetTime snap, ks_isBlocked = isBlocked snap, ks_isManuallyBlocked = False,
          ks_blockReason = None, ks_blockExpiresAt = None, ks_penaltyPoints = pp, ks_rewardPoints = rp\<rparr>)"

definition composeZero :: "time \<Rightarrow> ('s, 'b) key_manager \<Rightarrow> key \<Rightarrow> key_snapshot" where
  "composeZero now m k =
     (let (pp, rp) = getAdjustment m k
      in \<lparr>ks_key = k, ks_totalHits = 0, ks_remaining = km_maxRequests m, ks_resetTime = now + km_windowMs m,
          ks_isBlocked = False, ks_isManuallyBlocked = False, ks_blockReason = None,
          ks_blockExpiresAt = None, ks_penaltyPoints = pp, ks_rewardPoints = rp\<rparr>)"

definition composeKeyStateInternal ::
  "time \<Rightarrow> ('s, 'b) key_manager \<Rightarrow> key \<Rightarrow> rl_result option \<Rightarrow> key_snapshot" where
  "composeKeyStateInternal now m k snap =
     (if isManualBlockActive now m k
      then (case map_of (km_blocks m) k of
              Some b \<Rightarrow> composeBlocked now m k snap (bl_reason b) (bl_expiresAt b)
            | None \<Rightarrow> composeZero now m k)
      else case snap of None \<Rightarrow> composeZero now m k | Some s \<Rightarrow> composeOpen m k s)"

text \<open>An awaited call that can reject, its continuation, and calls into the two stores.\<close>

definition bindE :: "('m \<Rightarrow> (string + 'a) \<times> 'm) \<Rightarrow> ('a \<Rightarrow> 'm \<Rightarrow> (string + 'c) \<times> 'm) \<Rightarrow> 'm \<Rightarrow> (string + 'c) \<times> 'm" where
  "bindE f g m = (case f m of (Inl e, m1) \<Rightarrow> (Inl e, m1) | (Inr x, m1) \<Rightarrow> g x m1)"

definition retE :: "'a \<Rightarrow> 'm \<Rightarrow> (string + 'a) \<times> 'm" where
  "retE x m = (Inr x, m)"

definition on_store :: "('s \<Rightarrow> (string + 'a) \<times> 's) \<Rightarrow> ('s, 'b) key_manager \<Rightarrow> (string + 'a) \<times> ('s, 'b) key_manager" where
  "on_store f m = (let (r, s') = f (km_store m) in (r, m\<lparr>km_store := s'\<rparr>))"

definition on_blocks :: "('b \<Rightarrow> (string + 'a) \<times> 'b) \<Rightarrow> ('s, 'b) key_manager \<Rightarrow> (string + 'a) \<times> ('s, 'b) key_manager" where
  "on_blocks f m = (let (r, b') = f (km_blockStore m) in (r, m\<lparr>km_blockStore := b'\<rparr>))"

definition unit_inc :: "int \<Rightarrow> int \<Rightarrow> inc_opts option" where
  "unit_inc cap cost = Some \<lparr>io_maxRequests = js_int cap, io_cost = js_int cost\<rparr>"

definition unit_dec :: "int \<Rightarrow> dec_opts option" where
  "unit_dec cost = Some \<lparr>do_cost = js_int cost, do_removeNewest = False\<rparr>"

definition readStoreSnapshot ::
  "'s store_ops \<Rightarrow> time \<Rightarrow> key \<Rightarrow> ('s, 'b) key_manager \<Rightarrow> (string + rl_result option) \<times> ('s, 'b) key_manager" where
  "readStoreSnapshot ops now k m =
     (case op_get ops of
        Some g \<Rightarrow>
          bindE (on_store (g now k))
            (\<lambda>r. retE (map_option (\<lambda>r. plain_result (totalHits r) (remaining r) (resetTime r) (isBlocked r)) r)) m
      | None \<Rightarrow>
          bindE (on_store (op_increment ops now k (unit_inc (km_maxRequests m) 1)))
            (\<lambda>r. bindE (on_store (op_decrement ops now k (unit_dec 1)))
              (\<lambda>_. let rawHits = max 0 (totalHits r - 1)
                   in retE (Some (plain_result rawHits (max 0 (km_maxRequests m - rawHits)) (resetTime r)
                                    (rawHits > km_maxRequests m))))) m)"

definition loadKeyState ::
  "'s store_ops \<Rightarrow> time \<Rightarrow> key \<Rightarrow> ('s, 'b) key_manager \<Rightarrow> (string + key_snapshot option) \<times> ('s, 'b) key_manager" where
  "loadKeyState ops now k m =
     bindE (readStoreSnapshot ops now k)
       (\<lambda>snap m1.
          (Inr (if isManualBlockActive now m1 k
                then (case map_of (km_blocks m1) k of
                        Some b \<Rightarrow> Some (composeBlocked now m1 k snap (bl_reason b) (bl_expiresAt b))
                      | None \<Rightarrow> None)
                else map_option (composeOpen m1 k) snap), m1))
       (expireDueBlocks ops now m)"

definition setWithoutStoreSet ::
  "'s store_ops \<Rightarrow> time \<Rightarrow> key \<Rightarrow> int \<Rightarrow> ('s, 'b) key_manager \<Rightarrow> (string + unit) \<times> ('s, 'b) key_manager" where
  "setWithoutStoreSet ops now k hits m =
     bindE (on_store (op_reset ops now k))
       (\<lambda>_. let n = max 0 hits
            in if n \<le> 0 then retE ()
               else bindE (on_store (op_increment ops now k (unit_inc (km_maxRequests m) n))) (\<lambda>_. retE ())) m"

definition touchAdjustmentWindow :: "time \<Rightarrow> key \<Rightarrow> ('s, 'b) key_manager \<Rightarrow> ('s, 'b) key_manager" where
  "touchAdjustmentWindow now k m =
     (let fresh = (\<lambda>v. m\<lparr>km_adjustments := AList.update k
                    \<lparr>penaltyPoints = 0, rewardPoints = 0, windowStart = now, penaltyViolationCount = v\<rparr>
                    (km_adjustments m)\<rparr>)
      in case map_of (km_adjustments m) k of
           None \<Rightarrow> fresh 0
         | Some a \<Rightarrow> if now - windowStart a \<ge> km_windowMs m then fresh (penaltyViolationCount a) else m)"

definition set_adjustment :: "key \<Rightarrow> adjustment \<Rightarrow> ('s, 'b) key_manager \<Rightarrow> ('s, 'b) key_manager" where
  "set_adjustment k a m = m\<lparr>km_adjustments := AList.update k a (km_adjustments m)\<rparr>"

definition get_adjustment :: "key \<Rightarrow> ('s, 'b) key_manager \<Rightarrow> adjustment" where
  "get_adjustment k m =
     (case map_of (km_adjustments m) k of
        Some a \<Rightarrow> a
      | None \<Rightarrow> \<lparr>penaltyPoints = 0, rewardPoints = 0, windowStart = 0, penaltyViolationCount = 0\<rparr>)"

definition clear_violations :: "key \<Rightarrow> ('s, 'b) key_manager \<Rightarrow> ('s, 'b) key_manager" where
  "clear_violations k m =
     (case map_of (km_adjustments m) k of
        None \<Rightarrow> m | Some a \<Rightarrow> set_adjustment k (a\<lparr>penaltyViolationCount := 0\<rparr>) m)"


section \<open>Public methods\<close>

definition install_remote :: "time \<Rightarrow> remote_block \<Rightarrow> (key, block) jsmap \<Rightarrow> (key, block) jsmap" where
  "install_remote now r bs =
     (if block_due now (rb_expiresAt r) then bs
      else AList.update (rb_key r)
        \<lparr>bl_reason = rb_reason r, bl_expiresAt = rb_expiresAt r,
         bl_blockedAt = (case rb_blockedAt r of None \<Rightarrow> now | Some t \<Rightarrow> t)\<rparr> bs)"

definition km_syncBlocks ::
  "'s store_ops \<Rightarrow> 'b block_ops option \<Rightarrow> time \<Rightarrow> ('s, 'b) key_manager \<Rightarrow> (string + unit) \<times> ('s, 'b) key_manager" where
  "km_syncBlocks ops bops now m =
     (case bops of
        None \<Rightarrow> (Inr (), m)
      | Some bo \<Rightarrow>
          bindE (on_blocks (bo_getAllBlocks bo now))
            (\<lambda>remote m1.
               (Inr (), m1\<lparr>km_blocks :=
                  fold (install_remote now) remote
                    (filter (\<lambda>(k, b). k \<in> set (map rb_key remote)) (km_blocks m1))\<rparr>))
            (expireDueBlocks ops now m))"

definition km_get ::
  "'s store_ops \<Rightarrow> time \<Rightarrow> key \<Rightarrow> string option \<Rightarrow> ('s, 'b) key_manager \<Rightarrow>
   (string + key_snapshot option) \<times> ('s, 'b) key_manager" where
  "km_get ops now k actor =
     bindE (loadKeyState ops now k)
       (\<lambda>st m1.
          (Inr st, pushAudit now ActGet k
             (DetGet (map_option (\<lambda>s. (ks_totalHits s, ks_isBlocked s, ks_isManuallyBlocked s)) st)) actor m1))"

definition km_set ::
  "'s store_ops \<Rightarrow> time \<Rightarrow> key \<Rightarrow> int \<Rightarrow> time option \<Rightarrow> string option \<Rightarrow> ('s, 'b) key_manager \<Rightarrow>
   (string + key_snapshot) \<times> ('s, 'b) key_manager" where
  "km_set ops now k hits ex actor =
     bindE (readStoreSnapshot ops now k)
       (\<lambda>prevSnap. let previousHits = (case prevSnap of None \<Rightarrow> 0 | Some r \<Rightarrow> totalHits r)
        in bindE (case op_set ops of
                    Some st \<Rightarrow> bindE (on_store (st now k hits ex)) (\<lambda>_. retE ())
                  | None \<Rightarrow> setWithoutStoreSet ops now k hits)
             (\<lambda>_. bindE (readStoreSnapshot ops now k)
                (\<lambda>snap m3. let st = composeKeyStateInternal now m3 k snap
                 in (Inr st,
                     invalidateRateLimitShield ops k
                       (pushAudit now ActSet k (DetSet previousHits hits ex) actor
                         (emitTyped (EvSet k previousHits hits st now) m3))))))"

definition km_block ::
  "'s store_ops \<Rightarrow> 'b block_ops option \<Rightarrow> time \<Rightarrow> key \<Rightarrow> int \<Rightarrow> block_reason \<Rightarrow> bool option \<Rightarrow> string option \<Rightarrow>
   ('s, 'b) key_manager \<Rightarrow> (string + key_snapshot) \<times> ('s, 'b) key_manager" where
  "km_block ops bops now k durationMs reason persist actor m0 =
     (let m = expireDueBlocks ops now m0;
          ex = (if durationMs = 0 then None else Some (now + durationMs));
          b = \<lparr>bl_reason = reason, bl_expiresAt = ex, bl_blockedAt = now\<rparr>
      in bindE (case bops of
                  Some bo \<Rightarrow> on_blocks (bo_setBlock bo now k b)
                | None \<Rightarrow>
                    (case (persist, op_set ops) of
                       (Some True, Some st) \<Rightarrow>
                         bindE (on_store (st now k (km_maxRequests m + 1) ex)) (\<lambda>_. retE ())
                     | _ \<Rightarrow> retE ()))
           (\<lambda>_. bindE (readStoreSnapshot ops now k)
              (\<lambda>snap m3. let st = composeBlocked now m3 k snap reason ex
               in (Inr st,
                   invalidateRateLimitShield ops k
                     (pushAudit now ActBlock k (DetBlock reason ex persist) actor
                       (emitTyped (EvBlocked k reason ex st now) m3)))))
           (m\<lparr>km_blocks := AList.update k b (km_blocks m)\<rparr>))"

definition removeBlockE ::
  "'b block_ops option \<Rightarrow> time \<Rightarrow> key \<Rightarrow> ('s, 'b) key_manager \<Rightarrow> (string + unit) \<times> ('s, 'b) key_manager" where
  "removeBlockE bops now k =
     (case bops of None \<Rightarrow> retE () | Some bo \<Rightarrow> bindE (on_blocks (bo_removeBlock bo now k)) (\<lambda>_. retE ()))"

definition km_unblock ::
  "'s store_ops \<Rightarrow> 'b block_ops option \<Rightarrow> time \<Rightarrow> key \<Rightarrow> string option \<Rightarrow> ('s, 'b) key_manager \<Rightarrow>
   (string + key_snapshot option) \<times> ('s, 'b) key_manager" where
  "km_unblock ops bops now k actor m0 =
     (let m = expireDueBlocks ops now m0
      in case map_of (km_blocks m) k of
           None \<Rightarrow> (Inr None, m)
         | Some entry \<Rightarrow>
             bindE (removeBlockE bops now k)
               (\<lambda>_ m1.
                  bindE (loadKeyState ops now k)
                    (\<lambda>st m4. (Inr (Some (case st of None \<Rightarrow> composeZero now m4 k | Some x \<Rightarrow> x)), m4))
                    (invalidateRateLimitShield ops k
                       (pushAudit now ActUnblock k (DetUnblock (bl_reason entry)) actor
                         (emitTyped (EvUnblocked k (bl_reason entry) ByManual now)
                           (clear_violations k (m1\<lparr>km_blocks := AList.delete k (km_blocks m1)\<rparr>))))))
               m)"

definition km_autoblock ::
  "'b block_ops option \<Rightarrow> time \<Rightarrow> key \<Rightarrow> int \<Rightarrow> rl_result option \<Rightarrow> string option \<Rightarrow> ('s, 'b) key_manager \<Rightarrow>
   (string + key_snapshot) \<times> ('s, 'b) key_manager" where
  "km_autoblock bops now k threshold snap actor m =
     (let adj = get_adjustment k m;
          adj1 = adj\<lparr>penaltyViolationCount := penaltyViolationCount adj + 1\<rparr>;
          durationMs = max 0 (km_penaltyEscalation m (penaltyViolationCount adj1));
          reason = PenaltyEscalation (penaltyPoints adj1) threshold (Some (penaltyViolationCount adj1));
          ex = now + durationMs;
          b = \<lparr>bl_reason = reason, bl_expiresAt = Some ex, bl_blockedAt = now\<rparr>;
          m1 = set_adjustment k adj1 m
      in bindE (case bops of None \<Rightarrow> retE () | Some bo \<Rightarrow> on_blocks (bo_setBlock bo now k b))
           (\<lambda>_ m3. let st = composeBlocked now m3 k snap reason (Some ex)
            in (Inr st, pushAudit now ActBlock k (DetAutoBlock reason) actor
                          (emitTyped (EvBlocked k reason (Some ex) st now) m3)))
           (m1\<lparr>km_blocks := AList.update k b (km_blocks m1)\<rparr>))"

text \<open>\<open>penalty\<close> after the store increment, and after reading the key back.\<close>

definition penalty_finish ::
  "'b block_ops option \<Rightarrow> time \<Rightarrow> key \<Rightarrow> int \<Rightarrow> int \<Rightarrow> string option \<Rightarrow> rl_result option \<Rightarrow> ('s, 'b) key_manager \<Rightarrow>
   (string + key_snapshot) \<times> ('s, 'b) key_manager" where
  "penalty_finish bops now k p pts actor snap m3 =
     (let st = composeKeyStateInternal now m3 k snap;
          m4 = pushAudit now ActPenalty k (DetPoints p pts) actor
                 (emitTyped (EvPenalized k p pts st now) m3)
      in case km_penaltyBlockThreshold m4 of
           Some th \<Rightarrow>
             if pts \<ge> th \<and> \<not> isManualBlockActive now m4 k
             then km_autoblock bops now k th snap actor m4
             else (Inr st, m4)
         | None \<Rightarrow> (Inr st, m4))"

definition penalty_points ::
  "'s store_ops \<Rightarrow> 'b block_ops option \<Rightarrow> time \<Rightarrow> key \<Rightarrow> int \<Rightarrow> string option \<Rightarrow> ('s, 'b) key_manager \<Rightarrow>
   (string + key_snapshot) \<times> ('s, 'b) key_manager" where
  "penalty_points ops bops now k p actor m1 =
     (let adj0 = get_adjustment k m1; adj = adj0\<lparr>penaltyPoints := penaltyPoints adj0 + p\<rparr>
      in bindE (readStoreSnapshot ops now k) (penalty_finish bops now k p (penaltyPoints adj) actor)
           (set_adjustment k adj m1))"

definition km_penalty ::
  "'s store_ops \<Rightarrow> 'b block_ops option \<Rightarrow> time \<Rightarrow> key \<Rightarrow> rat \<Rightarrow> string option \<Rightarrow> ('s, 'b) key_manager \<Rightarrow>
   (string + key_snapshot) \<times> ('s, 'b) key_manager" where
  "km_penalty ops bops now k points actor m0 =
     (let m = touchAdjustmentWindow now k (expireDueBlocks ops now m0); p = max 1 \<lfloor>points\<rfloor>
      in bindE (on_store (op_increment ops now k (unit_inc (km_maxRequests m) p)))
           (\<lambda>_. penalty_points ops bops now k p actor) m)"

definition reward_finish ::
  "'s store_ops \<Rightarrow> time \<Rightarrow> key \<Rightarrow> int \<Rightarrow> int \<Rightarrow> string option \<Rightarrow> rl_result option \<Rightarrow> ('s, 'b) key_manager \<Rightarrow>
   (string + key_snapshot) \<times> ('s, 'b) key_manager" where
  "reward_finish ops now k p pts actor snap m3 =
     (let st = composeKeyStateInternal now m3 k snap
      in (Inr st,
          invalidateRateLimitShield ops k
            (pushAudit now ActReward k (DetPoints p pts) actor
              (emitTyped (EvRewarded k p pts st now) m3))))"

definition reward_points ::
  "'s store_ops \<Rightarrow> time \<Rightarrow> key \<Rightarrow> int \<Rightarrow> string option \<Rightarrow> ('s, 'b) key_manager \<Rightarrow>
   (string + key_snapshot) \<times> ('s, 'b) key_manager" where
  "reward_points ops now k p actor m1 =
     (let adj0 = get_adjustment k m1; adj = adj0\<lparr>rewardPoints := rewardPoints adj0 + p\<rparr>
      in bindE (readStoreSnapshot ops now k) (reward_finish ops now k p (rewardPoints adj) actor)
           (set_adjustment k adj m1))"

definition km_reward ::
  "'s store_ops \<Rightarrow> time \<Rightarrow> key \<Rightarrow> rat \<Rightarrow> string option \<Rightarrow> ('s, 'b) key_manager \<Rightarrow>
   (string + key_snapshot) \<times> ('s, 'b) key_manager" where
  "km_reward ops now k points actor m0 =
     (let m = touchAdjustmentWindow now k (expireDueBlocks ops now m0); p = max 1 \<lfloor>points\<rfloor>
      in bindE (on_store (op_decrement ops now k (unit_dec p))) (\<lambda>_. reward_points ops now k p actor) m)"

definition km_delete ::
  "'s store_ops \<Rightarrow> 'b block_ops option \<Rightarrow> time \<Rightarrow> key \<Rightarrow> string option \<Rightarrow> ('s, 'b) key_manager \<Rightarrow>
   (string + bool) \<times> ('s, 'b) key_manager" where
  "km_delete ops bops now k actor m0 =
     bindE (loadKeyState ops now k)
       (\<lambda>previousState m.
          let hadBlock = jsmap_has (km_blocks m) k; hadAdj = jsmap_has (km_adjustments m) k
          in bindE (removeBlockE bops now k)
               (\<lambda>_ m1.
                  bindE (case op_delete ops of
                           Some del \<Rightarrow> on_store (del now k)
                         | None \<Rightarrow> bindE (on_store (op_reset ops now k)) (\<lambda>_. retE (previousState \<noteq> None)))
                    (\<lambda>storeExisted m3.
                       (Inr (hadBlock \<or> hadAdj \<or> storeExisted \<or> previousState \<noteq> None),
                        invalidateRateLimitShield ops k
                          (pushAudit now ActDelete k (DetDelete hadBlock hadAdj storeExisted) actor
                            (emitTyped (EvDeleted k previousState now) m3))))
                    (m1\<lparr>km_blocks := AList.delete k (km_blocks m1),
                        km_adjustments := AList.delete k (km_adjustments m1)\<rparr>))
               m)
       (expireDueBlocks ops now m0)"

definition km_isBlocked :: "'s store_ops \<Rightarrow> time \<Rightarrow> key \<Rightarrow> ('s, 'b) key_manager \<Rightarrow> bool \<times> ('s, 'b) key_manager" where
  "km_isBlocked ops now k m0 =
     (let m = expireDueBlocks ops now m0 in (isManualBlockActive now m k, m))"

definition km_getBlockInfo ::
  "'s store_ops \<Rightarrow> time \<Rightarrow> key \<Rightarrow> ('s, 'b) key_manager \<Rightarrow> block option \<times> ('s, 'b) key_manager" where
  "km_getBlockInfo ops now k m0 =
     (let m = expireDueBlocks ops now m0
      in (case map_of (km_blocks m) k of
            None \<Rightarrow> None
          | Some b \<Rightarrow> if block_due now (bl_expiresAt b) then None else Some b, m))"

record audit_filter =
  af_key :: "key option"
  af_action :: "audit_action option"
  af_since :: "time option"
  af_limit :: "nat option"

definition km_getAuditLog :: "audit_filter \<Rightarrow> ('s, 'b) key_manager \<Rightarrow> audit_entry list" where
  "km_getAuditLog f m =
     (let rows = km_auditLog m;
          rows = (case af_key f of None \<Rightarrow> rows | Some k \<Rightarrow> filter (\<lambda>e. au_key e = k) rows);
          rows = (case af_action f of None \<Rightarrow> rows | Some a \<Rightarrow> filter (\<lambda>e. au_action e = a) rows);
          rows = (case af_since f of None \<Rightarrow> rows | Some t \<Rightarrow> filter (\<lambda>e. au_timestamp e \<ge> t) rows);
          rows = rev rows
      in case af_limit f of None \<Rightarrow> rows | Some n \<Rightarrow> take n rows)"

definition km_clearAuditLog :: "('s, 'b) key_manager \<Rightarrow> ('s, 'b) key_manager" where
  "km_clearAuditLog m = m\<lparr>km_auditLog := []\<rparr>"

definition km_getBlockedKeys ::
  "'s store_ops \<Rightarrow> time \<Rightarrow> ('s, 'b) key_manager \<Rightarrow> (key \<times> block_reason \<times> time option) list \<times> ('s, 'b) key_manager" where
  "km_getBlockedKeys ops now m0 =
     (let m = expireDueBlocks ops now m0
      in (map (\<lambda>(k, v). (k, bl_reason v, bl_expiresAt v))
            (filter (\<lambda>(k, v). case bl_expiresAt v of None \<Rightarrow> True | Some t \<Rightarrow> t > now) (km_blocks m)), m))"

definition unblock_bulk_one ::
  "'s store_ops \<Rightarrow> time \<Rightarrow> string option \<Rightarrow> key \<Rightarrow> ('s, 'b) key_manager \<Rightarrow> ('s, 'b) key_manager" where
  "unblock_bulk_one ops now actor k m =
     (case map_of (km_blocks m) k of
        None \<Rightarrow> m
      | Some entry \<Rightarrow>
          invalidateRateLimitShield ops k
            (pushAudit now ActUnblock k (DetUnblockBulk (bl_reason entry)) actor
              (emitTyped (EvUnblocked k (bl_reason entry) ByManual now)
                (clear_violations k (m\<lparr>km_blocks := AList.delete k (km_blocks m)\<rparr>)))))"

definition km_unblockAll ::
  "'s store_ops \<Rightarrow> 'b block_ops option \<Rightarrow> time \<Rightarrow> string option \<Rightarrow> ('s, 'b) key_manager \<Rightarrow> ('s, 'b) key_manager" where
  "km_unblockAll ops bops now actor m0 =
     (let m = expireDueBlocks ops now m0;
          ks = map fst (km_blocks m);
          m1 = fold (unblock_bulk_one ops now actor) ks m
      in case bops of
           None \<Rightarrow> m1
         | Some bo \<Rightarrow> fold (\<lambda>k m. snd (on_blocks (bo_removeBlock bo now k) m)) ks m1)"

definition km_destroy :: "('s, 'b) key_manager \<Rightarrow> ('s, 'b) key_manager" where
  "km_destroy m =
     m\<lparr>km_syncTimer := False, km_expiryTimer := False, km_blocks := [], km_adjustments := [],
       km_auditLog := []\<rparr>"


section \<open>Invariant\<close>

definition adjustment_ok :: "adjustment \<Rightarrow> bool" where
  "adjustment_ok a \<longleftrightarrow> 0 \<le> penaltyPoints a \<and> 0 \<le> rewardPoints a \<and> 0 \<le> penaltyViolationCount a"

definition km_inv :: "nat \<Rightarrow> ('s, 'b) key_manager \<Rightarrow> bool" where
  "km_inv N m \<longleftrightarrow> jsmap_ok (km_blocks m) \<and> jsmap_ok (km_adjustments m) \<and>
     km_maxAuditLogSize m = N \<and> length (km_auditLog m) \<le> N \<and>
     (\<forall>a \<in> snd ` set (km_adjustments m). adjustment_ok a)"

lemma km_frame_blocks [simp]:
  "km_blocks (pushAudit now act k det actor m) = km_blocks m"
  "km_blocks (emitTyped ev m) = km_blocks m"
  "km_blocks (invalidateRateLimitShield ops k m) = km_blocks m"
  "km_blocks (set_adjustment k a m) = km_blocks m"
  "km_blocks (clear_violations k m) = km_blocks m"
  "km_blocks (touchAdjustmentWindow now k m) = km_blocks m"
  by (simp_all add: pushAudit_def emitTyped_def invalidateRateLimitShield_def set_adjustment_def
      clear_violations_def touchAdjustmentWindow_def Let_def split: option.splits)

lemma km_frame_adjustments [simp]:
  "km_adjustments (pushAudit now act k det actor m) = km_adjustments m"
  "km_adjustments (emitTyped ev m) = km_adjustments m"
  "km_adjustments (invalidateRateLimitShield ops k m) = km_adjustments m"
  "km_adjustments (set_adjustment k a m) = AList.update k a (km_adjustments m)"
  by (simp_all add: pushAudit_def emitTyped_def invalidateRateLimitShield_def set_adjustment_def Let_def
      split: option.splits)

lemma km_frame_cfg [simp]:
  "km_penaltyBlockThreshold (pushAudit now act k det actor m) = km_penaltyBlockThreshold m"
  "km_penaltyBlockThreshold (emitTyped ev m) = km_penaltyBlockThreshold m"
  "km_penaltyBlockThreshold (set_adjustment k a m) = km_penaltyBlockThreshold m"
  "km_penaltyBlockThreshold (touchAdjustmentWindow now k m) = km_penaltyBlockThreshold m"
  "km_penaltyBlockThreshold (invalidateRateLimitShield ops k m) = km_penaltyBlockThreshold m"
  "km_penaltyEscalation (pushAudit now act k det actor m) = km_penaltyEscalation m"
  "km_penaltyEscalation (emitTyped ev m) = km_penaltyEscalation m"
  "km_penaltyEscalation (set_adjustment k a m) = km_penaltyEscalation m"
  "km_penaltyEscalation (touchAdjustmentWindow now k m) = km_penaltyEscalation m"
  "km_penaltyEscalation (invalidateRateLimitShield ops k m) = km_penaltyEscalation m"
  "km_windowMs (pushAudit now act k det actor m) = km_windowMs m"
  "km_windowMs (emitTyped ev m) = km_windowMs m"
  "km_windowMs (invalidateRateLimitShield ops k m) = km_windowMs m"
  "km_blockStore (pushAudit now act k det actor m) = km_blockStore m"
  "km_blockStore (emitTyped ev m) = km_blockStore m"
  "km_blockStore (invalidateRateLimitShield ops k m) = km_blockStore m"
  by (simp_all add: pushAudit_def emitTyped_def invalidateRateLimitShield_def set_adjustment_def
      touchAdjustmentWindow_def Let_def split: option.splits)

text \<open>\<open>km_core\<close> is what calls into the stores leave alone.\<close>

definition km_core :: "('s, 'b) key_manager \<Rightarrow>
  (key, block) jsmap \<times> (key, adjustment) jsmap \<times> audit_entry list \<times> nat \<times> int option \<times> escalation \<times> int" where
  "km_core m = (km_blocks m, km_adjustments m, km_auditLog m, km_maxAuditLogSize m,
     km_penaltyBlockThreshold m, km_penaltyEscalation m, km_windowMs m)"

lemma km_core_inv: "km_core m' = km_core m \<Longrightarrow> km_inv N m' = km_inv N m"
  by (simp add: km_core_def km_inv_def)

lemma bindE_keeps:
  "P (snd (f m)) \<Longrightarrow> (\<And>x m1. f m = (Inr x, m1) \<Longrightarrow> P m1 \<Longrightarrow> P (snd (g x m1))) \<Longrightarrow> P (snd (bindE f g m))"
  by (auto simp: bindE_def split: prod.splits sum.splits)

lemma bindE_InrD:
  "bindE f g m = (Inr y, m') \<Longrightarrow> \<exists>x m1. f m = (Inr x, m1) \<and> g x m1 = (Inr y, m')"
  by (auto simp: bindE_def split: prod.splits sum.splits)

lemma retE_simps [simp]: "snd (retE x m) = m" "retE x m = (Inr y, m') \<longleftrightarrow> y = x \<and> m' = m"
  by (auto simp: retE_def)

text \<open>Calls into the stores leave the core alone.\<close>

lemma on_store_core [simp]: "km_core (snd (on_store f m)) = km_core m"
  by (simp add: on_store_def km_core_def case_prod_beta)

lemma on_blocks_core [simp]: "km_core (snd (on_blocks f m)) = km_core m"
  by (simp add: on_blocks_def km_core_def case_prod_beta)

lemma readStoreSnapshot_core [simp]: "km_core (snd (readStoreSnapshot ops now k m)) = km_core m"
  unfolding readStoreSnapshot_def
  by (auto split: option.split simp: Let_def intro!: bindE_keeps [of "\<lambda>x. km_core x = km_core m"])

lemma setWithoutStoreSet_core [simp]: "km_core (snd (setWithoutStoreSet ops now k n m)) = km_core m"
  unfolding setWithoutStoreSet_def
  by (auto simp: Let_def intro!: bindE_keeps [of "\<lambda>x. km_core x = km_core m"])

lemma removeBlockE_core [simp]: "km_core (snd (removeBlockE bops now k m)) = km_core m"
  unfolding removeBlockE_def
  by (auto split: option.split intro!: bindE_keeps [of "\<lambda>x. km_core x = km_core m"])

lemma core_inv_snd [simp]:
  "km_inv N (snd (on_store f m)) = km_inv N m" "km_inv N (snd (on_blocks g m)) = km_inv N m"
  "km_inv N (snd (readStoreSnapshot ops now k m)) = km_inv N m"
  "km_inv N (snd (setWithoutStoreSet ops now k n m)) = km_inv N m"
  "km_inv N (snd (removeBlockE bops now k m)) = km_inv N m"
  by (rule km_core_inv; simp)+

lemma km_inv_audit [intro!]: "km_inv N m \<Longrightarrow> km_inv N (pushAudit now act k det actor m)"
  by (auto simp: km_inv_def pushAudit_def Let_def)

lemma km_inv_emit [intro!]: "km_inv N m \<Longrightarrow> km_inv N (emitTyped ev m)"
  by (simp add: km_inv_def emitTyped_def)

lemma km_inv_invalidate [intro!]: "km_inv N m \<Longrightarrow> km_inv N (invalidateRateLimitShield ops k m)"
  by (simp add: km_inv_def invalidateRateLimitShield_def Let_def split: option.splits)

lemma km_inv_blocks [intro!]:
  "km_inv N m \<Longrightarrow> (jsmap_ok (km_blocks m) \<Longrightarrow> jsmap_ok bs) \<Longrightarrow> km_inv N (m\<lparr>km_blocks := bs\<rparr>)"
  by (simp add: km_inv_def)

lemma km_inv_forget [intro!]:
  "km_inv N m \<Longrightarrow> km_inv N (m\<lparr>km_blocks := AList.delete k (km_blocks m), km_adjustments := AList.delete k (km_adjustments m)\<rparr>)"
  by (auto simp: km_inv_def dest!: set_deleteD)

lemma km_inv_adjust [intro!]: "km_inv N m \<Longrightarrow> adjustment_ok a \<Longrightarrow> km_inv N (set_adjustment k a m)"
  by (auto simp: km_inv_def set_adjustment_def dest!: set_updateD)

lemma km_inv_lookup: "km_inv N m \<Longrightarrow> map_of (km_adjustments m) k = Some a \<Longrightarrow> adjustment_ok a"
  by (force simp: km_inv_def dest: map_of_SomeD)

lemma get_adjustment_ok: "km_inv N m \<Longrightarrow> adjustment_ok (get_adjustment k m)"
  by (auto simp: get_adjustment_def km_inv_lookup split: option.splits) (simp add: adjustment_ok_def)

lemma km_inv_clear [intro!]: "km_inv N m \<Longrightarrow> km_inv N (clear_violations k m)"
  using km_inv_lookup [of N m k]
  by (auto simp: clear_violations_def adjustment_ok_def split: option.splits)

lemma km_inv_touch [intro!]: "km_inv N m \<Longrightarrow> km_inv N (touchAdjustmentWindow now k m)"
  using km_inv_lookup [of N m k]
  by (auto simp: touchAdjustmentWindow_def Let_def adjustment_ok_def km_inv_def dest!: set_updateD
      split: option.splits)

lemma km_inv_expire_one: "km_inv N m \<Longrightarrow> km_inv N (expire_one ops now kv m)"
  by (auto simp: expire_one_def split: prod.splits)

lemma km_inv_expire [intro!]: "km_inv N m \<Longrightarrow> km_inv N (expireDueBlocks ops now m)"
  unfolding expireDueBlocks_def by (rule fold_keeps [of "km_inv N"]) (rule km_inv_expire_one)

lemma loadKeyState_core [simp]:
  "km_core (snd (loadKeyState ops now k m)) = km_core (expireDueBlocks ops now m)"
  unfolding loadKeyState_def by (rule bindE_keeps [of "\<lambda>x. km_core x = _"]) simp_all

lemma km_inv_load: "km_inv N m \<Longrightarrow> km_inv N (snd (loadKeyState ops now k m))"
  using km_core_inv [OF loadKeyState_core] by blast

text \<open>Every method keeps the invariant, whatever the stores answer.\<close>

lemma km_reads_inv:
  assumes "km_inv N m"
  shows "km_inv N (snd (km_get ops now k actor m))" "km_inv N (snd (km_isBlocked ops now k m))"
    "km_inv N (snd (km_getBlockInfo ops now k m))" "km_inv N (snd (km_getBlockedKeys ops now m))"
    "km_inv N (km_clearAuditLog m)" "km_inv N (km_destroy m)"
proof -
  show "km_inv N (snd (km_get ops now k actor m))"
    unfolding km_get_def by (rule bindE_keeps) (auto intro: km_inv_load assms)
qed (use assms in \<open>auto simp: km_isBlocked_def km_getBlockInfo_def km_getBlockedKeys_def Let_def\<close>,
     simp_all add: km_inv_def km_clearAuditLog_def km_destroy_def)

lemma km_set_inv:
  assumes "km_inv N m" shows "km_inv N (snd (km_set ops now k n ex actor m))"
  unfolding km_set_def Let_def
  by (intro bindE_keeps [of "km_inv N"])
     (use assms in \<open>auto split: option.splits intro!: bindE_keeps [of "km_inv N"]\<close>)

lemma km_block_inv:
  assumes "km_inv N m" shows "km_inv N (snd (km_block ops bops now k d reason persist actor m))"
  unfolding km_block_def Let_def
  by (intro bindE_keeps [of "km_inv N"])
     (use assms in \<open>auto split: option.splits bool.splits intro!: bindE_keeps [of "km_inv N"]\<close>)

lemma km_unblock_inv:
  assumes "km_inv N m" shows "km_inv N (snd (km_unblock ops bops now k actor m))"
proof -
  have "km_inv N (expireDueBlocks ops now m)" using assms by blast
  then show ?thesis
    by (auto simp: km_unblock_def Let_def intro!: bindE_keeps [of "km_inv N"] km_inv_load split: option.splits)
qed

lemma km_autoblock_inv:
  assumes "km_inv N m" shows "km_inv N (snd (km_autoblock bops now k th snap actor m))"
  unfolding km_autoblock_def Let_def
  using get_adjustment_ok [OF assms, of k] assms
  by (intro bindE_keeps [of "km_inv N"]) (auto split: option.splits simp: adjustment_ok_def)

lemma penalty_finish_inv: "km_inv N m \<Longrightarrow> km_inv N (snd (penalty_finish bops now k p pts actor snap m))"
  unfolding penalty_finish_def Let_def by (auto split: option.splits intro!: km_autoblock_inv)

lemma penalty_points_inv:
  assumes "km_inv N m" "0 \<le> p" shows "km_inv N (snd (penalty_points ops bops now k p actor m))"
  unfolding penalty_points_def Let_def
  by (rule bindE_keeps [of "km_inv N"])
     (use assms get_adjustment_ok [OF assms(1), of k] in \<open>auto simp: adjustment_ok_def intro: penalty_finish_inv\<close>)

lemma km_penalty_inv: "km_inv N m \<Longrightarrow> km_inv N (snd (km_penalty ops bops now k p actor m))"
  unfolding km_penalty_def Let_def by (rule bindE_keeps [of "km_inv N"]) (auto intro!: penalty_points_inv)

lemma reward_points_inv:
  assumes "km_inv N m" "0 \<le> p" shows "km_inv N (snd (reward_points ops now k p actor m))"
  unfolding reward_points_def reward_finish_def Let_def
  by (rule bindE_keeps [of "km_inv N"])
     (use assms get_adjustment_ok [OF assms(1), of k] in \<open>auto simp: adjustment_ok_def\<close>)

lemma km_reward_inv: "km_inv N m \<Longrightarrow> km_inv N (snd (km_reward ops now k p actor m))"
  unfolding km_reward_def Let_def by (rule bindE_keeps [of "km_inv N"]) (auto intro!: reward_points_inv)

lemma km_delete_inv:
  assumes "km_inv N m" shows "km_inv N (snd (km_delete ops bops now k actor m))"
  unfolding km_delete_def Let_def
  by (rule bindE_keeps [of "km_inv N"])
     (use assms in \<open>auto intro!: bindE_keeps [of "km_inv N"] km_inv_load split: option.split\<close>)

lemma install_remote_ok: "jsmap_ok bs \<Longrightarrow> jsmap_ok (install_remote now r bs)"
  by (simp add: install_remote_def)

lemma km_syncBlocks_inv:
  assumes "km_inv N m" shows "km_inv N (snd (km_syncBlocks ops bops now m))"
proof (cases bops)
  case (Some bo)
  have "km_inv N (m1\<lparr>km_blocks := fold (install_remote now) remote (filter P (km_blocks m1))\<rparr>)"
    if "km_inv N m1" for m1 :: "('a, 'b) key_manager" and remote P
  proof -
    have "jsmap_ok (fold (install_remote now) remote (filter P (km_blocks m1)))"
      by (rule fold_keeps [of jsmap_ok]) (use that in \<open>auto simp: km_inv_def install_remote_ok\<close>)
    with that show ?thesis by (simp add: km_inv_def)
  qed
  then show ?thesis using assms Some
    by (auto simp: km_syncBlocks_def intro!: bindE_keeps [of "km_inv N"])
qed (use assms in \<open>simp add: km_syncBlocks_def\<close>)

lemma unblock_bulk_one_inv: "km_inv N m \<Longrightarrow> km_inv N (unblock_bulk_one ops now actor k m)"
  by (auto simp: unblock_bulk_one_def split: option.splits)

lemma km_unblockAll_inv:
  assumes "km_inv N m" shows "km_inv N (km_unblockAll ops bops now actor m)"
proof -
  have local: "km_inv N (fold (unblock_bulk_one ops now actor) ks (expireDueBlocks ops now m))" for ks
    by (rule fold_keeps [of "km_inv N"]) (use assms in \<open>auto simp: unblock_bulk_one_inv\<close>)
  show ?thesis
  proof (cases bops)
    case None
    then show ?thesis using local by (simp add: km_unblockAll_def Let_def)
  next
    case (Some bo)
    have "km_inv N (fold (\<lambda>k m. snd (on_blocks (bo_removeBlock bo now k) m)) ks m')" if "km_inv N m'"
      for ks and m' :: "('a, 'b) key_manager"
      by (rule fold_keeps [of "km_inv N"]) (use that in auto)
    then show ?thesis using local Some by (simp add: km_unblockAll_def Let_def)
  qed
qed

section \<open>Call sequences\<close>

datatype km_call =
    KmGet time key "string option"
  | KmSet time key int "time option" "string option"
  | KmBlock time key int block_reason "bool option" "string option"
  | KmUnblock time key "string option"
  | KmPenalty time key rat "string option"
  | KmReward time key rat "string option"
  | KmDelete time key "string option"
  | KmIsBlocked time key
  | KmBlockedKeys time
  | KmUnblockAll time "string option"
  | KmSync time
  | KmExpire time
  | KmClearLog
  | KmDestroy

primrec km_exec :: "'s store_ops \<Rightarrow> 'b block_ops option \<Rightarrow> km_call \<Rightarrow> ('s, 'b) key_manager \<Rightarrow> ('s, 'b) key_manager" where
  "km_exec ops bops (KmGet now k a) m = snd (km_get ops now k a m)"
| "km_exec ops bops (KmSet now k n e a) m = snd (km_set ops now k n e a m)"
| "km_exec ops bops (KmBlock now k d r p a) m = snd (km_block ops bops now k d r p a m)"
| "km_exec ops bops (KmUnblock now k a) m = snd (km_unblock ops bops now k a m)"
| "km_exec ops bops (KmPenalty now k p a) m = snd (km_penalty ops bops now k p a m)"
| "km_exec ops bops (KmReward now k p a) m = snd (km_reward ops now k p a m)"
| "km_exec ops bops (KmDelete now k a) m = snd (km_delete ops bops now k a m)"
| "km_exec ops bops (KmIsBlocked now k) m = snd (km_isBlocked ops now k m)"
| "km_exec ops bops (KmBlockedKeys now) m = snd (km_getBlockedKeys ops now m)"
| "km_exec ops bops (KmUnblockAll now a) m = km_unblockAll ops bops now a m"
| "km_exec ops bops (KmSync now) m = snd (km_syncBlocks ops bops now m)"
| "km_exec ops bops (KmExpire now) m = expireDueBlocks ops now m"
| "km_exec ops bops KmClearLog m = km_clearAuditLog m"
| "km_exec ops bops KmDestroy m = km_destroy m"

lemma km_exec_inv: "km_inv N m \<Longrightarrow> km_inv N (km_exec ops bops c m)"
  by (cases c)
     (auto simp: km_reads_inv km_set_inv km_block_inv km_unblock_inv km_penalty_inv km_reward_inv
       km_delete_inv km_unblockAll_inv km_syncBlocks_inv)

lemma new_KeyManager_inv:
  "km_inv (case kmo_maxAuditLogSize o' of None \<Rightarrow> 1000 | Some n \<Rightarrow> n) (new_KeyManager o' bops s b)"
  by (simp add: new_KeyManager_def km_inv_def Let_def)

lemma km_calls_inv:
  "km_inv N m \<Longrightarrow> km_inv N (fold (km_exec ops bops) cs m)"
  by (rule fold_keeps [of "km_inv N"]) (rule km_exec_inv)

section \<open>What the block map holds\<close>

text \<open>The specification of a block map: the blocks that are in force at a time.\<close>

definition active_block :: "time \<Rightarrow> (key, block) jsmap \<Rightarrow> key \<Rightarrow> block option" where
  "active_block now bs k =
     (case map_of bs k of
        None \<Rightarrow> None
      | Some b \<Rightarrow> if block_due now (bl_expiresAt b) then None else Some b)"

lemma expire_fold_blocks:
  "km_blocks (fold (expire_one ops now) kvs m) =
     filter (\<lambda>(k, v). \<forall>(k', v') \<in> set kvs. block_due now (bl_expiresAt v') \<longrightarrow> k' \<noteq> k) (km_blocks m)"
proof (induction kvs arbitrary: m)
  case (Cons kv kvs)
  have "km_blocks (expire_one ops now kv m) =
      filter (\<lambda>(k, v). block_due now (bl_expiresAt (snd kv)) \<longrightarrow> fst kv \<noteq> k) (km_blocks m)"
    by (cases kv) (auto simp: expire_one_def AList.delete_eq intro!: filter_cong)
  then show ?case by (auto simp: Cons.IH intro!: filter_cong)
qed simp

lemma map_of_filter_keys:
  "distinct (map fst xs) \<Longrightarrow>
   map_of (filter (\<lambda>(k, v). P k v) xs) k = (case map_of xs k of None \<Rightarrow> None | Some v \<Rightarrow> if P k v then Some v else None)"
  by (induction xs) (auto split: option.splits dest: map_of_SomeD simp: image_iff rev_image_eqI)

lemma expireDueBlocks_lookup:
  assumes "jsmap_ok (km_blocks m)"
  shows "map_of (km_blocks (expireDueBlocks ops now m)) k = active_block now (km_blocks m) k"
proof -
  have "(\<forall>(k', v') \<in> set (km_blocks m). block_due now (bl_expiresAt v') \<longrightarrow> k' \<noteq> k) \<longleftrightarrow>
      \<not> block_due now (bl_expiresAt v)" if "(k, v) \<in> set (km_blocks m)" for k v
    using that assms by (fastforce simp: jsmap_ok_def dest: eq_key_imp_eq_value)
  then have "km_blocks (expireDueBlocks ops now m) =
      filter (\<lambda>(k, v). \<not> block_due now (bl_expiresAt v)) (km_blocks m)"
    unfolding expireDueBlocks_def expire_fold_blocks by (intro filter_cong [OF refl]) (simp add: split_beta)
  then show ?thesis
    using assms by (simp add: map_of_filter_keys active_block_def jsmap_ok_def split: option.split)
qed

lemma expireDueBlocks_idem:
  "km_blocks (expireDueBlocks ops now (expireDueBlocks ops now m)) = km_blocks (expireDueBlocks ops now m)"
  unfolding expireDueBlocks_def expire_fold_blocks filter_filter
  by (rule filter_cong [OF refl]) auto

lemma isManualBlockActive_alt: "isManualBlockActive now m k \<longleftrightarrow> active_block now (km_blocks m) k \<noteq> None"
  by (auto simp: isManualBlockActive_def active_block_def block_due_def split: option.splits)

lemma active_block_mono:
  "now \<le> now' \<Longrightarrow> active_block now' bs k =
     (case active_block now bs k of None \<Rightarrow> None | Some b \<Rightarrow> if block_due now' (bl_expiresAt b) then None else Some b)"
  by (auto simp: active_block_def block_due_def split: option.splits)

lemma active_block_expire:
  "jsmap_ok (km_blocks m) \<Longrightarrow> now \<le> now' \<Longrightarrow>
   active_block now' (km_blocks (expireDueBlocks ops now m)) k = active_block now' (km_blocks m) k"
  by (simp add: active_block_mono [of now now' "km_blocks m"])
     (simp add: active_block_def [of now'] expireDueBlocks_lookup)

lemma km_isBlocked_iff:
  "jsmap_ok (km_blocks m) \<Longrightarrow> fst (km_isBlocked ops now k m) \<longleftrightarrow> active_block now (km_blocks m) k \<noteq> None"
  by (simp add: km_isBlocked_def isManualBlockActive_alt active_block_expire)

lemma active_block_update:
  "active_block now (AList.update k b bs) k' =
     (if k' = k then (if block_due now (bl_expiresAt b) then None else Some b) else active_block now bs k')"
  by (simp add: active_block_def update_conv')

lemma active_block_delete:
  "active_block now (AList.delete k bs) k' = (if k' = k then None else active_block now bs k')"
  by (simp add: active_block_def delete_conv')

lemma km_inv_jsmap: "km_inv N m \<Longrightarrow> jsmap_ok (km_blocks m)"
  by (simp add: km_inv_def)

lemma core_blocks: "km_core m' = km_core m \<Longrightarrow> km_blocks m' = km_blocks m"
  by (simp add: km_core_def)

lemma km_calls_blocks [simp]:
  "km_blocks (snd (on_store f m)) = km_blocks m" "km_blocks (snd (on_blocks g m)) = km_blocks m"
  "km_blocks (snd (readStoreSnapshot ops now k m)) = km_blocks m"
  "km_blocks (snd (setWithoutStoreSet ops now k n m)) = km_blocks m"
  "km_blocks (snd (removeBlockE bops now k m)) = km_blocks m"
  "km_blocks (snd (loadKeyState ops now k m)) = km_blocks (expireDueBlocks ops now m)"
  by (rule core_blocks; simp)+

lemma bindE_retE_snd [simp]: "snd (bindE f (\<lambda>_. retE x) m) = snd (f m)"
  by (simp add: bindE_def retE_def split: prod.splits sum.splits)

lemma km_block_blocks:
  "km_blocks (snd (km_block ops bops now k d reason persist actor m)) =
     AList.update k \<lparr>bl_reason = reason, bl_expiresAt = (if d = 0 then None else Some (now + d)), bl_blockedAt = now\<rparr>
       (km_blocks (expireDueBlocks ops now m))"
  (is "_ = ?bs")
  unfolding km_block_def Let_def
  by (intro bindE_keeps [of "\<lambda>x. km_blocks x = ?bs"])
     (auto split: option.splits bool.splits intro!: bindE_keeps [of "\<lambda>x. km_blocks x = ?bs"])

lemma bindE_snd_InrD:
  assumes "bindE f g m = (Inr y, m')"
  obtains x m1 where "f m = (Inr x, m1)" "m1 = snd (f m)" "g x m1 = (Inr y, m')"
  using bindE_InrD [OF assms] by fastforce

lemma km_unblock_blocks:
  fixes m m' :: "('s, 'b) key_manager"
  assumes "km_unblock ops bops now k actor m = (Inr r, m')"
  shows "r = None \<longleftrightarrow> map_of (km_blocks (expireDueBlocks ops now m)) k = None"
    and "\<exists>m1 :: ('s, 'b) key_manager. km_blocks m1 = AList.delete k (km_blocks (expireDueBlocks ops now m)) \<and>
           km_blocks m' = km_blocks (expireDueBlocks ops now m1)"
proof -
  let ?m = "expireDueBlocks ops now m"
  have "(r = None \<longleftrightarrow> map_of (km_blocks ?m) k = None) \<and>
    (\<exists>m1 :: ('s, 'b) key_manager. km_blocks m1 = AList.delete k (km_blocks ?m) \<and> km_blocks m' = km_blocks (expireDueBlocks ops now m1))"
  proof (cases "map_of (km_blocks ?m) k")
    case None
    then have "AList.delete k (km_blocks ?m) = km_blocks ?m"
      by (simp add: delete_id map_of_eq_None_iff)
    moreover have "m' = ?m" "r = None" using assms None by (simp_all add: km_unblock_def Let_def)
    ultimately show ?thesis using None
      by (intro conjI exI [of _ ?m]) (simp_all add: expireDueBlocks_idem)
  next
    case (Some b)
    from assms Some obtain st where "r = Some st"
      by (auto simp: km_unblock_def Let_def dest!: bindE_InrD)
    moreover
    define cleared :: "('s, 'b) key_manager \<Rightarrow> ('s, 'b) key_manager" where "cleared = (\<lambda>m1. invalidateRateLimitShield ops k
        (pushAudit now ActUnblock k (DetUnblock (bl_reason b)) actor
          (emitTyped (EvUnblocked k (bl_reason b) ByManual now)
            (clear_violations k (m1\<lparr>km_blocks := AList.delete k (km_blocks m1)\<rparr>)))))"
    from assms Some obtain x m1 st m4 where "removeBlockE bops now k ?m = (Inr x, m1)"
      and "m' = snd (loadKeyState ops now k (cleared m1))"
      by (auto simp: km_unblock_def Let_def cleared_def elim!: bindE_snd_InrD)
    moreover have "km_blocks m1 = km_blocks ?m"
      using \<open>removeBlockE bops now k ?m = (Inr x, m1)\<close> km_calls_blocks(5) [of bops now k ?m] by simp
    ultimately show ?thesis using Some by (intro conjI exI [of _ "cleared m1"]) (simp_all add: cleared_def)
  qed
  then show "r = None \<longleftrightarrow> map_of (km_blocks ?m) k = None"
    "\<exists>m1 :: ('s, 'b) key_manager. km_blocks m1 = AList.delete k (km_blocks ?m) \<and> km_blocks m' = km_blocks (expireDueBlocks ops now m1)"
    by blast+
qed

section \<open>Penalties\<close>

text \<open>Penalty points collected in the current window, and violations so far.\<close>

definition window_penalty :: "time \<Rightarrow> ('s, 'b) key_manager \<Rightarrow> key \<Rightarrow> int \<times> int" where
  "window_penalty now m k =
     (case map_of (km_adjustments m) k of
        None \<Rightarrow> (0, 0)
      | Some a \<Rightarrow> (if now - windowStart a \<ge> km_windowMs m then 0 else penaltyPoints a, penaltyViolationCount a))"

lemma expire_fold_frame:
  "km_adjustments (fold (expire_one ops now) kvs m) = km_adjustments m \<and>
   km_penaltyBlockThreshold (fold (expire_one ops now) kvs m) = km_penaltyBlockThreshold m \<and>
   km_penaltyEscalation (fold (expire_one ops now) kvs m) = km_penaltyEscalation m \<and>
   km_windowMs (fold (expire_one ops now) kvs m) = km_windowMs m \<and>
   km_blockStore (fold (expire_one ops now) kvs m) = km_blockStore m"
proof (induction kvs arbitrary: m)
  case (Cons kv kvs)
  then show ?case by (cases kv) (simp add: expire_one_def)
qed simp

text \<open>Reading a block touches the store only to unshield keys: a store without that method is left alone.\<close>

lemma expire_fold_store:
  "op_unshield ops = None \<Longrightarrow> km_store (fold (expire_one ops now) kvs m) = km_store m"
proof (induction kvs arbitrary: m)
  case (Cons kv kvs)
  then show ?case
    by (cases kv) (simp add: expire_one_def pushAudit_def emitTyped_def invalidateRateLimitShield_def Let_def)
qed simp

lemma km_reads_store:
  assumes "op_unshield ops = None"
  shows "km_store (snd (km_isBlocked ops now k m)) = km_store m"
    "km_store (snd (km_getBlockInfo ops now k m)) = km_store m"
  using expire_fold_store [OF assms] by (simp_all add: km_isBlocked_def km_getBlockInfo_def expireDueBlocks_def Let_def)

lemma expireDueBlocks_frame [simp]:
  "km_adjustments (expireDueBlocks ops now m) = km_adjustments m"
  "km_penaltyBlockThreshold (expireDueBlocks ops now m) = km_penaltyBlockThreshold m"
  "km_penaltyEscalation (expireDueBlocks ops now m) = km_penaltyEscalation m"
  "km_windowMs (expireDueBlocks ops now m) = km_windowMs m"
  "km_blockStore (expireDueBlocks ops now m) = km_blockStore m"
  using expire_fold_frame [of ops now "km_blocks m" m] by (simp_all add: expireDueBlocks_def)

lemma touch_window_penalty:
  "penaltyPoints (get_adjustment k (touchAdjustmentWindow now k m)) = fst (window_penalty now m k)"
  "penaltyViolationCount (get_adjustment k (touchAdjustmentWindow now k m)) = snd (window_penalty now m k)"
  by (auto simp: get_adjustment_def touchAdjustmentWindow_def window_penalty_def Let_def update_conv'
      split: option.splits)

lemma window_penalty_expire [simp]: "window_penalty now (expireDueBlocks ops now m) k = window_penalty now m k"
  by (simp add: window_penalty_def split: option.split)

lemma get_set_adjustment [simp]: "get_adjustment k (set_adjustment k a m) = a"
  by (simp add: get_adjustment_def set_adjustment_def update_conv')

lemma get_adjustment_frame [simp]:
  "get_adjustment k (pushAudit now act k' det actor m) = get_adjustment k m"
  "get_adjustment k (emitTyped ev m) = get_adjustment k m"
  "get_adjustment k (m\<lparr>km_blocks := bs\<rparr>) = get_adjustment k m"
  by (simp_all add: get_adjustment_def)

lemma core_penalty:
  assumes "km_core m' = km_core m"
  shows "km_blocks m' = km_blocks m" "get_adjustment k m' = get_adjustment k m"
    "km_penaltyBlockThreshold m' = km_penaltyBlockThreshold m" "km_penaltyEscalation m' = km_penaltyEscalation m"
  using assms by (auto simp: km_core_def get_adjustment_def)

lemma km_autoblock_effect:
  fixes m :: "('s, 'b) key_manager" and k :: key
  defines "n \<equiv> penaltyViolationCount (get_adjustment k m) + 1"
  assumes "km_autoblock bops now k th snap actor m = (Inr st, m')"
  shows "km_blocks m' = AList.update k
           \<lparr>bl_reason = PenaltyEscalation (penaltyPoints (get_adjustment k m)) th (Some n),
            bl_expiresAt = Some (now + max 0 (km_penaltyEscalation m n)), bl_blockedAt = now\<rparr> (km_blocks m)"
    and "penaltyViolationCount (get_adjustment k m') = n"
proof -
  define m1 where "m1 = set_adjustment k ((get_adjustment k m)\<lparr>penaltyViolationCount := n\<rparr>) m"
  define b where "b = \<lparr>bl_reason = PenaltyEscalation (penaltyPoints (get_adjustment k m)) th (Some n),
            bl_expiresAt = Some (now + max 0 (km_penaltyEscalation m n)), bl_blockedAt = now\<rparr>"
  define m2 where "m2 = m1\<lparr>km_blocks := AList.update k b (km_blocks m1)\<rparr>"
  define logged where "logged = (\<lambda>m3 :: ('s, 'b) key_manager. pushAudit now ActBlock k (DetAutoBlock (bl_reason b)) actor
      (emitTyped (EvBlocked k (bl_reason b) (bl_expiresAt b)
         (composeBlocked now m3 k snap (bl_reason b) (bl_expiresAt b)) now) m3))"
  have "km_autoblock bops now k th snap actor m =
      bindE (case bops of None \<Rightarrow> retE () | Some bo \<Rightarrow> on_blocks (bo_setBlock bo now k b))
        (\<lambda>_ m3. (Inr (composeBlocked now m3 k snap (bl_reason b) (bl_expiresAt b)), logged m3)) m2"
    by (cases bops) (simp_all add: km_autoblock_def Let_def logged_def m2_def m1_def b_def n_def)
  with assms(2) obtain x m3 where
    call: "(case bops of None \<Rightarrow> retE () | Some bo \<Rightarrow> on_blocks (bo_setBlock bo now k b)) m2 = (Inr x, m3)"
    and m': "m' = logged m3"
    by (auto elim: bindE_snd_InrD)
  have "km_core (snd ((case bops of None \<Rightarrow> retE () | Some bo \<Rightarrow> on_blocks (bo_setBlock bo now k b)) m2)) = km_core m2"
    by (simp split: option.split)
  with call have "km_core m3 = km_core m2" by simp
  from core_penalty [OF this]
  show "km_blocks m' = AList.update k
           \<lparr>bl_reason = PenaltyEscalation (penaltyPoints (get_adjustment k m)) th (Some n),
            bl_expiresAt = Some (now + max 0 (km_penaltyEscalation m n)), bl_blockedAt = now\<rparr> (km_blocks m)"
    "penaltyViolationCount (get_adjustment k m') = n"
    by (simp_all add: m' logged_def m2_def m1_def b_def)
qed

lemma penalty_finish_effect:
  fixes m :: "('s, 'b) key_manager" and k :: key
  defines "n \<equiv> penaltyViolationCount (get_adjustment k m) + 1"
  assumes "penalty_finish bops now k p pts actor snap m = (Inr st, m')" "pts = penaltyPoints (get_adjustment k m)"
    and "km_penaltyBlockThreshold m = Some th"
  shows "if th \<le> pts \<and> active_block now (km_blocks m) k = None
    then km_blocks m' = AList.update k
           \<lparr>bl_reason = PenaltyEscalation pts th (Some n),
            bl_expiresAt = Some (now + max 0 (km_penaltyEscalation m n)), bl_blockedAt = now\<rparr> (km_blocks m) \<and>
         penaltyViolationCount (get_adjustment k m') = n
    else km_blocks m' = km_blocks m \<and> penaltyViolationCount (get_adjustment k m') = n - 1"
proof -
  define m4 where "m4 = pushAudit now ActPenalty k (DetPoints p pts) actor
      (emitTyped (EvPenalized k p pts (composeKeyStateInternal now m k snap) now) m)"
  have m4: "km_blocks m4 = km_blocks m" "get_adjustment k m4 = get_adjustment k m"
    "km_penaltyBlockThreshold m4 = Some th" "km_penaltyEscalation m4 = km_penaltyEscalation m"
    using assms(4) by (simp_all add: m4_def)
  show ?thesis
  proof (cases "th \<le> pts \<and> active_block now (km_blocks m) k = None")
    case True
    then have "km_autoblock bops now k th snap actor m4 = (Inr st, m')"
      using assms(2,4) by (simp add: penalty_finish_def Let_def isManualBlockActive_alt m4_def)
    from km_autoblock_effect [OF this] True show ?thesis by (simp add: m4 n_def assms(3))
  next
    case False
    then have "m' = m4"
      using assms(2,4) by (auto simp: penalty_finish_def Let_def isManualBlockActive_alt m4_def split: if_splits)
    with False show ?thesis by (simp add: m4 n_def)
  qed
qed

lemma km_penalty_effect:
  fixes m :: "('s, 'b) key_manager" and k :: key and p :: rat and now :: time and ops :: "'s store_ops"
  defines "n \<equiv> snd (window_penalty now m k) + 1"
    and "points \<equiv> fst (window_penalty now m k) + max 1 \<lfloor>p\<rfloor>" and "bs \<equiv> km_blocks (expireDueBlocks ops now m)"
  assumes "km_penalty ops bops now k p actor m = (Inr st, m')" and "km_penaltyBlockThreshold m = Some th"
  shows "if th \<le> points \<and> active_block now bs k = None
    then km_blocks m' = AList.update k
           \<lparr>bl_reason = PenaltyEscalation points th (Some n),
            bl_expiresAt = Some (now + max 0 (km_penaltyEscalation m n)), bl_blockedAt = now\<rparr> bs \<and>
         penaltyViolationCount (get_adjustment k m') = n
    else km_blocks m' = bs \<and> penaltyViolationCount (get_adjustment k m') = n - 1"
proof -
  define m0 where "m0 = touchAdjustmentWindow now k (expireDueBlocks ops now m)"
  define a where "a = get_adjustment k m0"
  have a: "penaltyPoints a = fst (window_penalty now m k)" "penaltyViolationCount a = n - 1"
    by (simp_all add: a_def m0_def n_def touch_window_penalty)
  from assms obtain x m1 where
    inc: "on_store (op_increment ops now k (unit_inc (km_maxRequests m0) (max 1 \<lfloor>p\<rfloor>))) m0 = (Inr x, m1)"
    and pts: "penalty_points ops bops now k (max 1 \<lfloor>p\<rfloor>) actor m1 = (Inr st, m')"
    by (auto simp: km_penalty_def Let_def m0_def elim!: bindE_snd_InrD)
  from inc have m1: "km_core m1 = km_core m0" by (metis on_store_core snd_conv)
  define a1 where "a1 = a\<lparr>penaltyPoints := penaltyPoints a + max 1 \<lfloor>p\<rfloor>\<rparr>"
  from pts obtain snap m3 where
    snap: "readStoreSnapshot ops now k (set_adjustment k a1 m1) = (Inr snap, m3)"
    and fin: "penalty_finish bops now k (max 1 \<lfloor>p\<rfloor>) (penaltyPoints a1) actor snap m3 = (Inr st, m')"
    using core_penalty(2) [OF m1, of k]
    by (auto simp: penalty_points_def Let_def a1_def a_def elim!: bindE_snd_InrD)
  from snap have "km_core m3 = km_core (set_adjustment k a1 m1)" by (metis readStoreSnapshot_core snd_conv)
  note m3 = core_penalty [OF this]
  have "km_blocks m3 = bs" "get_adjustment k m3 = a1" "km_penaltyBlockThreshold m3 = Some th"
    "km_penaltyEscalation m3 = km_penaltyEscalation m" "penaltyPoints a1 = points"
    using m3 core_penalty [OF m1] assms(5) by (simp_all add: m0_def bs_def a1_def a points_def)
  with penalty_finish_effect [OF fin, of th] show ?thesis by (simp add: a1_def a)
qed

section \<open>Synchronisation with the shared block store\<close>

definition mbs_row :: "key \<times> block \<Rightarrow> remote_block" where
  "mbs_row = (\<lambda>(k, v). \<lparr>rb_key = k, rb_reason = bl_reason v, rb_expiresAt = bl_expiresAt v,
                        rb_blockedAt = Some (bl_blockedAt v)\<rparr>)"

lemma install_mbs_row:
  "\<not> block_due now (bl_expiresAt v) \<Longrightarrow> install_remote now (mbs_row (k, v)) bs = AList.update k v bs"
  by (cases v) (simp add: install_remote_def mbs_row_def)

lemma install_rows_lookup:
  "distinct (map fst live) \<Longrightarrow> \<forall>(k, v) \<in> set live. \<not> block_due now (bl_expiresAt v) \<Longrightarrow>
   map_of (fold (install_remote now) (map mbs_row live) bs) k =
     (case map_of live k of None \<Rightarrow> map_of bs k | Some v \<Rightarrow> Some v)"
proof (induction live arbitrary: bs)
  case (Cons kv live)
  obtain k' v where kv: "kv = (k', v)" by (cases kv)
  show ?case using Cons.prems
    by (auto simp: kv install_mbs_row Cons.IH update_conv' map_of_eq_None_iff split: option.splits
        dest: map_of_SomeD intro: rev_image_eqI)
qed simp

lemma km_syncBlocks_mbs:
  assumes "jsmap_ok (km_blockStore m)"
  shows "map_of (km_blocks (snd (km_syncBlocks ops (Some mbs_ops) now m))) k = active_block now (km_blockStore m) k"
proof -
  define live where "live = filter (\<lambda>(k, v). \<not> block_due now (bl_expiresAt v)) (km_blockStore m)"
  have "km_blocks (snd (km_syncBlocks ops (Some mbs_ops) now m)) =
      fold (install_remote now) (map mbs_row live)
        (filter (\<lambda>(k, b). k \<in> set (map rb_key (map mbs_row live))) (km_blocks (expireDueBlocks ops now m)))"
    by (simp add: km_syncBlocks_def bindE_def on_blocks_def mbs_ops_def mbs_getAllBlocks_def image_image
        flip: live_def mbs_row_def)
  moreover have "distinct (map fst live)" "\<forall>(k, v) \<in> set live. \<not> block_due now (bl_expiresAt v)"
    using assms by (auto simp: live_def jsmap_ok_def distinct_map_filter)
  moreover have "map_of live k = active_block now (km_blockStore m) k"
    using assms by (simp add: live_def map_of_filter_keys active_block_def jsmap_ok_def split: option.split)
  moreover have "map_of (filter (\<lambda>(k, b). k \<in> set (map rb_key (map mbs_row live))) bs) k = None"
    if "map_of live k = None" for bs :: "(key, block) jsmap"
    using that by (auto simp: map_of_eq_None_iff mbs_row_def image_iff)
  ultimately show ?thesis by (auto simp: install_rows_lookup split: option.splits)
qed

lemma on_store_blockStore [simp]: "km_blockStore (snd (on_store f m)) = km_blockStore m"
  by (simp add: on_store_def case_prod_beta)

lemma readStoreSnapshot_blockStore [simp]:
  "km_blockStore (snd (readStoreSnapshot ops now k m)) = km_blockStore m"
  unfolding readStoreSnapshot_def
  by (auto split: option.split simp: Let_def intro!: bindE_keeps [of "\<lambda>x. km_blockStore x = km_blockStore m"])

lemma km_block_shared:
  "km_blockStore (snd (km_block ops (Some mbs_ops) now k d reason persist actor m)) =
     AList.update k \<lparr>bl_reason = reason, bl_expiresAt = (if d = 0 then None else Some (now + d)), bl_blockedAt = now\<rparr>
       (km_blockStore m)"
  (is "_ = ?bs")
proof -
  let ?b = "\<lparr>bl_reason = reason, bl_expiresAt = (if d = 0 then None else Some (now + d)), bl_blockedAt = now\<rparr>"
  have set: "on_blocks (bo_setBlock mbs_ops now k ?b) m1 = (Inr (), m1\<lparr>km_blockStore := AList.update k ?b (km_blockStore m1)\<rparr>)"
    for m1 :: "('a, memory_block_store) key_manager"
    by (simp add: on_blocks_def mbs_ops_def mbs_setBlock_def)
  show ?thesis
    unfolding km_block_def Let_def option.case
    by (intro bindE_keeps [of "\<lambda>x. km_blockStore x = ?bs"]) (simp_all add: set)
qed

section \<open>A concrete manager for the witnesses\<close>

definition demo_km :: "(mem_store, memory_block_store) key_manager" where
  "demo_km = new_KeyManager
     \<lparr>kmo_maxRequests = js_int 5, kmo_windowMs = 1000, kmo_maxAuditLogSize = Some 3,
      kmo_penaltyBlockThreshold = Some 4, kmo_penaltyBlockDurationMs = None,
      kmo_penaltyEscalation = Some (exponentialEscalation 100 2), kmo_syncIntervalMs = None, kmo_shield = False\<rparr>
     (Some mbs_ops) (new_MemoryStore (WindowOptions FIXED_WINDOW (js_int 1000) (js_int 5)) None None) []"

lemma not_isl_Inr: "isl (fst p) = False \<Longrightarrow> \<exists>y m. p = (Inr y, m)"
  by (cases p; cases "fst p") auto

lemma demo_km_inv: "km_inv 3 demo_km"
  using new_KeyManager_inv [of _ "Some mbs_ops"] unfolding demo_km_def by (metis (no_types, lifting) km_options.select_convs(3) option.case(2))

section \<open>Properties\<close>

text \<open>(C30) Whatever sequence of calls a key manager serves, at whatever times, and whatever its store
  and its block store answer or reject, its block and adjustment maps stay well formed, no count
  becomes negative, and the audit log never holds more than the configured number of entries
  (1000 by default).\<close>

theorem km_wellformed:
  "km_inv (case kmo_maxAuditLogSize o' of None \<Rightarrow> 1000 | Some n \<Rightarrow> n)
     (fold (km_exec ops bops) calls (new_KeyManager o' bops store blockStore))"
  by (rule km_calls_inv) (rule new_KeyManager_inv)

text \<open>(C26) A block holds from the moment \<open>block\<close> is called until exactly its duration has passed, for
  ever when the duration is 0, whether or not the stores then reject, and blocking one key changes no
  other key's status.\<close>

theorem km_block_holds:
  assumes "km_inv N m" and "now \<le> now'"
    and m': "m' = snd (km_block ops bops now k durationMs reason persist actor m)"
  shows "fst (km_isBlocked ops now' k' m') \<longleftrightarrow>
    (if k' = k then durationMs = 0 \<or> now' < now + durationMs else fst (km_isBlocked ops now' k' m))"
proof -
  note ok = km_inv_jsmap [OF assms(1)]
  have ok': "jsmap_ok (km_blocks m')"
    unfolding m' by (rule km_inv_jsmap [of N]) (rule km_block_inv [OF assms(1)])
  show ?thesis
    unfolding km_isBlocked_iff [OF ok'] km_isBlocked_iff [OF ok]
    by (auto simp: m' km_block_blocks active_block_update active_block_expire [OF ok assms(2)] block_due_def)
qed

theorem km_block_holds_witness:
  "fst (km_isBlocked mem_ops 149 ''k'' (snd (km_block mem_ops (Some mbs_ops) 100 ''k'' 50 (Manual None) None None demo_km))) \<and>
   \<not> fst (km_isBlocked mem_ops 150 ''k'' (snd (km_block mem_ops (Some mbs_ops) 100 ''k'' 50 (Manual None) None None demo_km)))"
  using km_block_holds [OF demo_km_inv _ refl, of 100 149 mem_ops "''k''" "Some mbs_ops" "''k''" 50 "Manual None" None None]
    km_block_holds [OF demo_km_inv _ refl, of 100 150 mem_ops "''k''" "Some mbs_ops" "''k''" 50 "Manual None" None None]
  by simp

text \<open>When \<open>unblock\<close> returns, the key is not blocked at any later time, every other key is as
  blocked as before, and the answer is null exactly when the key was not blocked.\<close>

theorem km_unblock_clears:
  assumes "km_inv N m" and ok: "km_unblock ops bops now k actor m = (Inr r, m')" and "now \<le> now'"
  shows "(fst (km_isBlocked ops now' k' m') \<longleftrightarrow> k' \<noteq> k \<and> fst (km_isBlocked ops now' k' m)) \<and>
    (r = None \<longleftrightarrow> \<not> fst (km_isBlocked ops now k m))"
proof -
  note mok = km_inv_jsmap [OF assms(1)]
  have "km_inv N m'" using km_unblock_inv [OF assms(1), of ops bops now k actor] ok by simp
  note m'ok = km_inv_jsmap [OF this]
  from km_unblock_blocks(2) [OF ok] obtain m1 :: "('a, 'b) key_manager"
    where m1: "km_blocks m1 = AList.delete k (km_blocks (expireDueBlocks ops now m))"
      and m': "km_blocks m' = km_blocks (expireDueBlocks ops now m1)" by blast
  have "jsmap_ok (km_blocks (expireDueBlocks ops now m))"
    by (rule km_inv_jsmap [of N]) (use assms(1) in blast)
  then have m1ok: "jsmap_ok (km_blocks m1)" by (simp add: m1)
  show ?thesis
    unfolding km_isBlocked_iff [OF m'ok] km_isBlocked_iff [OF mok] km_unblock_blocks(1) [OF ok]
    by (simp add: m' active_block_expire [OF m1ok assms(3)] m1 active_block_delete
        active_block_expire [OF mok assms(3)] expireDueBlocks_lookup [OF mok])
qed

theorem km_unblock_clears_witness:
  "\<not> fst (km_isBlocked mem_ops 200 ''k'' (snd (km_unblock mem_ops (Some mbs_ops) 110 ''k'' None
     (snd (km_block mem_ops (Some mbs_ops) 100 ''k'' 0 (Manual None) None None demo_km)))))"
proof -
  let ?m = "snd (km_block mem_ops (Some mbs_ops) 100 ''k'' 0 (Manual None) None None demo_km)"
  have "isl (fst (km_unblock mem_ops (Some mbs_ops) 110 ''k'' None ?m)) = False" by code_simp
  then obtain r m' where ok: "km_unblock mem_ops (Some mbs_ops) 110 ''k'' None ?m = (Inr r, m')"
    using not_isl_Inr by blast
  show ?thesis
    using km_unblock_clears [OF km_block_inv [OF demo_km_inv] ok, of 200 "''k''"] by (simp add: ok)
qed

text \<open>With a penalty threshold configured, a penalty that returns blocks the key exactly when the
  points collected in the current adjustment window reach the threshold and no block is in force:
  the block's reason counts this violation, it lasts as long as the escalation strategy says for
  that violation (a negative answer counts as 0), and the violation count survives the window.
  Otherwise neither the blocks in force nor the violation count change.\<close>

theorem km_penalty_escalates:
  assumes "km_inv N m" and "km_penaltyBlockThreshold m = Some threshold"
    and "km_penalty ops bops now k p actor m = (Inr st, m')"
  shows "let (points0, violations) = window_penalty now m k; points = points0 + max 1 \<lfloor>p\<rfloor>; n = violations + 1
    in if threshold \<le> points \<and> \<not> fst (km_isBlocked ops now k m)
       then map_of (km_blocks m') k = Some \<lparr>bl_reason = PenaltyEscalation points threshold (Some n),
              bl_expiresAt = Some (now + max 0 (km_penaltyEscalation m n)), bl_blockedAt = now\<rparr> \<and>
            penaltyViolationCount (get_adjustment k m') = n
       else map_of (km_blocks m') k = active_block now (km_blocks m) k \<and>
            penaltyViolationCount (get_adjustment k m') = violations"
proof -
  note ok = km_inv_jsmap [OF assms(1)]
  show ?thesis
    using km_penalty_effect [OF assms(3,2)] unfolding km_isBlocked_iff [OF ok]
    by (auto simp: Let_def split_beta active_block_expire [OF ok] expireDueBlocks_lookup [OF ok] update_conv'
        split: if_splits)
qed

theorem km_penalty_escalates_witness:
  "map_of (km_blocks (snd (km_penalty mem_ops (Some mbs_ops) 100 ''k'' 4 None demo_km))) ''k'' =
     Some \<lparr>bl_reason = PenaltyEscalation 4 4 (Some 1), bl_expiresAt = Some 200, bl_blockedAt = 100\<rparr>"
proof -
  have "isl (fst (km_penalty mem_ops (Some mbs_ops) 100 ''k'' 4 None demo_km)) = False" by code_simp
  then obtain st m' where ok: "km_penalty mem_ops (Some mbs_ops) 100 ''k'' 4 None demo_km = (Inr st, m')"
    using not_isl_Inr by blast
  have f: "km_penaltyBlockThreshold demo_km = Some 4" "window_penalty 100 demo_km ''k'' = (0, 0)"
    "fst (km_isBlocked mem_ops 100 ''k'' demo_km) = False" "max 0 (km_penaltyEscalation demo_km 1) = 100"
    by code_simp+
  show ?thesis
    using km_penalty_escalates [OF demo_km_inv f(1) ok] by (simp add: f ok)
qed

text \<open>Managers that share a block store converge: after a block by one manager, a manager that
  synchronises with the same in-memory block store afterwards reports exactly the blocks that store
  holds, so it blocks the key for exactly the time the first manager does.\<close>

theorem km_sync_shares_blocks:
  assumes "km_inv N a" and "km_inv M b" and "jsmap_ok (km_blockStore a)"
    and times: "now \<le> now'" "now' \<le> now''"
    and b': "b' = snd (km_syncBlocks ops (Some mbs_ops) now'
      (b\<lparr>km_blockStore := km_blockStore (snd (km_block ops (Some mbs_ops) now k d reason persist actor a))\<rparr>))"
  shows "(fst (km_isBlocked ops now'' k b') \<longleftrightarrow> d = 0 \<or> now'' < now + d) \<and>
    (k' \<noteq> k \<longrightarrow> fst (km_isBlocked ops now'' k' b') = (active_block now'' (km_blockStore a) k' \<noteq> None))"
proof -
  define shared where "shared = km_blockStore (snd (km_block ops (Some mbs_ops) now k d reason persist actor a))"
  have shared: "shared = AList.update k
      \<lparr>bl_reason = reason, bl_expiresAt = (if d = 0 then None else Some (now + d)), bl_blockedAt = now\<rparr>
      (km_blockStore a)"
    unfolding shared_def by (rule km_block_shared)
  have "km_inv M (b\<lparr>km_blockStore := shared\<rparr>)" using assms(2) by (simp add: km_inv_def)
  then have "km_inv M b'" unfolding b' shared_def by (rule km_syncBlocks_inv)
  note ok = km_inv_jsmap [OF this]
  have "map_of (km_blocks b') k' = active_block now' shared k'" for k'
    unfolding b' using km_syncBlocks_mbs [of "b\<lparr>km_blockStore := shared\<rparr>" ops now' k'] assms(3)
    by (simp add: shared flip: shared_def)
  then have "active_block now'' (km_blocks b') k' = active_block now'' shared k'" for k'
    using times by (simp add: active_block_mono [of now' now'' shared] active_block_def [of now'' "km_blocks b'"])
  then show ?thesis unfolding km_isBlocked_iff [OF ok]
    using times by (auto simp: shared active_block_update block_due_def)
qed

theorem km_sync_shares_blocks_witness:
  "fst (km_isBlocked mem_ops 149 ''k'' (snd (km_syncBlocks mem_ops (Some mbs_ops) 120
     (demo_km\<lparr>km_blockStore := km_blockStore (snd (km_block mem_ops (Some mbs_ops) 100 ''k'' 50 (Manual None) None None demo_km))\<rparr>))))"
proof -
  have "jsmap_ok (km_blockStore demo_km)" by code_simp
  from km_sync_shares_blocks [OF demo_km_inv demo_km_inv this _ _ refl, of 100 120 149 mem_ops "''k''" 50 "Manual None" None None "''k''"]
  show ?thesis by simp
qed

end
