(* ===== verification/Percentile.thy ===== *)
theory Percentile
  imports Flex_Prelude "HOL-Library.Monad_Syntax"
begin

text \<open>
  Nearest-rank percentiles of latency samples: \<open>src/metrics/percentile.ts\<close> (in-place quickselect with
  Hoare partitioning) and the sample statistics of \<open>src/metrics/stats.ts\<close>. Samples are finite doubles,
  modelled as rationals; indices are integers and reading an array out of its range gives
  \<open>undefined\<close>, which compares false with everything. The selection loop is a
  \<open>partial_function\<close>, so that it returns is part of what is proved.
\<close>

section \<open>Arrays\<close>

definition arr_at :: "rat list \<Rightarrow> int \<Rightarrow> rat option" where
  "arr_at arr i = (if 0 \<le> i \<and> i < int (length arr) then Some (arr ! nat i) else None)"

fun lt_opt :: "rat option \<Rightarrow> rat option \<Rightarrow> bool" where
  "lt_opt (Some x) (Some y) = (x < y)"
| "lt_opt _ _ = False"

definition swap :: "rat list \<Rightarrow> int \<Rightarrow> int \<Rightarrow> rat list" where
  "swap arr i j = arr[nat i := arr ! nat j, nat j := arr ! nat i]"

lemma lt_opt_arr: "lt_opt (arr_at arr i) p \<Longrightarrow> 0 \<le> i \<and> i < int (length arr)"
  by (auto simp: arr_at_def split: if_splits)

lemma lt_opt_arr': "lt_opt p (arr_at arr i) \<Longrightarrow> 0 \<le> i \<and> i < int (length arr)"
  by (cases p) (auto simp: arr_at_def split: if_splits)

section \<open>Quickselect\<close>

text \<open>The two inner loops: \<open>do i++ while (arr[i] < pivot)\<close> and \<open>do j-- while (arr[j] > pivot)\<close>, from the
  first index they look at.\<close>

function scan_up :: "rat list \<Rightarrow> rat option \<Rightarrow> int \<Rightarrow> int" where
  "scan_up arr pivot i = (if lt_opt (arr_at arr i) pivot then scan_up arr pivot (i + 1) else i)"
  by auto
termination by (relation "measure (\<lambda>(arr, p, i). nat (int (length arr) - i))") (auto dest: lt_opt_arr)

function scan_down :: "rat list \<Rightarrow> rat option \<Rightarrow> int \<Rightarrow> int" where
  "scan_down arr pivot j = (if lt_opt pivot (arr_at arr j) then scan_down arr pivot (j - 1) else j)"
  by auto
termination by (relation "measure (\<lambda>(arr, p, j). nat (j + 1))") (auto dest: lt_opt_arr')

declare scan_up.simps [simp del] scan_down.simps [simp del]

lemma scan_up_ge: "i \<le> scan_up arr p i"
proof (induction arr p i rule: scan_up.induct)
  case (1 arr p i)
  then show ?case by (subst scan_up.simps) auto
qed

lemma scan_down_le: "scan_down arr p j \<le> j"
proof (induction arr p j rule: scan_down.induct)
  case (1 arr p j)
  then show ?case by (subst scan_down.simps) auto
qed

function partition_loop :: "rat list \<Rightarrow> rat option \<Rightarrow> int \<Rightarrow> int \<Rightarrow> int \<times> rat list" where
  "partition_loop arr pivot i j =
     (let i' = scan_up arr pivot (i + 1); j' = scan_down arr pivot (j - 1)
      in if j' \<le> i' then (j', arr) else partition_loop (swap arr i' j') pivot i' j')"
  by auto
termination
proof (relation "measure (\<lambda>(arr, p, i, j). nat (j - i))", goal_cases)
  case (2 arr p i j i' j')
  then show ?case using scan_up_ge [of "i + 1" arr p] scan_down_le [of arr p "j - 1"] by simp
qed simp

declare partition_loop.simps [simp del]

definition hoarePartition :: "rat list \<Rightarrow> int \<Rightarrow> int \<Rightarrow> int \<times> rat list" where
  "hoarePartition arr left right = partition_loop arr (arr_at arr (left + (right - left) div 2)) (left - 1) (right + 1)"

partial_function (option) quickselect ::
  "rat list \<Rightarrow> int \<Rightarrow> int \<Rightarrow> int \<Rightarrow> (rat option \<times> rat list) option" where
  "quickselect arr left right k =
     (if left = right then Some (arr_at arr left, arr)
      else case hoarePartition arr left right of (p, arr') \<Rightarrow>
             if k \<le> p then quickselect arr' left p k else quickselect arr' (p + 1) right k)"

text \<open>The rank is exact here; the code computes \<open>(p / 100) * n\<close> in doubles, which can fall on the other side of an
  integer (for \<open>p = 7\<close> and \<open>n = 100\<close> it is a little more than 7).\<close>

definition percentile_rank :: "nat \<Rightarrow> rat \<Rightarrow> int" where
  "percentile_rank n p = min (int n - 1) (max 0 (\<lceil>p / 100 * of_nat n\<rceil> - 1))"

text \<open>The value and what the array then holds.\<close>

definition percentile :: "rat list \<Rightarrow> rat \<Rightarrow> (rat option \<times> rat list) option" where
  "percentile arr p =
     (if arr = [] then Some (Some 0, arr)
      else quickselect arr 0 (int (length arr) - 1) (percentile_rank (length arr) p))"

section \<open>What the scans stop at\<close>

lemma scan_up_below:
  "x < scan_up arr p i \<Longrightarrow> i \<le> x \<Longrightarrow> lt_opt (arr_at arr x) p"
proof (induction arr p i rule: scan_up.induct)
  case (1 arr p i)
  then show ?case by (cases "x = i") (auto simp: scan_up.simps [of arr p i] split: if_splits)
qed

lemma scan_up_stops: "\<not> lt_opt (arr_at arr (scan_up arr p i)) p"
proof (induction arr p i rule: scan_up.induct)
  case (1 arr p i)
  then show ?case by (auto simp: scan_up.simps [of arr p i])
qed

lemma scan_down_above:
  "scan_down arr p j < x \<Longrightarrow> x \<le> j \<Longrightarrow> lt_opt p (arr_at arr x)"
proof (induction arr p j rule: scan_down.induct)
  case (1 arr p j)
  then show ?case by (cases "x = j") (auto simp: scan_down.simps [of arr p j] split: if_splits)
qed

lemma scan_down_stops: "\<not> lt_opt p (arr_at arr (scan_down arr p j))"
proof (induction arr p j rule: scan_down.induct)
  case (1 arr p j)
  then show ?case by (auto simp: scan_down.simps [of arr p j])
qed

lemma scan_up_bound: "\<not> lt_opt (arr_at arr x) p \<Longrightarrow> i \<le> x \<Longrightarrow> scan_up arr p i \<le> x"
  using scan_up_below [of x arr p i] by linarith

lemma scan_down_bound: "\<not> lt_opt p (arr_at arr x) \<Longrightarrow> x \<le> j \<Longrightarrow> x \<le> scan_down arr p j"
  using scan_down_above [of arr p j x] by linarith

section \<open>Partitioning\<close>

text \<open>The array holds the same samples, and splits at \<open>l\<close> and after \<open>r\<close>: what is left of \<open>l\<close> is
  below, what is right of \<open>r\<close> above.\<close>

definition bracket :: "rat multiset \<Rightarrow> nat \<Rightarrow> int \<Rightarrow> int \<Rightarrow> rat list \<Rightarrow> bool" where
  "bracket M n l r arr \<longleftrightarrow> mset arr = M \<and> length arr = n \<and>
     (\<forall>x y. 0 \<le> x \<and> x < l \<and> l \<le> y \<and> y < int n \<longrightarrow> arr ! nat x \<le> arr ! nat y) \<and>
     (\<forall>x y. 0 \<le> x \<and> x \<le> r \<and> r < y \<and> y < int n \<longrightarrow> arr ! nat x \<le> arr ! nat y)"

definition low :: "rat list \<Rightarrow> rat \<Rightarrow> int \<Rightarrow> int \<Rightarrow> bool" where
  "low arr v l i \<longleftrightarrow> (\<forall>x. l \<le> x \<and> x \<le> i \<longrightarrow> arr ! nat x \<le> v)"

definition high :: "rat list \<Rightarrow> rat \<Rightarrow> int \<Rightarrow> int \<Rightarrow> bool" where
  "high arr v j r \<longleftrightarrow> (\<forall>x. j \<le> x \<and> x \<le> r \<longrightarrow> v \<le> arr ! nat x)"

lemma nth_swap:
  assumes "0 \<le> i" "i < j" "j < int (length arr)" "0 \<le> x"
  shows "swap arr i j ! nat x = (if x = j then arr ! nat i else if x = i then arr ! nat j else arr ! nat x)"
proof -
  have "nat i < length arr" "nat j < length arr" using assms by simp_all
  moreover have "nat x = nat j \<longleftrightarrow> x = j" "nat x = nat i \<longleftrightarrow> x = i" using assms by auto
  ultimately show ?thesis using assms by (auto simp: swap_def nth_list_update)
qed

lemma length_swap [simp]: "length (swap arr i j) = length arr"
  by (simp add: swap_def)

lemma mset_swap_eq: "0 \<le> i \<Longrightarrow> i < int (length arr) \<Longrightarrow> 0 \<le> j \<Longrightarrow> j < int (length arr) \<Longrightarrow> mset (swap arr i j) = mset arr"
  unfolding swap_def by (rule Multiset.mset_swap) auto

lemma bracket_swap:
  assumes "bracket M n l r arr" "0 \<le> l" "l \<le> i" "i < j" "j \<le> r" "r < int n"
  shows "bracket M n l r (swap arr i j)"
proof -
  note b = assms(1) [unfolded bracket_def]
  have n: "length arr = n" using b by simp
  have s: "swap arr i j ! nat x = (if x = j then arr ! nat i else if x = i then arr ! nat j else arr ! nat x)"
    if "0 \<le> x" for x using that assms by (intro nth_swap) (auto simp: n)
  have "mset (swap arr i j) = M" using assms b by (subst mset_swap_eq) auto
  moreover have "swap arr i j ! nat x \<le> swap arr i j ! nat y" if "0 \<le> x" "x < l" "l \<le> y" "y < int n" for x y
    using that assms b by (auto simp: s)
  moreover have "swap arr i j ! nat x \<le> swap arr i j ! nat y" if "0 \<le> x" "x \<le> r" "r < y" "y < int n" for x y
    using that assms b by (auto simp: s)
  ultimately show ?thesis by (simp add: bracket_def n)
qed

lemma lt_opt_some:
  assumes "0 \<le> x" "x < int (length arr)"
  shows "lt_opt (arr_at arr x) (Some v) \<longleftrightarrow> arr ! nat x < v" "lt_opt (Some v) (arr_at arr x) \<longleftrightarrow> v < arr ! nat x"
  using assms by (simp_all add: arr_at_def)

text \<open>One round of the partition loop: where the scans stop, and what is then known.\<close>

lemma partition_scans:
  assumes "0 \<le> l" "r < int (length arr)" "l - 1 \<le> i" "i < j" "j \<le> r + 1"
    and lo: "low arr v l i" and hi: "high arr v j r"
    and stop_up: "i < u" "u \<le> r" "v \<le> arr ! nat u" and stop_down: "d < j" "l \<le> d" "arr ! nat d \<le> v"
  defines "i' \<equiv> scan_up arr (Some v) (i + 1)" and "j' \<equiv> scan_down arr (Some v) (j - 1)"
  shows "i < i' \<and> i' \<le> u" "d \<le> j' \<and> j' < j" "low arr v l (i' - 1)" "high arr v (j' + 1) r"
    "v \<le> arr ! nat i'" "arr ! nat j' \<le> v"
proof -
  show i': "i < i' \<and> i' \<le> u"
    unfolding i'_def using scan_up_ge [of "i + 1" arr "Some v"] assms
    by (auto intro!: scan_up_bound simp: lt_opt_some)
  show j': "d \<le> j' \<and> j' < j"
    unfolding j'_def using scan_down_le [of arr "Some v" "j - 1"] assms
    by (auto intro!: scan_down_bound simp: lt_opt_some)
  show "low arr v l (i' - 1)" unfolding low_def
  proof (intro allI impI)
    fix x assume x: "l \<le> x \<and> x \<le> i' - 1"
    show "arr ! nat x \<le> v"
    proof (cases "x \<le> i")
      case False
      then have "lt_opt (arr_at arr x) (Some v)" using x scan_up_below [of x arr "Some v" "i + 1"] by (auto simp: i'_def)
      then show ?thesis using x i' assms by (simp add: lt_opt_some)
    qed (use lo x in \<open>simp add: low_def\<close>)
  qed
  show "high arr v (j' + 1) r" unfolding high_def
  proof (intro allI impI)
    fix x assume x: "j' + 1 \<le> x \<and> x \<le> r"
    show "v \<le> arr ! nat x"
    proof (cases "j \<le> x")
      case False
      then have "lt_opt (Some v) (arr_at arr x)" using x scan_down_above [of arr "Some v" "j - 1" x] by (auto simp: j'_def)
      then show ?thesis using x j' assms by (simp add: lt_opt_some)
    qed (use hi x in \<open>simp add: high_def\<close>)
  qed
  have "\<not> lt_opt (arr_at arr i') (Some v)" unfolding i'_def by (rule scan_up_stops)
  then show "v \<le> arr ! nat i'" using i' assms(1-3,9) by (simp add: lt_opt_some)
  have "\<not> lt_opt (Some v) (arr_at arr j')" unfolding j'_def by (rule scan_down_stops)
  then show "arr ! nat j' \<le> v" using j' assms(1,2,5,12) by (simp add: lt_opt_some)
qed

text \<open>From the second round on: elements at \<open>i\<close> and \<open>j\<close> are sentinels.\<close>

lemma partition_loop_inner:
  assumes "0 \<le> l" "r < int n" "l \<le> i" "i < j" "j \<le> r"
    and "low arr v l i" "high arr v j r" "bracket M n l r arr"
    and "partition_loop arr (Some v) i j = (p, arr')"
  shows "l \<le> p \<and> p < r \<and> low arr' v l p \<and> high arr' v (p + 1) r \<and> bracket M n l r arr'"
  using assms
proof (induction arr "Some v" i j rule: partition_loop.induct)
  case (1 arr i j)
  define i' where "i' = scan_up arr (Some v) (i + 1)"
  define j' where "j' = scan_down arr (Some v) (j - 1)"
  have n: "length arr = n" using 1 by (simp add: bracket_def)
  have sentinels: "v \<le> arr ! nat j" "arr ! nat i \<le> v"
    using 1 by (auto simp: low_def high_def)
  note s = partition_scans [of l r arr i j v j i, folded i'_def j'_def]
  have s1: "i < i'" "i' \<le> j" and s2: "i \<le> j'" "j' < j" and s3: "low arr v l (i' - 1)" "high arr v (j' + 1) r"
    and s4: "v \<le> arr ! nat i'" "arr ! nat j' \<le> v"
    using s 1 sentinels n by auto
  show ?case
  proof (cases "j' \<le> i'")
    case True
    then have "p = j'" "arr' = arr"
      using 1 by (simp_all add: partition_loop.simps [of arr] Let_def flip: i'_def j'_def)
    moreover have "low arr v l j'" unfolding low_def
    proof (intro allI impI)
      fix x assume "l \<le> x \<and> x \<le> j'"
      then show "arr ! nat x \<le> v" using s3(1) s4(2) True by (cases "x = j'") (auto simp: low_def)
    qed
    ultimately show ?thesis using s2 s3 1 by auto
  next
    case False
    have "low (swap arr i' j') v l i'" using s3(1) s4(2) False s1 s2 1 n
      by (auto simp: low_def nth_swap)
    moreover have "high (swap arr i' j') v j' r" using s3(2) s4(1) False s1 s2 1 n
      by (auto simp: high_def nth_swap)
    moreover have "bracket M n l r (swap arr i' j')" using False s1 s2 1 by (intro bracket_swap) auto
    moreover have "partition_loop (swap arr i' j') (Some v) i' j' = (p, arr')"
      using 1 False by (simp add: partition_loop.simps [of arr] Let_def flip: i'_def j'_def)
    ultimately show ?thesis using 1(1) [OF i'_def j'_def] False s1 s2 1 by auto
  qed
qed

lemma hoarePartition_correct:
  assumes "0 \<le> l" "l < r" "r < int n" "bracket M n l r arr" "hoarePartition arr l r = (p, arr')"
  shows "\<exists>v. l \<le> p \<and> p < r \<and> low arr' v l p \<and> high arr' v (p + 1) r \<and> bracket M n l r arr'"
proof -
  define mid where "mid = l + (r - l) div 2"
  define v where "v = arr ! nat mid"
  define i' where "i' = scan_up arr (Some v) l"
  define j' where "j' = scan_down arr (Some v) r"
  have n: "length arr = n" using assms by (simp add: bracket_def)
  have mid: "l \<le> mid" "mid < r" using assms by (auto simp: mid_def)
  have pv: "arr_at arr mid = Some v" using mid assms n by (simp add: arr_at_def v_def)
  have vm: "v \<le> arr ! nat mid" "arr ! nat mid \<le> v" by (simp_all add: v_def)
  have empties: "low arr v l (l - 1)" "high arr v (r + 1) r" by (auto simp: low_def high_def)
  have s1: "l \<le> i'" "i' \<le> mid" and s2: "mid \<le> j'" "j' \<le> r" and s3: "low arr v l (i' - 1)" "high arr v (j' + 1) r"
    and s4: "v \<le> arr ! nat i'" "arr ! nat j' \<le> v"
    using partition_scans [of l r arr "l - 1" "r + 1" v mid mid] assms mid empties n vm
    unfolding i'_def j'_def by simp_all
  have run: "(if j' \<le> i' then (j', arr) else partition_loop (swap arr i' j') (Some v) i' j') = (p, arr')"
    using assms(5) pv
    by (auto simp: hoarePartition_def partition_loop.simps [of arr] Let_def i'_def j'_def simp flip: mid_def split: if_splits)
  show ?thesis
  proof (cases "j' \<le> i'")
    case True
    then have "p = mid" "arr' = arr" "j' = mid" "i' = mid" using run s1 s2 by auto
    moreover have "low arr v l mid" unfolding low_def
    proof (intro allI impI)
      fix x assume "l \<le> x \<and> x \<le> mid"
      then show "arr ! nat x \<le> v" using s3(1) vm \<open>i' = mid\<close> by (cases "x = mid") (auto simp: low_def)
    qed
    ultimately show ?thesis using mid assms s3 by auto
  next
    case False
    have "low (swap arr i' j') v l i'" using s3(1) s4(2) False s1 s2 assms n by (auto simp: low_def nth_swap)
    moreover have "high (swap arr i' j') v j' r" using s3(2) s4(1) False s1 s2 assms n
      by (auto simp: high_def nth_swap)
    moreover have "bracket M n l r (swap arr i' j')" using False s1 s2 assms by (intro bracket_swap) auto
    ultimately show ?thesis
      using run False s1 s2 assms partition_loop_inner [of l r n i' j' "swap arr i' j'" v M p arr'] by auto
  qed
qed

section \<open>Selection\<close>

lemma bracket_left:
  assumes "bracket M n l r arr" "low arr v l p" "high arr v (p + 1) r" "0 \<le> l" "l \<le> p" "p < r" "r < int n"
  shows "bracket M n l p arr"
proof -
  note b = assms(1) [unfolded bracket_def]
  have "arr ! nat x \<le> arr ! nat y" if "0 \<le> x" "x \<le> p" "p < y" "y < int n" for x y
  proof (cases "r < y \<or> x < l")
    case True
    then show ?thesis using b that assms by auto
  next
    case False
    then have "arr ! nat x \<le> v" "v \<le> arr ! nat y" using that assms by (auto simp: low_def high_def)
    then show ?thesis by simp
  qed
  then show ?thesis using b by (simp add: bracket_def)
qed

lemma bracket_right:
  assumes "bracket M n l r arr" "low arr v l p" "high arr v (p + 1) r" "0 \<le> l" "l \<le> p" "p < r" "r < int n"
  shows "bracket M n (p + 1) r arr"
proof -
  note b = assms(1) [unfolded bracket_def] and b' = bracket_left [OF assms, unfolded bracket_def]
  have "arr ! nat x \<le> arr ! nat y" if "0 \<le> x" "x < p + 1" "p + 1 \<le> y" "y < int n" for x y
    using b' that by auto
  then show ?thesis using b by (simp add: bracket_def)
qed

lemma bracket_nth:
  assumes "bracket M n k k arr" "0 \<le> k" "k < int n" "xs = sorted_list_of_multiset M"
  shows "arr ! nat k = xs ! nat k"
proof -
  let ?k = "nat k"
  note b = assms(1) [unfolded bracket_def]
  have n: "?k < length arr" using b assms by auto
  have parts: "arr = take ?k arr @ [arr ! ?k] @ drop (Suc ?k) arr" using n by (simp add: id_take_nth_drop)
  have low: "x \<le> arr ! ?k" if "x \<in> set (take ?k arr)" for x
  proof -
    from that n obtain i where "i < ?k" "x = arr ! i" by (auto simp: in_set_conv_nth)
    then show ?thesis using b assms(2,3) conjunct1 [OF conjunct2 [OF conjunct2 [OF b]], rule_format, of "int i" k] by auto
  qed
  have high: "arr ! ?k \<le> x" if "x \<in> set (drop (Suc ?k) arr)" for x
  proof -
    from that obtain i where "i < length arr - Suc ?k" "x = arr ! (Suc ?k + i)"
      by (auto simp: in_set_conv_nth)
    moreover have "nat (int (Suc ?k + i)) = Suc ?k + i" by (rule nat_int)
    ultimately show ?thesis
      using b assms(2,3) conjunct2 [OF conjunct2 [OF conjunct2 [OF b]], rule_format, of k "int (Suc ?k + i)"] by auto
  qed
  let ?s = "sort (take ?k arr) @ [arr ! ?k] @ sort (drop (Suc ?k) arr)"
  have "sort arr = ?s"
  proof (rule properties_for_sort)
    show "mset ?s = mset arr" by (subst (3) parts) simp
    show "sorted ?s" using low high by (auto simp: sorted_append intro: order_trans)
  qed
  moreover have "xs = sort arr" using b assms(4) by (metis sorted_list_of_multiset_mset)
  ultimately show ?thesis using n by (simp add: nth_append)
qed

text \<open>The selection loop returns, with the \<open>k\<close>-th smallest sample.\<close>

lemma quickselect_correct:
  assumes "bracket M n l r arr" "0 \<le> l" "l \<le> k" "k \<le> r" "r < int n"
  shows "\<exists>arr'. quickselect arr l r k = Some (Some (sorted_list_of_multiset M ! nat k), arr') \<and> mset arr' = M"
  using assms
proof (induction "nat (r - l)" arbitrary: arr l r rule: less_induct)
  case less
  show ?case
  proof (cases "l = r")
    case True
    then have "arr_at arr l = Some (sorted_list_of_multiset M ! nat k)"
      using less.prems bracket_nth [of M n k arr] by (auto simp: arr_at_def bracket_def)
    then show ?thesis using True less.prems by (simp add: quickselect.simps [of arr] bracket_def)
  next
    case False
    obtain p arr' where part: "hoarePartition arr l r = (p, arr')" by fastforce
    with hoarePartition_correct [of l r n M arr p arr'] less.prems False
    obtain v where v: "l \<le> p" "p < r" "low arr' v l p" "high arr' v (p + 1) r" "bracket M n l r arr'" by auto
    have "quickselect arr l r k = (if k \<le> p then quickselect arr' l p k else quickselect arr' (p + 1) r k)"
      using False part by (simp add: quickselect.simps [of arr])
    then show ?thesis
      using less.hyps [of p l arr'] less.hyps [of r "p + 1" arr'] less.prems v
        bracket_left [OF v(5,3,4)] bracket_right [OF v(5,3,4)]
      by (cases "k \<le> p") auto
  qed
qed

lemma percentile_rank_bounds: "0 < n \<Longrightarrow> 0 \<le> percentile_rank n p \<and> percentile_rank n p < int n"
  by (auto simp: percentile_rank_def)

section \<open>Statistics of a sample set\<close>

definition percentilesQuick :: "rat list \<Rightarrow> rat list \<Rightarrow> rat list" where
  "percentilesQuick samples ps =
     (if samples = [] then map (\<lambda>_. 0) ps
      else map (\<lambda>p. sort samples ! nat (percentile_rank (length samples) p)) ps)"

definition percentileQuick :: "rat list \<Rightarrow> rat \<Rightarrow> rat option" where
  "percentileQuick samples p =
     (if samples = [] then Some 0 else case percentile samples p of Some (r, _) \<Rightarrow> r | None \<Rightarrow> None)"

record min_max_mean =
  mm_min :: rat
  mm_max :: rat
  mm_mean :: rat

fun min_max_loop :: "rat list \<Rightarrow> rat \<Rightarrow> rat \<Rightarrow> rat \<Rightarrow> rat \<times> rat \<times> rat" where
  "min_max_loop [] lo hi s = (lo, hi, s)"
| "min_max_loop (v # vs) lo hi s =
     min_max_loop vs (if v < lo then v else lo) (if v > hi then v else hi) (s + v)"

definition minMaxMean :: "rat list \<Rightarrow> min_max_mean" where
  "minMaxMean samples =
     (case samples of
        [] \<Rightarrow> \<lparr>mm_min = 0, mm_max = 0, mm_mean = 0\<rparr>
      | v # _ \<Rightarrow> (case min_max_loop samples v v 0 of (lo, hi, s) \<Rightarrow>
          \<lparr>mm_min = lo, mm_max = hi, mm_mean = s / of_nat (length samples)\<rparr>))"

lemma min_max_loop_eq:
  "min_max_loop vs lo hi s = (fold min vs lo, fold max vs hi, s + sum_list vs)"
proof (induction vs arbitrary: lo hi s)
  case (Cons v vs)
  have "(if v < lo then v else lo) = min v lo" "(if v > hi then v else hi) = max v hi" by auto
  then show ?case using Cons by (simp add: add.assoc)
qed simp

lemma minMaxMean_correct:
  assumes "samples \<noteq> []"
  shows "mm_min (minMaxMean samples) = Min (set samples)" "mm_max (minMaxMean samples) = Max (set samples)"
    "mm_mean (minMaxMean samples) = sum_list samples / of_nat (length samples)"
proof -
  obtain v vs where s: "samples = v # vs" using assms by (cases samples) auto
  show "mm_min (minMaxMean samples) = Min (set samples)" "mm_max (minMaxMean samples) = Max (set samples)"
    "mm_mean (minMaxMean samples) = sum_list samples / of_nat (length samples)"
    by (simp_all add: minMaxMean_def s min_max_loop_eq Min.set_eq_fold Max.set_eq_fold del: fold_simps)
       (simp_all add: Min.set_eq_fold [symmetric] Max.set_eq_fold [symmetric])
qed

section \<open>Properties\<close>

text \<open>(C31) The in-place quickselect returns for every array and every rank: \<open>percentile\<close> gives the
  nearest-rank percentile, the sample at rank \<open>ceil(p / 100 * n) - 1\<close> (clamped to the array) of the
  sorted samples, and leaves a permutation of the samples; so the two percentile functions of
  stats.ts, one by quickselect and one by sorting, agree.\<close>

theorem percentile_correct:
  "(\<exists>arr'. percentile arr p =
      Some (Some (if arr = [] then 0 else sort arr ! nat (percentile_rank (length arr) p)), arr') \<and>
      mset arr' = mset arr) \<and>
   percentilesQuick arr ps = map (\<lambda>p. the (percentileQuick arr p)) ps"
proof -
  have *: "\<exists>arr'. percentile arr p =
      Some (Some (if arr = [] then 0 else sort arr ! nat (percentile_rank (length arr) p)), arr') \<and>
      mset arr' = mset arr" for p
  proof (cases "arr = []")
    case False
    then have "bracket (mset arr) (length arr) 0 (int (length arr) - 1) arr" by (simp add: bracket_def)
    from quickselect_correct [OF this, of "percentile_rank (length arr) p"] False
    show ?thesis using percentile_rank_bounds [of "length arr" p]
      by (auto simp: percentile_def sorted_list_of_multiset_mset)
  qed (simp add: percentile_def)
  have "percentilesQuick arr ps = map (\<lambda>p. the (percentileQuick arr p)) ps"
    using * by (auto simp: percentilesQuick_def percentileQuick_def) (metis (no_types, lifting) option.case(2) option.sel prod.case)
  with * show ?thesis by blast
qed

end
