(* ===== verification/Metrics_Counters.thy ===== *)
theory Metrics_Counters
  imports Flex_Prelude
begin

text \<open>
  The request-path counters of \<open>src/metrics/counters.ts\<close> (plain counters, two ring buffers of latency
  samples, a bounded map of hot keys) and the fixed-bucket histogram of \<open>src/metrics/histogram.ts\<close>.
  Samples are finite doubles, modelled as rationals; \<open>performance.now()\<close> is an argument. A
  \<open>Float64Array\<close> ignores a write outside its range, as \<open>xs[i := v]\<close> does.
\<close>

section \<open>Counters\<close>

record hot_key =
  hk_hits :: int
  hk_blocked :: int

record metrics_counters =
  totalRequests :: int
  allowedRequests :: int
  blockedRequests :: int
  blockedByRateLimit :: int
  blockedByBlocklist :: int
  blockedByPenalty :: int
  blockedByKeyManager :: int
  blockedByServiceUnavailable :: int
  skippedRequests :: int
  allowlistedRequests :: int
  sampleCapacity :: nat
  latencyBuffer :: "rat list"
  latencyWrite :: nat
  latencyCount :: nat
  storeLatencyBuffer :: "rat list"
  storeWrite :: nat
  storeCount :: nat
  hotKeyMax :: nat
  hotKeys :: "(key, hot_key) jsmap"

definition new_MetricsCounters :: "nat option \<Rightarrow> nat option \<Rightarrow> metrics_counters" where
  "new_MetricsCounters cap hot =
     (let c = (case cap of None \<Rightarrow> 1024 | Some n \<Rightarrow> n)
      in \<lparr>totalRequests = 0, allowedRequests = 0, blockedRequests = 0, blockedByRateLimit = 0,
          blockedByBlocklist = 0, blockedByPenalty = 0, blockedByKeyManager = 0,
          blockedByServiceUnavailable = 0, skippedRequests = 0, allowlistedRequests = 0,
          sampleCapacity = c,
          latencyBuffer = replicate c 0, latencyWrite = 0, latencyCount = 0,
          storeLatencyBuffer = replicate c 0, storeWrite = 0, storeCount = 0,
          hotKeyMax = (case hot of None \<Rightarrow> 1000 | Some n \<Rightarrow> n), hotKeys = []\<rparr>)"

definition recordLatency :: "rat \<Rightarrow> rat \<Rightarrow> metrics_counters \<Rightarrow> metrics_counters" where
  "recordLatency perfNow startTime m =
     (let cap = sampleCapacity m; w = latencyWrite m; w1 = w + 1
      in m\<lparr>latencyBuffer := (latencyBuffer m)[w := perfNow - startTime],
           latencyWrite := (if w1 = cap then 0 else w1),
           latencyCount := (if latencyCount m < cap then latencyCount m + 1 else latencyCount m)\<rparr>)"

definition recordStoreLatency :: "rat \<Rightarrow> rat \<Rightarrow> metrics_counters \<Rightarrow> metrics_counters" where
  "recordStoreLatency perfNow startTime m =
     (let cap = sampleCapacity m; w = storeWrite m; w1 = w + 1
      in m\<lparr>storeLatencyBuffer := (storeLatencyBuffer m)[w := perfNow - startTime],
           storeWrite := (if w1 = cap then 0 else w1),
           storeCount := (if storeCount m < cap then storeCount m + 1 else storeCount m)\<rparr>)"

text \<open>The first key with the fewest hits.\<close>

fun min_hits :: "(key, hot_key) jsmap \<Rightarrow> (key \<times> int) option \<Rightarrow> key option" where
  "min_hits [] best = map_option fst best"
| "min_hits ((k, v) # kvs) best =
     (case best of
        None \<Rightarrow> min_hits kvs (Some (k, hk_hits v))
      | Some (_, h) \<Rightarrow> min_hits kvs (if hk_hits v < h then Some (k, hk_hits v) else best))"

definition recordKey :: "key \<Rightarrow> metrics_counters \<Rightarrow> metrics_counters" where
  "recordKey k m =
     (let mp = hotKeys m
      in case map_of mp k of
           Some e \<Rightarrow> m\<lparr>hotKeys := AList.update k (e\<lparr>hk_hits := hk_hits e + 1\<rparr>) mp\<rparr>
         | None \<Rightarrow>
             if length mp < hotKeyMax m then m\<lparr>hotKeys := AList.update k \<lparr>hk_hits = 1, hk_blocked = 0\<rparr> mp\<rparr>
             else let mp1 = (case min_hits mp None of Some mk \<Rightarrow> AList.delete mk mp | None \<Rightarrow> mp)
                  in m\<lparr>hotKeys := AList.update k \<lparr>hk_hits = 1, hk_blocked = 0\<rparr> mp1\<rparr>)"

definition recordKeyBlocked :: "key \<Rightarrow> metrics_counters \<Rightarrow> metrics_counters" where
  "recordKeyBlocked k m =
     (case map_of (hotKeys m) k of
        Some e \<Rightarrow> m\<lparr>hotKeys := AList.update k (e\<lparr>hk_blocked := hk_blocked e + 1\<rparr>) (hotKeys m)\<rparr>
      | None \<Rightarrow> m)"

definition drainRing :: "nat \<Rightarrow> rat list \<Rightarrow> nat \<Rightarrow> nat \<Rightarrow> rat list" where
  "drainRing cap buffer write cnt =
     (if cnt = 0 then []
      else if cnt < cap then map (\<lambda>i. buffer ! i) [0..<cnt]
      else map (\<lambda>i. buffer ! ((write + i) mod cap)) [0..<cnt])"

record metrics_snapshot =
  sn_counts :: "int list"
  sn_latencySamplesMs :: "rat list"
  sn_storeLatencySamplesMs :: "rat list"
  sn_hotKeys :: "(key, hot_key) jsmap"

definition counter_fields :: "metrics_counters \<Rightarrow> int list" where
  "counter_fields m =
     [totalRequests m, allowedRequests m, blockedRequests m, blockedByRateLimit m, blockedByBlocklist m,
      blockedByPenalty m, blockedByKeyManager m, blockedByServiceUnavailable m, skippedRequests m,
      allowlistedRequests m]"

definition mc_snapshot :: "metrics_counters \<Rightarrow> metrics_snapshot \<times> metrics_counters" where
  "mc_snapshot m =
     (\<lparr>sn_counts = counter_fields m,
       sn_latencySamplesMs = drainRing (sampleCapacity m) (latencyBuffer m) (latencyWrite m) (latencyCount m),
       sn_storeLatencySamplesMs = drainRing (sampleCapacity m) (storeLatencyBuffer m) (storeWrite m) (storeCount m),
       sn_hotKeys = hotKeys m\<rparr>,
      m\<lparr>latencyWrite := 0, latencyCount := 0, storeWrite := 0, storeCount := 0, hotKeys := []\<rparr>)"

definition mc_reset :: "metrics_counters \<Rightarrow> metrics_counters" where
  "mc_reset m =
     m\<lparr>totalRequests := 0, allowedRequests := 0, blockedRequests := 0, blockedByRateLimit := 0,
       blockedByBlocklist := 0, blockedByPenalty := 0, blockedByKeyManager := 0,
       blockedByServiceUnavailable := 0, skippedRequests := 0, allowlistedRequests := 0,
       latencyWrite := 0, latencyCount := 0, storeWrite := 0, storeCount := 0, hotKeys := []\<rparr>"

section \<open>Histogram\<close>

datatype histogram_error = EmptyBounds | BadBound nat | NotAscending nat | LengthMismatch | BoundsMismatch

definition first_bad_bound :: "js_value list \<Rightarrow> nat option" where
  "first_bad_bound bs =
     find (\<lambda>i. case bs ! i of Num v \<Rightarrow> v \<le> 0 | _ \<Rightarrow> True) [0..<length bs]"

definition bound_of :: "js_value \<Rightarrow> rat" where
  "bound_of v = (case v of Num q \<Rightarrow> q | _ \<Rightarrow> 0)"

definition assertHistogramBucketBounds :: "js_value list \<Rightarrow> histogram_error + rat list" where
  "assertHistogramBucketBounds bs =
     (if bs = [] then Inl EmptyBounds
      else case first_bad_bound bs of
             Some i \<Rightarrow> Inl (BadBound i)
           | None \<Rightarrow>
               let qs = map bound_of bs
               in case find (\<lambda>i. qs ! i \<le> qs ! (i - 1)) [1..<length qs] of
                    Some i \<Rightarrow> Inl (NotAscending i)
                  | None \<Rightarrow> Inr qs)"

record histogram =
  h_buckets :: "rat list"
  h_counts :: "nat list"
  h_totalCount :: nat
  h_sum :: rat

definition new_Histogram :: "js_value list \<Rightarrow> histogram_error + histogram" where
  "new_Histogram bs =
     (case assertHistogramBucketBounds bs of
        Inl e \<Rightarrow> Inl e
      | Inr qs \<Rightarrow> Inr \<lparr>h_buckets = qs, h_counts = replicate (length qs + 1) 0, h_totalCount = 0, h_sum = 0\<rparr>)"

function bucket_search :: "rat \<Rightarrow> rat list \<Rightarrow> nat \<Rightarrow> nat \<Rightarrow> nat" where
  "bucket_search v bs lo hi =
     (if lo < hi
      then let mid = (lo + hi) div 2
           in if bs ! mid > v then bucket_search v bs lo mid else bucket_search v bs (mid + 1) hi
      else lo)"
  by auto
termination by (relation "measure (\<lambda>(v, bs, lo, hi). hi - lo)") auto

declare bucket_search.simps [simp del]

definition bucketIndex :: "rat \<Rightarrow> rat list \<Rightarrow> nat" where
  "bucketIndex v bs = bucket_search v bs 0 (length bs)"

definition h_observe :: "rat \<Rightarrow> histogram \<Rightarrow> histogram" where
  "h_observe v h =
     (let idx = bucketIndex v (h_buckets h)
      in h\<lparr>h_counts := (h_counts h)[idx := h_counts h ! idx + 1], h_totalCount := h_totalCount h + 1,
           h_sum := h_sum h + v\<rparr>)"

text \<open>Rows of bucket (none for the overflow row), count and running count.\<close>

fun distribution_rows :: "rat list \<Rightarrow> nat list \<Rightarrow> nat \<Rightarrow> (rat option \<times> nat \<times> nat) list" where
  "distribution_rows bs [] cum = []"
| "distribution_rows [] (c # cs) cum = (None, c, cum + c) # distribution_rows [] cs (cum + c)"
| "distribution_rows (b # bs) (c # cs) cum = (Some b, c, cum + c) # distribution_rows bs cs (cum + c)"

definition h_getDistribution :: "histogram \<Rightarrow> (rat option \<times> nat \<times> nat) list" where
  "h_getDistribution h = distribution_rows (h_buckets h) (h_counts h) 0"

definition h_reset :: "histogram \<Rightarrow> histogram" where
  "h_reset h = h\<lparr>h_counts := map (\<lambda>_. 0) (h_counts h), h_totalCount := 0, h_sum := 0\<rparr>"

definition h_merge :: "histogram \<Rightarrow> histogram \<Rightarrow> histogram_error + histogram" where
  "h_merge a b =
     (if length (h_buckets a) \<noteq> length (h_buckets b) then Inl LengthMismatch
      else if h_buckets a \<noteq> h_buckets b then Inl BoundsMismatch
      else Inr \<lparr>h_buckets = h_buckets a, h_counts = map2 (+) (h_counts a) (h_counts b),
                h_totalCount = h_totalCount a + h_totalCount b, h_sum = h_sum a + h_sum b\<rparr>)"

section \<open>The ring buffers\<close>

text \<open>A ring holds the last \<open>cap\<close> of the samples \<open>ds\<close> written since it was drained.\<close>

definition ring_holds :: "nat \<Rightarrow> rat list \<Rightarrow> nat \<Rightarrow> nat \<Rightarrow> rat list \<Rightarrow> bool" where
  "ring_holds cap buf w c ds \<longleftrightarrow> length buf = cap \<and> c = min cap (length ds) \<and> w = length ds mod cap \<and>
     (\<forall>i < length ds. length ds - cap \<le> i \<longrightarrow> buf ! (i mod cap) = ds ! i)"

lemma ring_holds_empty: "length buf = cap \<Longrightarrow> ring_holds cap buf 0 0 []"
  by (simp add: ring_holds_def)

lemma mod_window_inj:
  fixes i j cap :: nat
  assumes "i < j" "j < i + cap" shows "i mod cap \<noteq> j mod cap"
proof
  assume "i mod cap = j mod cap"
  then have "cap dvd j - i" using assms(1) mod_eq_dvd_iff_nat [of i j cap] by simp
  with assms show False by (auto dest: dvd_imp_le)
qed

lemma ring_holds_write:
  assumes "ring_holds cap buf w c ds" "0 < cap"
  shows "ring_holds cap (buf[w := d]) (if w + 1 = cap then 0 else w + 1) (if c < cap then c + 1 else c) (ds @ [d])"
proof -
  note h = assms(1) [unfolded ring_holds_def]
  let ?n = "length ds"
  have w: "w = ?n mod cap" and b: "length buf = cap" using h by auto
  have "buf[w := d] ! (i mod cap) = (ds @ [d]) ! i" if "i < Suc ?n" "Suc ?n - cap \<le> i" for i
  proof (cases "i = ?n")
    case False
    then have "i < ?n" "?n < i + cap" using that by auto
    then have "i mod cap \<noteq> w" unfolding w by (rule mod_window_inj)
    then show ?thesis using h False that by (auto simp: nth_append)
  qed (use w b assms(2) in \<open>simp add: nth_append\<close>)
  moreover have "(if w + 1 = cap then 0 else w + 1) = Suc ?n mod cap" by (simp add: w mod_Suc)
  ultimately show ?thesis using h by (auto simp: ring_holds_def)
qed

lemma ring_holds_writeI:
  "ring_holds cap buf w c ds \<Longrightarrow> 0 < cap \<Longrightarrow> w' = (if w + 1 = cap then 0 else w + 1) \<Longrightarrow>
   c' = (if c < cap then c + 1 else c) \<Longrightarrow> ring_holds cap (buf[w := d]) w' c' (ds @ [d])"
  using ring_holds_write by simp

lemma drainRing_holds:
  assumes "ring_holds cap buf w c ds" shows "drainRing cap buf w c = drop (length ds - cap) ds"
proof (rule nth_equalityI)
  note h = assms [unfolded ring_holds_def]
  show len: "length (drainRing cap buf w c) = length (drop (length ds - cap) ds)"
    using h by (auto simp: drainRing_def)
  fix i assume "i < length (drainRing cap buf w c)"
  then have i: "i < c" by (auto simp: drainRing_def split: if_splits)
  show "drainRing cap buf w c ! i = drop (length ds - cap) ds ! i"
  proof (cases "c < cap")
    case True
    then have "c = length ds" "i mod cap = i" using h i by auto
    then show ?thesis using True h i by (auto simp: drainRing_def dest!: spec [of _ i])
  next
    case False
    then have c: "c = cap" "cap \<le> length ds" "0 < cap" using h i by auto
    have "(w + i) mod cap = (length ds + i) mod cap" using h by (simp add: mod_add_left_eq)
    also have "\<dots> = (length ds - cap + i) mod cap" using c mod_add_self2 [of "length ds - cap + i" cap] by (simp add: algebra_simps)
    finally show ?thesis using False h i c by (auto simp: drainRing_def dest!: spec [of _ "length ds - cap + i"])
  qed
qed

text \<open>A recorded request: request latency, store latency (start and end readings), or both at once.\<close>

datatype sample = ReqSample rat rat | StoreSample rat rat

primrec record_sample :: "sample \<Rightarrow> metrics_counters \<Rightarrow> metrics_counters" where
  "record_sample (ReqSample s e) m = recordLatency e s m"
| "record_sample (StoreSample s e) m = recordStoreLatency e s m"

definition req_latencies :: "sample list \<Rightarrow> rat list" where
  "req_latencies ss = concat (map (\<lambda>x. case x of ReqSample s e \<Rightarrow> [e - s] | _ \<Rightarrow> []) ss)"

definition store_latencies :: "sample list \<Rightarrow> rat list" where
  "store_latencies ss = concat (map (\<lambda>x. case x of StoreSample s e \<Rightarrow> [e - s] | _ \<Rightarrow> []) ss)"

definition rings_hold :: "metrics_counters \<Rightarrow> sample list \<Rightarrow> bool" where
  "rings_hold m ss \<longleftrightarrow> 0 < sampleCapacity m \<and>
     ring_holds (sampleCapacity m) (latencyBuffer m) (latencyWrite m) (latencyCount m) (req_latencies ss) \<and>
     ring_holds (sampleCapacity m) (storeLatencyBuffer m) (storeWrite m) (storeCount m) (store_latencies ss)"

lemma latencies_snoc [simp]:
  "req_latencies (ss @ [ReqSample s e]) = req_latencies ss @ [e - s]" "req_latencies (ss @ [StoreSample s e]) = req_latencies ss"
  "store_latencies (ss @ [StoreSample s e]) = store_latencies ss @ [e - s]" "store_latencies (ss @ [ReqSample s e]) = store_latencies ss"
  by (simp_all add: req_latencies_def store_latencies_def)

lemma record_sample_holds: "rings_hold m ss \<Longrightarrow> rings_hold (record_sample x m) (ss @ [x])"
  by (cases x)
     (auto simp: rings_hold_def recordLatency_def recordStoreLatency_def Let_def
       intro!: ring_holds_writeI)

lemma record_samples_hold: "rings_hold m ss \<Longrightarrow> rings_hold (fold record_sample xs m) (ss @ xs)"
proof (induction xs arbitrary: m ss)
  case (Cons x xs)
  from Cons.IH [OF record_sample_holds [OF Cons.prems]] show ?case by simp
qed simp

lemma fold_samples_capacity: "sampleCapacity (fold record_sample xs m) = sampleCapacity m"
proof (induction xs arbitrary: m)
  case (Cons x xs)
  then show ?case by (cases x) (simp_all add: recordLatency_def recordStoreLatency_def Let_def)
qed simp

lemma snapshot_rings:
  assumes "rings_hold m ss"
  shows "sn_latencySamplesMs (fst (mc_snapshot m)) = drop (length (req_latencies ss) - sampleCapacity m) (req_latencies ss)"
    "sn_storeLatencySamplesMs (fst (mc_snapshot m)) = drop (length (store_latencies ss) - sampleCapacity m) (store_latencies ss)"
    "rings_hold (snd (mc_snapshot m)) []"
  using assms
  by (auto simp: mc_snapshot_def rings_hold_def drainRing_holds)
     (auto simp: ring_holds_def req_latencies_def store_latencies_def)

section \<open>Hot keys\<close>

definition hits_of :: "metrics_counters \<Rightarrow> key \<Rightarrow> int" where
  "hits_of m k = (case map_of (hotKeys m) k of None \<Rightarrow> 0 | Some e \<Rightarrow> hk_hits e)"

definition hot_ok :: "nat \<Rightarrow> metrics_counters \<Rightarrow> bool" where
  "hot_ok N m \<longleftrightarrow> hotKeyMax m = N \<and> jsmap_ok (hotKeys m) \<and> length (hotKeys m) \<le> N"

lemma min_hits_in:
  "min_hits mp best = Some k \<Longrightarrow> k \<in> fst ` set mp \<or> (\<exists>h. best = Some (k, h))"
proof (induction mp arbitrary: best)
  case (Cons x mp)
  then show ?case by (cases x; cases best) (auto split: if_splits dest!: Cons.IH)
qed auto

lemma min_hits_some: "best \<noteq> None \<or> mp \<noteq> [] \<Longrightarrow> min_hits mp best \<noteq> None"
  by (induction mp best rule: min_hits.induct) (auto split: option.splits prod.splits)

lemma length_update_fst: "length (AList.update k v xs) = (if k \<in> fst ` set xs then length xs else Suc (length xs))"
  by (induction xs) auto

lemma length_delete_fst:
  "distinct (map fst xs) \<Longrightarrow> k \<in> fst ` set xs \<Longrightarrow> Suc (length (AList.delete k xs)) = length xs"
proof (induction xs)
  case (Cons x xs)
  show ?case
  proof (cases "fst x = k")
    case True
    then have "AList.delete k xs = xs" using Cons.prems by (intro delete_id) auto
    then show ?thesis using True by (cases x) simp
  qed (use Cons in \<open>cases x; auto\<close>)
qed simp

lemma recordKey_ok:
  assumes "hot_ok N m" "0 < N" shows "hot_ok N (recordKey k m)"
proof (cases "map_of (hotKeys m) k")
  case (Some e)
  then have "k \<in> fst ` set (hotKeys m)" by (metis map_of_eq_None_iff option.distinct(1))
  then show ?thesis using assms Some by (simp add: recordKey_def hot_ok_def Let_def length_update_fst)
next
  case None
  then have k: "k \<notin> fst ` set (hotKeys m)" by (simp add: map_of_eq_None_iff)
  show ?thesis
  proof (cases "length (hotKeys m) < N")
    case True
    then show ?thesis using assms None k by (simp add: recordKey_def hot_ok_def Let_def length_update_fst)
  next
    case False
    then have ne: "hotKeys m \<noteq> []" using assms by auto
    then obtain mk where mk: "min_hits (hotKeys m) None = Some mk" using min_hits_some by blast
    then have "mk \<in> fst ` set (hotKeys m)" using min_hits_in by fastforce
    then have "Suc (length (AList.delete mk (hotKeys m))) = length (hotKeys m)"
      using assms by (intro length_delete_fst) (auto simp: hot_ok_def jsmap_ok_def)
    moreover have "k \<notin> fst ` set (AList.delete mk (hotKeys m))" using k by (auto dest: set_deleteD)
    ultimately show ?thesis
      using assms None k mk False by (simp add: recordKey_def hot_ok_def Let_def length_update_fst)
  qed
qed

lemma recordKeys_ok: "hot_ok N m \<Longrightarrow> 0 < N \<Longrightarrow> hot_ok N (fold recordKey ks m)"
  by (induction ks arbitrary: m) (auto intro: recordKey_ok)

text \<open>As long as no more than \<open>hotKeyMax\<close> different keys are seen, nothing is evicted and the counts are exact.\<close>

lemma recordKey_exact:
  assumes "jsmap_ok (hotKeys m)" "hotKeyMax m = N" "k \<in> fst ` set (hotKeys m) \<or> length (hotKeys m) < N"
  shows "hits_of (recordKey k m) k' = hits_of m k' + (if k' = k then 1 else 0)"
    "fst ` set (hotKeys (recordKey k m)) = insert k (fst ` set (hotKeys m))"
proof -
  have k: "map_of (hotKeys m) k = None \<longleftrightarrow> k \<notin> fst ` set (hotKeys m)" by (simp add: map_of_eq_None_iff)
  have dom: "fst ` set (AList.update k v (hotKeys m)) = insert k (fst ` set (hotKeys m))" for v
    by (simp add: dom_update)
  show "hits_of (recordKey k m) k' = hits_of m k' + (if k' = k then 1 else 0)"
    "fst ` set (hotKeys (recordKey k m)) = insert k (fst ` set (hotKeys m))"
    using assms k by (cases "map_of (hotKeys m) k"; simp add: recordKey_def hits_of_def Let_def update_conv' dom)+
qed

lemma recordKeys_exact:
  assumes "hot_ok N m" "0 < N" "card (fst ` set (hotKeys m) \<union> set ks) \<le> N"
  shows "hits_of (fold recordKey ks m) k' = hits_of m k' + int (count_list ks k')"
  using assms
proof (induction ks arbitrary: m)
  case (Cons k ks)
  have j: "jsmap_ok (hotKeys m)" "hotKeyMax m = N" using Cons.prems by (auto simp: hot_ok_def)
  have "length (hotKeys m) = card (fst ` set (hotKeys m))"
    using j by (metis distinct_card jsmap_ok_def length_map set_map)
  moreover have "card (insert k (fst ` set (hotKeys m))) \<le> card (fst ` set (hotKeys m) \<union> set (k # ks))"
    by (rule card_mono) auto
  ultimately have "k \<in> fst ` set (hotKeys m) \<or> length (hotKeys m) < N"
    using Cons.prems(3) by (auto simp: card_insert_if split: if_splits)
  note ex = recordKey_exact [OF j this]
  have "hot_ok N (recordKey k m)" using Cons.prems by (intro recordKey_ok)
  from Cons.IH [OF this Cons.prems(2)] Cons.prems(3) show ?case by (simp add: ex)
qed simp

section \<open>The histogram\<close>

lemma bucket_search_bounds:
  assumes "sorted_wrt (<) bs" "lo \<le> hi" "hi \<le> length bs"
    "\<forall>i < lo. bs ! i \<le> v" "\<forall>i < length bs. hi \<le> i \<longrightarrow> v < bs ! i"
  shows "bucket_search v bs lo hi \<le> length bs \<and> (\<forall>i < bucket_search v bs lo hi. bs ! i \<le> v) \<and>
    (\<forall>i < length bs. bucket_search v bs lo hi \<le> i \<longrightarrow> v < bs ! i)"
  using assms
proof (induction v bs lo hi rule: bucket_search.induct)
  case (1 v bs lo hi)
  show ?case
  proof (cases "lo < hi")
    case True
    define mid where "mid = (lo + hi) div 2"
    have mid: "lo \<le> mid" "mid < hi" using True by (auto simp: mid_def)
    have mono: "bs ! i \<le> bs ! j" if "i \<le> j" "j < length bs" for i j
      using sorted_wrt_nth_less [OF 1(3), of i j] that by (cases "i = j") auto
    show ?thesis
    proof (cases "bs ! mid > v")
      case True
      have above: "\<forall>i < length bs. mid \<le> i \<longrightarrow> v < bs ! i"
      proof (intro allI impI)
        fix i assume "i < length bs" "mid \<le> i"
        then show "v < bs ! i" using True mono [of mid i] by simp
      qed
      have "bucket_search v bs lo hi = bucket_search v bs lo mid"
        using True \<open>lo < hi\<close> by (simp add: bucket_search.simps [of v bs lo hi] Let_def flip: mid_def)
      moreover have "lo \<le> mid" "mid \<le> length bs" using mid 1(5) by simp_all
      ultimately show ?thesis using 1(1) [OF \<open>lo < hi\<close> mid_def True 1(3) _ _ 1(6) above] by simp
    next
      case False
      have below: "\<forall>i < mid + 1. bs ! i \<le> v"
      proof (intro allI impI)
        fix i assume "i < mid + 1"
        then show "bs ! i \<le> v" using False mono [of i mid] mid 1(5) by simp
      qed
      have "bucket_search v bs lo hi = bucket_search v bs (mid + 1) hi"
        using False \<open>lo < hi\<close> by (simp add: bucket_search.simps [of v bs lo hi] Let_def flip: mid_def)
      moreover have "mid + 1 \<le> hi" using mid by simp
      ultimately show ?thesis using 1(2) [OF \<open>lo < hi\<close> mid_def False 1(3) _ 1(5) below 1(7)] by simp
    qed
  next
    case False
    then have "bucket_search v bs lo hi = lo" by (simp add: bucket_search.simps [of v bs lo hi])
    moreover have "hi = lo" using False 1(4) by simp
    ultimately show ?thesis using 1(5-7) by simp
  qed
qed

text \<open>The slot of a value: the number of bounds not above it.\<close>

lemma bucketIndex_count:
  assumes "sorted_wrt (<) bs" shows "bucketIndex v bs = length (filter (\<lambda>b. b \<le> v) bs)"
proof -
  let ?k = "bucketIndex v bs"
  have k: "?k \<le> length bs" "\<forall>i < ?k. bs ! i \<le> v" "\<forall>i < length bs. ?k \<le> i \<longrightarrow> v < bs ! i"
    using bucket_search_bounds [OF assms, of 0 "length bs" v] by (auto simp: bucketIndex_def)
  have "filter (\<lambda>b. b \<le> v) (take ?k bs) = take ?k bs"
    by (rule filter_True) (use k in \<open>auto simp: in_set_conv_nth\<close>)
  moreover have "filter (\<lambda>b. b \<le> v) (drop ?k bs) = []"
    by (rule filter_False) (use k in \<open>auto simp: in_set_conv_nth not_le\<close>)
  ultimately have "filter (\<lambda>b. b \<le> v) bs = take ?k bs"
    using filter_append [of "\<lambda>b. b \<le> v" "take ?k bs" "drop ?k bs"] by simp
  then show ?thesis using k by simp
qed

definition histogram_of :: "rat list \<Rightarrow> rat list \<Rightarrow> histogram" where
  "histogram_of bs vs =
     \<lparr>h_buckets = bs, h_counts = map (\<lambda>i. length (filter (\<lambda>v. length (filter (\<lambda>b. b \<le> v) bs) = i) vs)) [0..<length bs + 1],
      h_totalCount = length vs, h_sum = sum_list vs\<rparr>"

lemma histogram_of_nil: "histogram_of bs [] = \<lparr>h_buckets = bs, h_counts = replicate (length bs + 1) 0, h_totalCount = 0, h_sum = 0\<rparr>"
  by (simp add: histogram_of_def map_replicate_const del: upt_Suc)

lemma h_observe_of:
  assumes "sorted_wrt (<) bs" shows "h_observe v (histogram_of bs vs) = histogram_of bs (vs @ [v])"
proof -
  have "length (filter (\<lambda>b. b \<le> v) bs) < length bs + 1" by (simp add: less_Suc_eq_le)
  then show ?thesis
    by (auto simp: h_observe_def histogram_of_def bucketIndex_count [OF assms] Let_def
        intro!: nth_equalityI simp del: upt_Suc simp: nth_list_update)
qed

lemma h_observes_of:
  "sorted_wrt (<) bs \<Longrightarrow> fold h_observe vs (histogram_of bs us) = histogram_of bs (us @ vs)"
proof (induction vs arbitrary: us)
  case (Cons v vs)
  then show ?case by (simp add: h_observe_of)
qed simp

lemma assert_bounds_sound:
  assumes "assertHistogramBucketBounds bs = Inr qs" shows "sorted_wrt (<) qs \<and> bs = map Num qs \<and> (\<forall>q \<in> set qs. 0 < q)"
proof -
  have bad: "first_bad_bound bs = None" and qs: "qs = map bound_of bs"
    and asc: "find (\<lambda>i. qs ! i \<le> qs ! (i - 1)) [1..<length qs] = None"
    using assms by (auto simp: assertHistogramBucketBounds_def Let_def split: if_splits option.splits)
  have num: "\<exists>q > 0. bs ! i = Num q" if "i < length bs" for i
    using bad that by (auto simp: first_bad_bound_def find_None_iff split: js_value.splits)
       (metis (no_types, lifting) atLeastLessThan_iff js_value.exhaust le0 not_le)
  have "bs = map Num qs"
  proof (rule nth_equalityI)
    fix i assume "i < length bs"
    with num [OF this] show "bs ! i = map Num qs ! i" by (auto simp: qs bound_of_def)
  qed (simp add: qs)
  moreover have "\<forall>q \<in> set qs. 0 < q" using num by (force simp: qs bound_of_def in_set_conv_nth)
  moreover have "sorted_wrt (<) qs"
    unfolding sorted_wrt_iff_nth_Suc_transp [OF transp_on_less]
  proof (intro allI impI)
    fix i assume "Suc i < length qs"
    then have "Suc i \<in> set [1..<length qs]" by simp
    then have "\<not> qs ! Suc i \<le> qs ! (Suc i - 1)" using asc unfolding find_None_iff by blast
    then show "qs ! i < qs ! Suc i" by simp
  qed
  ultimately show ?thesis by blast
qed

lemma slot_iff:
  fixes bs :: "rat list"
  assumes "sorted_wrt (<) bs" "i \<le> length bs"
  shows "length (filter (\<lambda>b. b \<le> v) bs) = i \<longleftrightarrow> (i = 0 \<or> bs ! (i - 1) \<le> v) \<and> (i = length bs \<or> v < bs ! i)"
proof -
  define k where "k = length (filter (\<lambda>b. b \<le> v) bs)"
  have k: "k \<le> length bs" "\<And>j. j < k \<Longrightarrow> bs ! j \<le> v" "\<And>j. j < length bs \<Longrightarrow> k \<le> j \<Longrightarrow> v < bs ! j"
    using bucket_search_bounds [OF assms(1), of 0 "length bs" v] bucketIndex_count [OF assms(1), of v]
    by (auto simp: bucketIndex_def k_def)
  have "k = i" if "i = 0 \<or> bs ! (i - 1) \<le> v" "i = length bs \<or> v < bs ! i"
  proof (rule ccontr)
    assume "k \<noteq> i"
    then consider "k < i" | "i < k" by linarith
    then show False
    proof cases
      case 1
      then have "i - 1 < length bs" "k \<le> i - 1" using assms(2) by linarith+
      then show ?thesis using that(1) k(3) [of "i - 1"] 1 by auto
    next
      case 2
      then show ?thesis using that(2) k(1) k(2) [of i] by auto
    qed
  qed
  moreover have "(k = 0 \<or> bs ! (k - 1) \<le> v) \<and> (k = length bs \<or> v < bs ! k)"
    using k by (cases "k = 0"; cases "k = length bs") auto
  ultimately show ?thesis unfolding k_def [symmetric] by blast
qed

section \<open>Properties\<close>

text \<open>A snapshot reports exactly the last \<open>sampleCapacity\<close> request latencies and store latencies
  recorded since the previous snapshot, oldest first, however the two kinds are interleaved and
  however often the ring buffers wrapped around.\<close>

theorem metrics_samples:
  assumes "0 < cap" and "m = fold record_sample xs (new_MetricsCounters (Some cap) hot)"
    and "mc_snapshot m = (s1, m1)" and "mc_snapshot (fold record_sample ys m1) = (s2, m2)"
  shows "sn_latencySamplesMs s1 = drop (length (req_latencies xs) - cap) (req_latencies xs) \<and>
    sn_storeLatencySamplesMs s1 = drop (length (store_latencies xs) - cap) (store_latencies xs) \<and>
    sn_latencySamplesMs s2 = drop (length (req_latencies ys) - cap) (req_latencies ys) \<and>
    sn_storeLatencySamplesMs s2 = drop (length (store_latencies ys) - cap) (store_latencies ys)"
proof -
  have "rings_hold (new_MetricsCounters (Some cap) hot) []"
    using assms(1) by (simp add: rings_hold_def new_MetricsCounters_def req_latencies_def store_latencies_def
        ring_holds_empty Let_def)
  then have m: "rings_hold m xs" using record_samples_hold [of _ "[]" xs] by (simp add: assms(2))
  have cap: "sampleCapacity m = cap" "sampleCapacity m1 = cap"
    using assms(2,3) by (auto simp: fold_samples_capacity mc_snapshot_def) (simp_all add: new_MetricsCounters_def Let_def fold_samples_capacity)
  note s1 = snapshot_rings [OF m, unfolded assms(3)]
  from s1(3) have "rings_hold (fold record_sample ys m1) ys" using record_samples_hold [of m1 "[]" ys] by simp
  from snapshot_rings [OF this, unfolded assms(4)] s1 cap show ?thesis by (simp add: fold_samples_capacity)
qed

theorem metrics_samples_witness:
  "sn_latencySamplesMs (fst (mc_snapshot (fold record_sample
     [ReqSample 0 1, StoreSample 0 9, ReqSample 0 2, ReqSample 0 3] (new_MetricsCounters (Some 2) None)))) = [2, 3]"
proof -
  let ?xs = "[ReqSample 0 1, StoreSample 0 9, ReqSample 0 2, ReqSample 0 3]"
  let ?m = "fold record_sample ?xs (new_MetricsCounters (Some 2) None)"
  obtain s1 m1 where 1: "mc_snapshot ?m = (s1, m1)" by fastforce
  obtain s2 m2 where 2: "mc_snapshot (fold record_sample [] m1) = (s2, m2)" by fastforce
  have "drop (length (req_latencies ?xs) - 2) (req_latencies ?xs) = [2, 3]" by code_simp
  with metrics_samples [OF _ refl 1 2] 1 show ?thesis by simp
qed

text \<open>The hot-key map never holds more than \<open>hotKeyMax\<close> keys, and as long as an interval sees no
  more than that many different keys, its hit counts are exact.\<close>

theorem hot_keys_counts:
  assumes "0 < N"
  shows "length (hotKeys (fold recordKey ks (new_MetricsCounters cap (Some N)))) \<le> N \<and>
    (card (set ks) \<le> N \<longrightarrow>
     hits_of (fold recordKey ks (new_MetricsCounters cap (Some N))) k = int (count_list ks k))"
proof -
  have ok: "hot_ok N (new_MetricsCounters cap (Some N))"
    by (simp add: hot_ok_def new_MetricsCounters_def Let_def)
  have "hits_of (new_MetricsCounters cap (Some N)) k = 0" "fst ` set (hotKeys (new_MetricsCounters cap (Some N))) = {}"
    by (simp_all add: hits_of_def new_MetricsCounters_def Let_def)
  with recordKeys_ok [OF ok assms, of ks] recordKeys_exact [OF ok assms, of ks k] show ?thesis
    by (simp add: hot_ok_def)
qed

theorem hot_keys_counts_witness:
  "hits_of (fold recordKey [''a'', ''b'', ''a''] (new_MetricsCounters None (Some 2))) ''a'' = 2"
proof -
  have "card (set [''a'', ''b'', ''a'']) \<le> 2" "count_list [''a'', ''b'', ''a''] ''a'' = 2" by code_simp+
  with hot_keys_counts [of 2 "[''a'', ''b'', ''a'']" None "''a''"] show ?thesis by simp
qed

text \<open>A histogram accepts exactly ascending positive finite bounds; after any observations slot \<open>i\<close>
  counts the values from bound \<open>i - 1\<close> (inclusive) up to bound \<open>i\<close> (exclusive), the last slot the rest, the
  binary search notwithstanding; and merging two histograms over the same bounds is observing both
  series.\<close>

theorem histogram_exact:
  assumes "new_Histogram bounds = Inr h"
  shows "h_counts (fold h_observe vs h) =
      map (\<lambda>i. length (filter (\<lambda>v. (i = 0 \<or> h_buckets h ! (i - 1) \<le> v) \<and> (i = length (h_buckets h) \<or> v < h_buckets h ! i)) vs))
        [0..<length (h_buckets h) + 1] \<and>
    h_totalCount (fold h_observe vs h) = length vs \<and>
    h_merge (fold h_observe us h) (fold h_observe vs h) = Inr (fold h_observe (us @ vs) h)"
proof -
  obtain qs where qs: "assertHistogramBucketBounds bounds = Inr qs" and h: "h = histogram_of qs []"
    using assms unfolding histogram_of_nil by (auto simp: new_Histogram_def split: sum.splits)
  have s: "sorted_wrt (<) qs" using assert_bounds_sound [OF qs] by simp
  have f: "fold h_observe ws h = histogram_of qs ws" for ws using h_observes_of [OF s, of ws "[]"] by (simp add: h)
  have "map2 (+) (h_counts (histogram_of qs us)) (h_counts (histogram_of qs vs)) = h_counts (histogram_of qs (us @ vs))"
    by (rule nth_equalityI) (simp_all add: histogram_of_def del: upt_Suc)
  then have "h_merge (histogram_of qs us) (histogram_of qs vs) = Inr (histogram_of qs (us @ vs))"
    by (simp add: h_merge_def histogram_of_def del: upt_Suc)
  moreover have "h_counts (histogram_of qs vs) =
      map (\<lambda>i. length (filter (\<lambda>v. (i = 0 \<or> qs ! (i - 1) \<le> v) \<and> (i = length qs \<or> v < qs ! i)) vs)) [0..<length qs + 1]"
    by (simp add: histogram_of_def slot_iff [OF s] del: upt_Suc cong: map_cong)
  moreover have "h_buckets h = qs" "h_totalCount (histogram_of qs vs) = length vs"
    by (simp_all add: h histogram_of_def)
  ultimately show ?thesis by (simp only: f simp_thms)
qed

theorem histogram_exact_witness:
  "h_counts (fold h_observe [1/2, 1, 5, 7, 20] \<lparr>h_buckets = [1, 5, 10], h_counts = [0, 0, 0, 0], h_totalCount = 0, h_sum = 0\<rparr>) = [1, 1, 2, 1]"
proof -
  have ok: "new_Histogram [Num 1, Num 5, Num 10] = Inr \<lparr>h_buckets = [1, 5, 10], h_counts = [0, 0, 0, 0], h_totalCount = 0, h_sum = 0\<rparr>"
    by code_simp
  have "map (\<lambda>i. length (filter (\<lambda>v. (i = 0 \<or> [1, 5, 10] ! (i - 1) \<le> v) \<and> (i = length [1, 5, 10 :: rat] \<or> v < [1, 5, 10] ! i)) [1/2, 1, 5, 7, 20 :: rat]))
        [0..<length [1, 5, 10 :: rat] + 1] = [1, 1, 2, 1]" by code_simp
  with histogram_exact [OF ok, of "[1/2, 1, 5, 7, 20]"] show ?thesis by simp
qed

end
