(* ===== verification/Rate_Limit_Engine.thy ===== *)
theory Rate_Limit_Engine
  imports Key_Manager Metrics_Counters
begin

text \<open>
  The orchestrator of \<open>src/strategies/rate-limit-engine.ts\<close> (policy checks, store increments, draft
  mode, grouped windows, penalty box, per-request metrics) with \<open>getLimit\<close> of
  \<open>src/middleware/merge-options.ts\<close>. Stores are addressed by handles into a heap; the engine's
  store, and every slot of a grouped window, is a handle. The key manager is a state with the two
  methods the engine calls. A request is of some type \<open>'q\<close>; option fields that may be functions of
  the request are functions. User callbacks return normally and are recorded as events.
  One \<open>consume\<close> is modelled at one time \<open>now\<close>; readings of \<open>performance.now()\<close> come with the call.
\<close>

section \<open>Options and state\<close>

record grouped_slot =
  gw_windowMs :: int
  gw_maxRequests :: int
  gw_store :: nat

record penalty_box =
  pb_violationsThreshold :: js_value
  pb_violationWindowMs :: js_value
  pb_penaltyDurationMs :: js_value
  pb_onPenalty :: bool

datatype 'q max_requests = MaxAbsent | MaxNumber js_value | MaxFunction "'q \<Rightarrow> js_value"

record 'q engine_options =
  eo_strategy :: strategy
  eo_bucketSize :: int
  eo_limits :: "js_value list"
  eo_grouped :: "grouped_slot list"
  eo_maxRequests :: "'q max_requests"
  eo_incrementCost :: "('q \<Rightarrow> js_value) option"
  eo_store :: nat
  eo_storeIsComposed :: bool
  eo_skip :: "'q \<Rightarrow> bool"
  eo_allowlist :: "key list"
  eo_blocklist :: "key list"
  eo_penaltyBox :: "penalty_box option"
  eo_draft :: bool
  eo_onDraftViolation :: bool
  eo_onLimitReached :: bool
  eo_onLayerBlock :: bool

datatype block_cause = CauseRateLimit | CauseBlocklist | CausePenalty | CauseKeyManager | CauseUnavailable

record consume_result = rl_result +
  cr_blockReason :: "block_cause option"
  cr_draftWouldBlock :: bool
  cr_bindingSlotIndex :: "nat option"

datatype 'q engine_event =
    OnLayerBlock 'q string layer_row
  | OnDraftViolation 'q rl_result
  | OnLimitReached 'q rl_result
  | OnPenalty 'q

record ('s, 'k, 'q) engine =
  en_penaltyUntil :: "(key, time) jsmap"
  en_violations :: "(key, time list) jsmap"
  en_sweepSeq :: int
  en_metrics :: "metrics_counters option"
  en_heap :: "nat \<Rightarrow> 's"
  en_km :: "'k option"
  en_events :: "'q engine_event list"

record 'k km_methods =
  kmi_isBlocked :: "time \<Rightarrow> key \<Rightarrow> 'k \<Rightarrow> bool \<times> 'k"
  kmi_getBlockInfo :: "time \<Rightarrow> key \<Rightarrow> 'k \<Rightarrow> block option \<times> 'k"

definition key_manager_methods :: "'s store_ops \<Rightarrow> ('s, 'b) key_manager km_methods" where
  "key_manager_methods ops = \<lparr>kmi_isBlocked = km_isBlocked ops, kmi_getBlockInfo = km_getBlockInfo ops\<rparr>"

text \<open>\<open>rollbackDraftForBlockedIncrement\<close>, when the engine's store has that method.\<close>

type_synonym 's draft_method = "(time \<Rightarrow> key \<Rightarrow> rl_result \<Rightarrow> dec_opts \<Rightarrow> 's \<Rightarrow> (string + unit) \<times> 's) option"

text \<open>The clock readings of one call.\<close>

record clock =
  ck_now :: time
  ck_start :: rat
  ck_storeStart :: rat
  ck_storeEnd :: rat
  ck_end :: rat

definition new_RateLimitEngine :: "bool \<Rightarrow> 'k option \<Rightarrow> (nat \<Rightarrow> 's) \<Rightarrow> ('s, 'k, 'q) engine" where
  "new_RateLimitEngine metrics km h =
     \<lparr>en_penaltyUntil = [], en_violations = [], en_sweepSeq = 0,
      en_metrics = (if metrics then Some (new_MetricsCounters None None) else None),
      en_heap = h, en_km = km, en_events = []\<rparr>"

section \<open>Option resolution\<close>

definition isWindowOpts :: "'q engine_options \<Rightarrow> bool" where
  "isWindowOpts eo = (eo_strategy eo \<noteq> TOKEN_BUCKET)"

definition resolveIncrementOpts :: "'q engine_options \<Rightarrow> 'q \<Rightarrow> inc_opts option" where
  "resolveIncrementOpts eo req =
     (let costPart = map_option (\<lambda>f. js_int (sanitizeIncrementCost (f req) 1)) (eo_incrementCost eo)
      in if \<not> isWindowOpts eo
         then map_option (\<lambda>c. \<lparr>io_maxRequests = Undefined, io_cost = c\<rparr>) costPart
         else let hasMultiWindow = (eo_limits eo \<noteq> [] \<or> eo_grouped eo \<noteq> []);
                  maxPart = (case eo_maxRequests eo of
                      MaxFunction f \<Rightarrow> Some (js_int (sanitizeRateLimitCap (f req) 100))
                    | MaxNumber v \<Rightarrow>
                        if \<not> hasMultiWindow \<and> \<not> eo_storeIsComposed eo
                        then Some (js_int (sanitizeRateLimitCap v 100)) else None
                    | MaxAbsent \<Rightarrow> None)
              in if maxPart = None \<and> costPart = None then None
                 else Some \<lparr>io_maxRequests = (case maxPart of None \<Rightarrow> Undefined | Some v \<Rightarrow> v),
                            io_cost = (case costPart of None \<Rightarrow> Undefined | Some c \<Rightarrow> c)\<rparr>)"

fun min_list1 :: "int \<Rightarrow> int list \<Rightarrow> int" where
  "min_list1 x [] = x"
| "min_list1 x (y # ys) = min_list1 (min x y) ys"

definition getLimit :: "'q engine_options \<Rightarrow> 'q option \<Rightarrow> nat option \<Rightarrow> int" where
  "getLimit eo req slot =
     (if eo_strategy eo = TOKEN_BUCKET then eo_bucketSize eo
      else if eo_limits eo \<noteq> [] then
        (let caps = map (\<lambda>v. sanitizeRateLimitCap v 100) (eo_limits eo)
         in case slot of
              Some i \<Rightarrow> if i < length caps then caps ! i else min_list1 (hd caps) (tl caps)
            | None \<Rightarrow> min_list1 (hd caps) (tl caps))
      else if eo_grouped eo \<noteq> [] then
        (let caps = map gw_maxRequests (eo_grouped eo)
         in case slot of
              Some i \<Rightarrow> if i < length caps then caps ! i else min_list1 (hd caps) (tl caps)
            | None \<Rightarrow> min_list1 (hd caps) (tl caps))
      else case eo_maxRequests eo of
             MaxAbsent \<Rightarrow> 100
           | MaxFunction f \<Rightarrow> (case req of None \<Rightarrow> 100 | Some q \<Rightarrow> sanitizeRateLimitCap (f q) 100)
           | MaxNumber v \<Rightarrow> sanitizeRateLimitCap v 100)"

text \<open>\<open>defaultKeyGenerator\<close>: what it looks at in a request value.\<close>

datatype request_shape =
    ReqString string
  | ReqObject (rq_ip: "string option") (rq_remoteAddress: "string option")
  | ReqOther

definition defaultKeyGenerator :: "request_shape \<Rightarrow> key" where
  "defaultKeyGenerator r =
     (case r of
        ReqString s \<Rightarrow> s
      | ReqOther \<Rightarrow> ''unknown''
      | ReqObject ip addr \<Rightarrow>
          (case ip of
             Some s \<Rightarrow> if s \<noteq> '''' then s
                       else (case addr of Some a \<Rightarrow> if a \<noteq> '''' then a else ''unknown'' | None \<Rightarrow> ''unknown'')
           | None \<Rightarrow> (case addr of Some a \<Rightarrow> if a \<noteq> '''' then a else ''unknown'' | None \<Rightarrow> ''unknown'')))"

section \<open>Results of the policy checks\<close>

definition to_consume :: "rl_result \<Rightarrow> block_cause option \<Rightarrow> bool \<Rightarrow> nat option \<Rightarrow> consume_result" where
  "to_consume r cause draft slot =
     rl_result.extend r \<lparr>cr_blockReason = cause, cr_draftWouldBlock = draft, cr_bindingSlotIndex = slot\<rparr>"

definition buildPassthroughResult :: "'q engine_options \<Rightarrow> time \<Rightarrow> 'q \<Rightarrow> consume_result" where
  "buildPassthroughResult eo now req =
     to_consume (plain_result 0 (getLimit eo (Some req) None) (now + 60000) False) None False None"

definition buildPolicyBlockResult ::
  "'q engine_options \<Rightarrow> time \<Rightarrow> 'q \<Rightarrow> block_cause \<Rightarrow> key option \<Rightarrow> ('s, 'k, 'q) engine \<Rightarrow> consume_result" where
  "buildPolicyBlockResult eo now req cause penaltyKey en =
     (let rt = (case (cause, penaltyKey) of
                  (CausePenalty, Some k) \<Rightarrow>
                    (case map_of (en_penaltyUntil en) k of Some until \<Rightarrow> until | None \<Rightarrow> now + 60000)
                | _ \<Rightarrow> now + 60000)
      in to_consume (plain_result (getLimit eo (Some req) None) 0 rt True) (Some cause) False None)"

definition buildKeyManagerBlockResult ::
  "'q engine_options \<Rightarrow> 'k km_methods \<Rightarrow> time \<Rightarrow> key \<Rightarrow> 'q \<Rightarrow> ('s, 'k, 'q) engine \<Rightarrow>
   consume_result \<times> ('s, 'k, 'q) engine" where
  "buildKeyManagerBlockResult eo kmo now k req en =
     (case en_km en of
        None \<Rightarrow> (to_consume (plain_result (getLimit eo (Some req) None) 0 (now + 60000) True)
                   (Some CauseKeyManager) False None, en)
      | Some km \<Rightarrow>
          (let (info, km1) = kmi_getBlockInfo kmo now k km;
               rt = (case info of
                       Some b \<Rightarrow> (case bl_expiresAt b of Some t \<Rightarrow> t | None \<Rightarrow> now + 60000)
                     | None \<Rightarrow> now + 60000)
           in (to_consume (plain_result (getLimit eo (Some req) None) 0 rt True) (Some CauseKeyManager) False None,
               en\<lparr>en_km := Some km1\<rparr>)))"

section \<open>The penalty box\<close>

definition maybeSweepExpiredPenaltyEntries :: "time \<Rightarrow> ('s, 'k, 'q) engine \<Rightarrow> ('s, 'k, 'q) engine" where
  "maybeSweepExpiredPenaltyEntries now en =
     (if en_penaltyUntil en = [] then en
      else let size = length (en_penaltyUntil en); sq = en_sweepSeq en + 1; en1 = en\<lparr>en_sweepSeq := sq\<rparr>
           in if \<not> size \<ge> 1024 \<and> \<not> sq mod 256 = 0 then en1
              else en1\<lparr>en_penaltyUntil := filter (\<lambda>(k, until). \<not> until \<le> now) (en_penaltyUntil en1)\<rparr>)"

definition violation_window :: "penalty_box \<Rightarrow> int" where
  "violation_window cfg = sanitizeWindowMs (js_or (pb_violationWindowMs cfg) (js_int 3600000)) 3600000"

definition maybeSweepExpiredViolationEntries ::
  "'q engine_options \<Rightarrow> time \<Rightarrow> ('s, 'k, 'q) engine \<Rightarrow> ('s, 'k, 'q) engine" where
  "maybeSweepExpiredViolationEntries eo now en =
     (if en_violations en = [] then en
      else case eo_penaltyBox eo of
             None \<Rightarrow> en
           | Some cfg \<Rightarrow>
               en\<lparr>en_violations :=
                 filter (\<lambda>(k, ts). ts \<noteq> [])
                   (map (\<lambda>(k, ts). (k, filter (\<lambda>t. t > now - violation_window cfg) ts)) (en_violations en))\<rparr>)"

definition isPenaltyActive :: "time \<Rightarrow> key \<Rightarrow> ('s, 'k, 'q) engine \<Rightarrow> bool \<times> ('s, 'k, 'q) engine" where
  "isPenaltyActive now k en =
     (case map_of (en_penaltyUntil en) k of
        None \<Rightarrow> (False, en)
      | Some until \<Rightarrow>
          if now \<ge> until then (False, en\<lparr>en_penaltyUntil := AList.delete k (en_penaltyUntil en)\<rparr>)
          else (True, en))"

definition en_emit :: "'q engine_event \<Rightarrow> ('s, 'k, 'q) engine \<Rightarrow> ('s, 'k, 'q) engine" where
  "en_emit ev en = en\<lparr>en_events := en_events en @ [ev]\<rparr>"

definition recordViolation ::
  "'q engine_options \<Rightarrow> time \<Rightarrow> key \<Rightarrow> 'q \<Rightarrow> ('s, 'k, 'q) engine \<Rightarrow> ('s, 'k, 'q) engine" where
  "recordViolation eo now k req en =
     (case eo_penaltyBox eo of
        None \<Rightarrow> en
      | Some cfg \<Rightarrow>
          let threshold = sanitizeRateLimitCap (pb_violationsThreshold cfg) 1;
              prev = (case map_of (en_violations en) k of None \<Rightarrow> [] | Some ts \<Rightarrow> ts);
              trimmed = filter (\<lambda>t. t > now - violation_window cfg) prev @ [now];
              en1 = en\<lparr>en_violations := AList.update k trimmed (en_violations en)\<rparr>
          in if int (length trimmed) \<ge> threshold
             then (let en2 = en1\<lparr>en_penaltyUntil := AList.update k
                           (now + sanitizePenaltyDurationMs (pb_penaltyDurationMs cfg) 60000) (en_penaltyUntil en1),
                         en_violations := AList.delete k (en_violations en1)\<rparr>
                   in if pb_onPenalty cfg then en_emit (OnPenalty req) en2 else en2)
             else if length (en_violations en1) > 10000 then maybeSweepExpiredViolationEntries eo now en1
             else en1)"

section \<open>Per-request metrics\<close>

definition with_metrics :: "(metrics_counters \<Rightarrow> metrics_counters) \<Rightarrow> ('s, 'k, 'q) engine \<Rightarrow> ('s, 'k, 'q) engine" where
  "with_metrics f en = en\<lparr>en_metrics := map_option f (en_metrics en)\<rparr>"

definition recordMetricsSkip :: "clock \<Rightarrow> key \<Rightarrow> metrics_counters \<Rightarrow> metrics_counters" where
  "recordMetricsSkip ck k m =
     recordKey k (recordLatency (ck_end ck) (ck_start ck)
       (m\<lparr>totalRequests := totalRequests m + 1, skippedRequests := skippedRequests m + 1\<rparr>))"

definition recordMetricsAllowlist :: "clock \<Rightarrow> key \<Rightarrow> metrics_counters \<Rightarrow> metrics_counters" where
  "recordMetricsAllowlist ck k m =
     recordKey k (recordLatency (ck_end ck) (ck_start ck)
       (m\<lparr>totalRequests := totalRequests m + 1, allowlistedRequests := allowlistedRequests m + 1\<rparr>))"

definition recordMetricsPolicyBlock :: "clock \<Rightarrow> key \<Rightarrow> block_cause \<Rightarrow> metrics_counters \<Rightarrow> metrics_counters" where
  "recordMetricsPolicyBlock ck k cause m =
     (let m1 = m\<lparr>totalRequests := totalRequests m + 1, blockedRequests := blockedRequests m + 1\<rparr>;
          m2 = (case cause of
                  CauseBlocklist \<Rightarrow> m1\<lparr>blockedByBlocklist := blockedByBlocklist m1 + 1\<rparr>
                | CauseKeyManager \<Rightarrow> m1\<lparr>blockedByKeyManager := blockedByKeyManager m1 + 1\<rparr>
                | _ \<Rightarrow> m1\<lparr>blockedByPenalty := blockedByPenalty m1 + 1\<rparr>)
      in recordKeyBlocked k (recordKey k (recordLatency (ck_end ck) (ck_start ck) m2)))"

definition recordMetricsAfterConsume :: "clock \<Rightarrow> key \<Rightarrow> consume_result \<Rightarrow> metrics_counters \<Rightarrow> metrics_counters" where
  "recordMetricsAfterConsume ck k out m =
     (let m1 = recordKey k (recordLatency (ck_end ck) (ck_start ck) (m\<lparr>totalRequests := totalRequests m + 1\<rparr>))
      in if isBlocked out
         then let m2 = recordKeyBlocked k (m1\<lparr>blockedRequests := blockedRequests m1 + 1\<rparr>)
              in case cr_blockReason out of
                   Some CauseRateLimit \<Rightarrow> m2\<lparr>blockedByRateLimit := blockedByRateLimit m2 + 1\<rparr>
                 | Some CauseBlocklist \<Rightarrow> m2\<lparr>blockedByBlocklist := blockedByBlocklist m2 + 1\<rparr>
                 | Some CausePenalty \<Rightarrow> m2\<lparr>blockedByPenalty := blockedByPenalty m2 + 1\<rparr>
                 | Some CauseKeyManager \<Rightarrow> m2\<lparr>blockedByKeyManager := blockedByKeyManager m2 + 1\<rparr>
                 | Some CauseUnavailable \<Rightarrow> m2\<lparr>blockedByServiceUnavailable := blockedByServiceUnavailable m2 + 1\<rparr>
                 | None \<Rightarrow> if storeUnavailable out
                     then m2\<lparr>blockedByServiceUnavailable := blockedByServiceUnavailable m2 + 1\<rparr> else m2
         else m1\<lparr>allowedRequests := allowedRequests m1 + 1\<rparr>)"

section \<open>Grouped windows\<close>

definition better_blocked :: "rl_result list \<Rightarrow> nat \<Rightarrow> nat \<Rightarrow> nat" where
  "better_blocked results best idx =
     (let t = resetTime (results ! idx); bestT = resetTime (results ! best)
      in if t > bestT \<or> (t = bestT \<and> idx < best) then idx else best)"

definition lower_remaining :: "rl_result list \<Rightarrow> nat \<Rightarrow> nat \<Rightarrow> nat" where
  "lower_remaining results best idx =
     (let rem = remaining (results ! idx); minRem = remaining (results ! best)
      in if rem < minRem \<or> (rem = minRem \<and> idx < best) then idx else best)"

definition computeBindingSlotIndex :: "rl_result list \<Rightarrow> nat option" where
  "computeBindingSlotIndex results =
     (if results = [] then None
      else case filter (\<lambda>i. isBlocked (results ! i)) [0..<length results] of
             b # bs \<Rightarrow> Some (foldl (better_blocked results) b bs)
           | [] \<Rightarrow> Some (foldl (lower_remaining results) 0 [1..<length results]))"

definition mergeGroupedResults :: "time \<Rightarrow> rl_result list \<Rightarrow> rl_result" where
  "mergeGroupedResults now results =
     (case results of
        [] \<Rightarrow> plain_result 0 0 now False
      | r0 # rs \<Rightarrow>
          (case find storeUnavailable results of
             Some u \<Rightarrow> u
           | None \<Rightarrow>
               (case find isBlocked results of
                  Some r \<Rightarrow> plain_result (totalHits r) 0 (resetTime r) True
                | None \<Rightarrow>
                    plain_result (foldl (\<lambda>a r. max a (totalHits r)) 0 results)
                      (foldl (\<lambda>a r. min a (remaining r)) (remaining r0) rs)
                      (foldl (\<lambda>a r. max a (resetTime r)) 0 results) False)))"

definition slot_inc_opts :: "grouped_slot \<Rightarrow> inc_opts option \<Rightarrow> inc_opts option" where
  "slot_inc_opts g incOpts = Some \<lparr>io_maxRequests = js_int (gw_maxRequests g), io_cost = opt_cost incOpts\<rparr>"

definition heap_increment ::
  "'s store_ops \<Rightarrow> clock \<Rightarrow> nat \<Rightarrow> key \<Rightarrow> inc_opts option \<Rightarrow> ('s, 'k, 'q) engine \<Rightarrow>
   (string + rl_result) \<times> ('s, 'k, 'q) engine" where
  "heap_increment ops ck i k o' en =
     (case op_increment ops (ck_now ck) k o' (en_heap en i) of
        (Inl e, s') \<Rightarrow> (Inl e, en\<lparr>en_heap := (en_heap en)(i := s')\<rparr>)
      | (Inr r, s') \<Rightarrow>
          (Inr r, with_metrics (recordStoreLatency (ck_storeEnd ck) (ck_storeStart ck))
                    (en\<lparr>en_heap := (en_heap en)(i := s')\<rparr>)))"

text \<open>\<open>decrement(...).catch(() => {})\<close>.\<close>

definition heap_decrement ::
  "'s store_ops \<Rightarrow> time \<Rightarrow> key \<Rightarrow> dec_opts \<Rightarrow> nat \<Rightarrow> ('s, 'k, 'q) engine \<Rightarrow> ('s, 'k, 'q) engine" where
  "heap_decrement ops now k d i en =
     en\<lparr>en_heap := (en_heap en)(i := snd (op_decrement ops now k (Some d) (en_heap en i)))\<rparr>"

definition rollback_slots ::
  "'s store_ops \<Rightarrow> time \<Rightarrow> key \<Rightarrow> dec_opts \<Rightarrow> grouped_slot list \<Rightarrow> ('s, 'k, 'q) engine \<Rightarrow> ('s, 'k, 'q) engine" where
  "rollback_slots ops now k d gs en = fold (\<lambda>g. heap_decrement ops now k d (gw_store g)) gs en"

text \<open>The loop: a rejection, or the index that blocked, or none; with the results so far.\<close>

fun grouped_loop ::
  "'s store_ops \<Rightarrow> clock \<Rightarrow> key \<Rightarrow> inc_opts option \<Rightarrow> grouped_slot list \<Rightarrow> rl_result list \<Rightarrow> ('s, 'k, 'q) engine \<Rightarrow>
   (string + nat option) \<times> rl_result list \<times> ('s, 'k, 'q) engine" where
  "grouped_loop ops ck k incOpts [] results en = (Inr None, results, en)"
| "grouped_loop ops ck k incOpts (g # gs) results en =
     (case heap_increment ops ck (gw_store g) k (slot_inc_opts g incOpts) en of
        (Inl e, en1) \<Rightarrow> (Inl e, results, en1)
      | (Inr r, en1) \<Rightarrow>
          if isBlocked r then (Inr (Some (length results)), results @ [r], en1)
          else grouped_loop ops ck k incOpts gs (results @ [r]) en1)"

definition consumeGroupedWindows ::
  "'s store_ops \<Rightarrow> 'q engine_options \<Rightarrow> clock \<Rightarrow> key \<Rightarrow> inc_opts option \<Rightarrow> ('s, 'k, 'q) engine \<Rightarrow>
   (string + rl_result \<times> nat option \<times> nat option) \<times> ('s, 'k, 'q) engine" where
  "consumeGroupedWindows ops eo ck k incOpts en =
     (let now = ck_now ck; grouped = eo_grouped eo; d = matchingDecrementOptions (opt_cost incOpts)
      in case grouped_loop ops ck k incOpts grouped [] en of
           (Inl e, results, en1) \<Rightarrow> (Inl e, rollback_slots ops now k d (take (length results) grouped) en1)
         | (Inr (Some i), results, en1) \<Rightarrow>
             (Inr (mergeGroupedResults now results, Some i, computeBindingSlotIndex results),
              if eo_draft eo \<and> \<not> storeUnavailable (last results) then en1
              else rollback_slots ops now k d (take i grouped) en1)
         | (Inr None, results, en1) \<Rightarrow>
             (Inr (mergeGroupedResults now results, None, computeBindingSlotIndex results), en1))"

text \<open>Labels \<open>limit-0\<close>, \<open>limit-1\<close>, ... of a composed store built from \<open>limits\<close>.\<close>

definition is_digit :: "char \<Rightarrow> bool" where
  "is_digit c = (c \<in> set ''0123456789'')"

definition digits_value :: "string \<Rightarrow> nat" where
  "digits_value ds = foldl (\<lambda>n c. 10 * n + (of_char c - 48)) 0 ds"

definition bindingSlotIndexForComposedResult :: "'q engine_options \<Rightarrow> rl_result \<Rightarrow> nat option" where
  "bindingSlotIndexForComposedResult eo r =
     (if \<not> isWindowOpts eo \<or> eo_limits eo = [] then None
      else case decidingLayer r of
             None \<Rightarrow> None
           | Some l \<Rightarrow>
               let ds = drop 6 l
               in if take 6 l = ''limit-'' \<and> ds \<noteq> [] \<and> list_all is_digit ds \<and> digits_value ds < length (eo_limits eo)
                  then Some (digits_value ds) else None)"

section \<open>Consuming a request\<close>

definition maybeOnLayerBlocks :: "'q engine_options \<Rightarrow> 'q \<Rightarrow> rl_result \<Rightarrow> ('s, 'k, 'q) engine \<Rightarrow> ('s, 'k, 'q) engine" where
  "maybeOnLayerBlocks eo req r en =
     (case res_layers r of
        None \<Rightarrow> en
      | Some rows \<Rightarrow>
          if \<not> eo_onLayerBlock eo then en
          else fold (\<lambda>(lb, row) en.
                 if row_isBlocked row \<and> row_consulted row \<and> (case row_error row of None \<Rightarrow> True | Some e \<Rightarrow> e = '''')
                 then en_emit (OnLayerBlock req lb row) en else en) rows en)"

definition draft_rollback ::
  "'s store_ops \<Rightarrow> 's draft_method \<Rightarrow> 'q engine_options \<Rightarrow> clock \<Rightarrow> key \<Rightarrow> dec_opts \<Rightarrow> rl_result \<Rightarrow> nat option \<Rightarrow>
   ('s, 'k, 'q) engine \<Rightarrow> (string + unit) \<times> ('s, 'k, 'q) engine" where
  "draft_rollback ops dm eo ck k d r blockedAt en =
     (let grouped = (if isWindowOpts eo then eo_grouped eo else [])
      in if grouped \<noteq> []
         then (Inr (), case blockedAt of
                         Some b \<Rightarrow> rollback_slots ops (ck_now ck) k d (take (b + 1) grouped) en
                       | None \<Rightarrow> en)
         else case dm of
                Some f \<Rightarrow>
                  (let (res, s') = f (ck_now ck) k r d (en_heap en (eo_store eo))
                   in (res, en\<lparr>en_heap := (en_heap en)(eo_store eo := s')\<rparr>))
              | None \<Rightarrow> (Inr (), heap_decrement ops (ck_now ck) k d (eo_store eo) en))"

definition draft_result :: "rl_result \<Rightarrow> nat option \<Rightarrow> consume_result" where
  "draft_result r slot =
     to_consume
       (let base = plain_result (totalHits r) (remaining r) (resetTime r) False
        in case res_layers r of
             None \<Rightarrow> base
           | Some rows \<Rightarrow> base\<lparr>res_layers := Some rows, res_mode := res_mode r, decidingLayer := decidingLayer r\<rparr>)
       None True slot"

definition store_phase ::
  "'s store_ops \<Rightarrow> 'q engine_options \<Rightarrow> clock \<Rightarrow> key \<Rightarrow> inc_opts option \<Rightarrow> ('s, 'k, 'q) engine \<Rightarrow>
   (string + rl_result \<times> nat option \<times> nat option) \<times> ('s, 'k, 'q) engine" where
  "store_phase ops eo ck k incOpts en =
     (if isWindowOpts eo \<and> eo_grouped eo \<noteq> [] then consumeGroupedWindows ops eo ck k incOpts en
      else case heap_increment ops ck (eo_store eo) k incOpts en of
             (Inl e, en1) \<Rightarrow> (Inl e, en1)
           | (Inr r, en1) \<Rightarrow> (Inr (r, None, bindingSlotIndexForComposedResult eo r), en1))"

definition finish_consume ::
  "'s store_ops \<Rightarrow> 's draft_method \<Rightarrow> 'q engine_options \<Rightarrow> clock \<Rightarrow> key \<Rightarrow> 'q \<Rightarrow> inc_opts option \<Rightarrow>
   rl_result \<times> nat option \<times> nat option \<Rightarrow> ('s, 'k, 'q) engine \<Rightarrow> (string + consume_result) \<times> ('s, 'k, 'q) engine" where
  "finish_consume ops dm eo ck k req incOpts x en =
     (case x of (r, blockedAt, slot) \<Rightarrow>
        if isBlocked r \<and> eo_draft eo \<and> \<not> storeUnavailable r
        then (case draft_rollback ops dm eo ck k (matchingDecrementOptions (opt_cost incOpts)) r blockedAt
                     (maybeOnLayerBlocks eo req r en) of
                (Inl e, en1) \<Rightarrow> (Inl e, en1)
              | (Inr _, en1) \<Rightarrow>
                  let en2 = (if eo_onDraftViolation eo then en_emit (OnDraftViolation req r) en1 else en1);
                      out = draft_result r slot
                  in (Inr out, with_metrics (recordMetricsAfterConsume ck k out) en2))
        else
          let blocked = (isBlocked r \<and> \<not> storeUnavailable r);
              en1 = (if blocked then recordViolation eo (ck_now ck) k req en else en);
              en2 = (if blocked then maybeOnLayerBlocks eo req r en1 else en1);
              en3 = (if blocked \<and> eo_onLimitReached eo then en_emit (OnLimitReached req r) en2 else en2);
              out = to_consume r
                      (if isBlocked r then Some (if storeUnavailable r then CauseUnavailable else CauseRateLimit) else None)
                      False slot
          in (Inr out, with_metrics (recordMetricsAfterConsume ck k out) en3))"

text \<open>The key manager has a store of its own here. In the code it can be the engine's store object; its two
  methods reach that store only through \<open>unshield\<close> (\<open>km_reads_store\<close>), so for every store but the shield it
  makes no difference. A manager over the very shield the engine uses is outside the model.\<close>

definition km_check :: "'k km_methods \<Rightarrow> time \<Rightarrow> key \<Rightarrow> ('s, 'k, 'q) engine \<Rightarrow> bool \<times> ('s, 'k, 'q) engine" where
  "km_check kmo now k en =
     (case en_km en of
        None \<Rightarrow> (False, en)
      | Some km \<Rightarrow> (let (b, km1) = kmi_isBlocked kmo now k km in (b, en\<lparr>en_km := Some km1\<rparr>)))"

definition consumeWithKey ::
  "'s store_ops \<Rightarrow> 's draft_method \<Rightarrow> 'k km_methods \<Rightarrow> 'q engine_options \<Rightarrow> clock \<Rightarrow> key \<Rightarrow> 'q \<Rightarrow>
   ('s, 'k, 'q) engine \<Rightarrow> (string + consume_result) \<times> ('s, 'k, 'q) engine" where
  "consumeWithKey ops dm kmo eo ck k req en0 =
     (let now = ck_now ck; en = maybeSweepExpiredPenaltyEntries now en0
      in if eo_skip eo req
         then (Inr (buildPassthroughResult eo now req), with_metrics (recordMetricsSkip ck k) en)
         else if k \<in> set (eo_allowlist eo)
         then (Inr (buildPassthroughResult eo now req), with_metrics (recordMetricsAllowlist ck k) en)
         else if k \<in> set (eo_blocklist eo)
         then (Inr (buildPolicyBlockResult eo now req CauseBlocklist None en),
               with_metrics (recordMetricsPolicyBlock ck k CauseBlocklist) en)
         else case km_check kmo now k en of
                (True, en1) \<Rightarrow>
                  (let (out, en2) = buildKeyManagerBlockResult eo kmo now k req en1
                   in (Inr out, with_metrics (recordMetricsPolicyBlock ck k CauseKeyManager) en2))
              | (False, en1) \<Rightarrow>
                  (case isPenaltyActive now k en1 of
                     (True, en2) \<Rightarrow>
                       (Inr (buildPolicyBlockResult eo now req CausePenalty (Some k) en2),
                        with_metrics (recordMetricsPolicyBlock ck k CausePenalty) en2)
                   | (False, en2) \<Rightarrow>
                       (let incOpts = resolveIncrementOpts eo req
                        in case store_phase ops eo ck k incOpts en2 of
                             (Inl e, en3) \<Rightarrow> (Inl e, en3)
                           | (Inr x, en3) \<Rightarrow> finish_consume ops dm eo ck k req incOpts x en3)))"

definition engine_consume ::
  "'s store_ops \<Rightarrow> 's draft_method \<Rightarrow> 'k km_methods \<Rightarrow> 'q engine_options \<Rightarrow> ('q \<Rightarrow> key) \<Rightarrow> clock \<Rightarrow> 'q \<Rightarrow>
   ('s, 'k, 'q) engine \<Rightarrow> (string + consume_result) \<times> ('s, 'k, 'q) engine" where
  "engine_consume ops dm kmo eo keyGenerator ck req en =
     consumeWithKey ops dm kmo eo ck (keyGenerator req) req en"

section \<open>Per-request metrics are balanced\<close>

text \<open>Every request counted is in exactly one class, and every blocked one has exactly one reason.\<close>

definition metrics_balanced :: "metrics_counters \<Rightarrow> bool" where
  "metrics_balanced m \<longleftrightarrow>
     totalRequests m = allowedRequests m + blockedRequests m + skippedRequests m + allowlistedRequests m \<and>
     blockedRequests m = blockedByRateLimit m + blockedByBlocklist m + blockedByPenalty m +
       blockedByKeyManager m + blockedByServiceUnavailable m"

lemma record_same_counters [simp]:
  "counter_fields (recordLatency e s m) = counter_fields m" "counter_fields (recordStoreLatency e s m) = counter_fields m"
  "counter_fields (recordKey k m) = counter_fields m" "counter_fields (recordKeyBlocked k m) = counter_fields m"
  by (simp_all add: recordLatency_def recordStoreLatency_def recordKey_def recordKeyBlocked_def counter_fields_def
      Let_def split: option.split)

lemma metrics_balanced_cong: "counter_fields m' = counter_fields m \<Longrightarrow> metrics_balanced m' = metrics_balanced m"
  by (simp add: counter_fields_def metrics_balanced_def)

lemma metrics_balanced_records [simp]:
  "metrics_balanced (recordLatency e s m) = metrics_balanced m"
  "metrics_balanced (recordStoreLatency e s m) = metrics_balanced m"
  "metrics_balanced (recordKey k m) = metrics_balanced m"
  "metrics_balanced (recordKeyBlocked k m) = metrics_balanced m"
  by (rule metrics_balanced_cong; simp)+

lemma metrics_balanced_skip [simp]: "metrics_balanced (recordMetricsSkip ck k m) = metrics_balanced m"
  "metrics_balanced (recordMetricsAllowlist ck k m) = metrics_balanced m"
  by (simp_all add: recordMetricsSkip_def recordMetricsAllowlist_def) (auto simp: metrics_balanced_def)

lemma metrics_balanced_policy [simp]: "metrics_balanced (recordMetricsPolicyBlock ck k cause m) = metrics_balanced m"
  by (cases cause) (simp_all add: recordMetricsPolicyBlock_def Let_def, auto simp: metrics_balanced_def)

text \<open>A consumed request is counted once; a blocked result without a reason would break the balance.\<close>

lemma metrics_balanced_after:
  assumes "metrics_balanced m" "isBlocked out \<Longrightarrow> cr_blockReason out \<noteq> None"
  shows "metrics_balanced (recordMetricsAfterConsume ck k out m)"
proof -
  define m1 where "m1 = recordKey k (recordLatency (ck_end ck) (ck_start ck) (m\<lparr>totalRequests := totalRequests m + 1\<rparr>))"
  have m1: "counter_fields m1 = counter_fields (m\<lparr>totalRequests := totalRequests m + 1\<rparr>)" by (simp add: m1_def)
  define m2 where "m2 = recordKeyBlocked k (m1\<lparr>blockedRequests := blockedRequests m1 + 1\<rparr>)"
  have m2: "counter_fields m2 = counter_fields (m1\<lparr>blockedRequests := blockedRequests m1 + 1\<rparr>)" by (simp add: m2_def)
  show ?thesis
  proof (cases "isBlocked out")
    case True
    then obtain cause where "cr_blockReason out = Some cause" using assms(2) by blast
    then show ?thesis using True m1 m2 assms(1)
      by (cases cause)
         (simp_all add: recordMetricsAfterConsume_def Let_def flip: m1_def m2_def,
          simp_all add: metrics_balanced_def counter_fields_def)
  next
    case False
    then show ?thesis using m1 assms(1)
      by (simp add: recordMetricsAfterConsume_def Let_def flip: m1_def)
         (simp add: metrics_balanced_def counter_fields_def)
  qed
qed

text \<open>Steps that leave the counters alone.\<close>

definition en_balanced :: "('s, 'k, 'q) engine \<Rightarrow> bool" where
  "en_balanced en \<longleftrightarrow> (\<forall>m. en_metrics en = Some m \<longrightarrow> metrics_balanced m)"

lemma en_balanced_cong: "en_metrics en' = en_metrics en \<Longrightarrow> en_balanced en' = en_balanced en"
  by (simp add: en_balanced_def)

lemma en_metrics_frame [simp]:
  "en_metrics (maybeSweepExpiredPenaltyEntries now en) = en_metrics en"
  "en_metrics (maybeSweepExpiredViolationEntries eo now en) = en_metrics en"
  "en_metrics (snd (isPenaltyActive now k en)) = en_metrics en"
  "en_metrics (en_emit ev en) = en_metrics en"
  "en_metrics (snd (km_check kmo now k en)) = en_metrics en"
  "en_metrics (snd (buildKeyManagerBlockResult eo kmo now k req en)) = en_metrics en"
  "en_metrics (heap_decrement ops now k d i en) = en_metrics en"
  by (simp_all add: maybeSweepExpiredPenaltyEntries_def maybeSweepExpiredViolationEntries_def isPenaltyActive_def
      en_emit_def km_check_def buildKeyManagerBlockResult_def heap_decrement_def Let_def case_prod_beta split: option.split)

lemma en_metrics_violation [simp]: "en_metrics (recordViolation eo now k req en) = en_metrics en"
  by (simp add: recordViolation_def Let_def split: option.split)

lemma en_metrics_layer_blocks [simp]: "en_metrics (maybeOnLayerBlocks eo req r en) = en_metrics en"
proof -
  have "en_metrics (fold (\<lambda>(lb, row) en. if P row then en_emit (OnLayerBlock req lb row) en else en) rows en) = en_metrics en"
    for P and rows :: "(string \<times> layer_row) list"
    by (rule fold_keeps [of "\<lambda>e. en_metrics e = en_metrics en"]) auto
  then show ?thesis by (simp add: maybeOnLayerBlocks_def split: option.split)
qed

lemma en_metrics_rollback [simp]: "en_metrics (rollback_slots ops now k d gs en) = en_metrics en"
  unfolding rollback_slots_def by (rule fold_keeps [of "\<lambda>e. en_metrics e = en_metrics en"]) auto

lemma en_metrics_draft_rollback [simp]: "en_metrics (snd (draft_rollback ops dm eo ck k d r b en)) = en_metrics en"
  by (simp add: draft_rollback_def Let_def case_prod_beta split: option.split)

lemma en_balanced_with [intro]:
  "en_balanced en \<Longrightarrow> (\<And>m. metrics_balanced m \<Longrightarrow> metrics_balanced (f m)) \<Longrightarrow> en_balanced (with_metrics f en)"
  by (auto simp: en_balanced_def with_metrics_def)

lemma en_balanced_increment: "en_balanced en \<Longrightarrow> en_balanced (snd (heap_increment ops ck i k o' en))"
  by (auto simp: heap_increment_def en_balanced_def with_metrics_def split: prod.split sum.split)

lemma en_balanced_loop:
  "en_balanced en \<Longrightarrow> en_balanced (snd (snd (grouped_loop ops ck k incOpts gs results en)))"
proof (induction gs arbitrary: results en)
  case (Cons g gs)
  have "en_balanced (snd (heap_increment ops ck (gw_store g) k (slot_inc_opts g incOpts) en))"
    by (rule en_balanced_increment [OF Cons.prems])
  then show ?case by (auto split: prod.split sum.split intro!: Cons.IH)
qed simp

lemma en_balanced_grouped:
  "en_balanced en \<Longrightarrow> en_balanced (snd (consumeGroupedWindows ops eo ck k incOpts en))"
  using en_balanced_loop [of en ops ck k incOpts "eo_grouped eo" "[]"]
  by (auto simp: consumeGroupedWindows_def Let_def en_balanced_def split: prod.split sum.split option.split)

lemma en_balanced_store_phase: "en_balanced en \<Longrightarrow> en_balanced (snd (store_phase ops eo ck k incOpts en))"
  using en_balanced_increment [of en ops ck "eo_store eo" k incOpts]
  by (auto simp: store_phase_def en_balanced_grouped split: prod.split sum.split)

lemma to_consume_simps [simp]:
  "isBlocked (to_consume r c d s) = isBlocked r" "remaining (to_consume r c d s) = remaining r"
  "resetTime (to_consume r c d s) = resetTime r" "totalHits (to_consume r c d s) = totalHits r"
  "storeUnavailable (to_consume r c d s) = storeUnavailable r"
  "cr_blockReason (to_consume r c d s) = c" "cr_draftWouldBlock (to_consume r c d s) = d"
  "cr_bindingSlotIndex (to_consume r c d s) = s"
  by (simp_all add: to_consume_def rl_result.extend_def)

lemma draft_result_simps [simp]:
  "\<not> isBlocked (draft_result r s)" "cr_blockReason (draft_result r s) = None" "cr_draftWouldBlock (draft_result r s)"
  by (simp_all add: draft_result_def Let_def split: option.split)

text \<open>The branches of \<open>finish_consume\<close> and \<open>consumeWithKey\<close>, one equation each.\<close>

lemma finish_draft:
  assumes "isBlocked r" "eo_draft eo" "\<not> storeUnavailable r"
    and "draft_rollback ops dm eo ck k (matchingDecrementOptions (opt_cost incOpts)) r b (maybeOnLayerBlocks eo req r en) = (res, en1)"
  shows "finish_consume ops dm eo ck k req incOpts (r, b, slot) en =
    (case res of
       Inl e \<Rightarrow> (Inl e, en1)
     | Inr _ \<Rightarrow> (Inr (draft_result r slot), with_metrics (recordMetricsAfterConsume ck k (draft_result r slot))
                 (if eo_onDraftViolation eo then en_emit (OnDraftViolation req r) en1 else en1)))"
  using assms by (simp add: finish_consume_def Let_def split: sum.split)

definition live_result :: "rl_result \<Rightarrow> nat option \<Rightarrow> consume_result" where
  "live_result r slot =
     to_consume r (if isBlocked r then Some (if storeUnavailable r then CauseUnavailable else CauseRateLimit) else None) False slot"

definition live_effects :: "'q engine_options \<Rightarrow> time \<Rightarrow> key \<Rightarrow> 'q \<Rightarrow> rl_result \<Rightarrow> ('s, 'k, 'q) engine \<Rightarrow> ('s, 'k, 'q) engine" where
  "live_effects eo now k req r en =
     (if isBlocked r \<and> \<not> storeUnavailable r
      then (let en1 = maybeOnLayerBlocks eo req r (recordViolation eo now k req en)
            in if eo_onLimitReached eo then en_emit (OnLimitReached req r) en1 else en1)
      else en)"

lemma finish_live:
  assumes "\<not> (isBlocked r \<and> eo_draft eo \<and> \<not> storeUnavailable r)"
  shows "finish_consume ops dm eo ck k req incOpts (r, b, slot) en =
    (Inr (live_result r slot),
     with_metrics (recordMetricsAfterConsume ck k (live_result r slot)) (live_effects eo (ck_now ck) k req r en))"
  using assms by (auto simp: finish_consume_def live_result_def live_effects_def Let_def)

lemma en_metrics_live_effects [simp]: "en_metrics (live_effects eo now k req r en) = en_metrics en"
  by (simp add: live_effects_def Let_def)

lemma live_result_simps [simp]:
  "isBlocked (live_result r slot) = isBlocked r" "cr_draftWouldBlock (live_result r slot) = False"
  "remaining (live_result r slot) = remaining r" "resetTime (live_result r slot) = resetTime r"
  "cr_blockReason (live_result r slot) =
     (if isBlocked r then Some (if storeUnavailable r then CauseUnavailable else CauseRateLimit) else None)"
  by (simp_all add: live_result_def)

lemma consume_skip:
  "eo_skip eo req \<Longrightarrow> consumeWithKey ops dm kmo eo ck k req en =
    (Inr (buildPassthroughResult eo (ck_now ck) req),
     with_metrics (recordMetricsSkip ck k) (maybeSweepExpiredPenaltyEntries (ck_now ck) en))"
  by (simp add: consumeWithKey_def Let_def)

lemma consume_allow:
  "\<not> eo_skip eo req \<Longrightarrow> k \<in> set (eo_allowlist eo) \<Longrightarrow> consumeWithKey ops dm kmo eo ck k req en =
    (Inr (buildPassthroughResult eo (ck_now ck) req),
     with_metrics (recordMetricsAllowlist ck k) (maybeSweepExpiredPenaltyEntries (ck_now ck) en))"
  by (simp add: consumeWithKey_def Let_def)

lemma consume_blocklist:
  "\<not> eo_skip eo req \<Longrightarrow> k \<notin> set (eo_allowlist eo) \<Longrightarrow> k \<in> set (eo_blocklist eo) \<Longrightarrow>
   consumeWithKey ops dm kmo eo ck k req en =
    (let en1 = maybeSweepExpiredPenaltyEntries (ck_now ck) en
     in (Inr (buildPolicyBlockResult eo (ck_now ck) req CauseBlocklist None en1),
         with_metrics (recordMetricsPolicyBlock ck k CauseBlocklist) en1))"
  by (simp add: consumeWithKey_def Let_def)

lemma consume_km:
  "\<not> eo_skip eo req \<Longrightarrow> k \<notin> set (eo_allowlist eo) \<Longrightarrow> k \<notin> set (eo_blocklist eo) \<Longrightarrow>
   km_check kmo (ck_now ck) k (maybeSweepExpiredPenaltyEntries (ck_now ck) en) = (True, en1) \<Longrightarrow>
   consumeWithKey ops dm kmo eo ck k req en =
    (let (out, en2) = buildKeyManagerBlockResult eo kmo (ck_now ck) k req en1
     in (Inr out, with_metrics (recordMetricsPolicyBlock ck k CauseKeyManager) en2))"
  by (simp add: consumeWithKey_def Let_def)

lemma consume_penalty:
  "\<not> eo_skip eo req \<Longrightarrow> k \<notin> set (eo_allowlist eo) \<Longrightarrow> k \<notin> set (eo_blocklist eo) \<Longrightarrow>
   km_check kmo (ck_now ck) k (maybeSweepExpiredPenaltyEntries (ck_now ck) en) = (False, en1) \<Longrightarrow>
   isPenaltyActive (ck_now ck) k en1 = (True, en2) \<Longrightarrow>
   consumeWithKey ops dm kmo eo ck k req en =
    (Inr (buildPolicyBlockResult eo (ck_now ck) req CausePenalty (Some k) en2),
     with_metrics (recordMetricsPolicyBlock ck k CausePenalty) en2)"
  by (simp add: consumeWithKey_def Let_def)

lemma consume_store:
  "\<not> eo_skip eo req \<Longrightarrow> k \<notin> set (eo_allowlist eo) \<Longrightarrow> k \<notin> set (eo_blocklist eo) \<Longrightarrow>
   km_check kmo (ck_now ck) k (maybeSweepExpiredPenaltyEntries (ck_now ck) en) = (False, en1) \<Longrightarrow>
   isPenaltyActive (ck_now ck) k en1 = (False, en2) \<Longrightarrow>
   consumeWithKey ops dm kmo eo ck k req en =
    (case store_phase ops eo ck k (resolveIncrementOpts eo req) en2 of
       (Inl e, en3) \<Rightarrow> (Inl e, en3)
     | (Inr x, en3) \<Rightarrow> finish_consume ops dm eo ck k req (resolveIncrementOpts eo req) x en3)"
  by (simp add: consumeWithKey_def Let_def)

lemma consume_cases:
  obtains "eo_skip eo req"
  | "\<not> eo_skip eo req" "k \<in> set (eo_allowlist eo)"
  | "\<not> eo_skip eo req" "k \<notin> set (eo_allowlist eo)" "k \<in> set (eo_blocklist eo)"
  | en1 where "\<not> eo_skip eo req" "k \<notin> set (eo_allowlist eo)" "k \<notin> set (eo_blocklist eo)"
      "km_check kmo now k (maybeSweepExpiredPenaltyEntries now en) = (True, en1)"
  | en1 en2 where "\<not> eo_skip eo req" "k \<notin> set (eo_allowlist eo)" "k \<notin> set (eo_blocklist eo)"
      "km_check kmo now k (maybeSweepExpiredPenaltyEntries now en) = (False, en1)" "isPenaltyActive now k en1 = (True, en2)"
  | en1 en2 where "\<not> eo_skip eo req" "k \<notin> set (eo_allowlist eo)" "k \<notin> set (eo_blocklist eo)"
      "km_check kmo now k (maybeSweepExpiredPenaltyEntries now en) = (False, en1)" "isPenaltyActive now k en1 = (False, en2)"
  by (metis (full_types) surj_pair)

lemma en_balanced_finish:
  assumes "en_balanced en" shows "en_balanced (snd (finish_consume ops dm eo ck k req incOpts x en))"
proof -
  obtain r b slot where x: "x = (r, b, slot)" by (cases x)
  show ?thesis
  proof (cases "isBlocked r \<and> eo_draft eo \<and> \<not> storeUnavailable r")
    case True
    obtain res en1 where d: "draft_rollback ops dm eo ck k (matchingDecrementOptions (opt_cost incOpts)) r b
        (maybeOnLayerBlocks eo req r en) = (res, en1)" by fastforce
    have "en_metrics en1 = en_metrics en"
      using en_metrics_draft_rollback [of ops dm eo ck k "matchingDecrementOptions (opt_cost incOpts)" r b
          "maybeOnLayerBlocks eo req r en"] d by simp
    then have "en_balanced en1" "en_balanced (en_emit ev en1)" for ev
      using assms by (simp_all add: en_balanced_def)
    then show ?thesis using finish_draft [of r eo ops dm ck k incOpts b req en res en1 slot] True d
      by (auto simp: x split: sum.split intro!: en_balanced_with metrics_balanced_after)
  next
    case False
    have "en_balanced (live_effects eo (ck_now ck) k req r en)" using assms by (simp add: en_balanced_def)
    then show ?thesis
      by (auto simp: x finish_live [OF False] intro!: en_balanced_with metrics_balanced_after)
  qed
qed

lemma en_balanced_consume:
  assumes "en_balanced en" shows "en_balanced (snd (consumeWithKey ops dm kmo eo ck k req en))"
proof -
  define en0 where "en0 = maybeSweepExpiredPenaltyEntries (ck_now ck) en"
  have m: "en_balanced e" if "en_metrics e = en_metrics en" for e :: "('a, 'b, 'c) engine"
    using assms that by (simp add: en_balanced_def)
  have km: "en_metrics e = en_metrics en" if "km_check kmo (ck_now ck) k en0 = (b, e)" for b e
    using that en_metrics_frame(5) [of kmo "ck_now ck" k en0] by (simp add: en0_def)
  have pen: "en_metrics e' = en_metrics e" if "isPenaltyActive (ck_now ck) k e = (b, e')"
    for b and e e' :: "('a, 'b, 'c) engine"
    using that en_metrics_frame(3) [of "ck_now ck" k e] by simp
  show ?thesis
  proof (cases rule: consume_cases [where eo = eo and req = req and k = k and kmo = kmo and now = "ck_now ck" and en = en])
    case 1
    then show ?thesis using m [of en0] by (auto simp: consume_skip en0_def)
  next
    case 2
    then show ?thesis using m [of en0] by (auto simp: consume_allow en0_def)
  next
    case 3
    then show ?thesis using m [of en0] by (auto simp: consume_blocklist en0_def Let_def)
  next
    case (4 en1)
    then have "en_metrics en1 = en_metrics en" using km [of True en1] by (simp add: en0_def)
    then have "en_balanced (snd (buildKeyManagerBlockResult eo kmo (ck_now ck) k req en1))"
      by (intro m) simp
    then show ?thesis by (auto simp: consume_km [OF 4] split: prod.split)
  next
    case (5 en1 en2)
    then have "en_balanced en2" using km [of False en1] pen [OF 5(5)] by (intro m) (simp add: en0_def)
    then show ?thesis by (auto simp: consume_penalty [OF 5])
  next
    case (6 en1 en2)
    then have "en_balanced en2" using km [of False en1] pen [OF 6(5)] by (intro m) (simp add: en0_def)
    from en_balanced_store_phase [OF this, of ops eo ck k "resolveIncrementOpts eo req"]
    show ?thesis
      by (auto simp: consume_store [OF 6] split: prod.split sum.split intro!: en_balanced_finish)
  qed
qed

section \<open>What the policy checks decide\<close>

datatype verdict = PolicyPass | PolicyDeny block_cause | PolicyCheck

definition penalty_active :: "time \<Rightarrow> key \<Rightarrow> ('s, 'k, 'q) engine \<Rightarrow> bool" where
  "penalty_active now k en = (case map_of (en_penaltyUntil en) k of None \<Rightarrow> False | Some until \<Rightarrow> now < until)"

definition policy ::
  "'k km_methods \<Rightarrow> 'q engine_options \<Rightarrow> time \<Rightarrow> key \<Rightarrow> 'q \<Rightarrow> ('s, 'k, 'q) engine \<Rightarrow> verdict" where
  "policy kmo eo now k req en =
     (if eo_skip eo req \<or> k \<in> set (eo_allowlist eo) then PolicyPass
      else if k \<in> set (eo_blocklist eo) then PolicyDeny CauseBlocklist
      else if (case en_km en of None \<Rightarrow> False | Some km \<Rightarrow> fst (kmi_isBlocked kmo now k km)) then PolicyDeny CauseKeyManager
      else if penalty_active now k en then PolicyDeny CausePenalty
      else PolicyCheck)"

lemma sweep_penalty_lookup:
  assumes "jsmap_ok (en_penaltyUntil en)"
  shows "penalty_active now k (maybeSweepExpiredPenaltyEntries now en) = penalty_active now k en"
    "jsmap_ok (en_penaltyUntil (maybeSweepExpiredPenaltyEntries now en))"
proof -
  define swept where "swept = filter (\<lambda>(k, until). \<not> until \<le> now) (en_penaltyUntil en)"
  have d: "distinct (map fst (en_penaltyUntil en))" using assms by (simp add: jsmap_ok_def)
  have "penalty_active now k (en1\<lparr>en_penaltyUntil := swept\<rparr>) = penalty_active now k en"
    for en1 :: "('a, 'b, 'c) engine"
    by (auto simp: penalty_active_def swept_def map_of_filter_keys [OF d] split: option.split)
  moreover have "jsmap_ok swept" using d by (simp add: swept_def jsmap_ok_def distinct_map_filter)
  ultimately show "penalty_active now k (maybeSweepExpiredPenaltyEntries now en) = penalty_active now k en"
    "jsmap_ok (en_penaltyUntil (maybeSweepExpiredPenaltyEntries now en))"
    using assms by (simp_all add: maybeSweepExpiredPenaltyEntries_def Let_def penalty_active_def flip: swept_def)
qed

lemma sweep_frame [simp]:
  "en_heap (maybeSweepExpiredPenaltyEntries now en) = en_heap en"
  "en_violations (maybeSweepExpiredPenaltyEntries now en) = en_violations en"
  "en_km (maybeSweepExpiredPenaltyEntries now en) = en_km en"
  by (simp_all add: maybeSweepExpiredPenaltyEntries_def Let_def)

lemma with_metrics_frame [simp]:
  "en_heap (with_metrics f en) = en_heap en" "en_violations (with_metrics f en) = en_violations en"
  "en_penaltyUntil (with_metrics f en) = en_penaltyUntil en" "en_km (with_metrics f en) = en_km en"
  by (simp_all add: with_metrics_def)

lemma km_check_frame:
  assumes "km_check kmo now k en = (b, en1)"
  shows "en_heap en1 = en_heap en" "en_violations en1 = en_violations en" "en_penaltyUntil en1 = en_penaltyUntil en"
    "b = (case en_km en of None \<Rightarrow> False | Some km \<Rightarrow> fst (kmi_isBlocked kmo now k km))"
  using assms by (auto simp: km_check_def Let_def split: option.splits prod.splits)

lemma isPenaltyActive_frame:
  assumes "isPenaltyActive now k en = (b, en1)"
  shows "en_heap en1 = en_heap en" "en_violations en1 = en_violations en" "b = penalty_active now k en"
    "\<not> b \<Longrightarrow> map_of (en_penaltyUntil en1) k = None" "b \<Longrightarrow> en1 = en"
    "jsmap_ok (en_penaltyUntil en) \<Longrightarrow> jsmap_ok (en_penaltyUntil en1)"
  using assms by (auto simp: isPenaltyActive_def penalty_active_def delete_conv' split: option.splits if_splits)

lemma km_block_result_frame:
  assumes "buildKeyManagerBlockResult eo kmo now k req en = (out, en1)"
  shows "en_heap en1 = en_heap en" "en_violations en1 = en_violations en" "en_penaltyUntil en1 = en_penaltyUntil en"
    "isBlocked out" "remaining out = 0" "cr_blockReason out = Some CauseKeyManager"
  using assms by (auto simp: buildKeyManagerBlockResult_def Let_def split: option.splits prod.splits)

text \<open>The store phase and the draft rollback touch the heap and the metrics only.\<close>

definition en_policy_state :: "('s, 'k, 'q) engine \<Rightarrow> (key, time) jsmap \<times> (key, time list) jsmap \<times> 'k option" where
  "en_policy_state en = (en_penaltyUntil en, en_violations en, en_km en)"

lemma policy_state_frame [simp]:
  "en_policy_state (with_metrics f en) = en_policy_state en"
  "en_policy_state (en\<lparr>en_heap := h\<rparr>) = en_policy_state en"
  "en_policy_state (en_emit ev en) = en_policy_state en"
  "en_policy_state (heap_decrement ops now k d i en) = en_policy_state en"
  by (simp_all add: en_policy_state_def with_metrics_def en_emit_def heap_decrement_def)

lemma heap_increment_policy [simp]: "en_policy_state (snd (heap_increment ops ck i k o' en)) = en_policy_state en"
  by (simp add: heap_increment_def split: prod.split sum.split)

lemma rollback_policy [simp]: "en_policy_state (rollback_slots ops now k d gs en) = en_policy_state en"
  unfolding rollback_slots_def by (rule fold_keeps [of "\<lambda>e. en_policy_state e = en_policy_state en"]) auto

lemma grouped_loop_policy [simp]:
  "en_policy_state (snd (snd (grouped_loop ops ck k incOpts gs results en))) = en_policy_state en"
proof (induction gs arbitrary: results en)
  case (Cons g gs)
  show ?case by (simp add: case_prod_beta Cons.IH split: sum.split)
qed simp

lemma store_phase_policy [simp]: "en_policy_state (snd (store_phase ops eo ck k incOpts en)) = en_policy_state en"
proof -
  have "en_policy_state (snd (consumeGroupedWindows ops eo ck k incOpts en)) = en_policy_state en"
    by (simp add: consumeGroupedWindows_def Let_def case_prod_beta split: sum.split option.split)
  then show ?thesis by (simp add: store_phase_def case_prod_beta split: sum.split)
qed

lemma layer_blocks_policy [simp]: "en_policy_state (maybeOnLayerBlocks eo req r en) = en_policy_state en"
proof -
  have "en_policy_state (fold (\<lambda>(lb, row) en. if P row then en_emit (OnLayerBlock req lb row) en else en) rows en) =
      en_policy_state en" for P and rows :: "(string \<times> layer_row) list"
    by (rule fold_keeps [of "\<lambda>e. en_policy_state e = en_policy_state en"]) auto
  then show ?thesis by (simp add: maybeOnLayerBlocks_def split: option.split)
qed

lemma draft_rollback_policy [simp]:
  "en_policy_state (snd (draft_rollback ops dm eo ck k d r b en)) = en_policy_state en"
  by (simp add: draft_rollback_def Let_def case_prod_beta split: option.split)

text \<open>What a finished consume answers.\<close>

lemma finish_reason:
  assumes "finish_consume ops dm eo ck k req incOpts x en = (Inr out, en')"
  shows "(isBlocked out \<longleftrightarrow> cr_blockReason out \<noteq> None) \<and>
    cr_blockReason out \<in> {None, Some CauseRateLimit, Some CauseUnavailable}"
proof -
  obtain r b slot where x: "x = (r, b, slot)" by (cases x)
  show ?thesis
  proof (cases "isBlocked r \<and> eo_draft eo \<and> \<not> storeUnavailable r")
    case True
    obtain res en1 where d: "draft_rollback ops dm eo ck k (matchingDecrementOptions (opt_cost incOpts)) r b
        (maybeOnLayerBlocks eo req r en) = (res, en1)" by fastforce
    show ?thesis using assms True unfolding x
      by (simp add: finish_draft [OF _ _ _ d] split: sum.splits) auto
  next
    case False
    show ?thesis using assms unfolding x finish_live [OF False] by (auto split: if_splits)
  qed
qed

lemma consume_checked:
  assumes "\<not> eo_skip eo req" "k \<notin> set (eo_allowlist eo)" "k \<notin> set (eo_blocklist eo)"
    "km_check kmo (ck_now ck) k (maybeSweepExpiredPenaltyEntries (ck_now ck) en) = (False, en1)"
    "isPenaltyActive (ck_now ck) k en1 = (False, en2)"
    and "consumeWithKey ops dm kmo eo ck k req en = (Inr out, en')"
  obtains x en3 where "store_phase ops eo ck k (resolveIncrementOpts eo req) en2 = (Inr x, en3)"
    "finish_consume ops dm eo ck k req (resolveIncrementOpts eo req) x en3 = (Inr out, en')"
  using assms(6) unfolding consume_store [OF assms(1-5)] by (auto split: prod.splits sum.splits)

section \<open>The penalty box\<close>

definition violation_count :: "penalty_box \<Rightarrow> time \<Rightarrow> key \<Rightarrow> ('s, 'k, 'q) engine \<Rightarrow> int" where
  "violation_count cfg now k en =
     (case map_of (en_violations en) k of
        None \<Rightarrow> 0 | Some ts \<Rightarrow> int (length (filter (\<lambda>t. t > now - violation_window cfg) ts)))"

lemma violation_window_pos: "1 \<le> violation_window cfg"
  by (simp add: violation_window_def sanitize_ge1)

lemma map_of_trim_entries:
  assumes "distinct (map fst xs)"
  shows "map_of (filter (\<lambda>(k, ts). ts \<noteq> []) (map (\<lambda>(k, ts). (k, f ts)) xs)) k =
    (case map_of xs k of None \<Rightarrow> None | Some ts \<Rightarrow> if f ts = [] then None else Some (f ts))"
proof -
  have d: "distinct (map fst (map (\<lambda>(k, ts). (k, f ts)) xs))"
    using assms by (simp add: map_map comp_def split_beta)
  have "map_of (map (\<lambda>(k, ts). (k, f ts)) xs) k = map_option f (map_of xs k)"
    by (induction xs) auto
  then show ?thesis
    using map_of_filter_keys [OF d, of "\<lambda>k ts. ts \<noteq> []" k] by (auto split: option.splits)
qed

lemma recordViolation_effect:
  assumes "eo_penaltyBox eo = Some cfg" "jsmap_ok (en_violations en)"
  shows "if sanitizeRateLimitCap (pb_violationsThreshold cfg) 1 \<le> violation_count cfg now k en + 1
    then en_penaltyUntil (recordViolation eo now k req en) =
           AList.update k (now + sanitizePenaltyDurationMs (pb_penaltyDurationMs cfg) 60000) (en_penaltyUntil en) \<and>
         violation_count cfg now k (recordViolation eo now k req en) = 0
    else en_penaltyUntil (recordViolation eo now k req en) = en_penaltyUntil en \<and>
         violation_count cfg now k (recordViolation eo now k req en) = violation_count cfg now k en + 1"
proof -
  let ?P = "\<lambda>t. t > now - violation_window cfg"
  define prev where "prev = (case map_of (en_violations en) k of None \<Rightarrow> [] | Some ts \<Rightarrow> ts)"
  define trimmed where "trimmed = filter ?P prev @ [now]"
  define en1 where "en1 = en\<lparr>en_violations := AList.update k trimmed (en_violations en)\<rparr>"
  have n: "int (length trimmed) = violation_count cfg now k en + 1"
    by (simp add: trimmed_def prev_def violation_count_def split: option.split)
  have keep: "filter ?P trimmed = trimmed"
    using violation_window_pos [of cfg] by (simp add: trimmed_def)
  have en1: "violation_count cfg now k en1 = violation_count cfg now k en + 1"
    using n keep by (simp add: violation_count_def en1_def update_conv')
  have "distinct (map fst (en_violations en1))" using assms(2) by (simp add: en1_def jsmap_ok_def distinct_update)
  moreover have "map_of (en_violations en1) k = Some trimmed" "en_violations en1 \<noteq> []" "trimmed \<noteq> []"
    by (auto simp: en1_def update_conv' trimmed_def dest: arg_cong [of _ _ map_of])
  ultimately have "map_of (en_violations (maybeSweepExpiredViolationEntries eo now en1)) k = Some trimmed"
    using assms(1) keep by (simp add: maybeSweepExpiredViolationEntries_def map_of_trim_entries)
  then have sw: "violation_count cfg now k (maybeSweepExpiredViolationEntries eo now en1) = violation_count cfg now k en + 1"
    using n keep by (simp add: violation_count_def)
  have pu: "en_penaltyUntil (maybeSweepExpiredViolationEntries eo now en1) = en_penaltyUntil en"
    by (simp add: maybeSweepExpiredViolationEntries_def en1_def split: option.split)
  have "recordViolation eo now k req en =
      (if int (length trimmed) \<ge> sanitizeRateLimitCap (pb_violationsThreshold cfg) 1
       then (let en2 = en1\<lparr>en_penaltyUntil := AList.update k
                     (now + sanitizePenaltyDurationMs (pb_penaltyDurationMs cfg) 60000) (en_penaltyUntil en1),
                   en_violations := AList.delete k (en_violations en1)\<rparr>
             in if pb_onPenalty cfg then en_emit (OnPenalty req) en2 else en2)
       else if length (en_violations en1) > 10000 then maybeSweepExpiredViolationEntries eo now en1 else en1)"
    by (simp add: recordViolation_def assms(1) Let_def en1_def trimmed_def prev_def)
  moreover have "en_penaltyUntil en1 = en_penaltyUntil en" by (simp add: en1_def)
  moreover have "violation_count cfg now k (en_emit ev (e\<lparr>en_penaltyUntil := pm, en_violations := AList.delete k vs\<rparr>)) = 0"
    "en_penaltyUntil (en_emit ev (e\<lparr>en_penaltyUntil := pm, en_violations := vs\<rparr>)) = pm"
    "violation_count cfg now k (e\<lparr>en_penaltyUntil := pm, en_violations := AList.delete k vs\<rparr>) = 0"
    for ev vs pm and e :: "('b, 'c, 'a) engine"
    by (simp_all add: en_emit_def violation_count_def delete_conv')
  ultimately show ?thesis using n sw pu en1 by (simp add: Let_def)
qed

lemma live_effects_violations:
  "isBlocked r \<Longrightarrow> \<not> storeUnavailable r \<Longrightarrow>
   en_policy_state (live_effects eo now k req r en) = en_policy_state (recordViolation eo now k req en)"
  by (simp add: live_effects_def Let_def)

lemma finish_rate_limited:
  assumes "finish_consume ops dm eo ck k req incOpts (r, b, slot) en = (Inr out, en')" "cr_blockReason out = Some CauseRateLimit"
  shows "isBlocked r \<and> \<not> storeUnavailable r \<and>
    en' = with_metrics (recordMetricsAfterConsume ck k out) (live_effects eo (ck_now ck) k req r en)"
proof (cases "isBlocked r \<and> eo_draft eo \<and> \<not> storeUnavailable r")
  case True
  obtain res en1 where d: "draft_rollback ops dm eo ck k (matchingDecrementOptions (opt_cost incOpts)) r b
      (maybeOnLayerBlocks eo req r en) = (res, en1)" by fastforce
  show ?thesis using assms True by (auto simp: finish_draft [OF _ _ _ d] split: sum.splits)
next
  case False
  show ?thesis using assms unfolding finish_live [OF False] by (auto split: if_splits)
qed

section \<open>The invariant of the engine\<close>

definition maps_ok :: "(key, time) jsmap \<times> (key, time list) jsmap \<times> 'k option \<Rightarrow> bool" where
  "maps_ok st \<longleftrightarrow> jsmap_ok (fst st) \<and> jsmap_ok (fst (snd st))"

lemma jsmap_ok_trim [simp]:
  "jsmap_ok xs \<Longrightarrow> jsmap_ok (filter (\<lambda>(k, ts). ts \<noteq> []) (map (\<lambda>(k, ts). (k, f ts)) xs))"
  by (simp add: jsmap_ok_def distinct_map_filter map_map comp_def split_beta)

lemma maps_ok_violation:
  "maps_ok (en_policy_state en) \<Longrightarrow> maps_ok (en_policy_state (recordViolation eo now k req en))"
  by (auto simp: maps_ok_def en_policy_state_def recordViolation_def maybeSweepExpiredViolationEntries_def Let_def
      en_emit_def split: option.split)

lemma maps_ok_finish:
  assumes "maps_ok (en_policy_state en)"
  shows "maps_ok (en_policy_state (snd (finish_consume ops dm eo ck k req incOpts x en)))"
proof -
  obtain r b slot where x: "x = (r, b, slot)" by (cases x)
  show ?thesis
  proof (cases "isBlocked r \<and> eo_draft eo \<and> \<not> storeUnavailable r")
    case True
    obtain res en1 where d: "draft_rollback ops dm eo ck k (matchingDecrementOptions (opt_cost incOpts)) r b
        (maybeOnLayerBlocks eo req r en) = (res, en1)" by fastforce
    then have "en_policy_state en1 = en_policy_state en"
      using draft_rollback_policy [of ops dm eo ck k "matchingDecrementOptions (opt_cost incOpts)" r b
          "maybeOnLayerBlocks eo req r en"] by simp
    then show ?thesis using assms True by (simp add: x finish_draft [OF _ _ _ d] split: sum.split)
  next
    case False
    show ?thesis using assms maps_ok_violation [OF assms]
      by (simp add: x finish_live [OF False] live_effects_def Let_def)
  qed
qed

lemma maps_ok_consume:
  fixes en :: "('s, 'k, 'q) engine"
  assumes "maps_ok (en_policy_state en)"
  shows "maps_ok (en_policy_state (snd (consumeWithKey ops dm kmo eo ck k req en)))"
proof -
  have ok: "maps_ok (en_policy_state e)"
    if "jsmap_ok (en_penaltyUntil e)" "en_violations e = en_violations en" for e :: "('s, 'k, 'q) engine"
    using assms that by (simp add: maps_ok_def en_policy_state_def)
  have s: "jsmap_ok (en_penaltyUntil (maybeSweepExpiredPenaltyEntries (ck_now ck) en))"
    using assms sweep_penalty_lookup(2) by (auto simp: maps_ok_def en_policy_state_def)
  have sw: "maps_ok (en_policy_state (maybeSweepExpiredPenaltyEntries (ck_now ck) en))"
    by (rule ok) (simp_all add: s)
  show ?thesis
  proof (cases rule: consume_cases [where eo = eo and req = req and k = k and kmo = kmo and now = "ck_now ck" and en = en])
    case 1
    then show ?thesis using sw by (simp add: consume_skip)
  next
    case 2
    then show ?thesis using sw by (simp add: consume_allow)
  next
    case 3
    then show ?thesis using sw by (simp add: consume_blocklist Let_def)
  next
    case (4 en1)
    obtain out en2 where out: "buildKeyManagerBlockResult eo kmo (ck_now ck) k req en1 = (out, en2)" by fastforce
    show ?thesis using ok [of en2] s km_check_frame [OF 4(4)] km_block_result_frame [OF out]
      by (simp add: consume_km [OF 4] out)
  next
    case (5 en1 en2)
    show ?thesis using ok [of en2] s km_check_frame [OF 5(4)] isPenaltyActive_frame [OF 5(5)]
      by (simp add: consume_penalty [OF 5])
  next
    case (6 en1 en2)
    have "maps_ok (en_policy_state en2)"
      using ok [of en2] s km_check_frame [OF 6(4)] isPenaltyActive_frame [OF 6(5)] by simp
    moreover obtain res en3 where sp: "store_phase ops eo ck k (resolveIncrementOpts eo req) en2 = (res, en3)"
      by fastforce
    moreover have "en_policy_state en3 = en_policy_state en2"
      using store_phase_policy [of ops eo ck k "resolveIncrementOpts eo req" en2] unfolding sp by simp
    ultimately show ?thesis
      by (auto simp: consume_store [OF 6] split: sum.split intro!: maps_ok_finish)
  qed
qed

definition engine_run ::
  "'s store_ops \<Rightarrow> 's draft_method \<Rightarrow> 'k km_methods \<Rightarrow> 'q engine_options \<Rightarrow> (clock \<times> key \<times> 'q) list \<Rightarrow>
   ('s, 'k, 'q) engine \<Rightarrow> ('s, 'k, 'q) engine" where
  "engine_run ops dm kmo eo calls en = fold (\<lambda>(ck, k, req) en. snd (consumeWithKey ops dm kmo eo ck k req en)) calls en"

lemma with_metrics_has [simp]: "en_metrics (with_metrics f en) = None \<longleftrightarrow> en_metrics en = None"
  by (simp add: with_metrics_def)

lemma heap_increment_has [simp]: "en_metrics (snd (heap_increment ops ck i k o' en)) = None \<longleftrightarrow> en_metrics en = None"
  by (simp add: heap_increment_def with_metrics_def split: prod.split sum.split)

lemma grouped_loop_has [simp]:
  "en_metrics (snd (snd (grouped_loop ops ck k incOpts gs results en))) = None \<longleftrightarrow> en_metrics en = None"
  by (induction gs arbitrary: results en) (simp_all add: case_prod_beta split: sum.split)

lemma store_phase_has [simp]: "en_metrics (snd (store_phase ops eo ck k incOpts en)) = None \<longleftrightarrow> en_metrics en = None"
  by (simp add: store_phase_def consumeGroupedWindows_def Let_def case_prod_beta split: sum.split option.split)

lemma finish_has [simp]:
  "en_metrics (snd (finish_consume ops dm eo ck k req incOpts x en)) = None \<longleftrightarrow> en_metrics en = None"
  by (simp add: finish_consume_def Let_def case_prod_beta split: sum.split)

lemma consume_has_metrics: "en_metrics (snd (consumeWithKey ops dm kmo eo ck k req en)) = None \<longleftrightarrow> en_metrics en = None"
  by (simp add: consumeWithKey_def Let_def case_prod_beta split: sum.split bool.split)

text \<open>In every run of an engine, whatever the stores answer or reject, the penalty and violation
  maps stay well formed, and the per-request metrics balance: every counted request is allowed,
  blocked, skipped or allow-listed, and every blocked one has exactly one of the five reasons.\<close>

theorem engine_invariant:
  "case engine_run ops dm kmo eo calls (new_RateLimitEngine metrics km heap) of en \<Rightarrow>
     jsmap_ok (en_penaltyUntil en) \<and> jsmap_ok (en_violations en) \<and>
     (case en_metrics en of
        None \<Rightarrow> \<not> metrics
      | Some m \<Rightarrow> metrics \<and>
          totalRequests m = allowedRequests m + blockedRequests m + skippedRequests m + allowlistedRequests m \<and>
          blockedRequests m = blockedByRateLimit m + blockedByBlocklist m + blockedByPenalty m +
            blockedByKeyManager m + blockedByServiceUnavailable m)"
proof -
  define ok where "ok en \<longleftrightarrow> maps_ok (en_policy_state en) \<and> en_balanced en \<and> (en_metrics en = None) = (\<not> metrics)"
    for en :: "('a, 'b, 'c) engine"
  have "ok (engine_run ops dm kmo eo calls (new_RateLimitEngine metrics km heap))"
    unfolding engine_run_def
  proof (rule fold_keeps [of ok])
    show "ok (new_RateLimitEngine metrics km heap)"
      by (simp add: ok_def new_RateLimitEngine_def maps_ok_def en_policy_state_def en_balanced_def metrics_balanced_def
          new_MetricsCounters_def Let_def)
    fix c and en :: "('a, 'b, 'c) engine" assume "ok en"
    then show "ok ((\<lambda>(ck, k, req) en. snd (consumeWithKey ops dm kmo eo ck k req en)) c en)"
      by (auto simp: ok_def maps_ok_consume en_balanced_consume consume_has_metrics split: prod.split)
  qed
  then show ?thesis
    by (auto simp: ok_def maps_ok_def en_policy_state_def en_balanced_def metrics_balanced_def split: option.split)
qed

text \<open>(C6) The policy checks run in the order skip, allow list, block list, key manager, penalty box,
  and decide before any store is asked: a passed request is answered unblocked, a denied one blocked
  with its reason and no remaining quota (a penalty also reports when it ends), and in both cases no
  store and no violation record changes. Every other request is decided by the stores, and the
  answer is blocked exactly when it carries a reason.\<close>

theorem engine_policy_order:
  assumes "jsmap_ok (en_penaltyUntil en)" and "consumeWithKey ops dm kmo eo ck k req en = (res, en')"
  shows "case policy kmo eo (ck_now ck) k req en of
      PolicyPass \<Rightarrow> (\<exists>out. res = Inr out \<and> \<not> isBlocked out \<and> remaining out = getLimit eo (Some req) None) \<and>
        en_heap en' = en_heap en \<and> en_violations en' = en_violations en
    | PolicyDeny cause \<Rightarrow> (\<exists>out. res = Inr out \<and> isBlocked out \<and> remaining out = 0 \<and> cr_blockReason out = Some cause \<and>
          (cause = CausePenalty \<longrightarrow> map_of (en_penaltyUntil en') k = Some (resetTime out))) \<and>
        en_heap en' = en_heap en \<and> en_violations en' = en_violations en
    | PolicyCheck \<Rightarrow> (\<forall>out. res = Inr out \<longrightarrow> (isBlocked out \<longleftrightarrow> cr_blockReason out \<noteq> None) \<and>
        cr_blockReason out \<in> {None, Some CauseRateLimit, Some CauseUnavailable})"
proof (cases rule: consume_cases [where eo = eo and req = req and k = k and kmo = kmo and now = "ck_now ck" and en = en])
  case 1
  then show ?thesis using assms(2) by (auto simp: policy_def consume_skip buildPassthroughResult_def)
next
  case 2
  then show ?thesis using assms(2) by (auto simp: policy_def consume_allow buildPassthroughResult_def)
next
  case 3
  then show ?thesis using assms(2) by (auto simp: policy_def consume_blocklist Let_def buildPolicyBlockResult_def)
next
  case (4 en1)
  obtain out en2 where out: "buildKeyManagerBlockResult eo kmo (ck_now ck) k req en1 = (out, en2)" by fastforce
  show ?thesis using assms(2) 4 km_check_frame [OF 4(4)] km_block_result_frame [OF out]
    by (auto simp: policy_def consume_km [OF 4] out)
next
  case (5 en1 en2)
  note f = km_check_frame [OF 5(4)] isPenaltyActive_frame [OF 5(5)]
  have "penalty_active (ck_now ck) k en"
    using f sweep_penalty_lookup [OF assms(1), of "ck_now ck"] by (simp add: penalty_active_def)
  moreover have "\<exists>until. map_of (en_penaltyUntil en2) k = Some until"
    using f by (auto simp: penalty_active_def split: option.splits)
  ultimately show ?thesis using assms(2) 5 f
    by (auto simp: policy_def consume_penalty [OF 5] buildPolicyBlockResult_def)
next
  case (6 en1 en2)
  note f = km_check_frame [OF 6(4)] isPenaltyActive_frame [OF 6(5)]
  have "\<not> penalty_active (ck_now ck) k en"
    using f sweep_penalty_lookup [OF assms(1), of "ck_now ck"] by (simp add: penalty_active_def)
  then have "policy kmo eo (ck_now ck) k req en = PolicyCheck" using 6 f by (simp add: policy_def)
  moreover have "(isBlocked out \<longleftrightarrow> cr_blockReason out \<noteq> None) \<and>
      cr_blockReason out \<in> {None, Some CauseRateLimit, Some CauseUnavailable}" if "res = Inr out" for out
    using consume_checked [OF 6 assms(2) [unfolded that]] finish_reason by metis
  ultimately show ?thesis by simp
qed

lemma rate_limited_checked:
  assumes "consumeWithKey ops dm kmo eo ck k req en = (Inr out, en')" and "cr_blockReason out = Some CauseRateLimit"
  obtains en1 en2 where "\<not> eo_skip eo req" "k \<notin> set (eo_allowlist eo)" "k \<notin> set (eo_blocklist eo)"
    "km_check kmo (ck_now ck) k (maybeSweepExpiredPenaltyEntries (ck_now ck) en) = (False, en1)"
    "isPenaltyActive (ck_now ck) k en1 = (False, en2)"
proof (cases rule: consume_cases [where eo = eo and req = req and k = k and kmo = kmo and now = "ck_now ck" and en = en])
  case 1
  then show ?thesis using assms by (auto simp: consume_skip buildPassthroughResult_def)
next
  case 2
  then show ?thesis using assms by (auto simp: consume_allow buildPassthroughResult_def)
next
  case 3
  then show ?thesis using assms by (auto simp: consume_blocklist Let_def buildPolicyBlockResult_def)
next
  case (4 en1)
  obtain out' en2 where o': "buildKeyManagerBlockResult eo kmo (ck_now ck) k req en1 = (out', en2)" by fastforce
  show ?thesis using assms km_block_result_frame [OF o'] by (auto simp: consume_km [OF 4] o')
next
  case (5 en1 en2)
  then show ?thesis using assms by (auto simp: consume_penalty [OF 5] buildPolicyBlockResult_def)
qed (rule that)

text \<open>(C27) The penalty box: a request the store rejects is recorded, and when it makes at least
  \<open>violationsThreshold\<close> rejections of that key within the violation window, the key is in the penalty box
  from then on for exactly \<open>penaltyDurationMs\<close>, and the count starts over; below the threshold no
  penalty starts. (While the penalty lasts, \<open>engine_policy_order\<close> denies every request of the key.)\<close>

theorem penalty_box_enforced:
  assumes "jsmap_ok (en_penaltyUntil en)" "jsmap_ok (en_violations en)" and "eo_penaltyBox eo = Some cfg"
    and consume: "consumeWithKey ops dm kmo eo ck k req en = (Inr out, en')" and "cr_blockReason out = Some CauseRateLimit"
    and later: "ck_now ck \<le> now'"
  shows "let reached = sanitizeRateLimitCap (pb_violationsThreshold cfg) 1 \<le> violation_count cfg (ck_now ck) k en + 1
    in (penalty_active now' k en' \<longleftrightarrow>
          reached \<and> now' < ck_now ck + sanitizePenaltyDurationMs (pb_penaltyDurationMs cfg) 60000) \<and>
       violation_count cfg (ck_now ck) k en' = (if reached then 0 else violation_count cfg (ck_now ck) k en + 1)"
proof -
  obtain en1 en2 where 6: "\<not> eo_skip eo req" "k \<notin> set (eo_allowlist eo)" "k \<notin> set (eo_blocklist eo)"
    "km_check kmo (ck_now ck) k (maybeSweepExpiredPenaltyEntries (ck_now ck) en) = (False, en1)"
    "isPenaltyActive (ck_now ck) k en1 = (False, en2)"
    using rate_limited_checked [OF consume assms(5)] .
  note f = km_check_frame [OF 6(4)] isPenaltyActive_frame [OF 6(5)]
  obtain x en3 where sp: "store_phase ops eo ck k (resolveIncrementOpts eo req) en2 = (Inr x, en3)"
    and fin: "finish_consume ops dm eo ck k req (resolveIncrementOpts eo req) x en3 = (Inr out, en')"
    using consume_checked [OF 6 consume] .
  have en3: "en_policy_state en3 = en_policy_state en2"
    using store_phase_policy [of ops eo ck k "resolveIncrementOpts eo req" en2] sp by simp
  obtain r b slot where x: "x = (r, b, slot)" by (cases x)
  have live: "isBlocked r" "\<not> storeUnavailable r" "en' = with_metrics (recordMetricsAfterConsume ck k out)
      (live_effects eo (ck_now ck) k req r en3)"
    using finish_rate_limited [OF fin [unfolded x] assms(5)] by auto
  have st: "en_policy_state en' = en_policy_state (recordViolation eo (ck_now ck) k req en3)"
    using live_effects_violations [OF live(1,2)] live(3) by simp
  have pre: "map_of (en_penaltyUntil en3) k = None" "en_violations en3 = en_violations en"
    using en3 f by (auto simp: en_policy_state_def)
  have vc: "violation_count cfg (ck_now ck) k e = violation_count cfg (ck_now ck) k e'"
    if "en_violations e = en_violations e'" for e e' :: "('a, 'b, 'c) engine"
    using that by (simp add: violation_count_def)
  have "en_penaltyUntil en' = en_penaltyUntil (recordViolation eo (ck_now ck) k req en3)"
    "violation_count cfg (ck_now ck) k en' = violation_count cfg (ck_now ck) k (recordViolation eo (ck_now ck) k req en3)"
    using st by (auto simp: en_policy_state_def intro: vc)
  with recordViolation_effect [of eo cfg en3 "ck_now ck" k req] assms(2,3) pre vc [OF pre(2)] later
  show ?thesis by (auto simp: Let_def penalty_active_def update_conv' split: if_splits)
qed

section \<open>Grouped windows over stores that keep the contract\<close>

text \<open>What the engine needs of a store beyond the contract: a plain matching decrement takes back at
  once what an increment \<open>counted\<close>, which includes every allowed increment.\<close>

locale undo_store = rate_limit_store ops inv usage
  for ops :: "'s store_ops" and inv :: "'s \<Rightarrow> bool" and usage :: "'s \<Rightarrow> time \<Rightarrow> key \<Rightarrow> int" +
  fixes counted :: "'s \<Rightarrow> rl_result \<Rightarrow> bool"
  assumes plain_undo:
      "inv s \<Longrightarrow> op_increment ops now k o' s = (Inr r, s1) \<Longrightarrow> counted s r \<Longrightarrow>
       usage (snd (op_decrement ops now k (Some (matchingDecrementOptions (opt_cost o'))) s1)) now k = usage s now k"
    and allowed_counted: "\<not> isBlocked r \<Longrightarrow> counted s r"
begin

text \<open>What the loop did to the heap: each asked slot holds its store after the increment.\<close>

definition asked :: "clock \<Rightarrow> key \<Rightarrow> inc_opts option \<Rightarrow> (nat \<Rightarrow> 's) \<Rightarrow> (nat \<Rightarrow> 's) \<Rightarrow> grouped_slot \<Rightarrow> rl_result \<Rightarrow> bool" where
  "asked ck k incOpts h h' g r \<longleftrightarrow>
     op_increment ops (ck_now ck) k (slot_inc_opts g incOpts) (h (gw_store g)) = (Inr r, h' (gw_store g))"

lemma heap_increment_answers:
  assumes "inv (en_heap en i)"
  obtains r en1 where "heap_increment ops ck i k o' en = (Inr r, en1)"
    "op_increment ops (ck_now ck) k o' (en_heap en i) = (Inr r, en_heap en1 i)"
    "\<And>j. j \<noteq> i \<Longrightarrow> en_heap en1 j = en_heap en j"
proof -
  obtain r s' where "op_increment ops (ck_now ck) k o' (en_heap en i) = (Inr r, s')"
    using increment_answers [OF assms] by blast
  then show ?thesis
    by (intro that [of r "with_metrics (recordStoreLatency (ck_storeEnd ck) (ck_storeStart ck)) (en\<lparr>en_heap := (en_heap en)(i := s')\<rparr>)"])
      (auto simp: heap_increment_def with_metrics_def)
qed

lemma grouped_loop_asked:
  assumes "distinct (map gw_store gs)" "\<forall>g \<in> set gs. inv (en_heap en (gw_store g))"
    and "grouped_loop ops ck k incOpts gs results en = (res, results', en')"
  shows "\<exists>new b. results' = results @ new \<and> res = Inr b \<and>
    list_all2 (asked ck k incOpts (en_heap en) (en_heap en')) (take (length new) gs) new \<and>
    (\<forall>i. i \<notin> gw_store ` set (take (length new) gs) \<longrightarrow> en_heap en' i = en_heap en i) \<and>
    (case b of
       None \<Rightarrow> length new = length gs \<and> list_all (\<lambda>r. \<not> isBlocked r) new
     | Some i \<Rightarrow> new \<noteq> [] \<and> i = length results + (length new - 1) \<and> length new \<le> length gs \<and>
         isBlocked (last new) \<and> list_all (\<lambda>r. \<not> isBlocked r) (butlast new))"
  using assms
proof (induction gs arbitrary: results en)
  case (Cons g gs)
  obtain r en1 where inc: "heap_increment ops ck (gw_store g) k (slot_inc_opts g incOpts) en = (Inr r, en1)"
    and op: "op_increment ops (ck_now ck) k (slot_inc_opts g incOpts) (en_heap en (gw_store g)) = (Inr r, en_heap en1 (gw_store g))"
    and other: "\<And>j. j \<noteq> gw_store g \<Longrightarrow> en_heap en1 j = en_heap en j"
    using heap_increment_answers [of en "gw_store g" ck k "slot_inc_opts g incOpts"] Cons.prems(2)
    by (metis list.set_intros(1))
  show ?case
  proof (cases "isBlocked r")
    case True
    then have "results' = results @ [r]" "res = Inr (Some (length results))" "en' = en1"
      using Cons.prems(3) inc by auto
    then show ?thesis using op other True by (intro exI [of _ "[r]"]) (auto simp: asked_def)
  next
    case False
    have g: "gw_store g \<notin> gw_store ` set gs" using Cons.prems(1) by auto
    have "\<forall>g' \<in> set gs. inv (en_heap en1 (gw_store g'))"
      using Cons.prems(2) g other by (auto simp: image_iff)
    moreover have "grouped_loop ops ck k incOpts gs (results @ [r]) en1 = (res, results', en')"
      using Cons.prems(3) inc False by simp
    ultimately obtain new b where new: "results' = (results @ [r]) @ new" "res = Inr b"
      "list_all2 (asked ck k incOpts (en_heap en1) (en_heap en')) (take (length new) gs) new"
      "\<forall>i. i \<notin> gw_store ` set (take (length new) gs) \<longrightarrow> en_heap en' i = en_heap en1 i"
      "case b of
         None \<Rightarrow> length new = length gs \<and> list_all (\<lambda>r. \<not> isBlocked r) new
       | Some i \<Rightarrow> new \<noteq> [] \<and> i = length (results @ [r]) + (length new - 1) \<and> length new \<le> length gs \<and>
           isBlocked (last new) \<and> list_all (\<lambda>r. \<not> isBlocked r) (butlast new)"
      using Cons.IH [of en1 "results @ [r]"] Cons.prems(1) by auto
    have g': "gw_store g \<notin> gw_store ` set (take (length new) gs)" using g by (auto dest: in_set_takeD)
    have "list_all2 (asked ck k incOpts (en_heap en) (en_heap en')) (take (length new) gs) new"
      using new(3)
    proof (rule list.rel_mono_strong)
      fix g2 r2 assume "g2 \<in> set (take (length new) gs)" "asked ck k incOpts (en_heap en1) (en_heap en') g2 r2"
      then show "asked ck k incOpts (en_heap en) (en_heap en') g2 r2"
        using other [of "gw_store g2"] g' by (auto simp: asked_def image_iff)
    qed
    moreover have "asked ck k incOpts (en_heap en) (en_heap en') g r" using op new(4) g' by (simp add: asked_def)
    moreover have "\<forall>i. i \<notin> gw_store ` set (take (length (r # new)) (g # gs)) \<longrightarrow> en_heap en' i = en_heap en i"
      using new(4) other by auto
    ultimately show ?thesis using new False
      by (intro exI [of _ "r # new"] exI [of _ b]) (auto split: option.splits)
  qed
next
  case Nil
  then show ?case by (intro exI [of _ "[]"] exI [of _ None]) auto
qed

lemma rollback_slots_heap:
  assumes "distinct (map gw_store gs)"
  shows "en_heap (rollback_slots ops now k d gs en) i =
    (if i \<in> gw_store ` set gs then snd (op_decrement ops now k (Some d) (en_heap en i)) else en_heap en i)"
  using assms
proof (induction gs arbitrary: en)
  case (Cons g gs)
  have "rollback_slots ops now k d (g # gs) en = rollback_slots ops now k d gs (heap_decrement ops now k d (gw_store g) en)"
    by (simp add: rollback_slots_def)
  then show ?case using Cons by (auto simp: heap_decrement_def)
qed (simp add: rollback_slots_def)

lemma undo_asked:
  assumes "inv (h (gw_store g))" "asked ck k incOpts h h' g r" "counted (h (gw_store g)) r"
  shows "usage (snd (op_decrement ops (ck_now ck) k (Some (matchingDecrementOptions (opt_cost incOpts))) (h' (gw_store g)))) (ck_now ck) k =
    usage (h (gw_store g)) (ck_now ck) k"
proof -
  have "opt_cost (slot_inc_opts g incOpts) = opt_cost incOpts" by (simp add: slot_inc_opts_def)
  with plain_undo [OF assms(1) assms(2) [unfolded asked_def] assms(3)] show ?thesis by simp
qed

text \<open>Rolling back any prefix of the asked slots whose increments were counted.\<close>

lemma rollback_asked:
  assumes d: "distinct (map gw_store gs)" and inv: "\<forall>g \<in> set gs. inv (h (gw_store g))"
    and asked: "list_all2 (asked ck k incOpts h (en_heap en)) (take n gs) new"
    and n: "n = length new" "n \<le> length gs" "m \<le> n" and counted: "\<forall>j < m. counted (h (gw_store (gs ! j))) (new ! j)"
    and j: "j < m"
  shows "usage (en_heap (rollback_slots ops (ck_now ck) k (matchingDecrementOptions (opt_cost incOpts)) (take m gs) en) (gw_store (gs ! j)))
      (ck_now ck) k = usage (h (gw_store (gs ! j))) (ck_now ck) k"
proof -
  have "gs ! j \<in> set (take m gs)" using j n by (auto simp: in_set_conv_nth intro!: exI [of _ j])
  moreover have "distinct (map gw_store (take m gs))" using d by (simp add: take_map [symmetric])
  moreover have "asked ck k incOpts h (en_heap en) (gs ! j) (new ! j)"
    using list_all2_nthD [OF asked, of j] j n by simp
  moreover have "gs ! j \<in> set gs" using j n by simp
  ultimately show ?thesis using undo_asked inv counted j by (simp add: rollback_slots_heap)
qed

lemma rollback_restores:
  assumes d: "distinct (map gw_store gs)" and inv: "\<forall>g \<in> set gs. inv (h (gw_store g))"
    and asked: "list_all2 (asked ck k incOpts h (en_heap en)) (take n gs) new"
    and n: "n = length new" "n \<le> length gs" "m \<le> n" and counted: "\<forall>j < m. counted (h (gw_store (gs ! j))) (new ! j)"
    and others: "\<forall>i. i \<notin> gw_store ` set (take n gs) \<longrightarrow> en_heap en i = h i"
    and j: "j < length gs" "j < m \<or> n \<le> j"
  shows "usage (en_heap (rollback_slots ops (ck_now ck) k (matchingDecrementOptions (opt_cost incOpts)) (take m gs) en) (gw_store (gs ! j)))
      (ck_now ck) k = usage (h (gw_store (gs ! j))) (ck_now ck) k"
proof (cases "j < m")
  case True
  then show ?thesis by (rule rollback_asked [OF d inv asked n counted])
next
  case False
  then have "n \<le> j" using j by simp
  have "gw_store (gs ! j) \<notin> gw_store ` set (take n gs)"
  proof
    assume "gw_store (gs ! j) \<in> gw_store ` set (take n gs)"
    then obtain l where "l < n" "l < length gs" "gw_store (gs ! l) = gw_store (gs ! j)"
      by (auto simp: in_set_conv_nth)
    then show False using j \<open>n \<le> j\<close> nth_eq_iff_index_eq [OF d, of l j] by simp
  qed
  moreover from this have "gw_store (gs ! j) \<notin> gw_store ` set (take m gs)"
    using set_take_subset_set_take [OF n(3), of gs] by auto
  moreover have "distinct (map gw_store (take m gs))" using d by (simp add: take_map [symmetric])
  ultimately show ?thesis using others by (simp add: rollback_slots_heap)
qed

text \<open>All or nothing: outside draft mode a blocked consume leaves every other slot's usage as it was.\<close>

lemma grouped_all_or_nothing:
  assumes d: "distinct (map gw_store (eo_grouped eo))" and inv: "\<forall>g \<in> set (eo_grouped eo). inv (en_heap en (gw_store g))"
    and run: "consumeGroupedWindows ops eo ck k incOpts en = (res, en')"
  shows "\<exists>r b slot. res = Inr (r, b, slot) \<and>
    (case b of
       None \<Rightarrow> \<exists>rs. length rs = length (eo_grouped eo) \<and> list_all (\<lambda>r. \<not> isBlocked r) rs \<and>
         list_all2 (asked ck k incOpts (en_heap en) (en_heap en')) (eo_grouped eo) rs
     | Some i \<Rightarrow> i < length (eo_grouped eo) \<and>
         (\<exists>x s'. op_increment ops (ck_now ck) k (slot_inc_opts (eo_grouped eo ! i) incOpts) (en_heap en (gw_store (eo_grouped eo ! i))) =
            (Inr x, s') \<and> isBlocked x) \<and>
         (\<not> eo_draft eo \<longrightarrow> (\<forall>j < length (eo_grouped eo). j \<noteq> i \<longrightarrow>
            usage (en_heap en' (gw_store (eo_grouped eo ! j))) (ck_now ck) k =
            usage (en_heap en (gw_store (eo_grouped eo ! j))) (ck_now ck) k)))"
proof -
  let ?gs = "eo_grouped eo" and ?now = "ck_now ck" and ?d = "matchingDecrementOptions (opt_cost incOpts)"
  obtain q results en1 where loop: "grouped_loop ops ck k incOpts ?gs [] en = (q, results, en1)"
    using prod_cases3 by blast
  obtain b where
    q: "q = Inr b" and asked: "list_all2 (asked ck k incOpts (en_heap en) (en_heap en1)) (take (length results) ?gs) results"
    and others: "\<forall>i. i \<notin> gw_store ` set (take (length results) ?gs) \<longrightarrow> en_heap en1 i = en_heap en i"
    and b: "case b of None \<Rightarrow> length results = length ?gs \<and> list_all (\<lambda>r. \<not> isBlocked r) results
       | Some i \<Rightarrow> results \<noteq> [] \<and> i = length results - 1 \<and> length results \<le> length ?gs \<and>
           isBlocked (last results) \<and> list_all (\<lambda>r. \<not> isBlocked r) (butlast results)"
    using grouped_loop_asked [OF d inv loop] unfolding list.size(3) add_0 append_Nil by blast
  show ?thesis
  proof (cases b)
    case None
    then show ?thesis using run b asked by (auto simp: consumeGroupedWindows_def Let_def loop q)
  next
    case (Some i)
    then have b': "results \<noteq> []" "i = length results - 1" "length results \<le> length ?gs"
      "isBlocked (last results)" "list_all (\<lambda>r. \<not> isBlocked r) (butlast results)"
      using b by simp_all
    then have len: "length results = Suc i" by (cases results) simp_all
    have i: "i < length ?gs" "length results = Suc i" "isBlocked (results ! i)"
      "\<And>j. j < i \<Longrightarrow> \<not> isBlocked (results ! j)"
      using len b'(1,3-5) by (simp_all add: last_conv_nth list_all_length nth_butlast)
    have r: "res = Inr (mergeGroupedResults ?now results, Some i, computeBindingSlotIndex results)"
      using run by (auto simp: consumeGroupedWindows_def Let_def loop q Some)
    have "asked ck k incOpts (en_heap en) (en_heap en1) (?gs ! i) (results ! i)"
      using list_all2_nthD [OF asked, of i] i by simp
    then have blk: "\<exists>x s'. op_increment ops ?now k (slot_inc_opts (?gs ! i) incOpts) (en_heap en (gw_store (?gs ! i))) =
        (Inr x, s') \<and> isBlocked x"
      using i(3) by (auto simp: asked_def)
    have "usage (en_heap en' (gw_store (?gs ! j))) ?now k = usage (en_heap en (gw_store (?gs ! j))) ?now k"
      if "\<not> eo_draft eo" "j < length ?gs" "j \<noteq> i" for j
    proof -
      have en': "en' = rollback_slots ops ?now k ?d (take i ?gs) en1"
        using run that(1) by (auto simp: consumeGroupedWindows_def Let_def loop q Some)
      show ?thesis unfolding en'
        by (rule rollback_restores [OF d inv asked refl])
          (use i that others allowed_counted in \<open>auto simp: Suc_le_eq\<close>)
    qed
    then show ?thesis using r i(1) blk by (intro exI [of _ "mergeGroupedResults ?now results"]) auto
  qed
qed

text \<open>In draft mode the slots up to the one that would have blocked are rolled back by the caller.\<close>

lemma draft_grouped_undone:
  assumes d: "distinct (map gw_store (eo_grouped eo))" and inv: "\<forall>g \<in> set (eo_grouped eo). inv (en_heap en (gw_store g))"
    and counted: "\<forall>g \<in> set (eo_grouped eo). \<forall>r. counted (en_heap en (gw_store g)) r"
    and win: "isWindowOpts eo" "eo_grouped eo \<noteq> []" "eo_draft eo"
    and run: "consumeGroupedWindows ops eo ck k incOpts en = (Inr (r, b, slot), en1)"
    and r: "isBlocked r" "\<not> storeUnavailable r"
    and undo: "draft_rollback ops dm eo ck k (matchingDecrementOptions (opt_cost incOpts)) r b en2 = (res, en3)"
    and same: "en_heap en2 = en_heap en1"
    and j: "j < length (eo_grouped eo)"
  shows "usage (en_heap en3 (gw_store (eo_grouped eo ! j))) (ck_now ck) k = usage (en_heap en (gw_store (eo_grouped eo ! j))) (ck_now ck) k"
proof -
  let ?gs = "eo_grouped eo" and ?d = "matchingDecrementOptions (opt_cost incOpts)"
  obtain q results en0 where loop: "grouped_loop ops ck k incOpts ?gs [] en = (q, results, en0)"
    using prod_cases3 by blast
  obtain b' where q: "q = Inr b'"
    and asked: "list_all2 (asked ck k incOpts (en_heap en) (en_heap en0)) (take (length results) ?gs) results"
    and others: "\<forall>i. i \<notin> gw_store ` set (take (length results) ?gs) \<longrightarrow> en_heap en0 i = en_heap en i"
    and b': "case b' of None \<Rightarrow> length results = length ?gs \<and> list_all (\<lambda>r. \<not> isBlocked r) results
       | Some i \<Rightarrow> results \<noteq> [] \<and> i = length results - 1 \<and> length results \<le> length ?gs \<and>
           isBlocked (last results) \<and> list_all (\<lambda>r. \<not> isBlocked r) (butlast results)"
    using grouped_loop_asked [OF d inv loop] unfolding list.size(3) add_0 append_Nil by blast
  have merged: "r = mergeGroupedResults (ck_now ck) results" "b = b'"
    using run by (auto simp: consumeGroupedWindows_def Let_def loop q split: option.splits)
  have avail: "\<not> storeUnavailable x" if "x \<in> set results" for x
    using r(2) that unfolding merged mergeGroupedResults_def
    by (auto split: list.splits option.splits if_splits simp: find_None_iff find_Some_iff)
  have "b' \<noteq> None"
  proof
    assume "b' = None"
    then have "list_all (\<lambda>r. \<not> isBlocked r) results" using b' by simp
    then show False using r(1) avail unfolding merged mergeGroupedResults_def
      by (auto split: list.splits option.splits if_splits simp: find_None_iff find_Some_iff list_all_iff)
  qed
  then obtain i where i: "b' = Some i" "results \<noteq> []" "i = length results - 1" "length results \<le> length ?gs"
    using b' by (cases b') auto
  then have len: "Suc i = length results" by (cases results) simp_all
  have "en1 = en0"
    using run win avail [of "last results"] i(2) by (auto simp: consumeGroupedWindows_def Let_def loop q i(1))
  with undo win same have "en3 = rollback_slots ops (ck_now ck) k ?d (take (length results) ?gs) en2" "en_heap en2 = en_heap en0"
    by (auto simp: draft_rollback_def merged(2) i(1) len)
  then show ?thesis
    using rollback_restores [of ?gs "en_heap en" ck k incOpts en2 "length results" results "length results" j]
      d inv asked others i(4) counted j le_less_linear [of "length results" j] by auto
qed

end

text \<open>The in-memory store keeps this contract: only a blocked increment of a token bucket counts nothing.\<close>

interpretation mem_undo: undo_store mem_ops mem_inv mem_usage "\<lambda>s r. \<not> isBlocked r \<or> ms_strategy s \<noteq> TOKEN_BUCKET"
proof unfold_locales
  fix s now k o' r s1
  assume "mem_inv s" "op_increment mem_ops now k o' s = (Inr r, s1)" "\<not> isBlocked r \<or> ms_strategy s \<noteq> TOKEN_BUCKET"
  then show "mem_usage (snd (op_decrement mem_ops now k (Some (matchingDecrementOptions (opt_cost o'))) s1)) now k = mem_usage s now k"
    by (auto simp: mem_ops_def matchingDecrementOptions_def eff_cost_def sanitizeIncrementCost_twice
        split: prod.splits intro!: mem_rollback_usage)
qed simp

text \<open>(C28) Grouped windows, over in-memory stores behind distinct handles and outside draft mode: either every
  slot counted the request and none of them blocked, or one slot's increment blocked and, at the time of
  the call, the usage of the key in every other slot is what it was before. Later it need not be: a
  sliding window gives back its oldest hits and keeps the new stamps (\<open>grouped_rollback_keeps_rejected_stamp\<close>).\<close>

theorem grouped_windows_roll_back:
  assumes d: "distinct (map gw_store (eo_grouped eo))" and inv: "\<forall>g \<in> set (eo_grouped eo). mem_inv (en_heap en (gw_store g))"
    and live: "\<not> eo_draft eo" and run: "consumeGroupedWindows mem_ops eo ck k incOpts en = (res, en')"
  shows "\<exists>r b slot. res = Inr (r, b, slot) \<and>
    (case b of
       None \<Rightarrow> \<exists>rs. list_all2 (\<lambda>g r. \<not> isBlocked r \<and>
           mem_increment (ck_now ck) k (slot_inc_opts g incOpts) (en_heap en (gw_store g)) = (r, en_heap en' (gw_store g)))
         (eo_grouped eo) rs
     | Some i \<Rightarrow> i < length (eo_grouped eo) \<and>
         isBlocked (fst (mem_increment (ck_now ck) k (slot_inc_opts (eo_grouped eo ! i) incOpts) (en_heap en (gw_store (eo_grouped eo ! i))))) \<and>
         (\<forall>j < length (eo_grouped eo). j \<noteq> i \<longrightarrow>
            mem_usage (en_heap en' (gw_store (eo_grouped eo ! j))) (ck_now ck) k =
            mem_usage (en_heap en (gw_store (eo_grouped eo ! j))) (ck_now ck) k))"
proof -
  obtain r b slot where res: "res = Inr (r, b, slot)" and cases: "case b of
       None \<Rightarrow> \<exists>rs. length rs = length (eo_grouped eo) \<and> list_all (\<lambda>r. \<not> isBlocked r) rs \<and>
         list_all2 (mem_undo.asked ck k incOpts (en_heap en) (en_heap en')) (eo_grouped eo) rs
     | Some i \<Rightarrow> i < length (eo_grouped eo) \<and>
         (\<exists>x s'. op_increment mem_ops (ck_now ck) k (slot_inc_opts (eo_grouped eo ! i) incOpts)
            (en_heap en (gw_store (eo_grouped eo ! i))) = (Inr x, s') \<and> isBlocked x) \<and>
         (\<not> eo_draft eo \<longrightarrow> (\<forall>j < length (eo_grouped eo). j \<noteq> i \<longrightarrow>
            mem_usage (en_heap en' (gw_store (eo_grouped eo ! j))) (ck_now ck) k =
            mem_usage (en_heap en (gw_store (eo_grouped eo ! j))) (ck_now ck) k))"
    using mem_undo.grouped_all_or_nothing [OF d inv run] by blast
  show ?thesis
  proof (cases b)
    case None
    then obtain rs where "length rs = length (eo_grouped eo)" "list_all (\<lambda>r. \<not> isBlocked r) rs"
      "list_all2 (mem_undo.asked ck k incOpts (en_heap en) (en_heap en')) (eo_grouped eo) rs"
      using cases by auto
    then have "list_all2 (\<lambda>g r. \<not> isBlocked r \<and>
        mem_increment (ck_now ck) k (slot_inc_opts g incOpts) (en_heap en (gw_store g)) = (r, en_heap en' (gw_store g)))
      (eo_grouped eo) rs"
      unfolding mem_undo.asked_def list_all2_conv_all_nth list_all_length
      by (auto simp: mem_ops_def case_prod_beta prod_eq_iff)
    with res None show ?thesis by auto
  next
    case (Some i)
    with res cases live show ?thesis by (auto simp: mem_ops_def split: prod.splits)
  qed
qed

lemma draft_checked:
  fixes en en' :: "('s, 'k, 'q) engine"
  assumes "consumeWithKey ops dm kmo eo ck k req en = (Inr out, en')" and "cr_draftWouldBlock out"
  obtains en2 en3 en4 :: "('s, 'k, 'q) engine" and r b slot where "en_heap en2 = en_heap en" "en_violations en2 = en_violations en"
    "store_phase ops eo ck k (resolveIncrementOpts eo req) en2 = (Inr (r, b, slot), en3)"
    "isBlocked r" "eo_draft eo" "\<not> storeUnavailable r" "out = draft_result r slot"
    "draft_rollback ops dm eo ck k (matchingDecrementOptions (opt_cost (resolveIncrementOpts eo req))) r b
       (maybeOnLayerBlocks eo req r en3) = (Inr (), en4)"
    "en_heap en' = en_heap en4" "en_violations en' = en_violations en4"
proof (cases rule: consume_cases [where eo = eo and req = req and k = k and kmo = kmo and now = "ck_now ck" and en = en])
  case 1
  then show ?thesis using assms by (auto simp: consume_skip buildPassthroughResult_def)
next
  case 2
  then show ?thesis using assms by (auto simp: consume_allow buildPassthroughResult_def)
next
  case 3
  then show ?thesis using assms by (auto simp: consume_blocklist Let_def buildPolicyBlockResult_def)
next
  case (4 en1)
  obtain out' en2 where o': "buildKeyManagerBlockResult eo kmo (ck_now ck) k req en1 = (out', en2)" by fastforce
  show ?thesis using assms o'
    by (auto simp: consume_km [OF 4] buildKeyManagerBlockResult_def split: option.splits prod.splits)
next
  case (5 en1 en2)
  then show ?thesis using assms by (auto simp: consume_penalty [OF 5] buildPolicyBlockResult_def)
next
  case (6 en1 en2)
  note f = km_check_frame [OF 6(4)] isPenaltyActive_frame [OF 6(5)]
  obtain x en3 where sp: "store_phase ops eo ck k (resolveIncrementOpts eo req) en2 = (Inr x, en3)"
    and fin: "finish_consume ops dm eo ck k req (resolveIncrementOpts eo req) x en3 = (Inr out, en')"
    using consume_checked [OF 6 assms(1)] .
  obtain r b slot where x: "x = (r, b, slot)" by (cases x)
  have draft: "isBlocked r" "eo_draft eo" "\<not> storeUnavailable r"
    using fin assms(2) by (auto simp: x finish_consume_def Let_def split: if_splits)
  obtain res en4 where dr: "draft_rollback ops dm eo ck k (matchingDecrementOptions (opt_cost (resolveIncrementOpts eo req))) r b
      (maybeOnLayerBlocks eo req r en3) = (res, en4)" by fastforce
  note fin' = fin [unfolded x finish_draft [OF draft dr]]
  show ?thesis
    by (rule that [of en2 r b slot en3 en4])
      (use 6 f sp x draft dr fin' in \<open>auto split: sum.splits if_splits simp: en_emit_def\<close>)
qed

lemma layer_blocks_frame [simp]:
  "en_heap (maybeOnLayerBlocks eo req r en) = en_heap en" "en_violations (maybeOnLayerBlocks eo req r en) = en_violations en"
proof -
  have "en_heap (fold (\<lambda>(lb, row) en. if P lb row then en_emit (f lb row) en else en) rows en) = en_heap en \<and>
      en_violations (fold (\<lambda>(lb, row) en. if P lb row then en_emit (f lb row) en else en) rows en) = en_violations en"
    for P and f :: "string \<Rightarrow> layer_row \<Rightarrow> 'c engine_event" and rows
    by (induction rows arbitrary: en) (auto simp: en_emit_def)
  then show "en_heap (maybeOnLayerBlocks eo req r en) = en_heap en"
    "en_violations (maybeOnLayerBlocks eo req r en) = en_violations en"
    by (simp_all add: maybeOnLayerBlocks_def split: option.split)
qed

text \<open>The stores a consume may touch.\<close>

definition engine_handles :: "'q engine_options \<Rightarrow> nat list" where
  "engine_handles eo = (if isWindowOpts eo \<and> eo_grouped eo \<noteq> [] then map gw_store (eo_grouped eo) else [eo_store eo])"

text \<open>Draft mode leaves no trace: over in-memory window stores behind distinct handles, a request
  that would have been blocked is answered as allowed and flagged \<open>draftWouldBlock\<close>, records no violation
  of the penalty box, and the usage of its key in every store of the engine is what it was before.\<close>

theorem draft_leaves_no_trace:
  assumes d: "distinct (engine_handles eo)"
    and stores: "\<forall>i \<in> set (engine_handles eo). mem_inv (en_heap en i) \<and> ms_strategy (en_heap en i) \<noteq> TOKEN_BUCKET"
    and run: "consumeWithKey mem_ops None kmo eo ck k req en = (Inr out, en')" and "cr_draftWouldBlock out"
  shows "\<not> isBlocked out \<and> cr_blockReason out = None \<and> en_violations en' = en_violations en \<and>
    (\<forall>i \<in> set (engine_handles eo). mem_usage (en_heap en' i) (ck_now ck) k = mem_usage (en_heap en i) (ck_now ck) k)"
proof -
  let ?o = "resolveIncrementOpts eo req"
  let ?d = "matchingDecrementOptions (opt_cost ?o)"
  obtain en2 en3 en4 :: "(mem_store, 'b, 'a) engine" and r b slot where en2: "en_heap en2 = en_heap en" "en_violations en2 = en_violations en"
    and sp: "store_phase mem_ops eo ck k ?o en2 = (Inr (r, b, slot), en3)"
    and r: "isBlocked r" "eo_draft eo" "\<not> storeUnavailable r" and out: "out = draft_result r slot"
    and dr: "draft_rollback mem_ops None eo ck k ?d r b (maybeOnLayerBlocks eo req r en3) = (Inr (), en4)"
    and en': "en_heap en' = en_heap en4" "en_violations en' = en_violations en4"
    using draft_checked [OF run assms(4)] .
  have viol: "en_violations en4 = en_violations en"
    using store_phase_policy [of mem_ops eo ck k ?o en2] draft_rollback_policy [of mem_ops None eo ck k ?d r b "maybeOnLayerBlocks eo req r en3"]
      sp dr en2 by (simp add: en_policy_state_def)
  have "mem_usage (en_heap en4 i) (ck_now ck) k = mem_usage (en_heap en i) (ck_now ck) k" if i: "i \<in> set (engine_handles eo)" for i
  proof (cases "isWindowOpts eo \<and> eo_grouped eo \<noteq> []")
    case True
    then obtain j where j: "j < length (eo_grouped eo)" "i = gw_store (eo_grouped eo ! j)"
      using i by (auto simp: engine_handles_def in_set_conv_nth)
    show ?thesis unfolding j(2) en2(1) [symmetric]
      by (rule mem_undo.draft_grouped_undone [OF _ _ _ _ _ r(2) _ r(1) r(3) dr _ j(1)])
        (use True sp d stores en2(1) in \<open>auto simp: engine_handles_def store_phase_def\<close>)
  next
    case False
    then have i': "i = eo_store eo" using i by (auto simp: engine_handles_def)
    obtain s1 where inc: "mem_increment (ck_now ck) k ?o (en_heap en i) = (r, s1)" and en3: "en_heap en3 i = s1"
      using sp False en2(1)
      by (auto simp: store_phase_def heap_increment_def mem_ops_def with_metrics_def i' split: prod.splits if_splits)
    have "en_heap en4 i = mem_decrement k (Some ?d) s1"
      using dr False en3 by (auto simp: draft_rollback_def heap_decrement_def mem_ops_def i' split: if_splits)
    then show ?thesis
      using mem_rollback_usage [OF _ inc, of "Some ?d"] stores i
      by (simp add: matchingDecrementOptions_def eff_cost_def sanitizeIncrementCost_twice)
  qed
  then show ?thesis by (simp add: out en' viol)
qed


section \<open>A concrete engine for the witnesses\<close>

definition demo_slots :: "grouped_slot list" where
  "demo_slots = [\<lparr>gw_windowMs = 1000, gw_maxRequests = 5, gw_store = 0\<rparr>, \<lparr>gw_windowMs = 2000, gw_maxRequests = 1, gw_store = 1\<rparr>]"

definition demo_options :: "strategy \<Rightarrow> grouped_slot list \<Rightarrow> bool \<Rightarrow> unit engine_options" where
  "demo_options strat gs draft =
     \<lparr>eo_strategy = strat, eo_bucketSize = 2, eo_limits = [], eo_grouped = gs, eo_maxRequests = MaxNumber (js_int 1),
      eo_incrementCost = None, eo_store = 1, eo_storeIsComposed = False, eo_skip = (\<lambda>_. False),
      eo_allowlist = [''vip''], eo_blocklist = [''bad''],
      eo_penaltyBox = Some \<lparr>pb_violationsThreshold = js_int 1, pb_violationWindowMs = Undefined, pb_penaltyDurationMs = js_int 5000,
        pb_onPenalty = True\<rparr>,
      eo_draft = draft, eo_onDraftViolation = False, eo_onLimitReached = True, eo_onLayerBlock = False\<rparr>"

definition demo_engine_heap :: "nat \<Rightarrow> mem_store" where
  "demo_engine_heap i =
     (if i = 2 then new_MemoryStore (TokenBucketOptions 1 1000 2) None None
      else new_MemoryStore (WindowOptions SLIDING_WINDOW (js_int (if i = 0 then 1000 else 2000)) (js_int (if i = 0 then 5 else 1))) None None)"

definition demo_clock :: "time \<Rightarrow> clock" where
  "demo_clock t = \<lparr>ck_now = t, ck_start = 0, ck_storeStart = 1, ck_storeEnd = 2, ck_end = 3\<rparr>"

type_synonym demo_engine = "(mem_store, (mem_store, memory_block_store) key_manager, unit) engine"

definition demo_engine :: demo_engine where
  "demo_engine = new_RateLimitEngine True (Some demo_km) demo_engine_heap"

definition demo_consume :: "unit engine_options \<Rightarrow> time \<Rightarrow> key \<Rightarrow> demo_engine \<Rightarrow> (string + consume_result) \<times> demo_engine" where
  "demo_consume eo t k en = consumeWithKey mem_ops None (key_manager_methods mem_ops) eo (demo_clock t) k () en"

lemma demo_engine_heap_inv: "mem_inv (demo_engine_heap i)"
  unfolding demo_engine_heap_def by (auto intro!: new_MemoryStore_inv simp: options_ok_def)

lemma demo_engine_simps [simp]: "en_heap demo_engine = demo_engine_heap" "en_penaltyUntil demo_engine = []"
  "en_violations demo_engine = []"
  by (simp_all add: demo_engine_def new_RateLimitEngine_def)

theorem engine_policy_order_witness:
  "\<exists>out. fst (demo_consume (demo_options FIXED_WINDOW [] False) 0 ''bad'' demo_engine) = Inr out \<and> isBlocked out \<and>
     cr_blockReason out = Some CauseBlocklist"
proof -
  let ?eo = "demo_options FIXED_WINDOW [] False"
  obtain res en' where run: "consumeWithKey mem_ops None (key_manager_methods mem_ops) ?eo (demo_clock 0) ''bad'' () demo_engine = (res, en')"
    by fastforce
  have "policy (key_manager_methods mem_ops) ?eo (ck_now (demo_clock 0)) ''bad'' () demo_engine = PolicyDeny CauseBlocklist"
    by (simp add: policy_def demo_options_def)
  with engine_policy_order [OF _ run] run show ?thesis by (auto simp: demo_consume_def)
qed

text \<open>One request takes the quota of a fixed window of one; the next is over it and starts the penalty.\<close>

theorem penalty_box_enforced_witness:
  "let en' = snd (demo_consume (demo_options SLIDING_WINDOW [] False) 10 ''k''
       (snd (demo_consume (demo_options SLIDING_WINDOW [] False) 0 ''k'' demo_engine)))
   in penalty_active 5009 ''k'' en' \<and> \<not> penalty_active 5010 ''k'' en'"
proof -
  let ?eo = "demo_options SLIDING_WINDOW [] False"
    and ?cfg = "\<lparr>pb_violationsThreshold = js_int 1, pb_violationWindowMs = Undefined, pb_penaltyDurationMs = js_int 5000,
        pb_onPenalty = True\<rparr>"
  define en where "en = snd (demo_consume ?eo 0 ''k'' demo_engine)"
  have "case demo_consume ?eo 10 ''k'' en of (Inr out, _) \<Rightarrow> cr_blockReason out = Some CauseRateLimit | _ \<Rightarrow> False"
    unfolding en_def by code_simp
  then obtain out en' where run: "consumeWithKey mem_ops None (key_manager_methods mem_ops) ?eo (demo_clock 10) ''k'' () en = (Inr out, en')"
    and out: "cr_blockReason out = Some CauseRateLimit"
    by (auto simp: demo_consume_def split: prod.splits sum.splits)
  have pre: "jsmap_ok (en_penaltyUntil en)" "jsmap_ok (en_violations en)" unfolding en_def by code_simp+
  have cfg: "eo_penaltyBox ?eo = Some ?cfg" by (simp add: demo_options_def)
  have n: "sanitizeRateLimitCap (pb_violationsThreshold ?cfg) 1 = 1" "sanitizePenaltyDurationMs (pb_penaltyDurationMs ?cfg) 60000 = 5000"
    "violation_count ?cfg 10 ''k'' en = 0" "ck_now (demo_clock 10) = 10" unfolding en_def by code_simp+
  show ?thesis
    using penalty_box_enforced [OF pre cfg run out, of 5009] penalty_box_enforced [OF pre cfg run out, of 5010] run
    unfolding Let_def n en_def [symmetric] by (simp add: demo_consume_def)
qed

theorem grouped_windows_roll_back_witness:
  "\<exists>r slot en'. consumeGroupedWindows mem_ops (demo_options SLIDING_WINDOW demo_slots False) (demo_clock 500) ''k'' None
      (snd (demo_consume (demo_options SLIDING_WINDOW demo_slots False) 0 ''k'' demo_engine)) = (Inr (r, Some 1, slot), en') \<and>
     mem_usage (en_heap en' 0) 500 ''k'' = 1"
proof -
  let ?eo = "demo_options SLIDING_WINDOW demo_slots False"
  define en where "en = snd (demo_consume ?eo 0 ''k'' demo_engine)"
  obtain res en' where run: "consumeGroupedWindows mem_ops ?eo (demo_clock 500) ''k'' None en = (res, en')" by fastforce
  have slots: "eo_grouped ?eo = demo_slots" "\<not> eo_draft ?eo" by (simp_all add: demo_options_def)
  have d: "distinct (map gw_store (eo_grouped ?eo))" by code_simp
  have inv: "\<forall>g \<in> set (eo_grouped ?eo). mem_inv (en_heap en (gw_store g))" unfolding en_def by code_simp
  have at: "case fst (consumeGroupedWindows mem_ops ?eo (demo_clock 500) ''k'' None en) of Inr (r, b, slot) \<Rightarrow> b = Some 1 | _ \<Rightarrow> False"
    unfolding en_def by code_simp
  have u: "mem_usage (en_heap en 0) 500 ''k'' = 1" unfolding en_def by code_simp
  from grouped_windows_roll_back [OF d inv slots(2) run] at run obtain r slot where res: "res = Inr (r, Some 1, slot)"
    and rest: "\<forall>j < length demo_slots. j \<noteq> 1 \<longrightarrow>
      mem_usage (en_heap en' (gw_store (demo_slots ! j))) 500 ''k'' = mem_usage (en_heap en (gw_store (demo_slots ! j))) 500 ''k''"
    by (auto simp: slots demo_clock_def)
  from rest [rule_format, of 0] have "mem_usage (en_heap en' 0) 500 ''k'' = 1" by (simp add: demo_slots_def u)
  with run res show ?thesis unfolding en_def by auto
qed

theorem draft_leaves_no_trace_witness:
  "\<exists>out en'. demo_consume (demo_options SLIDING_WINDOW [] True) 500 ''k''
      (snd (demo_consume (demo_options SLIDING_WINDOW [] True) 0 ''k'' demo_engine)) = (Inr out, en') \<and>
     cr_draftWouldBlock out \<and> \<not> isBlocked out \<and> mem_usage (en_heap en' 1) 500 ''k'' = 1"
proof -
  let ?eo = "demo_options SLIDING_WINDOW [] True"
  define en where "en = snd (demo_consume ?eo 0 ''k'' demo_engine)"
  have "case demo_consume ?eo 500 ''k'' en of (Inr out, _) \<Rightarrow> cr_draftWouldBlock out | _ \<Rightarrow> False"
    unfolding en_def by code_simp
  then obtain out en' where run: "consumeWithKey mem_ops None (key_manager_methods mem_ops) ?eo (demo_clock 500) ''k'' () en = (Inr out, en')"
    and out: "cr_draftWouldBlock out"
    by (auto simp: demo_consume_def split: prod.splits sum.splits)
  have h: "engine_handles ?eo = [1]" by code_simp
  have st: "mem_inv (en_heap en 1)" "ms_strategy (en_heap en 1) \<noteq> TOKEN_BUCKET" "mem_usage (en_heap en 1) 500 ''k'' = 1"
    unfolding en_def by code_simp+
  from draft_leaves_no_trace [OF _ _ run out] h st(1,2) have "\<not> isBlocked out \<and> mem_usage (en_heap en' 1) 500 ''k'' = 1"
    by (simp add: st(3) [simplified] demo_clock_def)
  with run out show ?thesis unfolding en_def by (auto simp: demo_consume_def)
qed

section \<open>Where the rollbacks fall short\<close>

text \<open>Draft mode over a token bucket: the rejected increment took no token, yet the rollback returns
  one, so the usage of an exhausted bucket drops from two to one and the next request is let through.\<close>

theorem draft_refunds_untaken_token:
  "let eo = (demo_options TOKEN_BUCKET [] True)\<lparr>eo_store := 2\<rparr>;
       en2 = snd (demo_consume eo 0 ''k'' (snd (demo_consume eo 0 ''k'' demo_engine)));
       (res, en3) = demo_consume eo 0 ''k'' en2
   in (case res of Inr out \<Rightarrow> cr_draftWouldBlock out | _ \<Rightarrow> False) \<and>
      mem_usage (en_heap en2 2) 0 ''k'' = 2 \<and> mem_usage (en_heap en3 2) 0 ''k'' = 1"
  by code_simp

text \<open>The rollback of a grouped sliding window removes the oldest stamp, not the one just added: the
  usage is right at once, but the rejected request still counts when the window has moved on.\<close>

theorem grouped_rollback_keeps_rejected_stamp:
  "let eo = demo_options SLIDING_WINDOW demo_slots False;
       en1 = snd (demo_consume eo 0 ''k'' demo_engine);
       (res, en2) = demo_consume eo 500 ''k'' en1
   in (case res of Inr out \<Rightarrow> isBlocked out | _ \<Rightarrow> False) \<and>
      mem_usage (en_heap en1 0) 1200 ''k'' = 0 \<and> mem_usage (en_heap en2 0) 1200 ''k'' = 1"
  by code_simp

text \<open>A slot answering \<open>storeUnavailable\<close> without blocking decides the merged result, although a
  later slot blocked: the request is let through.\<close>

theorem unavailable_answer_hides_block:
  "find storeUnavailable results = Some u \<Longrightarrow> \<not> isBlocked u \<Longrightarrow> r \<in> set results \<Longrightarrow> isBlocked r \<Longrightarrow>
   \<not> isBlocked (mergeGroupedResults now results)"
  by (cases results) (simp_all add: mergeGroupedResults_def)

end
