(* ===== verification/Redis_Server.thy ===== *)
theory Redis_Server
  imports Flex_Prelude
begin

text \<open>
  The Redis server as \<open>src/stores/redis-store.ts\<close> uses it. Redis is not part of the repository: the
  commands its scripts call are a table \<open>'r redis\<close> of functions on a server state of any type \<open>'r\<close>,
  and the locale \<open>redis_server\<close> states what the Redis documentation says of them, through the view
  \<open>look r t k\<close> of the live value and expiry of a key at time \<open>t\<close>. Numbers are integers; the order of
  sorted-set members with equal scores is left open. The last section has a server that satisfies
  the laws.
\<close>

section \<open>Values and commands\<close>

datatype redis_value =
    RZset "(int \<times> string) list"
  | RNum int
  | RHash "string \<Rightarrow> int option"

type_synonym redis_entry = "redis_value \<times> time option"

record 'r redis =
  rd_zremrangebyscore :: "time \<Rightarrow> key \<Rightarrow> int \<Rightarrow> 'r \<Rightarrow> 'r"
  rd_zadd :: "time \<Rightarrow> key \<Rightarrow> int \<Rightarrow> string \<Rightarrow> 'r \<Rightarrow> 'r"
  rd_zcard :: "time \<Rightarrow> key \<Rightarrow> 'r \<Rightarrow> int"
  rd_zcount :: "time \<Rightarrow> key \<Rightarrow> int \<Rightarrow> 'r \<Rightarrow> int"
  rd_zfirst :: "time \<Rightarrow> key \<Rightarrow> 'r \<Rightarrow> int option"
  rd_zpopmin :: "time \<Rightarrow> key \<Rightarrow> 'r \<Rightarrow> 'r"
  rd_zpopmax :: "time \<Rightarrow> key \<Rightarrow> 'r \<Rightarrow> 'r"
  rd_pexpire :: "time \<Rightarrow> key \<Rightarrow> int \<Rightarrow> 'r \<Rightarrow> 'r"
  rd_pexpireat :: "time \<Rightarrow> key \<Rightarrow> time \<Rightarrow> 'r \<Rightarrow> 'r"
  rd_pttl :: "time \<Rightarrow> key \<Rightarrow> 'r \<Rightarrow> int"
  rd_incrby :: "time \<Rightarrow> key \<Rightarrow> int \<Rightarrow> 'r \<Rightarrow> int \<times> 'r"
  rd_get :: "time \<Rightarrow> key \<Rightarrow> 'r \<Rightarrow> int option"
  rd_setpxat :: "time \<Rightarrow> key \<Rightarrow> int \<Rightarrow> time \<Rightarrow> 'r \<Rightarrow> 'r"
  rd_hget :: "time \<Rightarrow> key \<Rightarrow> string \<Rightarrow> 'r \<Rightarrow> int option"
  rd_hset :: "time \<Rightarrow> key \<Rightarrow> (string \<times> int) list \<Rightarrow> 'r \<Rightarrow> 'r"
  rd_del :: "time \<Rightarrow> key \<Rightarrow> 'r \<Rightarrow> bool \<times> 'r"

text \<open>A key seen as a sorted set, a number or a hash; \<open>None\<close> when it holds another type.\<close>

definition as_zset :: "redis_entry option \<Rightarrow> ((int \<times> string) list \<times> time option) option" where
  "as_zset e = (case e of None \<Rightarrow> Some ([], None) | Some (RZset z, x) \<Rightarrow> Some (z, x) | _ \<Rightarrow> None)"

definition as_num :: "redis_entry option \<Rightarrow> (int \<times> time option) option" where
  "as_num e = (case e of None \<Rightarrow> Some (0, None) | Some (RNum n, x) \<Rightarrow> Some (n, x) | _ \<Rightarrow> None)"

definition as_hash :: "redis_entry option \<Rightarrow> ((string \<Rightarrow> int option) \<times> time option) option" where
  "as_hash e = (case e of None \<Rightarrow> Some (Map.empty, None) | Some (RHash h, x) \<Rightarrow> Some (h, x) | _ \<Rightarrow> None)"

lemma as_simps [simp]:
  "as_zset None = Some ([], None)" "as_zset (Some (RZset z, x)) = Some (z, x)"
  "as_num None = Some (0, None)" "as_num (Some (RNum n, x)) = Some (n, x)"
  "as_hash None = Some (Map.empty, None)" "as_hash (Some (RHash h, x)) = Some (h, x)"
  by (simp_all add: as_zset_def as_num_def as_hash_def)

text \<open>An empty sorted set is a key that does not exist.\<close>

definition put_zset :: "(int \<times> string) list \<Rightarrow> time option \<Rightarrow> redis_entry option" where
  "put_zset z x = (if z = [] then None else Some (RZset z, x))"

lemma as_put_zset: "as_zset (put_zset z x) = Some (z, if z = [] then None else x)"
  by (simp add: put_zset_def)

section \<open>The documented laws\<close>

locale redis_server =
  fixes rd :: "'r redis" and look :: "'r \<Rightarrow> time \<Rightarrow> key \<Rightarrow> redis_entry option"
  assumes passes: "t \<le> t' \<Longrightarrow> look r t' k =
      (case look r t k of Some (v, Some x) \<Rightarrow> if t' < x then Some (v, Some x) else None | e \<Rightarrow> e)"
    and zset_shape: "look r t k = Some (RZset z, x) \<Longrightarrow> z \<noteq> [] \<and> sorted (map fst z)"
    and zadd: "as_zset (look r t k) = Some (z, x) \<Longrightarrow>
      \<exists>z'. look (rd_zadd rd t k s m r) t = (look r t)(k \<mapsto> (RZset z', x)) \<and> sorted (map fst z') \<and>
        mset z' = mset (filter (\<lambda>(s', m'). m' \<noteq> m) z) + {#(s, m)#}"
    and zremrangebyscore: "as_zset (look r t k) = Some (z, x) \<Longrightarrow>
      look (rd_zremrangebyscore rd t k s r) t = (look r t)(k := put_zset (filter (\<lambda>(s', m'). s < s') z) x)"
    and zpopmin: "as_zset (look r t k) = Some (z, x) \<Longrightarrow>
      look (rd_zpopmin rd t k r) t = (look r t)(k := put_zset (tl z) x)"
    and zpopmax: "as_zset (look r t k) = Some (z, x) \<Longrightarrow>
      look (rd_zpopmax rd t k r) t = (look r t)(k := put_zset (butlast z) x)"
    and zcard: "as_zset (look r t k) = Some (z, x) \<Longrightarrow> rd_zcard rd t k r = int (length z)"
    and zcount: "as_zset (look r t k) = Some (z, x) \<Longrightarrow>
      rd_zcount rd t k s r = int (length (filter (\<lambda>(s', m'). s < s') z))"
    and zfirst: "as_zset (look r t k) = Some (z, x) \<Longrightarrow>
      rd_zfirst rd t k r = (case z of [] \<Rightarrow> None | p # _ \<Rightarrow> Some (fst p))"
    and pexpireat: "look (rd_pexpireat rd t k due r) t =
      (look r t)(k := (case look r t k of None \<Rightarrow> None | Some (v, _) \<Rightarrow> if t < due then Some (v, Some due) else None))"
    and pexpire: "look (rd_pexpire rd t k d r) t =
      (look r t)(k := (case look r t k of None \<Rightarrow> None | Some (v, _) \<Rightarrow> if 0 < d then Some (v, Some (t + d)) else None))"
    and pttl: "rd_pttl rd t k r = (case look r t k of None \<Rightarrow> -2 | Some (_, None) \<Rightarrow> -1 | Some (_, Some x) \<Rightarrow> x - t)"
    and incrby: "as_num (look r t k) = Some (n, x) \<Longrightarrow>
      fst (rd_incrby rd t k d r) = n + d \<and> look (snd (rd_incrby rd t k d r)) t = (look r t)(k \<mapsto> (RNum (n + d), x))"
    and get: "as_num (look r t k) = Some (n, x) \<Longrightarrow> rd_get rd t k r = (if look r t k = None then None else Some n)"
    and setpxat: "look (rd_setpxat rd t k n due r) t = (look r t)(k := if t < due then Some (RNum n, Some due) else None)"
    and hget: "as_hash (look r t k) = Some (h, x) \<Longrightarrow> rd_hget rd t k f r = h f"
    and hset: "as_hash (look r t k) = Some (h, x) \<Longrightarrow>
      look (rd_hset rd t k fs r) t = (look r t)(k \<mapsto> (RHash (\<lambda>f. case map_of (rev fs) f of None \<Rightarrow> h f | Some n \<Rightarrow> Some n), x))"
    and del: "fst (rd_del rd t k r) \<longleftrightarrow> look r t k \<noteq> None"
      "look (snd (rd_del rd t k r)) t = (look r t)(k := None)"
begin

lemma look_alive:
  assumes "look r t k = Some (v, Some x)"
  shows "t < x"
proof -
  have "look r t k = (if t < x then Some (v, Some x) else None)"
    using passes [of t t r k] assms by simp
  with assms show ?thesis by (auto split: if_splits)
qed

lemma as_zset_look: "as_zset (look r t k) = Some (z, x) \<Longrightarrow> look r t k = put_zset z x"
  using zset_shape [of r t k]
  by (auto simp: as_zset_def put_zset_def split: option.splits prod.splits redis_value.splits)

lemma as_zset_sorted: "as_zset (look r t k) = Some (z, x) \<Longrightarrow> sorted (map fst z)"
  using zset_shape [of r t k]
  by (auto simp: as_zset_def split: option.splits prod.splits redis_value.splits)

text \<open>A script's loop of pops at one end.\<close>

lemma zpopmins:
  assumes "as_zset (look r t k) = Some (z, x)"
  shows "look ((rd_zpopmin rd t k ^^ n) r) t = (look r t)(k := put_zset (drop n z) x)"
proof (induction n)
  case 0
  show ?case using as_zset_look [OF assms] by (simp add: fun_eq_iff)
next
  case (Suc n)
  have z: "as_zset (look ((rd_zpopmin rd t k ^^ n) r) t k) = Some (drop n z, if drop n z = [] then None else x)"
    by (simp only: Suc fun_upd_same as_put_zset)
  have "tl (drop n z) = drop (Suc n) z" by (simp add: tl_drop drop_Suc)
  moreover have "put_zset (drop (Suc n) z) (if drop n z = [] then None else x) = put_zset (drop (Suc n) z) x"
    by (auto simp: put_zset_def)
  ultimately show ?case using zpopmin [OF z] unfolding Suc fun_upd_upd by simp
qed

lemma zpopmaxs:
  assumes "as_zset (look r t k) = Some (z, x)"
  shows "look ((rd_zpopmax rd t k ^^ n) r) t = (look r t)(k := put_zset (take (length z - n) z) x)"
proof (induction n)
  case 0
  show ?case using as_zset_look [OF assms] by (simp add: fun_eq_iff)
next
  case (Suc n)
  let ?z = "take (length z - n) z"
  have z: "as_zset (look ((rd_zpopmax rd t k ^^ n) r) t k) = Some (?z, if ?z = [] then None else x)"
    by (simp only: Suc fun_upd_same as_put_zset)
  have "butlast ?z = take (length z - Suc n) z" by (simp add: butlast_take)
  moreover have "put_zset (butlast ?z) (if ?z = [] then None else x) = put_zset (butlast ?z) x"
    by (auto simp: put_zset_def)
  ultimately show ?case using zpopmax [OF z] unfolding Suc fun_upd_upd by simp
qed

end

section \<open>A server that satisfies the laws\<close>

type_synonym ref_redis = "key \<Rightarrow> redis_entry option"

definition ref_look :: "ref_redis \<Rightarrow> time \<Rightarrow> key \<Rightarrow> redis_entry option" where
  "ref_look r t k =
     (case r k of
        None \<Rightarrow> None
      | Some (v, x) \<Rightarrow>
          if (case x of None \<Rightarrow> False | Some e \<Rightarrow> e \<le> t) then None
          else (case v of RZset z \<Rightarrow> put_zset (sort_key fst z) x | _ \<Rightarrow> Some (v, x)))"

definition ref_zset :: "ref_redis \<Rightarrow> time \<Rightarrow> key \<Rightarrow> (int \<times> string) list \<times> time option" where
  "ref_zset r t k = (case as_zset (ref_look r t k) of None \<Rightarrow> ([], None) | Some p \<Rightarrow> p)"

definition ref_update :: "time \<Rightarrow> key \<Rightarrow> redis_entry option \<Rightarrow> ref_redis \<Rightarrow> ref_redis" where
  "ref_update t k e r = (ref_look r t)(k := e)"

definition ref_hash :: "ref_redis \<Rightarrow> time \<Rightarrow> key \<Rightarrow> (string \<Rightarrow> int option) \<times> time option" where
  "ref_hash r t k = (case as_hash (ref_look r t k) of None \<Rightarrow> (Map.empty, None) | Some p \<Rightarrow> p)"

definition ref_num :: "ref_redis \<Rightarrow> time \<Rightarrow> key \<Rightarrow> int \<times> time option" where
  "ref_num r t k = (case as_num (ref_look r t k) of None \<Rightarrow> (0, None) | Some p \<Rightarrow> p)"

definition ref_expire :: "time \<Rightarrow> key \<Rightarrow> time \<Rightarrow> ref_redis \<Rightarrow> ref_redis" where
  "ref_expire t k x r =
     ref_update t k (case ref_look r t k of None \<Rightarrow> None | Some (v, _) \<Rightarrow> if t < x then Some (v, Some x) else None) r"

definition ref_server :: "ref_redis redis" where
  "ref_server =
     \<lparr>rd_zremrangebyscore = (\<lambda>t k s r. case ref_zset r t k of (z, x) \<Rightarrow>
        ref_update t k (put_zset (filter (\<lambda>(s', m'). s < s') z) x) r),
      rd_zadd = (\<lambda>t k s m r. case ref_zset r t k of (z, x) \<Rightarrow>
        ref_update t k (Some (RZset (insort_key fst (s, m) (filter (\<lambda>(s', m'). m' \<noteq> m) z)), x)) r),
      rd_zcard = (\<lambda>t k r. int (length (fst (ref_zset r t k)))),
      rd_zcount = (\<lambda>t k s r. int (length (filter (\<lambda>(s', m'). s < s') (fst (ref_zset r t k))))),
      rd_zfirst = (\<lambda>t k r. case fst (ref_zset r t k) of [] \<Rightarrow> None | p # _ \<Rightarrow> Some (fst p)),
      rd_zpopmin = (\<lambda>t k r. case ref_zset r t k of (z, x) \<Rightarrow> ref_update t k (put_zset (tl z) x) r),
      rd_zpopmax = (\<lambda>t k r. case ref_zset r t k of (z, x) \<Rightarrow> ref_update t k (put_zset (butlast z) x) r),
      rd_pexpire = (\<lambda>t k d r. ref_expire t k (t + d) r),
      rd_pexpireat = ref_expire,
      rd_pttl = (\<lambda>t k r. case ref_look r t k of None \<Rightarrow> -2 | Some (_, None) \<Rightarrow> -1 | Some (_, Some x) \<Rightarrow> x - t),
      rd_incrby = (\<lambda>t k d r. case ref_num r t k of (n, x) \<Rightarrow> (n + d, ref_update t k (Some (RNum (n + d), x)) r)),
      rd_get = (\<lambda>t k r. if ref_look r t k = None then None else Some (fst (ref_num r t k))),
      rd_setpxat = (\<lambda>t k n x r. ref_update t k (if t < x then Some (RNum n, Some x) else None) r),
      rd_hget = (\<lambda>t k f r. fst (ref_hash r t k) f),
      rd_hset = (\<lambda>t k fs r. case ref_hash r t k of (h, x) \<Rightarrow>
        ref_update t k (Some (RHash (\<lambda>f. case map_of (rev fs) f of None \<Rightarrow> h f | Some n \<Rightarrow> Some n), x)) r),
      rd_del = (\<lambda>t k r. (ref_look r t k \<noteq> None, ref_update t k None r))\<rparr>"

definition entry_norm :: "time \<Rightarrow> redis_entry option \<Rightarrow> bool" where
  "entry_norm t e \<longleftrightarrow>
     (case e of
        None \<Rightarrow> True
      | Some (v, x) \<Rightarrow> (case x of None \<Rightarrow> True | Some e \<Rightarrow> t < e) \<and>
          (case v of RZset z \<Rightarrow> z \<noteq> [] \<and> sorted (map fst z) | _ \<Rightarrow> True))"

lemma entry_norm_simps [simp]:
  "entry_norm t None"
  "entry_norm t (put_zset z x) \<longleftrightarrow> z = [] \<or> sorted (map fst z) \<and> (case x of None \<Rightarrow> True | Some e \<Rightarrow> t < e)"
  "entry_norm t (Some (RZset z, x)) \<longleftrightarrow> z \<noteq> [] \<and> sorted (map fst z) \<and> (case x of None \<Rightarrow> True | Some e \<Rightarrow> t < e)"
  "entry_norm t (Some (RNum n, x)) \<longleftrightarrow> (case x of None \<Rightarrow> True | Some e \<Rightarrow> t < e)"
  "entry_norm t (Some (RHash h, x)) \<longleftrightarrow> (case x of None \<Rightarrow> True | Some e \<Rightarrow> t < e)"
  by (auto simp: entry_norm_def put_zset_def)

lemma entry_norm_look: "entry_norm t (ref_look r t k)"
  by (auto simp: entry_norm_def ref_look_def put_zset_def split: option.splits redis_value.splits prod.splits)

lemma ref_look_norm: "entry_norm t (r k) \<Longrightarrow> ref_look r t k = r k"
  by (auto simp: entry_norm_def ref_look_def put_zset_def sort_key_id_if_sorted split: option.splits redis_value.splits prod.splits)

lemma ref_look_look [simp]: "ref_look (ref_look r t) t k = ref_look r t k"
  by (rule ref_look_norm) (rule entry_norm_look)

lemma ref_look_update:
  "entry_norm t e \<Longrightarrow> ref_look (ref_update t k e r) t = (ref_look r t)(k := e)"
proof
  fix k' assume e: "entry_norm t e"
  show "ref_look (ref_update t k e r) t k' = ((ref_look r t)(k := e)) k'"
    using ref_look_norm [of t "(ref_look r t)(k := e)" k'] e entry_norm_look [of t r k']
    by (auto simp: ref_update_def split: if_splits)
qed

text \<open>The value seen as a sorted set, number or hash keeps the normal form.\<close>

lemma ref_views:
  "as_zset (ref_look r t k) = Some (z, x) \<Longrightarrow> ref_zset r t k = (z, x) \<and> sorted (map fst z) \<and>
     (case x of None \<Rightarrow> True | Some e \<Rightarrow> t < e)"
  "as_num (ref_look r t k) = Some (n, x) \<Longrightarrow> ref_num r t k = (n, x) \<and> (case x of None \<Rightarrow> True | Some e \<Rightarrow> t < e)"
  "as_hash (ref_look r t k) = Some (h, x) \<Longrightarrow> ref_hash r t k = (h, x) \<and> (case x of None \<Rightarrow> True | Some e \<Rightarrow> t < e)"
  using entry_norm_look [of t r k]
  by (auto simp: ref_zset_def ref_num_def ref_hash_def as_zset_def as_num_def as_hash_def entry_norm_def
      split: option.splits redis_value.splits prod.splits)

lemma sorted_filter_fst: "sorted (map fst z) \<Longrightarrow> sorted (map fst (filter P z))"
  by (rule sorted_filter)

interpretation ref: redis_server ref_server ref_look
proof unfold_locales
  fix t t' r k assume "t \<le> (t' :: time)"
  then show "ref_look r t' k =
      (case ref_look r t k of Some (v, Some x) \<Rightarrow> if t' < x then Some (v, Some x) else None | e \<Rightarrow> e)"
    by (auto simp: ref_look_def put_zset_def split: option.splits redis_value.splits prod.splits)
next
  fix r t k z x assume "ref_look r t k = Some (RZset z, x)"
  then show "z \<noteq> [] \<and> sorted (map fst z)" using entry_norm_look [of t r k] by simp
next
  fix r t k z x s m assume "as_zset (ref_look r t k) = Some (z, x)"
  note v = ref_views(1) [OF this]
  let ?z = "insort_key fst (s, m) (filter (\<lambda>(s', m'). m' \<noteq> m) z)"
  have "sorted (map fst ?z)" using v by (simp add: sorted_insort_key sorted_filter)
  moreover have "mset ?z = mset (filter (\<lambda>(s', m'). m' \<noteq> m) z) + {#(s, m)#}" by (simp add: mset_insort)
  moreover have "ref_look (rd_zadd ref_server t k s m r) t = (ref_look r t)(k \<mapsto> (RZset ?z, x))"
    using v calculation(1) by (simp add: ref_server_def ref_look_update)
  ultimately show "\<exists>z'. ref_look (rd_zadd ref_server t k s m r) t = (ref_look r t)(k \<mapsto> (RZset z', x)) \<and>
      sorted (map fst z') \<and> mset z' = mset (filter (\<lambda>(s', m'). m' \<noteq> m) z) + {#(s, m)#}" by blast
next
  fix r t k z x s assume "as_zset (ref_look r t k) = Some (z, x)"
  note v = ref_views(1) [OF this]
  show "ref_look (rd_zremrangebyscore ref_server t k s r) t =
      (ref_look r t)(k := put_zset (filter (\<lambda>(s', m'). s < s') z) x)"
    using v by (simp add: ref_server_def ref_look_update sorted_filter)
next
  fix r t k z x assume "as_zset (ref_look r t k) = Some (z, x)"
  note v = ref_views(1) [OF this]
  show "ref_look (rd_zpopmin ref_server t k r) t = (ref_look r t)(k := put_zset (tl z) x)"
    using v by (simp add: ref_server_def ref_look_update map_tl sorted_tl)
  show "ref_look (rd_zpopmax ref_server t k r) t = (ref_look r t)(k := put_zset (butlast z) x)"
    using v by (simp add: ref_server_def ref_look_update map_butlast sorted_butlast)
  show "rd_zcard ref_server t k r = int (length z)" using v by (simp add: ref_server_def)
  show "rd_zfirst ref_server t k r = (case z of [] \<Rightarrow> None | p # _ \<Rightarrow> Some (fst p))" using v by (simp add: ref_server_def)
  fix s show "rd_zcount ref_server t k s r = int (length (filter (\<lambda>(s', m'). s < s') z))" using v by (simp add: ref_server_def)
next
  fix r t k x
  show "ref_look (rd_pexpireat ref_server t k x r) t =
      (ref_look r t)(k := (case ref_look r t k of None \<Rightarrow> None | Some (v, _) \<Rightarrow> if t < x then Some (v, Some x) else None))"
    and "ref_look (rd_pexpire ref_server t k d r) t =
      (ref_look r t)(k := (case ref_look r t k of None \<Rightarrow> None | Some (v, _) \<Rightarrow> if 0 < d then Some (v, Some (t + d)) else None))" for d
    using entry_norm_look [of t r k]
    by (auto simp: ref_server_def ref_expire_def ref_look_update entry_norm_def split: option.splits redis_value.splits)
next
  fix r t k n x d assume "as_num (ref_look r t k) = Some (n, x)"
  note v = ref_views(2) [OF this]
  show "fst (rd_incrby ref_server t k d r) = n + d \<and>
      ref_look (snd (rd_incrby ref_server t k d r)) t = (ref_look r t)(k \<mapsto> (RNum (n + d), x))"
    using v by (simp add: ref_server_def ref_look_update)
  show "rd_get ref_server t k r = (if ref_look r t k = None then None else Some n)" using v by (simp add: ref_server_def)
next
  fix r t k h x f fs assume "as_hash (ref_look r t k) = Some (h, x)"
  note v = ref_views(3) [OF this]
  show "rd_hget ref_server t k f r = h f" using v by (simp add: ref_server_def)
  show "ref_look (rd_hset ref_server t k fs r) t =
      (ref_look r t)(k \<mapsto> (RHash (\<lambda>f. case map_of (rev fs) f of None \<Rightarrow> h f | Some n \<Rightarrow> Some n), x))"
    using v by (simp add: ref_server_def ref_look_update)
qed (simp_all add: ref_server_def ref_look_update)

end
