(* ===== verification/Redis_Store.thy ===== *)
theory Redis_Store
  imports Redis_Server Memory_Store_Quota Circuit_Breaker
begin

text \<open>
  The Redis store, \<open>src/stores/redis-store.ts\<close>: its Lua scripts over the commands of a Redis server,
  the class with its error policy (\<open>fail-open\<close> or \<open>fail-closed\<close>), and the resilience layer that sends
  quota operations to an in-memory insurance store while a circuit breaker keeps Redis out.

  Each round trip to Redis is delivered, or lost before or after the server ran it, as the oracle
  \<open>rs_net\<close> says; \<open>rs_rand\<close> is the source of random sorted-set members. The server's clock and the
  client's clock are read as one \<open>now\<close>. Warnings and hooks are recorded in \<open>rs_events\<close>. The
  connection is a client passed in or one whose import may fail (\<open>rs_clientLoads\<close>).
\<close>

section \<open>The Lua scripts\<close>

text \<open>A script runs atomically; an error reply keeps what was written before it.\<close>

datatype lua_reply = LuaNil | LuaInt int | LuaArr "int list"

type_synonym 'r script = "'r \<Rightarrow> (string + lua_reply) \<times> 'r"

definition lua_bool :: "bool \<Rightarrow> int" where
  "lua_bool b = (if b then 1 else 0)"

fun zadd_members :: "'r redis \<Rightarrow> time \<Rightarrow> key \<Rightarrow> nat \<Rightarrow> string list \<Rightarrow> 'r \<Rightarrow> bool \<times> 'r" where
  "zadd_members rd now k 0 ms r = (True, r)"
| "zadd_members rd now k (Suc n) [] r = (False, r)"
| "zadd_members rd now k (Suc n) (m # ms) r = zadd_members rd now k n ms (rd_zadd rd now k now m r)"

definition LUA_SLIDING_INCR :: "'r redis \<Rightarrow> key \<Rightarrow> time \<Rightarrow> int \<Rightarrow> int \<Rightarrow> int \<Rightarrow> string list \<Rightarrow> 'r script" where
  "LUA_SLIDING_INCR rd zkey now window_ms max_requests cost0 members r0 =
     (let cost = (if cost0 < 1 then 1 else cost0);
          r1 = rd_zremrangebyscore rd now zkey (now - window_ms) r0
      in case zadd_members rd now zkey (nat cost) members r1 of
           (False, r2) \<Rightarrow> (Inl ''ratelimit-flex: sliding window missing member'', r2)
         | (True, r2) \<Rightarrow>
             let count = rd_zcard rd now zkey r2;
                 r3 = rd_pexpire rd now zkey window_ms r2;
                 blocked = lua_bool (count > max_requests);
                 oldest_score = (if count > 0 then (case rd_zfirst rd now zkey r3 of None \<Rightarrow> now | Some s \<Rightarrow> s) else now)
             in (Inr (LuaArr [count, blocked, oldest_score + window_ms]), r3))"

definition LUA_SLIDING_DECR :: "'r redis \<Rightarrow> time \<Rightarrow> key \<Rightarrow> int \<Rightarrow> bool \<Rightarrow> 'r script" where
  "LUA_SLIDING_DECR rd now k n0 newest r =
     (let n = (if n0 < 1 then 1 else n0)
      in (Inr (LuaInt 1), ((if newest then rd_zpopmax rd now k else rd_zpopmin rd now k) ^^ nat n) r))"

definition LUA_FIXED_INCR :: "'r redis \<Rightarrow> key \<Rightarrow> int \<Rightarrow> int \<Rightarrow> time \<Rightarrow> int \<Rightarrow> 'r script" where
  "LUA_FIXED_INCR rd k window_ms max_requests now cost0 r0 =
     (let cost = (if cost0 < 1 then 1 else cost0);
          (current, r1) = rd_incrby rd now k cost r0;
          r2 = (if current = cost then rd_pexpire rd now k window_ms r1 else r1);
          pttl0 = rd_pttl rd now k r2;
          pttl = (if pttl0 < 0 then window_ms else pttl0)
      in (Inr (LuaArr [current, lua_bool (current > max_requests), now + pttl]), r2))"

definition LUA_FIXED_DECR :: "'r redis \<Rightarrow> time \<Rightarrow> key \<Rightarrow> int \<Rightarrow> 'r script" where
  "LUA_FIXED_DECR rd now k dec0 r =
     (let dec = (if dec0 < 1 then 1 else dec0);
          v = (case rd_get rd now k r of None \<Rightarrow> 0 | Some n \<Rightarrow> n)
      in if v \<le> 0 then (Inr (LuaInt v), r)
         else (Inr (LuaInt v), snd (rd_incrby rd now k (- min v dec) r)))"

definition lua_bucket_state :: "'r redis \<Rightarrow> time \<Rightarrow> key \<Rightarrow> int \<Rightarrow> 'r \<Rightarrow> (int \<times> time) option" where
  "lua_bucket_state rd now key bucket_size r =
     (case rd_hget rd now key ''tokens'' r of
        None \<Rightarrow> Some (bucket_size, now)
      | Some t \<Rightarrow> (case rd_hget rd now key ''last_refill'' r of None \<Rightarrow> None | Some l \<Rightarrow> Some (t, l)))"

definition LUA_BUCKET_INCR :: "'r redis \<Rightarrow> key \<Rightarrow> time \<Rightarrow> int \<Rightarrow> int \<Rightarrow> int \<Rightarrow> int \<Rightarrow> 'r script" where
  "LUA_BUCKET_INCR rd key now tokens_per_interval interval_ms bucket_size cost0 r =
     (let cost = (if cost0 < 1 then 1 else cost0)
      in case lua_bucket_state rd now key bucket_size r of
           None \<Rightarrow> (Inl ''attempt to perform arithmetic on a nil value'', r)
         | Some (tokens0, last0) \<Rightarrow>
             let intervals = (now - last0) div interval_ms;
                 (tokens, last_refill) =
                   (if intervals > 0
                    then (min bucket_size (tokens0 + intervals * tokens_per_interval), last0 + intervals * interval_ms)
                    else (tokens0, last0));
                 tokens' = (if tokens \<ge> cost then tokens - cost else tokens);
                 r1 = rd_hset rd now key [(''tokens'', tokens'), (''last_refill'', last_refill)] r;
                 r2 = rd_pexpire rd now key (interval_ms * 10) r1
             in if tokens \<ge> cost
                then (Inr (LuaArr [1, tokens', bucket_size - tokens', 0, last_refill + interval_ms]), r2)
                else (Inr (LuaArr [0, tokens, bucket_size, 1, last_refill + interval_ms]), r2))"

definition LUA_BUCKET_DECR :: "'r redis \<Rightarrow> time \<Rightarrow> key \<Rightarrow> int \<Rightarrow> int \<Rightarrow> 'r script" where
  "LUA_BUCKET_DECR rd now key bucket_size add0 r =
     (let add = (if add0 < 1 then 1 else add0)
      in case rd_hget rd now key ''tokens'' r of
           None \<Rightarrow> (Inr (LuaInt 0), r)
         | Some tokens \<Rightarrow> (Inr (LuaInt 1), rd_hset rd now key [(''tokens'', min bucket_size (tokens + add))] r))"

definition LUA_SLIDING_GET :: "'r redis \<Rightarrow> key \<Rightarrow> time \<Rightarrow> int \<Rightarrow> int \<Rightarrow> 'r script" where
  "LUA_SLIDING_GET rd zkey now window_ms max_requests r =
     (let count = rd_zcount rd now zkey (now - window_ms) r
      in if count = 0 then (Inr LuaNil, r)
         else (Inr (LuaArr [count, lua_bool (count > max_requests),
                 (case rd_zfirst rd now zkey r of None \<Rightarrow> now | Some s \<Rightarrow> s) + window_ms]), r))"

definition LUA_SLIDING_SET :: "'r redis \<Rightarrow> key \<Rightarrow> time \<Rightarrow> int \<Rightarrow> int \<Rightarrow> int \<Rightarrow> int \<Rightarrow> string list \<Rightarrow> 'r script" where
  "LUA_SLIDING_SET rd zkey now window_ms max_requests total_hits0 expire_arg members r0 =
     (let total_hits = (if total_hits0 < 0 then 0 else total_hits0)
      in case zadd_members rd now zkey (nat total_hits) members (snd (rd_del rd now zkey r0)) of
           (False, r1) \<Rightarrow> (Inl ''ratelimit-flex: sliding set missing member'', r1)
         | (True, r1) \<Rightarrow>
             let r2 = (if total_hits > 0
                       then (if expire_arg < 0 then rd_pexpire rd now zkey window_ms r1
                             else rd_pexpireat rd now zkey expire_arg r1)
                       else r1);
                 count = rd_zcard rd now zkey r2
             in if count = 0 then (Inr (LuaArr [0, 0, now + window_ms]), r2)
                else (Inr (LuaArr [count, lua_bool (count > max_requests),
                        (case rd_zfirst rd now zkey r2 of None \<Rightarrow> now | Some s \<Rightarrow> s) + window_ms]), r2))"

definition LUA_FIXED_GET :: "'r redis \<Rightarrow> key \<Rightarrow> int \<Rightarrow> int \<Rightarrow> time \<Rightarrow> 'r script" where
  "LUA_FIXED_GET rd k window_ms max_requests now r =
     (case rd_get rd now k r of
        None \<Rightarrow> (Inr LuaNil, r)
      | Some current \<Rightarrow>
          let pttl0 = rd_pttl rd now k r; pttl = (if pttl0 < 0 then window_ms else pttl0)
          in (Inr (LuaArr [current, lua_bool (current > max_requests), now + pttl]), r))"

definition LUA_BUCKET_GET :: "'r redis \<Rightarrow> key \<Rightarrow> time \<Rightarrow> int \<Rightarrow> int \<Rightarrow> int \<Rightarrow> 'r script" where
  "LUA_BUCKET_GET rd key now tokens_per_interval interval_ms bucket_size r =
     (case (rd_hget rd now key ''tokens'' r, rd_hget rd now key ''last_refill'' r) of
        (Some tokens0, Some last0) \<Rightarrow>
          let intervals = (now - last0) div interval_ms;
              (rem, last_refill) =
                (if intervals > 0
                 then (min bucket_size (tokens0 + intervals * tokens_per_interval), last0 + intervals * interval_ms)
                 else (tokens0, last0));
              total_hits = bucket_size - rem
          in (Inr (LuaArr [rem, total_hits, lua_bool (rem = 0 \<and> total_hits \<ge> bucket_size),
                     last_refill + interval_ms]), r)
      | _ \<Rightarrow> (Inr LuaNil, r))"

definition LUA_BUCKET_SYNC :: "'r redis \<Rightarrow> time \<Rightarrow> key \<Rightarrow> int \<Rightarrow> time \<Rightarrow> int \<Rightarrow> 'r script" where
  "LUA_BUCKET_SYNC rd now key tokens last_refill interval_ms r =
     (Inr (LuaInt 1),
      rd_pexpire rd now key (interval_ms * 10)
        (rd_hset rd now key [(''tokens'', tokens), (''last_refill'', last_refill)] r))"


section \<open>The class\<close>

datatype net = Delivered | LostRequest | LostReply

datatype redis_event =
    RWarn string
  | ROnFailover string
  | ROnRecovery int
  | ROnCircuitOpen
  | ROnCircuitClose
  | ROnInsuranceHit key
  | ROnCounterSync nat nat

record resilience =
  rz_insurance :: mem_store
  rz_breaker :: circuit_breaker
  rz_syncOnRecovery :: bool
  rz_failoverStartedAt :: "time option"

record 'r redis_store =
  rs_strategy :: strategy
  rs_windowMs :: int
  rs_maxRequests :: int
  rs_tokensPerInterval :: int
  rs_refillIntervalMs :: int
  rs_bucketSize :: int
  rs_keyPrefix :: string
  rs_failClosed :: bool
  rs_clientLoads :: bool
  rs_client :: bool
  rs_connectionFailed :: bool
  rs_resilience :: "resilience option"
  rs_events :: "redis_event list"
  rs_server :: 'r
  rs_net :: "nat \<Rightarrow> net"
  rs_calls :: nat
  rs_rand :: "nat \<Rightarrow> string"
  rs_used :: nat

text \<open>The constructor's options. Breaker options and the insurance store come together.\<close>

record redis_options =
  ro_url :: bool
  ro_client :: bool
  ro_limits :: mem_options
  ro_keyPrefix :: "string option"
  ro_failClosed :: bool
  ro_insurance :: "mem_store option"
  ro_syncOnRecovery :: bool
  ro_failureThreshold :: "int option"
  ro_recoveryTimeMs :: "int option"
  ro_halfOpenMaxProbes :: "int option"

definition new_RedisStore ::
  "redis_options \<Rightarrow> bool \<Rightarrow> 'r \<Rightarrow> (nat \<Rightarrow> net) \<Rightarrow> (nat \<Rightarrow> string) \<Rightarrow> string + 'r redis_store" where
  "new_RedisStore o' loads server nets rand =
     (if ro_url o' \<and> ro_client o' then Inl ''RedisStore: pass either \"url\" or \"client\", not both''
      else if \<not> ro_url o' \<and> \<not> ro_client o' then Inl ''RedisStore: pass \"url\" or \"client\"''
      else
        let base =
          \<lparr>rs_strategy = TOKEN_BUCKET, rs_windowMs = 0, rs_maxRequests = 0, rs_tokensPerInterval = 0,
           rs_refillIntervalMs = 0, rs_bucketSize = 0,
           rs_keyPrefix = (case ro_keyPrefix o' of None \<Rightarrow> ''rlf:'' | Some p \<Rightarrow> p),
           rs_failClosed = ro_failClosed o', rs_clientLoads = (ro_client o' \<or> loads), rs_client = False,
           rs_connectionFailed = False,
           rs_resilience = map_option (\<lambda>mem.
             \<lparr>rz_insurance = mem,
              rz_breaker = new_CircuitBreaker (ro_failureThreshold o') (ro_recoveryTimeMs o') (ro_halfOpenMaxProbes o'),
              rz_syncOnRecovery = ro_syncOnRecovery o', rz_failoverStartedAt = None\<rparr>) (ro_insurance o'),
           rs_events = [], rs_server = server, rs_net = nets, rs_calls = 0, rs_rand = rand, rs_used = 0\<rparr>
        in Inr (case ro_limits o' of
             TokenBucketOptions tpi interval bsize \<Rightarrow>
               base\<lparr>rs_tokensPerInterval := tpi, rs_refillIntervalMs := interval, rs_bucketSize := bsize\<rparr>
           | WindowOptions strat w m \<Rightarrow>
               base\<lparr>rs_strategy := strat, rs_windowMs := sanitizeWindowMs w 60000,
                    rs_maxRequests := sanitizeRateLimitCap m 100\<rparr>))"

definition hasInsuranceLimiter :: "'r redis_store \<Rightarrow> bool" where
  "hasInsuranceLimiter s = (rs_resilience s \<noteq> None)"

definition supportsLimitsRedisTemplate :: "'r redis_store \<Rightarrow> bool" where
  "supportsLimitsRedisTemplate s = (rs_strategy s = SLIDING_WINDOW \<or> rs_strategy s = FIXED_WINDOW)"

definition rs_warn :: "string \<Rightarrow> 'r redis_store \<Rightarrow> 'r redis_store" where
  "rs_warn msg s = s\<lparr>rs_events := rs_events s @ [RWarn msg]\<rparr>"

definition rs_emit :: "redis_event \<Rightarrow> 'r redis_store \<Rightarrow> 'r redis_store" where
  "rs_emit ev s = s\<lparr>rs_events := rs_events s @ [ev]\<rparr>"

definition getClient :: "'r redis_store \<Rightarrow> bool \<times> 'r redis_store" where
  "getClient s =
     (if rs_connectionFailed s then (False, s)
      else if rs_client s then (True, s)
      else if rs_clientLoads s then (True, s\<lparr>rs_client := True\<rparr>)
      else (False, rs_warn ''Redis client unavailable'' (s\<lparr>rs_connectionFailed := True\<rparr>)))"

definition redisKey :: "string \<Rightarrow> key \<Rightarrow> 'r redis_store \<Rightarrow> key" where
  "redisKey kind k s = rs_keyPrefix s @ kind @ '':'' @ k"

text \<open>One round trip: the answer, or nothing when the request or the reply was lost.\<close>

definition rs_roundtrip :: "('r \<Rightarrow> 'a \<times> 'r) \<Rightarrow> 'r redis_store \<Rightarrow> 'a option \<times> 'r redis_store" where
  "rs_roundtrip f s =
     (let s1 = s\<lparr>rs_calls := Suc (rs_calls s)\<rparr>
      in case rs_net s (rs_calls s) of
           Delivered \<Rightarrow> (case f (rs_server s) of (a, r) \<Rightarrow> (Some a, s1\<lparr>rs_server := r\<rparr>))
         | LostRequest \<Rightarrow> (None, s1)
         | LostReply \<Rightarrow> (None, s1\<lparr>rs_server := snd (f (rs_server s))\<rparr>))"

definition evalScript :: "'r script \<Rightarrow> 'r redis_store \<Rightarrow> lua_reply \<times> 'r redis_store" where
  "evalScript script s =
     (case getClient s of
        (False, s1) \<Rightarrow> (LuaNil, s1)
      | (True, s1) \<Rightarrow>
          (case rs_roundtrip script s1 of
             (Some (Inr x), s2) \<Rightarrow> (x, s2)
           | (_, s2) \<Rightarrow> (LuaNil, rs_warn ''Redis EVAL failed'' s2)))"

definition slidingWindowUniqueMembers :: "int \<Rightarrow> 'r redis_store \<Rightarrow> string list \<times> 'r redis_store" where
  "slidingWindowUniqueMembers cost s =
     (if cost \<le> 0 then ([], s)
      else (map (\<lambda>i. rs_rand s (rs_used s + i)) [0..<nat cost], s\<lparr>rs_used := rs_used s + nat cost\<rparr>))"

definition failOpenResult :: "time \<Rightarrow> 'r redis_store \<Rightarrow> rl_result" where
  "failOpenResult now s =
     (if rs_strategy s = TOKEN_BUCKET then plain_result 0 (rs_bucketSize s) (now + rs_refillIntervalMs s) False
      else plain_result 0 (rs_maxRequests s) (now + rs_windowMs s) False)"

definition failClosedIncrementResult :: "time \<Rightarrow> 'r redis_store \<Rightarrow> rl_result" where
  "failClosedIncrementResult now s =
     (if rs_strategy s = TOKEN_BUCKET
      then plain_result (rs_bucketSize s) 0 (now + rs_refillIntervalMs s) True
      else plain_result 0 0 (now + rs_windowMs s) True)\<lparr>storeUnavailable := True\<rparr>"

definition redisIncrementFailure :: "time \<Rightarrow> 'r redis_store \<Rightarrow> rl_result \<times> 'r redis_store" where
  "redisIncrementFailure now s =
     (if rs_failClosed s
      then (failClosedIncrementResult now s, rs_warn ''Redis unavailable; failing closed (request blocked)'' s)
      else (failOpenResult now s, rs_warn ''Redis unavailable; failing open (request allowed)'' s))"

section \<open>Quota operations in Redis\<close>

text \<open>Reading \<open>[count, blocked, resetMs]\<close> and \<open>[remaining, totalHits, blocked, nextMs]\<close>.\<close>

definition window_reply :: "int \<Rightarrow> lua_reply \<Rightarrow> rl_result option" where
  "window_reply maxReq raw =
     (case raw of
        LuaArr (hits # blocked # resetMs # _) \<Rightarrow>
          Some (plain_result hits (if blocked = 1 then 0 else max 0 (maxReq - hits)) resetMs (blocked = 1))
      | _ \<Rightarrow> None)"

definition bucket_reply :: "int list \<Rightarrow> rl_result option" where
  "bucket_reply raw =
     (case raw of
        rem # hits # blocked # nextMs # _ \<Rightarrow> Some (plain_result hits rem nextMs (blocked = 1))
      | _ \<Rightarrow> None)"

definition incrSlidingRedis ::
  "'r redis \<Rightarrow> time \<Rightarrow> key \<Rightarrow> js_value \<Rightarrow> int \<Rightarrow> 'r redis_store \<Rightarrow> rl_result option \<times> 'r redis_store" where
  "incrSlidingRedis rd now k maxOverride cost s =
     (let maxReq = sanitizeRateLimitCap (js_or maxOverride (js_int (rs_maxRequests s))) (rs_maxRequests s);
          (members, s1) = slidingWindowUniqueMembers cost s;
          (raw, s2) = evalScript
            (LUA_SLIDING_INCR rd (redisKey ''sw'' k s1) now (rs_windowMs s1) maxReq cost members) s1
      in (window_reply maxReq raw, s2))"

definition incrFixedRedis ::
  "'r redis \<Rightarrow> time \<Rightarrow> key \<Rightarrow> js_value \<Rightarrow> int \<Rightarrow> 'r redis_store \<Rightarrow> rl_result option \<times> 'r redis_store" where
  "incrFixedRedis rd now k maxOverride cost s =
     (let maxReq = sanitizeRateLimitCap (js_or maxOverride (js_int (rs_maxRequests s))) (rs_maxRequests s);
          (raw, s1) = evalScript (LUA_FIXED_INCR rd (redisKey ''fw'' k s) (rs_windowMs s) maxReq now cost) s
      in (window_reply maxReq raw, s1))"

definition incrBucketRedis ::
  "'r redis \<Rightarrow> time \<Rightarrow> key \<Rightarrow> int \<Rightarrow> 'r redis_store \<Rightarrow> rl_result option \<times> 'r redis_store" where
  "incrBucketRedis rd now k cost s =
     (let (raw, s1) = evalScript
            (LUA_BUCKET_INCR rd (redisKey ''tb'' k s) now (rs_tokensPerInterval s) (rs_refillIntervalMs s)
               (rs_bucketSize s) cost) s
      in (case raw of LuaArr (allowed # rest) \<Rightarrow> bucket_reply rest | _ \<Rightarrow> None, s1))"

definition incrRedis ::
  "'r redis \<Rightarrow> time \<Rightarrow> key \<Rightarrow> inc_opts option \<Rightarrow> 'r redis_store \<Rightarrow> rl_result option \<times> 'r redis_store" where
  "incrRedis rd now k o' s =
     (let maxOverride = opt_maxRequests o'; cost = sanitizeIncrementCost (opt_cost o') 1
      in case rs_strategy s of
           SLIDING_WINDOW \<Rightarrow> incrSlidingRedis rd now k maxOverride cost s
         | FIXED_WINDOW \<Rightarrow> incrFixedRedis rd now k maxOverride cost s
         | TOKEN_BUCKET \<Rightarrow> incrBucketRedis rd now k cost s)"

section \<open>Insurance\<close>

definition set_resilience :: "resilience \<Rightarrow> 'r redis_store \<Rightarrow> 'r redis_store" where
  "set_resilience z s = s\<lparr>rs_resilience := Some z\<rparr>"

definition shouldRouteQuotaViaInsurance :: "time \<Rightarrow> 'r redis_store \<Rightarrow> bool \<times> 'r redis_store" where
  "shouldRouteQuotaViaInsurance now s =
     (case rs_resilience s of
        None \<Rightarrow> (False, s)
      | Some z \<Rightarrow> (let (ok, b) = canAttempt now (rz_breaker z) in (\<not> ok, set_resilience (z\<lparr>rz_breaker := b\<rparr>) s)))"

definition insuranceIncrement ::
  "time \<Rightarrow> key \<Rightarrow> inc_opts option \<Rightarrow> resilience \<Rightarrow> 'r redis_store \<Rightarrow> rl_result \<times> 'r redis_store" where
  "insuranceIncrement now k o' z s =
     (let (r, mem) = mem_increment now k o' (rz_insurance z)
      in (r\<lparr>storeUnavailable := True\<rparr>, rs_emit (ROnInsuranceHit k) (set_resilience (z\<lparr>rz_insurance := mem\<rparr>) s)))"

definition syncOneKeyToRedis ::
  "'r redis \<Rightarrow> time \<Rightarrow> key \<Rightarrow> active_entry \<Rightarrow> 'r redis_store \<Rightarrow> bool \<times> 'r redis_store" where
  "syncOneKeyToRedis rd now k entry s =
     (case rs_strategy s of
        SLIDING_WINDOW \<Rightarrow>
          let cost = ae_totalHits entry
          in if cost \<le> 0 then (True, s)
             else let (members, s1) = slidingWindowUniqueMembers cost s;
                      (raw, s2) = evalScript (LUA_SLIDING_INCR rd (redisKey ''sw'' k s1) now (rs_windowMs s1)
                        (rs_maxRequests s1) cost members) s1
                  in (raw \<noteq> LuaNil, s2)
      | FIXED_WINDOW \<Rightarrow>
          let (raw, s1) = evalScript (LUA_FIXED_INCR rd (redisKey ''fw'' k s) (rs_windowMs s)
                (rs_maxRequests s) now (ae_totalHits entry)) s
          in (raw \<noteq> LuaNil, s1)
      | TOKEN_BUCKET \<Rightarrow>
          let rem = max 0 (rs_bucketSize s - ae_totalHits entry);
              lastRefill = ae_resetTime entry - rs_refillIntervalMs s;
              (raw, s1) = evalScript (LUA_BUCKET_SYNC rd now (redisKey ''tb'' k s) rem lastRefill
                (rs_refillIntervalMs s)) s
          in (raw \<noteq> LuaNil, s1))"

fun sync_keys ::
  "'r redis \<Rightarrow> time \<Rightarrow> (key \<times> active_entry) list \<Rightarrow> nat \<Rightarrow> nat \<Rightarrow> 'r redis_store \<Rightarrow> nat \<times> nat \<times> 'r redis_store" where
  "sync_keys rd now [] synced errors s = (synced, errors, s)"
| "sync_keys rd now ((k, entry) # rest) synced errors s =
     (case syncOneKeyToRedis rd now k entry s of
        (True, s1) \<Rightarrow> sync_keys rd now rest (Suc synced) errors s1
      | (False, s1) \<Rightarrow> sync_keys rd now rest synced (Suc errors) s1)"

definition syncCountersToRedis :: "'r redis \<Rightarrow> time \<Rightarrow> 'r redis_store \<Rightarrow> 'r redis_store" where
  "syncCountersToRedis rd now s =
     (case rs_resilience s of
        None \<Rightarrow> s
      | Some z \<Rightarrow>
          if \<not> rz_syncOnRecovery z then s
          else let (active, mem) = mem_getActiveKeys now (rz_insurance z);
                   (synced, errors, s1) = sync_keys rd now active 0 0 s
               in rs_emit (ROnCounterSync synced errors)
                    (set_resilience (z\<lparr>rz_insurance := mem_resetAll mem\<rparr>) s1))"

text \<open>\<open>recordSuccess\<close> with the \<open>onClose\<close> callback the constructor installs.\<close>

definition redisSucceeded :: "'r redis \<Rightarrow> time \<Rightarrow> 'r redis_store \<Rightarrow> 'r redis_store" where
  "redisSucceeded rd now s =
     (case rs_resilience s of
        None \<Rightarrow> s
      | Some z \<Rightarrow>
          let b = recordSuccess (rz_breaker z); s1 = set_resilience (z\<lparr>rz_breaker := b\<rparr>) s
          in if cb_state (rz_breaker z) \<noteq> HALF_OPEN then s1
             else let downtime = (case rz_failoverStartedAt z of None \<Rightarrow> 0 | Some t0 \<Rightarrow> now - t0);
                      s2 = set_resilience (z\<lparr>rz_breaker := b, rz_failoverStartedAt := None\<rparr>)
                             (rs_emit ROnCircuitClose s1)
                  in syncCountersToRedis rd now (rs_emit (ROnRecovery downtime) s2))"

definition handleRedisFailureForIncrement ::
  "time \<Rightarrow> key \<Rightarrow> inc_opts option \<Rightarrow> resilience \<Rightarrow> 'r redis_store \<Rightarrow> rl_result \<times> 'r redis_store" where
  "handleRedisFailureForIncrement now k o' z s =
     (let b = recordFailure now (rz_breaker z);
          s1 = (if cb_state (rz_breaker z) \<noteq> OPEN \<and> cb_state b = OPEN then rs_emit ROnCircuitOpen s else s)
      in if cb_state (rz_breaker z) = CLOSED \<and> cb_state b = OPEN
         then insuranceIncrement now k o' (z\<lparr>rz_breaker := b, rz_failoverStartedAt := Some now\<rparr>)
                (rs_emit (ROnFailover ''Redis operation returned no result'') s1)
         else insuranceIncrement now k o' (z\<lparr>rz_breaker := b\<rparr>) s1)"

definition incrementWithResilience ::
  "'r redis \<Rightarrow> time \<Rightarrow> key \<Rightarrow> inc_opts option \<Rightarrow> 'r redis_store \<Rightarrow> rl_result \<times> 'r redis_store" where
  "incrementWithResilience rd now k o' s0 =
     (case shouldRouteQuotaViaInsurance now s0 of
        (True, s) \<Rightarrow> insuranceIncrement now k o' (the (rs_resilience s)) s
      | (False, s) \<Rightarrow>
          (case incrRedis rd now k o' s of
             (Some r, s1) \<Rightarrow> (r, redisSucceeded rd now s1)
           | (None, s1) \<Rightarrow> handleRedisFailureForIncrement now k o' (the (rs_resilience s1)) s1))"

section \<open>The public methods\<close>

definition redis_increment ::
  "'r redis \<Rightarrow> time \<Rightarrow> key \<Rightarrow> inc_opts option \<Rightarrow> 'r redis_store \<Rightarrow> rl_result \<times> 'r redis_store" where
  "redis_increment rd now k o' s =
     (if rs_resilience s \<noteq> None then incrementWithResilience rd now k o' s
      else case incrRedis rd now k o' s of
             (Some r, s1) \<Rightarrow> (r, s1)
           | (None, s1) \<Rightarrow> redisIncrementFailure now s1)"

definition redis_decrement ::
  "'r redis \<Rightarrow> time \<Rightarrow> key \<Rightarrow> dec_opts option \<Rightarrow> 'r redis_store \<Rightarrow> 'r redis_store" where
  "redis_decrement rd now k o' s0 =
     (let cost = sanitizeIncrementCost (opt_dec_cost o') 1
      in case shouldRouteQuotaViaInsurance now s0 of
           (True, s) \<Rightarrow>
             let z = the (rs_resilience s) in set_resilience (z\<lparr>rz_insurance := mem_decrement k o' (rz_insurance z)\<rparr>) s
         | (False, s) \<Rightarrow>
             let (raw, s1) = evalScript
                   (case rs_strategy s of
                      SLIDING_WINDOW \<Rightarrow> LUA_SLIDING_DECR rd now (redisKey ''sw'' k s) cost (opt_removeNewest o')
                    | FIXED_WINDOW \<Rightarrow> LUA_FIXED_DECR rd now (redisKey ''fw'' k s) cost
                    | TOKEN_BUCKET \<Rightarrow> LUA_BUCKET_DECR rd now (redisKey ''tb'' k s) (rs_bucketSize s) cost) s
             in if raw = LuaNil
                then let s2 = rs_warn ''Redis decrement: EVAL returned no result'' s1
                     in if rs_failClosed s2 then rs_warn ''Redis decrement failed (fail-closed): counter state may drift'' s2
                        else s2
                else s1)"

definition strategy_kind :: "strategy \<Rightarrow> string" where
  "strategy_kind st = (case st of SLIDING_WINDOW \<Rightarrow> ''sw'' | FIXED_WINDOW \<Rightarrow> ''fw'' | TOKEN_BUCKET \<Rightarrow> ''tb'')"

text \<open>\<open>delKeys\<close> and \<open>deleteOneRedisKey\<close> on one key: whether it existed, or the error of \<open>fail-closed\<close>.\<close>

definition delKeys :: "'r redis \<Rightarrow> time \<Rightarrow> key \<Rightarrow> 'r redis_store \<Rightarrow> (string + bool) \<times> 'r redis_store" where
  "delKeys rd now rk s =
     (case getClient s of
        (False, s1) \<Rightarrow>
          let s2 = rs_warn ''Redis client unavailable (DEL)'' s1
          in if rs_failClosed s then (Inl ''Redis client unavailable'', rs_warn ''Redis DEL failed'' s2)
             else (Inr False, s2)
      | (True, s1) \<Rightarrow>
          (case rs_roundtrip (rd_del rd now rk) s1 of
             (Some existed, s2) \<Rightarrow> (Inr existed, s2)
           | (None, s2) \<Rightarrow>
               (if rs_failClosed s then Inl ''Redis DEL failed'' else Inr False, rs_warn ''Redis DEL failed'' s2)))"

definition redis_reset :: "'r redis \<Rightarrow> time \<Rightarrow> key \<Rightarrow> 'r redis_store \<Rightarrow> (string + unit) \<times> 'r redis_store" where
  "redis_reset rd now k s0 =
     (case shouldRouteQuotaViaInsurance now s0 of
        (True, s) \<Rightarrow>
          let z = the (rs_resilience s)
          in (Inr (), set_resilience (z\<lparr>rz_insurance := mem_reset now k (rz_insurance z)\<rparr>) s)
      | (False, s) \<Rightarrow>
          (case delKeys rd now (redisKey (strategy_kind (rs_strategy s)) k s) s of
             (Inl e, s1) \<Rightarrow> (Inl e, rs_warn ''Redis reset failed'' s1)
           | (Inr _, s1) \<Rightarrow> (Inr (), s1)))"

definition redis_delete :: "'r redis \<Rightarrow> time \<Rightarrow> key \<Rightarrow> 'r redis_store \<Rightarrow> (string + bool) \<times> 'r redis_store" where
  "redis_delete rd now k s0 =
     (case shouldRouteQuotaViaInsurance now s0 of
        (True, s) \<Rightarrow>
          let z = the (rs_resilience s); (b, mem) = mem_delete k (rz_insurance z)
          in (Inr b, set_resilience (z\<lparr>rz_insurance := mem\<rparr>) s)
      | (False, s) \<Rightarrow>
          (case delKeys rd now (redisKey (strategy_kind (rs_strategy s)) k s) s of
             (Inl e, s1) \<Rightarrow> (Inl e, rs_warn ''Redis delete failed'' s1)
           | (Inr b, s1) \<Rightarrow> (Inr b, s1)))"

definition getSlidingRedis :: "'r redis \<Rightarrow> time \<Rightarrow> key \<Rightarrow> 'r redis_store \<Rightarrow> rl_result option \<times> 'r redis_store" where
  "getSlidingRedis rd now k s =
     (let maxReq = sanitizeRateLimitCap (js_int (rs_maxRequests s)) (rs_maxRequests s);
          (raw, s1) = evalScript (LUA_SLIDING_GET rd (redisKey ''sw'' k s) now (rs_windowMs s) maxReq) s
      in (case window_reply maxReq raw of
            Some r \<Rightarrow> if totalHits r = 0 then None else Some r
          | None \<Rightarrow> None, s1))"

definition getFixedRedis :: "'r redis \<Rightarrow> time \<Rightarrow> key \<Rightarrow> 'r redis_store \<Rightarrow> rl_result option \<times> 'r redis_store" where
  "getFixedRedis rd now k s =
     (let maxReq = sanitizeRateLimitCap (js_int (rs_maxRequests s)) (rs_maxRequests s);
          (raw, s1) = evalScript (LUA_FIXED_GET rd (redisKey ''fw'' k s) (rs_windowMs s) maxReq now) s
      in (window_reply maxReq raw, s1))"

definition getBucketRedis :: "'r redis \<Rightarrow> time \<Rightarrow> key \<Rightarrow> 'r redis_store \<Rightarrow> rl_result option \<times> 'r redis_store" where
  "getBucketRedis rd now k s =
     (let (raw, s1) = evalScript (LUA_BUCKET_GET rd (redisKey ''tb'' k s) now (rs_tokensPerInterval s)
            (rs_refillIntervalMs s) (rs_bucketSize s)) s
      in (case raw of LuaArr xs \<Rightarrow> bucket_reply xs | _ \<Rightarrow> None, s1))"

definition redis_get :: "'r redis \<Rightarrow> time \<Rightarrow> key \<Rightarrow> 'r redis_store \<Rightarrow> rl_result option \<times> 'r redis_store" where
  "redis_get rd now k s0 =
     (case shouldRouteQuotaViaInsurance now s0 of
        (True, s) \<Rightarrow>
          let z = the (rs_resilience s); (r, mem) = mem_get now k (rz_insurance z)
          in (r, set_resilience (z\<lparr>rz_insurance := mem\<rparr>) s)
      | (False, s) \<Rightarrow>
          (case rs_strategy s of
             SLIDING_WINDOW \<Rightarrow> getSlidingRedis rd now k s
           | FIXED_WINDOW \<Rightarrow> getFixedRedis rd now k s
           | TOKEN_BUCKET \<Rightarrow> getBucketRedis rd now k s))"

definition setSlidingRedis ::
  "'r redis \<Rightarrow> time \<Rightarrow> key \<Rightarrow> int \<Rightarrow> time option \<Rightarrow> 'r redis_store \<Rightarrow> rl_result option \<times> 'r redis_store" where
  "setSlidingRedis rd now k hits expiresAt s =
     (let maxReq = sanitizeRateLimitCap (js_int (rs_maxRequests s)) (rs_maxRequests s);
          n = max 0 hits;
          expireArg = (case expiresAt of None \<Rightarrow> -1 | Some e \<Rightarrow> e);
          (members, s1) = slidingWindowUniqueMembers n s;
          (raw, s2) = evalScript (LUA_SLIDING_SET rd (redisKey ''sw'' k s1) now (rs_windowMs s1) maxReq n expireArg members) s1
      in (window_reply maxReq raw, s2))"

definition setFixedRedis ::
  "'r redis \<Rightarrow> time \<Rightarrow> key \<Rightarrow> int \<Rightarrow> time option \<Rightarrow> 'r redis_store \<Rightarrow> rl_result option \<times> 'r redis_store" where
  "setFixedRedis rd now k hits expiresAt s =
     (case getClient s of
        (False, s1) \<Rightarrow> (None, s1)
      | (True, s1) \<Rightarrow>
          let n = max 0 hits;
              due = (case expiresAt of None \<Rightarrow> now + rs_windowMs s1 | Some e \<Rightarrow> e)
          in case rs_roundtrip (\<lambda>r. ((), rd_setpxat rd now (redisKey ''fw'' k s1) n due r)) s1 of
               (None, s2) \<Rightarrow> (None, rs_warn ''Redis SET (fixed set) failed'' s2)
             | (Some _, s2) \<Rightarrow> getFixedRedis rd now k s2)"

definition setBucketRedis ::
  "'r redis \<Rightarrow> time \<Rightarrow> key \<Rightarrow> int \<Rightarrow> 'r redis_store \<Rightarrow> rl_result option \<times> 'r redis_store" where
  "setBucketRedis rd now k hits s =
     (let cap = rs_bucketSize s;
          th = max 0 hits;
          blocked = th \<ge> cap;
          tokens = (if blocked then 0 else max 0 (cap - th));
          (raw, s1) = evalScript (LUA_BUCKET_SYNC rd now (redisKey ''tb'' k s) tokens now (rs_refillIntervalMs s)) s
      in (if raw = LuaNil then None
          else Some (plain_result (if blocked then cap else th) tokens (now + rs_refillIntervalMs s) blocked), s1))"

definition redis_set ::
  "'r redis \<Rightarrow> time \<Rightarrow> key \<Rightarrow> int \<Rightarrow> time option \<Rightarrow> 'r redis_store \<Rightarrow> rl_result \<times> 'r redis_store" where
  "redis_set rd now k hits expiresAt s0 =
     (case shouldRouteQuotaViaInsurance now s0 of
        (True, s) \<Rightarrow>
          let z = the (rs_resilience s); (r, mem) = mem_set now k hits expiresAt (rz_insurance z)
          in (r, set_resilience (z\<lparr>rz_insurance := mem\<rparr>) s)
      | (False, s) \<Rightarrow>
          (case (case rs_strategy s of
                   SLIDING_WINDOW \<Rightarrow> setSlidingRedis rd now k hits expiresAt s
                 | FIXED_WINDOW \<Rightarrow> setFixedRedis rd now k hits expiresAt s
                 | TOKEN_BUCKET \<Rightarrow> setBucketRedis rd now k hits s) of
             (Some r, s1) \<Rightarrow> (r, s1)
           | (None, s1) \<Rightarrow> redisIncrementFailure now s1))"

definition redis_shutdown :: "'r redis_store \<Rightarrow> 'r redis_store" where
  "redis_shutdown s =
     s\<lparr>rs_resilience := map_option (\<lambda>z. z\<lparr>rz_breaker := cb_destroy (rz_breaker z)\<rparr>) (rs_resilience s), rs_client := False\<rparr>"

definition redis_ops :: "'r redis \<Rightarrow> 'r redis_store store_ops" where
  "redis_ops rd =
     \<lparr>op_increment = (\<lambda>now k o' s. let (r, s') = redis_increment rd now k o' s in (Inr r, s')),
      op_decrement = (\<lambda>now k o' s. (Inr (), redis_decrement rd now k o' s)),
      op_reset = redis_reset rd,
      op_shutdown = (\<lambda>s. (Inr (), redis_shutdown s)),
      op_get = Some (\<lambda>now k s. let (r, s') = redis_get rd now k s in (Inr r, s')),
      op_set = Some (\<lambda>now k n e s. let (r, s') = redis_set rd now k n e s in (Inr r, s')),
      op_delete = Some (redis_delete rd),
      op_getActiveKeys = None,
      op_resetAll = None,
      op_unshield = None\<rparr>"

section \<open>Siblings for several windows\<close>

fun nat_decimal :: "nat \<Rightarrow> string" where
  "nat_decimal n =
     (if n < 10 then [''0123456789'' ! n] else nat_decimal (n div 10) @ [''0123456789'' ! (n mod 10)])"

declare nat_decimal.simps [simp del]

definition slot_prefix :: "string \<Rightarrow> nat \<Rightarrow> int \<Rightarrow> string" where
  "slot_prefix prefix i ws = prefix @ ''limits:'' @ nat_decimal i @ '':w'' @ nat_decimal (nat ws) @ '':''"

text \<open>The sibling starts with its own connection state and insurance; the server is the shared one.\<close>

definition createWindowSiblingForLimitsSlot ::
  "nat \<Rightarrow> js_value \<Rightarrow> js_value \<Rightarrow> strategy option \<Rightarrow> (nat \<Rightarrow> net) \<Rightarrow> (nat \<Rightarrow> string) \<Rightarrow> 'r redis_store \<Rightarrow>
   string + 'r redis_store" where
  "createWindowSiblingForLimitsSlot i windowMs maxRequests override nets rand s =
     (if rs_strategy s = TOKEN_BUCKET
      then Inl ''RedisStore.createWindowSiblingForLimitsSlot: template must use sliding or fixed window strategy''
      else let strat = (case override of None \<Rightarrow> rs_strategy s | Some st \<Rightarrow> st)
           in if strat = TOKEN_BUCKET
              then Inl ''RedisStore.createWindowSiblingForLimitsSlot: strategy must be SLIDING_WINDOW or FIXED_WINDOW''
              else
                let ws = sanitizeWindowMs windowMs 60000; cap = sanitizeRateLimitCap maxRequests 100
                in new_RedisStore
                     \<lparr>ro_url = \<not> rs_clientLoads s, ro_client = rs_clientLoads s,
                      ro_limits = WindowOptions strat (js_int ws) (js_int cap),
                      ro_keyPrefix = Some (slot_prefix (rs_keyPrefix s) i ws), ro_failClosed = rs_failClosed s,
                      ro_insurance = map_option (\<lambda>_. new_MemoryStore (WindowOptions strat (js_int ws) (js_int cap)) None None)
                        (rs_resilience s),
                      ro_syncOnRecovery = (case rs_resilience s of None \<Rightarrow> True | Some z \<Rightarrow> rz_syncOnRecovery z),
                      ro_failureThreshold = map_option (\<lambda>z. failureThreshold (rz_breaker z)) (rs_resilience s),
                      ro_recoveryTimeMs = map_option (\<lambda>z. recoveryTimeMs (rz_breaker z)) (rs_resilience s),
                      ro_halfOpenMaxProbes = map_option (\<lambda>z. halfOpenMaxProbes (rz_breaker z)) (rs_resilience s)\<rparr>
                     False (rs_server s) nets rand)"

end
