(* ===== verification/Redis_Store_Laws.thy ===== *)
theory Redis_Store_Laws
  imports Redis_Store
begin

text \<open>
  What the Redis store guarantees. With a server that keeps the documented laws, a reachable client
  and no insurance, the store refines the in-memory store: \<open>redis_sim\<close> relates the live entries of
  the two, every increment and decrement keeps it, and the answers agree. Further lemmas give the
  error policy when Redis cannot be reached and the routing through the insurance store.
\<close>

section \<open>The scripts on the view of a key\<close>

context redis_server
begin

lemma zadd_members_spec:
  assumes "as_zset (look r t k) = Some (z, x)" "n \<le> length ms" "distinct ms" "set ms \<inter> snd ` set z = {}"
  shows "\<exists>r' z'. zadd_members rd t k n ms r = (True, r') \<and> look r' t = (look r t)(k := put_zset z' x) \<and>
    as_zset (look r' t k) = Some (z', x) \<and>
    mset (map fst z') = mset (map fst z) + replicate_mset n t \<and> snd ` set z' = snd ` set z \<union> set (take n ms)"
  using assms
proof (induction n arbitrary: ms r z)
  case 0
  then show ?case using as_zset_look [OF 0(1)] by (intro exI [of _ r] exI [of _ z]) auto
next
  case (Suc n)
  then obtain m ms' where ms: "ms = m # ms'" by (cases ms) auto
  have fresh: "filter (\<lambda>(s', m'). m' \<noteq> m) z = z" using Suc.prems(4) by (force simp: ms filter_id_conv)
  from zadd [OF Suc.prems(1), of t m] obtain z1 where
    look1: "look (rd_zadd rd t k t m r) t = (look r t)(k \<mapsto> (RZset z1, x))" and
    z1: "mset z1 = mset z + {#(t, m)#}" by (auto simp: fresh)
  have set1: "set z1 = insert (t, m) (set z)" using arg_cong [OF z1, of set_mset] by simp
  have keys: "mset (map fst z1) = mset (map fst z) + {#t#}" using arg_cong [OF z1, of "image_mset fst"] by simp
  have "as_zset (look (rd_zadd rd t k t m r) t k) = Some (z1, x)" by (simp add: look1)
  moreover have "n \<le> length ms'" "distinct ms'" "set ms' \<inter> snd ` set z1 = {}"
    using Suc.prems(2-4) set1 by (auto simp: ms)
  ultimately obtain r' z' where
    "zadd_members rd t k n ms' (rd_zadd rd t k t m r) = (True, r')"
    "look r' t = (look (rd_zadd rd t k t m r) t)(k := put_zset z' x)" "as_zset (look r' t k) = Some (z', x)"
    "mset (map fst z') = mset (map fst z1) + replicate_mset n t" "snd ` set z' = snd ` set z1 \<union> set (take n ms')"
    using Suc.IH [of "rd_zadd rd t k t m r" z1 ms'] by blast
  moreover have "mset (map fst z') = mset (map fst z) + replicate_mset (Suc n) t"
    unfolding calculation(4) keys by simp
  moreover have "snd ` set z' = snd ` set z \<union> set (take (Suc n) ms)"
    unfolding calculation(5) set1 ms by auto
  ultimately show ?case unfolding ms look1 zadd_members.simps fun_upd_upd by blast
qed

lemma sliding_incr_script:
  assumes z: "as_zset (look r t k) = Some (z, x)" and ms: "length ms = nat cost" "distinct ms" "set ms \<inter> snd ` set z = {}"
    and pos: "1 \<le> cost" "1 \<le> w" and past: "\<forall>s \<in> fst ` set z. s \<le> t"
    and L: "L = filter (\<lambda>s. t - w < s) (map fst z) @ replicate (nat cost) t"
  shows "\<exists>r' z'. LUA_SLIDING_INCR rd k t w cap cost ms r =
      (Inr (LuaArr [int (length L), lua_bool (int (length L) > cap), hd L + w]), r') \<and>
    look r' t = (look r t)(k \<mapsto> (RZset z', Some (t + w))) \<and> map fst z' = L \<and> snd ` set z' \<subseteq> snd ` set z \<union> set ms"
proof -
  let ?z1 = "filter (\<lambda>(s', m'). t - w < s') z"
  define r1 where "r1 = rd_zremrangebyscore rd t k (t - w) r"
  have look1: "look r1 t = (look r t)(k := put_zset ?z1 x)" unfolding r1_def by (rule zremrangebyscore [OF z])
  obtain x1 where z1: "as_zset (look r1 t k) = Some (?z1, x1)" by (simp add: look1 as_put_zset)
  have "set ms \<inter> snd ` set ?z1 = {}" using ms(3) by auto
  from zadd_members_spec [OF z1 _ ms(2) this, of "nat cost"] ms(1) obtain r2 z2 where
    zadds: "zadd_members rd t k (nat cost) ms r1 = (True, r2)" and look2: "look r2 t = (look r1 t)(k := put_zset z2 x1)"
    and z2: "as_zset (look r2 t k) = Some (z2, x1)"
    and keys: "mset (map fst z2) = mset (map fst ?z1) + replicate_mset (nat cost) t"
    and mem: "snd ` set z2 = snd ` set ?z1 \<union> set ms" by auto
  have fst1: "map fst ?z1 = filter (\<lambda>s. t - w < s) (map fst z)" by (simp add: filter_map o_def case_prod_unfold)
  have "sorted L" using sorted_filter [OF as_zset_sorted [OF z], of "\<lambda>(s', m'). t - w < s'"] past
    by (auto simp: L fst1 [symmetric] sorted_append)
  moreover have "mset L = mset (map fst z2)" by (simp add: keys fst1 L flip: mset_map)
  ultimately have Lz: "map fst z2 = L"
    using as_zset_sorted [OF z2] by (metis properties_for_sort)
  have ne: "z2 \<noteq> []" "L \<noteq> []" using Lz pos by (auto simp: L)
  define r3 where "r3 = rd_pexpire rd t k w r2"
  have look3: "look r3 t = (look r t)(k \<mapsto> (RZset z2, Some (t + w)))"
    using pos ne by (simp add: r3_def pexpire look2 look1 put_zset_def)
  then have z3: "as_zset (look r3 t k) = Some (z2, Some (t + w))" by simp
  have len: "length z2 = length L" using Lz by (metis length_map)
  have "hd L = fst (hd z2)" using Lz ne by (metis hd_map)
  then have "LUA_SLIDING_INCR rd k t w cap cost ms r =
      (Inr (LuaArr [int (length L), lua_bool (int (length L) > cap), hd L + w]), r3)"
    using pos ne len zadds by (cases z2)
      (simp_all add: LUA_SLIDING_INCR_def Let_def r1_def [symmetric] zcard [OF z2] r3_def [symmetric] zfirst [OF z3])
  moreover have "snd ` set z2 \<subseteq> snd ` set z \<union> set ms" using mem by auto
  ultimately show ?thesis using look3 Lz by blast
qed

lemma sliding_decr_script:
  assumes "as_zset (look r t k) = Some (z, x)" "1 \<le> n"
  shows "\<exists>r'. LUA_SLIDING_DECR rd t k n newest r = (Inr (LuaInt 1), r') \<and>
    look r' t = (look r t)(k := put_zset (if newest then take (length z - nat n) z else drop (nat n) z) x)"
  using assms(2) zpopmins [OF assms(1)] zpopmaxs [OF assms(1)] by (simp add: LUA_SLIDING_DECR_def)

lemma fixed_incr_script:
  assumes n: "as_num (look r t k) = Some (n, x)" and c: "1 \<le> cost" and w: "1 \<le> w"
  shows "\<exists>r'. LUA_FIXED_INCR rd k w cap t cost r =
      (Inr (LuaArr [n + cost, lua_bool (n + cost > cap), (case (n = 0, x) of (False, Some y) \<Rightarrow> y | _ \<Rightarrow> t + w)]), r') \<and>
    look r' t = (look r t)(k \<mapsto> (RNum (n + cost), if n = 0 then Some (t + w) else x))"
proof -
  obtain r1 where p: "rd_incrby rd t k cost r = (n + cost, r1)" "look r1 t = (look r t)(k \<mapsto> (RNum (n + cost), x))"
    using incrby [OF n, of cost] by (cases "rd_incrby rd t k cost r") auto
  define r2 where "r2 = (if n = 0 then rd_pexpire rd t k w r1 else r1)"
  have r2: "look r2 t = (look r t)(k \<mapsto> (RNum (n + cost), if n = 0 then Some (t + w) else x))"
    using w by (simp add: r2_def pexpire p)
  let ?at = "case (n = 0, x) of (False, Some y) \<Rightarrow> y | _ \<Rightarrow> t + w"
  have "t < y" if "x = Some y" for y
    using that n look_alive [of r t k] by (auto simp: as_num_def split: option.splits prod.splits redis_value.splits)
  then have at: "t + (if rd_pttl rd t k r2 < 0 then w else rd_pttl rd t k r2) = ?at"
    using w by (auto simp: pttl r2 split: option.splits)
  have cur: "(if n + cost = cost then rd_pexpire rd t k w r1 else r1) = r2" by (simp add: r2_def)
  have "\<not> cost < 1" using c by simp
  then have "LUA_FIXED_INCR rd k w cap t cost r = (Inr (LuaArr [n + cost, lua_bool (n + cost > cap), ?at]), r2)"
    by (simp only: LUA_FIXED_INCR_def Let_def if_False p prod.case cur at)
  with r2 show ?thesis by blast
qed

lemma fixed_decr_script:
  assumes n: "as_num (look r t k) = Some (n, x)" and d: "1 \<le> d"
  shows "\<exists>r' y. LUA_FIXED_DECR rd t k d r = (Inr (LuaInt y), r') \<and>
    look r' t = (if n \<le> 0 then look r t else (look r t)(k \<mapsto> (RNum (n - min n d), x)))"
proof -
  have v: "(case rd_get rd t k r of None \<Rightarrow> 0 | Some n \<Rightarrow> n) = n"
    using n get [OF n] by (auto simp: as_num_def split: option.splits)
  show ?thesis using d incrby [OF n, of "- min n d"] by (auto simp: LUA_FIXED_DECR_def Let_def v)
qed

lemma bucket_incr_script:
  assumes h: "as_hash (look r t k) = Some (h, x)" and c: "1 \<le> cost" "1 \<le> iv"
    and st: "(h ''tokens'' = None \<and> (tok, l) = (bsize, t)) \<or> (h ''tokens'' = Some tok \<and> h ''last_refill'' = Some l)"
    and refill: "(tok', l') = (if (t - l) div iv > 0 then (min bsize (tok + (t - l) div iv * tpi), l + (t - l) div iv * iv) else (tok, l))"
    and new: "N = (if tok' \<ge> cost then tok' - cost else tok')"
  shows "\<exists>r' h'. LUA_BUCKET_INCR rd k t tpi iv bsize cost r =
      (Inr (LuaArr (if tok' \<ge> cost then [1, N, bsize - N, 0, l' + iv] else [0, tok', bsize, 1, l' + iv])), r') \<and>
    look r' t = (look r t)(k \<mapsto> (RHash h', Some (t + iv * 10))) \<and> h' ''tokens'' = Some N \<and> h' ''last_refill'' = Some l'"
proof -
  have b: "lua_bucket_state rd t k bsize r = Some (tok, l)"
    using st by (auto simp: lua_bucket_state_def hget [OF h])
  define r1 where "r1 = rd_hset rd t k [(''tokens'', N), (''last_refill'', l')] r"
  define h1 where "h1 = (\<lambda>f. case map_of (rev [(''tokens'', N), (''last_refill'', l')]) f of None \<Rightarrow> h f | Some n \<Rightarrow> Some n)"
  have h': "h1 ''tokens'' = Some N" "h1 ''last_refill'' = Some l'" by (simp_all add: h1_def)
  have "look r1 t = (look r t)(k \<mapsto> (RHash h1, x))" unfolding r1_def h1_def by (rule hset [OF h])
  then have "look (rd_pexpire rd t k (iv * 10) r1) t = (look r t)(k \<mapsto> (RHash h1, Some (t + iv * 10)))"
    using c by (simp add: pexpire)
  moreover have "LUA_BUCKET_INCR rd k t tpi iv bsize cost r =
      (Inr (LuaArr (if tok' \<ge> cost then [1, N, bsize - N, 0, l' + iv] else [0, tok', bsize, 1, l' + iv])),
       rd_pexpire rd t k (iv * 10) r1)"
    using c refill [symmetric] by (simp add: LUA_BUCKET_INCR_def Let_def b r1_def new)
  ultimately show ?thesis using h' by blast
qed

lemma bucket_decr_script:
  assumes h: "as_hash (look r t k) = Some (h, x)" and d: "1 \<le> d"
  shows "\<exists>r' y. LUA_BUCKET_DECR rd t k bsize d r = (Inr (LuaInt y), r') \<and>
    (case h ''tokens'' of
       None \<Rightarrow> look r' t = look r t
     | Some tok \<Rightarrow> look r' t = (look r t)(k \<mapsto> (RHash (h(''tokens'' \<mapsto> min bsize (tok + d))), x)))"
proof -
  have "(\<lambda>f. case map_of (rev [(''tokens'', N)]) f of None \<Rightarrow> h f | Some n \<Rightarrow> Some n) = h(''tokens'' \<mapsto> N)" for N
    by (auto simp: fun_eq_iff)
  then show ?thesis using d hset [OF h, of "[(''tokens'', min bsize (tok + d))]" for tok]
    by (auto simp: LUA_BUCKET_DECR_def Let_def hget [OF h] split: option.splits)
qed

end

section \<open>The simulation\<close>

text \<open>A store whose calls all reach Redis and that has no insurance; its random members never repeat.\<close>

definition healthy :: "'r redis_store \<Rightarrow> bool" where
  "healthy s \<longleftrightarrow> rs_resilience s = None \<and> \<not> rs_connectionFailed s \<and> (rs_client s \<or> rs_clientLoads s) \<and>
     (\<forall>n. rs_net s n = Delivered) \<and> inj (rs_rand s)"

definition same_config :: "'r redis_store \<Rightarrow> mem_store \<Rightarrow> bool" where
  "same_config s m \<longleftrightarrow> rs_strategy s = ms_strategy m \<and> rs_windowMs s = ms_windowMs m \<and>
     rs_maxRequests s = ms_maxRequests m \<and> rs_tokensPerInterval s = ms_tokensPerInterval m \<and>
     rs_refillIntervalMs s = ms_refillIntervalMs m \<and> rs_bucketSize s = ms_bucketSize m"

definition zset_holds :: "int \<Rightarrow> time \<Rightarrow> string set \<Rightarrow> time list \<Rightarrow> redis_entry option \<Rightarrow> bool" where
  "zset_holds w t used ts e =
     (case e of
        None \<Rightarrow> \<forall>y \<in> set ts. y \<le> t - w
      | Some (RZset z, Some x) \<Rightarrow> map fst z = ts \<and> snd ` set z \<subseteq> used \<and> (\<forall>y \<in> set ts. y + w \<le> x)
      | _ \<Rightarrow> False)"

lemma zset_holds_mono: "zset_holds w t used ts e \<Longrightarrow> used \<subseteq> used' \<Longrightarrow> zset_holds w t used' ts e"
  by (auto simp: zset_holds_def image_subset_iff subset_iff split: option.splits prod.splits redis_value.splits)

text \<open>One key: the live Redis entry and the in-memory entry at time \<open>t\<close>. Redis drops a token bucket ten
  intervals after its last increment, before \<open>H\<close> it does not.\<close>

definition entry_sim :: "mem_store \<Rightarrow> time \<Rightarrow> time \<Rightarrow> string set \<Rightarrow> redis_entry option \<Rightarrow> key_state option \<Rightarrow> bool" where
  "entry_sim m H t used e e' =
     (case ms_strategy m of
        SLIDING_WINDOW \<Rightarrow>
          (\<exists>ts. (e' = Some (Sliding ts None) \<or> e' = None \<and> ts = []) \<and> sorted ts \<and> (\<forall>y \<in> set ts. y \<le> t) \<and>
             zset_holds (ms_windowMs m) t used ts e)
      | FIXED_WINDOW \<Rightarrow>
          (case e of
             None \<Rightarrow> (\<forall>c r. e' = Some (Fixed c r) \<longrightarrow> r \<le> t)
           | Some (RNum n, Some x) \<Rightarrow> if n = 0 then e' = None else 0 < n \<and> e' = Some (Fixed n x)
           | _ \<Rightarrow> False)
      | TOKEN_BUCKET \<Rightarrow>
          (case e of
             None \<Rightarrow> e' = None
           | Some (RHash h, Some x) \<Rightarrow> H \<le> x \<and> (\<exists>tok l. h ''tokens'' = Some tok \<and> h ''last_refill'' = Some l \<and> e' = Some (Bucket tok l))
           | _ \<Rightarrow> False))"

definition redis_sim ::
  "('r \<Rightarrow> time \<Rightarrow> key \<Rightarrow> redis_entry option) \<Rightarrow> time \<Rightarrow> time \<Rightarrow> 'r redis_store \<Rightarrow> mem_store \<Rightarrow> bool" where
  "redis_sim look H t s m \<longleftrightarrow> mem_inv m \<and> ms_maxKeys m = 0 \<and> same_config s m \<and> healthy s \<and>
     (\<forall>k. entry_sim m H t (rs_rand s ` {..<rs_used s})
        (look (rs_server s) t (redisKey (strategy_kind (rs_strategy s)) k s)) (map_of (ms_state m) k))"

text \<open>The answers agree; a blocked token bucket in Redis still reports its tokens as remaining.\<close>

definition answers_agree :: "strategy \<Rightarrow> rl_result \<Rightarrow> rl_result \<Rightarrow> bool" where
  "answers_agree st r r' \<longleftrightarrow> (if st = TOKEN_BUCKET \<and> isBlocked r' then r\<lparr>remaining := 0\<rparr> = r' else r = r')"

lemma redisKey_inj: "redisKey kind k' s = redisKey kind k s \<longleftrightarrow> k' = k"
  by (simp add: redisKey_def)

lemma eval_healthy:
  assumes "healthy s" "f (rs_server s) = (Inr x, r)"
  shows "evalScript f s = (x, s\<lparr>rs_client := True, rs_calls := Suc (rs_calls s), rs_server := r\<rparr>)"
  using assms by (auto simp: healthy_def evalScript_def getClient_def rs_roundtrip_def)

lemma entry_sim_cong: "mem_cfg m' = mem_cfg m \<Longrightarrow> entry_sim m' = entry_sim m"
  by (intro ext) (auto simp: entry_sim_def dest!: mem_cfg_eqD split: strategy.splits)

lemma entry_sim_mono:
  assumes "entry_sim m H t used e e'" "used \<subseteq> used'"
  shows "entry_sim m H t used' e e'"
  using assms(1) zset_holds_mono [OF _ assms(2)]
  by (cases "ms_strategy m") (simp_all add: entry_sim_def, blast)

lemma entry_sim_absent:
  "ms_state m = [] \<Longrightarrow> entry_sim m H t used None (map_of (ms_state m) k)"
  by (auto simp: entry_sim_def zset_holds_def split: strategy.splits)

context redis_server
begin

lemma entry_sim_passes:
  assumes "entry_sim m H t used (look r t k) e'" "t \<le> t'" "ms_strategy m = TOKEN_BUCKET \<longrightarrow> t' < H"
  shows "entry_sim m H t' used (look r t' k) e'"
proof (cases "ms_strategy m")
  case SLIDING_WINDOW
  then obtain ts where ts: "e' = Some (Sliding ts None) \<or> e' = None \<and> ts = []" "sorted ts" "\<forall>y \<in> set ts. y \<le> t"
    and e: "zset_holds (ms_windowMs m) t used ts (look r t k)"
    using assms(1) by (auto simp: entry_sim_def)
  have "zset_holds (ms_windowMs m) t' used ts (look r t' k)"
  proof (cases "look r t k")
    case None
    then show ?thesis using e passes [OF assms(2), of r k] assms(2) by (force simp: zset_holds_def)
  next
    case (Some p)
    then obtain z x where p: "look r t k = Some (RZset z, Some x)"
      and z: "map fst z = ts" "snd ` set z \<subseteq> used" "\<forall>y \<in> set ts. y + ms_windowMs m \<le> x"
      using e by (auto simp: zset_holds_def split: prod.splits redis_value.splits option.splits)
    have "look r t' k = (if t' < x then Some (RZset z, Some x) else None)"
      using passes [OF assms(2), of r k] by (simp add: p)
    moreover have "\<forall>y \<in> set ts. y \<le> t' - ms_windowMs m" if "\<not> t' < x" using z(3) that by force
    ultimately show ?thesis using z by (simp add: zset_holds_def)
  qed
  moreover have "\<forall>y \<in> set ts. y \<le> t'" using ts(3) assms(2) by force
  ultimately show ?thesis using SLIDING_WINDOW ts by (auto simp: entry_sim_def)
next
  case FIXED_WINDOW
  then show ?thesis using assms(1,2) passes [OF assms(2), of r k]
    by (auto simp: entry_sim_def split: option.splits prod.splits redis_value.splits if_splits)
next
  case TOKEN_BUCKET
  then show ?thesis using assms passes [OF assms(2), of r k]
    by (auto simp: entry_sim_def split: option.splits prod.splits redis_value.splits if_splits)
qed

lemma redis_sim_passes:
  assumes "redis_sim look H t s m" "t \<le> t'" "ms_strategy m = TOKEN_BUCKET \<longrightarrow> t' < H"
  shows "redis_sim look H t' s m"
  using assms(1) entry_sim_passes [OF _ assms(2,3)] unfolding redis_sim_def by blast

text \<open>One operation on one key.\<close>

lemma sim_step:
  assumes sim: "redis_sim look H t s m"
    and s1: "s1 = s\<lparr>rs_client := True, rs_calls := c, rs_server := r', rs_used := u\<rparr>" "rs_used s \<le> u"
    and look': "look r' t = (look (rs_server s) t)(redisKey (strategy_kind (rs_strategy s)) k s := e)"
    and m': "mem_inv m'" "mem_cfg m' = mem_cfg m" "\<forall>k'. k' \<noteq> k \<longrightarrow> map_of (ms_state m') k' = map_of (ms_state m) k'"
    and e: "entry_sim m H t (rs_rand s ` {..<u}) e (map_of (ms_state m') k)"
  shows "redis_sim look H t s1 m'"
proof -
  have keys: "redisKey kind k' s1 = redisKey kind k' s" for kind k' by (simp add: s1 redisKey_def)
  have "entry_sim m' H t (rs_rand s ` {..<u}) (look r' t (redisKey (strategy_kind (rs_strategy s)) k' s)) (map_of (ms_state m') k')"
    for k'
  proof (cases "k' = k")
    case True
    then show ?thesis using e by (simp add: look' entry_sim_cong [OF m'(2)])
  next
    case False
    have "entry_sim m H t (rs_rand s ` {..<rs_used s}) (look (rs_server s) t (redisKey (strategy_kind (rs_strategy s)) k' s))
        (map_of (ms_state m) k')"
      using sim by (simp add: redis_sim_def)
    from entry_sim_mono [OF this, of "rs_rand s ` {..<u}"] False s1(2) m'(3) show ?thesis
      by (simp add: look' redisKey_inj entry_sim_cong [OF m'(2)] image_mono)
  qed
  then show ?thesis
    using sim mem_cfg_eqD [OF m'(2)] m'(1) unfolding redis_sim_def keys same_config_def healthy_def by (simp add: s1)
qed

lemma sim_fields:
  assumes "redis_sim look H t s m"
  shows "mem_inv m" "ms_maxKeys m = 0" "healthy s" "rs_strategy s = ms_strategy m" "rs_windowMs s = ms_windowMs m"
    "rs_maxRequests s = ms_maxRequests m" "rs_tokensPerInterval s = ms_tokensPerInterval m"
    "rs_refillIntervalMs s = ms_refillIntervalMs m" "rs_bucketSize s = ms_bucketSize m" "rs_resilience s = None"
    "entry_sim m H t (rs_rand s ` {..<rs_used s}) (look (rs_server s) t (redisKey (strategy_kind (ms_strategy m)) k s)) (map_of (ms_state m) k)"
  using assms by (auto simp: redis_sim_def same_config_def healthy_def)

lemma unique_members:
  assumes "healthy s" "1 \<le> cost"
  obtains ms where "slidingWindowUniqueMembers cost s = (ms, s\<lparr>rs_used := rs_used s + nat cost\<rparr>)"
    "length ms = nat cost" "distinct ms" "set ms \<inter> rs_rand s ` {..<rs_used s} = {}"
    "set ms \<subseteq> rs_rand s ` {..<rs_used s + nat cost}"
proof -
  have inj: "rs_rand s i = rs_rand s j \<longleftrightarrow> i = j" for i j using assms(1) by (auto simp: healthy_def dest: injD)
  show ?thesis
    by (rule that [of "map (\<lambda>i. rs_rand s (rs_used s + i)) [0..<nat cost]"])
      (use assms(2) inj in \<open>auto simp: slidingWindowUniqueMembers_def distinct_map inj_on_def\<close>)
qed

lemma mem_increment_others:
  assumes "redis_sim look H t s m" "mem_increment t k o' m = (r', m1)"
  shows "mem_inv m1" "mem_cfg m1 = mem_cfg m" "\<forall>k'. k' \<noteq> k \<longrightarrow> map_of (ms_state m1) k' = map_of (ms_state m) k'"
    "r' = fst (entry_increment m t o' (map_of (ms_state m) k))"
    "map_of (ms_state m1) k = Some (snd (entry_increment m t o' (map_of (ms_state m) k)))"
  using mem_increment_inv [OF sim_fields(1) [OF assms(1)] assms(2)] mem_increment_entry [OF sim_fields(1) [OF assms(1)] assms(2)]
    mem_increment_frame [OF mem_inv_jsmap assms(2)] sim_fields(1,2) [OF assms(1)]
  by (auto simp: has_room_def)

lemma sim_increment_sliding:
  assumes sim: "redis_sim look H t s m" and st: "ms_strategy m = SLIDING_WINDOW"
    and inc: "mem_increment t k o' m = (r', m1)"
  shows "\<exists>s1. redis_increment rd t k o' s = (r', s1) \<and> redis_sim look H t s1 m1"
proof -
  note f = sim_fields [OF sim] and m1 = mem_increment_others [OF sim inc]
  let ?w = "ms_windowMs m" and ?rk = "redisKey ''sw'' k s" and ?c = "eff_cost o'" and ?used = "rs_rand s ` {..<rs_used s}"
  have w: "1 \<le> ?w" using f(1) st by (simp add: mem_inv_def cfg_ok_def)
  obtain ts where ts: "map_of (ms_state m) k = Some (Sliding ts None) \<or> map_of (ms_state m) k = None \<and> ts = []"
    "sorted ts" "\<forall>y \<in> set ts. y \<le> t" and z0: "zset_holds ?w t ?used ts (look (rs_server s) t ?rk)"
    using f(11) [of k] st by (auto simp: entry_sim_def strategy_kind_def)
  define L where "L = filter (\<lambda>y. t - ?w < y) ts @ replicate (nat ?c) t"
  obtain z x where z: "as_zset (look (rs_server s) t ?rk) = Some (z, x)" "snd ` set z \<subseteq> ?used" "\<forall>y \<in> fst ` set z. y \<le> t"
    and L: "L = filter (\<lambda>y. t - ?w < y) (map fst z) @ replicate (nat ?c) t"
  proof (cases "look (rs_server s) t ?rk")
    case None
    have "L = filter (\<lambda>y. t - ?w < y) (map fst []) @ replicate (nat ?c) t"
      using z0 None by (auto simp: L_def zset_holds_def filter_empty_conv)
    then show ?thesis by (intro that [of "[]" None]) (simp_all add: None)
  next
    case (Some p)
    then obtain z x where "look (rs_server s) t ?rk = Some (RZset z, Some x)" "map fst z = ts" "snd ` set z \<subseteq> ?used"
      using z0 by (auto simp: zset_holds_def split: prod.splits redis_value.splits option.splits)
    then show ?thesis using ts(3) by (intro that [of z "Some x"]) (fastforce simp: L_def)+
  qed
  obtain ms where ms: "slidingWindowUniqueMembers ?c s = (ms, s\<lparr>rs_used := rs_used s + nat ?c\<rparr>)"
    "length ms = nat ?c" "distinct ms" "set ms \<inter> ?used = {}" "set ms \<subseteq> rs_rand s ` {..<rs_used s + nat ?c}"
    using unique_members [OF f(3), of ?c] by auto
  have "set ms \<inter> snd ` set z = {}" using ms(4) z(2) by blast
  from sliding_incr_script [OF z(1) ms(2,3) this _ w z(3) L, of "eff_cap m o'"] obtain q z' where
    script: "LUA_SLIDING_INCR rd ?rk t ?w (eff_cap m o') ?c ms (rs_server s) =
      (Inr (LuaArr [int (length L), lua_bool (int (length L) > eff_cap m o'), hd L + ?w]), q)"
    and look': "look q t = (look (rs_server s) t)(?rk \<mapsto> (RZset z', Some (t + ?w)))"
    and z': "map fst z' = L" "snd ` set z' \<subseteq> snd ` set z \<union> set ms" by auto
  let ?s1 = "s\<lparr>rs_client := True, rs_calls := Suc (rs_calls s), rs_server := q, rs_used := rs_used s + nat ?c\<rparr>"
  have ev: "evalScript (LUA_SLIDING_INCR rd ?rk t ?w (eff_cap m o') ?c ms) (s\<lparr>rs_used := rs_used s + nat ?c\<rparr>) =
      (LuaArr [int (length L), lua_bool (int (length L) > eff_cap m o'), hd L + ?w], ?s1)"
    using f(3) script by (subst eval_healthy) (auto simp: healthy_def)
  have live: "live_stamps ?w t (map_of (ms_state m) k) = filter (\<lambda>y. t - ?w < y) ts"
    using ts(1) by (auto simp: live_stamps_def)
  have r': "r' = window_result (int (length L)) (eff_cap m o') (hd L + ?w)"
    "map_of (ms_state m1) k = Some (Sliding L None)"
    using m1(4,5) st live by (simp_all add: entry_increment_def Let_def L_def)
  have key: "redisKey ''sw'' k (s\<lparr>rs_used := rs_used s + nat ?c\<rparr>) = ?rk" by (simp add: redisKey_def)
  have cap: "sanitizeRateLimitCap (js_or (opt_maxRequests o') (js_int (rs_maxRequests s))) (rs_maxRequests s) = eff_cap m o'"
    by (simp add: eff_cap_def f)
  have "redis_increment rd t k o' s = (r', ?s1)"
    using ev f(4,5,10) st
    by (simp add: redis_increment_def incrRedis_def incrSlidingRedis_def Let_def cap eff_cost_def [symmetric] ms(1) key
        window_reply_def window_result_def lua_bool_def r'(1))
  moreover have "redis_sim look H t ?s1 m1"
  proof (rule sim_step [OF sim refl _ _ m1(1-3)])
    show "look q t = (look (rs_server s) t)(redisKey (strategy_kind (rs_strategy s)) k s \<mapsto> (RZset z', Some (t + ?w)))"
      using look' f(4) st by (simp add: strategy_kind_def)
    let ?U = "rs_rand s ` {..<rs_used s + nat ?c}"
    have "?used \<subseteq> ?U" by (rule image_mono) auto
    then have "snd ` set z' \<subseteq> ?U" by (meson z'(2) z(2) ms(5) Un_least order_trans)
    moreover have past: "\<forall>y \<in> set L. y \<le> t" using ts(3) by (auto simp: L_def)
    ultimately have "zset_holds ?w t ?U L (Some (RZset z', Some (t + ?w)))" using z'(1) by (simp add: zset_holds_def)
    moreover have "sorted L" using ts(2,3) by (auto simp: L_def sorted_append sorted_wrt_filter)
    ultimately show "entry_sim m H t ?U (Some (RZset z', Some (t + ?w))) (map_of (ms_state m1) k)"
      unfolding entry_sim_def st strategy.case r'(2) using past by blast
  qed simp
  ultimately show ?thesis by blast
qed

lemma sim_increment_fixed:
  assumes sim: "redis_sim look H t s m" and st: "ms_strategy m = FIXED_WINDOW"
    and inc: "mem_increment t k o' m = (r', m1)"
  shows "\<exists>s1. redis_increment rd t k o' s = (r', s1) \<and> redis_sim look H t s1 m1"
proof -
  note f = sim_fields [OF sim] and m1 = mem_increment_others [OF sim inc]
  let ?w = "ms_windowMs m" and ?rk = "redisKey ''fw'' k s" and ?c = "eff_cost o'" and ?e = "map_of (ms_state m) k"
  have w: "1 \<le> ?w" using f(1) st by (simp add: mem_inv_def cfg_ok_def)
  have e: "case look (rs_server s) t ?rk of
      None \<Rightarrow> (\<forall>c r. ?e = Some (Fixed c r) \<longrightarrow> r \<le> t)
    | Some (RNum n, Some x) \<Rightarrow> if n = 0 then ?e = None else 0 < n \<and> ?e = Some (Fixed n x)
    | _ \<Rightarrow> False"
    using f(11) [of k] st by (simp add: entry_sim_def strategy_kind_def)
  obtain n x where n: "as_num (look (rs_server s) t ?rk) = Some (n, x)"
    and live: "live_fixed ?w t ?e = (n, case (n = 0, x) of (False, Some y) \<Rightarrow> y | _ \<Rightarrow> t + ?w)"
    and n0: "0 \<le> n" "n \<noteq> 0 \<Longrightarrow> x \<noteq> None"
  proof (cases "look (rs_server s) t ?rk")
    case None
    then show ?thesis using e by (intro that [of 0 None]) (auto simp: live_fixed_def split: option.splits key_state.splits)
  next
    case (Some p)
    then obtain n x where p: "look (rs_server s) t ?rk = Some (RNum n, Some x)"
      and n: "if n = 0 then ?e = None else 0 < n \<and> ?e = Some (Fixed n x)"
      using e by (auto split: prod.splits redis_value.splits option.splits)
    have "t < x" by (rule look_alive [OF p])
    with p n show ?thesis by (intro that [of n "Some x"]) (auto simp: live_fixed_def split: if_splits)
  qed
  let ?at = "case (n = 0, x) of (False, Some y) \<Rightarrow> y | _ \<Rightarrow> t + ?w"
  from fixed_incr_script [OF n _ w, of ?c "eff_cap m o'"] obtain q where
    script: "LUA_FIXED_INCR rd ?rk ?w (eff_cap m o') t ?c (rs_server s) =
      (Inr (LuaArr [n + ?c, lua_bool (n + ?c > eff_cap m o'), ?at]), q)"
    and look': "look q t = (look (rs_server s) t)(?rk \<mapsto> (RNum (n + ?c), if n = 0 then Some (t + ?w) else x))" by auto
  have r': "r' = window_result (n + ?c) (eff_cap m o') ?at" "map_of (ms_state m1) k = Some (Fixed (n + ?c) ?at)"
    using m1(4,5) st live by (simp_all add: entry_increment_def Let_def)
  have cap: "sanitizeRateLimitCap (js_or (opt_maxRequests o') (js_int (rs_maxRequests s))) (rs_maxRequests s) = eff_cap m o'"
    by (simp add: eff_cap_def f)
  let ?s1 = "s\<lparr>rs_client := True, rs_calls := Suc (rs_calls s), rs_server := q\<rparr>"
  have "redis_increment rd t k o' s = (r', ?s1)"
    using eval_healthy [of s "LUA_FIXED_INCR rd ?rk ?w (eff_cap m o') t ?c", OF f(3) script] f(4,5,10) st
    by (simp add: redis_increment_def incrRedis_def incrFixedRedis_def Let_def cap eff_cost_def [symmetric]
        window_reply_def window_result_def lua_bool_def r'(1))
  moreover have "redis_sim look H t ?s1 m1"
  proof (rule sim_step [OF sim _ _ _ m1(1-3)])
    show "?s1 = s\<lparr>rs_client := True, rs_calls := Suc (rs_calls s), rs_server := q, rs_used := rs_used s\<rparr>" by simp
    show "look q t = (look (rs_server s) t)(redisKey (strategy_kind (rs_strategy s)) k s \<mapsto>
        (RNum (n + ?c), if n = 0 then Some (t + ?w) else x))"
      using look' f(4) st by (simp add: strategy_kind_def)
    have "0 < n + ?c" using n0(1) eff_cost_pos(1) [of o'] by linarith
    then show "entry_sim m H t (rs_rand s ` {..<rs_used s}) (Some (RNum (n + ?c), if n = 0 then Some (t + ?w) else x))
        (map_of (ms_state m1) k)"
      using st r'(2) n0(2) by (auto simp: entry_sim_def)
  qed simp
  ultimately show ?thesis by blast
qed

lemma sim_increment_bucket:
  assumes sim: "redis_sim look H t s m" and st: "ms_strategy m = TOKEN_BUCKET"
    and H: "H \<le> t + ms_refillIntervalMs m * 10" and inc: "mem_increment t k o' m = (r', m1)"
  shows "\<exists>r s1. redis_increment rd t k o' s = (r, s1) \<and> answers_agree TOKEN_BUCKET r r' \<and> redis_sim look H t s1 m1"
proof -
  note f = sim_fields [OF sim] and m1 = mem_increment_others [OF sim inc]
  let ?iv = "ms_refillIntervalMs m" and ?bs = "ms_bucketSize m" and ?rk = "redisKey ''tb'' k s" and ?c = "eff_cost o'"
    and ?e = "map_of (ms_state m) k"
  have iv: "1 \<le> ?iv" using f(1) st by (simp add: mem_inv_def cfg_ok_def)
  have e: "case look (rs_server s) t ?rk of
      None \<Rightarrow> ?e = None
    | Some (RHash h, Some x) \<Rightarrow> H \<le> x \<and> (\<exists>tok l. h ''tokens'' = Some tok \<and> h ''last_refill'' = Some l \<and> ?e = Some (Bucket tok l))
    | _ \<Rightarrow> False"
    using f(11) [of k] st by (simp add: entry_sim_def strategy_kind_def)
  obtain h x tok l where h: "as_hash (look (rs_server s) t ?rk) = Some (h, x)"
    and tl: "(h ''tokens'' = None \<and> (tok, l) = (?bs, t)) \<or> (h ''tokens'' = Some tok \<and> h ''last_refill'' = Some l)"
    and live: "live_bucket m t ?e = refillBucketStateForNow m tok l t"
  proof (cases "look (rs_server s) t ?rk")
    case None
    then show ?thesis using e by (intro that [of Map.empty None ?bs t]) (auto simp: live_bucket_def refillBucketStateForNow_def)
  next
    case (Some p)
    then obtain h x tok l where "look (rs_server s) t ?rk = Some (RHash h, Some x)" "h ''tokens'' = Some tok"
      "h ''last_refill'' = Some l" "?e = Some (Bucket tok l)"
      using e by (auto split: prod.splits redis_value.splits option.splits)
    then show ?thesis by (intro that [of h "Some x" tok l]) (auto simp: live_bucket_def)
  qed
  obtain tok' l' where new: "refillBucketStateForNow m tok l t = (tok', l')" by fastforce
  then have refill: "(tok', l') = (if (t - l) div ?iv > 0
      then (min ?bs (tok + (t - l) div ?iv * ms_tokensPerInterval m), l + (t - l) div ?iv * ?iv) else (tok, l))"
    by (simp add: refillBucketStateForNow_def Let_def)
  define N where "N = (if tok' \<ge> ?c then tok' - ?c else tok')"
  from bucket_incr_script [OF h _ iv tl refill N_def] obtain q h' where
    script: "LUA_BUCKET_INCR rd ?rk t (ms_tokensPerInterval m) ?iv ?bs ?c (rs_server s) =
      (Inr (LuaArr (if tok' \<ge> ?c then [1, N, ?bs - N, 0, l' + ?iv] else [0, tok', ?bs, 1, l' + ?iv])), q)"
    and look': "look q t = (look (rs_server s) t)(?rk \<mapsto> (RHash h', Some (t + ?iv * 10)))"
    and h': "h' ''tokens'' = Some N" "h' ''last_refill'' = Some l'" by auto
  define r where "r = (if tok' \<ge> ?c then plain_result (?bs - N) N (l' + ?iv) False else plain_result ?bs tok' (l' + ?iv) True)"
  have r': "answers_agree TOKEN_BUCKET r r'" "map_of (ms_state m1) k = Some (Bucket N l')"
    using m1(4,5) st live new
    by (auto simp: entry_increment_def N_def answers_agree_def r_def)
  let ?s1 = "s\<lparr>rs_client := True, rs_calls := Suc (rs_calls s), rs_server := q\<rparr>"
  have "redis_increment rd t k o' s = (r, ?s1)"
    using eval_healthy [of s "LUA_BUCKET_INCR rd ?rk t (ms_tokensPerInterval m) ?iv ?bs ?c", OF f(3) script] f(4,7,8,9,10) st
    by (simp add: redis_increment_def incrRedis_def incrBucketRedis_def Let_def eff_cost_def [symmetric] bucket_reply_def r_def)
  moreover have "redis_sim look H t ?s1 m1"
  proof (rule sim_step [OF sim _ _ _ m1(1-3)])
    show "?s1 = s\<lparr>rs_client := True, rs_calls := Suc (rs_calls s), rs_server := q, rs_used := rs_used s\<rparr>" by simp
    show "look q t = (look (rs_server s) t)(redisKey (strategy_kind (rs_strategy s)) k s \<mapsto> (RHash h', Some (t + ?iv * 10)))"
      using look' f(4) st by (simp add: strategy_kind_def)
    show "entry_sim m H t (rs_rand s ` {..<rs_used s}) (Some (RHash h', Some (t + ?iv * 10))) (map_of (ms_state m1) k)"
      using st r'(2) h' H by (auto simp: entry_sim_def)
  qed simp
  ultimately show ?thesis using r'(1) by blast
qed

lemma sim_increment:
  assumes "redis_sim look H t s m" "H \<le> t + ms_refillIntervalMs m * 10 \<or> ms_strategy m \<noteq> TOKEN_BUCKET"
    and "mem_increment t k o' m = (r', m1)"
  shows "\<exists>r s1. redis_increment rd t k o' s = (r, s1) \<and> answers_agree (ms_strategy m) r r' \<and> redis_sim look H t s1 m1"
  using assms sim_increment_sliding [OF assms(1) _ assms(3)] sim_increment_fixed [OF assms(1) _ assms(3)]
    sim_increment_bucket [OF assms(1) _ _ assms(3)]
  by (cases "ms_strategy m") (auto simp: answers_agree_def)

lemma sim_decrement_sliding:
  assumes sim: "redis_sim look H t s m" and st: "ms_strategy m = SLIDING_WINDOW"
  shows "redis_sim look H t (redis_decrement rd t k d s) (mem_decrement k d m)"
proof -
  note f = sim_fields [OF sim]
  let ?w = "ms_windowMs m" and ?rk = "redisKey ''sw'' k s" and ?c = "sanitizeIncrementCost (opt_dec_cost d) 1"
    and ?used = "rs_rand s ` {..<rs_used s}" and ?e = "map_of (ms_state m) k" and ?b = "opt_removeNewest d"
  obtain ts where ts: "?e = Some (Sliding ts None) \<or> ?e = None \<and> ts = []"
    "sorted ts" "\<forall>y \<in> set ts. y \<le> t" and z0: "zset_holds ?w t ?used ts (look (rs_server s) t ?rk)"
    using f(11) [of k] st by (auto simp: entry_sim_def strategy_kind_def)
  define ts' where "ts' = (if ?b then take (length ts - nat ?c) ts else drop (nat ?c) ts)"
  have e': "map_of (ms_state (mem_decrement k d m)) k = Some (Sliding ts' None) \<or>
      map_of (ms_state (mem_decrement k d m)) k = None \<and> ts' = []"
    using ts(1)
  proof
    assume "?e = Some (Sliding ts None)"
    from mem_decrement_entry [OF f(1) this, of d] show ?thesis
      by (auto simp: ts'_def entry_undo_def entry_undo_oldest_def Let_def min_def)
  next
    assume "?e = None \<and> ts = []"
    then show ?thesis using mem_decrement_elsewhere(2) by (simp add: ts'_def)
  qed
  have sub: "set ts' \<subseteq> set ts" "sorted ts'"
    using ts(2) by (auto simp: ts'_def dest: in_set_takeD in_set_dropD intro: sorted_wrt_take sorted_wrt_drop)
  obtain z x where z: "as_zset (look (rs_server s) t ?rk) = Some (z, x)"
    using z0 by (auto simp: zset_holds_def as_zset_def split: option.splits prod.splits redis_value.splits)
  define z' where "z' = (if ?b then take (length z - nat ?c) z else drop (nat ?c) z)"
  from sliding_decr_script [OF z, of ?c ?b] obtain q where
    script: "LUA_SLIDING_DECR rd t ?rk ?c ?b (rs_server s) = (Inr (LuaInt 1), q)"
    and look': "look q t = (look (rs_server s) t)(?rk := put_zset z' x)" by (auto simp: z'_def)
  have "zset_holds ?w t ?used ts' (put_zset z' x)"
  proof (cases "look (rs_server s) t ?rk")
    case None
    then have "z' = []" using z by (simp add: z'_def)
    then show ?thesis using z0 None sub(1) by (auto simp: zset_holds_def put_zset_def)
  next
    case (Some p)
    then have zx: "map fst z = ts" "snd ` set z \<subseteq> ?used" "\<exists>y. x = Some y \<and> (\<forall>u \<in> set ts. u + ?w \<le> y)"
      using z0 z by (auto simp: zset_holds_def as_zset_def split: prod.splits redis_value.splits option.splits)
    have z': "map fst z' = ts'" "set z' \<subseteq> set z"
      using zx(1) by (auto simp: z'_def ts'_def take_map drop_map dest: in_set_takeD in_set_dropD)
    then have "snd ` set z' \<subseteq> ?used" using zx(2) by (meson image_mono order_trans)
    moreover obtain y where "x = Some y" "\<forall>u \<in> set ts'. u + ?w \<le> y" using zx(3) sub(1) by blast
    ultimately show ?thesis using z'(1) by (cases "z' = []") (simp_all add: zset_holds_def put_zset_def)
  qed
  moreover have "\<forall>y \<in> set ts'. y \<le> t" using ts(3) sub(1) by blast
  ultimately have ent: "entry_sim m H t ?used (put_zset z' x) (map_of (ms_state (mem_decrement k d m)) k)"
    unfolding entry_sim_def st strategy.case using e' sub(2) by blast
  let ?s1 = "s\<lparr>rs_client := True, rs_calls := Suc (rs_calls s), rs_server := q\<rparr>"
  have "redis_decrement rd t k d s = ?s1"
    using eval_healthy [of s "LUA_SLIDING_DECR rd t ?rk ?c ?b", OF f(3) script] f(4,10) st
    by (simp add: redis_decrement_def shouldRouteQuotaViaInsurance_def Let_def)
  moreover have "redis_sim look H t ?s1 (mem_decrement k d m)"
  proof (rule sim_step [OF sim])
    show "?s1 = s\<lparr>rs_client := True, rs_calls := Suc (rs_calls s), rs_server := q, rs_used := rs_used s\<rparr>" by simp
    show "look q t = (look (rs_server s) t)(redisKey (strategy_kind (rs_strategy s)) k s := put_zset z' x)"
      using look' f(4) st by (simp add: strategy_kind_def)
  qed (simp_all add: mem_decrement_inv [OF f(1)] mem_decrement_elsewhere ent)
  ultimately show ?thesis by simp
qed

lemma sim_decrement_fixed:
  assumes sim: "redis_sim look H t s m" and st: "ms_strategy m = FIXED_WINDOW"
  shows "redis_sim look H t (redis_decrement rd t k d s) (mem_decrement k d m)"
proof -
  note f = sim_fields [OF sim]
  let ?rk = "redisKey ''fw'' k s" and ?c = "sanitizeIncrementCost (opt_dec_cost d) 1" and ?e = "map_of (ms_state m) k"
  let ?e' = "map_of (ms_state (mem_decrement k d m)) k"
  have e: "case look (rs_server s) t ?rk of
      None \<Rightarrow> (\<forall>c r. ?e = Some (Fixed c r) \<longrightarrow> r \<le> t)
    | Some (RNum n, Some x) \<Rightarrow> if n = 0 then ?e = None else 0 < n \<and> ?e = Some (Fixed n x)
    | _ \<Rightarrow> False"
    using f(11) [of k] st by (simp add: entry_sim_def strategy_kind_def)
  obtain n x where n: "as_num (look (rs_server s) t ?rk) = Some (n, x)"
    using e by (auto simp: as_num_def split: option.splits prod.splits redis_value.splits)
  from fixed_decr_script [OF n, of ?c] obtain q y where
    script: "LUA_FIXED_DECR rd t ?rk ?c (rs_server s) = (Inr (LuaInt y), q)"
    and look': "look q t = (if n \<le> 0 then look (rs_server s) t else (look (rs_server s) t)(?rk \<mapsto> (RNum (n - min n ?c), x)))"
    by auto
  define e2 where "e2 = (if n \<le> 0 then look (rs_server s) t ?rk else Some (RNum (n - min n ?c), x))"
  have undo: "?e' = entry_undo m ?c (Fixed c r)" if "?e = Some (Fixed c r)" for c r
    using mem_decrement_entry [OF f(1) that, of d] by (simp add: entry_undo_oldest_def)
  have ent: "entry_sim m H t (rs_rand s ` {..<rs_used s}) e2 ?e'"
  proof (cases "look (rs_server s) t ?rk")
    case None
    then have "n = 0" using n by simp
    then have e2: "e2 = None" by (simp add: e2_def None)
    have "r \<le> t" if e': "?e' = Some (Fixed c r)" for c r
    proof (cases rule: mem_inv_fixed_cases [OF f(1) st, of k])
      case 1
      then show ?thesis using e' mem_decrement_elsewhere(2) [of m k d] by simp
    next
      case (2 c0 r0)
      then show ?thesis using undo [OF 2(1)] e e' None by (auto simp: entry_undo_def split: if_splits)
    qed
    then show ?thesis using st by (simp add: entry_sim_def e2)
  next
    case (Some p)
    then obtain x' where x': "x = Some x'" "if n = 0 then ?e = None else 0 < n \<and> ?e = Some (Fixed n x')" "p = (RNum n, x)"
      using e n by (auto split: prod.splits redis_value.splits option.splits)
    show ?thesis
    proof (cases "n = 0")
      case True
      then show ?thesis using x' Some st mem_decrement_elsewhere(2) [of m k d] by (simp add: entry_sim_def e2_def)
    next
      case False
      then show ?thesis using x' st undo by (auto simp: entry_sim_def e2_def entry_undo_def min_def)
    qed
  qed
  let ?s1 = "s\<lparr>rs_client := True, rs_calls := Suc (rs_calls s), rs_server := q\<rparr>"
  have "redis_decrement rd t k d s = ?s1"
    using eval_healthy [of s "LUA_FIXED_DECR rd t ?rk ?c", OF f(3) script] f(4,10) st
    by (simp add: redis_decrement_def shouldRouteQuotaViaInsurance_def Let_def)
  moreover have "redis_sim look H t ?s1 (mem_decrement k d m)"
  proof (rule sim_step [OF sim])
    show "?s1 = s\<lparr>rs_client := True, rs_calls := Suc (rs_calls s), rs_server := q, rs_used := rs_used s\<rparr>" by simp
    show "look q t = (look (rs_server s) t)(redisKey (strategy_kind (rs_strategy s)) k s := e2)"
      using look' f(4) st by (simp add: strategy_kind_def e2_def)
  qed (simp_all add: mem_decrement_inv [OF f(1)] mem_decrement_elsewhere ent)
  ultimately show ?thesis by simp
qed

lemma sim_decrement_bucket:
  assumes sim: "redis_sim look H t s m" and st: "ms_strategy m = TOKEN_BUCKET"
  shows "redis_sim look H t (redis_decrement rd t k d s) (mem_decrement k d m)"
proof -
  note f = sim_fields [OF sim]
  let ?rk = "redisKey ''tb'' k s" and ?c = "sanitizeIncrementCost (opt_dec_cost d) 1" and ?e = "map_of (ms_state m) k"
  let ?e' = "map_of (ms_state (mem_decrement k d m)) k" and ?bs = "ms_bucketSize m"
  have e: "case look (rs_server s) t ?rk of
      None \<Rightarrow> ?e = None
    | Some (RHash h, Some x) \<Rightarrow> H \<le> x \<and> (\<exists>tok l. h ''tokens'' = Some tok \<and> h ''last_refill'' = Some l \<and> ?e = Some (Bucket tok l))
    | _ \<Rightarrow> False"
    using f(11) [of k] st by (simp add: entry_sim_def strategy_kind_def)
  obtain h x where h: "as_hash (look (rs_server s) t ?rk) = Some (h, x)"
    using e by (auto simp: as_hash_def split: option.splits prod.splits redis_value.splits)
  from bucket_decr_script [OF h, of ?c ?bs] obtain q y where
    script: "LUA_BUCKET_DECR rd t ?rk ?bs ?c (rs_server s) = (Inr (LuaInt y), q)"
    and look': "case h ''tokens'' of
       None \<Rightarrow> look q t = look (rs_server s) t
     | Some tok \<Rightarrow> look q t = (look (rs_server s) t)(?rk \<mapsto> (RHash (h(''tokens'' \<mapsto> min ?bs (tok + ?c))), x))" by auto
  obtain e2 where look2: "look q t = (look (rs_server s) t)(?rk := e2)"
    and ent: "entry_sim m H t (rs_rand s ` {..<rs_used s}) e2 ?e'"
  proof (cases "look (rs_server s) t ?rk")
    case None
    then have "h = Map.empty" using h by simp
    then show ?thesis using None look' e st mem_decrement_elsewhere(2) [of m k d]
      by (intro that [of None]) (auto simp: entry_sim_def fun_eq_iff)
  next
    case (Some p)
    then obtain x' tok l where x': "x = Some x'" "H \<le> x'" "h ''tokens'' = Some tok" "h ''last_refill'' = Some l" "?e = Some (Bucket tok l)"
      using e h by (auto split: prod.splits redis_value.splits option.splits)
    have "?e' = Some (Bucket (min ?bs (tok + ?c)) l)"
      using mem_decrement_entry [OF f(1) x'(5), of d] by (simp add: entry_undo_oldest_def entry_undo_def)
    then show ?thesis using look' x' st
      by (intro that [of "Some (RHash (h(''tokens'' \<mapsto> min ?bs (tok + ?c))), x)"]) (simp_all add: entry_sim_def)
  qed
  let ?s1 = "s\<lparr>rs_client := True, rs_calls := Suc (rs_calls s), rs_server := q\<rparr>"
  have "redis_decrement rd t k d s = ?s1"
    using eval_healthy [of s "LUA_BUCKET_DECR rd t ?rk ?bs ?c", OF f(3) script] f(4,9,10) st
    by (simp add: redis_decrement_def shouldRouteQuotaViaInsurance_def Let_def)
  moreover have "redis_sim look H t ?s1 (mem_decrement k d m)"
  proof (rule sim_step [OF sim])
    show "?s1 = s\<lparr>rs_client := True, rs_calls := Suc (rs_calls s), rs_server := q, rs_used := rs_used s\<rparr>" by simp
    show "look q t = (look (rs_server s) t)(redisKey (strategy_kind (rs_strategy s)) k s := e2)"
      using look2 f(4) st by (simp add: strategy_kind_def)
  qed (simp_all add: mem_decrement_inv [OF f(1)] mem_decrement_elsewhere ent)
  ultimately show ?thesis by simp
qed

lemma sim_decrement:
  "redis_sim look H t s m \<Longrightarrow> redis_sim look H t (redis_decrement rd t k d s) (mem_decrement k d m)"
  using sim_decrement_sliding sim_decrement_fixed sim_decrement_bucket by (cases "ms_strategy m") blast+

end

end
