(* ===== verification/Redis_Store_Properties.thy ===== *)
theory Redis_Store_Properties
  imports Redis_Store_Laws
begin

text \<open>
  Runs of the Redis store: that it answers as the in-memory store does, what happens when Redis
  cannot be reached, how the circuit breaker and the insurance store take over, and where this
  falls short. The witnesses run on the server of \<open>Redis_Server\<close>.
\<close>

section \<open>Runs\<close>

primrec redis_run :: "'r redis \<Rightarrow> quota_call list \<Rightarrow> 'r redis_store \<Rightarrow> rl_result list \<times> 'r redis_store" where
  "redis_run rd [] s = ([], s)"
| "redis_run rd (c # cs) s =
     (case c of
        Inc t k o' \<Rightarrow> (case redis_increment rd t k o' s of (r, s1) \<Rightarrow> (case redis_run rd cs s1 of (rs, s2) \<Rightarrow> (r # rs, s2)))
      | Dec t k d \<Rightarrow> redis_run rd cs (redis_decrement rd t k d s))"

context redis_server
begin

lemma runs_agree:
  assumes "redis_sim look H t s m" "sorted (map call_time cs)" "\<forall>c \<in> set cs. t \<le> call_time c"
    and "ms_strategy m = TOKEN_BUCKET \<longrightarrow> H \<le> t + ms_refillIntervalMs m * 10 \<and> (\<forall>c \<in> set cs. call_time c < H)"
  shows "list_all2 (answers_agree (ms_strategy m)) (fst (redis_run rd cs s)) (fst (mem_run cs m))"
  using assms
proof (induction cs arbitrary: t s m)
  case (Cons c cs)
  let ?t = "call_time c"
  have sim: "redis_sim look H ?t s m" by (rule redis_sim_passes [OF Cons.prems(1)]) (use Cons.prems in auto)
  have rest: "sorted (map call_time cs)" "\<forall>c \<in> set cs. ?t \<le> call_time c" using Cons.prems(2) by auto
  have H: "H \<le> ?t + ms_refillIntervalMs m * 10 \<or> ms_strategy m \<noteq> TOKEN_BUCKET" using Cons.prems(3,4) by auto
  show ?case
  proof (cases c)
    case (Inc t' k o')
    obtain r' m1 where inc: "mem_increment t' k o' m = (r', m1)" by fastforce
    obtain r s1 where "redis_increment rd t' k o' s = (r, s1)" "answers_agree (ms_strategy m) r r'" "redis_sim look H t' s1 m1"
      using sim_increment [OF sim H, of k o' r' m1] inc Inc by auto
    moreover have "mem_cfg m1 = mem_cfg m" by (rule mem_increment_inv [OF sim_fields(1) [OF sim] inc])
    ultimately show ?thesis
      using Cons.IH [of t' s1 m1] rest Cons.prems(3,4) inc mem_cfg_eqD [of m1 m] Inc by (auto simp: case_prod_beta)
  next
    case (Dec t' k d)
    have "redis_sim look H t' (redis_decrement rd t' k d s) (mem_decrement k d m)"
      using sim_decrement [OF sim] Dec by simp
    moreover have "mem_cfg (mem_decrement k d m) = mem_cfg m" by (rule mem_decrement_inv [OF sim_fields(1) [OF sim]])
    ultimately show ?thesis
      using Cons.IH [of t' "redis_decrement rd t' k d s" "mem_decrement k d m"] rest Cons.prems(3,4)
        mem_cfg_eqD [of "mem_decrement k d m" m] Dec by auto
  qed
qed simp

end

section \<open>Outages\<close>

lemma getClient_frame:
  "getClient s = (ok, s1) \<Longrightarrow> rs_resilience s1 = rs_resilience s \<and> rs_server s1 = rs_server s \<and> rs_calls s1 = rs_calls s \<and>
     rs_net s1 = rs_net s \<and> rs_strategy s1 = rs_strategy s \<and> rs_failClosed s1 = rs_failClosed s \<and>
     rs_windowMs s1 = rs_windowMs s \<and> rs_maxRequests s1 = rs_maxRequests s \<and> rs_bucketSize s1 = rs_bucketSize s \<and>
     rs_refillIntervalMs s1 = rs_refillIntervalMs s \<and>
     (\<not> rs_connectionFailed s \<and> (rs_client s \<or> rs_clientLoads s) \<longrightarrow> ok \<and> \<not> rs_connectionFailed s1 \<and> rs_client s1)"
  by (auto simp: getClient_def rs_warn_def split: if_splits)

text \<open>What a store that gets no reply does to itself: only events and the number of calls change.\<close>

definition cut_off :: "'r redis_store \<Rightarrow> bool" where
  "cut_off s \<longleftrightarrow> rs_connectionFailed s \<or> (\<forall>n \<ge> rs_calls s. rs_net s n \<noteq> Delivered)"

lemma eval_cut_off:
  assumes "cut_off s" "evalScript f s = (x, s1)"
  shows "x = LuaNil \<and> cut_off s1 \<and> rs_resilience s1 = rs_resilience s \<and> rs_strategy s1 = rs_strategy s \<and>
    rs_failClosed s1 = rs_failClosed s \<and> rs_maxRequests s1 = rs_maxRequests s \<and> rs_bucketSize s1 = rs_bucketSize s \<and>
    (\<not> rs_connectionFailed s \<and> (rs_client s \<or> rs_clientLoads s) \<longrightarrow>
       rs_calls s1 = Suc (rs_calls s) \<and> \<not> rs_connectionFailed s1 \<and> rs_client s1)"
  using assms
  by (auto simp: evalScript_def cut_off_def getClient_def rs_roundtrip_def rs_warn_def Let_def
      split: prod.splits option.splits sum.splits net.splits if_splits)

lemma incr_cut_off:
  assumes "cut_off s" "incrRedis rd now k o' s = (x, s1)"
  shows "x = None \<and> cut_off s1 \<and> rs_resilience s1 = rs_resilience s \<and> rs_strategy s1 = rs_strategy s \<and>
    rs_failClosed s1 = rs_failClosed s \<and> rs_maxRequests s1 = rs_maxRequests s \<and> rs_bucketSize s1 = rs_bucketSize s \<and>
    (\<not> rs_connectionFailed s \<and> (rs_client s \<or> rs_clientLoads s) \<longrightarrow>
       rs_calls s1 = Suc (rs_calls s) \<and> \<not> rs_connectionFailed s1 \<and> rs_client s1)"
proof -
  have used: "cut_off (s\<lparr>rs_used := u\<rparr>)" for u using assms(1) by (simp add: cut_off_def)
  show ?thesis
    using assms eval_cut_off [OF assms(1)] eval_cut_off [OF used]
    by (auto simp: incrRedis_def incrSlidingRedis_def incrFixedRedis_def incrBucketRedis_def slidingWindowUniqueMembers_def
        window_reply_def Let_def split: strategy.splits prod.splits if_splits; force)
qed

definition reachable_client :: "'r redis_store \<Rightarrow> bool" where
  "reachable_client s \<longleftrightarrow> \<not> rs_connectionFailed s \<and> (rs_client s \<or> rs_clientLoads s)"

lemma outage_step:
  assumes z: "rs_resilience s = Some z" and cut: "cut_off s"
    and mem: "mem_increment t k o' (rz_insurance z) = (r0, m1)" and inc: "redis_increment rd t k o' s = (r, s1)"
    and att: "canAttempt t (rz_breaker z) = (ok, b)"
  shows "r = r0\<lparr>storeUnavailable := True\<rparr> \<and> cut_off s1 \<and>
    (\<exists>z1. rs_resilience s1 = Some z1 \<and> rz_insurance z1 = m1 \<and> rz_breaker z1 = (if ok then recordFailure t b else b)) \<and>
    (reachable_client s \<longrightarrow> reachable_client s1 \<and> rs_calls s1 = (if ok then Suc (rs_calls s) else rs_calls s))"
proof (cases ok)
  case False
  then show ?thesis
    using inc z mem att cut
    by (auto simp: redis_increment_def incrementWithResilience_def shouldRouteQuotaViaInsurance_def insuranceIncrement_def
        set_resilience_def rs_emit_def cut_off_def reachable_client_def)
next
  case True
  let ?s = "set_resilience (z\<lparr>rz_breaker := b\<rparr>) s"
  have cut': "cut_off ?s" using cut by (simp add: cut_off_def set_resilience_def)
  obtain x s2 where i: "incrRedis rd t k o' ?s = (x, s2)" by fastforce
  note f = incr_cut_off [OF cut' i]
  have "redis_increment rd t k o' s = handleRedisFailureForIncrement t k o' (z\<lparr>rz_breaker := b\<rparr>) s2"
    using z att True i f
    by (simp add: redis_increment_def incrementWithResilience_def shouldRouteQuotaViaInsurance_def)
      (simp add: set_resilience_def)
  with inc mem f True show ?thesis
    by (auto simp: handleRedisFailureForIncrement_def insuranceIncrement_def set_resilience_def rs_emit_def Let_def
        cut_off_def reachable_client_def split: if_splits)
qed

definition incs :: "request list \<Rightarrow> quota_call list" where
  "incs qs = map (\<lambda>(t, k, o'). Inc t k o') qs"

lemma incs_simps [simp]: "incs [] = []" "incs ((t, k, o') # qs) = Inc t k o' # incs qs"
  by (simp_all add: incs_def)

lemma outage_answers:
  assumes "rs_resilience s = Some z" "cut_off s"
  shows "fst (redis_run rd (incs qs) s) = map (\<lambda>r. r\<lparr>storeUnavailable := True\<rparr>) (fst (mem_run (incs qs) (rz_insurance z)))"
  using assms
proof (induction qs arbitrary: s z)
  case (Cons q qs)
  obtain t k o' where q: "q = (t, k, o')" by (cases q)
  obtain ok b where att: "canAttempt t (rz_breaker z) = (ok, b)" by fastforce
  obtain r0 m1 where mem: "mem_increment t k o' (rz_insurance z) = (r0, m1)" by fastforce
  obtain r s1 where inc: "redis_increment rd t k o' s = (r, s1)" by fastforce
  from outage_step [OF Cons.prems mem inc att] obtain z1 where
    "r = r0\<lparr>storeUnavailable := True\<rparr>" "cut_off s1" "rs_resilience s1 = Some z1" "rz_insurance z1 = m1" by auto
  with Cons.IH [of s1 z1] show ?case by (simp add: q inc mem case_prod_beta)
qed simp

text \<open>How many of these increments still try Redis: \<open>left\<close> failures remain before the circuit opens.\<close>

lemma outage_calls:
  assumes "rs_resilience s = Some z" "cut_off s" "reachable_client s"
    and "\<forall>(t, k, o') \<in> set qs. t0 \<le> t \<and> t < t0 + recoveryTimeMs (rz_breaker z)"
    and "(cb_state (rz_breaker z) = CLOSED \<and> 0 < left \<and> consecutiveFailures (rz_breaker z) + int left = failureThreshold (rz_breaker z)) \<or>
      (cb_state (rz_breaker z) = OPEN \<and> left = 0 \<and> (\<exists>u \<ge> t0. openedAtMs (rz_breaker z) = Some u))"
  shows "rs_calls (snd (redis_run rd (incs qs) s)) = rs_calls s + min (length qs) left"
  using assms
proof (induction qs arbitrary: s z left)
  case (Cons q qs)
  obtain t k o' where q: "q = (t, k, o')" by (cases q)
  obtain r0 m1 where mem: "mem_increment t k o' (rz_insurance z) = (r0, m1)" by fastforce
  obtain r s1 where inc: "redis_increment rd t k o' s = (r, s1)" by fastforce
  have t: "t0 \<le> t" "t < t0 + recoveryTimeMs (rz_breaker z)" using Cons.prems(4) by (auto simp: q)
  have run: "rs_calls (snd (redis_run rd (incs (q # qs)) s)) = rs_calls (snd (redis_run rd (incs qs) s1))"
    by (simp add: q inc case_prod_beta)
  from Cons.prems(5) show ?case
  proof
    assume st: "cb_state (rz_breaker z) = CLOSED \<and> 0 < left \<and>
      consecutiveFailures (rz_breaker z) + int left = failureThreshold (rz_breaker z)"
    then have att: "canAttempt t (rz_breaker z) = (True, rz_breaker z)" by (simp add: canAttempt_def)
    from outage_step [OF Cons.prems(1,2) mem inc att] Cons.prems(3) obtain z1 where z1: "cut_off s1" "rs_resilience s1 = Some z1"
      "rz_breaker z1 = recordFailure t (rz_breaker z)" "reachable_client s1" "rs_calls s1 = Suc (rs_calls s)" by auto
    have "rs_calls (snd (redis_run rd (incs qs) s1)) = rs_calls s1 + min (length qs) (left - 1)"
      by (rule Cons.IH [OF z1(2,1,4)])
        (use Cons.prems(4) st t in \<open>auto simp: z1(3) recordFailure_def cb_emit_def Let_def\<close>)
    then show ?thesis using st z1(5) unfolding run by (cases left) auto
  next
    assume st: "cb_state (rz_breaker z) = OPEN \<and> left = 0 \<and> (\<exists>u \<ge> t0. openedAtMs (rz_breaker z) = Some u)"
    then have att: "canAttempt t (rz_breaker z) = (False, rz_breaker z)" using t by (auto simp: canAttempt_def)
    from outage_step [OF Cons.prems(1,2) mem inc att] Cons.prems(3) obtain z1 where z1: "cut_off s1" "rs_resilience s1 = Some z1"
      "rz_breaker z1 = rz_breaker z" "reachable_client s1" "rs_calls s1 = rs_calls s" by auto
    have "rs_calls (snd (redis_run rd (incs qs) s1)) = rs_calls s1 + min (length qs) 0"
      by (rule Cons.IH [OF z1(2,1,4)]) (use Cons.prems(4) st in \<open>auto simp: z1(3)\<close>)
    then show ?thesis using st z1(5) unfolding run by simp
  qed
qed simp

section \<open>Probes\<close>

datatype redis_call =
    CallIncrement time key "inc_opts option"
  | CallDecrement time key "dec_opts option"
  | CallReset time key
  | CallGet time key
  | CallSet time key int "time option"
  | CallDelete time key

primrec redis_exec :: "'r redis \<Rightarrow> redis_call \<Rightarrow> 'r redis_store \<Rightarrow> 'r redis_store" where
  "redis_exec rd (CallIncrement t k o') s = snd (redis_increment rd t k o' s)"
| "redis_exec rd (CallDecrement t k d) s = redis_decrement rd t k d s"
| "redis_exec rd (CallReset t k) s = snd (redis_reset rd t k s)"
| "redis_exec rd (CallGet t k) s = snd (redis_get rd t k s)"
| "redis_exec rd (CallSet t k n e) s = snd (redis_set rd t k n e s)"
| "redis_exec rd (CallDelete t k) s = snd (redis_delete rd t k s)"

text \<open>Half open with every probe handed out.\<close>

definition no_probe_left :: "'r redis_store \<Rightarrow> bool" where
  "no_probe_left s \<longleftrightarrow> (\<exists>z. rs_resilience s = Some z \<and> cb_state (rz_breaker z) = HALF_OPEN \<and>
     halfOpenMaxProbes (rz_breaker z) \<le> halfOpenInFlight (rz_breaker z))"

lemma no_probe_left_routes:
  assumes "no_probe_left s"
  obtains z where "rs_resilience s = Some z" "shouldRouteQuotaViaInsurance t s = (True, s)"
    "cb_state (rz_breaker z) = HALF_OPEN" "halfOpenMaxProbes (rz_breaker z) \<le> halfOpenInFlight (rz_breaker z)"
  using assms
  by (auto simp: no_probe_left_def shouldRouteQuotaViaInsurance_def canAttempt_def grantHalfOpenProbe_def set_resilience_def)

lemma no_probe_left_step:
  assumes "no_probe_left s"
  shows "no_probe_left (redis_exec rd c s) \<and> rs_calls (redis_exec rd c s) = rs_calls s \<and>
    rs_server (redis_exec rd c s) = rs_server s"
proof -
  obtain z where "rs_resilience s = Some z" "cb_state (rz_breaker z) = HALF_OPEN"
    "halfOpenMaxProbes (rz_breaker z) \<le> halfOpenInFlight (rz_breaker z)" and
    route: "\<And>t. shouldRouteQuotaViaInsurance t s = (True, s)"
    using assms no_probe_left_routes by (metis no_probe_left_def option.inject)
  then show ?thesis
    by (cases c) (auto simp: redis_increment_def incrementWithResilience_def insuranceIncrement_def redis_decrement_def
        redis_reset_def redis_get_def redis_set_def redis_delete_def mem_delete_def no_probe_left_def set_resilience_def
        rs_emit_def Let_def split: prod.splits)
qed

lemma no_probe_left_run:
  "no_probe_left s \<Longrightarrow> no_probe_left (fold (redis_exec rd) cs s) \<and>
     rs_calls (fold (redis_exec rd) cs s) = rs_calls s \<and> rs_server (fold (redis_exec rd) cs s) = rs_server s"
  by (induction cs arbitrary: s) (simp_all add: no_probe_left_step)

section \<open>Keys of sibling stores\<close>

definition decimal_value :: "string \<Rightarrow> nat" where
  "decimal_value ds = foldl (\<lambda>n c. 10 * n + (of_char c - 48)) 0 ds"

lemma decimal_digit:
  assumes "d < 10"
  shows "of_char (''0123456789'' ! d) = 48 + d" "''0123456789'' ! d \<noteq> CHR '':''"
proof -
  have "\<forall>d \<in> set [0..<10]. of_char (''0123456789'' ! d) = 48 + d \<and> ''0123456789'' ! d \<noteq> CHR '':''" by code_simp
  with assms show "of_char (''0123456789'' ! d) = 48 + d" "''0123456789'' ! d \<noteq> CHR '':''" by auto
qed

lemma nat_decimal_value: "decimal_value (nat_decimal n) = n"
proof (induction n rule: nat_decimal.induct)
  case (1 n)
  show ?case
  proof (cases "n < 10")
    case True
    then show ?thesis using decimal_digit(1) [of n] by (simp add: decimal_value_def nat_decimal.simps [of n])
  next
    case False
    then show ?thesis using decimal_digit(1) [of "n mod 10"] 1
      by (simp add: decimal_value_def nat_decimal.simps [of n])
  qed
qed

lemma nat_decimal_no_colon: "CHR '':'' \<notin> set (nat_decimal n)"
proof (induction n rule: nat_decimal.induct)
  case (1 n)
  then show ?case using decimal_digit(2) [of n] decimal_digit(2) [of "n mod 10"]
    by (cases "n < 10") (auto simp: nat_decimal.simps [of n])
qed

lemma nat_decimal_until_colon:
  assumes "nat_decimal i @ CHR '':'' # x = nat_decimal j @ CHR '':'' # y"
  shows "i = j"
proof -
  have "takeWhile (\<lambda>c. c \<noteq> CHR '':'') (nat_decimal n @ CHR '':'' # z) = nat_decimal n" for n z
  proof -
    have "\<forall>c \<in> set (nat_decimal n). c \<noteq> CHR '':''" using nat_decimal_no_colon [of n] by metis
    then show ?thesis by (simp add: takeWhile_append2)
  qed
  then have "nat_decimal i = nat_decimal j" using assms by metis
  then show ?thesis by (metis nat_decimal_value)
qed

lemma sibling_key:
  assumes "createWindowSiblingForLimitsSlot i w c ov nets rand s = Inr a"
  obtains x where "redisKey kind k a = rs_keyPrefix s @ ''limits:'' @ nat_decimal i @ CHR '':'' # x"
  using assms
  by (auto simp: createWindowSiblingForLimitsSlot_def new_RedisStore_def redisKey_def slot_prefix_def Let_def
      split: if_splits option.splits)


lemma eval_resilience: "rs_resilience (snd (evalScript f s)) = rs_resilience s"
  by (auto simp: evalScript_def getClient_def rs_roundtrip_def rs_warn_def Let_def
      split: prod.splits option.splits sum.splits net.splits)

lemma redis_get_resilience:
  assumes "shouldRouteQuotaViaInsurance t s = (False, s1)"
  shows "rs_resilience (snd (redis_get rd t k s)) = rs_resilience s1"
  using assms eval_resilience
  by (auto simp: redis_get_def getSlidingRedis_def getFixedRedis_def getBucketRedis_def Let_def case_prod_beta split: strategy.splits)

section \<open>A concrete store for the witnesses\<close>

definition demo_redis :: "mem_options \<Rightarrow> bool \<Rightarrow> mem_store option \<Rightarrow> (nat \<Rightarrow> net) \<Rightarrow> ref_redis redis_store" where
  "demo_redis limits strict ins nets =
     (case new_RedisStore \<lparr>ro_url = False, ro_client = True, ro_limits = limits, ro_keyPrefix = None, ro_failClosed = strict,
             ro_insurance = ins, ro_syncOnRecovery = True, ro_failureThreshold = Some 2, ro_recoveryTimeMs = Some 1000,
             ro_halfOpenMaxProbes = None\<rparr> True Map.empty nets (\<lambda>n. replicate n CHR ''x'') of
        Inr s \<Rightarrow> s | Inl _ \<Rightarrow> undefined)"

definition demo_window :: "strategy \<Rightarrow> mem_options" where
  "demo_window st = WindowOptions st (js_int 1000) (js_int 2)"

definition demo_memory :: mem_store where
  "demo_memory = new_MemoryStore (demo_window SLIDING_WINDOW) (Some 0) None"

definition down :: "nat \<Rightarrow> net" where
  "down n = LostRequest"

definition up :: "nat \<Rightarrow> net" where
  "up n = Delivered"

section \<open>Properties\<close>

text \<open>(C9) The Redis store refines the in-memory store: on a server that keeps the documented laws and holds
  nothing yet, with every round trip delivered, a run of increments and decrements in time order answers
  as the in-memory store without \<open>maxKeys\<close> answers the same run. For a token bucket this is for runs within
  ten refill intervals (\<open>redis_bucket_expiry_overfills\<close>), and up to the \<open>remaining\<close> field of rejected requests
  (\<open>redis_blocked_bucket_remaining\<close>).\<close>

theorem redis_agrees_with_memory:
  assumes server: "redis_server rd look" "\<And>k. look (rs_server s) t0 k = None"
    and stores: "healthy s" "same_config s m" "mem_inv m" "ms_maxKeys m = 0" "ms_state m = []"
    and order: "sorted (map call_time cs)" "\<forall>c \<in> set cs. t0 \<le> call_time c"
    and bucket: "ms_strategy m = TOKEN_BUCKET \<longrightarrow> (\<forall>c \<in> set cs. call_time c < t0 + 10 * ms_refillIntervalMs m)"
  shows "list_all2 (answers_agree (ms_strategy m)) (fst (redis_run rd cs s)) (fst (mem_run cs m))"
proof -
  have "redis_sim look (t0 + 10 * ms_refillIntervalMs m) t0 s m"
    using server(2) stores entry_sim_absent [OF stores(5)] by (simp add: redis_sim_def)
  from redis_server.runs_agree [OF server(1) this order] bucket show ?thesis by simp
qed

theorem redis_agrees_with_memory_witness:
  "list_all2 (answers_agree SLIDING_WINDOW)
     (fst (redis_run ref_server [Inc 0 ''a'' None, Inc 400 ''a'' None, Inc 700 ''a'' None, Inc 1100 ''a'' None]
        (demo_redis (demo_window SLIDING_WINDOW) False None up)))
     (fst (mem_run [Inc 0 ''a'' None, Inc 400 ''a'' None, Inc 700 ''a'' None, Inc 1100 ''a'' None] demo_memory))"
proof -
  let ?s = "demo_redis (demo_window SLIDING_WINDOW) False None up"
  have m: "mem_inv demo_memory" "ms_maxKeys demo_memory = 0" "ms_state demo_memory = []" "ms_strategy demo_memory = SLIDING_WINDOW"
    by code_simp+
  have "inj (\<lambda>n. replicate n CHR ''x'')" by (simp add: inj_on_def)
  then have h: "healthy ?s" by (simp add: healthy_def demo_redis_def new_RedisStore_def demo_window_def up_def)
  have c: "same_config ?s demo_memory" by code_simp
  have e: "ref_look (rs_server ?s) 0 k = None" for k
    by (simp add: demo_redis_def new_RedisStore_def demo_window_def ref_look_def)
  show ?thesis
    using redis_agrees_with_memory [OF ref.redis_server_axioms e h c m(1-3), of
        "[Inc 0 ''a'' None, Inc 400 ''a'' None, Inc 700 ''a'' None, Inc 1100 ''a'' None]"] m(4)
    by (simp del: redis_run.simps mem_run.simps)
qed

text \<open>Without insurance a store cut off from Redis still answers every increment, according to its
  error policy: \<open>fail-closed\<close> blocks with \<open>storeUnavailable\<close> and nothing remaining, \<open>fail-open\<close> allows
  and reports the full quota.\<close>

theorem redis_failure_policy:
  assumes "rs_resilience s = None" "cut_off s"
  shows "let r = fst (redis_increment rd now k o' s)
    in isBlocked r = rs_failClosed s \<and> storeUnavailable r = rs_failClosed s \<and>
       remaining r = (if rs_failClosed s then 0
         else if rs_strategy s = TOKEN_BUCKET then rs_bucketSize s else rs_maxRequests s)"
proof -
  obtain x s1 where i: "incrRedis rd now k o' s = (x, s1)" by fastforce
  show ?thesis using assms(1) i incr_cut_off [OF assms(2) i]
    by (auto simp: redis_increment_def redisIncrementFailure_def failOpenResult_def failClosedIncrementResult_def Let_def)
qed

theorem redis_failure_policy_witness:
  "isBlocked (fst (redis_increment ref_server 0 ''a'' None (demo_redis (demo_window FIXED_WINDOW) True None down)))"
proof -
  let ?s = "demo_redis (demo_window FIXED_WINDOW) True None down"
  have s: "rs_resilience ?s = None" "rs_failClosed ?s" by code_simp+
  have "cut_off ?s" by (simp add: cut_off_def demo_redis_def new_RedisStore_def demo_window_def down_def)
  from redis_failure_policy [OF s(1) this, of ref_server 0 "''a''" None] s(2) show ?thesis by (simp add: Let_def)
qed

text \<open>(C10) During an outage the insurance store takes over: every answer is the one the in-memory store
  gives to the same requests, marked \<open>storeUnavailable\<close>, and Redis is tried exactly until the circuit
  breaker has counted \<open>failureThreshold\<close> failures, not again within the recovery time.\<close>

theorem outage_served_by_insurance:
  assumes z: "rs_resilience s = Some z" and cut: "cut_off s" and client: "reachable_client s"
    and breaker: "cb_state (rz_breaker z) = CLOSED" "consecutiveFailures (rz_breaker z) = 0" "1 \<le> failureThreshold (rz_breaker z)"
    and times: "\<forall>(t, k, o') \<in> set qs. t0 \<le> t \<and> t < t0 + recoveryTimeMs (rz_breaker z)"
  shows "fst (redis_run rd (incs qs) s) =
      map (\<lambda>r. r\<lparr>storeUnavailable := True\<rparr>) (fst (mem_run (incs qs) (rz_insurance z))) \<and>
    rs_calls (snd (redis_run rd (incs qs) s)) = rs_calls s + min (length qs) (nat (failureThreshold (rz_breaker z)))"
  using outage_answers [OF z cut] outage_calls [OF z cut client times, of "nat (failureThreshold (rz_breaker z))"] breaker
  by simp

theorem outage_served_by_insurance_witness:
  "rs_calls (snd (redis_run ref_server (incs [(0, ''a'', None), (1, ''a'', None), (2, ''b'', None), (3, ''a'', None)])
     (demo_redis (demo_window SLIDING_WINDOW) False (Some demo_memory) down))) = 2"
proof -
  let ?s = "demo_redis (demo_window SLIDING_WINDOW) False (Some demo_memory) down"
  define z where "z = the (rs_resilience ?s)"
  have z: "rs_resilience ?s = Some z" "reachable_client ?s" "rs_calls ?s = 0" "cb_state (rz_breaker z) = CLOSED"
    "consecutiveFailures (rz_breaker z) = 0" "failureThreshold (rz_breaker z) = 2" "recoveryTimeMs (rz_breaker z) = 1000"
    unfolding z_def by (simp_all add: demo_redis_def new_RedisStore_def demo_window_def reachable_client_def new_CircuitBreaker_def)
  have "cut_off ?s" by (simp add: cut_off_def demo_redis_def new_RedisStore_def demo_window_def down_def)
  from outage_served_by_insurance [OF z(1) this z(2) z(4,5), of
      "[(0, ''a'', None), (1, ''a'', None), (2, ''b'', None), (3, ''a'', None)]" 0 ref_server] z
  show ?thesis by (simp del: redis_run.simps incs_simps)
qed

text \<open>A read can wedge the circuit: \<open>get\<close> on an open circuit after the recovery time takes the only
  half-open probe and never reports how it went, so that whatever is called afterwards, at whatever
  time and however Redis behaves, Redis is never asked again.\<close>

theorem half_open_probe_leak:
  assumes "rs_resilience s = Some z" "cb_state (rz_breaker z) = OPEN" "openedAtMs (rz_breaker z) = Some u"
    and "u + recoveryTimeMs (rz_breaker z) \<le> t" "halfOpenMaxProbes (rz_breaker z) = 1"
    and s1: "s1 = snd (redis_get rd t k s)"
  shows "rs_calls (fold (redis_exec rd) cs s1) = rs_calls s1 \<and> rs_server (fold (redis_exec rd) cs s1) = rs_server s1"
proof -
  obtain b where b: "canAttempt t (rz_breaker z) = (True, b)" "cb_state b = HALF_OPEN" "halfOpenInFlight b = 1" "halfOpenMaxProbes b = 1"
    using assms(2-5) by (auto simp: canAttempt_def grantHalfOpenProbe_def cb_emit_def)
  have "shouldRouteQuotaViaInsurance t s = (False, set_resilience (z\<lparr>rz_breaker := b\<rparr>) s)"
    using assms(1) b(1) by (simp add: shouldRouteQuotaViaInsurance_def)
  from redis_get_resilience [OF this] have "no_probe_left s1"
    using b by (simp add: s1 no_probe_left_def set_resilience_def)
  from no_probe_left_run [OF this] show ?thesis by simp
qed

definition down_twice :: "nat \<Rightarrow> net" where
  "down_twice n = (if n < 2 then LostRequest else Delivered)"

definition demo_broken :: "ref_redis redis_store" where
  "demo_broken = snd (redis_run ref_server (incs [(0, ''a'', None), (1, ''a'', None)])
     (demo_redis (demo_window FIXED_WINDOW) False (Some demo_memory) down_twice))"

theorem half_open_probe_leak_witness:
  "rs_calls (fold (redis_exec ref_server) [CallIncrement 9000 ''a'' None, CallIncrement 90000 ''a'' None]
     (snd (redis_get ref_server 5000 ''a'' demo_broken))) = 3"
proof -
  define z where "z = the (rs_resilience demo_broken)"
  have z: "rs_resilience demo_broken \<noteq> None" "cb_state (rz_breaker z) = OPEN" "openedAtMs (rz_breaker z) = Some 1"
    "1 + recoveryTimeMs (rz_breaker z) \<le> 5000" "halfOpenMaxProbes (rz_breaker z) = 1"
    unfolding z_def by code_simp+
  then have "rs_resilience demo_broken = Some z" by (auto simp: z_def)
  moreover have "rs_calls (snd (redis_get ref_server 5000 ''a'' demo_broken)) = 3" by code_simp
  ultimately show ?thesis
    using half_open_probe_leak [where s = demo_broken and rd = ref_server and k = "''a''" and
        cs = "[CallIncrement 9000 ''a'' None, CallIncrement 90000 ''a'' None]", OF _ z(2-5) refl] by simp
qed

text \<open>The stores built from one Redis template for several windows never share a key: keys of
  different slots differ, whatever the windows, caps, strategies and client keys are.\<close>

theorem limits_slots_disjoint:
  assumes "createWindowSiblingForLimitsSlot i w c ov nets rand s = Inr a"
    and "createWindowSiblingForLimitsSlot j w' c' ov' nets' rand' s = Inr b" and "i \<noteq> j"
  shows "redisKey kind k a \<noteq> redisKey kind' k' b"
proof
  assume eq: "redisKey kind k a = redisKey kind' k' b"
  obtain x where "redisKey kind k a = rs_keyPrefix s @ ''limits:'' @ nat_decimal i @ CHR '':'' # x"
    using sibling_key [OF assms(1)] .
  moreover obtain y where "redisKey kind' k' b = rs_keyPrefix s @ ''limits:'' @ nat_decimal j @ CHR '':'' # y"
    using sibling_key [OF assms(2)] .
  ultimately have "nat_decimal i @ CHR '':'' # x = nat_decimal j @ CHR '':'' # y" using eq by simp
  from nat_decimal_until_colon [OF this] assms(3) show False by simp
qed

definition demo_sibling :: "nat \<Rightarrow> ref_redis redis_store" where
  "demo_sibling i = projr (createWindowSiblingForLimitsSlot i (js_int 10) (js_int 5) None up (\<lambda>n. [])
     (demo_redis (demo_window SLIDING_WINDOW) False None up))"

theorem limits_slots_disjoint_witness: "redisKey ''sw'' ''a'' (demo_sibling 1) \<noteq> redisKey ''sw'' ''a'' (demo_sibling 11)"
proof -
  have "createWindowSiblingForLimitsSlot i (js_int 10) (js_int 5) None up (\<lambda>n. [])
      (demo_redis (demo_window SLIDING_WINDOW) False None up) = Inr (demo_sibling i)" for i
    by (simp add: demo_sibling_def createWindowSiblingForLimitsSlot_def demo_redis_def demo_window_def new_RedisStore_def Let_def)
  from limits_slots_disjoint [OF this [of 1] this [of 11]] show ?thesis by simp
qed

section \<open>Where the two backends differ\<close>

text \<open>Redis drops a token bucket ten intervals after its last increment, also when it would not be full
  by then: a request the in-memory store rejects is allowed.\<close>

theorem redis_bucket_expiry_overfills:
  "let o' = Some \<lparr>io_maxRequests = Undefined, io_cost = js_int 100\<rparr>; limits = TokenBucketOptions 1 1000 100;
       cs = [Inc 0 ''a'' o', Inc 10000 ''a'' o']
   in map isBlocked (fst (redis_run ref_server cs (demo_redis limits False None up))) = [False, False] \<and>
      map isBlocked (fst (mem_run cs (new_MemoryStore limits None None))) = [False, True]"
  by code_simp

text \<open>\<open>get\<close> takes the oldest member of the sorted set, expired or not: the reset time it reports can
  lie in the past.\<close>

theorem redis_get_reports_past_reset:
  "let s = snd (redis_run ref_server [Inc 0 ''a'' None, Inc 900 ''a'' None] (demo_redis (demo_window SLIDING_WINDOW) False None up))
   in map_option resetTime (fst (redis_get ref_server 1500 ''a'' s)) = Some 1000"
  by code_simp

text \<open>A rejected token-bucket request reports the tokens it could not use as remaining.\<close>

theorem redis_blocked_bucket_remaining:
  "let o' = Some \<lparr>io_maxRequests = Undefined, io_cost = js_int 3\<rparr>; limits = TokenBucketOptions 1 1000 5;
       cs = [Inc 0 ''a'' o', Inc 0 ''a'' o']
   in map (\<lambda>r. (isBlocked r, remaining r)) (fst (redis_run ref_server cs (demo_redis limits False None up))) = [(False, 2), (True, 2)] \<and>
      map (\<lambda>r. (isBlocked r, remaining r)) (fst (mem_run cs (new_MemoryStore limits None None))) = [(False, 2), (True, 0)]"
  by code_simp

end
