(* ===== verification/Request_Queue.thy ===== *)
theory Request_Queue
  imports Memory_Store_Laws
begin

text \<open>
  The request queue of \<open>src/queue/RateLimiterQueue.ts\<close>, with \<open>createRateLimiterQueue.ts\<close> and the
  pool of \<open>KeyedRateLimiterQueue.ts\<close>.

  The waiters form an intrusive doubly linked list: an entry is a cell of \<open>q_entries\<close>, addressed by
  a number, and \<open>q_head\<close>, \<open>q_tail\<close> and the \<open>prev\<close>/\<open>next\<close> fields are addresses. Numbers are given out
  in order of arrival, so the number of an entry also identifies its promise; \<open>q_settled\<close> records
  every call of \<open>resolve\<close> and \<open>reject\<close>.

  The asynchronous methods are cut at their \<open>await\<close>s. What runs between two awaits is one definition;
  a method that waits is a frame in \<open>q_frames\<close>, which holds what it waits for. A store call takes
  effect at some time after it was made and before its frame goes on (\<open>q_store_acts\<close>), so every
  interleaving of calls, store effects, timers and continuations is a run of \<open>q_exec\<close>. Timers carry
  the time from which they may fire.
\<close>

section \<open>The class\<close>

datatype q_error =
    QueueFull | QueueTimeout | QueueCleared | CostExceedsLimit | InvalidCost
  | ShutdownError string

datatype q_outcome = Resolved int time | Rejected q_error

record queue_entry =
  qe_key :: key
  qe_cost :: js_value
  qe_timer :: "time option"
  qe_prev :: "nat option"
  qe_next :: "nat option"

text \<open>Where a suspended method stands. The last field is the promise it awaits: \<open>None\<close> while the
  store has not acted.\<close>

datatype q_frame =
    AtIncrement nat "(string + rl_result) option"
  | AtUndoStale key js_value bool "(string + unit) option"
  | AtUndoBlocked key js_value time "(string + unit) option"
  | AtPeekIncrement key "(string + rl_result) option"
  | AtPeekDecrement key rl_result "(string + unit) option"
  | AtPeekUndo key bool string "(string + unit) option"

text \<open>A running \<open>shutdown()\<close>: \<open>lenAtStart\<close>, polls still allowed, the reason, when it wakes up.\<close>

record shutdown_run =
  sd_lenAtStart :: int
  sd_polls :: nat
  sd_reason :: string
  sd_wakeAt :: time

datatype store_call = IncDone key js_value rl_result | DecDone key js_value

record 's req_queue =
  q_store :: 's
  q_strategy :: strategy
  q_windowMs :: int
  q_maxRequests :: int
  q_maxQueueSize :: "int option"
  q_maxQueueTimeMs :: "int option"
  q_ownsStore :: bool
  q_head :: "nat option"
  q_tail :: "nat option"
  q_length :: int
  q_processing :: bool
  q_drainTimer :: "time option"
  q_isShutdown :: bool
  q_timeoutUnlinks :: int
  q_entries :: "nat \<Rightarrow> queue_entry"
  q_fresh :: nat
  q_frames :: "(nat, q_frame) jsmap"
  q_nextFrame :: nat
  q_shutdownRun :: "shutdown_run option"
  q_settled :: "(nat \<times> q_outcome) list"
  q_peeked :: "(key \<times> (string + int)) list"
  q_reports :: "(int \<times> int) list"
  q_failures :: "string list"
  q_log :: "store_call list"

definition no_entry :: queue_entry where
  "no_entry = \<lparr>qe_key = [], qe_cost = Undefined, qe_timer = None, qe_prev = None, qe_next = None\<rparr>"

definition new_RateLimiterQueue ::
  "'s \<Rightarrow> int \<Rightarrow> int \<Rightarrow> strategy option \<Rightarrow> int option \<Rightarrow> int option \<Rightarrow> bool option \<Rightarrow> 's req_queue" where
  "new_RateLimiterQueue st windowMs maxRequests strat maxSize maxTime owns =
     \<lparr>q_store = st, q_strategy = (case strat of None \<Rightarrow> SLIDING_WINDOW | Some x \<Rightarrow> x), q_windowMs = windowMs,
      q_maxRequests = maxRequests, q_maxQueueSize = maxSize, q_maxQueueTimeMs = maxTime,
      q_ownsStore = (owns = Some True), q_head = None, q_tail = None, q_length = 0, q_processing = False,
      q_drainTimer = None, q_isShutdown = False, q_timeoutUnlinks = 0, q_entries = (\<lambda>_. no_entry), q_fresh = 0,
      q_frames = [], q_nextFrame = 0, q_shutdownRun = None, q_settled = [], q_peeked = [], q_reports = [],
      q_failures = [], q_log = []\<rparr>"

definition MIN_BLOCK_RETRY_DELAY_MS :: int where
  "MIN_BLOCK_RETRY_DELAY_MS = 10"

text \<open>The delay after which \<open>setTimeout\<close> fires: Node takes a delay beyond its 31 bits for one millisecond.\<close>

definition timer_delay :: "int \<Rightarrow> int" where
  "timer_delay ms = (if 1 \<le> ms \<and> ms \<le> 2147483647 then ms else 1)"

definition q_settle :: "nat \<Rightarrow> q_outcome \<Rightarrow> 's req_queue \<Rightarrow> 's req_queue" where
  "q_settle i out q = q\<lparr>q_settled := q_settled q @ [(i, out)]\<rparr>"

definition q_modify :: "nat \<Rightarrow> (queue_entry \<Rightarrow> queue_entry) \<Rightarrow> 's req_queue \<Rightarrow> 's req_queue" where
  "q_modify i f q = q\<lparr>q_entries := (q_entries q)(i := f (q_entries q i))\<rparr>"

section \<open>The linked list\<close>

definition enqueueTail :: "nat \<Rightarrow> 's req_queue \<Rightarrow> 's req_queue" where
  "enqueueTail i q =
     (let q1 = q_modify i (\<lambda>e. e\<lparr>qe_prev := q_tail q, qe_next := None\<rparr>) q;
          q2 = (case q_tail q of
                  Some t \<Rightarrow> q_modify t (\<lambda>e. e\<lparr>qe_next := Some i\<rparr>) q1
                | None \<Rightarrow> q1\<lparr>q_head := Some i\<rparr>)
      in q2\<lparr>q_tail := Some i, q_length := q_length q + 1\<rparr>)"

definition unlink :: "nat \<Rightarrow> 's req_queue \<Rightarrow> bool \<times> 's req_queue" where
  "unlink i q =
     (let e = q_entries q i
      in if q_head q \<noteq> Some i \<and> qe_prev e = None \<and> qe_next e = None then (False, q)
         else
           let q1 = (case qe_prev e of
                       Some p \<Rightarrow> q_modify p (\<lambda>x. x\<lparr>qe_next := qe_next e\<rparr>) q
                     | None \<Rightarrow> q\<lparr>q_head := qe_next e\<rparr>);
               q2 = (case qe_next e of
                       Some n \<Rightarrow> q_modify n (\<lambda>x. x\<lparr>qe_prev := qe_prev e\<rparr>) q1
                     | None \<Rightarrow> q1\<lparr>q_tail := qe_prev e\<rparr>);
               q3 = q_modify i (\<lambda>x. x\<lparr>qe_prev := None, qe_next := None\<rparr>) q2
           in (True, q3\<lparr>q_length := q_length q - 1\<rparr>))"

definition clearDrainTimer :: "'s req_queue \<Rightarrow> 's req_queue" where
  "clearDrainTimer q = q\<lparr>q_drainTimer := None\<rparr>"

text \<open>The loop of \<open>clearPending\<close> follows the \<open>next\<close> fields; \<open>q_fresh\<close> rounds are enough, since no list
  has more entries than were ever created.\<close>

fun clear_entries :: "nat \<Rightarrow> q_error \<Rightarrow> nat option \<Rightarrow> 's req_queue \<Rightarrow> 's req_queue" where
  "clear_entries (Suc n) err (Some i) q =
     clear_entries n err (qe_next (q_entries q i))
       (q_modify i (\<lambda>e. e\<lparr>qe_timer := None, qe_prev := None, qe_next := None\<rparr>) (q_settle i (Rejected err) q))"
| "clear_entries _ _ _ q = q"

definition clearPending :: "q_error \<Rightarrow> 's req_queue \<Rightarrow> 's req_queue" where
  "clearPending err q =
     (clear_entries (q_fresh q) err (q_head q) (clearDrainTimer q))
       \<lparr>q_head := None, q_tail := None, q_length := 0, q_processing := False\<rparr>"

section \<open>Frames\<close>

definition set_frame :: "nat \<Rightarrow> q_frame \<Rightarrow> 's req_queue \<Rightarrow> 's req_queue" where
  "set_frame f fr q = q\<lparr>q_frames := AList.update f fr (q_frames q)\<rparr>"

definition end_frame :: "nat \<Rightarrow> 's req_queue \<Rightarrow> 's req_queue" where
  "end_frame f q = q\<lparr>q_frames := AList.delete f (q_frames q)\<rparr>"

definition new_frame :: "q_frame \<Rightarrow> 's req_queue \<Rightarrow> 's req_queue" where
  "new_frame fr q = set_frame (q_nextFrame q) fr (q\<lparr>q_nextFrame := Suc (q_nextFrame q)\<rparr>)"

text \<open>\<open>undoIncrementAfterFailedOrStaleHead\<close>: the options of the decrement it awaits, if any.\<close>

definition undo_call :: "strategy \<Rightarrow> js_value \<Rightarrow> bool \<Rightarrow> dec_opts option" where
  "undo_call strat cost blocked =
     (if strat = TOKEN_BUCKET \<and> blocked then None
      else Some \<lparr>do_cost = cost, do_removeNewest = (strat = SLIDING_WINDOW)\<rparr>)"

definition undo_promise :: "'s req_queue \<Rightarrow> bool \<Rightarrow> (string + unit) option" where
  "undo_promise q blocked = (if q_strategy q = TOKEN_BUCKET \<and> blocked then Some (Inr ()) else None)"

text \<open>The store acts on the call a frame awaits; a call that fails counts for nothing.\<close>

definition store_increment ::
  "'s store_ops \<Rightarrow> time \<Rightarrow> key \<Rightarrow> js_value \<Rightarrow> 's req_queue \<Rightarrow> (string + rl_result) \<times> 's req_queue" where
  "store_increment ops now k cost q =
     (case op_increment ops now k (Some \<lparr>io_maxRequests = js_int (q_maxRequests q), io_cost = cost\<rparr>) (q_store q) of
        (Inr r, s) \<Rightarrow> (Inr r, q\<lparr>q_store := s, q_log := q_log q @ [IncDone k cost r]\<rparr>)
      | (Inl e, s) \<Rightarrow> (Inl e, q\<lparr>q_store := s, q_failures := q_failures q @ [e]\<rparr>))"

definition store_decrement ::
  "'s store_ops \<Rightarrow> time \<Rightarrow> key \<Rightarrow> dec_opts \<Rightarrow> 's req_queue \<Rightarrow> (string + unit) \<times> 's req_queue" where
  "store_decrement ops now k d q =
     (case op_decrement ops now k (Some d) (q_store q) of
        (Inr u, s) \<Rightarrow> (Inr u, q\<lparr>q_store := s, q_log := q_log q @ [DecDone k (do_cost d)]\<rparr>)
      | (Inl e, s) \<Rightarrow> (Inl e, q\<lparr>q_store := s, q_failures := q_failures q @ [e]\<rparr>))"

definition store_undo ::
  "'s store_ops \<Rightarrow> time \<Rightarrow> key \<Rightarrow> js_value \<Rightarrow> bool \<Rightarrow> 's req_queue \<Rightarrow> (string + unit) \<times> 's req_queue" where
  "store_undo ops now k cost blocked q =
     (case undo_call (q_strategy q) cost blocked of
        None \<Rightarrow> (Inr (), q)
      | Some d \<Rightarrow> store_decrement ops now k d q)"

definition q_store_acts :: "'s store_ops \<Rightarrow> time \<Rightarrow> nat \<Rightarrow> 's req_queue \<Rightarrow> 's req_queue" where
  "q_store_acts ops now f q =
     (case map_of (q_frames q) f of
        Some (AtIncrement i None) \<Rightarrow>
          (let (a, q1) = store_increment ops now (qe_key (q_entries q i)) (qe_cost (q_entries q i)) q
           in set_frame f (AtIncrement i (Some a)) q1)
      | Some (AtUndoStale k c b None) \<Rightarrow>
          (let (a, q1) = store_undo ops now k c b q in set_frame f (AtUndoStale k c b (Some a)) q1)
      | Some (AtUndoBlocked k c t None) \<Rightarrow>
          (let (a, q1) = store_undo ops now k c True q in set_frame f (AtUndoBlocked k c t (Some a)) q1)
      | Some (AtPeekIncrement k None) \<Rightarrow>
          (let (a, q1) = store_increment ops now k (js_int 1) q in set_frame f (AtPeekIncrement k (Some a)) q1)
      | Some (AtPeekDecrement k r None) \<Rightarrow>
          (let (a, q1) = store_decrement ops now k \<lparr>do_cost = js_int 1, do_removeNewest = False\<rparr> q
           in set_frame f (AtPeekDecrement k r (Some a)) q1)
      | Some (AtPeekUndo k b e None) \<Rightarrow>
          (let (a, q1) = store_undo ops now k (js_int 1) b q in set_frame f (AtPeekUndo k b e (Some a)) q1)
      | _ \<Rightarrow> q)"

section \<open>Draining\<close>

text \<open>The \<open>finally\<close> block, when a drain ends.\<close>

definition drain_ends :: "nat \<Rightarrow> 's req_queue \<Rightarrow> 's req_queue" where
  "drain_ends f q =
     (let q1 = end_frame f q in if q_drainTimer q1 = None then q1\<lparr>q_processing := False\<rparr> else q1)"

definition drain_loop :: "nat \<Rightarrow> 's req_queue \<Rightarrow> 's req_queue" where
  "drain_loop f q =
     (case q_head q of
        None \<Rightarrow> drain_ends f q
      | Some i \<Rightarrow> set_frame f (AtIncrement i None) q)"

definition drain :: "'s req_queue \<Rightarrow> 's req_queue" where
  "drain q =
     (if q_processing q then q
      else drain_loop (q_nextFrame q) (q\<lparr>q_processing := True, q_nextFrame := Suc (q_nextFrame q)\<rparr>))"

text \<open>A drain goes on after \<open>await store.increment(...)\<close> and after the two undo calls. An exception
  leaves through \<open>finally\<close>; nobody awaits a drain.\<close>

definition resume_increment :: "nat \<Rightarrow> nat \<Rightarrow> rl_result \<Rightarrow> 's req_queue \<Rightarrow> 's req_queue" where
  "resume_increment f i r q =
     (let e = q_entries q i
      in if q_head q \<noteq> Some i
         then set_frame f (AtUndoStale (qe_key e) (qe_cost e) (isBlocked r) (undo_promise q (isBlocked r))) q
         else if \<not> isBlocked r
         then drain_loop f
                (q_settle i (Resolved (remaining r) (resetTime r))
                  (q_modify i (\<lambda>x. x\<lparr>qe_timer := None\<rparr>) (snd (unlink i q))))
         else set_frame f (AtUndoBlocked (qe_key e) (qe_cost e) (resetTime r) (undo_promise q True)) q)"

definition resume_blocked :: "time \<Rightarrow> nat \<Rightarrow> time \<Rightarrow> 's req_queue \<Rightarrow> 's req_queue" where
  "resume_blocked now f reset q =
     drain_ends f ((clearDrainTimer q)\<lparr>q_drainTimer := Some (now + timer_delay (max MIN_BLOCK_RETRY_DELAY_MS (reset - now)))\<rparr>)"

text \<open>\<open>getTokensRemaining\<close> goes on.\<close>

definition peek_ends :: "nat \<Rightarrow> key \<Rightarrow> string + int \<Rightarrow> 's req_queue \<Rightarrow> 's req_queue" where
  "peek_ends f k out q = (end_frame f q)\<lparr>q_peeked := q_peeked q @ [(k, out)]\<rparr>"

definition q_resume :: "time \<Rightarrow> nat \<Rightarrow> 's req_queue \<Rightarrow> 's req_queue" where
  "q_resume now f q =
     (case map_of (q_frames q) f of
        Some (AtIncrement i (Some (Inr r))) \<Rightarrow> resume_increment f i r q
      | Some (AtIncrement i (Some (Inl e))) \<Rightarrow> drain_ends f q
      | Some (AtUndoStale k c b (Some (Inr _))) \<Rightarrow> drain_loop f q
      | Some (AtUndoStale k c b (Some (Inl e))) \<Rightarrow> drain_ends f q
      | Some (AtUndoBlocked k c t (Some (Inr _))) \<Rightarrow> resume_blocked now f t q
      | Some (AtUndoBlocked k c t (Some (Inl e))) \<Rightarrow> drain_ends f q
      | Some (AtPeekIncrement k (Some (Inr r))) \<Rightarrow> set_frame f (AtPeekDecrement k r None) q
      | Some (AtPeekIncrement k (Some (Inl e))) \<Rightarrow> peek_ends f k (Inl e) q
      | Some (AtPeekDecrement k r (Some (Inr _))) \<Rightarrow>
          peek_ends f k (Inr (if isBlocked r then 0 else remaining r + 1)) q
      | Some (AtPeekDecrement k r (Some (Inl e))) \<Rightarrow>
          set_frame f (AtPeekUndo k (isBlocked r) e (undo_promise q (isBlocked r))) q
      | Some (AtPeekUndo k b e (Some _)) \<Rightarrow> peek_ends f k (Inl e) q
      | _ \<Rightarrow> q)"

section \<open>Timers\<close>

definition drain_timer_fires :: "time \<Rightarrow> 's req_queue \<Rightarrow> 's req_queue" where
  "drain_timer_fires now q =
     (case q_drainTimer q of
        Some t \<Rightarrow> if t \<le> now then drain (q\<lparr>q_drainTimer := None, q_processing := False\<rparr>) else q
      | None \<Rightarrow> q)"

definition timeout_body :: "nat \<Rightarrow> 's req_queue \<Rightarrow> 's req_queue" where
  "timeout_body i q =
     (let wasHead = (q_head q = Some i);
          (removed, q1) = unlink i q;
          q2 = q_modify i (\<lambda>e. e\<lparr>qe_timer := None\<rparr>) q1
      in if \<not> removed then q2
         else
           let q3 = (if q_isShutdown q2 then q2\<lparr>q_timeoutUnlinks := q_timeoutUnlinks q2 + 1\<rparr> else q2);
               q4 = q_settle i (Rejected QueueTimeout) q3;
               q5 = (if wasHead \<and> q_drainTimer q4 \<noteq> None then (clearDrainTimer q4)\<lparr>q_processing := False\<rparr> else q4)
           in drain q5)"

definition timeout_fires :: "time \<Rightarrow> nat \<Rightarrow> 's req_queue \<Rightarrow> 's req_queue" where
  "timeout_fires now i q =
     (case qe_timer (q_entries q i) of
        Some t \<Rightarrow> if t \<le> now then timeout_body i q else q
      | None \<Rightarrow> q)"

section \<open>Public methods\<close>

definition queue_timer :: "time \<Rightarrow> 's req_queue \<Rightarrow> time option" where
  "queue_timer now q =
     (case q_maxQueueTimeMs q of None \<Rightarrow> None | Some ms \<Rightarrow> if 0 < ms then Some (now + timer_delay ms) else None)"

text \<open>A queue time beyond 31 bits (25 days) is no limit of 25 days: the waiter is rejected after a millisecond.\<close>

lemma long_queue_time_expires_at_once:
  "q_maxQueueTimeMs q = Some ms \<Longrightarrow> 2147483647 < ms \<Longrightarrow> queue_timer now q = Some (now + 1)"
  by (simp add: queue_timer_def timer_delay_def)

definition cost_error :: "js_value \<Rightarrow> 's req_queue \<Rightarrow> q_error option" where
  "cost_error cost q =
     (case cost of
        Num c \<Rightarrow> if c < 1 then Some InvalidCost else if c > of_int (q_maxRequests q) then Some CostExceedsLimit else None
      | _ \<Rightarrow> Some InvalidCost)"

definition removeTokens :: "time \<Rightarrow> key \<Rightarrow> js_value \<Rightarrow> 's req_queue \<Rightarrow> (q_error + nat) \<times> 's req_queue" where
  "removeTokens now k cost0 q =
     (let cost = js_or cost0 (js_int 1)
      in if q_isShutdown q then (Inl (ShutdownError ''queue-shutdown''), q)
         else if (case q_maxQueueSize q of None \<Rightarrow> False | Some m \<Rightarrow> m \<le> q_length q) then (Inl QueueFull, q)
         else case cost_error cost q of
                Some err \<Rightarrow> (Inl err, q)
              | None \<Rightarrow>
                  let i = q_fresh q;
                      e = \<lparr>qe_key = k, qe_cost = cost, qe_timer = queue_timer now q, qe_prev = None, qe_next = None\<rparr>;
                      q1 = q\<lparr>q_fresh := Suc i, q_entries := (q_entries q)(i := e)\<rparr>
                  in (Inr i, drain (enqueueTail i q1)))"

definition getTokensRemaining :: "key \<Rightarrow> 's req_queue \<Rightarrow> 's req_queue" where
  "getTokensRemaining k q =
     (if q_isShutdown q then q\<lparr>q_peeked := q_peeked q @ [(k, Inl ''queue-shutdown'')]\<rparr>
      else new_frame (AtPeekIncrement k None) q)"

definition q_clear :: "'s req_queue \<Rightarrow> (q_error + unit) \<times> 's req_queue" where
  "q_clear q =
     (if q_isShutdown q then (Inl (ShutdownError ''queue-shutdown''), q)
      else (Inr (), clearPending QueueCleared q))"

text \<open>\<open>shutdown\<close>: the last stretch, the polling loop and the first stretch. \<open>ceil(a / 10)\<close> is
  \<open>(a + 9) div 10\<close>.\<close>

definition shutdown_finish :: "'s store_ops \<Rightarrow> int \<Rightarrow> string \<Rightarrow> 's req_queue \<Rightarrow> 's req_queue" where
  "shutdown_finish ops lenAtStart reason q =
     (let drained = max 0 (lenAtStart - q_length q - q_timeoutUnlinks q);
          rejected = q_length q;
          q1 = (clearPending (ShutdownError reason) q)\<lparr>q_timeoutUnlinks := 0, q_shutdownRun := None\<rparr>
      in if q_ownsStore q1
         then (case op_shutdown ops (q_store q1) of
                 (Inr _, s) \<Rightarrow> q1\<lparr>q_store := s, q_reports := q_reports q1 @ [(rejected, drained)]\<rparr>
               | (Inl e, s) \<Rightarrow> q1\<lparr>q_store := s, q_failures := q_failures q1 @ [e]\<rparr>)
         else q1\<lparr>q_reports := q_reports q1 @ [(rejected, drained)]\<rparr>)"

definition shutdown_wait :: "'s store_ops \<Rightarrow> time \<Rightarrow> int \<Rightarrow> nat \<Rightarrow> string \<Rightarrow> 's req_queue \<Rightarrow> 's req_queue" where
  "shutdown_wait ops now lenAtStart polls reason q =
     (if 0 < polls \<and> 0 < q_length q
      then q\<lparr>q_shutdownRun := Some \<lparr>sd_lenAtStart = lenAtStart, sd_polls = polls - 1, sd_reason = reason,
               sd_wakeAt = now + MIN_BLOCK_RETRY_DELAY_MS\<rparr>\<rparr>
      else shutdown_finish ops lenAtStart reason q)"

definition q_shutdown :: "'s store_ops \<Rightarrow> time \<Rightarrow> int option \<Rightarrow> string option \<Rightarrow> 's req_queue \<Rightarrow> 's req_queue" where
  "q_shutdown ops now timeout reason q =
     (if q_isShutdown q then q\<lparr>q_timeoutUnlinks := 0, q_reports := q_reports q @ [(0, 0)]\<rparr>
      else
        let why = (case reason of None \<Rightarrow> ''shutdown'' | Some x \<Rightarrow> x);
            ms = (case timeout of None \<Rightarrow> 0 | Some x \<Rightarrow> x);
            lenAtStart = q_length q;
            q1 = drain (q\<lparr>q_timeoutUnlinks := 0, q_isShutdown := True\<rparr>)
        in if 0 < ms then shutdown_wait ops now lenAtStart (nat (max 1 ((ms + 9) div 10))) why q1
           else shutdown_finish ops lenAtStart why q1)"

definition shutdown_polls :: "'s store_ops \<Rightarrow> time \<Rightarrow> 's req_queue \<Rightarrow> 's req_queue" where
  "shutdown_polls ops now q =
     (case q_shutdownRun q of
        Some sd \<Rightarrow>
          if sd_wakeAt sd \<le> now
          then shutdown_wait ops now (sd_lenAtStart sd) (sd_polls sd) (sd_reason sd) (drain q)
          else q
      | None \<Rightarrow> q)"

section \<open>Runs\<close>

datatype q_event =
    CallRemoveTokens time key js_value
  | CallPeek key
  | CallClear
  | CallShutdown time "int option" "string option"
  | StoreActs time nat
  | Resume time nat
  | DrainTimer time
  | TimeoutTimer time nat
  | ShutdownTimer time

primrec q_exec :: "'s store_ops \<Rightarrow> q_event \<Rightarrow> 's req_queue \<Rightarrow> 's req_queue" where
  "q_exec ops (CallRemoveTokens now k c) q = snd (removeTokens now k c q)"
| "q_exec ops (CallPeek k) q = getTokensRemaining k q"
| "q_exec ops CallClear q = snd (q_clear q)"
| "q_exec ops (CallShutdown now ms why) q = q_shutdown ops now ms why q"
| "q_exec ops (StoreActs now f) q = q_store_acts ops now f q"
| "q_exec ops (Resume now f) q = q_resume now f q"
| "q_exec ops (DrainTimer now) q = drain_timer_fires now q"
| "q_exec ops (TimeoutTimer now i) q = timeout_fires now i q"
| "q_exec ops (ShutdownTimer now) q = shutdown_polls ops now q"

definition q_run :: "'s store_ops \<Rightarrow> q_event list \<Rightarrow> 's req_queue \<Rightarrow> 's req_queue" where
  "q_run ops = fold (q_exec ops)"


section \<open>The list the pointers spell\<close>

definition first_of :: "nat option \<Rightarrow> nat list \<Rightarrow> nat option" where
  "first_of d xs = (case xs of [] \<Rightarrow> d | x # _ \<Rightarrow> Some x)"

definition last_of :: "nat option \<Rightarrow> nat list \<Rightarrow> nat option" where
  "last_of d xs = (if xs = [] then d else Some (last xs))"

text \<open>\<open>links es p xs n\<close>: the cells \<open>xs\<close> are linked in this order, between \<open>p\<close> before and \<open>n\<close> after.\<close>

primrec links :: "(nat \<Rightarrow> queue_entry) \<Rightarrow> nat option \<Rightarrow> nat list \<Rightarrow> nat option \<Rightarrow> bool" where
  "links es p [] n = True"
| "links es p (i # xs) n = (qe_prev (es i) = p \<and> qe_next (es i) = first_of n xs \<and> links es (Some i) xs n)"

lemma first_of_simps [simp]:
  "first_of d [] = d" "first_of d (x # xs) = Some x"
  "first_of d (xs @ ys) = first_of (first_of d ys) xs"
  by (simp_all add: first_of_def split: list.splits)

lemma last_of_simps [simp]:
  "last_of d [] = d" "last_of d (xs @ [x]) = Some x" "last_of d (x # xs) = last_of (Some x) xs"
  "last_of d (xs @ x # ys) = last_of (Some x) ys"
  by (simp_all add: last_of_def)

lemma links_append:
  "links es p (xs @ ys) n \<longleftrightarrow> links es p xs (first_of n ys) \<and> links es (last_of p xs) ys n"
  by (induction xs arbitrary: p) auto

lemma links_cong:
  "\<forall>i \<in> set xs. qe_prev (es' i) = qe_prev (es i) \<and> qe_next (es' i) = qe_next (es i) \<Longrightarrow>
   links es' p xs n = links es p xs n"
  by (induction xs arbitrary: p) auto

lemma links_upd_other [simp]: "i \<notin> set xs \<Longrightarrow> links (es(i := e)) p xs n = links es p xs n"
  by (rule links_cong) auto

text \<open>Setting the outer pointers of a segment.\<close>

lemma links_set_next:
  "links es p (xs @ [a]) m \<Longrightarrow> a \<notin> set xs \<Longrightarrow> links (es(a := (es a)\<lparr>qe_next := n\<rparr>)) p (xs @ [a]) n"
  by (simp add: links_append)

lemma links_set_prev:
  "links es q (a # xs) n \<Longrightarrow> a \<notin> set xs \<Longrightarrow> links (es(a := (es a)\<lparr>qe_prev := p\<rparr>)) p (a # xs) n"
  by simp

definition spells :: "'s req_queue \<Rightarrow> nat list \<Rightarrow> bool" where
  "spells q xs \<longleftrightarrow> q_head q = first_of None xs \<and> q_tail q = last_of None xs \<and> links (q_entries q) None xs None \<and>
     distinct xs \<and> q_length q = int (length xs) \<and>
     (\<forall>i. i \<notin> set xs \<longrightarrow> qe_prev (q_entries q i) = None \<and> qe_next (q_entries q i) = None)"

lemma spells_unique:
  assumes "spells q xs" "spells q ys"
  shows "xs = ys"
proof -
  have "links es p us None \<Longrightarrow> links es p vs None \<Longrightarrow> first_of None us = first_of None vs \<Longrightarrow> us = vs" for es p us vs
  proof (induction us arbitrary: p vs)
    case Nil then show ?case by (cases vs) auto
  next
    case (Cons u us) then show ?case by (cases vs) auto
  qed
  with assms show ?thesis by (auto simp: spells_def)
qed

lemma links_head_prev: "links es p xs n \<Longrightarrow> first_of None xs = Some i \<Longrightarrow> qe_prev (es i) = p"
  by (cases xs) auto

lemma enqueueTail_spells:
  assumes "spells q xs" "i \<notin> set xs"
  shows "spells (enqueueTail i q) (xs @ [i])"
proof (cases xs rule: rev_cases)
  case Nil
  then show ?thesis using assms by (auto simp: spells_def enqueueTail_def q_modify_def Let_def)
next
  case (snoc ys t)
  have t: "t \<noteq> i" "t \<notin> set ys" "i \<notin> set ys" using assms snoc by (auto simp: spells_def)
  have l: "links (q_entries q) None (ys @ [t]) None" "q_tail q = Some t" using assms snoc by (auto simp: spells_def)
  let ?es = "(q_entries q)(i := (q_entries q i)\<lparr>qe_prev := Some t, qe_next := None\<rparr>)"
  have "links ?es None (ys @ [t]) None" using l t by (simp add: links_append)
  from links_set_next [OF this, of "Some i"] t
  have "links (?es(t := (?es t)\<lparr>qe_next := Some i\<rparr>)) None (ys @ [t]) (Some i)" by simp
  then have "links (?es(t := (?es t)\<lparr>qe_next := Some i\<rparr>)) None (ys @ [t, i]) None"
    using t by (simp add: links_append)
  moreover have "q_entries (enqueueTail i q) = ?es(t := (?es t)\<lparr>qe_next := Some i\<rparr>)"
    using l by (simp add: enqueueTail_def q_modify_def Let_def)
  moreover have "q_head (enqueueTail i q) = q_head q" "q_tail (enqueueTail i q) = Some i"
    "q_length (enqueueTail i q) = q_length q + 1"
    using l by (simp_all add: enqueueTail_def q_modify_def Let_def)
  moreover have "distinct xs" "q_length q = int (length xs)" "q_head q = first_of None xs"
    "\<And>j. j \<notin> set xs \<Longrightarrow> qe_prev (q_entries q j) = None \<and> qe_next (q_entries q j) = None"
    using assms by (auto simp: spells_def)
  ultimately show ?thesis using assms(2) snoc t by (simp add: spells_def)
qed

lemma unlink_spells:
  assumes "spells q (as @ i # bs)"
  shows "fst (unlink i q) \<and> spells (snd (unlink i q)) (as @ bs)"
proof -
  let ?es = "q_entries q"
  have d: "i \<notin> set as" "i \<notin> set bs" "distinct as" "distinct bs" "set as \<inter> set bs = {}"
    and l: "links ?es None as (Some i)" "qe_prev (?es i) = last_of None as" "qe_next (?es i) = first_of None bs"
      "links ?es (Some i) bs None"
    using assms by (auto simp: spells_def links_append)
  have found: "\<not> (q_head q \<noteq> Some i \<and> qe_prev (?es i) = None \<and> qe_next (?es i) = None)"
    using assms l by (cases as rule: rev_cases) (auto simp: spells_def)
  define es1 where "es1 = (case last_of None as of None \<Rightarrow> ?es | Some p \<Rightarrow> ?es(p := (?es p)\<lparr>qe_next := first_of None bs\<rparr>))"
  define es2 where "es2 = (case first_of None bs of None \<Rightarrow> es1 | Some n \<Rightarrow> es1(n := (es1 n)\<lparr>qe_prev := last_of None as\<rparr>))"
  define es3 where "es3 = es2(i := (es2 i)\<lparr>qe_prev := None, qe_next := None\<rparr>)"
  have 1: "links es1 None as (first_of None bs)" "links es1 (Some i) bs None" "es1 i = ?es i"
  proof -
    have "links es1 None as (first_of None bs) \<and> links es1 (Some i) bs None \<and> es1 i = ?es i"
    proof (cases as rule: rev_cases)
      case Nil then show ?thesis using l by (simp add: es1_def)
    next
      case (snoc as' p)
      then have "p \<noteq> i" "p \<notin> set bs" "p \<notin> set as'" using d by auto
      with snoc show ?thesis using l links_set_next [of ?es None as' p "Some i" "first_of None bs"]
        by (simp add: es1_def)
    qed
    then show "links es1 None as (first_of None bs)" "links es1 (Some i) bs None" "es1 i = ?es i" by auto
  qed
  have 2: "links es2 None as (first_of None bs) \<and> links es2 (last_of None as) bs None \<and> es2 i = ?es i"
  proof (cases bs)
    case Nil then show ?thesis using 1 by (simp add: es2_def)
  next
    case (Cons n bs')
    then have "n \<noteq> i" "n \<notin> set as" "n \<notin> set bs'" using d by auto
    with Cons show ?thesis using 1 by (simp add: es2_def)
  qed
  have 3: "links es3 None (as @ bs) None" using 2 d by (simp add: es3_def links_append)
  have out: "j \<notin> set (as @ bs) \<Longrightarrow> qe_prev (es3 j) = None \<and> qe_next (es3 j) = None" for j
    using assms by (cases as rule: rev_cases; cases bs) (auto simp: es3_def es2_def es1_def spells_def)
  have ents: "q_entries (snd (unlink i q)) = es3"
    using found l
    by (cases as rule: rev_cases; cases bs)
      (simp_all add: unlink_def q_modify_def es3_def es2_def es1_def Let_def)
  have ptr: "fst (unlink i q)" "q_head (snd (unlink i q)) = first_of None (as @ bs)"
    "q_tail (snd (unlink i q)) = last_of None (as @ bs)" "q_length (snd (unlink i q)) = int (length (as @ bs))"
    using found l assms
    by (cases as rule: rev_cases; cases bs; force simp: unlink_def q_modify_def Let_def spells_def)+
  then show ?thesis using 3 out d by (simp add: spells_def ents)
qed

lemma unlink_absent:
  assumes "spells q xs" "i \<notin> set xs"
  shows "unlink i q = (False, q)"
  using assms by (auto simp: unlink_def spells_def Let_def first_of_def split: list.splits)


lemma clear_entries_eq:
  assumes "links (q_entries q) p xs None" "distinct xs" "length xs \<le> n"
  shows "clear_entries n err (first_of None xs) q =
    q\<lparr>q_settled := q_settled q @ map (\<lambda>i. (i, Rejected err)) xs,
      q_entries := (\<lambda>j. if j \<in> set xs then (q_entries q j)\<lparr>qe_timer := None, qe_prev := None, qe_next := None\<rparr>
                         else q_entries q j)\<rparr>"
  using assms
proof (induction xs arbitrary: q p n)
  case Nil
  then show ?case by (cases n) simp_all
next
  case (Cons i xs)
  then obtain m where n: "n = Suc m" "length xs \<le> m" by (cases n) auto
  let ?q = "q_modify i (\<lambda>e. e\<lparr>qe_timer := None, qe_prev := None, qe_next := None\<rparr>) (q_settle i (Rejected err) q)"
  have "links (q_entries ?q) (Some i) xs None" using Cons.prems by (simp add: q_modify_def q_settle_def)
  from Cons.IH [OF this _ n(2)] Cons.prems n(1) show ?case
    by (auto simp: q_modify_def q_settle_def fun_eq_iff)
qed

section \<open>Invariants\<close>

text \<open>What the waiters' list looks like at any time: numbers increase from head to tail, every number
  ever given out is either waiting or settled, and no number is settled twice. \<open>fifo\<close>: whoever is
  resolved came after waiters that were all settled before.\<close>

definition fifo :: "(nat \<times> q_outcome) list \<Rightarrow> bool" where
  "fifo st \<longleftrightarrow> (\<forall>n < length st. \<forall>j < fst (st ! n).
     (case snd (st ! n) of Resolved _ _ \<Rightarrow> j \<in> fst ` set (take n st) | Rejected _ \<Rightarrow> True))"

lemma fifo_Nil [simp]: "fifo []"
  by (simp add: fifo_def)

lemma fifo_snoc:
  assumes "fifo st" "\<And>r t j. out = Resolved r t \<Longrightarrow> j < i \<Longrightarrow> j \<in> fst ` set st"
  shows "fifo (st @ [(i, out)])"
  using assms
  unfolding fifo_def
  by (auto simp: nth_append less_Suc_eq split: q_outcome.splits)

lemma fifo_append_rejected: "fifo st \<Longrightarrow> fifo (st @ map (\<lambda>i. (i, Rejected e)) is)"
proof (induction "is" arbitrary: st)
  case (Cons i "is")
  show ?case using Cons.IH [of "st @ [(i, Rejected e)]"] fifo_snoc [OF Cons.prems, of "Rejected e" i] by simp
qed simp

definition list_inv :: "'s req_queue \<Rightarrow> nat list \<Rightarrow> bool" where
  "list_inv q xs \<longleftrightarrow> spells q xs \<and> sorted_wrt (<) xs \<and> set xs \<subseteq> {..<q_fresh q} \<and>
     distinct (map fst (q_settled q)) \<and> fst ` set (q_settled q) = {..<q_fresh q} - set xs \<and>
     (\<forall>i. i \<notin> set xs \<longrightarrow> qe_timer (q_entries q i) = None) \<and> fifo (q_settled q) \<and>
     (case q_maxQueueSize q of None \<Rightarrow> True | Some m \<Rightarrow> q_length q \<le> max 0 m)"

definition list_view :: "'s req_queue \<Rightarrow> nat option \<times> nat option \<times> int \<times> (nat \<Rightarrow> queue_entry) \<times> nat \<times> (nat \<times> q_outcome) list \<times> int option" where
  "list_view q = (q_head q, q_tail q, q_length q, q_entries q, q_fresh q, q_settled q, q_maxQueueSize q)"

lemma list_inv_view: "list_view q' = list_view q \<Longrightarrow> list_inv q' xs = list_inv q xs"
  by (simp add: list_view_def list_inv_def spells_def cong: option.case_cong)

lemma list_view_head: "list_view q' = list_view q \<Longrightarrow> q_head q' = q_head q"
  by (simp add: list_view_def)

lemma frame_views [simp]:
  "list_view (set_frame f fr q) = list_view q" "list_view (end_frame f q) = list_view q"
  "list_view (new_frame fr q) = list_view q" "list_view (drain_ends f q) = list_view q"
  "list_view (drain_loop f q) = list_view q" "list_view (drain q) = list_view q"
  "list_view (clearDrainTimer q) = list_view q" "list_view (resume_blocked now f t q) = list_view q"
  "list_view (peek_ends f k out q) = list_view q" "list_view (drain_timer_fires now q) = list_view q"
  "list_view (getTokensRemaining k q) = list_view q"
proof -
  show sf: "list_view (set_frame f fr q) = list_view q" for f fr and q :: "'s req_queue"
    by (simp add: set_frame_def list_view_def)
  show ef: "list_view (end_frame f q) = list_view q" for f and q :: "'s req_queue"
    by (simp add: end_frame_def list_view_def)
  show nf: "list_view (new_frame fr q) = list_view q"
    by (simp add: new_frame_def list_view_def set_frame_def)
  show de: "list_view (drain_ends f q) = list_view q" for f and q :: "'s req_queue"
    by (simp add: drain_ends_def end_frame_def list_view_def Let_def)
  show dl: "list_view (drain_loop f q) = list_view q" for f and q :: "'s req_queue"
    by (simp add: drain_loop_def de sf split: option.splits)
  show d: "list_view (drain q) = list_view q" for q :: "'s req_queue"
    by (simp add: drain_def dl) (simp add: list_view_def)
  show "list_view (clearDrainTimer q) = list_view q" by (simp add: clearDrainTimer_def list_view_def)
  show "list_view (resume_blocked now f t q) = list_view q"
    by (simp add: resume_blocked_def de) (simp add: clearDrainTimer_def list_view_def)
  show "list_view (peek_ends f k out q) = list_view q"
    by (simp add: peek_ends_def end_frame_def list_view_def)
  show "list_view (drain_timer_fires now q) = list_view q"
    by (simp add: drain_timer_fires_def d split: option.splits) (simp add: list_view_def)
  show "list_view (getTokensRemaining k q) = list_view q"
    by (simp add: getTokensRemaining_def new_frame_def set_frame_def list_view_def)
qed

lemma store_views:
  "store_increment ops now k c q = (a, q') \<Longrightarrow> list_view q' = list_view q"
  "store_decrement ops now k d q = (u, q') \<Longrightarrow> list_view q' = list_view q"
  "store_undo ops now k c b q = (u, q') \<Longrightarrow> list_view q' = list_view q"
proof -
  show "store_increment ops now k c q = (a, q') \<Longrightarrow> list_view q' = list_view q"
    by (auto simp: store_increment_def list_view_def split: prod.splits sum.splits)
  show d: "store_decrement ops now k d q = (u, q') \<Longrightarrow> list_view q' = list_view q" for d
    by (auto simp: store_decrement_def list_view_def split: prod.splits sum.splits)
  show "store_undo ops now k c b q = (u, q') \<Longrightarrow> list_view q' = list_view q"
    by (auto simp: store_undo_def dest: d split: option.splits)
qed

lemma store_acts_view [simp]: "list_view (q_store_acts ops now f q) = list_view q"
  by (auto simp: q_store_acts_def dest: store_views split: option.splits q_frame.splits prod.splits)

text \<open>The three changes of the list.\<close>

lemma list_inv_enqueue:
  assumes inv: "list_inv q xs" and room: "\<And>m. q_maxQueueSize q = Some m \<Longrightarrow> q_length q < m"
    and e: "qe_prev e = None" "qe_next e = None"
  shows "list_inv (enqueueTail (q_fresh q) (q\<lparr>q_fresh := Suc (q_fresh q), q_entries := (q_entries q)(q_fresh q := e)\<rparr>)) (xs @ [q_fresh q])"
    (is "list_inv (enqueueTail ?i ?q) _")
proof -
  have new: "?i \<notin> set xs" using inv by (auto simp: list_inv_def)
  have "spells ?q xs" using inv new e by (auto simp: list_inv_def spells_def)
  from enqueueTail_spells [OF this new] have s: "spells (enqueueTail ?i ?q) (xs @ [?i])" .
  have f: "q_fresh (enqueueTail ?i ?q) = Suc ?i" "q_settled (enqueueTail ?i ?q) = q_settled q"
    "q_maxQueueSize (enqueueTail ?i ?q) = q_maxQueueSize q" "q_length (enqueueTail ?i ?q) = q_length q + 1"
    by (simp_all add: enqueueTail_def q_modify_def Let_def split: option.splits)
  have t: "j \<noteq> ?i \<Longrightarrow> qe_timer (q_entries (enqueueTail ?i ?q) j) = qe_timer (q_entries q j)" for j
    by (simp add: enqueueTail_def q_modify_def Let_def split: option.splits)
  have "sorted_wrt (<) (xs @ [?i])" using inv by (auto simp: list_inv_def sorted_wrt_append)
  then show ?thesis using s inv f t new room by (auto simp: list_inv_def split: option.splits)
qed

lemma modify_timer_spells: "spells q xs \<Longrightarrow> spells (q_modify i (\<lambda>e. e\<lparr>qe_timer := t\<rparr>) q) xs"
  by (auto simp: spells_def q_modify_def intro: links_cong [THEN iffD1, rotated])

lemma unlink_fields:
  "q_fresh (snd (unlink i q)) = q_fresh q" "q_settled (snd (unlink i q)) = q_settled q"
  "q_maxQueueSize (snd (unlink i q)) = q_maxQueueSize q" "q_frames (snd (unlink i q)) = q_frames q"
  "q_processing (snd (unlink i q)) = q_processing q" "q_drainTimer (snd (unlink i q)) = q_drainTimer q"
  "q_failures (snd (unlink i q)) = q_failures q" "q_nextFrame (snd (unlink i q)) = q_nextFrame q"
  "q_isShutdown (snd (unlink i q)) = q_isShutdown q" "q_timeoutUnlinks (snd (unlink i q)) = q_timeoutUnlinks q"
  "q_log (snd (unlink i q)) = q_log q" "q_strategy (snd (unlink i q)) = q_strategy q"
  "q_shutdownRun (snd (unlink i q)) = q_shutdownRun q" "q_store (snd (unlink i q)) = q_store q"
  "q_maxRequests (snd (unlink i q)) = q_maxRequests q" "q_reports (snd (unlink i q)) = q_reports q"
  "qe_key (q_entries (snd (unlink i q)) j) = qe_key (q_entries q j)"
  "qe_cost (q_entries (snd (unlink i q)) j) = qe_cost (q_entries q j)"
  "qe_timer (q_entries (snd (unlink i q)) j) = qe_timer (q_entries q j)"
  by (simp_all add: unlink_def q_modify_def Let_def split: option.splits)

lemma list_inv_leave:
  assumes inv: "list_inv q (as @ i # bs)" and out: "\<And>r t. out = Resolved r t \<Longrightarrow> as = []"
    and view: "list_view q' = list_view (q_settle i out (q_modify i (\<lambda>e. e\<lparr>qe_timer := None\<rparr>) (snd (unlink i q))))"
  shows "list_inv q' (as @ bs)"
proof -
  let ?q = "q_settle i out (q_modify i (\<lambda>e. e\<lparr>qe_timer := None\<rparr>) (snd (unlink i q)))"
  have sp: "spells q (as @ i # bs)" using inv by (simp add: list_inv_def)
  from unlink_spells [OF this] have "spells (snd (unlink i q)) (as @ bs)" by simp
  from modify_timer_spells [OF this] have s: "spells ?q (as @ bs)" by (simp add: q_settle_def spells_def)
  have i: "i \<notin> set (as @ bs)" "i < q_fresh q" using inv by (auto simp: list_inv_def spells_def)
  have f: "fifo (q_settled q @ [(i, out)])"
  proof (rule fifo_snoc)
    fix r t j assume o': "out = Resolved r t" and j: "j < i"
    then have "j \<notin> set (as @ i # bs)" using inv out by (auto simp: list_inv_def)
    then show "j \<in> fst ` set (q_settled q)" using inv i(2) j by (auto simp: list_inv_def)
  qed (use inv in \<open>simp add: list_inv_def\<close>)
  have len: "q_length ?q = q_length q - 1" using s sp by (simp add: spells_def)
  have "list_inv ?q (as @ bs)"
    using s inv i f len
    by (auto simp: list_inv_def q_settle_def q_modify_def unlink_fields sorted_wrt_append split: option.splits)
  then show ?thesis using list_inv_view [OF view] by simp
qed

lemma length_le_fresh:
  assumes "list_inv q xs"
  shows "length xs \<le> q_fresh q"
proof -
  have "distinct xs" "set xs \<subseteq> {..<q_fresh q}" using assms by (auto simp: list_inv_def spells_def)
  then show ?thesis by (metis card_lessThan card_mono distinct_card finite_lessThan)
qed

lemma clearPending_eq:
  assumes "list_inv q xs"
  shows "clearPending err q =
    q\<lparr>q_settled := q_settled q @ map (\<lambda>i. (i, Rejected err)) xs,
      q_entries := (\<lambda>j. if j \<in> set xs then (q_entries q j)\<lparr>qe_timer := None, qe_prev := None, qe_next := None\<rparr>
                         else q_entries q j),
      q_drainTimer := None, q_head := None, q_tail := None, q_length := 0, q_processing := False\<rparr>"
proof -
  have "links (q_entries (clearDrainTimer q)) None xs None" "distinct xs" "q_head q = first_of None xs"
    using assms by (auto simp: list_inv_def spells_def clearDrainTimer_def)
  from clear_entries_eq [OF this(1,2) length_le_fresh [OF assms]] this(3) show ?thesis
    by (simp add: clearPending_def clearDrainTimer_def cong: if_cong)
qed

lemma list_inv_clear:
  assumes "list_inv q xs"
  shows "list_inv (clearPending err q) []"
proof -
  have "distinct (map fst (q_settled q) @ xs)" using assms by (auto simp: list_inv_def spells_def)
  then show ?thesis using assms fifo_append_rejected [of "q_settled q" err xs]
    by (auto simp: clearPending_eq [OF assms] list_inv_def spells_def comp_def image_Un image_image split: option.splits)
qed

text \<open>Every event keeps it.\<close>

lemma list_inv_drain [simp]: "list_inv (drain q) xs = list_inv q xs"
  by (rule list_inv_view) simp

lemma spells_head:
  assumes "spells q xs" "q_head q = Some i"
  obtains ys where "xs = i # ys"
  using assms by (auto simp: spells_def first_of_def split: list.splits)

lemma timeout_body_list:
  assumes inv: "list_inv q xs"
  shows "\<exists>ys. list_inv (timeout_body i q) ys"
proof (cases "i \<in> set xs")
  case True
  then obtain as bs where xs: "xs = as @ i # bs" by (meson split_list)
  obtain q1 where u: "unlink i q = (True, q1)"
    using unlink_spells [of q as i bs] inv xs by (cases "unlink i q") (auto simp: list_inv_def)
  have "list_view (timeout_body i q) = list_view (q_settle i (Rejected QueueTimeout) (q_modify i (\<lambda>e. e\<lparr>qe_timer := None\<rparr>) (snd (unlink i q))))"
    unfolding timeout_body_def Let_def u
    by (simp add: Let_def) (simp add: list_view_def q_settle_def clearDrainTimer_def)
  from list_inv_leave [OF inv [unfolded xs] _ this] show ?thesis by auto
next
  case False
  have "spells q xs" using inv by (simp add: list_inv_def)
  from unlink_absent [OF this False] have "timeout_body i q = q_modify i (\<lambda>e. e\<lparr>qe_timer := None\<rparr>) q"
    by (simp add: timeout_body_def)
  moreover have "list_view (q_modify i (\<lambda>e. e\<lparr>qe_timer := None\<rparr>) q) = list_view q"
  proof -
    have "qe_timer (q_entries q i) = None" using inv False by (simp add: list_inv_def)
    then have "(q_entries q i)\<lparr>qe_timer := None\<rparr> = q_entries q i" by simp
    then show ?thesis by (simp add: list_view_def q_modify_def)
  qed
  ultimately show ?thesis using list_inv_view [of "timeout_body i q" q xs] inv by auto
qed

lemma resume_increment_list:
  assumes inv: "list_inv q xs"
  shows "\<exists>ys. list_inv (resume_increment f i r q) ys"
proof (cases "q_head q = Some i \<and> \<not> isBlocked r")
  case True
  then obtain bs where xs: "xs = [] @ i # bs" using inv by (auto simp: list_inv_def elim: spells_head)
  have "list_view (resume_increment f i r q) =
      list_view (q_settle i (Resolved (remaining r) (resetTime r)) (q_modify i (\<lambda>e. e\<lparr>qe_timer := None\<rparr>) (snd (unlink i q))))"
    using True by (simp add: resume_increment_def Let_def)
  from list_inv_leave [OF inv [unfolded xs] _ this] show ?thesis by auto
next
  case False
  then have "list_view (resume_increment f i r q) = list_view q" by (auto simp: resume_increment_def Let_def)
  then show ?thesis using list_inv_view [of "resume_increment f i r q" q xs] inv by auto
qed

lemma resume_list:
  assumes inv: "list_inv q xs"
  shows "\<exists>ys. list_inv (q_resume now f q) ys"
proof -
  have same: "list_view q' = list_view q \<Longrightarrow> \<exists>ys. list_inv q' ys" for q'
    using list_inv_view [of q' q xs] inv by auto
  then show ?thesis using resume_increment_list [OF inv]
    by (auto simp: q_resume_def split: option.splits q_frame.splits sum.splits intro!: same)
qed

lemma shutdown_finish_list:
  assumes "list_inv q xs"
  shows "list_inv (shutdown_finish ops n why q) []"
proof -
  have "list_view (shutdown_finish ops n why q) = list_view (clearPending (ShutdownError why) q)"
    by (simp add: shutdown_finish_def list_view_def Let_def split: prod.splits sum.splits)
  from list_inv_view [OF this] list_inv_clear [OF assms] show ?thesis by simp
qed

lemma shutdown_wait_list:
  assumes "list_inv q xs"
  shows "\<exists>ys. list_inv (shutdown_wait ops now n p why q) ys"
proof (cases "0 < p \<and> 0 < q_length q")
  case True
  then have "list_view (shutdown_wait ops now n p why q) = list_view q" by (simp add: shutdown_wait_def list_view_def)
  with list_inv_view [OF this] assms show ?thesis by auto
next
  case False
  then have "shutdown_wait ops now n p why q = shutdown_finish ops n why q" by (auto simp: shutdown_wait_def)
  with shutdown_finish_list [OF assms, of ops n why] show ?thesis by auto
qed

lemma removeTokens_list:
  assumes inv: "list_inv q xs"
  shows "\<exists>ys. list_inv (snd (removeTokens now k c q)) ys"
proof -
  let ?e = "\<lparr>qe_key = k, qe_cost = js_or c (js_int 1), qe_timer = queue_timer now q, qe_prev = None, qe_next = None\<rparr>"
  have "list_inv (drain (enqueueTail (q_fresh q) (q\<lparr>q_fresh := Suc (q_fresh q), q_entries := (q_entries q)(q_fresh q := ?e)\<rparr>))) (xs @ [q_fresh q])"
    if "\<And>m. q_maxQueueSize q = Some m \<Longrightarrow> q_length q < m"
    using list_inv_enqueue [OF inv that, of ?e] by simp
  then show ?thesis using inv
    by (auto simp: removeTokens_def Let_def not_le split: option.splits if_splits)
qed

lemma exec_list:
  assumes inv: "list_inv q xs"
  shows "\<exists>ys. list_inv (q_exec ops ev q) ys"
proof (cases ev)
  case (CallClear)
  then show ?thesis using inv list_inv_clear [OF inv] by (auto simp: q_clear_def)
next
  case (CallShutdown now ms why)
  have "list_view (q\<lparr>q_timeoutUnlinks := 0, q_isShutdown := True\<rparr>) = list_view q"
    "list_view (q\<lparr>q_timeoutUnlinks := 0, q_reports := rs\<rparr>) = list_view q" for rs
    by (simp_all add: list_view_def)
  then have q: "list_inv (q\<lparr>q_timeoutUnlinks := 0, q_isShutdown := True\<rparr>) xs"
    "list_inv (q\<lparr>q_timeoutUnlinks := 0, q_reports := rs\<rparr>) xs" for rs
    using inv list_inv_view by metis+
  then have d: "list_inv (drain (q\<lparr>q_timeoutUnlinks := 0, q_isShutdown := True\<rparr>)) xs" by simp
  show ?thesis using CallShutdown q(2) shutdown_wait_list [OF d] shutdown_finish_list [OF d]
    by (simp add: q_shutdown_def Let_def) metis
next
  case (ShutdownTimer now)
  then show ?thesis using inv shutdown_wait_list [of "drain q" xs]
    by (auto simp: shutdown_polls_def split: option.splits)
next
  case (TimeoutTimer now i)
  then show ?thesis using timeout_body_list [OF inv] inv by (auto simp: timeout_fires_def split: option.splits)
next
  case (StoreActs now f)
  then show ?thesis using inv by (auto simp: list_inv_view [OF store_acts_view])
next
  case (DrainTimer now)
  then show ?thesis using inv by (auto simp: list_inv_view [OF frame_views(10)])
next
  case (CallPeek k)
  then show ?thesis using inv by (auto simp: list_inv_view [OF frame_views(11)])
qed (simp_all add: resume_list [OF inv] removeTokens_list [OF inv])

lemma new_queue_list: "list_inv (new_RateLimiterQueue st w m strat size' t owns) []"
  by (simp add: new_RateLimiterQueue_def list_inv_def spells_def no_entry_def split: option.splits)

lemma run_list: "list_inv q xs \<Longrightarrow> \<exists>ys. list_inv (q_run ops evs q) ys"
proof (induction evs arbitrary: q xs)
  case (Cons ev evs)
  from exec_list [OF Cons.prems, of ops ev] obtain zs where "list_inv (q_exec ops ev q) zs" ..
  from Cons.IH [OF this] show ?case by (simp add: q_run_def)
qed (auto simp: q_run_def)

section \<open>No waiter is forgotten\<close>

definition is_drain :: "q_frame \<Rightarrow> bool" where
  "is_drain fr = (case fr of AtIncrement _ _ \<Rightarrow> True | AtUndoStale _ _ _ _ \<Rightarrow> True | AtUndoBlocked _ _ _ _ \<Rightarrow> True | _ \<Rightarrow> False)"

lemma is_drain_simps [simp]:
  "is_drain (AtIncrement i a)" "is_drain (AtUndoStale k c b u)" "is_drain (AtUndoBlocked k c t u)"
  "\<not> is_drain (AtPeekIncrement k a)" "\<not> is_drain (AtPeekDecrement k r u)" "\<not> is_drain (AtPeekUndo k b e u)"
  by (simp_all add: is_drain_def)

text \<open>A drain is under way or will be started by the timer.\<close>

definition awake :: "'s req_queue \<Rightarrow> bool" where
  "awake q \<longleftrightarrow> (\<exists>f fr. map_of (q_frames q) f = Some fr \<and> is_drain fr) \<or> q_drainTimer q \<noteq> None"

definition wakeful :: "'s req_queue \<Rightarrow> bool" where
  "wakeful q \<longleftrightarrow> (q_processing q \<or> q_head q \<noteq> None \<longrightarrow> awake q)"

text \<open>Promises that failed are on record, and frame numbers are fresh.\<close>

definition failed_promise :: "q_frame \<Rightarrow> bool" where
  "failed_promise fr = (case fr of
      AtIncrement _ (Some (Inl _)) \<Rightarrow> True | AtUndoStale _ _ _ (Some (Inl _)) \<Rightarrow> True | AtUndoBlocked _ _ _ (Some (Inl _)) \<Rightarrow> True
    | AtPeekDecrement _ _ (Some (Inl _)) \<Rightarrow> True
    | _ \<Rightarrow> False)"

definition frames_ok :: "'s req_queue \<Rightarrow> bool" where
  "frames_ok q \<longleftrightarrow> jsmap_ok (q_frames q) \<and> (\<forall>f fr. map_of (q_frames q) f = Some fr \<longrightarrow>
     f < q_nextFrame q \<and> (failed_promise fr \<longrightarrow> q_failures q \<noteq> []))"

lemma set_frame_simps [simp]:
  "q_frames (set_frame f fr q) = AList.update f fr (q_frames q)" "q_drainTimer (set_frame f fr q) = q_drainTimer q"
  "q_processing (set_frame f fr q) = q_processing q" "q_head (set_frame f fr q) = q_head q"
  "q_nextFrame (set_frame f fr q) = q_nextFrame q" "q_failures (set_frame f fr q) = q_failures q"
  by (simp_all add: set_frame_def)

lemma end_frame_simps [simp]:
  "q_frames (end_frame f q) = AList.delete f (q_frames q)" "q_drainTimer (end_frame f q) = q_drainTimer q"
  "q_processing (end_frame f q) = q_processing q" "q_head (end_frame f q) = q_head q"
  "q_nextFrame (end_frame f q) = q_nextFrame q" "q_failures (end_frame f q) = q_failures q"
  by (simp_all add: end_frame_def)

lemma awake_set_frame: "is_drain fr \<Longrightarrow> awake (set_frame f fr q)"
  by (auto simp: awake_def)

lemma wakeful_drain_ends: "q_head q = None \<Longrightarrow> wakeful (drain_ends f q)"
  by (simp add: wakeful_def drain_ends_def awake_def Let_def)

lemma wakeful_drain_loop: "wakeful (drain_loop f q)"
  by (auto simp: drain_loop_def wakeful_drain_ends split: option.splits) (simp add: wakeful_def awake_set_frame)

lemma wakeful_drain: "(q_processing q \<Longrightarrow> awake q) \<Longrightarrow> wakeful (drain q)"
  by (auto simp: drain_def wakeful_drain_loop) (simp add: wakeful_def)


lemma awake_replace:
  "map_of (q_frames q) f = Some fr \<Longrightarrow> is_drain fr' = is_drain fr \<Longrightarrow> awake (set_frame f fr' q) = awake q"
  by (auto simp: awake_def split: if_splits) (metis option.inject)

lemma awake_end_peek:
  "map_of (q_frames q) f = Some fr \<Longrightarrow> \<not> is_drain fr \<Longrightarrow> awake (end_frame f q) = awake q"
  by (auto simp: awake_def delete_conv') (metis option.inject)

lemma frames_ok_set:
  "frames_ok q \<Longrightarrow> f < q_nextFrame q \<Longrightarrow> (failed_promise fr \<Longrightarrow> q_failures q \<noteq> []) \<Longrightarrow> frames_ok (set_frame f fr q)"
  by (auto simp: frames_ok_def)

lemma frames_ok_end: "frames_ok q \<Longrightarrow> frames_ok (end_frame f q)"
  by (auto simp: frames_ok_def delete_conv' split: if_splits)

lemma frames_ok_stop [simp]: "frames_ok ((clearDrainTimer q)\<lparr>q_processing := False\<rparr>) = frames_ok q"
  by (simp add: frames_ok_def clearDrainTimer_def)

lemma frames_ok_drain_ends: "frames_ok q \<Longrightarrow> frames_ok (drain_ends f q)"
  using frames_ok_end [of q f] by (simp add: drain_ends_def Let_def) (simp add: frames_ok_def)

lemma failed_promise_pending [simp]:
  "\<not> failed_promise (AtIncrement i None)" "\<not> failed_promise (AtUndoStale k c b (undo_promise q b'))"
  "\<not> failed_promise (AtUndoBlocked k c t (undo_promise q b'))" "\<not> failed_promise (AtPeekIncrement k a)"
  "\<not> failed_promise (AtPeekDecrement k r None)" "\<not> failed_promise (AtPeekUndo k b'' e u)"
  by (simp_all add: failed_promise_def undo_promise_def)

lemma frames_ok_drain_loop: "frames_ok q \<Longrightarrow> f < q_nextFrame q \<Longrightarrow> frames_ok (drain_loop f q)"
  by (auto simp: drain_loop_def frames_ok_drain_ends intro!: frames_ok_set split: option.splits)

lemma frames_ok_drain: "frames_ok q \<Longrightarrow> frames_ok (drain q)"
  by (auto simp: drain_def intro!: frames_ok_drain_loop) (auto simp: frames_ok_def less_Suc_eq)

text \<open>What a state must share with another for both to be as wakeful.\<close>

definition frame_view :: "'s req_queue \<Rightarrow> (nat, q_frame) jsmap \<times> nat \<times> string list \<times> time option \<times> bool" where
  "frame_view q = (q_frames q, q_nextFrame q, q_failures q, q_drainTimer q, q_processing q)"

lemma frame_view_cong:
  assumes "frame_view q' = frame_view q"
  shows "frames_ok q' = frames_ok q" "awake q' = awake q" "q_processing q' = q_processing q" "q_failures q' = q_failures q"
  using assms by (simp_all add: frame_view_def frames_ok_def awake_def)

definition alert :: "'s req_queue \<Rightarrow> bool" where
  "alert q \<longleftrightarrow> frames_ok q \<and> (q_failures q = [] \<longrightarrow> wakeful q)"

lemma alert_drain_frame:
  "frames_ok q \<Longrightarrow> f < q_nextFrame q \<Longrightarrow> is_drain fr \<Longrightarrow> (failed_promise fr \<Longrightarrow> q_failures q \<noteq> []) \<Longrightarrow> alert (set_frame f fr q)"
  by (simp add: alert_def frames_ok_set wakeful_def awake_set_frame)

lemma drain_failures [simp]: "q_failures (drain q) = q_failures q"
  by (simp add: drain_def drain_loop_def drain_ends_def Let_def split: option.splits)

lemma alert_drain_loop: "frames_ok q \<Longrightarrow> f < q_nextFrame q \<Longrightarrow> alert (drain_loop f q)"
  by (simp add: alert_def frames_ok_drain_loop wakeful_drain_loop)

lemma alert_drain:
  "frames_ok q \<Longrightarrow> (q_failures q = [] \<Longrightarrow> q_processing q \<Longrightarrow> awake q) \<Longrightarrow> alert (drain q)"
  by (simp add: alert_def frames_ok_drain wakeful_drain)

lemma alert_failed: "frames_ok q \<Longrightarrow> q_failures q \<noteq> [] \<Longrightarrow> alert q"
  by (simp add: alert_def)

text \<open>Store effects.\<close>

lemma store_call_frames:
  "store_increment ops now k c q = (a, q') \<Longrightarrow> q_frames q' = q_frames q \<and> q_nextFrame q' = q_nextFrame q \<and>
     q_drainTimer q' = q_drainTimer q \<and> q_processing q' = q_processing q \<and> q_head q' = q_head q \<and>
     q_failures q' = (case a of Inl e \<Rightarrow> q_failures q @ [e] | Inr _ \<Rightarrow> q_failures q)"
  "store_decrement ops now k d q = (u, q') \<Longrightarrow> q_frames q' = q_frames q \<and> q_nextFrame q' = q_nextFrame q \<and>
     q_drainTimer q' = q_drainTimer q \<and> q_processing q' = q_processing q \<and> q_head q' = q_head q \<and>
     q_failures q' = (case u of Inl e \<Rightarrow> q_failures q @ [e] | Inr _ \<Rightarrow> q_failures q)"
  "store_undo ops now k c b q = (u, q') \<Longrightarrow> q_frames q' = q_frames q \<and> q_nextFrame q' = q_nextFrame q \<and>
     q_drainTimer q' = q_drainTimer q \<and> q_processing q' = q_processing q \<and> q_head q' = q_head q \<and>
     q_failures q' = (case u of Inl e \<Rightarrow> q_failures q @ [e] | Inr _ \<Rightarrow> q_failures q)"
  by (auto simp: store_increment_def store_decrement_def store_undo_def split: prod.splits sum.splits option.splits)

lemma alert_store_frame:
  assumes "alert q" "map_of (q_frames q) f = Some fr" "is_drain fr' = is_drain fr"
    and "failed_promise fr' \<Longrightarrow> q_failures q' \<noteq> []"
    and "q_frames q' = q_frames q \<and> q_nextFrame q' = q_nextFrame q \<and> q_drainTimer q' = q_drainTimer q \<and>
      q_processing q' = q_processing q \<and> q_head q' = q_head q \<and> (q_failures q' = [] \<longrightarrow> q_failures q = []) \<and>
      (q_failures q \<noteq> [] \<longrightarrow> q_failures q' \<noteq> [])"
  shows "alert (set_frame f fr' q')"
proof -
  have "frames_ok q'" "f < q_nextFrame q'" using assms(1,2,5) by (auto simp: alert_def frames_ok_def)
  then have "frames_ok (set_frame f fr' q')" using assms(4) by (rule frames_ok_set)
  moreover have "awake (set_frame f fr' q') = awake q"
    using awake_replace [of q' f fr fr'] assms(2,3,5) by (simp add: awake_def)
  ultimately show ?thesis using assms(1,5) by (simp add: alert_def wakeful_def)
qed

lemma failed_promise_answer [simp]:
  "failed_promise (AtIncrement i (Some a)) = (\<exists>e. a = Inl e)"
  "failed_promise (AtUndoStale k c b (Some u)) = (\<exists>e. u = Inl e)"
  "failed_promise (AtUndoBlocked k c t (Some u)) = (\<exists>e. u = Inl e)"
  "failed_promise (AtPeekDecrement k r (Some u)) = (\<exists>e. u = Inl e)"
  by (simp_all add: failed_promise_def split: sum.splits)

lemma alert_store_acts: "alert q \<Longrightarrow> alert (q_store_acts ops now f q)"
  by (auto simp: q_store_acts_def split: option.splits q_frame.splits prod.splits
      intro!: alert_store_frame [of q f] dest!: store_call_frames split: sum.splits)

text \<open>Continuations and timers.\<close>

lemma frame_live: "frames_ok q \<Longrightarrow> map_of (q_frames q) f = Some fr \<Longrightarrow> f < q_nextFrame q"
  by (auto simp: frames_ok_def)

lemma frame_failed: "frames_ok q \<Longrightarrow> map_of (q_frames q) f = Some fr \<Longrightarrow> failed_promise fr \<Longrightarrow> q_failures q \<noteq> []"
  by (auto simp: frames_ok_def)

lemma alert_drain_fails:
  "frames_ok q \<Longrightarrow> map_of (q_frames q) f = Some fr \<Longrightarrow> failed_promise fr \<Longrightarrow> alert (drain_ends f q)"
  using frame_failed [of q f fr] by (intro alert_failed frames_ok_drain_ends) (auto simp: drain_ends_def Let_def)

lemma alert_resume_increment:
  assumes "frames_ok q" "f < q_nextFrame q"
  shows "alert (resume_increment f i r q)"
proof -
  let ?q = "q_settle i (Resolved (remaining r) (resetTime r)) (q_modify i (\<lambda>x. x\<lparr>qe_timer := None\<rparr>) (snd (unlink i q)))"
  have "frame_view ?q = frame_view q" by (simp add: frame_view_def q_settle_def q_modify_def unlink_fields)
  then have "frames_ok ?q" "f < q_nextFrame ?q"
    using assms frame_view_cong(1) [of ?q q] by (simp_all add: frame_view_def)
  then show ?thesis using assms
    by (auto simp: resume_increment_def Let_def intro!: alert_drain_frame alert_drain_loop)
qed

lemma alert_peek_ends:
  assumes "alert q" "map_of (q_frames q) f = Some fr" "\<not> is_drain fr"
  shows "alert (peek_ends f k out q)"
proof -
  have "frame_view (peek_ends f k out q) = frame_view (end_frame f q)" by (simp add: peek_ends_def frame_view_def)
  note v = frame_view_cong [OF this]
  have h: "q_head (peek_ends f k out q) = q_head q" by (simp add: peek_ends_def)
  from frames_ok_end [of q f] awake_end_peek [OF assms(2,3)] assms(1) show ?thesis
    by (simp add: alert_def wakeful_def v h)
qed

lemma alert_set_peek:
  "alert q \<Longrightarrow> map_of (q_frames q) f = Some fr \<Longrightarrow> \<not> is_drain fr \<Longrightarrow> \<not> is_drain fr' \<Longrightarrow> \<not> failed_promise fr' \<Longrightarrow>
   alert (set_frame f fr' q)"
  by (rule alert_store_frame [of q f fr]) auto

lemma alert_resume_blocked:
  "frames_ok q \<Longrightarrow> alert (resume_blocked now f t q)"
proof -
  assume ok: "frames_ok q"
  let ?q = "(clearDrainTimer q)\<lparr>q_drainTimer := Some (now + timer_delay (max MIN_BLOCK_RETRY_DELAY_MS (t - now)))\<rparr>"
  have "frames_ok ?q" using ok by (simp add: frames_ok_def clearDrainTimer_def)
  then have "frames_ok (drain_ends f ?q)" by (rule frames_ok_drain_ends)
  moreover have "awake (drain_ends f ?q)" by (simp add: awake_def drain_ends_def Let_def)
  ultimately show ?thesis by (simp add: alert_def wakeful_def resume_blocked_def)
qed

lemma alert_resume:
  assumes "alert q"
  shows "alert (q_resume now f q)"
proof -
  have ok: "frames_ok q" using assms by (simp add: alert_def)
  show ?thesis
    using assms ok
    by (auto simp: q_resume_def split: option.splits q_frame.splits sum.splits
        intro!: alert_resume_increment alert_drain_loop alert_drain_fails alert_resume_blocked
          alert_peek_ends alert_set_peek intro: frame_live)
qed

lemma alert_timeout:
  assumes "alert q"
  shows "alert (timeout_body i q)"
proof -
  let ?u = "snd (unlink i q)" and ?m = "\<lambda>q. q_modify i (\<lambda>e. e\<lparr>qe_timer := None\<rparr>) q"
  let ?s = "\<lambda>q. if q_isShutdown q then q\<lparr>q_timeoutUnlinks := q_timeoutUnlinks q + 1\<rparr> else q"
  let ?q4 = "q_settle i (Rejected QueueTimeout) (?s (?m ?u))"
  have v: "frame_view ?q4 = frame_view q" by (simp add: frame_view_def q_settle_def q_modify_def unlink_fields)
  note v4 = frame_view_cong [OF v]
  have 1: "alert (drain (if b \<and> q_drainTimer ?q4 \<noteq> None then (clearDrainTimer ?q4)\<lparr>q_processing := False\<rparr> else ?q4))" for b
  proof (rule alert_drain)
    show "frames_ok (if b \<and> q_drainTimer ?q4 \<noteq> None then (clearDrainTimer ?q4)\<lparr>q_processing := False\<rparr> else ?q4)"
      using assms v4(1) by (simp add: alert_def)
  qed (use assms v4 in \<open>auto simp: alert_def wakeful_def clearDrainTimer_def split: if_splits\<close>)
  have 2: "alert (?m ?u)" if "fst (unlink i q) = False"
  proof -
    have u: "?u = q" using that by (auto simp: unlink_def Let_def split: if_splits)
    have "frame_view (?m q) = frame_view q" "q_head (?m q) = q_head q" by (simp_all add: frame_view_def q_modify_def)
    then show ?thesis using assms frame_view_cong [of "?m q" q] by (simp add: u alert_def wakeful_def)
  qed
  show ?thesis using 1 [of "q_head q = Some i"] 2 by (cases "unlink i q") (auto simp: timeout_body_def Let_def)
qed

lemma alert_clear: "list_inv q xs \<Longrightarrow> alert q \<Longrightarrow> alert (clearPending err q)"
  by (auto simp: clearPending_eq alert_def wakeful_def frames_ok_def)


lemma alert_enqueue:
  assumes "alert q"
  shows "alert (drain (enqueueTail i (q\<lparr>q_fresh := n, q_entries := es\<rparr>)))"
proof -
  have "frame_view (enqueueTail i (q\<lparr>q_fresh := n, q_entries := es\<rparr>)) = frame_view q"
    by (simp add: frame_view_def enqueueTail_def q_modify_def Let_def split: option.splits)
  note v = frame_view_cong [OF this]
  show ?thesis by (rule alert_drain) (use assms in \<open>auto simp: alert_def wakeful_def v\<close>)
qed

lemma alert_cong: "frame_view q' = frame_view q \<Longrightarrow> q_head q' = q_head q \<Longrightarrow> alert q' = alert q"
  using frame_view_cong [of q' q] by (simp add: alert_def wakeful_def)

lemma alert_updates [simp]:
  "alert (q\<lparr>q_timeoutUnlinks := n\<rparr>) = alert q" "alert (q\<lparr>q_isShutdown := b\<rparr>) = alert q"
  "alert (q\<lparr>q_shutdownRun := sr\<rparr>) = alert q" "alert (q\<lparr>q_reports := rs\<rparr>) = alert q"
  "alert (q\<lparr>q_peeked := ps\<rparr>) = alert q" "alert (q\<lparr>q_store := s\<rparr>) = alert q"
  by (rule alert_cong; simp add: frame_view_def)+

lemma alert_drains: "alert q \<Longrightarrow> alert (drain q)"
  by (rule alert_drain) (auto simp: alert_def wakeful_def)

lemma alert_shutdown_finish:
  assumes "list_inv q xs" "alert q"
  shows "alert (shutdown_finish ops n why q)"
proof -
  have c: "alert (clearPending (ShutdownError why) q)" by (rule alert_clear [OF assms])
  have fail: "alert q1 \<Longrightarrow> alert (q1\<lparr>q_failures := fs @ [e]\<rparr>)" for q1 :: "'s req_queue" and fs e
    by (auto simp: alert_def frames_ok_def)
  show ?thesis using c by (auto simp: shutdown_finish_def Let_def split: prod.splits sum.splits intro!: fail)
qed

lemma alert_shutdown_wait:
  assumes "list_inv q xs" "alert q"
  shows "alert (shutdown_wait ops now n p why q)"
  using alert_shutdown_finish [OF assms] assms(2)
  by (auto simp: shutdown_wait_def)

lemma alert_exec:
  assumes inv: "list_inv q xs" and a: "alert q"
  shows "alert (q_exec ops ev q)"
proof (cases ev)
  case (CallRemoveTokens now k c)
  then show ?thesis using a alert_enqueue [OF a]
    by (auto simp: removeTokens_def Let_def split: option.splits if_splits)
next
  case (CallPeek k)
  have f: "f < q_nextFrame q" if "map_of (q_frames q) f = Some fr" for f fr
    using a that by (auto simp: alert_def frames_ok_def)
  have "alert (new_frame (AtPeekIncrement k None) q)"
  proof -
    have "frames_ok (q\<lparr>q_nextFrame := Suc (q_nextFrame q)\<rparr>)" using a by (auto simp: alert_def frames_ok_def less_Suc_eq)
    then have "frames_ok (new_frame (AtPeekIncrement k None) q)"
      by (auto simp: new_frame_def intro!: frames_ok_set)
    moreover have "awake q \<Longrightarrow> awake (new_frame (AtPeekIncrement k None) q)"
      using f by (auto simp: new_frame_def awake_def) (metis nat_neq_iff)
    moreover have "q_processing (new_frame fr q) = q_processing q" "q_head (new_frame fr q) = q_head q"
      "q_failures (new_frame fr q) = q_failures q" for fr by (simp_all add: new_frame_def)
    ultimately show ?thesis using a by (simp add: alert_def wakeful_def)
  qed
  then show ?thesis using CallPeek a by (simp add: getTokensRemaining_def)
next
  case CallClear
  then show ?thesis using a alert_clear [OF inv a] by (simp add: q_clear_def)
next
  case (CallShutdown now ms why)
  let ?q = "q\<lparr>q_timeoutUnlinks := 0, q_isShutdown := True\<rparr>"
  have "list_inv ?q xs" using inv list_inv_view [of ?q q] by (simp add: list_view_def)
  then have "list_inv (drain ?q) xs" by simp
  with a show ?thesis using CallShutdown
    by (simp add: q_shutdown_def Let_def alert_drains alert_shutdown_wait alert_shutdown_finish)
next
  case (DrainTimer now)
  have "frames_ok (q\<lparr>q_drainTimer := None, q_processing := False\<rparr>)"
    using a by (simp add: alert_def frames_ok_def)
  then have "alert (drain (q\<lparr>q_drainTimer := None, q_processing := False\<rparr>))" by (rule alert_drain) simp
  then show ?thesis using DrainTimer a by (auto simp: drain_timer_fires_def split: option.splits)
next
  case (TimeoutTimer now i)
  then show ?thesis using a alert_timeout [OF a] by (simp add: timeout_fires_def split: option.splits)
next
  case (ShutdownTimer now)
  have "list_inv (drain q) xs" using inv by simp
  note w = alert_shutdown_wait [OF this alert_drains [OF a]]
  show ?thesis using ShutdownTimer a w
    by (auto simp: shutdown_polls_def split: option.splits)
qed (simp_all add: a alert_store_acts alert_resume)

lemma new_queue_alert: "alert (new_RateLimiterQueue st w m strat size' t owns)"
  by (simp add: new_RateLimiterQueue_def alert_def frames_ok_def wakeful_def)

lemma run_alert: "list_inv q xs \<Longrightarrow> alert q \<Longrightarrow> alert (q_run ops evs q)"
proof (induction evs arbitrary: q xs)
  case (Cons ev evs)
  from exec_list [OF Cons.prems(1), of ops ev] obtain zs where "list_inv (q_exec ops ev q) zs" ..
  from Cons.IH [OF this alert_exec [OF Cons.prems]] show ?case by (simp add: q_run_def)
qed (simp add: q_run_def)

end
