(* ===== verification/Request_Queue_Properties.thy ===== *)
theory Request_Queue_Properties
  imports Request_Queue
begin

text \<open>
  What a queue charges the store, what \<open>shutdown\<close> reports, the pool of queues per key, and the
  properties of both.
\<close>

section \<open>What the queue has charged to a key\<close>

definition charge :: "strategy \<Rightarrow> js_value \<Rightarrow> bool \<Rightarrow> int" where
  "charge strat c blocked = (if strat = TOKEN_BUCKET \<and> blocked then 0 else sanitizeIncrementCost c 1)"

text \<open>The account of the queue's own completed calls: an increment is entered at its cost (a blocked one of a
  token bucket at nothing), a decrement against it. It takes every answer for a count of the store, which
  the stores themselves do; a shield answers blocked probes without counting them, and there the account
  differs from what the store holds (\<open>shielded_probe_opens_slot\<close>).\<close>

primrec call_charge :: "strategy \<Rightarrow> key \<Rightarrow> store_call \<Rightarrow> int" where
  "call_charge strat k (IncDone k' c r) = (if k' = k then charge strat c (isBlocked r) else 0)"
| "call_charge strat k (DecDone k' c) = (if k' = k then - sanitizeIncrementCost c 1 else 0)"

definition net_charge :: "'s req_queue \<Rightarrow> key \<Rightarrow> int" where
  "net_charge q k = sum_list (map (call_charge (q_strategy q) k) (q_log q))"

text \<open>Costs of the requests that were let through, and charges of the frames that still have to
  decide or to undo.\<close>

definition outcome_cost :: "(nat \<Rightarrow> queue_entry) \<Rightarrow> key \<Rightarrow> nat \<times> q_outcome \<Rightarrow> int" where
  "outcome_cost es k = (\<lambda>(i, out). case out of
     Resolved _ _ \<Rightarrow> if qe_key (es i) = k then sanitizeIncrementCost (qe_cost (es i)) 1 else 0 | Rejected _ \<Rightarrow> 0)"

definition admitted_cost :: "'s req_queue \<Rightarrow> key \<Rightarrow> int" where
  "admitted_cost q k = sum_list (map (outcome_cost (q_entries q) k) (q_settled q))"

definition frame_charge :: "strategy \<Rightarrow> (nat \<Rightarrow> queue_entry) \<Rightarrow> key \<Rightarrow> q_frame \<Rightarrow> int" where
  "frame_charge strat es k fr = (case fr of
     AtIncrement i (Some (Inr r)) \<Rightarrow> if qe_key (es i) = k then charge strat (qe_cost (es i)) (isBlocked r) else 0
   | AtUndoStale k' c b None \<Rightarrow> if k' = k then charge strat c b else 0
   | AtUndoBlocked k' c t None \<Rightarrow> if k' = k then charge strat c True else 0
   | AtPeekIncrement k' (Some (Inr r)) \<Rightarrow> if k' = k then charge strat (js_int 1) (isBlocked r) else 0
   | AtPeekDecrement k' r None \<Rightarrow> if k' = k then charge strat (js_int 1) (isBlocked r) else 0
   | _ \<Rightarrow> 0)"

definition pending_charge :: "'s req_queue \<Rightarrow> key \<Rightarrow> int" where
  "pending_charge q k = sum_list (map (\<lambda>p. frame_charge (q_strategy q) (q_entries q) k (snd p)) (q_frames q))"

text \<open>Frames speak of existing entries, and a token bucket is not peeked at.\<close>

definition is_peek :: "q_frame \<Rightarrow> bool" where
  "is_peek fr = (case fr of AtPeekIncrement _ _ \<Rightarrow> True | AtPeekDecrement _ _ _ \<Rightarrow> True | AtPeekUndo _ _ _ _ \<Rightarrow> True | _ \<Rightarrow> False)"

definition frame_fits :: "strategy \<Rightarrow> nat \<Rightarrow> q_frame \<Rightarrow> bool" where
  "frame_fits strat n fr \<longleftrightarrow> (case fr of AtIncrement i _ \<Rightarrow> i < n | AtPeekUndo _ _ _ _ \<Rightarrow> False | _ \<Rightarrow> True) \<and>
     (is_peek fr \<longrightarrow> strat \<noteq> TOKEN_BUCKET)"

definition balanced :: "'s req_queue \<Rightarrow> bool" where
  "balanced q \<longleftrightarrow> (q_failures q = [] \<longrightarrow>
     (\<forall>k. net_charge q k = admitted_cost q k + pending_charge q k) \<and>
     (\<forall>p \<in> set (q_frames q). frame_fits (q_strategy q) (q_fresh q) (snd p)))"

lemma sum_list_update:
  fixes g :: "'v \<Rightarrow> int"
  shows "jsmap_ok m \<Longrightarrow> sum_list (map (\<lambda>p. g (snd p)) (AList.update k v m)) =
    sum_list (map (\<lambda>p. g (snd p)) m) + g v - (case map_of m k of None \<Rightarrow> 0 | Some w \<Rightarrow> g w)"
proof (induction m)
  case (Cons p m)
  then show ?case by (cases p) (auto simp: jsmap_ok_def map_of_eq_None_iff split: option.splits)
qed simp

lemma sum_list_delete:
  fixes g :: "'v \<Rightarrow> int"
  shows "jsmap_ok m \<Longrightarrow> map_of m k = Some w \<Longrightarrow>
    sum_list (map (\<lambda>p. g (snd p)) (AList.delete k m)) = sum_list (map (\<lambda>p. g (snd p)) m) - g w"
proof (induction m)
  case (Cons p m)
  then show ?case
    by (cases p) (auto simp: jsmap_ok_def delete_id)
qed simp

text \<open>The parts of the state the balance depends on.\<close>

definition ledger_view :: "'s req_queue \<Rightarrow> strategy \<times> store_call list \<times> (nat \<times> q_outcome) list \<times> (nat \<Rightarrow> key \<times> js_value) \<times> (nat, q_frame) jsmap \<times> nat \<times> string list" where
  "ledger_view q = (q_strategy q, q_log q, q_settled q, (\<lambda>i. (qe_key (q_entries q i), qe_cost (q_entries q i))),
     q_frames q, q_fresh q, q_failures q)"

lemma ledger_entries:
  assumes "\<And>i. (qe_key (es' i), qe_cost (es' i)) = (qe_key (es i), qe_cost (es i))"
  shows "outcome_cost es' = outcome_cost es" "frame_charge strat es' = frame_charge strat es"
proof -
  have e: "qe_key (es' i) = qe_key (es i)" "qe_cost (es' i) = qe_cost (es i)" for i using assms [of i] by auto
  show "outcome_cost es' = outcome_cost es" by (simp add: outcome_cost_def e fun_eq_iff split: q_outcome.splits)
  show "frame_charge strat es' = frame_charge strat es" by (simp add: frame_charge_def e fun_eq_iff split: q_frame.splits option.splits sum.splits)
qed

lemma balanced_cong:
  assumes "ledger_view q' = ledger_view q"
  shows "balanced q' = balanced q"
proof -
  have "\<And>i. (qe_key (q_entries q' i), qe_cost (q_entries q' i)) = (qe_key (q_entries q i), qe_cost (q_entries q i))"
    using assms by (auto simp: ledger_view_def fun_eq_iff)
  note ledger_entries [OF this]
  then show ?thesis using assms
    by (simp add: balanced_def net_charge_def admitted_cost_def pending_charge_def ledger_view_def)
qed

lemma balanced_updates [simp]:
  "balanced (q\<lparr>q_timeoutUnlinks := n\<rparr>) = balanced q" "balanced (q\<lparr>q_isShutdown := b\<rparr>) = balanced q"
  "balanced (q\<lparr>q_shutdownRun := sr\<rparr>) = balanced q" "balanced (q\<lparr>q_reports := rs\<rparr>) = balanced q"
  "balanced (q\<lparr>q_peeked := ps\<rparr>) = balanced q" "balanced (q\<lparr>q_store := s\<rparr>) = balanced q"
  "balanced (q\<lparr>q_processing := b\<rparr>) = balanced q" "balanced (q\<lparr>q_drainTimer := t\<rparr>) = balanced q"
  "balanced (q\<lparr>q_nextFrame := n'\<rparr>) = balanced q" "balanced (clearDrainTimer q) = balanced q"
  "balanced (q_modify i (\<lambda>e. e\<lparr>qe_timer := tm\<rparr>) q) = balanced q" "balanced (snd (unlink i q)) = balanced q"
  by (rule balanced_cong; simp add: ledger_view_def clearDrainTimer_def q_modify_def unlink_fields fun_eq_iff)+

lemma balanced_failed [simp]: "q_failures q \<noteq> [] \<Longrightarrow> balanced q"
  by (simp add: balanced_def)

text \<open>Changing one frame changes the balance by its charge.\<close>

lemma pending_set_frame:
  "jsmap_ok (q_frames q) \<Longrightarrow> pending_charge (set_frame f fr q) k = pending_charge q k +
     frame_charge (q_strategy q) (q_entries q) k fr -
     (case map_of (q_frames q) f of None \<Rightarrow> 0 | Some fr0 \<Rightarrow> frame_charge (q_strategy q) (q_entries q) k fr0)"
  unfolding pending_charge_def by (simp add: set_frame_def sum_list_update split: option.splits)

lemma pending_end_frame:
  "jsmap_ok (q_frames q) \<Longrightarrow> map_of (q_frames q) f = Some fr0 \<Longrightarrow>
   pending_charge (end_frame f q) k = pending_charge q k - frame_charge (q_strategy q) (q_entries q) k fr0"
  unfolding pending_charge_def by (simp add: end_frame_def sum_list_delete)

lemma set_frame_ledger:
  "q_strategy (set_frame f fr q) = q_strategy q" "q_log (set_frame f fr q) = q_log q" "q_settled (set_frame f fr q) = q_settled q"
  "q_entries (set_frame f fr q) = q_entries q" "q_fresh (set_frame f fr q) = q_fresh q" "q_strategy (end_frame f q) = q_strategy q"
  "q_log (end_frame f q) = q_log q" "q_settled (end_frame f q) = q_settled q" "q_entries (end_frame f q) = q_entries q"
  "q_fresh (end_frame f q) = q_fresh q"
  by (simp_all add: set_frame_def end_frame_def)

text \<open>\<open>owes q f d\<close>: the balance holds up to frame \<open>f\<close>, which carries \<open>d k\<close> for each key.\<close>

definition owes :: "'s req_queue \<Rightarrow> nat \<Rightarrow> (key \<Rightarrow> int) \<Rightarrow> bool" where
  "owes q f d \<longleftrightarrow> jsmap_ok (q_frames q) \<and> (q_failures q = [] \<longrightarrow>
     (\<forall>k. net_charge q k = admitted_cost q k + d k + (pending_charge q k -
        (case map_of (q_frames q) f of None \<Rightarrow> 0 | Some fr \<Rightarrow> frame_charge (q_strategy q) (q_entries q) k fr))) \<and>
     (\<forall>p \<in> set (q_frames q). frame_fits (q_strategy q) (q_fresh q) (snd p)))"

lemma balanced_owes:
  assumes "balanced q" "jsmap_ok (q_frames q)"
  shows "owes q f (\<lambda>k. case map_of (q_frames q) f of None \<Rightarrow> 0 | Some fr \<Rightarrow> frame_charge (q_strategy q) (q_entries q) k fr)"
  using assms by (simp add: owes_def balanced_def)

lemma owes_set_frame:
  assumes "owes q f d" "q_failures q = [] \<Longrightarrow> frame_fits (q_strategy q) (q_fresh q) fr"
    and "q_failures q = [] \<Longrightarrow> \<forall>k. frame_charge (q_strategy q) (q_entries q) k fr = d k"
  shows "balanced (set_frame f fr q)"
  using assms pending_set_frame [of q f fr]
  by (auto simp: owes_def balanced_def net_charge_def admitted_cost_def set_frame_ledger dest!: set_updateD)

lemma owes_end_frame:
  assumes "owes q f d" "q_failures q = [] \<Longrightarrow> \<forall>k. d k = 0"
  shows "balanced (end_frame f q)"
proof (cases "map_of (q_frames q) f")
  case None
  then have "end_frame f q = q" by (simp add: end_frame_def delete_absent)
  then show ?thesis using assms None by (simp add: owes_def balanced_def)
next
  case (Some fr)
  then show ?thesis using assms pending_end_frame [of q f fr]
    by (auto simp: owes_def balanced_def net_charge_def admitted_cost_def set_frame_ledger dest!: set_deleteD)
qed

lemma owes_cong:
  assumes "ledger_view q' = ledger_view q"
  shows "owes q' f d = owes q f d"
proof -
  have "\<And>i. (qe_key (q_entries q' i), qe_cost (q_entries q' i)) = (qe_key (q_entries q i), qe_cost (q_entries q i))"
    using assms by (auto simp: ledger_view_def fun_eq_iff)
  note ledger_entries [OF this]
  then show ?thesis using assms
    by (simp add: owes_def net_charge_def admitted_cost_def pending_charge_def ledger_view_def cong: option.case_cong)
qed

lemma owes_updates [simp]:
  "owes (q\<lparr>q_processing := b\<rparr>) f d = owes q f d" "owes (q\<lparr>q_drainTimer := t\<rparr>) f d = owes q f d"
  "owes (q\<lparr>q_nextFrame := n\<rparr>) f d = owes q f d" "owes (clearDrainTimer q) f d = owes q f d"
  "owes (q_modify i (\<lambda>e. e\<lparr>qe_timer := tm\<rparr>) q) f d = owes q f d" "owes (snd (unlink i q)) f d = owes q f d"
  "owes (q\<lparr>q_processing := b, q_nextFrame := n\<rparr>) f d = owes q f d"
  by (rule owes_cong; simp add: ledger_view_def clearDrainTimer_def q_modify_def unlink_fields fun_eq_iff)+

text \<open>The drain goes on with nothing owed.\<close>

lemma owes_drain_ends:
  assumes "owes q f (\<lambda>_. 0)"
  shows "balanced (drain_ends f q)"
proof -
  have "balanced (end_frame f q)" by (rule owes_end_frame [OF assms]) simp
  then show ?thesis by (simp add: drain_ends_def Let_def)
qed

lemma owes_drain_loop:
  assumes "owes q f (\<lambda>_. 0)" "\<And>i. q_head q = Some i \<Longrightarrow> i < q_fresh q"
  shows "balanced (drain_loop f q)"
  using assms
  by (auto simp: drain_loop_def owes_drain_ends frame_fits_def frame_charge_def is_peek_def
      intro!: owes_set_frame [OF assms(1)] split: option.splits)

lemma balanced_drain:
  assumes "balanced q" "frames_ok q" "\<And>i. q_head q = Some i \<Longrightarrow> i < q_fresh q"
  shows "balanced (drain q)"
proof (cases "q_processing q")
  case False
  let ?q = "q\<lparr>q_processing := True, q_nextFrame := Suc (q_nextFrame q)\<rparr>"
  have "map_of (q_frames q) (q_nextFrame q) = None" using assms(2)
    by (cases "map_of (q_frames q) (q_nextFrame q)") (auto simp: frames_ok_def)
  then have "owes ?q (q_nextFrame q) (\<lambda>_. 0)"
    using balanced_owes [OF assms(1), of "q_nextFrame q"] assms(2) by (simp add: frames_ok_def)
  from owes_drain_loop [OF this] assms(3) False show ?thesis by (simp add: drain_def)
qed (simp add: drain_def assms(1))


section \<open>Every event keeps the balance\<close>

lemma sum_list_singleton_append: "sum_list (map g (xs @ [x])) = sum_list (map g xs) + (g x :: int)"
  by simp

lemma frame_charge_simps [simp]:
  "frame_charge strat es k (AtIncrement i None) = 0"
  "frame_charge strat es k (AtIncrement i (Some (Inl e))) = 0"
  "frame_charge strat es k (AtIncrement i (Some (Inr r))) =
     (if qe_key (es i) = k then charge strat (qe_cost (es i)) (isBlocked r) else 0)"
  "frame_charge strat es k (AtUndoStale k' c b None) = (if k' = k then charge strat c b else 0)"
  "frame_charge strat es k (AtUndoStale k' c b (Some u)) = 0"
  "frame_charge strat es k (AtUndoBlocked k' c t None) = (if k' = k then charge strat c True else 0)"
  "frame_charge strat es k (AtUndoBlocked k' c t (Some u)) = 0"
  "frame_charge strat es k (AtPeekIncrement k' None) = 0"
  "frame_charge strat es k (AtPeekIncrement k' (Some (Inl e))) = 0"
  "frame_charge strat es k (AtPeekIncrement k' (Some (Inr r))) = (if k' = k then charge strat (js_int 1) (isBlocked r) else 0)"
  "frame_charge strat es k (AtPeekDecrement k' r None) = (if k' = k then charge strat (js_int 1) (isBlocked r) else 0)"
  "frame_charge strat es k (AtPeekDecrement k' r (Some u)) = 0"
  "frame_charge strat es k (AtPeekUndo k' b e' w) = 0"
  by (simp_all add: frame_charge_def)

lemma frame_fits_simps [simp]:
  "frame_fits strat n (AtIncrement i a) = (i < n)" "frame_fits strat n (AtUndoStale k c b u)"
  "frame_fits strat n (AtUndoBlocked k c t u)" "frame_fits strat n (AtPeekIncrement k a) = (strat \<noteq> TOKEN_BUCKET)"
  "frame_fits strat n (AtPeekDecrement k r u) = (strat \<noteq> TOKEN_BUCKET)" "\<not> frame_fits strat n (AtPeekUndo k b e u)"
  by (auto simp: frame_fits_def is_peek_def)

text \<open>A store call shifts the balance by what it charges.\<close>

lemma owes_log:
  assumes "owes q f d"
  shows "owes (q\<lparr>q_store := s, q_log := q_log q @ [c]\<rparr>) f (\<lambda>k. d k + call_charge (q_strategy q) k c)"
  using assms by (auto simp: owes_def net_charge_def admitted_cost_def pending_charge_def cong: option.case_cong)

lemma owes_failed: "owes q f d \<Longrightarrow> owes (q\<lparr>q_store := s, q_failures := q_failures q @ [e]\<rparr>) f d'"
  by (simp add: owes_def)

lemma owes_store_increment:
  assumes "owes q f d" "store_increment ops now k c q = (a, q')"
  shows "owes q' f (\<lambda>k'. d k' + (case a of Inr r \<Rightarrow> call_charge (q_strategy q) k' (IncDone k c r) | Inl _ \<Rightarrow> 0)) \<and>
    q_strategy q' = q_strategy q \<and> q_entries q' = q_entries q \<and> q_fresh q' = q_fresh q"
  using assms(2) owes_log [OF assms(1), of "IncDone k c r" for r] owes_failed [OF assms(1)]
  by (auto simp: store_increment_def split: prod.splits sum.splits)

lemma owes_store_decrement:
  assumes "owes q f d" "store_decrement ops now k dd q = (u, q')"
  shows "owes q' f (\<lambda>k'. d k' + (case u of Inr _ \<Rightarrow> call_charge (q_strategy q) k' (DecDone k (do_cost dd)) | Inl _ \<Rightarrow> 0)) \<and>
    q_strategy q' = q_strategy q \<and> q_entries q' = q_entries q \<and> q_fresh q' = q_fresh q"
  using assms(2) owes_log [OF assms(1), of "DecDone k (do_cost dd)"] owes_failed [OF assms(1)]
  by (auto simp: store_decrement_def split: prod.splits sum.splits)

lemma owes_store_undo:
  assumes "owes q f d" "store_undo ops now k c b q = (u, q')"
  shows "owes q' f (\<lambda>k'. d k' - (case u of Inr _ \<Rightarrow> if k = k' then charge (q_strategy q) c b else 0 | Inl _ \<Rightarrow> 0)) \<and>
    q_strategy q' = q_strategy q \<and> q_entries q' = q_entries q \<and> q_fresh q' = q_fresh q"
proof (cases "undo_call (q_strategy q) c b")
  case None
  then have "q' = q" "u = Inr ()" "charge (q_strategy q) c b = 0"
    using assms(2) by (auto simp: store_undo_def undo_call_def charge_def split: if_splits)
  then show ?thesis using assms(1) by (simp cong: if_cong)
next
  case (Some d')
  then have "store_decrement ops now k d' q = (u, q')" "do_cost d' = c" "charge (q_strategy q) c b = sanitizeIncrementCost c 1"
    using assms(2) by (auto simp: store_undo_def undo_call_def charge_def split: if_splits)
  moreover have "(\<lambda>k'. d k' + (case u of Inr _ \<Rightarrow> call_charge (q_strategy q) k' (DecDone k c) | Inl _ \<Rightarrow> 0)) =
    (\<lambda>k'. d k' - (case u of Inr _ \<Rightarrow> if k = k' then sanitizeIncrementCost c 1 else 0 | Inl _ \<Rightarrow> 0))"
    by (auto simp: fun_eq_iff split: sum.splits)
  ultimately show ?thesis using owes_store_decrement [OF assms(1), of ops now k d' u q']
    by (simp cong: if_cong sum.case_cong)
qed

lemma frame_owes:
  assumes "balanced q" "frames_ok q" "map_of (q_frames q) f = Some fr"
  shows "owes q f (\<lambda>k. frame_charge (q_strategy q) (q_entries q) k fr)"
    and "q_failures q = [] \<Longrightarrow> frame_fits (q_strategy q) (q_fresh q) fr"
  using balanced_owes [OF assms(1), of f] assms
  by (auto simp: frames_ok_def balanced_def dest!: map_of_SomeD)

lemma balanced_store_acts:
  assumes b: "balanced q" and ok: "frames_ok q"
  shows "balanced (q_store_acts ops now f q)"
proof (cases "map_of (q_frames q) f")
  case (Some fr)
  have fit: "q_failures q = [] \<Longrightarrow> frame_fits (q_strategy q) (q_fresh q) fr" by (rule frame_owes(2) [OF b ok Some])
  note o' = frame_owes(1) [OF b ok Some]
  have fl: "q_failures q' = [] \<Longrightarrow> q_failures q = []" if "q_failures q' = (case x of Inl e \<Rightarrow> q_failures q @ [e] | Inr y \<Rightarrow> q_failures q)"
    for q' and x :: "string + 'z" using that by (auto split: sum.splits)
  show ?thesis
  proof (cases fr)
    case (AtIncrement i a)
    show ?thesis
    proof (cases a)
      case None
      let ?k = "qe_key (q_entries q i)" and ?c = "qe_cost (q_entries q i)"
      obtain x q1 where s: "store_increment ops now ?k ?c q = (x, q1)" by fastforce
      note f1 = store_call_frames(1) [OF s]
      have eq: "q_store_acts ops now f q = set_frame f (AtIncrement i (Some x)) q1"
        using Some AtIncrement None s by (simp add: q_store_acts_def)
      note o1 = owes_store_increment [OF o' s]
      show ?thesis unfolding eq by (rule owes_set_frame [OF o1 [THEN conjunct1]])
        (use o1 AtIncrement None fit f1 in \<open>auto split: sum.splits\<close>)
    qed (use Some AtIncrement b in \<open>simp add: q_store_acts_def\<close>)
  next
    case (AtUndoStale k c bb u)
    show ?thesis
    proof (cases u)
      case None
      obtain x q1 where s: "store_undo ops now k c bb q = (x, q1)" by fastforce
      note f1 = store_call_frames(3) [OF s]
      have eq: "q_store_acts ops now f q = set_frame f (AtUndoStale k c bb (Some x)) q1"
        using Some AtUndoStale None s by (simp add: q_store_acts_def)
      note o1 = owes_store_undo [OF o' s]
      show ?thesis unfolding eq by (rule owes_set_frame [OF o1 [THEN conjunct1]])
        (use o1 AtUndoStale None fit f1 in \<open>auto split: sum.splits\<close>)
    qed (use Some AtUndoStale b in \<open>simp add: q_store_acts_def\<close>)
  next
    case (AtUndoBlocked k c t u)
    show ?thesis
    proof (cases u)
      case None
      obtain x q1 where s: "store_undo ops now k c True q = (x, q1)" by fastforce
      note f1 = store_call_frames(3) [OF s]
      have eq: "q_store_acts ops now f q = set_frame f (AtUndoBlocked k c t (Some x)) q1"
        using Some AtUndoBlocked None s by (simp add: q_store_acts_def)
      note o1 = owes_store_undo [OF o' s]
      show ?thesis unfolding eq by (rule owes_set_frame [OF o1 [THEN conjunct1]])
        (use o1 AtUndoBlocked None fit f1 in \<open>auto split: sum.splits\<close>)
    qed (use Some AtUndoBlocked b in \<open>simp add: q_store_acts_def\<close>)
  next
    case (AtPeekIncrement k a)
    show ?thesis
    proof (cases a)
      case None
      obtain x q1 where s: "store_increment ops now k (js_int 1) q = (x, q1)" by fastforce
      note f1 = store_call_frames(1) [OF s]
      have eq: "q_store_acts ops now f q = set_frame f (AtPeekIncrement k (Some x)) q1"
        using Some AtPeekIncrement None s by (simp add: q_store_acts_def)
      note o1 = owes_store_increment [OF o' s]
      show ?thesis unfolding eq by (rule owes_set_frame [OF o1 [THEN conjunct1]])
        (use o1 AtPeekIncrement None fit f1 in \<open>auto split: sum.splits\<close>)
    qed (use Some AtPeekIncrement b in \<open>simp add: q_store_acts_def\<close>)
  next
    case (AtPeekDecrement k r u)
    show ?thesis
    proof (cases u)
      case None
      let ?d = "\<lparr>do_cost = js_int 1, do_removeNewest = False\<rparr>"
      obtain x q1 where s: "store_decrement ops now k ?d q = (x, q1)" by fastforce
      note f1 = store_call_frames(2) [OF s]
      have eq: "q_store_acts ops now f q = set_frame f (AtPeekDecrement k r (Some x)) q1"
        using Some AtPeekDecrement None s by (simp add: q_store_acts_def)
      note o1 = owes_store_decrement [OF o' s]
      show ?thesis unfolding eq by (rule owes_set_frame [OF o1 [THEN conjunct1]])
        (use o1 AtPeekDecrement None fit f1 in \<open>auto simp: charge_def split: sum.splits\<close>)
    qed (use Some AtPeekDecrement b in \<open>simp add: q_store_acts_def\<close>)
  next
    case (AtPeekUndo k bb e u)
    then have failed: "q_failures q \<noteq> []" using fit by auto
    have "q_failures (q_store_acts ops now f q) \<noteq> []"
      using Some AtPeekUndo failed
      by (auto simp: q_store_acts_def dest!: store_call_frames split: option.splits prod.splits sum.splits)
    then show ?thesis by simp
  qed
qed (simp add: q_store_acts_def b)

lemma owes_settle_resolved:
  assumes "owes q f (\<lambda>k. if qe_key (q_entries q i) = k then sanitizeIncrementCost (qe_cost (q_entries q i)) 1 else 0)"
  shows "owes (q_settle i (Resolved m t) q) f (\<lambda>_. 0)"
  using assms by (auto simp: owes_def q_settle_def net_charge_def admitted_cost_def pending_charge_def outcome_cost_def cong: option.case_cong)

lemma owes_settle_rejected: "owes (q_settle i (Rejected e) q) f d = owes q f d"
  by (simp add: owes_def q_settle_def net_charge_def admitted_cost_def pending_charge_def outcome_cost_def cong: option.case_cong)

lemma balanced_settle_rejected [simp]: "balanced (q_settle i (Rejected e) q) = balanced q"
  by (simp add: balanced_def q_settle_def net_charge_def admitted_cost_def pending_charge_def outcome_cost_def cong: option.case_cong)

lemma undo_promise_charge [simp]:
  "frame_charge (q_strategy q) es k (AtUndoStale k' c b (undo_promise q b)) = (if k' = k then charge (q_strategy q) c b else 0)"
  "frame_charge (q_strategy q) es k (AtUndoBlocked k' c t (undo_promise q True)) = (if k' = k then charge (q_strategy q) c True else 0)"
  by (auto simp: undo_promise_def charge_def)

lemma head_fresh: "list_inv q xs \<Longrightarrow> q_head q = Some i \<Longrightarrow> i < q_fresh q"
  by (auto simp: list_inv_def elim!: spells_head)

lemma balanced_resume_increment:
  assumes o': "owes q f (\<lambda>k. if qe_key (q_entries q i) = k then charge (q_strategy q) (qe_cost (q_entries q i)) (isBlocked r) else 0)"
    and list: "list_inv q xs"
  shows "balanced (resume_increment f i r q)"
proof (cases "q_head q = Some i \<and> \<not> isBlocked r")
  case True
  let ?q = "q_modify i (\<lambda>x. x\<lparr>qe_timer := None\<rparr>) (snd (unlink i q))"
  have e: "qe_key (q_entries ?q i) = qe_key (q_entries q i)" "qe_cost (q_entries ?q i) = qe_cost (q_entries q i)"
    by (simp_all add: q_modify_def unlink_fields)
  have "owes ?q f (\<lambda>k. if qe_key (q_entries ?q i) = k then sanitizeIncrementCost (qe_cost (q_entries ?q i)) 1 else 0)"
    using o' True unfolding e by (simp add: charge_def cong: if_cong)
  from owes_settle_resolved [OF this] have 1: "owes (q_settle i (Resolved (remaining r) (resetTime r)) ?q) f (\<lambda>_. 0)" .
  obtain bs where "xs = [] @ i # bs" using list True by (auto simp: list_inv_def elim: spells_head)
  from list_inv_leave [OF list [unfolded this] _ refl, of "Resolved (remaining r) (resetTime r)"]
  have "list_inv (q_settle i (Resolved (remaining r) (resetTime r)) ?q) bs" by simp
  note head_fresh [OF this]
  from owes_drain_loop [OF 1 this] True show ?thesis by (simp add: resume_increment_def Let_def)
next
  case False
  then show ?thesis 
    by (auto simp: resume_increment_def Let_def intro!: owes_set_frame [OF o'])
qed

lemma balanced_drain_ends:
  assumes "owes q f (\<lambda>_. 0) \<or> q_failures q \<noteq> []"
  shows "balanced (drain_ends f q)"
  using assms by (auto intro: owes_drain_ends) (simp add: drain_ends_def Let_def)

lemma balanced_resume:
  assumes b: "balanced q" and a: "alert q" and list: "list_inv q xs"
  shows "balanced (q_resume now f q)"
proof (cases "map_of (q_frames q) f")
  case (Some fr)
  have ok: "frames_ok q" using a by (simp add: alert_def)
  have fit: "q_failures q = [] \<Longrightarrow> frame_fits (q_strategy q) (q_fresh q) fr" by (rule frame_owes(2) [OF b ok Some])
  note o' = frame_owes(1) [OF b ok Some]
  note failed = frame_failed [OF ok Some]
  have peek: "balanced (peek_ends f k out q)" if "\<forall>k. frame_charge (q_strategy q) (q_entries q) k fr = 0" for k out
    using owes_end_frame [OF o'] that by (simp add: peek_ends_def)
  show ?thesis
  proof (cases fr)
    case (AtIncrement i x)
    then show ?thesis using Some b o' failed balanced_resume_increment [OF _ list]
      by (auto simp: q_resume_def balanced_drain_ends split: option.splits sum.splits)
  next
    case (AtUndoStale k c bb u)
    then show ?thesis using Some b o' failed owes_drain_loop [of q f] head_fresh [OF list]
      by (auto simp: q_resume_def balanced_drain_ends split: option.splits sum.splits)
  next
    case (AtUndoBlocked k c t u)
    then show ?thesis using Some b o' failed
      by (auto simp: q_resume_def balanced_drain_ends resume_blocked_def split: option.splits sum.splits)
  next
    case (AtPeekIncrement k x)
    then show ?thesis using Some b o' fit peek
      by (auto simp: q_resume_def split: option.splits sum.splits intro!: owes_set_frame [OF o'])
  next
    case (AtPeekDecrement k r u)
    show ?thesis
    proof (cases u)
      case (Some w)
      then have "balanced (set_frame f (AtPeekUndo k (isBlocked r) e v) q)" if "w = Inl e" for e v
        using that AtPeekDecrement failed by simp
      then show ?thesis using \<open>map_of (q_frames q) f = Some fr\<close> AtPeekDecrement Some peek
        by (auto simp: q_resume_def split: sum.splits)
    qed (use Some AtPeekDecrement b in \<open>simp add: q_resume_def\<close>)
  next
    case (AtPeekUndo k bb e u)
    then show ?thesis using Some b peek by (auto simp: q_resume_def split: option.splits)
  qed
qed (simp add: q_resume_def b)


lemma balanced_new_entry:
  assumes b: "balanced q" and list: "list_inv q xs"
  shows "balanced (q\<lparr>q_fresh := Suc (q_fresh q), q_entries := (q_entries q)(q_fresh q := e)\<rparr>)" (is "balanced ?q")
proof (cases "q_failures q = []")
  case True
  have old: "i < q_fresh q" if "(i, out) \<in> set (q_settled q)" for i out
    using list that by (force simp: list_inv_def)
  have adm: "admitted_cost ?q k = admitted_cost q k" for k
    unfolding admitted_cost_def
    by (rule arg_cong [of _ _ sum_list], rule map_cong)
      (use old in \<open>force simp: outcome_cost_def split: q_outcome.splits\<close>)+
  have "frame_charge (q_strategy q) (q_entries ?q) k fr = frame_charge (q_strategy q) (q_entries q) k fr"
    if "frame_fits (q_strategy q) (q_fresh q) fr" for fr k
    using that by (auto simp: frame_charge_def split: q_frame.splits option.splits sum.splits)
  then have pen: "pending_charge ?q k = pending_charge q k" for k
    using b True unfolding pending_charge_def balanced_def by (auto intro!: arg_cong [of _ _ sum_list])
  have "frame_fits strat (Suc n) fr" if "frame_fits strat n fr" for strat n fr
    using that by (auto simp: frame_fits_def split: q_frame.splits)
  then show ?thesis using b True by (auto simp: balanced_def net_charge_def adm pen)
qed simp

lemma balanced_enqueue: "balanced (enqueueTail i q) = balanced q"
proof -
  have "ledger_view (enqueueTail i q) = ledger_view q"
    by (simp add: ledger_view_def enqueueTail_def q_modify_def Let_def fun_eq_iff split: option.splits)
  then show ?thesis by (rule balanced_cong)
qed

lemma settled_rejected_cost: "sum_list (map (outcome_cost es k) (map (\<lambda>i. (i, Rejected e)) xs)) = 0"
  by (induction xs) (simp_all add: outcome_cost_def)

lemma balanced_clear:
  assumes "list_inv q xs"
  shows "balanced (clearPending err q) = balanced q"
proof -
  let ?es = "\<lambda>j. if j \<in> set xs then (q_entries q j)\<lparr>qe_timer := None, qe_prev := None, qe_next := None\<rparr> else q_entries q j"
  have "outcome_cost ?es = outcome_cost (q_entries q)" "frame_charge strat ?es = frame_charge strat (q_entries q)" for strat
    by (rule ledger_entries; simp)+
  then show ?thesis
    by (simp add: clearPending_eq [OF assms] balanced_def net_charge_def admitted_cost_def pending_charge_def settled_rejected_cost [simplified])
qed

lemma balanced_shutdown_finish:
  "list_inv q xs \<Longrightarrow> balanced q \<Longrightarrow> balanced (shutdown_finish ops n why q)"
  using balanced_clear [of q xs "ShutdownError why"]
  by (auto simp: shutdown_finish_def Let_def split: prod.splits sum.splits)

lemma balanced_shutdown_wait:
  "list_inv q xs \<Longrightarrow> balanced q \<Longrightarrow> balanced (shutdown_wait ops now n p why q)"
  using balanced_shutdown_finish [of q xs ops n why] by (auto simp: shutdown_wait_def)

lemma balanced_drains: "balanced q \<Longrightarrow> alert q \<Longrightarrow> list_inv q xs \<Longrightarrow> balanced (drain q)"
  using head_fresh by (auto simp: alert_def intro!: balanced_drain)

lemma balanced_timeout:
  assumes b: "balanced q" and a: "alert q" and list: "list_inv q xs"
  shows "balanced (timeout_body i q)"
proof -
  let ?m = "\<lambda>q. q_modify i (\<lambda>e. e\<lparr>qe_timer := None\<rparr>) q"
  let ?s = "\<lambda>q. if q_isShutdown q then q\<lparr>q_timeoutUnlinks := q_timeoutUnlinks q + 1\<rparr> else q"
  let ?q4 = "q_settle i (Rejected QueueTimeout) (?s (?m (snd (unlink i q))))"
  let ?q5 = "\<lambda>b. if b \<and> q_drainTimer ?q4 \<noteq> None then (clearDrainTimer ?q4)\<lparr>q_processing := False\<rparr> else ?q4"
  have "balanced (drain (?q5 w))" if mem: "i \<in> set xs" for w
  proof (rule balanced_drain)
    show "balanced (?q5 w)" using b by simp
    have "frame_view ?q4 = frame_view q" by (simp add: frame_view_def q_settle_def q_modify_def unlink_fields)
    then show "frames_ok (?q5 w)" using a frame_view_cong(1) [of ?q4 q] by (simp add: alert_def)
    obtain as bs where xs: "xs = as @ i # bs" using split_list [OF mem] by auto
    have "list_view (?q5 w) = list_view (q_settle i (Rejected QueueTimeout) (?m (snd (unlink i q))))"
      by (simp add: list_view_def q_settle_def clearDrainTimer_def)
    from list_inv_leave [OF list [unfolded xs] _ this] have "list_inv (?q5 w) (as @ bs)" by simp
    then show "j < q_fresh (?q5 w)" if "q_head (?q5 w) = Some j" for j using that by (rule head_fresh)
  qed
  moreover have "timeout_body i q = drain (?q5 (q_head q = Some i))" if mem: "i \<in> set xs"
  proof -
    obtain as bs where "xs = as @ i # bs" using split_list [OF mem] by auto
    then have "fst (unlink i q)" using unlink_spells [of q as i bs] list by (simp add: list_inv_def)
    then show ?thesis by (cases "unlink i q") (auto simp: timeout_body_def Let_def)
  qed
  moreover have "timeout_body i q = ?m q" if "i \<notin> set xs"
    using unlink_absent [OF _ that, of q] list by (simp add: timeout_body_def list_inv_def)
  ultimately show ?thesis using b by (cases "i \<in> set xs") simp_all
qed

lemma balanced_exec:
  assumes b: "balanced q" and a: "alert q" and list: "list_inv q xs"
    and ev: "q_strategy q = TOKEN_BUCKET \<Longrightarrow> \<nexists>k. ev = CallPeek k"
  shows "balanced (q_exec ops ev q)"
proof (cases ev)
  case (CallRemoveTokens now k c)
  let ?e = "\<lparr>qe_key = k, qe_cost = js_or c (js_int 1), qe_timer = queue_timer now q, qe_prev = None, qe_next = None\<rparr>"
  let ?q = "enqueueTail (q_fresh q) (q\<lparr>q_fresh := Suc (q_fresh q), q_entries := (q_entries q)(q_fresh q := ?e)\<rparr>)"
  have 1: "balanced ?q" using balanced_new_entry [OF b list] by (simp add: balanced_enqueue)
  have "frame_view ?q = frame_view q"
    by (simp add: frame_view_def enqueueTail_def q_modify_def Let_def split: option.splits)
  then have 2: "frames_ok ?q" using a frame_view_cong(1) [of ?q q] by (simp add: alert_def)
  have "balanced (drain ?q)" if "\<And>m. q_maxQueueSize q = Some m \<Longrightarrow> q_length q < m"
    using list_inv_enqueue [OF list that, of ?e] by (intro balanced_drain 1 2) (auto dest: head_fresh)
  then show ?thesis using CallRemoveTokens b
    by (auto simp: removeTokens_def Let_def not_le split: option.splits if_splits)
next
  case (CallPeek k)
  have none: "map_of (q_frames q) (q_nextFrame q) = None"
    using a by (cases "map_of (q_frames q) (q_nextFrame q)") (auto simp: alert_def frames_ok_def)
  then have "owes (q\<lparr>q_nextFrame := Suc (q_nextFrame q)\<rparr>) (q_nextFrame q) (\<lambda>_. 0)"
    using balanced_owes [OF b, of "q_nextFrame q"] a by (simp add: alert_def frames_ok_def)
  from owes_set_frame [OF this, of "AtPeekIncrement k None"] show ?thesis
    using CallPeek b ev by (auto simp: getTokensRemaining_def new_frame_def)
next
  case CallClear
  then show ?thesis using b balanced_clear [OF list] by (simp add: q_clear_def)
next
  case (CallShutdown now ms why)
  let ?q = "q\<lparr>q_timeoutUnlinks := 0, q_isShutdown := True\<rparr>"
  have l: "list_inv ?q xs" using list list_inv_view [of ?q q] by (simp add: list_view_def)
  have d: "balanced (drain ?q)" by (rule balanced_drains [OF _ _ l]) (simp_all add: a b)
  have "list_inv (drain ?q) xs" using l by simp
  note balanced_shutdown_wait [OF this d] balanced_shutdown_finish [OF this d]
  then show ?thesis using CallShutdown b by (simp add: q_shutdown_def Let_def)
next
  case (StoreActs now f)
  then show ?thesis using b a by (simp add: balanced_store_acts alert_def)
next
  case (Resume now f)
  then show ?thesis using balanced_resume [OF b a list] by simp
next
  case (DrainTimer now)
  let ?q = "q\<lparr>q_drainTimer := None, q_processing := False\<rparr>"
  have "balanced (drain ?q)"
    by (rule balanced_drain) (use a b head_fresh [OF list] in \<open>simp_all add: alert_def frames_ok_def\<close>)
  then show ?thesis using DrainTimer b by (simp add: drain_timer_fires_def split: option.splits)
next
  case (TimeoutTimer now i)
  then show ?thesis using b balanced_timeout [OF b a list] by (simp add: timeout_fires_def split: option.splits)
next
  case (ShutdownTimer now)
  have "list_inv (drain q) xs" using list by simp
  note balanced_shutdown_wait [OF this balanced_drains [OF b a list]]
  then show ?thesis using ShutdownTimer b by (auto simp: shutdown_polls_def split: option.splits)
qed

lemma strategy_drain [simp]: "q_strategy (drain q) = q_strategy q"
  by (simp add: drain_def drain_loop_def drain_ends_def Let_def set_frame_ledger split: option.splits)

lemma new_queue_balanced: "balanced (new_RateLimiterQueue st w m strat size' t owns)"
  by (simp add: new_RateLimiterQueue_def balanced_def net_charge_def admitted_cost_def pending_charge_def)

lemma strategy_frames [simp]:
  "q_strategy (drain_loop f q) = q_strategy q" "q_strategy (drain_ends f q) = q_strategy q"
  "q_strategy (set_frame f fr q) = q_strategy q" "q_strategy (end_frame f q) = q_strategy q"
  by (simp_all add: drain_loop_def drain_ends_def Let_def set_frame_ledger split: option.splits)

lemma store_call_strategy:
  "store_increment ops now k c q = (a, q') \<Longrightarrow> q_strategy q' = q_strategy q"
  "store_decrement ops now k d q = (u, q') \<Longrightarrow> q_strategy q' = q_strategy q"
  "store_undo ops now k c b q = (u, q') \<Longrightarrow> q_strategy q' = q_strategy q"
  by (auto simp: store_increment_def store_decrement_def store_undo_def split: prod.splits sum.splits option.splits)

lemma clear_entries_strategy [simp]: "q_strategy (clear_entries n err i q) = q_strategy q"
  by (induction n err i q rule: clear_entries.induct) (simp_all add: q_modify_def q_settle_def)

lemma shutdown_strategy [simp]:
  "q_strategy (shutdown_wait ops now n p why q) = q_strategy q" "q_strategy (shutdown_finish ops n why q) = q_strategy q"
proof -
  show f: "q_strategy (shutdown_finish ops n why q) = q_strategy q"
    by (simp add: shutdown_finish_def clearPending_def clearDrainTimer_def Let_def split: prod.splits sum.splits)
  show "q_strategy (shutdown_wait ops now n p why q) = q_strategy q" by (simp add: shutdown_wait_def f)
qed

lemma exec_strategy [simp]: "q_strategy (q_exec ops ev q) = q_strategy q"
proof (cases ev)
  case (StoreActs now f)
  then show ?thesis
    by (auto simp: q_store_acts_def dest: store_call_strategy split: option.splits q_frame.splits prod.splits)
next
  case (Resume now f)
  then show ?thesis
    by (auto simp: q_resume_def resume_increment_def resume_blocked_def clearDrainTimer_def peek_ends_def q_settle_def q_modify_def
        unlink_fields Let_def split: option.splits q_frame.splits sum.splits)
qed (auto simp: removeTokens_def getTokensRemaining_def new_frame_def q_clear_def clearPending_def clearDrainTimer_def q_shutdown_def
    drain_timer_fires_def timeout_fires_def timeout_body_def shutdown_polls_def enqueueTail_def q_modify_def q_settle_def
    case_prod_beta unlink_fields Let_def split: option.splits prod.splits)

lemma run_inv:
  "list_inv q xs \<Longrightarrow> alert q \<Longrightarrow> \<exists>ys. list_inv (q_run ops evs q) ys \<and> alert (q_run ops evs q)"
  using run_list run_alert by blast

lemma run_balanced:
  assumes "list_inv q xs" "alert q" "balanced q" "q_strategy q = TOKEN_BUCKET \<Longrightarrow> \<forall>k. CallPeek k \<notin> set evs"
  shows "balanced (q_run ops evs q)"
  using assms
proof (induction evs arbitrary: q xs)
  case (Cons ev evs)
  from exec_list [OF Cons.prems(1), of ops ev] obtain zs where zs: "list_inv (q_exec ops ev q) zs" ..
  have "balanced (q_exec ops ev q)" by (rule balanced_exec [OF Cons.prems(3,2,1)]) (use Cons.prems(4) in auto)
  from Cons.IH [OF zs alert_exec [OF Cons.prems(1,2)] this] Cons.prems(4) show ?case by (simp add: q_run_def)
qed (simp add: q_run_def)


section \<open>What shutdown reports\<close>

definition resolved_count :: "'s req_queue \<Rightarrow> int" where
  "resolved_count q = int (length (filter (\<lambda>p. case snd p of Resolved _ _ \<Rightarrow> True | Rejected _ \<Rightarrow> False) (q_settled q)))"

definition shut_count :: "string \<Rightarrow> 's req_queue \<Rightarrow> int" where
  "shut_count why q = int (length (filter (\<lambda>p. snd p = Rejected (ShutdownError why)) (q_settled q)))"

definition shut_view :: "'s req_queue \<Rightarrow> bool \<times> shutdown_run option \<times> (int \<times> int) list \<times> int" where
  "shut_view q = (q_isShutdown q, q_shutdownRun q, q_reports q, q_timeoutUnlinks q)"

lemma shut_views [simp]:
  "shut_view (set_frame f fr q) = shut_view q" "shut_view (end_frame f q) = shut_view q"
  "shut_view (drain_ends f q) = shut_view q" "shut_view (drain_loop f q) = shut_view q" "shut_view (drain q) = shut_view q"
  "shut_view (resume_blocked now f t q) = shut_view q" "shut_view (peek_ends f k out q) = shut_view q"
  "shut_view (drain_timer_fires now q) = shut_view q"
proof -
  show sf: "shut_view (set_frame f fr q) = shut_view q" for f fr and q :: "'s req_queue"
    by (simp add: set_frame_def shut_view_def)
  show ef: "shut_view (end_frame f q) = shut_view q" for f and q :: "'s req_queue"
    by (simp add: end_frame_def shut_view_def)
  show de: "shut_view (drain_ends f q) = shut_view q" for f and q :: "'s req_queue"
    by (simp add: drain_ends_def end_frame_def shut_view_def Let_def)
  show dl: "shut_view (drain_loop f q) = shut_view q" for f and q :: "'s req_queue"
    by (simp add: drain_loop_def de sf split: option.splits)
  show d: "shut_view (drain q) = shut_view q" for q :: "'s req_queue"
    by (simp add: drain_def dl) (simp add: shut_view_def)
  show "shut_view (resume_blocked now f t q) = shut_view q"
    by (simp add: resume_blocked_def de) (simp add: clearDrainTimer_def shut_view_def)
  show "shut_view (peek_ends f k out q) = shut_view q" by (simp add: peek_ends_def end_frame_def shut_view_def)
  show "shut_view (drain_timer_fires now q) = shut_view q"
    by (simp add: drain_timer_fires_def d split: option.splits) (simp add: shut_view_def)
qed

lemma shut_store_acts [simp]: "shut_view (q_store_acts ops now f q) = shut_view q"
proof -
  have "store_increment ops now k c q = (a, q') \<Longrightarrow> shut_view q' = shut_view q" for k c a q'
    by (auto simp: store_increment_def shut_view_def split: prod.splits sum.splits)
  moreover have dec: "store_decrement ops now k d q = (u, q') \<Longrightarrow> shut_view q' = shut_view q" for k d u q'
    by (auto simp: store_decrement_def shut_view_def split: prod.splits sum.splits)
  moreover have "store_undo ops now k c b q = (u, q') \<Longrightarrow> shut_view q' = shut_view q" for k c b u q'
    by (auto simp: store_undo_def dest: dec split: option.splits)
  ultimately show ?thesis
    by (auto simp: q_store_acts_def split: option.splits q_frame.splits prod.splits)
qed

text \<open>\<open>winding rs n m why q\<close>: a shutdown for \<open>why\<close> began with reports \<open>rs\<close>, \<open>n\<close> waiters resolved and \<open>m\<close>
  rejected for that reason; it is still waiting, or it is over and has reported what became of the rest.\<close>

definition winding :: "(int \<times> int) list \<Rightarrow> int \<Rightarrow> int \<Rightarrow> string \<Rightarrow> 's req_queue \<Rightarrow> bool" where
  "winding rs n m why q \<longleftrightarrow> q_isShutdown q \<and> n \<le> resolved_count q \<and>
     (case q_shutdownRun q of
        Some sd \<Rightarrow> q_reports q = rs \<and> sd_reason sd = why \<and> shut_count why q = m \<and>
          sd_lenAtStart sd = q_length q + q_timeoutUnlinks q + (resolved_count q - n)
      | None \<Rightarrow> q_head q = None \<and>
          (q_failures q = [] \<longrightarrow> q_reports q = rs @ [(shut_count why q - m, resolved_count q - n)]))"

lemma winding_cong:
  assumes "list_view q' = list_view q" "shut_view q' = shut_view q" "q_failures q' = [] \<Longrightarrow> q_failures q = []"
  shows "winding rs n m why q \<Longrightarrow> winding rs n m why q'"
  using assms by (auto simp: winding_def list_view_def shut_view_def resolved_count_def shut_count_def split: option.splits)

lemma clear_counts:
  assumes "list_inv q xs"
  shows "resolved_count (clearPending err q) = resolved_count q"
    "shut_count why (clearPending (ShutdownError why) q) = shut_count why q + q_length q"
proof -
  have 1: "filter (\<lambda>p. case snd p of Resolved _ _ \<Rightarrow> True | Rejected _ \<Rightarrow> False) (map (\<lambda>i. (i, Rejected err)) xs) = []"
    by (simp add: filter_empty_conv)
  have 2: "filter (\<lambda>p. snd p = Rejected (ShutdownError why)) (map (\<lambda>i. (i, Rejected (ShutdownError why))) xs) =
    map (\<lambda>i. (i, Rejected (ShutdownError why))) xs"
    by (simp add: filter_id_conv)
  show "resolved_count (clearPending err q) = resolved_count q"
    "shut_count why (clearPending (ShutdownError why) q) = shut_count why q + q_length q"
    using assms by (simp_all only: clearPending_eq [OF assms] resolved_count_def shut_count_def)
      (simp_all add: 1 2 list_inv_def spells_def)
qed

lemma winding_finish:
  assumes list: "list_inv q xs" and s: "q_isShutdown q" "n \<le> resolved_count q" "q_reports q = rs" "shut_count why q = m"
    and len: "len = q_length q + q_timeoutUnlinks q + (resolved_count q - n)"
  shows "winding rs n m why (shutdown_finish ops len why q)"
proof -
  let ?q = "clearPending (ShutdownError why) q"
  note c = clear_counts [OF list]
  have f: "q_head ?q = None" "q_reports ?q = rs" "q_isShutdown ?q"
    using s by (simp_all add: clearPending_eq [OF list])
  have v: "resolved_count (q1\<lparr>q_reports := r\<rparr>) = resolved_count q1" "shut_count why (q1\<lparr>q_reports := r\<rparr>) = shut_count why q1"
    "resolved_count (q1\<lparr>q_store := st\<rparr>) = resolved_count q1" "shut_count why (q1\<lparr>q_store := st\<rparr>) = shut_count why q1"
    "resolved_count (q1\<lparr>q_failures := fs\<rparr>) = resolved_count q1" "shut_count why (q1\<lparr>q_failures := fs\<rparr>) = shut_count why q1"
    "resolved_count (q1\<lparr>q_timeoutUnlinks := u, q_shutdownRun := sr\<rparr>) = resolved_count q1"
    "shut_count why (q1\<lparr>q_timeoutUnlinks := u, q_shutdownRun := sr\<rparr>) = shut_count why q1"
    for q1 :: "'s req_queue" and r st fs u sr by (simp_all add: resolved_count_def shut_count_def)
  have "max 0 (len - q_length q - q_timeoutUnlinks q) = resolved_count q - n" using len s(2) by simp
  then show ?thesis using c f s(2,4) by (auto simp: winding_def shutdown_finish_def Let_def v split: prod.splits sum.splits)
qed

lemma winding_wait:
  assumes list: "list_inv q xs" and s: "q_isShutdown q" "n \<le> resolved_count q" "q_reports q = rs" "shut_count why q = m"
    and len: "len = q_length q + q_timeoutUnlinks q + (resolved_count q - n)"
  shows "winding rs n m why (shutdown_wait ops now len p why q)"
  using assms winding_finish [OF assms]
  by (auto simp: shutdown_wait_def) (auto simp: winding_def resolved_count_def shut_count_def)

lemma winding_leave:
  assumes list: "list_inv q (as @ i # bs)" and w: "winding rs n m why q"
    and out: "(\<exists>r t. out = Resolved r t \<and> u = 0) \<or> (out = Rejected QueueTimeout \<and> u = 1)"
    and view: "list_view q' = list_view (q_settle i out (q_modify i (\<lambda>e. e\<lparr>qe_timer := None\<rparr>) (snd (unlink i q))))"
    and view': "shut_view q' = (q_isShutdown q, q_shutdownRun q, q_reports q, q_timeoutUnlinks q + u)"
  shows "winding rs n m why q'"
proof -
  have sp: "spells q (as @ i # bs)" using list by (simp add: list_inv_def)
  then obtain sd where sd: "q_shutdownRun q = Some sd" using w
    by (cases as) (auto simp: winding_def spells_def split: option.splits)
  from unlink_spells [OF sp] have "q_length (snd (unlink i q)) = q_length q - 1" using sp by (simp add: spells_def)
  then have l: "q_length q' = q_length q - 1" "q_settled q' = q_settled q @ [(i, out)]"
    using view by (simp_all add: list_view_def q_settle_def q_modify_def unlink_fields)
  have "resolved_count q' = resolved_count q + (1 - u)" "shut_count why q' = shut_count why q"
    using out by (auto simp: resolved_count_def shut_count_def l)
  then show ?thesis using w sd view' out l(1) by (auto simp: winding_def shut_view_def)
qed


lemma winding_resume:
  assumes list: "list_inv q xs" and w: "winding rs n m why q"
  shows "winding rs n m why (q_resume now f q)"
proof (cases "\<exists>i r. map_of (q_frames q) f = Some (AtIncrement i (Some (Inr r))) \<and> q_head q = Some i \<and> \<not> isBlocked r")
  case True
  then obtain i r where f: "map_of (q_frames q) f = Some (AtIncrement i (Some (Inr r)))" and h: "q_head q = Some i" "\<not> isBlocked r"
    by auto
  obtain bs where xs: "xs = [] @ i # bs" using list h(1) by (auto simp: list_inv_def elim: spells_head)
  let ?q = "q_settle i (Resolved (remaining r) (resetTime r)) (q_modify i (\<lambda>x. x\<lparr>qe_timer := None\<rparr>) (snd (unlink i q)))"
  have eq: "q_resume now f q = drain_loop f ?q" using f h by (simp add: q_resume_def resume_increment_def Let_def)
  have "shut_view (drain_loop f ?q) = (q_isShutdown q, q_shutdownRun q, q_reports q, q_timeoutUnlinks q + 0)"
    unfolding shut_views by (simp add: shut_view_def q_settle_def q_modify_def unlink_fields)
  from winding_leave [OF list [unfolded xs] w _ _ this, of "Resolved (remaining r) (resetTime r)"]
  show ?thesis unfolding eq by simp
next
  case False
  have "list_view (q_resume now f q) = list_view q" "shut_view (q_resume now f q) = shut_view q"
    "q_failures (q_resume now f q) = q_failures q"
    using False
    by (auto simp: q_resume_def resume_increment_def resume_blocked_def clearDrainTimer_def peek_ends_def drain_loop_def drain_ends_def
        set_frame_def end_frame_def list_view_def shut_view_def Let_def split: option.splits q_frame.splits sum.splits)
  then show ?thesis by (intro winding_cong [OF _ _ _ w]) simp_all
qed

lemma winding_timeout:
  assumes list: "list_inv q xs" and w: "winding rs n m why q"
  shows "winding rs n m why (timeout_body i q)"
proof (cases "i \<in> set xs")
  case True
  obtain as bs where xs: "xs = as @ i # bs" using split_list [OF True] by auto
  obtain q1 where u: "unlink i q = (True, q1)"
    using unlink_spells [of q as i bs] list xs by (cases "unlink i q") (auto simp: list_inv_def)
  have lv: "list_view (timeout_body i q) =
      list_view (q_settle i (Rejected QueueTimeout) (q_modify i (\<lambda>e. e\<lparr>qe_timer := None\<rparr>) (snd (unlink i q))))"
    unfolding timeout_body_def Let_def u
    by (simp add: Let_def) (simp add: list_view_def q_settle_def clearDrainTimer_def)
  have q1: "q_isShutdown q1 = q_isShutdown q" "q_shutdownRun q1 = q_shutdownRun q" "q_reports q1 = q_reports q"
    "q_timeoutUnlinks q1 = q_timeoutUnlinks q"
    using unlink_fields(9,10,13,16) [of i q] u by simp_all
  have "shut_view (timeout_body i q) = (q_isShutdown q, q_shutdownRun q, q_reports q, q_timeoutUnlinks q + 1)"
    using w q1 unfolding timeout_body_def Let_def u
    by (simp add: winding_def) (simp add: shut_view_def q_settle_def q_modify_def clearDrainTimer_def)
  from winding_leave [OF list [unfolded xs] w _ lv this] show ?thesis by simp
next
  case False
  have "timeout_body i q = q_modify i (\<lambda>e. e\<lparr>qe_timer := None\<rparr>) q"
    using unlink_absent [OF _ False, of q] list by (simp add: timeout_body_def list_inv_def)
  moreover have "(q_entries q i)\<lparr>qe_timer := None\<rparr> = q_entries q i" using list False by (simp add: list_inv_def)
  ultimately have "timeout_body i q = q" by (simp add: q_modify_def)
  then show ?thesis using w by simp
qed

lemma failures_grow:
  "q_failures (q_store_acts ops now f q) = [] \<Longrightarrow> q_failures q = []"
  by (auto simp: q_store_acts_def dest!: store_call_frames split: option.splits q_frame.splits prod.splits sum.splits)

lemma drain_timer_failures [simp]: "q_failures (drain_timer_fires now q) = q_failures q"
  by (simp add: drain_timer_fires_def split: option.splits)

lemma winding_exec:
  assumes list: "list_inv q xs" and w: "winding rs n m why q" and ev: "\<And>t ms y. ev \<noteq> CallShutdown t ms y"
  shows "winding rs n m why (q_exec ops ev q)"
proof -
  have sh: "q_isShutdown q" using w by (simp add: winding_def)
  show ?thesis
  proof (cases ev)
    case (CallRemoveTokens now k c)
    then show ?thesis using w sh by (simp add: removeTokens_def)
  next
    case (CallPeek k)
    then show ?thesis using sh winding_cong [OF _ _ _ w, of "q\<lparr>q_peeked := q_peeked q @ [(k, Inl ''queue-shutdown'')]\<rparr>"]
      by (simp add: getTokensRemaining_def list_view_def shut_view_def)
  next
    case CallClear
    then show ?thesis using w sh by (simp add: q_clear_def)
  next
    case (CallShutdown now ms why')
    then show ?thesis using ev by blast
  next
    case (StoreActs now f)
    have "winding rs n m why (q_store_acts ops now f q)"
      by (rule winding_cong [OF _ _ _ w]) (auto dest: failures_grow)
    then show ?thesis using StoreActs by simp
  next
    case (Resume now f)
    then show ?thesis using winding_resume [OF list w] by simp
  next
    case (DrainTimer now)
    then show ?thesis using winding_cong [OF _ _ _ w, of "drain_timer_fires now q"] by simp
  next
    case (TimeoutTimer now i)
    then show ?thesis using w winding_timeout [OF list w] by (simp add: timeout_fires_def split: option.splits)
  next
    case (ShutdownTimer now)
    have d: "winding rs n m why (drain q)" by (rule winding_cong [OF _ _ _ w]) simp_all
    have list': "list_inv (drain q) xs" using list by simp
    have v: "shut_view (drain q) = shut_view q" by simp
    show ?thesis
    proof (cases "q_shutdownRun q")
      case (Some sd)
      then have "winding rs n m why (shutdown_wait ops now (sd_lenAtStart sd) (sd_polls sd) (sd_reason sd) (drain q))"
        using d v winding_wait [OF list', of n rs why m "sd_lenAtStart sd"] by (auto simp: winding_def shut_view_def)
      then show ?thesis using ShutdownTimer w Some by (simp add: shutdown_polls_def)
    qed (use ShutdownTimer w in \<open>simp add: shutdown_polls_def\<close>)
  qed
qed

definition is_shutdown_call :: "q_event \<Rightarrow> bool" where
  "is_shutdown_call ev = (case ev of CallShutdown _ _ _ \<Rightarrow> True | _ \<Rightarrow> False)"

lemma winding_run:
  assumes "list_inv q xs" "winding rs n m why q" "\<forall>ev \<in> set evs. \<not> is_shutdown_call ev"
  shows "winding rs n m why (q_run ops evs q)"
  using assms
proof (induction evs arbitrary: q xs)
  case (Cons ev evs)
  from exec_list [OF Cons.prems(1), of ops ev] obtain zs where zs: "list_inv (q_exec ops ev q) zs" ..
  have "winding rs n m why (q_exec ops ev q)"
    by (rule winding_exec [OF Cons.prems(1,2)]) (use Cons.prems(3) in \<open>auto simp: is_shutdown_call_def\<close>)
  from Cons.IH [OF zs this] Cons.prems(3) show ?case by (simp add: q_run_def)
qed (simp add: q_run_def)

lemma winding_start:
  assumes list: "list_inv q xs" and s: "\<not> q_isShutdown q"
    and y: "y = (case why of None \<Rightarrow> ''shutdown'' | Some x \<Rightarrow> x)"
  shows "winding (q_reports q) (resolved_count q) (shut_count y q) y (q_shutdown ops now ms why q)"
proof -
  let ?q = "q\<lparr>q_timeoutUnlinks := 0, q_isShutdown := True\<rparr>"
  have l: "list_inv (drain ?q) xs" using list list_inv_view [of ?q q] by (simp add: list_view_def)
  have "list_view (drain ?q) = list_view q" by simp (simp add: list_view_def)
  then have v: "q_length (drain ?q) = q_length q" "q_settled (drain ?q) = q_settled q" by (simp_all add: list_view_def)
  have "shut_view (drain ?q) = (True, q_shutdownRun q, q_reports q, 0)" by simp (simp add: shut_view_def)
  then have sv: "q_isShutdown (drain ?q)" "q_reports (drain ?q) = q_reports q" "q_timeoutUnlinks (drain ?q) = 0"
    by (simp_all add: shut_view_def)
  have c: "resolved_count (drain ?q) = resolved_count q" "shut_count y (drain ?q) = shut_count y q"
    using v by (simp_all add: resolved_count_def shut_count_def)
  show ?thesis
    using s winding_wait [OF l, of "resolved_count q" "q_reports q" y "shut_count y q" "q_length q" ops now]
      winding_finish [OF l, of "resolved_count q" "q_reports q" y "shut_count y q" "q_length q" ops] v sv c
    by (auto simp: q_shutdown_def y [symmetric] Let_def)
qed


section \<open>The pool of queues\<close>

record create_options =
  co_maxRequests :: js_value
  co_windowMs :: js_value
  co_strategy :: "strategy option"
  co_maxQueueSize :: "int option"
  co_maxQueueTimeMs :: "int option"
  co_ownsStore :: "bool option"

definition createDefaultMemoryStore :: "strategy \<Rightarrow> int \<Rightarrow> int \<Rightarrow> mem_store" where
  "createDefaultMemoryStore strat windowMs maxRequests =
     (if strat = TOKEN_BUCKET then new_MemoryStore (TokenBucketOptions maxRequests windowMs maxRequests) None None
      else new_MemoryStore (WindowOptions strat (js_int windowMs) (js_int maxRequests)) None None)"

definition createRateLimiterQueue :: "create_options \<Rightarrow> mem_store option \<Rightarrow> mem_store req_queue" where
  "createRateLimiterQueue co store =
     (let strat = (case co_strategy co of None \<Rightarrow> SLIDING_WINDOW | Some x \<Rightarrow> x);
          windowMs = sanitizeWindowMs (co_windowMs co) 60000;
          maxRequests = sanitizeRateLimitCap (co_maxRequests co) 100
      in new_RateLimiterQueue
           (case store of Some s \<Rightarrow> s | None \<Rightarrow> createDefaultMemoryStore strat windowMs maxRequests)
           windowMs maxRequests (Some strat) (co_maxQueueSize co) (co_maxQueueTimeMs co)
           (Some (case co_ownsStore co of Some b \<Rightarrow> b | None \<Rightarrow> store = None)))"

text \<open>\<open>KeyedRateLimiterQueue\<close> without a shared store. A queue stays reachable for those who hold it after
  it left the map, so queues live at addresses.\<close>

record keyed_pool =
  kp_base :: create_options
  kp_maxKeys :: int
  kp_map :: "(key, nat) jsmap"
  kp_queues :: "nat \<Rightarrow> mem_store req_queue"
  kp_next :: nat
  kp_isShutdown :: bool

definition sanitizeKeyedPoolMaxKeys :: "js_value \<Rightarrow> int" where
  "sanitizeKeyedPoolMaxKeys raw =
     (case raw of
        Num r \<Rightarrow> (let n = max 0 \<lfloor>r\<rfloor> in if n = 0 then 0 else min n (2 ^ 53 - 1))
      | _ \<Rightarrow> 1000)"

definition new_KeyedRateLimiterQueue :: "create_options \<Rightarrow> js_value \<Rightarrow> keyed_pool" where
  "new_KeyedRateLimiterQueue co maxKeys =
     \<lparr>kp_base = co, kp_maxKeys = sanitizeKeyedPoolMaxKeys maxKeys, kp_map = [],
      kp_queues = (\<lambda>_. createRateLimiterQueue co None), kp_next = 0, kp_isShutdown = False\<rparr>"

text \<open>The \<open>while\<close> loop of \<open>forKey\<close>: the oldest entries leave and are shut down.\<close>

fun evict_oldest :: "time \<Rightarrow> int \<Rightarrow> (key, nat) jsmap \<Rightarrow> (nat \<Rightarrow> mem_store req_queue) \<Rightarrow> (key, nat) jsmap \<times> (nat \<Rightarrow> mem_store req_queue)" where
  "evict_oldest now mk [] qs = ([], qs)"
| "evict_oldest now mk ((k, i) # m) qs =
     (if 0 < mk \<and> mk \<le> int (length ((k, i) # m))
      then evict_oldest now mk m (qs(i := q_shutdown mem_ops now None None (qs i)))
      else ((k, i) # m, qs))"

definition forKey :: "time \<Rightarrow> key \<Rightarrow> keyed_pool \<Rightarrow> (q_error + nat) \<times> keyed_pool" where
  "forKey now k p =
     (if kp_isShutdown p then (Inl (ShutdownError ''queue-shutdown''), p)
      else case map_of (kp_map p) k of
             Some i \<Rightarrow> (Inr i, p\<lparr>kp_map := AList.update k i (AList.delete k (kp_map p))\<rparr>)
           | None \<Rightarrow>
               (let (m, qs) = evict_oldest now (kp_maxKeys p) (kp_map p) (kp_queues p); i = kp_next p
                in (Inr i, p\<lparr>kp_map := AList.update k i m,
                            kp_queues := qs(i := createRateLimiterQueue (kp_base p) None), kp_next := Suc i\<rparr>)))"

definition kp_removeTokens :: "time \<Rightarrow> key \<Rightarrow> key \<Rightarrow> js_value \<Rightarrow> keyed_pool \<Rightarrow> (q_error + nat \<times> nat) \<times> keyed_pool" where
  "kp_removeTokens now qk k cost p =
     (if kp_isShutdown p then (Inl (ShutdownError ''queue-shutdown''), p)
      else case forKey now qk p of
             (Inl e, p1) \<Rightarrow> (Inl e, p1)
           | (Inr i, p1) \<Rightarrow>
               (case removeTokens now k cost (kp_queues p1 i) of
                  (Inl e, q) \<Rightarrow> (Inl e, p1\<lparr>kp_queues := (kp_queues p1)(i := q)\<rparr>)
                | (Inr n, q) \<Rightarrow> (Inr (i, n), p1\<lparr>kp_queues := (kp_queues p1)(i := q)\<rparr>)))"

definition kp_getKeyCount :: "keyed_pool \<Rightarrow> nat" where
  "kp_getKeyCount p = length (kp_map p)"

definition kp_shutdown :: "time \<Rightarrow> int option \<Rightarrow> string option \<Rightarrow> keyed_pool \<Rightarrow> keyed_pool" where
  "kp_shutdown now ms why p =
     (if kp_isShutdown p then p
      else p\<lparr>kp_isShutdown := True, kp_map := [],
             kp_queues := fold (\<lambda>i qs. qs(i := q_shutdown mem_ops now ms why (qs i))) (map snd (kp_map p)) (kp_queues p)\<rparr>)"

text \<open>The result of \<open>shutdown\<close>, once the shutdowns of the queues \<open>is\<close> have all reported.\<close>

definition kp_totals :: "nat list \<Rightarrow> keyed_pool \<Rightarrow> int \<times> int" where
  "kp_totals is p =
     (sum_list (map (\<lambda>i. fst (last (q_reports (kp_queues p i)))) is),
      sum_list (map (\<lambda>i. snd (last (q_reports (kp_queues p i)))) is))"

text \<open>Which keys stay: the most recent ones.\<close>

lemma evict_oldest_map:
  "0 < mk \<Longrightarrow> fst (evict_oldest now mk m qs) = drop (length m - (nat mk - 1)) m"
  by (induction now mk m qs rule: evict_oldest.induct) (auto simp: Suc_diff_le nat_le_iff not_le)

definition most_recent :: "nat \<Rightarrow> key list \<Rightarrow> key list" where
  "most_recent n ks = drop (length (remdups ks) - n) (remdups ks)"

lemma remdups_snoc: "remdups (ks @ [k]) = removeAll k (remdups ks) @ [k]"
  by (induction ks) auto

lemma keys_delete: "map fst (AList.delete k m) = removeAll k (map fst m)"
  by (induction m) auto

lemma drop_removeAll:
  assumes "distinct xs" "k \<in> set (drop n xs)"
  shows "removeAll k (drop n xs) = drop n (removeAll k xs)"
  using assms
proof (induction xs arbitrary: n)
  case (Cons x xs)
  show ?case
  proof (cases n)
    case 0 then show ?thesis by simp
  next
    case (Suc m)
    then have "k \<in> set xs" using Cons.prems(2) set_drop_subset by fastforce
    then show ?thesis using Cons Suc by auto
  qed
qed simp

lemma drop_removeAll_before:
  assumes "distinct xs" "k \<in> set (take n xs)" "n \<le> length xs"
  shows "drop n xs = drop (n - 1) (removeAll k xs)"
  using assms
proof (induction xs arbitrary: n)
  case (Cons x xs)
  from Cons.prems(2) obtain m where n: "n = Suc m" by (cases n) auto
  show ?case
  proof (cases "x = k")
    case True
    then show ?thesis using Cons.prems(1) n by (simp add: removeAll_id)
  next
    case False
    then have "k \<in> set (take m xs)" using Cons.prems(2) n by auto
    moreover from this obtain l where "m = Suc l" by (cases m) auto
    ultimately show ?thesis using Cons n False by auto
  qed
qed simp

lemma most_recent_snoc:
  assumes n: "0 < n"
  shows "most_recent n (ks @ [k]) =
    (let c = most_recent n ks
     in if k \<in> set c then removeAll k c @ [k] else drop (length c - (n - 1)) c @ [k])"
proof -
  let ?L = "remdups ks"
  let ?d = "length ?L - n"
  have d: "distinct ?L" by simp
  consider (hit) "k \<in> set (drop ?d ?L)" | (old) "k \<notin> set (drop ?d ?L)" "k \<in> set ?L" | (new) "k \<notin> set ?L" by blast
  then show ?thesis
  proof cases
    case hit
    then have k: "k \<in> set ?L" using set_drop_subset by fastforce
    then have "length (removeAll k ?L) = length ?L - 1"
      by (simp add: distinct_remove1_removeAll [symmetric] length_remove1)
    moreover have "0 < length ?L" using k by (cases ?L) auto
    ultimately show ?thesis using hit n drop_removeAll [OF d hit]
      by (simp add: most_recent_def remdups_snoc Let_def)
  next
    case old
    then have "k \<in> set (take ?d ?L)" by (metis append_take_drop_id UnE set_append)
    from drop_removeAll_before [OF d this] have e: "drop ?d ?L = drop (?d - 1) (removeAll k ?L)" by simp
    have l: "length (removeAll k ?L) = length ?L - 1" using old(2)
      by (simp add: distinct_remove1_removeAll [symmetric] length_remove1)
    have pos: "0 < ?d" using \<open>k \<in> set (take ?d ?L)\<close> by (cases ?d) auto
    have c: "drop 1 (drop ?d ?L) = drop ?d (removeAll k ?L)" unfolding e using pos by (simp add: Suc_diff_Suc)
    have "length (removeAll k ?L @ [k]) - n = ?d" "?d \<le> length (removeAll k ?L)" using l pos n by simp_all
    then have "most_recent n (ks @ [k]) = drop ?d (removeAll k ?L) @ [k]"
      by (simp only: most_recent_def remdups_snoc) simp
    moreover have "length (drop ?d ?L) - (n - 1) = 1" using pos n by simp
    ultimately show ?thesis using old(1) c by (simp add: most_recent_def Let_def)
  next
    case new
    then have "k \<notin> set (drop ?d ?L)" using set_drop_subset by fastforce
    then show ?thesis using new n
      by (cases "n \<le> length ?L") (simp_all add: most_recent_def remdups_snoc Let_def removeAll_id Suc_diff_le)
  qed
qed

lemma forKey_keys:
  assumes mk: "0 < kp_maxKeys p" and s: "\<not> kp_isShutdown p" and m: "map fst (kp_map p) = most_recent (nat (kp_maxKeys p)) ks"
  shows "map fst (kp_map (snd (forKey now k p))) = most_recent (nat (kp_maxKeys p)) (ks @ [k])"
proof -
  let ?n = "nat (kp_maxKeys p)"
  have n: "0 < ?n" using mk by simp
  show ?thesis
  proof (cases "map_of (kp_map p) k")
    case (Some i)
    then have "k \<in> set (most_recent ?n ks)" unfolding m [symmetric] by (force dest: map_of_SomeD)
    moreover have "map_of (AList.delete k (kp_map p)) k = None" by simp
    ultimately show ?thesis using s Some
      by (simp add: forKey_def update_absent keys_delete m most_recent_snoc [OF n] Let_def)
  next
    case None
    then have k: "k \<notin> set (most_recent ?n ks)" unfolding m [symmetric] by (simp add: map_of_eq_None_iff)
    obtain m' qs where e: "evict_oldest now (kp_maxKeys p) (kp_map p) (kp_queues p) = (m', qs)" by fastforce
    have m': "m' = drop (length (kp_map p) - (?n - 1)) (kp_map p)" using evict_oldest_map [OF mk, of now "kp_map p" "kp_queues p"] e by simp
    have "map_of m' k = None"
      using k set_drop_subset [of _ "kp_map p"] unfolding m [symmetric] by (force simp: m' map_of_eq_None_iff)
    then have "map fst (kp_map (snd (forKey now k p))) = map fst m' @ [k]"
      using s None e by (simp add: forKey_def update_absent Let_def)
    also have "map fst m' = drop (length (most_recent ?n ks) - (?n - 1)) (most_recent ?n ks)"
      by (simp add: m' drop_map [symmetric] m [symmetric])
    finally show ?thesis using k by (simp add: most_recent_snoc [OF n] Let_def)
  qed
qed

lemma forKey_config: "kp_maxKeys (snd (forKey now k p)) = kp_maxKeys p \<and> kp_isShutdown (snd (forKey now k p)) = kp_isShutdown p"
  by (simp add: forKey_def case_prod_beta Let_def split: option.splits)

definition pool_visits :: "(time \<times> key) list \<Rightarrow> keyed_pool \<Rightarrow> keyed_pool" where
  "pool_visits = fold (\<lambda>(t, k) p. snd (forKey t k p))"

lemma pool_visits_keys:
  assumes "0 < kp_maxKeys p" "\<not> kp_isShutdown p" "map fst (kp_map p) = most_recent (nat (kp_maxKeys p)) ks"
  shows "map fst (kp_map (pool_visits vs p)) = most_recent (nat (kp_maxKeys p)) (ks @ map snd vs)"
  using assms
proof (induction vs arbitrary: p ks)
  case (Cons v vs)
  obtain t k where v: "v = (t, k)" by (cases v)
  have c: "kp_maxKeys (snd (forKey t k p)) = kp_maxKeys p" "kp_isShutdown (snd (forKey t k p)) = kp_isShutdown p"
    using forKey_config [of t k p] by auto
  from Cons.IH [of "snd (forKey t k p)" "ks @ [k]"] forKey_keys [OF Cons.prems] Cons.prems(1,2) show ?case
    by (simp add: pool_visits_def v c)
qed (simp add: pool_visits_def)

section \<open>Concrete queues\<close>

definition demo_queue :: "mem_options \<Rightarrow> strategy \<Rightarrow> int \<Rightarrow> int option \<Rightarrow> mem_store req_queue" where
  "demo_queue limits strat cap maxTime = new_RateLimiterQueue (new_MemoryStore limits None None) 1000 cap (Some strat) (Some 5) maxTime None"

definition fixed_demo :: "int option \<Rightarrow> mem_store req_queue" where
  "fixed_demo maxTime = demo_queue (WindowOptions FIXED_WINDOW (js_int 60000) (js_int 1)) FIXED_WINDOW 1 maxTime"

definition bucket_demo :: "mem_store req_queue" where
  "bucket_demo = demo_queue (TokenBucketOptions 1 60000 1) TOKEN_BUCKET 1 None"

definition demo_create :: create_options where
  "demo_create = \<lparr>co_maxRequests = js_int 1, co_windowMs = js_int 1000, co_strategy = None, co_maxQueueSize = None,
     co_maxQueueTimeMs = None, co_ownsStore = None\<rparr>"

text \<open>One round of a drain: the store answers frame \<open>f\<close> and the frame goes on.\<close>

definition pass :: "time \<Rightarrow> nat \<Rightarrow> q_event list" where
  "pass t f = [StoreActs t f, Resume t f]"

section \<open>Properties of the queue\<close>

text \<open>(C19) Whatever calls, store effects, timers and continuations interleave, the pointers spell a list of
  waiters in order of arrival, within the configured size; every request ever accepted is either in
  that list or has been settled, and none is settled twice.\<close>

theorem queue_wellformed:
  "let q = q_run ops evs (new_RateLimiterQueue st w m strat size' maxTime owns)
   in \<exists>xs. spells q xs \<and> sorted_wrt (<) xs \<and> set xs \<subseteq> {..<q_fresh q} \<and>
        distinct (map fst (q_settled q)) \<and> fst ` set (q_settled q) = {..<q_fresh q} - set xs \<and>
        (case q_maxQueueSize q of None \<Rightarrow> True | Some n \<Rightarrow> q_length q \<le> max 0 n)"
proof -
  obtain xs where "list_inv (q_run ops evs (new_RateLimiterQueue st w m strat size' maxTime owns)) xs"
    by (rule exE [OF run_list [OF new_queue_list]])
  then show ?thesis by (auto simp: list_inv_def Let_def)
qed

text \<open>(C20) First in, first out: a request is let through only after every request that was accepted before it
  has been settled, under every interleaving.\<close>

theorem queue_fifo:
  assumes "q_settled (q_run ops evs (new_RateLimiterQueue st w m strat size' maxTime owns)) = before @ (i, Resolved rem t) # after"
    and "j < i"
  shows "j \<in> fst ` set before"
proof -
  obtain xs where "list_inv (q_run ops evs (new_RateLimiterQueue st w m strat size' maxTime owns)) xs"
    by (rule exE [OF run_list [OF new_queue_list]])
  then have "fifo (before @ (i, Resolved rem t) # after)" using assms(1) by (auto simp: list_inv_def)
  then have "\<forall>j < fst ((before @ (i, Resolved rem t) # after) ! length before).
      (case snd ((before @ (i, Resolved rem t) # after) ! length before) of
         Resolved _ _ \<Rightarrow> j \<in> fst ` set (take (length before) (before @ (i, Resolved rem t) # after)) | Rejected _ \<Rightarrow> True)"
    unfolding fifo_def by (metis length_append length_Cons add_Suc_right less_add_Suc1)
  then show ?thesis using assms(2) by simp
qed

theorem queue_fifo_witness:
  "(0::nat) \<in> fst ` set [(0::nat, Rejected QueueTimeout)]"
proof -
  let ?q = "q_run mem_ops ([CallRemoveTokens 0 ''a'' Undefined, TimeoutTimer 5 0, CallRemoveTokens 6 ''b'' Undefined] @
      pass 7 0 @ pass 7 0 @ pass 7 0) (fixed_demo (Some 5))"
  have "q_settled ?q = [(0, Rejected QueueTimeout)] @ (1, Resolved 0 60007) # []" by code_simp
  from queue_fifo [OF this [unfolded fixed_demo_def demo_queue_def], of 0] show ?thesis by simp
qed

text \<open>(C21) No waiter is forgotten: as long as no store call has failed, a queue with waiters has a drain under
  way or a drain timer set, under every interleaving.\<close>

theorem queue_never_forgets:
  assumes "q = q_run ops evs (new_RateLimiterQueue st w m strat size' maxTime owns)"
    and "q_failures q = []" "0 < q_length q"
  shows "(\<exists>f fr. map_of (q_frames q) f = Some fr \<and> is_drain fr) \<or> q_drainTimer q \<noteq> None"
proof -
  have "\<exists>xs. list_inv q xs \<and> alert q" unfolding assms(1) by (rule run_inv [OF new_queue_list new_queue_alert])
  then obtain xs where list: "list_inv q xs" and "alert q" by auto
  moreover have "q_head q \<noteq> None"
    using list assms(3) by (auto simp: list_inv_def spells_def first_of_def split: list.splits)
  ultimately show ?thesis using assms(2) by (simp add: alert_def wakeful_def awake_def)
qed

theorem queue_never_forgets_witness:
  "let q = q_run mem_ops ([CallRemoveTokens 0 ''a'' Undefined] @ pass 0 0 @ [CallRemoveTokens 0 ''a'' Undefined] @ pass 0 1 @ pass 0 1)
     (fixed_demo None)
   in (\<exists>f fr. map_of (q_frames q) f = Some fr \<and> is_drain fr) \<or> q_drainTimer q \<noteq> None"
proof -
  define q where "q = q_run mem_ops ([CallRemoveTokens 0 ''a'' Undefined] @ pass 0 0 @ [CallRemoveTokens 0 ''a'' Undefined] @ pass 0 1 @ pass 0 1)
     (fixed_demo None)"
  have "q_failures q = []" "0 < q_length q" unfolding q_def by code_simp+
  from queue_never_forgets [OF q_def [unfolded fixed_demo_def demo_queue_def] this] show ?thesis
    unfolding q_def [symmetric] by simp
qed

text \<open>(C22) The queue's calls balance. When none of them is under way and none has failed, the costs of its
  increments of a key (those that a token bucket blocked apart), less the costs of its decrements, are the
  cost of the requests let through for that key: every other probe was undone exactly once. For a token
  bucket this is for runs without \<open>getTokensRemaining\<close> (\<open>peek_mints_token\<close>).\<close>

theorem queue_charges_admitted:
  assumes "q = q_run ops evs (new_RateLimiterQueue st w m (Some strat) size' maxTime owns)"
    and "strat = TOKEN_BUCKET \<longrightarrow> (\<forall>k. CallPeek k \<notin> set evs)"
    and "q_frames q = []" "q_failures q = []"
  shows "net_charge q k = admitted_cost q k"
proof -
  let ?q = "new_RateLimiterQueue st w m (Some strat) size' maxTime owns"
  have "q_strategy ?q = strat" by (simp add: new_RateLimiterQueue_def)
  then have "balanced q" unfolding assms(1)
    by (intro run_balanced [OF new_queue_list new_queue_alert new_queue_balanced]) (use assms(2) in simp)
  then show ?thesis using assms(3,4) by (simp add: balanced_def pending_charge_def)
qed

theorem queue_charges_admitted_witness:
  "net_charge (q_run mem_ops ([CallRemoveTokens 0 ''a'' Undefined] @ pass 0 0 @ [CallRemoveTokens 0 ''a'' Undefined] @ pass 0 1 @ pass 0 1)
     (fixed_demo None)) ''a'' = 1"
proof -
  define q where "q = q_run mem_ops ([CallRemoveTokens 0 ''a'' Undefined] @ pass 0 0 @ [CallRemoveTokens 0 ''a'' Undefined] @ pass 0 1 @ pass 0 1)
     (fixed_demo None)"
  have q: "q_frames q = []" "q_failures q = []" "admitted_cost q ''a'' = 1" unfolding q_def by code_simp+
  from queue_charges_admitted [OF q_def [unfolded fixed_demo_def demo_queue_def] _ q(1,2), of "''a''"] q(3) show ?thesis
    unfolding q_def [symmetric] by simp
qed

text \<open>\<open>shutdown\<close> keeps its account: if it is called once and no store call fails, then when it is over no
  waiter is left, \<open>drained\<close> is the number of requests let through meanwhile and \<open>rejected\<close> the number
  rejected with the shutdown error, whatever timed out and whatever else was called in between.\<close>

theorem shutdown_accounts:
  assumes "q = q_run ops evs0 (new_RateLimiterQueue st w m strat size' maxTime owns)" "\<not> q_isShutdown q"
    and "q' = q_run ops evs (q_shutdown ops now ms (Some why) q)" "\<forall>ev \<in> set evs. \<not> is_shutdown_call ev"
    and "q_shutdownRun q' = None" "q_failures q' = []"
  shows "q_head q' = None \<and>
    q_reports q' = q_reports q @ [(shut_count why q' - shut_count why q, resolved_count q' - resolved_count q)]"
proof -
  obtain xs where list: "list_inv q xs" unfolding assms(1) by (rule exE [OF run_list [OF new_queue_list]])
  from exec_list [OF list, of ops "CallShutdown now ms (Some why)"] obtain ys where
    ys: "list_inv (q_shutdown ops now ms (Some why) q) ys" by auto
  have "winding (q_reports q) (resolved_count q) (shut_count why q) why (q_shutdown ops now ms (Some why) q)"
    by (rule winding_start [OF list assms(2)]) simp
  from winding_run [OF ys this assms(4), of ops] have "winding (q_reports q) (resolved_count q) (shut_count why q) why q'"
    by (simp add: assms(3))
  then show ?thesis using assms(5,6) by (simp add: winding_def)
qed

theorem shutdown_accounts_witness:
  "q_reports (q_run mem_ops (pass 60001 2 @ pass 60001 2 @ pass 60001 2 @ [ShutdownTimer 60011, ShutdownTimer 60021])
     (q_shutdown mem_ops 60001 (Some 20) (Some ''stop'')
       (q_run mem_ops ([CallRemoveTokens 0 ''a'' Undefined] @ pass 0 0 @
          [CallRemoveTokens 0 ''a'' Undefined, CallRemoveTokens 0 ''a'' Undefined] @ pass 0 1 @ pass 0 1 @ [DrainTimer 60000]) (fixed_demo None)))) =
   [(1, 1)]"
proof -
  define q where "q = q_run mem_ops ([CallRemoveTokens 0 ''a'' Undefined] @ pass 0 0 @
          [CallRemoveTokens 0 ''a'' Undefined, CallRemoveTokens 0 ''a'' Undefined] @ pass 0 1 @ pass 0 1 @ [DrainTimer 60000]) (fixed_demo None)"
  define q' where "q' = q_run mem_ops (pass 60001 2 @ pass 60001 2 @ pass 60001 2 @ [ShutdownTimer 60011, ShutdownTimer 60021])
     (q_shutdown mem_ops 60001 (Some 20) (Some ''stop'') q)"
  have q: "\<not> q_isShutdown q" "q_reports q = []" "shut_count ''stop'' q = 0" "resolved_count q = 1" unfolding q_def by code_simp+
  have q': "q_shutdownRun q' = None" "q_failures q' = []" "shut_count ''stop'' q' = 1" "resolved_count q' = 2"
    unfolding q'_def q_def by code_simp+
  from shutdown_accounts [OF q_def [unfolded fixed_demo_def demo_queue_def] q(1) q'_def _ q'(1,2)] q q'
  show ?thesis unfolding q'_def [unfolded q_def, symmetric] by (simp add: pass_def is_shutdown_call_def)
qed

text \<open>The pool keeps the queues of the \<open>maxKeys\<close> keys that were asked for most recently, in that order.\<close>

theorem pool_keeps_most_recent:
  assumes "0 < sanitizeKeyedPoolMaxKeys maxKeys"
  shows "map fst (kp_map (pool_visits vs (new_KeyedRateLimiterQueue co maxKeys))) =
    most_recent (nat (sanitizeKeyedPoolMaxKeys maxKeys)) (map snd vs)"
proof -
  have "map fst (kp_map (new_KeyedRateLimiterQueue co maxKeys)) =
      most_recent (nat (kp_maxKeys (new_KeyedRateLimiterQueue co maxKeys))) []"
    by (simp add: new_KeyedRateLimiterQueue_def most_recent_def)
  from pool_visits_keys [OF _ _ this, of vs] assms show ?thesis by (simp add: new_KeyedRateLimiterQueue_def)
qed

theorem pool_keeps_most_recent_witness:
  "map fst (kp_map (pool_visits [(0, ''a''), (1, ''b''), (2, ''a''), (3, ''c'')] (new_KeyedRateLimiterQueue demo_create (js_int 2)))) = [''a'', ''c'']"
proof -
  have "sanitizeKeyedPoolMaxKeys (js_int 2) = 2" "most_recent 2 [''a'', ''b'', ''a'', ''c''] = [''a'', ''c'']" by code_simp+
  then show ?thesis
    using pool_keeps_most_recent [of "js_int 2" "[(0, ''a''), (1, ''b''), (2, ''a''), (3, ''c'')]" demo_create] by simp
qed

section \<open>Where the queue falls short\<close>

text \<open>\<open>getTokensRemaining\<close> undoes its probe of an empty bucket although the probe took nothing: a token
  appears, and a second request is let through at once.\<close>

theorem peek_mints_token:
  "map fst (q_settled (q_run mem_ops ([CallRemoveTokens 0 ''a'' Undefined] @ pass 0 0 @ [CallPeek ''a''] @ pass 0 1 @ pass 0 1 @
      [CallRemoveTokens 0 ''a'' Undefined] @ pass 0 2) bucket_demo)) = [0, 1]"
  by code_simp

text \<open>\<open>clear()\<close> during the undo of a blocked probe lets the old head set the drain timer afterwards. The next
  drain ends with the timer set and leaves \<open>processing\<close> on, so a later request for a fresh key is not
  even tried until that timer fires.\<close>

theorem stale_timer_stalls:
  "let q = q_run mem_ops ([CallRemoveTokens 0 ''a'' Undefined] @ pass 0 0 @ [CallRemoveTokens 0 ''a'' Undefined] @ pass 0 1 @
      [CallClear] @ pass 0 1 @ [CallRemoveTokens 1 ''b'' Undefined] @ pass 1 2 @ [CallRemoveTokens 2 ''c'' Undefined]) (fixed_demo None)
   in q_length q = 1 \<and> q_frames q = [] \<and> q_drainTimer q = Some 60000"
  by code_simp

text \<open>A store call that fails ends the drain and leaves its waiter in the queue, with nothing to wake it.\<close>

theorem store_failure_strands:
  assumes "q_frames q = [(f, AtIncrement i (Some (Inl e)))]" "q_drainTimer q = None" "q_head q = Some i"
  shows "q_head (q_resume now f q) = Some i \<and> q_frames (q_resume now f q) = [] \<and> q_drainTimer (q_resume now f q) = None"
  using assms by (simp add: q_resume_def drain_ends_def end_frame_def Let_def)

text \<open>A second \<open>shutdown()\<close> during the first resets the count of timeouts, and the first then reports a
  waiter that timed out as drained.\<close>

theorem second_shutdown_miscounts:
  "let q = q_run mem_ops ([CallRemoveTokens 0 ''a'' Undefined] @ pass 0 0 @ [CallRemoveTokens 0 ''a'' Undefined] @ pass 0 1 @ pass 0 1 @
      [CallShutdown 1 (Some 100) None, TimeoutTimer 5 1, CallShutdown 6 None None, ShutdownTimer 11]) (fixed_demo (Some 5))
   in q_reports q = [(0, 0), (0, 1)] \<and> q_settled q = [(0, Resolved 0 60000), (1, Rejected QueueTimeout)]"
  by code_simp

end
