(* ===== verification/Cluster_Store.thy ===== *)
theory Cluster_Store
  imports Memory_Store
begin

text \<open>
  The cluster store: the messages of \<open>src/cluster/protocol.ts\<close>, the primary process of
  \<open>src/cluster/ClusterStorePrimary.ts\<close>, the worker side of \<open>src/stores/ClusterStore.ts\<close>, and the
  system of one primary and any number of workers that exchange these messages.

  \<^item> Node's IPC delivers the messages between the primary and a worker in order, as JSON: an absent
    or \<open>undefined\<close> property is dropped, \<open>NaN\<close> and the infinities become \<open>null\<close> (\<open>wire\<close>).
  \<^item> An async method runs to its first unsettled \<open>await\<close> in one step and is then a suspended call,
    \<open>(c, op)\<close> in \<open>cs_calls\<close>; \<open>cs_resume\<close> runs it on. Calls resume in any order once the promise
    \<open>_ready\<close> they wait for is settled. A promise handed to a caller is the number of the call, and
    its settlement is appended to \<open>cs_settled\<close>.
  \<^item> \<open>randomUUID()\<close> is the argument \<open>u\<close> of the step that needs it.
  \<^item> A timer is the time from which it may fire, kept beside the entry it guards:
    every \<open>clearTimeout\<close> of the source is on the entry that is removed in the same step.
  \<^item> An error is a constructor of \<open>cl_error\<close>, with the numbers and names of its text as arguments.
\<close>

section \<open>Messages (cluster/protocol.ts)\<close>

definition CLUSTER_IPC_PROTOCOL_VERSION :: int where
  "CLUSTER_IPC_PROTOCOL_VERSION = 1"

definition MIN_CLUSTER_IPC_PROTOCOL_VERSION :: int where
  "MIN_CLUSTER_IPC_PROTOCOL_VERSION = 1"

datatype cl_error =
    ErrPm2                        \<comment> \<open>ClusterStore is incompatible with PM2: ...\<close>
  | ErrNotWorker                  \<comment> \<open>... must be constructed in a cluster worker process\<close>
  | ErrKeyPrefix                  \<comment> \<open>... keyPrefix is required\<close>
  | ErrNoSend                     \<comment> \<open>... process.send is not available\<close>
  | ErrNotPrimary                 \<comment> \<open>... must be called in the primary process\<close>
  | ErrInitTimeout                \<comment> \<open>... primary did not acknowledge init within 100ms\<close>
  | ErrReplyTimeout int           \<comment> \<open>... primary did not respond within \<open>n\<close> ms\<close>
  | ErrShutDown                   \<comment> \<open>ClusterStore shut down\<close>
  | ErrDuplicateId                \<comment> \<open>... duplicate request id superseded\<close>
  | ErrUnexpectedSuccess          \<comment> \<open>... unexpected success result for void operation\<close>
  | ErrInvalidVersion             \<comment> \<open>... invalid init.protocolVersion ...\<close>
  | ErrVersionTooOld int          \<comment> \<open>... version \<open>n\<close> is no longer supported by this primary ...\<close>
  | ErrVersionTooNew int          \<comment> \<open>... version \<open>n\<close> is newer than this primary supports ...\<close>
  | ErrUnknownStrategy string     \<comment> \<open>Unknown strategy: \<open>s\<close>\<close>
  | ErrStoreMissing string        \<comment> \<open>Store not initialized for keyPrefix: \<open>p\<close>\<close>
  | ErrStore string               \<comment> \<open>the message of an error the store throws\<close>
  | ErrInvalidTime                \<comment> \<open>the \<open>RangeError\<close> of \<open>toISOString\<close> on an invalid date\<close>

record cluster_init_options =
  ci_strategy :: string
  ci_windowMs :: js_value
  ci_maxRequests :: js_value
  ci_tokensPerInterval :: "int option"
  ci_interval :: "int option"
  ci_bucketSize :: "int option"

datatype worker_msg =
    WInit (wm_prefix: string) cluster_init_options js_value
  | WIncrement (wm_id: string) (wm_prefix: string) key "inc_opts option"
  | WDecrement (wm_id: string) (wm_prefix: string) key "dec_opts option"
  | WReset (wm_id: string) (wm_prefix: string) key
  | WShutdown (wm_id: string) (wm_prefix: string)

datatype primary_msg =
    PResultOk (pm_id: string) (pm_prefix: string) rl_result
  | PResultErr (pm_id: string) (pm_prefix: string) cl_error
  | PAck (pm_id: string) (pm_prefix: string)
  | PInitAck (pm_prefix: string) "int option"
  | PInitNack (pm_prefix: string) cl_error "int option"

text \<open>What can arrive on a channel: a message of other code, a message that carries the library's
  \<open>channel\<close> with an unknown \<open>type\<close>, or one of the messages above.\<close>

datatype ipc = OtherChannel | UnknownType | FromWorker worker_msg | FromPrimary primary_msg

definition isRateLimitFlexMessage :: "ipc \<Rightarrow> bool" where
  "isRateLimitFlexMessage m = (m \<noteq> OtherChannel)"

definition isClusterWorkerInboundMessage :: "ipc \<Rightarrow> worker_msg option" where
  "isClusterWorkerInboundMessage m = (case m of FromWorker x \<Rightarrow> Some x | _ \<Rightarrow> None)"

definition wire :: "js_value \<Rightarrow> js_value" where
  "wire v = (case v of NaN \<Rightarrow> NonNumber | PosInf \<Rightarrow> NonNumber | NegInf \<Rightarrow> NonNumber | _ \<Rightarrow> v)"

section \<open>The primary (cluster/ClusterStorePrimary.ts)\<close>

definition parseStrategy :: "string \<Rightarrow> cl_error + strategy" where
  "parseStrategy v =
     (if v = ''SLIDING_WINDOW'' then Inr SLIDING_WINDOW
      else if v = ''FIXED_WINDOW'' then Inr FIXED_WINDOW
      else if v = ''TOKEN_BUCKET'' then Inr TOKEN_BUCKET
      else Inl (ErrUnknownStrategy v))"

definition int_or :: "int option \<Rightarrow> int \<Rightarrow> int" where
  "int_or v d = (case v of None \<Rightarrow> d | Some n \<Rightarrow> n)"

definition createMemoryStoreFromClusterOptions :: "cluster_init_options \<Rightarrow> cl_error + mem_store" where
  "createMemoryStoreFromClusterOptions opts =
     (case parseStrategy (ci_strategy opts) of
        Inl e \<Rightarrow> Inl e
      | Inr strat \<Rightarrow>
          Inr (if strat = TOKEN_BUCKET
               then new_MemoryStore
                      (TokenBucketOptions (int_or (ci_tokensPerInterval opts) 1)
                         (int_or (ci_interval opts) 1000)
                         (int_or (ci_bucketSize opts) (int_or (ci_tokensPerInterval opts) 1)))
                      None None
               else new_MemoryStore
                      (WindowOptions strat (js_or (ci_windowMs opts) (js_int 60000))
                         (js_or (ci_maxRequests opts) (js_int 100)))
                      None None))"

record primary =
  cp_stores :: "(string, mem_store) jsmap"
  cp_listening :: bool
  cp_queue :: "(nat \<times> worker_msg) list"   \<comment> \<open>\<open>dispatchSerial\<close>: the handlers still to run\<close>

definition new_primary :: primary where
  "new_primary = \<lparr>cp_stores = [], cp_listening = False, cp_queue = []\<rparr>"

definition startListening :: "primary \<Rightarrow> primary" where
  "startListening p = (if cp_listening p then p else p\<lparr>cp_listening := True\<rparr>)"

text \<open>\<open>ClusterStorePrimary.init()\<close> on the singleton \<open>inst\<close>: the instance it returns.\<close>

definition primary_init :: "bool \<Rightarrow> primary option \<Rightarrow> cl_error + primary" where
  "primary_init isPrimary inst =
     (case inst of
        Some p \<Rightarrow> Inr p
      | None \<Rightarrow> if \<not> isPrimary then Inl ErrNotPrimary else Inr (startListening new_primary))"

definition cp_put :: "string \<Rightarrow> mem_store \<Rightarrow> primary \<Rightarrow> primary" where
  "cp_put pre st p = p\<lparr>cp_stores := AList.update pre st (cp_stores p)\<rparr>"

text \<open>\<open>handleMessage\<close> chains the handler behind the ones that still run.\<close>

definition handleMessage :: "nat \<Rightarrow> ipc \<Rightarrow> primary \<Rightarrow> primary" where
  "handleMessage w m p =
     (if \<not> isRateLimitFlexMessage m then p
      else case isClusterWorkerInboundMessage m of
             None \<Rightarrow> p
           | Some x \<Rightarrow> p\<lparr>cp_queue := cp_queue p @ [(w, x)]\<rparr>)"

definition parseInitProtocolVersion :: "js_value \<Rightarrow> int option" where
  "parseInitProtocolVersion raw =
     (case raw of
        Undefined \<Rightarrow> Some 1
      | Num r \<Rightarrow>
          (if r < 1 then None
           else let v = \<lfloor>r\<rfloor> in if of_int v \<noteq> r then None else Some v)
      | _ \<Rightarrow> None)"

text \<open>A handler gives the message it sends to the worker, an uncaught error, and the primary after
  it. \<open>Inl\<close> is a throw, which the \<open>catch\<close> of \<open>handleMessage\<close> turns into a reply for the three
  quota operations only.\<close>

definition handleInit ::
  "string \<Rightarrow> cluster_init_options \<Rightarrow> js_value \<Rightarrow> primary \<Rightarrow> (cl_error + primary_msg) \<times> primary" where
  "handleInit pre opts raw p =
     (case parseInitProtocolVersion raw of
        None \<Rightarrow> (Inr (PInitNack pre ErrInvalidVersion (Some CLUSTER_IPC_PROTOCOL_VERSION)), p)
      | Some v \<Rightarrow>
          if v < MIN_CLUSTER_IPC_PROTOCOL_VERSION then
            (Inr (PInitNack pre (ErrVersionTooOld v) (Some MIN_CLUSTER_IPC_PROTOCOL_VERSION)), p)
          else if v > CLUSTER_IPC_PROTOCOL_VERSION then
            (Inr (PInitNack pre (ErrVersionTooNew v) (Some CLUSTER_IPC_PROTOCOL_VERSION)), p)
          else if jsmap_has (cp_stores p) pre then (Inr (PInitAck pre (Some v)), p)
          else (case createMemoryStoreFromClusterOptions opts of
                  Inl e \<Rightarrow> (Inl e, p)
                | Inr st \<Rightarrow> (Inr (PInitAck pre (Some v)), cp_put pre st p)))"

text \<open>\<open>resetTime.toISOString()\<close> throws on a time beyond the range of \<open>Date\<close>; below it the worker's
  \<open>new Date(...)\<close> reads back the same time.\<close>

definition MAX_DATE :: int where
  "MAX_DATE = 8640000000000000"

definition date_valid :: "time \<Rightarrow> bool" where
  "date_valid t = (\<bar>t\<bar> \<le> MAX_DATE)"

definition handleIncrement ::
  "time \<Rightarrow> string \<Rightarrow> string \<Rightarrow> key \<Rightarrow> inc_opts option \<Rightarrow> primary \<Rightarrow> primary_msg \<times> primary" where
  "handleIncrement now u pre k o' p =
     (case map_of (cp_stores p) pre of
        None \<Rightarrow> (PResultErr u pre (ErrStoreMissing pre), p)
      | Some st \<Rightarrow>
          (case op_increment mem_ops now k o' st of (res, st') \<Rightarrow>
             (case res of
                Inr r \<Rightarrow>
                  if date_valid (resetTime r)
                  then PResultOk u pre
                         (plain_result (totalHits r) (remaining r) (resetTime r) (isBlocked r))
                  else PResultErr u pre ErrInvalidTime
              | Inl e \<Rightarrow> PResultErr u pre (ErrStore e),
              cp_put pre st' p)))"

definition void_reply :: "string \<Rightarrow> string \<Rightarrow> string + unit \<Rightarrow> primary_msg" where
  "void_reply u pre res = (case res of Inr _ \<Rightarrow> PAck u pre | Inl e \<Rightarrow> PResultErr u pre (ErrStore e))"

definition handleDecrement ::
  "time \<Rightarrow> string \<Rightarrow> string \<Rightarrow> key \<Rightarrow> dec_opts option \<Rightarrow> primary \<Rightarrow> primary_msg \<times> primary" where
  "handleDecrement now u pre k d p =
     (case map_of (cp_stores p) pre of
        None \<Rightarrow> (PResultErr u pre (ErrStoreMissing pre), p)
      | Some st \<Rightarrow>
          (case op_decrement mem_ops now k d st of (res, st') \<Rightarrow> (void_reply u pre res, cp_put pre st' p)))"

definition handleReset :: "time \<Rightarrow> string \<Rightarrow> string \<Rightarrow> key \<Rightarrow> primary \<Rightarrow> primary_msg \<times> primary" where
  "handleReset now u pre k p =
     (case map_of (cp_stores p) pre of
        None \<Rightarrow> (PResultErr u pre (ErrStoreMissing pre), p)
      | Some st \<Rightarrow>
          (case op_reset mem_ops now k st of (res, st') \<Rightarrow> (void_reply u pre res, cp_put pre st' p)))"

definition handleShutdown :: "string \<Rightarrow> string \<Rightarrow> primary \<Rightarrow> primary_msg \<times> primary" where
  "handleShutdown u pre p =
     (case map_of (cp_stores p) pre of
        None \<Rightarrow> (PResultErr u pre (ErrStoreMissing pre), p)
      | Some st \<Rightarrow>
          (case op_shutdown mem_ops st of (res, st') \<Rightarrow>
             (case res of
                Inr _ \<Rightarrow> (PAck u pre, p\<lparr>cp_stores := AList.delete pre (cp_stores p)\<rparr>)
              | Inl e \<Rightarrow> (PResultErr u pre (ErrStore e), cp_put pre st' p))))"

text \<open>\<open>dispatchWorkerMessage\<close> and the \<open>catch\<close> behind it: the reply sent, if any. The handler of
  \<open>init\<close> is the only one that throws, and an \<open>init\<close> that throws gets no reply.\<close>

definition dispatchWorkerMessage ::
  "time \<Rightarrow> worker_msg \<Rightarrow> primary \<Rightarrow> primary_msg option \<times> primary" where
  "dispatchWorkerMessage now m p =
     (case m of
        WInit pre opts raw \<Rightarrow>
          (case handleInit pre opts raw p of
             (Inr reply, p') \<Rightarrow> (Some reply, p')
           | (Inl e, p') \<Rightarrow> (None, p'))
      | WIncrement u pre k o' \<Rightarrow> (case handleIncrement now u pre k o' p of (r, p') \<Rightarrow> (Some r, p'))
      | WDecrement u pre k d \<Rightarrow> (case handleDecrement now u pre k d p of (r, p') \<Rightarrow> (Some r, p'))
      | WReset u pre k \<Rightarrow> (case handleReset now u pre k p of (r, p') \<Rightarrow> (Some r, p'))
      | WShutdown u pre \<Rightarrow> (case handleShutdown u pre p of (r, p') \<Rightarrow> (Some r, p')))"

text \<open>\<open>destroy()\<close>: the listener goes, every store is shut down and forgotten. The handlers already
  chained still run, on the emptied map.\<close>

definition tearDown :: "primary \<Rightarrow> primary" where
  "tearDown p = p\<lparr>cp_listening := False, cp_stores := []\<rparr>"

definition primary_destroy :: "primary option \<Rightarrow> primary option \<times> primary option" where
  "primary_destroy inst = (case inst of None \<Rightarrow> (None, None) | Some p \<Rightarrow> (None, Some (tearDown p)))"

section \<open>The worker (stores/ClusterStore.ts)\<close>

datatype purpose = ForDecrement | ForReset | ForShutdown

datatype pend_kind = PendIncrement | PendVoid purpose

text \<open>A pending entry: its kind, the call whose promise its \<open>resolve\<close> and \<open>reject\<close> settle, and the
  time from which its timer may fire.\<close>

record pend =
  pe_kind :: pend_kind
  pe_call :: nat
  pe_deadline :: time

datatype cs_op =
    AskIncrement key "inc_opts option"
  | AskDecrement key "dec_opts option"
  | AskReset key
  | AskShutdown

datatype cs_outcome = Answer rl_result | Done | Failed cl_error

text \<open>The promise \<open>_ready\<close>; \<open>_readySettled\<close> is \<open>cs_ready s \<noteq> ReadyPending\<close>.\<close>

datatype ready = ReadyPending | ReadyOk | ReadyFailed cl_error

record cluster_store =
  cs_keyPrefix :: string
  cs_timeoutMs :: int
  cs_worker :: nat                       \<comment> \<open>the process the object lives in\<close>
  cs_pending :: "(string, pend) jsmap"
  cs_ready :: ready
  cs_initTimer :: "time option"
  cs_shutDown :: bool
  cs_listenerRemoved :: bool
  cs_calls :: "(nat \<times> cs_op) list"       \<comment> \<open>calls suspended at \<open>await this._ready\<close>\<close>
  cs_settled :: "(nat \<times> cs_outcome) list"

record cluster_store_options =
  cso_keyPrefix :: "string option"
  cso_strategy :: string
  cso_windowMs :: js_value
  cso_maxRequests :: js_value
  cso_tokensPerInterval :: "int option"
  cso_interval :: "int option"
  cso_bucketSize :: "int option"
  cso_timeoutMs :: "int option"

record process_env =
  env_pm2 :: bool          \<comment> \<open>\<open>isPm2ManagedProcess()\<close>\<close>
  env_isWorker :: bool     \<comment> \<open>\<open>cluster.isWorker\<close>\<close>
  env_hasSend :: bool      \<comment> \<open>\<open>typeof process.send === 'function'\<close>\<close>

definition INIT_TIMEOUT_MS :: int where
  "INIT_TIMEOUT_MS = 100"

text \<open>\<open>setTimeout\<close> takes a delay outside \<open>1 .. 2 ^ 31 - 1\<close> for 1.\<close>

definition timer_at :: "time \<Rightarrow> int \<Rightarrow> time" where
  "timer_at now d = now + (if 1 \<le> d \<and> d \<le> 2147483647 then d else 1)"

text \<open>The options as the primary reads them off the wire.\<close>

definition toStoreOptions :: "cluster_store_options \<Rightarrow> cluster_init_options" where
  "toStoreOptions opts =
     \<lparr>ci_strategy = cso_strategy opts, ci_windowMs = wire (cso_windowMs opts),
      ci_maxRequests = wire (cso_maxRequests opts),
      ci_tokensPerInterval = cso_tokensPerInterval opts, ci_interval = cso_interval opts,
      ci_bucketSize = cso_bucketSize opts\<rparr>"

definition new_ClusterStore ::
  "process_env \<Rightarrow> time \<Rightarrow> nat \<Rightarrow> cluster_store_options \<Rightarrow> cl_error + cluster_store \<times> worker_msg" where
  "new_ClusterStore env now w opts =
     (if env_pm2 env \<and> \<not> env_isWorker env then Inl ErrPm2
      else if \<not> env_isWorker env then Inl ErrNotWorker
      else case cso_keyPrefix opts of
             None \<Rightarrow> Inl ErrKeyPrefix
           | Some pre \<Rightarrow>
               if pre = '''' then Inl ErrKeyPrefix
               else if \<not> env_hasSend env then Inl ErrNoSend
               else Inr
                 (\<lparr>cs_keyPrefix = pre, cs_timeoutMs = int_or (cso_timeoutMs opts) 5000, cs_worker = w,
                   cs_pending = [], cs_ready = ReadyPending,
                   cs_initTimer = Some (timer_at now INIT_TIMEOUT_MS),
                   cs_shutDown = False, cs_listenerRemoved = False, cs_calls = [], cs_settled = []\<rparr>,
                  WInit pre (toStoreOptions opts) (js_int CLUSTER_IPC_PROTOCOL_VERSION)))"

definition failInit :: "cl_error \<Rightarrow> cluster_store \<Rightarrow> cluster_store" where
  "failInit e s =
     (if cs_ready s \<noteq> ReadyPending then s
      else s\<lparr>cs_ready := ReadyFailed e, cs_initTimer := None, cs_listenerRemoved := True\<rparr>)"

definition settleInit :: "cluster_store \<Rightarrow> cluster_store" where
  "settleInit s =
     (if cs_ready s \<noteq> ReadyPending then s
      else s\<lparr>cs_ready := ReadyOk, cs_initTimer := None\<rparr>)"

definition cs_settle :: "nat \<Rightarrow> cs_outcome \<Rightarrow> cluster_store \<Rightarrow> cluster_store" where
  "cs_settle c out s = s\<lparr>cs_settled := cs_settled s @ [(c, out)]\<rparr>"

definition drop_pending :: "string \<Rightarrow> cluster_store \<Rightarrow> cluster_store" where
  "drop_pending u s = s\<lparr>cs_pending := AList.delete u (cs_pending s)\<rparr>"

text \<open>The \<open>resolve\<close> of a void entry. For \<open>shutdown\<close> the method goes on in the next microtask, before
  any other code of the store: it removes the listener and returns.\<close>

definition resolve_void :: "purpose \<Rightarrow> nat \<Rightarrow> cluster_store \<Rightarrow> cluster_store" where
  "resolve_void pu c s =
     cs_settle c Done (if pu = ForShutdown then s\<lparr>cs_listenerRemoved := True\<rparr> else s)"

definition dispatchResult :: "string \<Rightarrow> cl_error + rl_result \<Rightarrow> cluster_store \<Rightarrow> cluster_store" where
  "dispatchResult u res s =
     (case map_of (cs_pending s) u of
        None \<Rightarrow> s
      | Some pe \<Rightarrow>
          (case pe_kind pe of
             PendIncrement \<Rightarrow>
               (case res of
                  Inr r \<Rightarrow> cs_settle (pe_call pe) (Answer r) (drop_pending u s)
                | Inl e \<Rightarrow> cs_settle (pe_call pe) (Failed e) (drop_pending u s))
           | PendVoid pu \<Rightarrow>
               (case res of
                  Inr r \<Rightarrow> cs_settle (pe_call pe) (Failed ErrUnexpectedSuccess) (drop_pending u s)
                | Inl e \<Rightarrow>
                    if pu = ForShutdown then resolve_void pu (pe_call pe) (drop_pending u s)
                    else cs_settle (pe_call pe) (Failed e) (drop_pending u s))))"

definition dispatchAck :: "string \<Rightarrow> cluster_store \<Rightarrow> cluster_store" where
  "dispatchAck u s =
     (case map_of (cs_pending s) u of
        None \<Rightarrow> s
      | Some pe \<Rightarrow>
          (case pe_kind pe of
             PendIncrement \<Rightarrow> s
           | PendVoid pu \<Rightarrow> resolve_void pu (pe_call pe) (drop_pending u s)))"

definition handleIncomingMessage :: "ipc \<Rightarrow> cluster_store \<Rightarrow> cluster_store" where
  "handleIncomingMessage m s =
     (if \<not> isRateLimitFlexMessage m then s
      else case m of
             FromPrimary x \<Rightarrow>
               (if pm_prefix x \<noteq> cs_keyPrefix s then s
                else case x of
                       PInitNack pre e v \<Rightarrow> failInit e s
                     | PInitAck pre v \<Rightarrow> settleInit s
                     | PResultOk u pre r \<Rightarrow> dispatchResult u (Inr r) s
                     | PResultErr u pre e \<Rightarrow> dispatchResult u (Inl e) s
                     | PAck u pre \<Rightarrow> dispatchAck u s)
           | _ \<Rightarrow> s)"

text \<open>The callbacks of the two timers.\<close>

definition init_timer_fires :: "cluster_store \<Rightarrow> cluster_store" where
  "init_timer_fires s = failInit ErrInitTimeout s"

definition reply_timer_fires :: "string \<Rightarrow> cluster_store \<Rightarrow> cluster_store" where
  "reply_timer_fires u s =
     (case map_of (cs_pending s) u of
        None \<Rightarrow> s
      | Some pe \<Rightarrow> cs_settle (pe_call pe) (Failed (ErrReplyTimeout (cs_timeoutMs s))) (drop_pending u s))"

definition setPending :: "string \<Rightarrow> pend \<Rightarrow> cluster_store \<Rightarrow> cluster_store" where
  "setPending u pe s =
     (let s' = (case map_of (cs_pending s) u of
                  None \<Rightarrow> s
                | Some prev \<Rightarrow> cs_settle (pe_call prev) (Failed ErrDuplicateId) s)
      in s'\<lparr>cs_pending := AList.update u pe (cs_pending s')\<rparr>)"

text \<open>The call of a method: what runs before the first \<open>await\<close>. \<open>shutdown\<close> returns at once when the
  listener is gone.\<close>

definition cs_call :: "nat \<Rightarrow> cs_op \<Rightarrow> cluster_store \<Rightarrow> cluster_store" where
  "cs_call c op s =
     (if op = AskShutdown \<and> cs_listenerRemoved s then cs_settle c Done s
      else s\<lparr>cs_calls := cs_calls s @ [(c, op)]\<rparr>)"

definition kind_of :: "cs_op \<Rightarrow> pend_kind" where
  "kind_of op =
     (case op of
        AskIncrement k o' \<Rightarrow> PendIncrement
      | AskDecrement k d \<Rightarrow> PendVoid ForDecrement
      | AskReset k \<Rightarrow> PendVoid ForReset
      | AskShutdown \<Rightarrow> PendVoid ForShutdown)"

definition wire_inc :: "inc_opts option \<Rightarrow> inc_opts option" where
  "wire_inc o' =
     map_option (\<lambda>x. \<lparr>io_maxRequests = wire (io_maxRequests x), io_cost = wire (io_cost x)\<rparr>) o'"

definition wire_dec :: "dec_opts option \<Rightarrow> dec_opts option" where
  "wire_dec d =
     map_option (\<lambda>x. \<lparr>do_cost = wire (do_cost x), do_removeNewest = do_removeNewest x\<rparr>) d"

definition request_of :: "string \<Rightarrow> string \<Rightarrow> cs_op \<Rightarrow> worker_msg" where
  "request_of u pre op =
     (case op of
        AskIncrement k o' \<Rightarrow> WIncrement u pre k (wire_inc o')
      | AskDecrement k d \<Rightarrow> WDecrement u pre k (wire_dec d)
      | AskReset k \<Rightarrow> WReset u pre k
      | AskShutdown \<Rightarrow> WShutdown u pre)"

text \<open>The rest of \<open>increment\<close>, \<open>decrement\<close> and \<open>reset\<close> once \<open>_ready\<close> is settled, with the message
  they send: a rejected \<open>_ready\<close> rejects the call. \<open>ask\<close> is the body they share with \<open>shutdown\<close>:
  timer, pending entry, message.\<close>

definition ask :: "time \<Rightarrow> nat \<Rightarrow> cs_op \<Rightarrow> string \<Rightarrow> cluster_store \<Rightarrow> cluster_store \<times> worker_msg option" where
  "ask now c op u s =
     (setPending u \<lparr>pe_kind = kind_of op, pe_call = c, pe_deadline = timer_at now (cs_timeoutMs s)\<rparr> s,
      Some (request_of u (cs_keyPrefix s) op))"

definition quota_body ::
  "time \<Rightarrow> nat \<Rightarrow> cs_op \<Rightarrow> string \<Rightarrow> cluster_store \<Rightarrow> cluster_store \<times> worker_msg option" where
  "quota_body now c op u s =
     (case cs_ready s of
        ReadyFailed e \<Rightarrow> (cs_settle c (Failed e) s, None)
      | _ \<Rightarrow> if cs_shutDown s then (cs_settle c (Failed ErrShutDown) s, None) else ask now c op u s)"

definition reject_all :: "cluster_store \<Rightarrow> cluster_store" where
  "reject_all s =
     s\<lparr>cs_settled := cs_settled s @ map (\<lambda>(u, pe). (pe_call pe, Failed ErrShutDown)) (cs_pending s),
       cs_pending := []\<rparr>"

definition shutdown_body ::
  "time \<Rightarrow> nat \<Rightarrow> string \<Rightarrow> cluster_store \<Rightarrow> cluster_store \<times> worker_msg option" where
  "shutdown_body now c u s =
     (if cs_listenerRemoved s then (cs_settle c Done s, None)
      else ask now c AskShutdown u (reject_all (s\<lparr>cs_shutDown := True\<rparr>)))"

definition forget_call :: "nat \<Rightarrow> cluster_store \<Rightarrow> cluster_store" where
  "forget_call c s = s\<lparr>cs_calls := AList.delete c (cs_calls s)\<rparr>"

definition cs_resume ::
  "time \<Rightarrow> nat \<Rightarrow> cs_op \<Rightarrow> string \<Rightarrow> cluster_store \<Rightarrow> cluster_store \<times> worker_msg option" where
  "cs_resume now c op u s =
     (let s' = forget_call c s
      in if op = AskShutdown then shutdown_body now c u s' else quota_body now c op u s')"

section \<open>The system\<close>

text \<open>One primary and the store objects of all workers, numbered. \<open>sy_up w\<close> and \<open>sy_down w\<close> are the
  two directions of the channel to worker \<open>w\<close>. Three histories record what happened: \<open>sy_issued\<close> the
  calls made (call, object, operation), \<open>sy_sent\<close> the requests sent (id, object, call, operation), and
  \<open>sy_log\<close> the messages the primary handled, with time, worker and reply.\<close>

type_synonym log_entry = "time \<times> nat \<times> worker_msg \<times> primary_msg option"

record cl_system =
  sy_now :: time
  sy_primary :: primary
  sy_insts :: "(nat, cluster_store) jsmap"
  sy_up :: "nat \<Rightarrow> ipc list"
  sy_down :: "nat \<Rightarrow> ipc list"
  sy_next :: nat
  sy_issued :: "(nat \<times> nat \<times> cs_op) list"
  sy_sent :: "(string \<times> nat \<times> nat \<times> cs_op) list"
  sy_log :: "log_entry list"

definition cl_start :: cl_system where
  "cl_start =
     \<lparr>sy_now = 0, sy_primary = startListening new_primary, sy_insts = [], sy_up = (\<lambda>_. []),
      sy_down = (\<lambda>_. []), sy_next = 0, sy_issued = [], sy_sent = [], sy_log = []\<rparr>"

datatype cl_event =
    Create nat nat process_env cluster_store_options  \<comment> \<open>object, worker process\<close>
  | Call nat cs_op                                    \<comment> \<open>a method of an object is called\<close>
  | Resume nat nat string                             \<comment> \<open>object, suspended call, fresh id\<close>
  | InitTimer nat
  | ReplyTimer nat string
  | PrimaryRecv nat                                   \<comment> \<open>the primary takes a message of a worker\<close>
  | PrimaryRun                                        \<comment> \<open>the next handler of \<open>dispatchSerial\<close> runs\<close>
  | WorkerRecv nat
  | Tick nat
  | Noise nat                                         \<comment> \<open>other code uses the channel\<close>
  | Destroy

definition put_inst :: "nat \<Rightarrow> cluster_store \<Rightarrow> cl_system \<Rightarrow> cl_system" where
  "put_inst i s sy = sy\<lparr>sy_insts := AList.update i s (sy_insts sy)\<rparr>"

definition send_up :: "nat \<Rightarrow> ipc \<Rightarrow> cl_system \<Rightarrow> cl_system" where
  "send_up w m sy = sy\<lparr>sy_up := (sy_up sy)(w := sy_up sy w @ [m])\<rparr>"

definition send_down :: "nat \<Rightarrow> ipc \<Rightarrow> cl_system \<Rightarrow> cl_system" where
  "send_down w m sy = sy\<lparr>sy_down := (sy_down sy)(w := sy_down sy w @ [m])\<rparr>"

definition do_create :: "nat \<Rightarrow> nat \<Rightarrow> process_env \<Rightarrow> cluster_store_options \<Rightarrow> cl_system \<Rightarrow> cl_system" where
  "do_create i w env opts sy =
     (if jsmap_has (sy_insts sy) i then sy
      else case new_ClusterStore env (sy_now sy) w opts of
             Inl e \<Rightarrow> sy
           | Inr (s, m) \<Rightarrow> send_up w (FromWorker m) (put_inst i s sy))"

definition do_call :: "nat \<Rightarrow> cs_op \<Rightarrow> cl_system \<Rightarrow> cl_system" where
  "do_call i op sy =
     (case map_of (sy_insts sy) i of
        None \<Rightarrow> sy
      | Some s \<Rightarrow>
          put_inst i (cs_call (sy_next sy) op s)
            (sy\<lparr>sy_next := Suc (sy_next sy), sy_issued := sy_issued sy @ [(sy_next sy, i, op)]\<rparr>))"

definition do_resume :: "nat \<Rightarrow> nat \<Rightarrow> string \<Rightarrow> cl_system \<Rightarrow> cl_system" where
  "do_resume i c u sy =
     (case map_of (sy_insts sy) i of
        None \<Rightarrow> sy
      | Some s \<Rightarrow>
          (if cs_ready s = ReadyPending then sy
           else case map_of (cs_calls s) c of
                  None \<Rightarrow> sy
                | Some op \<Rightarrow>
                    (case cs_resume (sy_now sy) c op u s of
                       (s', None) \<Rightarrow> put_inst i s' sy
                     | (s', Some m) \<Rightarrow>
                         send_up (cs_worker s) (FromWorker m)
                           ((put_inst i s' sy)\<lparr>sy_sent := sy_sent sy @ [(u, i, c, op)]\<rparr>))))"

definition do_init_timer :: "nat \<Rightarrow> cl_system \<Rightarrow> cl_system" where
  "do_init_timer i sy =
     (case map_of (sy_insts sy) i of
        None \<Rightarrow> sy
      | Some s \<Rightarrow>
          (case cs_initTimer s of
             None \<Rightarrow> sy
           | Some t \<Rightarrow> if t \<le> sy_now sy then put_inst i (init_timer_fires s) sy else sy))"

definition do_reply_timer :: "nat \<Rightarrow> string \<Rightarrow> cl_system \<Rightarrow> cl_system" where
  "do_reply_timer i u sy =
     (case map_of (sy_insts sy) i of
        None \<Rightarrow> sy
      | Some s \<Rightarrow>
          (case map_of (cs_pending s) u of
             None \<Rightarrow> sy
           | Some pe \<Rightarrow>
               if pe_deadline pe \<le> sy_now sy then put_inst i (reply_timer_fires u s) sy else sy))"

definition do_primary_recv :: "nat \<Rightarrow> cl_system \<Rightarrow> cl_system" where
  "do_primary_recv w sy =
     (case sy_up sy w of
        [] \<Rightarrow> sy
      | m # ms \<Rightarrow>
          sy\<lparr>sy_up := (sy_up sy)(w := ms),
             sy_primary := (if cp_listening (sy_primary sy)
                            then handleMessage w m (sy_primary sy) else sy_primary sy)\<rparr>)"

definition do_primary_run :: "cl_system \<Rightarrow> cl_system" where
  "do_primary_run sy =
     (case cp_queue (sy_primary sy) of
        [] \<Rightarrow> sy
      | (w, m) # q \<Rightarrow>
          (case dispatchWorkerMessage (sy_now sy) m ((sy_primary sy)\<lparr>cp_queue := q\<rparr>) of
             (reply, p') \<Rightarrow>
               (let sy' = sy\<lparr>sy_primary := p', sy_log := sy_log sy @ [(sy_now sy, w, m, reply)]\<rparr>
                in case reply of None \<Rightarrow> sy' | Some r \<Rightarrow> send_down w (FromPrimary r) sy')))"

text \<open>A message to a worker process reaches every store object there that still listens.\<close>

definition hear :: "nat \<Rightarrow> ipc \<Rightarrow> cluster_store \<Rightarrow> cluster_store" where
  "hear w m s =
     (if cs_worker s = w \<and> \<not> cs_listenerRemoved s then handleIncomingMessage m s else s)"

definition do_worker_recv :: "nat \<Rightarrow> cl_system \<Rightarrow> cl_system" where
  "do_worker_recv w sy =
     (case sy_down sy w of
        [] \<Rightarrow> sy
      | m # ms \<Rightarrow>
          sy\<lparr>sy_down := (sy_down sy)(w := ms),
             sy_insts := map (\<lambda>(i, s). (i, hear w m s)) (sy_insts sy)\<rparr>)"

definition cl_step :: "cl_event \<Rightarrow> cl_system \<Rightarrow> cl_system" where
  "cl_step e sy =
     (case e of
        Create i w env opts \<Rightarrow> do_create i w env opts sy
      | Call i op \<Rightarrow> do_call i op sy
      | Resume i c u \<Rightarrow> do_resume i c u sy
      | InitTimer i \<Rightarrow> do_init_timer i sy
      | ReplyTimer i u \<Rightarrow> do_reply_timer i u sy
      | PrimaryRecv w \<Rightarrow> do_primary_recv w sy
      | PrimaryRun \<Rightarrow> do_primary_run sy
      | WorkerRecv w \<Rightarrow> do_worker_recv w sy
      | Tick n \<Rightarrow> sy\<lparr>sy_now := sy_now sy + int n\<rparr>
      | Noise w \<Rightarrow> send_up w OtherChannel (send_down w OtherChannel sy)
      | Destroy \<Rightarrow> sy\<lparr>sy_primary := tearDown (sy_primary sy)\<rparr>)"

definition cl_run :: "cl_event list \<Rightarrow> cl_system \<Rightarrow> cl_system" where
  "cl_run es sy = fold cl_step es sy"

lemma cl_run_simps [simp]:
  "cl_run [] sy = sy"
  "cl_run (e # es) sy = cl_run es (cl_step e sy)"
  "cl_run (es @ es') sy = cl_run es' (cl_run es sy)"
  by (simp_all add: cl_run_def)

end
