(* ===== verification/Cluster_Store_Properties.thy ===== *)
theory Cluster_Store_Properties
  imports Cluster_Store Memory_Store_Quota
begin

text \<open>
  What the cluster store promises, for every sequence of events of the system of \<open>Cluster_Store\<close>:
  every call is answered exactly once or still waiting (\<open>cs_tally\<close>), an answer a worker gets is the
  shared store's answer to that call (\<open>provenance\<close>), a pending call always has its request or its
  reply on the way (\<open>in_flight\<close>), and the primary's log is a run of one \<open>MemoryStore\<close> per prefix
  (\<open>log_ok\<close>), so that the quota theorems of that store bound what all workers together are granted.
\<close>

section \<open>One store object\<close>

lemma mset_delete_present:
  "jsmap_ok m \<Longrightarrow> map_of m k = Some v \<Longrightarrow> mset m = add_mset (k, v) (mset (AList.delete k m))"
proof (induction m)
  case (Cons p m)
  show ?case
  proof (cases "fst p = k")
    case True
    with Cons.prems have "map_of m k = None" "p = (k, v)"
      by (auto simp: jsmap_ok_def map_of_eq_None_iff)
    then show ?thesis by (simp add: delete_absent)
  next
    case False
    with Cons show ?thesis by (cases p) (auto simp: jsmap_ok_def)
  qed
qed simp

text \<open>The calls of an object: suspended, waiting for a reply, settled.\<close>

definition cs_tally :: "cluster_store \<Rightarrow> nat multiset" where
  "cs_tally s =
     image_mset fst (mset (cs_calls s)) + image_mset (pe_call \<circ> snd) (mset (cs_pending s)) +
     image_mset fst (mset (cs_settled s))"

text \<open>The invariant of an object: nothing is pending before \<open>_ready\<close> settles or after the listener
  is gone, and after \<open>shutdown\<close> started only its own request can be.\<close>

definition cs_inv :: "cluster_store \<Rightarrow> bool" where
  "cs_inv s \<longleftrightarrow>
     jsmap_ok (cs_pending s) \<and> jsmap_ok (cs_calls s) \<and>
     (cs_ready s = ReadyPending \<longrightarrow> cs_pending s = [] \<and> \<not> cs_shutDown s \<and> \<not> cs_listenerRemoved s) \<and>
     (cs_ready s \<noteq> ReadyPending \<and> cs_ready s \<noteq> ReadyOk \<longrightarrow> cs_listenerRemoved s) \<and>
     (cs_listenerRemoved s \<longrightarrow> cs_pending s = [] \<and> (cs_shutDown s \<or> cs_ready s \<noteq> ReadyOk)) \<and>
     (cs_shutDown s \<longrightarrow>
        length (cs_pending s) \<le> 1 \<and> (\<forall>p \<in> set (cs_pending s). pe_kind (snd p) = PendVoid ForShutdown)) \<and>
     (\<not> cs_shutDown s \<longrightarrow> (\<forall>p \<in> set (cs_pending s). pe_kind (snd p) \<noteq> PendVoid ForShutdown))"

lemma cs_settle_simps [simp]:
  "cs_keyPrefix (cs_settle c out s) = cs_keyPrefix s" "cs_worker (cs_settle c out s) = cs_worker s"
  "cs_timeoutMs (cs_settle c out s) = cs_timeoutMs s"
  "cs_pending (cs_settle c out s) = cs_pending s" "cs_ready (cs_settle c out s) = cs_ready s"
  "cs_shutDown (cs_settle c out s) = cs_shutDown s" "cs_calls (cs_settle c out s) = cs_calls s"
  "cs_listenerRemoved (cs_settle c out s) = cs_listenerRemoved s"
  "cs_settled (cs_settle c out s) = cs_settled s @ [(c, out)]"
  by (simp_all add: cs_settle_def)

lemma drop_pending_simps [simp]:
  "cs_keyPrefix (drop_pending u s) = cs_keyPrefix s" "cs_worker (drop_pending u s) = cs_worker s"
  "cs_timeoutMs (drop_pending u s) = cs_timeoutMs s"
  "cs_pending (drop_pending u s) = AList.delete u (cs_pending s)"
  "cs_ready (drop_pending u s) = cs_ready s"
  "cs_shutDown (drop_pending u s) = cs_shutDown s" "cs_calls (drop_pending u s) = cs_calls s"
  "cs_listenerRemoved (drop_pending u s) = cs_listenerRemoved s"
  "cs_settled (drop_pending u s) = cs_settled s"
  by (simp_all add: drop_pending_def)

lemma resolve_void_simps [simp]:
  "cs_keyPrefix (resolve_void pu c s) = cs_keyPrefix s" "cs_worker (resolve_void pu c s) = cs_worker s"
  "cs_pending (resolve_void pu c s) = cs_pending s" "cs_ready (resolve_void pu c s) = cs_ready s"
  "cs_shutDown (resolve_void pu c s) = cs_shutDown s" "cs_calls (resolve_void pu c s) = cs_calls s"
  "cs_listenerRemoved (resolve_void pu c s) = (pu = ForShutdown \<or> cs_listenerRemoved s)"
  "cs_settled (resolve_void pu c s) = cs_settled s @ [(c, Done)]"
  by (simp_all add: resolve_void_def)

lemma cs_tally_settle [simp]: "cs_tally (cs_settle c out s) = add_mset c (cs_tally s)"
  by (simp add: cs_tally_def)

lemma cs_tally_resolve [simp]: "cs_tally (resolve_void pu c s) = add_mset c (cs_tally s)"
  by (simp add: cs_tally_def)

lemma cs_tally_drop:
  assumes "jsmap_ok (cs_pending s)" "map_of (cs_pending s) u = Some pe"
  shows "add_mset (pe_call pe) (cs_tally (drop_pending u s)) = cs_tally s"
  using mset_delete_present [OF assms] by (simp add: cs_tally_def)

text \<open>A message, or the firing of a timer, settles calls and loses none.\<close>

lemma failInit_tally [simp]: "cs_tally (failInit e s) = cs_tally s"
  by (simp add: failInit_def cs_tally_def)

lemma settleInit_tally [simp]: "cs_tally (settleInit s) = cs_tally s"
  by (simp add: settleInit_def cs_tally_def)

lemma dispatchResult_tally:
  assumes "jsmap_ok (cs_pending s)" shows "cs_tally (dispatchResult u res s) = cs_tally s"
  using assms cs_tally_drop [of s u]
  by (auto simp: dispatchResult_def split: option.split pend_kind.split sum.split)

lemma dispatchAck_tally:
  assumes "jsmap_ok (cs_pending s)" shows "cs_tally (dispatchAck u s) = cs_tally s"
  using assms cs_tally_drop [of s u] by (auto simp: dispatchAck_def split: option.split pend_kind.split)

lemma hear_tally:
  assumes "cs_inv s" shows "cs_tally (hear w m s) = cs_tally s"
  using assms
  by (auto simp: hear_def handleIncomingMessage_def cs_inv_def dispatchResult_tally dispatchAck_tally
      split: ipc.split primary_msg.split)

lemma reply_timer_tally:
  assumes "cs_inv s" shows "cs_tally (reply_timer_fires u s) = cs_tally s"
  using assms cs_tally_drop [of s u] by (auto simp: reply_timer_fires_def cs_inv_def split: option.split)

lemma cs_call_tally: "cs_tally (cs_call c op s) = add_mset c (cs_tally s)"
  by (simp add: cs_call_def cs_tally_def)

lemma cs_tally_forget:
  assumes "jsmap_ok (cs_calls s)" "map_of (cs_calls s) c = Some op"
  shows "add_mset c (cs_tally (forget_call c s)) = cs_tally s"
  using mset_delete_present [OF assms] by (simp add: cs_tally_def forget_call_def)

lemma cs_tally_reject_all [simp]: "cs_tally (reject_all s) = cs_tally s"
  by (simp add: cs_tally_def reject_all_def image_mset.compositionality comp_def case_prod_unfold)

lemma cs_tally_shutDown [simp]: "cs_tally (s\<lparr>cs_shutDown := b\<rparr>) = cs_tally s"
  by (simp add: cs_tally_def)

lemma cs_tally_setPending:
  assumes "jsmap_ok (cs_pending s)"
  shows "cs_tally (setPending u pe s) = add_mset (pe_call pe) (cs_tally s)"
proof (cases "map_of (cs_pending s) u")
  case None
  then show ?thesis by (simp add: setPending_def cs_tally_def update_absent)
next
  case (Some prev)
  have up: "map_of (AList.update u pe (cs_pending s)) u = Some pe"
    "AList.delete u (AList.update u pe (cs_pending s)) = AList.delete u (cs_pending s)"
    by (simp_all add: delete_update_same)
  show ?thesis
    using mset_delete_present [OF assms Some] mset_delete_present [OF jsmap_ok_update [OF assms] up(1)]
    by (simp add: setPending_def cs_tally_def Some up(2))
qed

lemma cs_resume_tally:
  assumes inv: "cs_inv s" and op: "map_of (cs_calls s) c = Some op"
  shows "cs_tally (fst (cs_resume now c op u s)) = cs_tally s"
proof -
  have ok: "jsmap_ok (cs_calls s)" "jsmap_ok (cs_pending (forget_call c s))"
    "jsmap_ok (cs_pending (reject_all (forget_call c s\<lparr>cs_shutDown := True\<rparr>)))"
    using inv by (simp_all add: cs_inv_def forget_call_def reject_all_def)
  show ?thesis
    using cs_tally_forget [OF ok(1) op] ok(2,3)
    by (auto simp: cs_resume_def shutdown_body_def quota_body_def ask_def cs_tally_setPending Let_def
        split: ready.split)
qed

section \<open>The object's invariant\<close>

lemma failInit_inv: "cs_inv s \<Longrightarrow> cs_inv (failInit e s)"
  by (auto simp: failInit_def cs_inv_def)

lemma settleInit_inv: "cs_inv s \<Longrightarrow> cs_inv (settleInit s)"
  by (auto simp: settleInit_def cs_inv_def)

lemma cs_inv_drop:
  assumes "cs_inv s" shows "cs_inv (drop_pending u s)"
  using assms length_delete_le [of u "cs_pending s"]
  by (auto simp: cs_inv_def dest!: set_deleteD)

lemma cs_inv_settle [simp]: "cs_inv (cs_settle c out s) = cs_inv s"
  by (simp add: cs_inv_def)

lemma cs_inv_drop_void:
  assumes inv: "cs_inv s" and pe: "map_of (cs_pending s) u = Some pe" "pe_kind pe = PendVoid pu"
  shows "cs_inv (resolve_void pu c (drop_pending u s))"
proof (cases "pu = ForShutdown")
  case True
  have "cs_shutDown s" using inv pe True map_of_SomeD [OF pe(1)] by (fastforce simp: cs_inv_def)
  with inv have len: "length (cs_pending s) \<le> 1" by (simp add: cs_inv_def)
  have nil: "AList.delete u (cs_pending s) = []"
  proof (cases "cs_pending s")
    case (Cons p ps)
    with len pe show ?thesis by (cases p) (auto split: if_splits)
  qed simp
  have "cs_ready s \<noteq> ReadyPending" using inv \<open>cs_shutDown s\<close> by (auto simp: cs_inv_def)
  with inv nil True \<open>cs_shutDown s\<close> show ?thesis by (auto simp: cs_inv_def)
next
  case False
  with cs_inv_drop [OF inv, of u] show ?thesis by (simp add: resolve_void_def)
qed

lemma hear_inv:
  assumes "cs_inv s" shows "cs_inv (hear w m s)"
proof -
  have "cs_inv (dispatchResult u res s)" for u res
    using assms cs_inv_drop [OF assms, of u] cs_inv_drop_void [OF assms]
    by (auto simp: dispatchResult_def split: option.split pend_kind.split sum.split)
  moreover have "cs_inv (dispatchAck u s)" for u
    using assms cs_inv_drop_void [OF assms]
    by (auto simp: dispatchAck_def split: option.split pend_kind.split)
  ultimately show ?thesis
    using assms failInit_inv settleInit_inv
    by (auto simp: hear_def handleIncomingMessage_def split: ipc.split primary_msg.split)
qed

lemma reply_timer_inv:
  assumes "cs_inv s" shows "cs_inv (reply_timer_fires u s)"
  using assms cs_inv_drop [OF assms, of u] by (auto simp: reply_timer_fires_def split: option.split)

lemma cs_call_inv:
  assumes "cs_inv s" "map_of (cs_calls s) c = None" shows "cs_inv (cs_call c op s)"
proof -
  have "jsmap_ok (cs_calls s @ [(c, op)])"
    using assms by (auto simp: cs_inv_def jsmap_ok_def map_of_eq_None_iff)
  then show ?thesis using assms(1) by (auto simp: cs_call_def cs_inv_def)
qed

lemma setPending_simps [simp]:
  "cs_keyPrefix (setPending u pe s) = cs_keyPrefix s" "cs_worker (setPending u pe s) = cs_worker s"
  "cs_pending (setPending u pe s) = AList.update u pe (cs_pending s)"
  "cs_ready (setPending u pe s) = cs_ready s"
  "cs_shutDown (setPending u pe s) = cs_shutDown s" "cs_calls (setPending u pe s) = cs_calls s"
  "cs_listenerRemoved (setPending u pe s) = cs_listenerRemoved s"
  by (simp_all add: setPending_def Let_def split: option.split)

lemma forget_call_simps [simp]:
  "cs_keyPrefix (forget_call c s) = cs_keyPrefix s" "cs_worker (forget_call c s) = cs_worker s"
  "cs_pending (forget_call c s) = cs_pending s" "cs_ready (forget_call c s) = cs_ready s"
  "cs_shutDown (forget_call c s) = cs_shutDown s"
  "cs_listenerRemoved (forget_call c s) = cs_listenerRemoved s"
  "cs_settled (forget_call c s) = cs_settled s"
  "cs_calls (forget_call c s) = AList.delete c (cs_calls s)"
  by (simp_all add: forget_call_def)

lemma reject_all_simps [simp]:
  "cs_keyPrefix (reject_all s) = cs_keyPrefix s" "cs_worker (reject_all s) = cs_worker s"
  "cs_pending (reject_all s) = []" "cs_ready (reject_all s) = cs_ready s"
  "cs_shutDown (reject_all s) = cs_shutDown s" "cs_calls (reject_all s) = cs_calls s"
  "cs_listenerRemoved (reject_all s) = cs_listenerRemoved s"
  by (simp_all add: reject_all_def)

lemma kind_of_shutdown: "kind_of op = PendVoid ForShutdown \<longleftrightarrow> op = AskShutdown"
  by (cases op) (simp_all add: kind_of_def)

lemma cs_resume_inv:
  assumes inv: "cs_inv s" and ready: "cs_ready s \<noteq> ReadyPending"
  shows "cs_inv (fst (cs_resume now c op u s))"
proof -
  have f: "cs_inv (forget_call c s)" using inv by (auto simp: cs_inv_def)
  have quota: "cs_inv (setPending u \<lparr>pe_kind = kind_of op, pe_call = c, pe_deadline = d\<rparr> (forget_call c s))"
    if "op \<noteq> AskShutdown" "cs_ready s = ReadyOk" "\<not> cs_shutDown s" "\<not> cs_listenerRemoved s" for d
    using f that by (auto simp: cs_inv_def kind_of_shutdown dest!: set_updateD)
  have shut: "cs_inv (setPending u \<lparr>pe_kind = kind_of AskShutdown, pe_call = c, pe_deadline = d\<rparr>
      (reject_all (forget_call c s\<lparr>cs_shutDown := True\<rparr>)))" if "\<not> cs_listenerRemoved s" for d
    using f that ready by (auto simp: cs_inv_def kind_of_def jsmap_ok_def)
  have not_removed: "cs_ready s = ReadyOk \<Longrightarrow> \<not> cs_shutDown s \<Longrightarrow> \<not> cs_listenerRemoved s"
    using inv by (auto simp: cs_inv_def)
  show ?thesis
    using f quota shut ready inv not_removed
    by (auto simp: cs_resume_def shutdown_body_def quota_body_def ask_def Let_def split: ready.split)
qed

section \<open>Steps of the system, seen by one object\<close>

text \<open>What one event does to an object that exists before it.\<close>

inductive inst_move :: "cl_system \<Rightarrow> cl_event \<Rightarrow> nat \<Rightarrow> cluster_store \<Rightarrow> cluster_store \<Rightarrow> bool"
  for sy e i s where
  stay: "\<forall>op. e \<noteq> Call i op \<Longrightarrow> inst_move sy e i s s"
| heard: "e = WorkerRecv w \<Longrightarrow> sy_down sy w = m # ms \<Longrightarrow> inst_move sy e i s (hear w m s)"
| init_timer: "e = InitTimer i \<Longrightarrow> inst_move sy e i s (init_timer_fires s)"
| reply_timer: "e = ReplyTimer i u \<Longrightarrow> inst_move sy e i s (reply_timer_fires u s)"
| called: "e = Call i op \<Longrightarrow> inst_move sy e i s (cs_call (sy_next sy) op s)"
| resumed: "e = Resume i c u \<Longrightarrow> cs_ready s \<noteq> ReadyPending \<Longrightarrow> map_of (cs_calls s) c = Some op \<Longrightarrow>
    inst_move sy e i s (fst (cs_resume (sy_now sy) c op u s))"

inductive_cases inst_moveE: "inst_move sy e i s s'"

lemma put_inst_simps [simp]:
  "sy_insts (put_inst i s sy) = AList.update i s (sy_insts sy)"
  "sy_now (put_inst i s sy) = sy_now sy" "sy_primary (put_inst i s sy) = sy_primary sy"
  "sy_up (put_inst i s sy) = sy_up sy" "sy_down (put_inst i s sy) = sy_down sy"
  "sy_next (put_inst i s sy) = sy_next sy" "sy_issued (put_inst i s sy) = sy_issued sy"
  "sy_sent (put_inst i s sy) = sy_sent sy" "sy_log (put_inst i s sy) = sy_log sy"
  by (simp_all add: put_inst_def)

lemma send_up_simps [simp]:
  "sy_insts (send_up w m sy) = sy_insts sy" "sy_now (send_up w m sy) = sy_now sy"
  "sy_primary (send_up w m sy) = sy_primary sy" "sy_down (send_up w m sy) = sy_down sy"
  "sy_up (send_up w m sy) = (sy_up sy)(w := sy_up sy w @ [m])"
  "sy_next (send_up w m sy) = sy_next sy" "sy_issued (send_up w m sy) = sy_issued sy"
  "sy_sent (send_up w m sy) = sy_sent sy" "sy_log (send_up w m sy) = sy_log sy"
  by (simp_all add: send_up_def)

lemma send_down_simps [simp]:
  "sy_insts (send_down w m sy) = sy_insts sy" "sy_now (send_down w m sy) = sy_now sy"
  "sy_primary (send_down w m sy) = sy_primary sy" "sy_up (send_down w m sy) = sy_up sy"
  "sy_down (send_down w m sy) = (sy_down sy)(w := sy_down sy w @ [m])"
  "sy_next (send_down w m sy) = sy_next sy" "sy_issued (send_down w m sy) = sy_issued sy"
  "sy_sent (send_down w m sy) = sy_sent sy" "sy_log (send_down w m sy) = sy_log sy"
  by (simp_all add: send_down_def)

lemma sy_insts_primary_run [simp]: "sy_insts (do_primary_run sy) = sy_insts sy"
  by (simp add: do_primary_run_def Let_def split: list.split prod.split option.split)

lemma sy_insts_primary_recv [simp]: "sy_insts (do_primary_recv w sy) = sy_insts sy"
  by (simp add: do_primary_recv_def split: list.split)

lemma map_of_map_val: "map_of (map (\<lambda>(i, s). (i, f s)) m) i = map_option f (map_of m i)"
  by (induction m) auto

lemma step_moves:
  assumes "map_of (sy_insts sy) i = Some s"
  obtains s' where "map_of (sy_insts (cl_step e sy)) i = Some s'" "inst_move sy e i s s'"
proof -
  have "\<exists>s'. map_of (sy_insts (cl_step e sy)) i = Some s' \<and> inst_move sy e i s s'"
  proof (cases e)
    case (Create j w env opts)
    then have "map_of (sy_insts (cl_step e sy)) i = Some s"
      using assms by (auto simp: cl_step_def do_create_def jsmap_has_def split: sum.split)
    with Create stay [of e i sy s] show ?thesis by simp
  next
    case (Call j op)
    show ?thesis
    proof (cases "j = i")
      case True
      with Call called [of e i op sy s] assms show ?thesis by (simp add: cl_step_def do_call_def)
    next
      case False
      with Call assms stay [of e i sy s] show ?thesis
        by (auto simp: cl_step_def do_call_def split: option.split)
    qed
  next
    case (Resume j c u)
    then have e: "\<forall>op. e \<noteq> Call i op" by simp
    show ?thesis
    proof (cases "j = i \<and> cs_ready s \<noteq> ReadyPending \<and> map_of (cs_calls s) c \<noteq> None")
      case True
      then obtain op where op: "map_of (cs_calls s) c = Some op" by blast
      have "map_of (sy_insts (cl_step e sy)) i = Some (fst (cs_resume (sy_now sy) c op u s))"
        using True op Resume assms by (auto simp: cl_step_def do_resume_def split: prod.split option.split)
      with resumed [of e i c u s op] True op Resume show ?thesis by blast
    next
      case False
      then have "map_of (sy_insts (cl_step e sy)) i = Some s"
        using assms Resume by (auto simp: cl_step_def do_resume_def split: prod.split option.split)
      with stay [OF e] show ?thesis by blast
    qed
  next
    case (InitTimer j)
    then show ?thesis using assms stay [of e i sy s] init_timer [of e i sy s]
      by (auto simp: cl_step_def do_init_timer_def split: option.split)
  next
    case (ReplyTimer j u)
    then show ?thesis using assms stay [of e i sy s] reply_timer [of e i u sy s]
      by (auto simp: cl_step_def do_reply_timer_def split: option.split)
  next
    case (WorkerRecv w)
    then show ?thesis using assms stay [of e i sy s] heard [of e w sy _ _ i s]
      by (cases "sy_down sy w") (auto simp: cl_step_def do_worker_recv_def map_of_map_val)
  qed (use assms stay [of e i sy s] in \<open>auto simp: cl_step_def\<close>)
  then show ?thesis using that by blast
qed

lemma step_creates:
  assumes "map_of (sy_insts (cl_step e sy)) i = Some s'" "map_of (sy_insts sy) i = None"
  obtains w env opts m where "e = Create i w env opts"
    "new_ClusterStore env (sy_now sy) w opts = Inr (s', m)"
proof (cases e)
  case (Create j w env opts)
  with assms that show ?thesis
    by (auto simp: cl_step_def do_create_def split: if_splits sum.splits prod.splits)
qed (use assms in \<open>auto simp: cl_step_def do_call_def do_resume_def do_init_timer_def do_reply_timer_def
      do_worker_recv_def map_of_map_val split: option.splits list.splits if_splits prod.splits\<close>)

lemma step_insts:
  assumes "map_of (sy_insts (cl_step e sy)) i = Some s'"
  obtains (old) s where "map_of (sy_insts sy) i = Some s" "inst_move sy e i s s'"
  | (new) w env opts m where "map_of (sy_insts sy) i = None" "e = Create i w env opts"
      "new_ClusterStore env (sy_now sy) w opts = Inr (s', m)"
proof (cases "map_of (sy_insts sy) i")
  case None
  with step_creates [OF assms None] new show ?thesis by metis
next
  case (Some s)
  obtain s'' where "map_of (sy_insts (cl_step e sy)) i = Some s''" "inst_move sy e i s s''"
    using step_moves [OF Some] by blast
  with assms old [OF Some] show ?thesis by simp
qed

lemma new_ClusterStore_simps:
  assumes "new_ClusterStore env now w opts = Inr (s, m)"
  shows "cs_pending s = [] \<and> cs_calls s = [] \<and> cs_settled s = [] \<and> cs_ready s = ReadyPending \<and>
    \<not> cs_shutDown s \<and> \<not> cs_listenerRemoved s \<and> cs_worker s = w \<and> cs_initTimer s = Some (timer_at now 100) \<and>
    m = WInit (cs_keyPrefix s) (toStoreOptions opts) (js_int 1)"
  using assms
  by (auto simp: new_ClusterStore_def INIT_TIMEOUT_MS_def CLUSTER_IPC_PROTOCOL_VERSION_def
      split: if_splits option.splits)

lemma cs_inv_new: "new_ClusterStore env now w opts = Inr (s, m) \<Longrightarrow> cs_inv s"
  by (drule new_ClusterStore_simps) (simp add: cs_inv_def)

text \<open>An object never changes its process or its prefix.\<close>

lemma hear_owner: "cs_worker (hear w m s) = cs_worker s \<and> cs_keyPrefix (hear w m s) = cs_keyPrefix s"
  by (auto simp: hear_def handleIncomingMessage_def dispatchResult_def dispatchAck_def failInit_def
      settleInit_def split: ipc.split primary_msg.split option.split pend_kind.split sum.split)

lemma cs_resume_owner:
  "cs_worker (fst (cs_resume now c op u s)) = cs_worker s \<and>
   cs_keyPrefix (fst (cs_resume now c op u s)) = cs_keyPrefix s"
  by (auto simp: cs_resume_def shutdown_body_def quota_body_def ask_def Let_def split: ready.split)

lemma inst_move_owner:
  "inst_move sy e i s s' \<Longrightarrow> cs_worker s' = cs_worker s \<and> cs_keyPrefix s' = cs_keyPrefix s"
proof (induction rule: inst_move.induct)
  case (heard w m ms)
  show ?case by (rule hear_owner)
next
  case (resumed c u op)
  show ?case by (rule cs_resume_owner)
qed (auto simp: init_timer_fires_def failInit_def reply_timer_fires_def cs_call_def split: option.split)

section \<open>Every call is accounted for\<close>

definition calls_to :: "nat \<Rightarrow> (nat \<times> nat \<times> cs_op) list \<Rightarrow> nat multiset" where
  "calls_to i xs = mset (map fst (filter (\<lambda>(c, j, op). j = i) xs))"

lemma calls_to_simps [simp]:
  "calls_to i [] = {#}"
  "calls_to i (xs @ [(c, j, op)]) = (if j = i then add_mset c (calls_to i xs) else calls_to i xs)"
  by (simp_all add: calls_to_def)

definition sy_issued_ok :: "cl_system \<Rightarrow> bool" where
  "sy_issued_ok sy \<longleftrightarrow>
     map fst (sy_issued sy) = [0..<sy_next sy] \<and>
     (\<forall>i. map_of (sy_insts sy) i = None \<longrightarrow> calls_to i (sy_issued sy) = {#}) \<and>
     (\<forall>i s. map_of (sy_insts sy) i = Some s \<longrightarrow> cs_inv s \<and> cs_tally s = calls_to i (sy_issued sy))"

lemma calls_to_less: "map fst xs = [0..<n] \<Longrightarrow> c \<in># calls_to i xs \<Longrightarrow> c < n"
proof -
  assume ids: "map fst xs = [0..<n]" and c: "c \<in># calls_to i xs"
  from c have "c \<in> set (map fst xs)" by (force simp: calls_to_def)
  then show "c < n" unfolding ids by simp
qed

lemma issued_step:
  "sy_issued (cl_step e sy) =
     (case e of
        Call i op \<Rightarrow> if map_of (sy_insts sy) i = None then sy_issued sy else sy_issued sy @ [(sy_next sy, i, op)]
      | _ \<Rightarrow> sy_issued sy)"
  "sy_next (cl_step e sy) =
     (case e of
        Call i op \<Rightarrow> if map_of (sy_insts sy) i = None then sy_next sy else Suc (sy_next sy)
      | _ \<Rightarrow> sy_next sy)"
  by (auto simp: cl_step_def do_create_def do_call_def do_resume_def do_init_timer_def do_reply_timer_def
      do_primary_recv_def do_primary_run_def do_worker_recv_def put_inst_def send_up_def send_down_def Let_def
      split: cl_event.split option.split sum.split prod.split list.split)

lemma insts_step_None:
  "map_of (sy_insts (cl_step e sy)) i = None \<Longrightarrow> map_of (sy_insts sy) i = None"
  by (cases "map_of (sy_insts sy) i") (auto elim: step_moves [of sy i _ e])

lemma inst_move_tally:
  assumes "inst_move sy e i s s'" "cs_inv s" "\<forall>c \<in># cs_tally s. c < sy_next sy"
  shows "cs_inv s' \<and> cs_tally s' =
    (case e of Call j op \<Rightarrow> if j = i then add_mset (sy_next sy) (cs_tally s) else cs_tally s
     | _ \<Rightarrow> cs_tally s)"
  using assms
proof (induction rule: inst_move.induct)
  case (init_timer)
  then show ?case by (simp add: init_timer_fires_def failInit_inv)
next
  case (called op)
  have "map_of (cs_calls s) (sy_next sy) = None"
    using called by (force simp: cs_tally_def map_of_eq_None_iff)
  with called cs_call_inv show ?case by (simp add: cs_call_tally)
qed (auto simp: hear_tally hear_inv reply_timer_tally reply_timer_inv cs_resume_tally cs_resume_inv
    split: cl_event.split)

lemma calls_to_all_less:
  "map fst xs = [0..<n] \<Longrightarrow> \<forall>c \<in># calls_to i xs. c < n"
  by (auto dest: calls_to_less)

lemma sy_issued_ok_step:
  assumes ok: "sy_issued_ok sy" shows "sy_issued_ok (cl_step e sy)"
proof -
  have ids: "map fst (sy_issued sy) = [0..<sy_next sy]" using ok by (simp add: sy_issued_ok_def)
  have inv: "cs_inv s \<and> cs_tally s = calls_to i (sy_issued sy)" if "map_of (sy_insts sy) i = Some s" for i s
    using ok that by (simp add: sy_issued_ok_def)
  have none: "calls_to i (sy_issued sy) = {#}" if "map_of (sy_insts sy) i = None" for i
    using ok that by (simp add: sy_issued_ok_def)
  have "cs_inv s' \<and> cs_tally s' = calls_to i (sy_issued (cl_step e sy))"
    if "map_of (sy_insts (cl_step e sy)) i = Some s'" for i s'
    using that
  proof (cases rule: step_insts)
    case (old s)
    show ?thesis
      using inst_move_tally [OF old(2)] old(1) inv [OF old(1)] calls_to_all_less [OF ids, of i]
      by (auto simp: issued_step split: cl_event.split)
  next
    case (new w env opts m)
    with none [of i] show ?thesis
      by (auto simp: issued_step cs_inv_new cs_tally_def dest!: new_ClusterStore_simps)
  qed
  moreover have "calls_to i (sy_issued (cl_step e sy)) = {#}" if "map_of (sy_insts (cl_step e sy)) i = None" for i
    using none [OF insts_step_None [OF that]] that insts_step_None [OF that]
    by (auto simp: issued_step split: cl_event.split)
  moreover have "map fst (sy_issued (cl_step e sy)) = [0..<sy_next (cl_step e sy)]"
    using ids by (auto simp: issued_step split: cl_event.split)
  ultimately show ?thesis by (simp add: sy_issued_ok_def)
qed

lemma sy_issued_ok_run: "sy_issued_ok (cl_run es cl_start)"
proof (induction es rule: rev_induct)
  case Nil
  show ?case by (simp add: sy_issued_ok_def cl_start_def)
next
  case (snoc e es)
  then show ?case by (simp add: sy_issued_ok_step)
qed

section \<open>Answers come from the log\<close>

text \<open>The ids an event sequence draws.\<close>

definition fresh_ids :: "cl_event list \<Rightarrow> string list" where
  "fresh_ids es = concat (map (\<lambda>e. case e of Resume i c u \<Rightarrow> [u] | _ \<Rightarrow> []) es)"

lemma fresh_ids_simps [simp]:
  "fresh_ids [] = []"
  "fresh_ids (es @ es') = fresh_ids es @ fresh_ids es'"
  "fresh_ids [e] = (case e of Resume i c u \<Rightarrow> [u] | _ \<Rightarrow> [])"
  by (simp_all add: fresh_ids_def)

definition owner :: "cl_system \<Rightarrow> nat \<Rightarrow> (nat \<times> string) option" where
  "owner sy i = map_option (\<lambda>s. (cs_worker s, cs_keyPrefix s)) (map_of (sy_insts sy) i)"

lemma owner_step: "owner sy i = Some x \<Longrightarrow> owner (cl_step e sy) i = Some x"
  by (auto simp: owner_def elim!: step_moves [of sy i _ e] dest!: inst_move_owner)

text \<open>The replies a handler can give to a message.\<close>

definition reply_to :: "worker_msg \<Rightarrow> primary_msg \<Rightarrow> bool" where
  "reply_to m r \<longleftrightarrow> pm_prefix r = wm_prefix m \<and>
     (case m of
        WInit _ _ _ \<Rightarrow> (\<exists>v. r = PInitAck (wm_prefix m) v) \<or> (\<exists>e v. r = PInitNack (wm_prefix m) e v)
      | WIncrement u _ _ _ \<Rightarrow>
          (\<exists>x. r = PResultOk u (wm_prefix m) x) \<or> (\<exists>e. r = PResultErr u (wm_prefix m) e)
      | _ \<Rightarrow> r = PAck (wm_id m) (wm_prefix m) \<or> (\<exists>e. r = PResultErr (wm_id m) (wm_prefix m) e))"

lemma dispatch_reply_to:
  assumes "dispatchWorkerMessage now m p = (Some r, p')" shows "reply_to m r"
  using assms
  by (auto simp: dispatchWorkerMessage_def reply_to_def handleInit_def handleIncrement_def
      handleDecrement_def handleReset_def handleShutdown_def void_reply_def Let_def
      split: worker_msg.splits sum.splits option.splits prod.splits if_splits)

lemma dispatch_replies:
  assumes "\<forall>pre opts v. m \<noteq> WInit pre opts v"
  obtains r p' where "dispatchWorkerMessage now m p = (Some r, p')"
  using assms
  by (cases m; simp add: dispatchWorkerMessage_def; fastforce split: prod.splits)

lemma dispatch_keeps_queue:
  assumes "dispatchWorkerMessage now m p = (r, p')"
  shows "cp_queue p' = cp_queue p \<and> cp_listening p' = cp_listening p"
  using assms
  by (auto simp: dispatchWorkerMessage_def handleInit_def handleIncrement_def cp_put_def
      handleDecrement_def handleReset_def handleShutdown_def Let_def
      split: worker_msg.splits sum.splits option.splits prod.splits if_splits)

text \<open>A request that some object really sent from worker \<open>w\<close>.\<close>

definition genuine :: "cl_system \<Rightarrow> nat \<Rightarrow> worker_msg \<Rightarrow> bool" where
  "genuine sy w m \<longleftrightarrow>
     (\<forall>pre opts v. m \<noteq> WInit pre opts v) \<longrightarrow>
     (\<exists>u i c op pre. (u, i, c, op) \<in> set (sy_sent sy) \<and> owner sy i = Some (w, pre) \<and> m = request_of u pre op)"

definition on_the_way :: "cl_system \<Rightarrow> nat \<Rightarrow> worker_msg \<Rightarrow> bool" where
  "on_the_way sy w m \<longleftrightarrow> FromWorker m \<in> set (sy_up sy w) \<or> (w, m) \<in> set (cp_queue (sy_primary sy))"

definition answered :: "cl_system \<Rightarrow> nat \<Rightarrow> nat \<Rightarrow> rl_result \<Rightarrow> bool" where
  "answered sy i c r \<longleftrightarrow>
     (\<exists>w pre t u k o'. owner sy i = Some (w, pre) \<and> (u, i, c, AskIncrement k o') \<in> set (sy_sent sy) \<and>
        (t, w, WIncrement u pre k (wire_inc o'), Some (PResultOk u pre r)) \<in> set (sy_log sy))"

definition provenance :: "cl_system \<Rightarrow> bool" where
  "provenance sy \<longleftrightarrow>
     distinct (map fst (sy_sent sy)) \<and>
     (\<forall>u i c op. (u, i, c, op) \<in> set (sy_sent sy) \<longrightarrow> (c, i, op) \<in> set (sy_issued sy)) \<and>
     (\<forall>i s c op. map_of (sy_insts sy) i = Some s \<longrightarrow> (c, op) \<in> set (cs_calls s) \<longrightarrow>
        (c, i, op) \<in> set (sy_issued sy)) \<and>
     (\<forall>i s u pe. map_of (sy_insts sy) i = Some s \<longrightarrow> map_of (cs_pending s) u = Some pe \<longrightarrow>
        (\<exists>op. (u, i, pe_call pe, op) \<in> set (sy_sent sy) \<and> pe_kind pe = kind_of op)) \<and>
     (\<forall>w m. on_the_way sy w m \<longrightarrow> genuine sy w m) \<and>
     (\<forall>t w m r. (t, w, m, r) \<in> set (sy_log sy) \<longrightarrow> genuine sy w m \<and> (\<forall>x. r = Some x \<longrightarrow> reply_to m x)) \<and>
     (\<forall>w r. FromPrimary r \<in> set (sy_down sy w) \<longrightarrow> (\<exists>t m. (t, w, m, Some r) \<in> set (sy_log sy))) \<and>
     (\<forall>i s c r. map_of (sy_insts sy) i = Some s \<longrightarrow> (c, Answer r) \<in> set (cs_settled s) \<longrightarrow>
        answered sy i c r)"

text \<open>The histories only grow.\<close>

lemma histories_grow:
  "set (sy_sent sy) \<subseteq> set (sy_sent (cl_step e sy))"
  "set (sy_issued sy) \<subseteq> set (sy_issued (cl_step e sy))"
  "set (sy_log sy) \<subseteq> set (sy_log (cl_step e sy))"
  by (auto simp: cl_step_def do_create_def do_call_def do_resume_def do_init_timer_def do_reply_timer_def
      do_primary_recv_def do_primary_run_def do_worker_recv_def Let_def
      split: cl_event.split option.split sum.split prod.split list.split)

lemma genuine_step: "genuine sy w m \<Longrightarrow> genuine (cl_step e sy) w m"
  unfolding genuine_def using histories_grow(1) [of sy e] owner_step [of sy _ _ e] by blast

lemma answered_step: "answered sy i c r \<Longrightarrow> answered (cl_step e sy) i c r"
  unfolding answered_def using histories_grow [of sy e] owner_step [of sy _ _ e] by blast

text \<open>What a step adds to each component.\<close>

lemma cs_resume_sends: "cs_resume now c op u s = (s', Some m) \<Longrightarrow> m = request_of u (cs_keyPrefix s) op"
  by (auto simp: cs_resume_def shutdown_body_def quota_body_def ask_def Let_def
      split: if_splits ready.splits)

lemma do_resume_cases:
  obtains (noop) "do_resume i c u sy = sy"
  | (silent) s op s' where "map_of (sy_insts sy) i = Some s" "map_of (cs_calls s) c = Some op"
      "cs_resume (sy_now sy) c op u s = (s', None)" "do_resume i c u sy = put_inst i s' sy"
  | (sends) s op s' m where "map_of (sy_insts sy) i = Some s" "map_of (cs_calls s) c = Some op"
      "cs_resume (sy_now sy) c op u s = (s', Some m)" "m = request_of u (cs_keyPrefix s) op"
      "do_resume i c u sy = send_up (cs_worker s) (FromWorker m)
         ((put_inst i s' sy)\<lparr>sy_sent := sy_sent sy @ [(u, i, c, op)]\<rparr>)"
proof (cases "map_of (sy_insts sy) i")
  case None
  with noop show ?thesis by (simp add: do_resume_def)
next
  case (Some s)
  show ?thesis
  proof (cases "cs_ready s = ReadyPending \<or> map_of (cs_calls s) c = None")
    case True
    with noop Some show ?thesis by (auto simp: do_resume_def)
  next
    case False
    then obtain op where op: "map_of (cs_calls s) c = Some op" by blast
    obtain s' res where res: "cs_resume (sy_now sy) c op u s = (s', res)" by fastforce
    show ?thesis
    proof (cases res)
      case None
      with silent [OF Some op] False op res Some show ?thesis by (simp add: do_resume_def)
    next
      case (Some m)
      have "m = request_of u (cs_keyPrefix s) op" using res Some cs_resume_sends [of "sy_now sy" c op u s s' m] by simp
      with sends [OF \<open>map_of (sy_insts sy) i = Some s\<close> op] False op res Some \<open>map_of (sy_insts sy) i = Some s\<close>
      show ?thesis by (simp add: do_resume_def)
    qed
  qed
qed

lemma step_sent:
  obtains (same) "sy_sent (cl_step e sy) = sy_sent sy"
  | (more) i c u s op where "e = Resume i c u" "map_of (sy_insts sy) i = Some s"
      "map_of (cs_calls s) c = Some op" "sy_sent (cl_step e sy) = sy_sent sy @ [(u, i, c, op)]"
proof (cases e)
  case (Resume i c u)
  then have "cl_step e sy = do_resume i c u sy" by (simp add: cl_step_def)
  with same more [OF Resume] show ?thesis by (cases rule: do_resume_cases [of i c u sy]) simp_all
qed (use same in \<open>auto simp: cl_step_def do_create_def do_call_def do_init_timer_def do_reply_timer_def
      do_primary_recv_def do_primary_run_def do_worker_recv_def Let_def
      split: option.splits sum.splits prod.splits list.splits\<close>)

lemma step_log:
  obtains (same) "sy_log (cl_step e sy) = sy_log sy" 
  | (more) w m r p' where "on_the_way sy w m" "e = PrimaryRun"
      "dispatchWorkerMessage (sy_now sy) m ((sy_primary sy)\<lparr>cp_queue := tl (cp_queue (sy_primary sy))\<rparr>) = (r, p')"
      "sy_log (cl_step e sy) = sy_log sy @ [(sy_now sy, w, m, r)]"
proof (cases e)
  case PrimaryRun
  show ?thesis
  proof (cases "cp_queue (sy_primary sy)")
    case Nil
    then show ?thesis using same PrimaryRun by (simp add: cl_step_def do_primary_run_def)
  next
    case (Cons x q)
    obtain w m where x: "x = (w, m)" by fastforce
    obtain r p' where d: "dispatchWorkerMessage (sy_now sy) m ((sy_primary sy)\<lparr>cp_queue := q\<rparr>) = (r, p')"
      by fastforce
    show ?thesis
      by (rule more [of w m r p']) (use Cons x d PrimaryRun in
          \<open>auto simp: on_the_way_def cl_step_def do_primary_run_def Let_def split: option.split\<close>)
  qed
qed (use same in \<open>auto simp: cl_step_def do_create_def do_call_def do_init_timer_def do_reply_timer_def
      do_primary_recv_def do_resume_def do_worker_recv_def Let_def
      split: option.splits sum.splits prod.splits list.splits\<close>)

lemma step_on_the_way:
  assumes "on_the_way (cl_step e sy) w m"
  obtains (old) "on_the_way sy w m" | (init) pre opts v where "m = WInit pre opts v"
  | (asked) i c u s op where "e = Resume i c u" "map_of (sy_insts sy) i = Some s" "cs_worker s = w"
      "map_of (cs_calls s) c = Some op" "m = request_of u (cs_keyPrefix s) op"
      "(u, i, c, op) \<in> set (sy_sent (cl_step e sy))"
proof (cases e)
  case (Create i w' env opts)
  then show ?thesis using assms old init
    by (auto simp: cl_step_def do_create_def on_the_way_def split: if_splits sum.splits prod.splits
        dest!: new_ClusterStore_simps)
next
  case (Resume i c u)
  then have step: "cl_step e sy = do_resume i c u sy" by (simp add: cl_step_def)
  show ?thesis
  proof (cases rule: do_resume_cases [of i c u sy])
    case (sends s op s' x)
    show ?thesis
    proof (cases "on_the_way sy w m")
      case False
      then have "cs_worker s = w" "m = x"
        using assms sends(5) by (auto simp: step on_the_way_def split: if_splits)
      with asked [OF Resume sends(1)] sends show ?thesis by (simp add: step)
    qed (rule old)
  qed (use assms old in \<open>auto simp: step on_the_way_def\<close>)
next
  case (PrimaryRecv w')
  then show ?thesis using assms old
    by (auto simp: cl_step_def do_primary_recv_def on_the_way_def handleMessage_def
        isClusterWorkerInboundMessage_def split: list.splits if_splits option.splits ipc.splits)
next
  case PrimaryRun
  then show ?thesis using assms old
    by (auto dest!: dispatch_keeps_queue simp: cl_step_def do_primary_run_def on_the_way_def Let_def
        split: list.splits option.splits prod.splits)
qed (use assms old in \<open>auto simp: cl_step_def do_call_def do_init_timer_def do_reply_timer_def on_the_way_def
      do_worker_recv_def tearDown_def split: option.splits list.splits if_splits\<close>)

lemma step_down:
  assumes "FromPrimary r \<in> set (sy_down (cl_step e sy) w)"
  obtains (old) "FromPrimary r \<in> set (sy_down sy w)"
  | (new) t m where "(t, w, m, Some r) \<in> set (sy_log (cl_step e sy))"
proof (cases e)
  case PrimaryRun
  then show ?thesis using assms old new
    by (auto simp: cl_step_def do_primary_run_def Let_def split: list.splits option.splits prod.splits if_splits)
next
  case (WorkerRecv w')
  then show ?thesis using assms old
    by (auto simp: cl_step_def do_worker_recv_def split: list.splits if_splits)
qed (use assms old in \<open>auto simp: cl_step_def do_create_def do_call_def do_resume_def do_init_timer_def
      do_reply_timer_def do_primary_recv_def split: option.splits sum.splits prod.splits list.splits if_splits\<close>)

text \<open>What a move adds to the pending map, the suspended calls and the answers of an object.\<close>

lemma map_of_deleteD: "map_of (AList.delete k m) k' = Some v \<Longrightarrow> map_of m k' = Some v"
  by (simp add: map_of_delete_if split: if_splits)

lemma dispatchResult_effect:
  "map_of (cs_pending (dispatchResult u res s)) u' = Some pe \<Longrightarrow> map_of (cs_pending s) u' = Some pe"
  "cs_calls (dispatchResult u res s) = cs_calls s"
  "(c, Answer r) \<in> set (cs_settled (dispatchResult u res s)) \<Longrightarrow>
     (c, Answer r) \<in> set (cs_settled s) \<or> (res = Inr r \<and> (\<exists>pe. map_of (cs_pending s) u = Some pe \<and> c = pe_call pe))"
  by (auto simp: dispatchResult_def split: option.splits pend_kind.splits sum.splits if_splits
      dest: map_of_deleteD)

lemma dispatchAck_effect:
  "map_of (cs_pending (dispatchAck u s)) u' = Some pe \<Longrightarrow> map_of (cs_pending s) u' = Some pe"
  "cs_calls (dispatchAck u s) = cs_calls s"
  "(c, Answer r) \<in> set (cs_settled (dispatchAck u s)) \<Longrightarrow> (c, Answer r) \<in> set (cs_settled s)"
  by (auto simp: dispatchAck_def split: option.splits pend_kind.splits dest: map_of_deleteD)

lemma init_effect [simp]:
  "cs_pending (failInit e s) = cs_pending s" "cs_calls (failInit e s) = cs_calls s"
  "cs_settled (failInit e s) = cs_settled s"
  "cs_pending (settleInit s) = cs_pending s" "cs_calls (settleInit s) = cs_calls s"
  "cs_settled (settleInit s) = cs_settled s"
  by (simp_all add: failInit_def settleInit_def)

lemma hear_effect:
  "map_of (cs_pending (hear w m s)) u = Some pe \<Longrightarrow> map_of (cs_pending s) u = Some pe"
  "cs_calls (hear w m s) = cs_calls s"
  "(c, Answer r) \<in> set (cs_settled (hear w m s)) \<Longrightarrow>
     (c, Answer r) \<in> set (cs_settled s) \<or>
     (cs_worker s = w \<and> (\<exists>u pe. m = FromPrimary (PResultOk u (cs_keyPrefix s) r) \<and>
        map_of (cs_pending s) u = Some pe \<and> c = pe_call pe))"
  by (auto simp: hear_def handleIncomingMessage_def split: if_splits ipc.splits primary_msg.splits
      dest: dispatchResult_effect(1,3) dispatchAck_effect(1,3) simp: dispatchResult_effect(2) dispatchAck_effect(2))

lemma reply_timer_effect:
  "map_of (cs_pending (reply_timer_fires u s)) u' = Some pe \<Longrightarrow> map_of (cs_pending s) u' = Some pe"
  "cs_calls (reply_timer_fires u s) = cs_calls s"
  "(c, Answer r) \<in> set (cs_settled (reply_timer_fires u s)) \<Longrightarrow> (c, Answer r) \<in> set (cs_settled s)"
  by (auto simp: reply_timer_fires_def split: option.splits dest: map_of_deleteD)

lemma setPending_answers:
  "(c, Answer r) \<in> set (cs_settled (setPending u pe s)) \<longleftrightarrow> (c, Answer r) \<in> set (cs_settled s)"
  by (auto simp: setPending_def Let_def split: option.split)

lemma reject_all_answers:
  "(c, Answer r) \<in> set (cs_settled (reject_all s)) \<longleftrightarrow> (c, Answer r) \<in> set (cs_settled s)"
  by (auto simp: reject_all_def)

lemma cs_resume_effect:
  assumes "cs_resume now c op u s = (s', res)"
  shows "map_of (cs_pending s') u' = Some pe \<Longrightarrow>
      map_of (cs_pending s) u' = Some pe \<or> (u' = u \<and> pe_kind pe = kind_of op \<and> pe_call pe = c \<and> res \<noteq> None)"
    and "set (cs_calls s') \<subseteq> set (cs_calls s)"
    and "(c', Answer r) \<in> set (cs_settled s') \<Longrightarrow> (c', Answer r) \<in> set (cs_settled s)"
  using assms
  by (auto simp: cs_resume_def shutdown_body_def quota_body_def ask_def Let_def setPending_answers
      reject_all_answers split: if_splits ready.splits dest: set_deleteD)

text \<open>The same over one step of the system.\<close>

lemma move_resumed:
  assumes "inst_move sy e i s s'" "map_of (sy_insts sy) i = Some s"
  obtains (plain) "\<And>u pe. map_of (cs_pending s') u = Some pe \<Longrightarrow> map_of (cs_pending s) u = Some pe"
  | (resume) c u op res where "e = Resume i c u" "map_of (cs_calls s) c = Some op"
      "cs_resume (sy_now sy) c op u s = (s', res)"
      "res \<noteq> None \<Longrightarrow> (u, i, c, op) \<in> set (sy_sent (cl_step e sy))"
  using assms(1)
proof (cases rule: inst_move.cases)
  case (resumed c u op)
  obtain res where res: "cs_resume (sy_now sy) c op u s = (s', res)"
    using resumed(1) by (metis prod.collapse)
  have "(u, i, c, op) \<in> set (sy_sent (cl_step e sy))" if "res \<noteq> None"
    using that assms(2) resumed res by (auto simp: cl_step_def do_resume_def)
  with resume [OF resumed(2) resumed(4) res] show ?thesis by blast
qed (rule plain;
    auto simp: init_timer_fires_def cs_call_def split: if_splits dest: hear_effect(1) reply_timer_effect(1))+

lemma pending_step:
  assumes "map_of (sy_insts (cl_step e sy)) i = Some s'" "map_of (cs_pending s') u = Some pe"
  obtains (old) s where "map_of (sy_insts sy) i = Some s" "map_of (cs_pending s) u = Some pe"
  | (new) op where "(u, i, pe_call pe, op) \<in> set (sy_sent (cl_step e sy))" "pe_kind pe = kind_of op"
  using assms(1)
proof (cases rule: step_insts)
  case (old s)
  show ?thesis using old(2,1)
  proof (cases rule: move_resumed)
    case plain
    with old(1) assms(2) that(1) show ?thesis by blast
  next
    case (resume c u' op res)
    from cs_resume_effect(1) [OF resume(3) assms(2)] show ?thesis
      using resume(4) old(1) that by blast
  qed
next
  case (new w env opts m)
  with assms(2) show ?thesis by (auto dest!: new_ClusterStore_simps)
qed

lemma calls_step:
  assumes "map_of (sy_insts (cl_step e sy)) i = Some s'" "(c, op) \<in> set (cs_calls s')"
  obtains (old) s where "map_of (sy_insts sy) i = Some s" "(c, op) \<in> set (cs_calls s)"
  | (new) "(c, i, op) \<in> set (sy_issued (cl_step e sy))"
  using assms(1)
proof (cases rule: step_insts)
  case (old s)
  show ?thesis using old(2)
  proof (cases rule: inst_move.cases)
    case (called op')
    with assms(2) old(1) that show ?thesis by (auto simp: cs_call_def issued_step split: if_splits)
  next
    case (resumed c' u op')
    obtain res where "cs_resume (sy_now sy) c' op' u s = (s', res)"
      using resumed(1) by (metis prod.collapse)
    from cs_resume_effect(2) [OF this] assms(2) old(1) that(1) show ?thesis by blast
  qed (use assms(2) old(1) that(1) in
      \<open>auto simp: init_timer_fires_def hear_effect(2) reply_timer_effect(2)\<close>)
next
  case (new w env opts m)
  with assms(2) show ?thesis by (auto dest!: new_ClusterStore_simps)
qed

lemma answers_step:
  assumes "map_of (sy_insts (cl_step e sy)) i = Some s'" "(c, Answer r) \<in> set (cs_settled s')"
  obtains (old) s where "map_of (sy_insts sy) i = Some s" "(c, Answer r) \<in> set (cs_settled s)"
  | (new) s u pe where "map_of (sy_insts sy) i = Some s"
      "FromPrimary (PResultOk u (cs_keyPrefix s) r) \<in> set (sy_down sy (cs_worker s))"
      "map_of (cs_pending s) u = Some pe" "c = pe_call pe"
  using assms(1)
proof (cases rule: step_insts)
  case (old s)
  show ?thesis using old(2)
  proof (cases rule: inst_move.cases)
    case (heard w m ms)
    from hear_effect(3) [of c r w m s] assms(2) heard(1)
    consider "(c, Answer r) \<in> set (cs_settled s)"
      | u pe where "cs_worker s = w" "m = FromPrimary (PResultOk u (cs_keyPrefix s) r)"
          "map_of (cs_pending s) u = Some pe" "c = pe_call pe" by auto
    then show ?thesis
    proof cases
      case 2
      then show ?thesis using that(2) [OF old(1) _ 2(3,4)] heard(3) by simp
    qed (use that(1) old(1) in blast)
  next
    case (resumed c' u op')
    obtain res where "cs_resume (sy_now sy) c' op' u s = (s', res)"
      using resumed(1) by (metis prod.collapse)
    from cs_resume_effect(3) [OF this] assms(2) old(1) that(1) show ?thesis by blast
  qed (use assms(2) old(1) that(1) in
      \<open>auto simp: init_timer_fires_def cs_call_def split: if_splits dest: reply_timer_effect(3)\<close>)
next
  case (new w env opts m)
  with assms(2) show ?thesis by (auto dest!: new_ClusterStore_simps)
qed

lemma provenance_parts:
  assumes "provenance sy"
  shows prov_distinct: "distinct (map fst (sy_sent sy))"
    and prov_sent: "\<And>u i c op. (u, i, c, op) \<in> set (sy_sent sy) \<Longrightarrow> (c, i, op) \<in> set (sy_issued sy)"
    and prov_calls: "\<And>i s c op. map_of (sy_insts sy) i = Some s \<Longrightarrow> (c, op) \<in> set (cs_calls s) \<Longrightarrow>
      (c, i, op) \<in> set (sy_issued sy)"
    and prov_pending: "\<And>i s u pe. map_of (sy_insts sy) i = Some s \<Longrightarrow> map_of (cs_pending s) u = Some pe \<Longrightarrow>
      \<exists>op. (u, i, pe_call pe, op) \<in> set (sy_sent sy) \<and> pe_kind pe = kind_of op"
    and prov_way: "\<And>w m. on_the_way sy w m \<Longrightarrow> genuine sy w m"
    and prov_log: "\<And>t w m r. (t, w, m, r) \<in> set (sy_log sy) \<Longrightarrow>
      genuine sy w m \<and> (\<forall>x. r = Some x \<longrightarrow> reply_to m x)"
    and prov_down: "\<And>w r. FromPrimary r \<in> set (sy_down sy w) \<Longrightarrow> \<exists>t m. (t, w, m, Some r) \<in> set (sy_log sy)"
    and prov_answers: "\<And>i s c r. map_of (sy_insts sy) i = Some s \<Longrightarrow> (c, Answer r) \<in> set (cs_settled s) \<Longrightarrow>
      answered sy i c r"
  using assms by (simp_all add: provenance_def)

lemma provenanceI:
  assumes "distinct (map fst (sy_sent sy))"
    and "\<And>u i c op. (u, i, c, op) \<in> set (sy_sent sy) \<Longrightarrow> (c, i, op) \<in> set (sy_issued sy)"
    and "\<And>i s c op. map_of (sy_insts sy) i = Some s \<Longrightarrow> (c, op) \<in> set (cs_calls s) \<Longrightarrow>
      (c, i, op) \<in> set (sy_issued sy)"
    and "\<And>i s u pe. map_of (sy_insts sy) i = Some s \<Longrightarrow> map_of (cs_pending s) u = Some pe \<Longrightarrow>
      \<exists>op. (u, i, pe_call pe, op) \<in> set (sy_sent sy) \<and> pe_kind pe = kind_of op"
    and "\<And>w m. on_the_way sy w m \<Longrightarrow> genuine sy w m"
    and "\<And>t w m r. (t, w, m, r) \<in> set (sy_log sy) \<Longrightarrow>
      genuine sy w m \<and> (\<forall>x. r = Some x \<longrightarrow> reply_to m x)"
    and "\<And>w r. FromPrimary r \<in> set (sy_down sy w) \<Longrightarrow> \<exists>t m. (t, w, m, Some r) \<in> set (sy_log sy)"
    and "\<And>i s c r. map_of (sy_insts sy) i = Some s \<Longrightarrow> (c, Answer r) \<in> set (cs_settled s) \<Longrightarrow>
      answered sy i c r"
  shows "provenance sy"
  unfolding provenance_def using assms by (intro conjI allI impI) simp_all

lemma request_of_simps [simp]:
  "wm_prefix (request_of u pre op) = pre" "wm_id (request_of u pre op) = u"
  "request_of u pre op \<noteq> WInit pre' opts v" "WInit pre' opts v \<noteq> request_of u pre op"
  by (simp_all add: request_of_def split: cs_op.split)

lemma request_of_increment:
  "request_of u pre op = WIncrement u' pre' k x \<longleftrightarrow>
     u = u' \<and> pre = pre' \<and> (\<exists>o'. op = AskIncrement k o' \<and> x = wire_inc o')"
  by (auto simp: request_of_def split: cs_op.split)

lemma reply_to_ok: "reply_to m (PResultOk u pre r) \<Longrightarrow> \<exists>k x. m = WIncrement u pre k x"
  by (auto simp: reply_to_def split: worker_msg.splits)

lemma genuine_asked:
  assumes "(u, i, c, op) \<in> set (sy_sent sy)" "map_of (sy_insts sy) i = Some s"
  shows "genuine sy (cs_worker s) (request_of u (cs_keyPrefix s) op)"
  using assms unfolding genuine_def owner_def by fastforce

text \<open>The id on the answer leads back to the pending call: ids are unique among the requests.\<close>

lemma answered_intro:
  assumes prov: "provenance sy" and s: "map_of (sy_insts sy) i = Some s"
    and down: "FromPrimary (PResultOk u (cs_keyPrefix s) r) \<in> set (sy_down sy (cs_worker s))"
    and pe: "map_of (cs_pending s) u = Some pe"
  shows "answered sy i (pe_call pe) r"
proof -
  let ?w = "cs_worker s" and ?pre = "cs_keyPrefix s"
  obtain t m where log: "(t, ?w, m, Some (PResultOk u ?pre r)) \<in> set (sy_log sy)"
    using prov_down [OF prov down] by blast
  then have "reply_to m (PResultOk u ?pre r)" and gen: "genuine sy ?w m"
    using prov_log [OF prov log] by simp_all
  then obtain k x where m: "m = WIncrement u ?pre k x" by (blast dest: reply_to_ok)
  from gen obtain u' j c op pre where sent: "(u', j, c, op) \<in> set (sy_sent sy)"
    and req: "request_of u' pre op = WIncrement u ?pre k x"
    unfolding genuine_def m by auto
  then obtain o' where op: "u' = u" "pre = ?pre" "op = AskIncrement k o'" "x = wire_inc o'"
    by (auto simp: request_of_increment)
  obtain op' where "(u, i, pe_call pe, op') \<in> set (sy_sent sy)"
    using prov_pending [OF prov s pe] by blast
  moreover from this have "(j, c, op) = (i, pe_call pe, op')"
    using sent op(1) eq_key_imp_eq_value [OF prov_distinct [OF prov], of u] by blast
  ultimately have "(u, i, pe_call pe, AskIncrement k o') \<in> set (sy_sent sy)" using op(3) by simp
  then show ?thesis using log s unfolding answered_def owner_def m op(4) by force
qed

lemma provenance_step:
  assumes prov: "provenance sy" and fresh: "\<And>i c u. e = Resume i c u \<Longrightarrow> u \<notin> fst ` set (sy_sent sy)"
  shows "provenance (cl_step e sy)"
proof -
  let ?sy = "cl_step e sy"
  note grow = histories_grow [of sy e]
  have calls: "(c, i, op) \<in> set (sy_issued sy)"
    if "map_of (sy_insts sy) i = Some s" "(c, op) \<in> set (cs_calls s)" for i s c op
    by (rule prov_calls [OF prov that])
  have sent: "(c, i, op) \<in> set (sy_issued sy)" if "(u, i, c, op) \<in> set (sy_sent sy)" for u i c op
    by (rule prov_sent [OF prov that])
  have "distinct (map fst (sy_sent ?sy))"
  proof (cases rule: step_sent [of e sy])
    case (more i c u s op)
    with fresh [OF more(1)] prov_distinct [OF prov] show ?thesis by simp
  qed (simp add: prov_distinct [OF prov])
  moreover have "(c, i, op) \<in> set (sy_issued ?sy)" if u: "(u, i, c, op) \<in> set (sy_sent ?sy)" for u i c op
  proof (cases rule: step_sent [of e sy])
    case same
    with u sent [of u i c op] grow show ?thesis by auto
  next
    case (more i' c' u' s op')
    with u sent [of u i c op] calls [OF more(2) map_of_SomeD [OF more(3)]] grow show ?thesis by auto
  qed
  moreover have "(c, i, op) \<in> set (sy_issued ?sy)"
    if "map_of (sy_insts ?sy) i = Some s" "(c, op) \<in> set (cs_calls s)" for i s c op
    using that by (cases rule: calls_step) (use calls grow in blast)+
  moreover have "\<exists>op. (u, i, pe_call pe, op) \<in> set (sy_sent ?sy) \<and> pe_kind pe = kind_of op"
    if "map_of (sy_insts ?sy) i = Some s" "map_of (cs_pending s) u = Some pe" for i s u pe
    using that
  proof (cases rule: pending_step)
    case (old s')
    with prov_pending [OF prov old] grow(1) show ?thesis by blast
  qed blast
  moreover have way: "genuine ?sy w m" if "on_the_way ?sy w m" for w m
    using that
  proof (cases rule: step_on_the_way)
    case old
    then show ?thesis by (intro genuine_step prov_way [OF prov])
  next
    case (asked i c u s op)
    obtain s' where s': "map_of (sy_insts ?sy) i = Some s'" "inst_move sy e i s s'"
      using step_moves [OF asked(2)] by blast
    show ?thesis using inst_move_owner [OF s'(2)] genuine_asked [OF asked(6) s'(1)] asked(3,5) by simp
  qed (simp add: genuine_def)
  moreover have "genuine ?sy w m \<and> (\<forall>x. r = Some x \<longrightarrow> reply_to m x)"
    if l: "(t, w, m, r) \<in> set (sy_log ?sy)" for t w m r
  proof -
    have old: "genuine ?sy w m \<and> (\<forall>x. r = Some x \<longrightarrow> reply_to m x)" if "(t, w, m, r) \<in> set (sy_log sy)"
      using prov_log [OF prov that] genuine_step by blast
    show ?thesis
    proof (cases rule: step_log [of e sy])
      case (more w' m' r' p')
      have "genuine ?sy w' m'" using more(1) by (intro genuine_step prov_way [OF prov])
      with more l old dispatch_reply_to show ?thesis by auto
    qed (use l old in simp)
  qed
  moreover have "\<exists>t m. (t, w, m, Some r) \<in> set (sy_log ?sy)"
    if "FromPrimary r \<in> set (sy_down ?sy w)" for w r
    using that
  proof (cases rule: step_down)
    case old
    with prov_down [OF prov old] grow(3) show ?thesis by blast
  qed blast
  moreover have "answered ?sy i c r"
    if "map_of (sy_insts ?sy) i = Some s" "(c, Answer r) \<in> set (cs_settled s)" for i s c r
    using that
  proof (cases rule: answers_step)
    case (old s')
    show ?thesis by (rule answered_step [OF prov_answers [OF prov old]])
  next
    case (new s' u pe)
    with answered_intro [OF prov new(1,2,3)] show ?thesis by (simp add: answered_step)
  qed
  ultimately show ?thesis by (rule provenanceI)
qed

lemma sent_ids: "fst ` set (sy_sent (cl_run es cl_start)) \<subseteq> set (fresh_ids es)"
proof (induction es rule: rev_induct)
  case Nil
  show ?case by (simp add: cl_start_def)
next
  case (snoc e es)
  show ?case
    by (cases rule: step_sent [of e "cl_run es cl_start"]) (use snoc in auto)
qed

lemma provenance_run: "distinct (fresh_ids es) \<Longrightarrow> provenance (cl_run es cl_start)"
proof (induction es rule: rev_induct)
  case Nil
  show ?case by (simp add: provenance_def cl_start_def on_the_way_def startListening_def new_primary_def)
next
  case (snoc e es)
  have "provenance (cl_run es cl_start)" using snoc by simp
  moreover have "u \<notin> fst ` set (sy_sent (cl_run es cl_start))" if "e = Resume i c u" for i c u
    using snoc.prems that sent_ids [of es] by auto
  ultimately show ?case by (simp add: provenance_step)
qed

lemma answers_are_logged:
  assumes "distinct (fresh_ids es)" "map_of (sy_insts (cl_run es cl_start)) i = Some s"
    and "(c, Answer r) \<in> set (cs_settled s)"
  shows "\<exists>t u k o'. (c, i, AskIncrement k o') \<in> set (sy_issued (cl_run es cl_start)) \<and>
    (t, cs_worker s, WIncrement u (cs_keyPrefix s) k (wire_inc o'), Some (PResultOk u (cs_keyPrefix s) r))
      \<in> set (sy_log (cl_run es cl_start))"
proof -
  note prov = provenance_run [OF assms(1)]
  have "answered (cl_run es cl_start) i c r" by (rule prov_answers [OF prov assms(2,3)])
  moreover have "(c, i, op) \<in> set (sy_issued (cl_run es cl_start))"
    if "(u, i, c, op) \<in> set (sy_sent (cl_run es cl_start))" for u op
    by (rule prov_sent [OF prov that])
  ultimately show ?thesis using assms(2) unfolding answered_def owner_def by fastforce
qed

section \<open>No reply is lost\<close>

definition in_transit :: "cl_system \<Rightarrow> nat \<Rightarrow> worker_msg \<Rightarrow> bool" where
  "in_transit sy w m \<longleftrightarrow>
     on_the_way sy w m \<or> (\<exists>r. FromPrimary r \<in> set (sy_down sy w) \<and> reply_to m r)"

text \<open>While the primary listens, every pending call has its request or the reply to it in transit.\<close>

definition in_flight :: "cl_system \<Rightarrow> bool" where
  "in_flight sy \<longleftrightarrow> cp_listening (sy_primary sy) \<and>
     (\<forall>i s u pe. map_of (sy_insts sy) i = Some s \<longrightarrow> map_of (cs_pending s) u = Some pe \<longrightarrow>
        (\<exists>op. pe_kind pe = kind_of op \<and> in_transit sy (cs_worker s) (request_of u (cs_keyPrefix s) op)))"

lemma do_resume_channels:
  "set (sy_up sy w) \<subseteq> set (sy_up (do_resume i c u sy) w)"
  "sy_down (do_resume i c u sy) = sy_down sy" "sy_primary (do_resume i c u sy) = sy_primary sy"
  by (cases rule: do_resume_cases [of i c u sy]; auto)+

lemma listening_step: "e \<noteq> Destroy \<Longrightarrow> cp_listening (sy_primary (cl_step e sy)) = cp_listening (sy_primary sy)"
  by (cases e)
    (auto simp: cl_step_def do_create_def do_call_def do_resume_channels do_init_timer_def do_reply_timer_def
      do_primary_recv_def do_primary_run_def do_worker_recv_def handleMessage_def Let_def
      split: option.split sum.split prod.split list.split dest: dispatch_keeps_queue)

lemma transit_step:
  assumes e: "e \<noteq> Destroy" and lis: "cp_listening (sy_primary sy)"
    and m: "\<forall>pre opts v. m \<noteq> WInit pre opts v" and t: "in_transit sy w m"
  obtains (still) "in_transit (cl_step e sy) w m"
  | (arrived) r ms where "e = WorkerRecv w" "sy_down sy w = FromPrimary r # ms" "reply_to m r"
proof (cases e)
  case (Create i w' env opts)
  have "in_transit (cl_step e sy) w m"
    using t Create by (auto simp: in_transit_def on_the_way_def cl_step_def do_create_def split: sum.split)
  then show ?thesis by (rule still)
next
  case (Resume i c u)
  have "in_transit (cl_step e sy) w m"
    using t do_resume_channels(1) [of sy w i c u] Resume
    by (auto simp: in_transit_def on_the_way_def cl_step_def do_resume_channels(2,3))
  then show ?thesis by (rule still)
next
  case (Noise w')
  have "in_transit (cl_step e sy) w m"
    using t Noise by (auto simp: in_transit_def on_the_way_def cl_step_def)
  then show ?thesis by (rule still)
next
  case (PrimaryRecv w')
  have "in_transit (cl_step e sy) w m"
    using t PrimaryRecv lis
    by (auto simp: in_transit_def on_the_way_def cl_step_def do_primary_recv_def handleMessage_def
        isRateLimitFlexMessage_def isClusterWorkerInboundMessage_def split: list.split ipc.split)
  then show ?thesis by (rule still)
next
  case PrimaryRun
  show ?thesis
  proof (cases "cp_queue (sy_primary sy)")
    case Nil
    with t still PrimaryRun show ?thesis by (simp add: cl_step_def do_primary_run_def)
  next
    case (Cons x q)
    obtain w' m' where x: "x = (w', m')" by fastforce
    obtain r p' where d: "dispatchWorkerMessage (sy_now sy) m' ((sy_primary sy)\<lparr>cp_queue := q\<rparr>) = (r, p')"
      by fastforce
    have q: "cp_queue p' = q" using dispatch_keeps_queue [OF d] by simp
    have up: "sy_up (cl_step e sy) = sy_up sy" "sy_primary (cl_step e sy) = p'"
      and down: "set (sy_down sy w) \<subseteq> set (sy_down (cl_step e sy) w)"
      using PrimaryRun Cons x d by (auto simp: cl_step_def do_primary_run_def Let_def split: option.split)
    show ?thesis
    proof (cases "w' = w \<and> m' = m")
      case True
      then obtain y where y: "r = Some y" using d dispatch_replies [OF m] by (metis Pair_inject)
      have "FromPrimary y \<in> set (sy_down (cl_step e sy) w)"
        using PrimaryRun Cons x d y True by (simp add: cl_step_def do_primary_run_def Let_def)
      moreover have "reply_to m y" using d y True by (auto intro: dispatch_reply_to)
      ultimately show ?thesis using still by (auto simp: in_transit_def)
    next
      case False
      with t Cons x q up down still show ?thesis by (auto simp: in_transit_def on_the_way_def)
    qed
  qed
next
  case (WorkerRecv w')
  show ?thesis
  proof (cases "w' = w \<and> (\<exists>r ms. sy_down sy w = FromPrimary r # ms \<and> reply_to m r)")
    case True
    with arrived WorkerRecv show ?thesis by blast
  next
    case False
    with t WorkerRecv have "in_transit (cl_step e sy) w m"
      by (auto simp: in_transit_def on_the_way_def cl_step_def do_worker_recv_def split: list.splits)
    then show ?thesis by (rule still)
  qed
qed (use e t still in \<open>auto simp: in_transit_def on_the_way_def cl_step_def do_call_def do_init_timer_def
      do_reply_timer_def split: option.splits\<close>)

text \<open>The reply to a pending request takes the entry out.\<close>

lemma reply_removes_pending:
  assumes "cs_inv s" "map_of (cs_pending s) u = Some pe" "pe_kind pe = kind_of op"
    and "reply_to (request_of u (cs_keyPrefix s) op) r"
  shows "map_of (cs_pending (hear (cs_worker s) (FromPrimary r) s)) u = None"
proof -
  have "\<not> cs_listenerRemoved s" using assms(1,2) by (auto simp: cs_inv_def)
  then have "hear (cs_worker s) (FromPrimary r) s = handleIncomingMessage (FromPrimary r) s"
    by (simp add: hear_def)
  then show ?thesis using assms(2-4)
    by (cases op) (auto simp: reply_to_def request_of_def kind_of_def handleIncomingMessage_def
        isRateLimitFlexMessage_def dispatchResult_def dispatchAck_def split: sum.split)
qed

lemma in_flight_step:
  assumes fl: "in_flight sy" and ok: "sy_issued_ok sy" and e: "e \<noteq> Destroy"
  shows "in_flight (cl_step e sy)"
proof -
  have lis: "cp_listening (sy_primary sy)" using fl by (simp add: in_flight_def)
  have "\<exists>op. pe_kind pe = kind_of op \<and>
      in_transit (cl_step e sy) (cs_worker s') (request_of u (cs_keyPrefix s') op)"
    if s': "map_of (sy_insts (cl_step e sy)) i = Some s'" and pe: "map_of (cs_pending s') u = Some pe"
    for i s' u pe
    using s'
  proof (cases rule: step_insts)
    case (new w env opts m)
    with pe show ?thesis by (auto dest!: new_ClusterStore_simps)
  next
    case (old s)
    note own = inst_move_owner [OF old(2)]
    have keep: ?thesis if was: "map_of (cs_pending s) u = Some pe"
    proof -
      obtain op where op: "pe_kind pe = kind_of op"
        "in_transit sy (cs_worker s) (request_of u (cs_keyPrefix s) op)"
        using fl old(1) was unfolding in_flight_def by blast
      show ?thesis
      proof (cases rule: transit_step [OF e lis _ op(2)])
        case 1
        then show ?case by simp
      next
        case 2
        with op(1) own show ?thesis by auto
      next
        case (3 r ms)
        have "s' = hear (cs_worker s) (FromPrimary r) s"
          using s' old(1) 3 by (simp add: cl_step_def do_worker_recv_def map_of_map_val)
        moreover have "cs_inv s" using ok old(1) by (simp add: sy_issued_ok_def)
        ultimately show ?thesis using reply_removes_pending [OF _ was op(1) 3(3)] pe by simp
      qed
    qed
    show ?thesis using old(2,1)
    proof (cases rule: move_resumed)
      case plain
      with pe keep show ?thesis by blast
    next
      case (resume c u' op res)
      have "map_of (cs_pending s) u = Some pe \<or>
          (u = u' \<and> pe_kind pe = kind_of op \<and> pe_call pe = c \<and> res \<noteq> None)"
        by (rule cs_resume_effect(1) [OF resume(3) pe])
      then show ?thesis
      proof
        assume new: "u = u' \<and> pe_kind pe = kind_of op \<and> pe_call pe = c \<and> res \<noteq> None"
        then obtain m where m: "res = Some m" by blast
        have rdy: "cs_ready s \<noteq> ReadyPending"
        proof
          assume "cs_ready s = ReadyPending"
          then have "s' = s" using s' old(1) resume(1) by (simp add: cl_step_def do_resume_def)
          moreover have "cs_inv s" using ok old(1) by (simp add: sy_issued_ok_def)
          ultimately show False using pe \<open>cs_ready s = ReadyPending\<close> by (simp add: cs_inv_def)
        qed
        have "on_the_way (cl_step e sy) (cs_worker s) (request_of u (cs_keyPrefix s) op)"
          using resume old(1) m new rdy cs_resume_sends [of "sy_now sy" c op u' s s' m]
          by (simp add: on_the_way_def cl_step_def do_resume_def)
        then show ?thesis using new own by (auto simp: in_transit_def)
      qed (rule keep)
    qed
  qed
  then show ?thesis using listening_step [OF e] lis by (simp add: in_flight_def)
qed

lemma in_flight_run: "Destroy \<notin> set es \<Longrightarrow> in_flight (cl_run es cl_start)"
proof (induction es rule: rev_induct)
  case Nil
  show ?case by (simp add: in_flight_def cl_start_def startListening_def)
next
  case (snoc e es)
  then show ?case by (auto intro: in_flight_step sy_issued_ok_run)
qed

text \<open>Delivering what is in the channels of a worker, and running the handlers that are queued.\<close>

definition flush :: "nat \<Rightarrow> cl_system \<Rightarrow> cl_event list" where
  "flush w sy =
     (let up = length (sy_up sy w); q = length (cp_queue (sy_primary sy)); down = length (sy_down sy w)
      in replicate up (PrimaryRecv w) @ replicate (up + q) PrimaryRun @
         replicate (down + up + q) (WorkerRecv w))"

lemma run_primary_recv:
  "n = length (sy_up sy w) \<Longrightarrow>
   (let sy' = cl_run (replicate n (PrimaryRecv w)) sy
    in sy_up sy' w = [] \<and> sy_down sy' w = sy_down sy w \<and>
       length (cp_queue (sy_primary sy')) \<le> n + length (cp_queue (sy_primary sy)))"
proof (induction n arbitrary: sy)
  case (Suc n)
  let ?sy = "cl_step (PrimaryRecv w) sy"
  obtain m ms where m: "sy_up sy w = m # ms" using Suc.prems by (cases "sy_up sy w") auto
  have "sy_up ?sy w = ms" "sy_down ?sy w = sy_down sy w"
    "length (cp_queue (sy_primary ?sy)) \<le> Suc (length (cp_queue (sy_primary sy)))"
    by (auto simp: cl_step_def do_primary_recv_def m handleMessage_def split: option.split)
  with Suc.IH [of ?sy] Suc.prems m show ?case by (auto simp: Let_def)
qed simp

lemma run_primary_run:
  "length (cp_queue (sy_primary sy)) \<le> n \<Longrightarrow>
   (let sy' = cl_run (replicate n PrimaryRun) sy
    in cp_queue (sy_primary sy') = [] \<and> sy_up sy' w = sy_up sy w \<and>
       length (sy_down sy' w) \<le> n + length (sy_down sy w))"
proof (induction n arbitrary: sy)
  case (Suc n)
  let ?sy = "cl_step PrimaryRun sy"
  have "length (cp_queue (sy_primary ?sy)) \<le> n" "sy_up ?sy w = sy_up sy w"
    "length (sy_down ?sy w) \<le> Suc (length (sy_down sy w))"
    using Suc.prems
    by (auto simp: cl_step_def do_primary_run_def Let_def split: list.split prod.split option.split
        dest!: dispatch_keeps_queue)
  with Suc.IH [of ?sy] show ?case by (auto simp: Let_def)
qed simp

lemma run_worker_recv:
  "length (sy_down sy w) \<le> n \<Longrightarrow>
   (let sy' = cl_run (replicate n (WorkerRecv w)) sy
    in sy_down sy' w = [] \<and> sy_up sy' = sy_up sy \<and> sy_primary sy' = sy_primary sy)"
proof (induction n arbitrary: sy)
  case (Suc n)
  let ?sy = "cl_step (WorkerRecv w) sy"
  have "length (sy_down ?sy w) \<le> n" "sy_up ?sy = sy_up sy" "sy_primary ?sy = sy_primary sy"
    using Suc.prems by (auto simp: cl_step_def do_worker_recv_def split: list.split)
  with Suc.IH [of ?sy] show ?case by (auto simp: Let_def)
qed simp

lemma flush_empties:
  "let sy' = cl_run (flush w sy) sy
   in sy_up sy' w = [] \<and> cp_queue (sy_primary sy') = [] \<and> sy_down sy' w = []"
proof -
  let ?up = "length (sy_up sy w)" and ?q = "length (cp_queue (sy_primary sy))"
  let ?sy1 = "cl_run (replicate ?up (PrimaryRecv w)) sy"
  let ?sy2 = "cl_run (replicate (?up + ?q) PrimaryRun) ?sy1"
  have 1: "sy_up ?sy1 w = []" "sy_down ?sy1 w = sy_down sy w"
    "length (cp_queue (sy_primary ?sy1)) \<le> ?up + ?q"
    using run_primary_recv [of ?up sy w] by (auto simp: Let_def)
  have 2: "cp_queue (sy_primary ?sy2) = []" "sy_up ?sy2 w = []"
    "length (sy_down ?sy2 w) \<le> length (sy_down sy w) + ?up + ?q"
    using run_primary_run [OF 1(3), of w] 1 by (auto simp: Let_def)
  show ?thesis using run_worker_recv [OF 2(3)] 2 by (simp add: flush_def Let_def)
qed

lemma flush_settles:
  assumes "Destroy \<notin> set es"
    and "map_of (sy_insts (cl_run (es @ flush w (cl_run es cl_start)) cl_start)) i = Some s" "cs_worker s = w"
  shows "cs_pending s = []"
proof (rule ccontr)
  let ?es = "es @ flush w (cl_run es cl_start)"
  let ?sy = "cl_run ?es cl_start"
  assume "cs_pending s \<noteq> []"
  then obtain u pe ps where "cs_pending s = (u, pe) # ps" by (cases "cs_pending s") auto
  then have "map_of (cs_pending s) u = Some pe" by simp
  moreover have "Destroy \<notin> set ?es" using assms(1) by (auto simp: flush_def Let_def)
  then have "in_flight ?sy" by (rule in_flight_run)
  ultimately obtain op where "in_transit ?sy w (request_of u (cs_keyPrefix s) op)"
    using assms(2,3) unfolding in_flight_def by blast
  moreover have "sy_up ?sy w = [] \<and> cp_queue (sy_primary ?sy) = [] \<and> sy_down ?sy w = []"
    using flush_empties [of w "cl_run es cl_start"] by (simp add: Let_def)
  ultimately show False by (simp add: in_transit_def on_the_way_def)
qed

section \<open>The log is a run of one store\<close>

text \<open>What a log says of a prefix: the increments that reached the primary, and the time and cost of
  those that some worker was told are allowed.\<close>

definition logged_requests :: "string \<Rightarrow> log_entry list \<Rightarrow> request list" where
  "logged_requests pre l = concat (map (\<lambda>(t, w, m, r). case m of
     WIncrement u pre' k o' \<Rightarrow> (if pre' = pre then [(t, k, o')] else []) | _ \<Rightarrow> []) l)"

definition cluster_granted :: "string \<Rightarrow> key \<Rightarrow> log_entry list \<Rightarrow> (time \<times> int) list" where
  "cluster_granted pre k l = concat (map (\<lambda>(t, w, m, r). case m of
     WIncrement u pre' k' o' \<Rightarrow>
       (case r of
          Some (PResultOk _ _ x) \<Rightarrow>
            (if pre' = pre \<and> k' = k \<and> \<not> isBlocked x then [(t, eff_cost o')] else [])
        | _ \<Rightarrow> [])
   | _ \<Rightarrow> []) l)"

lemma logged_simps [simp]:
  "logged_requests pre [] = []"
  "logged_requests pre (l @ [(t, w, m, r)]) = logged_requests pre l @ (case m of
     WIncrement u pre' k o' \<Rightarrow> (if pre' = pre then [(t, k, o')] else []) | _ \<Rightarrow> [])"
  "cluster_granted pre k [] = []"
  "cluster_granted pre k (l @ [(t, w, m, r)]) = cluster_granted pre k l @ (case m of
     WIncrement u pre' k' o' \<Rightarrow>
       (case r of
          Some (PResultOk _ _ x) \<Rightarrow>
            (if pre' = pre \<and> k' = k \<and> \<not> isBlocked x then [(t, eff_cost o')] else [])
        | _ \<Rightarrow> [])
   | _ \<Rightarrow> [])"
  by (simp_all add: logged_requests_def cluster_granted_def)

text \<open>Logs in which a prefix is only initialised, with options the store accepts, and incremented.\<close>

definition valid_options :: "cluster_init_options \<Rightarrow> bool" where
  "valid_options opts =
     (case createMemoryStoreFromClusterOptions opts of Inl _ \<Rightarrow> True | Inr st \<Rightarrow> mem_inv st)"

definition only_increments :: "string \<Rightarrow> log_entry list \<Rightarrow> bool" where
  "only_increments pre l \<longleftrightarrow>
     list_all (\<lambda>(t, w, m, r). wm_prefix m = pre \<longrightarrow>
       (case m of WInit _ opts _ \<Rightarrow> valid_options opts | WIncrement _ _ _ _ \<Rightarrow> True | _ \<Rightarrow> False)) l"

definition one_store :: "string \<Rightarrow> cl_system \<Rightarrow> bool" where
  "one_store pre sy \<longleftrightarrow>
     (case map_of (cp_stores (sy_primary sy)) pre of
        None \<Rightarrow> (\<forall>k. cluster_granted pre k (sy_log sy) = [])
      | Some st \<Rightarrow>
          (\<exists>st0 qs. mem_inv st0 \<and> ms_state st0 = [] \<and> st = mem_after qs st0 \<and> timely qs \<and>
             (\<forall>q \<in> set qs. fst q \<le> sy_now sy) \<and> set qs \<subseteq> set (logged_requests pre (sy_log sy)) \<and>
             (\<forall>P k. granted_in P (cluster_granted pre k (sy_log sy)) \<le> granted_in P (mem_granted qs st0 k))))"

lemma dispatch_stores:
  assumes "dispatchWorkerMessage now m p = (r, p')" "wm_prefix m \<noteq> pre"
  shows "map_of (cp_stores p') pre = map_of (cp_stores p) pre"
  using assms
  by (auto simp: dispatchWorkerMessage_def handleInit_def handleIncrement_def cp_put_def
      handleDecrement_def handleReset_def handleShutdown_def Let_def map_of_delete_if
      split: worker_msg.splits sum.splits option.splits prod.splits if_splits)

lemma created_empty:
  "createMemoryStoreFromClusterOptions opts = Inr st \<Longrightarrow> ms_state st = []"
  by (auto simp: createMemoryStoreFromClusterOptions_def split: sum.splits if_splits)

lemma timely_snoc: "timely (qs @ [q]) \<longleftrightarrow> timely qs \<and> (\<forall>p \<in> set qs. fst p \<le> fst q)"
  by (auto simp: timely_def sorted_append)

lemma eff_cost_nonneg [simp]: "0 \<le> eff_cost o'"
  using sanitizeIncrementCost_ge1 [of "opt_cost o'"] unfolding eff_cost_def by linarith

lemma one_store_same:
  assumes "one_store pre sy" "map_of (cp_stores (sy_primary sy')) pre = map_of (cp_stores (sy_primary sy)) pre"
    and "logged_requests pre (sy_log sy') = logged_requests pre (sy_log sy)"
    and "\<And>k. cluster_granted pre k (sy_log sy') = cluster_granted pre k (sy_log sy)"
    and "sy_now sy \<le> sy_now sy'"
  shows "one_store pre sy'"
proof (cases "map_of (cp_stores (sy_primary sy)) pre")
  case None
  then show ?thesis using assms by (simp add: one_store_def)
next
  case (Some st)
  then obtain st0 qs where run: "mem_inv st0" "ms_state st0 = []" "st = mem_after qs st0" "timely qs"
    "\<forall>q \<in> set qs. fst q \<le> sy_now sy" "set qs \<subseteq> set (logged_requests pre (sy_log sy))"
    and g: "\<And>P k. granted_in P (cluster_granted pre k (sy_log sy)) \<le> granted_in P (mem_granted qs st0 k)"
    using assms(1) unfolding one_store_def by auto
  have "\<forall>q \<in> set qs. fst q \<le> sy_now sy'" using run(5) assms(5) by force
  with run g show ?thesis using Some assms(2-4) unfolding one_store_def by auto
qed

text \<open>One handled message keeps it. The argument is by the message.\<close>

lemma one_store_handled:
  assumes one: "one_store pre sy"
    and d: "dispatchWorkerMessage (sy_now sy) m ((sy_primary sy)\<lparr>cp_queue := q\<rparr>) = (r, p')"
    and log: "sy_log sy' = sy_log sy @ [(sy_now sy, w, m, r)]" and now: "sy_now sy' = sy_now sy"
    and p': "sy_primary sy' = p'"
    and only: "wm_prefix m = pre \<longrightarrow>
       (case m of WInit _ opts _ \<Rightarrow> valid_options opts | WIncrement _ _ _ _ \<Rightarrow> True | _ \<Rightarrow> False)"
  shows "one_store pre sy'"
proof (cases "wm_prefix m = pre")
  case False
  then have same: "map_of (cp_stores p') pre = map_of (cp_stores (sy_primary sy)) pre"
    using dispatch_stores [OF d] by simp
  have "logged_requests pre (sy_log sy') = logged_requests pre (sy_log sy)"
    "cluster_granted pre k (sy_log sy') = cluster_granted pre k (sy_log sy)" for k
    using False by (auto simp: log split: worker_msg.split option.split primary_msg.split)
  with same show ?thesis by (intro one_store_same [OF one]) (simp_all add: p' now)
next
  case True
  from only True consider (init) opts v where "m = WInit pre opts v" "valid_options opts"
    | (inc) u k o' where "m = WIncrement u pre k o'"
    by (cases m) auto
  then show ?thesis
  proof cases
    case init
    have logs: "logged_requests pre (sy_log sy') = logged_requests pre (sy_log sy)"
      "cluster_granted pre k (sy_log sy') = cluster_granted pre k (sy_log sy)" for k
      by (simp_all add: log init)
    consider "map_of (cp_stores p') pre = map_of (cp_stores (sy_primary sy)) pre"
      | st where "map_of (cp_stores (sy_primary sy)) pre = None" "map_of (cp_stores p') pre = Some st"
          "createMemoryStoreFromClusterOptions opts = Inr st"
      using d by (auto simp: init dispatchWorkerMessage_def handleInit_def cp_put_def jsmap_has_def Let_def
          split: option.splits sum.splits if_splits)
    then show ?thesis
    proof cases
      case 1
      with logs show ?thesis by (intro one_store_same [OF one]) (simp_all add: p' now)
    next
      case (2 st)
      then have "mem_inv st" "ms_state st = []" using init(2) by (simp_all add: valid_options_def created_empty)
      moreover have "cluster_granted pre k (sy_log sy) = []" for k using one 2 by (simp add: one_store_def)
      ultimately show ?thesis using 2 logs
        by (auto simp: one_store_def p' intro!: exI [of _ st] exI [of _ "[]"])
    qed
  next
    case (inc u k o')
    show ?thesis
    proof (cases "map_of (cp_stores (sy_primary sy)) pre")
      case None
      with d have "p' = (sy_primary sy)\<lparr>cp_queue := q\<rparr>" "r = Some (PResultErr u pre (ErrStoreMissing pre))"
        by (auto simp: inc dispatchWorkerMessage_def handleIncrement_def)
      with one None show ?thesis by (simp add: one_store_def p' log inc)
    next
      case (Some st)
      obtain res st' where i: "mem_increment (sy_now sy) k o' st = (res, st')" by fastforce
      from d have st': "map_of (cp_stores p') pre = Some st'"
        and r: "r = Some (PResultOk u pre (plain_result (totalHits res) (remaining res) (resetTime res) (isBlocked res)))
          \<or> r = Some (PResultErr u pre ErrInvalidTime)"
        by (auto simp: inc dispatchWorkerMessage_def handleIncrement_def Some mem_ops_def i cp_put_def
            split: if_splits)
      obtain st0 qs where run: "mem_inv st0" "ms_state st0 = []" "st = mem_after qs st0" "timely qs"
        "\<forall>q \<in> set qs. fst q \<le> sy_now sy" "set qs \<subseteq> set (logged_requests pre (sy_log sy))"
        and g: "\<And>P k. granted_in P (cluster_granted pre k (sy_log sy)) \<le> granted_in P (mem_granted qs st0 k)"
        using one Some unfolding one_store_def by auto
      let ?qs = "qs @ [(sy_now sy, k, o')]"
      have "granted_in P (cluster_granted pre k' (sy_log sy')) \<le> granted_in P (mem_granted ?qs st0 k')" for P k'
        using g [of P k'] r
        by (auto simp: log inc mem_granted_append run(3) [symmetric] i intro: add_mono)
      moreover have "st' = mem_after ?qs st0" by (simp add: mem_after_append run(3) [symmetric] i)
      moreover have "timely ?qs" using run(4,5) by (simp add: timely_snoc)
      moreover have "set ?qs \<subseteq> set (logged_requests pre (sy_log sy'))" using run(6) by (auto simp: log inc)
      ultimately show ?thesis
        using run(1,2,5) st' unfolding one_store_def p' now by (auto intro!: exI [of _ st0] exI [of _ ?qs])
    qed
  qed
qed

lemma only_increments_snoc [simp]:
  "only_increments pre (l @ [(t, w, m, r)]) \<longleftrightarrow> only_increments pre l \<and> (wm_prefix m = pre \<longrightarrow>
     (case m of WInit _ opts _ \<Rightarrow> valid_options opts | WIncrement _ _ _ _ \<Rightarrow> True | _ \<Rightarrow> False))"
  by (auto simp: only_increments_def)

text \<open>The other events leave the stores alone.\<close>

lemma step_stores:
  assumes "e \<noteq> PrimaryRun" "e \<noteq> Destroy"
  shows "cp_stores (sy_primary (cl_step e sy)) = cp_stores (sy_primary sy) \<and>
    sy_log (cl_step e sy) = sy_log sy \<and> sy_now sy \<le> sy_now (cl_step e sy)"
proof (cases e)
  case (Resume i c u)
  then show ?thesis by (cases rule: do_resume_cases [of i c u sy]) (simp_all add: cl_step_def)
qed (use assms in \<open>auto simp: cl_step_def do_create_def do_call_def do_init_timer_def do_reply_timer_def
      do_primary_recv_def do_worker_recv_def handleMessage_def split: option.split sum.split list.split\<close>)

lemma primary_run_cases:
  obtains (idle) "cp_queue (sy_primary sy) = []" "cl_step PrimaryRun sy = sy"
  | (handles) w m q r p' where "cp_queue (sy_primary sy) = (w, m) # q"
      "dispatchWorkerMessage (sy_now sy) m ((sy_primary sy)\<lparr>cp_queue := q\<rparr>) = (r, p')"
      "sy_log (cl_step PrimaryRun sy) = sy_log sy @ [(sy_now sy, w, m, r)]"
      "sy_now (cl_step PrimaryRun sy) = sy_now sy" "sy_primary (cl_step PrimaryRun sy) = p'"
proof (cases "cp_queue (sy_primary sy)")
  case Nil
  with idle show ?thesis by (simp add: cl_step_def do_primary_run_def)
next
  case (Cons x q)
  obtain w m where x: "x = (w, m)" by fastforce
  obtain r p' where d: "dispatchWorkerMessage (sy_now sy) m ((sy_primary sy)\<lparr>cp_queue := q\<rparr>) = (r, p')"
    by fastforce
  show ?thesis
    by (rule handles [of w m q r p'])
      (use Cons x d in \<open>auto simp: cl_step_def do_primary_run_def Let_def split: option.split\<close>)
qed

lemma one_store_step:
  assumes one: "one_store pre sy" and e: "e \<noteq> Destroy"
    and only: "only_increments pre (sy_log (cl_step e sy))"
  shows "one_store pre (cl_step e sy)"
proof (cases "e = PrimaryRun")
  case True
  show ?thesis unfolding True
  proof (cases rule: primary_run_cases [of sy])
    case idle
    with one show "one_store pre (cl_step PrimaryRun sy)" by simp
  next
    case (handles w m q r p')
    show "one_store pre (cl_step PrimaryRun sy)"
      by (rule one_store_handled [OF one handles(2-5)]) (use only handles(3) True in simp)
  qed
next
  case False
  with step_stores [OF False e, of sy] show ?thesis by (intro one_store_same [OF one]) simp_all
qed

lemma log_grows: "\<exists>l. sy_log (cl_step e sy) = sy_log sy @ l"
  by (cases rule: step_log [of e sy]) simp_all

lemma one_store_run:
  "Destroy \<notin> set es \<Longrightarrow> only_increments pre (sy_log (cl_run es cl_start)) \<Longrightarrow> one_store pre (cl_run es cl_start)"
proof (induction es rule: rev_induct)
  case Nil
  show ?case by (simp add: one_store_def cl_start_def startListening_def new_primary_def)
next
  case (snoc e es)
  obtain l where "sy_log (cl_run (es @ [e]) cl_start) = sy_log (cl_run es cl_start) @ l"
    using log_grows [of e "cl_run es cl_start"] by auto
  with snoc.prems(2) have "only_increments pre (sy_log (cl_run es cl_start))"
    by (simp add: only_increments_def)
  with snoc show ?case by (auto intro: one_store_step)
qed

lemma one_store_facts:
  assumes one: "one_store pre sy" and st: "map_of (cp_stores (sy_primary sy)) pre = Some st"
    and keys: "ms_maxKeys st = 0 \<or> int (card (set (map (fst \<circ> snd) (logged_requests pre (sy_log sy))))) \<le> ms_maxKeys st"
  obtains st0 qs where "mem_inv st0" "ms_state st0 = []" "mem_cfg st = mem_cfg st0" "timely qs"
    "set qs \<subseteq> set (logged_requests pre (sy_log sy))"
    "ms_maxKeys st0 = 0 \<or> int (card (set (map (fst \<circ> snd) qs))) \<le> ms_maxKeys st0"
    "\<And>P k. granted_in P (cluster_granted pre k (sy_log sy)) \<le> granted_in P (mem_granted qs st0 k)"
proof -
  obtain st0 qs where run: "mem_inv st0" "ms_state st0 = []" "st = mem_after qs st0" "timely qs"
    "set qs \<subseteq> set (logged_requests pre (sy_log sy))"
    and g: "\<And>P k. granted_in P (cluster_granted pre k (sy_log sy)) \<le> granted_in P (mem_granted qs st0 k)"
    using one st unfolding one_store_def by auto
  have cfg: "mem_cfg st = mem_cfg st0" using mem_after_inv [OF run(1)] run(3) by simp
  have "card (set (map (fst \<circ> snd) qs)) \<le> card (set (map (fst \<circ> snd) (logged_requests pre (sy_log sy))))"
    using run(5) by (intro card_mono) auto
  then have "ms_maxKeys st0 = 0 \<or> int (card (set (map (fst \<circ> snd) qs))) \<le> ms_maxKeys st0"
    using keys mem_cfg_eqD [OF cfg] by auto
  with that run(1,2,4,5) cfg g show ?thesis by blast
qed

section \<open>A shutdown by one worker\<close>

text \<open>Without a store, without an \<open>init\<close> on the way and without new store objects, a prefix stays without
  a store.\<close>

definition creates :: "string \<Rightarrow> cl_event \<Rightarrow> bool" where
  "creates pre e = (case e of Create i w env opts \<Rightarrow> cso_keyPrefix opts = Some pre | _ \<Rightarrow> False)"

definition bereft :: "string \<Rightarrow> cl_system \<Rightarrow> bool" where
  "bereft pre sy \<longleftrightarrow> map_of (cp_stores (sy_primary sy)) pre = None \<and>
     (\<forall>w m. on_the_way sy w m \<longrightarrow> (\<forall>opts v. m \<noteq> WInit pre opts v))"

lemma no_init_step:
  assumes "\<forall>w m. on_the_way sy w m \<longrightarrow> (\<forall>opts v. m \<noteq> WInit pre opts v)" "\<not> creates pre e"
    and way: "on_the_way (cl_step e sy) w m"
  shows "m \<noteq> WInit pre opts v"
proof
  assume m: "m = WInit pre opts v"
  show False
  proof (cases "on_the_way sy w m")
    case False
    show False
    proof (cases e)
      case (Create i w' env copts)
      with way False m assms(2) show False
        by (auto simp: on_the_way_def cl_step_def do_create_def creates_def new_ClusterStore_def
            split: if_splits sum.splits option.splits prod.splits)
    next
      case (Resume i c u)
      with way False m show False
        by (cases rule: do_resume_cases [of i c u sy])
          (auto simp: on_the_way_def cl_step_def split: if_splits)
    next
      case PrimaryRun
      with way False show False
        by (cases rule: primary_run_cases [of sy])
          (auto simp: on_the_way_def cl_step_def do_primary_run_def Let_def split: option.splits
            dest!: dispatch_keeps_queue)
    next
      case (PrimaryRecv w')
      with way False show False
        by (auto simp: on_the_way_def cl_step_def do_primary_recv_def handleMessage_def
            isClusterWorkerInboundMessage_def split: list.splits if_splits option.splits ipc.splits)
    qed (use way False in \<open>auto simp: on_the_way_def cl_step_def do_call_def do_init_timer_def
        do_reply_timer_def do_worker_recv_def tearDown_def split: option.splits list.splits if_splits\<close>)
  qed (use assms(1) m in blast)
qed

lemma bereft_step:
  assumes "bereft pre sy" "\<not> creates pre e"
  shows "bereft pre (cl_step e sy) \<and>
    (\<exists>l. sy_log (cl_step e sy) = sy_log sy @ l \<and>
       (\<forall>t w u k o' r. (t, w, WIncrement u pre k o', r) \<in> set l \<longrightarrow>
          r = Some (PResultErr u pre (ErrStoreMissing pre))))"
proof -
  have way: "\<forall>w m. on_the_way (cl_step e sy) w m \<longrightarrow> (\<forall>opts v. m \<noteq> WInit pre opts v)"
    using no_init_step [OF _ assms(2)] assms(1) unfolding bereft_def by blast
  have none: "map_of (cp_stores (sy_primary sy)) pre = None" using assms(1) by (simp add: bereft_def)
  consider "e = PrimaryRun" | "e = Destroy" | "e \<noteq> PrimaryRun" "e \<noteq> Destroy" by blast
  then show ?thesis
  proof cases
    case 1
    show ?thesis
    proof (cases rule: primary_run_cases [of sy])
      case idle
      with assms(1) 1 show ?thesis by simp
    next
      case (handles w m q r p')
      have "m \<noteq> WInit pre opts v" for opts v
        using assms(1) handles(1) by (auto simp: bereft_def on_the_way_def)
      then have "map_of (cp_stores p') pre = None \<and>
          (\<forall>u k o'. m = WIncrement u pre k o' \<longrightarrow> r = Some (PResultErr u pre (ErrStoreMissing pre)))"
        using handles(2) none dispatch_stores [OF handles(2), of pre]
        by (cases "wm_prefix m = pre"; cases m)
          (auto simp: dispatchWorkerMessage_def handleIncrement_def handleDecrement_def handleReset_def
            handleShutdown_def)
      with way 1 handles(3,5) show ?thesis by (auto simp: bereft_def)
    qed
  next
    case 2
    with way show ?thesis by (auto simp: bereft_def cl_step_def tearDown_def)
  next
    case 3
    with step_stores [OF 3, of sy] way none show ?thesis by (auto simp: bereft_def)
  qed
qed

lemma bereft_run:
  "bereft pre sy \<Longrightarrow> \<forall>e \<in> set es. \<not> creates pre e \<Longrightarrow>
   \<exists>l. sy_log (cl_run es sy) = sy_log sy @ l \<and>
     (\<forall>t w u k o' r. (t, w, WIncrement u pre k o', r) \<in> set l \<longrightarrow>
        r = Some (PResultErr u pre (ErrStoreMissing pre)))"
proof (induction es arbitrary: sy)
  case (Cons e es)
  from bereft_step [OF Cons.prems(1)] Cons.prems(2) obtain l1 where
    b: "bereft pre (cl_step e sy)" and l1: "sy_log (cl_step e sy) = sy_log sy @ l1"
      "\<forall>t w u k o' r. (t, w, WIncrement u pre k o', r) \<in> set l1 \<longrightarrow>
        r = Some (PResultErr u pre (ErrStoreMissing pre))" by (metis list.set_intros(1))
  from Cons.IH [OF b] Cons.prems(2) obtain l2 where
    "sy_log (cl_run es (cl_step e sy)) = sy_log (cl_step e sy) @ l2"
    "\<forall>t w u k o' r. (t, w, WIncrement u pre k o', r) \<in> set l2 \<longrightarrow>
        r = Some (PResultErr u pre (ErrStoreMissing pre))" by auto
  with l1 show ?case by (intro exI [of _ "l1 @ l2"]) auto
qed simp

section \<open>Handshake and shutdown\<close>

text \<open>The handshake: only an absent version and version 1 are accepted, a second \<open>init\<close> never replaces
  a store, and an unknown strategy gets no reply at all (the worker's timer ends the wait).\<close>

theorem init_negotiates:
  assumes "dispatchWorkerMessage now (WInit pre opts raw) p = (r, p')"
  shows "raw \<noteq> Undefined \<and> raw \<noteq> js_int 1 \<Longrightarrow> p' = p \<and> (\<exists>e v. r = Some (PInitNack pre e v))"
    and "raw = Undefined \<or> raw = js_int 1 \<Longrightarrow> map_of (cp_stores p) pre = Some st \<Longrightarrow>
      p' = p \<and> r = Some (PInitAck pre (Some 1))"
    and "raw = Undefined \<or> raw = js_int 1 \<Longrightarrow> map_of (cp_stores p) pre = None \<Longrightarrow>
      createMemoryStoreFromClusterOptions opts = Inr st \<Longrightarrow>
      map_of (cp_stores p') pre = Some st \<and> r = Some (PInitAck pre (Some 1))"
    and "raw = Undefined \<or> raw = js_int 1 \<Longrightarrow> map_of (cp_stores p) pre = None \<Longrightarrow>
      createMemoryStoreFromClusterOptions opts = Inl e \<Longrightarrow> p' = p \<and> r = None"
proof -
  have one: "parseInitProtocolVersion raw = Some 1" if "raw = Undefined \<or> raw = js_int 1"
    using that by (auto simp: parseInitProtocolVersion_def js_int_def)
  have other: "v < 1 \<or> 1 < v" if "parseInitProtocolVersion raw = Some v" "raw \<noteq> Undefined \<and> raw \<noteq> js_int 1" for v
    using that by (auto simp: parseInitProtocolVersion_def js_int_def Let_def split: js_value.splits if_splits)
  note defs = dispatchWorkerMessage_def handleInit_def CLUSTER_IPC_PROTOCOL_VERSION_def
    MIN_CLUSTER_IPC_PROTOCOL_VERSION_def jsmap_has_def cp_put_def
  show "p' = p \<and> (\<exists>e v. r = Some (PInitNack pre e v))" if "raw \<noteq> Undefined \<and> raw \<noteq> js_int 1"
    using assms other [OF _ that] by (auto simp: defs split: option.splits if_splits sum.splits)
  show "p' = p \<and> r = Some (PInitAck pre (Some 1))"
    if "raw = Undefined \<or> raw = js_int 1" "map_of (cp_stores p) pre = Some st"
    using assms one [OF that(1)] that(2) by (simp add: defs)
  show "map_of (cp_stores p') pre = Some st \<and> r = Some (PInitAck pre (Some 1))"
    if "raw = Undefined \<or> raw = js_int 1" "map_of (cp_stores p) pre = None"
      "createMemoryStoreFromClusterOptions opts = Inr st"
    using assms one [OF that(1)] that(2,3) by (auto simp: defs)
  show "p' = p \<and> r = None"
    if "raw = Undefined \<or> raw = js_int 1" "map_of (cp_stores p) pre = None"
      "createMemoryStoreFromClusterOptions opts = Inl e"
    using assms one [OF that(1)] that(2,3) by (simp add: defs)
qed

text \<open>A second \<open>shutdown()\<close> while the first waits for its acknowledgement rejects the first.\<close>

theorem second_shutdown_rejects_first:
  assumes "\<not> cs_listenerRemoved s" "map_of (cs_pending s) u0 = Some pe"
  shows "(pe_call pe, Failed ErrShutDown) \<in> set (cs_settled (fst (cs_resume now c AskShutdown u s)))"
proof -
  have "(u0, pe) \<in> set (cs_pending s)" using assms(2) by (rule map_of_SomeD)
  then show ?thesis using assms(1)
    by (force simp: cs_resume_def shutdown_body_def ask_def setPending_def reject_all_def Let_def)
qed

section \<open>Properties\<close>

text \<open>Two workers with a store object each, on one prefix: a sliding window that allows one request per
  second. \<open>deliver w\<close> carries one message of worker \<open>w\<close> to the primary and the reply back.\<close>

definition demo_worker_env :: process_env where
  "demo_worker_env = \<lparr>env_pm2 = False, env_isWorker = True, env_hasSend = True\<rparr>"

definition demo_cluster_options :: cluster_store_options where
  "demo_cluster_options =
     \<lparr>cso_keyPrefix = Some ''p'', cso_strategy = ''SLIDING_WINDOW'', cso_windowMs = js_int 1000,
      cso_maxRequests = js_int 1, cso_tokensPerInterval = None, cso_interval = None,
      cso_bucketSize = None, cso_timeoutMs = None\<rparr>"

definition deliver :: "nat \<Rightarrow> cl_event list" where
  "deliver w = [PrimaryRecv w, PrimaryRun, WorkerRecv w]"

definition two_workers :: "cl_event list" where
  "two_workers =
     [Create 0 1 demo_worker_env demo_cluster_options, Create 1 2 demo_worker_env demo_cluster_options] @
     deliver 1 @ deliver 2"

definition two_requests :: "cl_event list" where
  "two_requests =
     two_workers @ [Call 0 (AskIncrement ''a'' None), Resume 0 0 ''u0''] @ deliver 1 @
     [Call 1 (AskIncrement ''a'' None), Resume 1 1 ''u1''] @ deliver 2"

text \<open>Every method call on a cluster store is, at any moment, in exactly one place: suspended until the
  store is ready, waiting for a reply, or settled; in particular no promise is settled twice and
  none is dropped.\<close>

theorem cluster_calls_accounted:
  assumes "map_of (sy_insts (cl_run es cl_start)) i = Some s"
  shows "mset (map fst (cs_calls s)) + mset (map (pe_call \<circ> snd) (cs_pending s)) + mset (map fst (cs_settled s))
      = mset (map fst (filter (\<lambda>(c, j, op). j = i) (sy_issued (cl_run es cl_start)))) \<and>
    distinct (map fst (cs_settled s))"
proof -
  note ok = sy_issued_ok_run [of es, unfolded sy_issued_ok_def]
  have t: "cs_tally s = calls_to i (sy_issued (cl_run es cl_start))" using ok assms by blast
  let ?places = "map fst (cs_calls s) @ map (pe_call \<circ> snd) (cs_pending s) @ map fst (cs_settled s)"
  let ?calls = "map fst (filter (\<lambda>(c, j, op). j = i) (sy_issued (cl_run es cl_start)))"
  have "mset ?places = mset ?calls" using t by (simp add: cs_tally_def calls_to_def add.assoc)
  moreover have "distinct ?calls" using ok by (intro distinct_map_filter) simp
  ultimately have "distinct ?places" by (metis mset_eq_imp_distinct_iff)
  with t show ?thesis by (simp add: cs_tally_def calls_to_def)
qed

theorem cluster_calls_accounted_witness:
  "map fst (cs_settled (the (map_of (sy_insts (cl_run two_requests cl_start)) 1))) = [1] \<and>
   mset (map fst (cs_settled (the (map_of (sy_insts (cl_run two_requests cl_start)) 1)))) = {#1#}"
proof -
  obtain s where s: "map_of (sy_insts (cl_run two_requests cl_start)) 1 = Some s"
    "cs_calls s = []" "cs_pending s = []" "map fst (cs_settled s) = [1]"
  proof -
    have "(case map_of (sy_insts (cl_run two_requests cl_start)) 1 of None \<Rightarrow> False
      | Some s \<Rightarrow> cs_calls s = [] \<and> cs_pending s = [] \<and> map fst (cs_settled s) = [1])" by code_simp
    then show ?thesis using that by (auto split: option.splits)
  qed
  have "map fst (filter (\<lambda>(c, j, op). j = 1) (sy_issued (cl_run two_requests cl_start))) = [1]" by code_simp
  with cluster_calls_accounted [OF s(1)] s show ?thesis by simp
qed

text \<open>A rate-limit answer a worker gets is the shared store's answer to that very request: the
  primary handled the request, from this worker, with this prefix, key and options, and sent
  back this answer. (\<open>fresh_ids\<close> are the ids \<open>randomUUID()\<close> returned in the run.)\<close>

theorem cluster_answers_genuine:
  assumes "distinct (fresh_ids es)" "map_of (sy_insts (cl_run es cl_start)) i = Some s"
    and "(c, Answer r) \<in> set (cs_settled s)"
  shows "\<exists>t u k o'. (c, i, AskIncrement k o') \<in> set (sy_issued (cl_run es cl_start)) \<and>
    (t, cs_worker s, WIncrement u (cs_keyPrefix s) k (wire_inc o'), Some (PResultOk u (cs_keyPrefix s) r))
      \<in> set (sy_log (cl_run es cl_start))"
  using assms by (rule answers_are_logged)

theorem cluster_answers_genuine_witness:
  "\<exists>t u k o'. (1, 1, AskIncrement k o') \<in> set (sy_issued (cl_run two_requests cl_start)) \<and>
    (t, 2, WIncrement u ''p'' k (wire_inc o'), Some (PResultOk u ''p'' (plain_result 2 0 1000 True)))
      \<in> set (sy_log (cl_run two_requests cl_start))"
proof -
  have "(case map_of (sy_insts (cl_run two_requests cl_start)) 1 of None \<Rightarrow> False
    | Some s \<Rightarrow> cs_settled s = [(1, Answer (plain_result 2 0 1000 True))] \<and> cs_worker s = 2 \<and>
        cs_keyPrefix s = ''p'')" by code_simp
  then obtain s where s: "map_of (sy_insts (cl_run two_requests cl_start)) 1 = Some s"
    "cs_settled s = [(1, Answer (plain_result 2 0 1000 True))]" "cs_worker s = 2" "cs_keyPrefix s = ''p''"
    by (auto split: option.splits)
  have "distinct (fresh_ids two_requests)" by code_simp
  from cluster_answers_genuine [OF this s(1), of 1 "plain_result 2 0 1000 True"] s show ?thesis by simp
qed

text \<open>(C18) While the primary is not torn down, no reply is lost: delivering what is in the channels of a
  worker and running the queued handlers settles every request the worker's store objects wait
  for. What remains of their calls is suspended before its request was sent.\<close>

theorem cluster_delivery_settles:
  assumes "Destroy \<notin> set es"
    and "map_of (sy_insts (cl_run (flush w (cl_run es cl_start)) (cl_run es cl_start))) i = Some s"
    and "cs_worker s = w"
  shows "cs_pending s = []"
  by (rule flush_settles [OF assms(1)]) (use assms(2,3) in simp_all)

theorem cluster_delivery_settles_witness:
  "cs_pending (the (map_of (sy_insts (cl_run (flush 1 (cl_run (two_workers @ [Call 0 (AskIncrement ''a'' None),
     Resume 0 0 ''u0'']) cl_start)) (cl_run (two_workers @ [Call 0 (AskIncrement ''a'' None), Resume 0 0 ''u0''])
     cl_start))) 0)) = []"
proof -
  let ?es = "two_workers @ [Call 0 (AskIncrement ''a'' None), Resume 0 0 ''u0'']"
  have "(case map_of (sy_insts (cl_run (flush 1 (cl_run ?es cl_start)) (cl_run ?es cl_start))) 0 of
      None \<Rightarrow> False | Some s \<Rightarrow> cs_worker s = 1)" by code_simp
  then obtain s where s: "map_of (sy_insts (cl_run (flush 1 (cl_run ?es cl_start)) (cl_run ?es cl_start))) 0 = Some s"
    "cs_worker s = 1" by (auto split: option.splits)
  have "Destroy \<notin> set ?es" by code_simp
  from cluster_delivery_settles [OF this s] s(1) show ?thesis by simp
qed

text \<open>(C17) The limit holds across workers: if the requests for a prefix are increments, what all the
  workers together are told is allowed for one key within any window is at most the cap.\<close>

theorem cluster_quota:
  assumes "Destroy \<notin> set es" "only_increments pre (sy_log (cl_run es cl_start))"
    and st: "map_of (cp_stores (sy_primary (cl_run es cl_start))) pre = Some st"
      "ms_strategy st = SLIDING_WINDOW"
    and keys: "int (card (set (map (fst \<circ> snd) (logged_requests pre (sy_log (cl_run es cl_start)))))) \<le> ms_maxKeys st"
    and caps: "\<forall>q \<in> set (logged_requests pre (sy_log (cl_run es cl_start))). eff_cap st (snd (snd q)) \<le> m" "0 \<le> m"
  shows "granted_in (\<lambda>t. c - ms_windowMs st < t \<and> t \<le> c)
    (cluster_granted pre k (sy_log (cl_run es cl_start))) \<le> m"
proof -
  obtain st0 qs where run: "mem_inv st0" "ms_state st0 = []" "mem_cfg st = mem_cfg st0" "timely qs"
    and sub: "set qs \<subseteq> set (logged_requests pre (sy_log (cl_run es cl_start)))"
    and fit: "ms_maxKeys st0 = 0 \<or> int (card (set (map (fst \<circ> snd) qs))) \<le> ms_maxKeys st0"
    and g: "\<And>P k. granted_in P (cluster_granted pre k (sy_log (cl_run es cl_start)))
      \<le> granted_in P (mem_granted qs st0 k)"
    using one_store_facts [OF one_store_run [OF assms(1,2)] st(1)] keys by blast
  note cfg = mem_cfg_eqD [OF run(3)]
  have "\<forall>q \<in> set qs. eff_cap st0 (snd (snd q)) \<le> m"
    using sub caps(1) cfg by (auto simp: eff_cap_def)
  then have "granted_in (\<lambda>t. c - ms_windowMs st0 < t \<and> t \<le> c) (mem_granted qs st0 k) \<le> m"
    using mem_granted_sliding [OF run(1) _ run(2) fit run(4)] st(2) caps(2) cfg by auto
  then show ?thesis using order_trans [OF g] cfg by simp
qed

theorem cluster_quota_witness:
  "granted_in (\<lambda>t. 500 - 1000 < t \<and> t \<le> 500) (cluster_granted ''p'' ''a'' (sy_log (cl_run two_requests cl_start))) \<le> 1"
proof -
  have "(case map_of (cp_stores (sy_primary (cl_run two_requests cl_start))) ''p'' of None \<Rightarrow> False
    | Some st \<Rightarrow> ms_strategy st = SLIDING_WINDOW \<and> ms_windowMs st = 1000 \<and> ms_maxKeys st = 100000 \<and>
        eff_cap st None = 1)" by code_simp
  then obtain st where st: "map_of (cp_stores (sy_primary (cl_run two_requests cl_start))) ''p'' = Some st"
    "ms_strategy st = SLIDING_WINDOW" "ms_windowMs st = 1000" "ms_maxKeys st = 100000" "eff_cap st None = 1"
    by (auto split: option.splits)
  have l: "logged_requests ''p'' (sy_log (cl_run two_requests cl_start)) = [(0, ''a'', None), (0, ''a'', None)]"
    by code_simp
  have "Destroy \<notin> set two_requests" by code_simp
  moreover have "only_increments ''p'' (sy_log (cl_run two_requests cl_start))"
  proof -
    have "createMemoryStoreFromClusterOptions (toStoreOptions demo_cluster_options) =
      Inr (new_MemoryStore (WindowOptions SLIDING_WINDOW (js_int 1000) (js_int 1)) None None)" by code_simp
    then have "valid_options (toStoreOptions demo_cluster_options)"
      by (simp add: valid_options_def new_MemoryStore_inv options_ok_def)
    moreover have "map (\<lambda>(t, w, m, r). m) (sy_log (cl_run two_requests cl_start)) =
        [WInit ''p'' (toStoreOptions demo_cluster_options) (js_int 1),
         WInit ''p'' (toStoreOptions demo_cluster_options) (js_int 1),
         WIncrement ''u0'' ''p'' ''a'' None, WIncrement ''u1'' ''p'' ''a'' None]" by code_simp
    ultimately show ?thesis by (auto simp: only_increments_def map_eq_Cons_conv)
  qed
  ultimately show ?thesis
    using cluster_quota [OF _ _ st(1,2), of 1 500 "''a''"] st l by simp
qed

text \<open>One worker's \<open>shutdown()\<close> takes the limiter away from all of them: the primary deletes the store
  the workers share, and as no existing store object asks for it again, every later increment
  of the prefix, from any worker, is answered with an error.\<close>

theorem peer_shutdown_strands:
  assumes "cp_queue (sy_primary sy) = (w, WShutdown u pre) # q"
    and "\<forall>w m. on_the_way sy w m \<longrightarrow> (\<forall>opts v. m \<noteq> WInit pre opts v)"
    and "\<forall>e \<in> set es. \<not> creates pre e"
  shows "\<exists>l. sy_log (cl_run (PrimaryRun # es) sy) = sy_log sy @ l \<and>
    (\<forall>t w u k o' r. (t, w, WIncrement u pre k o', r) \<in> set l \<longrightarrow>
       r = Some (PResultErr u pre (ErrStoreMissing pre)))"
proof -
  have "\<not> creates pre PrimaryRun" by (simp add: creates_def)
  then have way: "\<forall>w m. on_the_way (cl_step PrimaryRun sy) w m \<longrightarrow> (\<forall>opts v. m \<noteq> WInit pre opts v)"
    using no_init_step [OF assms(2)] by blast
  show ?thesis
  proof (cases rule: primary_run_cases [of sy])
    case (handles w' m q' r p')
    then have m: "m = WShutdown u pre" using assms(1) by simp
    have "map_of (cp_stores p') pre = None"
      using handles(2) by (auto simp: m dispatchWorkerMessage_def handleShutdown_def mem_ops_def
          split: option.splits)
    with way handles(5) have "bereft pre (cl_step PrimaryRun sy)" by (simp add: bereft_def)
    from bereft_run [OF this assms(3)] obtain l where
      l: "sy_log (cl_run es (cl_step PrimaryRun sy)) = sy_log (cl_step PrimaryRun sy) @ l"
        "\<forall>t w u k o' r. (t, w, WIncrement u pre k o', r) \<in> set l \<longrightarrow>
          r = Some (PResultErr u pre (ErrStoreMissing pre))" by blast
    have "sy_log (cl_run (PrimaryRun # es) sy) = sy_log sy @ ((sy_now sy, w', m, r) # l)"
      using handles(3) l(1) by simp
    moreover have "\<forall>t w u k o' r'. (t, w, WIncrement u pre k o', r') \<in> set ((sy_now sy, w', m, r) # l) \<longrightarrow>
        r' = Some (PResultErr u pre (ErrStoreMissing pre))" using l(2) by (auto simp: m)
    ultimately show ?thesis by blast
  qed (use assms(1) in simp)
qed

theorem peer_shutdown_strands_witness:
  "\<exists>l. sy_log (cl_run (PrimaryRun # [Call 1 (AskIncrement ''a'' None), Resume 1 1 ''u1''] @ deliver 2)
      (cl_run (two_workers @ [Call 0 AskShutdown, Resume 0 0 ''u0'', PrimaryRecv 1]) cl_start)) =
     sy_log (cl_run (two_workers @ [Call 0 AskShutdown, Resume 0 0 ''u0'', PrimaryRecv 1]) cl_start) @ l \<and>
   (\<forall>t w u k o' r. (t, w, WIncrement u ''p'' k o', r) \<in> set l \<longrightarrow>
      r = Some (PResultErr u ''p'' (ErrStoreMissing ''p'')))"
proof -
  let ?sy = "cl_run (two_workers @ [Call 0 AskShutdown, Resume 0 0 ''u0'', PrimaryRecv 1]) cl_start"
  let ?es = "[Call 1 (AskIncrement ''a'' None), Resume 1 1 ''u1''] @ deliver 2"
  have q: "cp_queue (sy_primary ?sy) = [(1, WShutdown ''u0'' ''p'')]" by code_simp
  have "sy_up ?sy w = []" for w by (code_simp, simp)
  then have "\<forall>w m. on_the_way ?sy w m \<longrightarrow> (\<forall>opts v. m \<noteq> WInit ''p'' opts v)"
    using q by (simp add: on_the_way_def)
  moreover have "\<forall>e \<in> set ?es. \<not> creates ''p'' e" by (simp add: creates_def deliver_def)
  ultimately show ?thesis using peer_shutdown_strands [OF q, of ?es] by simp
qed

end
