(* ===== verification/Header_Format.thy ===== *)
theory Header_Format
  imports Rate_Limit_Engine
begin

text \<open>
  The response headers: \<open>src/headers/formatHeaders.ts\<close> (the four header profiles),
  \<open>src/headers/resolveConfig.ts\<close> (which profile, limit, window and policy name a response describes)
  and \<open>src/middleware/validate-header-options.ts\<close>. A header map is an association list in insertion
  order. \<open>String(n)\<close> of an integer below \<open>10 ^ 21\<close> is its decimal form; \<open>Math.ceil(a / 1000)\<close> is exact
  below \<open>2 ^ 53\<close>. Strings are lists of 8-bit characters, a subset of the UTF-16 code units. The
  middleware option object is the record \<open>mw_options\<close>: the engine's options and what the middlewares
  read besides them.
\<close>

section \<open>Numbers as text\<close>

definition digit_char :: "nat \<Rightarrow> char" where
  "digit_char d = char_of (48 + d)"

fun show_nat :: "nat \<Rightarrow> string" where
  "show_nat n = (if n < 10 then [digit_char n] else show_nat (n div 10) @ [digit_char (n mod 10)])"

declare show_nat.simps [simp del]

definition js_show :: "int \<Rightarrow> string" where
  "js_show n = (if n < 0 then CHR ''-'' # show_nat (nat (- n)) else show_nat (nat n))"

definition ceil_seconds :: "int \<Rightarrow> int" where
  "ceil_seconds ms = - ((- ms) div 1000)"

section \<open>The header profiles (headers/formatHeaders.ts)\<close>

record header_input =
  hi_limit :: int
  hi_remaining :: int
  hi_resetTime :: time
  hi_isBlocked :: bool
  hi_windowMs :: int
  hi_identifier :: string

type_synonym header_map = "(string, string) jsmap"

record header_output =
  ho_headers :: header_map
  ho_legacyHeaders :: "header_map option"

definition defaultRateLimitIdentifier :: "int \<Rightarrow> int \<Rightarrow> string" where
  "defaultRateLimitIdentifier limit windowMs =
     (let w = max 1 (ceil_seconds windowMs) in js_show limit @ ''-per-'' @ js_show w)"

definition printable :: "char \<Rightarrow> bool" where
  "printable c = (let n = (of_char c :: nat) in 32 \<le> n \<and> n \<le> 126)"

definition sanitizeIdentifierFor8941 :: "string \<Rightarrow> string" where
  "sanitizeIdentifierFor8941 ident = map (\<lambda>c. if printable c then c else CHR ''-'') ident"

definition secondsUntilReset :: "time \<Rightarrow> time \<Rightarrow> int" where
  "secondsUntilReset resetT nowMs = max 0 (ceil_seconds (resetT - nowMs))"

definition clampRemaining :: "int \<Rightarrow> int" where
  "clampRemaining n = max 0 n"

definition retry_after :: "bool \<Rightarrow> int \<Rightarrow> header_map" where
  "retry_after blocked s = (if blocked then [(''Retry-After'', js_show s)] else [])"

definition legacyHeaderMap :: "header_input \<Rightarrow> time \<Rightarrow> header_map" where
  "legacyHeaderMap i nowMs =
     [(''X-RateLimit-Limit'', js_show (hi_limit i)),
      (''X-RateLimit-Remaining'', js_show (clampRemaining (hi_remaining i))),
      (''X-RateLimit-Reset'', js_show (ceil_seconds (hi_resetTime i)))] @
     retry_after (hi_isBlocked i) (secondsUntilReset (hi_resetTime i) nowMs)"

definition draft6Headers :: "header_input \<Rightarrow> time \<Rightarrow> header_map" where
  "draft6Headers i nowMs =
     (let limit = hi_limit i; rem = clampRemaining (hi_remaining i);
          sur = secondsUntilReset (hi_resetTime i) nowMs; w = ceil_seconds (hi_windowMs i)
      in [(''RateLimit-Limit'', js_show limit),
          (''RateLimit-Remaining'', js_show rem),
          (''RateLimit-Reset'', js_show sur),
          (''RateLimit-Policy'', js_show limit @ '';w='' @ js_show w)] @ retry_after (hi_isBlocked i) sur)"

definition draft7Headers :: "header_input \<Rightarrow> time \<Rightarrow> header_map" where
  "draft7Headers i nowMs =
     (let limit = hi_limit i; rem = clampRemaining (hi_remaining i);
          sur = secondsUntilReset (hi_resetTime i) nowMs; w = ceil_seconds (hi_windowMs i)
      in [(''RateLimit'', ''limit='' @ js_show limit @ '', remaining='' @ js_show rem @ '', reset='' @ js_show sur),
          (''RateLimit-Policy'', js_show limit @ '';w='' @ js_show w)] @ retry_after (hi_isBlocked i) sur)"

definition quoted :: "string \<Rightarrow> string" where
  "quoted s = CHR 0x22 # s @ [CHR 0x22]"

definition draft8Headers :: "header_input \<Rightarrow> time \<Rightarrow> header_map" where
  "draft8Headers i nowMs =
     (let limit = hi_limit i; rem = clampRemaining (hi_remaining i);
          sur = secondsUntilReset (hi_resetTime i) nowMs; w = ceil_seconds (hi_windowMs i);
          ident = sanitizeIdentifierFor8941 (hi_identifier i)
      in [(''RateLimit-Policy'', quoted ident @ '';q='' @ js_show limit @ '';w='' @ js_show w),
          (''RateLimit'', quoted ident @ '';r='' @ js_show rem @ '';t='' @ js_show sur)] @
         retry_after (hi_isBlocked i) sur)"

text \<open>The switch; a format is a string at run time, and an unknown one throws.\<close>

definition profile_headers :: "header_input \<Rightarrow> string \<Rightarrow> time \<Rightarrow> string + header_map" where
  "profile_headers i fmt nowMs =
     (if fmt = ''legacy'' then Inr (legacyHeaderMap i nowMs)
      else if fmt = ''draft-6'' then Inr (draft6Headers i nowMs)
      else if fmt = ''draft-7'' then Inr (draft7Headers i nowMs)
      else if fmt = ''draft-8'' then Inr (draft8Headers i nowMs)
      else Inl (''Unsupported header format: '' @ fmt))"

definition formatRateLimitHeaders :: "header_input \<Rightarrow> string \<Rightarrow> bool \<Rightarrow> time \<Rightarrow> string + header_output" where
  "formatRateLimitHeaders i fmt includeLegacy nowMs =
     (case profile_headers i fmt nowMs of
        Inl e \<Rightarrow> Inl e
      | Inr hs \<Rightarrow>
          Inr \<lparr>ho_headers = hs,
               ho_legacyHeaders = (if includeLegacy \<and> fmt \<noteq> ''legacy'' then Some (legacyHeaderMap i nowMs) else None)\<rparr>)"

section \<open>Option objects of the middlewares\<close>

text \<open>\<open>standardHeaders\<close>, as \<open>typeof\<close> sees it; symbols and other values print as the given text.\<close>

datatype standard_headers = ShAbsent | ShBool bool | ShString string | ShOther string | ShSymbol string

datatype identifier_option = IdAbsent | IdString string | IdOther

record 'q mw_options =
  mo_engine :: "'q engine_options"
  mo_interval :: "int option"
  mo_windowMs :: "int option"
  mo_limitWindows :: "js_value list"
  mo_standardHeaders :: standard_headers
  mo_headers :: "bool option"
  mo_legacyHeaders :: "bool option"
  mo_identifier :: identifier_option
  mo_statusCode :: "int option"
  mo_message :: "json option"
  mo_blocklistStatusCode :: "int option"
  mo_blocklistMessage :: "json option"
  mo_skipFailedRequests :: bool
  mo_skipSuccessfulRequests :: bool
  mo_onLimitReached :: "('q \<Rightarrow> consume_result \<Rightarrow> string option) option"

section \<open>Validation (middleware/validate-header-options.ts)\<close>

definition STANDARD_HEADER_STRINGS :: "string list" where
  "STANDARD_HEADER_STRINGS = [''legacy'', ''draft-6'', ''draft-7'', ''draft-8'']"

definition isInvalidStandardHeaders :: "standard_headers \<Rightarrow> bool" where
  "isInvalidStandardHeaders v =
     (case v of ShAbsent \<Rightarrow> False | ShBool _ \<Rightarrow> False | ShString s \<Rightarrow> s \<notin> set STANDARD_HEADER_STRINGS | ShOther _ \<Rightarrow> True | ShSymbol _ \<Rightarrow> True)"

definition formatStandardHeadersError :: "standard_headers \<Rightarrow> string" where
  "formatStandardHeadersError v =
     (let shown = (case v of ShString s \<Rightarrow> [CHR 0x27] @ s @ [CHR 0x27] | ShOther s \<Rightarrow> [CHR 0x27] @ s @ [CHR 0x27] | ShSymbol s \<Rightarrow> s | _ \<Rightarrow> '''')
      in ''standardHeaders must be one of: 'legacy', 'draft-6', 'draft-7', 'draft-8', true, or false. Got: '' @ shown)"

definition non_ascii :: "string \<Rightarrow> bool" where
  "non_ascii s = list_ex (\<lambda>c. (of_char c :: nat) > 127) s"

text \<open>The result, whether a warning was printed, and the module's warned-once flag.\<close>

definition validateRateLimitHeaderOptions :: "'q mw_options \<Rightarrow> bool \<Rightarrow> (string + unit) \<times> bool \<times> bool" where
  "validateRateLimitHeaderOptions mo hasWarned =
     (if isInvalidStandardHeaders (mo_standardHeaders mo)
      then (Inl (formatStandardHeadersError (mo_standardHeaders mo)), False, hasWarned)
      else case mo_identifier mo of
             IdOther \<Rightarrow> (Inl ''identifier must be a string when provided'', False, hasWarned)
           | IdAbsent \<Rightarrow> (Inr (), False, hasWarned)
           | IdString s \<Rightarrow> if non_ascii s \<and> \<not> hasWarned then (Inr (), True, True) else (Inr (), False, hasWarned))"

section \<open>Resolution (headers/resolveConfig.ts)\<close>

record resolved_header_config =
  rhc_format :: "string option"
  rhc_includeLegacy :: bool
  rhc_identifier :: string
  rhc_resolvedLimit :: int
  rhc_resolvedWindowMs :: int

definition pick_slot :: "int list \<Rightarrow> nat option \<Rightarrow> int" where
  "pick_slot xs slot =
     (case slot of
        Some i \<Rightarrow> if i < length xs then xs ! i else min_list1 (hd xs) (tl xs)
      | None \<Rightarrow> min_list1 (hd xs) (tl xs))"

definition opt_or :: "'a option \<Rightarrow> 'a \<Rightarrow> 'a" where
  "opt_or x d = (case x of Some v \<Rightarrow> v | None \<Rightarrow> d)"

definition resolveWindowMsForHeaders :: "'q mw_options \<Rightarrow> nat option \<Rightarrow> int" where
  "resolveWindowMsForHeaders mo slot =
     (if eo_strategy (mo_engine mo) = TOKEN_BUCKET then opt_or (mo_interval mo) 60000
      else if mo_limitWindows mo \<noteq> [] then pick_slot (map (\<lambda>v. sanitizeWindowMs v 60000) (mo_limitWindows mo)) slot
      else if eo_grouped (mo_engine mo) \<noteq> [] then pick_slot (map gw_windowMs (eo_grouped (mo_engine mo))) slot
      else opt_or (mo_windowMs mo) 60000)"

text \<open>\<open>format\<close> is \<open>false\<close> (here \<open>None\<close>) or a profile. Values that validation refuses (a
  \<open>standardHeaders\<close> or an \<open>identifier\<close> of another type) do not get here.\<close>

definition header_profile :: "'q mw_options \<Rightarrow> string option \<times> bool" where
  "header_profile mo =
     (case mo_standardHeaders mo of
        ShBool b \<Rightarrow> if b then (Some ''legacy'', True) else (None, False)
      | ShString s \<Rightarrow> (Some s, opt_or (mo_legacyHeaders mo) False)
      | ShOther s \<Rightarrow> (Some s, opt_or (mo_legacyHeaders mo) False)
      | ShSymbol s \<Rightarrow> (Some s, opt_or (mo_legacyHeaders mo) False)
      | ShAbsent \<Rightarrow>
          (case mo_headers mo of
             Some h \<Rightarrow> (if h then Some ''legacy'' else None, h)
           | None \<Rightarrow> (Some ''legacy'', True)))"

definition resolveHeaderConfig :: "'q mw_options \<Rightarrow> 'q option \<Rightarrow> nat option \<Rightarrow> resolved_header_config" where
  "resolveHeaderConfig mo req slot =
     (let (fmt, inc) = header_profile mo;
          resolvedWindowMs = resolveWindowMsForHeaders mo slot;
          resolvedLimit = getLimit (mo_engine mo) req slot
      in \<lparr>rhc_format = fmt, rhc_includeLegacy = inc,
          rhc_identifier = (case mo_identifier mo of
              IdString s \<Rightarrow> s | _ \<Rightarrow> defaultRateLimitIdentifier resolvedLimit resolvedWindowMs),
          rhc_resolvedLimit = resolvedLimit, rhc_resolvedWindowMs = resolvedWindowMs\<rparr>)"

end
