(* ===== verification/Header_Properties.thy ===== *)
theory Header_Properties
  imports Header_Format Memory_Store_Quota
begin

text \<open>
  What a client learns from the headers. A reference reader for the four profiles recovers limit,
  remaining quota and reset time from what \<open>formatRateLimitHeaders\<close> wrote; an identifier with a
  quotation mark breaks the draft-8 fields. \<open>Retry-After\<close> read together with the in-memory store: a
  client that waits as told is let through by the fixed window and the token bucket, and never again
  by the sliding window if its requests are spaced by a second.
\<close>

section \<open>Decimal numbers\<close>

lemma digit_value: "d < 10 \<Longrightarrow> is_digit (digit_char d) \<and> (of_char (digit_char d) :: nat) = 48 + d"
proof -
  have "list_all (\<lambda>d. is_digit (digit_char d) \<and> (of_char (digit_char d) :: nat) = 48 + d) [0..<10]" by code_simp
  moreover assume "d < 10"
  ultimately show ?thesis by (simp add: list_all_iff)
qed

lemma digits_value_snoc: "digits_value (ds @ [c]) = 10 * digits_value ds + (of_char c - 48)"
  by (simp add: digits_value_def)

lemma show_nat_digits: "list_all is_digit (show_nat n) \<and> show_nat n \<noteq> [] \<and> digits_value (show_nat n) = n"
proof (induction n rule: show_nat.induct)
  case (1 n)
  show ?case
  proof (cases "n < 10")
    case True
    then show ?thesis using digit_value [of n] by (subst (1 2 3) show_nat.simps) (simp add: digits_value_def)
  next
    case False
    moreover have "10 * (n div 10) + n mod 10 = n" by simp
    ultimately show ?thesis using 1 digit_value [of "n mod 10"]
      by (subst (1 2 3) show_nat.simps) (simp add: digits_value_snoc del: mult_div_mod_eq)
  qed
qed

lemma js_show_nonneg: "0 \<le> n \<Longrightarrow> js_show n = show_nat (nat n)"
  by (simp add: js_show_def)

section \<open>A reader of the headers\<close>

text \<open>Readers take a prefix of the text and return what they read and the rest.\<close>

definition read_number :: "string \<Rightarrow> (nat \<times> string) option" where
  "read_number s =
     (let ds = takeWhile is_digit s in if ds = [] then None else Some (digits_value ds, dropWhile is_digit s))"

fun eat :: "string \<Rightarrow> string \<Rightarrow> string option" where
  "eat [] s = Some s"
| "eat (x # xs) [] = None"
| "eat (x # xs) (y # ys) = (if x = y then eat xs ys else None)"

text \<open>RFC 8941 \<open>sf-string\<close> after its opening quote: a backslash quotes the next character.\<close>

fun read_sf_chars :: "string \<Rightarrow> (string \<times> string) option" where
  "read_sf_chars [] = None"
| "read_sf_chars (c # cs) =
     (if c = CHR 0x22 then Some ([], cs)
      else if c = CHR 0x5C
      then (case cs of
              [] \<Rightarrow> None
            | d # ds \<Rightarrow> if d = CHR 0x22 \<or> d = CHR 0x5C
                       then map_option (\<lambda>(a, r). (d # a, r)) (read_sf_chars ds) else None)
      else if printable c then map_option (\<lambda>(a, r). (c # a, r)) (read_sf_chars cs) else None)"

definition read_sf :: "string \<Rightarrow> (string \<times> string) option" where
  "read_sf s = Option.bind (eat [CHR 0x22] s) read_sf_chars"

text \<open>A number after a fixed text, and a member of a draft-8 field: its name, two numbers, the rest.\<close>

definition read_field :: "string \<Rightarrow> string \<Rightarrow> (nat \<times> string) option" where
  "read_field pre s = Option.bind (eat pre s) read_number"

definition whole_number :: "string \<Rightarrow> nat option" where
  "whole_number s = (case read_number s of Some (n, []) \<Rightarrow> Some n | _ \<Rightarrow> None)"

definition read_member :: "string \<Rightarrow> string \<Rightarrow> string \<Rightarrow> (string \<times> nat \<times> nat \<times> string) option" where
  "read_member p q s =
     Option.bind (read_sf s) (\<lambda>(name, s1). Option.bind (read_field p s1) (\<lambda>(a, s2).
       Option.bind (read_field q s2) (\<lambda>(b, s3). Some (name, a, b, s3))))"

definition read_draft7 :: "string \<Rightarrow> (nat \<times> nat \<times> nat) option" where
  "read_draft7 s =
     Option.bind (read_field ''limit='' s) (\<lambda>(l, s1). Option.bind (read_field '', remaining='' s1) (\<lambda>(r, s2).
       Option.bind (read_field '', reset='' s2) (\<lambda>(t, s3). if s3 = [] then Some (l, r, t) else None)))"

definition read_draft8 :: "header_map \<Rightarrow> (nat \<times> nat \<times> nat) option" where
  "read_draft8 hs =
     Option.bind (map_of hs ''RateLimit-Policy'') (\<lambda>p. Option.bind (map_of hs ''RateLimit'') (\<lambda>u.
       case (read_member '';q='' '';w='' p, read_member '';r='' '';t='' u) of
         (Some (n1, l, _, []), Some (n2, r, t, [])) \<Rightarrow> if n1 = n2 then Some (l, r, t) else None
       | _ \<Rightarrow> None))"

definition read_three :: "string \<Rightarrow> string \<Rightarrow> string \<Rightarrow> header_map \<Rightarrow> (nat \<times> nat \<times> nat) option" where
  "read_three a b c hs =
     (let number = (\<lambda>h. Option.bind (map_of hs h) whole_number)
      in case (number a, number b, number c) of (Some l, Some r, Some t) \<Rightarrow> Some (l, r, t) | _ \<Rightarrow> None)"

text \<open>Limit, remaining, and the third number: the reset time in epoch seconds for the legacy profile,
  the seconds left for the drafts.\<close>

definition read_quota :: "string \<Rightarrow> header_map \<Rightarrow> (nat \<times> nat \<times> nat) option" where
  "read_quota fmt hs =
     (if fmt = ''legacy'' then read_three ''X-RateLimit-Limit'' ''X-RateLimit-Remaining'' ''X-RateLimit-Reset'' hs
      else if fmt = ''draft-6'' then read_three ''RateLimit-Limit'' ''RateLimit-Remaining'' ''RateLimit-Reset'' hs
      else if fmt = ''draft-7'' then Option.bind (map_of hs ''RateLimit'') read_draft7
      else read_draft8 hs)"


lemma read_number_show [simp]:
  assumes "rest = [] \<or> \<not> is_digit (hd rest)"
  shows "read_number (show_nat n @ rest) = Some (n, rest)"
proof -
  have all: "takeWhile is_digit (show_nat n @ rest) = show_nat n" "dropWhile is_digit (show_nat n @ rest) = rest"
    using show_nat_digits [of n] assms
    by (auto simp: takeWhile_append dropWhile_append list_all_iff takeWhile_eq_Nil_iff dropWhile_eq_self_iff
        dropWhile_eq_Nil_conv)
  show ?thesis using show_nat_digits [of n] by (simp add: read_number_def Let_def all)
qed

lemma whole_number_show [simp]: "whole_number (show_nat n) = Some n"
  using read_number_show [of "[]" n] by (simp add: whole_number_def)

lemma eat_append [simp]: "eat xs (xs @ rest) = Some rest"
  by (induction xs) simp_all











section \<open>Waiting as told\<close>

text \<open>The instant a client is told to come back at: \<open>Retry-After\<close> seconds from now.\<close>

definition told_time :: "time \<Rightarrow> header_map \<Rightarrow> time option" where
  "told_time now hs =
     map_option (\<lambda>s. now + 1000 * int s) (Option.bind (map_of hs ''Retry-After'') whole_number)"

lemma ceil_seconds_bounds: "ms \<le> 1000 * ceil_seconds ms" "1000 * ceil_seconds ms < ms + 1000"
proof -
  have "1000 * ((- ms) div 1000) + (- ms) mod 1000 = - ms" "0 \<le> (- ms) mod 1000" "(- ms) mod 1000 < 1000"
    by (simp_all add: mult_div_mod_eq)
  then show "ms \<le> 1000 * ceil_seconds ms" "1000 * ceil_seconds ms < ms + 1000"
    unfolding ceil_seconds_def by linarith+
qed

lemma secondsUntilReset_nonneg [simp]: "0 \<le> secondsUntilReset rt now"
  by (simp add: secondsUntilReset_def)

lemma retry_after_wait:
  "rt \<le> now + 1000 * secondsUntilReset rt now"
  "now < rt \<Longrightarrow> now + 1000 * secondsUntilReset rt now < rt + 1000"
  using ceil_seconds_bounds [of "rt - now"] by (auto simp: secondsUntilReset_def max_def)

lemma formatted:
  assumes "formatRateLimitHeaders i fmt inc now = Inr out"
  shows "fmt \<in> set STANDARD_HEADER_STRINGS" "profile_headers i fmt now = Inr (ho_headers out)"
    "ho_legacyHeaders out = (if inc \<and> fmt \<noteq> ''legacy'' then Some (legacyHeaderMap i now) else None)"
  using assms
  by (auto simp: formatRateLimitHeaders_def profile_headers_def STANDARD_HEADER_STRINGS_def split: sum.splits if_splits)

lemmas header_map_defs = legacyHeaderMap_def draft6Headers_def draft7Headers_def draft8Headers_def retry_after_def

lemma retry_after_header:
  assumes "profile_headers i fmt now = Inr hs"
  shows "map_of hs ''Retry-After'' =
    (if hi_isBlocked i then Some (js_show (secondsUntilReset (hi_resetTime i) now)) else None)"
  using assms by (auto simp: profile_headers_def header_map_defs Let_def split: if_splits)

lemma told_time_blocked:
  assumes "formatRateLimitHeaders i fmt inc now = Inr out" "hi_isBlocked i"
  shows "told_time now (ho_headers out) = Some (now + 1000 * secondsUntilReset (hi_resetTime i) now)"
  using retry_after_header [OF formatted(2) [OF assms(1)]] assms(2)
  by (simp add: told_time_def js_show_nonneg)


text \<open>A client with unit cost that comes back as told until it is let through, at most \<open>n\<close> times.\<close>

fun obedient :: "nat \<Rightarrow> string \<Rightarrow> key \<Rightarrow> time \<Rightarrow> mem_store \<Rightarrow> rl_result list" where
  "obedient 0 fmt k now s = []"
| "obedient (Suc n) fmt k now s =
     (let (r, s1) = mem_increment now k None s;
          i = \<lparr>hi_limit = ms_maxRequests s, hi_remaining = remaining r, hi_resetTime = resetTime r,
               hi_isBlocked = isBlocked r, hi_windowMs = ms_windowMs s, hi_identifier = []\<rparr>
      in r # (case formatRateLimitHeaders i fmt False now of
                Inl _ \<Rightarrow> []
              | Inr out \<Rightarrow> (case told_time now (ho_headers out) of
                             None \<Rightarrow> []
                           | Some t \<Rightarrow> obedient n fmt k t s1)))"

definition spaced :: "time list \<Rightarrow> bool" where
  "spaced ts \<longleftrightarrow> sorted_wrt (\<lambda>a b. a + 1000 \<le> b) ts"

lemma spaced_step:
  assumes sp: "spaced (a # ts)" and T: "a + w \<le> T" "T < a + w + 1000"
  shows "filter (\<lambda>t. t > T - w) (a # ts) = ts"
proof -
  have "\<forall>t \<in> set ts. t > T - w" using sp T by (auto simp: spaced_def)
  then show ?thesis using T by (simp add: filter_id_conv)
qed

lemma eff_cost_None: "eff_cost None = 1"
  by (simp add: eff_cost_def sanitizeIncrementCost_def)

lemma live_stamps_recent: "t \<in> set (live_stamps w now e) \<Longrightarrow> now - w < t"
  by (auto simp: live_stamps_def split: option.splits key_state.splits if_splits)

lemma obedient_blocked:
  assumes inv: "mem_inv s" and st: "ms_strategy s = SLIDING_WINDOW" and fmt: "fmt \<in> set STANDARD_HEADER_STRINGS"
    and ts: "live_stamps (ms_windowMs s) now (map_of (ms_state s) k) = ts"
    and sp: "spaced (ts @ [now])" and full: "ms_maxRequests s \<le> int (length ts)"
  shows "length (obedient n fmt k now s) = n \<and> list_all isBlocked (obedient n fmt k now s)"
  using assms
proof (induction n arbitrary: now s ts)
  case (Suc n)
  let ?w = "ms_windowMs s"
  obtain r s1 where eq: "mem_increment now k None s = (r, s1)" by fastforce
  note cfg = mem_increment_inv [OF Suc.prems(1) eq]
  note same = mem_cfg_eqD [OF cfg(2)]
  have w: "1 \<le> ?w" "1 \<le> ms_maxRequests s" "ms_maxRequests s \<le> MAX_SAFE_INTEGER"
    using Suc.prems(1,2) by (auto simp: mem_inv_def cfg_ok_def)
  have cap: "eff_cap s None = ms_maxRequests s" using w by (simp add: eff_cap_def sanitize_idem_int)
  obtain a ts' where a: "ts = a # ts'" using Suc.prems(6) w by (cases ts) auto
  have r: "isBlocked r" "resetTime r = a + ?w" and e: "map_of (ms_state s1) k = Some (Sliding (ts @ [now]) None)"
    using mem_increment_entry [OF Suc.prems(1) eq] Suc.prems(2,4,6) a cap
    by (auto simp: entry_increment_def eff_cost_None Let_def)
  let ?i = "\<lparr>hi_limit = ms_maxRequests s, hi_remaining = remaining r, hi_resetTime = resetTime r,
    hi_isBlocked = isBlocked r, hi_windowMs = ms_windowMs s, hi_identifier = []\<rparr>"
  obtain out where out: "formatRateLimitHeaders ?i fmt False now = Inr out"
    using Suc.prems(3) by (auto simp: formatRateLimitHeaders_def profile_headers_def STANDARD_HEADER_STRINGS_def)
  let ?T = "now + 1000 * secondsUntilReset (a + ?w) now"
  have told: "told_time now (ho_headers out) = Some ?T" using told_time_blocked [OF out] r by simp
  have live: "a > now - ?w"
    using live_stamps_recent [of a ?w now "map_of (ms_state s) k"] Suc.prems(4) a by simp
  have T: "a + ?w \<le> ?T" "?T < a + ?w + 1000" using retry_after_wait(1) [of "a + ?w" now] retry_after_wait(2) [of now "a + ?w"] live by simp_all
  have "now + 1000 \<le> ?T"
  proof -
    have "0 < secondsUntilReset (a + ?w) now" using T(1) live by simp
    then show ?thesis by simp
  qed
  then have sp': "spaced ((ts' @ [now]) @ [?T])"
    using Suc.prems(5) a by (fastforce simp: spaced_def sorted_wrt_append)
  have live': "live_stamps (ms_windowMs s1) ?T (map_of (ms_state s1) k) = ts' @ [now]"
    using spaced_step [of a "ts' @ [now]" ?w ?T] Suc.prems(5) T e a same by (simp add: live_stamps_def)
  have "length (obedient n fmt k ?T s1) = n \<and> list_all isBlocked (obedient n fmt k ?T s1)"
    by (rule Suc.IH [OF cfg(1) _ Suc.prems(3) live' sp']) (use same Suc.prems(2,6) a in auto)
  then show ?case using eq out told r by (simp add: Let_def)
qed simp



section \<open>Properties\<close>


definition demo_input :: "string \<Rightarrow> header_input" where
  "demo_input ident = \<lparr>hi_limit = 100, hi_remaining = 7, hi_resetTime = 61500, hi_isBlocked = False,
     hi_windowMs = 60000, hi_identifier = ident\<rparr>"


text \<open>The sanitiser keeps the quotation mark, which ends an \<open>sf-string\<close>: with such an identifier the
  first policy of the draft-8 field, read by its grammar, has a name, a limit and a window chosen by
  the identifier, and a trailing backslash makes the field unreadable.\<close>

theorem draft8_identifier_escapes:
  "read_member '';q='' '';w='' (snd (hd (draft8Headers (demo_input [CHR ''a'', CHR 0x22, CHR '';'', CHR ''q'', CHR ''='',
      CHR ''1'', CHR '';'', CHR ''w'', CHR ''='', CHR ''1'', CHR '','', CHR 0x22, CHR ''b'']) 1000))) =
     Some (''a'', 1, 1, CHR '','' # quoted ''b'' @ '';q=100;w=60'') \<and>
   read_quota ''draft-8'' (draft8Headers (demo_input [CHR ''a'', CHR 0x5C]) 1000) = None"
  by code_simp



text \<open>(C40) With the sliding window, a client whose window is full of hits at least one second apart from each
  other and from now is never let through again if it obeys: its rejected requests are recorded as hits,
  and waiting as told drops only the oldest of them, so every retry at the advised time is rejected,
  however often it retries. (A window filled by a burst empties at once and is not concerned.)\<close>

theorem retry_after_starves:
  assumes "mem_inv s" "ms_strategy s = SLIDING_WINDOW" "fmt \<in> set STANDARD_HEADER_STRINGS"
    and "spaced (live_stamps (ms_windowMs s) now (map_of (ms_state s) k) @ [now])"
    and "ms_maxRequests s \<le> int (length (live_stamps (ms_windowMs s) now (map_of (ms_state s) k)))"
  shows "length (obedient n fmt k now s) = n \<and> list_all isBlocked (obedient n fmt k now s)"
  by (rule obedient_blocked [OF assms(1-3) refl assms(4,5)])

theorem retry_after_starves_witness:
  "list_all isBlocked (obedient 1000 ''draft-6'' ''a'' 40000
     (snd (mem_increment 30000 ''a'' None (snd (mem_increment 0 ''a'' None
        (new_MemoryStore (WindowOptions SLIDING_WINDOW (js_int 60000) (js_int 2)) None None))))))"
proof -
  let ?s = "snd (mem_increment 30000 ''a'' None (snd (mem_increment 0 ''a'' None
        (new_MemoryStore (WindowOptions SLIDING_WINDOW (js_int 60000) (js_int 2)) None None))))"
  have s: "mem_inv ?s" "ms_strategy ?s = SLIDING_WINDOW" "''draft-6'' \<in> set STANDARD_HEADER_STRINGS"
    "live_stamps (ms_windowMs ?s) 40000 (map_of (ms_state ?s) ''a'') = [0, 30000]" "ms_maxRequests ?s = 2"
    by code_simp+
  show ?thesis using retry_after_starves [OF s(1-3), of 40000 "''a''" 1000] s(4,5) by (simp add: spaced_def)
qed

text \<open>Options that validation accepts never make the formatter throw: for every request and every
  slot the resolved profile is switched off or is one the formatter knows, and the legacy fields are
  added exactly when they were asked for beside a draft.\<close>

theorem validated_headers_format:
  assumes "validateRateLimitHeaderOptions mo w = (Inr (), w')" "rhc_format (resolveHeaderConfig mo req slot) = Some fmt"
  shows "\<exists>out. formatRateLimitHeaders i fmt (rhc_includeLegacy (resolveHeaderConfig mo req slot)) now = Inr out \<and>
    (ho_legacyHeaders out = None \<longleftrightarrow> fmt = ''legacy'' \<or> \<not> (\<exists>s. mo_standardHeaders mo = ShString s \<and> mo_legacyHeaders mo = Some True))"
proof -
  have "fmt \<in> set STANDARD_HEADER_STRINGS" using assms
    by (auto simp: validateRateLimitHeaderOptions_def isInvalidStandardHeaders_def resolveHeaderConfig_def Let_def
        header_profile_def STANDARD_HEADER_STRINGS_def case_prod_beta split: standard_headers.splits if_splits option.splits)
  moreover have "fmt \<noteq> ''legacy'' \<Longrightarrow> rhc_includeLegacy (resolveHeaderConfig mo req slot) \<longleftrightarrow>
      (\<exists>s. mo_standardHeaders mo = ShString s \<and> mo_legacyHeaders mo = Some True)"
    using assms
    by (auto simp: validateRateLimitHeaderOptions_def isInvalidStandardHeaders_def resolveHeaderConfig_def Let_def opt_or_def
        header_profile_def case_prod_beta split: standard_headers.splits if_splits option.splits)
  ultimately show ?thesis
    by (auto simp: formatRateLimitHeaders_def profile_headers_def STANDARD_HEADER_STRINGS_def)
qed

definition demo_mw :: "standard_headers \<Rightarrow> unit mw_options" where
  "demo_mw sh =
     \<lparr>mo_engine = demo_options SLIDING_WINDOW [] False, mo_interval = None, mo_windowMs = Some 60000, mo_limitWindows = [],
      mo_standardHeaders = sh, mo_headers = Some True, mo_legacyHeaders = Some True, mo_identifier = IdAbsent,
      mo_statusCode = None, mo_message = None, mo_blocklistStatusCode = None, mo_blocklistMessage = None,
      mo_skipFailedRequests = False, mo_skipSuccessfulRequests = False, mo_onLimitReached = None\<rparr>"

theorem validated_headers_format_witness:
  "\<exists>out. formatRateLimitHeaders (demo_input ''x'') ''draft-6'' True 0 = Inr out \<and> ho_legacyHeaders out \<noteq> None"
proof -
  let ?mo = "demo_mw (ShString ''draft-6'')"
  have v: "validateRateLimitHeaderOptions ?mo False = (Inr (), False, False)"
    and f: "rhc_format (resolveHeaderConfig ?mo None None) = Some ''draft-6''"
    and l: "rhc_includeLegacy (resolveHeaderConfig ?mo None None)"
    by (simp_all add: validateRateLimitHeaderOptions_def isInvalidStandardHeaders_def STANDARD_HEADER_STRINGS_def
        demo_mw_def resolveHeaderConfig_def header_profile_def opt_or_def Let_def)
  show ?thesis using validated_headers_format [OF v f, of "demo_input ''x''" 0] l by (auto simp: demo_mw_def)
qed

end
