(* ===== verification/Http_Middleware.thy ===== *)
theory Http_Middleware
  imports Header_Format
begin

text \<open>
  The HTTP adapters around the engine: \<open>src/middleware/express.ts\<close>, \<open>src/middleware/fastify.ts\<close>,
  \<open>src/hono/rateLimiter.ts\<close> with \<open>src/hono/utils.ts\<close>, the response helpers of
  \<open>src/middleware/merge-options.ts\<close> and \<open>src/middleware/decrement-stores-after-consume.ts\<close>. An adapter turns a
  request into an \<open>exchange\<close>, what it writes on the response and attaches to the request, and whether
  the request goes on to the application. The refund for \<open>skipFailedRequests\<close> and
  \<open>skipSuccessfulRequests\<close> is a second step, when the response is finished with a status. The state is
  the engine's. A callback may throw; \<open>keyGenerator\<close> is a function into errors and keys. The metrics
  manager that the adapters start is not part of the exchange.
\<close>

section \<open>Exchanges\<close>

record rate_limit_info =
  info_limit :: int
  info_current :: int
  info_remaining :: int
  info_resetTime :: time

text \<open>\<open>ex_cost\<close> is the cost variable of a Hono context; an unset variable is read as 1.\<close>

text \<open>The request goes on to the application, the response was sent, or the error handler is called.\<close>

datatype flow = Continue | Replied | Failed string

record exchange =
  ex_headers :: header_map
  ex_status :: int
  ex_body :: "json option"
  ex_rateLimit :: "rate_limit_info option"
  ex_composed :: "consume_result option"
  ex_key :: "key option"
  ex_refund :: "bool \<times> bool"
  ex_cost :: js_value
  ex_flow :: flow

definition new_exchange :: exchange where
  "new_exchange = \<lparr>ex_headers = [], ex_status = 200, ex_body = None, ex_rateLimit = None, ex_composed = None,
     ex_key = None, ex_refund = (False, False), ex_cost = js_int 1, ex_flow = Continue\<rparr>"

section \<open>Helpers of merge-options.ts\<close>

definition reason_type :: "block_reason \<Rightarrow> string" where
  "reason_type r = (case r of Manual _ \<Rightarrow> ''manual'' | PenaltyEscalation _ _ _ \<Rightarrow> ''penalty-escalation''
     | AbusePattern _ \<Rightarrow> ''abuse-pattern'' | Custom _ _ \<Rightarrow> ''custom'')"

definition json_spread :: "json \<Rightarrow> (string \<times> json) list" where
  "json_spread j =
     (case j of
        JObject kvs \<Rightarrow> kvs
      | JArray xs \<Rightarrow> map (\<lambda>(i, x). (js_show (int i), x)) (zip [0..<length xs] xs)
      | _ \<Rightarrow> [])"

text \<open>\<open>km.getBlockInfo(key)\<close> on the engine's key manager, if there is one.\<close>

definition mw_block_info :: "'k km_methods \<Rightarrow> time \<Rightarrow> key \<Rightarrow> ('s, 'k, 'q) engine \<Rightarrow> block option \<times> ('s, 'k, 'q) engine" where
  "mw_block_info kmo now k en =
     (case en_km en of
        None \<Rightarrow> (None, en)
      | Some km \<Rightarrow> (let (info, km1) = kmi_getBlockInfo kmo now k km in (info, en\<lparr>en_km := Some km1\<rparr>)))"

definition keyManagerBlockedJson ::
  "'k km_methods \<Rightarrow> 'q mw_options \<Rightarrow> time \<Rightarrow> key \<Rightarrow> ('s, 'k, 'q) engine \<Rightarrow> json \<times> ('s, 'k, 'q) engine" where
  "keyManagerBlockedJson kmo mo now k en =
     (let msg = opt_or (mo_message mo) (JString ''Too many requests'');
          base = (case msg of JString s \<Rightarrow> [(''error'', msg)] | _ \<Rightarrow> json_spread msg);
          (info, en1) = mw_block_info kmo now k en;
          reason = (case info of Some b \<Rightarrow> reason_type (bl_reason b) | None \<Rightarrow> ''manual'');
          expires = (case info of Some b \<Rightarrow> (case bl_expiresAt b of Some t \<Rightarrow> JDate t | None \<Rightarrow> JNull) | None \<Rightarrow> JNull)
      in (JObject (AList.update ''expiresAt'' expires (AList.update ''reason'' (JString reason)
            (AList.update ''blocked'' (JBool True) base))), en1))"

definition keyManagerRetryAfterSeconds ::
  "'k km_methods \<Rightarrow> time \<Rightarrow> key \<Rightarrow> ('s, 'k, 'q) engine \<Rightarrow> int option \<times> ('s, 'k, 'q) engine" where
  "keyManagerRetryAfterSeconds kmo now k en =
     (let (info, en1) = mw_block_info kmo now k en
      in (case info of
            None \<Rightarrow> None
          | Some b \<Rightarrow> map_option (\<lambda>t. max 0 (ceil_seconds (t - now))) (bl_expiresAt b), en1))"

definition toRateLimitInfo :: "'q mw_options \<Rightarrow> consume_result \<Rightarrow> 'q \<Rightarrow> rate_limit_info" where
  "toRateLimitInfo mo r req =
     \<lparr>info_limit = getLimit (mo_engine mo) (Some req) (cr_bindingSlotIndex r), info_current = totalHits r,
      info_remaining = remaining r, info_resetTime = resetTime r\<rparr>"

definition jsonErrorBody :: "json \<Rightarrow> json" where
  "jsonErrorBody message = JObject [(''error'', message)]"

section \<open>The refund (decrement-stores-after-consume.ts)\<close>

definition decrementStoresAfterConsume ::
  "'s store_ops \<Rightarrow> 'q mw_options \<Rightarrow> time \<Rightarrow> key \<Rightarrow> 'q \<Rightarrow> ('s, 'k, 'q) engine \<Rightarrow> ('s, 'k, 'q) engine" where
  "decrementStoresAfterConsume ops mo now k req en =
     (let eo = mo_engine mo; incOpts = resolveIncrementOpts eo req; d = matchingDecrementOptions (opt_cost incOpts)
      in if eo_grouped eo \<noteq> [] then rollback_slots ops now k d (eo_grouped eo) en
         else heap_decrement ops now k d (eo_store eo) en)"

definition refund_due :: "bool \<times> bool \<Rightarrow> int \<Rightarrow> bool" where
  "refund_due flags status =
     (let failed = (status \<ge> 400); success = (status < 400)
      in fst flags \<and> failed \<or> snd flags \<and> success)"

section \<open>Express (middleware/express.ts)\<close>

definition applyHeaderMap :: "header_map \<Rightarrow> header_map \<Rightarrow> header_map" where
  "applyHeaderMap hs res = fold (\<lambda>(n, v). AList.update n v) hs res"

text \<open>\<open>onLimitReached\<close> is taken out of the options the engine gets.\<close>

definition engine_of :: "'q mw_options \<Rightarrow> 'q engine_options" where
  "engine_of mo = (mo_engine mo)\<lparr>eo_onLimitReached := False\<rparr>"

definition header_input_of :: "resolved_header_config \<Rightarrow> consume_result \<Rightarrow> header_input" where
  "header_input_of cfg r =
     \<lparr>hi_limit = rhc_resolvedLimit cfg, hi_remaining = remaining r, hi_resetTime = resetTime r,
      hi_isBlocked = isBlocked r, hi_windowMs = rhc_resolvedWindowMs cfg, hi_identifier = rhc_identifier cfg\<rparr>"

text \<open>The header part: an error of the formatter, or none, and the headers written.\<close>

definition write_quota_headers ::
  "'q mw_options \<Rightarrow> time \<Rightarrow> 'q \<Rightarrow> consume_result \<Rightarrow> header_map \<Rightarrow> string option \<times> header_map" where
  "write_quota_headers mo now req r res =
     (let res1 = (if storeUnavailable r then AList.update ''X-RateLimit-Store'' ''fallback'' res else res);
          cfg = resolveHeaderConfig mo (Some req) (cr_bindingSlotIndex r)
      in case rhc_format cfg of
           None \<Rightarrow> (None, res1)
         | Some fmt \<Rightarrow>
             if fmt = '''' then (None, res1)
             else case formatRateLimitHeaders (header_input_of cfg r) fmt (rhc_includeLegacy cfg) now of
                    Inl e \<Rightarrow> (Some e, res1)
                  | Inr out \<Rightarrow>
                      (let res2 = applyHeaderMap (ho_headers out) res1
                       in (None, case ho_legacyHeaders out of Some l \<Rightarrow> applyHeaderMap l res2 | None \<Rightarrow> res2)))"

text \<open>The answer to a blocked request; the middle component is what \<open>onLimitReached\<close> threw.\<close>

definition blocked_status :: "'q mw_options \<Rightarrow> consume_result \<Rightarrow> int \<times> json" where
  "blocked_status mo r =
     (if cr_blockReason r = Some CauseBlocklist
      then (opt_or (mo_blocklistStatusCode mo) 403, opt_or (mo_blocklistMessage mo) (JString ''Forbidden''))
      else (opt_or (mo_statusCode mo) 429, opt_or (mo_message mo) (JString ''Too many requests'')))"

definition limit_callback :: "'q mw_options \<Rightarrow> 'q \<Rightarrow> consume_result \<Rightarrow> string option" where
  "limit_callback mo req r =
     (case mo_onLimitReached mo of
        Some f \<Rightarrow> if cr_blockReason r = Some CauseRateLimit then f req r else None
      | None \<Rightarrow> None)"

definition reply_blocked ::
  "'k km_methods \<Rightarrow> 'q mw_options \<Rightarrow> time \<Rightarrow> key \<Rightarrow> 'q \<Rightarrow> consume_result \<Rightarrow> exchange \<Rightarrow> ('s, 'k, 'q) engine \<Rightarrow>
   exchange \<times> ('s, 'k, 'q) engine" where
  "reply_blocked kmo mo now k req r ex en =
     (if storeUnavailable r \<or> cr_blockReason r = Some CauseUnavailable
      then (ex\<lparr>ex_status := 503, ex_body := Some (jsonErrorBody (JString ''Service temporarily unavailable'')),
              ex_flow := Replied\<rparr>, en)
      else if cr_blockReason r = Some CauseKeyManager \<and> en_km en \<noteq> None
      then (let status = opt_or (mo_statusCode mo) 429;
                (ra, en1) = keyManagerRetryAfterSeconds kmo now k en;
                hs = (case ra of Some s \<Rightarrow> AList.update ''Retry-After'' (js_show s) (ex_headers ex) | None \<Rightarrow> ex_headers ex);
                (body, en2) = keyManagerBlockedJson kmo mo now k en1
            in (ex\<lparr>ex_headers := hs, ex_status := status, ex_body := Some body, ex_flow := Replied\<rparr>, en2))
      else case limit_callback mo req r of
             Some e \<Rightarrow> (ex\<lparr>ex_flow := Failed e\<rparr>, en)
           | None \<Rightarrow> (let (status, msg) = blocked_status mo r
                     in (ex\<lparr>ex_status := status, ex_body := Some (jsonErrorBody msg), ex_flow := Replied\<rparr>, en)))"

definition express_request ::
  "'s store_ops \<Rightarrow> 's draft_method \<Rightarrow> 'k km_methods \<Rightarrow> 'q mw_options \<Rightarrow> ('q \<Rightarrow> string + key) \<Rightarrow> clock \<Rightarrow> 'q \<Rightarrow>
   ('s, 'k, 'q) engine \<Rightarrow> exchange \<times> ('s, 'k, 'q) engine" where
  "express_request ops dm kmo mo keyGen ck req en =
     (case keyGen req of
        Inl e \<Rightarrow> (new_exchange\<lparr>ex_flow := Failed e\<rparr>, en)
      | Inr k \<Rightarrow>
          (case consumeWithKey ops dm kmo (engine_of mo) ck k req en of
             (Inl e, en1) \<Rightarrow> (new_exchange\<lparr>ex_flow := Failed e\<rparr>, en1)
           | (Inr r, en1) \<Rightarrow>
               (let (err, hs) = write_quota_headers mo (ck_now ck) req r [];
                    ex = new_exchange\<lparr>ex_headers := hs, ex_composed := (if res_layers r = None then None else Some r)\<rparr>
                in case err of
                     Some e \<Rightarrow> (ex\<lparr>ex_flow := Failed e\<rparr>, en1)
                   | None \<Rightarrow>
                       if isBlocked r then reply_blocked kmo mo (ck_now ck) k req r ex en1
                       else (ex\<lparr>ex_rateLimit := Some (toRateLimitInfo mo r req), ex_key := Some k,
                               ex_refund := (mo_skipFailedRequests mo, mo_skipSuccessfulRequests mo),
                               ex_flow := Continue\<rparr>, en1))))"

text \<open>The \<open>finish\<close> listener, registered when one of the flags is set; \<open>status\<close> is what the application
  answered.\<close>

definition express_finish ::
  "'s store_ops \<Rightarrow> 'q mw_options \<Rightarrow> time \<Rightarrow> 'q \<Rightarrow> exchange \<Rightarrow> int \<Rightarrow> ('s, 'k, 'q) engine \<Rightarrow> ('s, 'k, 'q) engine" where
  "express_finish ops mo now req ex status en =
     (case ex_key ex of
        None \<Rightarrow> en
      | Some k \<Rightarrow> if refund_due (ex_refund ex) status then decrementStoresAfterConsume ops mo now k req en else en)"

section \<open>Fastify (middleware/fastify.ts)\<close>

definition fastify_onRequest ::
  "'s store_ops \<Rightarrow> 's draft_method \<Rightarrow> 'k km_methods \<Rightarrow> 'q mw_options \<Rightarrow> ('q \<Rightarrow> string + key) \<Rightarrow> clock \<Rightarrow> 'q \<Rightarrow>
   ('s, 'k, 'q) engine \<Rightarrow> exchange \<times> ('s, 'k, 'q) engine" where
  "fastify_onRequest ops dm kmo mo keyGen ck req en =
     (case keyGen req of
        Inl e \<Rightarrow> (new_exchange\<lparr>ex_flow := Failed e\<rparr>, en)
      | Inr k \<Rightarrow>
          (case consumeWithKey ops dm kmo (engine_of mo) ck k req en of
             (Inl e, en1) \<Rightarrow> (new_exchange\<lparr>ex_flow := Failed e\<rparr>, en1)
           | (Inr r, en1) \<Rightarrow>
               (let (err, hs) = write_quota_headers mo (ck_now ck) req r [];
                    ex = new_exchange\<lparr>ex_headers := hs, ex_composed := (if res_layers r = None then None else Some r)\<rparr>
                in case err of
                     Some e \<Rightarrow> (ex\<lparr>ex_flow := Failed e\<rparr>, en1)
                   | None \<Rightarrow>
                       if isBlocked r then reply_blocked kmo mo (ck_now ck) k req r ex en1
                       else (let ex1 = ex\<lparr>ex_rateLimit := Some (toRateLimitInfo mo r req), ex_flow := Continue\<rparr>
                             in if mo_skipFailedRequests mo \<or> mo_skipSuccessfulRequests mo
                                then ex1\<lparr>ex_key := Some k,
                                         ex_refund := (mo_skipFailedRequests mo, mo_skipSuccessfulRequests mo)\<rparr>
                                else ex1, en1))))"

text \<open>\<open>onResponse\<close>: \<open>if (!key || !flags) return\<close>.\<close>

definition fastify_onResponse ::
  "'s store_ops \<Rightarrow> 'q mw_options \<Rightarrow> time \<Rightarrow> 'q \<Rightarrow> exchange \<Rightarrow> int \<Rightarrow> ('s, 'k, 'q) engine \<Rightarrow> ('s, 'k, 'q) engine" where
  "fastify_onResponse ops mo now req ex status en =
     (case ex_key ex of
        None \<Rightarrow> en
      | Some k \<Rightarrow>
          if k = '''' then en
          else if refund_due (ex_refund ex) status then decrementStoresAfterConsume ops mo now k req en else en)"

section \<open>Hono (hono/rateLimiter.ts, hono/utils.ts)\<close>

text \<open>What the Hono options add: \<open>skip\<close>, handled before anything else, the \<open>onLimitReached\<close> and
  \<open>message\<close> functions (a response with a status and a body) that replace the shared ones, and \<open>cost\<close>,
  evaluated once per request (a number is a constant function).\<close>

record 'q hono_options =
  hono_skip :: "('q \<Rightarrow> string + bool) option"
  hono_onLimitReached :: "('q \<Rightarrow> key \<Rightarrow> string option) option"
  hono_messageFun :: "('q \<Rightarrow> string + int \<times> json) option"
  hono_cost :: "('q \<Rightarrow> string + js_value) option"

text \<open>\<open>x-forwarded-for\<close> up to the first comma and trimmed, else \<open>x-real-ip\<close>, else \<open>unknown\<close>; an absent
  header is \<open>None\<close>.\<close>

definition is_space :: "char \<Rightarrow> bool" where
  "is_space c = (c \<in> {CHR '' '', CHR 0x09, CHR 0x0A, CHR 0x0B, CHR 0x0C, CHR 0x0D, CHR 0xA0})"

definition js_trim :: "string \<Rightarrow> string" where
  "js_trim s = rev (dropWhile is_space (rev (dropWhile is_space s)))"

definition honoDefaultKeyGenerator :: "string option \<Rightarrow> string option \<Rightarrow> key" where
  "honoDefaultKeyGenerator forwardedFor realIp =
     (case forwardedFor of
        Some v \<Rightarrow> js_trim (takeWhile (\<lambda>c. c \<noteq> CHR '','') v)
      | None \<Rightarrow> opt_or realIp ''unknown'')"

text \<open>The response status after \<open>await next()\<close>, absent or any number.\<close>

definition resolvedHonoRollbackStatus :: "js_value \<Rightarrow> int" where
  "resolvedHonoRollbackStatus s =
     (case s of Num r \<Rightarrow> if r < 100 \<or> r > 599 then 200 else \<lfloor>r\<rfloor> | _ \<Rightarrow> 200)"

definition resolveHonoRequestCost :: "'q hono_options \<Rightarrow> 'q \<Rightarrow> string + js_value" where
  "resolveHonoRequestCost h req = (case hono_cost h of None \<Rightarrow> Inr (js_int 1) | Some f \<Rightarrow> f req)"

text \<open>\<open>buildHonoMergePartial\<close>: \<open>incrementCost\<close> wins over \<open>cost\<close>, which is read from the context.\<close>

definition hono_incrementCost :: "'q hono_options \<Rightarrow> ('q \<Rightarrow> js_value) option \<Rightarrow> js_value \<Rightarrow> ('q \<Rightarrow> js_value) option" where
  "hono_incrementCost h incFromOpts v =
     (if incFromOpts \<noteq> None then incFromOpts
      else if hono_cost h \<noteq> None then Some (\<lambda>_. case v of Num x \<Rightarrow> Num x | _ \<Rightarrow> js_int 1)
      else None)"

definition hono_resolved :: "'q mw_options \<Rightarrow> 'q hono_options \<Rightarrow> js_value \<Rightarrow> 'q mw_options" where
  "hono_resolved mo h v =
     mo\<lparr>mo_engine := (mo_engine mo)\<lparr>eo_incrementCost := hono_incrementCost h (eo_incrementCost (mo_engine mo)) v\<rparr>\<rparr>"

definition hono_callback :: "'q hono_options \<Rightarrow> 'q \<Rightarrow> key \<Rightarrow> consume_result \<Rightarrow> string option" where
  "hono_callback h req k r =
     (case hono_onLimitReached h of
        Some f \<Rightarrow> if cr_blockReason r = Some CauseRateLimit then f req k else None
      | None \<Rightarrow> None)"

definition hono_reply_blocked ::
  "'k km_methods \<Rightarrow> 'q mw_options \<Rightarrow> 'q hono_options \<Rightarrow> time \<Rightarrow> key \<Rightarrow> 'q \<Rightarrow> consume_result \<Rightarrow> exchange \<Rightarrow>
   ('s, 'k, 'q) engine \<Rightarrow> exchange \<times> ('s, 'k, 'q) engine" where
  "hono_reply_blocked kmo mo h now k req r ex en =
     (if storeUnavailable r \<or> cr_blockReason r = Some CauseUnavailable
      then (ex\<lparr>ex_status := 503, ex_body := Some (jsonErrorBody (JString ''Service temporarily unavailable'')),
              ex_flow := Replied\<rparr>, en)
      else if cr_blockReason r = Some CauseKeyManager \<and> en_km en \<noteq> None
      then (let status = opt_or (mo_statusCode mo) 429;
                (ra, en1) = keyManagerRetryAfterSeconds kmo now k en;
                hs = (case ra of Some s \<Rightarrow> AList.update ''Retry-After'' (js_show s) (ex_headers ex) | None \<Rightarrow> ex_headers ex);
                (body, en2) = keyManagerBlockedJson kmo mo now k en1
            in (ex\<lparr>ex_headers := hs, ex_status := status, ex_body := Some body, ex_flow := Replied\<rparr>, en2))
      else case hono_callback h req k r of
             Some e \<Rightarrow> (ex\<lparr>ex_flow := Failed e\<rparr>, en)
           | None \<Rightarrow>
               (case (cr_blockReason r, hono_messageFun h) of
                  (Some CauseRateLimit, Some f) \<Rightarrow>
                    (case f req of
                       Inl e \<Rightarrow> (ex\<lparr>ex_flow := Failed e\<rparr>, en)
                     | Inr (status, body) \<Rightarrow> (ex\<lparr>ex_status := status, ex_body := Some body, ex_flow := Replied\<rparr>, en))
                | _ \<Rightarrow>
                    (let (status, msg) = blocked_status mo r
                     in (ex\<lparr>ex_status := status, ex_body := Some (jsonErrorBody msg), ex_flow := Replied\<rparr>, en))))"

text \<open>Up to \<open>await next()\<close>. The engine has no \<open>skip\<close> and no \<open>onLimitReached\<close> of its own here.\<close>

definition hono_engine_of :: "'q mw_options \<Rightarrow> 'q engine_options" where
  "hono_engine_of mo = (engine_of mo)\<lparr>eo_skip := (\<lambda>_. False)\<rparr>"

definition hono_consume ::
  "'s store_ops \<Rightarrow> 's draft_method \<Rightarrow> 'k km_methods \<Rightarrow> 'q mw_options \<Rightarrow> 'q hono_options \<Rightarrow> clock \<Rightarrow> key \<Rightarrow> 'q \<Rightarrow>
   exchange \<Rightarrow> ('s, 'k, 'q) engine \<Rightarrow> exchange \<times> ('s, 'k, 'q) engine" where
  "hono_consume ops dm kmo mo h ck k req ex0 en =
     (case consumeWithKey ops dm kmo (hono_engine_of mo) ck k req en of
        (Inl e, en1) \<Rightarrow> (ex0\<lparr>ex_flow := Failed e\<rparr>, en1)
      | (Inr r, en1) \<Rightarrow>
          (let (err, hs) = write_quota_headers mo (ck_now ck) req r [];
               ex = ex0\<lparr>ex_headers := hs, ex_composed := (if res_layers r = None then None else Some r)\<rparr>
           in case err of
                Some e \<Rightarrow> (ex\<lparr>ex_flow := Failed e\<rparr>, en1)
              | None \<Rightarrow>
                  if isBlocked r then hono_reply_blocked kmo mo h (ck_now ck) k req r ex en1
                  else (ex\<lparr>ex_rateLimit := Some (toRateLimitInfo mo r req), ex_key := Some k,
                          ex_refund := (mo_skipFailedRequests mo, mo_skipSuccessfulRequests mo),
                          ex_flow := Continue\<rparr>, en1)))"

definition hono_request ::
  "'s store_ops \<Rightarrow> 's draft_method \<Rightarrow> 'k km_methods \<Rightarrow> 'q mw_options \<Rightarrow> 'q hono_options \<Rightarrow> ('q \<Rightarrow> string + key) \<Rightarrow>
   clock \<Rightarrow> 'q \<Rightarrow> ('s, 'k, 'q) engine \<Rightarrow> exchange \<times> ('s, 'k, 'q) engine" where
  "hono_request ops dm kmo mo h keyFromContext ck req en =
     (case (case hono_skip h of Some f \<Rightarrow> f req | None \<Rightarrow> Inr False) of
        Inl e \<Rightarrow> (new_exchange\<lparr>ex_flow := Failed e\<rparr>, en)
      | Inr True \<Rightarrow> (new_exchange, en)
      | Inr False \<Rightarrow>
          (case keyFromContext req of
             Inl e \<Rightarrow> (new_exchange\<lparr>ex_flow := Failed e\<rparr>, en)
           | Inr k \<Rightarrow>
               (case resolveHonoRequestCost h req of
                  Inl e \<Rightarrow> (new_exchange\<lparr>ex_flow := Failed e\<rparr>, en)
                | Inr v \<Rightarrow>
                    hono_consume ops dm kmo (hono_resolved mo h v) h ck k req (new_exchange\<lparr>ex_cost := v\<rparr>) en)))"

text \<open>After \<open>await next()\<close>.\<close>

definition hono_finish ::
  "'s store_ops \<Rightarrow> 'q mw_options \<Rightarrow> 'q hono_options \<Rightarrow> time \<Rightarrow> 'q \<Rightarrow> exchange \<Rightarrow> js_value \<Rightarrow> ('s, 'k, 'q) engine \<Rightarrow>
   ('s, 'k, 'q) engine" where
  "hono_finish ops mo h now req ex status en =
     (case ex_key ex of
        None \<Rightarrow> en
      | Some k \<Rightarrow>
          if refund_due (ex_refund ex) (resolvedHonoRollbackStatus status)
          then decrementStoresAfterConsume ops (hono_resolved mo h (ex_cost ex)) now k req en else en)"

end
