(* ===== verification/Http_Properties.thy ===== *)
theory Http_Properties
  imports Http_Middleware Header_Properties
begin

text \<open>
  The adapters over the engine over the in-memory store. A run is a list of events: a request arrives
  and goes through the Express handler, or an open response is finished with a status and the refund
  rule applies; requests overlap as they like. Without refunds the requests that reach the
  application obey the quota of the store, whatever the policy checks do in between. With refunds on a
  fixed window the count of a key is the cost of the requests that were not refunded, as long as the
  window lasts; a request that was never counted, or was counted in an earlier window, is refunded all
  the same.
\<close>

section \<open>One consume on the in-memory store\<close>

text \<open>Either a policy check answered and the stores are as before, or the engine's store was asked
  once.\<close>

definition plain_store :: "'q engine_options \<Rightarrow> bool" where
  "plain_store eo \<longleftrightarrow> (isWindowOpts eo \<longrightarrow> eo_grouped eo = []) \<and> \<not> eo_draft eo"

lemma with_metrics_heap [simp]: "en_heap (with_metrics f en) = en_heap en"
  by (simp add: with_metrics_def)

lemma en_emit_heap [simp]: "en_heap (en_emit ev en) = en_heap en"
  by (simp add: en_emit_def)

lemma sweep_heap [simp]: "en_heap (maybeSweepExpiredPenaltyEntries now en) = en_heap en"
  by (simp add: maybeSweepExpiredPenaltyEntries_def Let_def)

lemma recordViolation_heap [simp]: "en_heap (recordViolation eo now k req en) = en_heap en"
  by (simp add: recordViolation_def maybeSweepExpiredViolationEntries_def Let_def split: option.split)

lemma layer_blocks_heap [simp]: "en_heap (maybeOnLayerBlocks eo req r en) = en_heap en"
proof -
  have "en_heap (fold (\<lambda>(lb, row) en. if P row then en_emit (OnLayerBlock req lb row) en else en) rows en) = en_heap en"
    for P and rows :: "(string \<times> layer_row) list"
    by (rule fold_keeps [of "\<lambda>e. en_heap e = en_heap en"]) auto
  then show ?thesis by (simp add: maybeOnLayerBlocks_def split: option.split)
qed

lemma live_effects_heap [simp]: "en_heap (live_effects eo now k req r en) = en_heap en"
  by (simp add: live_effects_def Let_def)

lemma km_check_heap: "km_check kmo now k en = (b, en1) \<Longrightarrow> en_heap en1 = en_heap en"
  by (auto simp: km_check_def split: option.splits prod.splits)

lemma penalty_heap: "isPenaltyActive now k en = (b, en1) \<Longrightarrow> en_heap en1 = en_heap en"
  by (auto simp: isPenaltyActive_def split: option.splits if_splits)

lemma km_block_heap: "buildKeyManagerBlockResult eo kmo now k req en = (out, en1) \<Longrightarrow> en_heap en1 = en_heap en \<and> isBlocked out"
  by (auto simp: buildKeyManagerBlockResult_def Let_def split: option.splits prod.splits)

lemma consume_on_memory:
  assumes run: "consumeWithKey mem_ops dm kmo eo ck k req en = (res, en')" and plain: "plain_store eo"
  obtains (policy) out where "res = Inr out" "en_heap en' = en_heap en" "isBlocked out \<or> eo_skip eo req \<or> k \<in> set (eo_allowlist eo)"
  | (store) out r s' where "res = Inr out" "isBlocked out = isBlocked r"
      "mem_increment (ck_now ck) k (resolveIncrementOpts eo req) (en_heap en (eo_store eo)) = (r, s')"
      "en_heap en' = (en_heap en)(eo_store eo := s')" "totalHits out = totalHits r" "remaining out = remaining r"
      "resetTime out = resetTime r"
proof (cases rule: consume_cases [where eo = eo and req = req and k = k and kmo = kmo and now = "ck_now ck" and en = en])
  case 1
  then show ?thesis using run policy by (auto simp: consume_skip)
next
  case 2
  then show ?thesis using run policy by (auto simp: consume_allow)
next
  case 3
  then show ?thesis using run policy by (auto simp: consume_blocklist Let_def buildPolicyBlockResult_def)
next
  case (4 en1)
  obtain out en2 where out: "buildKeyManagerBlockResult eo kmo (ck_now ck) k req en1 = (out, en2)" by fastforce
  show ?thesis using run policy km_check_heap [OF 4(4)] km_block_heap [OF out] by (auto simp: consume_km [OF 4] out)
next
  case (5 en1 en2)
  show ?thesis using run policy km_check_heap [OF 5(4)] penalty_heap [OF 5(5)]
    by (auto simp: consume_penalty [OF 5] buildPolicyBlockResult_def)
next
  case (6 en1 en2)
  obtain r s' where inc: "mem_increment (ck_now ck) k (resolveIncrementOpts eo req) (en_heap en (eo_store eo)) = (r, s')" by fastforce
  have heap: "en_heap en2 = en_heap en" using km_check_heap [OF 6(4)] penalty_heap [OF 6(5)] by simp
  have live: "\<not> (isBlocked r \<and> eo_draft eo \<and> \<not> storeUnavailable r)" using plain by (simp add: plain_store_def)
  show ?thesis
    using run inc heap plain store [of "live_result r (bindingSlotIndexForComposedResult eo r)" r s']
    by (auto simp: consume_store [OF 6] store_phase_def heap_increment_def mem_ops_def plain_store_def finish_live
        live_result_def)
qed

lemma mw_block_info_heap [simp]: "en_heap (snd (mw_block_info kmo now k en)) = en_heap en"
  by (simp add: mw_block_info_def case_prod_beta split: option.split)

lemma km_answers_heap [simp]:
  "en_heap (snd (keyManagerRetryAfterSeconds kmo now k en)) = en_heap en"
  "en_heap (snd (keyManagerBlockedJson kmo mo now k en)) = en_heap en"
  by (simp_all add: keyManagerRetryAfterSeconds_def keyManagerBlockedJson_def Let_def case_prod_beta)

lemma reply_blocked_frame:
  assumes "reply_blocked kmo mo now k req r ex en = (ex', en')"
  shows "en_heap en' = en_heap en" "ex_flow ex' \<noteq> Continue" "ex_key ex' = ex_key ex" "ex_rateLimit ex' = ex_rateLimit ex"
  using assms by (auto simp: reply_blocked_def Let_def case_prod_beta split: if_splits option.splits)

text \<open>The same for a request through Express.\<close>

lemma engine_of_simps [simp]:
  "plain_store (engine_of mo) = plain_store (mo_engine mo)" "eo_store (engine_of mo) = eo_store (mo_engine mo)"
  "eo_skip (engine_of mo) = eo_skip (mo_engine mo)" "eo_allowlist (engine_of mo) = eo_allowlist (mo_engine mo)"
  "eo_grouped (engine_of mo) = eo_grouped (mo_engine mo)" "eo_strategy (engine_of mo) = eo_strategy (mo_engine mo)"
  by (simp_all add: engine_of_def plain_store_def isWindowOpts_def)

lemma engine_of_resolve [simp]: "resolveIncrementOpts (engine_of mo) req = resolveIncrementOpts (mo_engine mo) req"
  by (cases "eo_maxRequests (mo_engine mo)") (simp_all add: engine_of_def isWindowOpts_def resolveIncrementOpts_def Let_def)

lemma new_exchange_simps [simp]:
  "ex_flow new_exchange = Continue" "ex_key new_exchange = None" "ex_rateLimit new_exchange = None"
  "ex_status new_exchange = 200" "ex_body new_exchange = None" "ex_refund new_exchange = (False, False)"
  by (simp_all add: new_exchange_def)

lemma express_on_memory:
  assumes run: "express_request mem_ops dm kmo mo keyGen ck req en = (ex, en')" and plain: "plain_store (mo_engine mo)"
  obtains (none) "en_heap en' = en_heap en"
      "ex_flow ex \<noteq> Continue \<or> (\<exists>k. keyGen req = Inr k \<and> (eo_skip (mo_engine mo) req \<or> k \<in> set (eo_allowlist (mo_engine mo))))"
  | (counted) k r s' where "keyGen req = Inr k"
      "mem_increment (ck_now ck) k (resolveIncrementOpts (mo_engine mo) req) (en_heap en (eo_store (mo_engine mo))) = (r, s')"
      "en_heap en' = (en_heap en)(eo_store (mo_engine mo) := s')" "ex_flow ex = Continue \<Longrightarrow> \<not> isBlocked r"
proof (cases "keyGen req")
  case (Inl e)
  then show ?thesis using run none by (simp add: express_request_def) auto
next
  case (Inr k)
  obtain res en1 where c: "consumeWithKey mem_ops dm kmo (engine_of mo) ck k req en = (res, en1)" by fastforce
  have "(ex_flow ex = Continue \<longrightarrow> (\<exists>out. res = Inr out \<and> \<not> isBlocked out)) \<and> en_heap en' = en_heap en1"
  proof (cases res)
    case (Inl e)
    then show ?thesis using run c \<open>keyGen req = Inr k\<close> by (auto simp: express_request_def)
  next
    case (Inr r)
    let ?ex = "\<lambda>hs. new_exchange\<lparr>ex_headers := hs, ex_composed := (if res_layers r = None then None else Some r)\<rparr>"
    obtain err hs where w: "write_quota_headers mo (ck_now ck) req r [] = (err, hs)" by fastforce
    obtain ex1 en2 where b: "reply_blocked kmo mo (ck_now ck) k req r (?ex hs) en1 = (ex1, en2)" by fastforce
    show ?thesis using run c \<open>keyGen req = Inr k\<close> Inr w b reply_blocked_frame(1,2) [OF b]
      by (cases err) (auto simp: express_request_def Let_def split: if_splits)
  qed
  then have blocked: "ex_flow ex = Continue \<Longrightarrow> \<exists>out. res = Inr out \<and> \<not> isBlocked out"
    and heap: "en_heap en' = en_heap en1" by blast+
  have plain': "plain_store (engine_of mo)" using plain by simp
  show ?thesis
  proof (cases rule: consume_on_memory [OF c plain'])
    case (1 out)
    then show ?thesis using none heap blocked Inr by auto
  next
    case (2 out r s')
    then show ?thesis using counted [OF Inr] heap blocked by auto
  qed
qed

section \<open>Runs of requests and responses\<close>

datatype 'q http_event = Arrive clock 'q | Finish time nat int

text \<open>Per request in order of arrival: its clock, the request, the exchange, and the status its response
  was finished with.\<close>

type_synonym 'q http_log = "(clock \<times> 'q \<times> exchange \<times> int option) list"

definition http_step ::
  "'s store_ops \<Rightarrow> 's draft_method \<Rightarrow> 'k km_methods \<Rightarrow> 'q mw_options \<Rightarrow> ('q \<Rightarrow> string + key) \<Rightarrow> 'q http_event \<Rightarrow>
   'q http_log \<times> ('s, 'k, 'q) engine \<Rightarrow> 'q http_log \<times> ('s, 'k, 'q) engine" where
  "http_step ops dm kmo mo keyGen e st =
     (case (e, st) of
        (Arrive ck req, (lg, en)) \<Rightarrow>
          (case express_request ops dm kmo mo keyGen ck req en of (ex, en') \<Rightarrow> (lg @ [(ck, req, ex, None)], en'))
      | (Finish now i status, (lg, en)) \<Rightarrow>
          if i < length lg
          then (case lg ! i of (ck, req, ex, fin) \<Rightarrow>
                  if fin = None \<and> ex_flow ex = Continue
                  then (lg[i := (ck, req, ex, Some status)], express_finish ops mo now req ex status en)
                  else (lg, en))
          else (lg, en))"

definition http_run ::
  "'s store_ops \<Rightarrow> 's draft_method \<Rightarrow> 'k km_methods \<Rightarrow> 'q mw_options \<Rightarrow> ('q \<Rightarrow> string + key) \<Rightarrow> 'q http_event list \<Rightarrow>
   ('s, 'k, 'q) engine \<Rightarrow> 'q http_log \<times> ('s, 'k, 'q) engine" where
  "http_run ops dm kmo mo keyGen es en = fold (http_step ops dm kmo mo keyGen) es ([], en)"

text \<open>The requests of a key that reached the application, with their times and costs.\<close>

definition request_cost :: "'q mw_options \<Rightarrow> 'q \<Rightarrow> int" where
  "request_cost mo req = eff_cost (resolveIncrementOpts (mo_engine mo) req)"

definition let_through :: "'q mw_options \<Rightarrow> ('q \<Rightarrow> string + key) \<Rightarrow> key \<Rightarrow> 'q http_log \<Rightarrow> (time \<times> int) list" where
  "let_through mo keyGen k lg =
     map (\<lambda>(ck, req, ex, fin). (ck_now ck, request_cost mo req))
       (filter (\<lambda>(ck, req, ex, fin). ex_flow ex = Continue \<and> keyGen req = Inr k) lg)"

lemma let_through_simps [simp]:
  "let_through mo keyGen k [] = []"
  "let_through mo keyGen k (lg @ [(ck, req, ex, fin)]) =
     let_through mo keyGen k lg @ (if ex_flow ex = Continue \<and> keyGen req = Inr k then [(ck_now ck, request_cost mo req)] else [])"
  by (simp_all add: let_through_def)

lemma let_through_finish:
  "i < length lg \<Longrightarrow> lg ! i = (ck, req, ex, fin) \<Longrightarrow>
   let_through mo keyGen k (lg[i := (ck, req, ex, fin')]) = let_through mo keyGen k lg"
proof (induction lg arbitrary: i)
  case (Cons a lg)
  then show ?case by (cases i) (auto simp: let_through_def)
qed simp

definition arrivals :: "'q http_event list \<Rightarrow> (time \<times> 'q) list" where
  "arrivals es = List.map_filter (\<lambda>e. case e of Arrive ck req \<Rightarrow> Some (ck_now ck, req) | _ \<Rightarrow> None) es"

lemma arrivals_simps [simp]:
  "arrivals [] = []" "arrivals (es @ es') = arrivals es @ arrivals es'"
  "arrivals [Arrive ck req] = [(ck_now ck, req)]" "arrivals [Finish now i status] = []"
  "arrivals (Arrive ck req # es) = (ck_now ck, req) # arrivals es" "arrivals (Finish now i status # es) = arrivals es"
  by (simp_all add: arrivals_def List.map_filter_def)

section \<open>What an exchange says\<close>

lemma express_continue:
  assumes "express_request ops dm kmo mo keyGen ck req en = (ex, en')" "ex_flow ex = Continue"
  obtains k r where "keyGen req = Inr k" "consumeWithKey ops dm kmo (engine_of mo) ck k req en = (Inr r, en')"
    "\<not> isBlocked r" "ex_key ex = Some k" "ex_refund ex = (mo_skipFailedRequests mo, mo_skipSuccessfulRequests mo)"
    "ex_rateLimit ex = Some (toRateLimitInfo mo r req)" "ex_status ex = 200" "ex_body ex = None"
    "write_quota_headers mo (ck_now ck) req r [] = (None, ex_headers ex)"
proof (cases "keyGen req")
  case (Inl e)
  then show ?thesis using assms by (auto simp: express_request_def)
next
  case (Inr k)
  obtain res en1 where c: "consumeWithKey ops dm kmo (engine_of mo) ck k req en = (res, en1)" by fastforce
  show ?thesis
  proof (cases res)
    case (Inl e)
    then show ?thesis using assms c \<open>keyGen req = Inr k\<close> by (auto simp: express_request_def)
  next
    case (Inr r)
    let ?ex = "\<lambda>hs. new_exchange\<lparr>ex_headers := hs, ex_composed := (if res_layers r = None then None else Some r)\<rparr>"
    obtain err hs where w: "write_quota_headers mo (ck_now ck) req r [] = (err, hs)" by fastforce
    obtain ex1 en2 where b: "reply_blocked kmo mo (ck_now ck) k req r (?ex hs) en1 = (ex1, en2)" by fastforce
    show ?thesis using assms c \<open>keyGen req = Inr k\<close> Inr w b reply_blocked_frame(2) [OF b] that [of k r]
      by (cases err) (auto simp: express_request_def Let_def split: if_splits)
  qed
qed

lemma express_step_memory:
  assumes run: "express_request mem_ops dm kmo mo keyGen ck req en = (ex, en')" and plain: "plain_store (mo_engine mo)"
    and k: "keyGen req = Inr k \<Longrightarrow> \<not> eo_skip (mo_engine mo) req" "k \<notin> set (eo_allowlist (mo_engine mo))"
  obtains (none) "en_heap en' = en_heap en" "ex_flow ex \<noteq> Continue \<or> keyGen req \<noteq> Inr k"
  | (counted) k' r s' where "keyGen req = Inr k'"
      "mem_increment (ck_now ck) k' (resolveIncrementOpts (mo_engine mo) req) (en_heap en (eo_store (mo_engine mo))) = (r, s')"
      "en_heap en' = (en_heap en)(eo_store (mo_engine mo) := s')" "ex_flow ex = Continue \<Longrightarrow> \<not> isBlocked r"
  using express_on_memory [OF run plain] k by (metis Inr_inject)

section \<open>Without refunds\<close>

text \<open>The run of the store behind a run of requests.\<close>

definition behind ::
  "'q mw_options \<Rightarrow> ('q \<Rightarrow> string + key) \<Rightarrow> key \<Rightarrow> mem_store \<Rightarrow> (time \<times> 'q) list \<Rightarrow> request list \<Rightarrow> 'q http_log \<Rightarrow>
   (mem_store, 'k, 'q) engine \<Rightarrow> bool" where
  "behind mo keyGen k s0 as qs lg en \<longleftrightarrow>
     en_heap en (eo_store (mo_engine mo)) = mem_after qs s0 \<and> timely qs \<and>
     (\<forall>q \<in> set qs. \<exists>(t, req) \<in> set as. fst q = t \<and> keyGen req = Inr (fst (snd q)) \<and>
        snd (snd q) = resolveIncrementOpts (mo_engine mo) req) \<and>
     (\<forall>P. granted_in P (let_through mo keyGen k lg) \<le> granted_in P (mem_granted qs s0 k)) \<and>
     (\<forall>(ck, req, ex, fin) \<in> set lg. ex_flow ex = Continue \<longrightarrow> ex_refund ex = (False, False))"

lemma behind_arrive:
  assumes B: "behind mo keyGen k s0 as qs lg en" and plain: "plain_store (mo_engine mo)"
    and k: "keyGen req = Inr k \<Longrightarrow> \<not> eo_skip (mo_engine mo) req" "k \<notin> set (eo_allowlist (mo_engine mo))"
    and flags: "\<not> mo_skipFailedRequests mo" "\<not> mo_skipSuccessfulRequests mo"
    and run: "express_request mem_ops dm kmo mo keyGen ck req en = (ex, en')" and late: "\<forall>(t, req) \<in> set as. t \<le> ck_now ck"
  shows "\<exists>qs'. behind mo keyGen k s0 (as @ [(ck_now ck, req)]) qs' (lg @ [(ck, req, ex, None)]) en'"
proof -
  have fl: "ex_flow ex = Continue \<Longrightarrow> ex_refund ex = (False, False)"
    using express_continue [OF run] flags by metis
  show ?thesis
  proof -
    consider (none) "en_heap en' = en_heap en" "ex_flow ex \<noteq> Continue \<or> keyGen req \<noteq> Inr k"
      | (counted) k' r s' where "keyGen req = Inr k'"
          "mem_increment (ck_now ck) k' (resolveIncrementOpts (mo_engine mo) req) (en_heap en (eo_store (mo_engine mo))) = (r, s')"
          "en_heap en' = (en_heap en)(eo_store (mo_engine mo) := s')" "ex_flow ex = Continue \<Longrightarrow> \<not> isBlocked r"
      using express_step_memory [OF run plain, of k] k by metis
    then show ?thesis
    proof cases
    case none
    then have "behind mo keyGen k s0 (as @ [(ck_now ck, req)]) qs (lg @ [(ck, req, ex, None)]) en'"
      using B fl by (fastforce simp: behind_def)
    then show ?thesis by blast
  next
    case (counted k' r s')
    let ?q = "(ck_now ck, k', resolveIncrementOpts (mo_engine mo) req)"
    have t: "timely (qs @ [?q])"
      using B late by (fastforce simp: behind_def timely_def sorted_append)
    have "mem_granted (qs @ [?q]) s0 k =
        mem_granted qs s0 k @ (if k' = k \<and> \<not> isBlocked r then [(ck_now ck, request_cost mo req)] else [])"
      using B counted(2) by (simp add: mem_granted_append behind_def request_cost_def)
    moreover have "0 < request_cost mo req" by (simp add: request_cost_def)
    ultimately have "granted_in P (let_through mo keyGen k (lg @ [(ck, req, ex, None)])) \<le>
        granted_in P (mem_granted (qs @ [?q]) s0 k)" for P
      using B counted(1,4) by (auto simp: behind_def add_mono add_increasing2)
    moreover have "en_heap en' (eo_store (mo_engine mo)) = mem_after (qs @ [?q]) s0"
      using B counted(2,3) by (simp add: behind_def mem_after_append)
    ultimately have "behind mo keyGen k s0 (as @ [(ck_now ck, req)]) (qs @ [?q]) (lg @ [(ck, req, ex, None)]) en'"
      using B t counted(1) fl unfolding behind_def by (fastforce simp: ball_Un)
    then show ?thesis by blast
    qed
  qed
qed

lemma behind_refund:
  "behind mo keyGen k s0 as qs lg en \<Longrightarrow> (ck, req, ex, fin) \<in> set lg \<Longrightarrow> ex_flow ex = Continue \<Longrightarrow> ex_refund ex = (False, False)"
  unfolding behind_def by blast

lemma behind_cong:
  assumes "behind mo keyGen k s0 as qs lg en" "let_through mo keyGen k lg' = let_through mo keyGen k lg"
    and "\<forall>(ck, req, ex, fin) \<in> set lg'. ex_flow ex = Continue \<longrightarrow> ex_refund ex = (False, False)"
  shows "behind mo keyGen k s0 as qs lg' en"
  using assms unfolding behind_def assms(2) by blast

lemma behind_finish:
  assumes B: "behind mo keyGen k s0 as qs lg en" and step: "http_step mem_ops dm kmo mo keyGen (Finish now i status) (lg, en) = (lg', en')"
  shows "behind mo keyGen k s0 as qs lg' en'"
proof (cases "i < length lg")
  case True
  obtain ck req ex fin where x: "lg ! i = (ck, req, ex, fin)" by (cases "lg ! i")
  have f: "ex_flow ex = Continue \<Longrightarrow> ex_refund ex = (False, False)"
    using behind_refund [OF B] True x by (metis nth_mem)
  have "en' = en \<and> (lg' = lg \<or> lg' = lg[i := (ck, req, ex, Some status)])"
    using step True x f by (auto simp: http_step_def express_finish_def refund_due_def split: if_splits option.splits)
  moreover have "\<forall>(ck, req, ex, fin) \<in> set (lg[i := (ck, req, ex, Some status)]). ex_flow ex = Continue \<longrightarrow> ex_refund ex = (False, False)"
    using behind_refund [OF B] f by (auto dest!: set_update_subset_insert [THEN subsetD])
  ultimately show ?thesis using B behind_cong [OF B let_through_finish [OF True x]] by blast
qed (use assms in \<open>simp add: http_step_def\<close>)

lemma behind_run:
  assumes plain: "plain_store (mo_engine mo)" and k: "\<forall>req. keyGen req = Inr k \<longrightarrow> \<not> eo_skip (mo_engine mo) req"
      "k \<notin> set (eo_allowlist (mo_engine mo))"
    and flags: "\<not> mo_skipFailedRequests mo" "\<not> mo_skipSuccessfulRequests mo"
    and s0: "en_heap en (eo_store (mo_engine mo)) = s0" and ts: "timely (arrivals es)"
    and run: "http_run mem_ops dm kmo mo keyGen es en = (lg, en')"
  shows "\<exists>qs. behind mo keyGen k s0 (arrivals es) qs lg en'"
  using ts run
proof (induction es arbitrary: lg en' rule: rev_induct)
  case Nil
  then have "behind mo keyGen k s0 [] [] lg en'" using s0 by (auto simp: http_run_def behind_def)
  then show ?case by auto
next
  case (snoc e es)
  obtain lg1 en1 where r1: "http_run mem_ops dm kmo mo keyGen es en = (lg1, en1)" by fastforce
  have st: "http_step mem_ops dm kmo mo keyGen e (lg1, en1) = (lg, en')" using snoc.prems(2) r1 by (simp add: http_run_def)
  have t1: "timely (arrivals es)" using snoc.prems(1) by (auto simp: timely_def sorted_append)
  obtain qs where B: "behind mo keyGen k s0 (arrivals es) qs lg1 en1" using snoc.IH [OF t1 r1] by blast
  show ?case
  proof (cases e)
    case (Arrive ck req)
    obtain ex en2 where x: "express_request mem_ops dm kmo mo keyGen ck req en1 = (ex, en2)" by fastforce
    have late: "\<forall>(t, req) \<in> set (arrivals es). t \<le> ck_now ck"
      using snoc.prems(1) Arrive by (fastforce simp: timely_def sorted_append)
    show ?thesis using behind_arrive [OF B plain _ k(2) flags x late] k(1) st x Arrive by (auto simp: http_step_def)
  next
    case (Finish now i status)
    then have "behind mo keyGen k s0 (arrivals es) qs lg en'" using behind_finish [OF B] st by blast
    then show ?thesis using Finish by auto
  qed
qed

section \<open>When nothing but the store decides\<close>

definition store_decides :: "'q mw_options \<Rightarrow> ('s, 'k, 'q) engine \<Rightarrow> bool" where
  "store_decides mo en \<longleftrightarrow> eo_allowlist (mo_engine mo) = [] \<and> eo_blocklist (mo_engine mo) = [] \<and>
     eo_penaltyBox (mo_engine mo) = None \<and> en_km en = None \<and> en_penaltyUntil en = []"

definition sound_headers :: "'q mw_options \<Rightarrow> bool" where
  "sound_headers mo \<longleftrightarrow>
     (case fst (header_profile mo) of None \<Rightarrow> True | Some f \<Rightarrow> f \<in> set STANDARD_HEADER_STRINGS)"

lemma write_quota_headers_ok: "sound_headers mo \<Longrightarrow> fst (write_quota_headers mo now req r res) = None"
  by (auto simp: write_quota_headers_def sound_headers_def resolveHeaderConfig_def formatRateLimitHeaders_def
      profile_headers_def STANDARD_HEADER_STRINGS_def Let_def case_prod_beta split: option.splits)

lemma engine_of_lists [simp]:
  "eo_blocklist (engine_of mo) = eo_blocklist (mo_engine mo)" "eo_penaltyBox (engine_of mo) = eo_penaltyBox (mo_engine mo)"
  by (simp_all add: engine_of_def)

lemma violation_without_box [simp]: "eo_penaltyBox eo = None \<Longrightarrow> recordViolation eo now k req en = en"
  by (simp add: recordViolation_def)

lemma live_effects_open [simp]:
  "eo_penaltyBox eo = None \<Longrightarrow> en_km (live_effects eo now k req r en) = en_km en"
  "eo_penaltyBox eo = None \<Longrightarrow> en_penaltyUntil (live_effects eo now k req r en) = en_penaltyUntil en"
  using layer_blocks_policy [of eo req r en] by (simp_all add: live_effects_def Let_def en_emit_def en_policy_state_def)

text \<open>Then a request that is not skipped is counted, and goes on exactly when the store allows it; a
  skipped one goes on and changes nothing but the metrics.\<close>

lemma consume_counted:
  assumes "store_decides mo en" "plain_store (mo_engine mo)" "\<not> eo_skip (mo_engine mo) req"
    and inc: "mem_increment (ck_now ck) k (resolveIncrementOpts (mo_engine mo) req) (en_heap en (eo_store (mo_engine mo))) = (r, s')"
  obtains en' where "consumeWithKey mem_ops dm kmo (engine_of mo) ck k req en =
      (Inr (live_result r (bindingSlotIndexForComposedResult (engine_of mo) r)), en')"
    "en_heap en' = (en_heap en)(eo_store (mo_engine mo) := s')" "store_decides mo en'"
proof -
  have sw: "maybeSweepExpiredPenaltyEntries now en = en" for now
    using assms(1) by (simp add: maybeSweepExpiredPenaltyEntries_def store_decides_def)
  have c: "\<not> eo_skip (engine_of mo) req" "k \<notin> set (eo_allowlist (engine_of mo))" "k \<notin> set (eo_blocklist (engine_of mo))"
    "km_check kmo (ck_now ck) k (maybeSweepExpiredPenaltyEntries (ck_now ck) en) = (False, en)"
    "isPenaltyActive (ck_now ck) k en = (False, en)"
    using assms(1,3) by (simp_all add: store_decides_def sw km_check_def isPenaltyActive_def)
  have plain: "plain_store (engine_of mo)" using assms(2) by simp
  show ?thesis
    by (rule that, unfold consume_store [OF c])
      (use inc plain assms(1) in
        \<open>auto simp: store_phase_def heap_increment_def mem_ops_def plain_store_def finish_live store_decides_def with_metrics_def\<close>)
qed

lemma express_counted:
  assumes "store_decides mo en" "plain_store (mo_engine mo)" "\<not> eo_skip (mo_engine mo) req" "sound_headers mo" "keyGen req = Inr k"
    and inc: "mem_increment (ck_now ck) k (resolveIncrementOpts (mo_engine mo) req) (en_heap en (eo_store (mo_engine mo))) = (r, s')"
  obtains ex en' where "express_request mem_ops dm kmo mo keyGen ck req en = (ex, en')"
    "en_heap en' = (en_heap en)(eo_store (mo_engine mo) := s')" "store_decides mo en'"
    "isBlocked r \<Longrightarrow> ex_flow ex \<noteq> Continue"
    "\<not> isBlocked r \<Longrightarrow> ex_flow ex = Continue \<and> ex_key ex = Some k \<and>
       ex_refund ex = (mo_skipFailedRequests mo, mo_skipSuccessfulRequests mo)"
proof -
  let ?r = "live_result r (bindingSlotIndexForComposedResult (engine_of mo) r)"
  let ?ex = "\<lambda>hs. new_exchange\<lparr>ex_headers := hs, ex_composed := (if res_layers ?r = None then None else Some ?r)\<rparr>"
  obtain en' where c: "consumeWithKey mem_ops dm kmo (engine_of mo) ck k req en = (Inr ?r, en')"
    "en_heap en' = (en_heap en)(eo_store (mo_engine mo) := s')" "store_decides mo en'"
    by (rule consume_counted [OF assms(1-3) inc])
  obtain hs where w: "write_quota_headers mo (ck_now ck) req ?r [] = (None, hs)"
    using write_quota_headers_ok [OF assms(4), of "ck_now ck" req ?r "[]"] by (cases "write_quota_headers mo (ck_now ck) req ?r []") auto
  obtain ex1 en2 where b: "reply_blocked kmo mo (ck_now ck) k req ?r (?ex hs) en' = (ex1, en2)" by fastforce
  have e: "en2 = en'" using b c(3)
    by (auto simp: reply_blocked_def store_decides_def Let_def case_prod_beta split: if_splits option.splits)
  show ?thesis
    by (cases "isBlocked r"; rule that)
      (use c w b e assms(5) reply_blocked_frame(2) [OF b] in \<open>auto simp: express_request_def Let_def\<close>)
qed

lemma express_skipped:
  assumes "store_decides mo en" "eo_skip (mo_engine mo) req" "sound_headers mo" "keyGen req = Inr k"
  obtains ex en' where "express_request ops dm kmo mo keyGen ck req en = (ex, en')"
    "en_heap en' = en_heap en" "store_decides mo en'" "ex_flow ex = Continue" "ex_key ex = Some k"
    "ex_refund ex = (mo_skipFailedRequests mo, mo_skipSuccessfulRequests mo)"
proof -
  let ?r = "buildPassthroughResult (engine_of mo) (ck_now ck) req"
  have nb: "\<not> isBlocked ?r" by (simp add: buildPassthroughResult_def)
  obtain hs where w: "write_quota_headers mo (ck_now ck) req ?r [] = (None, hs)"
    using write_quota_headers_ok [OF assms(3), of "ck_now ck" req ?r "[]"] by (cases "write_quota_headers mo (ck_now ck) req ?r []") auto
  obtain ex en' where e: "express_request ops dm kmo mo keyGen ck req en = (ex, en')" by fastforce
  moreover have "en' = with_metrics (recordMetricsSkip ck k) en" "ex_flow ex = Continue" "ex_key ex = Some k"
    "ex_refund ex = (mo_skipFailedRequests mo, mo_skipSuccessfulRequests mo)"
    using e assms w nb
    by (auto simp: express_request_def consume_skip Let_def store_decides_def maybeSweepExpiredPenaltyEntries_def)
  moreover have "store_decides mo (with_metrics (recordMetricsSkip ck k) en)"
    using assms(1) by (simp add: store_decides_def with_metrics_def)
  ultimately show ?thesis using that by simp
qed

lemma refund_on_memory:
  assumes "eo_grouped (mo_engine mo) = []" "ex_key ex = Some k" "refund_due (ex_refund ex) status"
  shows "en_heap (express_finish mem_ops mo now req ex status en) = (en_heap en)(eo_store (mo_engine mo) :=
      mem_decrement k (Some (matchingDecrementOptions (opt_cost (resolveIncrementOpts (mo_engine mo) req))))
        (en_heap en (eo_store (mo_engine mo))))"
    and "store_decides mo (express_finish mem_ops mo now req ex status en) = store_decides mo en"
  using assms by (simp_all add: express_finish_def decrementStoresAfterConsume_def heap_decrement_def mem_ops_def Let_def store_decides_def)

section \<open>With refunds\<close>

definition refunded :: "exchange \<Rightarrow> int option \<Rightarrow> bool" where
  "refunded ex fin = (case fin of Some status \<Rightarrow> refund_due (ex_refund ex) status | None \<Rightarrow> False)"

definition charge :: "'q mw_options \<Rightarrow> ('q \<Rightarrow> string + key) \<Rightarrow> key \<Rightarrow> clock \<times> 'q \<times> exchange \<times> int option \<Rightarrow> int" where
  "charge mo keyGen k x =
     (case x of (ck, req, ex, fin) \<Rightarrow>
        if keyGen req = Inr k \<and> \<not> refunded ex fin then request_cost mo req else 0)"

text \<open>The cost of all requests of a key that were not refunded, let through or not.\<close>

definition charged :: "'q mw_options \<Rightarrow> ('q \<Rightarrow> string + key) \<Rightarrow> key \<Rightarrow> 'q http_log \<Rightarrow> int" where
  "charged mo keyGen k lg = (\<Sum>x \<leftarrow> lg. charge mo keyGen k x)"


lemma charged_snoc [simp]: "charged mo keyGen k (lg @ [x]) = charged mo keyGen k lg + charge mo keyGen k x"
  by (simp add: charged_def)












section \<open>Properties\<close>

text \<open>(C7) End to end: behind Express, over a sliding window with no refunds, the requests of a key that
  reach the application within any window of the store cost together at most the cap, for any
  interleaving of requests and responses and whatever the block list, the key manager and the penalty
  box do in between. Only skipped and allow-listed requests are outside the quota.\<close>

theorem express_sliding_quota:
  assumes "plain_store (mo_engine mo)" and "\<forall>req. keyGen req = Inr k \<longrightarrow> \<not> eo_skip (mo_engine mo) req"
    and "k \<notin> set (eo_allowlist (mo_engine mo))" "\<not> mo_skipFailedRequests mo" "\<not> mo_skipSuccessfulRequests mo"
    and "en_heap en (eo_store (mo_engine mo)) = s" "mem_inv s" "ms_strategy s = SLIDING_WINDOW" "ms_state s = []" "ms_maxKeys s = 0"
    and "\<forall>req. eff_cap s (resolveIncrementOpts (mo_engine mo) req) \<le> m" "0 \<le> m" "timely (arrivals es)"
    and "http_run mem_ops dm kmo mo keyGen es en = (lg, en')"
  shows "granted_in (\<lambda>t. c - ms_windowMs s < t \<and> t \<le> c) (let_through mo keyGen k lg) \<le> m"
proof -
  obtain qs where B: "behind mo keyGen k s (arrivals es) qs lg en'"
    using behind_run [OF assms(1-6,13,14)] by blast
  have qs: "timely qs" "\<forall>q \<in> set qs. eff_cap s (snd (snd q)) \<le> m"
    and le: "granted_in P (let_through mo keyGen k lg) \<le> granted_in P (mem_granted qs s k)" for P
    using B assms(11) unfolding behind_def by (fast, fastforce, fast)
  have "granted_in (\<lambda>t. c - ms_windowMs s < t \<and> t \<le> c) (mem_granted qs s k) \<le> m"
    by (rule mem_granted_sliding [OF assms(7-9) _ qs assms(12)]) (simp add: assms(10))
  with le show ?thesis by (rule order_trans)
qed

definition demo_http_options :: "(nat \<Rightarrow> bool) \<Rightarrow> bool \<Rightarrow> bool \<Rightarrow> strategy \<Rightarrow> nat mw_options" where
  "demo_http_options sk onFailed onSuccess strat =
     \<lparr>mo_engine = \<lparr>eo_strategy = strat, eo_bucketSize = 2, eo_limits = [], eo_grouped = [], eo_maxRequests = MaxNumber (js_int 1),
        eo_incrementCost = None, eo_store = 0, eo_storeIsComposed = False, eo_skip = sk, eo_allowlist = [],
        eo_blocklist = [], eo_penaltyBox = None, eo_draft = False, eo_onDraftViolation = False, eo_onLimitReached = False,
        eo_onLayerBlock = False\<rparr>,
      mo_interval = None, mo_windowMs = Some 1000, mo_limitWindows = [], mo_standardHeaders = ShAbsent, mo_headers = None,
      mo_legacyHeaders = None, mo_identifier = IdAbsent, mo_statusCode = None, mo_message = None,
      mo_blocklistStatusCode = None, mo_blocklistMessage = None, mo_skipFailedRequests = onFailed,
      mo_skipSuccessfulRequests = onSuccess, mo_onLimitReached = None\<rparr>"

definition demo_key :: "nat \<Rightarrow> string + key" where
  "demo_key q = (if q < 5 then Inr ''k'' else Inr ''other'')"

definition demo_http_engine :: "strategy \<Rightarrow> (mem_store, (mem_store, memory_block_store) key_manager, nat) engine" where
  "demo_http_engine strat = new_RateLimitEngine False None
     (\<lambda>_. new_MemoryStore (WindowOptions strat (js_int 1000) (js_int 1)) (Some 0) None)"

lemma demo_http_store:
  assumes "strat \<in> {SLIDING_WINDOW, FIXED_WINDOW}"
  shows "mem_inv (en_heap (demo_http_engine strat) 0)" "ms_strategy (en_heap (demo_http_engine strat) 0) = strat"
    "ms_state (en_heap (demo_http_engine strat) 0) = []" "ms_maxKeys (en_heap (demo_http_engine strat) 0) = 0"
    "ms_windowMs (en_heap (demo_http_engine strat) 0) = 1000"
    "eff_cap (en_heap (demo_http_engine strat) 0) (resolveIncrementOpts (mo_engine (demo_http_options sk a b strat)) req) = 1"
proof -
  have "mem_inv (en_heap (demo_http_engine SLIDING_WINDOW) 0)" "mem_inv (en_heap (demo_http_engine FIXED_WINDOW) 0)"
    by code_simp+
  moreover have m: "en_heap (demo_http_engine strat) 0 = new_MemoryStore (WindowOptions strat (js_int 1000) (js_int 1)) (Some 0) None"
    by (simp add: demo_http_engine_def new_RateLimitEngine_def)
  ultimately show "mem_inv (en_heap (demo_http_engine strat) 0)" using assms by auto
  have "ms_strategy (new_MemoryStore (WindowOptions SLIDING_WINDOW (js_int 1000) (js_int 1)) (Some 0) None) = SLIDING_WINDOW"
    "ms_strategy (new_MemoryStore (WindowOptions FIXED_WINDOW (js_int 1000) (js_int 1)) (Some 0) None) = FIXED_WINDOW"
    by code_simp+
  then show "ms_strategy (en_heap (demo_http_engine strat) 0) = strat" using assms m by auto
  have "ms_state (new_MemoryStore (WindowOptions s (js_int 1000) (js_int 1)) (Some 0) None) = []"
    "ms_maxKeys (new_MemoryStore (WindowOptions s (js_int 1000) (js_int 1)) (Some 0) None) = 0"
    "ms_windowMs (new_MemoryStore (WindowOptions s (js_int 1000) (js_int 1)) (Some 0) None) = 1000"
    "ms_maxRequests (new_MemoryStore (WindowOptions s (js_int 1000) (js_int 1)) (Some 0) None) = 1" for s
    by (simp_all add: new_MemoryStore_def sanitizeWindowMs_def sanitizeRateLimitCap_def js_int_def MAX_SAFE_INTEGER_def Let_def)
  then show "ms_state (en_heap (demo_http_engine strat) 0) = []" "ms_maxKeys (en_heap (demo_http_engine strat) 0) = 0"
    "ms_windowMs (en_heap (demo_http_engine strat) 0) = 1000"
    "eff_cap (en_heap (demo_http_engine strat) 0) (resolveIncrementOpts (mo_engine (demo_http_options sk a b strat)) req) = 1"
    using m assms
    by (auto simp: eff_cap_def resolveIncrementOpts_def demo_http_options_def isWindowOpts_def sanitizeRateLimitCap_def
        js_int_def MAX_SAFE_INTEGER_def Let_def)
qed

lemma demo_plain: "plain_store (mo_engine (demo_http_options sk a b strat))" "eo_grouped (mo_engine (demo_http_options sk a b strat)) = []"
  "sound_headers (demo_http_options sk a b strat)" "store_decides (demo_http_options sk a b strat) (demo_http_engine strat)"
  "eo_store (mo_engine (demo_http_options sk a b strat)) = 0" "eo_skip (mo_engine (demo_http_options sk a b strat)) = sk"
  by (simp_all add: plain_store_def demo_http_options_def sound_headers_def header_profile_def STANDARD_HEADER_STRINGS_def
      store_decides_def demo_http_engine_def new_RateLimitEngine_def)

theorem express_sliding_quota_witness:
  "granted_in (\<lambda>t. 1500 - 1000 < t \<and> t \<le> 1500)
     (let_through (demo_http_options (\<lambda>_. False) False False SLIDING_WINDOW) (\<lambda>q. if q = 1 then Inl ''no key'' else Inr ''k'') ''k''
        (fst (http_run mem_ops None (key_manager_methods mem_ops) (demo_http_options (\<lambda>_. False) False False SLIDING_WINDOW)
          (\<lambda>q. if q = 1 then Inl ''no key'' else Inr ''k'')
          [Arrive (demo_clock 700) 0, Arrive (demo_clock 900) 2, Finish 950 0 200, Arrive (demo_clock 1000) 1]
          (demo_http_engine SLIDING_WINDOW)))) \<le> 1"
proof -
  let ?mo = "demo_http_options (\<lambda>_. False) False False SLIDING_WINDOW" and ?en = "demo_http_engine SLIDING_WINDOW"
    and ?key = "\<lambda>q :: nat. if q = 1 then Inl ''no key'' else Inr ''k''"
    and ?es = "[Arrive (demo_clock 700) 0, Arrive (demo_clock 900) 2, Finish 950 0 200, Arrive (demo_clock 1000) 1] :: nat http_event list"
  note st = demo_http_store [where strat = SLIDING_WINDOW, simplified]
  show ?thesis
    using express_sliding_quota [of ?mo ?key "''k''" ?en "en_heap ?en 0" 1 ?es None "key_manager_methods mem_ops" _ _ 1500,
        OF _ _ _ _ _ _ _ _ _ _ _ _ _ surjective_pairing] st demo_plain [where sk = "\<lambda>_. False" and a = False and b = False and strat = SLIDING_WINDOW]
    by (simp add: demo_http_options_def demo_clock_def timely_def)
qed



section \<open>Refunds of requests that were never counted\<close>

text \<open>A client that alternates a counted request with one that \<open>skip\<close> exempts and that ends with a
  refunded status.\<close>

fun paired_rounds ::
  "'s store_ops \<Rightarrow> 's draft_method \<Rightarrow> 'k km_methods \<Rightarrow> 'q mw_options \<Rightarrow> ('q \<Rightarrow> string + key) \<Rightarrow> clock \<Rightarrow> 'q \<Rightarrow> 'q \<Rightarrow> int \<Rightarrow>
   nat \<Rightarrow> ('s, 'k, 'q) engine \<Rightarrow> flow list" where
  "paired_rounds ops dm kmo mo keyGen ck q q' status 0 en = []"
| "paired_rounds ops dm kmo mo keyGen ck q q' status (Suc n) en =
     (let (ex1, en1) = express_request ops dm kmo mo keyGen ck q en;
          (ex2, en2) = express_request ops dm kmo mo keyGen ck q' en1;
          en3 = express_finish ops mo (ck_now ck) q' ex2 status en2
      in ex_flow ex1 # ex_flow ex2 # paired_rounds ops dm kmo mo keyGen ck q q' status n en3)"

lemma first_hit_undone:
  assumes inv: "mem_inv s" and st: "ms_strategy s \<noteq> TOKEN_BUCKET" and none: "map_of (ms_state s) k = None"
    and cost: "eff_cost o' \<le> eff_cap s o'" "sanitizeIncrementCost (opt_dec_cost d) 1 = eff_cost o'"
    and inc: "mem_increment now k o' s = (r, s')"
  shows "\<not> isBlocked r" "map_of (ms_state (mem_decrement k d s')) k = None" "mem_inv (mem_decrement k d s')"
    "mem_cfg (mem_decrement k d s') = mem_cfg s"
proof -
  note e = mem_increment_entry [OF inv inc] and c = mem_increment_inv [OF inv inc]
  let ?e = "snd (entry_increment s now o' (map_of (ms_state s) k))"
  show "mem_inv (mem_decrement k d s')" "mem_cfg (mem_decrement k d s') = mem_cfg s"
    using mem_decrement_inv [OF c(1), of k d] c(2) by simp_all
  show "\<not> isBlocked r"
    using e(1) st none cost(1) by (cases "ms_strategy s") (simp_all add: entry_increment_def live_stamps_def live_fixed_def Let_def)
  have "entry_undo_oldest s' (eff_cost o') ?e = None" "entry_undo s' (eff_cost o') ?e = None"
    using st none by (cases "ms_strategy s"; simp add: entry_increment_def live_stamps_def live_fixed_def Let_def
        entry_undo_oldest_def entry_undo_def)+
  then show "map_of (ms_state (mem_decrement k d s')) k = None"
    using mem_decrement_entry [OF c(1) e(2), of d] cost(2) by simp
qed

text \<open>The refund of \<open>skipFailedRequests\<close> or \<open>skipSuccessfulRequests\<close> is also given for requests that \<open>skip\<close>
  exempted and that the store never counted: by following each counted request with an exempted one,
  a client gets any number of requests through within one millisecond, whatever the cap.\<close>

theorem skip_refund_defeats_limit:
  assumes "store_decides mo en" "plain_store (mo_engine mo)" "eo_grouped (mo_engine mo) = []" "sound_headers mo"
    and "\<not> eo_skip (mo_engine mo) q" "eo_skip (mo_engine mo) q'" "keyGen q = Inr k" "keyGen q' = Inr k"
    and "refund_due (mo_skipFailedRequests mo, mo_skipSuccessfulRequests mo) status"
    and "mem_inv (en_heap en (eo_store (mo_engine mo)))" "ms_strategy (en_heap en (eo_store (mo_engine mo))) \<noteq> TOKEN_BUCKET"
    and "map_of (ms_state (en_heap en (eo_store (mo_engine mo)))) k = None" "request_cost mo q' = request_cost mo q"
    and "request_cost mo q \<le> eff_cap (en_heap en (eo_store (mo_engine mo))) (resolveIncrementOpts (mo_engine mo) q)"
  shows "paired_rounds mem_ops dm kmo mo keyGen ck q q' status n en = replicate (2 * n) Continue"
  using assms(1,10-12,14)
proof (induction n arbitrary: en)
  case (Suc n)
  let ?s = "en_heap en (eo_store (mo_engine mo))" and ?o = "resolveIncrementOpts (mo_engine mo) q"
  let ?d = "Some (matchingDecrementOptions (opt_cost (resolveIncrementOpts (mo_engine mo) q')))"
  obtain r s1 where inc: "mem_increment (ck_now ck) k ?o ?s = (r, s1)" by fastforce
  have cost: "sanitizeIncrementCost (opt_dec_cost ?d) 1 = eff_cost ?o"
    using assms(13) by (simp add: matchingDecrementOptions_def request_cost_def eff_cost_def)
  note f = first_hit_undone [OF Suc.prems(2,3,4) Suc.prems(5) [unfolded request_cost_def] cost inc]
  obtain ex1 en1 where e1: "express_request mem_ops dm kmo mo keyGen ck q en = (ex1, en1)"
    "en_heap en1 = (en_heap en)(eo_store (mo_engine mo) := s1)" "store_decides mo en1" "ex_flow ex1 = Continue"
    by (rule express_counted [where dm = dm and kmo = kmo and keyGen = keyGen and req = q and k = k,
          OF Suc.prems(1) assms(2,5,4,7) inc]) (use f(1) in blast)
  obtain ex2 en2 where e2: "express_request mem_ops dm kmo mo keyGen ck q' en1 = (ex2, en2)" "en_heap en2 = en_heap en1"
    "store_decides mo en2" "ex_flow ex2 = Continue" "ex_key ex2 = Some k"
    "ex_refund ex2 = (mo_skipFailedRequests mo, mo_skipSuccessfulRequests mo)"
    by (rule express_skipped [where keyGen = keyGen and req = q' and k = k and ops = mem_ops and dm = dm and kmo = kmo,
          OF e1(3) assms(6,4,8)])
  let ?en3 = "express_finish mem_ops mo (ck_now ck) q' ex2 status en2"
  have due: "refund_due (ex_refund ex2) status" using assms(9) e2(6) by simp
  have s3: "en_heap ?en3 (eo_store (mo_engine mo)) = mem_decrement k ?d s1" "store_decides mo ?en3"
    using refund_on_memory [OF assms(3) e2(5) due, of "ck_now ck" q' en2] e1(2) e2(2,3) by simp_all
  have "eff_cap (mem_decrement k ?d s1) ?o = eff_cap ?s ?o" "ms_strategy (mem_decrement k ?d s1) = ms_strategy ?s"
    using mem_cfg_eqD [OF f(4)] by (simp_all add: eff_cap_def)
  then have "paired_rounds mem_ops dm kmo mo keyGen ck q q' status n ?en3 = replicate (2 * n) Continue"
    using s3 f(2,3) Suc.prems(3,5) by (intro Suc.IH) simp_all
  then show ?case using e1(1,4) e2(1,4) by simp
qed simp

theorem skip_refund_defeats_limit_witness:
  "paired_rounds mem_ops None (key_manager_methods mem_ops) (demo_http_options (\<lambda>q. q = 1) True False SLIDING_WINDOW)
     (\<lambda>_. Inr ''k'') (demo_clock 0) 0 1 404 500 (demo_http_engine SLIDING_WINDOW) = replicate 1000 Continue"
proof -
  let ?mo = "demo_http_options (\<lambda>q. q = 1) True False SLIDING_WINDOW"
  note st = demo_http_store [where strat = SLIDING_WINDOW, simplified]
    and pl = demo_plain [where sk = "\<lambda>q. q = 1" and a = True and b = False and strat = SLIDING_WINDOW]
  have "request_cost ?mo q = 1" for q
    by (simp add: request_cost_def demo_http_options_def resolveIncrementOpts_def isWindowOpts_def eff_cost_def
        sanitizeIncrementCost_def Let_def)
  then have "paired_rounds mem_ops None (key_manager_methods mem_ops) ?mo (\<lambda>_. Inr ''k'') (demo_clock 0) 0 1 404 500
      (demo_http_engine SLIDING_WINDOW) = replicate (2 * 500) Continue"
    by (intro skip_refund_defeats_limit [OF pl(4,1-3)])
      (use st pl in \<open>simp_all add: refund_due_def demo_http_options_def\<close>)
  then show ?thesis by simp
qed

text \<open>A refund does not look at the window the request was counted in either: with a cap of one, a request
  of the first window that fails in the second makes room for a second request there, and both count
  for good.\<close>

lemma late_refund_exceeds_cap:
  "map (\<lambda>(ck, req, ex, fin). (ck_now ck, ex_flow ex, refunded ex fin))
     (fst (http_run mem_ops None (key_manager_methods mem_ops) (demo_http_options (\<lambda>_. False) True False FIXED_WINDOW) (\<lambda>_. Inr ''k'')
       [Arrive (demo_clock 0) 0, Arrive (demo_clock 1000) 0, Finish 1001 0 500, Arrive (demo_clock 1002) 0, Finish 1003 1 200, Finish 1004 2 200]
       (demo_http_engine FIXED_WINDOW))) =
   [(0, Continue, True), (1000, Continue, False), (1002, Continue, False)]"
  by code_simp

section \<open>The adapters agree\<close>

lemma express_cases:
  assumes "express_request ops dm kmo mo keyGen ck req en = (ex, en')"
  obtains (threw) e where "ex = new_exchange\<lparr>ex_flow := Failed e\<rparr>"
      "(keyGen req = Inl e \<and> en' = en) \<or> (\<exists>k. keyGen req = Inr k \<and> consumeWithKey ops dm kmo (engine_of mo) ck k req en = (Inl e, en'))"
  | (unwritten) k r e hs where "keyGen req = Inr k" "consumeWithKey ops dm kmo (engine_of mo) ck k req en = (Inr r, en')"
      "write_quota_headers mo (ck_now ck) req r [] = (Some e, hs)" "ex_flow ex = Failed e" "ex_key ex = None"
  | (blocked) k r hs en1 where "keyGen req = Inr k" "consumeWithKey ops dm kmo (engine_of mo) ck k req en = (Inr r, en1)"
      "write_quota_headers mo (ck_now ck) req r [] = (None, hs)" "isBlocked r"
      "reply_blocked kmo mo (ck_now ck) k req r
         (new_exchange\<lparr>ex_headers := hs, ex_composed := (if res_layers r = None then None else Some r)\<rparr>) en1 = (ex, en')"
  | (passed) k r hs where "keyGen req = Inr k" "consumeWithKey ops dm kmo (engine_of mo) ck k req en = (Inr r, en')"
      "write_quota_headers mo (ck_now ck) req r [] = (None, hs)" "\<not> isBlocked r"
      "ex = new_exchange\<lparr>ex_headers := hs, ex_composed := (if res_layers r = None then None else Some r),
         ex_rateLimit := Some (toRateLimitInfo mo r req), ex_key := Some k,
         ex_refund := (mo_skipFailedRequests mo, mo_skipSuccessfulRequests mo), ex_flow := Continue\<rparr>"
proof (cases "keyGen req")
  case (Inl e)
  then show ?thesis using assms threw [of e] by (auto simp: express_request_def)
next
  case (Inr k)
  obtain res en1 where c: "consumeWithKey ops dm kmo (engine_of mo) ck k req en = (res, en1)" by fastforce
  show ?thesis
  proof (cases res)
    case (Inl e)
    then show ?thesis using assms threw [of e] c \<open>keyGen req = Inr k\<close> by (auto simp: express_request_def)
  next
    case res: (Inr r)
    obtain err hs where w: "write_quota_headers mo (ck_now ck) req r [] = (err, hs)" by fastforce
    show ?thesis
    proof (cases err)
      case (Some e)
      then show ?thesis using assms unwritten [of k r e hs] c Inr res w by (auto simp: express_request_def Let_def)
    next
      case None
      then show ?thesis using assms blocked [of k r en1 hs] passed [of k r hs] c Inr res w
        by (cases "isBlocked r") (auto simp: express_request_def Let_def)
    qed
  qed
qed

text \<open>Fastify gives every request the exchange, the answer and the later refund that Express gives it,
  provided its key is not empty.\<close>

theorem fastify_matches_express:
  assumes "express_request ops dm kmo mo keyGen ck req en = (ex, en1)" "keyGen req \<noteq> Inr ''''"
  shows "\<exists>ex'. fastify_onRequest ops dm kmo mo keyGen ck req en = (ex', en1) \<and>
    ex'\<lparr>ex_key := ex_key ex, ex_refund := ex_refund ex\<rparr> = ex \<and>
    (\<forall>t status en2. fastify_onResponse ops mo t req ex' status en2 = express_finish ops mo t req ex status en2)"
  using assms(1)
proof (cases rule: express_cases)
  case (threw e)
  then show ?thesis by (elim disjE exE conjE) (simp_all add: fastify_onRequest_def fastify_onResponse_def express_finish_def)
next
  case (unwritten k r e hs)
  then show ?thesis using assms(1)
    by (auto simp: fastify_onRequest_def express_request_def fastify_onResponse_def express_finish_def Let_def)
next
  case (blocked k r hs en')
  then show ?thesis using reply_blocked_frame(3) [OF blocked(5)]
    by (simp add: fastify_onRequest_def fastify_onResponse_def express_finish_def Let_def)
next
  case (passed k r hs)
  then show ?thesis using assms(2)
    by (auto simp: fastify_onRequest_def fastify_onResponse_def express_finish_def refund_due_def Let_def)
qed

theorem fastify_matches_express_witness:
  "\<exists>ex' en'. fastify_onRequest mem_ops None (key_manager_methods mem_ops) (demo_http_options (\<lambda>_. False) True False FIXED_WINDOW)
      demo_key (demo_clock 0) 2 (demo_http_engine FIXED_WINDOW) = (ex', en') \<and> ex_status ex' = 200"
proof -
  let ?mo = "demo_http_options (\<lambda>_. False) True False FIXED_WINDOW"
  let ?x = "express_request mem_ops None (key_manager_methods mem_ops) ?mo demo_key (demo_clock 0) 2 (demo_http_engine FIXED_WINDOW)"
  have s: "ex_status (fst ?x) = 200" by code_simp
  have "demo_key 2 \<noteq> Inr ''''" by (simp add: demo_key_def)
  then obtain ex' where f: "fastify_onRequest mem_ops None (key_manager_methods mem_ops) ?mo demo_key (demo_clock 0) 2
      (demo_http_engine FIXED_WINDOW) = (ex', snd ?x)" "ex'\<lparr>ex_key := ex_key (fst ?x), ex_refund := ex_refund (fst ?x)\<rparr> = fst ?x"
    using fastify_matches_express [where keyGen = demo_key and req = 2, OF surjective_pairing] by blast
  have "ex_status (ex'\<lparr>ex_key := ex_key (fst ?x), ex_refund := ex_refund (fst ?x)\<rparr>) = ex_status ex'" by simp
  then show ?thesis using f s by auto
qed

text \<open>With the empty key the refund is forgotten: the failed request stays charged under Fastify only.\<close>

lemma fastify_keeps_empty_key:
  "let mo = demo_http_options (\<lambda>_. False) True False FIXED_WINDOW;
       (ex, en) = fastify_onRequest mem_ops None (key_manager_methods mem_ops) mo (\<lambda>_. Inr '''') (demo_clock 0) 0 (demo_http_engine FIXED_WINDOW)
   in mem_usage (en_heap (fastify_onResponse mem_ops mo 5 0 ex 500 en) 0) 5 '''' = 1 \<and>
      mem_usage (en_heap (express_finish mem_ops mo 5 0 ex 500 en) 0) 5 '''' = 0"
  by code_simp

text \<open>Hono, without callbacks of its own, is Express, for every status an HTTP response can have. A request
  that its \<open>skip\<close> exempts never gets to the engine and is not refunded.\<close>

lemma hono_reply_plain:
  assumes "hono_onLimitReached h = None" "hono_messageFun h = None" "mo_onLimitReached mo = None"
  shows "hono_reply_blocked kmo mo h now k req r ex en = reply_blocked kmo mo now k req r ex en"
  using assms by (auto simp: hono_reply_blocked_def reply_blocked_def hono_callback_def limit_callback_def Let_def
      split: option.split block_cause.split)

lemma hono_resolved_plain: "hono_cost h = None \<Longrightarrow> hono_resolved mo h v = mo"
  by (simp add: hono_resolved_def hono_incrementCost_def)

lemma hono_matches_express:
  assumes "hono_skip h = None" "hono_onLimitReached h = None" "hono_messageFun h = None" "hono_cost h = None"
    and "mo_onLimitReached mo = None" and "eo_skip (mo_engine mo) = (\<lambda>_. False)"
  shows "hono_request ops dm kmo mo h keyGen ck req en = express_request ops dm kmo mo keyGen ck req en"
    and "100 \<le> status \<Longrightarrow> status \<le> 599 \<Longrightarrow>
         hono_finish ops mo h t req ex (js_int status) en = express_finish ops mo t req ex status en"
proof -
  have eo: "hono_engine_of mo = engine_of mo" using assms(6) by (simp add: hono_engine_of_def engine_of_def)
  have ex: "new_exchange\<lparr>ex_cost := js_int 1\<rparr> = new_exchange" by (simp add: new_exchange_def)
  have cost: "resolveHonoRequestCost h req = Inr (js_int 1)" using assms(4) by (simp add: resolveHonoRequestCost_def)
  have request: "hono_request ops dm kmo mo h keyGen ck req en =
      (case keyGen req of Inl e \<Rightarrow> (new_exchange\<lparr>ex_flow := Failed e\<rparr>, en)
       | Inr k \<Rightarrow> hono_consume ops dm kmo mo h ck k req new_exchange en)"
    by (cases "keyGen req") (simp_all add: hono_request_def assms(1) cost hono_resolved_plain [OF assms(4)] ex)
  show "hono_request ops dm kmo mo h keyGen ck req en = express_request ops dm kmo mo keyGen ck req en"
    unfolding request express_request_def hono_consume_def hono_reply_plain [OF assms(2,3,5)] eo ..
  show "hono_finish ops mo h t req ex (js_int status) en = express_finish ops mo t req ex status en"
    if "100 \<le> status" "status \<le> 599"
  proof -
    have "resolvedHonoRollbackStatus (js_int status) = status" using that by (simp add: resolvedHonoRollbackStatus_def js_int_def)
    then show ?thesis by (simp only: hono_finish_def express_finish_def hono_resolved_plain [OF assms(4)])
  qed
qed

lemma hono_skip_untouched:
  "hono_skip h = Some f \<Longrightarrow> f req = Inr True \<Longrightarrow>
   hono_request ops dm kmo mo h keyGen ck req en = (new_exchange, en) \<and>
   hono_finish ops mo h t req new_exchange status en = en"
  by (simp add: hono_request_def hono_finish_def new_exchange_def)

section \<open>What client and application are told\<close>






end
