(* ===== verification/Middleware_Merge.thy ===== *)
theory Middleware_Merge
  imports Http_Middleware Composed_Store In_Memory_Shield Redis_Store
begin

text \<open>
  From user options to a running limiter: \<open>src/middleware/merge-options.ts\<close> with the defaults of
  \<open>src/strategies/defaults.ts\<close>, the builders of \<open>src/composition/compose.ts\<close>, the brand test of
  \<open>src/composition/composed-store-brand.ts\<close>, and what NestJS does with them
  (\<open>src/nestjs/RateLimitModule.ts\<close>, \<open>src/nestjs/RateLimitGuard.ts\<close>).

  The stores, shields and key managers that the functions construct are the objects of a world,
  named by their position; the option objects refer to them by that number. An option that is absent
  and one that is explicitly undefined differ where a default is spread under it: \<open>None\<close> is absent.
\<close>

section \<open>Objects\<close>

datatype 'r store_obj =
    ObjMemory mem_store
  | ObjRedis "'r redis_store"
  | ObjComposed composed
  | ObjShield "nat shield"
  | ObjOther

text \<open>The argument of \<open>new KeyManager\<close>.\<close>

record km_arguments =
  ka_store :: nat
  ka_maxRequests :: int
  ka_windowMs :: int
  ka_penaltyBlockThreshold :: js_value
  ka_penaltyBlockDurationMs :: js_value

record 'r mw_world =
  ww_objs :: "'r store_obj list"
  ww_kms :: "km_arguments list"
  ww_warnedShields :: "nat list"

definition obj_at :: "'r mw_world \<Rightarrow> nat \<Rightarrow> 'r store_obj" where
  "obj_at w i = (if i < length (ww_objs w) then ww_objs w ! i else ObjOther)"

definition new_obj :: "'r store_obj \<Rightarrow> 'r mw_world \<Rightarrow> nat \<times> 'r mw_world" where
  "new_obj ob w = (length (ww_objs w), w\<lparr>ww_objs := ww_objs w @ [ob]\<rparr>)"

text \<open>\<open>instanceof\<close>.\<close>

definition is_memory :: "'r store_obj \<Rightarrow> bool" where
  "is_memory ob = (case ob of ObjMemory _ \<Rightarrow> True | _ \<Rightarrow> False)"

definition is_composed :: "'r store_obj \<Rightarrow> bool" where
  "is_composed ob = (case ob of ObjComposed _ \<Rightarrow> True | _ \<Rightarrow> False)"

definition is_shield :: "'r store_obj \<Rightarrow> bool" where
  "is_shield ob = (case ob of ObjShield _ \<Rightarrow> True | _ \<Rightarrow> False)"

definition redis_template :: "'r store_obj \<Rightarrow> 'r redis_store option" where
  "redis_template ob = (case ob of ObjRedis s \<Rightarrow> if supportsLimitsRedisTemplate s then Some s else None | _ \<Rightarrow> None)"

text \<open>\<open>isComposedStoreBrand\<close>: registered facades first, then the brand, then the wrapped store, at most
  sixteen steps.\<close>

fun brand_walk :: "(nat \<Rightarrow> nat option) \<Rightarrow> 'r mw_world \<Rightarrow> nat \<Rightarrow> nat \<Rightarrow> bool" where
  "brand_walk facades w 0 cur = False"
| "brand_walk facades w (Suc n) cur =
     (case facades cur of
        Some d \<Rightarrow> if d = cur then False else brand_walk facades w n d
      | None \<Rightarrow>
          (case obj_at w cur of
             ObjComposed _ \<Rightarrow> True
           | ObjShield s \<Rightarrow> if sh_inner s = cur then False else brand_walk facades w n (sh_inner s)
           | _ \<Rightarrow> False))"

definition isComposedStoreBrand :: "(nat \<Rightarrow> nat option) \<Rightarrow> 'r mw_world \<Rightarrow> nat \<Rightarrow> bool" where
  "isComposedStoreBrand facades w st = brand_walk facades w 16 st"

section \<open>compose.ts\<close>

definition window_length_of :: "'r mw_world \<Rightarrow> nat \<Rightarrow> int option" where
  "window_length_of w i = (case obj_at w i of ObjMemory s \<Rightarrow> getWindowLengthMs s | _ \<Rightarrow> None)"

definition compose_layer :: "string \<Rightarrow> nat \<Rightarrow> (key \<Rightarrow> key) option \<Rightarrow> js_value \<Rightarrow> layer" where
  "compose_layer lb st kt mr = \<lparr>ly_label = lb, ly_store = st, ly_keyTransform = kt, ly_maxRequests = mr\<rparr>"

definition composed_obj :: "string + composed \<times> bool \<Rightarrow> 'r mw_world \<Rightarrow> string + nat \<times> 'r mw_world" where
  "composed_obj built w = (case built of Inl e \<Rightarrow> Inl e | Inr (c, warned) \<Rightarrow> Inr (new_obj (ObjComposed c) w))"

definition compose_all :: "layer list \<Rightarrow> 'r mw_world \<Rightarrow> string + nat \<times> 'r mw_world" where
  "compose_all ls w = composed_obj (new_ComposedStore (window_length_of w) ModeAll ls (Some True) None) w"

definition compose_overflow :: "layer \<Rightarrow> layer \<Rightarrow> 'r mw_world \<Rightarrow> string + nat \<times> 'r mw_world" where
  "compose_overflow primary burst w =
     composed_obj (new_ComposedStore (window_length_of w) ModeOverflow [primary, burst] None None) w"

definition compose_firstAvailable :: "layer list \<Rightarrow> 'r mw_world \<Rightarrow> string + nat \<times> 'r mw_world" where
  "compose_firstAvailable ls w =
     composed_obj (new_ComposedStore (window_length_of w) ModeFirstAvailable ls None None) w"

definition raceCompose :: "layer list \<Rightarrow> int option \<Rightarrow> 'r mw_world \<Rightarrow> string + nat \<times> 'r mw_world" where
  "raceCompose ls raceTimeoutMs w =
     composed_obj (new_ComposedStore (window_length_of w) ModeRace ls None (Some (opt_or raceTimeoutMs 5000))) w"

record window_config =
  wc_windowMs :: js_value
  wc_maxRequests :: js_value
  wc_strategy :: "strategy option"

definition slot_label :: "nat \<Rightarrow> string" where
  "slot_label i = ''limit-'' @ nat_decimal i"

definition window_store :: "window_config \<Rightarrow> mem_store" where
  "window_store cfg =
     new_MemoryStore (WindowOptions (opt_or (wc_strategy cfg) SLIDING_WINDOW) (wc_windowMs cfg) (wc_maxRequests cfg)) None None"

fun memory_layers :: "nat \<Rightarrow> window_config list \<Rightarrow> 'r mw_world \<Rightarrow> layer list \<times> 'r mw_world" where
  "memory_layers i [] w = ([], w)"
| "memory_layers i (cfg # cfgs) w =
     (let (r, w1) = new_obj (ObjMemory (window_store cfg)) w;
          (ls, w2) = memory_layers (Suc i) cfgs w1
      in (compose_layer (slot_label i) r None Undefined # ls, w2))"

text \<open>The siblings of a Redis template; \<open>conns\<close> gives each its connection.\<close>

fun redis_layers ::
  "(nat \<Rightarrow> (nat \<Rightarrow> net) \<times> (nat \<Rightarrow> string)) \<Rightarrow> 'r redis_store \<Rightarrow> nat \<Rightarrow> window_config list \<Rightarrow> 'r mw_world \<Rightarrow>
   string + layer list \<times> 'r mw_world" where
  "redis_layers conns template i [] w = Inr ([], w)"
| "redis_layers conns template i (cfg # cfgs) w =
     (case createWindowSiblingForLimitsSlot i (wc_windowMs cfg) (wc_maxRequests cfg)
             (Some (opt_or (wc_strategy cfg) SLIDING_WINDOW)) (fst (conns i)) (snd (conns i)) template of
        Inl e \<Rightarrow> Inl e
      | Inr s \<Rightarrow>
          (let (r, w1) = new_obj (ObjRedis s) w
           in case redis_layers conns template (Suc i) cfgs w1 of
                Inl e \<Rightarrow> Inl e
              | Inr (ls, w2) \<Rightarrow> Inr (compose_layer (slot_label i) r None Undefined # ls, w2)))"

definition compose_windows ::
  "(nat \<Rightarrow> (nat \<Rightarrow> net) \<times> (nat \<Rightarrow> string)) \<Rightarrow> 'r redis_store option \<Rightarrow> window_config list \<Rightarrow> 'r mw_world \<Rightarrow>
   string + nat \<times> 'r mw_world" where
  "compose_windows conns template cfgs w =
     (case template of
        Some t \<Rightarrow>
          if cfgs = []
          then Inl ''compose.windows: when using a Redis template, pass at least one { windowMs, maxRequests } config''
          else (case redis_layers conns t 0 cfgs w of Inl e \<Rightarrow> Inl e | Inr (ls, w1) \<Rightarrow> compose_all ls w1)
      | None \<Rightarrow>
          if cfgs = [] then Inl ''compose.windows: expected at least one window config''
          else (let (ls, w1) = memory_layers 0 cfgs w in compose_all ls w1))"

record burst_config =
  bc_windowMs :: js_value
  bc_maxRequests :: js_value
  bc_store :: "nat option"

definition burst_store :: "burst_config \<Rightarrow> 'r mw_world \<Rightarrow> nat \<times> 'r mw_world" where
  "burst_store cfg w =
     (case bc_store cfg of
        Some st \<Rightarrow> (st, w)
      | None \<Rightarrow> new_obj (ObjMemory (new_MemoryStore (WindowOptions SLIDING_WINDOW (bc_windowMs cfg) (bc_maxRequests cfg)) None None)) w)"

definition compose_withBurst :: "burst_config \<Rightarrow> burst_config \<Rightarrow> 'r mw_world \<Rightarrow> string + nat \<times> 'r mw_world" where
  "compose_withBurst steady burst w =
     (let (s, w1) = burst_store steady w; (b, w2) = burst_store burst w1
      in compose_overflow (compose_layer ''steady'' s None Undefined) (compose_layer ''burst'' b None Undefined) w2)"

text \<open>\<open>extractLayerMetrics\<close>: one entry for every layer, inner layers after the layer they are in.\<close>

fun walkLayers :: "string \<Rightarrow> (string \<times> layer_row) list \<Rightarrow> (string \<times> int \<times> int \<times> bool \<times> bool) list" where
  "walkLayers p [] = []"
| "walkLayers p ((name, LayerRow th re rt b c e inner) # rows) =
     (let path = (if p \<noteq> '''' then p @ ''.'' @ name else name)
      in (path, th, re, b, c) #
         (case inner of None \<Rightarrow> [] | Some ls \<Rightarrow> walkLayers path ls) @ walkLayers p rows)"

definition extractLayerMetrics :: "rl_result \<Rightarrow> (string \<times> int \<times> int \<times> bool \<times> bool) list" where
  "extractLayerMetrics r = walkLayers '''' (opt_or (res_layers r) [])"
section \<open>Option objects\<close>

datatype in_memory_block = BlockOff | BlockTrue | BlockNumber js_value | BlockOptions shield_options

text \<open>\<open>Partial<RateLimitOptions>\<close>. \<open>po_rest\<close> holds what is only handed on (header options, status codes,
  messages, skip flags, callbacks, policy lists); its numeric fields are not read. \<open>po_maxRequests\<close> and
  \<open>po_windowMs\<close> may be explicitly undefined (\<open>Some MaxAbsent\<close>, \<open>Some None\<close>).\<close>

record 'q partial_options =
  po_strategy :: "strategy option"
  po_windowMs :: "int option option"
  po_maxRequests :: "'q max_requests option"
  po_tokensPerInterval :: "int option"
  po_interval :: "int option"
  po_bucketSize :: "int option"
  po_limits :: "(js_value \<times> js_value) list"
  po_grouped :: "grouped_slot list"
  po_store :: "nat option"
  po_penaltyBox :: "penalty_box option"
  po_keyManager :: "nat option"
  po_inMemoryBlock :: in_memory_block
  po_throwOnDoubleInMemoryShield :: bool
  po_rest :: "'q mw_options"

text \<open>\<open>RateLimitOptions\<close> after merging.\<close>

record 'q merged_options =
  md_options :: "'q mw_options"
  md_store :: nat
  md_keyManager :: "nat option"
  md_inMemoryBlock :: in_memory_block
  md_throwOnDoubleInMemoryShield :: bool

section \<open>merge-options.ts\<close>

type_synonym connections = "nat \<Rightarrow> (nat \<Rightarrow> net) \<times> (nat \<Rightarrow> string)"

definition resolveWindowMsForShield :: "'q mw_options \<Rightarrow> int" where
  "resolveWindowMsForShield mo =
     (if eo_strategy (mo_engine mo) = TOKEN_BUCKET then opt_or (mo_interval mo) 60000
      else if mo_limitWindows mo \<noteq> []
      then (let ws = map (\<lambda>v. sanitizeWindowMs v 60000) (mo_limitWindows mo) in min_list1 (hd ws) (tl ws))
      else if eo_grouped (mo_engine mo) \<noteq> []
      then (let ws = map gw_windowMs (eo_grouped (mo_engine mo)) in min_list1 (hd ws) (tl ws))
      else opt_or (mo_windowMs mo) 60000)"

definition slot_configs :: "strategy \<Rightarrow> (int \<times> int) list \<Rightarrow> window_config list" where
  "slot_configs strat slots =
     map (\<lambda>(win, cap). \<lparr>wc_windowMs = js_int win, wc_maxRequests = js_int cap, wc_strategy = Some strat\<rparr>) slots"

definition limitsToComposedStore ::
  "connections \<Rightarrow> strategy \<Rightarrow> (int \<times> int) list \<Rightarrow> 'r mw_world \<Rightarrow> string + nat \<times> 'r mw_world" where
  "limitsToComposedStore conns strat slots w = compose_windows conns None (slot_configs strat slots) w"

definition limitsToComposedStoreFromRedisTemplate ::
  "connections \<Rightarrow> 'r redis_store \<Rightarrow> strategy \<Rightarrow> (int \<times> int) list \<Rightarrow> 'r mw_world \<Rightarrow> string + nat \<times> 'r mw_world" where
  "limitsToComposedStoreFromRedisTemplate conns template strat slots w =
     compose_windows conns (Some template) (slot_configs strat slots) w"

text \<open>After merging, a token bucket has its interval.\<close>

definition attachKeyManagerFromPenaltyBox :: "'q merged_options \<Rightarrow> 'r mw_world \<Rightarrow> 'q merged_options \<times> 'r mw_world" where
  "attachKeyManagerFromPenaltyBox mg w =
     (let mo = md_options mg; eo = mo_engine mo
      in case eo_penaltyBox eo of
           None \<Rightarrow> (mg, w)
         | Some pb \<Rightarrow>
             if md_keyManager mg \<noteq> None then (mg, w)
             else (let windowMs = (if eo_strategy eo = TOKEN_BUCKET then the (mo_interval mo)
                                   else sanitizeWindowMs (case mo_windowMs mo of None \<Rightarrow> Undefined | Some v \<Rightarrow> js_int v) 60000);
                       km = \<lparr>ka_store = md_store mg, ka_maxRequests = getLimit eo None None, ka_windowMs = windowMs,
                             ka_penaltyBlockThreshold = pb_violationsThreshold pb,
                             ka_penaltyBlockDurationMs = pb_penaltyDurationMs pb\<rparr>
                   in (mg\<lparr>md_keyManager := Some (length (ww_kms w))\<rparr>, w\<lparr>ww_kms := ww_kms w @ [km]\<rparr>)))"

text \<open>\<open>{ ...defaults, ...baseDefaults, ...options, strategy }\<close> without the store.\<close>

definition spread_options :: "strategy \<Rightarrow> 'q partial_options \<Rightarrow> 'q mw_options" where
  "spread_options strat po =
     (let r = po_rest po; token = (strat = TOKEN_BUCKET)
      in r\<lparr>mo_engine := (mo_engine r)\<lparr>
               eo_strategy := strat,
               eo_bucketSize := (if token then opt_or (po_bucketSize po) 100 else eo_bucketSize (mo_engine r)),
               eo_limits := map snd (po_limits po),
               eo_grouped := po_grouped po,
               eo_maxRequests := opt_or (po_maxRequests po) (if token then MaxAbsent else MaxNumber (js_int 100)),
               eo_penaltyBox := po_penaltyBox po\<rparr>,
           mo_interval := (if token then Some (opt_or (po_interval po) 60000) else po_interval po),
           mo_windowMs := opt_or (po_windowMs po) (if token then None else Some 60000),
           mo_limitWindows := map fst (po_limits po),
           mo_headers := Some (opt_or (mo_headers r) True),
           mo_statusCode := Some (opt_or (mo_statusCode r) 429),
           mo_message := Some (opt_or (mo_message r) (JString ''Too many requests''))\<rparr>)"

definition with_store :: "'q partial_options \<Rightarrow> 'q mw_options \<Rightarrow> nat \<Rightarrow> 'q merged_options" where
  "with_store po mo st =
     \<lparr>md_options = mo\<lparr>mo_engine := (mo_engine mo)\<lparr>eo_store := st\<rparr>\<rparr>, md_store = st, md_keyManager = po_keyManager po,
      md_inMemoryBlock = po_inMemoryBlock po,
      md_throwOnDoubleInMemoryShield = po_throwOnDoubleInMemoryShield po\<rparr>"

text \<open>The checks at the top and what they throw.\<close>

definition err_penalty_and_manager :: string where
  "err_penalty_and_manager = ''Cannot use both 'penaltyBox' and 'keyManager' - use keyManager with penaltyBlockThreshold instead.''"

definition err_limits_composed :: string where
  "err_limits_composed = ''ratelimit-flex: `limits` cannot be combined with a composed `store`; use `groupedWindowStores` or pass `store: compose.windows(...)` without `limits`''"

definition err_limits_store :: string where
  "err_limits_store = ''ratelimit-flex: `limits` and `store` are mutually exclusive unless `store` is a sliding/fixed-window RedisStore (connection template, optional resilience) or MemoryStore (ignored; same as omitting `store`)''"

definition merge_check :: "bool \<Rightarrow> 'q partial_options \<Rightarrow> 'r mw_world \<Rightarrow> string + unit" where
  "merge_check allowPenaltyBoxWithKeyManager po w =
     (case fst (validateRateLimitHeaderOptions (po_rest po) False) of
        Inl e \<Rightarrow> Inl e
      | Inr _ \<Rightarrow>
          if \<not> allowPenaltyBoxWithKeyManager \<and> po_penaltyBox po \<noteq> None \<and> po_keyManager po \<noteq> None
          then Inl err_penalty_and_manager
          else case po_store po of
                 None \<Rightarrow> Inr ()
               | Some st \<Rightarrow>
                   if po_limits po = [] then Inr ()
                   else if is_composed (obj_at w st) then Inl err_limits_composed
                   else if redis_template (obj_at w st) = None \<and> \<not> is_memory (obj_at w st) then Inl err_limits_store
                   else Inr ())"

definition sanitized_limits :: "(js_value \<times> js_value) list \<Rightarrow> (int \<times> int) list" where
  "sanitized_limits ls = map (\<lambda>(win, cap). (sanitizeWindowMs win 60000, sanitizeRateLimitCap cap 100)) ls"

definition merge_limits ::
  "connections \<Rightarrow> strategy \<Rightarrow> 'q partial_options \<Rightarrow> 'r mw_world \<Rightarrow> string + 'q merged_options \<times> 'r mw_world" where
  "merge_limits conns strat po w =
     (let slots = sanitized_limits (po_limits po);
          template = (case po_store po of None \<Rightarrow> None | Some st \<Rightarrow> redis_template (obj_at w st));
          built = (case template of
                     Some t \<Rightarrow> limitsToComposedStoreFromRedisTemplate conns t strat slots w
                   | None \<Rightarrow> limitsToComposedStore conns strat slots w)
      in case built of
           Inl e \<Rightarrow> Inl e
         | Inr (st, w1) \<Rightarrow>
             (let mo = spread_options strat po;
                  minCap = min_list1 (hd (map snd slots)) (tl (map snd slots));
                  minWin = min_list1 (hd (map fst slots)) (tl (map fst slots));
                  mo1 = mo\<lparr>mo_windowMs := Some minWin,
                           mo_engine := (mo_engine mo)\<lparr>eo_maxRequests := MaxNumber (js_int minCap)\<rparr>\<rparr>
              in Inr (attachKeyManagerFromPenaltyBox (with_store po mo1 st) w1)))"

definition mergeRateLimiterOptions ::
  "connections \<Rightarrow> bool \<Rightarrow> 'q partial_options \<Rightarrow> 'r mw_world \<Rightarrow> string + 'q merged_options \<times> 'r mw_world" where
  "mergeRateLimiterOptions conns allowPenaltyBoxWithKeyManager po w =
     (case merge_check allowPenaltyBoxWithKeyManager po w of
        Inl e \<Rightarrow> Inl e
      | Inr _ \<Rightarrow>
          (let strat = opt_or (po_strategy po) SLIDING_WINDOW; mo = spread_options strat po
           in if strat = TOKEN_BUCKET
              then (let fresh = new_MemoryStore (TokenBucketOptions (opt_or (po_tokensPerInterval po) 10)
                                  (opt_or (po_interval po) 60000) (opt_or (po_bucketSize po) 100)) None None;
                        (st, w1) = (case po_store po of Some st \<Rightarrow> (st, w) | None \<Rightarrow> new_obj (ObjMemory fresh) w)
                    in Inr (attachKeyManagerFromPenaltyBox (with_store po mo st) w1))
              else if po_limits po \<noteq> [] then merge_limits conns strat po w
              else (let maxForStore = (case eo_maxRequests (mo_engine mo) of MaxNumber v \<Rightarrow> v | _ \<Rightarrow> js_int 100);
                        fresh = new_MemoryStore (WindowOptions strat (js_int (opt_or (mo_windowMs mo) 60000)) maxForStore) None None;
                        (st, w1) = (case po_store po of Some st \<Rightarrow> (st, w) | None \<Rightarrow> new_obj (ObjMemory fresh) w)
                    in Inr (attachKeyManagerFromPenaltyBox (with_store po mo st) w1))))"

text \<open>\<open>stripShieldExclusiveFields\<close>: the two fields are absent from what the engine gets.\<close>

definition stripShieldExclusiveFields :: "'q merged_options \<Rightarrow> 'q merged_options" where
  "stripShieldExclusiveFields mg = mg\<lparr>md_inMemoryBlock := BlockOff, md_throwOnDoubleInMemoryShield := False\<rparr>"

definition err_double_shield :: string where
  "err_double_shield = ''[ratelimit-flex] inMemoryBlock would wrap an InMemoryShield (double-shield). Use a single shield layer or omit `throwOnDoubleInMemoryShield`; set `throwOnDoubleInMemoryShield: false` to allow stacking after review.''"

definition shield_options_of :: "in_memory_block \<Rightarrow> 'q mw_options \<Rightarrow> shield_options" where
  "shield_options_of flag mo =
     (let resolvedWindowMs = js_int (resolveWindowMsForShield mo); resolvedMaxRequests = js_int (getLimit (mo_engine mo) None None)
      in case flag of
           BlockNumber v \<Rightarrow>
             \<lparr>opt_blockOnConsumed = v, opt_blockDurationMs = resolvedWindowMs, opt_maxBlockedKeys = Undefined, opt_sweepIntervalMs = Undefined\<rparr>
         | BlockOptions o' \<Rightarrow> o'\<lparr>opt_blockDurationMs := js_or (opt_blockDurationMs o') resolvedWindowMs\<rparr>
         | _ \<Rightarrow>
             \<lparr>opt_blockOnConsumed = resolvedMaxRequests, opt_blockDurationMs = resolvedWindowMs, opt_maxBlockedKeys = Undefined,
              opt_sweepIntervalMs = Undefined\<rparr>)"

text \<open>The result: options for the engine and the shield, if one was put on.\<close>

definition resolveStoreWithInMemoryShield ::
  "bool \<Rightarrow> 'q merged_options \<Rightarrow> 'r mw_world \<Rightarrow> string + ('q merged_options \<times> nat option) \<times> 'r mw_world" where
  "resolveStoreWithInMemoryShield production mg w =
     (let flag = md_inMemoryBlock mg; ob = obj_at w (md_store mg)
      in if flag = BlockOff then Inr ((stripShieldExclusiveFields mg, None), w)
         else if md_throwOnDoubleInMemoryShield mg \<and> is_shield ob then Inl err_double_shield
         else if is_memory ob then Inr ((stripShieldExclusiveFields mg, None), w)
         else (let w1 = (if \<not> production \<and> is_shield ob \<and> md_store mg \<notin> set (ww_warnedShields w)
                         then w\<lparr>ww_warnedShields := md_store mg # ww_warnedShields w\<rparr> else w)
               in case new_InMemoryShield (md_store mg) (shield_options_of flag (md_options mg)) of
                    Inl e \<Rightarrow> Inl e
                  | Inr s \<Rightarrow>
                      (let (i, w2) = new_obj (ObjShield s) w1; stripped = stripShieldExclusiveFields mg
                       in Inr ((stripped\<lparr>md_store := i,
                                  md_options := (md_options stripped)\<lparr>mo_engine := (mo_engine (md_options stripped))\<lparr>eo_store := i\<rparr>\<rparr>\<rparr>,
                                Some i), w2))))"

text \<open>The engine's view: whether its store is a composed one is asked of the object.\<close>

definition engine_options_of :: "(nat \<Rightarrow> nat option) \<Rightarrow> 'q merged_options \<Rightarrow> 'r mw_world \<Rightarrow> 'q engine_options" where
  "engine_options_of facades mg w =
     (mo_engine (md_options mg))\<lparr>eo_storeIsComposed := isComposedStoreBrand facades w (md_store mg)\<rparr>"

section \<open>NestJS\<close>

text \<open>\<open>RateLimitModule.finalizeOptions\<close>. The Nest-only options are not part of \<open>partial_options\<close>.\<close>

record 'q nest_init =
  ni_moduleOptions :: "'q partial_options"
  ni_store :: nat
  ni_keyManager :: "nat option"
  ni_shield :: "nat option"
  ni_disposeKeyManagerOnDestroy :: bool

definition nest_finalizeOptions ::
  "connections \<Rightarrow> bool \<Rightarrow> 'q partial_options \<Rightarrow> 'r mw_world \<Rightarrow> string + 'q nest_init \<times> 'r mw_world" where
  "nest_finalizeOptions conns production options w =
     (case mergeRateLimiterOptions conns False options w of
        Inl e \<Rightarrow> Inl e
      | Inr (merged, w1) \<Rightarrow>
          (case resolveStoreWithInMemoryShield production merged w1 of
             Inl e \<Rightarrow> Inl e
           | Inr ((optionsForEngine, shield), w2) \<Rightarrow>
               (let keyManager = (if po_keyManager options \<noteq> None then po_keyManager options else md_keyManager merged)
                in Inr (\<lparr>ni_moduleOptions = options\<lparr>po_store := Some (md_store merged),
                             po_keyManager := (if keyManager \<noteq> None then keyManager else po_keyManager options)\<rparr>,
                         ni_store = md_store merged, ni_keyManager = keyManager, ni_shield = shield,
                         ni_disposeKeyManagerOnDestroy = (keyManager \<noteq> None \<and> po_keyManager options = None)\<rparr>, w2))))"

text \<open>The constructor of \<open>RateLimitGuard\<close> with the module's providers injected.\<close>

definition nest_guard ::
  "connections \<Rightarrow> bool \<Rightarrow> 'q nest_init \<Rightarrow> 'r mw_world \<Rightarrow> string + ('q merged_options \<times> nat option) \<times> 'r mw_world" where
  "nest_guard conns production i w =
     (let p = ni_moduleOptions i;
          km = (if ni_keyManager i \<noteq> None then ni_keyManager i else po_keyManager p)
      in case mergeRateLimiterOptions conns True (p\<lparr>po_store := Some (ni_store i), po_keyManager := km\<rparr>) w of
           Inl e \<Rightarrow> Inl e
         | Inr (merged, w1) \<Rightarrow> resolveStoreWithInMemoryShield production merged w1)"

end
