(* ===== verification/Merge_Properties.thy ===== *)
theory Merge_Properties
  imports Middleware_Merge Redis_Store_Properties Header_Properties
begin

text \<open>
  Properties of option merging: what \<open>limits\<close> builds is what the headers announce; what the NestJS
  guard makes of options that the module has merged already; and what the shield of \<open>inMemoryBlock\<close>
  does, which always has an explicit block duration.
\<close>

section \<open>Worlds\<close>

lemma obj_at_new:
  "new_obj ob w = (i, w') \<Longrightarrow>
   i = length (ww_objs w) \<and> obj_at w' i = ob \<and> (\<forall>j. j \<noteq> i \<longrightarrow> obj_at w' j = obj_at w j) \<and>
   ww_objs w' = ww_objs w @ [ob] \<and> ww_kms w' = ww_kms w \<and> ww_warnedShields w' = ww_warnedShields w"
  by (auto simp: new_obj_def obj_at_def nth_append)

lemma obj_at_append:
  "ww_objs w' = ww_objs w @ obs \<Longrightarrow> j < length obs \<Longrightarrow> obj_at w' (length (ww_objs w) + j) = obs ! j"
  by (simp add: obj_at_def)

lemma obj_at_cong: "ww_objs w' = ww_objs w \<Longrightarrow> obj_at w' = obj_at w"
  by (simp add: obj_at_def fun_eq_iff)

section \<open>compose.windows\<close>

lemma first_duplicate_None: "distinct ls \<Longrightarrow> set ls \<inter> set seen = {} \<Longrightarrow> first_duplicate seen ls = None"
  by (induction ls arbitrary: seen) auto

lemma slot_label_inj [simp]: "slot_label i = slot_label j \<longleftrightarrow> i = j"
  unfolding slot_label_def by (metis nat_decimal_value same_append_eq)

lemma memory_layers_spec:
  assumes "memory_layers i cfgs w = (ls, w')"
  shows "ls = map (\<lambda>j. compose_layer (slot_label (i + j)) (length (ww_objs w) + j) None Undefined) [0..<length cfgs] \<and>
    w' = w\<lparr>ww_objs := ww_objs w @ map (\<lambda>c. ObjMemory (window_store c)) cfgs\<rparr>"
  using assms
proof (induction cfgs arbitrary: i w ls w')
  case Nil
  then show ?case by simp
next
  case (Cons cfg cfgs)
  define w1 where "w1 = w\<lparr>ww_objs := ww_objs w @ [ObjMemory (window_store cfg)]\<rparr>"
  obtain ls2 where rest: "memory_layers (Suc i) cfgs w1 = (ls2, w')"
    and ls: "ls = compose_layer (slot_label i) (length (ww_objs w)) None Undefined # ls2"
    using Cons.prems by (auto simp: new_obj_def w1_def split: prod.splits)
  have len: "length (ww_objs w1) = Suc (length (ww_objs w))" by (simp add: w1_def)
  have upt: "[0..<Suc (length cfgs)] = 0 # map Suc [0..<length cfgs]" by (metis map_Suc_upt upt_conv_Cons zero_less_Suc)
  from Cons.IH [OF rest] show ?case
    by (simp only: ls len upt list.map length_Cons map_map comp_def add_Suc add_Suc_right add_0_right)
      (simp add: w1_def)
qed

lemma new_ComposedStore_all:
  assumes "ls \<noteq> []" "distinct (map ly_label ls)"
  shows "\<exists>c. new_ComposedStore wl ModeAll ls (Some True) None = Inr (c, False) \<and> cs_mode c = ModeAll \<and>
    cs_layers c = ls \<and> cs_rollbackOnBlock c"
  using assms first_duplicate_None [of "map ly_label ls" "[]"]
  by (simp add: new_ComposedStore_def overflow_warning_def)

lemma compose_windows_memory:
  assumes "cfgs \<noteq> []"
  shows "\<exists>c w'. compose_windows conns None cfgs w = Inr (length (ww_objs w) + length cfgs, w') \<and>
    ww_objs w' = ww_objs w @ map (\<lambda>cf. ObjMemory (window_store cf)) cfgs @ [ObjComposed c] \<and>
    ww_kms w' = ww_kms w \<and> ww_warnedShields w' = ww_warnedShields w \<and>
    cs_mode c = ModeAll \<and> cs_rollbackOnBlock c \<and>
    cs_layers c = map (\<lambda>j. compose_layer (slot_label j) (length (ww_objs w) + j) None Undefined) [0..<length cfgs]"
proof -
  obtain ls w1 where ml: "memory_layers 0 cfgs w = (ls, w1)" by fastforce
  note spec = memory_layers_spec [OF ml]
  have ls: "ls \<noteq> []" "distinct (map ly_label ls)"
    using assms spec by (auto simp: compose_layer_def distinct_map inj_on_def comp_def)
  from new_ComposedStore_all [OF ls, of "window_length_of w1"] assms ml spec show ?thesis
    by (auto simp: compose_windows_def compose_all_def composed_obj_def new_obj_def)
qed

section \<open>Limits\<close>

lemma length_sanitized [simp]: "length (sanitized_limits ls) = length ls"
  by (simp add: sanitized_limits_def)

lemma sanitized_limits_nth:
  "i < length ls \<Longrightarrow> sanitized_limits ls ! i = (sanitizeWindowMs (fst (ls ! i)) 60000, sanitizeRateLimitCap (snd (ls ! i)) 100)"
  by (simp add: sanitized_limits_def case_prod_beta)

lemma slot_store:
  assumes "i < length ls" "strat \<noteq> TOKEN_BUCKET"
  defines "s \<equiv> window_store (slot_configs strat (sanitized_limits ls) ! i)"
  shows "ms_maxRequests s = sanitizeRateLimitCap (snd (ls ! i)) 100" "ms_windowMs s = sanitizeWindowMs (fst (ls ! i)) 60000"
    "ms_strategy s = strat" "ms_state s = []" "ms_maxKeys s = 100000"
proof -
  have fixed: "sanitizeRateLimitCap (js_int (sanitizeRateLimitCap v 100)) 100 = sanitizeRateLimitCap v 100"
    "sanitizeWindowMs (js_int (sanitizeWindowMs v 60000)) 60000 = sanitizeWindowMs v 60000" for v
    using sanitize_idem_int(1) [of "sanitizeRateLimitCap v 100" 100] sanitize_idem_int(3) [of "sanitizeWindowMs v 60000" 60000]
      sanitize_ge1(1) [of 100 v] sanitize_ge1(3) [of 60000 v] sanitize_le_MAX(1) [of 100 v] sanitize_le_MAX(3) [of 60000 v]
    by (simp_all add: MAX_SAFE_INTEGER_def)
  from assms(1) show "ms_maxRequests s = sanitizeRateLimitCap (snd (ls ! i)) 100" "ms_windowMs s = sanitizeWindowMs (fst (ls ! i)) 60000"
    "ms_strategy s = strat" "ms_state s = []" "ms_maxKeys s = 100000"
    by (simp_all add: s_def slot_configs_def window_store_def new_MemoryStore_def sanitized_limits_nth fixed opt_or_def Let_def)
qed

lemma attach_keeps:
  assumes "attachKeyManagerFromPenaltyBox mg w = (mg', w')"
  shows "md_options mg' = md_options mg \<and> md_store mg' = md_store mg \<and> ww_objs w' = ww_objs w \<and>
    md_inMemoryBlock mg' = md_inMemoryBlock mg \<and>
    md_throwOnDoubleInMemoryShield mg' = md_throwOnDoubleInMemoryShield mg \<and>
    (eo_penaltyBox (mo_engine (md_options mg)) = None \<or> md_keyManager mg' \<noteq> None) \<and>
    (md_keyManager mg \<noteq> None \<longrightarrow> mg' = mg \<and> w' = w)"
  using assms by (auto simp: attachKeyManagerFromPenaltyBox_def Let_def split: option.splits if_splits)

lemma header_window_no_slot: "resolveWindowMsForShield mo = resolveWindowMsForHeaders mo None"
  by (simp add: resolveWindowMsForShield_def resolveWindowMsForHeaders_def pick_slot_def Let_def)

text \<open>What merging \<open>limits\<close> gives when no Redis template is used.\<close>

lemma merge_limits_memory:
  assumes "merge_check allow po w = Inr ()" "po_limits po \<noteq> []" "opt_or (po_strategy po) SLIDING_WINDOW = strat"
    and "strat \<noteq> TOKEN_BUCKET" "\<forall>st. po_store po = Some st \<longrightarrow> redis_template (obj_at w st) = None"
  obtains mg w' c where "mergeRateLimiterOptions conns allow po w = Inr (mg, w')"
    "obj_at w' (md_store mg) = ObjComposed c" "cs_mode c = ModeAll" "cs_rollbackOnBlock c"
    "cs_layers c = map (\<lambda>j. compose_layer (slot_label j) (length (ww_objs w) + j) None Undefined) [0..<length (po_limits po)]"
    "\<forall>j < length (po_limits po).
       obj_at w' (length (ww_objs w) + j) = ObjMemory (window_store (slot_configs strat (sanitized_limits (po_limits po)) ! j))"
    "eo_strategy (mo_engine (md_options mg)) = strat" "eo_limits (mo_engine (md_options mg)) = map snd (po_limits po)"
    "mo_limitWindows (md_options mg) = map fst (po_limits po)"
    "eo_maxRequests (mo_engine (md_options mg)) =
       MaxNumber (js_int (min_list1 (hd (map snd (sanitized_limits (po_limits po)))) (tl (map snd (sanitized_limits (po_limits po))))))"
    "md_inMemoryBlock mg = po_inMemoryBlock po"
    "md_throwOnDoubleInMemoryShield mg = po_throwOnDoubleInMemoryShield po"
proof -
  let ?slots = "sanitized_limits (po_limits po)"
  have ne: "slot_configs strat ?slots \<noteq> []" using assms(2) by (simp add: slot_configs_def sanitized_limits_def)
  obtain c w1 where built: "compose_windows conns None (slot_configs strat ?slots) w =
      Inr (length (ww_objs w) + length (slot_configs strat ?slots), w1)"
    and objs: "ww_objs w1 = ww_objs w @ map (\<lambda>cf. ObjMemory (window_store cf)) (slot_configs strat ?slots) @ [ObjComposed c]"
    and c: "cs_mode c = ModeAll" "cs_rollbackOnBlock c"
      "cs_layers c = map (\<lambda>j. compose_layer (slot_label j) (length (ww_objs w) + j) None Undefined) [0..<length (slot_configs strat ?slots)]"
    using compose_windows_memory [OF ne, of conns w] by blast
  have len: "length (slot_configs strat ?slots) = length (po_limits po)" by (simp add: slot_configs_def)
  have template: "(case po_store po of None \<Rightarrow> None | Some st \<Rightarrow> redis_template (obj_at w st)) = None"
    using assms(5) by (cases "po_store po") auto
  define mo where "mo = spread_options strat po"
  define mo1 where "mo1 = mo\<lparr>mo_windowMs := Some (min_list1 (hd (map fst ?slots)) (tl (map fst ?slots))),
      mo_engine := (mo_engine mo)\<lparr>eo_maxRequests := MaxNumber (js_int (min_list1 (hd (map snd ?slots)) (tl (map snd ?slots))))\<rparr>\<rparr>"
  define st where "st = length (ww_objs w) + length (po_limits po)"
  have ml: "merge_limits conns strat po w = Inr (attachKeyManagerFromPenaltyBox (with_store po mo1 st) w1)"
    using built len by (simp add: merge_limits_def Let_def template limitsToComposedStore_def mo1_def mo_def st_def)
  have mo1: "eo_strategy (mo_engine mo1) = strat" "eo_limits (mo_engine mo1) = map snd (po_limits po)"
      "mo_limitWindows mo1 = map fst (po_limits po)"
      "eo_maxRequests (mo_engine mo1) = MaxNumber (js_int (min_list1 (hd (map snd ?slots)) (tl (map snd ?slots))))"
    by (simp_all add: mo1_def mo_def spread_options_def Let_def)
  obtain mg w2 where at: "attachKeyManagerFromPenaltyBox (with_store po mo1 st) w1 = (mg, w2)" by fastforce
  note k = attach_keeps [OF at]
  have w2: "obj_at w2 = obj_at w1" by (rule obj_at_cong) (use k in blast)
  have "mergeRateLimiterOptions conns allow po w = Inr (mg, w2)"
    using assms(1-4) ml at by (simp add: mergeRateLimiterOptions_def Let_def)
  moreover have "obj_at w1 st = ObjComposed c"
    using obj_at_append [OF objs, of "length (po_limits po)"] len by (simp add: nth_append st_def)
  moreover have "obj_at w1 (length (ww_objs w) + j) = ObjMemory (window_store (slot_configs strat ?slots ! j))"
    if "j < length (po_limits po)" for j
    using obj_at_append [OF objs, of j] that len by (simp add: nth_append)
  ultimately show ?thesis using that [of mg w2 c] k c mo1 len w2 by (simp add: with_store_def)
qed

lemma limits_no_override:
  assumes "merge_check allow po w = Inr ()" "po_limits po \<noteq> []" "opt_or (po_strategy po) SLIDING_WINDOW \<noteq> TOKEN_BUCKET"
    and "\<forall>st. po_store po = Some st \<longrightarrow> redis_template (obj_at w st) = None"
  shows "\<exists>mg w'. mergeRateLimiterOptions conns allow po w = Inr (mg, w') \<and>
    (\<forall>facades req. opt_maxRequests (resolveIncrementOpts (engine_options_of facades mg w') req) = Undefined)"
proof (rule merge_limits_memory [OF assms(1,2) refl assms(3,4), of conns])
  fix mg w'
  assume m: "mergeRateLimiterOptions conns allow po w = Inr (mg, w')"
    and mo: "eo_limits (mo_engine (md_options mg)) = map snd (po_limits po)"
      "eo_maxRequests (mo_engine (md_options mg)) =
       MaxNumber (js_int (min_list1 (hd (map snd (sanitized_limits (po_limits po)))) (tl (map snd (sanitized_limits (po_limits po))))))"
  have "opt_maxRequests (resolveIncrementOpts (engine_options_of facades mg w') req) = Undefined" for facades req
    using mo assms(2) by (simp add: resolveIncrementOpts_def engine_options_of_def isWindowOpts_def Let_def opt_maxRequests_def
        split: option.splits)
  with m show ?thesis by blast
qed

text \<open>(C36) The quota that \<open>limits\<close> announces is the quota its stores enforce: merging succeeds and builds a
  store that blocks when one of its layers blocks, with one fresh in-memory store per limit; for every
  limit, the limit and the window that go into the headers are the cap and the window of its store, and
  no request overrides the caps of the stores.\<close>

theorem limits_announced_and_enforced:
  assumes "merge_check allow po w = Inr ()" "po_limits po \<noteq> []" "opt_or (po_strategy po) SLIDING_WINDOW \<noteq> TOKEN_BUCKET"
    and "\<forall>st. po_store po = Some st \<longrightarrow> redis_template (obj_at w st) = None"
  shows "\<exists>mg w' c. mergeRateLimiterOptions conns allow po w = Inr (mg, w') \<and>
    obj_at w' (md_store mg) = ObjComposed c \<and> cs_mode c = ModeAll \<and> cs_rollbackOnBlock c \<and>
    length (cs_layers c) = length (po_limits po) \<and> distinct (map ly_store (cs_layers c)) \<and>
    (\<forall>i < length (po_limits po). \<exists>s. obj_at w' (ly_store (cs_layers c ! i)) = ObjMemory s \<and> ms_state s = [] \<and>
       ms_strategy s = opt_or (po_strategy po) SLIDING_WINDOW \<and>
       ly_maxRequests (cs_layers c ! i) = Undefined \<and>
       (\<forall>req. getLimit (mo_engine (md_options mg)) req (Some i) = ms_maxRequests s) \<and>
       resolveWindowMsForHeaders (md_options mg) (Some i) = ms_windowMs s) \<and>
    (\<forall>facades req. opt_maxRequests (resolveIncrementOpts (engine_options_of facades mg w') req) = Undefined)"
proof -
  let ?strat = "opt_or (po_strategy po) SLIDING_WINDOW"
  obtain mg w' c where m: "mergeRateLimiterOptions conns allow po w = Inr (mg, w')"
    "obj_at w' (md_store mg) = ObjComposed c" "cs_mode c = ModeAll" "cs_rollbackOnBlock c"
    and ly: "cs_layers c = map (\<lambda>j. compose_layer (slot_label j) (length (ww_objs w) + j) None Undefined) [0..<length (po_limits po)]"
    and at: "\<forall>j < length (po_limits po).
       obj_at w' (length (ww_objs w) + j) = ObjMemory (window_store (slot_configs ?strat (sanitized_limits (po_limits po)) ! j))"
    and mo: "eo_strategy (mo_engine (md_options mg)) = ?strat" "eo_limits (mo_engine (md_options mg)) = map snd (po_limits po)"
      "mo_limitWindows (md_options mg) = map fst (po_limits po)"
    and mx: "eo_maxRequests (mo_engine (md_options mg)) =
       MaxNumber (js_int (min_list1 (hd (map snd (sanitized_limits (po_limits po)))) (tl (map snd (sanitized_limits (po_limits po))))))"
    and rest: "md_inMemoryBlock mg = po_inMemoryBlock po"
      "md_throwOnDoubleInMemoryShield mg = po_throwOnDoubleInMemoryShield po"
    by (rule merge_limits_memory [OF assms(1,2) refl assms(3,4), of conns])
  have "\<exists>s. obj_at w' (ly_store (cs_layers c ! i)) = ObjMemory s \<and> ms_state s = [] \<and> ms_strategy s = ?strat \<and>
       ly_maxRequests (cs_layers c ! i) = Undefined \<and>
       (\<forall>req. getLimit (mo_engine (md_options mg)) req (Some i) = ms_maxRequests s) \<and>
       resolveWindowMsForHeaders (md_options mg) (Some i) = ms_windowMs s" if "i < length (po_limits po)" for i
    using at [rule_format, OF that] slot_store [OF that assms(3)] mo assms(2,3) that
    by (simp add: ly compose_layer_def getLimit_def resolveWindowMsForHeaders_def pick_slot_def Let_def)
  moreover have "opt_maxRequests (resolveIncrementOpts (engine_options_of facades mg w') req) = Undefined" for facades req
    using limits_no_override [OF assms, of conns] m(1) by auto
  moreover have "distinct (map ly_store (cs_layers c))" by (simp add: ly compose_layer_def distinct_map inj_on_def)
  ultimately show ?thesis using m ly by (intro exI [of _ mg] exI [of _ w'] exI [of _ c]) simp
qed

section \<open>NestJS\<close>

text \<open>The guard merges again what the module has merged already.\<close>

lemma merge_check_again:
  assumes "merge_check False po w = Inr ()" "po_limits po = []"
  shows "merge_check True (po\<lparr>po_store := st, po_keyManager := km\<rparr>) w' = Inr ()"
  using assms by (auto simp: merge_check_def split: option.splits sum.splits if_splits)

lemma spread_again [simp]:
  "spread_options strat (po\<lparr>po_store := st, po_keyManager := km\<rparr>) = spread_options strat po"
  by (simp add: spread_options_def Let_def)

lemma with_store_again:
  "with_store (po\<lparr>po_store := st', po_keyManager := km\<rparr>) mo st = (with_store po mo st)\<lparr>md_keyManager := km\<rparr>"
  by (simp add: with_store_def)

lemma merge_plain:
  assumes "po_limits po = []" "mergeRateLimiterOptions conns allow po w = Inr (mg, w')"
  obtains mo st w1 where "attachKeyManagerFromPenaltyBox (with_store po mo st) w1 = (mg, w')"
    "mo = spread_options (opt_or (po_strategy po) SLIDING_WINDOW) po" "merge_check allow po w = Inr ()"
    "\<And>km allow'. merge_check allow' (po\<lparr>po_store := Some st, po_keyManager := km\<rparr>) w' = Inr () \<Longrightarrow>
       mergeRateLimiterOptions conns allow' (po\<lparr>po_store := Some st, po_keyManager := km\<rparr>) w' =
         Inr (attachKeyManagerFromPenaltyBox ((with_store po mo st)\<lparr>md_keyManager := km\<rparr>) w')"
    "md_inMemoryBlock mg = po_inMemoryBlock po" "md_store mg = st"
proof -
  let ?strat = "opt_or (po_strategy po) SLIDING_WINDOW"
  let ?mo = "spread_options ?strat po"
  have chk: "merge_check allow po w = Inr ()" using assms(2) by (auto simp: mergeRateLimiterOptions_def split: sum.splits)
  have "\<exists>st w1. attachKeyManagerFromPenaltyBox (with_store po ?mo st) w1 = (mg, w')"
    using assms chk by (cases "?strat = TOKEN_BUCKET") (auto simp: mergeRateLimiterOptions_def Let_def split: prod.splits)
  then obtain st w1 where at: "attachKeyManagerFromPenaltyBox (with_store po ?mo st) w1 = (mg, w')" by blast
  have again: "mergeRateLimiterOptions conns allow' (po\<lparr>po_store := Some st, po_keyManager := km\<rparr>) w' =
      Inr (attachKeyManagerFromPenaltyBox ((with_store po ?mo st)\<lparr>md_keyManager := km\<rparr>) w')"
    if "merge_check allow' (po\<lparr>po_store := Some st, po_keyManager := km\<rparr>) w' = Inr ()" for km allow'
    using that assms(1) by (simp add: mergeRateLimiterOptions_def Let_def with_store_again)
  show ?thesis using that [OF at refl chk again] attach_keeps [OF at] by (simp add: with_store_def)
qed

text \<open>Without \<open>limits\<close> and \<open>inMemoryBlock\<close> the guard's second merge changes nothing: its options, its
  store and its key manager are those the module resolved and provides, also when the module made the
  key manager from the penalty box.\<close>

theorem nest_guard_uses_module_options:
  assumes "nest_finalizeOptions conns production po w = Inr (i, w1)" "po_limits po = []" "po_inMemoryBlock po = BlockOff"
  shows "\<exists>mg. mergeRateLimiterOptions conns False po w = Inr (mg, w1) \<and>
    nest_guard conns production i w1 = Inr ((stripShieldExclusiveFields mg, None), w1) \<and>
    md_store mg = ni_store i \<and> md_keyManager mg = ni_keyManager i"
proof -
  obtain mg w' where m: "mergeRateLimiterOptions conns False po w = Inr (mg, w')"
    using assms(1) by (auto simp: nest_finalizeOptions_def split: sum.splits prod.splits)
  from merge_plain [OF assms(2) m] obtain mo st w0 where
    at: "attachKeyManagerFromPenaltyBox (with_store po mo st) w0 = (mg, w')"
    and chk: "merge_check False po w = Inr ()" and st: "md_store mg = st" and off: "md_inMemoryBlock mg = BlockOff"
    and again: "\<And>km allow'. merge_check allow' (po\<lparr>po_store := Some st, po_keyManager := km\<rparr>) w' = Inr () \<Longrightarrow>
       mergeRateLimiterOptions conns allow' (po\<lparr>po_store := Some st, po_keyManager := km\<rparr>) w' =
         Inr (attachKeyManagerFromPenaltyBox ((with_store po mo st)\<lparr>md_keyManager := km\<rparr>) w')"
    using assms(3) by metis
  have km: "po_keyManager po \<noteq> None \<Longrightarrow> md_keyManager mg = po_keyManager po"
    using attach_keeps [OF at] by (auto simp: with_store_def)
  have i: "ni_moduleOptions i = po\<lparr>po_store := Some st, po_keyManager := md_keyManager mg\<rparr> \<and>
      ni_store i = st \<and> ni_keyManager i = md_keyManager mg \<and> w1 = w'"
    using assms(1) m off st km
    by (cases "po_keyManager po"; cases "md_keyManager mg")
      (auto simp: nest_finalizeOptions_def resolveStoreWithInMemoryShield_def Let_def)
  have stable: "attachKeyManagerFromPenaltyBox ((with_store po mo st)\<lparr>md_keyManager := md_keyManager mg\<rparr>) w' = (mg, w')"
    using at by (auto simp: attachKeyManagerFromPenaltyBox_def Let_def with_store_def split: option.splits if_splits)
  have "merge_check True (po\<lparr>po_store := Some st, po_keyManager := md_keyManager mg\<rparr>) w' = Inr ()"
    by (rule merge_check_again [OF chk assms(2)])
  from again [OF this] stable have
    "mergeRateLimiterOptions conns True (po\<lparr>po_store := Some st, po_keyManager := md_keyManager mg\<rparr>) w' = Inr (mg, w')" by simp
  moreover have "(ni_moduleOptions i)\<lparr>po_store := Some (ni_store i),
      po_keyManager := (if ni_keyManager i \<noteq> None then ni_keyManager i else po_keyManager (ni_moduleOptions i))\<rparr> =
      po\<lparr>po_store := Some st, po_keyManager := md_keyManager mg\<rparr>"
    using i by (cases "md_keyManager mg"; cases po) simp_all
  ultimately have "nest_guard conns production i w1 = Inr ((stripShieldExclusiveFields mg, None), w')"
    using off i by (simp only: nest_guard_def Let_def resolveStoreWithInMemoryShield_def sum.case prod.case simp_thms if_True)
  then show ?thesis using m st i by auto
qed

text \<open>(C37) With \<open>limits\<close> a NestJS application cannot start: the module accepts the options and provides the
  composed store it built, and the guard, merging the same options with that store, is refused.\<close>

theorem nest_limits_never_start:
  assumes "merge_check False po w = Inr ()" "po_limits po \<noteq> []" "opt_or (po_strategy po) SLIDING_WINDOW \<noteq> TOKEN_BUCKET"
    and "\<forall>st. po_store po = Some st \<longrightarrow> redis_template (obj_at w st) = None" "po_inMemoryBlock po = BlockOff"
  shows "\<exists>i w1. nest_finalizeOptions conns production po w = Inr (i, w1) \<and>
    nest_guard conns production i w1 = Inl err_limits_composed"
proof -
  obtain mg w' c where m: "mergeRateLimiterOptions conns False po w = Inr (mg, w')" "obj_at w' (md_store mg) = ObjComposed c"
    and off: "md_inMemoryBlock mg = po_inMemoryBlock po"
    by (rule merge_limits_memory [OF assms(1,2) refl assms(3,4), of conns]) blast
  have valid: "fst (validateRateLimitHeaderOptions (po_rest po) False) = Inr ()"
    using assms(1) by (auto simp: merge_check_def split: sum.splits)
  obtain i where f: "nest_finalizeOptions conns production po w = Inr (i, w')" and i: "ni_store i = md_store mg"
    "po_limits (ni_moduleOptions i) = po_limits po" "po_rest (ni_moduleOptions i) = po_rest po"
    using m off assms(5) by (simp add: nest_finalizeOptions_def resolveStoreWithInMemoryShield_def Let_def)
  have "merge_check True ((ni_moduleOptions i)\<lparr>po_store := Some (ni_store i), po_keyManager := km\<rparr>) w' = Inl err_limits_composed" for km
    using i m(2) valid assms(2) by (simp add: merge_check_def is_composed_def)
  then have "nest_guard conns production i w' = Inl err_limits_composed"
    by (simp add: nest_guard_def Let_def mergeRateLimiterOptions_def)
  with f show ?thesis by blast
qed

section \<open>The shield of inMemoryBlock\<close>

lemma shield_resolve_cases:
  assumes "resolveStoreWithInMemoryShield production mg w = Inr ((mg', Some a), w')"
  obtains s w0 where "new_InMemoryShield (md_store mg) (shield_options_of (md_inMemoryBlock mg) (md_options mg)) = Inr s"
    "a = length (ww_objs w)" "ww_objs w' = ww_objs w @ [ObjShield s]" "ww_kms w' = ww_kms w"
    "md_store mg' = a" "eo_store (mo_engine (md_options mg')) = a" "md_inMemoryBlock mg \<noteq> BlockOff"
    "\<not> is_memory (obj_at w (md_store mg))"
  using assms
  by (auto simp: resolveStoreWithInMemoryShield_def Let_def stripShieldExclusiveFields_def new_obj_def
      split: if_splits sum.splits)

lemma new_shield_fields:
  "new_InMemoryShield st opts = Inr s \<Longrightarrow>
   sh_inner s = st \<and> blockOnConsumed s = num_ceiling (opt_blockOnConsumed opts) \<and>
   blockDurationMs s = (if opt_blockDurationMs opts = Undefined then None else Some (num_ceiling (opt_blockDurationMs opts)))"
  by (auto simp: new_InMemoryShield_def Let_def split: if_splits)

lemma shield_resolve_None:
  "resolveStoreWithInMemoryShield production mg w = Inr ((mg', None), w') \<Longrightarrow>
   md_inMemoryBlock mg = BlockOff \<or> is_memory (obj_at w (md_store mg))"
  by (auto simp: resolveStoreWithInMemoryShield_def Let_def split: if_splits sum.splits prod.splits)

lemma merge_plain_store:
  assumes "po_limits po = []" "mergeRateLimiterOptions conns allow po w = Inr (mg, w')"
  shows "po_store po = Some (md_store mg) \<and> ww_objs w' = ww_objs w \<or>
    po_store po = None \<and> md_store mg = length (ww_objs w) \<and> (\<exists>ob. ww_objs w' = ww_objs w @ [ob])"
proof -
  obtain st w1 mo where at: "attachKeyManagerFromPenaltyBox (with_store po mo st) w1 = (mg, w')"
    and st: "po_store po = Some st \<and> w1 = w \<or> po_store po = None \<and> (\<exists>ob. new_obj ob w = (st, w1))"
    using assms by (auto simp: mergeRateLimiterOptions_def Let_def split: sum.splits prod.splits option.splits if_splits)
  show ?thesis using attach_keeps [OF at] st by (auto simp: with_store_def dest: obj_at_new)
qed

text \<open>With \<open>inMemoryBlock\<close> a NestJS application runs behind a shield of its own: the guard wraps the
  store a second time, and the shield that the module made, and provides for metrics and inspection, is
  on no request's path.\<close>

theorem nest_provides_unused_shield:
  assumes "nest_finalizeOptions conns production po w = Inr (i, w1)" "po_limits po = []" "ni_shield i = Some a"
    and "\<forall>st. po_store po = Some st \<longrightarrow> st < length (ww_objs w)"
    and "nest_guard conns production i w1 = Inr ((mg, g), w2)"
  shows "\<exists>b s. g = Some b \<and> eo_store (mo_engine (md_options mg)) = b \<and> obj_at w2 b = ObjShield s \<and>
    sh_inner s = ni_store i \<and> ni_store i \<noteq> a \<and> b \<noteq> a"
proof -
  obtain mg0 w' where m: "mergeRateLimiterOptions conns False po w = Inr (mg0, w')"
    using assms(1) by (auto simp: nest_finalizeOptions_def split: sum.splits prod.splits)
  obtain mo st w0 where
    at: "attachKeyManagerFromPenaltyBox (with_store po mo st) w0 = (mg0, w')"
    and chk: "merge_check False po w = Inr ()" and flag: "md_inMemoryBlock mg0 = po_inMemoryBlock po" and st: "md_store mg0 = st"
    by (rule merge_plain [OF assms(2) m]) blast
  obtain oe where r1: "resolveStoreWithInMemoryShield production mg0 w' = Inr ((oe, Some a), w1)"
    and i: "ni_store i = md_store mg0" "po_inMemoryBlock (ni_moduleOptions i) = po_inMemoryBlock po" "po_limits (ni_moduleOptions i) = []"
    using assms(1-3) m by (auto simp: nest_finalizeOptions_def Let_def split: sum.splits prod.splits)
  from shield_resolve_cases [OF r1] obtain s1 where a: "a = length (ww_objs w')" and w1: "ww_objs w1 = ww_objs w' @ [ObjShield s1]"
    and off: "md_inMemoryBlock mg0 \<noteq> BlockOff" and nm: "\<not> is_memory (obj_at w' (md_store mg0))"
    by metis
  have range: "md_store mg0 < length (ww_objs w')"
    using merge_plain_store [OF assms(2) m] assms(4) by auto
  let ?p = "(ni_moduleOptions i)\<lparr>po_store := Some (ni_store i),
      po_keyManager := (if ni_keyManager i \<noteq> None then ni_keyManager i else po_keyManager (ni_moduleOptions i))\<rparr>"
  obtain mg1 w1' where m1: "mergeRateLimiterOptions conns True ?p w1 = Inr (mg1, w1')"
    and r2: "resolveStoreWithInMemoryShield production mg1 w1' = Inr ((mg, g), w2)"
    using assms(5) by (auto simp: nest_guard_def Let_def split: sum.splits prod.splits)
  have p: "po_limits ?p = []" using i by simp
  have st1: "md_store mg1 = ni_store i" "ww_objs w1' = ww_objs w1"
    using merge_plain_store [OF p m1] by auto
  have flag1: "md_inMemoryBlock mg1 = po_inMemoryBlock po"
    by (rule merge_plain [OF p m1]) (use i in simp)
  have "obj_at w1' (ni_store i) = obj_at w' (md_store mg0)" using range i st1 w1 by (simp add: obj_at_def nth_append)
  then have "g \<noteq> None" using shield_resolve_None [of production mg1 w1' mg w2] r2 st1 flag1 flag off nm by auto
  then obtain b where g: "g = Some b" by blast
  show ?thesis
  proof (rule shield_resolve_cases [OF r2 [unfolded g]])
    fix s
    assume new: "new_InMemoryShield (md_store mg1) (shield_options_of (md_inMemoryBlock mg1) (md_options mg1)) = Inr s"
      and b: "b = length (ww_objs w1')" "ww_objs w2 = ww_objs w1' @ [ObjShield s]" "eo_store (mo_engine (md_options mg)) = b"
    have "obj_at w2 b = ObjShield s" using b by (simp add: obj_at_def)
    then show ?thesis using g b new_shield_fields [OF new] st1 w1 a i range by auto
  qed
qed

text \<open>A key that reaches its quota is shut out for a whole window from that moment: the middlewares
  always give the shield an explicit duration, so it answers every request of the key from its cache,
  without asking the store, until a window length has passed, also when the store's own window ended
  long before; and a client that never exceeded its quota is shut out as well.\<close>

theorem option_shield_outlives_window:
  assumes "new_InMemoryShield inner (shield_options_of flag mo) = Inr s0" "flag = BlockTrue \<or> flag = BlockNumber v"
    and "0 < resolveWindowMsForShield mo"
    and "blockOnConsumed s = blockOnConsumed s0" "blockDurationMs s = blockDurationMs s0"
    and "shield_increment ops t k o1 s = (Inr (r, False), s1)" "blockOnConsumed s0 \<le> totalHits r"
    and "t \<le> now" "now < t + resolveWindowMsForShield mo"
  shows "\<exists>r2 s2. shield_increment ops now k o2 s1 = (Inr (r2, True), s2) \<and> isBlocked r2 \<and> totalHits r2 = totalHits r \<and>
    resetTime r2 = resetTime r \<and> sh_inner s2 = sh_inner s1"
proof -
  let ?W = "resolveWindowMsForShield mo"
  have "opt_blockDurationMs (shield_options_of flag mo) = js_int ?W"
    using assms(2) by (auto simp: shield_options_of_def Let_def)
  then have dur: "blockDurationMs s = Some ?W"
    using new_shield_fields [OF assms(1)] assms(5) by (simp add: js_int_def num_ceiling_def)
  obtain s' where s1: "s1 = cacheBlock t k r s'" and cfg: "blockDurationMs s' = Some ?W"
    using assms(4,6,7) dur
    by (auto simp: shield_increment_def shield_finish_def shield_lookup_def sh_uncache_def Let_def
        split: option.splits prod.splits sum.splits if_splits)
  have "map_of (sh_cache s1) k = Some \<lparr>blockedAt = t, expiresAt = t + ?W,
      cachedResult = plain_result (totalHits r) (max 0 (remaining r)) (resetTime r) True\<rparr>"
    using assms(3) by (simp add: s1 cacheBlock_def Let_def cfg update_conv')
  then have "shield_lookup now k s1 = (Some (plain_result (totalHits r) (max 0 (remaining r)) (resetTime r) True),
      s1\<lparr>storeCallsSaved := Suc (storeCallsSaved s1), sh_events := sh_events s1 @ [ShieldHit k]\<rparr>)"
    using assms(9) by (simp add: shield_lookup_def)
  then show ?thesis by (simp add: shield_increment_def plain_result_def)
qed

section \<open>Witnesses\<close>

definition demo_world :: "unit mw_world" where
  "demo_world = \<lparr>ww_objs = [ObjOther], ww_kms = [], ww_warnedShields = []\<rparr>"

definition demo_connections :: connections where
  "demo_connections i = (\<lambda>_. Delivered, \<lambda>_. ''r'')"

definition demo_partial :: "(js_value \<times> js_value) list \<Rightarrow> in_memory_block \<Rightarrow> nat option \<Rightarrow> unit partial_options" where
  "demo_partial lims block st =
     \<lparr>po_strategy = None, po_windowMs = None, po_maxRequests = None, po_tokensPerInterval = None, po_interval = None,
      po_bucketSize = None, po_limits = lims, po_grouped = [], po_store = st,
      po_penaltyBox = Some \<lparr>pb_violationsThreshold = js_int 3, pb_violationWindowMs = Undefined, pb_penaltyDurationMs = js_int 5000, pb_onPenalty = False\<rparr>,
      po_keyManager = None, po_inMemoryBlock = block, po_throwOnDoubleInMemoryShield = False, po_rest = demo_mw (ShString ''draft-6'')\<rparr>"

lemma demo_check: "merge_check allow (demo_partial lims block None) w = Inr ()"
  by (simp add: merge_check_def demo_partial_def demo_mw_def validateRateLimitHeaderOptions_def isInvalidStandardHeaders_def
      STANDARD_HEADER_STRINGS_def)

definition demo_limits :: "(js_value \<times> js_value) list" where
  "demo_limits = [(js_int 1000, js_int 10), (js_int 60000, js_int 100)]"

theorem limits_announced_and_enforced_witness:
  "\<exists>mg w' c s. mergeRateLimiterOptions demo_connections False (demo_partial demo_limits BlockOff None) demo_world = Inr (mg, w') \<and>
     obj_at w' (md_store mg) = ObjComposed c \<and> obj_at w' (ly_store (cs_layers c ! 1)) = ObjMemory s \<and>
     getLimit (mo_engine (md_options mg)) None (Some 1) = ms_maxRequests s \<and> ms_maxRequests s = 100"
proof -
  let ?po = "demo_partial demo_limits BlockOff None"
  have l: "po_limits ?po = demo_limits" "opt_or (po_strategy ?po) SLIDING_WINDOW = SLIDING_WINDOW" "po_store ?po = None"
    by (simp_all add: demo_partial_def opt_or_def)
  have ne: "po_limits ?po \<noteq> []" "opt_or (po_strategy ?po) SLIDING_WINDOW \<noteq> TOKEN_BUCKET"
    "\<forall>st. po_store ?po = Some st \<longrightarrow> redis_template (obj_at demo_world st) = None"
    by (simp_all add: demo_partial_def demo_limits_def opt_or_def)
  obtain mg w' c where m: "mergeRateLimiterOptions demo_connections False ?po demo_world = Inr (mg, w')"
      "obj_at w' (md_store mg) = ObjComposed c"
    and s: "\<forall>i < length (po_limits ?po). \<exists>s. obj_at w' (ly_store (cs_layers c ! i)) = ObjMemory s \<and> ms_state s = [] \<and>
       ms_strategy s = opt_or (po_strategy ?po) SLIDING_WINDOW \<and> ly_maxRequests (cs_layers c ! i) = Undefined \<and>
       (\<forall>req. getLimit (mo_engine (md_options mg)) req (Some i) = ms_maxRequests s) \<and>
       resolveWindowMsForHeaders (md_options mg) (Some i) = ms_windowMs s"
    using limits_announced_and_enforced [OF demo_check ne, where conns = demo_connections] by blast
  have one: "1 < length (po_limits ?po)" by (simp add: demo_partial_def demo_limits_def)
  from s [rule_format, OF one] obtain s1 where s1: "obj_at w' (ly_store (cs_layers c ! 1)) = ObjMemory s1"
    "getLimit (mo_engine (md_options mg)) None (Some 1) = ms_maxRequests s1" by blast
  obtain mg2 w2 where m2: "mergeRateLimiterOptions demo_connections False ?po demo_world = Inr (mg2, w2)"
    "eo_strategy (mo_engine (md_options mg2)) = SLIDING_WINDOW" "eo_limits (mo_engine (md_options mg2)) = map snd (po_limits ?po)"
    by (rule merge_limits_memory [OF demo_check ne(1) l(2) _ ne(3), where conns = demo_connections]) auto
  then have "eo_strategy (mo_engine (md_options mg)) = SLIDING_WINDOW" "eo_limits (mo_engine (md_options mg)) = map snd demo_limits"
    using m l by auto
  then have "ms_maxRequests s1 = 100"
    using s1(2) by (simp add: getLimit_def demo_limits_def sanitizeRateLimitCap_def js_int_def MAX_SAFE_INTEGER_def)
  with m s1 show ?thesis by blast
qed

theorem nest_limits_never_start_witness:
  "\<exists>i w1. nest_finalizeOptions demo_connections False (demo_partial demo_limits BlockOff None) demo_world = Inr (i, w1) \<and>
     nest_guard demo_connections False i w1 = Inl err_limits_composed"
  by (rule nest_limits_never_start [OF demo_check]) (simp_all add: demo_partial_def demo_limits_def opt_or_def)

lemma demo_finalize:
  "\<exists>i w1. nest_finalizeOptions demo_connections False (demo_partial [] BlockOff None) demo_world = Inr (i, w1) \<and> ni_keyManager i \<noteq> None"
proof -
  have "\<exists>mg w1. mergeRateLimiterOptions demo_connections False (demo_partial [] BlockOff None) demo_world = Inr (mg, w1) \<and>
      md_keyManager mg \<noteq> None \<and> md_inMemoryBlock mg = BlockOff"
    using demo_check [of False "[]" BlockOff demo_world]
    by (simp add: mergeRateLimiterOptions_def demo_partial_def Let_def opt_or_def new_obj_def with_store_def
        attachKeyManagerFromPenaltyBox_def spread_options_def)
  then show ?thesis
    by (auto simp: nest_finalizeOptions_def resolveStoreWithInMemoryShield_def demo_partial_def Let_def)
qed

theorem nest_guard_uses_module_options_witness:
  "\<exists>i w1 mg. nest_finalizeOptions demo_connections False (demo_partial [] BlockOff None) demo_world = Inr (i, w1) \<and>
     nest_guard demo_connections False i w1 = Inr ((mg, None), w1) \<and> ni_keyManager i \<noteq> None"
proof -
  obtain i w1 where i: "nest_finalizeOptions demo_connections False (demo_partial [] BlockOff None) demo_world = Inr (i, w1)"
    "ni_keyManager i \<noteq> None"
    using demo_finalize by blast
  from nest_guard_uses_module_options [OF i(1)] i show ?thesis by (auto simp: demo_partial_def)
qed

text \<open>A custom store, number 0 of the demo world, shielded.\<close>

definition demo_nest :: "unit nest_init \<times> unit mw_world" where
  "demo_nest = projr (nest_finalizeOptions demo_connections False (demo_partial [] BlockTrue (Some 0)) demo_world)"

definition demo_guard :: "(unit merged_options \<times> nat option) \<times> unit mw_world" where
  "demo_guard = projr (nest_guard demo_connections False (fst demo_nest) (snd demo_nest))"

theorem nest_provides_unused_shield_witness:
  "\<exists>s. obj_at (snd demo_guard) 2 = ObjShield s \<and> sh_inner s = 0 \<and> ni_shield (fst demo_nest) = Some 1 \<and> snd (fst demo_guard) = Some 2"
proof -
  have "\<not> isl (nest_finalizeOptions demo_connections False (demo_partial [] BlockTrue (Some 0)) demo_world)"
    and "\<not> isl (nest_guard demo_connections False (fst demo_nest) (snd demo_nest))"
    by code_simp+
  then have f1: "nest_finalizeOptions demo_connections False (demo_partial [] BlockTrue (Some 0)) demo_world = Inr (fst demo_nest, snd demo_nest)"
    and g1: "nest_guard demo_connections False (fst demo_nest) (snd demo_nest) = Inr ((fst (fst demo_guard), snd (fst demo_guard)), snd demo_guard)"
    by (simp_all add: demo_nest_def demo_guard_def)
  have k: "ni_shield (fst demo_nest) = Some 1" "ni_store (fst demo_nest) = 0" "snd (fst demo_guard) = Some 2" by code_simp+
  from nest_provides_unused_shield [OF f1 _ k(1) _ g1] k show ?thesis by (auto simp: demo_partial_def demo_world_def)
qed

text \<open>A fixed window of 1000 ms with room for two requests, made at 0 and at 999 ms: the store would serve
  the client again at 1000 ms, the shield rejects it until 1999 ms.\<close>

definition demo_fixed :: mem_store where
  "demo_fixed = new_MemoryStore (WindowOptions FIXED_WINDOW (js_int 1000) (js_int 2)) None None"

definition demo_shielded_options :: "unit mw_options" where
  "demo_shielded_options =
     (demo_mw (ShBool True))\<lparr>mo_engine := (demo_options FIXED_WINDOW [] False)\<lparr>eo_maxRequests := MaxNumber (js_int 2)\<rparr>,
        mo_windowMs := Some 1000\<rparr>"

definition demo_shielded :: "mem_store shield" where
  "demo_shielded = projr (new_InMemoryShield demo_fixed (shield_options_of BlockTrue demo_shielded_options))"

theorem option_shield_outlives_window_witness:
  "let s = snd (shield_increment mem_ops 0 ''a'' None demo_shielded);
       s1 = snd (shield_increment mem_ops 999 ''a'' None s)
   in (\<exists>r2 s2. shield_increment mem_ops 1998 ''a'' None s1 = (Inr (r2, True), s2) \<and> isBlocked r2) \<and>
      \<not> isBlocked (fst (mem_increment 1998 ''a'' None (sh_inner s1)))"
proof -
  let ?s = "snd (shield_increment mem_ops 0 ''a'' None demo_shielded)"
  let ?x = "shield_increment mem_ops 999 ''a'' None ?s"
  have new: "new_InMemoryShield demo_fixed (shield_options_of BlockTrue demo_shielded_options) = Inr demo_shielded"
    and w: "resolveWindowMsForShield demo_shielded_options = 1000"
    and c: "blockOnConsumed ?s = blockOnConsumed demo_shielded" "blockDurationMs ?s = blockDurationMs demo_shielded"
    and x: "?x = (Inr (fst (projr (fst ?x)), False), snd ?x)"
    and th: "blockOnConsumed demo_shielded \<le> totalHits (fst (projr (fst ?x)))"
    and free: "\<not> isBlocked (fst (mem_increment 1998 ''a'' None (sh_inner (snd ?x))))"
    by code_simp+
  from option_shield_outlives_window [OF new _ _ c x th, where now = 1998 and ?o2.0 = None] w free show ?thesis
    unfolding Let_def by auto
qed

section \<open>An injected store\<close>

text \<open>A store that the application brings keeps its cap only if the options repeat it: the default of 100
  is spread under the options and goes to the store with every request.\<close>

lemma injected_cap_overridden:
  assumes "mergeRateLimiterOptions conns allow po w = Inr (mg, w')" "po_limits po = []" "po_grouped po = []"
    and "po_maxRequests po = None" "opt_or (po_strategy po) SLIDING_WINDOW \<noteq> TOKEN_BUCKET"
    and "\<not> isComposedStoreBrand facades w' (md_store mg)"
  shows "eff_cap s (resolveIncrementOpts (engine_options_of facades mg w') req) = 100"
proof -
  obtain mo st w1 where at: "attachKeyManagerFromPenaltyBox (with_store po mo st) w1 = (mg, w')"
    and mo: "mo = spread_options (opt_or (po_strategy po) SLIDING_WINDOW) po"
    by (rule merge_plain [OF assms(2,1)]) blast
  have "eo_strategy (mo_engine (md_options mg)) \<noteq> TOKEN_BUCKET" "eo_limits (mo_engine (md_options mg)) = []"
    "eo_grouped (mo_engine (md_options mg)) = []" "eo_maxRequests (mo_engine (md_options mg)) = MaxNumber (js_int 100)"
    using attach_keeps [OF at] assms(2-5) by (simp_all add: with_store_def mo spread_options_def opt_or_def Let_def)
  then show ?thesis using assms(6)
    by (simp add: resolveIncrementOpts_def engine_options_of_def isWindowOpts_def eff_cap_def js_or_def js_int_def
        sanitizeRateLimitCap_def MAX_SAFE_INTEGER_def Let_def)
qed

text \<open>\<open>extractLayerMetrics\<close> reports every layer, with its own figures.\<close>

lemma walkLayers_top: "(name, LayerRow th re rt b c e inner) \<in> set rows \<Longrightarrow> (name, th, re, b, c) \<in> set (walkLayers '''' rows)"
proof (induction rows)
  case (Cons x xs)
  obtain n row where "x = (n, row)" by (cases x)
  then show ?case using Cons by (cases row) auto
qed simp

end
