(* ===== verification/Limits_Quota.thy ===== *)
theory Limits_Quota
  imports Merge_Properties
begin

text \<open>
  Several windows at once: what a composed store in mode \<open>all\<close> over sliding-window stores grants, and
  with it what the \<open>limits\<close> option grants. A layer records every request it is asked about; a request
  that another layer blocks is taken back with \<open>removeNewest\<close>. The stamps of a layer therefore always
  account for what the composed store has granted, and every layer keeps its own quota.
\<close>

section \<open>One layer\<close>

definition layer_account :: "key set \<Rightarrow> key \<Rightarrow> (time \<times> int) list \<Rightarrow> time \<Rightarrow> mem_store \<Rightarrow> bool" where
  "layer_account K k g lst s \<longleftrightarrow>
     mem_inv s \<and> ms_strategy s = SLIDING_WINDOW \<and> fits K s \<and> no_wall (map_of (ms_state s) k) \<and>
     sliding_account (ms_windowMs s) (ms_maxRequests s) g (stamps_of (map_of (ms_state s) k)) lst"

lemma sliding_account_wait:
  assumes "sliding_account w m g ts lst" "lst \<le> t"
  shows "sliding_account w m g (filter (\<lambda>x. t - w < x) ts) t" "sliding_account w m g ts t"
proof -
  have "filter (\<lambda>x. c < x) (filter (\<lambda>x. t - w < x) ts) = filter (\<lambda>x. c < x) ts" if "t - w \<le> c" for c
    using that by (auto intro!: filter_cong)
  then have "stamps_after c (filter (\<lambda>x. t - w < x) ts) = stamps_after c ts" if "t - w \<le> c" for c
    using that by (simp add: stamps_after_def)
  then show "sliding_account w m g (filter (\<lambda>x. t - w < x) ts) t" "sliding_account w m g ts t"
    using assms by (auto simp: sliding_account_def)
qed

lemma layer_account_cfg:
  assumes "layer_account K k g lst s" "mem_inv s'" "mem_cfg s' = mem_cfg s" "fits K s'"
    and "no_wall (map_of (ms_state s') k)"
    and "sliding_account (ms_windowMs s) (ms_maxRequests s) g' (stamps_of (map_of (ms_state s') k)) t"
  shows "layer_account K k g' t s'"
  using assms by (auto simp: layer_account_def dest!: mem_cfg_eqD)

lemma fits_decrement:
  assumes "mem_inv s" "fits K s" shows "fits K (mem_decrement k d s)"
proof -
  have "k' \<in> K" if k': "map_of (ms_state (mem_decrement k d s)) k' \<noteq> None" for k'
  proof -
    have "map_of (ms_state s) k' \<noteq> None"
      using k' mem_decrement_elsewhere(1) [of k' k d s] mem_decrement_elsewhere(2) [of s k d]
      by (cases "k' = k"; cases "map_of (ms_state s) k'") auto
    then show ?thesis using assms(2) by (auto simp: fits_def map_of_eq_None_iff)
  qed
  then have "fst ` set (ms_state (mem_decrement k d s)) \<subseteq> K" by (auto simp: map_of_eq_None_iff)
  with assms mem_decrement_inv(2) [OF assms(1), of k d] show ?thesis by (auto simp: fits_def dest!: mem_cfg_eqD)
qed

text \<open>A request recorded, not granted; granted; and taken back.\<close>

lemma account_recorded:
  assumes "layer_account K k g lst s" "lst \<le> t" "k' \<in> K" "mem_increment t k' o' s = (r, s')"
  shows "layer_account K k g t s'"
    and "k' = k \<Longrightarrow> \<not> isBlocked r \<Longrightarrow> eff_cap s o' \<le> ms_maxRequests s \<Longrightarrow> layer_account K k (g @ [(t, eff_cost o')]) t s'"
    and "k' \<noteq> k \<Longrightarrow> map_of (ms_state s') k = map_of (ms_state s) k"
proof -
  let ?e = "map_of (ms_state s) k"
  let ?ts = "filter (\<lambda>x. t - ms_windowMs s < x) (stamps_of ?e) @ replicate (nat (eff_cost o')) t"
  have a: "mem_inv s" "ms_strategy s = SLIDING_WINDOW" "fits K s" "no_wall ?e"
    and acc: "sliding_account (ms_windowMs s) (ms_maxRequests s) g (stamps_of ?e) lst"
    using assms(1) by (simp_all add: layer_account_def)
  note inv' = mem_increment_inv [OF a(1) assms(4)] and fit' = mem_increment_fits [OF a(1,3) assms(3,4)]
  show other: "k' \<noteq> k \<Longrightarrow> map_of (ms_state s') k = map_of (ms_state s) k"
    using mem_increment_frame [OF mem_inv_jsmap [OF a(1)] assms(4) _ fits_has_room [OF a(1,3) assms(3)]] by auto
  have same: "r = window_result (int (length ?ts)) (eff_cap s o') (hd ?ts + ms_windowMs s)"
      "map_of (ms_state s') k = Some (Sliding ?ts None)" if "k' = k"
    using mem_increment_entry [OF a(1) assms(4)] a(2) that
    by (simp_all add: entry_increment_def Let_def live_stamps_no_wall [OF a(4)])
  show "layer_account K k g t s'"
  proof (cases "k' = k")
    case True
    have "sliding_account (ms_windowMs s) (ms_maxRequests s) (g @ []) ?ts t"
      by (rule sliding_account_step [OF acc assms(2) _ refl]) auto
    with same [OF True] show ?thesis
      by (intro layer_account_cfg [OF assms(1) inv' fit']) (simp_all add: no_wall_def stamps_of_def)
  next
    case False
    then show ?thesis using sliding_account_wait(2) [OF acc assms(2)] other a(4)
      by (intro layer_account_cfg [OF assms(1) inv' fit']) simp_all
  qed
  assume k: "k' = k" and ok: "\<not> isBlocked r" and cap: "eff_cap s o' \<le> ms_maxRequests s"
  have "int (length ?ts) \<le> ms_maxRequests s" using same(1) [OF k] ok cap by (simp add: window_result_def Let_def)
  then have "sliding_account (ms_windowMs s) (ms_maxRequests s) (g @ [(t, eff_cost o')]) ?ts t"
    by (intro sliding_account_step [OF acc assms(2) _ refl]) auto
  with same(2) [OF k] show "layer_account K k (g @ [(t, eff_cost o')]) t s'"
    by (intro layer_account_cfg [OF assms(1) inv' fit']) (simp_all add: no_wall_def stamps_of_def)
qed

lemma account_taken_back:
  assumes "layer_account K k g lst s" "lst \<le> t" "k' \<in> K" "mem_increment t k' o' s = (r, s')"
  shows "layer_account K k g t (mem_decrement k' (undo_opts o') s')"
proof -
  let ?s2 = "mem_decrement k' (undo_opts o') s'"
  let ?e = "map_of (ms_state s) k"
  let ?old = "filter (\<lambda>x. t - ms_windowMs s < x) (stamps_of ?e)"
  have a: "mem_inv s" "ms_strategy s = SLIDING_WINDOW" "fits K s" "no_wall ?e"
    and acc: "sliding_account (ms_windowMs s) (ms_maxRequests s) g (stamps_of ?e) lst"
    using assms(1) by (simp_all add: layer_account_def)
  note inv' = mem_increment_inv [OF a(1) assms(4)]
  have inv2: "mem_inv ?s2" "mem_cfg ?s2 = mem_cfg s" using mem_decrement_inv [OF inv'(1), of k' "undo_opts o'"] inv'(2) by simp_all
  have fit2: "fits K ?s2" by (rule fits_decrement [OF inv'(1) mem_increment_fits [OF a(1,3) assms(3,4)]])
  have cost: "sanitizeIncrementCost (opt_dec_cost (undo_opts o')) 1 = eff_cost o'" "opt_removeNewest (undo_opts o')"
    by (simp_all add: undo_opts_def matchingDecrementOptions_def eff_cost_def)
  show ?thesis
  proof (cases "k' = k")
    case True
    have e: "map_of (ms_state s') k = Some (Sliding (?old @ replicate (nat (eff_cost o')) t) None)"
      using mem_increment_entry(2) [OF a(1) assms(4)] a(2) True
      by (simp add: entry_increment_def Let_def live_stamps_no_wall [OF a(4)])
    have "map_of (ms_state ?s2) k = (if ?old = [] then None else Some (Sliding ?old None))"
      using mem_decrement_entry [OF inv'(1) e, of "undo_opts o'"] cost True a(2) inv'(2)
      by (auto simp: entry_undo_def Let_def dest!: mem_cfg_eqD)
    then show ?thesis using sliding_account_wait(1) [OF acc assms(2)]
      by (intro layer_account_cfg [OF assms(1) inv2 fit2]) (auto simp: no_wall_def stamps_of_def)
  next
    case False
    then have "map_of (ms_state ?s2) k = ?e"
      using mem_decrement_elsewhere(1) [of k k'] account_recorded(3) [OF assms] by simp
    then show ?thesis using sliding_account_wait(2) [OF acc assms(2)] a(4)
      by (intro layer_account_cfg [OF assms(1) inv2 fit2]) simp_all
  qed
qed

section \<open>The composed store\<close>

definition plain_all :: "composed \<Rightarrow> bool" where
  "plain_all c \<longleftrightarrow> cs_mode c = ModeAll \<and> cs_rollbackOnBlock c \<and> distinct (map ly_store (cs_layers c)) \<and>
     (\<forall>l \<in> set (cs_layers c). ly_keyTransform l = None \<and> ly_maxRequests l = Undefined)"

lemma incrementAll_state:
  assumes d: "distinct (map ly_store (cs_layers c))" and rb: "cs_rollbackOnBlock c"
    and inc: "incrementAll ops now k o' c h = (r, c', h')" and l: "l \<in> set (cs_layers c)"
  shows "cs_layers c' = cs_layers c \<and> cs_mode c' = cs_mode c \<and> cs_rollbackOnBlock c' \<and>
    (\<not> isBlocked r \<longrightarrow> settled_ok (fst (layer_alone ops now k o' h l))) \<and>
    h' (ly_store l) = (if isBlocked r then rolled_back ops now k o' l (fst (layer_alone ops now k o' h l)) (snd (layer_alone ops now k o' h l))
      else snd (layer_alone ops now k o' h l))"
proof -
  obtain rs h1 where st: "settle_layers ops now k o' (cs_layers c) h = (rs, h1)" by fastforce
  note alone = settle_layers_alone [OF d st]
  let ?ps = "zip (cs_layers c) rs"
  have len: "length rs = length (cs_layers c)" using alone by simp
  have dec: "\<not> isBlocked r \<longrightarrow> settled_ok (fst (layer_alone ops now k o' h l))"
    using incrementAll_decision [OF d inc] l by blast
  have c': "cs_layers c' = cs_layers c \<and> cs_mode c' = cs_mode c \<and> cs_rollbackOnBlock c'"
    and h': "h' = (if isBlocked r then rollback_layers ops now k o' ?ps h1 else h1)"
    using inc st rb by (auto simp: incrementAll_def all_allowed_result_def all_blocked_result_def pushFrame_def Let_def split: if_splits)
  have "map (\<lambda>p. ly_store (fst p)) ?ps = map ly_store (map fst ?ps)" by (simp only: map_map comp_def)
  then have ps: "distinct (map (\<lambda>p. ly_store (fst p)) ?ps)" using len d by simp
  have "(l, fst (layer_alone ops now k o' h l)) \<in> set ?ps"
    using l alone by (auto simp: zip_map2 zip_same_conv_map image_iff)
  then have "rollback_layers ops now k o' ?ps h1 (ly_store l) =
      rolled_back ops now k o' l (fst (layer_alone ops now k o' h l)) (h1 (ly_store l))"
    using rollback_layers_alone [OF ps, of ops now k o' h1] by fastforce
  with dec c' h' alone l show ?thesis by simp
qed

lemma mergeIncOpts_plain:
  assumes "ly_maxRequests l = Undefined"
  shows "eff_cost (mergeIncOpts l o') = eff_cost o' \<and> eff_cap s (mergeIncOpts l o') = eff_cap s o' \<and>
    undo_opts (mergeIncOpts l o') = undo_opts o'"
proof -
  have "opt_cost (mergeIncOpts l o') = opt_cost o'" "opt_maxRequests (mergeIncOpts l o') = opt_maxRequests o'"
    using assms by (cases o'; auto simp: mergeIncOpts_def js_or_def Let_def)+
  then show ?thesis by (simp add: eff_cost_def eff_cap_def undo_opts_def)
qed

text \<open>What the composed store grants to a key.\<close>

primrec cs_granted :: "request list \<Rightarrow> composed \<Rightarrow> mem_store heap \<Rightarrow> key \<Rightarrow> (time \<times> int) list" where
  "cs_granted [] c h k = []"
| "cs_granted (q # qs) c h k =
     (case q of (t, k', o') \<Rightarrow>
        case cs_increment mem_ops t None k' o' c h of (res, c', h') \<Rightarrow>
          (if k' = k \<and> settled_ok res then [(t, eff_cost o')] else []) @ cs_granted qs c' h' k)"

lemma cs_increment_all:
  assumes "cs_mode c = ModeAll" "cs_increment ops t first k o' c h = (res, c', h')"
  obtains r c1 where "incrementAll ops t k o' c h = (r, c1, h')" "res = Inr r" "c' = recordLastIncrementResult t k r c1"
  using assms by (auto simp: cs_increment_def split: prod.splits)

lemma record_keeps [simp]:
  "cs_layers (recordLastIncrementResult t k r c) = cs_layers c" "cs_mode (recordLastIncrementResult t k r c) = cs_mode c"
  "cs_rollbackOnBlock (recordLastIncrementResult t k r c) = cs_rollbackOnBlock c"
  by (simp_all add: recordLastIncrementResult_def evictStaleLastIncrementEntries_def Let_def)

text \<open>One request through a layer.\<close>

lemma layer_step:
  assumes acc: "layer_account K k g lst (h (ly_store l))" "lst \<le> t" "k' \<in> K"
    and c: "plain_all c" and l: "l \<in> set (cs_layers c)"
    and inc: "incrementAll mem_ops t k' o' c h = (r, c', h')"
    and cap: "eff_cap (h (ly_store l)) o' \<le> ms_maxRequests (h (ly_store l))"
  shows "layer_account K k (g @ (if k' = k \<and> \<not> isBlocked r then [(t, eff_cost o')] else [])) t (h' (ly_store l)) \<and>
    mem_cfg (h' (ly_store l)) = mem_cfg (h (ly_store l))"
proof -
  let ?s = "h (ly_store l)"
  have plain: "ly_keyTransform l = None" "ly_maxRequests l = Undefined" "distinct (map ly_store (cs_layers c))" "cs_rollbackOnBlock c"
    using c l by (auto simp: plain_all_def)
  let ?o = "mergeIncOpts l o'"
  obtain rl s1 where i: "mem_increment t k' ?o ?s = (rl, s1)" by fastforce
  note mo = mergeIncOpts_plain [OF plain(2), of o']
  have alone: "layer_alone mem_ops t k' o' h l = (Inr rl, s1)"
    using plain i by (simp add: layer_alone_def layerKey_def defaultKeyTransform_def mem_ops_def)
  have rolled: "rolled_back mem_ops t k' o' l (Inr rl) s1 = (if isBlocked rl then s1 else mem_decrement k' (undo_opts ?o) s1)"
    using plain by (simp add: rolled_back_def settled_ok_def layerKey_def defaultKeyTransform_def mem_ops_def)
  note st = incrementAll_state [OF plain(3,4) inc l, unfolded alone fst_conv snd_conv rolled]
  have inv: "mem_inv ?s" using acc(1) by (simp add: layer_account_def)
  note i' = mem_increment_inv [OF inv i]
  have cfg: "mem_cfg (h' (ly_store l)) = mem_cfg ?s"
    using st i' mem_decrement_inv(2) [OF i'(1), of k' "undo_opts ?o"] by simp
  show ?thesis
  proof (cases "isBlocked r")
    case True
    then show ?thesis using st cfg account_recorded(1) [OF acc i] account_taken_back [OF acc i] by simp
  next
    case False
    then show ?thesis using st cfg account_recorded(1,2) [OF acc i] cap mo by (auto simp: settled_ok_def)
  qed
qed

lemma cs_granted_account:
  assumes "plain_all c" "l \<in> set (cs_layers c)" "\<forall>m \<in> set (cs_layers c). mem_inv (h (ly_store m))"
    and "layer_account K k g lst (h (ly_store l))" "timely qs" "\<forall>q \<in> set qs. lst \<le> fst q \<and> fst (snd q) \<in> K"
    and "\<forall>q \<in> set qs. eff_cap (h (ly_store l)) (snd (snd q)) \<le> ms_maxRequests (h (ly_store l))"
  shows "\<exists>s t. layer_account K k (g @ cs_granted qs c h k) t s \<and> mem_cfg s = mem_cfg (h (ly_store l))"
  using assms
proof (induction qs arbitrary: c h g lst)
  case Nil
  then show ?case by auto
next
  case (Cons q qs)
  obtain t k' o' where q: "q = (t, k', o')" by (cases q)
  obtain res c' h' where cs: "cs_increment mem_ops t None k' o' c h = (res, c', h')" by (metis prod_cases3)
  have mode: "cs_mode c = ModeAll" using Cons.prems(1) by (simp add: plain_all_def)
  obtain r c1 where inc: "incrementAll mem_ops t k' o' c h = (r, c1, h')" and res: "res = Inr r"
    and c': "c' = recordLastIncrementResult t k' r c1"
    by (rule cs_increment_all [OF mode cs])
  let ?d = "if k' = k \<and> \<not> isBlocked r then [(t, eff_cost o')] else []"
  have step: "layer_account K k (g @ ?d) t (h' (ly_store l)) \<and> mem_cfg (h' (ly_store l)) = mem_cfg (h (ly_store l))"
    by (rule layer_step [OF Cons.prems(4) _ _ Cons.prems(1,2) inc]) (use Cons.prems(6,7) q in auto)
  have keep: "cs_layers c1 = cs_layers c \<and> cs_mode c1 = cs_mode c \<and> cs_rollbackOnBlock c1"
    using incrementAll_state [OF _ _ inc Cons.prems(2)] Cons.prems(1) by (auto simp: plain_all_def)
  have inv: "\<forall>m \<in> set (cs_layers c'). mem_inv (h' (ly_store m))"
  proof
    fix m assume m: "m \<in> set (cs_layers c')"
    then have mc: "m \<in> set (cs_layers c)" using keep c' by simp
    have "mem_inv (snd (layer_alone mem_ops t k' o' h m))"
      using Cons.prems(3) mc by (auto simp: layer_alone_def mem_ops_def mem_increment_inv(1) split: prod.splits)
    then show "mem_inv (h' (ly_store m))"
      using incrementAll_state [OF _ _ inc mc] Cons.prems(1)
      by (auto simp: plain_all_def rolled_back_def mem_ops_def mem_decrement_inv(1))
  qed
  have "\<exists>s t'. layer_account K k ((g @ ?d) @ cs_granted qs c' h' k) t' s \<and> mem_cfg s = mem_cfg (h' (ly_store l))"
  proof (rule Cons.IH)
    show "plain_all c'" using Cons.prems(1) keep c' by (simp add: plain_all_def)
    show "l \<in> set (cs_layers c')" using Cons.prems(2) keep c' by simp
    show "\<forall>q \<in> set qs. eff_cap (h' (ly_store l)) (snd (snd q)) \<le> ms_maxRequests (h' (ly_store l))"
      using Cons.prems(7) step by (auto simp: eff_cap_def dest!: mem_cfg_eqD)
  qed (use inv step Cons.prems(5,6) q in auto)
  moreover have "cs_granted (q # qs) c h k = ?d @ cs_granted qs c' h' k"
    by (simp add: q cs res settled_ok_def)
  ultimately show ?case using step by simp
qed

section \<open>Limits\<close>

definition mem_heap :: "'r mw_world \<Rightarrow> mem_store heap" where
  "mem_heap w i = (case obj_at w i of ObjMemory s \<Rightarrow> s
     | _ \<Rightarrow> new_MemoryStore (WindowOptions SLIDING_WINDOW Undefined Undefined) None None)"

definition resolved_requests :: "'q engine_options \<Rightarrow> (time \<times> key \<times> 'q) list \<Rightarrow> request list" where
  "resolved_requests eo rs = map (\<lambda>(t, k, req). (t, k, resolveIncrementOpts eo req)) rs"

lemma window_store_fresh: "ms_strategy (window_store cf) \<noteq> TOKEN_BUCKET \<Longrightarrow> mem_inv (window_store cf)"
  unfolding window_store_def
  by (rule new_MemoryStore_inv) (cases "opt_or (wc_strategy cf) SLIDING_WINDOW"; simp add: new_MemoryStore_def Let_def options_ok_def)

text \<open>(C8) Every window of \<open>limits\<close> holds: when the option is merged into a sliding-window limiter, then
  whatever requests arrive, in order of time and for at most as many keys as an in-memory store keeps,
  the requests that the composed store admits for a key within any window of any of the limits cost
  together at most that limit.\<close>

theorem limits_quota:
  assumes "mergeRateLimiterOptions conns allow po w = Inr (mg, w')" "obj_at w' (md_store mg) = ObjComposed c"
    and "po_limits po \<noteq> []" "opt_or (po_strategy po) SLIDING_WINDOW = SLIDING_WINDOW"
    and "\<forall>st. po_store po = Some st \<longrightarrow> redis_template (obj_at w st) = None"
    and "timely rs" "card ((fst \<circ> snd) ` set rs) \<le> 100000" "i < length (po_limits po)"
  shows "granted_in (\<lambda>t. end_time - sanitizeWindowMs (fst (po_limits po ! i)) 60000 < t \<and> t \<le> end_time)
      (cs_granted (resolved_requests (engine_options_of facades mg w') rs) c (mem_heap w') k)
    \<le> sanitizeRateLimitCap (snd (po_limits po ! i)) 100"
proof -
  have chk: "merge_check allow po w = Inr ()" using assms(1) by (auto simp: mergeRateLimiterOptions_def split: sum.splits)
  have tb: "SLIDING_WINDOW \<noteq> TOKEN_BUCKET" by simp
  let ?store = "\<lambda>j. window_store (slot_configs SLIDING_WINDOW (sanitized_limits (po_limits po)) ! j)"
  let ?eo = "engine_options_of facades mg w'" and ?qs = "resolved_requests (engine_options_of facades mg w') rs"
  obtain mg2 w2 c2 where m2: "mergeRateLimiterOptions conns allow po w = Inr (mg2, w2)" "obj_at w2 (md_store mg2) = ObjComposed c2"
      "cs_mode c2 = ModeAll" "cs_rollbackOnBlock c2"
      "cs_layers c2 = map (\<lambda>j. compose_layer (slot_label j) (length (ww_objs w) + j) None Undefined) [0..<length (po_limits po)]"
      "\<forall>j < length (po_limits po). obj_at w2 (length (ww_objs w) + j) = ObjMemory (?store j)"
    by (rule merge_limits_memory [OF chk assms(3,4) tb assms(5), of conns]) blast
  have c: "plain_all c" "cs_layers c = map (\<lambda>j. compose_layer (slot_label j) (length (ww_objs w) + j) None Undefined) [0..<length (po_limits po)]"
    and heap: "\<And>j. j < length (po_limits po) \<Longrightarrow> mem_heap w' (length (ww_objs w) + j) = ?store j"
    using m2 assms(1,2) by (auto simp: plain_all_def compose_layer_def distinct_map inj_on_def mem_heap_def)
  define l where "l = compose_layer (slot_label i) (length (ww_objs w) + i) None Undefined"
  have l: "l \<in> set (cs_layers c)" "mem_heap w' (ly_store l) = ?store i" using assms(8) c heap by (auto simp: l_def compose_layer_def)
  note s = slot_store [OF assms(8) tb]
  have inv: "mem_inv (?store j)" if "j < length (po_limits po)" for j
    by (rule window_store_fresh) (use slot_store(3) [OF that tb] in simp)
  let ?K = "(fst \<circ> snd) ` set rs"
  have caps: "eff_cap (?store i) o' = ms_maxRequests (?store i)" if "opt_maxRequests o' = Undefined" for o'
    using that s(1) sanitize_self [of "ms_maxRequests (?store i)"] sanitize_le_MAX(1) [of 100 "snd (po_limits po ! i)"]
    by (simp add: eff_cap_def js_or_def MAX_SAFE_INTEGER_def)
  obtain mg3 w3 c3 where m3: "mergeRateLimiterOptions conns allow po w = Inr (mg3, w3)"
      "\<forall>facades req. opt_maxRequests (resolveIncrementOpts (engine_options_of facades mg3 w3) req) = Undefined"
    using limits_no_override [OF chk assms(3) _ assms(5), of conns] assms(4) by auto
  have qs: "\<forall>q \<in> set ?qs. eff_cap (?store i) (snd (snd q)) \<le> ms_maxRequests (?store i)"
    using m3 assms(1) caps by (auto simp: resolved_requests_def)
  have times: "map fst ?qs = map fst rs" by (auto simp: resolved_requests_def)
  obtain t0 where t0: "\<forall>q \<in> set rs. t0 \<le> fst q" using assms(6) by (cases rs) (auto simp: timely_def)
  have start: "layer_account ?K k [] t0 (?store i)"
    using s inv [OF assms(8)] assms(7) sanitize_ge1(1) [of 100 "snd (po_limits po ! i)"]
    by (simp add: layer_account_def fits_def no_wall_def stamps_of_def sliding_account_def stamps_after_def)
  have "\<exists>s t. layer_account ?K k ([] @ cs_granted ?qs c (mem_heap w') k) t s \<and> mem_cfg s = mem_cfg (mem_heap w' (ly_store l))"
  proof (rule cs_granted_account [OF c(1) l(1)])
    show "\<forall>m \<in> set (cs_layers c). mem_inv (mem_heap w' (ly_store m))"
      using c(2) heap inv by (auto simp: compose_layer_def)
    show "timely ?qs" using assms(6) times by (simp add: timely_def)
    show "\<forall>q \<in> set ?qs. t0 \<le> fst q \<and> fst (snd q) \<in> ?K" using t0 by (force simp: resolved_requests_def)
  qed (use start l qs in simp_all)
  then show ?thesis using s l(2) by (auto simp: layer_account_def sliding_account_def dest!: mem_cfg_eqD)
qed

definition tight_limits :: "(js_value \<times> js_value) list" where
  "tight_limits = [(js_int 1000, js_int 1), (js_int 60000, js_int 5)]"

theorem limits_quota_witness:
  "\<exists>mg w' c. mergeRateLimiterOptions demo_connections False (demo_partial tight_limits BlockOff None) demo_world = Inr (mg, w') \<and>
     obj_at w' (md_store mg) = ObjComposed c \<and>
     granted_in (\<lambda>t. 5 - 1000 < t \<and> t \<le> 5)
       (cs_granted (resolved_requests (engine_options_of (\<lambda>_. None) mg w') [(0, ''a'', ()), (5, ''a'', ())]) c (mem_heap w') ''a'') \<le> 1"
proof -
  let ?po = "demo_partial tight_limits BlockOff None" and ?rs = "[(0, ''a'', ()), (5, ''a'', ())]"
  have po: "po_limits ?po \<noteq> []" "opt_or (po_strategy ?po) SLIDING_WINDOW = SLIDING_WINDOW"
    "\<forall>st. po_store ?po = Some st \<longrightarrow> redis_template (obj_at demo_world st) = None"
    and i: "0 < length (po_limits ?po)" "po_limits ?po ! 0 = (js_int 1000, js_int 1)"
    by (simp_all add: demo_partial_def tight_limits_def opt_or_def)
  have tb: "SLIDING_WINDOW \<noteq> TOKEN_BUCKET" by simp
  obtain mg w' c where m: "mergeRateLimiterOptions demo_connections False ?po demo_world = Inr (mg, w')"
    "obj_at w' (md_store mg) = ObjComposed c"
    by (rule merge_limits_memory [OF demo_check po(1,2) tb po(3), of demo_connections]) blast
  have "timely ?rs" "card ((fst \<circ> snd) ` set ?rs) \<le> 100000" by simp_all
  from limits_quota [OF m po this i(1), of 5 "\<lambda>_. None" "''a''"] m show ?thesis
    by (auto simp: i(2) sanitizeWindowMs_def sanitizeRateLimitCap_def js_int_def MAX_SAFE_INTEGER_def)
qed

end
