(* ===== verification/Queue_Middleware.thy ===== *)
theory Queue_Middleware
  imports Middleware_Merge Request_Queue
begin

text \<open>
  The middlewares that wait: \<open>src/middleware/expressQueuedRateLimiter.ts\<close>,
  \<open>src/middleware/fastifyQueuedRateLimiter.ts\<close> and \<open>src/hono/queuedRateLimiter.ts\<close>, with
  \<open>src/queue/queue-middleware-utils.ts\<close>. A request is handled in two stretches: up to
  \<open>queue.removeTokens\<close>, which gives it a place in the queue or an error, and from the moment its promise
  is settled. What happens in between is a run of \<open>Request_Queue\<close>.
\<close>

section \<open>queue-middleware-utils.ts\<close>

definition resolveCost :: "'q \<Rightarrow> ('q \<Rightarrow> string + js_value) option \<Rightarrow> string + int" where
  "resolveCost req incrementCost =
     (case incrementCost of
        Some f \<Rightarrow> (case f req of Inl e \<Rightarrow> Inl e | Inr v \<Rightarrow> Inr (sanitizeIncrementCost v 1))
      | None \<Rightarrow> Inr (sanitizeIncrementCost (js_int 1) 1))"

definition retryAfterSeconds :: "q_error \<Rightarrow> int \<Rightarrow> int" where
  "retryAfterSeconds err maxQueueTimeMs = (if err = QueueTimeout then max 1 (ceil_seconds maxQueueTimeMs) else 1)"

text \<open>\<open>typeof m === 'object' && m !== null\<close>.\<close>

definition is_json_object :: "json \<Rightarrow> bool" where
  "is_json_object m = (case m of JObject _ \<Rightarrow> True | JArray _ \<Rightarrow> True | JDate _ \<Rightarrow> True | _ \<Rightarrow> False)"

definition queuedShutdownErrorJson :: "json option \<Rightarrow> json" where
  "queuedShutdownErrorJson message =
     (let code = (''code'', JString ''E_RATELIMIT_SHUTDOWN'')
      in case message of
           None \<Rightarrow> JObject [(''error'', JString ''Service shutting down''), code]
         | Some m \<Rightarrow>
             if is_json_object m then JObject (AList.update ''code'' (snd code) (json_spread m))
             else JObject [(''error'', m), code])"

definition queue_error_message :: "q_error \<Rightarrow> string" where
  "queue_error_message err =
     (case err of
        QueueFull \<Rightarrow> ''Queue is full''
      | QueueTimeout \<Rightarrow> ''Queue timeout exceeded''
      | QueueCleared \<Rightarrow> ''Queue cleared''
      | CostExceedsLimit \<Rightarrow> ''Requested tokens exceed maximum allowed per window''
      | InvalidCost \<Rightarrow> ''cost must be a finite number >= 1''
      | ShutdownError reason \<Rightarrow> ''RateLimiterQueue rejected: '' @ reason)"

section \<open>Options and construction\<close>

record 'q queued_options =
  qo_windowMs :: int
  qo_maxRequests :: js_value
  qo_strategy :: "strategy option"
  qo_store :: "nat option"
  qo_maxQueueSize :: "int option"
  qo_maxQueueTimeMs :: "int option"
  qo_statusCode :: "int option"
  qo_message :: "json option"
  qo_incrementCost :: "('q \<Rightarrow> string + js_value) option"
  qo_shutdownRetryAfterSeconds :: "int option"
  qo_standardHeaders :: standard_headers
  qo_legacyHeaders :: "bool option"

text \<open>No option but those of the queue middleware is handed to the merge.\<close>

definition no_engine_options :: "'q engine_options" where
  "no_engine_options =
     \<lparr>eo_strategy = SLIDING_WINDOW, eo_bucketSize = 0, eo_limits = [], eo_grouped = [], eo_maxRequests = MaxAbsent,
      eo_incrementCost = None, eo_store = 0, eo_storeIsComposed = False, eo_skip = (\<lambda>_. False), eo_allowlist = [],
      eo_blocklist = [], eo_penaltyBox = None, eo_draft = False, eo_onDraftViolation = False, eo_onLimitReached = False,
      eo_onLayerBlock = False\<rparr>"

definition no_options :: "'q mw_options" where
  "no_options =
     \<lparr>mo_engine = no_engine_options, mo_interval = None, mo_windowMs = None, mo_limitWindows = [],
      mo_standardHeaders = ShAbsent, mo_headers = None, mo_legacyHeaders = None, mo_identifier = IdAbsent,
      mo_statusCode = None, mo_message = None, mo_blocklistStatusCode = None, mo_blocklistMessage = None,
      mo_skipFailedRequests = False, mo_skipSuccessfulRequests = False, mo_onLimitReached = None\<rparr>"

definition queued_partial :: "'q queued_options \<Rightarrow> 'q partial_options" where
  "queued_partial qo =
     \<lparr>po_strategy = Some (opt_or (qo_strategy qo) SLIDING_WINDOW), po_windowMs = Some (Some (qo_windowMs qo)),
      po_maxRequests = Some (MaxNumber (qo_maxRequests qo)), po_tokensPerInterval = None, po_interval = None,
      po_bucketSize = None, po_limits = [], po_grouped = [], po_store = qo_store qo, po_penaltyBox = None,
      po_keyManager = None, po_inMemoryBlock = BlockOff, po_throwOnDoubleInMemoryShield = False,
      po_rest = no_options\<lparr>mo_standardHeaders := (if qo_standardHeaders qo = ShAbsent then ShBool True else qo_standardHeaders qo),
                           mo_legacyHeaders := Some (opt_or (qo_legacyHeaders qo) False)\<rparr>\<rparr>"

text \<open>The queue over a store: \<open>windowMsForQueue\<close>, \<open>maxCap\<close> and the bounds. \<open>ownsStore\<close> is false.\<close>

definition queue_over :: "'q mw_options \<Rightarrow> int option \<Rightarrow> int option \<Rightarrow> 's \<Rightarrow> 's req_queue" where
  "queue_over mo maxQueueSize maxQueueTimeMs st =
     (let windowMsForQueue = (if eo_strategy (mo_engine mo) = TOKEN_BUCKET then opt_or (mo_interval mo) 60000
                              else opt_or (mo_windowMs mo) 60000);
          maxCap = getLimit (mo_engine mo) None None
      in new_RateLimiterQueue st windowMsForQueue maxCap (Some (eo_strategy (mo_engine mo)))
           (Some (opt_or maxQueueSize 100)) (Some (opt_or maxQueueTimeMs 30000)) (Some False))"

definition new_queued_limiter ::
  "connections \<Rightarrow> 'q queued_options \<Rightarrow> 'r mw_world \<Rightarrow> string + 'q merged_options \<times> 'r mw_world" where
  "new_queued_limiter conns qo w = mergeRateLimiterOptions conns False (queued_partial qo) w"

section \<open>Express and Fastify\<close>

text \<open>Up to the await: the error handler is called, the handler's own promise is rejected, or
  \<open>removeTokens\<close> has been called (its promise may be rejected already).\<close>

datatype queued_start = StartFailed string | StartThrows string | RejectedNow q_error | Queued nat

definition enter_queue :: "time \<Rightarrow> key \<Rightarrow> int \<Rightarrow> 's req_queue \<Rightarrow> queued_start \<times> 's req_queue" where
  "enter_queue now k cost q =
     (case removeTokens now k (js_int cost) q of
        (Inl err, q1) \<Rightarrow> (RejectedNow err, q1)
      | (Inr i, q1) \<Rightarrow> (Queued i, q1))"

definition express_queued_begin ::
  "'q queued_options \<Rightarrow> ('q \<Rightarrow> string + key) \<Rightarrow> time \<Rightarrow> 'q \<Rightarrow> 's req_queue \<Rightarrow> queued_start \<times> 's req_queue" where
  "express_queued_begin qo keyGen now req q =
     (case keyGen req of
        Inl e \<Rightarrow> (StartFailed e, q)
      | Inr k \<Rightarrow>
          (case resolveCost req (qo_incrementCost qo) of
             Inl e \<Rightarrow> (StartThrows e, q)
           | Inr cost \<Rightarrow> enter_queue now k cost q))"

text \<open>What the middlewares write for a token: headers and the information for the application.\<close>

definition write_token_headers :: "'q mw_options \<Rightarrow> time \<Rightarrow> 'q \<Rightarrow> int \<Rightarrow> time \<Rightarrow> header_map \<Rightarrow> string option \<times> header_map" where
  "write_token_headers mo now req rem reset res =
     (let cfg = resolveHeaderConfig mo (Some req) None
      in case rhc_format cfg of
           None \<Rightarrow> (None, res)
         | Some fmt \<Rightarrow>
             if fmt = '''' then (None, res)
             else case formatRateLimitHeaders
                         \<lparr>hi_limit = rhc_resolvedLimit cfg, hi_remaining = rem, hi_resetTime = reset, hi_isBlocked = False,
                          hi_windowMs = resolveWindowMsForHeaders mo None, hi_identifier = rhc_identifier cfg\<rparr>
                         fmt (rhc_includeLegacy cfg) now of
                    Inl e \<Rightarrow> (Some e, res)
                  | Inr out \<Rightarrow>
                      (let res1 = applyHeaderMap (ho_headers out) res
                       in (None, case ho_legacyHeaders out of Some l \<Rightarrow> applyHeaderMap l res1 | None \<Rightarrow> res1)))"

definition token_info :: "'q mw_options \<Rightarrow> 'q \<Rightarrow> int \<Rightarrow> time \<Rightarrow> rate_limit_info" where
  "token_info mo req rem reset =
     (let limit = getLimit (mo_engine mo) (Some req) None
      in \<lparr>info_limit = limit, info_current = max 0 (limit - rem), info_remaining = rem, info_resetTime = reset\<rparr>)"

definition token_granted :: "'q mw_options \<Rightarrow> time \<Rightarrow> 'q \<Rightarrow> int \<Rightarrow> time \<Rightarrow> exchange" where
  "token_granted mo now req rem reset =
     (case write_token_headers mo now req rem reset [] of
        (Some e, hs) \<Rightarrow> new_exchange\<lparr>ex_headers := hs, ex_flow := Failed e\<rparr>
      | (None, hs) \<Rightarrow> new_exchange\<lparr>ex_headers := hs, ex_rateLimit := Some (token_info mo req rem reset), ex_flow := Continue\<rparr>)"

text \<open>The \<open>catch\<close> block: 503 for a queue that shuts down, the configured status for the other errors.\<close>

definition reply_shutdown :: "'q queued_options \<Rightarrow> exchange" where
  "reply_shutdown qo =
     new_exchange\<lparr>ex_status := 503,
       ex_headers := AList.update ''Retry-After'' (js_show (opt_or (qo_shutdownRetryAfterSeconds qo) 10)) [],
       ex_body := Some (queuedShutdownErrorJson
         (case qo_message qo of Some (JBool b) \<Rightarrow> None | Some (JNumber n) \<Rightarrow> None | m \<Rightarrow> m)),
       ex_flow := Replied\<rparr>"

definition reply_queue_error :: "'q queued_options \<Rightarrow> q_error \<Rightarrow> exchange" where
  "reply_queue_error qo err =
     new_exchange\<lparr>ex_headers := AList.update ''Retry-After''
         (js_show (retryAfterSeconds err (opt_or (qo_maxQueueTimeMs qo) 30000))) [],
       ex_status := opt_or (qo_statusCode qo) 429,
       ex_body := Some (jsonErrorBody (opt_or (qo_message qo) (JString (queue_error_message err)))),
       ex_flow := Replied\<rparr>"

definition express_queued_settled :: "'q mw_options \<Rightarrow> 'q queued_options \<Rightarrow> time \<Rightarrow> 'q \<Rightarrow> q_outcome \<Rightarrow> exchange" where
  "express_queued_settled mo qo now req out =
     (case out of
        Resolved rem reset \<Rightarrow> token_granted mo now req rem reset
      | Rejected (ShutdownError reason) \<Rightarrow> reply_shutdown qo
      | Rejected err \<Rightarrow> reply_queue_error qo err)"

text \<open>The answer to a request that does not wait: a promise of \<open>removeTokens\<close> that is rejected already goes through
  the same \<open>catch\<close> block. There is none when the middleware's own promise is rejected, and none yet for a
  request in the queue.\<close>

definition queued_answer_now :: "(q_outcome \<Rightarrow> exchange) \<Rightarrow> queued_start \<Rightarrow> exchange option" where
  "queued_answer_now settled start =
     (case start of
        StartFailed e \<Rightarrow> Some (new_exchange\<lparr>ex_flow := Failed e\<rparr>)
      | StartThrows e \<Rightarrow> None
      | RejectedNow err \<Rightarrow> Some (settled (Rejected err))
      | Queued i \<Rightarrow> None)"

text \<open>Fastify: the hook is asynchronous, so what it throws goes to the error handler as well.\<close>

definition fastify_queued_begin ::
  "'q queued_options \<Rightarrow> ('q \<Rightarrow> string + key) \<Rightarrow> time \<Rightarrow> 'q \<Rightarrow> 's req_queue \<Rightarrow> queued_start \<times> 's req_queue" where
  "fastify_queued_begin qo keyGen now req q =
     (case keyGen req of
        Inl e \<Rightarrow> (StartFailed e, q)
      | Inr k \<Rightarrow>
          (case resolveCost req (qo_incrementCost qo) of
             Inl e \<Rightarrow> (StartFailed e, q)
           | Inr cost \<Rightarrow> enter_queue now k cost q))"

definition fastify_queued_settled :: "'q mw_options \<Rightarrow> 'q queued_options \<Rightarrow> time \<Rightarrow> 'q \<Rightarrow> q_outcome \<Rightarrow> exchange" where
  "fastify_queued_settled mo qo now req out =
     (case out of
        Resolved rem reset \<Rightarrow> token_granted mo now req rem reset
      | Rejected (ShutdownError reason) \<Rightarrow> reply_shutdown qo
      | Rejected err \<Rightarrow> reply_queue_error qo err)"

text \<open>The plugin builds its queue as Express does and ties it to the server: \<open>onClose\<close> shuts it down and lets
  it drain for as long as the server keeps connections alive.\<close>

definition fastify_queued_plugin ::
  "connections \<Rightarrow> 'q queued_options \<Rightarrow> (nat \<Rightarrow> 's) \<Rightarrow> 'r mw_world \<Rightarrow> string + ('q merged_options \<times> 's req_queue) \<times> 'r mw_world" where
  "fastify_queued_plugin conns qo store_at w =
     (case mergeRateLimiterOptions conns False (queued_partial qo) w of
        Inl e \<Rightarrow> Inl e
      | Inr (mg, w1) \<Rightarrow>
          Inr ((mg, queue_over (md_options mg) (qo_maxQueueSize qo) (qo_maxQueueTimeMs qo) (store_at (md_store mg))), w1))"

definition fastify_onClose :: "'s store_ops \<Rightarrow> time \<Rightarrow> int option \<Rightarrow> 's req_queue \<Rightarrow> 's req_queue" where
  "fastify_onClose ops now keepAliveTimeout q =
     q_shutdown ops now (Some (opt_or keepAliveTimeout 5000)) (Some ''fastify-close'') q"

section \<open>Hono\<close>

text \<open>The Hono middleware takes the options of the plain one. \<open>HonoPass\<close> goes straight to \<open>next()\<close>; a
  block-listed key is answered at once.\<close>

datatype hono_queued_start = HonoPass | HonoAnswer exchange | HonoStart queued_start

text \<open>Construction: \<open>partial\<close> is what \<open>buildHonoMergePartial\<close> makes of the options.\<close>

definition hono_queued_limiter ::
  "connections \<Rightarrow> bool \<Rightarrow> 'q partial_options \<Rightarrow> 'r mw_world \<Rightarrow> string + ('q merged_options \<times> nat option) \<times> 'r mw_world" where
  "hono_queued_limiter conns production partial w =
     (let r = po_rest partial;
          p = partial\<lparr>po_rest := (if mo_standardHeaders r = ShAbsent then r\<lparr>mo_standardHeaders := ShBool True\<rparr> else r)\<rparr>
      in case mergeRateLimiterOptions conns False p w of
           Inl e \<Rightarrow> Inl e
         | Inr (merged, w1) \<Rightarrow> resolveStoreWithInMemoryShield production merged w1)"

definition hono_queue_over :: "'q merged_options \<Rightarrow> int option \<Rightarrow> int option \<Rightarrow> (nat \<Rightarrow> 's) \<Rightarrow> 's req_queue" where
  "hono_queue_over resolved maxQueueSize maxQueueTimeMs store_at =
     (let mo = md_options resolved;
          windowMsForQueue = (if eo_strategy (mo_engine mo) = TOKEN_BUCKET then opt_or (mo_interval mo) 60000
                              else opt_or (mo_windowMs mo) 60000);
          maxCap = getLimit (mo_engine mo) None None
      in new_RateLimiterQueue (store_at (md_store resolved)) windowMsForQueue maxCap (Some (eo_strategy (mo_engine mo)))
           (Some (opt_or maxQueueSize 100)) (Some (opt_or maxQueueTimeMs 30000)) (Some False))"

definition hono_queued_cost :: "'q mw_options \<Rightarrow> 'q \<Rightarrow> int" where
  "hono_queued_cost mo req =
     (let incOpts = resolveIncrementOpts (mo_engine mo) req;
          fallback = (case eo_incrementCost (mo_engine mo) of Some f \<Rightarrow> sanitizeIncrementCost (f req) 1
                      | None \<Rightarrow> sanitizeIncrementCost (js_int 1) 1)
      in sanitizeIncrementCost (js_or (opt_cost incOpts) (js_int fallback)) 1)"

definition hono_queued_begin ::
  "'q mw_options \<Rightarrow> 'q hono_options \<Rightarrow> ('q \<Rightarrow> string + key) \<Rightarrow> time \<Rightarrow> 'q \<Rightarrow> 's req_queue \<Rightarrow> hono_queued_start \<times> 's req_queue" where
  "hono_queued_begin mo h keyFromContext now req q =
     (case (case hono_skip h of Some f \<Rightarrow> f req | None \<Rightarrow> Inr False) of
        Inl e \<Rightarrow> (HonoStart (StartFailed e), q)
      | Inr True \<Rightarrow> (HonoPass, q)
      | Inr False \<Rightarrow>
          (case keyFromContext req of
             Inl e \<Rightarrow> (HonoStart (StartFailed e), q)
           | Inr k \<Rightarrow>
               (case resolveHonoRequestCost h req of
                  Inl e \<Rightarrow> (HonoStart (StartFailed e), q)
                | Inr v \<Rightarrow>
                    (let mo1 = hono_resolved mo h v; cost = hono_queued_cost mo1 req
                     in if k \<in> set (eo_allowlist (mo_engine mo)) then (HonoPass, q)
                        else if k \<in> set (eo_blocklist (mo_engine mo))
                        then (HonoAnswer (new_exchange\<lparr>ex_status := opt_or (mo_blocklistStatusCode mo) 403,
                                ex_body := Some (jsonErrorBody (opt_or (mo_blocklistMessage mo) (JString ''Forbidden''))),
                                ex_flow := Replied\<rparr>), q)
                        else let (s, q1) = enter_queue now k cost q in (HonoStart s, q1)))))"

text \<open>\<open>message\<close> as a function answers queue errors itself; the shutdown answer is thrown as a response.\<close>

definition hono_queued_settled ::
  "'q mw_options \<Rightarrow> 'q queued_options \<Rightarrow> 'q hono_options \<Rightarrow> time \<Rightarrow> 'q \<Rightarrow> q_outcome \<Rightarrow> exchange" where
  "hono_queued_settled mo qo h now req out =
     (case out of
        Resolved rem reset \<Rightarrow> token_granted mo now req rem reset
      | Rejected (ShutdownError reason) \<Rightarrow>
          reply_shutdown (if hono_messageFun h = None then qo else qo\<lparr>qo_message := None\<rparr>)
      | Rejected err \<Rightarrow>
          (case hono_messageFun h of
             None \<Rightarrow> reply_queue_error qo err
           | Some f \<Rightarrow>
               (case f req of
                  Inl e \<Rightarrow> (reply_queue_error qo err)\<lparr>ex_status := 200, ex_body := None, ex_flow := Failed e\<rparr>
                | Inr (status, body) \<Rightarrow> (reply_queue_error qo err)\<lparr>ex_status := status, ex_body := Some body\<rparr>)))"

end
