(* ===== verification/Queue_Middleware_Properties.thy ===== *)
theory Queue_Middleware_Properties
  imports Queue_Middleware Request_Queue_Properties Merge_Properties
begin

text \<open>
  Properties of the waiting middlewares: the quota they announce is the quota of the queue and of its
  store, a token bucket is never the one that was asked for, and a shutdown leaves no request without
  an answer.
\<close>

section \<open>Construction\<close>

lemma queued_fields:
  assumes "new_queued_limiter conns qo w = Inr (mg, w')" "qo_store qo = None"
  shows "md_store mg = length (ww_objs w)"
    and "eo_strategy (mo_engine (md_options mg)) = opt_or (qo_strategy qo) SLIDING_WINDOW"
    and "eo_limits (mo_engine (md_options mg)) = []" "eo_grouped (mo_engine (md_options mg)) = []"
    and "mo_limitWindows (md_options mg) = []"
    and "eo_maxRequests (mo_engine (md_options mg)) = MaxNumber (qo_maxRequests qo)"
    and "mo_windowMs (md_options mg) = Some (qo_windowMs qo)"
    and "opt_or (qo_strategy qo) SLIDING_WINDOW = TOKEN_BUCKET \<longrightarrow>
      mo_interval (md_options mg) = Some 60000 \<and> eo_bucketSize (mo_engine (md_options mg)) = 100"
    and "obj_at w' (md_store mg) = ObjMemory
      (if opt_or (qo_strategy qo) SLIDING_WINDOW = TOKEN_BUCKET
       then new_MemoryStore (TokenBucketOptions 10 60000 100) None None
       else new_MemoryStore (WindowOptions (opt_or (qo_strategy qo) SLIDING_WINDOW) (js_int (qo_windowMs qo)) (qo_maxRequests qo)) None None)"
proof -
  let ?po = "queued_partial qo" and ?strat = "opt_or (qo_strategy qo) SLIDING_WINDOW"
  have po: "po_strategy ?po = Some ?strat" "po_limits ?po = []" "po_store ?po = None" "po_penaltyBox ?po = None"
      "po_windowMs ?po = Some (Some (qo_windowMs qo))" "po_maxRequests ?po = Some (MaxNumber (qo_maxRequests qo))"
      "po_grouped ?po = []" "po_interval ?po = None" "po_bucketSize ?po = None" "po_tokensPerInterval ?po = None"
    using assms(2) by (simp_all add: queued_partial_def)
  have mo: "eo_strategy (mo_engine (spread_options s ?po)) = s" "eo_limits (mo_engine (spread_options s ?po)) = []"
      "eo_grouped (mo_engine (spread_options s ?po)) = []" "mo_limitWindows (spread_options s ?po) = []"
      "eo_maxRequests (mo_engine (spread_options s ?po)) = MaxNumber (qo_maxRequests qo)"
      "mo_windowMs (spread_options s ?po) = Some (qo_windowMs qo)" "eo_penaltyBox (mo_engine (spread_options s ?po)) = None"
      "s = TOKEN_BUCKET \<longrightarrow> mo_interval (spread_options s ?po) = Some 60000 \<and> eo_bucketSize (mo_engine (spread_options s ?po)) = 100"
    for s by (simp_all add: spread_options_def Let_def po opt_or_def)
  define fresh where "fresh = (if ?strat = TOKEN_BUCKET then new_MemoryStore (TokenBucketOptions 10 60000 100) None None
       else new_MemoryStore (WindowOptions ?strat (js_int (qo_windowMs qo)) (qo_maxRequests qo)) None None)"
  have "mg = with_store ?po (spread_options ?strat ?po) (length (ww_objs w)) \<and> w' = w\<lparr>ww_objs := ww_objs w @ [ObjMemory fresh]\<rparr>"
    using assms(1)
    by (cases "?strat = TOKEN_BUCKET")
      (auto simp: new_queued_limiter_def mergeRateLimiterOptions_def po mo Let_def new_obj_def with_store_def fresh_def
        attachKeyManagerFromPenaltyBox_def opt_or_def [of "Some _"] opt_or_def [of None] split: sum.splits)
  then have mg: "mg = with_store ?po (spread_options ?strat ?po) (length (ww_objs w))"
    and w': "w' = w\<lparr>ww_objs := ww_objs w @ [ObjMemory fresh]\<rparr>" by auto
  show "md_store mg = length (ww_objs w)" "eo_strategy (mo_engine (md_options mg)) = ?strat"
    "eo_limits (mo_engine (md_options mg)) = []" "eo_grouped (mo_engine (md_options mg)) = []"
    "mo_limitWindows (md_options mg) = []" "eo_maxRequests (mo_engine (md_options mg)) = MaxNumber (qo_maxRequests qo)"
    "mo_windowMs (md_options mg) = Some (qo_windowMs qo)"
    "?strat = TOKEN_BUCKET \<longrightarrow> mo_interval (md_options mg) = Some 60000 \<and> eo_bucketSize (mo_engine (md_options mg)) = 100"
    using mo by (simp_all add: mg with_store_def)
  show "obj_at w' (md_store mg) = ObjMemory (if ?strat = TOKEN_BUCKET then new_MemoryStore (TokenBucketOptions 10 60000 100) None None
       else new_MemoryStore (WindowOptions ?strat (js_int (qo_windowMs qo)) (qo_maxRequests qo)) None None)"
    by (simp add: w' mg with_store_def obj_at_def fresh_def)
qed

lemmas store_fields = new_MemoryStore_def Let_def

text \<open>(C24) What a waiting middleware announces is what it enforces: with a window strategy and no store of the
  caller's, the limit in the headers, the capacity of the queue and the cap of the fresh store are one
  number, the window in the headers, that of the queue and that of the store are one length, and what
  the application reads as the limit is the same number again.\<close>

theorem queued_limits_agree:
  assumes "new_queued_limiter conns qo w = Inr (mg, w')" "qo_store qo = None"
    and "opt_or (qo_strategy qo) SLIDING_WINDOW \<noteq> TOKEN_BUCKET" "0 < qo_windowMs qo" "qo_windowMs qo \<le> MAX_SAFE_INTEGER"
  shows "\<exists>s. obj_at w' (md_store mg) = ObjMemory s \<and> ms_state s = [] \<and>
    ms_strategy s = opt_or (qo_strategy qo) SLIDING_WINDOW \<and>
    (let q = queue_over (md_options mg) maxSize maxTime st
     in q_strategy q = ms_strategy s \<and> q_maxRequests q = ms_maxRequests s \<and> q_windowMs q = ms_windowMs s \<and>
        (\<forall>req. rhc_resolvedLimit (resolveHeaderConfig (md_options mg) req None) = q_maxRequests q) \<and>
        resolveWindowMsForHeaders (md_options mg) None = q_windowMs q \<and>
        (\<forall>req rem t. info_limit (token_info (md_options mg) req rem t) = q_maxRequests q))"
proof -
  note f = queued_fields [OF assms(1,2)]
  have "sanitizeWindowMs (js_int (qo_windowMs qo)) 60000 = qo_windowMs qo"
    using assms(4,5) by (simp add: sanitizeWindowMs_def js_int_def)
  then show ?thesis using f assms(3)
    by (simp add: queue_over_def new_RateLimiterQueue_def store_fields getLimit_def resolveHeaderConfig_def
        resolveWindowMsForHeaders_def token_info_def opt_or_def [of "Some _"] split: prod.splits)
qed

definition demo_queued :: "strategy option \<Rightarrow> unit queued_options" where
  "demo_queued strat =
     \<lparr>qo_windowMs = 1000, qo_maxRequests = js_int 5, qo_strategy = strat, qo_store = None, qo_maxQueueSize = None,
      qo_maxQueueTimeMs = None, qo_statusCode = None, qo_message = None, qo_incrementCost = None,
      qo_shutdownRetryAfterSeconds = None, qo_standardHeaders = ShAbsent, qo_legacyHeaders = None\<rparr>"
section \<open>Answers\<close>

lemma queued_validates:
  assumes "new_queued_limiter conns qo w = Inr (mg, w')"
  shows "\<exists>f. validateRateLimitHeaderOptions (md_options mg) False = (Inr (), f)"
proof -
  let ?po = "queued_partial qo"
  have po: "po_limits ?po = []" "po_penaltyBox ?po = None" "po_strategy ?po = Some (opt_or (qo_strategy qo) SLIDING_WINDOW)"
    by (simp_all add: queued_partial_def)
  have keep: "mo_standardHeaders (spread_options s ?po) = mo_standardHeaders (po_rest ?po)"
      "mo_identifier (spread_options s ?po) = IdAbsent" "eo_penaltyBox (mo_engine (spread_options s ?po)) = None"
    for s by (simp_all add: spread_options_def queued_partial_def Let_def no_options_def)
  have check: "merge_check False ?po w = Inr ()"
    using assms by (auto simp: new_queued_limiter_def mergeRateLimiterOptions_def split: sum.splits)
  then have ok: "\<not> isInvalidStandardHeaders (mo_standardHeaders (po_rest ?po))"
    by (auto simp: merge_check_def validateRateLimitHeaderOptions_def split: sum.splits if_splits)
  have at: "attachKeyManagerFromPenaltyBox (with_store ?po (spread_options s ?po) st) w1 = (with_store ?po (spread_options s ?po) st, w1)"
    for s st w1 by (simp add: attachKeyManagerFromPenaltyBox_def with_store_def keep Let_def)
  have "\<exists>s st. mg = with_store ?po (spread_options s ?po) st"
    using assms check
    by (auto simp: new_queued_limiter_def mergeRateLimiterOptions_def po at Let_def split: prod.splits if_splits)
  then have "mo_standardHeaders (md_options mg) = mo_standardHeaders (po_rest ?po)" "mo_identifier (md_options mg) = IdAbsent"
    using keep by (auto simp: with_store_def)
  with ok show ?thesis by (auto simp: validateRateLimitHeaderOptions_def)
qed

lemma granted_continues:
  assumes "new_queued_limiter conns qo w = Inr (mg, w')"
  shows "ex_flow (token_granted (md_options mg) now req rem reset) = Continue \<and>
    ex_rateLimit (token_granted (md_options mg) now req rem reset) = Some (token_info (md_options mg) req rem reset)"
proof -
  obtain f where v: "validateRateLimitHeaderOptions (md_options mg) False = (Inr (), f)"
    using queued_validates [OF assms] by blast
  have "fst (write_token_headers (md_options mg) now req rem reset []) = None"
  proof (cases "rhc_format (resolveHeaderConfig (md_options mg) (Some req) None)")
    case (Some fmt)
    from validated_headers_format [OF v this] obtain out where
      "formatRateLimitHeaders \<lparr>hi_limit = rhc_resolvedLimit (resolveHeaderConfig (md_options mg) (Some req) None), hi_remaining = rem,
          hi_resetTime = reset, hi_isBlocked = False, hi_windowMs = resolveWindowMsForHeaders (md_options mg) None,
          hi_identifier = rhc_identifier (resolveHeaderConfig (md_options mg) (Some req) None)\<rparr>
         fmt (rhc_includeLegacy (resolveHeaderConfig (md_options mg) (Some req) None)) now = Inr out" by blast
    then show ?thesis by (simp add: write_token_headers_def Let_def Some split: option.splits)
  qed (simp add: write_token_headers_def Let_def)
  then show ?thesis
    by (cases "write_token_headers (md_options mg) now req rem reset []") (simp add: token_granted_def new_exchange_def)
qed

text \<open>How an outcome is answered. A string or an object given as \<open>message\<close> keeps its text or its fields; the
  code is always there.\<close>

definition answered :: "'q mw_options \<Rightarrow> 'q queued_options \<Rightarrow> 'q \<Rightarrow> q_outcome \<Rightarrow> exchange \<Rightarrow> bool" where
  "answered mo qo req out x \<longleftrightarrow>
     (case out of
        Resolved rem reset \<Rightarrow> ex_flow x = Continue \<and> ex_rateLimit x = Some (token_info mo req rem reset)
      | Rejected (ShutdownError why) \<Rightarrow>
          ex_flow x = Replied \<and> ex_status x = 503 \<and>
          map_of (ex_headers x) ''Retry-After'' = Some (js_show (opt_or (qo_shutdownRetryAfterSeconds qo) 10)) \<and>
          (\<exists>kvs. ex_body x = Some (JObject kvs) \<and> map_of kvs ''code'' = Some (JString ''E_RATELIMIT_SHUTDOWN''))
      | Rejected err \<Rightarrow>
          ex_flow x = Replied \<and> ex_status x = opt_or (qo_statusCode qo) 429 \<and>
          (\<exists>secs. map_of (ex_headers x) ''Retry-After'' = Some (js_show secs) \<and> 1 \<le> secs \<and>
             (err = QueueTimeout \<longrightarrow> opt_or (qo_maxQueueTimeMs qo) 30000 \<le> 1000 * secs)))"

lemma ceil_seconds_ge: "t \<le> 1000 * ceil_seconds t"
  by (simp add: ceil_seconds_def)

lemma retryAfter_bounds:
  "1 \<le> retryAfterSeconds err t \<and> (err = QueueTimeout \<longrightarrow> t \<le> 1000 * retryAfterSeconds err t)"
  using ceil_seconds_ge [of t] by (auto simp: retryAfterSeconds_def max_def)

lemma shutdown_json_code: "\<exists>kvs. queuedShutdownErrorJson m = JObject kvs \<and> map_of kvs ''code'' = Some (JString ''E_RATELIMIT_SHUTDOWN'')"
  by (auto simp: queuedShutdownErrorJson_def Let_def update_conv split: option.splits)

lemma settled_answered:
  assumes "new_queued_limiter conns qo w = Inr (mg, w')"
  shows "answered (md_options mg) qo req out (express_queued_settled (md_options mg) qo now req out)"
proof (cases out)
  case (Resolved rem reset)
  then show ?thesis using granted_continues [OF assms] by (simp add: answered_def express_queued_settled_def)
next
  case (Rejected err)
  have "answered (md_options mg) qo req (Rejected err) (reply_queue_error qo err)" if "\<forall>why. err \<noteq> ShutdownError why"
    using that retryAfter_bounds [of err "opt_or (qo_maxQueueTimeMs qo) 30000"]
    by (cases err) (auto simp: answered_def reply_queue_error_def update_conv)
  moreover have "answered (md_options mg) qo req (Rejected (ShutdownError why)) (reply_shutdown qo)" for why
    using shutdown_json_code by (simp add: answered_def reply_shutdown_def update_conv)
  ultimately show ?thesis using Rejected by (cases err) (auto simp: express_queued_settled_def)
qed

text \<open>(C23) A shutdown leaves nobody waiting: whatever ran before and meanwhile, once \<open>shutdown\<close> is over
  every request that the queue ever took has an outcome and an answer for it (the application, the
  configured status with a wait of at least a second, and after a timeout of at least the time waited,
  or 503 with its \<open>Retry-After\<close> and \<open>E_RATELIMIT_SHUTDOWN\<close>), and every request that comes later is
  answered 503 in the same way without touching the queue.\<close>

theorem queued_shutdown_answers_all:
  assumes "new_queued_limiter conns qo w = Inr (mg, w')"
    and "q = q_run ops evs0 (queue_over (md_options mg) (qo_maxQueueSize qo) (qo_maxQueueTimeMs qo) st)" "\<not> q_isShutdown q"
    and "q' = q_run ops evs (q_shutdown ops t ms (Some why) q)" "\<forall>ev \<in> set evs. \<not> is_shutdown_call ev"
    and "q_shutdownRun q' = None"
  shows "(\<forall>i < q_fresh q'. \<exists>out. map_of (q_settled q') i = Some out \<and>
      answered (md_options mg) qo req out (express_queued_settled (md_options mg) qo now req out)) \<and>
    (\<forall>k cost. keyGen req = Inr k \<and> resolveCost req (qo_incrementCost qo) = Inr cost \<longrightarrow>
      express_queued_begin qo keyGen now req q' = (RejectedNow (ShutdownError ''queue-shutdown''), q') \<and>
      (\<exists>x. queued_answer_now (express_queued_settled (md_options mg) qo now req) (fst (express_queued_begin qo keyGen now req q')) = Some x \<and>
         answered (md_options mg) qo req (Rejected (ShutdownError ''queue-shutdown'')) x))"
proof -
  obtain xs where list: "list_inv q xs"
    unfolding assms(2) queue_over_def Let_def by (rule exE [OF run_list [OF new_queue_list]])
  from exec_list [OF list, of ops "CallShutdown t ms (Some why)"] obtain ys where
    ys: "list_inv (q_shutdown ops t ms (Some why) q) ys" by auto
  have "winding (q_reports q) (resolved_count q) (shut_count why q) why (q_shutdown ops t ms (Some why) q)"
    by (rule winding_start [OF list assms(3)]) simp
  from winding_run [OF ys this assms(5), of ops] have w: "winding (q_reports q) (resolved_count q) (shut_count why q) why q'"
    by (simp add: assms(4))
  then have off: "q_isShutdown q'" "q_head q' = None" using assms(6) by (simp_all add: winding_def)
  obtain zs where zs: "list_inv q' zs" unfolding assms(4) by (rule exE [OF run_list [OF ys]])
  then have "zs = []" using off(2) by (cases zs) (auto simp: list_inv_def spells_def)
  with zs have "fst ` set (q_settled q') = {..<q_fresh q'}" by (simp add: list_inv_def)
  then have "\<exists>out. map_of (q_settled q') i = Some out" if "i < q_fresh q'" for i
    using that by (metis lessThan_iff map_of_eq_None_iff not_None_eq)
  moreover have "enter_queue now k cost q' = (RejectedNow (ShutdownError ''queue-shutdown''), q')" for k cost
    using off(1) by (simp add: enter_queue_def removeTokens_def Let_def)
  ultimately show ?thesis using settled_answered [OF assms(1)]
    by (auto simp: express_queued_begin_def queued_answer_now_def)
qed
lemma demo_queued_built:
  obtains mg w' where "new_queued_limiter demo_connections (demo_queued strat) demo_world = Inr (mg, w')"
proof -
  have "merge_check False (queued_partial (demo_queued strat)) demo_world = Inr ()"
    by (simp add: merge_check_def queued_partial_def demo_queued_def no_options_def validateRateLimitHeaderOptions_def
        isInvalidStandardHeaders_def)
  then have "\<exists>r. new_queued_limiter demo_connections (demo_queued strat) demo_world = Inr r"
    by (simp add: new_queued_limiter_def mergeRateLimiterOptions_def Let_def queued_partial_def split: prod.splits)
  then show ?thesis using that by (metis surj_pair)
qed

lemma demo_queue_over:
  assumes "new_queued_limiter demo_connections (demo_queued None) demo_world = Inr (mg, w')"
  shows "queue_over (md_options mg) None None st = new_RateLimiterQueue st 1000 5 (Some SLIDING_WINDOW) (Some 100) (Some 30000) (Some False)"
proof -
  have q: "qo_store (demo_queued None) = None" "qo_strategy (demo_queued None) = None"
    "qo_maxRequests (demo_queued None) = js_int 5" "qo_windowMs (demo_queued None) = 1000" by (simp_all add: demo_queued_def)
  have cap: "sanitizeRateLimitCap (js_int 5) 100 = 5" by code_simp
  show ?thesis using queued_fields [OF assms q(1)]
    by (simp add: queue_over_def getLimit_def q opt_or_def cap Let_def)
qed

theorem queued_limits_agree_witness:
  "\<exists>mg w' s. new_queued_limiter demo_connections (demo_queued None) demo_world = Inr (mg, w') \<and>
    obj_at w' (md_store mg) = ObjMemory s \<and> ms_maxRequests s = 5"
proof -
  obtain mg w' where m: "new_queued_limiter demo_connections (demo_queued None) demo_world = Inr (mg, w')"
    by (rule demo_queued_built)
  have "opt_or (qo_strategy (demo_queued None)) SLIDING_WINDOW \<noteq> TOKEN_BUCKET" "qo_store (demo_queued None) = None"
    "0 < qo_windowMs (demo_queued None)" "qo_windowMs (demo_queued None) \<le> MAX_SAFE_INTEGER"
    by (simp_all add: demo_queued_def opt_or_def MAX_SAFE_INTEGER_def)
  from queued_limits_agree [OF m this(2,1,3,4), of None None "()"] obtain s where
    "obj_at w' (md_store mg) = ObjMemory s"
    "q_maxRequests (queue_over (md_options mg) None None ()) = ms_maxRequests s" by (auto simp: Let_def)
  with m demo_queue_over [OF m, of "()"] show ?thesis by (auto simp: new_RateLimiterQueue_def)
qed

theorem queued_shutdown_answers_all_witness:
  "\<exists>mg w'. new_queued_limiter demo_connections (demo_queued None) demo_world = Inr (mg, w') \<and>
    answered (md_options mg) (demo_queued None) () (Rejected (ShutdownError ''stop''))
      (express_queued_settled (md_options mg) (demo_queued None) 7 () (Rejected (ShutdownError ''stop'')))"
proof -
  obtain mg w' where m: "new_queued_limiter demo_connections (demo_queued None) demo_world = Inr (mg, w')"
    by (rule demo_queued_built)
  define q where "q = q_run mem_ops [CallRemoveTokens 0 ''a'' (js_int 2)] (queue_over (md_options mg)
    (qo_maxQueueSize (demo_queued None)) (qo_maxQueueTimeMs (demo_queued None)) (new_MemoryStore (WindowOptions SLIDING_WINDOW (js_int 1000) (js_int 5)) None None))"
  define q' where "q' = q_run mem_ops [StoreActs 5 0, Resume 5 0] (q_shutdown mem_ops 3 None (Some ''stop'') q)"
  have qq: "q = q_run mem_ops [CallRemoveTokens 0 ''a'' (js_int 2)] (new_RateLimiterQueue (new_MemoryStore
      (WindowOptions SLIDING_WINDOW (js_int 1000) (js_int 5)) None None) 1000 5 (Some SLIDING_WINDOW) (Some 100) (Some 30000) (Some False))"
    by (simp add: q_def demo_queued_def demo_queue_over [OF m, unfolded demo_queued_def])
  have q: "\<not> q_isShutdown q" unfolding qq by code_simp
  have q': "q_shutdownRun q' = None" "q_fresh q' = 1" "map_of (q_settled q') 0 = Some (Rejected (ShutdownError ''stop''))"
    unfolding q'_def qq by code_simp+
  from queued_shutdown_answers_all [OF m q_def q q'_def _ q'(1), of "()" 7 "\<lambda>_. Inr ''a''"] q' m
  show ?thesis by (auto simp: is_shutdown_call_def)
qed

text \<open>A waiting middleware cannot be given a token bucket: with that strategy it hands neither
  \<open>tokensPerInterval\<close> nor \<open>bucketSize\<close> to the merge, which does not read \<open>maxRequests\<close> and \<open>windowMs\<close>.
  Whatever quota was asked for, the store is a bucket of 100 that gains 10 tokens a minute, and the queue
  accepts and the headers announce 100.\<close>

theorem queued_bucket_ignores_quota:
  assumes "new_queued_limiter conns qo w = Inr (mg, w')" "qo_store qo = None" "qo_strategy qo = Some TOKEN_BUCKET"
  shows "\<exists>s. obj_at w' (md_store mg) = ObjMemory s \<and> ms_strategy s = TOKEN_BUCKET \<and> ms_bucketSize s = 100 \<and>
    ms_tokensPerInterval s = 10 \<and> ms_refillIntervalMs s = 60000 \<and>
    q_maxRequests (queue_over (md_options mg) maxSize maxTime st) = 100 \<and>
    q_windowMs (queue_over (md_options mg) maxSize maxTime st) = 60000 \<and>
    (\<forall>req. rhc_resolvedLimit (resolveHeaderConfig (md_options mg) req None) = 100)"
  using queued_fields [OF assms(1,2)] assms(3)
  by (simp add: queue_over_def new_RateLimiterQueue_def store_fields getLimit_def resolveHeaderConfig_def opt_or_def
      split: prod.splits)

theorem queued_bucket_ignores_quota_witness:
  "\<exists>mg w' s. new_queued_limiter demo_connections (demo_queued (Some TOKEN_BUCKET)) demo_world = Inr (mg, w') \<and>
    obj_at w' (md_store mg) = ObjMemory s \<and> ms_bucketSize s = 100 \<and> qo_maxRequests (demo_queued (Some TOKEN_BUCKET)) = js_int 5"
proof -
  obtain mg w' where m: "new_queued_limiter demo_connections (demo_queued (Some TOKEN_BUCKET)) demo_world = Inr (mg, w')"
    by (rule demo_queued_built)
  have "qo_store (demo_queued (Some TOKEN_BUCKET)) = None" "qo_strategy (demo_queued (Some TOKEN_BUCKET)) = Some TOKEN_BUCKET"
    by (simp_all add: demo_queued_def)
  from queued_bucket_ignores_quota [OF m this, of None None "()"] m show ?thesis
    by (auto simp: demo_queued_def)
qed

section \<open>Where Express differs\<close>

text \<open>Fastify handles a request as Express does, save that Express computes the cost outside its \<open>try\<close>: an
  \<open>incrementCost\<close> that throws rejects the promise of the middleware, which Express 4 does not look at, so
  \<open>next\<close> is never called.\<close>

lemma fastify_queued_eq:
  "fastify_queued_begin qo keyGen now req q =
     (case express_queued_begin qo keyGen now req q of (StartThrows e, q1) \<Rightarrow> (StartFailed e, q1) | r \<Rightarrow> r)"
  "fastify_queued_settled mo qo now req out = express_queued_settled mo qo now req out"
  by (simp_all add: fastify_queued_begin_def express_queued_begin_def enter_queue_def fastify_queued_settled_def
      express_queued_settled_def split: sum.splits prod.splits)

lemma express_queued_cost_throws:
  "keyGen req = Inr k \<Longrightarrow> resolveCost req (qo_incrementCost qo) = Inl e \<Longrightarrow>
   express_queued_begin qo keyGen now req q = (StartThrows e, q)"
  by (simp add: express_queued_begin_def)

section \<open>A queue over a shield\<close>

text \<open>(C25) A probe of the queue over a shield opens a slot. The shield answers the probe of a full key from its
  cache, so that the store counts nothing; the queue takes the probe back all the same, and the store
  loses hits that were let through. The same probe, made again at once, is then granted. Over the bare
  store the pair of calls changes nothing and the probe stays blocked.\<close>

theorem shielded_probe_opens_slot:
  fixes q :: "mem_store shield req_queue" and p :: "mem_store req_queue" and cost :: js_value
  defines "s \<equiv> sh_inner (q_store q)"
    and "probe \<equiv> Some \<lparr>io_maxRequests = js_int (q_maxRequests q), io_cost = cost\<rparr>"
  assumes "shield_inv (q_store q)" "mem_inv s" "stamps_timely now s" "isShielded now (q_store q) k"
    and "q_strategy q \<noteq> TOKEN_BUCKET" "ms_strategy s = q_strategy q"
    and "q_store p = s" "q_strategy p = q_strategy q" "q_maxRequests p = q_maxRequests q"
    and full: "mem_usage s now k \<le> mem_limit s probe" "mem_limit s probe < mem_usage s now k + eff_cost probe"
      "eff_cost probe \<le> mem_usage s now k"
  shows "let (a, q1) = store_increment (shield_ops mem_ops) now k cost q;
             (u, q2) = store_undo (shield_ops mem_ops) now k cost (isBlocked (projr a)) q1;
             (b, q3) = store_increment (shield_ops mem_ops) now k cost q2;
             (a', p1) = store_increment mem_ops now k cost p;
             (u', p2) = store_undo mem_ops now k cost (isBlocked (projr a')) p1;
             (b', p3) = store_increment mem_ops now k cost p2
         in isBlocked (projr a) \<and> isBlocked (projr a') \<and>
            mem_usage (sh_inner (q_store q2)) now k = mem_usage s now k - eff_cost probe \<and> \<not> isBlocked (projr b) \<and>
            mem_usage (q_store p2) now k = mem_usage s now k \<and> isBlocked (projr b')"
proof -
  define d where "d = Some \<lparr>do_cost = cost, do_removeNewest = (q_strategy q = SLIDING_WINDOW)\<rparr>"
  have d: "sanitizeIncrementCost (opt_dec_cost d) 1 = eff_cost probe" "ms_strategy s = SLIDING_WINDOW \<Longrightarrow> opt_removeNewest d"
    using assms(8) by (simp_all add: d_def probe_def eff_cost_def)
  have undo: "undo_call (q_strategy q) cost x = Some \<lparr>do_cost = cost, do_removeNewest = (q_strategy q = SLIDING_WINDOW)\<rparr>" for x
    using assms(7) by (simp add: undo_call_def)
  obtain r q1 where hit: "shield_lookup now k (q_store q) = (Some r, q1)" "sh_inner q1 = s"
    using assms(6) by (auto simp: shield_lookup_def isShielded_def s_def split: option.splits)
  have r: "isBlocked r" by (rule shield_hit_blocked [OF assms(3) hit(1)])
  define t where "t = mem_decrement k d s"
  have t: "mem_inv t" "mem_usage t now k = mem_usage s now k - eff_cost probe" "mem_limit t o' = mem_limit s o'" for o'
  proof -
    show "mem_inv t" unfolding t_def by (rule mem_decrement_inv(1) [OF assms(4)])
    show "mem_limit t o' = mem_limit s o'" unfolding t_def by (rule mem_limit_cong [OF mem_decrement_inv(2) [OF assms(4)]])
    have "ms_strategy s \<noteq> TOKEN_BUCKET" using assms(7,8) by simp
    from mem_decrement_takes [OF assms(4) this assms(5) d(2), of k] d(1) full(3)
    show "mem_usage t now k = mem_usage s now k - eff_cost probe" by (simp add: t_def)
  qed
  have again: "\<not> isBlocked (fst (mem_increment now k probe t))"
    using mem_increment_decides [OF t(1) surjective_pairing, of now k probe] t(2,3) full(1) by simp
  obtain r1 s1 where inc: "mem_increment now k probe s = (r1, s1)" by fastforce
  have r1: "isBlocked r1" "mem_usage (mem_decrement k d s1) now k = mem_usage s now k"
    using mem_increment_decides [OF assms(4) inc] full(2) mem_rollback_usage [OF assms(4) inc _ d(1)] assms(7,8) by auto
  have s2: "mem_inv (mem_decrement k d s1)" "mem_limit (mem_decrement k d s1) probe = mem_limit s probe"
    using mem_decrement_inv mem_increment_inv [OF assms(4) inc] by (auto intro!: mem_limit_cong)
  have again': "isBlocked (fst (mem_increment now k probe (mem_decrement k d s1)))"
    using mem_increment_decides [OF s2(1) surjective_pairing, of now k probe] s2(2) r1(2) full(2) by simp
  define q2 where "q2 = q\<lparr>q_store := (sh_uncache k q1)\<lparr>sh_inner := t\<rparr>, q_log := q_log q @ [IncDone k cost r, DecDone k cost]\<rparr>"
  have e1: "store_increment (shield_ops mem_ops) now k cost q = (Inr r, q\<lparr>q_store := q1, q_log := q_log q @ [IncDone k cost r]\<rparr>)"
    by (simp add: store_increment_def shield_ops_def shield_increment_def hit(1))
  have e2: "store_undo (shield_ops mem_ops) now k cost True (q\<lparr>q_store := q1, q_log := q_log q @ [IncDone k cost r]\<rparr>) = (Inr (), q2)"
    by (simp add: store_undo_def undo store_decrement_def shield_ops_def shield_decrement_def mem_ops_def hit(2) t_def d_def q2_def)
  obtain r3 t3 where inc3: "mem_increment now k probe t = (r3, t3)" by fastforce
  have "shield_lookup now k (q_store q2) = (None, (q_store q2)\<lparr>storeCalls := Suc (storeCalls (q_store q2))\<rparr>)"
    by (simp add: shield_lookup_def q2_def delete_conv')
  then obtain q3 where e3: "store_increment (shield_ops mem_ops) now k cost q2 = (Inr r3, q3)"
    using inc3 by (simp add: store_increment_def shield_ops_def shield_increment_def mem_ops_def q2_def flip: probe_def)
  have f1: "store_increment mem_ops now k cost p = (Inr r1, p\<lparr>q_store := s1, q_log := q_log p @ [IncDone k cost r1]\<rparr>)"
    using inc by (simp add: store_increment_def mem_ops_def assms(9,11) flip: probe_def)
  obtain p2 where f2: "store_undo mem_ops now k cost True (p\<lparr>q_store := s1, q_log := q_log p @ [IncDone k cost r1]\<rparr>) = (Inr (), p2)"
    "q_store p2 = mem_decrement k d s1" "q_maxRequests p2 = q_maxRequests q"
    by (simp add: store_undo_def undo assms(10,11) store_decrement_def mem_ops_def d_def)
  obtain r4 s4 where inc4: "mem_increment now k probe (mem_decrement k d s1) = (r4, s4)" by fastforce
  obtain p3 where f3: "store_increment mem_ops now k cost p2 = (Inr r4, p3)"
    using inc4 f2(2,3) by (simp add: store_increment_def mem_ops_def flip: probe_def)
  have "sh_inner (q_store q2) = t" by (simp add: q2_def)
  then show ?thesis
    using r again again' inc3 inc4 r1 t(2) f2(2) by (simp add: e1 e2 e3 f1 f2(1) f3)
qed

text \<open>The shield of \<open>inMemoryBlock\<close>, cap two per second.\<close>

definition shielded_store :: "mem_store shield" where
  "shielded_store =
     (case new_InMemoryShield (new_MemoryStore (WindowOptions SLIDING_WINDOW (js_int 1000) (js_int 2)) None None)
             \<lparr>opt_blockOnConsumed = js_int 2, opt_blockDurationMs = js_int 1000, opt_maxBlockedKeys = Undefined,
              opt_sweepIntervalMs = Undefined\<rparr> of Inr s \<Rightarrow> s)"

definition queue_of_two :: "'s \<Rightarrow> 's req_queue" where
  "queue_of_two st = new_RateLimiterQueue st 1000 2 (Some SLIDING_WINDOW) (Some 100) (Some 30000) (Some False)"

text \<open>Requests at 0, 900, 901 and 902; the drain timer of the third fires at 1000.\<close>

definition four_requests :: "q_event list" where
  "four_requests =
     CallRemoveTokens 0 ''a'' Undefined # pass 0 0 @ CallRemoveTokens 900 ''a'' Undefined # pass 900 1 @
     CallRemoveTokens 901 ''a'' Undefined # pass 901 2 @ pass 901 2 @ CallRemoveTokens 902 ''a'' Undefined # DrainTimer 1000 #
     pass 1000 3 @ pass 1000 3 @ pass 1000 3"

text \<open>A queue over a shield lets too much through: the shield answers the third request out of its cache,
  the store counts nothing, and the queue still undoes the probe, which takes the hit of the second
  request off the store. With a cap of two per second, requests get through at 0, at 900 and twice at
  1000; over the bare store the fourth still waits.\<close>

theorem shielded_queue_over_admits:
  "map (\<lambda>(i, out). (i, case out of Resolved _ _ \<Rightarrow> True | Rejected _ \<Rightarrow> False))
     (q_settled (q_run (shield_ops mem_ops) four_requests (queue_of_two shielded_store))) =
       [(0, True), (1, True), (2, True), (3, True)] \<and>
   map (\<lambda>(i, out). (i, case out of Resolved _ _ \<Rightarrow> True | Rejected _ \<Rightarrow> False))
     (q_settled (q_run mem_ops four_requests (queue_of_two (sh_inner shielded_store)))) = [(0, True), (1, True), (2, True)]"
  by code_simp

text \<open>The same queue after the shield has answered for the requests at 0, 900 and 901.\<close>

definition probed_shield :: "mem_store shield" where
  "probed_shield = fold (\<lambda>t s. snd (shield_increment mem_ops t ''a'' None s)) [0, 900, 901] shielded_store"

theorem shielded_probe_opens_slot_witness:
  "let (a, q1) = store_increment (shield_ops mem_ops) 902 ''a'' Undefined (queue_of_two probed_shield);
       (u, q2) = store_undo (shield_ops mem_ops) 902 ''a'' Undefined True q1;
       (b, q3) = store_increment (shield_ops mem_ops) 902 ''a'' Undefined q2
   in isBlocked (projr a) \<and> \<not> isBlocked (projr b) \<and> mem_usage (sh_inner (q_store q2)) 902 ''a'' = 1"
proof -
  let ?q = "queue_of_two probed_shield" and ?p = "queue_of_two (sh_inner probed_shield)"
  have 1: "shield_inv (q_store ?q)" "mem_inv (sh_inner (q_store ?q))" "isShielded 902 (q_store ?q) ''a''" by code_simp+
  have "ms_state (sh_inner (q_store ?q)) = [(''a'', Sliding [0, 900] None)]" by code_simp
  then have 2: "stamps_timely 902 (sh_inner (q_store ?q))" by (auto simp: stamps_timely_def entry_timely_def)
  have 3: "q_strategy ?q \<noteq> TOKEN_BUCKET" "ms_strategy (sh_inner (q_store ?q)) = q_strategy ?q"
    "q_store ?p = sh_inner (q_store ?q)" "q_strategy ?p = q_strategy ?q" "q_maxRequests ?p = q_maxRequests ?q" by code_simp+
  let ?o = "Some \<lparr>io_maxRequests = js_int (q_maxRequests ?q), io_cost = Undefined\<rparr>"
  have 4: "mem_usage (sh_inner (q_store ?q)) 902 ''a'' = 2" "mem_limit (sh_inner (q_store ?q)) ?o = 2" "eff_cost ?o = 1" by code_simp+
  have 5: "mem_usage (sh_inner (q_store ?q)) 902 ''a'' \<le> mem_limit (sh_inner (q_store ?q)) ?o"
    "mem_limit (sh_inner (q_store ?q)) ?o < mem_usage (sh_inner (q_store ?q)) 902 ''a'' + eff_cost ?o"
    "eff_cost ?o \<le> mem_usage (sh_inner (q_store ?q)) 902 ''a''" by (simp_all add: 4)
  show ?thesis
    using shielded_probe_opens_slot [OF 1(1,2) 2 1(3) 3 5] by (auto simp: 4 Let_def split: prod.splits)
qed

end
