(* ===== verification/Nest_Guard.thy ===== *)
theory Nest_Guard
  imports Middleware_Merge
begin

text \<open>
  The guard of \<open>src/nestjs/RateLimitGuard.ts\<close>: one request (\<open>canActivate\<close>), with the metadata that
  \<open>src/nestjs/decorators.ts\<close> attaches to handlers, the engines it keeps per handler
  (\<open>src/nestjs/route-engine-fingerprint.ts\<close>) and the shutdown hook of
  \<open>src/nestjs/rate-limit-module-lifecycle.ts\<close>. How the guard resolves the module's options is in
  \<open>Middleware_Merge\<close>. NestJS itself (reflection, the execution context, GraphQL) is what the context
  holds.
\<close>

section \<open>The execution context\<close>

text \<open>Metadata as \<open>getAllAndOverride\<close> returns it. An object of route options has a field or not; a field
  can be explicitly undefined.\<close>

datatype skip_meta = SkipAbsent | SkipTrue | SkipNames "string list" | SkipOther

record ('c, 'q) route_options =
  ro_maxRequests :: "js_value option"
  ro_windowMs :: "int option option"
  ro_cost :: "js_value option"
  ro_strategy :: "strategy option option"
  ro_keyGenerator :: "('c \<Rightarrow> string + key) option option"

datatype ('c, 'q) route_meta = MetaAbsent | MetaOther | MetaObject "('c, 'q) route_options"

text \<open>Requests by kind of context; the flag says that the response can take headers. A GraphQL context
  is resolved by \<open>@nestjs/graphql\<close>, or not, and then there is what \<open>switchToHttp\<close> gives.\<close>

datatype 'q transport =
    OverHttp "'q \<times> bool"
  | OverGraphql "('q \<times> bool) option" "'q \<times> bool"
  | OverWs (ws_remoteAddress: "string option") (ws_handshakeAddress: "string option")
  | OverRpc 'q
  | OverOther "'q \<times> bool"

record ('c, 'q) nest_context =
  nc_context :: 'c
  nc_handler :: "nat option"
  nc_skipMeta :: skip_meta
  nc_routeMeta :: "('c, 'q) route_meta"
  nc_transport :: "'q transport"

text \<open>What is thrown: an \<open>HttpException\<close> or another error.\<close>

datatype thrown = HttpEx int json | OtherEx string

text \<open>What the decorators attach.\<close>

definition RateLimit_meta :: "('c, 'q) route_options \<Rightarrow> ('c, 'q) route_meta" where
  "RateLimit_meta options = MetaObject options"

definition SkipRateLimit_meta :: "string list \<Rightarrow> skip_meta" where
  "SkipRateLimit_meta names = (if names \<noteq> [] then SkipNames names else SkipTrue)"

section \<open>The guard\<close>

datatype cost_kind = CostAbsent | CostFn | CostNumber js_value

text \<open>\<open>gc_resolved\<close> are the options of \<open>this.resolved\<close>, \<open>gc_costKind\<close> says what kind of \<open>incrementCost\<close> they
  have, \<open>gc_keyManager\<close> and \<open>gc_store\<close> which objects; \<open>gc_wsRequest\<close> builds the request of a socket.\<close>

record ('c, 'q) nest_guard_config =
  gc_resolved :: "'q mw_options"
  gc_store :: nat
  gc_keyManager :: "nat option"
  gc_costKind :: cost_kind
  gc_production :: bool
  gc_skip :: "('c \<Rightarrow> string + bool) option"
  gc_keyGenerator :: "('c \<Rightarrow> string + key) option"
  gc_baseKeyGenerator :: "'q \<Rightarrow> string + key"
  gc_getRequestResponse :: "('c \<Rightarrow> string + 'q \<times> bool) option"
  gc_errorFactory :: "('c \<Rightarrow> int \<times> int \<times> time \<Rightarrow> thrown option) option"
  gc_wsRequest :: "string \<Rightarrow> 'q"

text \<open>What an engine keeps for itself. The store, the key manager and the metrics are shared.\<close>

record engine_private =
  ep_penaltyUntil :: "(key, time) jsmap"
  ep_violations :: "(key, time list) jsmap"
  ep_sweepSeq :: int

definition fresh_private :: engine_private where
  "fresh_private = \<lparr>ep_penaltyUntil = [], ep_violations = [], ep_sweepSeq = 0\<rparr>"

definition private_of :: "('s, 'k, 'q) engine \<Rightarrow> engine_private" where
  "private_of en = \<lparr>ep_penaltyUntil = en_penaltyUntil en, ep_violations = en_violations en, ep_sweepSeq = en_sweepSeq en\<rparr>"

definition with_private :: "engine_private \<Rightarrow> ('s, 'k, 'q) engine \<Rightarrow> ('s, 'k, 'q) engine" where
  "with_private p en =
     en\<lparr>en_penaltyUntil := ep_penaltyUntil p, en_violations := ep_violations p, en_sweepSeq := ep_sweepSeq p\<rparr>"

section \<open>Fingerprints (route-engine-fingerprint.ts)\<close>

text \<open>The fields that are strings in the JSON text. \<open>tokensPerInterval\<close> is the same for all routes of a
  guard and left out. A number that JSON cannot write is \<open>null\<close>.\<close>

datatype fingerprint_rest =
    FpBucket "int option" int
  | FpWindow "int option" "rat option option" "(js_value \<times> js_value) list" "(int \<times> int \<times> nat) list"

record fingerprint =
  fp_strategy :: strategy
  fp_store :: nat
  fp_km :: "nat option"
  fp_ic :: "rat option option + bool"
  fp_rest :: fingerprint_rest

definition json_number :: "js_value \<Rightarrow> rat option" where
  "json_number v = (case v of Num r \<Rightarrow> Some r | _ \<Rightarrow> None)"

definition is_js_number :: "js_value \<Rightarrow> bool" where
  "is_js_number v = (case v of Num _ \<Rightarrow> True | PosInf \<Rightarrow> True | NegInf \<Rightarrow> True | NaN \<Rightarrow> True | _ \<Rightarrow> False)"

definition fp_cost :: "cost_kind \<Rightarrow> rat option option + bool" where
  "fp_cost c =
     (case c of
        CostAbsent \<Rightarrow> Inr False
      | CostFn \<Rightarrow> Inr True
      | CostNumber v \<Rightarrow> if is_js_number v then Inl (Some (json_number v)) else Inr False)"

definition fingerprintRouteEngineOptions :: "nat \<Rightarrow> nat option \<Rightarrow> cost_kind \<Rightarrow> 'q mw_options \<Rightarrow> fingerprint" where
  "fingerprintRouteEngineOptions st km ic mo =
     (let eo = mo_engine mo
      in \<lparr>fp_strategy = eo_strategy eo, fp_store = st, fp_km = km, fp_ic = fp_cost ic,
          fp_rest =
            (if eo_strategy eo = TOKEN_BUCKET then FpBucket (mo_interval mo) (eo_bucketSize eo)
             else FpWindow (mo_windowMs mo)
                    (case eo_maxRequests eo of
                       MaxNumber v \<Rightarrow> if is_js_number v then Some (json_number v) else None
                     | _ \<Rightarrow> None)
                    (zip (mo_limitWindows mo) (eo_limits eo))
                    (map (\<lambda>g. (gw_windowMs g, gw_maxRequests g, gw_store g)) (eo_grouped eo)))\<rparr>)"

section \<open>Route options\<close>

definition isPlainRouteLimitOptions :: "('c, 'q) route_meta \<Rightarrow> ('c, 'q) route_options option" where
  "isPlainRouteLimitOptions meta =
     (case meta of
        MetaObject ro \<Rightarrow>
          if ro_maxRequests ro \<noteq> None \<or> ro_windowMs ro \<noteq> None \<or> ro_cost ro \<noteq> None \<or> ro_strategy ro \<noteq> None \<or>
             ro_keyGenerator ro \<noteq> None
          then Some ro else None
      | _ \<Rightarrow> None)"

definition strategy_name :: "strategy \<Rightarrow> string" where
  "strategy_name s = (case s of SLIDING_WINDOW \<Rightarrow> ''SLIDING_WINDOW'' | FIXED_WINDOW \<Rightarrow> ''FIXED_WINDOW'' | TOKEN_BUCKET \<Rightarrow> ''TOKEN_BUCKET'')"

definition err_route_strategy :: "strategy \<Rightarrow> strategy \<Rightarrow> string" where
  "err_route_strategy merged attempted =
     ''[ratelimit-flex/nestjs] @RateLimit() cannot set `strategy` to a value that differs from the module default '' @
     ''(one shared engine and store per `RateLimitModule`). '' @
     ''Module strategy is '' @ strategy_name merged @ ''; metadata attempted '' @ strategy_name attempted @ ''. '' @
     ''Set `strategy` on `RateLimitModule.forRoot` / `forRootAsync`, use a separate feature module with its own '' @
     ''`RateLimitModule`, or remove `strategy` from route metadata. See README: '' @ [CHR 0x22] @ ''NestJS: limitations'' @ [CHR 0x22, CHR ''.'']"

definition assertNoConflictingDecoratorStrategy :: "bool \<Rightarrow> ('c, 'q) route_options \<Rightarrow> strategy \<Rightarrow> string + unit" where
  "assertNoConflictingDecoratorStrategy production ro merged =
     (case ro_strategy ro of
        Some (Some attempted) \<Rightarrow>
          if attempted = merged \<or> production then Inr () else Inl (err_route_strategy merged attempted)
      | _ \<Rightarrow> Inr ())"

text \<open>The merged options, with the kind of \<open>incrementCost\<close> they have.\<close>

definition mergeRouteIntoOptions ::
  "bool \<Rightarrow> 'q mw_options \<Rightarrow> cost_kind \<Rightarrow> ('c, 'q) route_options option \<Rightarrow> string + 'q mw_options \<times> cost_kind" where
  "mergeRouteIntoOptions production base ic route =
     (case route of
        None \<Rightarrow> Inr (base, ic)
      | Some ro \<Rightarrow>
          (let window = isWindowOpts (mo_engine base);
               m1 = (case ro_maxRequests ro of
                       Some v \<Rightarrow> if window \<and> v \<noteq> Undefined
                                 then base\<lparr>mo_engine := (mo_engine base)\<lparr>eo_maxRequests := MaxNumber v\<rparr>\<rparr> else base
                     | None \<Rightarrow> base);
               m2 = (case ro_windowMs ro of
                       Some (Some ms) \<Rightarrow> if window then m1\<lparr>mo_windowMs := Some ms\<rparr> else m1
                     | _ \<Rightarrow> m1);
               (m3, ic3) = (case ro_cost ro of
                       Some v \<Rightarrow> if v \<noteq> Undefined
                                 then (m2\<lparr>mo_engine := (mo_engine m2)\<lparr>eo_incrementCost := Some (\<lambda>_. v)\<rparr>\<rparr>, CostNumber v)
                                 else (m2, ic)
                     | None \<Rightarrow> (m2, ic))
           in case assertNoConflictingDecoratorStrategy production ro (eo_strategy (mo_engine base)) of
                Inl e \<Rightarrow> Inl e
              | Inr _ \<Rightarrow> Inr (m3, ic3)))"

definition getRequestResponse :: "('c, 'q) nest_guard_config \<Rightarrow> ('c, 'q) nest_context \<Rightarrow> string + 'q \<times> bool" where
  "getRequestResponse cfg ctx =
     (case gc_getRequestResponse cfg of
        Some f \<Rightarrow> f (nc_context ctx)
      | None \<Rightarrow>
          Inr (case nc_transport ctx of
                 OverHttp x \<Rightarrow> x
               | OverGraphql (Some x) _ \<Rightarrow> x
               | OverGraphql None x \<Rightarrow> x
               | OverWs a h \<Rightarrow>
                   (gc_wsRequest cfg (case a of Some s \<Rightarrow> s | None \<Rightarrow> (case h of Some s \<Rightarrow> s | None \<Rightarrow> ''unknown'')), False)
               | OverRpc q \<Rightarrow> (q, False)
               | OverOther x \<Rightarrow> x))"

definition resolveKey ::
  "('c, 'q) nest_guard_config \<Rightarrow> ('c, 'q) nest_context \<Rightarrow> 'q \<Rightarrow> ('c, 'q) route_options option \<Rightarrow> string + key" where
  "resolveKey cfg ctx req route =
     (case Option.bind (Option.bind route ro_keyGenerator) (\<lambda>x. x) of
        Some f \<Rightarrow> f (nc_context ctx)
      | None \<Rightarrow>
          (case gc_keyGenerator cfg of
             Some f \<Rightarrow> f (nc_context ctx)
           | None \<Rightarrow> gc_baseKeyGenerator cfg req))"

section \<open>Engines\<close>

text \<open>The guard's engine is \<open>gs_engine\<close>; a cached engine is its private part with its handler and
  fingerprint (a \<open>WeakMap\<close>, here in insertion order).\<close>

record ('s, 'k, 'q) nest_guard_state =
  gs_engine :: "('s, 'k, 'q) engine"
  gs_routes :: "(nat, fingerprint \<times> engine_private) jsmap"

text \<open>Which engine serves a request: the guard's, one that nobody keeps, or the one of a handler.\<close>

datatype engine_choice = MainEngine | TransientEngine | RouteEngine nat

definition getEngineForRoute ::
  "('c, 'q) nest_context \<Rightarrow> ('c, 'q) route_options option \<Rightarrow> fingerprint \<Rightarrow> ('s, 'k, 'q) nest_guard_state \<Rightarrow>
   engine_choice \<times> ('s, 'k, 'q) nest_guard_state" where
  "getEngineForRoute ctx route fp g =
     (case route of
        None \<Rightarrow> (MainEngine, g)
      | Some _ \<Rightarrow>
          (case nc_handler ctx of
             None \<Rightarrow> (TransientEngine, g)
           | Some h \<Rightarrow>
               (case map_of (gs_routes g) h of
                  Some (cached, p) \<Rightarrow>
                    if cached = fp then (RouteEngine h, g)
                    else (RouteEngine h, g\<lparr>gs_routes := AList.update h (fp, fresh_private) (gs_routes g)\<rparr>)
                | None \<Rightarrow> (RouteEngine h, g\<lparr>gs_routes := AList.update h (fp, fresh_private) (gs_routes g)\<rparr>))))"

definition engine_for :: "engine_choice \<Rightarrow> ('s, 'k, 'q) nest_guard_state \<Rightarrow> ('s, 'k, 'q) engine" where
  "engine_for ch g =
     (case ch of
        MainEngine \<Rightarrow> gs_engine g
      | TransientEngine \<Rightarrow> with_private fresh_private (gs_engine g)
      | RouteEngine h \<Rightarrow>
          (case map_of (gs_routes g) h of
             Some (_, p) \<Rightarrow> with_private p (gs_engine g)
           | None \<Rightarrow> gs_engine g))"

definition put_engine :: "engine_choice \<Rightarrow> ('s, 'k, 'q) engine \<Rightarrow> ('s, 'k, 'q) nest_guard_state \<Rightarrow> ('s, 'k, 'q) nest_guard_state" where
  "put_engine ch en g =
     (case ch of
        MainEngine \<Rightarrow> g\<lparr>gs_engine := en\<rparr>
      | TransientEngine \<Rightarrow> g\<lparr>gs_engine := with_private (private_of (gs_engine g)) en\<rparr>
      | RouteEngine h \<Rightarrow>
          g\<lparr>gs_engine := with_private (private_of (gs_engine g)) en,
            gs_routes := (case map_of (gs_routes g) h of
                            Some (fp, _) \<Rightarrow> AList.update h (fp, private_of en) (gs_routes g)
                          | None \<Rightarrow> gs_routes g)\<rparr>)"

section \<open>The exception for a blocked request\<close>

definition applyErrorFactory :: "('c, 'q) nest_guard_config \<Rightarrow> 'c \<Rightarrow> consume_result \<Rightarrow> thrown \<Rightarrow> thrown" where
  "applyErrorFactory cfg c r fallback =
     (case gc_errorFactory cfg of
        None \<Rightarrow> fallback
      | Some f \<Rightarrow> (case f c (totalHits r, remaining r, resetTime r) of None \<Rightarrow> fallback | Some x \<Rightarrow> x))"

definition mapBlockedToHttpException ::
  "('c, 'q) nest_guard_config \<Rightarrow> 'k km_methods \<Rightarrow> time \<Rightarrow> 'c \<Rightarrow> key \<Rightarrow> consume_result \<Rightarrow> 'q mw_options \<Rightarrow>
   ('s, 'k, 'q) engine \<Rightarrow> thrown \<times> ('s, 'k, 'q) engine" where
  "mapBlockedToHttpException cfg kmo now c k r effective en =
     (if storeUnavailable r \<or> cr_blockReason r = Some CauseUnavailable
      then (HttpEx 503 (jsonErrorBody (JString ''Service temporarily unavailable'')), en)
      else if cr_blockReason r = Some CauseKeyManager \<and> en_km en \<noteq> None
      then (let (body, en1) = keyManagerBlockedJson kmo effective now k en
            in (applyErrorFactory cfg c r (HttpEx (opt_or (mo_statusCode effective) 429) body), en1))
      else if cr_blockReason r = Some CauseBlocklist
      then (HttpEx (opt_or (mo_blocklistStatusCode effective) 403)
              (jsonErrorBody (opt_or (mo_blocklistMessage effective) (JString ''Forbidden''))), en)
      else (let statusCode = opt_or (mo_statusCode effective) 429;
                msg = opt_or (mo_message effective) (JString ''Too many requests'');
                body = (case msg of
                          JString s \<Rightarrow> jsonErrorBody msg
                        | _ \<Rightarrow> JObject (AList.update ''remaining'' (JNumber (remaining r))
                                 (AList.update ''totalHits'' (JNumber (totalHits r))
                                   (AList.update ''statusCode'' (JNumber statusCode) (json_spread msg)))))
            in (applyErrorFactory cfg c r (HttpEx statusCode body), en)))"

section \<open>One request\<close>

record guard_exchange =
  gx_headers :: header_map
  gx_composed :: "consume_result option"
  gx_rateLimit :: "rate_limit_info option"
  gx_outcome :: "thrown + bool"

definition guard_open :: guard_exchange where
  "guard_open = \<lparr>gx_headers = [], gx_composed = None, gx_rateLimit = None, gx_outcome = Inr True\<rparr>"

definition guard_fails :: "string \<Rightarrow> guard_exchange" where
  "guard_fails e = guard_open\<lparr>gx_outcome := Inl (OtherEx e)\<rparr>"

text \<open>The quota headers: an error of the formatter, or what is written on a response that takes headers.\<close>

definition guard_headers ::
  "'q mw_options \<Rightarrow> time \<Rightarrow> 'q \<Rightarrow> bool \<Rightarrow> consume_result \<Rightarrow> string option \<times> header_map" where
  "guard_headers effective now req takes r =
     (let cfg = resolveHeaderConfig effective (Some req) (cr_bindingSlotIndex r);
          put = (\<lambda>hs res. if takes then applyHeaderMap hs res else res)
      in case (case rhc_format cfg of
                 None \<Rightarrow> (None, [])
               | Some fmt \<Rightarrow>
                   if fmt = '''' then (None, [])
                   else case formatRateLimitHeaders (header_input_of cfg r) fmt (rhc_includeLegacy cfg) now of
                          Inl e \<Rightarrow> (Some e, [])
                        | Inr out \<Rightarrow>
                            (let res1 = put (ho_headers out) []
                             in (None, case ho_legacyHeaders out of Some l \<Rightarrow> put l res1 | None \<Rightarrow> res1))) of
           (Some e, res) \<Rightarrow> (Some e, res)
         | (None, res) \<Rightarrow> (None, if storeUnavailable r then put [(''X-RateLimit-Store'', ''fallback'')] res else res))"

definition guard_consumes ::
  "'s store_ops \<Rightarrow> 's draft_method \<Rightarrow> 'k km_methods \<Rightarrow> ('c, 'q) nest_guard_config \<Rightarrow> clock \<Rightarrow> 'c \<Rightarrow> 'q \<Rightarrow> bool \<Rightarrow> key \<Rightarrow>
   'q mw_options \<Rightarrow> ('s, 'k, 'q) engine \<Rightarrow> guard_exchange \<times> ('s, 'k, 'q) engine" where
  "guard_consumes ops dm kmo cfg ck c req takes k effective en =
     (case consumeWithKey ops dm kmo (mo_engine effective) ck k req en of
        (Inl e, en1) \<Rightarrow> (guard_fails e, en1)
      | (Inr r, en1) \<Rightarrow>
          (let (err, hs) = guard_headers effective (ck_now ck) req takes r;
               gx = guard_open\<lparr>gx_headers := hs, gx_composed := (if res_layers r = None then None else Some r)\<rparr>
           in case err of
                Some e \<Rightarrow> (gx\<lparr>gx_outcome := Inl (OtherEx e)\<rparr>, en1)
              | None \<Rightarrow>
                  if isBlocked r
                  then (let (x, en2) = mapBlockedToHttpException cfg kmo (ck_now ck) c k r effective en1
                        in (gx\<lparr>gx_outcome := Inl x\<rparr>, en2))
                  else (gx\<lparr>gx_rateLimit := Some (toRateLimitInfo effective r req)\<rparr>, en1)))"

text \<open>Named skips skip everything, too.\<close>

definition skips_all :: "skip_meta \<Rightarrow> bool" where
  "skips_all m = (case m of SkipTrue \<Rightarrow> True | SkipNames ns \<Rightarrow> ns \<noteq> [] | _ \<Rightarrow> False)"

definition canActivate ::
  "'s store_ops \<Rightarrow> 's draft_method \<Rightarrow> 'k km_methods \<Rightarrow> ('c, 'q) nest_guard_config \<Rightarrow> clock \<Rightarrow> ('c, 'q) nest_context \<Rightarrow>
   ('s, 'k, 'q) nest_guard_state \<Rightarrow> guard_exchange \<times> ('s, 'k, 'q) nest_guard_state" where
  "canActivate ops dm kmo cfg ck ctx g =
     (case (case gc_skip cfg of Some f \<Rightarrow> f (nc_context ctx) | None \<Rightarrow> Inr False) of
        Inl e \<Rightarrow> (guard_fails e, g)
      | Inr True \<Rightarrow> (guard_open, g)
      | Inr False \<Rightarrow>
          if skips_all (nc_skipMeta ctx) then (guard_open, g)
          else case getRequestResponse cfg ctx of
                 Inl e \<Rightarrow> (guard_fails e, g)
               | Inr (req, takes) \<Rightarrow>
                   (let route = isPlainRouteLimitOptions (nc_routeMeta ctx)
                    in case mergeRouteIntoOptions (gc_production cfg) (gc_resolved cfg) (gc_costKind cfg) route of
                         Inl e \<Rightarrow> (guard_fails e, g)
                       | Inr (effective, ic) \<Rightarrow>
                           (let fp = fingerprintRouteEngineOptions (gc_store cfg) (gc_keyManager cfg) ic effective;
                                (ch, g1) = getEngineForRoute ctx route fp g
                            in case resolveKey cfg ctx req route of
                                 Inl e \<Rightarrow> (guard_fails e, g1)
                               | Inr k \<Rightarrow>
                                   (let (gx, en) = guard_consumes ops dm kmo cfg ck (nc_context ctx) req takes k effective (engine_for ch g1)
                                    in (gx, put_engine ch en g1)))))"

section \<open>Shutdown (rate-limit-module-lifecycle.ts)\<close>

text \<open>The key managers the module destroys.\<close>

definition lifecycle_onModuleDestroy :: "'q nest_init \<Rightarrow> nat list \<Rightarrow> nat list" where
  "lifecycle_onModuleDestroy i destroyed =
     (case ni_keyManager i of
        Some km \<Rightarrow> if ni_disposeKeyManagerOnDestroy i then destroyed @ [km] else destroyed
      | None \<Rightarrow> destroyed)"

end
