(* ===== verification/Nest_Properties.thy ===== *)
theory Nest_Properties
  imports Nest_Guard Http_Properties
begin

text \<open>
  Properties of the NestJS guard: on a handler without route options it answers as the Express
  middleware does; the window of a route changes neither the decision nor the engine; the shield of the
  module keeps a route below its own quota.
\<close>

section \<open>The guard and Express\<close>

lemma apply_agree:
  "map_of res n = map_of res' n \<Longrightarrow> map_of (applyHeaderMap hs res) n = map_of (applyHeaderMap hs res') n"
proof (induction hs arbitrary: res res')
  case (Cons h hs)
  have "map_of (AList.update (fst h) (snd h) res) n = map_of (AList.update (fst h) (snd h) res') n"
    using Cons.prems by (simp add: update_conv' fun_upd_def)
  from Cons.IH [OF this] show ?case by (simp add: applyHeaderMap_def case_prod_beta)
qed (simp add: applyHeaderMap_def)

lemma guard_headers_express:
  "fst (guard_headers mo now req True r) = fst (write_quota_headers mo now req r [])"
  "n \<noteq> ''X-RateLimit-Store'' \<Longrightarrow> map_of (snd (guard_headers mo now req True r)) n = map_of (snd (write_quota_headers mo now req r [])) n"
proof -
  let ?cfg = "resolveHeaderConfig mo (Some req) (cr_bindingSlotIndex r)"
  define res1 :: header_map where "res1 = (if storeUnavailable r then AList.update ''X-RateLimit-Store'' ''fallback'' [] else [])"
  have last: "map_of (applyHeaderMap [(''X-RateLimit-Store'', v)] res) n = map_of res n" if "n \<noteq> ''X-RateLimit-Store''" for res n v
    using that by (simp add: applyHeaderMap_def update_conv')
  have res1: "map_of res1 n = None" if "n \<noteq> ''X-RateLimit-Store''" for n
    using that by (simp add: res1_def)
  show "fst (guard_headers mo now req True r) = fst (write_quota_headers mo now req r [])"
    by (auto simp: guard_headers_def write_quota_headers_def Let_def split: option.splits sum.splits)
  assume n: "n \<noteq> ''X-RateLimit-Store''"
  have b1: "map_of (applyHeaderMap hs []) n = map_of (applyHeaderMap hs res1) n" for hs
    by (rule apply_agree) (simp add: res1 [OF n])
  then have b2: "map_of (applyHeaderMap l (applyHeaderMap hs [])) n = map_of (applyHeaderMap l (applyHeaderMap hs res1)) n" for l hs
    by (rule apply_agree)
  show "map_of (snd (guard_headers mo now req True r)) n = map_of (snd (write_quota_headers mo now req r [])) n"
    using b1 b2 last [OF n] res1 [OF n]
    unfolding guard_headers_def write_quota_headers_def Let_def res1_def [symmetric]
    by (auto split: option.splits sum.splits if_splits)
qed

lemma finish_cause:
  assumes "finish_consume ops dm eo ck k req incOpts x en = (Inr r, en1)"
  shows "cr_blockReason r \<noteq> Some CauseKeyManager"
proof (cases x)
  case (fields r0 blockedAt slot)
  have t: "cr_blockReason (to_consume r0 c d s) = c" for r0 c d s by (simp add: to_consume_def rl_result.defs)
  show ?thesis using assms
    by (auto simp: finish_consume_def fields draft_result_def t Let_def split: if_splits prod.splits sum.splits)
qed

lemma consume_cause:
  assumes "consumeWithKey ops dm kmo eo ck k req en = (Inr r, en1)" "en_km en = None"
  shows "cr_blockReason r \<noteq> Some CauseKeyManager"
proof -
  let ?en = "maybeSweepExpiredPenaltyEntries (ck_now ck) en"
  have t: "cr_blockReason (to_consume r0 c d s) = c" for r0 c d s by (simp add: to_consume_def rl_result.defs)
  have pass: "cr_blockReason (buildPassthroughResult eo (ck_now ck) req) = None" by (simp add: buildPassthroughResult_def t)
  have pol: "cr_blockReason (buildPolicyBlockResult eo (ck_now ck) req c pk e) = Some c" for c pk e
    by (simp add: buildPolicyBlockResult_def t Let_def)
  have km: "km_check kmo (ck_now ck) k ?en = (False, ?en)" using assms(2) by (simp add: km_check_def)
  show ?thesis using assms(1) unfolding consumeWithKey_def Let_def km
    by (auto simp: pass pol finish_cause split: if_splits prod.splits sum.splits bool.splits dest: finish_cause)
qed

text \<open>What an application can see of an answer. The guard writes \<open>X-RateLimit-Store\<close> last, and not at all
  when the formatter fails.\<close>

definition same_answer :: "guard_exchange \<Rightarrow> exchange \<Rightarrow> bool" where
  "same_answer gx ex \<longleftrightarrow>
     (\<forall>n. n \<noteq> ''X-RateLimit-Store'' \<longrightarrow> map_of (gx_headers gx) n = map_of (ex_headers ex) n) \<and>
     gx_composed gx = ex_composed ex \<and> gx_rateLimit gx = ex_rateLimit ex \<and>
     (case gx_outcome gx of
        Inr pass \<Rightarrow> pass \<and> ex_flow ex = Continue
      | Inl (HttpEx status body) \<Rightarrow> ex_flow ex = Replied \<and> ex_status ex = status \<and> ex_body ex = Some body
      | Inl (OtherEx e) \<Rightarrow> ex_flow ex = Failed e)"

lemma guard_consumes_express:
  assumes "gc_errorFactory cfg = None" "eo_onLimitReached (mo_engine mo) = False" "mo_onLimitReached mo = None"
    and "mo_message mo = None \<or> (\<exists>s. mo_message mo = Some (JString s))" "en_km en = None" "keyGen req = Inr k"
  shows "let (gx, en1) = guard_consumes ops dm kmo cfg ck c req True k mo en;
             (ex, en2) = express_request ops dm kmo mo keyGen ck req en
         in en1 = en2 \<and> same_answer gx ex"
proof -
  have eo: "engine_of mo = mo_engine mo" using assms(2) by (simp add: engine_of_def)
  show ?thesis
  proof (cases "consumeWithKey ops dm kmo (mo_engine mo) ck k req en")
    case (Pair x en1)
    show ?thesis
    proof (cases x)
      case (Inl e)
      then show ?thesis using Pair assms(6)
        by (simp add: guard_consumes_def express_request_def eo same_answer_def guard_fails_def guard_open_def new_exchange_def)
    next
      case (Inr r)
      have cause: "cr_blockReason r \<noteq> Some CauseKeyManager" using consume_cause [OF Pair [unfolded Inr] assms(5)] .
      obtain e1 h1 where g: "guard_headers mo (ck_now ck) req True r = (e1, h1)" by fastforce
      obtain e2 h2 where w: "write_quota_headers mo (ck_now ck) req r [] = (e2, h2)" by fastforce
      have e: "e2 = e1" and h: "\<And>n. n \<noteq> ''X-RateLimit-Store'' \<Longrightarrow> map_of h1 n = map_of h2 n"
        using guard_headers_express [where mo = mo and now = "ck_now ck" and req = req and r = r] by (auto simp: g w)
      have blocked: "let (x, en2) = mapBlockedToHttpException cfg kmo (ck_now ck) c k r mo en1;
            (ex, en3) = reply_blocked kmo mo (ck_now ck) k req r ex0 en1
          in en2 = en3 \<and> ex_headers ex = ex_headers ex0 \<and> ex_composed ex = ex_composed ex0 \<and> ex_rateLimit ex = ex_rateLimit ex0 \<and>
             (\<exists>status body. x = HttpEx status body \<and> ex_flow ex = Replied \<and> ex_status ex = status \<and> ex_body ex = Some body)" for ex0
        using assms(1,3,4) cause
        by (auto simp: mapBlockedToHttpException_def reply_blocked_def limit_callback_def blocked_status_def applyErrorFactory_def
            opt_or_def Let_def)
      show ?thesis
        using Pair Inr assms(6) e h blocked [of "new_exchange\<lparr>ex_headers := h2, ex_composed := (if res_layers r = None then None else Some r)\<rparr>"]
        by (cases e1)
          (auto simp: guard_consumes_def express_request_def eo g w same_answer_def guard_open_def new_exchange_def Let_def
            split: prod.splits)
    qed
  qed
qed

text \<open>(C33) On a handler without route options, over HTTP, the guard answers as the Express middleware with
  the same options does: it lets the request through exactly when Express goes on, with the same quota
  attached; otherwise it throws the status and the body Express replies with; the headers are the same
  but for \<open>X-RateLimit-Store\<close>, and the engines are left in the same state. This is for a module without
  callbacks of its own (\<open>skip\<close>, \<open>keyGenerator\<close>, \<open>errorFactory\<close>), without \<open>onLimitReached\<close> and without a key manager,
  whose \<open>message\<close> is absent or a string.\<close>

theorem nest_matches_express:
  assumes "gc_skip cfg = None" "\<not> skips_all (nc_skipMeta ctx)" "isPlainRouteLimitOptions (nc_routeMeta ctx) = None"
    and "getRequestResponse cfg ctx = Inr (req, True)" "gc_keyGenerator cfg = None" "gc_errorFactory cfg = None"
    and "eo_onLimitReached (mo_engine (gc_resolved cfg)) = False" "mo_onLimitReached (gc_resolved cfg) = None"
    and "mo_message (gc_resolved cfg) = None \<or> (\<exists>s. mo_message (gc_resolved cfg) = Some (JString s))"
    and "en_km (gs_engine g) = None"
  shows "let (gx, g1) = canActivate ops dm kmo cfg ck ctx g;
             (ex, en1) = express_request ops dm kmo (gc_resolved cfg) (gc_baseKeyGenerator cfg) ck req (gs_engine g)
         in g1 = g\<lparr>gs_engine := en1\<rparr> \<and> same_answer gx ex"
proof (cases "gc_baseKeyGenerator cfg req")
  case (Inl e)
  then show ?thesis using assms(1-5)
    by (simp add: canActivate_def mergeRouteIntoOptions_def getEngineForRoute_def resolveKey_def express_request_def
        same_answer_def guard_fails_def guard_open_def new_exchange_def Let_def)
next
  case (Inr k)
  from guard_consumes_express [where keyGen = "gc_baseKeyGenerator cfg" and req = req, OF assms(6-10) Inr, of ops dm kmo ck "nc_context ctx"] show ?thesis
    using assms(1-5) Inr
    by (auto simp: canActivate_def mergeRouteIntoOptions_def getEngineForRoute_def resolveKey_def engine_for_def put_engine_def
        Let_def split: prod.splits)
qed

section \<open>The window of a route\<close>

lemma format_error:
  "formatRateLimitHeaders i fmt inc now = Inl e \<Longrightarrow> formatRateLimitHeaders i' fmt inc now = Inl e"
  by (auto simp: formatRateLimitHeaders_def profile_headers_def split: if_splits)

lemma guard_headers_window:
  "fst (guard_headers (mo\<lparr>mo_windowMs := x\<rparr>) now req takes r) = fst (guard_headers (mo\<lparr>mo_windowMs := y\<rparr>) now req takes r)"
proof -
  let ?c = "\<lambda>x. resolveHeaderConfig (mo\<lparr>mo_windowMs := x\<rparr>) (Some req) (cr_bindingSlotIndex r)"
  have c: "rhc_format (?c x) = rhc_format (?c y)" "rhc_includeLegacy (?c x) = rhc_includeLegacy (?c y)"
    by (cases "mo_standardHeaders mo"; simp add: resolveHeaderConfig_def header_profile_def Let_def case_prod_beta)+
  show ?thesis
  proof (cases "rhc_format (?c y)")
    case (Some fmt)
    have f: "formatRateLimitHeaders (header_input_of (?c x) r) fmt inc now = Inl e \<longleftrightarrow>
        formatRateLimitHeaders (header_input_of (?c y) r) fmt inc now = Inl e" for inc e
      using format_error by blast
    let ?f = "\<lambda>x. formatRateLimitHeaders (header_input_of (?c x) r) fmt (rhc_includeLegacy (?c y)) now"
    show ?thesis
    proof (cases "?f x")
      case (Inl e)
      then have "?f y = Inl e" using f by blast
      with Inl show ?thesis by (simp add: guard_headers_def Let_def c Some)
    next
      case (Inr o1)
      moreover have "?f y \<noteq> Inl e" for e using f Inr by (metis sum.distinct(1))
      then obtain o2 where "?f y = Inr o2" by (cases "?f y") auto
      ultimately show ?thesis by (simp add: guard_headers_def Let_def c Some)
    qed
  qed (simp add: guard_headers_def c)
qed

lemma guard_consumes_window:
  "let run = \<lambda>x. guard_consumes ops dm kmo cfg ck c req takes k (mo\<lparr>mo_windowMs := x\<rparr>) en
   in snd (run x) = snd (run y) \<and> gx_outcome (fst (run x)) = gx_outcome (fst (run y)) \<and>
      gx_rateLimit (fst (run x)) = gx_rateLimit (fst (run y))"
proof (cases "consumeWithKey ops dm kmo (mo_engine mo) ck k req en")
  case (Pair res en1)
  show ?thesis
  proof (cases res)
    case (Inl e)
    then show ?thesis by (simp add: guard_consumes_def Pair)
  next
    case (Inr r)
    obtain e h1 where h1: "guard_headers (mo\<lparr>mo_windowMs := x\<rparr>) (ck_now ck) req takes r = (e, h1)" by fastforce
    obtain e' h2 where h2: "guard_headers (mo\<lparr>mo_windowMs := y\<rparr>) (ck_now ck) req takes r = (e', h2)" by fastforce
    have "e' = e" using guard_headers_window [where mo = mo and x = x and y = y and now = "ck_now ck" and req = req and takes = takes and r = r] by (simp add: h1 h2)
    moreover have "keyManagerBlockedJson kmo (mo\<lparr>mo_windowMs := z\<rparr>) now k en1 = keyManagerBlockedJson kmo mo now k en1" for now z
      by (simp add: keyManagerBlockedJson_def)
    then have "mapBlockedToHttpException cfg kmo now c k r (mo\<lparr>mo_windowMs := z\<rparr>) en1 =
        mapBlockedToHttpException cfg kmo now c k r mo en1" for now z
      by (auto simp: mapBlockedToHttpException_def Let_def)
    ultimately show ?thesis
      by (cases e) (simp_all add: guard_consumes_def Pair Inr h1 h2 Let_def toRateLimitInfo_def case_prod_beta)
  qed
qed

lemma merge_route_window:
  assumes "isWindowOpts (mo_engine base)"
  shows "mergeRouteIntoOptions production base ic (Some (ro\<lparr>ro_windowMs := Some (Some w)\<rparr>)) =
    map_sum id (\<lambda>(m, c). (m\<lparr>mo_windowMs := Some w\<rparr>, c)) (mergeRouteIntoOptions production base ic (Some (ro\<lparr>ro_windowMs := None\<rparr>)))"
  using assms
  by (auto simp: mergeRouteIntoOptions_def assertNoConflictingDecoratorStrategy_def Let_def
      split: option.split sum.split prod.split)

definition route_window :: "('c, 'q) route_options \<Rightarrow> int \<Rightarrow> ('c, 'q) route_options" where
  "route_window ro w = ro\<lparr>ro_windowMs := Some (Some w)\<rparr>"

lemma fresh_engine:
  assumes "getEngineForRoute ctx (Some ro) fp g = (ch, g1)" "\<forall>h. nc_handler ctx = Some h \<longrightarrow> map_of (gs_routes g) h = None"
  shows "gs_engine g1 = gs_engine g" "engine_for ch g1 = with_private fresh_private (gs_engine g)"
    "gs_engine (put_engine ch en g1) = with_private (private_of (gs_engine g)) en"
  using assms by (auto simp: getEngineForRoute_def engine_for_def put_engine_def split: option.splits)

lemma context_route [simp]:
  "getRequestResponse cfg (ctx\<lparr>nc_routeMeta := m\<rparr>) = getRequestResponse cfg ctx"
  "resolveKey cfg (ctx\<lparr>nc_routeMeta := m\<rparr>) req route = resolveKey cfg ctx req route"
  by (cases "gc_getRequestResponse cfg"; cases "nc_transport ctx"; simp add: getRequestResponse_def)
    (simp add: resolveKey_def split: option.split)

lemma context_skip:
  "(case gc_skip cfg of Some f \<Rightarrow> f (nc_context (ctx\<lparr>nc_routeMeta := m\<rparr>)) | None \<Rightarrow> Inr False) =
   (case gc_skip cfg of Some f \<Rightarrow> f (nc_context ctx) | None \<Rightarrow> Inr False)"
  by (simp split: option.split)

lemma route_window_fields [simp]:
  "isPlainRouteLimitOptions (MetaObject (route_window ro w)) = Some (route_window ro w)"
  "resolveKey cfg ctx req (Some (route_window ro w)) = resolveKey cfg ctx req (Some ro)"
  by (simp_all add: isPlainRouteLimitOptions_def resolveKey_def route_window_def)

text \<open>A request on a handler without an engine: it runs on a fresh engine over the shared state.\<close>

lemma canActivate_fresh_handler:
  assumes "(case gc_skip cfg of Some f \<Rightarrow> f (nc_context ctx) | None \<Rightarrow> Inr False) = Inr False" "\<not> skips_all (nc_skipMeta ctx)"
    and "getRequestResponse cfg ctx = Inr (req, takes)" "isPlainRouteLimitOptions meta = Some ro"
    and "mergeRouteIntoOptions (gc_production cfg) (gc_resolved cfg) (gc_costKind cfg) (Some ro) = Inr (eff, ic)"
    and "\<forall>h. nc_handler ctx = Some h \<longrightarrow> map_of (gs_routes g) h = None"
  obtains g1 put where
    "canActivate ops dm kmo cfg ck (ctx\<lparr>nc_routeMeta := meta\<rparr>) g =
       (case resolveKey cfg ctx req (Some ro) of
          Inl e \<Rightarrow> (guard_fails e, g1)
        | Inr k \<Rightarrow> (let (gx, en) = guard_consumes ops dm kmo cfg ck (nc_context ctx) req takes k eff (with_private fresh_private (gs_engine g))
                     in (gx, put en)))"
    "gs_engine g1 = gs_engine g" "\<forall>en. gs_engine (put en) = with_private (private_of (gs_engine g)) en"
proof -
  let ?fp = "fingerprintRouteEngineOptions (gc_store cfg) (gc_keyManager cfg) ic eff"
  obtain ch g1 where ge: "getEngineForRoute (ctx\<lparr>nc_routeMeta := meta\<rparr>) (Some ro) ?fp g = (ch, g1)" by fastforce
  have fe: "gs_engine g1 = gs_engine g" "engine_for ch g1 = with_private fresh_private (gs_engine g)"
    "\<forall>en. gs_engine (put_engine ch en g1) = with_private (private_of (gs_engine g)) en"
    using fresh_engine [OF ge] assms(6) by simp_all
  have "canActivate ops dm kmo cfg ck (ctx\<lparr>nc_routeMeta := meta\<rparr>) g =
       (case resolveKey cfg ctx req (Some ro) of
          Inl e \<Rightarrow> (guard_fails e, g1)
        | Inr k \<Rightarrow> (let (gx, en) = guard_consumes ops dm kmo cfg ck (nc_context ctx) req takes k eff (with_private fresh_private (gs_engine g))
                     in (gx, put_engine ch en g1)))"
    using assms(1-5) fe(2) by (simp add: canActivate_def context_skip ge Let_def cong: sum.case_cong)
  with fe show ?thesis using that [of g1 "\<lambda>en. put_engine ch en g1"] by simp
qed

lemma merged_route_announces:
  assumes "isWindowOpts (mo_engine base)" "mo_limitWindows base = []" "eo_grouped (mo_engine base) = []"
    and "mergeRouteIntoOptions production base ic (Some (route_window ro w)) = Inr (eff, ic')"
  shows "resolveWindowMsForHeaders eff slot = w"
proof -
  obtain m where m: "mergeRouteIntoOptions production base ic (Some (ro\<lparr>ro_windowMs := None\<rparr>)) = Inr (m, ic')"
    "eff = m\<lparr>mo_windowMs := Some w\<rparr>"
    using assms(4) merge_route_window [OF assms(1), where production = production and ic = ic and ro = ro and w = w]
    by (cases "mergeRouteIntoOptions production base ic (Some (ro\<lparr>ro_windowMs := None\<rparr>))") (auto simp: route_window_def)
  then have "eo_strategy (mo_engine m) = eo_strategy (mo_engine base)" "mo_limitWindows m = mo_limitWindows base"
    "eo_grouped (mo_engine m) = eo_grouped (mo_engine base)"
    by (auto simp: mergeRouteIntoOptions_def Let_def split: option.splits sum.splits if_splits)
  then show ?thesis using assms(1-3) m(2) by (simp add: resolveWindowMsForHeaders_def isWindowOpts_def opt_or_def)
qed

section \<open>Concrete guards\<close>

definition demo_guard :: "nat mw_options \<Rightarrow> (unit, nat) nest_guard_config" where
  "demo_guard mo =
     \<lparr>gc_resolved = mo, gc_store = 0, gc_keyManager = None, gc_costKind = CostAbsent, gc_production = True, gc_skip = None,
      gc_keyGenerator = None, gc_baseKeyGenerator = demo_key, gc_getRequestResponse = None, gc_errorFactory = None,
      gc_wsRequest = (\<lambda>_. 0)\<rparr>"

definition no_route :: "(unit, nat) route_options" where
  "no_route = \<lparr>ro_maxRequests = None, ro_windowMs = None, ro_cost = None, ro_strategy = None, ro_keyGenerator = None\<rparr>"

definition demo_context :: "nat \<Rightarrow> (unit, nat) route_meta \<Rightarrow> (unit, nat) nest_context" where
  "demo_context h meta =
     \<lparr>nc_context = (), nc_handler = Some h, nc_skipMeta = SkipAbsent, nc_routeMeta = meta, nc_transport = OverHttp (0, True)\<rparr>"

definition demo_state :: "('s, 'k, nat) engine \<Rightarrow> ('s, 'k, nat) nest_guard_state" where
  "demo_state en = \<lparr>gs_engine = en, gs_routes = []\<rparr>"

abbreviation demo_quota :: "nat mw_options" where
  "demo_quota \<equiv> demo_http_options (\<lambda>_. False) False False FIXED_WINDOW"

theorem nest_matches_express_witness:
  "gx_outcome (fst (canActivate mem_ops None (key_manager_methods mem_ops) (demo_guard demo_quota) (demo_clock 0)
     (demo_context 1 MetaAbsent) (demo_state (demo_http_engine FIXED_WINDOW)))) = Inr True"
proof -
  let ?g = "demo_state (demo_http_engine FIXED_WINDOW)"
  let ?x = "express_request mem_ops None (key_manager_methods mem_ops) demo_quota demo_key (demo_clock 0) 0 (demo_http_engine FIXED_WINDOW)"
  have flow: "ex_flow (fst ?x) = Continue" by code_simp
  have h: "gc_skip (demo_guard demo_quota) = None" "\<not> skips_all (nc_skipMeta (demo_context 1 MetaAbsent))"
    "isPlainRouteLimitOptions (nc_routeMeta (demo_context 1 MetaAbsent)) = None"
    "getRequestResponse (demo_guard demo_quota) (demo_context 1 MetaAbsent) = Inr (0, True)" "gc_keyGenerator (demo_guard demo_quota) = None"
    "gc_errorFactory (demo_guard demo_quota) = None" "eo_onLimitReached (mo_engine (gc_resolved (demo_guard demo_quota))) = False"
    "mo_onLimitReached (gc_resolved (demo_guard demo_quota)) = None"
    "mo_message (gc_resolved (demo_guard demo_quota)) = None \<or> (\<exists>s. mo_message (gc_resolved (demo_guard demo_quota)) = Some (JString s))"
    "en_km (gs_engine ?g) = None"
    by (simp_all add: demo_guard_def demo_context_def demo_http_options_def skips_all_def isPlainRouteLimitOptions_def
        getRequestResponse_def demo_state_def demo_http_engine_def new_RateLimitEngine_def)
  from nest_matches_express [OF h, of mem_ops None "key_manager_methods mem_ops" "demo_clock 0"]
  have "same_answer (fst (canActivate mem_ops None (key_manager_methods mem_ops) (demo_guard demo_quota) (demo_clock 0)
     (demo_context 1 MetaAbsent) ?g)) (fst ?x)"
    by (simp add: case_prod_beta Let_def demo_guard_def demo_state_def)
  with flow show ?thesis by (auto simp: same_answer_def split: sum.splits thrown.splits)
qed

section \<open>Where the guard falls short\<close>

text \<open>The shield of the module blocks at the module's quota: a route that allows five requests is cut off
  after the first when the module allows one.\<close>

lemma shield_cuts_route:
  "let ops = shield_ops mem_ops;
       st = (case new_InMemoryShield (new_MemoryStore (WindowOptions FIXED_WINDOW (js_int 1000) (js_int 1)) None None)
               \<lparr>opt_blockOnConsumed = js_int 1, opt_blockDurationMs = js_int 1000, opt_maxBlockedKeys = Undefined,
                opt_sweepIntervalMs = Undefined\<rparr> of Inr s \<Rightarrow> s);
       ctx = demo_context 1 (MetaObject (no_route\<lparr>ro_maxRequests := Some (js_int 5)\<rparr>));
       km = \<lparr>kmi_isBlocked = (\<lambda>_ _ k. (False, k)), kmi_getBlockInfo = (\<lambda>_ _ k. (None, k))\<rparr>;
       (gx1, g1) = canActivate ops None km (demo_guard demo_quota) (demo_clock 0) ctx (demo_state (new_RateLimitEngine False (None :: unit option) (\<lambda>_. st)));
       (gx2, g2) = canActivate ops None km (demo_guard demo_quota) (demo_clock 1) ctx g1
   in gx_outcome gx1 = Inr True \<and> isl (gx_outcome gx2)"
  by code_simp

text \<open>Penalties are kept per handler: a client that is banned on one decorated route is served on another
  one (and on every handler without options).\<close>

lemma penalty_per_handler:
  "let mo = demo_quota\<lparr>mo_engine := (mo_engine demo_quota)\<lparr>eo_penaltyBox := Some \<lparr>pb_violationsThreshold = js_int 1,
         pb_violationWindowMs = js_int 60000, pb_penaltyDurationMs = js_int 60000, pb_onPenalty = False\<rparr>\<rparr>\<rparr>;
       ask = (\<lambda>t h g. canActivate mem_ops None (key_manager_methods mem_ops) (demo_guard mo) (demo_clock t)
                (demo_context h (MetaObject (no_route\<lparr>ro_maxRequests := Some (js_int 1)\<rparr>))) g);
       (gx1, g1) = ask 0 1 (demo_state (demo_http_engine FIXED_WINDOW)); (gx2, g2) = ask 1 1 g1;
       (gx3, g3) = ask 5000 1 g2; (gx4, g4) = ask 5001 2 g3
   in gx_outcome gx1 = Inr True \<and> isl (gx_outcome gx2) \<and> isl (gx_outcome gx3) \<and> gx_outcome gx4 = Inr True"
  by code_simp

end
