(* ===== verification/Nest_Run.thy ===== *)
theory Nest_Run
  imports Nest_Properties
begin

text \<open>
  Runs of requests through one NestJS guard, and two such runs side by side that differ in the window a
  handler's \<open>@RateLimit\<close> gives: they stay alike in everything but the announced window.
\<close>

text \<open>Requests one after the other, and what a handler's \<open>@RateLimit\<close> says.\<close>

primrec guard_run ::
  "'s store_ops \<Rightarrow> 's draft_method \<Rightarrow> 'k km_methods \<Rightarrow> ('c, 'q) nest_guard_config \<Rightarrow> (clock \<times> ('c, 'q) nest_context) list \<Rightarrow>
   ('s, 'k, 'q) nest_guard_state \<Rightarrow> guard_exchange list \<times> ('s, 'k, 'q) nest_guard_state" where
  "guard_run ops dm kmo cfg [] g = ([], g)"
| "guard_run ops dm kmo cfg (x # xs) g =
     (let (gx, g1) = canActivate ops dm kmo cfg (fst x) (snd x) g; (gxs, g2) = guard_run ops dm kmo cfg xs g1
      in (gx # gxs, g2))"

definition decorated :: "nat \<Rightarrow> ('c, 'q) route_options \<Rightarrow> ('c, 'q) nest_context \<Rightarrow> ('c, 'q) nest_context" where
  "decorated h ro ctx = (if nc_handler ctx = Some h then ctx\<lparr>nc_routeMeta := RateLimit_meta ro\<rparr> else ctx)"

text \<open>A request on which the engine decided: let through with a quota attached, or thrown out.\<close>

definition decided :: "guard_exchange \<Rightarrow> bool" where
  "decided gx \<longleftrightarrow> gx_rateLimit gx \<noteq> None \<or> (\<exists>status body. gx_outcome gx = Inl (HttpEx status body))"

text \<open>Two guards that differ in the fingerprint of one handler's engine.\<close>

definition differ_at :: "nat \<Rightarrow> fingerprint \<Rightarrow> fingerprint \<Rightarrow> ('s, 'k, 'q) nest_guard_state \<Rightarrow> ('s, 'k, 'q) nest_guard_state \<Rightarrow> bool" where
  "differ_at h fp1 fp2 g1 g2 \<longleftrightarrow>
     gs_engine g1 = gs_engine g2 \<and>
     (\<forall>h'. h' \<noteq> h \<longrightarrow> map_of (gs_routes g1) h' = map_of (gs_routes g2) h') \<and>
     (case map_of (gs_routes g1) h of
        None \<Rightarrow> map_of (gs_routes g2) h = None
      | Some (fp, p) \<Rightarrow> fp = fp1 \<and> map_of (gs_routes g2) h = Some (fp2, p))"

lemma differ_engine:
  assumes "differ_at h fp1 fp2 g1 g2"
    and "if nc_handler ctx = Some h then route \<noteq> None \<and> fa = fp1 \<and> fb = fp2 else fa = fb"
    and "getEngineForRoute ctx route fa g1 = (ch, g1')"
  obtains g2' where "getEngineForRoute ctx route fb g2 = (ch, g2')" "engine_for ch g1' = engine_for ch g2'"
    "\<And>en. differ_at h fp1 fp2 (put_engine ch en g1') (put_engine ch en g2')" "differ_at h fp1 fp2 g1' g2'"
proof -
  obtain ch2 g2' where 2: "getEngineForRoute ctx route fb g2 = (ch2, g2')" by fastforce
  show ?thesis
  proof (rule that [of g2'])
    show "getEngineForRoute ctx route fb g2 = (ch, g2')" "engine_for ch g1' = engine_for ch g2'" "differ_at h fp1 fp2 g1' g2'"
      using assms 2
      by (auto simp: getEngineForRoute_def differ_at_def engine_for_def update_conv' split: option.splits if_splits prod.splits)
    show "differ_at h fp1 fp2 (put_engine ch en g1') (put_engine ch en g2')" for en
      using assms 2
      by (auto simp: getEngineForRoute_def differ_at_def put_engine_def update_conv' split: option.splits if_splits prod.splits)
  qed
qed

text \<open>With a draft profile the policy field ends in the window that the options announce.\<close>

definition announces :: "header_map \<Rightarrow> int \<Rightarrow> bool" where
  "announces hs w \<longleftrightarrow> (\<exists>pre. map_of hs ''RateLimit-Policy'' = Some (pre @ '';w='' @ js_show (ceil_seconds w)))"

lemma legacy_keeps_policy:
  "map_of (applyHeaderMap (legacyHeaderMap i now) res) ''RateLimit-Policy'' = map_of res ''RateLimit-Policy''"
  by (simp add: applyHeaderMap_def legacyHeaderMap_def retry_after_def update_conv')

lemma draft_policy:
  assumes "fmt \<in> {''draft-6'', ''draft-7'', ''draft-8''}" "formatRateLimitHeaders i fmt inc now = Inr out"
  shows "announces (applyHeaderMap (ho_headers out) []) (hi_windowMs i)"
    "ho_legacyHeaders out = (if inc then Some (legacyHeaderMap i now) else None)"
proof -
  consider "ho_headers out = draft6Headers i now" | "ho_headers out = draft7Headers i now" | "ho_headers out = draft8Headers i now"
    using assms by (auto simp: formatRateLimitHeaders_def profile_headers_def)
  then show "announces (applyHeaderMap (ho_headers out) []) (hi_windowMs i)"
  proof cases
    case 1
    show ?thesis unfolding announces_def
      by (rule exI [of _ "js_show (hi_limit i)"]) (simp add: 1 applyHeaderMap_def draft6Headers_def retry_after_def Let_def)
  next
    case 2
    show ?thesis unfolding announces_def
      by (rule exI [of _ "js_show (hi_limit i)"]) (simp add: 2 applyHeaderMap_def draft7Headers_def retry_after_def Let_def)
  next
    case 3
    show ?thesis unfolding announces_def
      by (rule exI [of _ "quoted (sanitizeIdentifierFor8941 (hi_identifier i)) @ '';q='' @ js_show (hi_limit i)"])
        (simp add: 3 applyHeaderMap_def draft8Headers_def retry_after_def Let_def)
  qed
  show "ho_legacyHeaders out = (if inc then Some (legacyHeaderMap i now) else None)"
    using assms by (auto simp: formatRateLimitHeaders_def profile_headers_def)
qed

lemma guard_announces:
  assumes "header_profile mo = (Some fmt, inc)" "fmt \<in> {''draft-6'', ''draft-7'', ''draft-8''}"
  shows "announces (snd (guard_headers mo now req True r)) (resolveWindowMsForHeaders mo (cr_bindingSlotIndex r))"
proof -
  let ?c = "resolveHeaderConfig mo (Some req) (cr_bindingSlotIndex r)"
  have c: "rhc_format ?c = Some fmt" "rhc_includeLegacy ?c = inc" "rhc_resolvedWindowMs ?c = resolveWindowMsForHeaders mo (cr_bindingSlotIndex r)"
    using assms(1) by (simp_all add: resolveHeaderConfig_def Let_def)
  obtain out where f: "formatRateLimitHeaders (header_input_of ?c r) fmt inc now = Inr out"
    using assms(2) by (auto simp: formatRateLimitHeaders_def profile_headers_def)
  have w: "hi_windowMs (header_input_of ?c r) = resolveWindowMsForHeaders mo (cr_bindingSlotIndex r)"
    by (simp add: header_input_of_def c)
  have last: "announces (applyHeaderMap [(''X-RateLimit-Store'', v)] res) x = announces res x" for v res x
    by (simp add: announces_def applyHeaderMap_def update_conv')
  have legacy: "announces (applyHeaderMap (legacyHeaderMap i now) res) x = announces res x" for i res x
    by (simp add: announces_def legacy_keeps_policy)
  note p = draft_policy [OF assms(2) f, unfolded w]
  have "fmt \<noteq> ''''" using assms(2) by auto
  with p show ?thesis by (simp add: guard_headers_def c f Let_def last legacy)
qed

lemma consumes_announces:
  assumes "header_profile mo = (Some fmt, inc)" "fmt \<in> {''draft-6'', ''draft-7'', ''draft-8''}"
    and "\<And>slot. resolveWindowMsForHeaders mo slot = w"
    and "guard_consumes ops dm kmo cfg ck c req True k mo en = (gx, en')" "decided gx"
  shows "announces (gx_headers gx) w"
proof (cases "consumeWithKey ops dm kmo (mo_engine mo) ck k req en")
  case (Pair x en1)
  show ?thesis
  proof (cases x)
    case (Inl e)
    then show ?thesis using assms(4,5) Pair by (auto simp: guard_consumes_def decided_def guard_fails_def guard_open_def)
  next
    case (Inr r)
    have "announces (snd (guard_headers mo (ck_now ck) req True r)) w"
      using guard_announces [OF assms(1,2), of "ck_now ck" req r] assms(3) by simp
    moreover have "gx_headers gx = snd (guard_headers mo (ck_now ck) req True r)"
      using assms(4) Pair Inr by (auto simp: guard_consumes_def Let_def split: prod.splits option.splits if_splits)
    ultimately show ?thesis by simp
  qed
qed

lemma decorated_fields [simp]:
  "nc_context (decorated h ro ctx) = nc_context ctx" "nc_skipMeta (decorated h ro ctx) = nc_skipMeta ctx"
  "nc_handler (decorated h ro ctx) = nc_handler ctx"
  "getRequestResponse cfg (decorated h ro ctx) = getRequestResponse cfg ctx"
  "resolveKey cfg (decorated h ro ctx) req route = resolveKey cfg ctx req route"
  by (simp_all add: decorated_def)

lemma canActivate_decides:
  assumes "(case gc_skip cfg of Some f \<Rightarrow> f (nc_context ctx) | None \<Rightarrow> Inr False) = Inr False" "\<not> skips_all (nc_skipMeta ctx)"
    and "getRequestResponse cfg ctx = Inr (req, takes)" "route = isPlainRouteLimitOptions (nc_routeMeta ctx)"
    and "mergeRouteIntoOptions (gc_production cfg) (gc_resolved cfg) (gc_costKind cfg) route = Inr (eff, ic)"
    and "getEngineForRoute ctx route (fingerprintRouteEngineOptions (gc_store cfg) (gc_keyManager cfg) ic eff) g = (ch, g1)"
  shows "canActivate ops dm kmo cfg ck ctx g =
    (case resolveKey cfg ctx req route of
       Inl e \<Rightarrow> (guard_fails e, g1)
     | Inr k \<Rightarrow> (let (gx, en) = guard_consumes ops dm kmo cfg ck (nc_context ctx) req takes k eff (engine_for ch g1)
                  in (gx, put_engine ch en g1)))"
  using assms by (simp add: canActivate_def Let_def)

lemma canActivate_refuses:
  assumes "(case gc_skip cfg of Some f \<Rightarrow> f (nc_context ctx) | None \<Rightarrow> Inr False) \<noteq> Inr False \<or> skips_all (nc_skipMeta ctx) \<or>
      (\<exists>e. getRequestResponse cfg ctx = Inl e) \<or>
      (\<exists>e. mergeRouteIntoOptions (gc_production cfg) (gc_resolved cfg) (gc_costKind cfg) (isPlainRouteLimitOptions (nc_routeMeta ctx)) = Inl e)"
  shows "snd (canActivate ops dm kmo cfg ck ctx g) = g" "\<not> decided (fst (canActivate ops dm kmo cfg ck ctx g))"
    "fst (canActivate ops dm kmo cfg ck ctx g) = fst (canActivate ops dm kmo cfg ck ctx g')"
  using assms
  by (cases "case gc_skip cfg of Some f \<Rightarrow> f (nc_context ctx) | None \<Rightarrow> Inr False";
      auto simp: canActivate_def decided_def guard_fails_def guard_open_def split: sum.split bool.split prod.split)+

text \<open>The fingerprint of a handler's engine: \<open>mergeRouteIntoOptions\<close> fails for all windows or for none.\<close>

definition route_fingerprint :: "('c, 'q) nest_guard_config \<Rightarrow> ('c, 'q) route_options \<Rightarrow> int \<Rightarrow> fingerprint option" where
  "route_fingerprint cfg ro w =
     (case mergeRouteIntoOptions (gc_production cfg) (gc_resolved cfg) (gc_costKind cfg) (Some (route_window ro w)) of
        Inl _ \<Rightarrow> None
      | Inr (eff, ic) \<Rightarrow> Some (fingerprintRouteEngineOptions (gc_store cfg) (gc_keyManager cfg) ic eff))"

definition same_decision :: "guard_exchange \<Rightarrow> guard_exchange \<Rightarrow> bool" where
  "same_decision gx1 gx2 \<longleftrightarrow> gx_outcome gx1 = gx_outcome gx2 \<and> gx_rateLimit gx1 = gx_rateLimit gx2"

lemma guard_step_other:
  assumes rel: "differ_at h fp1 fp2 g1 g2" and other: "nc_handler ctx \<noteq> Some h"
  shows "fst (canActivate ops dm kmo cfg ck ctx g1) = fst (canActivate ops dm kmo cfg ck ctx g2)"
    "differ_at h fp1 fp2 (snd (canActivate ops dm kmo cfg ck ctx g1)) (snd (canActivate ops dm kmo cfg ck ctx g2))"
proof -
  let ?route = "isPlainRouteLimitOptions (nc_routeMeta ctx)"
  let ?stops = "(case gc_skip cfg of Some f \<Rightarrow> f (nc_context ctx) | None \<Rightarrow> Inr False) \<noteq> Inr False \<or> skips_all (nc_skipMeta ctx) \<or>
      (\<exists>e. getRequestResponse cfg ctx = Inl e) \<or>
      (\<exists>e. mergeRouteIntoOptions (gc_production cfg) (gc_resolved cfg) (gc_costKind cfg) ?route = Inl e)"
  have "fst (canActivate ops dm kmo cfg ck ctx g1) = fst (canActivate ops dm kmo cfg ck ctx g2) \<and>
    differ_at h fp1 fp2 (snd (canActivate ops dm kmo cfg ck ctx g1)) (snd (canActivate ops dm kmo cfg ck ctx g2))"
  proof (cases ?stops)
    case True
    show ?thesis using canActivate_refuses [OF True] rel by metis
  next
    case False
    then obtain req takes eff ic where go: "(case gc_skip cfg of Some f \<Rightarrow> f (nc_context ctx) | None \<Rightarrow> Inr False) = Inr False"
      "\<not> skips_all (nc_skipMeta ctx)" "getRequestResponse cfg ctx = Inr (req, takes)"
      "mergeRouteIntoOptions (gc_production cfg) (gc_resolved cfg) (gc_costKind cfg) ?route = Inr (eff, ic)"
      by (cases "getRequestResponse cfg ctx"; cases "mergeRouteIntoOptions (gc_production cfg) (gc_resolved cfg) (gc_costKind cfg) ?route") auto
    let ?fp = "fingerprintRouteEngineOptions (gc_store cfg) (gc_keyManager cfg) ic eff"
    obtain ch g1' where e1: "getEngineForRoute ctx ?route ?fp g1 = (ch, g1')" by fastforce
    from differ_engine [OF rel _ e1, of ?fp] other obtain g2' where e2: "getEngineForRoute ctx ?route ?fp g2 = (ch, g2')"
      "engine_for ch g1' = engine_for ch g2'" "\<And>en. differ_at h fp1 fp2 (put_engine ch en g1') (put_engine ch en g2')" "differ_at h fp1 fp2 g1' g2'"
      by auto
    show ?thesis
      using e2(2-4) canActivate_decides [OF go(1-3) refl go(4) e1, of ops dm kmo ck] canActivate_decides [OF go(1-3) refl go(4) e2(1), of ops dm kmo ck]
      by (cases "resolveKey cfg ctx req ?route") (simp_all add: case_prod_beta Let_def)
  qed
  then show "fst (canActivate ops dm kmo cfg ck ctx g1) = fst (canActivate ops dm kmo cfg ck ctx g2)"
    "differ_at h fp1 fp2 (snd (canActivate ops dm kmo cfg ck ctx g1)) (snd (canActivate ops dm kmo cfg ck ctx g2))" by blast+
qed

lemma header_profile_update:
  "header_profile (mo\<lparr>mo_windowMs := x\<rparr>) = header_profile mo" "header_profile (mo\<lparr>mo_engine := y\<rparr>) = header_profile mo"
  by (cases "mo_standardHeaders mo"; simp add: header_profile_def)+

lemma guard_step_route:
  fixes ops :: "'s store_ops" and dm :: "'s draft_method" and kmo :: "'k km_methods" and ck :: clock and ctx :: "('c, 'q) nest_context"
  assumes window: "isWindowOpts (mo_engine (gc_resolved cfg))" and at: "nc_handler ctx = Some h"
    and rel: "differ_at h (opt_or (route_fingerprint cfg ro w1) fp0) (opt_or (route_fingerprint cfg ro w2) fp0) g1 g2"
  defines "run \<equiv> \<lambda>w. canActivate ops dm kmo cfg ck (decorated h (route_window ro w) ctx)"
  shows "same_decision (fst (run w1 g1)) (fst (run w2 g2))"
    "differ_at h (opt_or (route_fingerprint cfg ro w1) fp0) (opt_or (route_fingerprint cfg ro w2) fp0) (snd (run w1 g1)) (snd (run w2 g2))"
    "header_profile (gc_resolved cfg) = (Some fmt, inc) \<Longrightarrow> fmt \<in> {''draft-6'', ''draft-7'', ''draft-8''} \<Longrightarrow>
     mo_limitWindows (gc_resolved cfg) = [] \<Longrightarrow> eo_grouped (mo_engine (gc_resolved cfg)) = [] \<Longrightarrow>
     getRequestResponse cfg ctx = Inr (req, True) \<Longrightarrow> decided (fst (run w1 g1)) \<Longrightarrow> announces (gx_headers (fst (run w1 g1))) w1"
proof -
  let ?F = "\<lambda>w. opt_or (route_fingerprint cfg ro w) fp0" and ?ctx = "\<lambda>w. decorated h (route_window ro w) ctx"
  let ?m = "mergeRouteIntoOptions (gc_production cfg) (gc_resolved cfg) (gc_costKind cfg) (Some (ro\<lparr>ro_windowMs := None\<rparr>))"
  note mw = merge_route_window [OF window, where production = "gc_production cfg" and ic = "gc_costKind cfg" and ro = ro, folded route_window_def]
  have route: "isPlainRouteLimitOptions (nc_routeMeta (?ctx w)) = Some (route_window ro w)" for w
    by (simp add: decorated_def at RateLimit_meta_def)
  let ?stops = "(case gc_skip cfg of Some f \<Rightarrow> f (nc_context ctx) | None \<Rightarrow> Inr False) \<noteq> Inr False \<or> skips_all (nc_skipMeta ctx) \<or>
      (\<exists>e. getRequestResponse cfg ctx = Inl e) \<or> (\<exists>e. ?m = Inl e)"
  have "same_decision (fst (run w1 g1)) (fst (run w2 g2)) \<and> differ_at h (?F w1) (?F w2) (snd (run w1 g1)) (snd (run w2 g2)) \<and>
    (header_profile (gc_resolved cfg) = (Some fmt, inc) \<and> fmt \<in> {''draft-6'', ''draft-7'', ''draft-8''} \<and>
     mo_limitWindows (gc_resolved cfg) = [] \<and> eo_grouped (mo_engine (gc_resolved cfg)) = [] \<and>
     getRequestResponse cfg ctx = Inr (req, True) \<and> decided (fst (run w1 g1)) \<longrightarrow> announces (gx_headers (fst (run w1 g1))) w1)"
  proof (cases ?stops)
    case True
    have me: "(\<exists>e. mergeRouteIntoOptions (gc_production cfg) (gc_resolved cfg) (gc_costKind cfg) (Some (route_window ro w)) = Inl e) \<longleftrightarrow>
        (\<exists>e. ?m = Inl e)" for w using mw [of w] by (cases ?m) auto
    from True have "(case gc_skip cfg of Some f \<Rightarrow> f (nc_context (?ctx w)) | None \<Rightarrow> Inr False) \<noteq> Inr False \<or> skips_all (nc_skipMeta (?ctx w)) \<or>
      (\<exists>e. getRequestResponse cfg (?ctx w) = Inl e) \<or>
      (\<exists>e. mergeRouteIntoOptions (gc_production cfg) (gc_resolved cfg) (gc_costKind cfg) (isPlainRouteLimitOptions (nc_routeMeta (?ctx w))) = Inl e)" for w
      unfolding route decorated_fields me by simp
    note stop = canActivate_refuses [OF this]
    have "fst (run w1 g1) = fst (run w2 g2)"
    proof -
      define sk where "sk = (case gc_skip cfg of Some f \<Rightarrow> f (nc_context ctx) | None \<Rightarrow> Inr False)"
      show ?thesis unfolding run_def canActivate_def route mw decorated_fields Let_def sk_def [symmetric]
        using True [folded sk_def] by (cases sk; cases "getRequestResponse cfg ctx"; cases ?m) (auto split: bool.split)
    qed
    then show ?thesis using rel by (simp add: run_def same_decision_def stop(1,2))
  next
    case False
    then obtain rq takes m ic where go: "(case gc_skip cfg of Some f \<Rightarrow> f (nc_context ctx) | None \<Rightarrow> Inr False) = Inr False"
      "\<not> skips_all (nc_skipMeta ctx)" "getRequestResponse cfg ctx = Inr (rq, takes)" "?m = Inr (m, ic)"
      by (cases "getRequestResponse cfg ctx"; cases ?m) auto
    have mm: "mergeRouteIntoOptions (gc_production cfg) (gc_resolved cfg) (gc_costKind cfg) (Some (route_window ro w)) =
        Inr (m\<lparr>mo_windowMs := Some w\<rparr>, ic)" for w using mw [of w] go(4) by simp
    let ?fp = "\<lambda>w. fingerprintRouteEngineOptions (gc_store cfg) (gc_keyManager cfg) ic (m\<lparr>mo_windowMs := Some w\<rparr>)"
    have F: "?F w = ?fp w" for w by (simp add: route_fingerprint_def mm opt_or_def)
    obtain ch g1' where e1: "getEngineForRoute (?ctx w1) (Some (route_window ro w1)) (?fp w1) g1 = (ch, g1')" by fastforce
    have e0: "getEngineForRoute (?ctx w) (Some r) fp g = getEngineForRoute ctx (Some (route_window ro w1)) fp g" for w r fp g
      by (simp add: getEngineForRoute_def)
    from differ_engine [OF rel, of ctx "Some (route_window ro w1)" "?fp w1" "?fp w2" ch g1'] e1 at obtain g2' where
      e2: "getEngineForRoute ctx (Some (route_window ro w1)) (?fp w2) g2 = (ch, g2')" "engine_for ch g1' = engine_for ch g2'"
      "\<And>en. differ_at h (?F w1) (?F w2) (put_engine ch en g1') (put_engine ch en g2')" "differ_at h (?F w1) (?F w2) g1' g2'"
      by (auto simp: e0 F)
    have run: "run w g = (case resolveKey cfg ctx rq (Some ro) of
       Inl e \<Rightarrow> (guard_fails e, g')
     | Inr k \<Rightarrow> (let (gx, en) = guard_consumes ops dm kmo cfg ck (nc_context ctx) rq takes k (m\<lparr>mo_windowMs := Some w\<rparr>) (engine_for ch g')
                  in (gx, put_engine ch en g')))"
      if "getEngineForRoute ctx (Some (route_window ro w1)) (?fp w) g = (ch, g')" for w g g'
      using canActivate_decides [where cfg = cfg and ctx = "?ctx w" and req = rq and takes = takes and route = "Some (route_window ro w)" and
          g = g and ch = ch and ?g1.0 = g' and ops = ops and dm = dm and kmo = kmo and ck = ck,
          unfolded decorated_fields route e0 route_window_fields(2), OF go(1-3) refl mm that]
      by (simp add: run_def)
    note r1 = run [OF e1 [unfolded e0]] and r2 = run [OF e2(1)]
    note cw = guard_consumes_window [where ops = ops and dm = dm and kmo = kmo and cfg = cfg and ck = ck and c = "nc_context ctx" and
        req = rq and takes = takes and mo = m and en = "engine_for ch g1'" and x = "Some w1" and y = "Some w2"]
    have eff: "resolveWindowMsForHeaders (m\<lparr>mo_windowMs := Some w1\<rparr>) slot = w1"
      if "mo_limitWindows (gc_resolved cfg) = []" "eo_grouped (mo_engine (gc_resolved cfg)) = []" for slot
      using merged_route_announces [OF window that mm] .
    have prof: "header_profile (m\<lparr>mo_windowMs := Some w1\<rparr>) = header_profile (gc_resolved cfg)"
      using go(4) by (auto simp: mergeRouteIntoOptions_def header_profile_update Let_def split: option.splits sum.splits if_splits)
    show ?thesis
    proof (cases "resolveKey cfg ctx rq (Some ro)")
      case (Inl e)
      then show ?thesis using r1 r2 e2(4) by (simp add: same_decision_def decided_def guard_fails_def guard_open_def)
    next
      case (Inr k)
      obtain gx1 en1 where c1: "guard_consumes ops dm kmo cfg ck (nc_context ctx) rq takes k (m\<lparr>mo_windowMs := Some w1\<rparr>) (engine_for ch g1') = (gx1, en1)" by fastforce
      obtain gx2 en2 where c2: "guard_consumes ops dm kmo cfg ck (nc_context ctx) rq takes k (m\<lparr>mo_windowMs := Some w2\<rparr>) (engine_for ch g1') = (gx2, en2)" by fastforce
      have "same_decision gx1 gx2" "en1 = en2" using cw [of k] c1 c2 by (simp_all add: same_decision_def)
      moreover have "run w1 g1 = (gx1, put_engine ch en1 g1')" "run w2 g2 = (gx2, put_engine ch en2 g2')"
        using r1 r2 e2(2) c1 c2 Inr by simp_all
      ultimately show ?thesis using e2(3) consumes_announces [OF _ _ eff, of fmt inc] prof c1 go(3)
        by auto
    qed
  qed
  then show "same_decision (fst (run w1 g1)) (fst (run w2 g2))" "differ_at h (?F w1) (?F w2) (snd (run w1 g1)) (snd (run w2 g2))"
    "header_profile (gc_resolved cfg) = (Some fmt, inc) \<Longrightarrow> fmt \<in> {''draft-6'', ''draft-7'', ''draft-8''} \<Longrightarrow>
     mo_limitWindows (gc_resolved cfg) = [] \<Longrightarrow> eo_grouped (mo_engine (gc_resolved cfg)) = [] \<Longrightarrow>
     getRequestResponse cfg ctx = Inr (req, True) \<Longrightarrow> decided (fst (run w1 g1)) \<Longrightarrow> announces (gx_headers (fst (run w1 g1))) w1"
    by blast+
qed

definition decorate_all :: "nat \<Rightarrow> ('c, 'q) route_options \<Rightarrow> (clock \<times> ('c, 'q) nest_context) list \<Rightarrow> (clock \<times> ('c, 'q) nest_context) list" where
  "decorate_all h ro reqs = map (\<lambda>(ck, ctx). (ck, decorated h ro ctx)) reqs"

definition drafts :: "string set" where
  "drafts = {''draft-6'', ''draft-7'', ''draft-8''}"

lemma guard_runs_differ:
  fixes ops :: "'s store_ops" and dm :: "'s draft_method" and kmo :: "'k km_methods" and cfg :: "('c, 'q) nest_guard_config"
  assumes window: "isWindowOpts (mo_engine (gc_resolved cfg))"
    and rel: "differ_at h (opt_or (route_fingerprint cfg ro w1) fp0) (opt_or (route_fingerprint cfg ro w2) fp0) g1 g2"
  defines "run \<equiv> \<lambda>w reqs. guard_run ops dm kmo cfg (decorate_all h (route_window ro w) reqs)"
  shows "list_all2 same_decision (fst (run w1 reqs g1)) (fst (run w2 reqs g2)) \<and> gs_engine (snd (run w1 reqs g1)) = gs_engine (snd (run w2 reqs g2)) \<and>
    (mo_limitWindows (gc_resolved cfg) = [] \<and> eo_grouped (mo_engine (gc_resolved cfg)) = [] \<and>
     header_profile (gc_resolved cfg) = (Some fmt, inc) \<and> fmt \<in> drafts \<longrightarrow>
       list_all2 (\<lambda>r gx. nc_handler (snd r) = Some h \<and> (\<exists>req. getRequestResponse cfg (snd r) = Inr (req, True)) \<and> decided gx \<longrightarrow>
           announces (gx_headers gx) w1) reqs (fst (run w1 reqs g1)))"
  using rel unfolding run_def
proof (induction reqs arbitrary: g1 g2)
  case Nil
  then show ?case by (simp add: decorate_all_def differ_at_def)
next
  case (Cons r reqs)
  obtain ck ctx where r: "r = (ck, ctx)" by (cases r)
  let ?step = "\<lambda>w. canActivate ops dm kmo cfg ck (decorated h (route_window ro w) ctx)"
  let ?F = "\<lambda>w. opt_or (route_fingerprint cfg ro w) fp0"
  note route = guard_step_route [where ops = ops and dm = dm and kmo = kmo and ck = ck, OF window _ Cons.prems]
  note other = guard_step_other [where ops = ops and dm = dm and kmo = kmo and cfg = cfg and ck = ck, OF Cons.prems]
  have plain: "decorated h ro' ctx = ctx" if "nc_handler ctx \<noteq> Some h" for ro' :: "('c, 'q) route_options"
    using that by (simp add: decorated_def)
  have step: "same_decision (fst (?step w1 g1)) (fst (?step w2 g2))" "differ_at h (?F w1) (?F w2) (snd (?step w1 g1)) (snd (?step w2 g2))"
    using route(1,2) other unfolding same_decision_def by (cases "nc_handler ctx = Some h"; simp add: plain)+
  have head: "announces (gx_headers (fst (?step w1 g1))) w1"
    if "mo_limitWindows (gc_resolved cfg) = []" "eo_grouped (mo_engine (gc_resolved cfg)) = []"
      "header_profile (gc_resolved cfg) = (Some fmt, inc)" "fmt \<in> drafts" "nc_handler ctx = Some h"
      "getRequestResponse cfg ctx = Inr (req, True)" "decided (fst (?step w1 g1))" for req
    using route(3) [OF that(5,3) _ that(1,2,6,7)] that(4) by (simp add: drafts_def)
  from Cons.IH [OF step(2)] step(1) head show ?case
    by (auto simp: r decorate_all_def case_prod_beta Let_def)
qed

text \<open>(C34) The window of a route is announced and nothing else. Take any requests, of any handlers, to a guard
  that has not served handler \<open>h\<close> before, once with \<open>windowMs\<close> \<open>w1\<close> in the \<open>@RateLimit\<close> of \<open>h\<close> and once with
  \<open>w2\<close>: every request is decided alike, with the same exception or the same quota attached, and store, key
  manager and metrics end in the same state. What the client of \<open>h\<close> reads is the window of the route: with a draft
  profile, and a module without limits or groups, the policy field of every decided request ends in it.\<close>

theorem nest_route_window_announced_only:
  assumes "isWindowOpts (mo_engine (gc_resolved cfg))" "map_of (gs_routes g) h = None"
  shows "let (xs1, g1) = guard_run ops dm kmo cfg (decorate_all h (route_window ro w1) reqs) g;
             (xs2, g2) = guard_run ops dm kmo cfg (decorate_all h (route_window ro w2) reqs) g
         in list_all2 same_decision xs1 xs2 \<and> gs_engine g1 = gs_engine g2 \<and>
            (mo_limitWindows (gc_resolved cfg) = [] \<and> eo_grouped (mo_engine (gc_resolved cfg)) = [] \<and>
             header_profile (gc_resolved cfg) = (Some fmt, inc) \<and> fmt \<in> drafts \<longrightarrow>
               list_all2 (\<lambda>r gx. nc_handler (snd r) = Some h \<and> (\<exists>req. getRequestResponse cfg (snd r) = Inr (req, True)) \<and> decided gx \<longrightarrow>
                   announces (gx_headers gx) w1) reqs xs1)"
proof -
  have "differ_at h (opt_or (route_fingerprint cfg ro w1) fp0) (opt_or (route_fingerprint cfg ro w2) fp0) g g" for fp0
    using assms(2) by (simp add: differ_at_def)
  from guard_runs_differ [where ops = ops and dm = dm and kmo = kmo and reqs = reqs and fmt = fmt and inc = inc, OF assms(1) this] show ?thesis by (simp add: case_prod_beta Let_def)
qed

lemma decisions_alike: "list_all2 same_decision xs ys \<Longrightarrow> map gx_outcome xs = map gx_outcome ys"
  by (induction rule: list_all2_induct) (simp_all add: same_decision_def)

lemma list_all2_hd: "list_all2 P xs ys \<Longrightarrow> xs \<noteq> [] \<Longrightarrow> P (hd xs) (hd ys)"
  by (cases xs; cases ys) auto

theorem nest_route_window_announced_only_witness:
  "let mo = demo_quota\<lparr>mo_standardHeaders := ShString ''draft-6''\<rparr>;
       run = (\<lambda>w. guard_run mem_ops None (key_manager_methods mem_ops) (demo_guard mo)
         (decorate_all 1 (route_window no_route w) [(demo_clock 0, demo_context 1 MetaAbsent), (demo_clock 5, demo_context 1 MetaAbsent)])
         (demo_state (demo_http_engine FIXED_WINDOW)))
   in map gx_outcome (fst (run 5000)) = map gx_outcome (fst (run 86400000)) \<and> announces (gx_headers (hd (fst (run 5000)))) 5000"
proof -
  define mo where "mo = demo_quota\<lparr>mo_standardHeaders := ShString ''draft-6''\<rparr>"
  define reqs where "reqs = [(demo_clock 0, demo_context 1 MetaAbsent), (demo_clock 5, demo_context 1 MetaAbsent)]"
  define run where "run = (\<lambda>w. guard_run mem_ops None (key_manager_methods mem_ops) (demo_guard mo)
         (decorate_all 1 (route_window no_route w) reqs) (demo_state (demo_http_engine FIXED_WINDOW)))"
  have h: "isWindowOpts (mo_engine (gc_resolved (demo_guard mo)))" "map_of (gs_routes (demo_state (demo_http_engine FIXED_WINDOW))) 1 = None"
    "mo_limitWindows (gc_resolved (demo_guard mo)) = []" "eo_grouped (mo_engine (gc_resolved (demo_guard mo))) = []"
    "header_profile (gc_resolved (demo_guard mo)) = (Some ''draft-6'', snd (header_profile mo))" "''draft-6'' \<in> drafts"
    by (simp_all add: demo_guard_def mo_def demo_http_options_def isWindowOpts_def demo_state_def header_profile_def drafts_def opt_or_def)
  have first: "hd (fst (run 5000)) = fst (canActivate mem_ops None (key_manager_methods mem_ops) (demo_guard mo) (demo_clock 0)
      (decorated 1 (route_window no_route 5000) (demo_context 1 MetaAbsent)) (demo_state (demo_http_engine FIXED_WINDOW)))"
    by (simp add: run_def reqs_def decorate_all_def case_prod_beta)
  have "map_option info_limit (gx_rateLimit (hd (fst (run 5000)))) = Some 1" unfolding first mo_def by code_simp
  then have d: "decided (hd (fst (run 5000)))" by (auto simp: decided_def)
  have q: "getRequestResponse (demo_guard mo) (snd (hd reqs)) = Inr (0, True)" "nc_handler (snd (hd reqs)) = Some 1" "reqs \<noteq> []"
    by (simp_all add: reqs_def demo_context_def getRequestResponse_def demo_guard_def)
  from nest_route_window_announced_only [where ops = mem_ops and dm = None and kmo = "key_manager_methods mem_ops" and ro = no_route and
      reqs = reqs and ?w1.0 = 5000 and ?w2.0 = 86400000 and fmt = "''draft-6''" and inc = "snd (header_profile mo)", OF h(1,2)]
  have same: "list_all2 same_decision (fst (run 5000)) (fst (run 86400000))"
    and said: "list_all2 (\<lambda>r gx. nc_handler (snd r) = Some 1 \<and> (\<exists>req. getRequestResponse (demo_guard mo) (snd r) = Inr (req, True)) \<and> decided gx \<longrightarrow>
        announces (gx_headers gx) 5000) reqs (fst (run 5000))"
    using h(3-6) by (simp_all add: run_def case_prod_beta Let_def)
  have "map gx_outcome (fst (run 5000)) = map gx_outcome (fst (run 86400000))"
    using same by (rule decisions_alike)
  moreover have "announces (gx_headers (hd (fst (run 5000)))) 5000"
    using list_all2_hd [OF said q(3)] d q(1,2) by blast
  ultimately show ?thesis by (simp add: run_def mo_def reqs_def Let_def)
qed

end
