(* ===== verification/Store_Utils.thy ===== *)
theory Store_Utils
  imports Memory_Store
begin

text \<open>
  \<open>src/utils/store-utils.ts\<close>, the helpers of the stores that keep their state in a database, what can
  become of a round trip to one, and how the helpers relate to the in-memory store.
\<close>

section \<open>Helpers\<close>

definition refillBucketState :: "int \<Rightarrow> time \<Rightarrow> time \<Rightarrow> int \<Rightarrow> int \<Rightarrow> int \<Rightarrow> int \<times> time" where
  "refillBucketState tokens lastRefillMs now bucketSize tokensPerInterval intervalMs =
     (let elapsed = now - lastRefillMs; intervals = elapsed div intervalMs
      in if intervals > 0
         then (min bucketSize (tokens + intervals * tokensPerInterval), lastRefillMs + intervals * intervalMs)
         else (tokens, lastRefillMs))"

definition resetTimeDateFromSlidingStamps :: "time list \<Rightarrow> int \<Rightarrow> time \<Rightarrow> time" where
  "resetTimeDateFromSlidingStamps ts windowMs nowMs =
     (case ts of [] \<Rightarrow> nowMs + windowMs | t # ts' \<Rightarrow> fold min ts' t + windowMs)"

text \<open>What becomes of a call to the server: answered, failed with a message before it took effect, or failed after.\<close>

datatype net_outcome = Answered | Failed (fail_msg: string) | ReplyLost (fail_msg: string)

section \<open>Facts\<close>

lemma refill_agrees:
  assumes "ms_bucketSize m = bs" "ms_tokensPerInterval m = tpi" "ms_refillIntervalMs m = iv"
  shows "refillBucketState t l now bs tpi iv = refillBucketStateForNow m t l now"
  using assms by (simp add: refillBucketState_def refillBucketStateForNow_def Let_def)

lemma fold_min_sorted: "sorted (t # ts) \<Longrightarrow> fold min ts (t::time) = t"
  by (induction ts) (auto simp: min_def)

lemma fold_max_sorted: "sorted (t # ts) \<Longrightarrow> fold max ts (t::time) = last (t # ts)"
  by (induction ts arbitrary: t) (auto simp: max_def)

lemma resetTime_sorted:
  "sorted ts \<Longrightarrow> ts \<noteq> [] \<Longrightarrow> resetTimeDateFromSlidingStamps ts w now = hd ts + w"
  by (cases ts) (simp_all add: resetTimeDateFromSlidingStamps_def fold_min_sorted)

lemma sorted_live: "sorted ts \<Longrightarrow> sort (filter P ts) = filter P (ts :: time list)"
  by (simp add: sorted_sort_id sorted_wrt_filter)

end
