(* ===== verification/Pg_Store.thy ===== *)
theory Pg_Store
  imports Store_Utils
begin

text \<open>
  The PostgreSQL store, \<open>src/stores/postgres/PgStore.ts\<close> with \<open>types.ts\<close>, \<open>schema.ts\<close> and the helpers of
  \<open>Store_Utils\<close>. The SQL statements are part of the source: each \<open>sql_*\<close> definition
  translates one statement into a function on the table, a map from keys to rows. What the server
  adds is its documented behaviour: a statement takes effect as a whole or not at all, the
  statements between \<open>BEGIN\<close> and \<open>COMMIT\<close> likewise. Whether a round trip succeeds is a parameter of the
  store, \<open>pg_net\<close>, asked once per query. \<open>NOW()\<close> of the server is the caller's clock, a \<open>bigint\<close> column
  holds any integer the store writes, and times stay within the range of \<open>Date\<close>. Transactions that
  overlap in time are the subject of \<open>Pg_Concurrency\<close>.
\<close>

section \<open>The table (schema.ts) and the statements\<close>

record pg_row =
  pr_total_hits :: int
  pr_reset_at :: time
  pr_hits :: "time list option"
  pr_tokens :: "int option"
  pr_last_refill_at :: "time option"

type_synonym pg_table = "(key, pg_row) jsmap"

text \<open>\<open>TABLE_NAME_RE\<close> and its check; the error is given without its text.\<close>

definition ident_start :: "char \<Rightarrow> bool" where
  "ident_start c \<longleftrightarrow> c \<in> set ''abcdefghijklmnopqrstuvwxyzABCDEFGHIJKLMNOPQRSTUVWXYZ_''"

definition ident_char :: "char \<Rightarrow> bool" where
  "ident_char c \<longleftrightarrow> ident_start c \<or> c \<in> set ''0123456789''"

definition assertSafeTableName :: "string \<Rightarrow> string option" where
  "assertSafeTableName name =
     (case name of
        [] \<Rightarrow> None
      | c # cs \<Rightarrow> if ident_start c \<and> list_all ident_char cs then Some name else None)"

text \<open>The upsert of the fixed window.\<close>

definition sql_fixed_upsert ::
  "key \<Rightarrow> int \<Rightarrow> time \<Rightarrow> time \<Rightarrow> pg_table \<Rightarrow> (int \<times> time) \<times> pg_table" where
  "sql_fixed_upsert k cost windowEnd nowDate t =
     (let row =
        (case map_of t k of
           None \<Rightarrow> \<lparr>pr_total_hits = cost, pr_reset_at = windowEnd, pr_hits = None, pr_tokens = None,
                    pr_last_refill_at = None\<rparr>
         | Some r \<Rightarrow>
             r\<lparr>pr_total_hits := (if pr_reset_at r \<le> nowDate then cost else pr_total_hits r + cost),
               pr_reset_at := (if pr_reset_at r \<le> nowDate then windowEnd else pr_reset_at r)\<rparr>)
      in ((pr_total_hits row, pr_reset_at row), AList.update k row t))"

text \<open>\<open>SELECT ... FOR UPDATE\<close> and the upsert of the token bucket.\<close>

definition sql_bucket_select :: "key \<Rightarrow> pg_table \<Rightarrow> (int option \<times> time option) option \<times> pg_table" where
  "sql_bucket_select k t = (map_option (\<lambda>r. (pr_tokens r, pr_last_refill_at r)) (map_of t k), t)"

definition sql_bucket_upsert ::
  "key \<Rightarrow> int \<Rightarrow> time \<Rightarrow> int \<Rightarrow> time \<Rightarrow> pg_table \<Rightarrow> unit \<times> pg_table" where
  "sql_bucket_upsert k hits resetAt tokens lastRefill t =
     (let row =
        (case map_of t k of
           None \<Rightarrow> \<lparr>pr_total_hits = hits, pr_reset_at = resetAt, pr_hits = None, pr_tokens = Some tokens,
                    pr_last_refill_at = Some lastRefill\<rparr>
         | Some r \<Rightarrow>
             r\<lparr>pr_total_hits := hits, pr_reset_at := resetAt, pr_tokens := Some tokens,
               pr_last_refill_at := Some lastRefill\<rparr>)
      in ((), AList.update k row t))"

text \<open>\<open>COALESCE(jsonb_agg(elem ORDER BY elem::bigint) ... WHERE elem::bigint > $3, '[]')\<close>.\<close>

definition filtered_hits :: "time list option \<Rightarrow> time \<Rightarrow> time list" where
  "filtered_hits hits windowStart =
     (case hits of None \<Rightarrow> [] | Some ts \<Rightarrow> sort (filter (\<lambda>t. t > windowStart) ts))"

text \<open>\<open>SELECT MAX(elem)\<close>, which is \<open>NULL\<close> on no rows.\<close>

definition sql_max :: "time list \<Rightarrow> time option" where
  "sql_max ts = (case ts of [] \<Rightarrow> None | t # ts' \<Rightarrow> Some (fold max ts' t))"

text \<open>The upsert of the sliding window. On a conflict \<open>reset_at\<close> becomes the newest hit itself, as the
  statement has it.\<close>

definition sql_sliding_upsert ::
  "key \<Rightarrow> time \<Rightarrow> time \<Rightarrow> int \<Rightarrow> time list \<Rightarrow> pg_table \<Rightarrow> (int \<times> time list option) \<times> pg_table" where
  "sql_sliding_upsert k initialResetAt windowStart windowMs newHits t =
     (let row =
        (case map_of t k of
           None \<Rightarrow> \<lparr>pr_total_hits = int (length newHits), pr_reset_at = initialResetAt,
                    pr_hits = Some newHits, pr_tokens = None, pr_last_refill_at = None\<rparr>
         | Some r \<Rightarrow>
             (let merged = filtered_hits (pr_hits r) windowStart @ newHits
              in r\<lparr>pr_hits := Some merged,
                   pr_total_hits := int (length merged),
                   pr_reset_at := (case sql_max merged of None \<Rightarrow> windowStart + windowMs | Some m \<Rightarrow> m)\<rparr>))
      in ((pr_total_hits row, pr_hits row), AList.update k row t))"

text \<open>The statements of \<open>decrementSliding\<close>: the length, and keeping the newest (\<open>ord DESC\<close>) or oldest
  (\<open>ord ASC\<close>) entries.\<close>

definition sql_sliding_len :: "key \<Rightarrow> pg_table \<Rightarrow> int option \<times> pg_table" where
  "sql_sliding_len k t =
     (map_option (\<lambda>r. case pr_hits r of None \<Rightarrow> 0 | Some ts \<Rightarrow> int (length ts)) (map_of t k), t)"

definition sql_sliding_keep :: "key \<Rightarrow> bool \<Rightarrow> int \<Rightarrow> int \<Rightarrow> time \<Rightarrow> pg_table \<Rightarrow> unit \<times> pg_table" where
  "sql_sliding_keep k fifo keepCount windowMs dbNow t =
     ((), case map_of t k of
            None \<Rightarrow> t
          | Some r \<Rightarrow>
              (let ts = (case pr_hits r of None \<Rightarrow> [] | Some ts \<Rightarrow> ts);
                   kept = (if fifo then drop (length ts - nat keepCount) ts else take (nat keepCount) ts)
               in AList.update k
                    (r\<lparr>pr_hits := Some kept, pr_total_hits := int (length kept),
                       pr_reset_at := (case sql_max kept of None \<Rightarrow> dbNow | Some m \<Rightarrow> m) + windowMs\<rparr>) t))"

definition sql_delete :: "key \<Rightarrow> pg_table \<Rightarrow> bool \<times> pg_table" where
  "sql_delete k t = (jsmap_has t k, AList.delete k t)"

definition sql_fixed_decrement :: "key \<Rightarrow> int \<Rightarrow> pg_table \<Rightarrow> unit \<times> pg_table" where
  "sql_fixed_decrement k cost t =
     ((), case map_of t k of
            None \<Rightarrow> t
          | Some r \<Rightarrow> AList.update k (r\<lparr>pr_total_hits := max 0 (pr_total_hits r - cost)\<rparr>) t)"

definition sql_bucket_decrement :: "key \<Rightarrow> int \<Rightarrow> int \<Rightarrow> pg_table \<Rightarrow> unit \<times> pg_table" where
  "sql_bucket_decrement k cost bs t =
     ((), case map_of t k of
            None \<Rightarrow> t
          | Some r \<Rightarrow>
              (let new_tok = min bs ((case pr_tokens r of None \<Rightarrow> bs | Some n \<Rightarrow> n) + cost)
               in AList.update k (r\<lparr>pr_tokens := Some new_tok, pr_total_hits := bs - new_tok\<rparr>) t))"

definition sql_sweep :: "time \<Rightarrow> pg_table \<Rightarrow> int \<times> pg_table" where
  "sql_sweep dbNow t =
     (int (length (filter (\<lambda>(k, r). pr_reset_at r < dbNow) t)), filter (\<lambda>(k, r). \<not> pr_reset_at r < dbNow) t)"

definition sql_get :: "key \<Rightarrow> pg_table \<Rightarrow> pg_row option \<times> pg_table" where
  "sql_get k t = (map_of t k, t)"

definition sql_fixed_set :: "key \<Rightarrow> int \<Rightarrow> time \<Rightarrow> pg_table \<Rightarrow> unit \<times> pg_table" where
  "sql_fixed_set k n resetAt t =
     (let row =
        (case map_of t k of
           None \<Rightarrow> \<lparr>pr_total_hits = n, pr_reset_at = resetAt, pr_hits = None, pr_tokens = None,
                    pr_last_refill_at = None\<rparr>
         | Some r \<Rightarrow> r\<lparr>pr_total_hits := n, pr_reset_at := resetAt\<rparr>)
      in ((), AList.update k row t))"

definition sql_sliding_set :: "key \<Rightarrow> int \<Rightarrow> time \<Rightarrow> time list \<Rightarrow> pg_table \<Rightarrow> unit \<times> pg_table" where
  "sql_sliding_set k n resetAt ts t =
     (let row =
        (case map_of t k of
           None \<Rightarrow> \<lparr>pr_total_hits = n, pr_reset_at = resetAt, pr_hits = Some ts, pr_tokens = None,
                    pr_last_refill_at = None\<rparr>
         | Some r \<Rightarrow> r\<lparr>pr_total_hits := n, pr_reset_at := resetAt, pr_hits := Some ts\<rparr>)
      in ((), AList.update k row t))"

section \<open>The store\<close>

record pg_store =
  pg_strategy :: strategy
  pg_windowMs :: int
  pg_maxRequests :: int
  pg_tokensPerInterval :: int
  pg_refillIntervalMs :: int
  pg_bucketSize :: int
  pg_keyPrefix :: string
  pg_failClosed :: bool                       \<comment> \<open>\<open>onPostgresError\<close>\<close>
  pg_sweepTimer :: bool
  pg_pooled :: bool                           \<comment> \<open>the client has \<open>connect\<close>\<close>
  pg_table :: pg_table                        \<comment> \<open>the server's table\<close>
  pg_net :: "nat \<Rightarrow> net_outcome"
  pg_queries :: nat
  pg_warnings :: "(string \<times> string) list"    \<comment> \<open>the calls of \<open>onWarn\<close>\<close>

record pg_options =
  po_strategy :: "strategy option"
  po_windowMs :: js_value
  po_maxRequests :: js_value
  po_tokensPerInterval :: "rat option"
  po_interval :: js_value
  po_bucketSize :: js_value
  po_tableName :: "string option"
  po_autoSweepIntervalMs :: "rat option"
  po_keyPrefix :: "string option"
  po_failClosed :: bool
  po_pooled :: bool

text \<open>The constructor, on a client whose round trips go as \<open>net\<close> says and a table \<open>t\<close>; \<open>None\<close> is the
  error for a bad table name.\<close>

definition new_PgStore :: "pg_options \<Rightarrow> (nat \<Rightarrow> net_outcome) \<Rightarrow> pg_table \<Rightarrow> pg_store option" where
  "new_PgStore opts net t =
     (case assertSafeTableName (case po_tableName opts of None \<Rightarrow> ''rate_limits'' | Some n \<Rightarrow> n) of
        None \<Rightarrow> None
      | Some _ \<Rightarrow>
          Some \<lparr>pg_strategy = (case po_strategy opts of None \<Rightarrow> SLIDING_WINDOW | Some x \<Rightarrow> x),
                pg_windowMs = sanitizeWindowMs (po_windowMs opts) 60000,
                pg_maxRequests = sanitizeRateLimitCap (po_maxRequests opts) 100,
                pg_tokensPerInterval =
                  max 1 \<lfloor>case po_tokensPerInterval opts of None \<Rightarrow> 10 | Some n \<Rightarrow> n\<rfloor>,
                pg_refillIntervalMs = sanitizeWindowMs (po_interval opts) 60000,
                pg_bucketSize = sanitizeRateLimitCap (po_bucketSize opts) 100,
                pg_keyPrefix = (case po_keyPrefix opts of None \<Rightarrow> ''rlf:'' | Some p \<Rightarrow> p),
                pg_failClosed = po_failClosed opts,
                pg_sweepTimer = (case po_autoSweepIntervalMs opts of None \<Rightarrow> True | Some n \<Rightarrow> n > 0),
                pg_pooled = po_pooled opts,
                pg_table = t, pg_net = net, pg_queries = 0, pg_warnings = []\<rparr>)"

definition pg_warn :: "string \<Rightarrow> string \<Rightarrow> pg_store \<Rightarrow> pg_store" where
  "pg_warn msg err s = s\<lparr>pg_warnings := pg_warnings s @ [(msg, err)]\<rparr>"

text \<open>\<open>client.query\<close>: one statement.\<close>

definition pg_query :: "(pg_table \<Rightarrow> 'a \<times> pg_table) \<Rightarrow> pg_store \<Rightarrow> (string + 'a) \<times> pg_store" where
  "pg_query f s =
     (let s1 = s\<lparr>pg_queries := Suc (pg_queries s)\<rparr>; (a, t) = f (pg_table s)
      in case pg_net s (pg_queries s) of
           Answered \<Rightarrow> (Inr a, s1\<lparr>pg_table := t\<rparr>)
         | Failed e \<Rightarrow> (Inl e, s1)
         | ReplyLost e \<Rightarrow> (Inl e, s1\<lparr>pg_table := t\<rparr>))"

text \<open>A call without effect on the table: \<open>connect()\<close>, \<open>BEGIN\<close>.\<close>

definition pg_call :: "pg_store \<Rightarrow> (string + unit) \<times> pg_store" where
  "pg_call s = pg_query (\<lambda>t. ((), t)) s"

text \<open>\<open>withTransaction\<close>. What the body wrote is undone unless \<open>COMMIT\<close> reaches the server, whether or not
  \<open>ROLLBACK\<close> does: the server discards an open transaction when its connection ends.\<close>

definition pg_rollback :: "pg_table \<Rightarrow> pg_store \<Rightarrow> pg_store" where
  "pg_rollback t s = (snd (pg_call s))\<lparr>pg_table := t\<rparr>"

definition withTransaction ::
  "(pg_store \<Rightarrow> (string + 'a) \<times> pg_store) \<Rightarrow> pg_store \<Rightarrow> (string + 'a) \<times> pg_store" where
  "withTransaction body s =
     (case (if pg_pooled s then pg_call s else (Inr (), s)) of
        (Inl e, s0) \<Rightarrow> (Inl e, s0)
      | (Inr _, s0) \<Rightarrow>
          (let t0 = pg_table s0
           in case pg_call s0 of
                (Inl e, s1) \<Rightarrow> (Inl e, if pg_pooled s then pg_rollback t0 s1 else s1)
              | (Inr _, s1) \<Rightarrow>
                  (case body s1 of
                     (Inl e, s2) \<Rightarrow> (Inl e, pg_rollback t0 s2)
                   | (Inr out, s2) \<Rightarrow>
                       (case pg_net s2 (pg_queries s2) of
                          Answered \<Rightarrow> (Inr out, snd (pg_call s2))
                        | Failed e \<Rightarrow> (Inl e, pg_rollback t0 (snd (pg_call s2)))
                        | ReplyLost e \<Rightarrow> (Inl e, pg_rollback (pg_table s2) (snd (pg_call s2)))))))"

section \<open>Increment\<close>

text \<open>The result both window strategies build from a count and a cap is \<open>window_result\<close> of the
  in-memory store.\<close>

definition pg_incrementFixedWindow ::
  "time \<Rightarrow> key \<Rightarrow> int \<Rightarrow> int \<Rightarrow> pg_store \<Rightarrow> (string + rl_result) \<times> pg_store" where
  "pg_incrementFixedWindow now k cost cap s =
     (case pg_query (sql_fixed_upsert k cost (now + pg_windowMs s) now) s of
        (Inl e, s1) \<Rightarrow> (Inl e, s1)
      | (Inr (th, reset), s1) \<Rightarrow> (Inr (window_result th cap reset), s1))"

definition bucket_body ::
  "time \<Rightarrow> key \<Rightarrow> int \<Rightarrow> pg_store \<Rightarrow> (string + rl_result) \<times> pg_store" where
  "bucket_body now k cost s =
     (case pg_query (sql_bucket_select k) s of
        (Inl e, s1) \<Rightarrow> (Inl e, s1)
      | (Inr sel, s1) \<Rightarrow>
          (case (case sel of
                   None \<Rightarrow> Some (pg_bucketSize s, now)
                 | Some (tok, lr) \<Rightarrow>
                     map_option (\<lambda>l. (case tok of None \<Rightarrow> 0 | Some n \<Rightarrow> n, l)) lr) of
             None \<Rightarrow> (Inl ''PgStore: invalid last_refill_at'', s1)
           | Some (tokens, lastRefill) \<Rightarrow>
               (let (t, l) = refillBucketState tokens lastRefill now (pg_bucketSize s)
                               (pg_tokensPerInterval s) (pg_refillIntervalMs s);
                    blocked = \<not> t \<ge> cost;
                    newTokens = (if blocked then t else t - cost);
                    reset = l + pg_refillIntervalMs s;
                    hits = (if blocked then pg_bucketSize s else pg_bucketSize s - newTokens);
                    left = (if blocked then 0 else newTokens)
                in case pg_query (sql_bucket_upsert k hits reset newTokens l) s1 of
                     (Inl e, s2) \<Rightarrow> (Inl e, s2)
                   | (Inr _, s2) \<Rightarrow> (Inr (plain_result hits left reset blocked), s2))))"

definition pg_incrementTokenBucket ::
  "time \<Rightarrow> key \<Rightarrow> int \<Rightarrow> pg_store \<Rightarrow> (string + rl_result) \<times> pg_store" where
  "pg_incrementTokenBucket now k cost s = withTransaction (bucket_body now k cost) s"

text \<open>\<open>parseSlidingHitsJson\<close>: the rows hold a JSON array or \<open>NULL\<close>.\<close>

definition parseSlidingHitsJson :: "time list option \<Rightarrow> time list" where
  "parseSlidingHitsJson hits = (case hits of None \<Rightarrow> [] | Some ts \<Rightarrow> ts)"

definition resetTimeFromSlidingHitsRow :: "time list option \<Rightarrow> int \<Rightarrow> time \<Rightarrow> time" where
  "resetTimeFromSlidingHitsRow hits windowMs nowMs =
     resetTimeDateFromSlidingStamps (parseSlidingHitsJson hits) windowMs nowMs"

definition pg_incrementSlidingWindow ::
  "time \<Rightarrow> key \<Rightarrow> int \<Rightarrow> int \<Rightarrow> pg_store \<Rightarrow> (string + rl_result) \<times> pg_store" where
  "pg_incrementSlidingWindow now k cost cap s =
     (case pg_query (sql_sliding_upsert k (now + pg_windowMs s) (now - pg_windowMs s) (pg_windowMs s)
                       (replicate (nat cost) now)) s of
        (Inl e, s1) \<Rightarrow> (Inl e, s1)
      | (Inr (th, hits), s1) \<Rightarrow>
          (Inr (window_result th cap (resetTimeFromSlidingHitsRow hits (pg_windowMs s) now)), s1))"

definition isNonPostgresError :: "string \<Rightarrow> bool" where
  "isNonPostgresError e = (take 8 e = ''PgStore:'')"

definition pg_handleError :: "time \<Rightarrow> string \<Rightarrow> int \<Rightarrow> pg_store \<Rightarrow> rl_result \<times> pg_store" where
  "pg_handleError now e cap s =
     (let offset = (if pg_strategy s = TOKEN_BUCKET then pg_refillIntervalMs s else pg_windowMs s);
          r = (if pg_failClosed s then plain_result (cap + 1) 0 (now + offset) True
               else plain_result 0 cap (now + offset) False)
      in (r\<lparr>storeUnavailable := True\<rparr>, pg_warn ''PgStore error'' e s))"

definition pg_increment ::
  "time \<Rightarrow> key \<Rightarrow> inc_opts option \<Rightarrow> pg_store \<Rightarrow> (string + rl_result) \<times> pg_store" where
  "pg_increment now k o' s =
     (let pk = pg_keyPrefix s @ k;
          cost = sanitizeIncrementCost (opt_cost o') 1;
          cap = (if pg_strategy s = TOKEN_BUCKET then pg_bucketSize s
                 else sanitizeRateLimitCap (js_or (opt_maxRequests o') (js_int (pg_maxRequests s))) (pg_maxRequests s))
      in case (case pg_strategy s of
                 FIXED_WINDOW \<Rightarrow> pg_incrementFixedWindow now pk cost cap s
               | TOKEN_BUCKET \<Rightarrow> pg_incrementTokenBucket now pk cost s
               | SLIDING_WINDOW \<Rightarrow> pg_incrementSlidingWindow now pk cost cap s) of
           (Inr r, s1) \<Rightarrow> (Inr r, s1)
         | (Inl e, s1) \<Rightarrow>
             if isNonPostgresError e then (Inl e, s1)
             else (case pg_handleError now e cap s1 of (r, s2) \<Rightarrow> (Inr r, s2)))"

section \<open>The other methods\<close>

definition sliding_decrement_body :: "time \<Rightarrow> key \<Rightarrow> int \<Rightarrow> bool \<Rightarrow> pg_store \<Rightarrow> (string + unit) \<times> pg_store" where
  "sliding_decrement_body dbNow k cost removeNewest s =
     (case pg_query (sql_sliding_len k) s of
        (Inl e, s1) \<Rightarrow> (Inl e, s1)
      | (Inr None, s1) \<Rightarrow> (Inr (), s1)
      | (Inr (Some len0), s1) \<Rightarrow>
          (let len = max 0 len0
           in if len = 0 \<or> len \<le> cost
              then (case pg_query (sql_delete k) s1 of
                      (Inl e, s2) \<Rightarrow> (Inl e, s2) | (Inr _, s2) \<Rightarrow> (Inr (), s2))
              else pg_query (sql_sliding_keep k (\<not> removeNewest) (len - cost) (pg_windowMs s) dbNow) s1))"

definition pg_decrementSliding :: "time \<Rightarrow> key \<Rightarrow> int \<Rightarrow> bool \<Rightarrow> pg_store \<Rightarrow> (string + unit) \<times> pg_store" where
  "pg_decrementSliding dbNow k cost removeNewest s =
     withTransaction (sliding_decrement_body dbNow k cost removeNewest) s"

text \<open>The \<open>catch\<close> of \<open>decrement\<close>, \<open>reset\<close> and \<open>delete\<close>: warn, and rethrow only when failing closed.\<close>

definition pg_swallow :: "string \<Rightarrow> 'a \<Rightarrow> (string + 'a) \<times> pg_store \<Rightarrow> (string + 'a) \<times> pg_store" where
  "pg_swallow msg d res =
     (case res of
        (Inr a, s) \<Rightarrow> (Inr a, s)
      | (Inl e, s) \<Rightarrow> (if pg_failClosed s then Inl e else Inr d, pg_warn msg e s))"

definition pg_decrement ::
  "time \<Rightarrow> key \<Rightarrow> dec_opts option \<Rightarrow> pg_store \<Rightarrow> (string + unit) \<times> pg_store" where
  "pg_decrement now k d s =
     (let pk = pg_keyPrefix s @ k; cost = sanitizeIncrementCost (opt_dec_cost d) 1
      in pg_swallow ''PgStore decrement failed'' ()
           (case pg_strategy s of
              FIXED_WINDOW \<Rightarrow> pg_query (sql_fixed_decrement pk cost) s
            | TOKEN_BUCKET \<Rightarrow> pg_query (sql_bucket_decrement pk cost (pg_bucketSize s)) s
            | SLIDING_WINDOW \<Rightarrow> pg_decrementSliding now pk cost (opt_removeNewest d) s))"

definition pg_reset :: "time \<Rightarrow> key \<Rightarrow> pg_store \<Rightarrow> (string + unit) \<times> pg_store" where
  "pg_reset now k s =
     pg_swallow ''PgStore reset failed'' ()
       (case pg_query (sql_delete (pg_keyPrefix s @ k)) s of
          (Inl e, s1) \<Rightarrow> (Inl e, s1) | (Inr _, s1) \<Rightarrow> (Inr (), s1))"

definition pg_shutdown :: "pg_store \<Rightarrow> pg_store" where
  "pg_shutdown s = s\<lparr>pg_sweepTimer := False\<rparr>"

definition pg_sweep :: "time \<Rightarrow> pg_store \<Rightarrow> int \<times> pg_store" where
  "pg_sweep dbNow s =
     (case pg_query (sql_sweep dbNow) s of
        (Inr n, s1) \<Rightarrow> (n, s1)
      | (Inl e, s1) \<Rightarrow> (0, pg_warn ''PgStore sweep failed'' e s1))"

text \<open>\<open>get\<close>. A row of the bucket has both bucket columns (\<open>row_ok\<close> below); on other rows the
  projection gives \<open>None\<close>.\<close>

definition pg_get :: "time \<Rightarrow> key \<Rightarrow> pg_store \<Rightarrow> rl_result option \<times> pg_store" where
  "pg_get now k s =
     (case pg_query (sql_get (pg_keyPrefix s @ k)) s of
        (Inl e, s1) \<Rightarrow> (None, pg_warn ''PgStore get failed'' e s1)
      | (Inr None, s1) \<Rightarrow> (None, s1)
      | (Inr (Some row), s1) \<Rightarrow>
          ((case pg_strategy s of
              FIXED_WINDOW \<Rightarrow>
                (if pr_reset_at row \<le> now then None
                 else Some (window_result (pr_total_hits row) (pg_maxRequests s) (pr_reset_at row)))
            | TOKEN_BUCKET \<Rightarrow>
                (case (pr_tokens row, pr_last_refill_at row) of
                   (Some tok, Some lr) \<Rightarrow>
                     (let (t, l) = refillBucketState tok lr now (pg_bucketSize s) (pg_tokensPerInterval s)
                                     (pg_refillIntervalMs s);
                          hits = pg_bucketSize s - t
                      in Some (plain_result hits t (l + pg_refillIntervalMs s)
                                 (t = 0 \<and> hits \<ge> pg_bucketSize s)))
                 | _ \<Rightarrow> None)
            | SLIDING_WINDOW \<Rightarrow>
                (let ts = filter (\<lambda>t. t > now - pg_windowMs s) (parseSlidingHitsJson (pr_hits row))
                 in if ts = [] then None
                    else Some (window_result (int (length ts)) (pg_maxRequests s)
                                 (resetTimeDateFromSlidingStamps ts (pg_windowMs s) now)))), s1))"

definition pg_set ::
  "time \<Rightarrow> key \<Rightarrow> int \<Rightarrow> time option \<Rightarrow> pg_store \<Rightarrow> (string + rl_result) \<times> pg_store" where
  "pg_set now k hits expiresAt s =
     (let pk = pg_keyPrefix s @ k;
          n = max 0 hits;
          resetAt = (case expiresAt of None \<Rightarrow> now + pg_windowMs s | Some e \<Rightarrow> e)
      in case pg_strategy s of
           FIXED_WINDOW \<Rightarrow>
             (case pg_query (sql_fixed_set pk n resetAt) s of
                (Inl e, s1) \<Rightarrow> (Inl e, s1)
              | (Inr _, s1) \<Rightarrow> (Inr (window_result n (pg_maxRequests s) resetAt), s1))
         | TOKEN_BUCKET \<Rightarrow>
             (let cap = pg_bucketSize s; blocked = n \<ge> cap; tokens = (if blocked then 0 else max 0 (cap - n));
                  out = (if blocked then cap else n); reset = now + pg_refillIntervalMs s
              in case pg_query (sql_bucket_upsert pk out reset tokens now) s of
                   (Inl e, s1) \<Rightarrow> (Inl e, s1)
                 | (Inr _, s1) \<Rightarrow> (Inr (plain_result out tokens reset blocked), s1))
         | SLIDING_WINDOW \<Rightarrow>
             (case pg_query (sql_sliding_set pk n resetAt (replicate (nat n) now)) s of
                (Inl e, s1) \<Rightarrow> (Inl e, s1)
              | (Inr _, s1) \<Rightarrow> (Inr (window_result n (pg_maxRequests s) resetAt), s1)))"

definition pg_delete :: "key \<Rightarrow> pg_store \<Rightarrow> (string + bool) \<times> pg_store" where
  "pg_delete k s = pg_swallow ''PgStore delete failed'' False (pg_query (sql_delete (pg_keyPrefix s @ k)) s)"

end
