(* ===== verification/Store_Refinement.thy ===== *)
theory Store_Refinement
  imports Memory_Store_Quota Store_Utils
begin

text \<open>
  What it means for a store on a database server to refine the in-memory store: a simulation that
  increments and (admitted) undos keep, with equal answers. The locale proves once that runs agree;
  the stores interpret it.
\<close>

text \<open>The answers to the increments of a run of calls.\<close>

primrec store_run ::
  "(time \<Rightarrow> key \<Rightarrow> inc_opts option \<Rightarrow> 's \<Rightarrow> 'r \<times> 's) \<Rightarrow> (time \<Rightarrow> key \<Rightarrow> dec_opts option \<Rightarrow> 's \<Rightarrow> 'd \<times> 's) \<Rightarrow>
   quota_call list \<Rightarrow> 's \<Rightarrow> 'r list \<times> 's" where
  "store_run inc dec [] s = ([], s)"
| "store_run inc dec (c # cs) s =
     (case c of
        Inc t k o' \<Rightarrow>
          (case inc t k o' s of (r, s1) \<Rightarrow> (case store_run inc dec cs s1 of (rs, s2) \<Rightarrow> (r # rs, s2)))
      | Dec t k d \<Rightarrow> store_run inc dec cs (snd (dec t k d s)))"

definition is_dec :: "quota_call \<Rightarrow> bool" where
  "is_dec c = (case c of Inc _ _ _ \<Rightarrow> False | Dec _ _ _ \<Rightarrow> True)"

locale memory_refinement =
  fixes inc :: "time \<Rightarrow> key \<Rightarrow> inc_opts option \<Rightarrow> 's \<Rightarrow> (string + rl_result) \<times> 's"
    and dec :: "time \<Rightarrow> key \<Rightarrow> dec_opts option \<Rightarrow> 's \<Rightarrow> (string + unit) \<times> 's"
    and sim :: "time \<Rightarrow> 's \<Rightarrow> mem_store \<Rightarrow> bool"
    and admits :: "mem_store \<Rightarrow> dec_opts option \<Rightarrow> bool"
  assumes sim_later: "sim t s m \<Longrightarrow> t \<le> t' \<Longrightarrow> sim t' s m"
    and sim_inv: "sim t s m \<Longrightarrow> mem_inv m"
    and sim_inc: "sim now s m \<Longrightarrow> mem_increment now k o' m = (r, m') \<Longrightarrow>
      \<exists>s'. inc now k o' s = (Inr r, s') \<and> sim now s' m'"
    and sim_dec: "sim now s m \<Longrightarrow> admits m d \<Longrightarrow>
      \<exists>s'. dec now k d s = (Inr (), s') \<and> sim now s' (mem_decrement k d m)"
    and admits_stable: "ms_strategy m' = ms_strategy m \<Longrightarrow> admits m d \<Longrightarrow> admits m' d"
begin

lemma runs_agree:
  assumes "sim t s m" "sorted (map call_time cs)" "\<forall>c \<in> set cs. t \<le> call_time c"
    and "\<And>t k d. Dec t k d \<in> set cs \<Longrightarrow> admits m d"
  shows "fst (store_run inc dec cs s) = map Inr (fst (mem_run cs m))"
  using assms
proof (induction cs arbitrary: t s m)
  case (Cons c cs)
  let ?t = "call_time c"
  have sim: "sim ?t s m" by (rule sim_later [OF Cons.prems(1)]) (use Cons.prems(3) in auto)
  have rest: "sorted (map call_time cs)" "\<forall>c \<in> set cs. ?t \<le> call_time c" using Cons.prems(2) by auto
  have adm: "admits m' d" if "Dec t k d \<in> set cs" "ms_strategy m' = ms_strategy m" for t k d m'
    using Cons.prems(4) [of t k d] that admits_stable by auto
  show ?case
  proof (cases c)
    case (Inc t' k o')
    obtain r m1 where inc: "mem_increment t' k o' m = (r, m1)" by fastforce
    obtain s1 where s1: "inc t' k o' s = (Inr r, s1)" "sim t' s1 m1"
      using sim_inc [of t' s m k o' r m1] sim inc Inc by auto
    have "ms_strategy m1 = ms_strategy m"
      using mem_cfg_eqD [OF mem_increment_inv(2) [OF sim_inv [OF sim] inc]] by simp
    with Cons.IH [OF s1(2)] rest adm Inc s1(1) inc show ?thesis by (simp add: case_prod_beta)
  next
    case (Dec t' k d)
    then obtain s1 where s1: "dec t' k d s = (Inr (), s1)" "sim t' s1 (mem_decrement k d m)"
      using sim_dec [of t' s m d k] sim Cons.prems(4) [of t' k d] by auto
    have "ms_strategy (mem_decrement k d m) = ms_strategy m"
      using mem_cfg_eqD [OF mem_decrement_inv(2) [OF sim_inv [OF sim]]] by simp
    with Cons.IH [OF s1(2)] rest adm Dec s1(1) show ?thesis by simp
  qed
qed simp

end

end
