(* ===== verification/Pg_Store_Properties.thy ===== *)
theory Pg_Store_Properties
  imports Pg_Store Store_Refinement
begin

text \<open>
  What the PostgreSQL store guarantees when its queries are answered: \<open>pg_sim\<close> relates the rows of the
  table to the entries of an in-memory store with the same configuration, and increments and
  undos keep it and give equal answers. The background sweep is unobservable for the fixed window;
  for the sliding window and the token bucket it is not, and the theorems say what is lost. When
  queries fail the store answers as its error policy says.
\<close>

section \<open>Rows and entries\<close>

definition abs_row :: "strategy \<Rightarrow> pg_row \<Rightarrow> key_state" where
  "abs_row st r =
     (case st of
        SLIDING_WINDOW \<Rightarrow> Sliding (parseSlidingHitsJson (pr_hits r)) None
      | FIXED_WINDOW \<Rightarrow> Fixed (pr_total_hits r) (pr_reset_at r)
      | TOKEN_BUCKET \<Rightarrow> Bucket (the (pr_tokens r)) (the (pr_last_refill_at r)))"

text \<open>A row of the strategy: hits in order of time, or both bucket columns set.\<close>

definition row_ok :: "strategy \<Rightarrow> time \<Rightarrow> pg_row \<Rightarrow> bool" where
  "row_ok st now r \<longleftrightarrow>
     (case st of
        SLIDING_WINDOW \<Rightarrow>
          (case pr_hits r of None \<Rightarrow> False
           | Some ts \<Rightarrow> ts \<noteq> [] \<and> sorted ts \<and> (\<forall>t \<in> set ts. t \<le> now))
      | FIXED_WINDOW \<Rightarrow> True
      | TOKEN_BUCKET \<Rightarrow> pr_tokens r \<noteq> None \<and> pr_last_refill_at r \<noteq> None)"

definition pg_config :: "pg_store \<Rightarrow> mem_store \<Rightarrow> bool" where
  "pg_config s m \<longleftrightarrow>
     ms_strategy m = pg_strategy s \<and>
     (if pg_strategy s = TOKEN_BUCKET
      then ms_tokensPerInterval m = pg_tokensPerInterval s \<and> ms_refillIntervalMs m = pg_refillIntervalMs s \<and>
           ms_bucketSize m = pg_bucketSize s
      else ms_windowMs m = pg_windowMs s \<and> ms_maxRequests m = pg_maxRequests s)"

definition pg_sim :: "time \<Rightarrow> pg_store \<Rightarrow> mem_store \<Rightarrow> bool" where
  "pg_sim now s m \<longleftrightarrow>
     mem_inv m \<and> ms_maxKeys m = 0 \<and> pg_config s m \<and> (\<forall>n. pg_net s n = Answered) \<and>
     (\<forall>k. map_option (abs_row (pg_strategy s)) (map_of (pg_table s) (pg_keyPrefix s @ k)) = map_of (ms_state m) k \<and>
          (\<forall>r. map_of (pg_table s) (pg_keyPrefix s @ k) = Some r \<longrightarrow> row_ok (pg_strategy s) now r))"

lemma pg_simD:
  assumes "pg_sim now s m"
  shows "mem_inv m" "ms_maxKeys m = 0" "pg_config s m" "pg_net s n = Answered"
    and "map_of (ms_state m) k = map_option (abs_row (pg_strategy s)) (map_of (pg_table s) (pg_keyPrefix s @ k))"
    and "map_of (pg_table s) (pg_keyPrefix s @ k) = Some r \<Longrightarrow> row_ok (pg_strategy s) now r"
  using assms by (auto simp: pg_sim_def)

lemma row_ok_later: "row_ok st t r \<Longrightarrow> t \<le> t' \<Longrightarrow> row_ok st t' r"
  by (cases st) (auto simp: row_ok_def split: option.splits)

lemma pg_sim_later: "pg_sim t s m \<Longrightarrow> t \<le> t' \<Longrightarrow> pg_sim t' s m"
  unfolding pg_sim_def by (blast intro: row_ok_later)

section \<open>Queries on a healthy connection\<close>

definition pg_frame :: "pg_store \<Rightarrow> pg_store \<Rightarrow> bool" where
  "pg_frame s s' \<longleftrightarrow> pg_strategy s' = pg_strategy s \<and> pg_windowMs s' = pg_windowMs s \<and>
     pg_maxRequests s' = pg_maxRequests s \<and> pg_tokensPerInterval s' = pg_tokensPerInterval s \<and>
     pg_refillIntervalMs s' = pg_refillIntervalMs s \<and> pg_bucketSize s' = pg_bucketSize s \<and>
     pg_keyPrefix s' = pg_keyPrefix s \<and> pg_failClosed s' = pg_failClosed s \<and> pg_pooled s' = pg_pooled s \<and>
     pg_net s' = pg_net s"

lemma pg_query_answered:
  assumes "\<And>n. pg_net s n = Answered" "f (pg_table s) = (a, t)"
  obtains s' where "pg_query f s = (Inr a, s')" "pg_table s' = t" "pg_frame s s'"
  using assms by (auto simp: pg_query_def Let_def pg_frame_def)

lemma pg_frame_trans: "pg_frame s s' \<Longrightarrow> pg_frame s' s'' \<Longrightarrow> pg_frame s s''"
  by (simp add: pg_frame_def)

text \<open>A transaction whose body succeeds commits what the body did.\<close>

lemma withTransaction_answered:
  assumes net: "\<And>n. pg_net s n = Answered"
    and body: "\<And>s1. pg_table s1 = pg_table s \<Longrightarrow> pg_frame s s1 \<Longrightarrow>
      \<exists>s2. body s1 = (Inr out, s2) \<and> pg_table s2 = t \<and> pg_frame s s2"
  obtains s' where "withTransaction body s = (Inr out, s')" "pg_table s' = t" "pg_frame s s'"
proof -
  have call: "\<exists>s2. pg_call s1 = (Inr (), s2) \<and> pg_table s2 = pg_table s1 \<and> pg_frame s s2" if "pg_frame s s1" for s1
    using that net by (auto simp: pg_call_def pg_query_def pg_frame_def)
  have refl: "pg_frame s s" by (simp add: pg_frame_def)
  obtain s0 where s0: "(if pg_pooled s then pg_call s else (Inr (), s)) = (Inr (), s0)"
    "pg_table s0 = pg_table s" "pg_frame s s0"
    using call [OF refl] refl by (cases "pg_pooled s") auto
  obtain s1 where s1: "pg_call s0 = (Inr (), s1)" "pg_table s1 = pg_table s" "pg_frame s s1"
    using call [OF s0(3)] s0(2) by auto
  obtain s2 where s2: "body s1 = (Inr out, s2)" "pg_table s2 = t" "pg_frame s s2"
    using body [OF s1(2,3)] by blast
  obtain s3 where s3: "pg_call s2 = (Inr (), s3)" "pg_table s3 = t" "pg_frame s s3"
    using call [OF s2(3)] s2(2) by auto
  have "pg_net s2 (pg_queries s2) = Answered" using s2(3) net by (simp add: pg_frame_def)
  then have "withTransaction body s = (Inr out, s3)"
    using s0 s1 s2 s3 by (simp add: withTransaction_def Let_def)
  with s3 that show ?thesis by blast
qed

section \<open>Increments\<close>

text \<open>One step of the simulation: the row of the key and the entry change alike.\<close>

lemma pg_sim_step:
  assumes sim: "pg_sim now s m" and frame: "pg_frame s s'"
    and inv: "mem_inv m'" "mem_cfg m' = mem_cfg m"
    and others: "\<And>k'. k' \<noteq> k \<Longrightarrow> map_of (ms_state m') k' = map_of (ms_state m) k'"
    and tab: "\<And>k'. k' \<noteq> pg_keyPrefix s @ k \<Longrightarrow> map_of (pg_table s') k' = map_of (pg_table s) k'"
    and key: "map_of (ms_state m') k = map_option (abs_row (pg_strategy s)) (map_of (pg_table s') (pg_keyPrefix s @ k))"
    and ok: "\<And>r. map_of (pg_table s') (pg_keyPrefix s @ k) = Some r \<Longrightarrow> row_ok (pg_strategy s) now r"
  shows "pg_sim now s' m'"
proof -
  have "map_option (abs_row (pg_strategy s)) (map_of (pg_table s') (pg_keyPrefix s @ k')) = map_of (ms_state m') k' \<and>
      (\<forall>r. map_of (pg_table s') (pg_keyPrefix s @ k') = Some r \<longrightarrow> row_ok (pg_strategy s) now r)" for k'
  proof (cases "k' = k")
    case True
    with key ok show ?thesis by simp
  next
    case False
    then have "map_of (pg_table s') (pg_keyPrefix s @ k') = map_of (pg_table s) (pg_keyPrefix s @ k')"
      by (intro tab) simp
    with False others [OF False] pg_simD(5,6) [OF sim, of k'] show ?thesis by simp
  qed
  with sim frame inv show ?thesis
    by (auto simp: pg_sim_def pg_frame_def pg_config_def dest!: mem_cfg_eqD)
qed

lemma pg_refill_agrees:
  "pg_config s m \<Longrightarrow> pg_strategy s = TOKEN_BUCKET \<Longrightarrow>
   refillBucketState t l now (pg_bucketSize s) (pg_tokensPerInterval s) (pg_refillIntervalMs s) =
     refillBucketStateForNow m t l now"
  by (rule refill_agrees) (simp_all add: pg_config_def)

lemma pg_cost_cap:
  "sanitizeIncrementCost (opt_cost o') 1 = eff_cost o'"
  "pg_config s m \<Longrightarrow> pg_strategy s \<noteq> TOKEN_BUCKET \<Longrightarrow>
   sanitizeRateLimitCap (js_or (opt_maxRequests o') (js_int (pg_maxRequests s))) (pg_maxRequests s) = eff_cap m o'"
  by (simp_all add: eff_cost_def eff_cap_def pg_config_def)

lemma sim_inc_fixed:
  assumes sim: "pg_sim now s m" and st: "pg_strategy s = FIXED_WINDOW"
    and inc: "mem_increment now k o' m = (r, m')"
  shows "\<exists>s'. pg_increment now k o' s = (Inr r, s') \<and> pg_sim now s' m'"
proof -
  let ?pk = "pg_keyPrefix s @ k"
  note f = pg_simD [OF sim] and at = mem_increment_at [OF pg_simD(1,2) [OF sim] inc]
  have cfg: "ms_strategy m = FIXED_WINDOW" "ms_windowMs m = pg_windowMs s"
    using f(3) st by (simp_all add: pg_config_def)
  obtain th reset t where u: "sql_fixed_upsert ?pk (eff_cost o') (now + pg_windowMs s) now (pg_table s) = ((th, reset), t)"
    by (metis prod.collapse)
  obtain s' where s': "pg_query (sql_fixed_upsert ?pk (eff_cost o') (now + pg_windowMs s) now) s = (Inr (th, reset), s')"
    "pg_table s' = t" "pg_frame s s'"
    using pg_query_answered [of s "sql_fixed_upsert ?pk (eff_cost o') (now + pg_windowMs s) now", OF f(4) u] .
  have row: "(\<exists>x. map_of t ?pk = Some x \<and> pr_total_hits x = th \<and> pr_reset_at x = reset) \<and>
      (r, snd (entry_increment m now o' (map_of (ms_state m) k))) = (window_result th (eff_cap m o') reset, Fixed th reset)"
    using u f(5) [of k] cfg at(4) st
    by (cases "map_of (pg_table s) ?pk")
      (auto simp: sql_fixed_upsert_def entry_increment_def live_fixed_def abs_row_def Let_def split: prod.splits)
  have tab: "map_of t k' = map_of (pg_table s) k'" if "k' \<noteq> ?pk" for k'
    using u that by (auto simp: sql_fixed_upsert_def Let_def)
  have "pg_sim now s' m'"
    by (rule pg_sim_step [OF sim s'(3) at(1,2,3), of k])
      (use row tab s'(2) at(5) st in \<open>auto simp: abs_row_def row_ok_def\<close>)
  moreover have "pg_increment now k o' s = (Inr r, s')"
    using s'(1) row pg_cost_cap(2) [OF f(3), of o'] st
    by (simp add: pg_increment_def pg_cost_cap(1) pg_incrementFixedWindow_def Let_def)
  ultimately show ?thesis by blast
qed

lemma sim_inc_sliding:
  assumes sim: "pg_sim now s m" and st: "pg_strategy s = SLIDING_WINDOW"
    and inc: "mem_increment now k o' m = (r, m')"
  shows "\<exists>s'. pg_increment now k o' s = (Inr r, s') \<and> pg_sim now s' m'"
proof -
  let ?pk = "pg_keyPrefix s @ k" and ?w = "pg_windowMs s" and ?new = "replicate (nat (eff_cost o')) now"
  note f = pg_simD [OF sim] and at = mem_increment_at [OF pg_simD(1,2) [OF sim] inc]
  have cfg: "ms_strategy m = SLIDING_WINDOW" "ms_windowMs m = ?w"
    using f(3) st by (simp_all add: pg_config_def)
  define L where "L = live_stamps ?w now (map_of (ms_state m) k) @ ?new"
  obtain th hits t where u: "sql_sliding_upsert ?pk (now + ?w) (now - ?w) ?w ?new (pg_table s) = ((th, hits), t)"
    by (metis prod.collapse)
  have new: "?new \<noteq> []" using eff_cost_pos(1) [of o'] by simp
  have old: "(\<exists>row ts. map_of (pg_table s) ?pk = Some row \<and> pr_hits row = Some ts \<and> sorted ts \<and>
      (\<forall>y \<in> set ts. y \<le> now) \<and> live_stamps ?w now (map_of (ms_state m) k) = filter (\<lambda>y. y > now - ?w) ts) \<or>
    (map_of (pg_table s) ?pk = None \<and> live_stamps ?w now (map_of (ms_state m) k) = [])"
    using f(5) [of k] f(6) [of k] st
    by (cases "map_of (pg_table s) ?pk")
      (auto simp: row_ok_def abs_row_def live_stamps_def parseSlidingHitsJson_def split: option.splits)
  then have L: "L \<noteq> []" "sorted L" "\<forall>y \<in> set L. y \<le> now"
    using new by (auto simp: L_def sorted_append sorted_wrt_filter)
  have row: "th = int (length L) \<and> hits = Some L \<and> (\<exists>x. map_of t ?pk = Some x \<and> pr_hits x = Some L)"
    using old u by (auto simp: sql_sliding_upsert_def filtered_hits_def sorted_live L_def Let_def)
  have tab: "map_of t k' = map_of (pg_table s) k'" if "k' \<noteq> ?pk" for k'
    using u that by (auto simp: sql_sliding_upsert_def Let_def)
  have r: "r = window_result (int (length L)) (eff_cap m o') (hd L + ?w)"
    and e: "map_of (ms_state m') k = Some (Sliding L None)"
    using at(4,5) cfg by (simp_all add: entry_increment_def L_def Let_def)
  obtain s' where s': "pg_query (sql_sliding_upsert ?pk (now + ?w) (now - ?w) ?w ?new) s = (Inr (th, hits), s')"
    "pg_table s' = t" "pg_frame s s'"
    using pg_query_answered [of s "sql_sliding_upsert ?pk (now + ?w) (now - ?w) ?w ?new", OF f(4) u] .
  have "pg_sim now s' m'"
    by (rule pg_sim_step [OF sim s'(3) at(1,2,3), of k])
      (use row tab s'(2) e st L in \<open>auto simp: abs_row_def row_ok_def parseSlidingHitsJson_def\<close>)
  moreover have "pg_increment now k o' s = (Inr r, s')"
    using s'(1) row pg_cost_cap(2) [OF f(3), of o'] st L
    by (simp add: pg_increment_def pg_cost_cap(1) pg_incrementSlidingWindow_def Let_def r
        resetTimeFromSlidingHitsRow_def parseSlidingHitsJson_def resetTime_sorted)
  ultimately show ?thesis by blast
qed

lemma bucket_body_answered:
  assumes sim: "pg_sim now s m" and st: "pg_strategy s = TOKEN_BUCKET"
    and s1: "pg_table s1 = pg_table s" "pg_frame s s1"
    and e: "entry_increment m now o' (map_of (ms_state m) k) = (r, Bucket n l)"
  shows "\<exists>s2. bucket_body now (pg_keyPrefix s @ k) (eff_cost o') s1 = (Inr r, s2) \<and> pg_frame s s2 \<and>
    pg_table s2 = snd (sql_bucket_upsert (pg_keyPrefix s @ k) (totalHits r) (resetTime r) n l (pg_table s))"
proof -
  let ?pk = "pg_keyPrefix s @ k"
  note f = pg_simD [OF sim]
  have cfg: "ms_strategy m = TOKEN_BUCKET" "ms_bucketSize m = pg_bucketSize s" "ms_refillIntervalMs m = pg_refillIntervalMs s"
    using f(3) st by (simp_all add: pg_config_def)
  have net: "pg_net s1 i = Answered" for i using f(4) s1(2) by (simp add: pg_frame_def)
  have c1: "pg_strategy s1 = pg_strategy s" "pg_bucketSize s1 = pg_bucketSize s"
    "pg_tokensPerInterval s1 = pg_tokensPerInterval s" "pg_refillIntervalMs s1 = pg_refillIntervalMs s"
    using s1(2) by (simp_all add: pg_frame_def)
  obtain s2 where s2: "pg_query (sql_bucket_select ?pk) s1 =
      (Inr (map_option (\<lambda>r. (pr_tokens r, pr_last_refill_at r)) (map_of (pg_table s) ?pk)), s2)"
    "pg_table s2 = pg_table s" "pg_frame s1 s2"
    using pg_query_answered [OF net, of "sql_bucket_select ?pk"] s1(1) by (auto simp: sql_bucket_select_def)
  have net2: "pg_net s2 i = Answered" for i using net s2(3) by (simp add: pg_frame_def)
  obtain t0 l0 where start: "(case map_option (\<lambda>r. (pr_tokens r, pr_last_refill_at r)) (map_of (pg_table s) ?pk) of
      None \<Rightarrow> Some (pg_bucketSize s1, now)
    | Some (tok, lr) \<Rightarrow> map_option (\<lambda>l. (case tok of None \<Rightarrow> 0 | Some n \<Rightarrow> n, l)) lr) = Some (t0, l0)"
    and live: "live_bucket m now (map_of (ms_state m) k) = refillBucketStateForNow m t0 l0 now"
  proof (cases "map_of (pg_table s) ?pk")
    case None
    with that [of "pg_bucketSize s" now] f(5) [of k] cfg c1 show ?thesis
      by (simp add: live_bucket_def refillBucketStateForNow_def Let_def)
  next
    case (Some row)
    then have "row_ok TOKEN_BUCKET now row" using f(6) [of k row] st by simp
    with Some that f(5) [of k] st show ?thesis by (auto simp: row_ok_def abs_row_def live_bucket_def)
  qed
  obtain t' l' where lv: "refillBucketStateForNow m t0 l0 now = (t', l')" by fastforce
  have re: "refillBucketState t0 l0 now (pg_bucketSize s1) (pg_tokensPerInterval s1) (pg_refillIntervalMs s1) = (t', l')"
    using pg_refill_agrees [OF f(3) st] lv c1 by simp
  have ent: "n = (if t' \<ge> eff_cost o' then t' - eff_cost o' else t')" "l = l'"
    "r = (if t' \<ge> eff_cost o' then plain_result (pg_bucketSize s - n) n (l' + pg_refillIntervalMs s) False
          else plain_result (pg_bucketSize s) 0 (l' + pg_refillIntervalMs s) True)"
    using e cfg by (auto simp: entry_increment_def live lv Let_def split: if_splits)
  obtain s3 where s3: "pg_query (sql_bucket_upsert ?pk (totalHits r) (resetTime r) n l) s2 = (Inr (), s3)"
    "pg_table s3 = snd (sql_bucket_upsert ?pk (totalHits r) (resetTime r) n l (pg_table s))" "pg_frame s2 s3"
    using pg_query_answered [OF net2, of "sql_bucket_upsert ?pk (totalHits r) (resetTime r) n l"] s2(2)
    by (auto simp: sql_bucket_upsert_def Let_def)
  have "bucket_body now ?pk (eff_cost o') s1 = (Inr r, s3)"
    using s2(1) start re s3(1) ent c1
    by (simp add: bucket_body_def Let_def split: if_splits)
  then show ?thesis using s3 pg_frame_trans [OF pg_frame_trans [OF s1(2) s2(3)] s3(3)] by blast
qed

lemma sim_inc_bucket:
  assumes sim: "pg_sim now s m" and st: "pg_strategy s = TOKEN_BUCKET"
    and inc: "mem_increment now k o' m = (r, m')"
  shows "\<exists>s'. pg_increment now k o' s = (Inr r, s') \<and> pg_sim now s' m'"
proof -
  let ?pk = "pg_keyPrefix s @ k"
  note f = pg_simD [OF sim] and at = mem_increment_at [OF pg_simD(1,2) [OF sim] inc]
  have cfg: "ms_strategy m = TOKEN_BUCKET" using f(3) st by (simp add: pg_config_def)
  obtain n l where e: "entry_increment m now o' (map_of (ms_state m) k) = (r, Bucket n l)"
    using at(4) cfg by (auto simp: entry_increment_def Let_def split: prod.splits if_splits)
  let ?t = "snd (sql_bucket_upsert ?pk (totalHits r) (resetTime r) n l (pg_table s))"
  obtain s' where s': "withTransaction (bucket_body now ?pk (eff_cost o')) s = (Inr r, s')"
    "pg_table s' = ?t" "pg_frame s s'"
    using withTransaction_answered [OF f(4), of "bucket_body now ?pk (eff_cost o')" r ?t]
      bucket_body_answered [OF sim st _ _ e] by blast
  have "pg_sim now s' m'"
    by (rule pg_sim_step [OF sim s'(3) at(1,2,3), of k])
      (use s'(2) at(5) e st in \<open>auto simp: sql_bucket_upsert_def abs_row_def row_ok_def Let_def split: option.splits\<close>)
  moreover have "pg_increment now k o' s = (Inr r, s')"
    using s'(1) st by (simp add: pg_increment_def pg_cost_cap(1) pg_incrementTokenBucket_def Let_def)
  ultimately show ?thesis by blast
qed

lemma pg_sim_increment:
  assumes "pg_sim now s m" "mem_increment now k o' m = (r, m')"
  shows "\<exists>s'. pg_increment now k o' s = (Inr r, s') \<and> pg_sim now s' m'"
  using sim_inc_fixed [OF assms(1) _ assms(2)] sim_inc_sliding [OF assms(1) _ assms(2)]
    sim_inc_bucket [OF assms(1) _ assms(2)]
  by (cases "pg_strategy s") auto

section \<open>Undos\<close>

lemma sliding_body_answered:
  assumes s1: "pg_table s1 = pg_table s" "pg_frame s s1" and net: "\<And>n. pg_net s n = Answered"
    and row: "map_of (pg_table s) k = Some row" "pr_hits row = Some ts" and c: "1 \<le> cost"
  shows "\<exists>s2. sliding_decrement_body dbNow k cost newest s1 = (Inr (), s2) \<and>
    pg_table s2 = (if int (length ts) \<le> cost then AList.delete k (pg_table s)
      else snd (sql_sliding_keep k (\<not> newest) (int (length ts) - cost) (pg_windowMs s) dbNow (pg_table s))) \<and>
    pg_frame s s2"
proof -
  have net1: "pg_net s1 n = Answered" for n using net s1(2) by (simp add: pg_frame_def)
  obtain s2 where s2: "pg_query (sql_sliding_len k) s1 = (Inr (Some (int (length ts))), s2)"
    "pg_table s2 = pg_table s" "pg_frame s1 s2"
    using pg_query_answered [of s1 "sql_sliding_len k", OF net1] s1(1) row by (auto simp: sql_sliding_len_def)
  have net2: "pg_net s2 n = Answered" for n using net1 s2(3) by (simp add: pg_frame_def)
  show ?thesis
  proof (cases "int (length ts) \<le> cost")
    case True
    obtain s3 where s3: "pg_query (sql_delete k) s2 = (Inr True, s3)" "pg_table s3 = AList.delete k (pg_table s)"
      "pg_frame s2 s3"
      using pg_query_answered [of s2 "sql_delete k", OF net2] s2(2) row
      by (auto simp: sql_delete_def jsmap_has_def)
    then have "sliding_decrement_body dbNow k cost newest s1 = (Inr (), s3)"
      using s2(1) True by (simp add: sliding_decrement_body_def Let_def)
    then show ?thesis using True s3 pg_frame_trans [OF pg_frame_trans [OF s1(2) s2(3)] s3(3)] by auto
  next
    case False
    let ?f = "sql_sliding_keep k (\<not> newest) (int (length ts) - cost) (pg_windowMs s) dbNow"
    obtain s3 where s3: "pg_query ?f s2 = (Inr (), s3)" "pg_table s3 = snd (?f (pg_table s))" "pg_frame s2 s3"
      using pg_query_answered [of s2 ?f, OF net2] s2(2) by (auto simp: sql_sliding_keep_def)
    have "pg_windowMs s1 = pg_windowMs s" using s1(2) by (simp add: pg_frame_def)
    moreover have "ts \<noteq> []" using False c by auto
    ultimately have "sliding_decrement_body dbNow k cost newest s1 = (Inr (), s3)"
      using s2(1) s3(1) False by (simp add: sliding_decrement_body_def Let_def)
    then show ?thesis using False s3 pg_frame_trans [OF pg_frame_trans [OF s1(2) s2(3)] s3(3)] by auto
  qed
qed

lemma sim_dec_sliding:
  assumes sim: "pg_sim now s m" and st: "pg_strategy s = SLIDING_WINDOW"
  shows "\<exists>s'. pg_decrement now k d s = (Inr (), s') \<and> pg_sim now s' (mem_decrement k d m)"
proof -
  let ?pk = "pg_keyPrefix s @ k" and ?c = "sanitizeIncrementCost (opt_dec_cost d) 1" and ?b = "opt_removeNewest d"
  note f = pg_simD [OF sim] and inv = mem_decrement_inv [OF pg_simD(1) [OF sim]]
  have els: "\<And>k'. k' \<noteq> k \<Longrightarrow> map_of (ms_state (mem_decrement k d m)) k' = map_of (ms_state m) k'"
    by (rule mem_decrement_elsewhere(1))
  have swallow: "pg_decrement now k d s = (Inr (), s')" if "withTransaction (sliding_decrement_body now ?pk ?c ?b) s = (Inr (), s')" for s'
    using that st by (simp add: pg_decrement_def pg_decrementSliding_def pg_swallow_def)
  show ?thesis
  proof (cases "map_of (pg_table s) ?pk")
    case None
    have "\<exists>s2. sliding_decrement_body now ?pk ?c ?b s1 = (Inr (), s2) \<and> pg_table s2 = pg_table s \<and> pg_frame s s2"
      if "pg_table s1 = pg_table s" "pg_frame s s1" for s1
    proof -
      have net1: "pg_net s1 n = Answered" for n using f(4) that(2) by (simp add: pg_frame_def)
      have "sql_sliding_len ?pk (pg_table s1) = (None, pg_table s)"
        by (simp add: sql_sliding_len_def that(1) None)
      then obtain s2 where "pg_query (sql_sliding_len ?pk) s1 = (Inr None, s2)" "pg_table s2 = pg_table s" "pg_frame s1 s2"
        by (rule pg_query_answered [OF net1])
      with that(2) pg_frame_trans show ?thesis by (auto simp: sliding_decrement_body_def)
    qed
    then obtain s' where s': "withTransaction (sliding_decrement_body now ?pk ?c ?b) s = (Inr (), s')"
      "pg_table s' = pg_table s" "pg_frame s s'"
      using withTransaction_answered [of s "sliding_decrement_body now ?pk ?c ?b" "()" "pg_table s", OF f(4)] by blast
    have "map_of (ms_state (mem_decrement k d m)) k = None"
      using f(5) [of k] None by (intro mem_decrement_elsewhere(2)) simp
    then have "pg_sim now s' (mem_decrement k d m)"
      by (intro pg_sim_step [OF sim s'(3) inv els, of k]) (use s'(2) None in simp_all)
    with swallow [OF s'(1)] show ?thesis by blast
  next
    case (Some row)
    with f(6) [of k row] st obtain ts where ts: "pr_hits row = Some ts" "ts \<noteq> []" "sorted ts" "\<forall>t \<in> set ts. t \<le> now"
      by (auto simp: row_ok_def split: option.splits)
    let ?t = "if int (length ts) \<le> ?c then AList.delete ?pk (pg_table s)
      else snd (sql_sliding_keep ?pk (\<not> ?b) (int (length ts) - ?c) (pg_windowMs s) now (pg_table s))"
    have body: "\<exists>s2. sliding_decrement_body now ?pk ?c ?b s1 = (Inr (), s2) \<and> pg_table s2 = ?t \<and> pg_frame s s2"
      if "pg_table s1 = pg_table s" "pg_frame s s1" for s1
      by (rule sliding_body_answered [OF that f(4) Some ts(1)]) simp
    obtain s' where s': "withTransaction (sliding_decrement_body now ?pk ?c ?b) s = (Inr (), s')"
      "pg_table s' = ?t" "pg_frame s s'"
      by (rule withTransaction_answered [OF f(4) body])
    define kept where "kept = (if ?b then take (length ts - nat ?c) ts else drop (nat ?c) ts)"
    have e: "map_of (ms_state m) k = Some (Sliding ts None)"
      using f(5) [of k] Some st ts(1) by (simp add: abs_row_def parseSlidingHitsJson_def)
    have le: "length ts \<le> nat ?c \<longleftrightarrow> int (length ts) \<le> ?c" by (rule le_nat_iff [OF less_imp_le [OF sanitizeIncrementCost_pos]])
    have e': "map_of (ms_state (mem_decrement k d m)) k =
        (if int (length ts) \<le> ?c then None else Some (Sliding kept None))"
      using mem_decrement_entry [OF f(1) e, of d] ts(2) le
      by (auto simp: kept_def entry_undo_def entry_undo_oldest_def Let_def min_def)
    have kept: "sorted kept" "set kept \<subseteq> set ts" "\<not> int (length ts) \<le> ?c \<Longrightarrow> kept \<noteq> []"
      using ts(2,3) le by (auto simp: kept_def dest: in_set_takeD in_set_dropD intro: sorted_wrt_take sorted_wrt_drop)
    have n: "nat (int (length ts) - ?c) = length ts - nat ?c" "length ts - (length ts - nat ?c) = nat ?c"
      if "\<not> int (length ts) \<le> ?c" using that le nat_diff_distrib [of ?c "int (length ts)"]
        less_imp_le [OF sanitizeIncrementCost_pos, of "opt_dec_cost d"] by auto
    have tab: "map_of ?t ?pk = None" if "int (length ts) \<le> ?c" using that by simp
    have tab': "\<exists>x. map_of ?t ?pk = Some x \<and> pr_hits x = Some kept" if "\<not> int (length ts) \<le> ?c"
      using that n [OF that] Some ts(1) by (simp add: sql_sliding_keep_def kept_def Let_def)
    have others: "map_of ?t k' = map_of (pg_table s) k'" if "k' \<noteq> ?pk" for k'
      using that by (auto simp: sql_sliding_keep_def map_of_delete_if Let_def split: option.split)
    have "pg_sim now s' (mem_decrement k d m)"
    proof (rule pg_sim_step [OF sim s'(3) inv els, of k])
      show "map_of (ms_state (mem_decrement k d m)) k = map_option (abs_row (pg_strategy s)) (map_of (pg_table s') ?pk)"
        using e' tab tab' st unfolding s'(2)
        by (cases "int (length ts) \<le> ?c") (auto simp: abs_row_def parseSlidingHitsJson_def)
      show "row_ok (pg_strategy s) now r" if "map_of (pg_table s') ?pk = Some r" for r
        using that tab tab' kept ts(4) st unfolding s'(2)
        by (cases "int (length ts) \<le> ?c") (auto simp: row_ok_def)
      show "map_of (pg_table s') k' = map_of (pg_table s) k'" if "k' \<noteq> ?pk" for k'
        using others [OF that] s'(2) by simp
    qed
    with swallow [OF s'(1)] show ?thesis by blast
  qed
qed

lemma sim_dec_bucket:
  assumes sim: "pg_sim now s m" and st: "pg_strategy s = TOKEN_BUCKET"
  shows "\<exists>s'. pg_decrement now k d s = (Inr (), s') \<and> pg_sim now s' (mem_decrement k d m)"
proof -
  let ?pk = "pg_keyPrefix s @ k" and ?c = "sanitizeIncrementCost (opt_dec_cost d) 1"
  let ?f = "sql_bucket_decrement ?pk ?c (pg_bucketSize s)"
  note f = pg_simD [OF sim] and inv = mem_decrement_inv [OF pg_simD(1) [OF sim]]
  have cfg: "ms_bucketSize m = pg_bucketSize s" using f(3) st by (simp add: pg_config_def)
  obtain s' where s': "pg_query ?f s = (Inr (), s')" "pg_table s' = snd (?f (pg_table s))" "pg_frame s s'"
    using pg_query_answered [of s ?f, OF f(4)] by (auto simp: sql_bucket_decrement_def)
  have "pg_sim now s' (mem_decrement k d m)"
  proof (rule pg_sim_step [OF sim s'(3) inv mem_decrement_elsewhere(1), of _ k])
    show "map_of (pg_table s') k' = map_of (pg_table s) k'" if "k' \<noteq> ?pk" for k'
      using that by (auto simp: s'(2) sql_bucket_decrement_def Let_def split: option.split)
    show "map_of (ms_state (mem_decrement k d m)) k = map_option (abs_row (pg_strategy s)) (map_of (pg_table s') ?pk)"
    proof (cases "map_of (pg_table s) ?pk")
      case None
      then have "map_of (ms_state (mem_decrement k d m)) k = None"
        using f(5) [of k] by (intro mem_decrement_elsewhere(2)) simp
      with None show ?thesis by (simp add: s'(2) sql_bucket_decrement_def)
    next
      case (Some row)
      then obtain n l where row: "pr_tokens row = Some n" "pr_last_refill_at row = Some l"
        using f(6) [of k row] st by (auto simp: row_ok_def)
      then have e: "map_of (ms_state m) k = Some (Bucket n l)" using f(5) [of k] Some st by (simp add: abs_row_def)
      show ?thesis
        using mem_decrement_entry [OF f(1) e, of d] Some row st cfg
        by (auto simp: s'(2) sql_bucket_decrement_def abs_row_def entry_undo_def entry_undo_oldest_def Let_def)
    qed
    show "row_ok (pg_strategy s) now r" if "map_of (pg_table s') ?pk = Some r" for r
      using that f(6) [of k] st
      by (auto simp: s'(2) sql_bucket_decrement_def row_ok_def Let_def split: option.splits)
  qed simp
  moreover have "pg_decrement now k d s = (Inr (), s')"
    using s'(1) st by (simp add: pg_decrement_def pg_swallow_def)
  ultimately show ?thesis by blast
qed

section \<open>Runs\<close>

text \<open>The store refines the in-memory store, undos of a fixed window apart: the store in memory drops an
  entry that is undone to zero, the row keeps its window.\<close>

interpretation pg: memory_refinement pg_increment pg_decrement pg_sim
    "\<lambda>m d. ms_strategy m \<noteq> FIXED_WINDOW"
proof unfold_locales
  show "pg_sim t s m \<Longrightarrow> t \<le> t' \<Longrightarrow> pg_sim t' s m" for t t' s m by (rule pg_sim_later)
  show "pg_sim t s m \<Longrightarrow> mem_inv m" for t s m by (rule pg_simD)
  show "pg_sim now s m \<Longrightarrow> mem_increment now k o' m = (r, m') \<Longrightarrow>
      \<exists>s'. pg_increment now k o' s = (Inr r, s') \<and> pg_sim now s' m'" for now s m k o' r m'
    by (rule pg_sim_increment)
  show "\<exists>s'. pg_decrement now k d s = (Inr (), s') \<and> pg_sim now s' (mem_decrement k d m)"
    if sim: "pg_sim now s m" and st: "ms_strategy m \<noteq> FIXED_WINDOW" for now s m k d
    using sim_dec_sliding [OF sim] sim_dec_bucket [OF sim] st pg_simD(3) [OF sim]
    by (cases "pg_strategy s") (auto simp: pg_config_def)
  show "ms_strategy m' = ms_strategy m \<Longrightarrow> ms_strategy m \<noteq> FIXED_WINDOW \<Longrightarrow> ms_strategy m' \<noteq> FIXED_WINDOW"
    for m m' :: mem_store by simp
qed

section \<open>The background sweep\<close>

lemma pg_sweep_answered:
  assumes "\<And>n. pg_net s n = Answered"
  obtains s' n where "pg_sweep now s = (n, s')" "pg_frame s s'"
    "pg_table s' = filter (\<lambda>(k, r). \<not> pr_reset_at r < now) (pg_table s)"
proof -
  have "sql_sweep now (pg_table s) = (fst (sql_sweep now (pg_table s)), snd (sql_sweep now (pg_table s)))" by simp
  then obtain s' where "pg_query (sql_sweep now) s = (Inr (fst (sql_sweep now (pg_table s))), s')"
    "pg_table s' = snd (sql_sweep now (pg_table s))" "pg_frame s s'"
    by (rule pg_query_answered [of s "sql_sweep now", OF assms])
  then show ?thesis using that by (simp add: pg_sweep_def sql_sweep_def)
qed

lemma swept_row:
  assumes "jsmap_ok t"
  shows "map_of (filter (\<lambda>(k, r). \<not> pr_reset_at r < now) t) k =
    (case map_of t k of None \<Rightarrow> None | Some r \<Rightarrow> if pr_reset_at r < now then None else Some r)"
  using map_of_filter_key [OF assms, of "\<lambda>(k, r). \<not> pr_reset_at r < now" k] by (auto split: option.splits)

text \<open>In a fixed window the sweep only takes rows whose window is over: what the store answers at any
  later time is the same.\<close>

lemma sweep_fixed_unobservable:
  assumes "pg_strategy s = FIXED_WINDOW" "\<And>n. pg_net s n = Answered" "jsmap_ok (pg_table s)" "now \<le> t"
  shows "fst (pg_increment t k o' (snd (pg_sweep now s))) = fst (pg_increment t k o' s)"
proof -
  obtain s' n where s': "pg_sweep now s = (n, s')" "pg_frame s s'"
    "pg_table s' = filter (\<lambda>(k, r). \<not> pr_reset_at r < now) (pg_table s)"
    using pg_sweep_answered [OF assms(2)] .
  have "fst (sql_fixed_upsert k' c w t (pg_table s')) = fst (sql_fixed_upsert k' c w t (pg_table s))" for k' c w
    using assms(4) by (auto simp: s'(3) sql_fixed_upsert_def swept_row [OF assms(3)] Let_def split: option.splits)
  moreover have "fst (pg_query f q) = Inr (fst (f (pg_table q)))" if "\<And>n. pg_net q n = Answered"
    for q and f :: "pg_table \<Rightarrow> (int \<times> time) \<times> pg_table"
    using that by (simp add: pg_query_def Let_def case_prod_beta)
  moreover have "pg_net s' n = Answered" for n using s'(2) assms(2) by (simp add: pg_frame_def)
  ultimately have q: "fst (pg_query (sql_fixed_upsert k' c w t) s') = fst (pg_query (sql_fixed_upsert k' c w t) s)"
    for k' c w using assms(2) by simp
  have ok: "\<exists>x y. fst (pg_query (sql_fixed_upsert k' c w t) s) = Inr (x, y)" for k' c w
    using assms(2) by (simp add: pg_query_def Let_def case_prod_beta prod_eq_iff)
  have eq: "fst (pg_incrementFixedWindow t k' c cap s') = fst (pg_incrementFixedWindow t k' c cap s) \<and>
      (\<exists>r. fst (pg_incrementFixedWindow t k' c cap s) = Inr r)" for k' c cap
    using q [of k' c "t + pg_windowMs s"] ok [of k' c "t + pg_windowMs s"] s'(2)
    by (auto simp: pg_incrementFixedWindow_def pg_frame_def case_prod_beta split: sum.splits)
  have f: "pg_strategy s' = FIXED_WINDOW" "pg_keyPrefix s' = pg_keyPrefix s" "pg_maxRequests s' = pg_maxRequests s"
    using s'(2) assms(1) by (simp_all add: pg_frame_def)
  let ?i = "\<lambda>q. pg_incrementFixedWindow t (pg_keyPrefix s @ k) (sanitizeIncrementCost (opt_cost o') 1)
    (sanitizeRateLimitCap (js_or (opt_maxRequests o') (js_int (pg_maxRequests s))) (pg_maxRequests s)) q"
  obtain r q1 q2 where "?i s' = (Inr r, q1)" "?i s = (Inr r, q2)"
    using eq by (metis prod.collapse)
  then show ?thesis using assms(1) f by (simp add: s'(1) pg_increment_def Let_def)
qed

text \<open>In a sliding window it also takes rows whose hits still count: a second increment leaves the row
  with a \<open>reset_at\<close> that is already over.\<close>

lemma fold_max_upper: "\<forall>y \<in> set ts. y \<le> (b::time) \<Longrightarrow> a \<le> b \<Longrightarrow> b \<in> insert a (set ts) \<Longrightarrow> fold max ts a = b"
proof (induction ts arbitrary: a)
  case (Cons t ts)
  then show ?case by (cases "t \<le> a") (auto simp: max_def)
qed simp

lemma sliding_reset_at_now:
  assumes sim: "pg_sim now s m" and st: "pg_strategy s = SLIDING_WINDOW"
    and row: "map_of (pg_table s) (pg_keyPrefix s @ k) = Some row"
  shows "\<exists>r s' row'. pg_increment now k o' s = (Inr r, s') \<and> pg_frame s s' \<and>
    map_of (pg_table s') (pg_keyPrefix s @ k) = Some row' \<and> pr_reset_at row' = now \<and>
    now \<in> set (parseSlidingHitsJson (pr_hits row')) \<and> (jsmap_ok (pg_table s) \<longrightarrow> jsmap_ok (pg_table s'))"
proof -
  let ?pk = "pg_keyPrefix s @ k" and ?w = "pg_windowMs s" and ?new = "replicate (nat (eff_cost o')) now"
  note f = pg_simD [OF sim]
  obtain ts where ts: "pr_hits row = Some ts" "\<forall>y \<in> set ts. y \<le> now"
    using f(6) [OF row] st by (auto simp: row_ok_def split: option.splits)
  define L where "L = filtered_hits (pr_hits row) (now - ?w) @ ?new"
  have new: "?new \<noteq> []" "now \<in> set ?new" using eff_cost_pos(1) [of o'] by simp_all
  have L: "\<forall>y \<in> set L. y \<le> now" "now \<in> set L" "L \<noteq> []"
    using ts new by (auto simp: L_def filtered_hits_def)
  have "sql_max L = Some now"
    using L fold_max_upper [of "tl L" now "hd L"] by (cases L) (auto simp: sql_max_def)
  then obtain th t where u: "sql_sliding_upsert ?pk (now + ?w) (now - ?w) ?w ?new (pg_table s) = ((th, Some L), t)"
    and row': "map_of t ?pk = Some (row\<lparr>pr_hits := Some L, pr_total_hits := int (length L), pr_reset_at := now\<rparr>)"
    and ok: "jsmap_ok (pg_table s) \<longrightarrow> jsmap_ok t"
    using row by (auto simp: sql_sliding_upsert_def L_def [symmetric] Let_def)
  obtain s' where s': "pg_query (sql_sliding_upsert ?pk (now + ?w) (now - ?w) ?w ?new) s = (Inr (th, Some L), s')"
    "pg_table s' = t" "pg_frame s s'"
    by (rule pg_query_answered [of s "sql_sliding_upsert ?pk (now + ?w) (now - ?w) ?w ?new", OF f(4) u])
  obtain r where "pg_increment now k o' s = (Inr r, s')"
    using s'(1) st by (simp add: pg_increment_def pg_cost_cap(1) pg_incrementSlidingWindow_def Let_def)
  then show ?thesis using s' row' L ok by (auto simp: parseSlidingHitsJson_def)
qed

text \<open>In a token bucket the sweep hands out a full bucket: a swept row is a key never seen.\<close>

lemma absent_bucket_full:
  assumes "pg_strategy s = TOKEN_BUCKET" "\<And>n. pg_net s n = Answered"
    and "map_of (pg_table s) (pg_keyPrefix s @ k) = None" "eff_cost o' \<le> pg_bucketSize s"
  shows "\<exists>s'. pg_increment t k o' s = (Inr (plain_result (eff_cost o') (pg_bucketSize s - eff_cost o')
    (t + pg_refillIntervalMs s) False), s')"
proof -
  let ?pk = "pg_keyPrefix s @ k"
  let ?r = "plain_result (eff_cost o') (pg_bucketSize s - eff_cost o') (t + pg_refillIntervalMs s) False"
  let ?up = "sql_bucket_upsert ?pk (eff_cost o') (t + pg_refillIntervalMs s) (pg_bucketSize s - eff_cost o') t"
  have refill: "refillBucketState (pg_bucketSize s) t t (pg_bucketSize s) tpi i = (pg_bucketSize s, t)" for tpi i
    by (simp add: refillBucketState_def)
  have body: "\<exists>s2. bucket_body t ?pk (eff_cost o') s1 = (Inr ?r, s2) \<and> pg_table s2 = snd (?up (pg_table s)) \<and> pg_frame s s2"
    if s1: "pg_table s1 = pg_table s" "pg_frame s s1" for s1
  proof -
    have net1: "pg_net s1 n = Answered" for n using assms(2) s1(2) by (simp add: pg_frame_def)
    have "sql_bucket_select ?pk (pg_table s1) = (None, pg_table s)"
      by (simp add: sql_bucket_select_def s1(1) assms(3))
    then obtain s2 where s2: "pg_query (sql_bucket_select ?pk) s1 = (Inr None, s2)" "pg_table s2 = pg_table s" "pg_frame s1 s2"
      by (rule pg_query_answered [OF net1])
    have net2: "pg_net s2 n = Answered" for n using net1 s2(3) by (simp add: pg_frame_def)
    have "?up (pg_table s2) = ((), snd (?up (pg_table s)))" by (simp add: s2(2) prod_eq_iff)
    then obtain s3 where s3: "pg_query ?up s2 = (Inr (), s3)" "pg_table s3 = snd (?up (pg_table s))" "pg_frame s2 s3"
      by (rule pg_query_answered [OF net2])
    have c1: "pg_bucketSize s1 = pg_bucketSize s" "pg_refillIntervalMs s1 = pg_refillIntervalMs s"
      using s1(2) by (simp_all add: pg_frame_def)
    have "bucket_body t ?pk (eff_cost o') s1 = (Inr ?r, s3)"
      using s2(1) s3(1) refill assms(4) c1 by (simp add: bucket_body_def Let_def)
    with s3(2) pg_frame_trans [OF pg_frame_trans [OF s1(2) s2(3)] s3(3)] show ?thesis by blast
  qed
  obtain s' where "withTransaction (bucket_body t ?pk (eff_cost o')) s = (Inr ?r, s')"
    by (rule withTransaction_answered [OF assms(2) body])
  then show ?thesis using assms(1)
    by (simp add: pg_increment_def pg_cost_cap(1) pg_incrementTokenBucket_def Let_def)
qed

section \<open>Failures\<close>

lemma withTransaction_fails:
  assumes "\<And>n. \<exists>e. pg_net s n = Failed e" "withTransaction body s = (res, s')"
  obtains e n where "res = Inl e" "pg_net s n = Failed e" "pg_frame s s'" "pg_table s' = pg_table s" "pg_warnings s' = pg_warnings s"
proof -
  have call: "\<exists>e. pg_call q = (Inl e, q\<lparr>pg_queries := Suc (pg_queries q)\<rparr>) \<and> pg_net s (pg_queries q) = Failed e"
    if "pg_net q = pg_net s" for q
    using assms(1) [of "pg_queries q"] that by (auto simp: pg_call_def pg_query_def Let_def)
  show ?thesis
  proof (cases "pg_pooled s")
    case True
    obtain e where "pg_call s = (Inl e, s\<lparr>pg_queries := Suc (pg_queries s)\<rparr>)" "pg_net s (pg_queries s) = Failed e"
      using call [of s] by auto
    with that [of e "pg_queries s"] True assms(2) show ?thesis by (auto simp: withTransaction_def pg_frame_def)
  next
    case False
    obtain e where "pg_call s = (Inl e, s\<lparr>pg_queries := Suc (pg_queries s)\<rparr>)" "pg_net s (pg_queries s) = Failed e"
      using call [of s] by auto
    with that [of e "pg_queries s"] False assms(2) show ?thesis
      by (auto simp: withTransaction_def pg_frame_def Let_def)
  qed
qed

lemma query_fails:
  assumes "\<And>n. \<exists>e. pg_net s n = Failed e" "pg_query f s = (res, s')"
  obtains e n where "res = Inl e" "pg_net s n = Failed e" "pg_frame s s'" "pg_table s' = pg_table s" "pg_warnings s' = pg_warnings s"
  using assms(1) [of "pg_queries s"] assms(2) that by (auto simp: pg_query_def pg_frame_def Let_def case_prod_beta)

lemma increment_fails:
  assumes down: "\<And>n. \<exists>e. pg_net s n = Failed e" and ours: "\<And>n. \<not> isNonPostgresError (fail_msg (pg_net s n))"
    and inc: "pg_increment now k o' s = (res, s')"
  obtains r e where "res = Inr r" "storeUnavailable r" "isBlocked r = pg_failClosed s"
    "pg_table s' = pg_table s" "pg_warnings s' = pg_warnings s @ [(''PgStore error'', e)]"
proof -
  let ?pk = "pg_keyPrefix s @ k" and ?c = "sanitizeIncrementCost (opt_cost o') 1"
  define cap where "cap = (if pg_strategy s = TOKEN_BUCKET then pg_bucketSize s
    else sanitizeRateLimitCap (js_or (opt_maxRequests o') (js_int (pg_maxRequests s))) (pg_maxRequests s))"
  define run where "run = (case pg_strategy s of
      FIXED_WINDOW \<Rightarrow> pg_incrementFixedWindow now ?pk ?c cap s
    | TOKEN_BUCKET \<Rightarrow> pg_incrementTokenBucket now ?pk ?c s
    | SLIDING_WINDOW \<Rightarrow> pg_incrementSlidingWindow now ?pk ?c cap s)"
  obtain e n s1 where r: "run = (Inl e, s1)" "pg_net s n = Failed e" "pg_frame s s1" "pg_table s1 = pg_table s"
    "pg_warnings s1 = pg_warnings s"
  proof (cases "pg_strategy s")
    case SLIDING_WINDOW
    obtain res1 s1 where q: "pg_query (sql_sliding_upsert ?pk (now + pg_windowMs s) (now - pg_windowMs s) (pg_windowMs s)
        (replicate (nat ?c) now)) s = (res1, s1)" by fastforce
    show ?thesis by (rule query_fails [OF down q])
        (use SLIDING_WINDOW q that in \<open>simp add: run_def pg_incrementSlidingWindow_def\<close>)
  next
    case TOKEN_BUCKET
    obtain res1 s1 where q: "withTransaction (bucket_body now ?pk ?c) s = (res1, s1)" by fastforce
    show ?thesis by (rule withTransaction_fails [OF down q])
        (use TOKEN_BUCKET q that in \<open>simp add: run_def pg_incrementTokenBucket_def\<close>)
  next
    case FIXED_WINDOW
    obtain res1 s1 where q: "pg_query (sql_fixed_upsert ?pk ?c (now + pg_windowMs s) now) s = (res1, s1)" by fastforce
    show ?thesis by (rule query_fails [OF down q])
        (use FIXED_WINDOW q that in \<open>simp add: run_def pg_incrementFixedWindow_def\<close>)
  qed
  have "\<not> isNonPostgresError e" using ours [of n] r(2) by simp
  moreover have "pg_increment now k o' s = (case run of (Inr r, s1) \<Rightarrow> (Inr r, s1)
      | (Inl e, s1) \<Rightarrow> if isNonPostgresError e then (Inl e, s1)
          else (case pg_handleError now e cap s1 of (r, s2) \<Rightarrow> (Inr r, s2)))"
    unfolding pg_increment_def Let_def run_def cap_def by (rule refl)
  ultimately have "(res, s') = (case pg_handleError now e cap s1 of (r, s2) \<Rightarrow> (Inr r, s2))"
    using inc r(1) by simp
  then show ?thesis
    using that r(3-5) by (auto simp: pg_handleError_def pg_warn_def pg_frame_def Let_def split: if_splits)
qed

section \<open>Properties\<close>

definition demo_pg :: "strategy \<Rightarrow> net_outcome \<Rightarrow> bool \<Rightarrow> pg_store" where
  "demo_pg st out closed' =
     the (new_PgStore \<lparr>po_strategy = Some st, po_windowMs = js_int 1000, po_maxRequests = js_int 2,
       po_tokensPerInterval = Some 1, po_interval = js_int 1000, po_bucketSize = js_int 2, po_tableName = None,
       po_autoSweepIntervalMs = None, po_keyPrefix = None, po_failClosed = closed', po_pooled = True\<rparr> (\<lambda>_. out) [])"

text \<open>(C11) While its queries are answered the PostgreSQL store gives, in any run of increments and undos in
  time order, exactly the answers of an in-memory store of the same configuration (the fixed
  window for increments alone: after an undo to zero the in-memory store starts a new window).\<close>

theorem pg_agrees_with_memory:
  assumes "\<forall>n. pg_net s n = Answered" "\<forall>k. map_of (pg_table s) (pg_keyPrefix s @ k) = None"
    and "mem_inv m" "ms_state m = []" "ms_maxKeys m = 0" "pg_config s m"
    and "sorted (map call_time cs)" "pg_strategy s = FIXED_WINDOW \<longrightarrow> \<not> list_ex is_dec cs"
  shows "fst (store_run pg_increment pg_decrement cs s) = map Inr (fst (mem_run cs m))"
proof (cases cs)
  case (Cons c cs')
  have "pg_sim (call_time c) s m" using assms(1-6) by (simp add: pg_sim_def)
  moreover have "\<forall>x \<in> set cs. call_time c \<le> call_time x" using assms(7) Cons by auto
  moreover have "ms_strategy m \<noteq> FIXED_WINDOW" if "Dec t k d \<in> set cs" for t k d
    using that assms(6,8) by (auto simp: pg_config_def list_ex_iff is_dec_def)
  ultimately show ?thesis by (intro pg.runs_agree [OF _ assms(7)])
qed simp

theorem pg_agrees_with_memory_witness:
  "fst (store_run pg_increment pg_decrement [Inc 0 ''a'' None, Inc 400 ''a'' None, Dec 500 ''a'' None, Inc 600 ''a'' None, Inc 700 ''a'' None]
      (demo_pg SLIDING_WINDOW Answered False)) =
   map Inr (fst (mem_run [Inc 0 ''a'' None, Inc 400 ''a'' None, Dec 500 ''a'' None, Inc 600 ''a'' None, Inc 700 ''a'' None]
      (new_MemoryStore (WindowOptions SLIDING_WINDOW (js_int 1000) (js_int 2)) (Some 0) None)))"
proof -
  let ?m = "new_MemoryStore (WindowOptions SLIDING_WINDOW (js_int 1000) (js_int 2)) (Some 0) None"
  let ?s = "demo_pg SLIDING_WINDOW Answered False"
  have s: "pg_net ?s n = Answered" for n by code_simp
  have t: "pg_table ?s = []" "pg_strategy ?s = SLIDING_WINDOW" by code_simp+
  have m: "mem_inv ?m" "ms_state ?m = []" "ms_maxKeys ?m = 0" by code_simp+
  have "pg_config ?s ?m" by code_simp
  then show ?thesis using pg_agrees_with_memory [of ?s ?m] s t m
    by (simp del: store_run.simps mem_run.simps)
qed

text \<open>The background sweep loses hits of a sliding window. On every increment of a key that has a row,
  the statement sets \<open>reset_at\<close> to the newest hit and not to its expiry; the next sweep, though the
  window still runs, deletes the row, and the key is as if it had never been counted.\<close>

theorem pg_sweep_forgets_hits:
  assumes "pg_sim now s m" "pg_strategy s = SLIDING_WINDOW" "jsmap_ok (pg_table s)"
    and "map_of (pg_table s) (pg_keyPrefix s @ k) = Some row"
    and "now < t" "t < now + pg_windowMs s"
  shows "\<exists>r s1. pg_increment now k o' s = (Inr r, s1) \<and> fst (pg_get t k s1) \<noteq> None \<and>
    fst (pg_get t k (snd (pg_sweep t s1))) = None"
proof -
  obtain r s1 row' where s1: "pg_increment now k o' s = (Inr r, s1)" "pg_frame s s1"
    and row': "map_of (pg_table s1) (pg_keyPrefix s @ k) = Some row'" "pr_reset_at row' = now"
      "now \<in> set (parseSlidingHitsJson (pr_hits row'))"
    and ok: "jsmap_ok (pg_table s1)"
    using sliding_reset_at_now [OF assms(1,2,4)] assms(3) by blast
  have net: "pg_net s1 n = Answered" for n using pg_simD(4) [OF assms(1)] s1(2) by (simp add: pg_frame_def)
  have f: "pg_strategy s1 = SLIDING_WINDOW" "pg_keyPrefix s1 = pg_keyPrefix s" "pg_windowMs s1 = pg_windowMs s"
    using s1(2) assms(2) by (simp_all add: pg_frame_def)
  have "filter (\<lambda>x. x > t - pg_windowMs s) (parseSlidingHitsJson (pr_hits row')) \<noteq> []"
    using row'(3) assms(6) by (auto simp: filter_empty_conv intro!: bexI [of _ now])
  then have "fst (pg_get t k s1) \<noteq> None"
    using row'(1) f net by (simp add: pg_get_def pg_query_def sql_get_def Let_def)
  moreover obtain s2 n where s2: "pg_sweep t s1 = (n, s2)" "pg_frame s1 s2"
    "pg_table s2 = filter (\<lambda>(k, r). \<not> pr_reset_at r < t) (pg_table s1)"
    using pg_sweep_answered [OF net] .
  have "fst (pg_get t k s2) = None"
    using s2(2,3) row'(1,2) f net assms(5)
    by (simp add: pg_get_def pg_query_def sql_get_def Let_def pg_frame_def swept_row [OF ok])
  ultimately show ?thesis using s1(1) s2(1) by auto
qed

theorem pg_sweep_forgets_hits_witness:
  "\<exists>r s1. pg_increment 10 ''a'' None (snd (pg_increment 0 ''a'' None (demo_pg SLIDING_WINDOW Answered False))) = (Inr r, s1) \<and>
    fst (pg_get 20 ''a'' s1) \<noteq> None \<and> fst (pg_get 20 ''a'' (snd (pg_sweep 20 s1))) = None"
proof -
  let ?init = "demo_pg SLIDING_WINDOW Answered False"
  let ?minit = "new_MemoryStore (WindowOptions SLIDING_WINDOW (js_int 1000) (js_int 2)) (Some 0) None"
  let ?s = "snd (pg_increment 0 ''a'' None ?init)" and ?m = "snd (mem_increment 0 ''a'' None ?minit)"
  have n: "pg_net ?init n = Answered" for n by code_simp
  have t: "pg_table ?init = []" by code_simp
  have m: "mem_inv ?minit" "ms_state ?minit = []" "ms_maxKeys ?minit = 0" by code_simp+
  have c: "pg_config ?init ?minit" by code_simp
  have "pg_sim 0 ?init ?minit" using m c n t by (simp add: pg_sim_def)
  moreover obtain r m' where i: "mem_increment 0 ''a'' None ?minit = (r, m')" by fastforce
  ultimately have sim: "pg_sim 10 ?s ?m"
    using pg_sim_increment [of 0 ?init ?minit "''a''" None r m'] pg_sim_later [of 0 _ _ 10] by auto
  have st: "pg_strategy ?s = SLIDING_WINDOW" "jsmap_ok (pg_table ?s)" "pg_windowMs ?s = 1000" by code_simp+
  have "map_of (pg_table ?s) (pg_keyPrefix ?s @ ''a'') \<noteq> None" by code_simp
  then obtain row where "map_of (pg_table ?s) (pg_keyPrefix ?s @ ''a'') = Some row" by blast
  from pg_sweep_forgets_hits [OF sim st(1,2) this, of 20 None] st(3) show ?thesis by simp
qed

text \<open>The same sweep refills a token bucket at once: whatever was left in it, the first request after
  its row expired finds it full, not one refill richer.\<close>

theorem pg_sweep_fills_bucket:
  assumes "pg_strategy s = TOKEN_BUCKET" "\<And>n. pg_net s n = Answered" "jsmap_ok (pg_table s)"
    and "map_of (pg_table s) (pg_keyPrefix s @ k) = Some row" "pr_reset_at row < t" "eff_cost o' \<le> pg_bucketSize s"
  shows "fst (pg_increment t k o' (snd (pg_sweep t s))) = Inr (plain_result (eff_cost o')
    (pg_bucketSize s - eff_cost o') (t + pg_refillIntervalMs s) False)"
proof -
  obtain s2 n where s2: "pg_sweep t s = (n, s2)" "pg_frame s s2"
    "pg_table s2 = filter (\<lambda>(k, r). \<not> pr_reset_at r < t) (pg_table s)"
    using pg_sweep_answered [OF assms(2)] .
  have f: "pg_strategy s2 = TOKEN_BUCKET" "pg_keyPrefix s2 = pg_keyPrefix s" "pg_bucketSize s2 = pg_bucketSize s"
    "pg_refillIntervalMs s2 = pg_refillIntervalMs s" "\<And>n. pg_net s2 n = Answered"
    using s2(2) assms(1,2) by (simp_all add: pg_frame_def)
  have "map_of (pg_table s2) (pg_keyPrefix s2 @ k) = None"
    using assms(4,5) by (simp add: s2(3) swept_row [OF assms(3)] f(2))
  from absent_bucket_full [OF f(1,5) this, of o' t] f assms(6) s2(1) show ?thesis by auto
qed

text \<open>When every query fails, an increment of the PostgreSQL store is answered by its error policy:
  blocked if it fails closed, allowed if it fails open, in both cases marked as unavailable, with
  one warning; the table is as before.\<close>

theorem pg_error_policy:
  assumes "\<And>n. \<exists>e. pg_net s n = Failed e" "\<And>n. \<not> isNonPostgresError (fail_msg (pg_net s n))"
    and "pg_increment now k o' s = (res, s')"
  shows "\<exists>r. res = Inr r \<and> storeUnavailable r \<and> isBlocked r = pg_failClosed s \<and> pg_table s' = pg_table s \<and>
    length (pg_warnings s') = Suc (length (pg_warnings s))"
  by (rule increment_fails [OF assms(1-3)]) auto

theorem pg_error_policy_witness:
  "isBlocked (projr (fst (pg_increment 0 ''a'' None (demo_pg TOKEN_BUCKET (Failed ''down'') True))))"
proof -
  let ?s = "demo_pg TOKEN_BUCKET (Failed ''down'') True"
  have n: "pg_net ?s n = Failed ''down''" for n by code_simp
  have c: "pg_failClosed ?s" by code_simp
  have nonpg: "\<not> isNonPostgresError ''down''" by code_simp
  obtain res s' where "pg_increment 0 ''a'' None ?s = (res, s')" by fastforce
  with pg_error_policy [of ?s 0 "''a''" None res s'] n c nonpg show ?thesis by auto
qed

end
