(* ===== verification/Pg_Concurrency.thy ===== *)
theory Pg_Concurrency
  imports Pg_Store_Properties
begin

text \<open>
  Token-bucket increments of the PostgreSQL store that overlap in time: \<open>incrementTokenBucket\<close> of
  \<open>src/stores/postgres/PgStore.ts\<close> inside \<open>withTransaction\<close>, run by several requests on one key. A request
  is cut at its round trips: \<open>BEGIN\<close>, \<open>SELECT ... FOR UPDATE\<close>, the upsert, and \<open>COMMIT\<close> or \<open>ROLLBACK\<close>.
  With a pool every request has a connection of its own and the server's documented row locks
  apply: \<open>FOR UPDATE\<close> locks the row if there is one, so that another \<open>FOR UPDATE\<close> or upsert of that row
  waits until the holder commits and then sees what it committed; where there is no row it locks
  nothing; an upsert locks the row it inserts or updates. A client without \<open>connect\<close> is one session
  that all requests share, and a session never waits for itself.

  The results: on a row that exists and with a pool, every interleaving is equal to running the
  committed requests one after the other in commit order; on a key without a row, or on a shared
  session, any number of requests that each would be granted alone can all be granted.
\<close>

section \<open>The computation between the two statements\<close>

definition bucket_decide ::
  "pg_store \<Rightarrow> time \<times> int \<Rightarrow> (int option \<times> time option) option \<Rightarrow> (rl_result \<times> int \<times> time) option" where
  "bucket_decide s nc sel =
     (case nc of (now, cost) \<Rightarrow>
        (case (case sel of
                 None \<Rightarrow> Some (pg_bucketSize s, now)
               | Some (tok, lr) \<Rightarrow> map_option (\<lambda>l. (case tok of None \<Rightarrow> 0 | Some n \<Rightarrow> n, l)) lr) of
           None \<Rightarrow> None
         | Some (tokens, lastRefill) \<Rightarrow>
             (let (t, l) = refillBucketState tokens lastRefill now (pg_bucketSize s)
                             (pg_tokensPerInterval s) (pg_refillIntervalMs s);
                  blocked = \<not> t \<ge> cost;
                  newTokens = (if blocked then t else t - cost);
                  hits = (if blocked then pg_bucketSize s else pg_bucketSize s - newTokens);
                  left = (if blocked then 0 else newTokens)
              in Some (plain_result hits left (l + pg_refillIntervalMs s) blocked, newTokens, l))))"

definition write_back :: "key \<Rightarrow> rl_result \<Rightarrow> int \<Rightarrow> time \<Rightarrow> pg_table \<Rightarrow> pg_table" where
  "write_back k r n l t = snd (sql_bucket_upsert k (totalHits r) (resetTime r) n l t)"

text \<open>The body of the transaction in the sequential model is this computation between the same statements.\<close>

lemma bucket_body_decide:
  "bucket_body now k cost s =
     (case pg_query (sql_bucket_select k) s of
        (Inl e, s1) \<Rightarrow> (Inl e, s1)
      | (Inr sel, s1) \<Rightarrow>
          (case bucket_decide s (now, cost) sel of
             None \<Rightarrow> (Inl ''PgStore: invalid last_refill_at'', s1)
           | Some (r, n, l) \<Rightarrow>
               (case pg_query (sql_bucket_upsert k (totalHits r) (resetTime r) n l) s1 of
                  (Inl e, s2) \<Rightarrow> (Inl e, s2)
                | (Inr _, s2) \<Rightarrow> (Inr r, s2))))"
proof -
  obtain q s1 where q: "pg_query (sql_bucket_select k) s = (q, s1)" by fastforce
  let ?start = "\<lambda>sel. case sel of None \<Rightarrow> Some (pg_bucketSize s, now)
    | Some (tok, lr) \<Rightarrow> map_option (\<lambda>l. (case tok of None \<Rightarrow> 0 | Some n \<Rightarrow> n, l)) lr"
  show ?thesis
  proof (cases q)
    case (Inr sel)
    show ?thesis
    proof (cases "?start sel")
      case None
      then show ?thesis using q Inr by (simp add: bucket_body_def bucket_decide_def)
    next
      case (Some st)
      obtain tok lr t l where st: "st = (tok, lr)" "refillBucketState tok lr now (pg_bucketSize s)
          (pg_tokensPerInterval s) (pg_refillIntervalMs s) = (t, l)" by (metis surj_pair)
      then show ?thesis using q Inr Some
        by (cases "t \<ge> cost") (simp_all add: bucket_body_def bucket_decide_def plain_result_def Let_def split: sum.split prod.split)
    qed
  qed (simp add: q bucket_body_def)
qed

section \<open>Interleaved transactions\<close>

datatype tx_phase =
    Outside
  | Opened
  | Selected "(int option \<times> time option) option"
  | Upserted rl_result int time
  | Committed rl_result
  | RolledBack

record tx_state =
  tx_table :: pg_table             \<comment> \<open>the table: committed rows, or what the shared session sees\<close>
  tx_lock :: "nat option"          \<comment> \<open>the request whose connection holds the lock of the key's row\<close>
  tx_phase :: "nat \<Rightarrow> tx_phase"
  tx_commits :: "nat list"

datatype tx_event = Begin nat | Select nat | Upsert nat | Commit nat | Rollback nat

definition in_transaction :: "tx_phase \<Rightarrow> bool" where
  "in_transaction p = (case p of Opened \<Rightarrow> True | Selected _ \<Rightarrow> True | Upserted _ _ _ \<Rightarrow> True | _ \<Rightarrow> False)"

definition lock_free :: "nat \<Rightarrow> tx_state \<Rightarrow> bool" where
  "lock_free i d \<longleftrightarrow> tx_lock d = None \<or> tx_lock d = Some i"

abbreviation (input) enter :: "nat \<Rightarrow> tx_phase \<Rightarrow> tx_state \<Rightarrow> tx_state" where
  "enter i p d \<equiv> d\<lparr>tx_phase := (tx_phase d)(i := p)\<rparr>"

text \<open>One round trip of a request; \<open>None\<close> where it has to wait or is not at that point. Requests carry
  the time at which they read the clock, before \<open>BEGIN\<close>, and their cost. \<open>ROLLBACK\<close> on a shared session
  is not modelled.\<close>

fun tx_step :: "pg_store \<Rightarrow> key \<Rightarrow> (nat \<Rightarrow> time \<times> int) \<Rightarrow> tx_event \<Rightarrow> tx_state \<Rightarrow> tx_state option" where
  "tx_step s k req (Begin i) d = (if tx_phase d i = Outside then Some (enter i Opened d) else None)"
| "tx_step s k req (Select i) d =
     (if tx_phase d i = Opened
      then (case sql_bucket_select k (tx_table d) of
              (sel, _) \<Rightarrow>
                if \<not> pg_pooled s \<or> sel = None then Some (enter i (Selected sel) d)
                else if lock_free i d then Some (enter i (Selected sel) (d\<lparr>tx_lock := Some i\<rparr>))
                else None)
      else None)"
| "tx_step s k req (Upsert i) d =
     (case tx_phase d i of
        Selected sel \<Rightarrow>
          (case bucket_decide s (req i) sel of
             None \<Rightarrow> None
           | Some (r, n, l) \<Rightarrow>
               if \<not> pg_pooled s then Some (enter i (Upserted r n l) (d\<lparr>tx_table := write_back k r n l (tx_table d)\<rparr>))
               else if lock_free i d then Some (enter i (Upserted r n l) (d\<lparr>tx_lock := Some i\<rparr>))
               else None)
      | _ \<Rightarrow> None)"
| "tx_step s k req (Commit i) d =
     (case tx_phase d i of
        Upserted r n l \<Rightarrow>
          (let d1 = enter i (Committed r) (d\<lparr>tx_commits := tx_commits d @ [i]\<rparr>)
           in Some (if pg_pooled s then d1\<lparr>tx_table := write_back k r n l (tx_table d), tx_lock := None\<rparr> else d1))
      | _ \<Rightarrow> None)"
| "tx_step s k req (Rollback i) d =
     (if pg_pooled s \<and> in_transaction (tx_phase d i)
      then Some (enter i RolledBack (d\<lparr>tx_lock := (if tx_lock d = Some i then None else tx_lock d)\<rparr>))
      else None)"

definition tx_init :: "pg_store \<Rightarrow> tx_state" where
  "tx_init s = \<lparr>tx_table = pg_table s, tx_lock = None, tx_phase = (\<lambda>_. Outside), tx_commits = []\<rparr>"

inductive tx_reach :: "pg_store \<Rightarrow> key \<Rightarrow> (nat \<Rightarrow> time \<times> int) \<Rightarrow> tx_state \<Rightarrow> bool" for s k req where
  tx_start: "tx_reach s k req (tx_init s)"
| tx_next: "tx_reach s k req d \<Longrightarrow> tx_step s k req e d = Some d' \<Longrightarrow> tx_reach s k req d'"

fun tx_run :: "pg_store \<Rightarrow> key \<Rightarrow> (nat \<Rightarrow> time \<times> int) \<Rightarrow> tx_event list \<Rightarrow> tx_state \<Rightarrow> tx_state option" where
  "tx_run s k req [] d = Some d"
| "tx_run s k req (e # es) d = (case tx_step s k req e d of None \<Rightarrow> None | Some d' \<Rightarrow> tx_run s k req es d')"

lemma tx_run_reach: "tx_run s k req es d = Some d' \<Longrightarrow> tx_reach s k req d \<Longrightarrow> tx_reach s k req d'"
  by (induction es arbitrary: d) (auto split: option.splits intro: tx_next)

section \<open>Serial runs\<close>

fun serial_increments ::
  "key \<Rightarrow> (time \<times> int) list \<Rightarrow> pg_store \<Rightarrow> (string + rl_result) list \<times> pg_store" where
  "serial_increments k [] s = ([], s)"
| "serial_increments k (q # qs) s =
     (case pg_incrementTokenBucket (fst q) k (snd q) s of
        (r, s1) \<Rightarrow> (case serial_increments k qs s1 of (rs, s2) \<Rightarrow> (r # rs, s2)))"

lemma serial_snoc:
  "serial_increments k (qs @ [q]) s =
     (case serial_increments k qs s of
        (rs, s1) \<Rightarrow> (case pg_incrementTokenBucket (fst q) k (snd q) s1 of (r, s2) \<Rightarrow> (rs @ [r], s2)))"
  by (induction qs arbitrary: s) (simp_all split: prod.splits)

lemma bucket_decide_frame: "pg_frame s s' \<Longrightarrow> bucket_decide s' = bucket_decide s"
  by (intro ext, simp only: bucket_decide_def pg_frame_def)

lemma serial_increment:
  assumes net: "\<And>n. pg_net s n = Answered"
    and d: "bucket_decide s (now, cost) (fst (sql_bucket_select k (pg_table s))) = Some (r, n, l)"
  obtains s' where "pg_incrementTokenBucket now k cost s = (Inr r, s')"
    "pg_table s' = write_back k r n l (pg_table s)" "pg_frame s s'"
proof -
  have body: "\<exists>s2. bucket_body now k cost s1 = (Inr r, s2) \<and> pg_table s2 = write_back k r n l (pg_table s) \<and> pg_frame s s2"
    if t1: "pg_table s1 = pg_table s" and f1: "pg_frame s s1" for s1
  proof -
    have net1: "pg_net s1 i = Answered" for i using net f1 by (simp add: pg_frame_def)
    obtain s2 where s2: "pg_query (sql_bucket_select k) s1 = (Inr (fst (sql_bucket_select k (pg_table s))), s2)"
      "pg_table s2 = pg_table s" "pg_frame s1 s2"
      by (rule pg_query_answered [OF net1, of "sql_bucket_select k" "fst (sql_bucket_select k (pg_table s))" "pg_table s"])
        (simp_all add: sql_bucket_select_def t1)
    have net2: "pg_net s2 i = Answered" for i using net1 s2(3) by (simp add: pg_frame_def)
    obtain s3 where s3: "pg_query (sql_bucket_upsert k (totalHits r) (resetTime r) n l) s2 = (Inr (), s3)"
      "pg_table s3 = write_back k r n l (pg_table s)" "pg_frame s2 s3"
      by (rule pg_query_answered [OF net2, of "sql_bucket_upsert k (totalHits r) (resetTime r) n l" "()"
            "write_back k r n l (pg_table s)"]) (simp_all add: sql_bucket_upsert_def write_back_def Let_def s2(2))
    have "bucket_body now k cost s1 = (Inr r, s3)"
      using s2(1) s3(1) d by (simp add: bucket_body_decide bucket_decide_frame [OF f1])
    with s3(2) pg_frame_trans [OF pg_frame_trans [OF f1 s2(3)] s3(3)] show ?thesis by blast
  qed
  show ?thesis
    by (rule withTransaction_answered [of s "bucket_body now k cost" r "write_back k r n l (pg_table s)", OF net body])
      (simp_all add: that pg_incrementTokenBucket_def)
qed

section \<open>With a pool, on a row that exists\<close>

definition bucket_row :: "key \<Rightarrow> pg_table \<Rightarrow> bool" where
  "bucket_row k t \<longleftrightarrow> (\<exists>row. map_of t k = Some row \<and> pr_tokens row \<noteq> None \<and> pr_last_refill_at row \<noteq> None)"

definition holds_lock :: "tx_phase \<Rightarrow> bool" where
  "holds_lock p = (case p of Selected _ \<Rightarrow> True | Upserted _ _ _ \<Rightarrow> True | _ \<Rightarrow> False)"

definition committed_result :: "tx_state \<Rightarrow> nat \<Rightarrow> rl_result option" where
  "committed_result d i = (case tx_phase d i of Committed r \<Rightarrow> Some r | _ \<Rightarrow> None)"

text \<open>The lock holder, and only it, is between its \<open>SELECT\<close> and the end of its transaction; what it has
  read or computed is still true of the table; and the table is the one of the serial run.\<close>

definition phase_ok :: "pg_store \<Rightarrow> key \<Rightarrow> (nat \<Rightarrow> time \<times> int) \<Rightarrow> tx_state \<Rightarrow> nat \<Rightarrow> bool" where
  "phase_ok s k req d i \<longleftrightarrow>
     (tx_lock d = Some i \<longleftrightarrow> holds_lock (tx_phase d i)) \<and>
     (i \<in> set (tx_commits d) \<longleftrightarrow> committed_result d i \<noteq> None) \<and>
     (case tx_phase d i of
        Selected sel \<Rightarrow> sel = fst (sql_bucket_select k (tx_table d))
      | Upserted r n l \<Rightarrow> bucket_decide s (req i) (fst (sql_bucket_select k (tx_table d))) = Some (r, n, l)
      | _ \<Rightarrow> True)"

definition serial_ok :: "pg_store \<Rightarrow> key \<Rightarrow> (nat \<Rightarrow> time \<times> int) \<Rightarrow> tx_state \<Rightarrow> bool" where
  "serial_ok s k req d \<longleftrightarrow>
     (\<exists>s1 rs. serial_increments k (map req (tx_commits d)) s = (map Inr rs, s1) \<and>
        map Some rs = map (committed_result d) (tx_commits d) \<and> pg_table s1 = tx_table d \<and> pg_frame s s1)"

definition tx_inv :: "pg_store \<Rightarrow> key \<Rightarrow> (nat \<Rightarrow> time \<times> int) \<Rightarrow> tx_state \<Rightarrow> bool" where
  "tx_inv s k req d \<longleftrightarrow>
     bucket_row k (tx_table d) \<and> (\<forall>i. phase_ok s k req d i) \<and> serial_ok s k req d \<and> distinct (tx_commits d)"

lemma bucket_row_write: "bucket_row k (write_back k r n l t)"
  by (auto simp: bucket_row_def write_back_def sql_bucket_upsert_def Let_def split: option.split)

text \<open>A step that neither commits nor changes the table keeps the serial run.\<close>

lemma serial_ok_enter:
  assumes "serial_ok s k req d" "i \<notin> set (tx_commits d)"
    and "tx_table d' = tx_table d" "tx_commits d' = tx_commits d"
    and "\<And>j. j \<noteq> i \<Longrightarrow> tx_phase d' j = tx_phase d j"
  shows "serial_ok s k req d'"
proof -
  have "map (committed_result d') (tx_commits d) = map (committed_result d) (tx_commits d)"
    using assms(2,5) by (intro map_cong) (metis committed_result_def)+
  with assms(1,3,4) show ?thesis unfolding serial_ok_def by metis
qed

lemma bucket_row_select:
  "bucket_row k t \<Longrightarrow> \<exists>tok l. sql_bucket_select k t = (Some (Some tok, Some l), t)"
  by (auto simp: bucket_row_def sql_bucket_select_def)

lemma phase_okD:
  assumes "phase_ok s k req d i"
  shows "tx_lock d = Some i \<longleftrightarrow> holds_lock (tx_phase d i)"
    "i \<in> set (tx_commits d) \<longleftrightarrow> committed_result d i \<noteq> None"
    "tx_phase d i = Selected sel \<Longrightarrow> sel = fst (sql_bucket_select k (tx_table d))"
    "tx_phase d i = Upserted r n l \<Longrightarrow> bucket_decide s (req i) (fst (sql_bucket_select k (tx_table d))) = Some (r, n, l)"
  using assms by (auto simp: phase_ok_def)

text \<open>A request moves to a new phase and takes, keeps or gives back the lock.\<close>

lemma inv_enter:
  assumes inv: "tx_inv s k req d"
    and d': "tx_table d' = tx_table d" "tx_commits d' = tx_commits d" "tx_phase d' = (tx_phase d)(i := p)"
    and free: "tx_lock d = tx_lock d' \<or> lock_free i d \<and> (tx_lock d' = None \<or> tx_lock d' = Some i)"
    and ok: "phase_ok s k req d' i" and not_done: "committed_result d i = None"
  shows "tx_inv s k req d'"
proof -
  have ph: "phase_ok s k req d j" for j using inv by (simp add: tx_inv_def)
  have i: "i \<notin> set (tx_commits d)" using phase_okD(2) [OF ph [of i]] not_done by simp
  have "phase_ok s k req d' j" if "j \<noteq> i" for j
    using ph [of j] that d' free by (auto simp: phase_ok_def committed_result_def lock_free_def split: tx_phase.splits)
  with ok have "\<forall>j. phase_ok s k req d' j" by metis
  moreover have "serial_ok s k req d'"
    by (rule serial_ok_enter [of s k req d i]) (use inv i d' in \<open>simp_all add: tx_inv_def\<close>)
  ultimately show ?thesis using inv d' by (simp add: tx_inv_def)
qed

lemma inv_step:
  assumes inv: "tx_inv s k req d" and step: "tx_step s k req e d = Some d'"
    and pooled: "pg_pooled s" and net: "\<And>n. pg_net s n = Answered"
  shows "tx_inv s k req d'"
proof -
  have ph: "phase_ok s k req d i" for i using inv by (simp add: tx_inv_def)
  obtain tok l where sel: "sql_bucket_select k (tx_table d) = (Some (Some tok, Some l), tx_table d)"
    using bucket_row_select inv unfolding tx_inv_def by blast
  show ?thesis
  proof (cases e)
    case (Begin i)
    with step have p: "tx_phase d i = Outside" and d': "d' = enter i Opened d" by (auto split: if_splits)
    show ?thesis by (rule inv_enter [OF inv, of d' i Opened])
      (use ph [of i] p d' in \<open>auto simp: phase_ok_def holds_lock_def committed_result_def\<close>)
  next
    case (Select i)
    with step sel pooled have p: "tx_phase d i = Opened" and f: "lock_free i d"
      and d': "d' = enter i (Selected (Some (Some tok, Some l))) (d\<lparr>tx_lock := Some i\<rparr>)" by (auto split: if_splits)
    show ?thesis by (rule inv_enter [OF inv, of d' i "Selected (Some (Some tok, Some l))"])
      (use ph [of i] p f d' sel in \<open>auto simp: phase_ok_def holds_lock_def committed_result_def\<close>)
  next
    case (Upsert i)
    with step pooled obtain q r n l' where p: "tx_phase d i = Selected q" and f: "lock_free i d"
      and dec: "bucket_decide s (req i) q = Some (r, n, l')"
      and d': "d' = enter i (Upserted r n l') (d\<lparr>tx_lock := Some i\<rparr>)"
      by (auto split: tx_phase.splits option.splits if_splits)
    show ?thesis by (rule inv_enter [OF inv, of d' i "Upserted r n l'"])
      (use ph [of i] p f dec d' in \<open>auto simp: phase_ok_def holds_lock_def committed_result_def\<close>)
  next
    case (Rollback i)
    with step have p: "in_transaction (tx_phase d i)"
      and d': "d' = enter i RolledBack (d\<lparr>tx_lock := (if tx_lock d = Some i then None else tx_lock d)\<rparr>)"
      by (auto split: if_splits)
    show ?thesis by (rule inv_enter [OF inv, of d' i RolledBack])
      (use ph [of i] p d' in \<open>auto simp: phase_ok_def holds_lock_def committed_result_def in_transaction_def
        lock_free_def split: tx_phase.splits\<close>)
  next
    case (Commit i)
    with step pooled obtain r n l' where p: "tx_phase d i = Upserted r n l'"
      and d': "d' = (enter i (Committed r) (d\<lparr>tx_commits := tx_commits d @ [i]\<rparr>))\<lparr>tx_table := write_back k r n l' (tx_table d), tx_lock := None\<rparr>"
      by (auto split: tx_phase.splits simp: Let_def)
    have lock: "tx_lock d = Some i" using phase_okD(1) [OF ph [of i]] p by (simp add: holds_lock_def)
    have i: "i \<notin> set (tx_commits d)" using phase_okD(2) [OF ph [of i]] p by (simp add: committed_result_def)
    have dec: "bucket_decide s (req i) (fst (sql_bucket_select k (tx_table d))) = Some (r, n, l')"
      by (rule phase_okD(4) [OF ph [of i] p])
    have "phase_ok s k req d' j" for j
      using ph [of j] lock d' by (auto simp: phase_ok_def holds_lock_def committed_result_def split: tx_phase.splits)
    moreover have "serial_ok s k req d'"
    proof -
      obtain s1 rs where s1: "serial_increments k (map req (tx_commits d)) s = (map Inr rs, s1)"
        "map Some rs = map (committed_result d) (tx_commits d)" "pg_table s1 = tx_table d" "pg_frame s s1"
        using inv by (auto simp: tx_inv_def serial_ok_def)
      have net1: "pg_net s1 m = Answered" for m using net s1(4) by (simp add: pg_frame_def)
      have dec1: "bucket_decide s1 (fst (req i), snd (req i)) (fst (sql_bucket_select k (pg_table s1))) = Some (r, n, l')"
        using dec s1(3) bucket_decide_frame [OF s1(4)] by simp
      obtain s2 where s2: "pg_incrementTokenBucket (fst (req i)) k (snd (req i)) s1 = (Inr r, s2)"
        "pg_table s2 = write_back k r n l' (tx_table d)" "pg_frame s1 s2"
        using serial_increment [OF net1 dec1] s1(3) by metis
      have "map (committed_result d') (tx_commits d) = map (committed_result d) (tx_commits d)"
        using d' i by (auto simp: committed_result_def)
      moreover have "committed_result d' i = Some r" using d' by (simp add: committed_result_def)
      ultimately show ?thesis
        using s1 s2 d' pg_frame_trans [OF s1(4) s2(3)]
        by (auto simp: serial_ok_def serial_snoc intro!: exI [of _ s2] exI [of _ "rs @ [r]"])
    qed
    ultimately show ?thesis using inv d' i by (auto simp: tx_inv_def bucket_row_write)
  qed
qed

lemma inv_reach:
  assumes "tx_reach s k req d" "pg_pooled s" "\<And>n. pg_net s n = Answered" "bucket_row k (pg_table s)"
  shows "tx_inv s k req d"
  using assms(1)
proof (induction rule: tx_reach.induct)
  case tx_start
  show ?case using assms(4) by (auto simp: tx_inv_def tx_init_def phase_ok_def serial_ok_def holds_lock_def
    committed_result_def pg_frame_def)
qed (blast intro: inv_step assms)

text \<open>Nothing gets stuck: while a request is under way some step is possible.\<close>

lemma tx_progress:
  assumes inv: "tx_inv s k req d" and pooled: "pg_pooled s" and i: "in_transaction (tx_phase d i)"
  shows "\<exists>e d'. tx_step s k req e d = Some d' \<and> (\<forall>j. e \<noteq> Rollback j) \<and> (\<forall>j. e \<noteq> Begin j)"
proof -
  have ph: "phase_ok s k req d j" for j using inv by (simp add: tx_inv_def)
  obtain tok l where sel: "sql_bucket_select k (tx_table d) = (Some (Some tok, Some l), tx_table d)"
    using bucket_row_select inv unfolding tx_inv_def by blast
  show ?thesis
  proof (cases "tx_lock d")
    case None
    then have "\<not> holds_lock (tx_phase d i)" using phase_okD(1) [OF ph [of i]] by simp
    with i have "tx_phase d i = Opened" by (auto simp: holds_lock_def in_transaction_def split: tx_phase.splits)
    with sel None pooled have "tx_step s k req (Select i) d \<noteq> None" by (simp add: lock_free_def)
    then show ?thesis by blast
  next
    case (Some j)
    then have "holds_lock (tx_phase d j)" using phase_okD(1) [OF ph [of j]] by simp
    then consider q where "tx_phase d j = Selected q" | r n l' where "tx_phase d j = Upserted r n l'"
      by (auto simp: holds_lock_def split: tx_phase.splits)
    then show ?thesis
    proof cases
      case 1
      then have "q = Some (Some tok, Some l)" using phase_okD(3) [OF ph [of j]] sel by simp
      then have "bucket_decide s (req j) q \<noteq> None"
        by (auto simp: bucket_decide_def Let_def split: prod.splits)
      with 1 Some pooled have "tx_step s k req (Upsert j) d \<noteq> None"
        by (auto simp: lock_free_def split: option.splits)
      then show ?thesis by blast
    next
      case 2
      then have "tx_step s k req (Commit j) d \<noteq> None" using pooled by (simp add: Let_def)
      then show ?thesis by blast
    qed
  qed
qed

section \<open>Where no lock is taken\<close>

text \<open>Every one of the first \<open>n\<close> requests reads before any of them writes.\<close>

lemma all_read:
  assumes "\<not> pg_pooled s \<or> map_of (pg_table s) k = None" "m \<le> n"
  shows "tx_reach s k req \<lparr>tx_table = pg_table s, tx_lock = None,
    tx_phase = (\<lambda>i. if i < m then Selected (fst (sql_bucket_select k (pg_table s))) else Outside), tx_commits = []\<rparr>"
  using assms(2)
proof (induction m)
  case 0
  show ?case using tx_start [of s k req] by (simp add: tx_init_def)
next
  case (Suc m)
  let ?sel = "fst (sql_bucket_select k (pg_table s))"
  let ?d = "\<lambda>p. \<lparr>tx_table = pg_table s, tx_lock = None,
    tx_phase = (\<lambda>i. if i < m then Selected ?sel else Outside)(m := p), tx_commits = []\<rparr>"
  have "tx_reach s k req (?d Opened)"
    by (rule tx_next [where e = "Begin m", OF Suc.IH]) (use Suc.prems in simp_all)
  moreover have "tx_step s k req (Select m) (?d Opened) = Some (?d (Selected ?sel))"
    using assms(1) by (auto simp: sql_bucket_select_def)
  ultimately have "tx_reach s k req (?d (Selected ?sel))" by (rule tx_next)
  moreover have "(\<lambda>i. if i < m then Selected ?sel else Outside)(m := Selected ?sel) =
      (\<lambda>i. if i < Suc m then Selected ?sel else Outside)"
    by (auto simp: less_Suc_eq)
  ultimately show ?case by simp
qed

lemma all_write:
  assumes "\<not> pg_pooled s \<or> map_of (pg_table s) k = None" "m \<le> n"
    and dec: "\<And>i. i < n \<Longrightarrow> bucket_decide s (req i) (fst (sql_bucket_select k (pg_table s))) = Some (res i, tok i, last' i)"
  shows "\<exists>t. tx_reach s k req \<lparr>tx_table = t, tx_lock = None,
    tx_phase = (\<lambda>i. if i < m then Committed (res i) else if i < n then Selected (fst (sql_bucket_select k (pg_table s))) else Outside),
    tx_commits = [0..<m]\<rparr>"
  using assms(2)
proof (induction m)
  case 0
  show ?case using all_read [OF assms(1), of n n req] by auto
next
  case (Suc m)
  let ?sel = "fst (sql_bucket_select k (pg_table s))"
  let ?ph = "\<lambda>i. if i < m then Committed (res i) else if i < n then Selected ?sel else Outside"
  obtain t where r: "tx_reach s k req \<lparr>tx_table = t, tx_lock = None, tx_phase = ?ph, tx_commits = [0..<m]\<rparr>" (is "tx_reach _ _ _ ?d")
    using Suc by auto
  have "\<exists>d1. tx_step s k req (Upsert m) ?d = Some d1 \<and> tx_phase d1 = ?ph(m := Upserted (res m) (tok m) (last' m)) \<and>
      tx_commits d1 = [0..<m] \<and> (tx_lock d1 = None \<or> pg_pooled s)"
    using dec [of m] Suc.prems by (auto simp: lock_free_def)
  then obtain d1 where d1: "tx_step s k req (Upsert m) ?d = Some d1"
    "tx_phase d1 = ?ph(m := Upserted (res m) (tok m) (last' m))" "tx_commits d1 = [0..<m]" "tx_lock d1 = None \<or> pg_pooled s"
    by blast
  have "\<exists>d2. tx_step s k req (Commit m) d1 = Some d2 \<and> tx_phase d2 = ?ph(m := Committed (res m)) \<and>
      tx_commits d2 = [0..<Suc m] \<and> tx_lock d2 = None"
    using d1 by (auto simp: Let_def)
  then obtain d2 where d2: "tx_step s k req (Commit m) d1 = Some d2"
    "tx_phase d2 = ?ph(m := Committed (res m))" "tx_commits d2 = [0..<Suc m]" "tx_lock d2 = None" by blast
  have "?ph(m := Committed (res m)) =
      (\<lambda>i. if i < Suc m then Committed (res i) else if i < n then Selected ?sel else Outside)"
    by (auto simp: less_Suc_eq)
  with d2 have "d2 = \<lparr>tx_table = tx_table d2, tx_lock = None,
      tx_phase = (\<lambda>i. if i < Suc m then Committed (res i) else if i < n then Selected ?sel else Outside),
      tx_commits = [0..<Suc m]\<rparr>" by simp
  moreover have "tx_reach s k req d2" using tx_next [OF tx_next [OF r d1(1)] d2(1)] .
  ultimately show ?case by metis
qed

section \<open>Properties\<close>

definition demo_bucket :: "bool \<Rightarrow> pg_table \<Rightarrow> pg_store" where
  "demo_bucket pooled t =
     (demo_pg TOKEN_BUCKET Answered False)\<lparr>pg_pooled := pooled, pg_bucketSize := 2, pg_table := t\<rparr>"

definition demo_row :: pg_row where
  "demo_row = \<lparr>pr_total_hits = 0, pr_reset_at = 1000, pr_hits = None, pr_tokens = Some 2, pr_last_refill_at = Some 0\<rparr>"

text \<open>(C12) With a pool and on a key that has a row, overlapping token-bucket increments are serialisable: in
  every reachable interleaving of their statements, lock waits and rollbacks, the committed requests
  have the results of sequential increments in commit order, and the table is the one these leave.\<close>

theorem pooled_bucket_serializable:
  assumes "tx_reach s k req d" "pg_pooled s" "\<And>n. pg_net s n = Answered" "bucket_row k (pg_table s)"
  shows "\<exists>rs s1. serial_increments k (map req (tx_commits d)) s = (map Inr rs, s1) \<and>
    map Some rs = map (committed_result d) (tx_commits d) \<and> pg_table s1 = tx_table d \<and>
    distinct (tx_commits d) \<and> (\<forall>i. i \<in> set (tx_commits d) \<longleftrightarrow> committed_result d i \<noteq> None)"
  using inv_reach [OF assms] unfolding tx_inv_def serial_ok_def phase_ok_def by blast

theorem pooled_bucket_serializable_witness:
  "\<exists>d. tx_run (demo_bucket True [(''k'', demo_row)]) ''k'' (\<lambda>i. (int i, 2))
     [Begin 0, Begin 1, Select 1, Upsert 1, Commit 1, Select 0, Upsert 0, Commit 0]
     (tx_init (demo_bucket True [(''k'', demo_row)])) = Some d \<and>
   map (map_option isBlocked \<circ> committed_result d) [0, 1] = [Some True, Some False] \<and>
   (\<exists>rs s1. serial_increments ''k'' [(1, 2), (0, 2)] (demo_bucket True [(''k'', demo_row)]) = (map Inr rs, s1) \<and>
      map Some rs = map (committed_result d) [1, 0] \<and> pg_table s1 = tx_table d)"
proof -
  let ?s = "demo_bucket True [(''k'', demo_row)]" and ?q = "\<lambda>i::nat. (int i, 2::int)"
  let ?es = "[Begin 0, Begin 1, Select 1, Upsert 1, Commit 1, Select 0, Upsert 0, Commit 0]"
  have net: "pg_net ?s n = Answered" for n by code_simp
  have pool: "pg_pooled ?s" by code_simp
  have row: "bucket_row ''k'' (pg_table ?s)" by (simp add: bucket_row_def demo_bucket_def demo_row_def)
  have run: "map_option (\<lambda>d. (tx_commits d, map (map_option isBlocked \<circ> committed_result d) [0, 1]))
      (tx_run ?s ''k'' ?q ?es (tx_init ?s)) = Some ([1, 0], [Some True, Some False])" by code_simp
  then obtain d where d: "tx_run ?s ''k'' ?q ?es (tx_init ?s) = Some d" "tx_commits d = [1, 0]"
    "map (map_option isBlocked \<circ> committed_result d) [0, 1] = [Some True, Some False]"
    by (auto simp del: tx_run.simps)
  have "tx_reach ?s ''k'' ?q d" by (rule tx_run_reach [OF d(1) tx_start])
  moreover have "map ?q [1, 0] = [(1, 2), (0, 2)]" by simp
  ultimately show ?thesis using pooled_bucket_serializable [OF _ pool net row, of ?q d] d by metis
qed

text \<open>Where no lock is taken - the key has no row yet, or the client is one shared session - any number of
  simultaneous requests that each would be granted alone can all be granted.\<close>

theorem unlocked_bucket_over_grants:
  assumes "\<not> pg_pooled s \<or> map_of (pg_table s) k = None"
    and "\<And>i. i < n \<Longrightarrow> \<exists>r t l. bucket_decide s (req i) (fst (sql_bucket_select k (pg_table s))) = Some (r, t, l) \<and> \<not> isBlocked r"
  shows "\<exists>d. tx_reach s k req d \<and> tx_commits d = [0..<n] \<and>
    (\<forall>i < n. \<exists>r. committed_result d i = Some r \<and> \<not> isBlocked r)"
proof -
  obtain res tok last' where dec: "\<And>i. i < n \<Longrightarrow> bucket_decide s (req i) (fst (sql_bucket_select k (pg_table s))) =
      Some (res i, tok i, last' i) \<and> \<not> isBlocked (res i)"
    using assms(2) by metis
  with all_write [OF assms(1) le_refl, of n req res tok last'] obtain t where
    "tx_reach s k req \<lparr>tx_table = t, tx_lock = None, tx_phase = (\<lambda>i. if i < n then Committed (res i)
       else if i < n then Selected (fst (sql_bucket_select k (pg_table s))) else Outside), tx_commits = [0..<n]\<rparr>"
    by blast
  then show ?thesis using dec by (intro exI conjI) (auto simp: committed_result_def)
qed

theorem unlocked_bucket_over_grants_witness:
  "pg_bucketSize (demo_bucket True []) = 2 \<and>
   (\<exists>d. tx_reach (demo_bucket True []) ''k'' (\<lambda>_. (0, 2)) d \<and>
     (\<forall>i < 50. \<exists>r. committed_result d i = Some r \<and> \<not> isBlocked r)) \<and>
   (\<exists>d. tx_reach (demo_bucket False [(''k'', demo_row)]) ''k'' (\<lambda>_. (0, 2)) d \<and>
     (\<forall>i < 50. \<exists>r. committed_result d i = Some r \<and> \<not> isBlocked r))"
proof -
  let ?s1 = "demo_bucket True []" and ?s2 = "demo_bucket False [(''k'', demo_row)]"
  have granted: "\<exists>r t l. x = Some (r, t, l) \<and> \<not> isBlocked r" if "map_option (isBlocked \<circ> fst) x = Some False"
    for x :: "(rl_result \<times> int \<times> time) option" using that by auto
  have 1: "map_option (isBlocked \<circ> fst) (bucket_decide ?s1 (0, 2) (fst (sql_bucket_select ''k'' (pg_table ?s1)))) = Some False"
    by code_simp
  have 2: "map_option (isBlocked \<circ> fst) (bucket_decide ?s2 (0, 2) (fst (sql_bucket_select ''k'' (pg_table ?s2)))) = Some False"
    by code_simp
  have "pg_bucketSize ?s1 = 2" "map_of (pg_table ?s1) ''k'' = None" "\<not> pg_pooled ?s2" by code_simp+
  with unlocked_bucket_over_grants [of ?s1 "''k''" 50 "\<lambda>_. (0, 2)"] granted [OF 1]
    unlocked_bucket_over_grants [of ?s2 "''k''" 50 "\<lambda>_. (0, 2)"] granted [OF 2]
  show ?thesis by blast
qed

end
