(* ===== verification/Mongo_Store.thy ===== *)
theory Mongo_Store
  imports Store_Utils
begin

text \<open>
  The MongoDB store, \<open>src/stores/mongo/MongoStore.ts\<close> with \<open>types.ts\<close>. The update pipelines are part of
  the source: each \<open>*_pipeline\<close> translates one pipeline, stage by stage, into a function on documents, in
  which a field that is missing is \<open>None\<close>. What the server adds is its documented behaviour:
  \<open>findOneAndUpdate\<close>, \<open>replaceOne\<close>, \<open>updateOne\<close> and \<open>deleteOne\<close> are atomic on a document, \<open>$ifNull\<close> replaces a
  missing field, \<open>$slice\<close> with a position rejects a length that is not positive, and the TTL monitor
  removes documents whose \<open>resetAt\<close> has passed. Whether a call succeeds is a parameter, \<open>mg_net\<close>.
\<close>

section \<open>Documents (types.ts) and the expressions used\<close>

record mg_doc =
  md_totalHits :: "int option"
  md_resetAt :: "time option"
  md_hits :: "time list option"
  md_tokens :: "int option"
  md_lastRefillAt :: "time option"
  md_rlfTbBlocked :: "bool option"

type_synonym mg_coll = "(key, mg_doc) jsmap"

definition mg_new_doc :: mg_doc where
  "mg_new_doc = \<lparr>md_totalHits = None, md_resetAt = None, md_hits = None, md_tokens = None,
     md_lastRefillAt = None, md_rlfTbBlocked = None\<rparr>"

definition ifNull :: "'a option \<Rightarrow> 'a \<Rightarrow> 'a" where
  "ifNull x d = (case x of None \<Rightarrow> d | Some v \<Rightarrow> v)"

text \<open>\<open>{ $slice: [arr, position, n] }\<close> for a position of at least 0.\<close>

definition mg_slice :: "'a list \<Rightarrow> int \<Rightarrow> int \<Rightarrow> string + 'a list" where
  "mg_slice xs position n =
     (if n \<le> 0 then Inl ''Third argument to $slice must be positive'' else Inr (take (nat n) (drop (nat position) xs)))"

section \<open>The pipelines\<close>

definition mg_fixed_pipeline :: "int \<Rightarrow> time \<Rightarrow> time \<Rightarrow> mg_doc \<Rightarrow> string + mg_doc" where
  "mg_fixed_pipeline cost now nextResetAt d =
     Inr (d\<lparr>md_totalHits := Some (if ifNull (md_resetAt d) 0 \<le> now then cost
                                 else ifNull (md_totalHits d) 0 + cost),
            md_resetAt := Some (if ifNull (md_resetAt d) 0 \<le> now then nextResetAt
                                else ifNull (md_resetAt d) nextResetAt)\<rparr>)"

text \<open>The bucket: the stages compute \<open>_lastMs\<close>, \<open>_ints\<close>, \<open>_refilled\<close> and \<open>_lastRf\<close> before the fields are set.\<close>

definition mg_bucket_pipeline :: "time \<Rightarrow> int \<Rightarrow> int \<Rightarrow> int \<Rightarrow> int \<Rightarrow> mg_doc \<Rightarrow> string + mg_doc" where
  "mg_bucket_pipeline nowMs bs tpi interval cost d =
     (let lastMs = ifNull (md_lastRefillAt d) nowMs;
          ints = (nowMs - lastMs) div interval;
          refilled = min bs (ifNull (md_tokens d) bs + ints * tpi);
          lastRf = lastMs + ints * interval
      in Inr (d\<lparr>md_tokens := Some (if refilled \<ge> cost then refilled - cost else refilled),
                md_lastRefillAt := Some lastRf,
                md_totalHits := Some (if refilled \<ge> cost then bs - (refilled - cost) else bs),
                md_resetAt := Some (lastRf + interval),
                md_rlfTbBlocked := Some (refilled < cost)\<rparr>))"

definition mg_sliding_pipeline :: "time \<Rightarrow> time list \<Rightarrow> time \<Rightarrow> mg_doc \<Rightarrow> string + mg_doc" where
  "mg_sliding_pipeline windowStartMs newHits nextResetAt d =
     (let hits = filter (\<lambda>ts. ts > windowStartMs) (ifNull (md_hits d) []) @ newHits
      in Inr (d\<lparr>md_hits := Some hits, md_totalHits := Some (int (length hits)), md_resetAt := Some nextResetAt\<rparr>))"

definition mg_fixed_decrement :: "int \<Rightarrow> mg_doc \<Rightarrow> string + mg_doc" where
  "mg_fixed_decrement cost d = Inr (d\<lparr>md_totalHits := Some (max 0 (ifNull (md_totalHits d) 0 - cost))\<rparr>)"

definition mg_bucket_decrement :: "int \<Rightarrow> int \<Rightarrow> mg_doc \<Rightarrow> string + mg_doc" where
  "mg_bucket_decrement bs cost d =
     (let newTok = min bs (ifNull (md_tokens d) bs + cost)
      in Inr (d\<lparr>md_tokens := Some newTok, md_totalHits := Some (bs - newTok)\<rparr>))"

text \<open>\<open>fifoPipeline\<close> and \<open>lifoPipeline\<close>. An error in a stage leaves the document as it was.\<close>

definition set_hits :: "mg_doc \<Rightarrow> string + time list \<Rightarrow> string + mg_doc" where
  "set_hits d r =
     (case r of Inl e \<Rightarrow> Inl e
      | Inr hits \<Rightarrow> Inr (d\<lparr>md_hits := Some hits, md_totalHits := Some (int (length hits))\<rparr>))"

definition fifoPipeline :: "int \<Rightarrow> mg_doc \<Rightarrow> string + mg_doc" where
  "fifoPipeline cost d =
     (let arr = ifNull (md_hits d) []; size = int (length arr)
      in set_hits d (if size \<le> cost then Inr [] else mg_slice arr cost (size - cost)))"

definition lifoPipeline :: "int \<Rightarrow> mg_doc \<Rightarrow> string + mg_doc" where
  "lifoPipeline cost d =
     (let arr = ifNull (md_hits d) []; size = int (length arr)
      in set_hits d (mg_slice arr 0 (max 0 (size - cost))))"

section \<open>Commands on the collection\<close>

text \<open>\<open>findOneAndUpdate\<close>: the document after the update, \<open>None\<close> if there was none and none is made.\<close>

definition findOneAndUpdate ::
  "bool \<Rightarrow> key \<Rightarrow> (mg_doc \<Rightarrow> string + mg_doc) \<Rightarrow> mg_coll \<Rightarrow> string + mg_doc option \<times> mg_coll" where
  "findOneAndUpdate upsert k pipeline c =
     (case (case map_of c k of None \<Rightarrow> if upsert then Some mg_new_doc else None | Some d \<Rightarrow> Some d) of
        None \<Rightarrow> Inr (None, c)
      | Some d \<Rightarrow>
          (case pipeline d of Inl e \<Rightarrow> Inl e | Inr d' \<Rightarrow> Inr (Some d', AList.update k d' c)))"

definition mg_unset_blocked :: "key \<Rightarrow> mg_coll \<Rightarrow> string + unit \<times> mg_coll" where
  "mg_unset_blocked k c =
     Inr ((), case map_of c k of None \<Rightarrow> c | Some d \<Rightarrow> AList.update k (d\<lparr>md_rlfTbBlocked := None\<rparr>) c)"

definition replaceOne :: "key \<Rightarrow> mg_doc \<Rightarrow> mg_coll \<Rightarrow> string + unit \<times> mg_coll" where
  "replaceOne k d c = Inr ((), AList.update k d c)"

definition deleteOne :: "key \<Rightarrow> mg_coll \<Rightarrow> string + bool \<times> mg_coll" where
  "deleteOne k c = Inr (jsmap_has c k, AList.delete k c)"

definition findOne :: "key \<Rightarrow> mg_coll \<Rightarrow> string + mg_doc option \<times> mg_coll" where
  "findOne k c = Inr (map_of c k, c)"

text \<open>The TTL index of \<open>ensureIndexes\<close>, \<open>expireAfterSeconds: 0\<close> on \<open>resetAt\<close>: what the monitor leaves.\<close>

definition ttl_monitor :: "time \<Rightarrow> mg_coll \<Rightarrow> mg_coll" where
  "ttl_monitor dbNow c = filter (\<lambda>(k, d). case md_resetAt d of None \<Rightarrow> True | Some t \<Rightarrow> t > dbNow) c"

section \<open>The store\<close>

record mg_store =
  mg_strategy :: strategy
  mg_windowMs :: int
  mg_maxRequests :: int
  mg_tokensPerInterval :: int
  mg_refillIntervalMs :: int
  mg_bucketSize :: int
  mg_keyPrefix :: string
  mg_failClosed :: bool                        \<comment> \<open>\<open>onMongoError\<close>\<close>
  mg_indexesEnsured :: bool                    \<comment> \<open>the promise of \<open>ensureIndexes\<close> is pending\<close>
  mg_coll :: mg_coll                           \<comment> \<open>the collection on the server\<close>
  mg_ttlIndex :: bool                          \<comment> \<open>and whether it has the TTL index\<close>
  mg_net :: "nat \<Rightarrow> net_outcome"
  mg_calls :: nat
  mg_warnings :: "(string \<times> string) list"     \<comment> \<open>the calls of \<open>onWarn\<close>\<close>

record mg_options =
  mo_strategy :: "strategy option"
  mo_windowMs :: js_value
  mo_maxRequests :: js_value
  mo_tokensPerInterval :: "rat option"
  mo_interval :: js_value
  mo_bucketSize :: js_value
  mo_keyPrefix :: "string option"
  mo_ensureIndexes :: "bool option"
  mo_failClosed :: bool

text \<open>The constructor starts \<open>ensureIndexes\<close>; an increment waits for it first.\<close>

definition new_MongoStore :: "mg_options \<Rightarrow> (nat \<Rightarrow> net_outcome) \<Rightarrow> mg_coll \<Rightarrow> mg_store" where
  "new_MongoStore opts net c =
     \<lparr>mg_strategy = (case mo_strategy opts of None \<Rightarrow> SLIDING_WINDOW | Some x \<Rightarrow> x),
      mg_windowMs = sanitizeWindowMs (mo_windowMs opts) 60000,
      mg_maxRequests = sanitizeRateLimitCap (mo_maxRequests opts) 100,
      mg_tokensPerInterval = max 1 \<lfloor>case mo_tokensPerInterval opts of None \<Rightarrow> 10 | Some n \<Rightarrow> n\<rfloor>,
      mg_refillIntervalMs = sanitizeWindowMs (mo_interval opts) 60000,
      mg_bucketSize = sanitizeRateLimitCap (mo_bucketSize opts) 100,
      mg_keyPrefix = (case mo_keyPrefix opts of None \<Rightarrow> ''rlf:'' | Some p \<Rightarrow> p),
      mg_failClosed = mo_failClosed opts,
      mg_indexesEnsured = (mo_ensureIndexes opts \<noteq> Some False),
      mg_coll = c, mg_ttlIndex = False, mg_net = net, mg_calls = 0, mg_warnings = []\<rparr>"

definition mg_warn :: "string \<Rightarrow> string \<Rightarrow> mg_store \<Rightarrow> mg_store" where
  "mg_warn msg err s = s\<lparr>mg_warnings := mg_warnings s @ [(msg, err)]\<rparr>"

definition mg_call :: "(mg_coll \<Rightarrow> string + 'a \<times> mg_coll) \<Rightarrow> mg_store \<Rightarrow> (string + 'a) \<times> mg_store" where
  "mg_call f s =
     (let s1 = s\<lparr>mg_calls := Suc (mg_calls s)\<rparr>
      in case mg_net s (mg_calls s) of
           Answered \<Rightarrow>
             (case f (mg_coll s) of Inl e \<Rightarrow> (Inl e, s1) | Inr (a, c) \<Rightarrow> (Inr a, s1\<lparr>mg_coll := c\<rparr>))
         | Failed e \<Rightarrow> (Inl e, s1)
         | ReplyLost e \<Rightarrow>
             (Inl e, case f (mg_coll s) of Inl _ \<Rightarrow> s1 | Inr (a, c) \<Rightarrow> s1\<lparr>mg_coll := c\<rparr>))"

definition ensureIndexes :: "mg_store \<Rightarrow> mg_store" where
  "ensureIndexes s =
     (case mg_call (\<lambda>c. Inr ((), c)) s of
        (Inl e, s1) \<Rightarrow>
          mg_warn ''MongoStore ensureIndexes failed'' e
            (s1\<lparr>mg_ttlIndex := (mg_ttlIndex s \<or> mg_net s (mg_calls s) = ReplyLost e)\<rparr>)
      | (Inr _, s1) \<Rightarrow> s1\<lparr>mg_ttlIndex := True\<rparr>)\<lparr>mg_indexesEnsured := False\<rparr>"

section \<open>Increment\<close>

definition mg_round_result :: "int \<Rightarrow> int \<Rightarrow> time \<Rightarrow> rl_result" where
  "mg_round_result th cap reset = plain_result th (max 0 (cap - th)) reset (th > cap)"

definition mg_incrementFixedWindow ::
  "time \<Rightarrow> key \<Rightarrow> int \<Rightarrow> int \<Rightarrow> mg_store \<Rightarrow> (string + rl_result) \<times> mg_store" where
  "mg_incrementFixedWindow now k cost cap s =
     (let next = now + mg_windowMs s
      in case mg_call (findOneAndUpdate True k (mg_fixed_pipeline cost now next)) s of
           (Inl e, s1) \<Rightarrow> (Inl e, s1)
         | (Inr None, s1) \<Rightarrow> (Inl ''MongoStore: fixed window increment returned no document'', s1)
         | (Inr (Some d), s1) \<Rightarrow>
             (Inr (mg_round_result (ifNull (md_totalHits d) 0) cap (ifNull (md_resetAt d) next)), s1))"

definition mg_incrementTokenBucket ::
  "time \<Rightarrow> key \<Rightarrow> int \<Rightarrow> mg_store \<Rightarrow> (string + rl_result) \<times> mg_store" where
  "mg_incrementTokenBucket now k cost s =
     (let interval = mg_refillIntervalMs s
      in case mg_call (findOneAndUpdate True k
                (mg_bucket_pipeline now (mg_bucketSize s) (mg_tokensPerInterval s) interval cost)) s of
           (Inl e, s1) \<Rightarrow> (Inl e, s1)
         | (Inr None, s1) \<Rightarrow> (Inl ''MongoStore: token bucket increment returned no document'', s1)
         | (Inr (Some d), s1) \<Rightarrow>
             (let blocked = (md_rlfTbBlocked d = Some True);
                  s2 = (case mg_call (mg_unset_blocked k) s1 of
                          (Inl e, s2) \<Rightarrow> mg_warn ''MongoStore: failed to strip transient rlfTbBlocked'' e s2
                        | (Inr _, s2) \<Rightarrow> s2)
              in (Inr (plain_result (ifNull (md_totalHits d) 0) (if blocked then 0 else ifNull (md_tokens d) 0)
                         (ifNull (md_resetAt d) (now + interval)) blocked), s2)))"

text \<open>\<open>parseHitsArray\<close>: the documents hold an array of numbers or no \<open>hits\<close>. Where the update returns no
  document the code reads it again.\<close>

definition parseHitsArray :: "time list option \<Rightarrow> time list" where
  "parseHitsArray hits = ifNull hits []"

definition resetTimeFromSlidingHits :: "time list option \<Rightarrow> int \<Rightarrow> time \<Rightarrow> time" where
  "resetTimeFromSlidingHits hits windowMs nowMs = resetTimeDateFromSlidingStamps (parseHitsArray hits) windowMs nowMs"

definition mg_incrementSlidingWindow ::
  "time \<Rightarrow> key \<Rightarrow> int \<Rightarrow> int \<Rightarrow> mg_store \<Rightarrow> (string + rl_result) \<times> mg_store" where
  "mg_incrementSlidingWindow now k cost cap s =
     (case mg_call (findOneAndUpdate True k
              (mg_sliding_pipeline (now - mg_windowMs s) (replicate (nat cost) now) (now + mg_windowMs s))) s of
        (Inl e, s1) \<Rightarrow> (Inl e, s1)
      | (Inr result, s1) \<Rightarrow>
          (case (case result of Some d \<Rightarrow> (Inr (Some d), s1) | None \<Rightarrow> mg_call (findOne k) s1) of
             (Inl e, s2) \<Rightarrow> (Inl e, s2)
           | (Inr doc, s2) \<Rightarrow>
               (Inr (mg_round_result (case doc of None \<Rightarrow> cost | Some d \<Rightarrow> ifNull (md_totalHits d) cost) cap
                  (resetTimeFromSlidingHits (case doc of None \<Rightarrow> None | Some d \<Rightarrow> md_hits d) (mg_windowMs s) now)), s2)))"

definition mg_handleError :: "time \<Rightarrow> string \<Rightarrow> int \<Rightarrow> mg_store \<Rightarrow> rl_result \<times> mg_store" where
  "mg_handleError now e cap s =
     (let offset = (if mg_strategy s = TOKEN_BUCKET then mg_refillIntervalMs s else mg_windowMs s);
          r = (if mg_failClosed s then plain_result (cap + 1) 0 (now + offset) True
               else plain_result 0 cap (now + offset) False)
      in (r\<lparr>storeUnavailable := True\<rparr>, mg_warn ''MongoStore error'' e s))"

definition mg_own_error :: "string \<Rightarrow> bool" where
  "mg_own_error e = (take 11 e = ''MongoStore:'')"

definition mg_increment ::
  "time \<Rightarrow> key \<Rightarrow> inc_opts option \<Rightarrow> mg_store \<Rightarrow> (string + rl_result) \<times> mg_store" where
  "mg_increment now k o' s0 =
     (let s = (if mg_indexesEnsured s0 then ensureIndexes s0 else s0);
          pk = mg_keyPrefix s @ k;
          cost = sanitizeIncrementCost (opt_cost o') 1;
          cap = (if mg_strategy s = TOKEN_BUCKET then mg_bucketSize s
                 else sanitizeRateLimitCap (js_or (opt_maxRequests o') (js_int (mg_maxRequests s))) (mg_maxRequests s))
      in case (case mg_strategy s of
                 FIXED_WINDOW \<Rightarrow> mg_incrementFixedWindow now pk cost cap s
               | TOKEN_BUCKET \<Rightarrow> mg_incrementTokenBucket now pk cost s
               | SLIDING_WINDOW \<Rightarrow> mg_incrementSlidingWindow now pk cost cap s) of
           (Inr r, s1) \<Rightarrow> (Inr r, s1)
         | (Inl e, s1) \<Rightarrow>
             if mg_own_error e then (Inl e, s1)
             else (case mg_handleError now e cap s1 of (r, s2) \<Rightarrow> (Inr r, s2)))"

section \<open>The other methods\<close>

definition mg_swallow :: "string \<Rightarrow> 'a \<Rightarrow> (string + 'a) \<times> mg_store \<Rightarrow> (string + 'a) \<times> mg_store" where
  "mg_swallow msg d res =
     (case res of
        (Inr a, s) \<Rightarrow> (Inr a, s)
      | (Inl e, s) \<Rightarrow> (if mg_failClosed s then Inl e else Inr d, mg_warn msg e s))"

definition mg_discard :: "(string + 'a) \<times> mg_store \<Rightarrow> (string + unit) \<times> mg_store" where
  "mg_discard res = (case res of (Inr _, s) \<Rightarrow> (Inr (), s) | (Inl e, s) \<Rightarrow> (Inl e, s))"

definition mg_decrementSliding :: "key \<Rightarrow> int \<Rightarrow> bool \<Rightarrow> mg_store \<Rightarrow> (string + unit) \<times> mg_store" where
  "mg_decrementSliding k cost removeNewest s =
     mg_discard (mg_call (findOneAndUpdate False k (if removeNewest then lifoPipeline cost else fifoPipeline cost)) s)"

definition mg_decrement :: "key \<Rightarrow> dec_opts option \<Rightarrow> mg_store \<Rightarrow> (string + unit) \<times> mg_store" where
  "mg_decrement k d s =
     (let pk = mg_keyPrefix s @ k; cost = sanitizeIncrementCost (opt_dec_cost d) 1
      in mg_swallow ''MongoStore decrement failed'' ()
           (case mg_strategy s of
              FIXED_WINDOW \<Rightarrow> mg_discard (mg_call (findOneAndUpdate False pk (mg_fixed_decrement cost)) s)
            | TOKEN_BUCKET \<Rightarrow>
                mg_discard (mg_call (findOneAndUpdate False pk (mg_bucket_decrement (mg_bucketSize s) cost)) s)
            | SLIDING_WINDOW \<Rightarrow> mg_decrementSliding pk cost (opt_removeNewest d) s))"

definition mg_reset :: "key \<Rightarrow> mg_store \<Rightarrow> (string + unit) \<times> mg_store" where
  "mg_reset k s = mg_swallow ''MongoStore reset failed'' () (mg_discard (mg_call (deleteOne (mg_keyPrefix s @ k)) s))"

text \<open>\<open>get\<close>: a document without the fields its strategy reads gives an invalid date or \<open>NaN\<close>; for the
  bucket the code answers \<open>null\<close> then, and so does the model for the fixed window, where every document
  the store writes has them.\<close>

definition mg_get :: "time \<Rightarrow> key \<Rightarrow> mg_store \<Rightarrow> rl_result option \<times> mg_store" where
  "mg_get now k s =
     (case mg_call (findOne (mg_keyPrefix s @ k)) s of
        (Inl e, s1) \<Rightarrow> (None, mg_warn ''MongoStore get failed'' e s1)
      | (Inr None, s1) \<Rightarrow> (None, s1)
      | (Inr (Some d), s1) \<Rightarrow>
          ((case mg_strategy s of
              FIXED_WINDOW \<Rightarrow>
                (case (md_resetAt d, md_totalHits d) of
                   (Some ra, Some th) \<Rightarrow>
                     if ra \<le> now then None else Some (window_result th (mg_maxRequests s) ra)
                 | _ \<Rightarrow> None)
            | TOKEN_BUCKET \<Rightarrow>
                (case (md_tokens d, md_lastRefillAt d) of
                   (Some tok, Some lr) \<Rightarrow>
                     (let (t, l) = refillBucketState tok lr now (mg_bucketSize s) (mg_tokensPerInterval s)
                                     (mg_refillIntervalMs s);
                          hits = mg_bucketSize s - t
                      in Some (plain_result hits t (l + mg_refillIntervalMs s)
                                 (t = 0 \<and> hits \<ge> mg_bucketSize s)))
                 | _ \<Rightarrow> None)
            | SLIDING_WINDOW \<Rightarrow>
                (let ts = filter (\<lambda>t. t > now - mg_windowMs s) (parseHitsArray (md_hits d))
                 in if ts = [] then None
                    else Some (window_result (int (length ts)) (mg_maxRequests s)
                                 (resetTimeDateFromSlidingStamps ts (mg_windowMs s) now)))), s1))"

definition buildSetResultWithoutPersist :: "int \<Rightarrow> time option \<Rightarrow> time \<Rightarrow> mg_store \<Rightarrow> rl_result" where
  "buildSetResultWithoutPersist n expiresAt nowMs s =
     (case mg_strategy s of
        TOKEN_BUCKET \<Rightarrow>
          (let cap = mg_bucketSize s; blocked = n \<ge> cap
           in plain_result (if blocked then cap else n) (if blocked then 0 else max 0 (cap - n))
                (nowMs + mg_refillIntervalMs s) blocked)
      | _ \<Rightarrow> window_result n (mg_maxRequests s)
               (case expiresAt of None \<Rightarrow> nowMs + mg_windowMs s | Some t \<Rightarrow> t))"

definition mg_set ::
  "time \<Rightarrow> key \<Rightarrow> int \<Rightarrow> time option \<Rightarrow> mg_store \<Rightarrow> (string + rl_result) \<times> mg_store" where
  "mg_set nowMs k hits expiresAt s =
     (let pk = mg_keyPrefix s @ k; n = max 0 hits;
          resetAt = (case expiresAt of None \<Rightarrow> nowMs + mg_windowMs s | Some t \<Rightarrow> t);
          out = buildSetResultWithoutPersist n expiresAt nowMs s;
          doc = (case mg_strategy s of
                   FIXED_WINDOW \<Rightarrow> mg_new_doc\<lparr>md_totalHits := Some n, md_resetAt := Some resetAt\<rparr>
                 | TOKEN_BUCKET \<Rightarrow>
                     (let cap = mg_bucketSize s; blocked = n \<ge> cap
                      in mg_new_doc\<lparr>md_totalHits := Some (if blocked then cap else n),
                           md_resetAt := Some (nowMs + mg_refillIntervalMs s),
                           md_tokens := Some (if blocked then 0 else max 0 (cap - n)),
                           md_lastRefillAt := Some nowMs\<rparr>)
                 | SLIDING_WINDOW \<Rightarrow>
                     mg_new_doc\<lparr>md_totalHits := Some n, md_resetAt := Some resetAt,
                       md_hits := Some (replicate (nat n) nowMs)\<rparr>)
      in case mg_call (replaceOne pk doc) s of
           (Inr _, s1) \<Rightarrow> (Inr out, s1)
         | (Inl e, s1) \<Rightarrow>
             if mg_own_error e then (Inl e, s1)
             else (if mg_failClosed s then Inl e else Inr out, mg_warn ''MongoStore set failed'' e s1))"

definition mg_delete :: "key \<Rightarrow> mg_store \<Rightarrow> (string + bool) \<times> mg_store" where
  "mg_delete k s = mg_swallow ''MongoStore delete failed'' False (mg_call (deleteOne (mg_keyPrefix s @ k)) s)"

definition mg_shutdown :: "mg_store \<Rightarrow> mg_store" where
  "mg_shutdown s = s"

end
