(* ===== verification/Mongo_Store_Properties.thy ===== *)
theory Mongo_Store_Properties
  imports Mongo_Store Store_Refinement
begin

text \<open>
  What the MongoDB store guarantees when its calls are answered: \<open>mg_sim\<close> relates the documents of the
  collection to the entries of an in-memory store with the same configuration; increments and the
  undos that remove the oldest hits keep it and give equal answers. The theorems after that are
  about where the store differs: an undo that would remove the last hit of a sliding window by the
  newest end is rejected by the server, a clock that is behind takes tokens out of a bucket, and the
  TTL monitor fills buckets.
\<close>

section \<open>Documents and entries\<close>




definition mg_config :: "mg_store \<Rightarrow> mem_store \<Rightarrow> bool" where
  "mg_config s m \<longleftrightarrow>
     ms_strategy m = mg_strategy s \<and>
     (if mg_strategy s = TOKEN_BUCKET
      then ms_tokensPerInterval m = mg_tokensPerInterval s \<and> ms_refillIntervalMs m = mg_refillIntervalMs s \<and>
           ms_bucketSize m = mg_bucketSize s
      else ms_windowMs m = mg_windowMs s \<and> ms_maxRequests m = mg_maxRequests s)"




section \<open>Calls that are answered\<close>

definition mg_frame :: "mg_store \<Rightarrow> mg_store \<Rightarrow> bool" where
  "mg_frame s s' \<longleftrightarrow> mg_strategy s' = mg_strategy s \<and> mg_windowMs s' = mg_windowMs s \<and>
     mg_maxRequests s' = mg_maxRequests s \<and> mg_tokensPerInterval s' = mg_tokensPerInterval s \<and>
     mg_refillIntervalMs s' = mg_refillIntervalMs s \<and> mg_bucketSize s' = mg_bucketSize s \<and>
     mg_keyPrefix s' = mg_keyPrefix s \<and> mg_failClosed s' = mg_failClosed s \<and> mg_net s' = mg_net s"

lemma mg_frame_trans: "mg_frame s s' \<Longrightarrow> mg_frame s' s'' \<Longrightarrow> mg_frame s s''"
  by (simp add: mg_frame_def)

lemma mg_call_answered:
  assumes "\<And>n. mg_net s n = Answered" "f (mg_coll s) = Inr (a, c)"
  obtains s' where "mg_call f s = (Inr a, s')" "mg_coll s' = c" "mg_frame s s'" "mg_warnings s' = mg_warnings s"
    "mg_indexesEnsured s' = mg_indexesEnsured s"
  using assms by (auto simp: mg_call_def Let_def mg_frame_def)

definition mg_ready :: "mg_store \<Rightarrow> mg_store \<Rightarrow> bool" where
  "mg_ready s s0 \<longleftrightarrow> (if mg_indexesEnsured s then ensureIndexes s else s) = s0 \<and> mg_coll s0 = mg_coll s \<and>
     mg_frame s s0 \<and> mg_warnings s0 = mg_warnings s"

lemma mg_readyD:
  "mg_ready s s0 \<Longrightarrow> mg_coll s0 = mg_coll s" "mg_ready s s0 \<Longrightarrow> mg_frame s s0"
  "mg_ready s s0 \<Longrightarrow> mg_warnings s0 = mg_warnings s"
  by (simp_all add: mg_ready_def)

lemma mg_ready_exists:
  assumes "\<And>n. mg_net s n = Answered"
  obtains s0 where "mg_ready s s0"
  using assms by (auto simp: mg_ready_def ensureIndexes_def mg_call_def Let_def mg_frame_def)

lemma upsert_answered:
  assumes net: "\<And>n. mg_net s n = Answered" and p: "pipeline (ifNull (map_of (mg_coll s) k) mg_new_doc) = Inr d"
  obtains s' where "mg_call (findOneAndUpdate True k pipeline) s = (Inr (Some d), s')"
    "mg_coll s' = AList.update k d (mg_coll s)" "mg_frame s s'" "mg_warnings s' = mg_warnings s"
proof (rule mg_call_answered [OF net])
  show "findOneAndUpdate True k pipeline (mg_coll s) = Inr (Some d, AList.update k d (mg_coll s))"
    using p by (cases "map_of (mg_coll s) k") (simp_all add: findOneAndUpdate_def ifNull_def)
qed (rule that)

section \<open>Increments\<close>


lemma mg_cost_cap:
  "sanitizeIncrementCost (opt_cost o') 1 = eff_cost o'"
  "mg_config s m \<Longrightarrow> mg_strategy s \<noteq> TOKEN_BUCKET \<Longrightarrow>
   sanitizeRateLimitCap (js_or (opt_maxRequests o') (js_int (mg_maxRequests s))) (mg_maxRequests s) = eff_cap m o'"
  by (simp_all add: eff_cost_def eff_cap_def mg_config_def)



lemma mg_increment_ready:
  assumes "mg_ready s s0"
  shows "mg_strategy s = TOKEN_BUCKET \<Longrightarrow> mg_incrementTokenBucket now (mg_keyPrefix s @ k) (eff_cost o') s0 = (Inr r, s') \<Longrightarrow>
      mg_increment now k o' s = (Inr r, s')"
    and "mg_strategy s = FIXED_WINDOW \<Longrightarrow> mg_config s m \<Longrightarrow>
      mg_incrementFixedWindow now (mg_keyPrefix s @ k) (eff_cost o') (eff_cap m o') s0 = (Inr r, s') \<Longrightarrow>
      mg_increment now k o' s = (Inr r, s')"
    and "mg_strategy s = SLIDING_WINDOW \<Longrightarrow> mg_config s m \<Longrightarrow>
      mg_incrementSlidingWindow now (mg_keyPrefix s @ k) (eff_cost o') (eff_cap m o') s0 = (Inr r, s') \<Longrightarrow>
      mg_increment now k o' s = (Inr r, s')"
  using assms by (auto simp: mg_ready_def mg_increment_def Let_def mg_frame_def eff_cost_def eff_cap_def mg_config_def)





section \<open>Undos\<close>



lemma lifo_trim:
  "lifoPipeline cost d =
     (if int (length (parseHitsArray (md_hits d))) \<le> cost
      then Inl ''Third argument to $slice must be positive''
      else (let hits = take (nat (int (length (parseHitsArray (md_hits d))) - cost)) (parseHitsArray (md_hits d))
            in Inr (d\<lparr>md_hits := Some hits, md_totalHits := Some (int (length hits))\<rparr>)))"
  by (auto simp: lifoPipeline_def set_hits_def mg_slice_def parseHitsArray_def Let_def)




section \<open>Where the store differs\<close>

text \<open>A document whose hits are all to be taken off the newest end: the server rejects the trim, and
  the store warns and leaves the document.\<close>

lemma lifo_rejected:
  assumes net: "\<And>n. mg_net s n = Answered" and st: "mg_strategy s = SLIDING_WINDOW"
    and d: "map_of (mg_coll s) (mg_keyPrefix s @ k) = Some x"
    and len: "int (length (parseHitsArray (md_hits x))) \<le> sanitizeIncrementCost (opt_dec_cost d) 1"
    and newest: "opt_removeNewest d"
  shows "\<exists>e s'. mg_decrement k d s = (if mg_failClosed s then Inl e else Inr (), s') \<and> mg_coll s' = mg_coll s \<and>
    mg_frame s s' \<and> length (mg_warnings s') = Suc (length (mg_warnings s))"
proof -
  have "findOneAndUpdate False (mg_keyPrefix s @ k) (lifoPipeline (sanitizeIncrementCost (opt_dec_cost d) 1)) (mg_coll s) =
      Inl ''Third argument to $slice must be positive''"
    using d len by (simp add: findOneAndUpdate_def lifo_trim)
  then show ?thesis using net st newest
    by (auto simp: mg_decrement_def mg_decrementSliding_def mg_discard_def mg_call_def mg_swallow_def mg_warn_def
        mg_frame_def Let_def)
qed

lemma sliding_first_hits:
  assumes net: "\<And>n. mg_net s n = Answered" and st: "mg_strategy s = SLIDING_WINDOW"
    and fresh: "map_of (mg_coll s) (mg_keyPrefix s @ k) = None"
  shows "\<exists>r s' x. mg_increment now k o' s = (Inr r, s') \<and> mg_frame s s' \<and>
    map_of (mg_coll s') (mg_keyPrefix s @ k) = Some x \<and> md_hits x = Some (replicate (nat (eff_cost o')) now)"
proof -
  let ?pk = "mg_keyPrefix s @ k" and ?new = "replicate (nat (eff_cost o')) now"
  let ?p = "mg_sliding_pipeline (now - mg_windowMs s) ?new (now + mg_windowMs s)"
  let ?cap = "sanitizeRateLimitCap (js_or (opt_maxRequests o') (js_int (mg_maxRequests s))) (mg_maxRequests s)"
  obtain s0 where ready: "mg_ready s s0" using net by (rule mg_ready_exists)
  note s0 = mg_readyD [OF ready]
  have net0: "mg_net s0 n = Answered" for n using net s0(2) by (simp add: mg_frame_def)
  obtain d where d: "?p mg_new_doc = Inr d" "md_hits d = Some ?new"
    by (simp add: mg_sliding_pipeline_def mg_new_doc_def ifNull_def Let_def)
  obtain s1 where s1: "mg_call (findOneAndUpdate True ?pk ?p) s0 = (Inr (Some d), s1)"
    "mg_coll s1 = AList.update ?pk d (mg_coll s0)" "mg_frame s0 s1"
    by (rule upsert_answered [OF net0, of ?p ?pk d]) (simp_all add: s0(1) fresh d ifNull_def)
  have w0: "mg_windowMs s0 = mg_windowMs s" using s0(2) by (simp add: mg_frame_def)
  obtain r where "mg_incrementSlidingWindow now ?pk (eff_cost o') ?cap s0 = (Inr r, s1)"
    using s1(1) w0 by (simp add: mg_incrementSlidingWindow_def)
  then have "mg_increment now k o' s = (Inr r, s1)"
    using ready st by (simp add: mg_ready_def mg_increment_def mg_frame_def eff_cost_def Let_def)
  then show ?thesis using s1(2) d(2) mg_frame_trans [OF s0(2) s1(3)] by auto
qed

lemma ttl_document:
  "jsmap_ok c \<Longrightarrow> map_of c k = Some d \<Longrightarrow> md_resetAt d = Some t \<Longrightarrow> t \<le> now \<Longrightarrow> map_of (ttl_monitor now c) k = None"
  by (auto simp: ttl_monitor_def jsmap_ok_def map_of_eq_None_iff distinct_map dest!: map_of_SomeD
      split: option.splits) (metis (mono_tags, lifting) fst_conv inj_onD option.inject snd_conv not_less)

section \<open>Properties\<close>

definition demo_mongo :: "strategy \<Rightarrow> net_outcome \<Rightarrow> bool \<Rightarrow> mg_coll \<Rightarrow> mg_store" where
  "demo_mongo st out closed' c =
     new_MongoStore \<lparr>mo_strategy = Some st, mo_windowMs = js_int 1000, mo_maxRequests = js_int 2,
       mo_tokensPerInterval = Some 1, mo_interval = js_int 1000, mo_bucketSize = js_int 2,
       mo_keyPrefix = None, mo_ensureIndexes = None, mo_failClosed = closed'\<rparr> (\<lambda>_. out) c"



text \<open>Undoing the only hits of a sliding window from the newest end, as the shield and the composed store
  do when they roll back, has no effect: the server rejects the trim to nothing, the store warns
  (and throws when failing closed), and the key is still charged.\<close>

theorem mongo_undo_of_first_hit_fails:
  assumes "\<And>n. mg_net s n = Answered" "mg_strategy s = SLIDING_WINDOW" "1 \<le> mg_windowMs s"
    and "map_of (mg_coll s) (mg_keyPrefix s @ k) = None"
  shows "\<exists>r s1 e s2 g. mg_increment now k o' s = (Inr r, s1) \<and>
    mg_decrement k (Some ((matchingDecrementOptions (opt_cost o'))\<lparr>do_removeNewest := True\<rparr>)) s1 =
      (if mg_failClosed s then Inl e else Inr (), s2) \<and>
    length (mg_warnings s2) = Suc (length (mg_warnings s1)) \<and>
    fst (mg_get now k s2) = Some g \<and> totalHits g = eff_cost o'"
proof -
  let ?d = "Some ((matchingDecrementOptions (opt_cost o'))\<lparr>do_removeNewest := True\<rparr>)"
  let ?hits = "replicate (nat (eff_cost o')) now"
  obtain r s1 x where s1: "mg_increment now k o' s = (Inr r, s1)" "mg_frame s s1"
    "map_of (mg_coll s1) (mg_keyPrefix s @ k) = Some x" "md_hits x = Some ?hits"
    using sliding_first_hits [OF assms(1,2,4)] by blast
  have f: "mg_strategy s1 = SLIDING_WINDOW" "mg_keyPrefix s1 = mg_keyPrefix s" "mg_failClosed s1 = mg_failClosed s"
    "mg_net s1 n = Answered" "mg_windowMs s1 = mg_windowMs s" for n
    using s1(2) assms(1,2) by (simp_all add: mg_frame_def)
  have cost: "sanitizeIncrementCost (opt_dec_cost ?d) 1 = eff_cost o'"
    by (simp add: opt_dec_cost_def matchingDecrementOptions_def eff_cost_def)
  obtain e s2 where s2: "mg_decrement k ?d s1 = (if mg_failClosed s then Inl e else Inr (), s2)"
    "mg_coll s2 = mg_coll s1" "mg_frame s1 s2" "length (mg_warnings s2) = Suc (length (mg_warnings s1))"
    using lifo_rejected [of s1 k x ?d] f s1(3,4) cost by (auto simp: parseHitsArray_def ifNull_def opt_removeNewest_def)
  have n: "nat (eff_cost o') \<noteq> 0" using eff_cost_pos(1) [of o'] by simp
  have "\<exists>g. fst (mg_get now k s2) = Some g \<and> totalHits g = eff_cost o'"
    using s1(3,4) s2(2,3) f assms(3) n
    by (simp add: mg_get_def mg_call_def findOne_def mg_frame_def Let_def parseHitsArray_def ifNull_def
        window_result_def plain_result_def)
  with s1(1) s2(1,4) show ?thesis by blast
qed

theorem mongo_undo_of_first_hit_fails_witness:
  "\<exists>r s1 e s2 g. mg_increment 7 ''a'' None (demo_mongo SLIDING_WINDOW Answered True []) = (Inr r, s1) \<and>
    mg_decrement ''a'' (Some ((matchingDecrementOptions (opt_cost None))\<lparr>do_removeNewest := True\<rparr>)) s1 = (Inl e, s2) \<and>
    fst (mg_get 7 ''a'' s2) = Some g \<and> totalHits g = eff_cost None"
proof -
  let ?s = "demo_mongo SLIDING_WINDOW Answered True []"
  have n: "mg_net ?s n = Answered" for n by code_simp
  have s: "mg_strategy ?s = SLIDING_WINDOW" "1 \<le> mg_windowMs ?s" by code_simp+
  have c: "mg_failClosed ?s" "map_of (mg_coll ?s) (mg_keyPrefix ?s @ ''a'') = None" by code_simp+
  from mongo_undo_of_first_hit_fails [OF n s c(2), of 7 None] c(1) show ?thesis by (simp only: if_True) blast
qed

text \<open>A server whose clock is behind the last refill takes tokens out of the bucket where the other
  stores leave it: if what would have been refilled in the time it is behind exceeds the tokens
  beyond the cost, its request is blocked although the bucket covers it.\<close>

theorem mongo_clock_behind_blocks:
  assumes net: "\<And>n. mg_net s n = Answered" and st: "mg_strategy s = TOKEN_BUCKET"
    and d: "map_of (mg_coll s) (mg_keyPrefix s @ k) = Some d" "md_tokens d = Some n" "md_lastRefillAt d = Some l"
    and behind: "now < l" "eff_cost o' \<le> n" "n \<le> mg_bucketSize s" "1 \<le> mg_refillIntervalMs s"
    and far: "n + (now - l) div mg_refillIntervalMs s * mg_tokensPerInterval s < eff_cost o'"
  shows "refillBucketState n l now (mg_bucketSize s) (mg_tokensPerInterval s) (mg_refillIntervalMs s) = (n, l) \<and>
    (\<exists>r s'. mg_increment now k o' s = (Inr r, s') \<and> isBlocked r)"
proof
  let ?pk = "mg_keyPrefix s @ k" and ?iv = "mg_refillIntervalMs s" and ?bs = "mg_bucketSize s" and ?tpi = "mg_tokensPerInterval s"
  let ?p = "mg_bucket_pipeline now ?bs ?tpi ?iv (eff_cost o')"
  have neg: "(now - l) div ?iv < 0" using behind(1,4) by (simp add: div_neg_pos_less0)
  then show "refillBucketState n l now ?bs ?tpi ?iv = (n, l)" by (simp add: refillBucketState_def Let_def)
  obtain s0 where ready: "mg_ready s s0" using net by (rule mg_ready_exists)
  note s0 = mg_readyD [OF ready]
  have net0: "mg_net s0 n = Answered" for n using net s0(2) by (simp add: mg_frame_def)
  have c0: "mg_refillIntervalMs s0 = ?iv" "mg_bucketSize s0 = ?bs" "mg_tokensPerInterval s0 = ?tpi"
    using s0(2) by (simp_all add: mg_frame_def)
  have "min ?bs (n + (now - l) div ?iv * ?tpi) < eff_cost o'" using far by simp
  then obtain d' where d': "?p d = Inr d'" "md_rlfTbBlocked d' = Some True"
    using d(2,3) by (simp add: mg_bucket_pipeline_def ifNull_def Let_def)
  obtain s1 where s1: "mg_call (findOneAndUpdate True ?pk ?p) s0 = (Inr (Some d'), s1)"
    by (rule upsert_answered [OF net0, of ?p ?pk d']) (simp_all add: s0(1) d(1) d' ifNull_def)
  obtain r s2 where "mg_incrementTokenBucket now ?pk (eff_cost o') s0 = (Inr r, s2)" "isBlocked r"
    using s1 c0 d'(2) by (auto simp: mg_incrementTokenBucket_def Let_def plain_result_def)
  then show "\<exists>r s'. mg_increment now k o' s = (Inr r, s') \<and> isBlocked r"
    using mg_increment_ready(1) [OF ready st] by blast
qed

theorem mongo_clock_behind_blocks_witness:
  "\<exists>r s'. mg_increment 7000 ''a'' None (demo_mongo TOKEN_BUCKET Answered False
      [(''rlf:a'', mg_new_doc\<lparr>md_tokens := Some 2, md_lastRefillAt := Some 10000\<rparr>)]) = (Inr r, s') \<and> isBlocked r"
proof -
  let ?d = "mg_new_doc\<lparr>md_tokens := Some 2, md_lastRefillAt := Some 10000\<rparr>"
  let ?s = "demo_mongo TOKEN_BUCKET Answered False [(''rlf:a'', ?d)]"
  have n: "mg_net ?s n = Answered" for n by code_simp
  have st: "mg_strategy ?s = TOKEN_BUCKET" by code_simp
  have p: "map_of (mg_coll ?s) (mg_keyPrefix ?s @ ''a'') = Some ?d" by code_simp
  have q: "md_tokens ?d = Some 2" "md_lastRefillAt ?d = Some 10000" by code_simp+
  have b: "(7000::time) < 10000" "eff_cost None \<le> 2" "2 \<le> mg_bucketSize ?s" "1 \<le> mg_refillIntervalMs ?s" by code_simp+
  have far: "2 + (7000 - 10000) div mg_refillIntervalMs ?s * mg_tokensPerInterval ?s < eff_cost None" by code_simp
  from mongo_clock_behind_blocks [OF n st p q b far] show ?thesis by blast
qed

text \<open>The TTL index expires the document of a bucket at its next refill, so the monitor fills the bucket:
  the next request that costs no more than a full bucket is granted.\<close>

theorem mongo_ttl_fills_bucket:
  assumes net: "\<And>n. mg_net s n = Answered" and st: "mg_strategy s = TOKEN_BUCKET"
    and d: "jsmap_ok (mg_coll s)" "map_of (mg_coll s) (mg_keyPrefix s @ k) = Some d" "md_resetAt d = Some t" "t \<le> now"
    and cost: "eff_cost o' \<le> mg_bucketSize s"
  shows "\<exists>r s'. mg_increment now k o' (s\<lparr>mg_coll := ttl_monitor now (mg_coll s)\<rparr>) = (Inr r, s') \<and>
    \<not> isBlocked r \<and> remaining r = mg_bucketSize s - eff_cost o'"
proof -
  let ?s = "s\<lparr>mg_coll := ttl_monitor now (mg_coll s)\<rparr>"
  let ?pk = "mg_keyPrefix s @ k" and ?iv = "mg_refillIntervalMs s" and ?bs = "mg_bucketSize s" and ?tpi = "mg_tokensPerInterval s"
  let ?p = "mg_bucket_pipeline now ?bs ?tpi ?iv (eff_cost o')"
  have net': "mg_net ?s n = Answered" for n using net by simp
  have st': "mg_strategy ?s = TOKEN_BUCKET" using st by simp
  obtain s0 where ready: "mg_ready ?s s0" using net' by (rule mg_ready_exists)
  note s0 = mg_readyD [OF ready]
  have net0: "mg_net s0 n = Answered" for n using net s0(2) by (simp add: mg_frame_def)
  have c0: "mg_refillIntervalMs s0 = ?iv" "mg_bucketSize s0 = ?bs" "mg_tokensPerInterval s0 = ?tpi"
    using s0(2) by (simp_all add: mg_frame_def)
  have gone: "map_of (mg_coll s0) ?pk = None" using ttl_document [OF d] s0(1) by simp
  obtain d' where d': "?p mg_new_doc = Inr d'" "md_rlfTbBlocked d' = Some False" "md_tokens d' = Some (?bs - eff_cost o')"
    using cost by (simp add: mg_bucket_pipeline_def mg_new_doc_def ifNull_def Let_def)
  obtain s1 where s1: "mg_call (findOneAndUpdate True ?pk ?p) s0 = (Inr (Some d'), s1)"
    by (rule upsert_answered [OF net0, of ?p ?pk d']) (simp_all add: gone d' ifNull_def)
  obtain r s2 where "mg_incrementTokenBucket now ?pk (eff_cost o') s0 = (Inr r, s2)" "\<not> isBlocked r"
    "remaining r = ?bs - eff_cost o'"
    using s1 c0 d'(2,3) by (auto simp: mg_incrementTokenBucket_def Let_def plain_result_def ifNull_def)
  then show ?thesis using mg_increment_ready(1) [OF ready st', of now k o' r s2] by auto
qed

theorem mongo_ttl_fills_bucket_witness:
  "\<exists>r s'. mg_increment 1000 ''a'' None ((demo_mongo TOKEN_BUCKET Answered False
      [(''rlf:a'', mg_new_doc\<lparr>md_tokens := Some 0, md_lastRefillAt := Some 0, md_resetAt := Some 1000\<rparr>)])
        \<lparr>mg_coll := ttl_monitor 1000 [(''rlf:a'', mg_new_doc\<lparr>md_tokens := Some 0, md_lastRefillAt := Some 0, md_resetAt := Some 1000\<rparr>)]\<rparr>) = (Inr r, s') \<and>
    \<not> isBlocked r \<and> remaining r = 1"
proof -
  let ?c = "[(''rlf:a'', mg_new_doc\<lparr>md_tokens := Some 0, md_lastRefillAt := Some 0, md_resetAt := Some 1000\<rparr>)]"
  let ?s = "demo_mongo TOKEN_BUCKET Answered False ?c"
  have n: "mg_net ?s n = Answered" for n by code_simp
  have st: "mg_strategy ?s = TOKEN_BUCKET" "jsmap_ok (mg_coll ?s)" by code_simp+
  have p: "map_of (mg_coll ?s) (mg_keyPrefix ?s @ ''a'') = Some (snd (hd ?c))" "md_resetAt (snd (hd ?c)) = Some 1000" by code_simp+
  have b: "eff_cost None \<le> mg_bucketSize ?s" "mg_bucketSize ?s - eff_cost None = 1" "mg_coll ?s = ?c" by code_simp+
  from mongo_ttl_fills_bucket [OF n st p, of 1000 None] b show ?thesis by simp
qed

end
