(* ===== verification/Dynamo_Store.thy ===== *)
theory Dynamo_Store
  imports Store_Utils
begin

text \<open>
  The DynamoDB store, \<open>src/stores/dynamo/DynamoStore.ts\<close> with \<open>sliding-weighted.ts\<close> and \<open>types.ts\<close>. A method
  is a program that is cut at its awaits: \<open>Await c k\<close> sends the command \<open>c\<close> and goes on with \<open>k\<close> at the reply,
  \<open>Emit\<close> reports to a callback. Every command of a method is about the one item of the key, so that a
  command is a function on that item. The update, put and condition expressions are part of the
  source and are translated into such functions; what the server adds is its documented behaviour: a
  command is atomic on its item, \<open>ADD\<close> counts a missing number as 0, a comparison with a missing
  attribute is false, \<open>SET\<close> from a missing attribute is an error. Reads see the latest write, which
  DynamoDB promises only for consistent reads; \<open>get\<close> does not ask for one and can be older. Whether a
  command is served is a parameter.
\<close>

section \<open>The weighted window (sliding-weighted.ts)\<close>

definition fixedWindowBoundaryMs :: "time \<Rightarrow> int \<Rightarrow> time" where
  "fixedWindowBoundaryMs nowMs windowMs = (nowMs div windowMs) * windowMs"

definition slidingWeight :: "time \<Rightarrow> int \<Rightarrow> time \<Rightarrow> rat" where
  "slidingWeight nowMs windowMs currentWindowStartMs =
     (let elapsedInCurrent = nowMs - currentWindowStartMs
      in if elapsedInCurrent \<le> 0 then 1
         else if elapsedInCurrent \<ge> windowMs then 0
         else 1 - of_int elapsedInCurrent / of_int windowMs)"

definition weightedSlidingCount :: "int \<Rightarrow> int \<Rightarrow> time \<Rightarrow> int \<Rightarrow> time \<Rightarrow> rat" where
  "weightedSlidingCount previousCount currentCount nowMs windowMs currentWindowStartMs =
     of_int previousCount * slidingWeight nowMs windowMs currentWindowStartMs + of_int currentCount"

definition ttlEpochSeconds :: "time \<Rightarrow> int \<Rightarrow> int" where
  "ttlEpochSeconds nowMs windowMs = - ((- (nowMs + 3 * windowMs)) div 1000)"

record weighted_window =
  ww_currentWindowStart :: time
  ww_currentCount :: int
  ww_previousCount :: int

definition simulateWeightedIncrement :: "weighted_window option \<Rightarrow> time \<Rightarrow> int \<Rightarrow> int \<Rightarrow> weighted_window" where
  "simulateWeightedIncrement state nowMs windowMs cost =
     (let thisBoundary = fixedWindowBoundaryMs nowMs windowMs
      in case state of
           None \<Rightarrow> \<lparr>ww_currentWindowStart = thisBoundary, ww_currentCount = cost, ww_previousCount = 0\<rparr>
         | Some w \<Rightarrow>
             if ww_currentWindowStart w = thisBoundary
             then w\<lparr>ww_currentCount := ww_currentCount w + cost\<rparr>
             else if ww_currentWindowStart w + windowMs = thisBoundary
             then \<lparr>ww_currentWindowStart = thisBoundary, ww_currentCount = cost, ww_previousCount = ww_currentCount w\<rparr>
             else \<lparr>ww_currentWindowStart = thisBoundary, ww_currentCount = cost, ww_previousCount = 0\<rparr>)"

section \<open>Items and commands\<close>

record dy_item =
  di_currentWindowStart :: "time option"
  di_currentCount :: "int option"
  di_previousCount :: "int option"
  di_windowStart :: "time option"
  di_totalHits :: "int option"
  di_tokens :: "int option"
  di_lastRefillAt :: "time option"
  di_ttl :: "int option"

definition no_attributes :: dy_item where
  "no_attributes = \<lparr>di_currentWindowStart = None, di_currentCount = None, di_previousCount = None, di_windowStart = None,
     di_totalHits = None, di_tokens = None, di_lastRefillAt = None, di_ttl = None\<rparr>"

text \<open>Errors: a failed condition, or what the client raises, by its class and message.\<close>

datatype dy_fault = Throttled (fault_msg: string) | Fault (fault_msg: string)
datatype dy_error = CheckFailed | Raised dy_fault

type_synonym dy_reply = "dy_error + dy_item option"
type_synonym dy_cmd = "dy_item option \<Rightarrow> dy_error + dy_item option \<times> dy_item option"

text \<open>\<open>UpdateCommand\<close> under a condition, returning \<open>ALL_NEW\<close>; on a missing item it makes one.\<close>

definition update_item :: "(dy_item option \<Rightarrow> bool) \<Rightarrow> (dy_item \<Rightarrow> dy_error + dy_item) \<Rightarrow> dy_cmd" where
  "update_item cond f i =
     (if cond i
      then (case f (case i of None \<Rightarrow> no_attributes | Some x \<Rightarrow> x) of
              Inl e \<Rightarrow> Inl e | Inr x \<Rightarrow> Inr (Some x, Some x))
      else Inl CheckFailed)"

definition has_value :: "(dy_item \<Rightarrow> 'a option) \<Rightarrow> ('a \<Rightarrow> bool) \<Rightarrow> dy_item option \<Rightarrow> bool" where
  "has_value attr P i = (case i of None \<Rightarrow> False | Some x \<Rightarrow> (case attr x of None \<Rightarrow> False | Some v \<Rightarrow> P v))"

definition add_to :: "int option \<Rightarrow> int \<Rightarrow> int option" where
  "add_to a n = Some ((case a of None \<Rightarrow> 0 | Some v \<Rightarrow> v) + n)"

definition get_item :: dy_cmd where
  "get_item i = Inr (i, i)"

definition put_item :: "(dy_item option \<Rightarrow> bool) \<Rightarrow> dy_item \<Rightarrow> dy_cmd" where
  "put_item cond x i = (if cond i then Inr (None, Some x) else Inl CheckFailed)"

definition delete_item :: dy_cmd where
  "delete_item i = Inr (i, None)"

text \<open>The three updates of \<open>runSlidingIncrementMutation\<close>.\<close>

definition sliding_add :: "int \<Rightarrow> time \<Rightarrow> int \<Rightarrow> dy_cmd" where
  "sliding_add cost b ttl =
     update_item (has_value di_currentWindowStart (\<lambda>v. v = b))
       (\<lambda>x. Inr (x\<lparr>di_currentCount := add_to (di_currentCount x) cost, di_ttl := Some ttl\<rparr>))"

definition sliding_roll :: "int \<Rightarrow> time \<Rightarrow> time \<Rightarrow> int \<Rightarrow> dy_cmd" where
  "sliding_roll cost b pb ttl =
     update_item (has_value di_currentWindowStart (\<lambda>v. v = pb))
       (\<lambda>x. case di_currentCount x of
              None \<Rightarrow> Inl (Raised (Fault ''ValidationException''))
            | Some c \<Rightarrow>
                Inr (x\<lparr>di_previousCount := Some c, di_currentCount := Some cost, di_currentWindowStart := Some b,
                       di_ttl := Some ttl\<rparr>))"

definition sliding_fresh :: "int \<Rightarrow> time \<Rightarrow> int \<Rightarrow> dy_cmd" where
  "sliding_fresh cost b ttl =
     update_item (\<lambda>i. i = None \<or> has_value di_currentWindowStart (\<lambda>v. v < b) i)
       (\<lambda>x. Inr (x\<lparr>di_previousCount := Some 0, di_currentCount := Some cost, di_currentWindowStart := Some b,
                     di_ttl := Some ttl\<rparr>))"

text \<open>The two updates of \<open>incrementFixed\<close>.\<close>

definition fixed_add :: "int \<Rightarrow> time \<Rightarrow> int \<Rightarrow> dy_cmd" where
  "fixed_add cost b ttl =
     update_item (has_value di_windowStart (\<lambda>v. v = b))
       (\<lambda>x. Inr (x\<lparr>di_totalHits := add_to (di_totalHits x) cost, di_ttl := Some ttl\<rparr>))"

definition fixed_fresh :: "int \<Rightarrow> time \<Rightarrow> int \<Rightarrow> dy_cmd" where
  "fixed_fresh cost b ttl =
     update_item (\<lambda>i. i = None \<or> has_value di_windowStart (\<lambda>v. v < b) i)
       (\<lambda>x. Inr (x\<lparr>di_totalHits := Some cost, di_windowStart := Some b, di_ttl := Some ttl\<rparr>))"

text \<open>The put and the update of \<open>incrementTokenBucket\<close>.\<close>

definition bucket_put :: "int \<Rightarrow> time \<Rightarrow> int \<Rightarrow> dy_cmd" where
  "bucket_put tok lr ttl =
     put_item (\<lambda>i. i = None) (no_attributes\<lparr>di_tokens := Some tok, di_lastRefillAt := Some lr, di_ttl := Some ttl\<rparr>)"

definition bucket_swap :: "int \<Rightarrow> time \<Rightarrow> int \<Rightarrow> time \<Rightarrow> int \<Rightarrow> dy_cmd" where
  "bucket_swap ot olr tok lr ttl =
     update_item (\<lambda>i. has_value di_tokens (\<lambda>v. v = ot) i \<and> has_value di_lastRefillAt (\<lambda>v. v = olr) i)
       (\<lambda>x. Inr (x\<lparr>di_tokens := Some tok, di_lastRefillAt := Some lr, di_ttl := Some ttl\<rparr>))"

text \<open>The updates of \<open>decrement\<close>.\<close>

definition sliding_sub :: "int \<Rightarrow> time \<Rightarrow> dy_cmd" where
  "sliding_sub neg b =
     update_item (has_value di_currentWindowStart (\<lambda>v. v = b))
       (\<lambda>x. Inr (x\<lparr>di_currentCount := add_to (di_currentCount x) neg\<rparr>))"

definition sliding_clamp :: "time \<Rightarrow> dy_cmd" where
  "sliding_clamp b =
     update_item (\<lambda>i. has_value di_currentWindowStart (\<lambda>v. v = b) i \<and> has_value di_currentCount (\<lambda>v. v < 0) i)
       (\<lambda>x. Inr (x\<lparr>di_currentCount := Some 0\<rparr>))"

definition fixed_sub :: "int \<Rightarrow> time \<Rightarrow> dy_cmd" where
  "fixed_sub neg b =
     update_item (has_value di_windowStart (\<lambda>v. v = b))
       (\<lambda>x. Inr (x\<lparr>di_totalHits := add_to (di_totalHits x) neg\<rparr>))"

definition fixed_clamp :: "time \<Rightarrow> dy_cmd" where
  "fixed_clamp b =
     update_item (\<lambda>i. has_value di_windowStart (\<lambda>v. v = b) i \<and> has_value di_totalHits (\<lambda>v. v < 0) i)
       (\<lambda>x. Inr (x\<lparr>di_totalHits := Some 0\<rparr>))"

definition bucket_add :: "int \<Rightarrow> int \<Rightarrow> dy_cmd" where
  "bucket_add cost ttl =
     update_item (\<lambda>i. i \<noteq> None) (\<lambda>x. Inr (x\<lparr>di_tokens := add_to (di_tokens x) cost, di_ttl := Some ttl\<rparr>))"

definition bucket_clamp :: "int \<Rightarrow> dy_cmd" where
  "bucket_clamp bs = update_item (has_value di_tokens (\<lambda>v. v > bs)) (\<lambda>x. Inr (x\<lparr>di_tokens := Some bs\<rparr>))"

section \<open>Methods as programs\<close>

datatype ('c, 'r, 'l, 'a) async =
    Return 'a
  | Emit 'l "('c, 'r, 'l, 'a) async"
  | Await 'c "'r \<Rightarrow> ('c, 'r, 'l, 'a) async"

primrec async_bind ::
  "('c, 'r, 'l, 'a) async \<Rightarrow> ('a \<Rightarrow> ('c, 'r, 'l, 'b) async) \<Rightarrow> ('c, 'r, 'l, 'b) async" where
  "async_bind (Return a) f = f a"
| "async_bind (Emit l p) f = Emit l (async_bind p f)"
| "async_bind (Await c k) f = Await c (\<lambda>r. async_bind (k r) f)"

text \<open>\<open>DynamoSlidingWindowObservation\<close>, and what the callbacks are told.\<close>

record dy_observation =
  ob_previousWindowBlendWeight :: rat
  ob_previousSubwindowHits :: int
  ob_currentSubwindowHits :: int
  ob_approximateUsage :: rat
  ob_roundedTotalHitsEstimate :: int
  ob_cap :: int
  ob_windowMs :: int
  ob_currentWindowStartMs :: time
  ob_nowMs :: time

datatype dy_event = DyWarn string "dy_error option" | DyObserve dy_observation

type_synonym 'a dy_prog = "(dy_cmd, dy_reply, dy_event, dy_error + 'a) async"

section \<open>The class\<close>

record dynamo =
  dy_strategy :: strategy
  dy_windowMs :: int
  dy_maxRequests :: int
  dy_tokensPerInterval :: int
  dy_refillIntervalMs :: int
  dy_bucketSize :: int
  dy_keyPrefix :: string
  dy_ttlAttribute :: string
  dy_failOpen :: bool                    \<comment> \<open>\<open>onDynamoError\<close>\<close>
  dy_observed :: bool                    \<comment> \<open>\<open>onSlidingWindowObservation\<close> is given\<close>

record dy_options =
  do_tableName :: "string option"
  do_strategy :: "strategy option"
  do_windowMs :: js_value
  do_maxRequests :: js_value
  do_tokensPerInterval :: "rat option"
  do_interval :: js_value
  do_bucketSize :: js_value
  do_keyPrefix :: "string option"
  do_ttlAttribute :: "string option"
  do_failClosed :: bool
  do_observed :: bool

definition new_DynamoStore :: "dy_options \<Rightarrow> string + dynamo" where
  "new_DynamoStore opts =
     (if do_tableName opts \<in> {None, Some ''''} then Inl ''DynamoStore: tableName is required''
      else Inr \<lparr>dy_strategy = (case do_strategy opts of None \<Rightarrow> FIXED_WINDOW | Some x \<Rightarrow> x),
                dy_windowMs = sanitizeWindowMs (do_windowMs opts) 60000,
                dy_maxRequests = sanitizeRateLimitCap (do_maxRequests opts) 100,
                dy_tokensPerInterval = max 1 \<lfloor>case do_tokensPerInterval opts of None \<Rightarrow> 10 | Some n \<Rightarrow> n\<rfloor>,
                dy_refillIntervalMs = sanitizeWindowMs (do_interval opts) 60000,
                dy_bucketSize = sanitizeRateLimitCap (do_bucketSize opts) 100,
                dy_keyPrefix = (case do_keyPrefix opts of None \<Rightarrow> ''rlf:'' | Some p \<Rightarrow> p),
                dy_ttlAttribute = (case do_ttlAttribute opts of None \<Rightarrow> ''ttl'' | Some a \<Rightarrow> a),
                dy_failOpen = (\<not> do_failClosed opts), dy_observed = do_observed opts\<rparr>)"

definition isProgrammerError :: "dy_error \<Rightarrow> bool" where
  "isProgrammerError e =
     (case e of CheckFailed \<Rightarrow> False | Raised f \<Rightarrow> take 12 (fault_msg f) = ''DynamoStore:'')"

definition isThrottlingError :: "dy_error \<Rightarrow> bool" where
  "isThrottlingError e = (case e of Raised (Throttled _) \<Rightarrow> True | _ \<Rightarrow> False)"

section \<open>Increment\<close>

definition attributes :: "dy_item option \<Rightarrow> dy_item" where
  "attributes a = (case a of None \<Rightarrow> no_attributes | Some x \<Rightarrow> x)"

fun runSlidingIncrementMutation :: "nat \<Rightarrow> int \<Rightarrow> time \<Rightarrow> time \<Rightarrow> int \<Rightarrow> dy_item dy_prog" where
  "runSlidingIncrementMutation 0 cost b pb ttl =
     Return (Inl (Raised (Fault ''DynamoStore: sliding increment could not commit (too much contention at window boundary)'')))"
| "runSlidingIncrementMutation (Suc n) cost b pb ttl =
     Await (sliding_add cost b ttl) (\<lambda>r. case r of
       Inr a \<Rightarrow> Return (Inr (attributes a))
     | Inl (Raised f) \<Rightarrow> Return (Inl (Raised f))
     | Inl CheckFailed \<Rightarrow>
         Await (sliding_roll cost b pb ttl) (\<lambda>r. case r of
           Inr a \<Rightarrow> Return (Inr (attributes a))
         | Inl (Raised f) \<Rightarrow> Return (Inl (Raised f))
         | Inl CheckFailed \<Rightarrow>
             Await (sliding_fresh cost b ttl) (\<lambda>r. case r of
               Inr a \<Rightarrow> Return (Inr (attributes a))
             | Inl (Raised f) \<Rightarrow> Return (Inl (Raised f))
             | Inl CheckFailed \<Rightarrow> runSlidingIncrementMutation n cost b pb ttl)))"

text \<open>\<open>Number(undefined)\<close> is \<open>NaN\<close>; every item the caller gets here has a start, so 0 stands for it.\<close>

definition or0 :: "int option \<Rightarrow> int" where
  "or0 a = (case a of None \<Rightarrow> 0 | Some n \<Rightarrow> n)"

definition sliding_raw :: "dynamo \<Rightarrow> dy_item \<Rightarrow> time \<Rightarrow> rat" where
  "sliding_raw D ats now =
     weightedSlidingCount (or0 (di_previousCount ats)) (or0 (di_currentCount ats)) now (dy_windowMs D)
       (or0 (di_currentWindowStart ats))"

definition sliding_observation :: "dynamo \<Rightarrow> dy_item \<Rightarrow> time \<Rightarrow> int \<Rightarrow> dy_observation" where
  "sliding_observation D ats now cap =
     \<lparr>ob_previousWindowBlendWeight = slidingWeight now (dy_windowMs D) (or0 (di_currentWindowStart ats)),
      ob_previousSubwindowHits = or0 (di_previousCount ats), ob_currentSubwindowHits = or0 (di_currentCount ats),
      ob_approximateUsage = sliding_raw D ats now, ob_roundedTotalHitsEstimate = \<lceil>sliding_raw D ats now\<rceil>,
      ob_cap = cap, ob_windowMs = dy_windowMs D, ob_currentWindowStartMs = or0 (di_currentWindowStart ats), ob_nowMs = now\<rparr>"

definition sliding_result :: "dynamo \<Rightarrow> dy_item \<Rightarrow> time \<Rightarrow> int \<Rightarrow> rl_result" where
  "sliding_result D ats now cap =
     (let raw = sliding_raw D ats now
      in plain_result \<lceil>raw\<rceil> (max 0 (cap - \<lceil>raw\<rceil>)) (or0 (di_currentWindowStart ats) + dy_windowMs D) (raw > of_int cap))"

definition slidingResultFromAttributes :: "dynamo \<Rightarrow> dy_item \<Rightarrow> time \<Rightarrow> int \<Rightarrow> rl_result dy_prog" where
  "slidingResultFromAttributes D ats now cap =
     (let p = Return (Inr (sliding_result D ats now cap))
      in if dy_observed D then Emit (DyObserve (sliding_observation D ats now cap)) p else p)"

definition dy_incrementSliding :: "dynamo \<Rightarrow> int \<Rightarrow> int \<Rightarrow> time \<Rightarrow> rl_result dy_prog" where
  "dy_incrementSliding D cap cost now =
     (let b = fixedWindowBoundaryMs now (dy_windowMs D)
      in async_bind (runSlidingIncrementMutation 24 cost b (b - dy_windowMs D) (ttlEpochSeconds now (dy_windowMs D)))
           (\<lambda>r. case r of Inl e \<Rightarrow> Return (Inl e) | Inr ats \<Rightarrow> slidingResultFromAttributes D ats now cap))"

definition fixedResultFromAttributes :: "dynamo \<Rightarrow> dy_item \<Rightarrow> int \<Rightarrow> rl_result" where
  "fixedResultFromAttributes D ats cap =
     window_result (max 0 (or0 (di_totalHits ats))) cap (or0 (di_windowStart ats) + dy_windowMs D)"

fun fixed_attempts :: "nat \<Rightarrow> dynamo \<Rightarrow> int \<Rightarrow> int \<Rightarrow> time \<Rightarrow> int \<Rightarrow> rl_result dy_prog" where
  "fixed_attempts 0 D cap cost b ttl =
     Return (Inl (Raised (Fault ''DynamoStore: fixed window increment could not commit (too much contention at window boundary)'')))"
| "fixed_attempts (Suc n) D cap cost b ttl =
     Await (fixed_add cost b ttl) (\<lambda>r. case r of
       Inr a \<Rightarrow> Return (Inr (fixedResultFromAttributes D (attributes a) cap))
     | Inl (Raised f) \<Rightarrow> Return (Inl (Raised f))
     | Inl CheckFailed \<Rightarrow>
         Await (fixed_fresh cost b ttl) (\<lambda>r. case r of
           Inr a \<Rightarrow> Return (Inr (fixedResultFromAttributes D (attributes a) cap))
         | Inl (Raised f) \<Rightarrow> Return (Inl (Raised f))
         | Inl CheckFailed \<Rightarrow> fixed_attempts n D cap cost b ttl))"

definition dy_incrementFixed :: "dynamo \<Rightarrow> int \<Rightarrow> int \<Rightarrow> time \<Rightarrow> rl_result dy_prog" where
  "dy_incrementFixed D cap cost now =
     fixed_attempts 24 D cap cost (fixedWindowBoundaryMs now (dy_windowMs D)) (ttlEpochSeconds now (dy_windowMs D))"

text \<open>What an attempt of the bucket computes from the stored tokens and refill time: the result and what
  to store.\<close>

definition bucket_compute :: "dynamo \<Rightarrow> int \<Rightarrow> time \<Rightarrow> int \<Rightarrow> time \<Rightarrow> rl_result \<times> int \<times> time" where
  "bucket_compute D cost now tStored lrStored =
     (let bs = dy_bucketSize D; interval = dy_refillIntervalMs D;
          (t, l) = refillBucketState tStored lrStored now bs (dy_tokensPerInterval D) interval;
          blocked = \<not> t \<ge> cost;
          newTokens = (if blocked then t else t - cost)
      in (plain_result (if blocked then bs else bs - newTokens) (if blocked then 0 else newTokens) (l + interval) blocked,
          newTokens, l))"

definition bucket_stored :: "dynamo \<Rightarrow> time \<Rightarrow> dy_item option \<Rightarrow> int \<times> time" where
  "bucket_stored D now i =
     (case i of
        None \<Rightarrow> (dy_bucketSize D, now)
      | Some x \<Rightarrow> (case (di_tokens x, di_lastRefillAt x) of (Some t, Some l) \<Rightarrow> (t, l) | _ \<Rightarrow> (dy_bucketSize D, now)))"

fun bucket_attempts :: "nat \<Rightarrow> dynamo \<Rightarrow> int \<Rightarrow> time \<Rightarrow> int \<Rightarrow> rl_result dy_prog" where
  "bucket_attempts 0 D cost now ttl =
     Return (Inl (Raised (Fault ''DynamoStore: token bucket increment could not commit (too much contention)'')))"
| "bucket_attempts (Suc n) D cost now ttl =
     Await get_item (\<lambda>r. case r of
       Inl e \<Rightarrow> Return (Inl e)
     | Inr got \<Rightarrow>
         (case bucket_stored D now got of
            (tStored, lrStored) \<Rightarrow>
              (case bucket_compute D cost now tStored lrStored of
                 (res, newTokens, newLast) \<Rightarrow>
                   Await (case got of None \<Rightarrow> bucket_put newTokens newLast ttl
                          | Some _ \<Rightarrow> bucket_swap tStored lrStored newTokens newLast ttl)
                     (\<lambda>r. case r of
                        Inr _ \<Rightarrow> Return (Inr res)
                      | Inl (Raised f) \<Rightarrow> Return (Inl (Raised f))
                      | Inl CheckFailed \<Rightarrow> bucket_attempts n D cost now ttl))))"

definition dy_incrementTokenBucket :: "dynamo \<Rightarrow> int \<Rightarrow> time \<Rightarrow> rl_result dy_prog" where
  "dy_incrementTokenBucket D cost now =
     bucket_attempts 12 D cost now (- ((- (now + 3 * dy_refillIntervalMs D)) div 1000))"

definition dy_failOpenIncrementResult :: "dynamo \<Rightarrow> int \<Rightarrow> time \<Rightarrow> rl_result" where
  "dy_failOpenIncrementResult D cap now =
     (if dy_strategy D = TOKEN_BUCKET then plain_result 0 (dy_bucketSize D) (now + dy_refillIntervalMs D) False
      else plain_result 0 cap (now + dy_windowMs D) False)"

definition dy_failClosedIncrementResult :: "dynamo \<Rightarrow> int \<Rightarrow> time \<Rightarrow> rl_result" where
  "dy_failClosedIncrementResult D cap now =
     (plain_result (cap + 1) 0
        (now + (if dy_strategy D = TOKEN_BUCKET then dy_refillIntervalMs D else dy_windowMs D)) True)\<lparr>storeUnavailable := True\<rparr>"

definition dy_cap :: "dynamo \<Rightarrow> inc_opts option \<Rightarrow> int" where
  "dy_cap D o' =
     (if dy_strategy D = TOKEN_BUCKET then dy_bucketSize D
      else sanitizeRateLimitCap (js_or (opt_maxRequests o') (js_int (dy_maxRequests D))) (dy_maxRequests D))"

definition dy_increment :: "dynamo \<Rightarrow> time \<Rightarrow> inc_opts option \<Rightarrow> rl_result dy_prog" where
  "dy_increment D now o' =
     (let cap = dy_cap D o'; cost = sanitizeIncrementCost (opt_cost o') 1
      in async_bind
           (case dy_strategy D of
              SLIDING_WINDOW \<Rightarrow> dy_incrementSliding D cap cost now
            | FIXED_WINDOW \<Rightarrow> dy_incrementFixed D cap cost now
            | TOKEN_BUCKET \<Rightarrow> dy_incrementTokenBucket D cost now)
           (\<lambda>r. case r of
              Inr res \<Rightarrow> Return (Inr res)
            | Inl e \<Rightarrow>
                if isProgrammerError e then Return (Inl e)
                else Emit (DyWarn ''DynamoDB increment failed'' (Some e))
                       (Return (Inr (if \<not> dy_failOpen D then dy_failClosedIncrementResult D cap now
                                     else dy_failOpenIncrementResult D cap now)))))"

section \<open>The other methods\<close>

text \<open>The \<open>catch\<close> blocks: with and without the distinction of throttling errors, and what the method
  answers when it fails open.\<close>

definition dy_guard :: "dynamo \<Rightarrow> string \<Rightarrow> 'a \<Rightarrow> 'a dy_prog \<Rightarrow> 'a dy_prog" where
  "dy_guard D msg d p =
     async_bind p (\<lambda>r. case r of
       Inr a \<Rightarrow> Return (Inr a)
     | Inl e \<Rightarrow>
         if isProgrammerError e then Return (Inl e)
         else Emit (DyWarn msg (Some e)) (Return (if \<not> dy_failOpen D then Inl e else Inr d)))"

definition dy_guard_throttled :: "dynamo \<Rightarrow> string \<Rightarrow> 'a \<Rightarrow> 'a dy_prog \<Rightarrow> 'a dy_prog" where
  "dy_guard_throttled D msg d p =
     async_bind p (\<lambda>r. case r of
       Inr a \<Rightarrow> Return (Inr a)
     | Inl e \<Rightarrow>
         if isProgrammerError e then Return (Inl e)
         else Emit (DyWarn msg (Some e))
                (Return (if isThrottlingError e then (if \<not> dy_failOpen D then Inl e else Inr d)
                         else (if \<not> dy_failOpen D then Inl e else Inr d))))"

text \<open>An update and, where the value it returns is out of range, the clamp after it. A failed condition
  ends either without error.\<close>

definition update_then_clamp :: "dy_cmd \<Rightarrow> (dy_item \<Rightarrow> bool) \<Rightarrow> dy_cmd \<Rightarrow> unit dy_prog" where
  "update_then_clamp c out_of_range clamp =
     Await c (\<lambda>r. case r of
       Inl CheckFailed \<Rightarrow> Return (Inr ())
     | Inl (Raised f) \<Rightarrow> Return (Inl (Raised f))
     | Inr a \<Rightarrow>
         if out_of_range (attributes a)
         then Await clamp (\<lambda>r. case r of Inl (Raised f) \<Rightarrow> Return (Inl (Raised f)) | _ \<Rightarrow> Return (Inr ()))
         else Return (Inr ()))"

definition dy_decrement :: "dynamo \<Rightarrow> time \<Rightarrow> dec_opts option \<Rightarrow> unit dy_prog" where
  "dy_decrement D now d =
     (let cost = sanitizeIncrementCost (opt_dec_cost d) 1; b = fixedWindowBoundaryMs now (dy_windowMs D)
      in dy_guard D ''DynamoDB decrement failed'' ()
           (case dy_strategy D of
              SLIDING_WINDOW \<Rightarrow>
                (let p = update_then_clamp (sliding_sub (- cost) b) (\<lambda>x. or0 (di_currentCount x) < 0) (sliding_clamp b)
                 in if opt_removeNewest d
                    then Emit (DyWarn ''DynamoStore: removeNewest sliding decrement is not supported; applying current-window ADD only'' None) p
                    else p)
            | FIXED_WINDOW \<Rightarrow>
                update_then_clamp (fixed_sub (- cost) b) (\<lambda>x. or0 (di_totalHits x) < 0) (fixed_clamp b)
            | TOKEN_BUCKET \<Rightarrow>
                update_then_clamp (bucket_add cost (- ((- (now + 3 * dy_refillIntervalMs D)) div 1000)))
                  (\<lambda>x. or0 (di_tokens x) > dy_bucketSize D) (bucket_clamp (dy_bucketSize D))))"

text \<open>A single command and the method's answer from its reply.\<close>

definition await_then :: "dy_cmd \<Rightarrow> (dy_item option \<Rightarrow> 'a) \<Rightarrow> 'a dy_prog" where
  "await_then c f = Await c (\<lambda>r. case r of Inl e \<Rightarrow> Return (Inl e) | Inr a \<Rightarrow> Return (Inr (f a)))"

definition dy_reset :: "dynamo \<Rightarrow> unit dy_prog" where
  "dy_reset D = dy_guard_throttled D ''DynamoDB reset failed'' () (await_then delete_item (\<lambda>_. ()))"

definition dy_delete :: "dynamo \<Rightarrow> bool dy_prog" where
  "dy_delete D = dy_guard_throttled D ''DynamoDB delete failed'' False (await_then delete_item (\<lambda>a. a \<noteq> None))"

definition dy_shutdown :: "unit dy_prog" where
  "dy_shutdown = Return (Inr ())"

definition dy_get :: "dynamo \<Rightarrow> time \<Rightarrow> rl_result option dy_prog" where
  "dy_get D now =
     (let cap = dy_maxRequests D
      in dy_guard_throttled D ''DynamoDB get failed'' None
           (Await get_item (\<lambda>r. case r of
              Inl e \<Rightarrow> Return (Inl e)
            | Inr None \<Rightarrow> Return (Inr None)
            | Inr (Some x) \<Rightarrow>
                (case dy_strategy D of
                   SLIDING_WINDOW \<Rightarrow>
                     (case di_currentWindowStart x of
                        None \<Rightarrow> Return (Inr None)
                      | Some cws \<Rightarrow>
                          if cws + 2 * dy_windowMs D \<le> now then Return (Inr None)
                          else async_bind (slidingResultFromAttributes D x now cap)
                                 (\<lambda>r. case r of Inl e \<Rightarrow> Return (Inl e) | Inr res \<Rightarrow> Return (Inr (Some res))))
                 | FIXED_WINDOW \<Rightarrow>
                     (case di_windowStart x of
                        None \<Rightarrow> Return (Inr None)
                      | Some ws \<Rightarrow>
                          if now \<ge> ws + dy_windowMs D then Return (Inr None)
                          else Return (Inr (Some (fixedResultFromAttributes D x cap))))
                 | TOKEN_BUCKET \<Rightarrow>
                     (case (di_tokens x, di_lastRefillAt x) of
                        (Some tok, Some lr) \<Rightarrow>
                          (case refillBucketState tok lr now (dy_bucketSize D) (dy_tokensPerInterval D) (dy_refillIntervalMs D) of
                             (t, l) \<Rightarrow>
                               Return (Inr (Some (plain_result (dy_bucketSize D - t) t (l + dy_refillIntervalMs D)
                                 (t = 0 \<and> dy_bucketSize D - t \<ge> dy_bucketSize D)))))
                      | _ \<Rightarrow> Return (Inr None))))))"

definition failOpenSetResult :: "dynamo \<Rightarrow> int \<Rightarrow> time \<Rightarrow> rl_result" where
  "failOpenSetResult D n now =
     (if dy_strategy D = TOKEN_BUCKET
      then (let cap = dy_bucketSize D; blocked = n \<ge> cap
            in plain_result (if blocked then cap else n) (if blocked then 0 else max 0 (cap - n))
                 (now + dy_refillIntervalMs D) blocked)
      else window_result n (dy_maxRequests D) (now + dy_windowMs D))"

definition dy_set :: "dynamo \<Rightarrow> time \<Rightarrow> int \<Rightarrow> time option \<Rightarrow> rl_result dy_prog" where
  "dy_set D now hits expiresAt =
     (let n = max 0 hits;
          ttl = - ((- (now + 3 * (if dy_strategy D = TOKEN_BUCKET then dy_refillIntervalMs D else dy_windowMs D))) div 1000);
          b = fixedWindowBoundaryMs now (dy_windowMs D)
      in dy_guard_throttled D ''DynamoDB set failed'' (failOpenSetResult D n now)
           (case dy_strategy D of
              SLIDING_WINDOW \<Rightarrow>
                await_then (put_item (\<lambda>_. True) (no_attributes\<lparr>di_currentWindowStart := Some b, di_previousCount := Some 0,
                    di_currentCount := Some n, di_ttl := Some ttl\<rparr>))
                  (\<lambda>_. window_result n (dy_maxRequests D) (b + dy_windowMs D))
            | FIXED_WINDOW \<Rightarrow>
                await_then (put_item (\<lambda>_. True) (no_attributes\<lparr>di_windowStart := Some b, di_totalHits := Some n,
                    di_ttl := Some ttl\<rparr>))
                  (\<lambda>_. window_result n (dy_maxRequests D) (case expiresAt of None \<Rightarrow> b + dy_windowMs D | Some t \<Rightarrow> t))
            | TOKEN_BUCKET \<Rightarrow>
                (let cap = dy_bucketSize D; blocked = n \<ge> cap; tokens = (if blocked then 0 else max 0 (cap - n))
                 in await_then (put_item (\<lambda>_. True) (no_attributes\<lparr>di_tokens := Some tokens, di_lastRefillAt := Some now,
                        di_ttl := Some ttl\<rparr>))
                      (\<lambda>_. plain_result (if blocked then cap else n) tokens (now + dy_refillIntervalMs D) blocked))))"

section \<open>Running a method alone\<close>

text \<open>What becomes of a command: served, refused before it took effect, or the reply lost.\<close>

datatype dy_outcome = Served | Refused dy_fault | Unheard dy_fault

definition serve :: "dy_outcome \<Rightarrow> dy_cmd \<Rightarrow> dy_item option \<Rightarrow> dy_reply \<times> dy_item option" where
  "serve out c i =
     (let effect = (case c i of Inl e \<Rightarrow> i | Inr (_, i') \<Rightarrow> i')
      in case out of
           Served \<Rightarrow> ((case c i of Inl e \<Rightarrow> Inl e | Inr (a, _) \<Rightarrow> Inr a), effect)
         | Refused f \<Rightarrow> (Inl (Raised f), i)
         | Unheard f \<Rightarrow> (Inl (Raised f), effect))"

record dy_world =
  dw_table :: "(key, dy_item) jsmap"
  dw_net :: "nat \<Rightarrow> dy_outcome"
  dw_calls :: nat
  dw_events :: "dy_event list"

definition put_back :: "key \<Rightarrow> dy_item option \<Rightarrow> (key, dy_item) jsmap \<Rightarrow> (key, dy_item) jsmap" where
  "put_back k i t = (case i of None \<Rightarrow> AList.delete k t | Some x \<Rightarrow> AList.update k x t)"

primrec run_async :: "(dy_cmd, dy_reply, dy_event, 'a) async \<Rightarrow> key \<Rightarrow> dy_world \<Rightarrow> 'a \<times> dy_world" where
  "run_async (Return a) pk w = (a, w)"
| "run_async (Emit l p) pk w = run_async p pk (w\<lparr>dw_events := dw_events w @ [l]\<rparr>)"
| "run_async (Await c k) pk w =
     (case serve (dw_net w (dw_calls w)) c (map_of (dw_table w) pk) of
        (r, i) \<Rightarrow> run_async (k r) pk (w\<lparr>dw_calls := Suc (dw_calls w), dw_table := put_back pk i (dw_table w)\<rparr>))"


end
