(* ===== verification/Dynamo_Store_Properties.thy ===== *)
theory Dynamo_Store_Properties
  imports Dynamo_Store Memory_Store_Quota
begin

text \<open>
  What the DynamoDB store guarantees. \<open>dy_apply\<close> says what an increment is meant to do to the item of its
  key, in one step. \<open>commits\<close> relates the program of an increment, with its retries, to that step: it
  changes the item at most once, and then as \<open>dy_apply\<close> says. From it follows that overlapping
  increments have a serial order for the fixed window and the token bucket, and for the sliding window
  within one sub-window. The weighted sliding window is then compared with its simulation and with
  an exact window.
\<close>

section \<open>The intended effect of an increment\<close>

definition sliding_apply :: "dynamo \<Rightarrow> int \<Rightarrow> time \<Rightarrow> int \<Rightarrow> dy_item option \<Rightarrow> dy_item option" where
  "sliding_apply D cost b ttl i =
     (let fresh = (\<lambda>x. x\<lparr>di_previousCount := Some 0, di_currentCount := Some cost, di_currentWindowStart := Some b,
                     di_ttl := Some ttl\<rparr>)
      in case i of
           None \<Rightarrow> Some (fresh no_attributes)
         | Some x \<Rightarrow>
             (case di_currentWindowStart x of
                None \<Rightarrow> None
              | Some ws \<Rightarrow>
                  if ws = b then Some (x\<lparr>di_currentCount := add_to (di_currentCount x) cost, di_ttl := Some ttl\<rparr>)
                  else if ws = b - dy_windowMs D
                  then map_option (\<lambda>c. x\<lparr>di_previousCount := Some c, di_currentCount := Some cost,
                                        di_currentWindowStart := Some b, di_ttl := Some ttl\<rparr>) (di_currentCount x)
                  else if ws < b then Some (fresh x)
                  else None))"

definition fixed_apply :: "int \<Rightarrow> time \<Rightarrow> int \<Rightarrow> dy_item option \<Rightarrow> dy_item option" where
  "fixed_apply cost b ttl i =
     (let fresh = (\<lambda>x. x\<lparr>di_totalHits := Some cost, di_windowStart := Some b, di_ttl := Some ttl\<rparr>)
      in case i of
           None \<Rightarrow> Some (fresh no_attributes)
         | Some x \<Rightarrow>
             (case di_windowStart x of
                None \<Rightarrow> None
              | Some ws \<Rightarrow>
                  if ws = b then Some (x\<lparr>di_totalHits := add_to (di_totalHits x) cost, di_ttl := Some ttl\<rparr>)
                  else if ws < b then Some (fresh x)
                  else None))"

definition bucket_apply :: "dynamo \<Rightarrow> int \<Rightarrow> time \<Rightarrow> int \<Rightarrow> dy_item option \<Rightarrow> (rl_result \<times> dy_item) option" where
  "bucket_apply D cost now ttl i =
     (case i of
        None \<Rightarrow>
          (case bucket_compute D cost now (dy_bucketSize D) now of
             (r, n, l) \<Rightarrow> Some (r, no_attributes\<lparr>di_tokens := Some n, di_lastRefillAt := Some l, di_ttl := Some ttl\<rparr>))
      | Some x \<Rightarrow>
          (case (di_tokens x, di_lastRefillAt x) of
             (Some t, Some lr) \<Rightarrow>
               (case bucket_compute D cost now t lr of
                  (r, n, l) \<Rightarrow> Some (r, x\<lparr>di_tokens := Some n, di_lastRefillAt := Some l, di_ttl := Some ttl\<rparr>))
           | _ \<Rightarrow> None))"

definition dy_apply :: "dynamo \<Rightarrow> time \<times> inc_opts option \<Rightarrow> dy_item option \<Rightarrow> (rl_result \<times> dy_item) option" where
  "dy_apply D q i =
     (let now = fst q; cap = dy_cap D (snd q); cost = eff_cost (snd q);
          b = fixedWindowBoundaryMs now (dy_windowMs D); ttl = ttlEpochSeconds now (dy_windowMs D)
      in case dy_strategy D of
           SLIDING_WINDOW \<Rightarrow> map_option (\<lambda>x. (sliding_result D x now cap, x)) (sliding_apply D cost b ttl i)
         | FIXED_WINDOW \<Rightarrow> map_option (\<lambda>x. (fixedResultFromAttributes D x cap, x)) (fixed_apply cost b ttl i)
         | TOKEN_BUCKET \<Rightarrow> bucket_apply D cost now (- ((- (now + 3 * dy_refillIntervalMs D)) div 1000)) i)"

section \<open>Programs that commit once\<close>

primrec quiet :: "('c, 'r, 'l, 'a) async \<Rightarrow> bool" where
  "quiet (Return a) = True"
| "quiet (Emit l p) = quiet p"
| "quiet (Await c k) = False"

primrec yields :: "'a \<Rightarrow> ('c, 'r, 'l, 'a) async \<Rightarrow> bool" where
  "yields v (Return a) = (a = v)"
| "yields v (Emit l p) = yields v p"
| "yields v (Await c k) = False"

text \<open>\<open>commits I S p\<close>: as long as the item satisfies \<open>I\<close>, the program \<open>p\<close> changes it at most once, then as \<open>S\<close>
  says and to an item in \<open>I\<close>, and goes on to return the result of \<open>S\<close> without a further command; where
  it gives up without a fault it returns an error of its own; after a fault it sends nothing more.\<close>

primrec commits ::
  "(dy_item option \<Rightarrow> bool) \<Rightarrow> (dy_item option \<Rightarrow> ('a \<times> dy_item) option) \<Rightarrow> 'a dy_prog \<Rightarrow> bool" where
  "commits I S (Return a) = (\<exists>e. a = Inl e \<and> isProgrammerError e)"
| "commits I S (Emit l p) = commits I S p"
| "commits I S (Await c k) =
     ((\<forall>f. quiet (k (Inl (Raised f)))) \<and>
      (\<forall>i. I i \<longrightarrow> c i = Inl CheckFailed \<longrightarrow> commits I S (k (Inl CheckFailed))) \<and>
      (\<forall>i a i'. I i \<longrightarrow> c i = Inr (a, i') \<longrightarrow>
         i' = i \<and> commits I S (k (Inr a)) \<or>
         (\<exists>x r. i' = Some x \<and> I i' \<and> S i = Some (r, x) \<and> yields (Inr r) (k (Inr a)))))"

lemma yields_quiet: "yields v p \<Longrightarrow> quiet p"
  by (induction p) auto

lemma quiet_bind: "quiet p \<Longrightarrow> (\<And>a. quiet (f a)) \<Longrightarrow> quiet (async_bind p f)"
  by (induction p) auto

lemma yields_bind: "yields v p \<Longrightarrow> yields w (f v) \<Longrightarrow> yields w (async_bind p f)"
  by (induction p) auto

lemma commits_bind:
  assumes "commits I S0 p"
    and S: "\<And>i b x. S0 i = Some (b, x) \<Longrightarrow> S i = Some (h b, x)"
    and ok: "\<And>b. yields (Inr (h b)) (f (Inr b))" and err: "\<And>e. quiet (f (Inl e))"
    and own: "\<And>e. isProgrammerError e \<Longrightarrow> commits I S (f (Inl e))"
  shows "commits I S (async_bind p f)"
  using assms(1)
proof (induction p)
  case (Return a)
  then show ?case using own by auto
next
  case (Await c k)
  have q: "quiet (f a)" for a using err yields_quiet [OF ok] by (cases a) auto
  show ?case
  proof (simp only: commits.simps async_bind.simps, intro conjI allI impI)
    show "quiet (async_bind (k (Inl (Raised e))) f)" for e
      using Await.prems q by (intro quiet_bind) auto
    show "commits I S (async_bind (k (Inl CheckFailed)) f)" if "I i" "c i = Inl CheckFailed" for i
      using Await that by auto
    show "i' = i \<and> commits I S (async_bind (k (Inr a)) f) \<or>
        (\<exists>x r. i' = Some x \<and> I i' \<and> S i = Some (r, x) \<and> yields (Inr r) (async_bind (k (Inr a)) f))"
      if "I i" "c i = Inr (a, i')" for i a i'
    proof -
      from Await.prems that consider "i' = i" "commits I S0 (k (Inr a))"
        | x b where "i' = Some x" "I i'" "S0 i = Some (b, x)" "yields (Inr b) (k (Inr a))"
        by auto blast
      then show ?thesis
      proof cases
        case 1
        then show ?thesis using Await.IH by auto
      next
        case 2
        then show ?thesis using S yields_bind [of "Inr b" "k (Inr a)" "Inr (h b)" f] ok by blast
      qed
    qed
  qed
qed auto

lemmas command_defs = sliding_add_def sliding_roll_def sliding_fresh_def fixed_add_def fixed_fresh_def bucket_put_def
  bucket_swap_def update_item_def put_item_def get_item_def has_value_def

lemma own_errors [simp]:
  "isProgrammerError (Raised (Fault (''DynamoStore:'' @ msg)))"
  by (simp add: isProgrammerError_def)

lemma own_error_texts [simp]:
  "isProgrammerError (Raised (Fault ''DynamoStore: sliding increment could not commit (too much contention at window boundary)''))"
  "isProgrammerError (Raised (Fault ''DynamoStore: fixed window increment could not commit (too much contention at window boundary)''))"
  "isProgrammerError (Raised (Fault ''DynamoStore: token bucket increment could not commit (too much contention)''))"
  by code_simp+

lemma fixed_commits:
  "commits (\<lambda>_. True) (\<lambda>i. map_option (\<lambda>x. (fixedResultFromAttributes D x cap, x)) (fixed_apply cost b ttl i))
     (fixed_attempts n D cap cost b ttl)"
proof (induction n)
  case (Suc n)
  then show ?case
    by (auto simp: command_defs fixed_apply_def attributes_def split: if_splits option.splits)
qed (simp del: append.simps)

text \<open>The sliding window, while the item is not of the sub-window before the request's.\<close>

lemma sliding_commits:
  assumes "1 \<le> dy_windowMs D"
  shows "commits (\<lambda>i. \<not> has_value di_currentWindowStart (\<lambda>v. v = b - dy_windowMs D) i)
    (\<lambda>i. map_option (\<lambda>x. (x, x)) (sliding_apply D cost b ttl i))
    (runSlidingIncrementMutation n cost b (b - dy_windowMs D) ttl)"
proof (induction n)
  case (Suc n)
  then show ?case using assms
    by (auto simp: command_defs sliding_apply_def attributes_def split: if_splits option.splits)
qed (simp del: append.simps)

lemma bucket_put_applies:
  "bucket_put n l ttl j = Inr (a, j') \<Longrightarrow> bucket_compute D cost now (dy_bucketSize D) now = (r, n, l) \<Longrightarrow>
   \<exists>x. j' = Some x \<and> bucket_apply D cost now ttl j = Some (r, x)"
  by (auto simp: command_defs bucket_apply_def split: if_splits)

lemma bucket_swap_applies:
  "bucket_swap t0 l0 n l ttl j = Inr (a, j') \<Longrightarrow> bucket_compute D cost now t0 l0 = (r, n, l) \<Longrightarrow>
   \<exists>x. j' = Some x \<and> bucket_apply D cost now ttl j = Some (r, x)"
  by (auto simp: command_defs bucket_apply_def split: if_splits option.splits)

lemma bucket_commits:
  "commits (\<lambda>_. True) (bucket_apply D cost now ttl) (bucket_attempts n D cost now ttl)"
proof (induction n)
  case (Suc n)
  have "commits (\<lambda>_. True) (bucket_apply D cost now ttl)
      (case bucket_stored D now i of (tStored, lrStored) \<Rightarrow>
         case bucket_compute D cost now tStored lrStored of (res, newTokens, newLast) \<Rightarrow>
           Await (case i of None \<Rightarrow> bucket_put newTokens newLast ttl
                  | Some _ \<Rightarrow> bucket_swap tStored lrStored newTokens newLast ttl)
             (\<lambda>r. case r of Inr _ \<Rightarrow> Return (Inr res) | Inl (Raised f) \<Rightarrow> Return (Inl (Raised f))
              | Inl CheckFailed \<Rightarrow> bucket_attempts n D cost now ttl))" for i
  proof -
    obtain t0 l0 where st: "bucket_stored D now i = (t0, l0)" by fastforce
    obtain r n' l' where c: "bucket_compute D cost now t0 l0 = (r, n', l')" by (metis prod_cases3)
    show ?thesis
    proof (cases i)
      case None
      then have "t0 = dy_bucketSize D" "l0 = now" using st by (simp_all add: bucket_stored_def)
      then show ?thesis using Suc st c None bucket_put_applies [of n' l' ttl] by fastforce
    next
      case (Some x)
      then show ?thesis using Suc st c bucket_swap_applies [of t0 l0 n' l' ttl] by fastforce
    qed
  qed
  then show ?case by (simp add: get_item_def)
qed (simp del: append.simps)

definition dy_safe :: "dynamo \<Rightarrow> time \<Rightarrow> dy_item option \<Rightarrow> bool" where
  "dy_safe D b i \<longleftrightarrow> dy_strategy D = SLIDING_WINDOW \<longrightarrow> \<not> has_value di_currentWindowStart (\<lambda>v. v = b - dy_windowMs D) i"

definition one_window :: "dynamo \<Rightarrow> time \<Rightarrow> time \<Rightarrow> bool" where
  "one_window D b now \<longleftrightarrow>
     (dy_strategy D = SLIDING_WINDOW \<longrightarrow> fixedWindowBoundaryMs now (dy_windowMs D) = b \<and> 1 \<le> dy_windowMs D)"

lemma increment_commits:
  assumes "one_window D b now"
  shows "commits (dy_safe D b) (dy_apply D (now, o')) (dy_increment D now o')"
proof -
  let ?cap = "dy_cap D o'" and ?cost = "eff_cost o'" and ?b = "fixedWindowBoundaryMs now (dy_windowMs D)"
    and ?ttl = "ttlEpochSeconds now (dy_windowMs D)"
  have "commits (dy_safe D b) (dy_apply D (now, o'))
      (case dy_strategy D of
         SLIDING_WINDOW \<Rightarrow> dy_incrementSliding D ?cap ?cost now
       | FIXED_WINDOW \<Rightarrow> dy_incrementFixed D ?cap ?cost now
       | TOKEN_BUCKET \<Rightarrow> dy_incrementTokenBucket D ?cost now)"
  proof (cases "dy_strategy D")
    case SLIDING_WINDOW
    then have w: "1 \<le> dy_windowMs D" "?b = b" using assms by (simp_all add: one_window_def)
    have I: "dy_safe D b = (\<lambda>i. \<not> has_value di_currentWindowStart (\<lambda>v. v = b - dy_windowMs D) i)"
      using SLIDING_WINDOW by (simp add: dy_safe_def fun_eq_iff)
    have "commits (dy_safe D b) (dy_apply D (now, o')) (dy_incrementSliding D ?cap ?cost now)"
      unfolding dy_incrementSliding_def Let_def w(2) I
      by (rule commits_bind [OF sliding_commits [OF w(1)], where h = "\<lambda>x. sliding_result D x now ?cap"])
        (auto simp: dy_apply_def SLIDING_WINDOW w(2) slidingResultFromAttributes_def Let_def)
    then show ?thesis using SLIDING_WINDOW by simp
  next
    case FIXED_WINDOW
    then show ?thesis using fixed_commits [of D ?cap ?cost ?b ?ttl 24]
      by (simp add: dy_safe_def [abs_def] dy_apply_def [abs_def] dy_incrementFixed_def Let_def)
  next
    case TOKEN_BUCKET
    then show ?thesis using bucket_commits [of D ?cost now "- ((- (now + 3 * dy_refillIntervalMs D)) div 1000)" 12]
      by (simp add: dy_safe_def [abs_def] dy_apply_def [abs_def] dy_incrementTokenBucket_def Let_def)
  qed
  then show ?thesis
    unfolding dy_increment_def Let_def eff_cost_def
    by (rule commits_bind [where h = id]) (auto simp: dy_apply_def)
qed

section \<open>Overlapping increments\<close>

text \<open>Any number of increments of one key, by any number of processes. A step advances one of them by one
  command, which is served or not. \<open>faulted\<close> are those that have had a reply other than the result or a
  failed condition.\<close>

record dy_sys =
  sy_item :: "dy_item option"
  sy_prog :: "nat \<Rightarrow> rl_result dy_prog"
  sy_faulted :: "nat set"

definition raised :: "dy_reply \<Rightarrow> bool" where
  "raised r = (case r of Inl (Raised _) \<Rightarrow> True | _ \<Rightarrow> False)"

definition sys_step :: "nat \<times> dy_outcome \<Rightarrow> dy_sys \<Rightarrow> dy_sys" where
  "sys_step e s =
     (case e of (i, out) \<Rightarrow>
        (case sy_prog s i of
           Return _ \<Rightarrow> s
         | Emit _ p \<Rightarrow> s\<lparr>sy_prog := (sy_prog s)(i := p)\<rparr>
         | Await c k \<Rightarrow>
             (case serve out c (sy_item s) of
                (r, item) \<Rightarrow>
                  s\<lparr>sy_item := item, sy_prog := (sy_prog s)(i := k r),
                    sy_faulted := (if raised r then insert i (sy_faulted s) else sy_faulted s)\<rparr>)))"

definition sys_init :: "dynamo \<Rightarrow> (nat \<Rightarrow> time \<times> inc_opts option) \<Rightarrow> dy_item option \<Rightarrow> dy_sys" where
  "sys_init D req item =
     \<lparr>sy_item = item, sy_prog = (\<lambda>i. dy_increment D (fst (req i)) (snd (req i))), sy_faulted = {}\<rparr>"

definition sys_run :: "(nat \<times> dy_outcome) list \<Rightarrow> dy_sys \<Rightarrow> dy_sys" where
  "sys_run es s = fold sys_step es s"

text \<open>One increment after the other.\<close>

fun serial :: "dynamo \<Rightarrow> (time \<times> inc_opts option) list \<Rightarrow> dy_item option \<Rightarrow> (rl_result list \<times> dy_item option) option" where
  "serial D [] i = Some ([], i)"
| "serial D (q # qs) i =
     (case dy_apply D q i of
        None \<Rightarrow> None
      | Some (r, x) \<Rightarrow> map_option (\<lambda>(rs, j). (r # rs, j)) (serial D qs (Some x)))"

lemma dy_serial_snoc:
  "serial D (qs @ [q]) i =
     (case serial D qs i of
        None \<Rightarrow> None
      | Some (rs, j) \<Rightarrow> (case dy_apply D q j of None \<Rightarrow> None | Some (r, x) \<Rightarrow> Some (rs @ [r], Some x)))"
  by (induction qs arbitrary: i) (auto split: option.splits)

lemma serial_length: "serial D qs i = Some (rs, j) \<Longrightarrow> length rs = length qs"
  by (induction qs arbitrary: i rs j) (auto split: option.splits)

text \<open>Where a request stands: not committed and not faulted; committed and about to return its result; or
  faulted.\<close>

definition stage :: "dynamo \<Rightarrow> time \<Rightarrow> (nat \<Rightarrow> time \<times> inc_opts option) \<Rightarrow> (nat \<times> rl_result) set \<Rightarrow> dy_sys \<Rightarrow> nat \<Rightarrow> bool" where
  "stage D b req done' s i \<longleftrightarrow>
     (if i \<in> sy_faulted s then quiet (sy_prog s i)
      else (\<exists>r. (i, r) \<in> done' \<and> yields (Inr r) (sy_prog s i)) \<or>
           (\<forall>r. (i, r) \<notin> done') \<and> commits (dy_safe D b) (dy_apply D (req i)) (sy_prog s i))"

definition sys_inv :: "dynamo \<Rightarrow> time \<Rightarrow> (nat \<Rightarrow> time \<times> inc_opts option) \<Rightarrow> dy_item option \<Rightarrow> nat list \<Rightarrow> rl_result list \<Rightarrow> dy_sys \<Rightarrow> bool" where
  "sys_inv D b req item0 order rs s \<longleftrightarrow>
     distinct order \<and> serial D (map req order) item0 = Some (rs, sy_item s) \<and> dy_safe D b (sy_item s) \<and>
     (\<forall>i. stage D b req (set (zip order rs)) s i)"

lemma serve_cases:
  assumes "serve out c i = (r, i')"
  obtains (faulted) f where "r = Inl (Raised f)" "i' = i" 
    | (failed) "r = Inl CheckFailed" "i' = i" "c i = Inl CheckFailed"
    | (served) a where "r = Inr a" "c i = Inr (a, i')"
    | (unheard) f a where "r = Inl (Raised f)" "c i = Inr (a, i')"
proof (cases out)
  case Served
  then show ?thesis using assms that by (cases "c i"; auto simp: serve_def) (metis dy_error.exhaust)
next
  case (Refused f)
  then show ?thesis using assms that by (auto simp: serve_def)
next
  case (Unheard f)
  then show ?thesis using assms that by (cases "c i") (auto simp: serve_def)
qed

lemma zip_snoc: "length xs = length ys \<Longrightarrow> set (zip (xs @ [x]) (ys @ [y])) = insert (x, y) (set (zip xs ys))"
  by simp

lemma in_zip_fst: "(i, r) \<in> set (zip xs ys) \<Longrightarrow> i \<in> set xs"
  by (rule set_zip_leftD)

lemma stage_other:
  "stage D b req Z s j \<Longrightarrow> j \<noteq> i \<Longrightarrow> sy_prog s' j = sy_prog s j \<Longrightarrow> (j \<in> sy_faulted s' \<longleftrightarrow> j \<in> sy_faulted s) \<Longrightarrow>
   (\<And>r. (j, r) \<in> Z' \<longleftrightarrow> (j, r) \<in> Z) \<Longrightarrow> stage D b req Z' s' j"
  by (simp add: stage_def)

lemma sys_inv_step:
  assumes inv: "sys_inv D b req item0 order rs s"
  shows "\<exists>order' rs'. sys_inv D b req item0 order' rs' (sys_step (i, out) s)"
proof (cases "sy_prog s i")
  case (Return a)
  then show ?thesis using inv by (auto simp: sys_step_def)
next
  case (Emit l p)
  have "stage D b req (set (zip order rs)) (sys_step (i, out) s) j" for j
  proof (cases "j = i")
    case True
    have "stage D b req (set (zip order rs)) s i" using inv by (simp add: sys_inv_def)
    then show ?thesis using True by (cases "i \<in> sy_faulted s") (simp_all add: stage_def sys_step_def Emit)
  next
    case False
    have "stage D b req (set (zip order rs)) s j" using inv by (simp add: sys_inv_def)
    then show ?thesis using False Emit by (simp add: stage_def sys_step_def)
  qed
  then show ?thesis using inv Emit by (auto simp: sys_inv_def sys_step_def)
next
  case (Await c k)
  let ?Z = "set (zip order rs)"
  have len: "length order = length rs" using inv serial_length [of D "map req order" item0 rs] by (auto simp: sys_inv_def)
  have st: "stage D b req ?Z s j" for j using inv by (simp add: sys_inv_def)
  have safe: "dy_safe D b (sy_item s)" using inv by (simp add: sys_inv_def)
  from st [of i] Await have nf: "i \<notin> sy_faulted s" and nz: "\<And>r. (i, r) \<notin> ?Z"
    and com: "commits (dy_safe D b) (dy_apply D (req i)) (Await c k)"
    by (auto simp: stage_def split: if_splits)
  have ni: "i \<notin> set order"
  proof
    assume "i \<in> set order"
    then obtain n where "n < length order" "order ! n = i" by (auto simp: in_set_conv_nth)
    then have "(i, rs ! n) \<in> ?Z" using len by (auto simp: set_zip)
    with nz show False by blast
  qed
  obtain r item where sv: "serve out c (sy_item s) = (r, item)" by fastforce
  let ?s' = "sys_step (i, out) s"
  have s': "?s' = s\<lparr>sy_item := item, sy_prog := (sy_prog s)(i := k r),
      sy_faulted := (if raised r then insert i (sy_faulted s) else sy_faulted s)\<rparr>"
    by (simp add: sys_step_def Await sv)
  have others: "stage D b req Z' ?s' j" if "j \<noteq> i" "\<And>r. (j, r) \<in> Z' \<longleftrightarrow> (j, r) \<in> ?Z" for j Z'
    by (rule stage_other [OF st that(1)]) (use that s' in auto)
  have fault: "stage D b req Z' ?s' i" if "raised r" for Z'
  proof -
    have "quiet (k r)" using that com by (auto simp: raised_def split: sum.splits dy_error.splits)
    then show ?thesis using that s' by (simp add: stage_def)
  qed
  \<comment> \<open>no commit in this step\<close>
  have same: ?thesis if "item = sy_item s" "stage D b req ?Z ?s' i"
  proof -
    have "stage D b req ?Z ?s' j" for j using that(2) others [of j ?Z] by (cases "j = i") auto
    moreover have "sy_item ?s' = sy_item s" using that(1) s' by simp
    ultimately have "sys_inv D b req item0 order rs ?s'" using inv by (simp add: sys_inv_def)
    then show ?thesis by blast
  qed
  \<comment> \<open>a commit\<close>
  have new: ?thesis if "item = Some x" "dy_safe D b item" "dy_apply D (req i) (sy_item s) = Some (res, x)"
    "raised r \<or> yields (Inr res) (k r)" for x res
  proof -
    let ?Z' = "set (zip (order @ [i]) (rs @ [res]))"
    have Z': "?Z' = insert (i, res) ?Z" by (rule zip_snoc [OF len])
    have "stage D b req ?Z' ?s' i"
    proof (cases "raised r")
      case False
      then show ?thesis using that(4) nf s' Z' by (auto simp: stage_def)
    qed (rule fault)
    then have "stage D b req ?Z' ?s' j" for j using others [of j ?Z'] Z' by (cases "j = i") auto
    moreover have "serial D (map req (order @ [i])) item0 = Some (rs @ [res], item)"
      using inv that(1,3) by (simp add: dy_serial_snoc sys_inv_def)
    ultimately have "sys_inv D b req item0 (order @ [i]) (rs @ [res]) ?s'"
      using inv that(2) ni s' by (simp add: sys_inv_def)
    then show ?thesis by blast
  qed
  have eff: "item = sy_item s \<and> commits (dy_safe D b) (dy_apply D (req i)) (k (Inr a)) \<or>
      (\<exists>x res. item = Some x \<and> dy_safe D b item \<and> dy_apply D (req i) (sy_item s) = Some (res, x) \<and>
        yields (Inr res) (k (Inr a)))"
    if "c (sy_item s) = Inr (a, item)" for a
    using com safe that by auto
  from sv show ?thesis
  proof (cases rule: serve_cases)
    case (faulted f)
    then show ?thesis using same fault by (simp add: raised_def)
  next
    case failed
    then have "commits (dy_safe D b) (dy_apply D (req i)) (k r)" using com safe by auto
    then show ?thesis using failed same nf nz s' by (simp add: raised_def stage_def)
  next
    case (served a)
    with eff [of a] have "item = sy_item s \<and> commits (dy_safe D b) (dy_apply D (req i)) (k r) \<or>
        (\<exists>x res. item = Some x \<and> dy_safe D b item \<and> dy_apply D (req i) (sy_item s) = Some (res, x) \<and> yields (Inr res) (k r))"
      by simp
    then show ?thesis using same new nf nz s' served(1) by (auto simp: raised_def stage_def)
  next
    case (unheard f a)
    with eff [of a] have "item = sy_item s \<or>
        (\<exists>x res. item = Some x \<and> dy_safe D b item \<and> dy_apply D (req i) (sy_item s) = Some (res, x))"
      by blast
    then show ?thesis using same new fault unheard(1) by (auto simp: raised_def)
  qed
qed

lemma sys_inv_run:
  "sys_inv D b req item0 order rs s \<Longrightarrow> \<exists>order' rs'. sys_inv D b req item0 order' rs' (sys_run es s)"
proof (induction es arbitrary: order rs s)
  case (Cons e es)
  obtain order' rs' where "sys_inv D b req item0 order' rs' (sys_step e s)"
    using sys_inv_step [OF Cons.prems, of "fst e" "snd e"] by auto
  from Cons.IH [OF this] show ?case by (simp add: sys_run_def)
qed (auto simp: sys_run_def)

lemma sys_inv_init:
  assumes "dy_safe D b item" "\<forall>i. one_window D b (fst (req i))"
  shows "sys_inv D b req item [] [] (sys_init D req item)"
proof -
  have "commits (dy_safe D b) (dy_apply D (req i)) (dy_increment D (fst (req i)) (snd (req i)))" for i
    using increment_commits [of D b "fst (req i)" "snd (req i)"] assms(2) by simp
  with assms(1) show ?thesis by (simp add: sys_inv_def sys_init_def stage_def)
qed

section \<open>Runs of one increment alone\<close>

lemma sliding_alone:
  assumes w: "1 \<le> dy_windowMs D" and S: "sliding_apply D cost b ttl (map_of (dw_table w0) pk) = Some x"
    and net: "\<And>n. dw_net w0 n = Served"
  shows "\<exists>w1. run_async (runSlidingIncrementMutation (Suc n) cost b (b - dy_windowMs D) ttl) pk w0 = (Inr x, w1) \<and>
    map_of (dw_table w1) pk = Some x \<and> dw_net w1 = dw_net w0"
  using S w
  by (auto simp: command_defs sliding_apply_def attributes_def serve_def net put_back_def Let_def
      split: if_splits option.splits)

lemma run_async_bind:
  "run_async (async_bind p f) pk w = (case run_async p pk w of (a, w1) \<Rightarrow> run_async (f a) pk w1)"
  by (induction p arbitrary: w) (auto split: prod.splits)

text \<open>With every command served, an increment of the sliding window does what \<open>dy_apply\<close> says.\<close>

lemma sliding_increment_alone:
  assumes st: "dy_strategy D = SLIDING_WINDOW" and w: "1 \<le> dy_windowMs D"
    and S: "dy_apply D (now, o') (map_of (dw_table w0) pk) = Some (r, x)" and net: "\<And>n. dw_net w0 n = Served"
  shows "\<exists>w1. run_async (dy_increment D now o') pk w0 = (Inr r, w1) \<and> map_of (dw_table w1) pk = Some x \<and> dw_net w1 = dw_net w0"
proof -
  let ?b = "fixedWindowBoundaryMs now (dy_windowMs D)" and ?ttl = "ttlEpochSeconds now (dy_windowMs D)"
  have S': "sliding_apply D (eff_cost o') ?b ?ttl (map_of (dw_table w0) pk) = Some x" "r = sliding_result D x now (dy_cap D o')"
    using S st by (auto simp: dy_apply_def Let_def)
  obtain w1 where w1: "run_async (runSlidingIncrementMutation 24 (eff_cost o') ?b (?b - dy_windowMs D) ?ttl) pk w0 = (Inr x, w1)"
    "map_of (dw_table w1) pk = Some x" "dw_net w1 = dw_net w0"
    using sliding_alone [OF w S'(1) net, of 23] by auto
  show ?thesis
    using w1 S'(2) st
    by (auto simp: dy_increment_def dy_incrementSliding_def run_async_bind slidingResultFromAttributes_def eff_cost_def Let_def)
qed

text \<open>An item of a later sub-window than the request's: every command of every attempt fails its condition.\<close>

lemma skewed_attempts:
  assumes "di_currentWindowStart x = Some ws" "b < ws" "1 \<le> wd" "map_of (dw_table w0) pk = Some x" "\<And>n. dw_net w0 n = Served"
  shows "\<exists>w1. run_async (runSlidingIncrementMutation n cost b (b - wd) ttl) pk w0 =
      (Inl (Raised (Fault ''DynamoStore: sliding increment could not commit (too much contention at window boundary)'')), w1) \<and>
    dw_calls w1 = dw_calls w0 + 3 * n"
  using assms(4,5)
proof (induction n arbitrary: w0)
  case (Suc n)
  let ?w = "w0\<lparr>dw_calls := dw_calls w0 + 3, dw_table := AList.update pk x (AList.update pk x (AList.update pk x (dw_table w0)))\<rparr>"
  have "run_async (runSlidingIncrementMutation (Suc n) cost b (b - wd) ttl) pk w0 =
      run_async (runSlidingIncrementMutation n cost b (b - wd) ttl) pk ?w"
    using assms(1-3) Suc.prems
    by (simp add: command_defs serve_def put_back_def eval_nat_numeral)
  moreover have "map_of (dw_table ?w) pk = Some x" "\<And>n. dw_net ?w n = Served" using Suc.prems by simp_all
  from Suc.IH [OF this] obtain w1 where "run_async (runSlidingIncrementMutation n cost b (b - wd) ttl) pk ?w =
      (Inl (Raised (Fault ''DynamoStore: sliding increment could not commit (too much contention at window boundary)'')), w1)"
    "dw_calls w1 = dw_calls ?w + 3 * n" by blast
  ultimately show ?case by simp
qed simp

section \<open>What a run grants\<close>

definition granted :: "(time \<times> inc_opts option \<Rightarrow> bool) \<Rightarrow> (time \<times> inc_opts option) list \<Rightarrow> rl_result list \<Rightarrow> int" where
  "granted P qs rs = sum_list (map (\<lambda>(q, r). if P q \<and> \<not> isBlocked r then eff_cost (snd q) else 0) (zip qs rs))"

lemma granted_simps [simp]:
  "granted P [] rs = 0"
  "granted P (q # qs) (r # rs) = (if P q \<and> \<not> isBlocked r then eff_cost (snd q) else 0) + granted P qs rs"
  by (simp_all add: granted_def)

lemma granted_nonneg: "0 \<le> granted P qs rs"
  by (auto simp: granted_def intro!: sum_list_nonneg)

lemma granted_none: "\<forall>q \<in> set qs. \<not> P q \<Longrightarrow> granted P qs rs = 0"
  by (induction qs rs rule: list_induct2') (simp_all add: granted_def)

lemma granted_cover:
  "\<forall>q \<in> set qs. P q \<longrightarrow> Q q \<or> R q \<Longrightarrow> granted P qs rs \<le> granted Q qs rs + granted R qs rs"
proof (induction qs rs rule: list_induct2')
  case (4 q qs r rs)
  then show ?case using eff_cost_pos(3) [of "snd q"] by (auto simp del: eff_cost_pos)
qed (simp_all add: granted_def)

text \<open>The fixed window.\<close>

lemma fixed_serial_quota:
  assumes "dy_strategy D = FIXED_WINDOW" "serial D qs (Some x) = Some (rs, j)"
    and "di_windowStart x = Some b" "0 \<le> or0 (di_totalHits x)"
    and "\<forall>q \<in> set qs. fixedWindowBoundaryMs (fst q) (dy_windowMs D) = b \<and> dy_cap D (snd q) = cap"
  shows "granted (\<lambda>_. True) qs rs \<le> max 0 (cap - or0 (di_totalHits x))"
  using assms(2-5)
proof (induction qs arbitrary: x rs)
  case (Cons q qs)
  let ?n = "or0 (di_totalHits x) + eff_cost (snd q)"
  obtain r y rs' where a: "dy_apply D q (Some x) = Some (r, y)" "serial D qs (Some y) = Some (rs', j)" "rs = r # rs'"
    using Cons.prems(1) by (auto split: option.splits)
  have y: "di_windowStart y = Some b" "or0 (di_totalHits y) = ?n" "isBlocked r \<longleftrightarrow> ?n > cap"
    using a(1) assms(1) Cons.prems(2-4)
    by (auto simp: dy_apply_def fixed_apply_def add_to_def or0_def fixedResultFromAttributes_def window_result_def
        plain_result_def Let_def split: option.splits)
  have "granted (\<lambda>_. True) qs rs' \<le> max 0 (cap - ?n)"
    using Cons.IH [OF a(2) y(1)] y(2) Cons.prems(3,4) eff_cost_pos(3) [of "snd q"] by simp
  then show ?case using a(3) y(3) Cons.prems(3) eff_cost_pos(3) [of "snd q"] by auto
qed simp

lemma fixed_serial_quota_any:
  assumes st: "dy_strategy D = FIXED_WINDOW" and s: "serial D qs i = Some (rs, j)" and cap: "0 \<le> cap"
    and n: "\<forall>x. i = Some x \<longrightarrow> 0 \<le> or0 (di_totalHits x)"
    and qs: "\<forall>q \<in> set qs. fixedWindowBoundaryMs (fst q) (dy_windowMs D) = b \<and> dy_cap D (snd q) = cap"
  shows "granted (\<lambda>_. True) qs rs \<le> cap"
proof (cases "\<exists>x. i = Some x \<and> di_windowStart x = Some b")
  case True
  then obtain x where x: "i = Some x" "di_windowStart x = Some b" by blast
  have "granted (\<lambda>_. True) qs rs \<le> max 0 (cap - or0 (di_totalHits x))"
    using fixed_serial_quota [OF st _ x(2) _ qs] s n x(1) by blast
  then show ?thesis using n x(1) cap by auto
next
  case False
  show ?thesis
  proof (cases qs)
    case Nil
    then show ?thesis using cap by simp
  next
    case (Cons q qs')
    obtain r y rs' where a: "dy_apply D q i = Some (r, y)" "serial D qs' (Some y) = Some (rs', j)" "rs = r # rs'"
      using s Cons by (auto split: option.splits)
    have q: "fixedWindowBoundaryMs (fst q) (dy_windowMs D) = b" "dy_cap D (snd q) = cap" using qs Cons by auto
    obtain ttl where f: "fixed_apply (eff_cost (snd q)) b ttl i = Some y" "r = fixedResultFromAttributes D y cap"
      using a(1) st q by (auto simp: dy_apply_def Let_def)
    have y12: "di_windowStart y = Some b" "di_totalHits y = Some (eff_cost (snd q))"
      using f(1) False by (cases i; auto simp: fixed_apply_def Let_def split: option.splits if_splits)+
    have y: "di_windowStart y = Some b" "or0 (di_totalHits y) = eff_cost (snd q)" "isBlocked r \<longleftrightarrow> eff_cost (snd q) > cap"
      using y12 f(2) by (simp_all add: or0_def fixedResultFromAttributes_def window_result_def plain_result_def Let_def)
    have "granted (\<lambda>_. True) qs' rs' \<le> max 0 (cap - or0 (di_totalHits y))"
    proof (rule fixed_serial_quota [OF st a(2) y(1)])
      show "0 \<le> or0 (di_totalHits y)" unfolding y(2) by (rule eff_cost_pos(3))
      show "\<forall>q \<in> set qs'. fixedWindowBoundaryMs (fst q) (dy_windowMs D) = b \<and> dy_cap D (snd q) = cap"
        using qs unfolding Cons set_simps by blast
    qed
    then have "granted (\<lambda>_. True) qs' rs' \<le> max 0 (cap - eff_cost (snd q))" by (simp only: y(2))
    then show ?thesis using a(3) y(3) Cons cap by auto
  qed
qed

lemma granted_set:
  assumes "distinct order" "length rs = length order" "finite A"
    and A: "\<forall>i \<in> A. \<exists>r. (i, r) \<in> set (zip order rs) \<and> \<not> isBlocked r"
  shows "(\<Sum>i \<in> A. eff_cost (snd (req i))) \<le> granted (\<lambda>_. True) (map req order) rs"
proof -
  let ?B = "filter (\<lambda>(i, r). \<not> isBlocked r) (zip order rs)"
  have d: "distinct (map fst ?B)"
    using assms(1,2) by (intro distinct_map_filter) (simp add: map_fst_zip)
  have sub: "A \<subseteq> set (map fst ?B)" using A by force
  have "(\<Sum>i \<in> A. eff_cost (snd (req i))) \<le> (\<Sum>i \<in> set (map fst ?B). eff_cost (snd (req i)))"
    by (rule sum_mono2 [OF _ sub]) auto
  also have "\<dots> = sum_list (map (\<lambda>i. eff_cost (snd (req i))) (map fst ?B))"
    by (rule sum_list_distinct_conv_sum_set [OF d, symmetric])
  also have "\<dots> = granted (\<lambda>_. True) (map req order) rs"
    by (auto simp: granted_def zip_map1 sum_list_map_filter' case_prod_beta comp_def intro!: arg_cong [where f = sum_list])
  finally show ?thesis .
qed

text \<open>The sliding window: in one sub-window.\<close>

definition counts_ok :: "dy_item option \<Rightarrow> bool" where
  "counts_ok i \<longleftrightarrow> (\<forall>x. i = Some x \<longrightarrow> 0 \<le> or0 (di_previousCount x) \<and> 0 \<le> or0 (di_currentCount x))"

definition sub_room :: "int \<Rightarrow> time \<Rightarrow> dy_item option \<Rightarrow> int" where
  "sub_room cap b i =
     (case i of None \<Rightarrow> max 0 cap
      | Some x \<Rightarrow> if di_currentWindowStart x = Some b then max 0 (cap - or0 (di_currentCount x)) else max 0 cap)"

lemma weight_nonneg: "1 \<le> w \<Longrightarrow> 0 \<le> slidingWeight now w s"
  by (auto simp: slidingWeight_def Let_def divide_le_eq)

lemma sliding_apply_item:
  assumes "sliding_apply D cost b ttl i = Some x" "counts_ok i" "1 \<le> cost" "1 \<le> dy_windowMs D"
  shows "di_currentWindowStart x = Some b" "counts_ok (Some x)"
    and "or0 (di_currentCount x) = (if has_value di_currentWindowStart (\<lambda>v. v = b) i then or0 (di_currentCount (the i)) + cost else cost)"
    and "\<And>y. i = Some y \<Longrightarrow> \<exists>ws. di_currentWindowStart y = Some ws \<and> ws \<le> b"
  using assms
  by (auto simp: sliding_apply_def counts_ok_def or0_def add_to_def has_value_def Let_def split: option.splits if_splits)

lemma sliding_granted_le:
  assumes "counts_ok (Some x)" "1 \<le> dy_windowMs D" "\<not> isBlocked (sliding_result D x now cap)"
  shows "or0 (di_currentCount x) \<le> cap"
proof -
  have "(0::rat) \<le> of_int (or0 (di_previousCount x)) * slidingWeight now (dy_windowMs D) (or0 (di_currentWindowStart x))"
    using assms(1) weight_nonneg [OF assms(2)] by (simp add: counts_ok_def)
  moreover have "sliding_raw D x now \<le> of_int cap"
    using assms(3) by (simp add: sliding_result_def plain_result_def Let_def)
  ultimately show ?thesis
    by (simp add: sliding_raw_def weightedSlidingCount_def)
qed

lemma sub_window_quota:
  assumes st: "dy_strategy D = SLIDING_WINDOW" and w: "1 \<le> dy_windowMs D"
    and "sorted (map fst qs)" "serial D qs i = Some (rs, j)" "counts_ok i"
    and "\<forall>q \<in> set qs. dy_cap D (snd q) = cap"
  shows "granted (\<lambda>q. fixedWindowBoundaryMs (fst q) (dy_windowMs D) = b) qs rs \<le> sub_room cap b i"
  using assms(3-6)
proof (induction qs arbitrary: i rs)
  case Nil
  then show ?case by (auto simp: sub_room_def split: option.split)
next
  case (Cons q qs)
  let ?bd = "\<lambda>q. fixedWindowBoundaryMs (fst q) (dy_windowMs D)" and ?c = "eff_cost (snd q)"
  obtain r x rs' where a: "dy_apply D q i = Some (r, x)" "serial D qs (Some x) = Some (rs', j)" "rs = r # rs'"
    using Cons.prems(2) by (auto split: option.splits)
  have S: "sliding_apply D ?c (?bd q) (ttlEpochSeconds (fst q) (dy_windowMs D)) i = Some x" "r = sliding_result D x (fst q) cap"
    using a(1) st Cons.prems(4) by (auto simp: dy_apply_def Let_def)
  note x = sliding_apply_item [OF S(1) Cons.prems(3) eff_cost_pos(2) w]
  have rest: "granted (\<lambda>q. ?bd q = b) qs rs' \<le> sub_room cap b (Some x)"
    using Cons.IH [OF _ a(2) x(2)] Cons.prems(1,4) by simp
  consider "?bd q = b" | "?bd q < b" | "b < ?bd q" by linarith
  then show ?case
  proof cases
    case 1
    have "or0 (di_currentCount x) \<le> cap" if "\<not> isBlocked r"
      using sliding_granted_le [OF x(2) w] that S(2) by simp
    moreover have "sub_room cap b (Some x) = max 0 (cap - or0 (di_currentCount x))" using x(1) 1 by (simp add: sub_room_def)
    moreover have "0 \<le> ?c" by (rule eff_cost_pos(3))
    moreover have "or0 (di_currentCount x) = ?c \<and> sub_room cap b i = max 0 cap \<or>
        (\<exists>y. i = Some y \<and> 0 \<le> or0 (di_currentCount y) \<and> or0 (di_currentCount x) = or0 (di_currentCount y) + ?c \<and>
          sub_room cap b i = max 0 (cap - or0 (di_currentCount y)))"
      using x(3) 1 Cons.prems(3) by (auto simp: has_value_def sub_room_def counts_ok_def split: option.splits if_splits)
    ultimately show ?thesis using rest a(3) 1 by (auto simp del: eff_cost_pos)
  next
    case 2
    then have "sub_room cap b i = max 0 cap" "sub_room cap b (Some x) = max 0 cap"
      using x(1,4) by (auto simp: sub_room_def split: option.split)
    then show ?thesis using rest a(3) 2 by simp
  next
    case 3
    have "?bd q \<le> ?bd q'" if "q' \<in> set qs" for q'
      using Cons.prems(1) that w by (auto simp: fixedWindowBoundaryMs_def intro!: mult_right_mono zdiv_mono1)
    then have "granted (\<lambda>q. ?bd q = b) (q # qs) rs = 0" using 3 by (intro granted_none) fastforce
    then show ?thesis by (auto simp: sub_room_def split: option.split)
  qed
qed

lemma boundary_bounds:
  assumes "1 \<le> w"
  shows "fixedWindowBoundaryMs now w \<le> now" "now < fixedWindowBoundaryMs now w + w"
proof -
  have "0 \<le> now mod w" "now mod w < w" using assms by auto
  then show "fixedWindowBoundaryMs now w \<le> now" "now < fixedWindowBoundaryMs now w + w"
    unfolding fixedWindowBoundaryMs_def using minus_mod_eq_div_mult [of now w] by linarith+
qed

text \<open>Any interval of one window length meets two sub-windows.\<close>

lemma two_sub_windows:
  assumes "t - w < s" "s \<le> t" "1 \<le> (w::int)"
  shows "fixedWindowBoundaryMs s w = fixedWindowBoundaryMs t w \<or> fixedWindowBoundaryMs s w = fixedWindowBoundaryMs t w - w"
proof -
  have "s div w \<le> t div w" using assms by (intro zdiv_mono1) auto
  moreover have "(t - w) div w \<le> s div w" using assms by (intro zdiv_mono1) auto
  moreover have "(t - w) div w = t div w - 1" using assms(3) div_add_self2 [of w "t - w"] by simp
  ultimately have "s div w = t div w \<or> s div w = t div w - 1" by linarith
  then show ?thesis by (elim disjE) (simp_all add: fixedWindowBoundaryMs_def left_diff_distrib)
qed

section \<open>Sequential runs\<close>

fun seq_run :: "dynamo \<Rightarrow> key \<Rightarrow> (time \<times> inc_opts option) list \<Rightarrow> dy_world \<Rightarrow> (dy_error + rl_result) list \<times> dy_world" where
  "seq_run D pk [] w = ([], w)"
| "seq_run D pk (q # qs) w =
     (case run_async (dy_increment D (fst q) (snd q)) pk w of
        (r, w1) \<Rightarrow> (case seq_run D pk qs w1 of (rs, w2) \<Rightarrow> (r # rs, w2)))"

text \<open>An item a sliding window can be in before a request at a time.\<close>

definition not_ahead :: "dynamo \<Rightarrow> time \<Rightarrow> dy_item option \<Rightarrow> bool" where
  "not_ahead D now i \<longleftrightarrow>
     (\<forall>x. i = Some x \<longrightarrow> di_currentCount x \<noteq> None \<and>
        (\<exists>ws. di_currentWindowStart x = Some ws \<and> ws \<le> fixedWindowBoundaryMs now (dy_windowMs D)))"

lemma not_ahead_applies:
  assumes "not_ahead D now i" "dy_strategy D = SLIDING_WINDOW" "1 \<le> dy_windowMs D"
  shows "\<exists>r x. dy_apply D (now, o') i = Some (r, x) \<and> di_currentCount x \<noteq> None \<and>
    di_currentWindowStart x = Some (fixedWindowBoundaryMs now (dy_windowMs D))"
  using assms
  by (cases i) (auto simp: not_ahead_def dy_apply_def sliding_apply_def add_to_def Let_def)

lemma boundary_mono: "s \<le> t \<Longrightarrow> 1 \<le> w \<Longrightarrow> fixedWindowBoundaryMs s w \<le> fixedWindowBoundaryMs t w"
  by (auto simp: fixedWindowBoundaryMs_def intro!: mult_right_mono zdiv_mono1)

lemma seq_run_serial:
  assumes st: "dy_strategy D = SLIDING_WINDOW" and w: "1 \<le> dy_windowMs D"
    and "sorted (map fst qs)" "\<And>n. dw_net w0 n = Served"
    and "\<forall>q \<in> set qs. not_ahead D (fst q) (map_of (dw_table w0) pk)"
  shows "\<exists>rs j. fst (seq_run D pk qs w0) = map Inr rs \<and> serial D qs (map_of (dw_table w0) pk) = Some (rs, j)"
  using assms(3-5)
proof (induction qs arbitrary: w0)
  case (Cons q qs)
  have na: "not_ahead D (fst q) (map_of (dw_table w0) pk)" using Cons.prems(3) by simp
  obtain r x where a: "dy_apply D (fst q, snd q) (map_of (dw_table w0) pk) = Some (r, x)" "di_currentCount x \<noteq> None"
    "di_currentWindowStart x = Some (fixedWindowBoundaryMs (fst q) (dy_windowMs D))"
    using not_ahead_applies [OF na st w] by blast
  obtain w1 where w1: "run_async (dy_increment D (fst q) (snd q)) pk w0 = (Inr r, w1)"
    "map_of (dw_table w1) pk = Some x" "dw_net w1 = dw_net w0"
    using sliding_increment_alone [OF st w a(1) Cons.prems(2)] by blast
  have ih: "\<exists>rs j. fst (seq_run D pk qs w1) = map Inr rs \<and> serial D qs (map_of (dw_table w1) pk) = Some (rs, j)"
  proof (rule Cons.IH)
    show "sorted (map fst qs)" using Cons.prems(1) by simp
    show "dw_net w1 n = Served" for n using Cons.prems(2) w1(3) by simp
    show "\<forall>q \<in> set qs. not_ahead D (fst q) (map_of (dw_table w1) pk)"
      using Cons.prems(1) w a(2,3) w1(2) by (auto simp: not_ahead_def intro: boundary_mono)
  qed
  obtain rs j where rs: "fst (seq_run D pk qs w1) = map Inr rs" "serial D qs (Some x) = Some (rs, j)"
    using ih w1(2) by auto
  have "fst (seq_run D pk (q # qs) w0) = map Inr (r # rs)" using w1(1) rs(1) by (simp add: case_prod_beta)
  moreover have "serial D (q # qs) (map_of (dw_table w0) pk) = Some (r # rs, j)" using a(1) rs(2) by simp
  ultimately show ?case by blast
qed simp

section \<open>Properties\<close>

definition demo_dynamo :: "strategy \<Rightarrow> bool \<Rightarrow> dynamo" where
  "demo_dynamo st closed' =
     projr (new_DynamoStore \<lparr>do_tableName = Some ''limits'', do_strategy = Some st, do_windowMs = js_int 1000,
       do_maxRequests = js_int 2, do_tokensPerInterval = Some 1, do_interval = js_int 1000, do_bucketSize = js_int 2,
       do_keyPrefix = None, do_ttlAttribute = None, do_failClosed = closed', do_observed = False\<rparr>)"

definition demo_world :: "(key, dy_item) jsmap \<Rightarrow> dy_world" where
  "demo_world t = \<lparr>dw_table = t, dw_net = (\<lambda>_. Served), dw_calls = 0, dw_events = []\<rparr>"

definition costing :: "int \<Rightarrow> inc_opts option" where
  "costing n = Some \<lparr>io_maxRequests = Undefined, io_cost = js_int n\<rparr>"

text \<open>(C14) Overlapping increments of one key have a serial order for the fixed window and the token bucket (and for
  the sliding window inside one sub-window): however their commands interleave and whichever are
  refused or answered into the void, there is an order of the committed ones such that the item is
  the one sequential increments leave, every request that returned undisturbed has its sequential
  result, and a request that gave up has not been counted.\<close>

theorem dynamo_increments_linearizable:
  assumes "dy_safe D b item" "\<forall>i. one_window D b (fst (req i))"
  shows "\<exists>order rs. distinct order \<and>
    serial D (map req order) item = Some (rs, sy_item (sys_run es (sys_init D req item))) \<and>
    (\<forall>i r. sy_prog (sys_run es (sys_init D req item)) i = Return (Inr r) \<longrightarrow>
       i \<notin> sy_faulted (sys_run es (sys_init D req item)) \<longrightarrow> (i, r) \<in> set (zip order rs)) \<and>
    (\<forall>i e. sy_prog (sys_run es (sys_init D req item)) i = Return (Inl e) \<longrightarrow>
       i \<notin> sy_faulted (sys_run es (sys_init D req item)) \<longrightarrow> i \<notin> set order)"
proof -
  let ?s = "sys_run es (sys_init D req item)"
  obtain order rs where inv: "sys_inv D b req item order rs ?s"
    using sys_inv_run [OF sys_inv_init [OF assms]] by blast
  have len: "length order = length rs" using inv serial_length [of D "map req order" item rs] by (auto simp: sys_inv_def)
  have st: "stage D b req (set (zip order rs)) ?s i" for i using inv by (simp add: sys_inv_def)
  have "(i, r) \<in> set (zip order rs)" if "sy_prog ?s i = Return (Inr r)" "i \<notin> sy_faulted ?s" for i r
    using st [of i] that by (auto simp: stage_def)
  moreover have "i \<notin> set order" if "sy_prog ?s i = Return (Inl e)" "i \<notin> sy_faulted ?s" for i e
  proof
    assume "i \<in> set order"
    then obtain n where "n < length order" "order ! n = i" by (auto simp: in_set_conv_nth)
    then have "(i, rs ! n) \<in> set (zip order rs)" using len by (auto simp: set_zip)
    then show False using st [of i] that by (auto simp: stage_def)
  qed
  ultimately show ?thesis using inv unfolding sys_inv_def by blast
qed

theorem dynamo_increments_linearizable_witness:
  "\<exists>order rs. distinct order \<and>
    serial (demo_dynamo FIXED_WINDOW False) (map (\<lambda>i. (int i, None)) order) None =
      Some (rs, sy_item (sys_run [(0, Served), (1, Served), (0, Served), (1, Served), (1, Served)]
        (sys_init (demo_dynamo FIXED_WINDOW False) (\<lambda>i. (int i, None)) None)))"
  using dynamo_increments_linearizable [of "demo_dynamo FIXED_WINDOW False" 0 None "\<lambda>i. (int i, None)"
    "[(0, Served), (1, Served), (0, Served), (1, Served), (1, Served)]"]
  by (simp add: dy_safe_def one_window_def demo_dynamo_def new_DynamoStore_def) blast

text \<open>(C15) The fixed window keeps its cap under any interleaving: the requests of one window that are granted
  undisturbed cost together at most the cap.\<close>

theorem dynamo_fixed_quota:
  assumes "dy_strategy D = FIXED_WINDOW" "0 \<le> cap" "\<forall>x. item = Some x \<longrightarrow> 0 \<le> or0 (di_totalHits x)"
    and "\<forall>i. fixedWindowBoundaryMs (fst (req i)) (dy_windowMs D) = b \<and> dy_cap D (snd (req i)) = cap"
    and "finite A" "\<forall>i \<in> A. \<exists>r. sy_prog (sys_run es (sys_init D req item)) i = Return (Inr r) \<and>
      i \<notin> sy_faulted (sys_run es (sys_init D req item)) \<and> \<not> isBlocked r"
  shows "(\<Sum>i \<in> A. eff_cost (snd (req i))) \<le> cap"
proof -
  let ?s = "sys_run es (sys_init D req item)"
  have "sys_inv D b req item [] [] (sys_init D req item)"
    by (rule sys_inv_init) (simp_all add: assms(1) dy_safe_def one_window_def)
  then obtain order rs where inv: "sys_inv D b req item order rs ?s" using sys_inv_run by blast
  have ser: "serial D (map req order) item = Some (rs, sy_item ?s)" using inv by (simp add: sys_inv_def)
  have len: "length rs = length order" using serial_length [OF ser] by simp
  have "\<exists>r. (i, r) \<in> set (zip order rs) \<and> \<not> isBlocked r" if "i \<in> A" for i
  proof -
    from assms(6) that obtain r where r: "sy_prog ?s i = Return (Inr r)" "i \<notin> sy_faulted ?s" "\<not> isBlocked r" by blast
    have "stage D b req (set (zip order rs)) ?s i" using inv by (simp add: sys_inv_def)
    with r show ?thesis by (auto simp: stage_def)
  qed
  then have "(\<Sum>i \<in> A. eff_cost (snd (req i))) \<le> granted (\<lambda>_. True) (map req order) rs"
    using inv by (intro granted_set [OF _ len assms(5)]) (auto simp: sys_inv_def)
  also have "\<dots> \<le> cap"
    by (rule fixed_serial_quota_any [OF assms(1) ser assms(2,3)]) (use assms(4) in auto)
  finally show ?thesis .
qed

theorem dynamo_fixed_quota_witness:
  "let s = sys_run [(0, Served), (1, Served), (0, Served), (1, Served), (1, Served)]
      (sys_init (demo_dynamo FIXED_WINDOW False) (\<lambda>i. (7, None)) None);
      granted = (\<lambda>i. case sy_prog s i of Return (Inr r) \<Rightarrow> \<not> isBlocked r | _ \<Rightarrow> False)
   in granted 0 \<and> granted 1 \<and> (\<Sum>i \<in> {0, 1::nat}. eff_cost None) \<le> 2"
proof -
  let ?D = "demo_dynamo FIXED_WINDOW False" and ?q = "\<lambda>i::nat. (7::time, None :: inc_opts option)"
  let ?es = "[(0, Served), (1, Served), (0, Served), (1, Served), (1, Served)]"
  let ?s = "sys_run ?es (sys_init ?D ?q None)"
  have st: "dy_strategy ?D = FIXED_WINDOW" by code_simp
  have req: "fixedWindowBoundaryMs 7 (dy_windowMs ?D) = 0" "dy_cap ?D None = 2" by code_simp+
  have 0: "case sy_prog ?s 0 of Return (Inr r) \<Rightarrow> \<not> isBlocked r | _ \<Rightarrow> False" by code_simp
  have 1: "case sy_prog ?s 1 of Return (Inr r) \<Rightarrow> \<not> isBlocked r | _ \<Rightarrow> False" by code_simp
  have f: "0 \<notin> sy_faulted ?s" "1 \<notin> sy_faulted ?s" by code_simp+
  have "\<exists>r. sy_prog ?s i = Return (Inr r) \<and> i \<notin> sy_faulted ?s \<and> \<not> isBlocked r" if "i \<in> {0, 1}" for i
    using that 0 1 f by (elim insertE emptyE) (auto split: async.splits sum.splits)
  then have "(\<Sum>i \<in> {0, 1}. eff_cost (snd (?q i))) \<le> 2"
    by (intro dynamo_fixed_quota [OF st, of 2 None ?q 0 "{0, 1}" ?es]) (use req in simp_all)
  then show ?thesis using 0 1 by (simp add: Let_def del: eff_cost_pos)
qed

text \<open>(C16) However the weighted sliding window is approximated, in sequential use it grants at most twice the cap in
  any interval of one window length.\<close>

theorem dynamo_sliding_bound:
  assumes "dy_strategy D = SLIDING_WINDOW" "1 \<le> dy_windowMs D" "\<And>n. dw_net w0 n = Served"
    and "map_of (dw_table w0) pk = None" "sorted (map fst qs)" "\<forall>q \<in> set qs. dy_cap D (snd q) = cap" "0 \<le> cap"
  shows "\<exists>rs. fst (seq_run D pk qs w0) = map Inr rs \<and>
    granted (\<lambda>q. t - dy_windowMs D < fst q \<and> fst q \<le> t) qs rs \<le> 2 * cap"
proof -
  let ?w = "dy_windowMs D" and ?bd = "\<lambda>q. fixedWindowBoundaryMs (fst q) (dy_windowMs D)" and ?b = "fixedWindowBoundaryMs t (dy_windowMs D)"
  have "\<forall>q \<in> set qs. not_ahead D (fst q) (map_of (dw_table w0) pk)" using assms(4) by (simp add: not_ahead_def)
  from seq_run_serial [OF assms(1,2,5,3) this] obtain rs j where rs: "fst (seq_run D pk qs w0) = map Inr rs"
    "serial D qs None = Some (rs, j)" unfolding assms(4) by blast
  have part: "granted (\<lambda>q. ?bd q = b) qs rs \<le> cap" for b
    using sub_window_quota [OF assms(1,2,5) rs(2) _ assms(6), of b] assms(7) by (simp add: counts_ok_def sub_room_def)
  have "granted (\<lambda>q. t - ?w < fst q \<and> fst q \<le> t) qs rs \<le>
      granted (\<lambda>q. ?bd q = ?b) qs rs + granted (\<lambda>q. ?bd q = ?b - ?w) qs rs"
    using two_sub_windows [OF _ _ assms(2)] by (intro granted_cover) blast
  also have "\<dots> \<le> 2 * cap" using part [of ?b] part [of "?b - ?w"] by simp
  finally show ?thesis using rs(1) by blast
qed

theorem dynamo_sliding_bound_witness:
  "\<exists>rs. fst (seq_run (demo_dynamo SLIDING_WINDOW False) ''k'' [(999, costing 2), (1500, None), (1501, None)] (demo_world [])) = map Inr rs \<and>
    granted (\<lambda>q. 501 < fst q \<and> fst q \<le> 1501) [(999, costing 2), (1500, None), (1501, None)] rs \<le> 4"
proof -
  let ?D = "demo_dynamo SLIDING_WINDOW False" and ?qs = "[(999, costing 2), (1500, None), (1501, None)]"
  have d: "dy_strategy ?D = SLIDING_WINDOW" "1 \<le> dy_windowMs ?D" "dy_windowMs ?D = 1000"
    "dy_cap ?D (costing 2) = 2" "dy_cap ?D None = 2" by code_simp+
  show ?thesis
    using dynamo_sliding_bound [OF d(1,2), of "demo_world []" "''k''" ?qs 2 1501] d(3-5)
    by (simp add: demo_world_def del: seq_run.simps)
qed

text \<open>And it does exceed the cap by half, where the documentation says 10% at most: a full cap at the end of
  one sub-window and half of it in the middle of the next are all granted, within half a window and
  a millisecond.\<close>

theorem dynamo_sliding_exceeds_cap:
  assumes "dy_strategy D = SLIDING_WINDOW" "dy_windowMs D = 2 * h" "1 \<le> h" "b = n * (2 * h)"
    and "\<And>m. dw_net w0 m = Served" "map_of (dw_table w0) pk = None"
    and "dy_cap D o1 = 2 * c" "dy_cap D o2 = 2 * c" "eff_cost o1 = 2 * c" "eff_cost o2 = c" "0 < c"
  shows "\<exists>r1 r2. fst (seq_run D pk [(b - 1, o1), (b + h, o2)] w0) = [Inr r1, Inr r2] \<and>
    \<not> isBlocked r1 \<and> \<not> isBlocked r2"
proof -
  have bd: "fixedWindowBoundaryMs (b - 1) (2 * h) = b - 2 * h" "fixedWindowBoundaryMs (b + h) (2 * h) = b"
  proof -
    have "(b - 1) div (2 * h) = n - 1"
    proof (rule int_div_pos_eq [where r = "2 * h - 1"])
      show "b - 1 = 2 * h * (n - 1) + (2 * h - 1)" by (simp add: assms(4) algebra_simps)
    qed (use assms(3) in auto)
    then have "fixedWindowBoundaryMs (b - 1) (2 * h) = (n - 1) * (2 * h)" by (simp only: fixedWindowBoundaryMs_def)
    then show "fixedWindowBoundaryMs (b - 1) (2 * h) = b - 2 * h" by (simp add: assms(4) left_diff_distrib)
    have "(b + h) div (2 * h) = n"
      by (rule int_div_pos_eq [where r = h]) (use assms(3,4) in \<open>auto simp: algebra_simps\<close>)
    then show "fixedWindowBoundaryMs (b + h) (2 * h) = b" by (simp add: fixedWindowBoundaryMs_def assms(4))
  qed
  let ?qs = "[(b - 1, o1), (b + h, o2)]"
  have srt: "sorted (map fst ?qs)" using assms(3) by simp
  have na: "\<forall>q \<in> set ?qs. not_ahead D (fst q) (map_of (dw_table w0) pk)" using assms(6) by (simp add: not_ahead_def)
  have w: "1 \<le> dy_windowMs D" using assms(2,3) by simp
  from seq_run_serial [OF assms(1) w srt assms(5) na] obtain rs j where
    rs: "fst (seq_run D pk ?qs w0) = map Inr rs" "serial D ?qs None = Some (rs, j)" unfolding assms(6) by blast
  have weight: "slidingWeight (b + h) (2 * h) b = 1 / 2" "slidingWeight (b - 1) (2 * h) (b - 2 * h) * 0 = 0"
    using assms(3) by (simp_all add: slidingWeight_def Let_def field_simps)
  have "\<exists>r1 r2. rs = [r1, r2] \<and> \<not> isBlocked r1 \<and> \<not> isBlocked r2"
    using rs(2) assms(1,3,7-11) bd weight
    by (auto simp: dy_apply_def sliding_apply_def assms(2) Let_def sliding_result_def plain_result_def sliding_raw_def
        weightedSlidingCount_def or0_def field_simps)
  then show ?thesis using rs(1) by auto
qed

theorem dynamo_sliding_exceeds_cap_witness:
  "\<exists>r1 r2. fst (seq_run (demo_dynamo SLIDING_WINDOW False) ''k'' [(999, costing 2), (1500, costing 1)] (demo_world [])) = [Inr r1, Inr r2] \<and>
    \<not> isBlocked r1 \<and> \<not> isBlocked r2"
proof -
  let ?D = "demo_dynamo SLIDING_WINDOW False"
  have d: "dy_strategy ?D = SLIDING_WINDOW" "dy_windowMs ?D = 2 * 500" by code_simp+
  have c: "dy_cap ?D (costing 2) = 2 * 1" "dy_cap ?D (costing 1) = 2 * 1" "eff_cost (costing 2) = 2 * 1" "eff_cost (costing 1) = 1" by code_simp+
  have n: "dw_net (demo_world []) m = Served" "map_of (dw_table (demo_world [])) ''k'' = None" for m by (simp_all add: demo_world_def)
  from dynamo_sliding_exceeds_cap [OF d, of 1000 1 "demo_world []", OF _ _ n c] show ?thesis by (simp del: seq_run.simps)
qed

text \<open>A process whose clock is a sub-window behind the stored one cannot increment at all: after 24 attempts of
  three commands the store throws, even when it is to fail open, where the simulation of the same
  branches in \<open>sliding-weighted.ts\<close> starts the current sub-window again.\<close>

theorem dynamo_skew_throws:
  assumes "dy_strategy D = SLIDING_WINDOW" "1 \<le> dy_windowMs D" "\<And>n. dw_net w0 n = Served"
    and "map_of (dw_table w0) pk = Some x" "di_currentWindowStart x = Some ws"
    and "fixedWindowBoundaryMs now (dy_windowMs D) < ws"
  shows "\<exists>e w1. run_async (dy_increment D now o') pk w0 = (Inl e, w1) \<and> isProgrammerError e \<and>
    dw_calls w1 = dw_calls w0 + 72 \<and>
    ww_currentWindowStart (simulateWeightedIncrement (Some \<lparr>ww_currentWindowStart = ws, ww_currentCount = or0 (di_currentCount x),
      ww_previousCount = or0 (di_previousCount x)\<rparr>) now (dy_windowMs D) (eff_cost o')) = fixedWindowBoundaryMs now (dy_windowMs D)"
proof -
  let ?b = "fixedWindowBoundaryMs now (dy_windowMs D)" and ?ttl = "ttlEpochSeconds now (dy_windowMs D)"
  obtain w1 where w1: "run_async (runSlidingIncrementMutation 24 (eff_cost o') ?b (?b - dy_windowMs D) ?ttl) pk w0 =
      (Inl (Raised (Fault ''DynamoStore: sliding increment could not commit (too much contention at window boundary)'')), w1)"
    "dw_calls w1 = dw_calls w0 + 72"
    using skewed_attempts [OF assms(5,6,2,4,3), of 24] by auto
  have "run_async (dy_increment D now o') pk w0 =
      (Inl (Raised (Fault ''DynamoStore: sliding increment could not commit (too much contention at window boundary)'')), w1)"
    using w1(1) assms(1) by (simp add: dy_increment_def dy_incrementSliding_def run_async_bind eff_cost_def Let_def)
  then show ?thesis using w1(2) assms(2,6) by (simp add: simulateWeightedIncrement_def Let_def)
qed

theorem dynamo_skew_throws_witness:
  "\<exists>e w1. run_async (dy_increment (demo_dynamo SLIDING_WINDOW False) 999 None) ''k''
      (demo_world [(''k'', no_attributes\<lparr>di_currentWindowStart := Some 1000, di_currentCount := Some 1\<rparr>)]) = (Inl e, w1) \<and> isProgrammerError e"
proof -
  let ?D = "demo_dynamo SLIDING_WINDOW False" and ?x = "no_attributes\<lparr>di_currentWindowStart := Some 1000, di_currentCount := Some 1\<rparr>"
  have d: "dy_strategy ?D = SLIDING_WINDOW" "1 \<le> dy_windowMs ?D" "fixedWindowBoundaryMs 999 (dy_windowMs ?D) < 1000" by code_simp+
  have n: "dw_net (demo_world [(''k'', ?x)]) m = Served" "map_of (dw_table (demo_world [(''k'', ?x)])) ''k'' = Some ?x"
    "di_currentWindowStart ?x = Some 1000" for m by (simp_all add: demo_world_def)
  from dynamo_skew_throws [OF d(1,2) n d(3), of None] show ?thesis by blast
qed

text \<open>Read in the sub-window after the last hit, \<open>get\<close> weighs the last sub-window in full and gives a reset
  time in the past, where an increment at the same time weighs it down.\<close>

theorem dynamo_get_overstates:
  assumes "dy_strategy D = SLIDING_WINDOW" "1 \<le> dy_windowMs D" "dw_net w0 (dw_calls w0) = Served" "dy_observed D = False"
    and "map_of (dw_table w0) pk = Some x" "di_currentWindowStart x = Some ws" "di_currentCount x = Some n"
    and "fixedWindowBoundaryMs now (dy_windowMs D) = ws + dy_windowMs D"
  shows "\<exists>r r' x'. fst (run_async (dy_get D now) pk w0) = Inr (Some r) \<and> totalHits r = n \<and> resetTime r \<le> now \<and>
    dy_apply D (now, o') (Some x) = Some (r', x') \<and>
    totalHits r' = \<lceil>of_int n * slidingWeight now (dy_windowMs D) (ws + dy_windowMs D)\<rceil> + eff_cost o'"
proof -
  let ?w = "dy_windowMs D"
  have now: "ws + ?w \<le> now" "now < ws + 2 * ?w" using boundary_bounds [OF assms(2), of now] assms(8) by simp_all
  have "fst (run_async (dy_get D now) pk w0) = Inr (Some (sliding_result D x now (dy_maxRequests D)))"
    using assms(1-6) now
    by (simp add: dy_get_def dy_guard_throttled_def get_item_def serve_def Let_def slidingResultFromAttributes_def run_async_bind)
  moreover have "totalHits (sliding_result D x now (dy_maxRequests D)) = n" "resetTime (sliding_result D x now (dy_maxRequests D)) \<le> now"
    using assms(2,6,7) now
    by (simp_all add: sliding_result_def plain_result_def sliding_raw_def weightedSlidingCount_def slidingWeight_def or0_def Let_def)
  moreover obtain r' x' where a: "dy_apply D (now, o') (Some x) = Some (r', x')" "r' = sliding_result D x' now (dy_cap D o')"
    "di_previousCount x' = Some n" "di_currentCount x' = Some (eff_cost o')" "di_currentWindowStart x' = Some (ws + ?w)"
    using assms(1,2,6-8) by (simp add: dy_apply_def sliding_apply_def Let_def)
  then have "totalHits r' = \<lceil>of_int n * slidingWeight now ?w (ws + ?w)\<rceil> + eff_cost o'"
    by (simp add: sliding_result_def plain_result_def sliding_raw_def weightedSlidingCount_def or0_def Let_def)
  ultimately show ?thesis using a(1) by blast
qed

theorem dynamo_get_overstates_witness:
  "\<exists>r. fst (run_async (dy_get (demo_dynamo SLIDING_WINDOW False) 1900) ''k''
      (demo_world [(''k'', no_attributes\<lparr>di_currentWindowStart := Some 0, di_currentCount := Some 3\<rparr>)])) = Inr (Some r) \<and>
    totalHits r = 3 \<and> resetTime r \<le> 1900"
proof -
  let ?D = "demo_dynamo SLIDING_WINDOW False" and ?x = "no_attributes\<lparr>di_currentWindowStart := Some 0, di_currentCount := Some 3\<rparr>"
  have d: "dy_strategy ?D = SLIDING_WINDOW" "1 \<le> dy_windowMs ?D" "dy_observed ?D = False"
    "fixedWindowBoundaryMs 1900 (dy_windowMs ?D) = 0 + dy_windowMs ?D" by code_simp+
  have n: "dw_net (demo_world [(''k'', ?x)]) (dw_calls (demo_world [(''k'', ?x)])) = Served"
    "map_of (dw_table (demo_world [(''k'', ?x)])) ''k'' = Some ?x"
    "di_currentWindowStart ?x = Some 0" "di_currentCount ?x = Some 3" by (simp_all add: demo_world_def)
  from dynamo_get_overstates [OF d(1,2) n(1) d(3) n(2-4) d(4), of None] show ?thesis by blast
qed

text \<open>At the boundary two processes whose clocks differ by a millisecond can lose hits: the first finds no
  item and is overtaken by the second, which makes one for the sub-window before; the third command
  of the first then starts the new sub-window with a previous count of 0.\<close>

lemma boundary_race_loses_hits:
  "map_option (\<lambda>x. (di_currentWindowStart x, di_previousCount x, di_currentCount x))
     (sy_item (sys_run [(0, Served), (0, Served), (1, Served), (1, Served), (1, Served), (0, Served)]
        (sys_init (demo_dynamo SLIDING_WINDOW False) (\<lambda>i. if i = 0 then (1000, None) else (999, costing 2)) None))) =
   Some (Some 1000, Some 0, Some 1)"
  by code_simp

text \<open>\<open>set\<close> with an expiry answers with that expiry but does not store it: \<open>get\<close> gives the end of the window.\<close>

lemma dynamo_set_forgets_expiry:
  assumes "dy_strategy D = FIXED_WINDOW" "1 \<le> dy_windowMs D" "\<And>m. dw_net w0 m = Served"
  shows "\<exists>r w1 r'. run_async (dy_set D now n (Some t)) pk w0 = (Inr r, w1) \<and> resetTime r = t \<and>
    fst (run_async (dy_get D now) pk w1) = Inr (Some r') \<and>
    resetTime r' = fixedWindowBoundaryMs now (dy_windowMs D) + dy_windowMs D"
proof -
  have "now < fixedWindowBoundaryMs now (dy_windowMs D) + dy_windowMs D" by (rule boundary_bounds(2) [OF assms(2)])
  then show ?thesis using assms
    by (auto simp: dy_set_def dy_get_def dy_guard_throttled_def await_then_def put_item_def get_item_def serve_def
        put_back_def Let_def fixedResultFromAttributes_def window_result_def plain_result_def or0_def)
qed

end
