(* ===== verification/Spec2Isabelle.thy ===== *)
theory Spec2Isabelle
  imports Memory_Store_Quota In_Memory_Shield Circuit_Breaker Escalation Composed_Store Key_Manager
    Percentile Metrics_Counters Rate_Limit_Engine Redis_Store_Properties Request_Queue_Properties
    Cluster_Store_Properties Header_Properties Http_Properties Limits_Quota Queue_Middleware_Properties Nest_Run
    Pg_Concurrency Mongo_Store_Properties Dynamo_Store_Properties
begin

text \<open>
  A model of ratelimit-flex, a rate limiting library in TypeScript (sources under \<open>src/\<close>).

  The program. A middleware hands each request to a \<open>RateLimitEngine\<close>. The engine runs its policy
  checks (skip function, allowlist, blocklist, key manager, penalty box) and then asks one store, or
  several stores for grouped windows, to count the request. A store answers with a result that says
  how many hits are counted, how many remain, when the window resets and whether the request is
  blocked. Stores can be wrapped (the shield, which answers for keys known to be blocked) and
  composed (several layers in one of four modes). A key manager keeps manual and automatic blocks,
  and metrics are recorded on the way.

  The theories, each with the file it models:

    \<^item> \<open>Flex_Prelude\<close>: the JavaScript values the option objects can hold, insertion-ordered maps
      (association lists updated in place and appended to), generic lemmas;
    \<^item> \<open>Clamp\<close>: \<open>utils/clamp.ts\<close> and \<open>utils/key-hygiene.ts\<close>, the sanitisers and key helpers;
    \<^item> \<open>Flex_Types\<close>: \<open>types/index.ts\<close> and \<open>composition/types.ts\<close>, results, option objects, the method
      table \<open>store_ops\<close> of a store, and the locales \<open>rate_limit_store\<close> and \<open>quota_store\<close>, the contract
      that the shield, the composed store and the engine rely on;
    \<^item> \<open>Memory_Store\<close>: \<open>stores/memory-store.ts\<close>, the class, its representation invariant and the usage a
      store counts against a key; \<open>Memory_Store_Laws\<close>: what each operation does to invariant and usage,
      and the interpretation of the contract on \<open>mem_ops\<close>; \<open>Memory_Store_Quota\<close>: runs of increments, and
      how much a window, a fixed window or a bucket can grant over time;
    \<^item> \<open>In_Memory_Shield\<close>: \<open>shield/InMemoryShield.ts\<close> over any store; an increment is split into its look-up
      and its completion, so that the cache bound holds under every interleaving of the two;
    \<^item> \<open>Circuit_Breaker\<close>: \<open>resilience/CircuitBreaker.ts\<close> as a transition system;
    \<^item> \<open>Composed_Store\<close>: \<open>composition/ComposedStore.ts\<close>, layers that share a heap of stores;
    \<^item> \<open>Escalation\<close> and \<open>Key_Manager\<close>: \<open>key-manager/\<close>, penalty durations, and the key manager over any
      store and block store, with \<open>MemoryBlockStore\<close>;
    \<^item> \<open>Percentile\<close> and \<open>Metrics_Counters\<close>: \<open>metrics/\<close>, quickselect, histogram, counters and ring buffers;
    \<^item> \<open>Rate_Limit_Engine\<close>: \<open>strategies/rate-limit-engine.ts\<close>, which calls most of the above;
    \<^item> \<open>Redis_Server\<close>, \<open>Redis_Store\<close>, \<open>Redis_Store_Laws\<close>, \<open>Redis_Store_Properties\<close>:
      \<open>stores/redis-store.ts\<close>. The Redis server is a parameter, a table of the commands the scripts
      call, and the locale \<open>redis_server\<close> states their documented effect; the Lua scripts and the
      class, with its insurance store and circuit breaker, are definitions over that table. A
      simulation relates the Redis entries of a key to the entries of the in-memory store;
    \<^item> \<open>Request_Queue\<close>, \<open>Request_Queue_Properties\<close>: \<open>queue/\<close>, the request queue over any store, its
      methods cut at their awaits so that every interleaving of calls, store effects, timers and
      continuations is a run, and the pool of queues per key. \<open>list_inv\<close> is the invariant of the linked
      list, \<open>alert\<close> says that waiters will be tried again, \<open>balanced\<close> that probes are undone;
    \<^item> \<open>Cluster_Store\<close>, \<open>Cluster_Store_Properties\<close>: \<open>cluster/\<close> and \<open>stores/ClusterStore.ts\<close>, the primary that
      owns the stores, the store objects of the workers, and the system in which they exchange messages;
      a run is a list of events (calls, resumptions, deliveries, timers). \<open>cs_tally\<close> accounts for every
      call, \<open>provenance\<close> leads every answer back to its request, \<open>in_flight\<close> says that a reply will
      come, \<open>one_store\<close> that the primary's log is a run of one in-memory store;
    \<^item> \<open>Store_Utils\<close> and \<open>Store_Refinement\<close>: \<open>utils/store-utils.ts\<close>, and the locale \<open>memory_refinement\<close>, in
      which runs of a store that simulates the in-memory store are shown to agree with it; the
      PostgreSQL and the MongoDB store interpret it;
    \<^item> \<open>Pg_Store\<close>, \<open>Pg_Store_Properties\<close>, \<open>Pg_Concurrency\<close>: \<open>stores/postgres/\<close>, each SQL statement a function
      on the table, the class over them with lost round trips and transactions, the simulation \<open>pg_sim\<close>
      to the in-memory store, the sweep, and token-bucket transactions that overlap in time;
    \<^item> \<open>Mongo_Store\<close>, \<open>Mongo_Store_Properties\<close>: \<open>stores/mongo/\<close>, each update pipeline a function on
      documents, the class over them, the simulation \<open>mg_sim\<close>, and where the store differs;
    \<^item> \<open>Dynamo_Store\<close>, \<open>Dynamo_Store_Properties\<close>: \<open>stores/dynamo/\<close>, each method a program cut at its
      commands (\<open>async\<close>), a command a function on the item of the key. \<open>dy_apply\<close> is the intended effect of
      an increment, \<open>commits\<close> says that a program has it at most once; the system runs any number of
      increments of one key with refused commands and lost replies;
    \<^item> \<open>Header_Format\<close>, \<open>Header_Properties\<close>: \<open>headers/\<close> and \<open>middleware/validate-header-options.ts\<close>, the four
      header profiles and their resolution; readers for each profile's grammar give the announced quota
      back;
    \<^item> \<open>Http_Middleware\<close>, \<open>Http_Properties\<close>: \<open>middleware/express.ts\<close>, \<open>middleware/fastify.ts\<close> and
      \<open>hono/rateLimiter.ts\<close>, a request handler as a function into an \<open>exchange\<close> and the engine's next state,
      the refund as a second step; runs interleave the arrivals and the finished responses;
    \<^item> \<open>Middleware_Merge\<close>, \<open>Merge_Properties\<close>, \<open>Limits_Quota\<close>: \<open>middleware/merge-options.ts\<close>,
      \<open>composition/compose.ts\<close> and the options of the NestJS module and guard; the objects they construct
      live in a \<open>mw_world\<close>. \<open>layer_account\<close> says that the stamps of a layer account for what the composed
      store has granted;
    \<^item> \<open>Queue_Middleware\<close>, \<open>Queue_Middleware_Properties\<close>: the middlewares that wait
      (\<open>middleware/expressQueuedRateLimiter.ts\<close>, \<open>middleware/fastifyQueuedRateLimiter.ts\<close>,
      \<open>hono/queuedRateLimiter.ts\<close>), a request up to its place in the queue and from its outcome to the
      answer, over the runs of \<open>Request_Queue\<close>;
    \<^item> \<open>Nest_Guard\<close>, \<open>Nest_Properties\<close>, \<open>Nest_Run\<close>: \<open>nestjs/RateLimitGuard.ts\<close>, one request through the guard, with
      the options of its route and the engines that the guard keeps per handler; they share the store, the
      key manager and the metrics, and each has its own penalty box. \<open>Nest_Run\<close> has runs of requests, and
      compares two of them that differ in the window of one route (\<open>differ_at\<close>).

  What the lemmas show. For the in-memory store: its invariant, the decision of every increment, that
  the purge is unobservable, and quotas over any run. For the components above a store: which answer
  they give in terms of the answers of the stores below them, and that what they undo is undone. For
  the breaker, the key manager and the metrics: invariants over every sequence of calls, and the exact
  effect of their operations over time. For the Redis store: that it refines the in-memory store while
  Redis answers, and what it answers while Redis does not. For the PostgreSQL store: the same
  refinement, what its sweep loses, and when overlapping transactions are serialisable. For the MongoDB
  store: that refinement with its exceptions. For the DynamoDB store: that overlapping increments have
  a serial order, and how far its weighted window is from an exact one. For the queue: that it is a queue,
  forgets no waiter, and takes back every probe it does not grant. For the cluster: that all workers together keep the limit of one
  store. For the headers: that a reader of any profile gets the announced quota back. For the HTTP adapters: the quota
  end to end, exact refunds within a window, and that the adapters agree. For the NestJS guard: that it
  answers as Express does, and that the window of a route changes no decision. For merging: that every limit of
  \<open>limits\<close> is announced and enforced. Some theorems record where the code falls short of this.

  Conventions. Numbers are \<open>int\<close> where the code keeps integers (exact below 2^53) and \<open>rat\<close> where it
  takes arbitrary numbers; times are integer milliseconds. Values that come from callers are
  \<open>js_value\<close>, and only the sanitisers look at them. A synchronous stretch of code runs at one time
  \<open>now\<close>, passed as an argument. A rejected promise or a thrown error is \<open>Inl\<close> of its message. A
  \<open>Map\<close> is an association list in insertion order. Callbacks are recorded as events; what they do is
  the consumer's code. An asynchronous method is one step, except where the text of a theory says
  otherwise. Which round trips to Redis are lost, and before or after the script ran, is a function of
  the store; the server's clock is the caller's. The loop that empties the request queue has as many
  rounds of fuel as entries were ever made, which no list exceeds. A token bucket's interval is at least one millisecond (\<open>options_ok\<close>).

  Not modelled: consistency of DynamoDB reads and the connection handling of the database drivers; a key
  manager that is given the engine's own shield as its store (the key manager has its own, see
  \<open>Key_Manager\<close>); the percentile rank in doubles (it is an exact number here); the reflection behind the NestJS
  decorators and the dependency injection of the module; the compatibility layer for express-rate-limit;
  the HTTP administration endpoints; the metrics collector and the exporters to third-party metric
  libraries, which format what \<open>Metrics_Counters\<close> computes; presets, environment detection and re-exports.
\<close>

end
